(* ===== verification/Nplg_Prelude.thy ===== *)
theory Nplg_Prelude
  imports Complex_Main "HOL-Library.Log_Nat" "HOL-Library.Code_Target_Nat"
begin

text \<open>
  The shared ground of the library: the result and state-operation types every component
  uses, the Python values the sources test with \<^verbatim>\<open>type(x) is T\<close>, IEEE binary64 floats
  (values, rounding, comparisons), Python strings as code-point lists, and the generic
  lemmas on lists, association lists and sums that the component proofs share.
\<close>

section \<open>Collections of facts\<close>

named_theorems branch_simps \<open>definitions unfolded to walk through the branches of an operation\<close>
named_theorems inv_simps \<open>definitions of the component invariants\<close>

section \<open>Results and state operations\<close>

text \<open>
  An operation of the code takes the state of its object and returns the value or the
  exception it raises together with the state it leaves behind. The state is returned on
  the exceptional path too, because Python keeps what was assigned before the raise.
\<close>

type_synonym ('e, 's, 'a) op = "'s \<Rightarrow> ('e + 'a) \<times> 's"

definition is_ok :: "'e + 'a \<Rightarrow> bool" where
  "is_ok r = (case r of Inl e \<Rightarrow> False | Inr a \<Rightarrow> True)"

definition rbind :: "'e + 'a \<Rightarrow> ('a \<Rightarrow> 'e + 'b) \<Rightarrow> 'e + 'b" where
  "rbind r f = (case r of Inl e \<Rightarrow> Inl e | Inr a \<Rightarrow> f a)"

definition obind :: "('e, 's, 'a) op \<Rightarrow> ('a \<Rightarrow> ('e, 's, 'b) op) \<Rightarrow> ('e, 's, 'b) op" where
  "obind m f = (\<lambda>s. case m s of (Inl e, s') \<Rightarrow> (Inl e, s') | (Inr a, s') \<Rightarrow> f a s')"

lemma is_ok_simps [simp]: "is_ok (Inr a)" "\<not> is_ok (Inl e)"
  by (simp_all add: is_ok_def)

lemma is_ok_iff: "is_ok r \<longleftrightarrow> (\<exists>a. r = Inr a)"
  by (cases r) simp_all

lemma rbind_simps [simp]: "rbind (Inl e) f = Inl e" "rbind (Inr a) f = f a"
  by (simp_all add: rbind_def)

lemma rbind_eq_Inr: "rbind r f = Inr b \<longleftrightarrow> (\<exists>a. r = Inr a \<and> f a = Inr b)"
  by (cases r) simp_all

lemma rbind_eq_Inl: "rbind r f = Inl e \<longleftrightarrow> r = Inl e \<or> (\<exists>a. r = Inr a \<and> f a = Inl e)"
  by (cases r) simp_all

section \<open>Python strings\<close>

text \<open>
  A Python \<^verbatim>\<open>str\<close> is a sequence of Unicode code points, a \<^verbatim>\<open>bytes\<close> value a sequence
  of numbers below 256. Both are lists of naturals; \<open>codes\<close> turns an ASCII literal into one.
\<close>

type_synonym pystr = "nat list"
type_synonym bytes = "nat list"

definition codes :: "string \<Rightarrow> pystr" where
  "codes s = map of_char s"

definition is_bytes :: "bytes \<Rightarrow> bool" where
  "is_bytes bs = (\<forall>b\<in>set bs. b < 256)"

definition starts_with :: "'a list \<Rightarrow> 'a list \<Rightarrow> bool" where
  "starts_with p s = (take (length p) s = p)"

lemma codes_simps [simp]:
  "codes [] = []" "codes (c # cs) = of_char c # codes cs"
  "codes (xs @ ys) = codes xs @ codes ys" "length (codes xs) = length xs"
  by (simp_all add: codes_def)

lemma codes_inject [simp]: "codes xs = codes ys \<longleftrightarrow> xs = ys"
  by (simp add: codes_def inj_map_eq_map inj_def)

lemma starts_with_append [simp]: "starts_with p (p @ s)"
  by (simp add: starts_with_def)

lemma starts_with_iff: "starts_with p s \<longleftrightarrow> (\<exists>t. s = p @ t)"
  by (metis append_eq_conv_conj append_take_drop_id starts_with_def)

text \<open>\<^verbatim>\<open>str.split(sep)\<close>, \<^verbatim>\<open>sep.join(parts)\<close> and \<^verbatim>\<open>str.split(sep, 1)\<close> for a one-character separator.\<close>

fun split_on :: "'a \<Rightarrow> 'a list \<Rightarrow> 'a list list" where
  "split_on c [] = [[]]"
| "split_on c (x # xs) =
     (if x = c then [] # split_on c xs
      else (case split_on c xs of [] \<Rightarrow> [[x]] | w # ws \<Rightarrow> (x # w) # ws))"

fun join_with :: "'a list \<Rightarrow> 'a list list \<Rightarrow> 'a list" where
  "join_with sep [] = []"
| "join_with sep [w] = w"
| "join_with sep (w # v # ws) = w @ sep @ join_with sep (v # ws)"

definition split_once :: "'a \<Rightarrow> 'a list \<Rightarrow> ('a list \<times> 'a list) option" where
  "split_once c s =
     (let a = takeWhile (\<lambda>x. x \<noteq> c) s; r = dropWhile (\<lambda>x. x \<noteq> c) s
      in if r = [] then None else Some (a, tl r))"

lemma split_on_nonempty [simp]: "split_on c xs \<noteq> []"
  by (induction xs) (auto split: list.splits)

lemma split_on_no_sep: "\<forall>w\<in>set (split_on c xs). c \<notin> set w"
  by (induction xs) (auto split: list.splits)

lemma join_split_on [simp]: "join_with [c] (split_on c xs) = xs"
proof (induction xs)
  case (Cons x xs)
  obtain w ws where e: "split_on c xs = w # ws"
    using split_on_nonempty by (metis list.exhaust)
  with Cons.IH show ?case by (cases ws) (auto simp: e)
qed simp

lemma split_on_append:
  "c \<notin> set w \<Longrightarrow> split_on c (w @ c # s) = w # split_on c s"
  by (induction w) auto

lemma split_on_single: "c \<notin> set w \<Longrightarrow> split_on c w = [w]"
  by (induction w) auto

lemma split_on_join:
  "ws \<noteq> [] \<Longrightarrow> \<forall>w\<in>set ws. c \<notin> set w \<Longrightarrow> split_on c (join_with [c] ws) = ws"
proof (induction ws rule: induct_list012)
  case (3 w v ws)
  then show ?case by (simp add: split_on_append)
qed (simp_all add: split_on_single)

lemma split_once_Some: "split_once c s = Some (a, b) \<longleftrightarrow> s = a @ c # b \<and> c \<notin> set a"
proof
  assume h: "split_once c s = Some (a, b)"
  have "s = takeWhile (\<lambda>x. x \<noteq> c) s @ dropWhile (\<lambda>x. x \<noteq> c) s" by simp
  with h show "s = a @ c # b \<and> c \<notin> set a"
    unfolding split_once_def Let_def
    by (metis (mono_tags, lifting) Pair_inject hd_dropWhile list.collapse option.distinct(1)
        option.inject set_takeWhileD)
next
  assume "s = a @ c # b \<and> c \<notin> set a"
  then have s: "s = a @ c # b" and n: "c \<notin> set a" by simp_all
  have t: "takeWhile (\<lambda>x. x \<noteq> c) s = a"
    using n by (auto simp: s takeWhile_append)
  have d: "dropWhile (\<lambda>x. x \<noteq> c) s = c # b"
    using n by (auto simp: s dropWhile_append)
  show "split_once c s = Some (a, b)"
    by (simp add: split_once_def t d)
qed

section \<open>Sums over lists\<close>

lemma sum_list_map_update:
  fixes f :: "'a \<Rightarrow> int"
  shows "i < length xs \<Longrightarrow> sum_list (map f (xs[i := x])) = sum_list (map f xs) - f (xs ! i) + f x"
  by (induction xs arbitrary: i) (auto split: nat.splits)

lemma sum_list_map_nonneg:
  fixes f :: "'a \<Rightarrow> int"
  shows "\<forall>x\<in>set xs. 0 \<le> f x \<Longrightarrow> 0 \<le> sum_list (map f xs)"
  by (induction xs) auto

lemma sum_list_map_member_le:
  fixes f :: "'a \<Rightarrow> int"
  shows "\<forall>x\<in>set xs. 0 \<le> f x \<Longrightarrow> x \<in> set xs \<Longrightarrow> f x \<le> sum_list (map f xs)"
  by (induction xs) (auto dest: sum_list_map_nonneg)

lemma length_filter_update_drop:
  "i < length xs \<Longrightarrow> P (xs ! i) \<Longrightarrow> \<not> P x \<Longrightarrow>
   Suc (length (filter P (xs[i := x]))) = length (filter P xs)"
  by (induction xs arbitrary: i) (auto split: nat.splits)

lemma length_filter_update_le:
  "\<not> P x \<Longrightarrow> length (filter P (xs[i := x])) \<le> length (filter P xs)"
  by (induction xs arbitrary: i) (auto split: nat.splits intro: le_SucI)

lemma set_filter_update_subset:
  "\<not> P x \<Longrightarrow> set (filter P (xs[i := x])) \<subseteq> set (filter P xs)"
  using set_update_subset_insert [of xs i x] by auto

end
