(* ===== verification/Nplg_Float.thy ===== *)
theory Nplg_Float
  imports Nplg_Prelude
begin

text \<open>
  Python floats: IEEE 754 binary64. A finite value is the rational it denotes (the two
  zeros are identified, as every comparison of the sources identifies them); arithmetic is
  exact arithmetic on rationals followed by rounding to nearest, ties to even, with
  overflow to an infinity. Comparisons with NaN are false, as in Python.
\<close>

datatype pyfloat = Fin rat | PInf | NInf | NaN

section \<open>Rounding to binary64\<close>

definition round_half_even :: "rat \<Rightarrow> int" where
  "round_half_even x =
     (let f = \<lfloor>x\<rfloor>; d = x - of_int f
      in if d < 1 / 2 then f else if 1 / 2 < d then f + 1 else if even f then f else f + 1)"

definition pow2 :: "int \<Rightarrow> rat" where
  "pow2 k = (if 0 \<le> k then of_int (2 ^ nat k) else 1 / of_int (2 ^ nat (- k)))"

definition ilog2 :: "rat \<Rightarrow> int" where
  "ilog2 x =
     (let (p, q) = quotient_of x; e = bitlen p - bitlen q
      in if pow2 e \<le> x then e else e - 1)"

definition ulp :: "rat \<Rightarrow> rat" where
  "ulp x = pow2 (max (ilog2 \<bar>x\<bar>) (- 1022) - 52)"

definition grid_round :: "rat \<Rightarrow> rat" where
  "grid_round x = of_int (round_half_even (x / ulp x)) * ulp x"

definition fl_limit :: rat where
  "fl_limit = pow2 1024"

lemma fl_limit_code [code]: "fl_limit = 179769313486231590772930519078902473361797697894230657273430081157732675805500963132708477322407536021120113879871393357658789768814416622492847430639474124377767893424865485276302219601246094119453082952085005768838150682342462881473913110540827237163350510684586298239947245938479716304835356329624224137216"
  by (simp add: fl_limit_def pow2_def)

definition fl_round :: "rat \<Rightarrow> pyfloat" where
  "fl_round x =
     (if x = 0 then Fin 0
      else let r = grid_round x
           in if r < fl_limit \<and> - (fl_limit) < r then Fin r
              else if 0 < x then PInf else NInf)"

section \<open>Predicates, comparisons and arithmetic\<close>

definition isfinite :: "pyfloat \<Rightarrow> bool" where
  "isfinite a = (case a of Fin _ \<Rightarrow> True | _ \<Rightarrow> False)"

fun flt :: "pyfloat \<Rightarrow> pyfloat \<Rightarrow> bool" where
  "flt NaN b = False"
| "flt a NaN = False"
| "flt (Fin x) (Fin y) = (x < y)"
| "flt (Fin x) PInf = True"
| "flt (Fin x) NInf = False"
| "flt PInf b = False"
| "flt NInf NInf = False"
| "flt NInf b = True"

fun fle :: "pyfloat \<Rightarrow> pyfloat \<Rightarrow> bool" where
  "fle NaN b = False"
| "fle a NaN = False"
| "fle (Fin x) (Fin y) = (x \<le> y)"
| "fle (Fin x) PInf = True"
| "fle (Fin x) NInf = False"
| "fle PInf PInf = True"
| "fle PInf b = False"
| "fle NInf b = True"

text \<open>Python's two-argument \<^verbatim>\<open>max\<close> and \<^verbatim>\<open>min\<close> keep the first argument unless the second wins.\<close>

definition fmax :: "pyfloat \<Rightarrow> pyfloat \<Rightarrow> pyfloat" where
  "fmax a b = (if flt a b then b else a)"

definition fmin :: "pyfloat \<Rightarrow> pyfloat \<Rightarrow> pyfloat" where
  "fmin a b = (if flt b a then b else a)"

fun fadd :: "pyfloat \<Rightarrow> pyfloat \<Rightarrow> pyfloat" where
  "fadd NaN b = NaN"
| "fadd a NaN = NaN"
| "fadd (Fin x) (Fin y) = fl_round (x + y)"
| "fadd PInf NInf = NaN"
| "fadd NInf PInf = NaN"
| "fadd PInf b = PInf"
| "fadd a PInf = PInf"
| "fadd NInf b = NInf"
| "fadd a NInf = NInf"

fun fneg :: "pyfloat \<Rightarrow> pyfloat" where
  "fneg (Fin x) = Fin (- x)"
| "fneg PInf = NInf"
| "fneg NInf = PInf"
| "fneg NaN = NaN"

definition fsub :: "pyfloat \<Rightarrow> pyfloat \<Rightarrow> pyfloat" where
  "fsub a b = fadd a (fneg b)"

text \<open>
  Multiplication is used by the sources on finite operands only; an infinite operand gives
  the infinity of the product's sign, and zero times an infinity is NaN.
\<close>

definition fsign :: "pyfloat \<Rightarrow> int" where
  "fsign a = (case a of Fin x \<Rightarrow> (if x < 0 then - 1 else if x = 0 then 0 else 1)
                      | PInf \<Rightarrow> 1 | NInf \<Rightarrow> - 1 | NaN \<Rightarrow> 0)"

definition fmul :: "pyfloat \<Rightarrow> pyfloat \<Rightarrow> pyfloat" where
  "fmul a b =
     (case (a, b) of
        (Fin x, Fin y) \<Rightarrow> fl_round (x * y)
      | _ \<Rightarrow> (if a = NaN \<or> b = NaN \<or> fsign a * fsign b = 0 then NaN
              else if 0 < fsign a * fsign b then PInf else NInf))"

definition fdiv :: "pyfloat \<Rightarrow> pyfloat \<Rightarrow> pyfloat" where
  "fdiv a b =
     (case (a, b) of
        (Fin x, Fin y) \<Rightarrow> fl_round (x / y)
      | (Fin x, PInf) \<Rightarrow> Fin 0
      | (Fin x, NInf) \<Rightarrow> Fin 0
      | _ \<Rightarrow> NaN)"

text \<open>A decimal literal of the sources denotes the float nearest to it.\<close>

abbreviation flit :: "rat \<Rightarrow> pyfloat" where
  "flit x \<equiv> fl_round x"

section \<open>Rounding is monotone and odd\<close>

lemma round_half_even_mono:
  assumes "x \<le> y"
  shows "round_half_even x \<le> round_half_even y"
proof -
  have fl: "\<lfloor>x\<rfloor> \<le> \<lfloor>y\<rfloor>" using assms by (rule floor_mono)
  show ?thesis
  proof (cases "\<lfloor>x\<rfloor> = \<lfloor>y\<rfloor>")
    case True
    with assms show ?thesis by (simp add: round_half_even_def Let_def)
  next
    case False
    with fl have "\<lfloor>x\<rfloor> + 1 \<le> \<lfloor>y\<rfloor>" by simp
    moreover have "round_half_even x \<le> \<lfloor>x\<rfloor> + 1" by (simp add: round_half_even_def Let_def)
    moreover have "\<lfloor>y\<rfloor> \<le> round_half_even y" by (simp add: round_half_even_def Let_def)
    ultimately show ?thesis by linarith
  qed
qed

lemma round_half_even_of_int [simp]: "round_half_even (of_int n) = n"
  by (simp add: round_half_even_def)

lemma round_half_even_minus: "round_half_even (- x) = - round_half_even x"
proof (cases "x = of_int \<lfloor>x\<rfloor>")
  case True
  then show ?thesis by (metis of_int_minus round_half_even_of_int)
next
  case False
  define f d where "f = \<lfloor>x\<rfloor>" and "d = x - of_int f"
  have x: "x = of_int f + d" and d: "0 < d" "d < 1"
    using False floor_correct [of x] of_int_floor_le [of x]
    by (simp_all add: f_def d_def order_less_le)
  have nf: "\<lfloor>- x\<rfloor> = - f - 1"
    using d by (simp add: x floor_eq_iff)
  have nd: "- x - of_int (- f - 1) = 1 - d" by (simp add: x)
  show ?thesis
    unfolding round_half_even_def Let_def nf nd
    by (simp add: f_def [symmetric] d_def [symmetric])
qed

lemma pow2_powi: "pow2 k = 2 powi k"
  by (simp add: pow2_def power_int_def inverse_eq_divide power_one_over)

lemma powi_two_pos [simp]: "0 < (2 :: rat) powi e"
  by (simp add: zero_less_power_int)

lemma powi_two_mono: "i \<le> j \<Longrightarrow> (2 :: rat) powi i \<le> 2 powi j"
  by (simp add: power_int_increasing)

lemma powi_two_nat: "0 \<le> i \<Longrightarrow> (2 :: rat) powi i = of_int (2 ^ nat i)"
  by (simp add: power_int_def)

lemma bitlen_powi_bounds:
  assumes "0 < p"
  shows "2 powi (bitlen p - 1) \<le> (of_int p :: rat)" and "(of_int p :: rat) < 2 powi (bitlen p)"
proof -
  have b: "2 ^ nat (bitlen p - 1) \<le> p" "p < 2 ^ nat (bitlen p)"
    using bitlen_bounds [OF assms] by simp_all
  have "1 \<le> bitlen p" using assms bitlen_nonneg bitlen_eq_zero_iff [of p] by (metis
      add_0 linorder_not_le order_le_less zless_add1_eq)
  then show "2 powi (bitlen p - 1) \<le> (of_int p :: rat)"
    using b(1) by (simp only: powi_two_nat of_int_le_iff)
  show "(of_int p :: rat) < 2 powi (bitlen p)"
    using b(2) bitlen_nonneg [of p] by (simp only: powi_two_nat of_int_less_iff)
qed

lemma ilog2_bounds:
  assumes "0 < x"
  shows "2 powi (ilog2 x) \<le> x" and "x < 2 powi (ilog2 x + 1)"
proof -
  obtain p q where pq: "quotient_of x = (p, q)" by fastforce
  have q: "0 < q" using quotient_of_denom_pos [OF pq] .
  have x: "x = of_int p / of_int q" using quotient_of_div [OF pq] .
  have p: "0 < p" using assms q by (simp add: x zero_less_divide_iff)
  define e where "e = bitlen p - bitlen q"
  have hi: "x < 2 powi (e + 1)"
  proof -
    have "x < 2 powi (bitlen p) / 2 powi (bitlen q - 1)"
      unfolding x using bitlen_powi_bounds(2) [OF p] bitlen_powi_bounds(1) [OF q] q p
      by (intro frac_less) simp_all
    then show ?thesis by (simp add: e_def power_int_diff [symmetric] algebra_simps)
  qed
  have lo: "2 powi (e - 1) \<le> x"
  proof -
    have "2 powi (bitlen p - 1) / 2 powi (bitlen q) \<le> x"
      unfolding x using bitlen_powi_bounds(1) [OF p] bitlen_powi_bounds(2) [OF q] q p
      by (intro frac_le) simp_all
    then show ?thesis by (simp add: e_def power_int_diff [symmetric] algebra_simps)
  qed
  show "2 powi (ilog2 x) \<le> x" "x < 2 powi (ilog2 x + 1)"
    using lo hi by (auto simp: ilog2_def pow2_powi pq e_def Let_def not_le)
qed

lemma ilog2_mono: "0 < x \<Longrightarrow> x \<le> y \<Longrightarrow> ilog2 x \<le> ilog2 y"
proof (rule ccontr)
  assume x: "0 < x" and xy: "x \<le> y" and n: "\<not> ilog2 x \<le> ilog2 y"
  then have "y < 2 powi (ilog2 y + 1)" and "2 powi (ilog2 x) \<le> x"
    using ilog2_bounds by auto
  moreover have "(2 :: rat) powi (ilog2 y + 1) \<le> 2 powi (ilog2 x)"
    using n by (intro powi_two_mono) simp
  ultimately show False using xy by linarith
qed

lemma grid_round_le_boundary:
  assumes "0 < x" and "x \<le> 2 powi k" and "max (ilog2 x) (- 1022) - 52 \<le> k"
  shows "grid_round x \<le> 2 powi k"
proof -
  define u where "u = ulp x"
  have u: "u = 2 powi (max (ilog2 x) (- 1022) - 52)" using assms(1) by (simp add: u_def ulp_def pow2_powi)
  have up: "0 < u" by (simp add: u)
  define n where "n = (2 :: int) ^ nat (k - (max (ilog2 x) (- 1022) - 52))"
  have n: "2 powi k / u = of_int n"
    using assms(3) by (simp add: u n_def power_int_diff [symmetric] powi_two_nat)
  have "x / u \<le> of_int n"
    unfolding n [symmetric] using assms(2) up by (simp add: divide_right_mono)
  then have "round_half_even (x / u) \<le> n"
    using round_half_even_mono by fastforce
  then have "of_int (round_half_even (x / u)) * u \<le> of_int n * u"
    using up by (simp add: mult_right_mono)
  also have "of_int n * u = 2 powi k" using up by (simp add: n [symmetric])
  finally show ?thesis by (simp add: grid_round_def u_def)
qed

lemma boundary_le_grid_round:
  assumes "0 < y" and "2 powi k \<le> y" and "max (ilog2 y) (- 1022) - 52 \<le> k"
  shows "2 powi k \<le> grid_round y"
proof -
  define u where "u = ulp y"
  have u: "u = 2 powi (max (ilog2 y) (- 1022) - 52)" using assms(1) by (simp add: u_def ulp_def pow2_powi)
  have up: "0 < u" by (simp add: u)
  define n where "n = (2 :: int) ^ nat (k - (max (ilog2 y) (- 1022) - 52))"
  have n: "2 powi k / u = of_int n"
    using assms(3) by (simp add: u n_def power_int_diff [symmetric] powi_two_nat)
  have "of_int n \<le> y / u"
    unfolding n [symmetric] using assms(2) up by (simp add: divide_right_mono)
  then have "n \<le> round_half_even (y / u)"
    using round_half_even_mono by fastforce
  then have "of_int n * u \<le> of_int (round_half_even (y / u)) * u"
    using up by (simp add: mult_right_mono)
  moreover have "of_int n * u = 2 powi k" using up by (simp add: n [symmetric])
  ultimately show ?thesis by (simp add: grid_round_def u_def)
qed

lemma grid_round_nonneg: "0 \<le> x \<Longrightarrow> 0 \<le> grid_round x"
proof -
  assume "0 \<le> x"
  then have "0 \<le> x / ulp x" by (simp add: ulp_def pow2_powi order_less_imp_le)
  then have "0 \<le> round_half_even (x / ulp x)"
    using round_half_even_mono [of 0 "x / ulp x"] round_half_even_of_int [of 0] by simp
  then show ?thesis by (simp add: grid_round_def ulp_def pow2_powi order_less_imp_le)
qed

lemma grid_round_mono_pos:
  assumes "0 < x" and "x \<le> y"
  shows "grid_round x \<le> grid_round y"
proof (cases "max (ilog2 x) (- 1022) = max (ilog2 y) (- 1022)")
  case True
  then have u: "ulp x = ulp y" using assms by (simp add: ulp_def pow2_powi)
  have "0 < ulp y" by (simp add: ulp_def pow2_powi)
  then show ?thesis
    unfolding grid_round_def u using assms(2)
    by (intro mult_right_mono of_int_le_iff [THEN iffD2] round_half_even_mono divide_right_mono)
      simp_all
next
  case False
  have m: "ilog2 x \<le> ilog2 y" using assms by (rule ilog2_mono)
  with False have lt: "ilog2 x < ilog2 y" "- 1022 < ilog2 y" by auto
  have "x < 2 powi (ilog2 x + 1)" using ilog2_bounds(2) [OF assms(1)] .
  also have "(2 :: rat) powi (ilog2 x + 1) \<le> 2 powi (ilog2 y)"
    using lt by (intro powi_two_mono) simp
  finally have "grid_round x \<le> 2 powi (ilog2 y)"
    using assms(1) lt by (intro grid_round_le_boundary) auto
  also have "2 powi (ilog2 y) \<le> grid_round y"
    using assms lt ilog2_bounds(1) [of y] by (intro boundary_le_grid_round) auto
  finally show ?thesis .
qed

lemma grid_round_minus: "grid_round (- x) = - grid_round x"
  by (simp add: grid_round_def ulp_def pow2_powi round_half_even_minus)

lemma grid_round_mono: "x \<le> y \<Longrightarrow> grid_round x \<le> grid_round y"
proof -
  assume xy: "x \<le> y"
  consider "0 < x" | "y < 0" | "x \<le> 0" "0 \<le> y" by linarith
  then show ?thesis
  proof cases
    case 1
    with xy show ?thesis by (simp add: grid_round_mono_pos)
  next
    case 2
    with xy have "grid_round (- y) \<le> grid_round (- x)" by (intro grid_round_mono_pos) simp_all
    then show ?thesis by (simp add: grid_round_minus)
  next
    case 3
    then have "grid_round x \<le> 0" using grid_round_nonneg [of "- x"] by (simp add: grid_round_minus)
    also have "0 \<le> grid_round y" using 3 by (simp add: grid_round_nonneg)
    finally show ?thesis .
  qed
qed

lemma grid_round_zero [simp]: "grid_round 0 = 0"
  by (simp add: grid_round_def round_half_even_def)

lemma fl_limit_pos [simp]: "0 < fl_limit" "\<not> fl_limit \<le> 0"
  by (simp_all add: fl_limit_def pow2_powi)

lemma fl_round_cases:
  "fl_round x = (if grid_round x < fl_limit \<and> - (fl_limit) < grid_round x then Fin (grid_round x)
                 else if 0 < grid_round x then PInf else NInf)"
proof (cases "x = 0")
  case True
  then show ?thesis by (simp add: fl_round_def)
next
  case False
  have "0 < x \<Longrightarrow> 0 \<le> grid_round x" by (simp add: grid_round_nonneg)
  moreover have "x < 0 \<Longrightarrow> grid_round x \<le> 0"
    using grid_round_nonneg [of "- x"] by (simp add: grid_round_minus)
  ultimately show ?thesis
    using False fl_limit_pos by (auto simp: fl_round_def Let_def not_less)
qed

lemma round_half_even_error: "\<bar>of_int (round_half_even x) - x\<bar> \<le> 1 / 2"
  using floor_correct [of x] by (auto simp: round_half_even_def Let_def abs_le_iff)

lemma grid_round_error: "\<bar>grid_round x - x\<bar> \<le> ulp x / 2"
proof -
  have u: "0 < ulp x" by (simp add: ulp_def pow2_powi)
  have "grid_round x - x = (of_int (round_half_even (x / ulp x)) - x / ulp x) * ulp x"
    using u by (simp add: grid_round_def left_diff_distrib)
  then have "\<bar>grid_round x - x\<bar> = \<bar>of_int (round_half_even (x / ulp x)) - x / ulp x\<bar> * ulp x"
    using u by (simp add: abs_mult)
  also have "\<dots> \<le> 1 / 2 * ulp x"
    using u round_half_even_error [of "x / ulp x"] by (intro mult_right_mono) simp_all
  finally show ?thesis by simp
qed

lemma ulp_le_one: "0 < x \<Longrightarrow> x < 2 ^ 53 \<Longrightarrow> ulp x \<le> 1"
proof -
  assume x: "0 < x" "x < 2 ^ 53"
  have "ilog2 x \<le> 52"
  proof (rule ccontr)
    assume "\<not> ilog2 x \<le> 52"
    then have "(2 :: rat) powi 53 \<le> 2 powi (ilog2 x)" by (intro powi_two_mono) simp
    with ilog2_bounds(1) [OF x(1)] x(2) show False by (simp add: power_int_def)
  qed
  then have "ulp x \<le> 2 powi 0" using x(1) unfolding ulp_def pow2_powi by (intro powi_two_mono) simp
  then show ?thesis by simp
qed

section \<open>The order of floats\<close>

lemma flt_irrefl [simp]: "\<not> flt a a"
  by (cases a) auto

lemma flt_imp_fle: "flt a b \<Longrightarrow> fle a b"
  by (cases a; cases b) auto

lemma fle_trans: "fle a b \<Longrightarrow> fle b c \<Longrightarrow> fle a c"
  by (cases a; cases b; cases c) auto

lemma fle_flt_trans: "fle a b \<Longrightarrow> flt b c \<Longrightarrow> flt a c"
  by (cases a; cases b; cases c) auto

lemma flt_fle_trans: "flt a b \<Longrightarrow> fle b c \<Longrightarrow> flt a c"
  by (cases a; cases b; cases c) auto

lemma not_flt_fle: "a \<noteq> NaN \<Longrightarrow> b \<noteq> NaN \<Longrightarrow> \<not> flt a b \<longleftrightarrow> fle b a"
  by (cases a; cases b) auto

lemma fsub_Fin [simp]: "fsub (Fin x) (Fin y) = fl_round (x - y)"
  by (simp add: fsub_def)

lemma isfinite_iff: "isfinite a \<longleftrightarrow> (\<exists>x. a = Fin x)"
  by (cases a) (simp_all add: isfinite_def)

lemma isfinite_Fin [simp]: "isfinite (Fin x)"
  by (simp add: isfinite_def)

lemma fl_round_not_NaN [simp]: "fl_round x \<noteq> NaN"
  by (simp add: fl_round_cases)

lemma fl_round_mono: "x \<le> y \<Longrightarrow> fle (fl_round x) (fl_round y)"
  using grid_round_mono [of x y] fl_limit_pos by (auto simp: fl_round_cases not_less)

lemma fl_round_zero [simp]: "fl_round 0 = Fin 0"
  by (simp add: fl_round_def)

lemma fle_extremes: "a \<noteq> NaN \<Longrightarrow> fle a PInf" "a \<noteq> NaN \<Longrightarrow> fle NInf a"
  by (cases a; simp)+

lemma fadd_mono_right:
  "fle a b \<Longrightarrow> isfinite c \<Longrightarrow> fle (fadd c a) (fadd c b)"
  by (cases a; cases b; cases c) (auto simp: isfinite_def fl_round_mono fle_extremes)

lemma fadd_mono_left:
  "fle a b \<Longrightarrow> isfinite c \<Longrightarrow> fle (fadd a c) (fadd b c)"
  by (cases a; cases b; cases c) (auto simp: isfinite_def fl_round_mono fle_extremes)

lemma fl_round_small:
  assumes "0 \<le> x" and "x < 2 ^ 53"
  shows "fl_round x = Fin (grid_round x) \<and> \<bar>grid_round x - x\<bar> \<le> 1 / 2"
proof (cases "x = 0")
  case True
  then show ?thesis by (simp add: fl_round_def)
next
  case False
  with assms have u: "ulp x \<le> 1" by (intro ulp_le_one) simp_all
  with grid_round_error [of x] have e: "\<bar>grid_round x - x\<bar> \<le> 1 / 2" by linarith
  have "(2 :: rat) powi 54 \<le> fl_limit" unfolding fl_limit_def pow2_powi by (intro powi_two_mono) simp
  moreover have "grid_round x < 2 powi 54"
  proof -
    have "(2 :: rat) powi 54 = 2 ^ 53 * 2" and "(1 :: rat) / 2 \<le> 2 ^ 53" by (simp_all add: power_int_def)
    moreover have "grid_round x - x \<le> 1 / 2" using e by (simp only: abs_le_iff)
    ultimately show ?thesis using assms(2) by linarith
  qed
  moreover have "0 \<le> grid_round x" using assms(1) by (rule grid_round_nonneg)
  ultimately have "grid_round x < fl_limit" "- fl_limit < grid_round x" using fl_limit_pos by linarith+
  with e show ?thesis by (simp add: fl_round_cases)
qed

text \<open>A dyadic rational with a 53-bit numerator is a float: no rounding happens.\<close>

lemma grid_round_dyadic:
  assumes "\<bar>m\<bar> < 2 ^ 53" and "m \<noteq> 0" and "j \<le> 1000"
  shows "grid_round (of_int m / 2 ^ j) = of_int m / 2 ^ j"
proof -
  let ?x = "of_int m / 2 ^ j :: rat"
  define k where "k = max (ilog2 \<bar>?x\<bar>) (- 1022) - 52"
  have u: "ulp ?x = 2 powi k" by (simp add: ulp_def pow2_powi k_def)
  have ax: "0 < \<bar>?x\<bar>" using assms(2) by simp
  have "\<bar>of_int m :: rat\<bar> < 2 ^ 53" using assms(1) by (metis of_int_abs of_int_less_iff of_int_numeral of_int_power)
  then have "\<bar>?x\<bar> < 2 ^ 53 / 2 ^ j" by (simp add: divide_strict_right_mono)
  also have "(2 :: rat) ^ 53 / 2 ^ j = 2 powi (53 - int j)"
    using power_int_diff [of "2 :: rat" 53 "int j"] by (simp add: power_int_numeral)
  finally have "(2 :: rat) powi (ilog2 \<bar>?x\<bar>) < 2 powi (53 - int j)"
    using ilog2_bounds(1) [OF ax] by linarith
  then have "ilog2 \<bar>?x\<bar> < 53 - int j"
    using powi_two_mono [of "53 - int j" "ilog2 \<bar>?x\<bar>"] by (meson leD not_le)
  with assms(3) have kj: "k \<le> - int j" by (simp add: k_def)
  have "?x = of_int m * 2 powi (- int j)" by (simp add: power_int_minus field_simps)
  also have "(2 :: rat) powi (- int j) = 2 powi (- int j - k) * 2 powi k"
    by (simp add: power_int_add [symmetric])
  also have "(2 :: rat) powi (- int j - k) = of_int (2 ^ nat (- int j - k))"
    using kj by (intro powi_two_nat) simp
  finally have "?x / 2 powi k = of_int (m * 2 ^ nat (- int j - k))" by (simp add: nonzero_divide_eq_eq mult_ac)
  then have "?x / ulp ?x = of_int (m * 2 ^ nat (- int j - k))" unfolding u .
  then show ?thesis
    unfolding grid_round_def by (metis (no_types, lifting) round_half_even_of_int divide_eq_eq powi_two_pos order_less_irrefl u)
qed

lemma fl_round_dyadic:
  assumes "\<bar>m\<bar> < 2 ^ 53" and "j \<le> 1000"
  shows "fl_round (of_int m / 2 ^ j) = Fin (of_int m / 2 ^ j)"
proof (cases "m = 0")
  case False
  let ?x = "of_int m / 2 ^ j :: rat"
  have g: "grid_round ?x = ?x" using assms False by (intro grid_round_dyadic)
  have "\<bar>of_int m :: rat\<bar> < 2 ^ 53" using assms(1) by (metis of_int_abs of_int_less_iff of_int_numeral of_int_power)
  moreover have "\<bar>?x\<bar> \<le> \<bar>of_int m\<bar>" by (simp add: divide_le_eq mult_le_cancel_left1)
  moreover have "(2 :: rat) ^ 53 \<le> fl_limit"
    using powi_two_mono [of 53 1024] by (simp add: fl_limit_def pow2_powi power_int_def del: power_numeral)
  ultimately have "?x < fl_limit" "- fl_limit < ?x" by linarith+
  then show ?thesis by (simp add: fl_round_cases g)
qed simp

lemma fl_round_of_int: "\<bar>m\<bar> < 2 ^ 53 \<Longrightarrow> fl_round (of_int m) = Fin (of_int m)"
  using fl_round_dyadic [of m 0] by simp

lemma fl_round_numeral [simp]:
  "(numeral n :: int) < 9007199254740992 \<Longrightarrow> fl_round (numeral n) = Fin (numeral n)"
  "(numeral n :: int) < 9007199254740992 \<Longrightarrow> fl_round (- numeral n) = Fin (- numeral n)"
  "fl_round 1 = Fin 1" "fl_round (- 1) = Fin (- 1)"
  using fl_round_of_int [of "numeral n"] fl_round_of_int [of "- numeral n"] fl_round_of_int [of 1]
    fl_round_of_int [of "- 1"] by simp_all

text \<open>Below \<open>2 ^ 51\<close> the rounding error is at most an eighth.\<close>

lemma grid_round_error_51:
  assumes "0 \<le> x" and "x < 2 ^ 51"
  shows "\<bar>grid_round x - x\<bar> \<le> 1 / 8"
proof (cases "x = 0")
  case False
  with assms(1) have x: "0 < x" by simp
  have "ilog2 x \<le> 50"
  proof (rule ccontr)
    assume "\<not> ilog2 x \<le> 50"
    then have "(2 :: rat) powi 51 \<le> 2 powi (ilog2 x)" by (intro powi_two_mono) simp
    with ilog2_bounds(1) [OF x] assms(2) show False by (simp add: power_int_def)
  qed
  then have "ulp x \<le> 2 powi (- 2)" using x unfolding ulp_def pow2_powi by (intro powi_two_mono) simp
  then have "ulp x \<le> 1 / 4" by (simp add: power_int_def power2_eq_square)
  with grid_round_error [of x] show ?thesis by linarith
qed simp

lemma fl_round_error_51:
  assumes "0 \<le> x" and "x < 2 ^ 51"
  obtains y where "fl_round x = Fin y" and "x - 1 / 8 \<le> y" and "y \<le> x + 1 / 8"
proof -
  have "fl_round x = Fin (grid_round x)" using assms by (intro fl_round_small [THEN conjunct1]) simp_all
  moreover have "x - 1 / 8 \<le> grid_round x" "grid_round x \<le> x + 1 / 8"
    using grid_round_error_51 [OF assms] unfolding abs_le_iff by linarith+
  ultimately show thesis by (rule that)
qed

lemma fle_Fin_fl_round: "x \<le> y \<Longrightarrow> fl_round x = Fin x \<Longrightarrow> fle (Fin x) (fl_round y)"
  using fl_round_mono [of x y] by simp

lemma fl_round_le_Fin: "x \<le> y \<Longrightarrow> fl_round y = Fin y \<Longrightarrow> fle (fl_round x) (Fin y)"
  using fl_round_mono [of x y] by simp

lemma fl_round_between:
  assumes "a \<le> x" "x \<le> b" "fl_round a = Fin a" "fl_round b = Fin b"
  shows "\<exists>y. fl_round x = Fin y \<and> a \<le> y \<and> y \<le> b"
proof -
  have "fle (Fin a) (fl_round x)" "fle (fl_round x) (Fin b)"
    using assms by (simp_all add: fle_Fin_fl_round fl_round_le_Fin)
  then show ?thesis by (cases "fl_round x") simp_all
qed

lemma fl_round_halves [simp]: "fl_round (1 / 2) = Fin (1 / 2)" "fl_round (3 / 2) = Fin (3 / 2)"
    "fl_round (- (1 / 2)) = Fin (- (1 / 2))"
  using fl_round_dyadic [of 1 1] fl_round_dyadic [of 3 1] fl_round_dyadic [of "- 1" 1] by simp_all

lemma fl_round_within:
  assumes "0 \<le> x" "x < 2 powi k" "- 900 \<le> k" "k \<le> 1000"
  shows "\<exists>r. fl_round x = Fin r \<and> 0 \<le> r \<and> \<bar>r - x\<bar> \<le> 2 powi (k - 54)"
proof (cases "x = 0")
  case True
  then show ?thesis by (simp add: fl_round_def)
next
  case False
  then have x: "0 < x" using assms(1) by simp
  have il: "ilog2 x < k"
  proof -
    have "(2 :: rat) powi (ilog2 x) < 2 powi k" using ilog2_bounds(1) [OF x] assms(2) by linarith
    then show ?thesis using powi_two_mono [of k "ilog2 x"] by linarith
  qed
  have "ulp x \<le> 2 powi (k - 53)" using il assms(3) x by (auto simp: ulp_def pow2_powi intro!: powi_two_mono)
  moreover have "(2 :: rat) powi (k - 53) / 2 = 2 powi (k - 54)"
    using power_int_diff [of "2::rat" "k - 53" 1] by simp
  ultimately have e: "\<bar>grid_round x - x\<bar> \<le> 2 powi (k - 54)" using grid_round_error [of x] by linarith
  have "grid_round x \<le> 2 powi k" using x assms(2,3) il by (intro grid_round_le_boundary) auto
  moreover have "(2 :: rat) powi k < 2 powi 1024" using assms(4) by (intro power_int_strict_increasing) auto
  moreover have "0 \<le> grid_round x" using grid_round_mono [of 0 x] x by (simp add: grid_round_def round_half_even_def)
  ultimately have "grid_round x < fl_limit" "- fl_limit < grid_round x"
    unfolding fl_limit_def pow2_powi by linarith+
  with e False \<open>0 \<le> grid_round x\<close> show ?thesis by (simp add: fl_round_def Let_def)
qed

end
