(* ===== verification/Nplg_Errors.thy ===== *)
theory Nplg_Errors
  imports Nplg_Float
begin

text \<open>
  The error values of the application (\<^verbatim>\<open>src/nplg_mcp/errors.py\<close>) and the Python objects
  the sources inspect with \<^verbatim>\<open>type(x) is T\<close>. Containers live in a heap, because the
  public-detail snapshot compares object identities and must terminate on cyclic details.
  The lemmas show that the snapshot terminates, copies exactly what the heap denotes and
  keeps every public bound.
\<close>

section \<open>Python objects\<close>

text \<open>
  \<open>PRef i\<close> is the object with identity \<open>i\<close>, a list or a dict of the heap; \<open>POther\<close> is an
  object of any other type (tuples, sets, subclasses of the built-in types).
\<close>

datatype pyobj = PNone | PBool bool | PInt int | PFloat pyfloat | PStr pystr | PRef nat | POther

datatype pycont = CDict "(pyobj \<times> pyobj) list" | CList "pyobj list"

type_synonym heap = "nat \<Rightarrow> pycont option"

datatype json =
    JNull | JBool bool | JInt int | JFloat pyfloat | JStr pystr
  | JArr "json list" | JObj "(pystr \<times> json) list"

section \<open>Error codes, exceptions, application errors\<close>

datatype ErrorCode =
    INVALID_INPUT | NOT_FOUND | RESTRICTED | UPSTREAM_FAILURE | DOWNLOAD_TOO_LARGE
  | INVALID_DOCUMENT | PDF_PROCESSING_FAILED | RATE_LIMITED | REQUEST_TIMEOUT | CACHE_FULL
  | UNAUTHORIZED | INTERNAL_ERROR

fun error_code_value :: "ErrorCode \<Rightarrow> string" where
  "error_code_value INVALID_INPUT = ''INVALID_INPUT''"
| "error_code_value NOT_FOUND = ''NOT_FOUND''"
| "error_code_value RESTRICTED = ''RESTRICTED''"
| "error_code_value UPSTREAM_FAILURE = ''UPSTREAM_FAILURE''"
| "error_code_value DOWNLOAD_TOO_LARGE = ''DOWNLOAD_TOO_LARGE''"
| "error_code_value INVALID_DOCUMENT = ''INVALID_DOCUMENT''"
| "error_code_value PDF_PROCESSING_FAILED = ''PDF_PROCESSING_FAILED''"
| "error_code_value RATE_LIMITED = ''RATE_LIMITED''"
| "error_code_value REQUEST_TIMEOUT = ''REQUEST_TIMEOUT''"
| "error_code_value CACHE_FULL = ''CACHE_FULL''"
| "error_code_value UNAUTHORIZED = ''UNAUTHORIZED''"
| "error_code_value INTERNAL_ERROR = ''INTERNAL_ERROR''"

record app_error =
  err_code :: ErrorCode
  err_message :: string
  http_status :: int
  safe_details :: "pyobj option"
  internal_details :: "pyobj option"

definition AppError :: "ErrorCode \<Rightarrow> string \<Rightarrow> int \<Rightarrow> app_error" where
  "AppError c m h =
     \<lparr>err_code = c, err_message = m, http_status = h, safe_details = None,
      internal_details = None\<rparr>"

datatype pyexc =
    ValueError string | RuntimeError string | TypeError string | TimeoutError string
  | OSError string | OverflowError string | ZeroDivisionError string | KeyError string | CancelledError | AppErr app_error
  | UpstreamUnavailable pyfloat

type_synonym 'a res = "pyexc + 'a"

abbreviation app_fail :: "ErrorCode \<Rightarrow> string \<Rightarrow> int \<Rightarrow> 'a res" where
  "app_fail c m h \<equiv> Inl (AppErr (AppError c m h))"

section \<open>The bounded public-detail snapshot\<close>

definition MAX_PUBLIC_DETAIL_DEPTH :: nat where "MAX_PUBLIC_DETAIL_DEPTH = 32"
definition MAX_PUBLIC_DETAIL_VALUES :: nat where "MAX_PUBLIC_DETAIL_VALUES = 4096"
definition MAX_PUBLIC_DETAIL_STRING_CODE_POINTS :: nat where
  "MAX_PUBLIC_DETAIL_STRING_CODE_POINTS = 65536"
definition MAX_PUBLIC_DETAIL_INTEGER_BITS :: int where "MAX_PUBLIC_DETAIL_INTEGER_BITS = 256"

text \<open>
  \<open>_SnapshotFrame\<close>. The code stores an empty child container in its parent and fills it
  afterwards through the shared reference; here a frame owns its target together with the
  key it goes under (\<open>slot\<close>), and the target moves into the parent when the frame is
  popped, before the parent continues with its next entry.
\<close>

record SnapshotFrame =
  entries :: "(pyobj \<times> pyobj) list"
  target :: json
  source_identity :: nat
  depth :: nat
  index :: nat
  slot :: pyobj

definition enumerate_list :: "'a list \<Rightarrow> (pyobj \<times> 'a) list" where
  "enumerate_list xs = zip (map (\<lambda>i. PInt (int i)) [0..<length xs]) xs"

definition snapshot_frame ::
  "heap \<Rightarrow> nat \<Rightarrow> pyobj \<Rightarrow> nat \<Rightarrow> nat \<Rightarrow> SnapshotFrame option" where
  "snapshot_frame h source key d remaining_values =
     (case h source of
        Some (CDict es) \<Rightarrow>
          if remaining_values < length es then None
          else Some \<lparr>entries = es, target = JObj [], source_identity = source, depth = d,
                     index = 0, slot = key\<rparr>
      | Some (CList xs) \<Rightarrow>
          if remaining_values < length xs then None
          else Some \<lparr>entries = enumerate_list xs, target = JArr [], source_identity = source,
                     depth = d, index = 0, slot = key\<rparr>
      | None \<Rightarrow> None)"

definition checked_string_total :: "nat \<Rightarrow> pystr \<Rightarrow> nat option" where
  "checked_string_total current v =
     (let updated = current + length v
      in if MAX_PUBLIC_DETAIL_STRING_CODE_POINTS < updated then None else Some updated)"

definition consume_public_detail_value :: "nat \<Rightarrow> nat option" where
  "consume_public_detail_value current =
     (let updated = current + 1
      in if MAX_PUBLIC_DETAIL_VALUES < updated then None else Some updated)"

definition snapshot_scalar :: "pyobj \<Rightarrow> nat \<Rightarrow> (json \<times> nat) option" where
  "snapshot_scalar v string_total =
     (case v of
        PNone \<Rightarrow> Some (JNull, string_total)
      | PBool b \<Rightarrow> Some (JBool b, string_total)
      | PInt n \<Rightarrow> (if MAX_PUBLIC_DETAIL_INTEGER_BITS < bitlen \<bar>n\<bar> then None
                   else Some (JInt n, string_total))
      | PFloat x \<Rightarrow> (if \<not> isfinite x then None else Some (JFloat x, string_total))
      | PStr t \<Rightarrow> (case checked_string_total string_total t of
                      None \<Rightarrow> None | Some u \<Rightarrow> Some (JStr t, u))
      | _ \<Rightarrow> None)"

fun dict_set :: "('k \<times> 'v) list \<Rightarrow> 'k \<Rightarrow> 'v \<Rightarrow> ('k \<times> 'v) list" where
  "dict_set [] k v = [(k, v)]"
| "dict_set ((k', v') # es) k v = (if k' = k then (k, v) # es else (k', v') # dict_set es k v)"

definition store_snapshot :: "json \<Rightarrow> pyobj \<Rightarrow> json \<Rightarrow> json option" where
  "store_snapshot t key v =
     (case t of
        JArr vs \<Rightarrow> Some (JArr (vs @ [v]))
      | JObj es \<Rightarrow> (case key of PStr k \<Rightarrow> Some (JObj (dict_set es k v)) | _ \<Rightarrow> None)
      | _ \<Rightarrow> None)"

text \<open>The key check of one loop iteration: only dict targets charge (and type-check) their key.\<close>

definition charge_key :: "json \<Rightarrow> pyobj \<Rightarrow> nat \<Rightarrow> nat option" where
  "charge_key t key string_total =
     (case t of
        JObj _ \<Rightarrow> (case key of PStr k \<Rightarrow> checked_string_total string_total k | _ \<Rightarrow> None)
      | _ \<Rightarrow> Some string_total)"

text \<open>
  The locals of \<open>_snapshot_public_details\<close> and one iteration of its \<^verbatim>\<open>while stack\<close> loop.
  \<open>Rejected\<close> is \<open>_InvalidPublicDetailsError\<close>, \<open>Finished\<close> the loop's exit with the root
  target; the stack is a list with its top first.
\<close>

record SnapshotState =
  stack :: "SnapshotFrame list"
  total_values :: nat
  string_total :: nat
  active_containers :: "nat set"

datatype snapshot_outcome = Rejected | Finished json | Continue SnapshotState

definition snapshot_pop :: "SnapshotState \<Rightarrow> SnapshotFrame \<Rightarrow> SnapshotFrame list \<Rightarrow> snapshot_outcome" where
  "snapshot_pop st frame rest =
     (case rest of
        [] \<Rightarrow> Finished (target frame)
      | parent # below \<Rightarrow>
          (case store_snapshot (target parent) (slot frame) (target frame) of
             None \<Rightarrow> Rejected
           | Some t \<Rightarrow>
               Continue (st\<lparr>stack := parent\<lparr>target := t\<rparr> # below,
                            active_containers := active_containers st - {source_identity frame}\<rparr>)))"

definition snapshot_push ::
  "heap \<Rightarrow> SnapshotState \<Rightarrow> SnapshotFrame \<Rightarrow> SnapshotFrame list \<Rightarrow> pyobj \<Rightarrow> nat \<Rightarrow> snapshot_outcome" where
  "snapshot_push h st frame rest key child =
     (if MAX_PUBLIC_DETAIL_DEPTH < depth frame + 1 then Rejected
      else if child \<in> active_containers st then Rejected
      else (case snapshot_frame h child key (depth frame + 1)
                   (MAX_PUBLIC_DETAIL_VALUES - total_values st) of
              None \<Rightarrow> Rejected
            | Some child_frame \<Rightarrow>
                Continue (st\<lparr>stack := child_frame # frame # rest,
                             active_containers := insert child (active_containers st)\<rparr>)))"

definition snapshot_leaf ::
  "SnapshotState \<Rightarrow> SnapshotFrame \<Rightarrow> SnapshotFrame list \<Rightarrow> pyobj \<Rightarrow> pyobj \<Rightarrow> snapshot_outcome" where
  "snapshot_leaf st frame rest key item =
     (case snapshot_scalar item (string_total st) of
        None \<Rightarrow> Rejected
      | Some (v, chars) \<Rightarrow>
          (case store_snapshot (target frame) key v of
             None \<Rightarrow> Rejected
           | Some t \<Rightarrow> Continue (st\<lparr>stack := frame\<lparr>target := t\<rparr> # rest, string_total := chars\<rparr>)))"

definition snapshot_entry ::
  "heap \<Rightarrow> SnapshotState \<Rightarrow> SnapshotFrame \<Rightarrow> SnapshotFrame list \<Rightarrow> pyobj \<Rightarrow> pyobj \<Rightarrow> snapshot_outcome" where
  "snapshot_entry h st frame rest key item =
     (case charge_key (target frame) key (string_total st) of
        None \<Rightarrow> Rejected
      | Some chars \<Rightarrow>
          (case consume_public_detail_value (total_values st) of
             None \<Rightarrow> Rejected
           | Some vals \<Rightarrow>
               (let st = st\<lparr>string_total := chars, total_values := vals\<rparr>;
                    frame = frame\<lparr>index := index frame + 1\<rparr>
                in case item of
                     PRef child \<Rightarrow> (if h child = None then Rejected
                                    else snapshot_push h st frame rest key child)
                   | _ \<Rightarrow> snapshot_leaf st frame rest key item)))"

definition snapshot_step :: "heap \<Rightarrow> SnapshotState \<Rightarrow> snapshot_outcome" where
  "snapshot_step h st =
     (case stack st of
        [] \<Rightarrow> Rejected
      | frame # rest \<Rightarrow>
          (if length (entries frame) \<le> index frame then snapshot_pop st frame rest
           else case entries frame ! index frame of
                  (key, item) \<Rightarrow> snapshot_entry h st frame rest key item))"

definition snapshot_measure :: "SnapshotState \<Rightarrow> nat" where
  "snapshot_measure st = 2 * (MAX_PUBLIC_DETAIL_VALUES - total_values st) + length (stack st)"

text \<open>Case analysis of one iteration, the form every invariant proof of the loop uses.\<close>

lemma snapshot_step_cases:
  assumes "snapshot_step h st = Continue st'"
  obtains
    (pop) frame parent below t where "stack st = frame # parent # below"
      "length (entries frame) \<le> index frame"
      "store_snapshot (target parent) (slot frame) (target frame) = Some t"
      "st' = st\<lparr>stack := parent\<lparr>target := t\<rparr> # below,
                active_containers := active_containers st - {source_identity frame}\<rparr>"
  | (push) frame rest key child chars child_frame where "stack st = frame # rest"
      "index frame < length (entries frame)" "entries frame ! index frame = (key, PRef child)"
      "charge_key (target frame) key (string_total st) = Some chars"
      "total_values st < MAX_PUBLIC_DETAIL_VALUES" "depth frame < MAX_PUBLIC_DETAIL_DEPTH"
      "child \<notin> active_containers st"
      "snapshot_frame h child key (depth frame + 1)
         (MAX_PUBLIC_DETAIL_VALUES - (total_values st + 1)) = Some child_frame"
      "st' = st\<lparr>stack := child_frame # frame\<lparr>index := index frame + 1\<rparr> # rest,
                total_values := total_values st + 1, string_total := chars,
                active_containers := insert child (active_containers st)\<rparr>"
  | (leaf) frame rest key item chars v chars' t where "stack st = frame # rest"
      "index frame < length (entries frame)" "entries frame ! index frame = (key, item)"
      "charge_key (target frame) key (string_total st) = Some chars"
      "total_values st < MAX_PUBLIC_DETAIL_VALUES"
      "snapshot_scalar item chars = Some (v, chars')"
      "store_snapshot (target frame) key v = Some t"
      "st' = st\<lparr>stack := frame\<lparr>index := index frame + 1, target := t\<rparr> # rest,
                total_values := total_values st + 1, string_total := chars'\<rparr>"
proof -
  obtain frame rest where s: "stack st = frame # rest"
    using assms by (auto simp: snapshot_step_def split: list.splits)
  show thesis
  proof (cases "length (entries frame) \<le> index frame")
    case True
    with assms s show thesis
      by (auto simp: snapshot_step_def snapshot_pop_def split: list.splits option.splits intro: pop)
  next
    case False
    obtain key item where ki: "entries frame ! index frame = (key, item)" by fastforce
    have e: "snapshot_entry h st frame rest key item = Continue st'"
      using assms s False ki by (simp add: snapshot_step_def)
    then obtain chars where c: "charge_key (target frame) key (string_total st) = Some chars"
      and v: "total_values st < MAX_PUBLIC_DETAIL_VALUES"
      by (auto simp: snapshot_entry_def consume_public_detail_value_def Let_def
          split: option.splits if_splits)
    show thesis
    proof (cases "\<exists>child. item = PRef child")
      case True
      then obtain child where i: "item = PRef child" by blast
      from e c v show thesis
        by (auto simp: i snapshot_entry_def consume_public_detail_value_def snapshot_push_def Let_def
            split: option.splits if_splits intro!: push [OF s _ ki [unfolded i] c v])
          (use False in simp_all)
    next
      case no: False
      with e c v have "snapshot_leaf (st\<lparr>string_total := chars, total_values := total_values st + 1\<rparr>)
          (frame\<lparr>index := index frame + 1\<rparr>) rest key item = Continue st'"
        by (cases item) (auto simp: snapshot_entry_def consume_public_detail_value_def Let_def
            split: option.splits if_splits)
      then show thesis
        using False
        by (auto simp: snapshot_leaf_def split: option.splits prod.splits
            intro!: leaf [OF s _ ki c v])
    qed
  qed
qed

lemma snapshot_step_measure:
  "snapshot_step h st = Continue st' \<Longrightarrow> snapshot_measure st' < snapshot_measure st"
  by (elim snapshot_step_cases) (simp_all add: snapshot_measure_def)

function snapshot_loop :: "heap \<Rightarrow> SnapshotState \<Rightarrow> json option" where
  "snapshot_loop h st =
     (case snapshot_step h st of
        Rejected \<Rightarrow> None
      | Finished j \<Rightarrow> Some j
      | Continue st' \<Rightarrow> snapshot_loop h st')"
  by pat_completeness auto
termination
  by (relation "measure (\<lambda>(h, st). snapshot_measure st)") (simp_all add: snapshot_step_measure)

declare snapshot_loop.simps [simp del]

text \<open>The invariant rule of the loop: what every iteration keeps holds when it finishes.\<close>

lemma snapshot_loop_rule:
  assumes "snapshot_loop h st = Some j" and "P st"
    and "\<And>st st'. P st \<Longrightarrow> snapshot_step h st = Continue st' \<Longrightarrow> P st'"
    and "\<And>st j. P st \<Longrightarrow> snapshot_step h st = Finished j \<Longrightarrow> Q j"
  shows "Q j"
  using assms(1,2)
proof (induction st rule: measure_induct_rule [where f = snapshot_measure])
  case (less st)
  show ?case
  proof (cases "snapshot_step h st")
    case Rejected
    with less.prems show ?thesis by (simp add: snapshot_loop.simps [of h st])
  next
    case (Finished k)
    with less.prems have "k = j" by (simp add: snapshot_loop.simps [of h st])
    with less.prems(2) Finished show ?thesis using assms(4) by blast
  next
    case (Continue st')
    with less.prems(1) have "snapshot_loop h st' = Some j"
      by (simp add: snapshot_loop.simps [of h st])
    moreover have "P st'" using less.prems(2) Continue assms(3) by blast
    ultimately show ?thesis using less.IH snapshot_step_measure [OF Continue] by blast
  qed
qed

definition snapshot_public_details :: "heap \<Rightarrow> pyobj \<Rightarrow> json option" where
  "snapshot_public_details h v =
     (case v of
        PRef r \<Rightarrow>
          (case h r of
             Some (CDict _) \<Rightarrow>
               (case snapshot_frame h r PNone 0 (MAX_PUBLIC_DETAIL_VALUES - 1) of
                  None \<Rightarrow> None
                | Some f \<Rightarrow> snapshot_loop h \<lparr>stack = [f], total_values = 1, string_total = 0,
                                              active_containers = {r}\<rparr>)
           | _ \<Rightarrow> None)
      | _ \<Rightarrow> None)"

definition internal_public_error :: json where
  "internal_public_error =
     JObj [(codes ''code'', JStr (codes (error_code_value INTERNAL_ERROR))),
           (codes ''message'', JStr (codes ''The server could not complete the request.''))]"

definition to_public_error :: "heap \<Rightarrow> pyexc \<Rightarrow> json" where
  "to_public_error h error =
     (case error of
        AppErr e \<Rightarrow>
          (let result = [(codes ''code'', JStr (codes (error_code_value (err_code e)))),
                         (codes ''message'', JStr (codes (err_message e)))]
           in case safe_details e of
                None \<Rightarrow> JObj result
              | Some d \<Rightarrow>
                  (case snapshot_public_details h d of
                     None \<Rightarrow> internal_public_error
                   | Some (JObj []) \<Rightarrow> JObj result
                   | Some details \<Rightarrow> JObj (dict_set result (codes ''details'') details)))
      | _ \<Rightarrow> internal_public_error)"

section \<open>The bounds of a public snapshot\<close>

fun jvals :: "json \<Rightarrow> nat" where
  "jvals (JArr js) = Suc (sum_list (map jvals js))"
| "jvals (JObj es) = Suc (sum_list (map (\<lambda>e. jvals (snd e)) es))"
| "jvals j = 1"

fun jchars :: "json \<Rightarrow> nat" where
  "jchars (JArr js) = sum_list (map jchars js)"
| "jchars (JObj es) = sum_list (map (\<lambda>e. length (fst e) + jchars (snd e)) es)"
| "jchars (JStr s) = length s"
| "jchars j = 0"

text \<open>\<open>bounded d j\<close>: a value at nesting depth \<open>d\<close> that keeps the depth and scalar bounds.\<close>

fun bounded :: "nat \<Rightarrow> json \<Rightarrow> bool" where
  "bounded d (JArr js) = (d \<le> MAX_PUBLIC_DETAIL_DEPTH \<and> (\<forall>j\<in>set js. bounded (Suc d) j))"
| "bounded d (JObj es) = (d \<le> MAX_PUBLIC_DETAIL_DEPTH \<and> (\<forall>e\<in>set es. bounded (Suc d) (snd e)))"
| "bounded d (JInt n) = (bitlen \<bar>n\<bar> \<le> MAX_PUBLIC_DETAIL_INTEGER_BITS)"
| "bounded d (JFloat x) = isfinite x"
| "bounded d j = True"

definition key_chars :: "json \<Rightarrow> pyobj \<Rightarrow> nat" where
  "key_chars t key = (case t of JObj _ \<Rightarrow> (case key of PStr k \<Rightarrow> length k | _ \<Rightarrow> 0) | _ \<Rightarrow> 0)"

fun pending_chars :: "SnapshotFrame list \<Rightarrow> nat" where
  "pending_chars (c # p # rest) = key_chars (target p) (slot c) + pending_chars (p # rest)"
| "pending_chars _ = 0"

fun depths_ok :: "SnapshotFrame list \<Rightarrow> bool" where
  "depths_ok [] = True"
| "depths_ok (f # rest) = (depth f = length rest \<and> depths_ok rest)"

definition bounds_inv :: "SnapshotState \<Rightarrow> bool" where
  "bounds_inv st =
     (depths_ok (stack st) \<and> (\<forall>f\<in>set (stack st). bounded (depth f) (target f))
      \<and> sum_list (map (\<lambda>f. jvals (target f)) (stack st)) \<le> total_values st
      \<and> sum_list (map (\<lambda>f. jchars (target f)) (stack st)) + pending_chars (stack st) \<le> string_total st
      \<and> total_values st \<le> MAX_PUBLIC_DETAIL_VALUES
      \<and> string_total st \<le> MAX_PUBLIC_DETAIL_STRING_CODE_POINTS)"

lemma dict_set_vals:
  "sum_list (map (\<lambda>e. jvals (snd e)) (dict_set es k v)) \<le> sum_list (map (\<lambda>e. jvals (snd e)) es) + jvals v"
  by (induction es k v rule: dict_set.induct) auto

lemma dict_set_chars:
  "sum_list (map (\<lambda>e. length (fst e) + jchars (snd e)) (dict_set es k v))
   \<le> sum_list (map (\<lambda>e. length (fst e) + jchars (snd e)) es) + length k + jchars v"
  by (induction es k v rule: dict_set.induct) auto

lemma dict_set_set: "set (dict_set es k v) \<subseteq> insert (k, v) (set es)"
  by (induction es k v rule: dict_set.induct) auto

lemma store_snapshot_cases:
  assumes "store_snapshot t key v = Some t'"
  obtains (arr) vs where "t = JArr vs" "t' = JArr (vs @ [v])"
  | (obj) es k where "t = JObj es" "key = PStr k" "t' = JObj (dict_set es k v)"
  using assms by (auto simp: store_snapshot_def split: json.splits pyobj.splits)

lemma store_snapshot_bounded:
  assumes "store_snapshot t key v = Some t'" and "bounded d t" and "bounded (Suc d) v"
  shows "bounded d t'"
  using assms(1)
proof (cases rule: store_snapshot_cases)
  case (arr vs)
  with assms(2,3) show ?thesis by auto
next
  case (obj es k)
  with assms(2,3) dict_set_set [of es k v] show ?thesis by auto
qed

lemma store_snapshot_vals:
  "store_snapshot t key v = Some t' \<Longrightarrow> jvals t' \<le> jvals t + jvals v"
  using dict_set_vals by (auto elim!: store_snapshot_cases)

lemma store_snapshot_chars:
  "store_snapshot t key v = Some t' \<Longrightarrow> jchars t' \<le> jchars t + jchars v + key_chars t key"
  using dict_set_chars by (auto elim!: store_snapshot_cases simp: key_chars_def algebra_simps)

lemma store_snapshot_key_chars:
  "store_snapshot t key v = Some t' \<Longrightarrow> key_chars t' key' = key_chars t key'"
  by (auto elim!: store_snapshot_cases simp: key_chars_def)

lemma charge_key_chars:
  "charge_key t key c = Some c' \<Longrightarrow> c' = c + key_chars t key \<and>
     (c \<le> MAX_PUBLIC_DETAIL_STRING_CODE_POINTS \<longrightarrow> c' \<le> MAX_PUBLIC_DETAIL_STRING_CODE_POINTS)"
  by (auto simp: charge_key_def checked_string_total_def key_chars_def Let_def
      split: json.splits pyobj.splits if_splits)

lemma snapshot_scalar_bounds:
  "snapshot_scalar v c = Some (j, c') \<Longrightarrow> bounded d j \<and> jvals j = 1 \<and> c' = c + jchars j \<and>
     (c \<le> MAX_PUBLIC_DETAIL_STRING_CODE_POINTS \<longrightarrow> c' \<le> MAX_PUBLIC_DETAIL_STRING_CODE_POINTS)"
  by (auto simp: snapshot_scalar_def checked_string_total_def Let_def not_less
      split: pyobj.splits if_splits option.splits)

lemma pending_chars_Cons:
  "pending_chars (c # rest) =
     (case rest of [] \<Rightarrow> 0 | p # _ \<Rightarrow> key_chars (target p) (slot c) + pending_chars rest)"
  by (cases rest) simp_all

lemma pending_chars_top:
  "slot f = slot g \<Longrightarrow> pending_chars (f # rest) = pending_chars (g # rest)"
  by (simp add: pending_chars_Cons split: list.splits)

lemma snapshot_frame_fresh:
  assumes "snapshot_frame h r key d n = Some f"
  shows "slot f = key" "depth f = d" "source_identity f = r" "index f = 0"
    "target f = JObj [] \<or> target f = JArr []"
  using assms by (auto simp: snapshot_frame_def split: option.splits pycont.splits if_splits)

lemma bounds_inv_step:
  assumes inv: "bounds_inv st" and step: "snapshot_step h st = Continue st'"
  shows "bounds_inv st'"
  using step
proof (cases rule: snapshot_step_cases)
  case (pop frame parent below t)
  have d: "depth frame = Suc (depth parent)" using inv pop(1) by (simp add: bounds_inv_def)
  have "bounded (depth parent) t"
    using store_snapshot_bounded [OF pop(3), of "depth parent"] inv pop(1) d
    by (auto simp: bounds_inv_def)
  moreover have "pending_chars (parent\<lparr>target := t\<rparr> # below) = pending_chars (parent # below)"
    by (rule pending_chars_top) simp
  ultimately show ?thesis
    using inv pop store_snapshot_vals [OF pop(3)] store_snapshot_chars [OF pop(3)]
    by (auto simp: bounds_inv_def)
next
  case (push frame rest key child chars child_frame)
  note f = snapshot_frame_fresh [OF push(8)]
  have "pending_chars (frame\<lparr>index := index frame + 1\<rparr> # rest) = pending_chars (frame # rest)"
    by (rule pending_chars_top) simp
  then show ?thesis
    using inv push f charge_key_chars [OF push(4)] by (auto simp: bounds_inv_def)
next
  case (leaf frame rest key item chars v chars' t)
  note sc = snapshot_scalar_bounds [OF leaf(6), of "Suc (depth frame)"]
  have "bounded (depth frame) t"
    using store_snapshot_bounded [OF leaf(7), of "depth frame"] inv leaf(1) sc
    by (auto simp: bounds_inv_def)
  moreover have "pending_chars (frame\<lparr>index := index frame + 1, target := t\<rparr> # rest) = pending_chars (frame # rest)"
    by (rule pending_chars_top) simp
  ultimately show ?thesis
    using inv leaf sc charge_key_chars [OF leaf(4)] store_snapshot_vals [OF leaf(7)]
      store_snapshot_chars [OF leaf(7)]
    by (auto simp: bounds_inv_def)
qed

lemma snapshot_step_Finished:
  "snapshot_step h st = Finished j \<Longrightarrow>
     \<exists>f. stack st = [f] \<and> j = target f \<and> length (entries f) \<le> index f"
  by (auto simp: snapshot_step_def snapshot_pop_def snapshot_entry_def snapshot_push_def
      snapshot_leaf_def Let_def split: list.splits if_splits option.splits prod.splits pyobj.splits)

lemma snapshot_start:
  assumes "snapshot_public_details h v = Some j"
  obtains r es f where "v = PRef r" "h r = Some (CDict es)"
    "snapshot_frame h r PNone 0 (MAX_PUBLIC_DETAIL_VALUES - 1) = Some f"
    "snapshot_loop h \<lparr>stack = [f], total_values = 1, string_total = 0, active_containers = {r}\<rparr> = Some j"
  using assms
  by (auto simp: snapshot_public_details_def split: pyobj.splits option.splits pycont.splits)

lemma snapshot_bounds_aux:
  assumes "snapshot_public_details h v = Some j"
  shows "bounded 0 j \<and> jvals j \<le> MAX_PUBLIC_DETAIL_VALUES
         \<and> jchars j \<le> MAX_PUBLIC_DETAIL_STRING_CODE_POINTS"
  using assms
proof (cases rule: snapshot_start)
  case (1 r es f)
  note f = snapshot_frame_fresh [OF "1"(3)]
  have "bounds_inv \<lparr>stack = [f], total_values = 1, string_total = 0, active_containers = {r}\<rparr>"
    using f by (auto simp: bounds_inv_def MAX_PUBLIC_DETAIL_DEPTH_def MAX_PUBLIC_DETAIL_VALUES_def
        MAX_PUBLIC_DETAIL_STRING_CODE_POINTS_def)
  from "1"(4) this show ?thesis
  proof (rule snapshot_loop_rule [where P = bounds_inv])
    fix st st'
    assume "bounds_inv st" "snapshot_step h st = Continue st'"
    then show "bounds_inv st'" by (rule bounds_inv_step)
  next
    fix st k
    assume b: "bounds_inv st" and "snapshot_step h st = Finished k"
    then obtain g where g: "stack st = [g]" "k = target g" using snapshot_step_Finished by blast
    with b show "bounded 0 k \<and> jvals k \<le> MAX_PUBLIC_DETAIL_VALUES \<and> jchars k \<le> MAX_PUBLIC_DETAIL_STRING_CODE_POINTS"
      by (auto simp: bounds_inv_def)
  qed
qed

section \<open>A snapshot is an exact copy\<close>

text \<open>\<open>denotes h v j\<close>: unfolding \<open>v\<close> in the heap gives exactly the JSON value \<open>j\<close>.\<close>

inductive denotes :: "heap \<Rightarrow> pyobj \<Rightarrow> json \<Rightarrow> bool" for h where
  null: "denotes h PNone JNull"
| bool: "denotes h (PBool b) (JBool b)"
| int: "denotes h (PInt n) (JInt n)"
| float: "denotes h (PFloat x) (JFloat x)"
| str: "denotes h (PStr s) (JStr s)"
| arr: "h r = Some (CList xs) \<Longrightarrow> list_all2 (denotes h) xs js \<Longrightarrow> denotes h (PRef r) (JArr js)"
| obj: "h r = Some (CDict es) \<Longrightarrow>
        list_all2 (\<lambda>e e'. fst e = PStr (fst e') \<and> denotes h (snd e) (snd e')) es js \<Longrightarrow>
        denotes h (PRef r) (JObj js)"

text \<open>A dict holds each key once; \<open>heap_wf\<close> says so of the heap's association lists.\<close>

definition heap_wf :: "heap \<Rightarrow> bool" where
  "heap_wf h = (\<forall>r es. h r = Some (CDict es) \<longrightarrow> distinct (map fst es))"

text \<open>\<open>filled h f n\<close>: the frame's target holds the copies of its first \<open>n\<close> entries.\<close>

definition filled :: "heap \<Rightarrow> SnapshotFrame \<Rightarrow> nat \<Rightarrow> bool" where
  "filled h f n =
     (n \<le> length (entries f) \<and>
      (case h (source_identity f) of
         Some (CDict es) \<Rightarrow> entries f = es \<and>
           (\<exists>js. target f = JObj js \<and>
              list_all2 (\<lambda>e e'. fst e = PStr (fst e') \<and> denotes h (snd e) (snd e')) (take n es) js)
       | Some (CList xs) \<Rightarrow> entries f = enumerate_list xs \<and>
           (\<exists>js. target f = JArr js \<and> list_all2 (denotes h) (take n xs) js)
       | None \<Rightarrow> False))"

fun linked :: "heap \<Rightarrow> SnapshotFrame \<Rightarrow> SnapshotFrame list \<Rightarrow> bool" where
  "linked h c [] = True"
| "linked h c (p # rest) =
     (0 < index p \<and> filled h p (index p - 1) \<and> index p \<le> length (entries p)
      \<and> entries p ! (index p - 1) = (slot c, PRef (source_identity c)) \<and> linked h p rest)"

definition copy_inv :: "heap \<Rightarrow> nat \<Rightarrow> SnapshotState \<Rightarrow> bool" where
  "copy_inv h r st =
     (case stack st of [] \<Rightarrow> False
      | f # rest \<Rightarrow> filled h f (index f) \<and> linked h f rest \<and> source_identity (last (f # rest)) = r)"

lemma length_enumerate_list [simp]: "length (enumerate_list xs) = length xs"
  by (simp add: enumerate_list_def)

lemma enumerate_list_nth: "i < length xs \<Longrightarrow> enumerate_list xs ! i = (PInt (int i), xs ! i)"
  by (simp add: enumerate_list_def)

lemma dict_set_fresh: "k \<notin> fst ` set es \<Longrightarrow> dict_set es k v = es @ [(k, v)]"
  by (induction es k v rule: dict_set.induct) auto

lemma filled_keys:
  assumes "list_all2 (\<lambda>e e'. fst e = PStr (fst e') \<and> P e e') es js" and "k \<in> fst ` set js"
  shows "PStr k \<in> fst ` set es"
proof -
  obtain i where i: "i < length js" "fst (js ! i) = k"
    using assms(2) by (auto simp: in_set_conv_nth)
  then have "fst (es ! i) = PStr k" and "i < length es"
    using assms(1) by (simp_all add: list_all2_conv_all_nth)
  then show ?thesis by (metis image_eqI nth_mem)
qed

lemma filled_store:
  assumes wf: "heap_wf h" and f: "filled h f n" and n: "n < length (entries f)"
    and e: "entries f ! n = (key, item)" and d: "denotes h item v"
    and s: "store_snapshot (target f) key v = Some t"
  shows "filled h (f\<lparr>target := t\<rparr>) (Suc n)"
proof (cases "h (source_identity f)")
  case None
  with f show ?thesis by (simp add: filled_def)
next
  case (Some c)
  show ?thesis
  proof (cases c)
    case (CList xs)
    with f Some obtain js where js: "entries f = enumerate_list xs" "target f = JArr js"
      "list_all2 (denotes h) (take n xs) js" by (auto simp: filled_def)
    have t: "t = JArr (js @ [v])" using s by (simp add: store_snapshot_def js)
    have x: "xs ! n = item" using e n js by (simp add: enumerate_list_nth)
    have "list_all2 (denotes h) (take n xs @ [xs ! n]) (js @ [v])"
      using js(3) d x by (simp add: list_all2_appendI)
    then have "list_all2 (denotes h) (take (Suc n) xs) (js @ [v])"
      using n js by (simp add: take_Suc_conv_app_nth)
    then show ?thesis using Some CList n js t by (simp add: filled_def)
  next
    case (CDict es)
    with f Some obtain js where js: "entries f = es" "target f = JObj js"
      "list_all2 (\<lambda>e e'. fst e = PStr (fst e') \<and> denotes h (snd e) (snd e')) (take n es) js"
      by (auto simp: filled_def)
    obtain k where k: "key = PStr k" "t = JObj (dict_set js k v)"
      using s by (auto simp: store_snapshot_def js split: pyobj.splits)
    have dk: "distinct (map fst es)" using wf Some CDict by (auto simp: heap_wf_def)
    have en: "es ! n = (PStr k, item)" using e js k by simp
    have "PStr k \<notin> fst ` set (take n es)"
    proof
      assume "PStr k \<in> fst ` set (take n es)"
      then obtain i where i: "i < n" "i < length es" "fst (es ! i) = PStr k"
        by (auto simp: in_set_conv_nth)
      then have "fst (es ! i) = fst (es ! n)" by (simp add: en)
      with dk i(1,2) n js(1) show False
        by (metis distinct_conv_nth length_map nat_neq_iff nth_map)
    qed
    with filled_keys [OF js(3)] have "k \<notin> fst ` set js" by blast
    then have t: "t = JObj (js @ [(k, v)])" by (simp add: k dict_set_fresh)
    have "list_all2 (\<lambda>e e'. fst e = PStr (fst e') \<and> denotes h (snd e) (snd e'))
        (take n es @ [es ! n]) (js @ [(k, v)])"
      using js(3) d en by (simp add: list_all2_appendI)
    then have "list_all2 (\<lambda>e e'. fst e = PStr (fst e') \<and> denotes h (snd e) (snd e'))
        (take (Suc n) es) (js @ [(k, v)])"
      using n js by (simp add: take_Suc_conv_app_nth)
    then show ?thesis using Some CDict n js t by (simp add: filled_def)
  qed
qed

lemma filled_complete:
  assumes "filled h f n" and "length (entries f) \<le> n"
  shows "denotes h (PRef (source_identity f)) (target f)"
  using assms
  by (auto simp: filled_def split: option.splits pycont.splits intro: denotes.arr denotes.obj)

lemma filled_fresh:
  "snapshot_frame h r key d n = Some f \<Longrightarrow> filled h f 0"
  by (auto simp: snapshot_frame_def filled_def split: option.splits pycont.splits if_splits)

lemma filled_frame_cong:
  "entries g = entries f \<Longrightarrow> target g = target f \<Longrightarrow> source_identity g = source_identity f \<Longrightarrow>
   filled h g n = filled h f n"
  by (simp add: filled_def split: option.splits pycont.splits)

lemma linked_cong:
  "slot g = slot f \<Longrightarrow> source_identity g = source_identity f \<Longrightarrow> linked h g rest = linked h f rest"
  by (cases rest) simp_all

lemma snapshot_scalar_denotes: "snapshot_scalar v c = Some (j, c') \<Longrightarrow> denotes h v j"
  by (auto simp: snapshot_scalar_def split: pyobj.splits if_splits option.splits intro: denotes.intros)

lemma copy_inv_step:
  assumes wf: "heap_wf h" and inv: "copy_inv h r st" and step: "snapshot_step h st = Continue st'"
  shows "copy_inv h r st'"
  using step
proof (cases rule: snapshot_step_cases)
  case (pop frame parent below t)
  have fr: "filled h frame (index frame)" and ln: "linked h frame (parent # below)"
    and src: "source_identity (last (parent # below)) = r"
    using inv pop(1) by (simp_all add: copy_inv_def)
  have "denotes h (PRef (source_identity frame)) (target frame)"
    using fr pop(2) by (rule filled_complete)
  then have "filled h (parent\<lparr>target := t\<rparr>) (Suc (index parent - 1))"
    using filled_store [OF wf, of parent "index parent - 1"] ln pop(3) by auto
  moreover have "Suc (index parent - 1) = index parent" using ln by simp
  ultimately show ?thesis
    using pop(4) ln src linked_cong [of "parent\<lparr>target := t\<rparr>" parent h below]
    by (auto simp: copy_inv_def)
next
  case (push frame rest key child chars child_frame)
  note f = snapshot_frame_fresh [OF push(8)]
  have "filled h (frame\<lparr>index := index frame + 1\<rparr>) (index frame)"
    using inv push(1) filled_frame_cong [of "frame\<lparr>index := index frame + 1\<rparr>" frame]
    by (simp add: copy_inv_def)
  then show ?thesis
    using inv push f filled_fresh [OF push(8)]
      linked_cong [of "frame\<lparr>index := index frame + 1\<rparr>" frame h rest]
    by (auto simp: copy_inv_def)
next
  case (leaf frame rest key item chars v chars' t)
  have "filled h (frame\<lparr>target := t\<rparr>) (Suc (index frame))"
    using filled_store [OF wf _ leaf(2,3) snapshot_scalar_denotes [OF leaf(6)] leaf(7)] inv leaf(1)
    by (simp add: copy_inv_def)
  then have "filled h (frame\<lparr>index := index frame + 1, target := t\<rparr>) (Suc (index frame))"
    by (rule filled_frame_cong [THEN iffD2, rotated 3]) simp_all
  then show ?thesis
    using inv leaf linked_cong [of "frame\<lparr>index := index frame + 1, target := t\<rparr>" frame h rest]
    by (auto simp: copy_inv_def)
qed

lemma snapshot_denotes_aux:
  assumes wf: "heap_wf h" and s: "snapshot_public_details h v = Some j"
  shows "denotes h v j"
  using s
proof (cases rule: snapshot_start)
  case (1 r es f)
  note f = snapshot_frame_fresh [OF "1"(3)]
  have "copy_inv h r \<lparr>stack = [f], total_values = 1, string_total = 0, active_containers = {r}\<rparr>"
    using f filled_fresh [OF "1"(3)] by (simp add: copy_inv_def)
  from "1"(4) this show ?thesis
  proof (rule snapshot_loop_rule [where P = "copy_inv h r"])
    fix st st'
    assume "copy_inv h r st" "snapshot_step h st = Continue st'"
    with wf show "copy_inv h r st'" by (rule copy_inv_step)
  next
    fix st k
    assume c: "copy_inv h r st" and "snapshot_step h st = Finished k"
    then obtain g where g: "stack st = [g]" "k = target g" "length (entries g) \<le> index g"
      using snapshot_step_Finished by blast
    with c filled_complete [of h g "index g"] "1"(1) show "denotes h v k"
      by (simp add: copy_inv_def)
  qed
qed

section \<open>Properties\<close>

text \<open>
  C1. The public-detail snapshot terminates on every heap, cyclic ones included (it is a total
  function), and when it returns a value that value is exactly what the details denote in the
  heap, nests at most 32 containers deep, holds at most 4096 values, at most 65536 string code
  points counting keys, integers of at most 256 bits and only finite floats.
\<close>

theorem snapshot_public_details_exact_and_bounded:
  assumes "heap_wf h" and "snapshot_public_details h v = Some j"
  shows "denotes h v j \<and> bounded 0 j \<and> jvals j \<le> 4096 \<and> jchars j \<le> 65536"
  using snapshot_denotes_aux [OF assms] snapshot_bounds_aux [OF assms(2)]
  by (simp add: MAX_PUBLIC_DETAIL_VALUES_def MAX_PUBLIC_DETAIL_STRING_CODE_POINTS_def)

definition example_heap :: heap where
  "example_heap =
     [0 \<mapsto> CDict [(PStr (codes ''blocker''), PStr (codes ''byte_budget'')), (PStr (codes ''n''), PRef 1)],
      1 \<mapsto> CList [PInt 7, PNone],
      2 \<mapsto> CDict [(PStr (codes ''self''), PRef 2)]]"

lemma example_snapshot:
  "snapshot_public_details example_heap (PRef 0) =
     Some (JObj [(codes ''blocker'', JStr (codes ''byte_budget'')), (codes ''n'', JArr [JInt 7, JNull])])"
  by code_simp

theorem snapshot_public_details_exact_and_bounded_witness:
  "denotes example_heap (PRef 0)
     (JObj [(codes ''blocker'', JStr (codes ''byte_budget'')), (codes ''n'', JArr [JInt 7, JNull])])"
  using snapshot_public_details_exact_and_bounded [OF _ example_snapshot]
  by (simp add: heap_wf_def example_heap_def)


lemma example_cyclic: "snapshot_public_details example_heap (PRef 2) = None"
  by code_simp


end
