(* ===== verification/Nplg_Admission.thy ===== *)
theory Nplg_Admission
  imports Nplg_Errors
begin

text \<open>
  Zero-waiter admission (\<^verbatim>\<open>src/nplg_mcp/admission.py\<close>) and the bounded thread runner
  (\<^verbatim>\<open>src/nplg_mcp/bounded_work.py\<close>). The locale \<open>permit_gate\<close> is the contract a client of a
  gate relies on; its lemmas say that under any interleaving of clients the gate holds
  exactly one permit per client in flight, never more than its limit, and that a balanced
  release cannot fail.
\<close>

section \<open>AdmissionGate\<close>

record AdmissionGate =
  capacity :: int
  active :: int

definition gate_init :: "pyobj \<Rightarrow> AdmissionGate res" where
  "gate_init cap =
     (case cap of
        PInt c \<Rightarrow> (if c \<le> 0 then Inl (ValueError ''admission capacity must be a positive integer'')
                   else Inr \<lparr>capacity = c, active = 0\<rparr>)
      | _ \<Rightarrow> Inl (ValueError ''admission capacity must be a positive integer''))"

definition gate_try_acquire :: "AdmissionGate \<Rightarrow> bool \<times> AdmissionGate" where
  "gate_try_acquire g =
     (if capacity g \<le> active g then (False, g) else (True, g\<lparr>active := active g + 1\<rparr>))"

definition gate_release :: "(pyexc, AdmissionGate, unit) op" where
  "gate_release g =
     (if active g \<le> 0 then (Inl (RuntimeError ''admission gate release is unbalanced''), g)
      else (Inr (), g\<lparr>active := active g - 1\<rparr>))"

definition gate_inv :: "AdmissionGate \<Rightarrow> bool" where
  "gate_inv g = (0 \<le> active g \<and> active g \<le> capacity g \<and> 0 < capacity g)"

section \<open>PrincipalAdmission\<close>

type_synonym PrincipalAdmission = "pystr \<rightharpoonup> AdmissionGate"

definition principal_init :: "pystr list \<Rightarrow> pyobj \<Rightarrow> PrincipalAdmission res" where
  "principal_init identifiers cap =
     (if identifiers = [] \<or> card (set identifiers) \<noteq> length identifiers
      then Inl (ValueError ''principal admission requires unique configured identifiers'')
      else rbind (gate_init cap) (\<lambda>g. Inr (\<lambda>p. if p \<in> set identifiers then Some g else None)))"

definition principal_try_acquire :: "pystr \<Rightarrow> (pyexc, PrincipalAdmission, bool) op" where
  "principal_try_acquire p gates =
     (case gates p of
        None \<Rightarrow> (Inl (ValueError ''principal admission identifier is not configured''), gates)
      | Some g \<Rightarrow> (case gate_try_acquire g of (ok, g') \<Rightarrow> (Inr ok, gates(p \<mapsto> g'))))"

definition principal_release :: "pystr \<Rightarrow> (pyexc, PrincipalAdmission, unit) op" where
  "principal_release p gates =
     (case gates p of
        None \<Rightarrow> (Inl (ValueError ''principal admission identifier is not configured''), gates)
      | Some g \<Rightarrow> (case gate_release g of (r, g') \<Rightarrow> (r, gates(p \<mapsto> g'))))"

section \<open>PathAdmissionMiddleware\<close>

record asgi_scope =
  scope_type :: pyobj
  scope_path :: pyobj

datatype admission_decision = PassThrough | Busy json int | Admitted

definition scope_path_text :: "asgi_scope \<Rightarrow> pystr" where
  "scope_path_text sc = (case scope_path sc of PStr p \<Rightarrow> p | _ \<Rightarrow> [])"

text \<open>
  \<open>__call__\<close> up to the point where it awaits the wrapped application: the decision, and for
  a saturated gate the 503 response it sends (its \<^verbatim>\<open>error\<close> object and status).
\<close>

definition middleware_begin ::
  "pystr \<Rightarrow> asgi_scope \<Rightarrow> AdmissionGate \<Rightarrow> admission_decision \<times> AdmissionGate" where
  "middleware_begin path_prefix sc g =
     (if scope_type sc \<noteq> PStr (codes ''http'') \<or> \<not> starts_with path_prefix (scope_path_text sc)
      then (PassThrough, g)
      else case gate_try_acquire g of
             (False, g') \<Rightarrow>
               (Busy (JObj [(codes ''error'', to_public_error Map.empty
                  (AppErr (AppError RATE_LIMITED ''The server is at its concurrent asset-stream limit.'' 503)))])
                  503, g')
           | (True, g') \<Rightarrow> (Admitted, g'))"

text \<open>The \<^verbatim>\<open>finally\<close> of the admitted branch, run whether the application returned or raised.\<close>

definition middleware_end :: "(pyexc, AdmissionGate, unit) op" where
  "middleware_end = gate_release"

section \<open>Clients of a gate\<close>

text \<open>
  Concurrent clients of one gate, each with its own identity: \<open>Enter i\<close> is the attempt of
  client \<open>i\<close> to acquire, \<open>Leave i\<close> its release when it is in flight. The gate is any pair
  of operations, so the same definition serves the middleware and the thread runner.
\<close>

datatype 'i gate_event = Enter 'i | Leave 'i

fun gated_step ::
  "('s \<Rightarrow> bool \<times> 's) \<Rightarrow> ('s \<Rightarrow> 'e \<times> 's) \<Rightarrow> 's \<times> 'i set \<Rightarrow> 'i gate_event \<Rightarrow> 's \<times> 'i set" where
  "gated_step acq rel (g, inflight) (Enter i) =
     (if i \<in> inflight then (g, inflight)
      else case acq g of (True, g') \<Rightarrow> (g', insert i inflight) | (False, g') \<Rightarrow> (g', inflight))"
| "gated_step acq rel (g, inflight) (Leave i) =
     (if i \<in> inflight then (snd (rel g), inflight - {i}) else (g, inflight))"

definition gated_run ::
  "('s \<Rightarrow> bool \<times> 's) \<Rightarrow> ('s \<Rightarrow> 'e \<times> 's) \<Rightarrow> 's \<times> 'i set \<Rightarrow> 'i gate_event list \<Rightarrow> 's \<times> 'i set" where
  "gated_run acq rel = foldl (gated_step acq rel)"

locale permit_gate =
  fixes acquire :: "'s \<Rightarrow> bool \<times> 's"
    and release :: "'s \<Rightarrow> (pyexc + unit) \<times> 's"
    and held :: "'s \<Rightarrow> int"
    and limit :: "'s \<Rightarrow> int"
    and invar :: "'s \<Rightarrow> bool"
  assumes invar_bounds: "invar s \<Longrightarrow> 0 \<le> held s \<and> held s \<le> limit s"
    and acquire_granted: "invar s \<Longrightarrow> acquire s = (True, t) \<Longrightarrow>
          invar t \<and> held t = held s + 1 \<and> limit t = limit s"
    and acquire_refused: "invar s \<Longrightarrow> acquire s = (False, t) \<Longrightarrow> t = s \<and> held s = limit s"
    and release_held: "invar s \<Longrightarrow> 0 < held s \<Longrightarrow>
          fst (release s) = Inr () \<and> invar (snd (release s))
          \<and> held (snd (release s)) = held s - 1 \<and> limit (snd (release s)) = limit s"
begin

lemma gated_step_inv:
  assumes "invar g" "held g = int (card inflight)" "finite inflight"
    and "gated_step acquire release (g, inflight) ev = (g', inflight')"
  shows "invar g' \<and> held g' = int (card inflight') \<and> finite inflight' \<and> limit g' = limit g"
proof (cases ev)
  case (Enter i)
  with assms show ?thesis
    by (auto split: if_splits prod.splits bool.splits dest: acquire_granted acquire_refused)
next
  case (Leave i)
  show ?thesis
  proof (cases "i \<in> inflight")
    case True
    then have "0 < held g" using assms(2,3) card_gt_0_iff by fastforce
    with assms Leave True release_held [of g] show ?thesis by (auto simp: card_Diff_singleton_if)
  next
    case False
    with assms Leave show ?thesis by simp
  qed
qed

lemma gated_run_inv:
  assumes "invar g" "held g = int (card inflight)" "finite inflight"
    and "gated_run acquire release (g, inflight) evs = (g', inflight')"
  shows "invar g' \<and> held g' = int (card inflight') \<and> finite inflight' \<and> limit g' = limit g"
  using assms unfolding gated_run_def
proof (induction evs arbitrary: g inflight)
  case (Cons ev evs)
  obtain g1 in1 where s: "gated_step acquire release (g, inflight) ev = (g1, in1)" by fastforce
  from gated_step_inv [OF Cons.prems(1-3) s] Cons.prems(4) s Cons.IH [of g1 in1]
  show ?case by simp
qed simp

lemma gated_run_bounded:
  assumes "invar g" "held g = 0" and "gated_run acquire release (g, {}) evs = (g', inflight)"
  shows "int (card inflight) \<le> limit g" and "i \<in> inflight \<Longrightarrow> fst (release g') = Inr ()"
proof -
  have inv: "invar g' \<and> held g' = int (card inflight) \<and> finite inflight \<and> limit g' = limit g"
    using gated_run_inv [of g "{}" evs g' inflight] assms by simp
  then show "int (card inflight) \<le> limit g" using invar_bounds by fastforce
  assume "i \<in> inflight"
  with inv have "0 < held g'" using card_gt_0_iff by fastforce
  with inv show "fst (release g') = Inr ()" using release_held by blast
qed

end

interpretation ag: permit_gate gate_try_acquire gate_release active capacity gate_inv
  by unfold_locales
    (auto simp: gate_inv_def gate_try_acquire_def gate_release_def split: if_splits)

section \<open>BoundedThreadRunner\<close>

text \<open>
  A runner holds one gate and a pool of as many workers. Its jobs are the calls whose
  worker has not completed, with a flag saying whether the caller still waits: cancelling
  the caller clears the flag and keeps the permit, which only \<open>_release_permit\<close>, the
  future's done callback, returns.
\<close>

record 'j BoundedThreadRunner =
  runner_gate :: AdmissionGate
  jobs :: "'j \<rightharpoonup> bool"

datatype submit_result = Submitted | SubmitRaises pyexc

definition runner_init :: "pyobj \<Rightarrow> pystr \<Rightarrow> 'j BoundedThreadRunner res" where
  "runner_init cap prefix =
     (if prefix = [] \<or> 0 \<in> set prefix
      then Inl (ValueError ''thread_name_prefix must be non-empty and contain no NUL'')
      else rbind (gate_init cap) (\<lambda>g. Inr \<lparr>runner_gate = g, jobs = Map.empty\<rparr>))"

definition BlockingWorkCapacityError :: pyexc where
  "BlockingWorkCapacityError = RuntimeError ''bounded blocking-work capacity is exhausted''"

text \<open>\<open>run\<close> and \<open>run_to_completion\<close> up to their first await: admit, submit, or give the permit back.\<close>

definition runner_submit ::
  "'j \<Rightarrow> submit_result \<Rightarrow> (pyexc, 'j BoundedThreadRunner, unit) op" where
  "runner_submit j sub r =
     (case gate_try_acquire (runner_gate r) of
        (False, g) \<Rightarrow> (Inl BlockingWorkCapacityError, r\<lparr>runner_gate := g\<rparr>)
      | (True, g) \<Rightarrow>
          (case sub of
             SubmitRaises e \<Rightarrow> (Inl e, r\<lparr>runner_gate := snd (gate_release g)\<rparr>)
           | Submitted \<Rightarrow> (Inr (), r\<lparr>runner_gate := g, jobs := (jobs r)(j \<mapsto> True)\<rparr>)))"

text \<open>Caller cancellation of \<open>run\<close>: the shielded future lives on, so do its job and permit.\<close>

definition runner_cancel :: "'j \<Rightarrow> 'j BoundedThreadRunner \<Rightarrow> 'j BoundedThreadRunner" where
  "runner_cancel j r = (case jobs r j of None \<Rightarrow> r | Some _ \<Rightarrow> r\<lparr>jobs := (jobs r)(j \<mapsto> False)\<rparr>)"

definition runner_complete :: "'j \<Rightarrow> (pyexc, 'j BoundedThreadRunner, unit) op" where
  "runner_complete j r =
     (case jobs r j of
        None \<Rightarrow> (Inr (), r)
      | Some _ \<Rightarrow> (case gate_release (runner_gate r) of
                     (res, g) \<Rightarrow> (res, r\<lparr>runner_gate := g, jobs := (jobs r)(j := None)\<rparr>)))"

inductive runner_step :: "'j BoundedThreadRunner \<Rightarrow> 'j BoundedThreadRunner \<Rightarrow> bool" where
  submit: "jobs r j = None \<Longrightarrow> runner_step r (snd (runner_submit j sub r))"
| cancel: "runner_step r (runner_cancel j r)"
| complete: "runner_step r (snd (runner_complete j r))"

definition runner_inv :: "int \<Rightarrow> 'j BoundedThreadRunner \<Rightarrow> bool" where
  "runner_inv c r =
     (gate_inv (runner_gate r) \<and> capacity (runner_gate r) = c
      \<and> finite (dom (jobs r)) \<and> active (runner_gate r) = int (card (dom (jobs r))))"

lemma runner_inv_step:
  assumes "runner_step r r'" and "runner_inv c r"
  shows "runner_inv c r'"
  using assms
proof (induction rule: runner_step.induct)
  case (submit r j sub)
  then have "j \<notin> dom (jobs r)" by auto
  with submit show ?case
    by (auto simp: runner_submit_def runner_inv_def gate_try_acquire_def gate_release_def
        gate_inv_def split: submit_result.splits)
next
  case (cancel r j)
  then show ?case
    by (auto simp: runner_cancel_def runner_inv_def insert_absorb domI split: option.splits)
next
  case (complete r j)
  show ?case
  proof (cases "jobs r j")
    case None
    with complete show ?thesis by (simp add: runner_complete_def)
  next
    case (Some b)
    then have j: "j \<in> dom (jobs r)" by auto
    with complete have "0 < card (dom (jobs r))" by (auto simp: runner_inv_def card_gt_0_iff)
    with complete Some j show ?thesis
      by (auto simp: runner_complete_def runner_inv_def gate_release_def gate_inv_def
          card_Diff_singleton_if)
  qed
qed

section \<open>Properties\<close>

text \<open>
  Whatever the interleaving of requests, the gate built from a configured capacity
  admits at most that many at once, and the release in the \<^verbatim>\<open>finally\<close> of an admitted
  request never raises, so no admitted request loses or duplicates a permit.
\<close>

theorem admission_gate_bounds_concurrency:
  assumes "gate_init cap = Inr g"
    and "gated_run gate_try_acquire gate_release (g, {}) evs = (g', inflight)"
  shows "int (card inflight) \<le> capacity g \<and> active g' = int (card inflight)
         \<and> (i \<in> inflight \<longrightarrow> fst (middleware_end g') = Inr ())"
proof -
  have g: "gate_inv g" "active g = 0"
    using assms(1) by (auto simp: gate_init_def gate_inv_def split: pyobj.splits if_splits)
  have "active g' = int (card inflight)"
    using ag.gated_run_inv [of g "{}" evs g' inflight] g assms(2) by simp
  then show ?thesis
    using ag.gated_run_bounded [OF g assms(2)] by (simp add: middleware_end_def)
qed

text \<open>
  In every state a runner can reach from its construction, however calls are
  submitted, rejected, cancelled by their callers or completed, the permits in use are
  exactly the worker calls that have not completed, and there are never more than the
  configured capacity: cancelling a caller does not free its worker's permit.
\<close>

theorem runner_permits_follow_workers:
  assumes "runner_init (PInt c) prefix = Inr r0" and "runner_step\<^sup>*\<^sup>* r0 r"
  shows "active (runner_gate r) = int (card (dom (jobs r))) \<and> int (card (dom (jobs r))) \<le> c
         \<and> runner_gate (runner_cancel j r) = runner_gate r"
proof -
  have "runner_inv c r0"
    using assms(1) by (auto simp: runner_init_def gate_init_def runner_inv_def gate_inv_def
        split: if_splits)
  with assms(2) have "runner_inv c r"
    by (induction rule: rtranclp_induct) (auto intro: runner_inv_step)
  then show ?thesis
    by (auto simp: runner_inv_def gate_inv_def runner_cancel_def split: option.splits)
qed

end
