(* ===== verification/Nplg_Resource_Admission.thy ===== *)
theory Nplg_Resource_Admission
  imports Nplg_Errors
begin

text \<open>
  Byte-denominated admission of inline resources (\<^verbatim>\<open>src/nplg_mcp/resource_admission.py\<close>):
  the reservation weights, the aggregate budget, its reservations and the per-request
  scopes that release them. The invariant says the active byte count is exactly the sum of
  the reservations that are still live, within the capacity.
\<close>

definition HARD_MAX_INLINE_RESOURCE_BYTES :: int where
  "HARD_MAX_INLINE_RESOURCE_BYTES = 4 * 1024 * 1024"

definition BASE64_CODE_POINTS :: int where
  "BASE64_CODE_POINTS = ((HARD_MAX_INLINE_RESOURCE_BYTES + 2) div 3) * 4"

definition MAX_JSON_ESCAPED_BYTES_PER_UTF8_BYTE :: int where
  "MAX_JSON_ESCAPED_BYTES_PER_UTF8_BYTE = 6"

definition RESPONSE_ENVELOPE_BYTES :: int where
  "RESPONSE_ENVELOPE_BYTES = 64 * 1024"

definition MIN_BASE64_CODE_POINTS :: int where
  "MIN_BASE64_CODE_POINTS = 4"

definition INLINE_RESOURCE_RESPONSE_RESERVATION_BYTES :: int where
  "INLINE_RESOURCE_RESPONSE_RESERVATION_BYTES =
     max (HARD_MAX_INLINE_RESOURCE_BYTES + 2 * BASE64_CODE_POINTS)
         (HARD_MAX_INLINE_RESOURCE_BYTES
            + MAX_JSON_ESCAPED_BYTES_PER_UTF8_BYTE * HARD_MAX_INLINE_RESOURCE_BYTES)
     + RESPONSE_ENVELOPE_BYTES"

definition INLINE_RESOURCE_AGGREGATE_CAPACITY_BYTES :: int where
  "INLINE_RESOURCE_AGGREGATE_CAPACITY_BYTES = 2 * INLINE_RESOURCE_RESPONSE_RESERVATION_BYTES"

lemmas inline_constants = HARD_MAX_INLINE_RESOURCE_BYTES_def BASE64_CODE_POINTS_def
  MAX_JSON_ESCAPED_BYTES_PER_UTF8_BYTE_def RESPONSE_ENVELOPE_BYTES_def MIN_BASE64_CODE_POINTS_def
  INLINE_RESOURCE_RESPONSE_RESERVATION_BYTES_def INLINE_RESOURCE_AGGREGATE_CAPACITY_BYTES_def

definition inline_text_response_reservation_bytes :: "pyobj \<Rightarrow> int res" where
  "inline_text_response_reservation_bytes utf8_bytes =
     (case utf8_bytes of
        PInt n \<Rightarrow>
          (if 0 \<le> n \<and> n \<le> HARD_MAX_INLINE_RESOURCE_BYTES
           then Inr (RESPONSE_ENVELOPE_BYTES + (1 + MAX_JSON_ESCAPED_BYTES_PER_UTF8_BYTE) * n)
           else Inl (ValueError ''inline text response size is outside the validated range''))
      | _ \<Rightarrow> Inl (ValueError ''inline text response size is outside the validated range''))"

definition inline_blob_response_reservation_bytes :: "pyobj \<Rightarrow> pyobj \<Rightarrow> int res" where
  "inline_blob_response_reservation_bytes decoded_bytes base64_bytes =
     (case (decoded_bytes, base64_bytes) of
        (PInt d, PInt b) \<Rightarrow>
          (if 1 \<le> d \<and> d \<le> HARD_MAX_INLINE_RESOURCE_BYTES
              \<and> MIN_BASE64_CODE_POINTS \<le> b \<and> b \<le> BASE64_CODE_POINTS
           then Inr (RESPONSE_ENVELOPE_BYTES + d + 2 * b)
           else Inl (ValueError ''inline blob response size is outside the validated range''))
      | _ \<Rightarrow> Inl (ValueError ''inline blob response size is outside the validated range''))"

section \<open>The byte budget and its reservations\<close>

text \<open>
  Reservation objects are named by their position in \<open>reservations\<close>, which only grows. A
  request scope is the list of reservations made while it is current in a context.
  \<open>request_scopes\<close> gives the scopes a context is inside of, the value of its context
  variable first: setting the variable pushes a scope, resetting it to its token pops one.
\<close>

record InlineResourceReservation =
  reserved_bytes :: int
  released :: bool
  request_scoped :: bool

record InlineResourceAdmission =
  capacity_bytes :: int
  active_bytes :: int
  reservations :: "InlineResourceReservation list"
  request_scopes :: "nat \<Rightarrow> nat list list"

definition admission_init :: "pyobj \<Rightarrow> InlineResourceAdmission res" where
  "admission_init cap =
     (case cap of
        PInt c \<Rightarrow> (if c \<le> 0 then Inl (ValueError ''inline resource capacity must be a positive integer'')
                   else Inr \<lparr>capacity_bytes = c, active_bytes = 0, reservations = [],
                             request_scopes = (\<lambda>_. [])\<rparr>)
      | _ \<Rightarrow> Inl (ValueError ''inline resource capacity must be a positive integer''))"

definition try_reserve ::
  "nat \<Rightarrow> pyobj \<Rightarrow> (pyexc, InlineResourceAdmission, nat option) op" where
  "try_reserve ctx requested s =
     (case requested of
        PInt n \<Rightarrow>
          (if n \<le> 0 then (Inl (ValueError ''inline resource reservation must be a positive integer''), s)
           else if capacity_bytes s - active_bytes s < n then (Inr None, s)
           else let rid = length (reservations s);
                    scoped = (request_scopes s ctx \<noteq> []);
                    r = \<lparr>reserved_bytes = n, released = False, request_scoped = scoped\<rparr>
                in (Inr (Some rid),
                    s\<lparr>active_bytes := active_bytes s + n, reservations := reservations s @ [r],
                      request_scopes := (case request_scopes s ctx of
                          [] \<Rightarrow> request_scopes s
                        | rids # outer \<Rightarrow> (request_scopes s)(ctx := (rids @ [rid]) # outer))\<rparr>))
      | _ \<Rightarrow> (Inl (ValueError ''inline resource reservation must be a positive integer''), s))"

definition return_reserved_bytes :: "int \<Rightarrow> (pyexc, InlineResourceAdmission, unit) op" where
  "return_reserved_bytes n s =
     (if n \<le> 0 then (Inl (ValueError ''inline resource return must be a positive integer''), s)
      else if active_bytes s < n
      then (Inl (RuntimeError ''inline resource admission accounting is unbalanced''), s)
      else (Inr (), s\<lparr>active_bytes := active_bytes s - n\<rparr>))"

definition shrink :: "nat \<Rightarrow> pyobj \<Rightarrow> (pyexc, InlineResourceAdmission, unit) op" where
  "shrink rid retained s =
     (let r = reservations s ! rid in
      if released r
      then (Inl (RuntimeError ''released inline resource reservation cannot be resized''), s)
      else case retained of
        PInt n \<Rightarrow>
          (if n \<le> 0 \<or> reserved_bytes r < n
           then (Inl (ValueError ''inline resource reservation may only shrink to a positive size''), s)
           else let released_bytes = reserved_bytes r - n in
             if released_bytes = 0 then (Inr (), s)
             else (case return_reserved_bytes released_bytes s of
                     (Inl e, s') \<Rightarrow> (Inl e, s')
                   | (Inr _, s') \<Rightarrow>
                       (Inr (), s'\<lparr>reservations := (reservations s')[rid := r\<lparr>reserved_bytes := n\<rparr>]\<rparr>)))
      | _ \<Rightarrow> (Inl (ValueError ''inline resource reservation may only shrink to a positive size''), s))"

definition release :: "nat \<Rightarrow> (pyexc, InlineResourceAdmission, unit) op" where
  "release rid s =
     (let r = reservations s ! rid in
      if released r
      then (Inl (RuntimeError ''inline resource reservation release is unbalanced''), s)
      else case return_reserved_bytes (reserved_bytes r) s of
             (Inl e, s') \<Rightarrow> (Inl e, s')
           | (Inr _, s') \<Rightarrow>
               (Inr (), s'\<lparr>reservations := (reservations s')[rid := r\<lparr>released := True\<rparr>]\<rparr>))"

text \<open>\<open>request_scope\<close>: entering sets a fresh scope, leaving resets it and releases in reverse.\<close>

definition request_scope_enter :: "nat \<Rightarrow> InlineResourceAdmission \<Rightarrow> InlineResourceAdmission" where
  "request_scope_enter ctx s = s\<lparr>request_scopes := (request_scopes s)(ctx := [] # request_scopes s ctx)\<rparr>"

fun release_all :: "nat list \<Rightarrow> (pyexc, InlineResourceAdmission, unit) op" where
  "release_all [] s = (Inr (), s)"
| "release_all (rid # rids) s =
     (case release rid s of (Inl e, s') \<Rightarrow> (Inl e, s') | (Inr _, s') \<Rightarrow> release_all rids s')"

definition request_scope_exit :: "nat \<Rightarrow> (pyexc, InlineResourceAdmission, unit) op" where
  "request_scope_exit ctx s =
     (case request_scopes s ctx of
        [] \<Rightarrow> (Inr (), s)
      | rids # outer \<Rightarrow>
          release_all (rev rids) (s\<lparr>request_scopes := (request_scopes s)(ctx := outer)\<rparr>))"

section \<open>The accounting invariant\<close>

definition live_bytes :: "InlineResourceReservation list \<Rightarrow> int" where
  "live_bytes rs = sum_list (map (\<lambda>r. if released r then 0 else reserved_bytes r) rs)"

definition budget_inv :: "InlineResourceAdmission \<Rightarrow> bool" where
  "budget_inv s =
     (active_bytes s = live_bytes (reservations s) \<and> active_bytes s \<le> capacity_bytes s
      \<and> (\<forall>r\<in>set (reservations s). 0 < reserved_bytes r))"

lemma live_bytes_append [simp]:
  "live_bytes (rs @ [r]) = live_bytes rs + (if released r then 0 else reserved_bytes r)"
  by (simp add: live_bytes_def)

lemma live_bytes_update:
  "i < length rs \<Longrightarrow> live_bytes (rs[i := r]) =
     live_bytes rs - (if released (rs ! i) then 0 else reserved_bytes (rs ! i))
       + (if released r then 0 else reserved_bytes r)"
  by (simp add: live_bytes_def sum_list_map_update)

lemma live_member_le:
  "budget_inv s \<Longrightarrow> i < length (reservations s) \<Longrightarrow> \<not> released (reservations s ! i) \<Longrightarrow>
   reserved_bytes (reservations s ! i) \<le> active_bytes s"
  using sum_list_map_member_le [of "reservations s"
      "\<lambda>r. if released r then 0 else reserved_bytes r" "reservations s ! i"]
  by (fastforce simp: budget_inv_def live_bytes_def)

lemma budget_inv_nonneg: "budget_inv s \<Longrightarrow> 0 \<le> active_bytes s"
  using sum_list_map_nonneg [of "reservations s" "\<lambda>r. if released r then 0 else reserved_bytes r"]
  by (fastforce simp: budget_inv_def live_bytes_def)

lemma try_reserve_inv: "budget_inv s \<Longrightarrow> budget_inv (snd (try_reserve ctx req s))"
  by (auto simp: try_reserve_def budget_inv_def Let_def split: pyobj.splits)

lemma shrink_inv:
  "budget_inv s \<Longrightarrow> rid < length (reservations s) \<Longrightarrow> budget_inv (snd (shrink rid n s))"
  by (auto simp: shrink_def return_reserved_bytes_def budget_inv_def Let_def live_bytes_update
      dest!: set_update_subset_insert [THEN subsetD] split: pyobj.splits)

lemma release_live:
  assumes "budget_inv s" and "rid < length (reservations s)" and "\<not> released (reservations s ! rid)"
  shows "release rid s =
    (Inr (), s\<lparr>active_bytes := active_bytes s - reserved_bytes (reservations s ! rid),
               reservations := (reservations s)[rid := (reservations s ! rid)\<lparr>released := True\<rparr>]\<rparr>)"
proof -
  have "0 < reserved_bytes (reservations s ! rid)" using assms(1,2) by (simp add: budget_inv_def)
  with live_member_le [OF assms] assms(3) show ?thesis
    by (simp add: release_def return_reserved_bytes_def Let_def)
qed

lemma release_inv:
  assumes "budget_inv s" and "rid < length (reservations s)"
  shows "budget_inv (snd (release rid s))"
proof (cases "released (reservations s ! rid)")
  case True
  with assms show ?thesis by (simp add: release_def)
next
  case False
  have p: "0 < reserved_bytes (reservations s ! rid)" using assms by (simp add: budget_inv_def)
  have "live_bytes (reservations s) \<le> capacity_bytes s" using assms(1) by (simp add: budget_inv_def)
  with p have "live_bytes (reservations s) - reserved_bytes (reservations s ! rid) \<le> capacity_bytes s"
    by linarith
  then show ?thesis
    unfolding release_live [OF assms False] using assms False p
    by (auto simp: budget_inv_def live_bytes_update dest!: set_update_subset_insert [THEN subsetD])
qed

lemma release_length [simp]: "length (reservations (snd (release rid s))) = length (reservations s)"
  by (simp add: release_def return_reserved_bytes_def Let_def)

lemma release_all_inv:
  "budget_inv s \<Longrightarrow> \<forall>rid\<in>set rids. rid < length (reservations s) \<Longrightarrow>
   budget_inv (snd (release_all rids s))"
proof (induction rids arbitrary: s)
  case (Cons rid rids)
  obtain r t where t: "release rid s = (r, t)" by fastforce
  then have "budget_inv t" "length (reservations t) = length (reservations s)"
    using Cons.prems release_inv [of s rid] release_length [of rid s] by simp_all
  with Cons t show ?case by (cases r) simp_all
qed simp

lemma release_all_live:
  assumes "budget_inv s" and "distinct rids"
    and "\<forall>rid\<in>set rids. rid < length (reservations s) \<and> \<not> released (reservations s ! rid)"
  shows "\<exists>s'. release_all rids s = (Inr (), s') \<and>
    active_bytes s' = active_bytes s - sum_list (map (\<lambda>rid. reserved_bytes (reservations s ! rid)) rids)
    \<and> (\<forall>rid\<in>set rids. released (reservations s' ! rid)) \<and> budget_inv s'
    \<and> (\<forall>i. i \<notin> set rids \<longrightarrow> reservations s' ! i = reservations s ! i)
    \<and> request_scopes s' = request_scopes s"
  using assms
proof (induction rids arbitrary: s)
  case (Cons rid rids)
  define t where "t = snd (release rid s)"
  have live: "rid < length (reservations s)" "\<not> released (reservations s ! rid)"
    using Cons.prems(3) by simp_all
  note rel = release_live [OF Cons.prems(1) live]
  have t: "release rid s = (Inr (), t)" "active_bytes t = active_bytes s - reserved_bytes (reservations s ! rid)"
    "reservations t = (reservations s)[rid := (reservations s ! rid)\<lparr>released := True\<rparr>]"
    "request_scopes t = request_scopes s"
    by (simp_all add: t_def rel)
  have it: "budget_inv t" using release_inv [OF Cons.prems(1) live(1)] by (simp add: t_def)
  have others: "\<forall>i. i \<noteq> rid \<longrightarrow> reservations t ! i = reservations s ! i" by (simp add: t(3))
  have "\<forall>i\<in>set rids. i < length (reservations t) \<and> \<not> released (reservations t ! i)"
    using Cons.prems(2,3) others by (auto simp: t(3) nth_list_update)
  from Cons.IH [OF it _ this] Cons.prems(2) obtain u where u:
    "release_all rids t = (Inr (), u)"
    "active_bytes u = active_bytes t - sum_list (map (\<lambda>i. reserved_bytes (reservations t ! i)) rids)"
    "\<forall>i\<in>set rids. released (reservations u ! i)" "budget_inv u"
    "\<forall>i. i \<notin> set rids \<longrightarrow> reservations u ! i = reservations t ! i"
    "request_scopes u = request_scopes t"
    by auto
  have maps: "map (\<lambda>i. reserved_bytes (reservations t ! i)) rids = map (\<lambda>i. reserved_bytes (reservations s ! i)) rids"
    using Cons.prems(2) others by auto
  have "active_bytes u = active_bytes s
      - sum_list (map (\<lambda>i. reserved_bytes (reservations s ! i)) (rid # rids))"
    using u(2) [unfolded maps] t(2) by simp
  moreover have "released (reservations u ! rid)"
    using u(5) Cons.prems(2) t(3) live(1) by simp
  ultimately show ?case using u(1,3,4,5,6) t(1,4) others by auto
qed simp

section \<open>Properties\<close>

text \<open>The operations any number of requests can interleave on one admission object.\<close>

inductive budget_step :: "InlineResourceAdmission \<Rightarrow> InlineResourceAdmission \<Rightarrow> bool" where
  reserve: "budget_step s (snd (try_reserve ctx req s))"
| shrink: "rid < length (reservations s) \<Longrightarrow> budget_step s (snd (shrink rid n s))"
| release: "rid < length (reservations s) \<Longrightarrow> budget_step s (snd (release rid s))"
| enter: "budget_step s (request_scope_enter ctx s)"
| leave: "budget_step s (snd (request_scope_exit ctx s))"

definition scopes_inv :: "InlineResourceAdmission \<Rightarrow> bool" where
  "scopes_inv s = (\<forall>ctx. \<forall>rids\<in>set (request_scopes s ctx). \<forall>rid\<in>set rids. rid < length (reservations s))"

lemma release_all_frame:
  "length (reservations (snd (release_all rids s))) = length (reservations s)
   \<and> request_scopes (snd (release_all rids s)) = request_scopes s
   \<and> capacity_bytes (snd (release_all rids s)) = capacity_bytes s"
proof (induction rids arbitrary: s)
  case (Cons rid rids)
  obtain r t where t: "release rid s = (r, t)" by fastforce
  then have "length (reservations t) = length (reservations s) \<and> request_scopes t = request_scopes s
      \<and> capacity_bytes t = capacity_bytes s"
    by (auto simp: release_def return_reserved_bytes_def Let_def split: if_splits)
  with Cons t show ?case by (cases r) simp_all
qed simp

lemma budget_step_inv:
  assumes "budget_step s s'" and "budget_inv s" and "scopes_inv s"
  shows "budget_inv s' \<and> scopes_inv s' \<and> capacity_bytes s' = capacity_bytes s"
  using assms
proof (induction rule: budget_step.induct)
  case (reserve s ctx req)
  have "scopes_inv (snd (try_reserve ctx req s))"
    using reserve(2)
    by (cases "request_scopes s ctx")
      (auto simp: try_reserve_def scopes_inv_def Let_def split: pyobj.splits
        intro!: less_SucI, (metis list.set_intros)+)
  with reserve try_reserve_inv show ?case
    by (auto simp: try_reserve_def Let_def split: pyobj.splits)
next
  case (shrink rid s n)
  have "request_scopes (snd (shrink rid n s)) = request_scopes s
      \<and> length (reservations (snd (shrink rid n s))) = length (reservations s)
      \<and> capacity_bytes (snd (shrink rid n s)) = capacity_bytes s"
    by (auto simp: shrink_def return_reserved_bytes_def Let_def split: pyobj.splits)
  with shrink shrink_inv show ?case by (simp add: scopes_inv_def)
next
  case (release rid s)
  have "request_scopes (snd (release rid s)) = request_scopes s
      \<and> capacity_bytes (snd (release rid s)) = capacity_bytes s"
    by (auto simp: release_def return_reserved_bytes_def Let_def)
  with release release_inv show ?case by (simp add: scopes_inv_def)
next
  case (enter s ctx)
  then show ?case by (auto simp: request_scope_enter_def budget_inv_def scopes_inv_def)
next
  case (leave s ctx)
  show ?case
  proof (cases "request_scopes s ctx")
    case Nil
    with leave show ?thesis by (simp add: request_scope_exit_def)
  next
    case (Cons rids outer)
    let ?t = "s\<lparr>request_scopes := (request_scopes s)(ctx := outer)\<rparr>"
    have "budget_inv ?t" "\<forall>rid\<in>set (rev rids). rid < length (reservations ?t)" "scopes_inv ?t"
      using leave Cons by (auto simp: budget_inv_def scopes_inv_def) (metis list.set_intros)+
    with release_all_inv [of ?t "rev rids"] release_all_frame [of "rev rids" ?t] Cons show ?thesis
      by (simp add: request_scope_exit_def scopes_inv_def)
  qed
qed

text \<open>
  However requests reserve, shrink, release, open and close scopes on one admission
  object, the active byte count stays exactly the sum of the live reservations, between
  zero and the configured capacity.
\<close>

theorem inline_budget_is_exact:
  assumes "admission_init (PInt c) = Inr s0" and "budget_step\<^sup>*\<^sup>* s0 s"
  shows "active_bytes s = live_bytes (reservations s) \<and> 0 \<le> active_bytes s \<and> active_bytes s \<le> c"
proof -
  have i: "budget_inv s0" "scopes_inv s0" "capacity_bytes s0 = c"
    using assms(1) by (auto simp: admission_init_def budget_inv_def scopes_inv_def live_bytes_def split: if_splits)
  from assms(2) have "budget_inv s \<and> scopes_inv s \<and> capacity_bytes s = c"
  proof (induction rule: rtranclp_induct)
    case base
    with i show ?case by simp
  next
    case (step s t)
    with budget_step_inv [OF step.hyps(2)] show ?case by simp
  qed
  then show ?thesis using budget_inv_nonneg by (auto simp: budget_inv_def)
qed

text \<open>
  Leaving a request scope whose reservations are all still live releases every one of
  them without raising: the active bytes drop by exactly what the scope held and every
  reservation outside the scope is untouched.
\<close>

theorem request_scope_exit_releases_all:
  assumes "budget_inv s" and "request_scopes s ctx = rids # outer" and "distinct rids"
    and "\<forall>rid\<in>set rids. rid < length (reservations s) \<and> \<not> released (reservations s ! rid)"
  shows "\<exists>s'. request_scope_exit ctx s = (Inr (), s')
     \<and> active_bytes s' = active_bytes s - sum_list (map (\<lambda>rid. reserved_bytes (reservations s ! rid)) rids)
     \<and> (\<forall>rid\<in>set rids. released (reservations s' ! rid))
     \<and> (\<forall>i. i \<notin> set rids \<longrightarrow> reservations s' ! i = reservations s ! i)
     \<and> request_scopes s' ctx = outer"
proof -
  let ?t = "s\<lparr>request_scopes := (request_scopes s)(ctx := outer)\<rparr>"
  have "budget_inv ?t" using assms(1) by (simp add: budget_inv_def)
  from release_all_live [OF this, of "rev rids"] assms(2-4) show ?thesis
    by (auto simp: request_scope_exit_def rev_map [symmetric] sum_list_rev)
qed

text \<open>
  The reservation taken before a resource is read covers what its response can need:
  the exact weight of any admissible text or blob response is positive and at most the
  worst-case reservation, so shrinking to it is always accepted, and two worst cases fit.
\<close>

theorem response_weights_fit_reservation:
  "(inline_text_response_reservation_bytes v = Inr w \<longrightarrow>
      0 < w \<and> w \<le> INLINE_RESOURCE_RESPONSE_RESERVATION_BYTES)
   \<and> (inline_blob_response_reservation_bytes d b = Inr w \<longrightarrow>
      0 < w \<and> w \<le> INLINE_RESOURCE_RESPONSE_RESERVATION_BYTES)
   \<and> 2 * INLINE_RESOURCE_RESPONSE_RESERVATION_BYTES \<le> INLINE_RESOURCE_AGGREGATE_CAPACITY_BYTES"
  by (auto simp: inline_text_response_reservation_bytes_def inline_blob_response_reservation_bytes_def
      inline_constants split: pyobj.splits if_splits)

end
