(* ===== verification/Nplg_Deadline.thy ===== *)
theory Nplg_Deadline
  imports Nplg_Errors
begin

text \<open>
  The monotonic deadline and the safe integers of \<^verbatim>\<open>src/nplg_mcp/contracts/base.py\<close>, and the
  request pacer of \<^verbatim>\<open>src/nplg_mcp/rate_limit.py\<close>, over binary64 floats.
\<close>

section \<open>Safe integers\<close>

definition MIN_SAFE_INTEGER :: int where "MIN_SAFE_INTEGER = - 9007199254740991"
definition MAX_SAFE_INTEGER :: int where "MAX_SAFE_INTEGER = 9007199254740991"

definition validate_safe_integer :: "pyobj \<Rightarrow> int res" where
  "validate_safe_integer v =
     (let ranged = (\<lambda>i. if MIN_SAFE_INTEGER \<le> i \<and> i \<le> MAX_SAFE_INTEGER then Inr i
                        else Inl (ValueError ''integer must be within the JavaScript safe range''))
      in case v of
           PInt i \<Rightarrow> ranged i
         | PFloat (Fin x) \<Rightarrow> (if x = of_int \<lfloor>x\<rfloor> then ranged \<lfloor>x\<rfloor>
                              else Inl (ValueError ''Input should be a valid integer''))
         | _ \<Rightarrow> Inl (ValueError ''Input should be a valid integer''))"

section \<open>MonotonicDeadline\<close>

definition MAX_DEADLINE_BUDGET_SECONDS :: pyfloat where
  "MAX_DEADLINE_BUDGET_SECONDS = Fin 60"

record MonotonicDeadline =
  created_at :: pyfloat
  expires_at :: pyfloat

definition valid_instant :: "pyobj \<Rightarrow> pyfloat option" where
  "valid_instant v =
     (case v of PFloat x \<Rightarrow> (if \<not> isfinite x \<or> flt x (Fin 0) then None else Some x) | _ \<Rightarrow> None)"

definition deadline_new :: "pyobj \<Rightarrow> pyobj \<Rightarrow> MonotonicDeadline res" where
  "deadline_new created expires =
     (case valid_instant created of
        None \<Rightarrow> Inl (ValueError ''created_at must be a finite nonnegative float'')
      | Some c \<Rightarrow>
          (case valid_instant expires of
             None \<Rightarrow> Inl (ValueError ''expires_at must be a finite nonnegative float'')
           | Some e \<Rightarrow>
               (let budget = fsub e c
                in if flt budget (Fin 0) \<or> flt MAX_DEADLINE_BUDGET_SECONDS budget
                   then Inl (ValueError ''deadline budget must be between 0 and 60 seconds'')
                   else Inr \<lparr>created_at = c, expires_at = e\<rparr>)))"

definition deadline_after :: "pyobj \<Rightarrow> pyobj \<Rightarrow> MonotonicDeadline res" where
  "deadline_after budget_seconds clock_sample =
     (case budget_seconds of
        PFloat b \<Rightarrow>
          (if \<not> isfinite b \<or> \<not> (fle (Fin 0) b \<and> fle b MAX_DEADLINE_BUDGET_SECONDS)
           then Inl (ValueError ''budget_seconds must be a finite float from 0 to 60'')
           else case clock_sample of
                  PFloat c \<Rightarrow> deadline_new (PFloat c) (PFloat (fadd c b))
                | PInt c \<Rightarrow> deadline_new (PInt c) (PFloat (fadd (fl_round (of_int c)) b))
                | PBool c \<Rightarrow> deadline_new (PBool c) (PFloat (fadd (Fin (if c then 1 else 0)) b))
                | _ \<Rightarrow> Inl (TypeError ''unsupported operand type(s) for +''))
      | _ \<Rightarrow> Inl (ValueError ''budget_seconds must be a finite float from 0 to 60''))"

definition deadline_remaining :: "MonotonicDeadline \<Rightarrow> pyobj \<Rightarrow> pyfloat res" where
  "deadline_remaining d now =
     (case valid_instant now of
        None \<Rightarrow> Inl (ValueError ''now must be a finite nonnegative float'')
      | Some n \<Rightarrow>
          (if flt n (created_at d) then Inl (ValueError ''monotonic clock moved backwards'')
           else Inr (fmax (Fin 0) (fsub (expires_at d) n))))"

definition deadline_wf :: "MonotonicDeadline \<Rightarrow> bool" where
  "deadline_wf d =
     (\<exists>c e. created_at d = Fin c \<and> expires_at d = Fin e \<and> 0 \<le> c \<and> 0 \<le> e
            \<and> \<not> flt (fsub (Fin e) (Fin c)) (Fin 0) \<and> \<not> flt (Fin 60) (fsub (Fin e) (Fin c)))"

lemma valid_instant_Some: "valid_instant v = Some x \<longleftrightarrow> (\<exists>r. x = Fin r \<and> v = PFloat (Fin r) \<and> 0 \<le> r)"
  by (auto simp: valid_instant_def isfinite_def split: pyobj.splits pyfloat.splits if_splits)

lemma deadline_new_wf: "deadline_new c e = Inr d \<Longrightarrow> deadline_wf d"
  by (auto simp: deadline_new_def deadline_wf_def Let_def MAX_DEADLINE_BUDGET_SECONDS_def
      valid_instant_Some split: option.splits if_splits)

lemma deadline_remaining_bounds:
  assumes "deadline_wf d" and "deadline_remaining d now = Inr r"
  shows "fle (Fin 0) r \<and> fle r (Fin 60)"
proof -
  obtain c e where d: "created_at d = Fin c" "expires_at d = Fin e" "0 \<le> c" "0 \<le> e"
    and b: "\<not> flt (Fin 60) (fl_round (e - c))"
    using assms(1) by (auto simp: deadline_wf_def)
  obtain n where n: "now = PFloat (Fin n)" "0 \<le> n" "c \<le> n" "r = fmax (Fin 0) (fl_round (e - n))"
    using assms(2) d by (auto simp: deadline_remaining_def valid_instant_Some split: option.splits if_splits)
  have "fle (fl_round (e - n)) (fl_round (e - c))" using n by (intro fl_round_mono) simp
  moreover have "fle (fl_round (e - c)) (Fin 60)" using b by (simp add: not_flt_fle)
  ultimately have "fle (fl_round (e - n)) (Fin 60)" by (rule fle_trans)
  then show ?thesis
    by (auto simp: n(4) fmax_def not_flt_fle dest: flt_imp_fle)
qed

section \<open>AsyncRateLimiter\<close>

record AsyncRateLimiter =
  rate_per_second :: pyfloat
  next_allowed :: pyfloat

definition limiter_init :: "pyobj \<Rightarrow> AsyncRateLimiter res" where
  "limiter_init rate =
     (let checked = (\<lambda>x. if \<not> isfinite x \<or> fle x (Fin 0)
                         then Inl (ValueError ''rate_per_second must be a finite positive number'')
                         else Inr \<lparr>rate_per_second = x, next_allowed = Fin 0\<rparr>)
      in case rate of
           PFloat x \<Rightarrow> checked x
         | PInt n \<Rightarrow> (case fl_round (of_int n) of
                        Fin x \<Rightarrow> checked (Fin x)
                      | _ \<Rightarrow> Inl (OverflowError ''int too large to convert to float''))
         | _ \<Rightarrow> Inl (ValueError ''rate_per_second must be a finite positive number''))"

text \<open>
  One \<open>acquire\<close> under the limiter's lock, from the two clock samples it takes. The result is
  the delay passed to the sleeper (\<open>None\<close> when it does not sleep) and the limiter after it.
\<close>

definition scheduled_start :: "AsyncRateLimiter \<Rightarrow> pyfloat \<Rightarrow> pyfloat" where
  "scheduled_start l now = fmax now (next_allowed l)"

definition limiter_acquire ::
  "pyfloat \<Rightarrow> pyfloat \<Rightarrow> AsyncRateLimiter \<Rightarrow> pyfloat option \<times> AsyncRateLimiter" where
  "limiter_acquire now observed l =
     (let interval = fdiv (Fin 1) (rate_per_second l);
          scheduled = scheduled_start l now;
          delay = fsub scheduled now
      in (if flt (Fin 0) delay then Some delay else None,
          l\<lparr>next_allowed := fadd (fmax scheduled observed) interval\<rparr>))"

text \<open>
  A run of the limiter: for each acquire its two clock samples. A sleeper that honours its
  delay is one after which the clock reads at least the scheduled start.
\<close>

fun limiter_run :: "(pyfloat \<times> pyfloat) list \<Rightarrow> AsyncRateLimiter \<Rightarrow> AsyncRateLimiter" where
  "limiter_run [] l = l"
| "limiter_run ((now, observed) # rest) l = limiter_run rest (snd (limiter_acquire now observed l))"

fun honoured :: "(pyfloat \<times> pyfloat) list \<Rightarrow> AsyncRateLimiter \<Rightarrow> bool" where
  "honoured [] l = True"
| "honoured ((now, observed) # rest) l =
     (isfinite now \<and> isfinite observed \<and> fle (scheduled_start l now) observed
      \<and> honoured rest (snd (limiter_acquire now observed l)))"

fun spaced :: "pyfloat \<Rightarrow> pyfloat list \<Rightarrow> bool" where
  "spaced interval (a # b # rest) = (fle (fadd a interval) b \<and> spaced interval (b # rest))"
| "spaced interval _ = True"

lemma limiter_acquire_rate [simp]:
  "rate_per_second (snd (limiter_acquire now observed l)) = rate_per_second l"
  by (simp add: limiter_acquire_def Let_def)

lemma fmax_ge_first: "a \<noteq> NaN \<Longrightarrow> fle a (fmax a b)"
  by (cases a; cases b) (auto simp: fmax_def)

lemma fmax_ge_second: "a \<noteq> NaN \<Longrightarrow> b \<noteq> NaN \<Longrightarrow> fle b (fmax a b)"
  by (cases a; cases b) (auto simp: fmax_def)

lemma fmax_eq_second: "a \<noteq> NaN \<Longrightarrow> fle a b \<Longrightarrow> fmax a b = b"
  by (cases a; cases b) (auto simp: fmax_def)

lemma acquire_next:
  assumes "isfinite now" "isfinite observed" "fle (scheduled_start l now) observed"
  shows "next_allowed (snd (limiter_acquire now observed l)) =
         fadd observed (fdiv (Fin 1) (rate_per_second l))"
proof -
  have "scheduled_start l now \<noteq> NaN" using assms(3) by (cases "scheduled_start l now") auto
  then show ?thesis
    using fmax_eq_second [OF _ assms(3)] by (simp add: limiter_acquire_def Let_def)
qed

lemma honoured_spaced:
  assumes "honoured ((n0, o0) # rest) l"
    and "isfinite (fadd o0 (fdiv (Fin 1) (rate_per_second l)))"
    and "\<forall>(n, ob)\<in>set rest. isfinite (fadd ob (fdiv (Fin 1) (rate_per_second l)))"
  shows "spaced (fdiv (Fin 1) (rate_per_second l)) (o0 # map snd rest)"
  using assms
proof (induction rest arbitrary: n0 o0 l)
  case (Cons p rest)
  obtain n1 o1 where p: "p = (n1, o1)" by fastforce
  let ?l = "snd (limiter_acquire n0 o0 l)"
  let ?i = "fdiv (Fin 1) (rate_per_second l)"
  have h: "isfinite n0" "isfinite o0" "fle (scheduled_start l n0) o0" "honoured ((n1, o1) # rest) ?l"
    using Cons.prems(1) p by simp_all
  have next_l: "next_allowed ?l = fadd o0 ?i" using acquire_next [OF h(1-3)] by simp
  have "fle (fadd o0 ?i) (fmax n1 (fadd o0 ?i))"
    using h(4) Cons.prems(2) by (intro fmax_ge_second) (auto simp: isfinite_def split: pyfloat.splits)
  moreover have "fle (fmax n1 (fadd o0 ?i)) o1"
    using h(4) by (simp add: scheduled_start_def next_l)
  ultimately have "fle (fadd o0 ?i) o1" by (rule fle_trans)
  moreover have "spaced ?i (o1 # map snd rest)"
    using Cons.IH [OF h(4)] Cons.prems(3) p by simp
  ultimately show ?case by (simp add: p)
qed simp

section \<open>Properties\<close>

text \<open>
  Upstream starts are paced: when the sleeper honours its delays and the clock stays in
  range, every start is at least one interval (the reciprocal of the configured rate, in
  float arithmetic) after the start before it, over a whole run of acquisitions.
\<close>

theorem rate_limiter_spaces_starts:
  assumes "limiter_init rate = Inr l" and "honoured starts l"
    and "\<forall>(now, observed)\<in>set starts. isfinite (fadd observed (fdiv (Fin 1) (rate_per_second l)))"
  shows "spaced (fdiv (Fin 1) (rate_per_second l)) (map snd starts)"
proof (cases starts)
  case (Cons p rest)
  obtain n0 o0 where p: "p = (n0, o0)" by fastforce
  show ?thesis using honoured_spaced [of n0 o0 rest l] assms(2,3) by (auto simp: Cons p)
qed simp

text \<open>
  Every deadline the constructor accepts keeps the shared ceiling: for every instant at
  which it can be queried the remaining budget is between 0 and 60 seconds, although it is
  computed in rounded float arithmetic.
\<close>

theorem deadline_remaining_within_ceiling:
  assumes "deadline_new c e = Inr d" and "deadline_remaining d now = Inr r"
  shows "fle (Fin 0) r \<and> fle r (Fin 60)"
  using deadline_remaining_bounds [OF deadline_new_wf [OF assms(1)] assms(2)] .

end
