(* ===== verification/Nplg_Resilience.thy ===== *)
theory Nplg_Resilience
  imports Nplg_Deadline
begin

text \<open>
  The upstream bulkhead and circuit breaker of \<^verbatim>\<open>src/nplg_mcp/resilience.py\<close>. The bodies of
  \<open>admit\<close> and \<open>complete_attempt\<close> run under the guard's lock without suspending, so each is one
  operation on the guard. The clock, the random source and the transition observer are
  parameters: a sample of each is an argument of the operation that consults it. The
  lemmas give the permit accounting, the exclusive half-open probe, the opening window and
  the sanitized rejections.
\<close>

section \<open>Policy and circuit state\<close>

definition MAX_CAPACITY :: int where "MAX_CAPACITY = 64"
definition MAX_FAILURE_THRESHOLD :: int where "MAX_FAILURE_THRESHOLD = 100"
definition MAX_OPEN_SECONDS :: pyfloat where "MAX_OPEN_SECONDS = Fin 3600"
definition MAX_ATTEMPT_SECONDS :: pyfloat where "MAX_ATTEMPT_SECONDS = Fin 59"
definition MAX_JITTER_RATIO :: pyfloat where "MAX_JITTER_RATIO = Fin (1 / 2)"
definition MAX_RETRY_AFTER_SECONDS :: pyfloat where "MAX_RETRY_AFTER_SECONDS = Fin 60"

datatype CircuitState = Closed int | Open pyfloat int | HalfOpen pyfloat int

record UpstreamGuardPolicy =
  pol_capacity :: int
  failure_threshold :: int
  base_open_seconds :: pyfloat
  max_open_seconds :: pyfloat
  max_attempt_seconds :: pyfloat
  jitter_ratio :: pyfloat

definition policy_valid :: "UpstreamGuardPolicy \<Rightarrow> bool" where
  "policy_valid p =
     (1 \<le> pol_capacity p \<and> pol_capacity p \<le> MAX_CAPACITY
      \<and> 1 \<le> failure_threshold p \<and> failure_threshold p \<le> MAX_FAILURE_THRESHOLD
      \<and> isfinite (base_open_seconds p)
      \<and> flt (Fin 0) (base_open_seconds p) \<and> fle (base_open_seconds p) MAX_OPEN_SECONDS
      \<and> isfinite (max_open_seconds p)
      \<and> fle (base_open_seconds p) (max_open_seconds p) \<and> fle (max_open_seconds p) MAX_OPEN_SECONDS
      \<and> isfinite (max_attempt_seconds p)
      \<and> flt (Fin 0) (max_attempt_seconds p) \<and> fle (max_attempt_seconds p) MAX_ATTEMPT_SECONDS
      \<and> isfinite (jitter_ratio p)
      \<and> fle (Fin 0) (jitter_ratio p) \<and> fle (jitter_ratio p) MAX_JITTER_RATIO)"

definition policy_new ::
  "pyobj \<Rightarrow> pyobj \<Rightarrow> pyobj \<Rightarrow> pyobj \<Rightarrow> pyobj \<Rightarrow> pyobj \<Rightarrow> UpstreamGuardPolicy res" where
  "policy_new cap thr base mx att jit =
     (case (cap, thr, base, mx, att, jit) of
        (PInt c, PInt t, PFloat b, PFloat m, PFloat a, PFloat j) \<Rightarrow>
          (let p = \<lparr>pol_capacity = c, failure_threshold = t, base_open_seconds = b,
                    max_open_seconds = m, max_attempt_seconds = a, jitter_ratio = j\<rparr>
           in if policy_valid p then Inr p else Inl (ValueError ''upstream guard policy is invalid''))
      | _ \<Rightarrow> Inl (ValueError ''upstream guard policy is invalid''))"

definition default_policy :: UpstreamGuardPolicy where
  "default_policy =
     \<lparr>pol_capacity = 2, failure_threshold = 3, base_open_seconds = Fin 1, max_open_seconds = Fin 30,
      max_attempt_seconds = Fin 15, jitter_ratio = flit (1 / 5)\<rparr>"

definition UpstreamUnavailableError :: "pyfloat \<Rightarrow> pyexc" where
  "UpstreamUnavailableError s =
     (if \<not> isfinite s \<or> \<not> (flt (Fin 0) s \<and> fle s MAX_RETRY_AFTER_SECONDS)
      then ValueError ''retry decision is invalid'' else UpstreamUnavailable s)"

section \<open>UpstreamGuard\<close>

record UpstreamGuard =
  guard_policy :: UpstreamGuardPolicy
  last_now :: "pyfloat option"
  guard_active :: int
  guard_generation :: int
  guard_state :: CircuitState

definition guard_init :: "UpstreamGuardPolicy option \<Rightarrow> UpstreamGuard" where
  "guard_init policy =
     \<lparr>guard_policy = (case policy of None \<Rightarrow> default_policy | Some p \<Rightarrow> p), last_now = None,
      guard_active = 0, guard_generation = 0, guard_state = Closed 0\<rparr>"

text \<open>
  What the transition observer does when it is called: it returns, it raises an ordinary
  exception (swallowed), or it lets a cancellation through; or there is no observer.
\<close>

datatype observer = NoObserver | ObserverReturns | ObserverRaises | ObserverCancels

datatype outcome = Success | Transient | Excluded | UnknownOutcome

record AttemptPermit =
  permit_deadline :: MonotonicDeadline
  permit_probe :: bool
  permit_generation :: int
  finalized :: bool

definition guard_now :: "pyobj \<Rightarrow> (pyexc, UpstreamGuard, pyfloat) op" where
  "guard_now clock g =
     (case clock of
        PFloat v \<Rightarrow>
          (if \<not> isfinite v \<or> flt v (Fin 0) \<or> (case last_now g of None \<Rightarrow> False | Some l \<Rightarrow> flt v l)
           then (Inl (RuntimeError ''upstream guard monotonic clock is invalid''), g)
           else (Inr v, g\<lparr>last_now := Some v\<rparr>))
      | _ \<Rightarrow> (Inl (RuntimeError ''upstream guard monotonic clock is invalid''), g))"

fun state_label :: "CircuitState \<Rightarrow> string" where
  "state_label (Closed _) = ''closed''"
| "state_label (Open _ _) = ''open''"
| "state_label (HalfOpen _ _) = ''half_open''"

definition set_state :: "observer \<Rightarrow> CircuitState \<Rightarrow> (pyexc, UpstreamGuard, unit) op" where
  "set_state obs st g =
     (if state_label (guard_state g) \<noteq> state_label st \<and> obs = ObserverCancels
      then (Inl CancelledError, g\<lparr>guard_state := st\<rparr>)
      else (Inr (), g\<lparr>guard_state := st\<rparr>))"

definition unavailable :: "pyfloat \<Rightarrow> pyexc" where
  "unavailable s = UpstreamUnavailableError (fmin MAX_RETRY_AFTER_SECONDS (fmax (flit (1 / 1000)) s))"

text \<open>The second half of \<open>admit\<close>: the capacity is taken, the permit built, the state moved.\<close>

definition admit_grant ::
  "pyfloat \<Rightarrow> pyfloat \<Rightarrow> (pyfloat \<times> int) option \<Rightarrow> observer \<Rightarrow> (pyexc, UpstreamGuard, AttemptPermit) op" where
  "admit_grant now remaining half_open obs g =
     (let g2 = g\<lparr>guard_active := guard_active g + 1\<rparr>;
          attempt = fmin remaining (max_attempt_seconds (guard_policy g2))
      in case deadline_new (PFloat now) (PFloat (fadd now attempt)) of
           Inl e \<Rightarrow> (Inl e, g2)
         | Inr dl \<Rightarrow>
             (let permit = \<lparr>permit_deadline = dl, permit_probe = (half_open \<noteq> None),
                            permit_generation = guard_generation g2, finalized = False\<rparr>
              in case half_open of
                   None \<Rightarrow> (Inr permit, g2)
                 | Some (retry_at, reopen) \<Rightarrow>
                     (case set_state obs (HalfOpen retry_at reopen) g2 of
                        (Inl e, g3) \<Rightarrow>
                          (Inl e, g3\<lparr>guard_active := guard_active g3 - 1,
                                     guard_generation := guard_generation g3 + 1,
                                     guard_state := Open now reopen\<rparr>)
                      | (Inr _, g3) \<Rightarrow> (Inr permit, g3))))"

definition admit ::
  "pyobj \<Rightarrow> observer \<Rightarrow> MonotonicDeadline \<Rightarrow> (pyexc, UpstreamGuard, AttemptPermit) op" where
  "admit clock obs d g0 =
     (case guard_now clock g0 of
        (Inl e, g) \<Rightarrow> (Inl e, g)
      | (Inr now, g) \<Rightarrow>
          (case deadline_remaining d (PFloat now) of
             Inl e \<Rightarrow> (Inl e, g)
           | Inr remaining \<Rightarrow>
               if fle remaining (Fin 0) then (Inl (TimeoutError ''upstream request deadline expired''), g)
               else case guard_state g of
                 Open retry_at reopen \<Rightarrow>
                   (if flt now retry_at then (Inl (unavailable (fsub retry_at now)), g)
                    else if pol_capacity (guard_policy g) \<le> guard_active g
                    then (Inl (unavailable (flit (1 / 10))), g)
                    else admit_grant now remaining (Some (retry_at, reopen)) obs
                           (g\<lparr>guard_generation := guard_generation g + 1\<rparr>))
               | HalfOpen retry_at reopen \<Rightarrow>
                   (Inl (unavailable (fmax (flit (1 / 10)) (fsub retry_at now))), g)
               | Closed _ \<Rightarrow>
                   (if pol_capacity (guard_policy g) \<le> guard_active g
                    then (Inl (unavailable (flit (1 / 10))), g)
                    else admit_grant now remaining None obs g)))"

definition open_interval :: "UpstreamGuardPolicy \<Rightarrow> pyobj \<Rightarrow> int \<Rightarrow> pyfloat res" where
  "open_interval p random reopen =
     (let exponent = max 0 (min (reopen - 1) 30);
          baseline = fmin (max_open_seconds p) (fmul (base_open_seconds p) (Fin (2 ^ nat exponent)))
      in case random of
           PFloat sample \<Rightarrow>
             (if \<not> isfinite sample \<or> \<not> (fle (Fin 0) sample \<and> fle sample (Fin 1))
              then Inl (RuntimeError ''upstream guard random sample is invalid'')
              else let factor = fadd (Fin 1) (fmul (jitter_ratio p) (fsub (fmul (Fin 2) sample) (Fin 1)))
                   in Inr (fmin (max_open_seconds p) (fmul baseline factor)))
         | _ \<Rightarrow> Inl (RuntimeError ''upstream guard random sample is invalid''))"

definition transient_reopen_count ::
  "observer \<Rightarrow> CircuitState \<Rightarrow> bool \<Rightarrow> (pyexc, UpstreamGuard, int option) op" where
  "transient_reopen_count obs st probe g =
     (case st of
        HalfOpen _ reopen \<Rightarrow>
          (if probe then (Inr (Some (reopen + 1)), g) else (Inr (Some (reopen + 1)), g))
      | Open _ reopen \<Rightarrow> (Inr (Some (reopen + 1)), g)
      | Closed n \<Rightarrow>
          (if n + 1 < failure_threshold (guard_policy g)
           then (case set_state obs (Closed (n + 1)) g of
                   (Inl e, g') \<Rightarrow> (Inl e, g') | (Inr _, g') \<Rightarrow> (Inr None, g'))
           else (Inr (Some 1), g)))"

text \<open>The tail of \<open>complete_attempt\<close> that opens the circuit.\<close>

definition trip :: "pyobj \<Rightarrow> pyobj \<Rightarrow> observer \<Rightarrow> int \<Rightarrow> (pyexc, UpstreamGuard, unit) op" where
  "trip clock random obs reopen g0 =
     (case guard_now clock (g0\<lparr>guard_generation := guard_generation g0 + 1\<rparr>) of
        (Inl e, g) \<Rightarrow> (Inl e, g)
      | (Inr now, g) \<Rightarrow>
          (case open_interval (guard_policy g) random reopen of
             Inl e \<Rightarrow> (Inl e, g)
           | Inr interval \<Rightarrow>
               (let retry_at = fadd now interval
                in if \<not> isfinite retry_at \<or> fle retry_at now
                   then (Inl (RuntimeError ''upstream guard retry deadline is invalid''), g)
                   else set_state obs (Open retry_at reopen) g)))"

definition complete_attempt ::
  "pyobj \<Rightarrow> pyobj \<Rightarrow> observer \<Rightarrow> bool \<Rightarrow> int \<Rightarrow> outcome \<Rightarrow> (pyexc, UpstreamGuard, unit) op" where
  "complete_attempt clock random obs probe generation oc g0 =
     (if guard_active g0 \<le> 0 then (Inl (RuntimeError ''upstream guard permit accounting is invalid''), g0)
      else let g = g0\<lparr>guard_active := guard_active g0 - 1\<rparr>; st = guard_state g
      in if generation \<noteq> guard_generation g then (Inr (), g)
      else case oc of
        Success \<Rightarrow>
          (let g1 = (case st of Closed _ \<Rightarrow> g | _ \<Rightarrow> g\<lparr>guard_generation := guard_generation g + 1\<rparr>)
           in set_state obs (Closed 0) g1)
      | Excluded \<Rightarrow>
          (case st of
             HalfOpen _ reopen \<Rightarrow>
               (if probe
                then (case guard_now clock (g\<lparr>guard_generation := guard_generation g + 1\<rparr>) of
                        (Inl e, g1) \<Rightarrow> (Inl e, g1)
                      | (Inr now, g1) \<Rightarrow> set_state obs (Open now reopen) g1)
                else (Inr (), g))
           | _ \<Rightarrow> (Inr (), g))
      | UnknownOutcome \<Rightarrow> (Inl (RuntimeError ''upstream attempt outcome is invalid''), g)
      | Transient \<Rightarrow>
          (case transient_reopen_count obs st probe g of
             (Inl e, g1) \<Rightarrow> (Inl e, g1)
           | (Inr None, g1) \<Rightarrow> (Inr (), g1)
           | (Inr (Some reopen), g1) \<Rightarrow> trip clock random obs reopen g1))"

section \<open>Permits and runs\<close>

text \<open>
  \<open>AttemptPermit._record\<close> completes the attempt once and is final whatever the completion
  raised; leaving the permit's context records an excluded failure when nothing was recorded.
  A run of the guard is a sequence of admissions and records over the list of permits.
\<close>

type_synonym guard_system = "UpstreamGuard \<times> AttemptPermit list"

definition permit_record ::
  "pyobj \<Rightarrow> pyobj \<Rightarrow> observer \<Rightarrow> outcome \<Rightarrow> nat \<Rightarrow> (pyexc, guard_system, unit) op" where
  "permit_record clock random obs oc i sys =
     (let (g, ps) = sys; p = ps ! i
      in if finalized p then (Inl (RuntimeError ''upstream attempt outcome was already recorded''), sys)
         else let (r, g') = complete_attempt clock random obs (permit_probe p) (permit_generation p) oc g
              in (r, (g', ps[i := p\<lparr>finalized := True\<rparr>])))"

definition permit_exit ::
  "pyobj \<Rightarrow> pyobj \<Rightarrow> observer \<Rightarrow> nat \<Rightarrow> (pyexc, guard_system, unit) op" where
  "permit_exit clock random obs i sys =
     (if finalized (snd sys ! i) then (Inr (), sys)
      else permit_record clock random obs Excluded i sys)"

definition admit_step ::
  "pyobj \<Rightarrow> observer \<Rightarrow> MonotonicDeadline \<Rightarrow> (pyexc, guard_system, unit) op" where
  "admit_step clock obs d sys =
     (let (g, ps) = sys
      in case admit clock obs d g of
           (Inl e, g') \<Rightarrow> (Inl e, (g', ps))
         | (Inr p, g') \<Rightarrow> (Inr (), (g', ps @ [p])))"

definition clock_in_range :: "pyobj \<Rightarrow> bool" where
  "clock_in_range clock =
     (case clock of PFloat (Fin x) \<Rightarrow> fl_round x = Fin x \<and> x < 2 ^ 50 | _ \<Rightarrow> True)"

text \<open>
  The clock of a run reads binary64 values below \<open>2 ^ 50\<close> seconds (more than thirty million
  years); nothing is assumed of the random source or of the observer.
\<close>

inductive guard_step :: "guard_system \<Rightarrow> guard_system \<Rightarrow> bool" where
  Admit: "deadline_wf d \<Longrightarrow> clock_in_range clock \<Longrightarrow> guard_step s (snd (admit_step clock obs d s))"
| Record: "i < length (snd s) \<Longrightarrow> guard_step s (snd (permit_record clock random obs oc i s))"
| Exit: "i < length (snd s) \<Longrightarrow> guard_step s (snd (permit_exit clock random obs i s))"

definition live :: "AttemptPermit list \<Rightarrow> AttemptPermit list" where
  "live ps = filter (\<lambda>p. \<not> finalized p) ps"

definition live_current :: "UpstreamGuard \<Rightarrow> AttemptPermit list \<Rightarrow> AttemptPermit list" where
  "live_current g ps = filter (\<lambda>p. \<not> finalized p \<and> permit_generation p = guard_generation g) ps"

definition circuit_inv :: "UpstreamGuard \<Rightarrow> AttemptPermit list \<Rightarrow> bool" where
  "circuit_inv g ps =
     (case guard_state g of
        Closed n \<Rightarrow> 0 \<le> n \<and> n < failure_threshold (guard_policy g)
                    \<and> (\<forall>p\<in>set (live_current g ps). \<not> permit_probe p)
      | Open _ _ \<Rightarrow> live_current g ps = []
      | HalfOpen _ _ \<Rightarrow> length (live_current g ps) \<le> 1 \<and> (\<forall>p\<in>set (live_current g ps). permit_probe p))"

definition guard_inv :: "guard_system \<Rightarrow> bool" where
  "guard_inv = (\<lambda>(g, ps).
     policy_valid (guard_policy g) \<and> guard_active g = int (length (live ps))
     \<and> guard_active g \<le> pol_capacity (guard_policy g)
     \<and> (\<forall>p\<in>set ps. permit_generation p \<le> guard_generation g) \<and> circuit_inv g ps)"

lemma default_policy_valid: "policy_valid default_policy"
proof -
  have "fle (Fin 0) (flit (1 / 5))" "fle (flit (1 / 5)) (Fin (1 / 2))"
    using fle_Fin_fl_round [of 0 "1 / 5"] fl_round_le_Fin [of "1 / 5" "1 / 2"] fl_round_dyadic [of 1 1] by simp_all
  moreover then have "isfinite (flit (1 / 5))" by (cases "flit (1 / 5)") simp_all
  ultimately show ?thesis
    by (simp add: default_policy_def policy_valid_def MAX_CAPACITY_def MAX_FAILURE_THRESHOLD_def
        MAX_OPEN_SECONDS_def MAX_ATTEMPT_SECONDS_def MAX_JITTER_RATIO_def)
qed

section \<open>Rejections\<close>

lemma retry_after_min_pos: "flt (Fin 0) (flit (1 / 1000))" "fle (flit (1 / 1000)) (Fin 60)"
proof -
  have "fle (Fin (1 / 1024)) (flit (1 / 1000))"
    using fle_Fin_fl_round [of "1 / 1024" "1 / 1000"] fl_round_dyadic [of 1 10] by simp
  then show "flt (Fin 0) (flit (1 / 1000))" by (rule flt_fle_trans [rotated]) simp
  show "fle (flit (1 / 1000)) (Fin 60)" by (rule fl_round_le_Fin) simp_all
qed

lemma clamp_bounds:
  assumes "flt (Fin 0) lo" "fle lo (Fin 60)"
  shows "isfinite (fmin (Fin 60) (fmax lo s))" "fle lo (fmin (Fin 60) (fmax lo s))"
    "fle (fmin (Fin 60) (fmax lo s)) (Fin 60)"
  using assms by (cases lo; cases s; simp add: fmin_def fmax_def isfinite_def; fastforce)+

lemma unavailable_sanitized:
  "\<exists>r. unavailable s = UpstreamUnavailable r \<and> fle (flit (1 / 1000)) r \<and> fle r (Fin 60)"
proof -
  note c = clamp_bounds [OF retry_after_min_pos, of s]
  from flt_fle_trans [OF retry_after_min_pos(1) c(2)] c show ?thesis
    by (simp add: unavailable_def UpstreamUnavailableError_def MAX_RETRY_AFTER_SECONDS_def)
qed

section \<open>Admission\<close>

lemma guard_now_cases:
  obtains (raised) e where "guard_now clock g = (Inl e, g)"
  | (read) x where "clock = PFloat (Fin x)" "0 \<le> x"
      "guard_now clock g = (Inr (Fin x), g\<lparr>last_now := Some (Fin x)\<rparr>)"
proof (cases "\<exists>x. clock = PFloat (Fin x) \<and> 0 \<le> x \<and> \<not> (case last_now g of None \<Rightarrow> False | Some l \<Rightarrow> flt (Fin x) l)")
  case True
  then show thesis using read by (auto simp: guard_now_def)
next
  case False
  then have "guard_now clock g = (Inl (RuntimeError ''upstream guard monotonic clock is invalid''), g)"
    by (cases clock) (auto simp: guard_now_def isfinite_def not_le split: pyfloat.splits)
  then show thesis by (rule raised)
qed

lemma attempt_deadline_ok:
  assumes "fl_round x = Fin x" "0 \<le> x" "x < 2 ^ 50" "0 \<le> a" "a \<le> 59"
  shows "is_ok (deadline_new (PFloat (Fin x)) (PFloat (fadd (Fin x) (Fin a))))"
proof -
  have "x + a < 2 ^ 51" using assms by simp
  then obtain y where y: "fl_round (x + a) = Fin y" "y \<le> x + a + 1 / 8"
    using fl_round_error_51 [of "x + a"] assms by auto
  have "x \<le> y" using fle_Fin_fl_round [of x "x + a"] assms y by simp
  then have "fle (Fin 0) (fl_round (y - x))" by (intro fle_Fin_fl_round) simp_all
  moreover have "fle (fl_round (y - x)) (Fin 60)" using y assms by (intro fl_round_le_Fin) simp_all
  ultimately show ?thesis using \<open>x \<le> y\<close> assms y
    by (cases "fl_round (y - x)")
      (auto simp: deadline_new_def valid_instant_def MAX_DEADLINE_BUDGET_SECONDS_def isfinite_def)
qed

text \<open>Every way \<open>admit\<close> can end when the clock is in range and the request deadline is well formed.\<close>

lemma fmin_attempt_bounds:
  assumes "fle (Fin 0) r" "fle r (Fin 60)" "flt (Fin 0) m" "fle m (Fin 59)"
  shows "\<exists>a. fmin r m = Fin a \<and> 0 \<le> a \<and> a \<le> 59"
  using assms by (cases r; cases m) (auto simp: fmin_def)

lemma admit_grant_cases:
  assumes "policy_valid (guard_policy g)" "fl_round x = Fin x" "0 \<le> x" "x < 2 ^ 50"
    and "fle (Fin 0) r" "fle r (Fin 60)"
  obtains (granted) p where
      "admit_grant (Fin x) r half obs g =
         (Inr p, case half of
            None \<Rightarrow> g\<lparr>guard_active := guard_active g + 1\<rparr>
          | Some (t, n) \<Rightarrow> g\<lparr>guard_active := guard_active g + 1, guard_state := HalfOpen t n\<rparr>)"
      "permit_probe p = (half \<noteq> None)" "permit_generation p = guard_generation g" "\<not> finalized p"
  | (cancelled) t n where "half = Some (t, n)" "obs = ObserverCancels"
      "admit_grant (Fin x) r half obs g =
         (Inl CancelledError, g\<lparr>guard_generation := guard_generation g + 1, guard_state := Open (Fin x) n\<rparr>)"
proof -
  obtain a where a: "fmin r (max_attempt_seconds (guard_policy g)) = Fin a" "0 \<le> a" "a \<le> 59"
    using fmin_attempt_bounds [OF assms(5,6)] assms(1)
    by (auto simp: policy_valid_def MAX_ATTEMPT_SECONDS_def)
  obtain dl where dl: "deadline_new (PFloat (Fin x)) (PFloat (fl_round (x + a))) = Inr dl"
    using attempt_deadline_ok [OF assms(2-4) a(2,3)] by (auto simp: is_ok_iff)
  let ?p = "\<lparr>permit_deadline = dl, permit_probe = (half \<noteq> None), permit_generation = guard_generation g,
             finalized = False\<rparr>"
  show thesis
  proof (cases half)
    case None
    then show thesis by (intro granted [of ?p]) (simp_all add: admit_grant_def a dl)
  next
    case (Some h)
    obtain t n where h: "h = (t, n)" by fastforce
    show thesis
    proof (cases "state_label (guard_state g) \<noteq> ''half_open'' \<and> obs = ObserverCancels")
      case True
      then show thesis using Some h by (intro cancelled) (simp_all add: admit_grant_def a dl set_state_def)
    next
      case False
      then show thesis using Some h by (intro granted [of ?p]) (auto simp: admit_grant_def a dl set_state_def)
    qed
  qed
qed

text \<open>Every way \<open>admit\<close> ends: rejected (only the clock sample recorded), granted, or cancelled by the observer.\<close>

lemma admit_cases:
  assumes "policy_valid (guard_policy g)" "deadline_wf d" "clock_in_range clock"
  obtains (rejected) e l where "admit clock obs d g = (Inl e, g\<lparr>last_now := l\<rparr>)"
  | (closed) p x n where "admit clock obs d g =
        (Inr p, g\<lparr>last_now := Some (Fin x), guard_active := guard_active g + 1\<rparr>)"
      "guard_state g = Closed n" "guard_active g < pol_capacity (guard_policy g)"
      "\<not> permit_probe p" "permit_generation p = guard_generation g" "\<not> finalized p"
  | (probe) p x t n where "admit clock obs d g =
        (Inr p, g\<lparr>last_now := Some (Fin x), guard_active := guard_active g + 1,
                   guard_generation := guard_generation g + 1, guard_state := HalfOpen t n\<rparr>)"
      "guard_state g = Open t n" "\<not> flt (Fin x) t" "guard_active g < pol_capacity (guard_policy g)"
      "permit_probe p" "permit_generation p = guard_generation g + 1" "\<not> finalized p"
  | (cancelled) x t n where "admit clock obs d g =
        (Inl CancelledError, g\<lparr>last_now := Some (Fin x), guard_generation := guard_generation g + 2,
                               guard_state := Open (Fin x) n\<rparr>)"
      "guard_state g = Open t n" "obs = ObserverCancels"
proof (cases rule: guard_now_cases [of clock g])
  case (raised e)
  then show thesis by (intro rejected [of e "last_now g"]) (simp add: admit_def)
next
  case (read x)
  let ?g = "g\<lparr>last_now := Some (Fin x)\<rparr>"
  have x: "fl_round x = Fin x" "x < 2 ^ 50" using assms(3) read(1) by (simp_all add: clock_in_range_def)
  show thesis
  proof (cases "deadline_remaining d (PFloat (Fin x))")
    case (Inl e)
    then show thesis by (intro rejected [of e "Some (Fin x)"]) (simp_all add: admit_def read(3))
  next
    case (Inr r)
    have r: "fle (Fin 0) r" "fle r (Fin 60)" using deadline_remaining_bounds [OF assms(2) Inr] by simp_all
    note grant = admit_grant_cases [OF _ x(1) read(2) x(2) r]
    show thesis
    proof (cases "fle r (Fin 0)")
      case True
      then show thesis
        by (intro rejected [of "TimeoutError ''upstream request deadline expired''" "Some (Fin x)"])
          (simp_all add: admit_def read(3) Inr)
    next
      case live: False
      note adm = admit_def [of clock obs d g, unfolded read(3)]
      show thesis
      proof (cases "guard_state g")
        case (HalfOpen t n)
        then show thesis
          by (intro rejected [of "unavailable (fmax (flit (1 / 10)) (fsub t (Fin x)))" "Some (Fin x)"])
            (simp_all add: adm Inr live)
      next
        case (Closed n)
        show thesis
        proof (cases "pol_capacity (guard_policy g) \<le> guard_active g")
          case True
          then show thesis
            by (intro rejected [of "unavailable (flit (1 / 10))" "Some (Fin x)"]) (simp_all add: adm Inr live Closed)
        next
          case False
          show thesis
          proof (cases rule: grant [of ?g None obs])
            case 1 show ?case using assms(1) by simp
          next
            case (2 p)
            then show thesis using False Closed by (intro closed [where p = p and x = x and n = n]) (simp_all add: adm Inr live)
          qed simp
        qed
      next
        case (Open t n)
        show thesis
        proof (cases "flt (Fin x) t \<or> pol_capacity (guard_policy g) \<le> guard_active g")
          case True
          then show thesis
            by (intro rejected [of "if flt (Fin x) t then unavailable (fsub t (Fin x)) else unavailable (flit (1 / 10))" "Some (Fin x)"])
              (auto simp: adm Inr live Open)
        next
          case False
          show thesis
          proof (cases rule: grant [of "?g\<lparr>guard_generation := guard_generation ?g + 1\<rparr>" "Some (t, n)" obs])
            case 1 show ?case using assms(1) by simp
          next
            case (2 p)
            then show thesis using False Open by (intro probe [where p = p and x = x and t = t and n = n]) (simp_all add: adm Inr live)
          next
            case (3 t' n')
            then show thesis using False Open
              by (intro cancelled [where x = x and t = t and n = n])
                (simp_all add: admit_def read(3) Inr live add.commute)
          qed
        qed
      qed
    qed
  qed
qed

section \<open>Completion\<close>

lemma set_state_guard: "snd (set_state obs st g) = g\<lparr>guard_state := st\<rparr>"
  by (simp add: set_state_def)

text \<open>
  What a completion of an unfinished attempt can do to the guard: it always gives back one
  unit of capacity, a stale generation changes nothing else, and every other change of the
  circuit except counting a failure starts a new generation.
\<close>

lemma trip_effect:
  assumes "snd (trip clock random obs reopen g) = g'"
  shows "guard_policy g' = guard_policy g \<and> guard_active g' = guard_active g
         \<and> guard_generation g' = guard_generation g + 1
         \<and> (guard_state g' = guard_state g \<or> (\<exists>t. guard_state g' = Open t reopen))"
proof (cases rule: guard_now_cases [of clock "g\<lparr>guard_generation := guard_generation g + 1\<rparr>"])
  case (raised e)
  with assms show ?thesis by (auto simp: trip_def)
next
  case (read x)
  with assms show ?thesis
    by (cases "open_interval (guard_policy g) random reopen") (auto simp: trip_def Let_def set_state_def)
qed

lemma complete_attempt_effect:
  assumes "0 < guard_active g" "snd (complete_attempt clock random obs probe gen oc g) = g'"
  shows "guard_policy g' = guard_policy g \<and> guard_active g' = guard_active g - 1
         \<and> (guard_generation g' = guard_generation g \<and> guard_state g' = guard_state g
            \<or> gen = guard_generation g \<and> guard_generation g' = guard_generation g
              \<and> (\<exists>n m. guard_state g = Closed n \<and> guard_state g' = Closed m
                     \<and> (m = 0 \<or> m = n + 1 \<and> m < failure_threshold (guard_policy g)))
            \<or> gen = guard_generation g \<and> guard_generation g' = guard_generation g + 1
              \<and> (guard_state g' = guard_state g \<or> guard_state g' = Closed 0
                 \<or> (\<exists>t n. guard_state g' = Open t n)))"
proof -
  let ?g = "g\<lparr>guard_active := guard_active g - 1\<rparr>"
  have trip: "trip clock random obs n ?g = (r, h) \<Longrightarrow>
      guard_policy h = guard_policy g \<and> guard_active h = guard_active g - 1
      \<and> guard_generation h = guard_generation g + 1
      \<and> (guard_state h = guard_state g \<or> (\<exists>t. guard_state h = Open t n))" for n r h
    using trip_effect [of clock random obs n ?g h] by simp
  have now: "guard_now clock (g\<lparr>guard_active := guard_active g - 1,
      guard_generation := guard_generation g + 1\<rparr>) = (r, h) \<Longrightarrow>
      guard_policy h = guard_policy g \<and> guard_active h = guard_active g - 1
      \<and> guard_generation h = guard_generation g + 1 \<and> guard_state h = guard_state g" for r h
    by (auto simp: guard_now_def split: pyobj.splits if_splits)
  show ?thesis
  proof (cases "gen = guard_generation g")
    case False
    with assms show ?thesis by (auto simp: complete_attempt_def Let_def)
  next
    case True
    show ?thesis
    proof (cases oc)
      case Success
      with assms True show ?thesis by (cases "guard_state g") (auto simp: complete_attempt_def Let_def set_state_guard)
    next
      case UnknownOutcome
      with assms True show ?thesis by (auto simp: complete_attempt_def Let_def)
    next
      case Excluded
      with assms True show ?thesis
        by (cases "guard_state g"; cases probe)
          (auto simp: complete_attempt_def Let_def set_state_guard split: prod.splits sum.splits dest!: now)
    next
      case Transient
      show ?thesis
      proof (cases "\<exists>n. guard_state g = Closed n \<and> n + 1 < failure_threshold (guard_policy g)")
        case True
        with assms Transient \<open>gen = _\<close> show ?thesis
          by (auto simp: complete_attempt_def Let_def transient_reopen_count_def set_state_def)
      next
        case False
        then obtain n where "transient_reopen_count obs (guard_state g) probe ?g = (Inr (Some n), ?g)"
          by (cases "guard_state g") (auto simp: transient_reopen_count_def)
        with assms Transient \<open>gen = _\<close> have "snd (trip clock random obs n ?g) = g'"
          by (auto simp: complete_attempt_def Let_def)
        with trip [of n "fst (trip clock random obs n ?g)" g'] \<open>gen = _\<close> show ?thesis
          by (metis prod.collapse)
      qed
    qed
  qed
qed

section \<open>The invariant\<close>

lemma live_append [simp]: "live (ps @ [p]) = live ps @ (if finalized p then [] else [p])"
  by (simp add: live_def)

lemma live_current_append [simp]:
  "live_current g (ps @ [p]) =
   live_current g ps @ (if \<not> finalized p \<and> permit_generation p = guard_generation g then [p] else [])"
  by (simp add: live_current_def)

lemma live_current_cong:
  "guard_generation g' = guard_generation g \<Longrightarrow> live_current g' ps = live_current g ps"
  by (simp add: live_current_def)

lemma live_current_new_generation:
  "\<forall>p\<in>set ps. permit_generation p < guard_generation g \<Longrightarrow> live_current g ps = []"
  by (auto simp: live_current_def filter_empty_conv)

lemma live_current_finalize:
  "length (live_current g (ps[i := p\<lparr>finalized := True\<rparr>])) \<le> length (live_current g ps)"
  "set (live_current g (ps[i := p\<lparr>finalized := True\<rparr>])) \<subseteq> set (live_current g ps)"
  unfolding live_current_def
  by (rule length_filter_update_le, simp) (rule set_filter_update_subset, simp)

lemma admit_preserves:
  assumes "guard_inv (g, ps)" "deadline_wf d" "clock_in_range clock"
  shows "guard_inv (snd (admit_step clock obs d (g, ps)))"
proof -
  have pv: "policy_valid (guard_policy g)" using assms(1) by (simp add: guard_inv_def)
  show ?thesis
  proof (cases rule: admit_cases [OF pv assms(2,3), of obs])
    case (1 e l)
    with assms(1) show ?thesis
      by (simp add: admit_step_def guard_inv_def circuit_inv_def live_current_def split: CircuitState.splits)
  next
    case (2 p x n)
    have "live_current (g\<lparr>last_now := Some (Fin x), guard_active := guard_active g + 1\<rparr>) ps = live_current g ps"
      by (rule live_current_cong) simp
    with 2 assms(1) show ?thesis
      by (auto simp: admit_step_def guard_inv_def circuit_inv_def)
  next
    case (3 p x t n)
    have "live_current (g\<lparr>guard_generation := guard_generation g + 1\<rparr>) ps = []"
      using assms(1) by (intro live_current_new_generation) (auto simp: guard_inv_def)
    with 3 assms(1) show ?thesis
      by (auto simp: admit_step_def guard_inv_def circuit_inv_def live_current_def filter_empty_conv)
  next
    case (4 x t n)
    with assms(1) show ?thesis
      by (fastforce simp: admit_step_def guard_inv_def circuit_inv_def live_current_def filter_empty_conv)
  qed
qed

lemma record_preserves:
  assumes "guard_inv (g, ps)" "i < length ps"
  shows "guard_inv (snd (permit_record clock random obs oc i (g, ps)))"
proof (cases "finalized (ps ! i)")
  case True
  with assms show ?thesis by (simp add: permit_record_def)
next
  case False
  define p where "p = ps ! i"
  define g' where "g' = snd (complete_attempt clock random obs (permit_probe p) (permit_generation p) oc g)"
  define qs where "qs = ps[i := p\<lparr>finalized := True\<rparr>]"
  have step: "snd (permit_record clock random obs oc i (g, ps)) = (g', qs)"
    using False by (simp add: permit_record_def p_def g'_def qs_def split_beta Let_def)
  have n: "Suc (length (live qs)) = length (live ps)"
    unfolding live_def qs_def using assms(2) False
    by (intro length_filter_update_drop) (simp_all add: p_def)
  have act: "0 < guard_active g" using assms(1) n by (auto simp: guard_inv_def)
  have lc: "length (live_current g qs) \<le> length (live_current g ps)"
    "set (live_current g qs) \<subseteq> set (live_current g ps)"
    unfolding qs_def by (rule live_current_finalize)+
  have gen: "\<forall>q\<in>set qs. permit_generation q \<le> guard_generation g"
    using assms set_update_subset_insert [of ps i "p\<lparr>finalized := True\<rparr>"]
    by (fastforce simp: guard_inv_def qs_def p_def)
  have eff: "guard_policy g' = guard_policy g" "guard_active g' = guard_active g - 1"
    using complete_attempt_effect [OF act g'_def [symmetric]] by simp_all
  have "guard_generation g \<le> guard_generation g' \<and> circuit_inv g' qs"
  proof (cases "guard_generation g' = guard_generation g")
    case True
    then have "live_current g' qs = live_current g qs" by (rule live_current_cong)
    with True complete_attempt_effect [OF act g'_def [symmetric]] assms(1) lc eff(1) show ?thesis
      by (fastforce simp: circuit_inv_def guard_inv_def split: CircuitState.splits)
  next
    case False
    with complete_attempt_effect [OF act g'_def [symmetric]]
    have g: "guard_generation g' = guard_generation g + 1"
      and st: "guard_state g' = guard_state g \<or> guard_state g' = Closed 0 \<or> (\<exists>t n. guard_state g' = Open t n)"
      by auto
    have "live_current g' qs = []" using gen g by (intro live_current_new_generation) auto
    with st assms(1) eff(1) g show ?thesis
      by (auto simp: circuit_inv_def guard_inv_def policy_valid_def split: CircuitState.splits)
  qed
  with assms(1) n eff gen show ?thesis
    unfolding step by (fastforce simp: guard_inv_def)
qed

inductive_cases guard_stepE: "guard_step s t"

lemma guard_step_preserves: "guard_step s t \<Longrightarrow> guard_inv s \<Longrightarrow> guard_inv t"
  by (erule guard_stepE; cases s)
    (auto simp: permit_exit_def intro: admit_preserves record_preserves simp del: split_paired_All)

lemma guard_run_inv:
  assumes "guard_step\<^sup>*\<^sup>* (guard_init policy, []) s" "\<forall>p. policy = Some p \<longrightarrow> policy_valid p"
  shows "guard_inv s"
  using assms(1)
proof (induction rule: rtranclp_induct)
  case base
  have "policy_valid (guard_policy (guard_init policy))"
    using assms(2) default_policy_valid by (auto simp: guard_init_def split: option.splits)
  then show ?case
    by (auto simp: guard_inv_def guard_init_def circuit_inv_def live_def live_current_def policy_valid_def)
next
  case (step t u)
  then show ?case by (blast intro: guard_step_preserves)
qed

section \<open>The opening window\<close>

lemma fmin_between: "fle (Fin a) y \<Longrightarrow> a \<le> m \<Longrightarrow> \<exists>z. fmin (Fin m) y = Fin z \<and> a \<le> z \<and> z \<le> m"
  by (cases y) (simp_all add: fmin_def)

lemma open_interval_bounds:
  assumes "policy_valid p" "fle (Fin 1) (base_open_seconds p)" "0 \<le> s" "s \<le> 1"
  obtains i where "open_interval p (PFloat (Fin s)) reopen = Inr (Fin i)" "1 / 2 \<le> i"
    "fle (Fin i) (max_open_seconds p)"
proof -
  obtain b m j where p: "base_open_seconds p = Fin b" "max_open_seconds p = Fin m" "jitter_ratio p = Fin j"
    and b: "1 \<le> b" "b \<le> m" "m \<le> 3600" and j: "0 \<le> j" "j \<le> 1 / 2"
    using assms(1,2) by (auto simp: policy_valid_def isfinite_iff MAX_OPEN_SECONDS_def MAX_JITTER_RATIO_def)
  define e where "e = nat (max 0 (min (reopen - 1) 30))"
  have "1 \<le> b * 2 ^ e" using b(1) one_le_power [of "2 :: rat" e] mult_mono [of 1 b 1 "2 ^ e"] by simp
  then have "fle (Fin 1) (fl_round (b * 2 ^ e))" by (rule fle_Fin_fl_round) simp
  then obtain bl where bl: "fmin (Fin m) (fl_round (b * 2 ^ e)) = Fin bl" "1 \<le> bl" "bl \<le> m"
    using fmin_between [of 1 "fl_round (b * 2 ^ e)" m] b by auto
  obtain u where u: "fl_round (2 * s) = Fin u" "0 \<le> u" "u \<le> 2"
    using fl_round_between [of 0 "2 * s" 2] assms(3,4) by auto
  obtain v where v: "fl_round (u - 1) = Fin v" "- 1 \<le> v" "v \<le> 1"
    using fl_round_between [of "- 1" "u - 1" 1] u by auto
  have jv: "- (1 / 2) \<le> j * v" "j * v \<le> 1 / 2"
    using mult_left_mono [of v 1 j] mult_left_mono [of "- 1" v j] j v by auto
  then obtain w where w: "fl_round (j * v) = Fin w" "- (1 / 2) \<le> w" "w \<le> 1 / 2"
    using fl_round_between [of "- 1 / 2" "j * v" "1 / 2"] by auto
  obtain f where f: "fl_round (1 + w) = Fin f" "1 / 2 \<le> f" "f \<le> 3 / 2"
    using fl_round_between [of "1 / 2" "1 + w" "3 / 2"] w by auto
  have "1 / 2 \<le> bl * f" using mult_mono [of 1 bl "1 / 2" f] bl f by simp
  then have "fle (Fin (1 / 2)) (fl_round (bl * f))" by (rule fle_Fin_fl_round) simp
  then obtain i where i: "fmin (Fin m) (fl_round (bl * f)) = Fin i" "1 / 2 \<le> i" "i \<le> m"
    using fmin_between [of "1 / 2" "fl_round (bl * f)" m] b by auto
  have "open_interval p (PFloat (Fin s)) reopen = Inr (Fin i)"
    using assms(3,4) by (simp add: open_interval_def p fmul_def e_def [symmetric] bl u v w f i Let_def)
  with i p show thesis by (intro that) simp_all
qed

lemma trip_opens:
  assumes "policy_valid (guard_policy g)" "fle (Fin 1) (base_open_seconds (guard_policy g))"
    and "guard_now (PFloat (Fin x)) g = (Inr (Fin x), g')" "fl_round x = Fin x" "x < 2 ^ 50" "0 \<le> s" "s \<le> 1"
  obtains retry_at where
    "trip (PFloat (Fin x)) (PFloat (Fin s)) obs reopen g =
       (if state_label (guard_state g) \<noteq> ''open'' \<and> obs = ObserverCancels then Inl CancelledError else Inr (),
        g\<lparr>last_now := Some (Fin x), guard_generation := guard_generation g + 1,
           guard_state := Open retry_at reopen\<rparr>)"
    "flt (Fin x) retry_at" "fle retry_at (fadd (Fin x) (max_open_seconds (guard_policy g)))"
proof -
  obtain i where i: "open_interval (guard_policy g) (PFloat (Fin s)) reopen = Inr (Fin i)" "1 / 2 \<le> i"
    "fle (Fin i) (max_open_seconds (guard_policy g))"
    using open_interval_bounds [OF assms(1,2,6,7)] .
  have x: "0 \<le> x" using assms(3) by (auto simp: guard_now_def split: if_splits)
  have now: "guard_now (PFloat (Fin x)) (g\<lparr>guard_generation := n\<rparr>) =
      (Inr (Fin x), g\<lparr>guard_generation := n, last_now := Some (Fin x)\<rparr>)" for n
    using assms(3) by (auto simp: guard_now_def split: if_splits)
  have "i \<le> 3600" using i(3) assms(1) by (auto simp: policy_valid_def MAX_OPEN_SECONDS_def isfinite_iff)
  then obtain y where y: "fl_round (x + i) = Fin y" "x + i - 1 / 8 \<le> y"
    using fl_round_error_51 [of "x + i"] x i(2) assms(5) by auto
  have "fle (fadd (Fin x) (Fin i)) (fadd (Fin x) (max_open_seconds (guard_policy g)))"
    using i(3) by (rule fadd_mono_right) simp
  then show thesis using i y
    by (intro that [of "Fin y"]) (auto simp: trip_def now set_state_def)
qed

section \<open>A concrete run\<close>

text \<open>A concrete run shared by the witnesses: one permit, a trip at time 0, a probe at time 1.\<close>

definition tiny_policy :: UpstreamGuardPolicy where
  "tiny_policy =
     \<lparr>pol_capacity = 1, failure_threshold = 1, base_open_seconds = Fin (1 / 1152921504606846976),
      max_open_seconds = Fin (1 / 1152921504606846976), max_attempt_seconds = Fin 1, jitter_ratio = Fin 0\<rparr>"

definition example_deadline :: MonotonicDeadline where
  "example_deadline = \<lparr>created_at = Fin 0, expires_at = Fin 10\<rparr>"

definition example_permit :: "rat \<Rightarrow> bool \<Rightarrow> int \<Rightarrow> AttemptPermit" where
  "example_permit t pr n =
     \<lparr>permit_deadline = \<lparr>created_at = Fin t, expires_at = Fin (t + 1)\<rparr>, permit_probe = pr,
      permit_generation = n, finalized = False\<rparr>"

lemma tiny_rounding [simp]:
  "fl_round (1 / 1152921504606846976) = Fin (1 / 1152921504606846976)"
  "fl_round (1 / 576460752303423488) = Fin (1 / 576460752303423488)"
  "fl_round (1152921504606846977 / 1152921504606846976) = Fin 1"
proof -
  show "fl_round (1 / 1152921504606846976) = Fin (1 / 1152921504606846976)"
    using fl_round_dyadic [of 1 60] by simp
  show "fl_round (1 / 576460752303423488) = Fin (1 / 576460752303423488)"
    using fl_round_dyadic [of 1 59] by simp
  have "grid_round (1152921504606846977 / 1152921504606846976) = 1" by code_simp
  then show "fl_round (1152921504606846977 / 1152921504606846976) = Fin 1"
    using fl_round_small [of "1152921504606846977 / 1152921504606846976"] by simp
qed

lemma tiny_policy_valid: "policy_valid tiny_policy"
  by (simp add: tiny_policy_def policy_valid_def MAX_CAPACITY_def MAX_FAILURE_THRESHOLD_def
      MAX_OPEN_SECONDS_def MAX_ATTEMPT_SECONDS_def MAX_JITTER_RATIO_def isfinite_def)

lemma example_deadline_wf: "deadline_wf example_deadline"
  by (simp add: deadline_wf_def example_deadline_def)

lemma tiny_policy_new:
  "policy_new (PInt 1) (PInt 1) (PFloat (Fin (1 / 1152921504606846976))) (PFloat (Fin (1 / 1152921504606846976))) (PFloat (Fin 1))
     (PFloat (Fin 0)) = Inr tiny_policy"
  using tiny_policy_valid by (simp add: policy_new_def tiny_policy_def Let_def)

definition example_guard :: "rat \<Rightarrow> int \<Rightarrow> int \<Rightarrow> CircuitState \<Rightarrow> UpstreamGuard" where
  "example_guard t a n st =
     \<lparr>guard_policy = tiny_policy, last_now = Some (Fin t), guard_active = a, guard_generation = n,
      guard_state = st\<rparr>"

definition tiny :: pyfloat where "tiny = Fin (1 / 1152921504606846976)"

lemmas example_defs = admit_step_def admit_def admit_grant_def guard_now_def guard_init_def
  example_deadline_def tiny_policy_def deadline_remaining_def deadline_new_def valid_instant_def
  fmax_def fmin_def MAX_DEADLINE_BUDGET_SECONDS_def example_permit_def isfinite_def set_state_def
  permit_record_def complete_attempt_def transient_reopen_count_def trip_def open_interval_def
  fmul_def example_guard_def tiny_def

lemma example_run_1:
  "admit_step (PFloat (Fin 0)) NoObserver example_deadline (guard_init (Some tiny_policy), []) =
   (Inr (), (example_guard 0 1 0 (Closed 0), [example_permit 0 False 0]))"
  by (simp add: example_defs Let_def)

lemma example_run_2:
  "permit_record (PFloat (Fin 0)) (PFloat (Fin (1 / 2))) NoObserver Transient 0
     (example_guard 0 1 0 (Closed 0), [example_permit 0 False 0]) =
   (Inr (), (example_guard 0 0 1 (Open tiny 1), [(example_permit 0 False 0)\<lparr>finalized := True\<rparr>]))"
  by (simp add: example_defs Let_def)

lemma example_run_3:
  "admit_step (PFloat (Fin 1)) NoObserver example_deadline
     (example_guard 0 0 1 (Open tiny 1), [(example_permit 0 False 0)\<lparr>finalized := True\<rparr>]) =
   (Inr (), (example_guard 1 1 2 (HalfOpen tiny 1),
             [(example_permit 0 False 0)\<lparr>finalized := True\<rparr>, example_permit 1 True 2]))"
  by (simp add: example_defs Let_def)

lemma example_run_4:
  "permit_record (PFloat (Fin 1)) (PFloat (Fin (1 / 2))) NoObserver Transient 1
     (example_guard 1 1 2 (HalfOpen tiny 1),
      [(example_permit 0 False 0)\<lparr>finalized := True\<rparr>, example_permit 1 True 2]) =
   (Inl (RuntimeError ''upstream guard retry deadline is invalid''),
    (example_guard 1 0 3 (HalfOpen tiny 1),
     [(example_permit 0 False 0)\<lparr>finalized := True\<rparr>, (example_permit 1 True 2)\<lparr>finalized := True\<rparr>]))"
  by (simp add: example_defs Let_def)

lemma example_run:
  "guard_step\<^sup>*\<^sup>* (guard_init (Some tiny_policy), [])
     (example_guard 1 1 2 (HalfOpen tiny 1),
      [(example_permit 0 False 0)\<lparr>finalized := True\<rparr>, example_permit 1 True 2])"
proof -
  have c: "clock_in_range (PFloat (Fin 0))" "clock_in_range (PFloat (Fin 1))" by (simp_all add: clock_in_range_def)
  have s1: "guard_step (guard_init (Some tiny_policy), []) (example_guard 0 1 0 (Closed 0), [example_permit 0 False 0])"
    using guard_step.Admit [OF example_deadline_wf c(1)] example_run_1 by (metis snd_conv)
  have s2: "guard_step (example_guard 0 1 0 (Closed 0), [example_permit 0 False 0])
      (example_guard 0 0 1 (Open tiny 1), [(example_permit 0 False 0)\<lparr>finalized := True\<rparr>])"
    using guard_step.Record [of 0 "(example_guard 0 1 0 (Closed 0), [example_permit 0 False 0])"
        "PFloat (Fin 0)" "PFloat (Fin (1 / 2))" NoObserver Transient] example_run_2 by simp
  have s3: "guard_step (example_guard 0 0 1 (Open tiny 1), [(example_permit 0 False 0)\<lparr>finalized := True\<rparr>])
      (example_guard 1 1 2 (HalfOpen tiny 1),
       [(example_permit 0 False 0)\<lparr>finalized := True\<rparr>, example_permit 1 True 2])"
    using guard_step.Admit [OF example_deadline_wf c(2)] example_run_3 by (metis snd_conv)
  show ?thesis
    by (rule rtranclp.rtrancl_into_rtrancl [OF rtranclp.rtrancl_into_rtrancl [OF r_into_rtranclp [of guard_step, OF s1] s2] s3])
qed

section \<open>Properties\<close>

lemma admit_policy: "guard_policy (snd (admit clock obs d g)) = guard_policy g"
  by (auto simp: admit_def admit_grant_def guard_now_def set_state_def Let_def
      split: pyobj.splits sum.splits CircuitState.splits option.splits prod.splits)

lemma guard_run_policy:
  assumes "guard_step\<^sup>*\<^sup>* (guard_init (Some p), []) s" "policy_valid p"
  shows "guard_policy (fst s) = p"
  using assms(1)
proof (induction rule: rtranclp_induct)
  case (step s t)
  have inv: "guard_inv s" using step(1) assms(2) by (intro guard_run_inv) auto
  obtain g ps where s: "s = (g, ps)" by fastforce
  have rec: "guard_policy (fst (snd (permit_record c r ob oc i (g, ps)))) = p" if "i < length ps" for c r ob oc i
  proof (cases "finalized (ps ! i)")
    case False
    then have "live ps \<noteq> []" using that by (auto simp: live_def filter_empty_conv)
    then have "0 < guard_active g" using inv by (simp add: s guard_inv_def)
    from complete_attempt_effect [OF this refl] False step.IH show ?thesis
      by (simp add: permit_record_def split_beta Let_def s)
  qed (use step.IH in \<open>simp add: permit_record_def s\<close>)
  from step(2) show ?case
  proof cases
    case (Admit d clock obs)
    with admit_policy [of clock obs d g] step.IH show ?thesis
      by (auto simp: s admit_step_def split: prod.splits sum.splits)
  next
    case (Record i clock random obs oc)
    then show ?thesis using rec by (simp add: s)
  next
    case (Exit i clock random obs)
    then show ?thesis using rec step.IH by (simp add: s permit_exit_def)
  qed
qed (simp add: guard_init_def)

text \<open>
  C10. The bulkhead and the circuit on every run: through any interleaving of admissions,
  outcome records and context exits, with any random source and any observer, the guard's
  counter is exactly the number of unfinished permits and never exceeds the capacity; a
  half-open circuit has at most one unfinished permit of the current generation, the probe;
  an open circuit has none; a closed circuit has counted fewer failures than the threshold.
\<close>

theorem guard_bounds_attempts:
  assumes "policy_new cap thr base mx att jit = Inr p"
    and "guard_step\<^sup>*\<^sup>* (guard_init (Some p), []) (g, ps)"
  shows "guard_active g = int (length (live ps)) \<and> guard_active g \<le> pol_capacity p
     \<and> (case guard_state g of
          Closed n \<Rightarrow> 0 \<le> n \<and> n < failure_threshold p
        | Open _ _ \<Rightarrow> live_current g ps = []
        | HalfOpen _ _ \<Rightarrow> length (live_current g ps) \<le> 1)"
proof -
  have v: "policy_valid p"
    using assms(1) by (auto simp: policy_new_def Let_def split: pyobj.splits if_splits)
  have "guard_inv (g, ps)" using assms(2) v by (intro guard_run_inv) auto
  moreover have "guard_policy g = p" using guard_run_policy [OF assms(2) v] by simp
  ultimately show ?thesis
    by (auto simp: guard_inv_def circuit_inv_def split: CircuitState.splits)
qed

theorem guard_bounds_attempts_witness:
  "\<exists>g ps. guard_step\<^sup>*\<^sup>* (guard_init (Some tiny_policy), []) (g, ps)
     \<and> guard_state g = HalfOpen tiny 1 \<and> length (live_current g ps) = 1 \<and> guard_active g = int (length (live ps))"
proof -
  from guard_bounds_attempts [OF tiny_policy_new example_run] example_run show ?thesis
    by (fastforce simp: example_guard_def live_current_def example_permit_def)
qed

text \<open>
  Tripping: a transient failure of the current generation in a closed circuit counts,
  and the one that reaches the threshold opens the circuit, starting a new generation, with
  a retry time strictly after the present and at most the configured maximum later. This
  holds for every policy with an open time of at least a second and every random sample.
\<close>

theorem transient_failure_trips_at_threshold:
  assumes "policy_valid (guard_policy g)" "fle (Fin 1) (base_open_seconds (guard_policy g))"
    and "guard_state g = Closed n" "0 < guard_active g"
    and "guard_now (PFloat (Fin x)) g = (Inr (Fin x), h)" "fl_round x = Fin x" "x < 2 ^ 50"
    and "0 \<le> s" "s \<le> 1" "obs \<noteq> ObserverCancels"
    and "complete_attempt (PFloat (Fin x)) (PFloat (Fin s)) obs False (guard_generation g) Transient g = (r, g')"
  shows "r = Inr () \<and> guard_active g' = guard_active g - 1
     \<and> (if n + 1 < failure_threshold (guard_policy g)
        then guard_state g' = Closed (n + 1) \<and> guard_generation g' = guard_generation g
        else guard_generation g' = guard_generation g + 1
             \<and> (\<exists>retry_at. guard_state g' = Open retry_at 1 \<and> flt (Fin x) retry_at
                  \<and> fle retry_at (fadd (Fin x) (max_open_seconds (guard_policy g)))))"
proof (cases "n + 1 < failure_threshold (guard_policy g)")
  case True
  with assms show ?thesis
    by (auto simp: complete_attempt_def transient_reopen_count_def set_state_def Let_def)
next
  case False
  let ?g = "g\<lparr>guard_active := guard_active g - 1\<rparr>"
  have now: "guard_now (PFloat (Fin x)) ?g = (Inr (Fin x), ?g\<lparr>last_now := Some (Fin x)\<rparr>)"
    using assms(5) by (auto simp: guard_now_def split: if_splits)
  obtain retry_at where
    "trip (PFloat (Fin x)) (PFloat (Fin s)) obs 1 ?g =
       (Inr (), ?g\<lparr>last_now := Some (Fin x), guard_generation := guard_generation g + 1,
           guard_state := Open retry_at 1\<rparr>)"
    "flt (Fin x) retry_at" "fle retry_at (fadd (Fin x) (max_open_seconds (guard_policy g)))"
    using trip_opens [OF _ _ now assms(6-9), of obs 1] assms(1,2,10) by auto
  with False assms(3,4,11) show ?thesis
    by (auto simp: complete_attempt_def transient_reopen_count_def Let_def)
qed

definition admissible :: "UpstreamGuard \<Rightarrow> rat \<Rightarrow> bool" where
  "admissible g x =
     (guard_active g < pol_capacity (guard_policy g)
      \<and> (case guard_state g of Closed _ \<Rightarrow> True | Open t _ \<Rightarrow> \<not> flt (Fin x) t | HalfOpen _ _ \<Rightarrow> False))"

text \<open>
  Admission is decided by the circuit and the capacity alone, fail-fast: with a live
  request deadline and a readable clock, the attempt is admitted exactly when there is free
  capacity and the circuit is closed or its retry time has come; otherwise it is refused at
  once with a retry hint between one millisecond and sixty seconds, and the refusal changes
  nothing but the recorded clock sample.
\<close>

theorem admit_decides_fail_fast:
  assumes "policy_valid (guard_policy g)" "deadline_wf d" "clock_in_range (PFloat (Fin x))"
    and "guard_now (PFloat (Fin x)) g = (Inr (Fin x), h)"
    and "deadline_remaining d (PFloat (Fin x)) = Inr rem" "\<not> fle rem (Fin 0)" "obs \<noteq> ObserverCancels"
  shows "if admissible g x then is_ok (fst (admit (PFloat (Fin x)) obs d g))
         else \<exists>r. admit (PFloat (Fin x)) obs d g =
                  (Inl (UpstreamUnavailable r), g\<lparr>last_now := Some (Fin x)\<rparr>)
                \<and> fle (flit (1 / 1000)) r \<and> fle r (Fin 60)"
proof -
  have h: "h = g\<lparr>last_now := Some (Fin x)\<rparr>" and x: "0 \<le> x"
    using assms(4) by (auto simp: guard_now_def split: if_splits)
  have xf: "fl_round x = Fin x" "x < 2 ^ 50" using assms(3) by (simp_all add: clock_in_range_def)
  have r: "fle (Fin 0) rem" "fle rem (Fin 60)" using deadline_remaining_bounds [OF assms(2,5)] by simp_all
  note adm = admit_def [of "PFloat (Fin x)" obs d g, unfolded assms(4) h]
  have grant: "is_ok (fst (admit_grant (Fin x) rem half obs g'))" if "policy_valid (guard_policy g')" for half g'
    by (rule admit_grant_cases [OF that xf(1) x xf(2) r, of half obs]) (use assms(7) in simp_all)
  show ?thesis
  proof (cases "admissible g x")
    case True
    then show ?thesis using assms(1,5,6)
      by (auto simp: adm admissible_def grant split: CircuitState.splits)
  next
    case False
    then have "\<exists>s. admit (PFloat (Fin x)) obs d g = (Inl (unavailable s), g\<lparr>last_now := Some (Fin x)\<rparr>)"
      using assms(5,6) by (cases "guard_state g") (auto simp: adm admissible_def)
    then obtain s where "admit (PFloat (Fin x)) obs d g = (Inl (unavailable s), g\<lparr>last_now := Some (Fin x)\<rparr>)" ..
    with unavailable_sanitized [of s] False show ?thesis by auto
  qed
qed

lemma stranded_step:
  assumes "guard_step (g, ps) (g', ps')" "guard_inv (g, ps)" "guard_state g = HalfOpen t n"
    "live_current g ps = []"
  shows "guard_state g' = HalfOpen t n \<and> live_current g' ps' = []"
proof -
  have pv: "policy_valid (guard_policy g)" using assms(2) by (simp add: guard_inv_def)
  have rec: "guard_state (fst u) = HalfOpen t n \<and> live_current (fst u) (snd u) = []"
    if i: "i < length ps" and u: "u = snd (permit_record c r ob oc i (g, ps))" for c r ob oc i u
  proof (cases "finalized (ps ! i)")
    case True
    then show ?thesis using assms(3,4) u by (simp add: permit_record_def)
  next
    case False
    then have "live ps \<noteq> []" using i by (auto simp: live_def filter_empty_conv)
    then have a: "0 < guard_active g" using assms(2) by (simp add: guard_inv_def)
    have "permit_generation (ps ! i) \<noteq> guard_generation g"
      using assms(4) False i by (auto simp: live_current_def filter_empty_conv)
    then have e: "u = (g\<lparr>guard_active := guard_active g - 1\<rparr>, ps[i := (ps ! i)\<lparr>finalized := True\<rparr>])"
      using a False u by (simp add: permit_record_def complete_attempt_def Let_def)
    have "live_current g (ps[i := (ps ! i)\<lparr>finalized := True\<rparr>]) = []"
      using live_current_finalize(1) [of g ps i "ps ! i"] assms(4) by simp
    then show ?thesis using assms(3) by (simp add: e live_current_def)
  qed
  from assms(1) show ?thesis
  proof cases
    case (Admit d clock obs)
    then show ?thesis
      by (cases rule: admit_cases [OF pv Admit(2,3), of obs])
        (use assms(3,4) in \<open>auto simp: admit_step_def live_current_def\<close>)
  next
    case (Record i clock random obs oc)
    then have "i < length ps" by simp
    from rec [OF this Record(1)] show ?thesis by simp
  next
    case (Exit i clock random obs)
    show ?thesis
    proof (cases "finalized (ps ! i)")
      case True
      then show ?thesis using Exit assms(3,4) by (simp add: permit_exit_def)
    next
      case False
      then have "(g', ps') = snd (permit_record clock random obs Excluded i (g, ps))" "i < length ps"
        using Exit by (simp_all add: permit_exit_def)
      from rec [OF this(2,1)] show ?thesis by simp
    qed
  qed
qed

lemma stranded_run:
  assumes "guard_step\<^sup>*\<^sup>* s u" "guard_inv s" "guard_state (fst s) = HalfOpen t n" "live_current (fst s) (snd s) = []"
  shows "guard_inv u \<and> guard_state (fst u) = HalfOpen t n"
proof -
  have "guard_inv u \<and> guard_state (fst u) = HalfOpen t n \<and> live_current (fst u) (snd u) = []"
    using assms(1)
  proof (induction rule: rtranclp_induct)
    case (step v w)
    then show ?case using stranded_step [of "fst v" "snd v" "fst w" "snd w"] guard_step_preserves [of v w] by simp
  qed (use assms in simp)
  then show ?thesis by simp
qed

lemma half_open_rejects:
  assumes "guard_inv (g, ps)" "guard_state g = HalfOpen t n" "deadline_wf d" "clock_in_range clock"
  shows "\<not> is_ok (fst (admit clock obs d g))"
proof -
  have "policy_valid (guard_policy g)" using assms(1) by (simp add: guard_inv_def)
  from admit_cases [OF this assms(3,4), of obs] show ?thesis
    by cases (use assms(2) in simp_all)
qed

lemma trip_runtime_error:
  "trip clock random obs reopen g = (Inl (RuntimeError m), g') \<Longrightarrow>
   guard_state g' = guard_state g \<and> guard_generation g' = guard_generation g + 1"
  by (auto simp: trip_def guard_now_def set_state_def Let_def
      split: pyobj.splits sum.splits if_splits)

text \<open>
  A completion that fails after the generation was advanced strands the circuit: when
  the transient failure of the half-open probe raises (an invalid clock or random sample, or
  an open interval too short to move the clock), the guard stays half-open with no
  unfinished permit of the current generation, and no later run of any length leaves that
  state, so every later admission is refused.
\<close>

theorem failed_probe_completion_strands_half_open:
  assumes "policy_valid p" "guard_step\<^sup>*\<^sup>* (guard_init (Some p), []) (g, ps)"
    and "guard_state g = HalfOpen t n" "i < length ps" "\<not> finalized (ps ! i)"
    and "permit_generation (ps ! i) = guard_generation g"
    and "permit_record clock random obs Transient i (g, ps) = (Inl (RuntimeError m), s)"
    and "guard_step\<^sup>*\<^sup>* s (g', ps')" "deadline_wf d" "clock_in_range now"
  shows "guard_state g' = HalfOpen t n \<and> \<not> is_ok (fst (admit now obs' d g'))"
proof -
  have inv: "guard_inv (g, ps)" using assms(1,2) by (intro guard_run_inv) auto
  have "live ps \<noteq> []" using assms(4,5) by (auto simp: live_def filter_empty_conv)
  then have a: "0 < guard_active g" using inv by (simp add: guard_inv_def)
  let ?g = "g\<lparr>guard_active := guard_active g - 1\<rparr>"
  obtain g1 where tr: "trip clock random obs (n + 1) ?g = (Inl (RuntimeError m), g1)"
    and s: "s = (g1, ps[i := (ps ! i)\<lparr>finalized := True\<rparr>])"
    using assms(3-7) a
    by (auto simp: permit_record_def complete_attempt_def transient_reopen_count_def Let_def
        split: prod.splits if_splits)
  have "guard_inv (snd (permit_record clock random obs Transient i (g, ps)))"
    using inv assms(4) by (rule record_preserves)
  then have s_inv: "guard_inv s" using assms(7) by simp
  have g1: "guard_state g1 = HalfOpen t n" "guard_generation g1 = guard_generation g + 1"
    using trip_runtime_error [OF tr] assms(3) by simp_all
  have "\<forall>q\<in>set (snd s). permit_generation q < guard_generation g1"
    using inv assms(4) set_update_subset_insert [of ps i "(ps ! i)\<lparr>finalized := True\<rparr>"] g1(2)
    by (fastforce simp: guard_inv_def s)
  then have "live_current g1 (snd s) = []" by (rule live_current_new_generation)
  then have "guard_inv (g', ps') \<and> guard_state g' = HalfOpen t n"
    using stranded_run [OF assms(8) s_inv, of t n] g1(1) by (simp add: s)
  then show ?thesis using half_open_rejects assms(9,10) by blast
qed

end
