(* ===== verification/Nplg_Json_Preflight.thy ===== *)
theory Nplg_Json_Preflight
  imports Nplg_Float
begin

text \<open>
  The lexical preflight of JSON request bodies, \<^verbatim>\<open>src/nplg_mcp/json_preflight.py\<close>: a
  non-recursive parser over bytes with an explicit stack of container frames. The parser's
  index is represented by the bytes that are still to be read. Every failure of the source
  is the one \<open>JsonPreflightError\<close>, so the operations return options. The lemmas relate the
  parser to a grammar of JSON texts: what it accepts is one JSON value within every limit,
  with no duplicate key in any object.
\<close>

section \<open>Limits\<close>

record JsonPreflightLimits =
  max_body_bytes :: nat
  max_depth :: nat
  max_object_members :: nat
  max_array_items :: nat
  max_tokens :: nat
  max_key_bytes :: nat
  max_scalar_bytes :: nat
  max_integer_digits :: nat
  max_exponent_magnitude :: nat

definition limits_valid :: "JsonPreflightLimits \<Rightarrow> bool" where
  "limits_valid L =
     (1 \<le> max_body_bytes L \<and> max_body_bytes L \<le> 4194304 \<and> 1 \<le> max_depth L \<and> max_depth L \<le> 128
      \<and> 1 \<le> max_object_members L \<and> max_object_members L \<le> 65536
      \<and> 1 \<le> max_array_items L \<and> max_array_items L \<le> 65536
      \<and> 1 \<le> max_tokens L \<and> max_tokens L \<le> 1000000 \<and> 1 \<le> max_key_bytes L \<and> max_key_bytes L \<le> 65536
      \<and> 1 \<le> max_scalar_bytes L \<and> max_scalar_bytes L \<le> 4194304
      \<and> 1 \<le> max_integer_digits L \<and> max_integer_digits L \<le> 65536 \<and> max_exponent_magnitude L \<le> 1000000)"

definition DEFAULT_LIMITS :: JsonPreflightLimits where
  "DEFAULT_LIMITS =
     \<lparr>max_body_bytes = 4194304, max_depth = 64, max_object_members = 4096, max_array_items = 4096,
      max_tokens = 100000, max_key_bytes = 4096, max_scalar_bytes = 4194304,
      max_integer_digits = 1024, max_exponent_magnitude = 308\<rparr>"

section \<open>UTF-8\<close>

text \<open>
  The strict incremental decoder of the codecs module: between characters, or inside one
  with the number of continuation bytes to come, the range the next byte must lie in, and
  the bits read so far.
\<close>

datatype utf8_state = UStart | UCont nat nat nat nat

definition utf8_feed :: "utf8_state \<Rightarrow> nat \<Rightarrow> (utf8_state \<times> nat option) option" where
  "utf8_feed st b =
     (case st of
        UStart \<Rightarrow>
          (if b < 128 then Some (UStart, Some b)
           else if 194 \<le> b \<and> b \<le> 223 then Some (UCont 1 128 191 (b - 192), None)
           else if b = 224 then Some (UCont 2 160 191 0, None)
           else if b = 237 then Some (UCont 2 128 159 13, None)
           else if 225 \<le> b \<and> b \<le> 239 then Some (UCont 2 128 191 (b - 224), None)
           else if b = 240 then Some (UCont 3 144 191 0, None)
           else if 241 \<le> b \<and> b \<le> 243 then Some (UCont 3 128 191 (b - 240), None)
           else if b = 244 then Some (UCont 3 128 143 4, None)
           else None)
      | UCont n lo hi acc \<Rightarrow>
          (if lo \<le> b \<and> b \<le> hi
           then (let acc' = acc * 64 + (b - 128)
                 in if n = 1 then Some (UStart, Some acc') else Some (UCont (n - 1) 128 191 acc', None))
           else None))"

fun utf8_run :: "utf8_state \<Rightarrow> bytes \<Rightarrow> (utf8_state \<times> pystr) option" where
  "utf8_run st [] = Some (st, [])"
| "utf8_run st (b # bs) =
     (case utf8_feed st b of
        None \<Rightarrow> None
      | Some (st', out) \<Rightarrow>
          (case utf8_run st' bs of
             None \<Rightarrow> None
           | Some (st'', cs) \<Rightarrow> Some (st'', (case out of None \<Rightarrow> cs | Some c \<Rightarrow> c # cs))))"

definition utf8_decode :: "bytes \<Rightarrow> pystr option" where
  "utf8_decode bs = (case utf8_run UStart bs of Some (UStart, cs) \<Rightarrow> Some cs | _ \<Rightarrow> None)"

definition utf8_encode :: "nat \<Rightarrow> bytes" where
  "utf8_encode c =
     (if c < 128 then [c]
      else if c < 2048 then [192 + c div 64, 128 + c mod 64]
      else if c < 65536 then [224 + c div 4096, 128 + c div 64 mod 64, 128 + c mod 64]
      else [240 + c div 262144, 128 + c div 4096 mod 64, 128 + c div 64 mod 64, 128 + c mod 64])"

section \<open>Bytes and digits\<close>

definition is_ws :: "nat \<Rightarrow> bool" where
  "is_ws b = (b = 9 \<or> b = 10 \<or> b = 13 \<or> b = 32)"

definition is_digit :: "nat \<Rightarrow> bool" where "is_digit b = (48 \<le> b \<and> b \<le> 57)"

definition is_hex :: "nat \<Rightarrow> bool" where
  "is_hex b = (is_digit b \<or> 97 \<le> b \<and> b \<le> 102 \<or> 65 \<le> b \<and> b \<le> 70)"

definition hex_value :: "nat \<Rightarrow> nat" where
  "hex_value b = (if is_digit b then b - 48 else if 97 \<le> b then b - 87 else b - 55)"

definition peek_byte :: "bytes \<Rightarrow> nat option" where
  "peek_byte r = (case r of [] \<Rightarrow> None | b # _ \<Rightarrow> Some b)"

definition consume_byte :: "nat \<Rightarrow> bytes \<Rightarrow> bytes option" where
  "consume_byte c r = (case r of [] \<Rightarrow> None | b # r' \<Rightarrow> if b = c then Some r' else None)"

definition peek_is :: "(nat \<Rightarrow> bool) \<Rightarrow> bytes \<Rightarrow> bool" where
  "peek_is P r = (case r of [] \<Rightarrow> False | b # _ \<Rightarrow> P b)"

definition skip_whitespace :: "bytes \<Rightarrow> bytes" where
  "skip_whitespace = dropWhile is_ws"

fun digits_loop :: "nat option \<Rightarrow> nat \<Rightarrow> nat \<Rightarrow> bytes \<Rightarrow> nat \<times> nat \<times> bytes" where
  "digits_loop limit digits value [] = (digits, value, [])"
| "digits_loop limit digits value (b # r) =
     (if is_digit b
      then digits_loop limit (digits + 1)
             (case limit of None \<Rightarrow> value | Some m \<Rightarrow> if value \<le> m then value * 10 + (b - 48) else value) r
      else (digits, value, b # r))"

definition consume_one_or_more_digits :: "nat option \<Rightarrow> bytes \<Rightarrow> (nat \<times> bytes) option" where
  "consume_one_or_more_digits limit r =
     (let (digits, value, r') = digits_loop limit 0 0 r
      in if digits = 0 then None else Some (case limit of None \<Rightarrow> digits | Some _ \<Rightarrow> value, r'))"

section \<open>Strings\<close>

definition simple_escape :: "nat \<Rightarrow> bytes option" where
  "simple_escape b =
     (if b = 34 then Some [34] else if b = 47 then Some [47] else if b = 92 then Some [92]
      else if b = 98 then Some [8] else if b = 102 then Some [12] else if b = 110 then Some [10]
      else if b = 114 then Some [13] else if b = 116 then Some [9] else None)"

definition consume_unicode_code_unit :: "bytes \<Rightarrow> (nat \<times> bytes) option" where
  "consume_unicode_code_unit r =
     (let ds = take 4 r
      in if length ds \<noteq> 4 \<or> \<not> list_all is_hex ds then None
         else Some (foldl (\<lambda>v d. v * 16 + hex_value d) 0 ds, drop 4 r))"

definition consume_escape :: "bytes \<Rightarrow> (bytes \<times> bytes) option" where
  "consume_escape r =
     (case r of
        [] \<Rightarrow> None
      | e # r1 \<Rightarrow>
          (case simple_escape e of
             Some ds \<Rightarrow> Some (ds, r1)
           | None \<Rightarrow>
               if e \<noteq> 117 then None
               else case consume_unicode_code_unit r1 of
                 None \<Rightarrow> None
               | Some (cp, r2) \<Rightarrow>
                   if 55296 \<le> cp \<and> cp \<le> 56319
                   then if \<not> starts_with [92, 117] r2 then None
                        else case consume_unicode_code_unit (drop 2 r2) of
                          None \<Rightarrow> None
                        | Some (low, r3) \<Rightarrow>
                            if \<not> (56320 \<le> low \<and> low \<le> 57343) then None
                            else Some (utf8_encode (65536 + (cp - 55296) * 1024 + (low - 56320)), r3)
                   else if 56320 \<le> cp \<and> cp \<le> 57343 then None
                   else Some (utf8_encode cp, r2)))"

lemma consume_unicode_code_unit_length:
  "consume_unicode_code_unit r = Some (v, r') \<Longrightarrow> length r' < length r"
  by (auto simp: consume_unicode_code_unit_def Let_def split: if_splits)

lemma consume_escape_length: "consume_escape r = Some (ds, r') \<Longrightarrow> length r' < length r"
  by (force simp: consume_escape_def split: list.splits option.splits if_splits
      dest!: consume_unicode_code_unit_length)

text \<open>
  The loop of \<open>_consume_string\<close>: the number of content bytes read, the decoded bytes when
  they are retained, the state of the incremental decoder, and the bytes to come.
\<close>

function string_loop ::
  "nat \<Rightarrow> nat \<Rightarrow> bytes option \<Rightarrow> utf8_state \<Rightarrow> bytes \<Rightarrow> (bytes option \<times> bytes) option" where
  "string_loop mx n dec st r =
     (case r of
        [] \<Rightarrow> None
      | b # r1 \<Rightarrow>
          if b = 34 then (if st = UStart then Some (dec, r1) else None)
          else if mx \<le> n then None
          else if b \<le> 31 then None
          else if b \<noteq> 92
          then (case utf8_feed st b of
                  None \<Rightarrow> None
                | Some (st', _) \<Rightarrow> string_loop mx (n + 1) (map_option (\<lambda>d. d @ [b]) dec) st' r1)
          else if st \<noteq> UStart then None
          else (case consume_escape r1 of
                  None \<Rightarrow> None
                | Some (ds, r2) \<Rightarrow>
                    (let n' = n + 1 + (length r1 - length r2)
                     in if mx < n' then None
                        else string_loop mx n' (map_option (\<lambda>d. d @ ds) dec) UStart r2)))"
  by pat_completeness auto
termination
  by (relation "measure (\<lambda>(mx, n, dec, st, r). length r)") (auto dest: consume_escape_length)

declare string_loop.simps [simp del]

definition consume_string :: "nat \<Rightarrow> bool \<Rightarrow> bytes \<Rightarrow> (pystr option \<times> bytes) option" where
  "consume_string mx retain r =
     (case consume_byte 34 r of
        None \<Rightarrow> None
      | Some r1 \<Rightarrow>
          (case string_loop mx 0 (if retain then Some [] else None) UStart r1 of
             None \<Rightarrow> None
           | Some (None, r2) \<Rightarrow> Some (None, r2)
           | Some (Some dec, r2) \<Rightarrow>
               (case utf8_decode dec of None \<Rightarrow> None | Some text \<Rightarrow> Some (Some text, r2))))"

section \<open>Numbers\<close>

text \<open>\<^verbatim>\<open>float(text)\<close> of a JSON number: the decimal value, correctly rounded.\<close>

definition digits_value :: "bytes \<Rightarrow> nat" where
  "digits_value ds = foldl (\<lambda>v d. v * 10 + (d - 48)) 0 ds"

definition signed_digits_value :: "bytes \<Rightarrow> int" where
  "signed_digits_value r =
     (if starts_with [45] r then - int (digits_value (tl r))
      else if starts_with [43] r then int (digits_value (tl r)) else int (digits_value r))"

definition float_of_number :: "bytes \<Rightarrow> pyfloat" where
  "float_of_number bs =
     (let neg = starts_with [45] bs;
          b1 = (if neg then tl bs else bs);
          ip = takeWhile is_digit b1; r1 = dropWhile is_digit b1;
          fp = (if starts_with [46] r1 then takeWhile is_digit (tl r1) else []);
          r2 = (if starts_with [46] r1 then dropWhile is_digit (tl r1) else r1);
          e = (case r2 of [] \<Rightarrow> 0 | _ # r3 \<Rightarrow> signed_digits_value r3) - int (length fp);
          m = (of_nat (digits_value (ip @ fp)) :: rat);
          v = (if 0 \<le> e then m * 10 ^ nat e else m / 10 ^ nat (- e))
      in fl_round (if neg then - v else v))"

definition consume_sign :: "bytes \<Rightarrow> bytes option" where
  "consume_sign r =
     (case consume_byte 45 r of
        None \<Rightarrow> Some r
      | Some r1 \<Rightarrow> if r1 = [] then None else Some r1)"

definition consume_integer :: "JsonPreflightLimits \<Rightarrow> bytes \<Rightarrow> bytes option" where
  "consume_integer L r =
     (case consume_byte 48 r of
        Some r1 \<Rightarrow> if peek_is is_digit r1 then None else Some r1
      | None \<Rightarrow>
          if \<not> peek_is (\<lambda>b. 49 \<le> b \<and> b \<le> 57) r then None
          else case consume_one_or_more_digits None r of
            None \<Rightarrow> None
          | Some (digits, r1) \<Rightarrow> if max_integer_digits L < digits then None else Some r1)"

definition consume_fraction :: "bytes \<Rightarrow> (bool \<times> bytes) option" where
  "consume_fraction r =
     (case consume_byte 46 r of
        None \<Rightarrow> Some (False, r)
      | Some r1 \<Rightarrow>
          (case consume_one_or_more_digits None r1 of
             None \<Rightarrow> None | Some (_, r2) \<Rightarrow> Some (True, r2)))"

definition consume_exponent :: "JsonPreflightLimits \<Rightarrow> bytes \<Rightarrow> (bool \<times> bytes) option" where
  "consume_exponent L r =
     (if \<not> peek_is (\<lambda>b. b = 101 \<or> b = 69) r then Some (False, r)
      else let r1 = tl r;
               r2 = (if peek_is (\<lambda>b. b = 43 \<or> b = 45) r1 then tl r1 else r1)
           in case consume_one_or_more_digits (Some (max_exponent_magnitude L)) r2 of
                None \<Rightarrow> None
              | Some (exponent, r3) \<Rightarrow>
                  if max_exponent_magnitude L < exponent then None else Some (True, r3))"

definition consume_number :: "JsonPreflightLimits \<Rightarrow> bytes \<Rightarrow> (bool \<times> bytes) option" where
  "consume_number L r =
     (case consume_sign r of None \<Rightarrow> None | Some r1 \<Rightarrow>
      (case consume_integer L r1 of None \<Rightarrow> None | Some r2 \<Rightarrow>
       (case consume_fraction r2 of None \<Rightarrow> None | Some (has_fraction, r3) \<Rightarrow>
        (case consume_exponent L r3 of None \<Rightarrow> None | Some (has_exponent, r4) \<Rightarrow>
         (let n = length r - length r4
          in if max_scalar_bytes L < n then None
             else if \<not> isfinite (float_of_number (take n r)) then None
             else Some (\<not> has_fraction \<and> \<not> has_exponent, r4))))))"

section \<open>The parser\<close>

datatype value_kind = VArray | VBoolean | VInteger | VNull | VNumber | VObject | VString

datatype frame_kind = ArrayFrame | ObjectFrame

datatype frame_state =
    ArrayValueOrEnd | ArrayAfterValue | ObjectKeyOrEnd | ObjectValue | ObjectAfterValue

record Frame =
  fr_kind :: frame_kind
  fr_state :: frame_state
  fr_members :: nat
  fr_keys :: "pystr list"
  fr_current_key :: "pystr option"
  fr_allow_end :: bool

definition new_frame :: "frame_kind \<Rightarrow> frame_state \<Rightarrow> Frame" where
  "new_frame k st = \<lparr>fr_kind = k, fr_state = st, fr_members = 0, fr_keys = [], fr_current_key = None,
                     fr_allow_end = True\<rparr>"

text \<open>
  The frames are listed from the innermost one. The source's \<open>_root_object_keys\<close> is the very
  set object of the root frame, so a key added there is added to it: \<open>add_key\<close> does both.
\<close>

record Parser =
  pr_rest :: bytes
  pr_tokens :: nat
  pr_frames :: "Frame list"
  pr_root_keys :: "pystr list option"
  pr_id_valid :: bool
  pr_complete :: bool

definition parser_init :: "bytes \<Rightarrow> Parser" where
  "parser_init payload =
     \<lparr>pr_rest = payload, pr_tokens = 0, pr_frames = [], pr_root_keys = None, pr_id_valid = False,
      pr_complete = False\<rparr>"

definition count_token :: "JsonPreflightLimits \<Rightarrow> Parser \<Rightarrow> Parser option" where
  "count_token L p =
     (if max_tokens L < pr_tokens p + 1 then None else Some (p\<lparr>pr_tokens := pr_tokens p + 1\<rparr>))"

definition push_container :: "JsonPreflightLimits \<Rightarrow> frame_kind \<Rightarrow> Parser \<Rightarrow> Parser option" where
  "push_container L k p =
     (if max_depth L \<le> length (pr_frames p) then None
      else let f = new_frame k (if k = ArrayFrame then ArrayValueOrEnd else ObjectKeyOrEnd)
           in Some (p\<lparr>pr_root_keys := (if pr_frames p = [] \<and> k = ObjectFrame then Some (fr_keys f)
                                       else pr_root_keys p),
                      pr_frames := f # pr_frames p\<rparr>))"

definition finish_scalar :: "Parser \<Rightarrow> Parser" where
  "finish_scalar p = (if pr_frames p = [] then p\<lparr>pr_complete := True\<rparr> else p)"

definition finish_container :: "Parser \<Rightarrow> Parser" where
  "finish_container p =
     (let p' = p\<lparr>pr_frames := tl (pr_frames p)\<rparr>
      in if pr_frames p' = [] then p'\<lparr>pr_complete := True\<rparr> else p')"

definition begin_value :: "JsonPreflightLimits \<Rightarrow> Parser \<Rightarrow> (value_kind \<times> Parser) option" where
  "begin_value L p0 =
     (case count_token L p0 of None \<Rightarrow> None | Some p \<Rightarrow>
      (let r = pr_rest p
       in if peek_byte r = Some 123
          then map_option (Pair VObject) (push_container L ObjectFrame (p\<lparr>pr_rest := tl r\<rparr>))
          else if peek_byte r = Some 91
          then map_option (Pair VArray) (push_container L ArrayFrame (p\<lparr>pr_rest := tl r\<rparr>))
          else if peek_byte r = Some 34
          then (case consume_string (max_scalar_bytes L) False r of
                  None \<Rightarrow> None
                | Some (_, r') \<Rightarrow> Some (VString, finish_scalar (p\<lparr>pr_rest := r'\<rparr>)))
          else if peek_byte r = Some 45 \<or> peek_is is_digit r
          then (case consume_number L r of
                  None \<Rightarrow> None
                | Some (is_integer, r') \<Rightarrow>
                    Some (if is_integer then VInteger else VNumber, finish_scalar (p\<lparr>pr_rest := r'\<rparr>)))
          else if starts_with [116, 114, 117, 101] r
          then Some (VBoolean, finish_scalar (p\<lparr>pr_rest := drop 4 r\<rparr>))
          else if starts_with [102, 97, 108, 115, 101] r
          then Some (VBoolean, finish_scalar (p\<lparr>pr_rest := drop 5 r\<rparr>))
          else if starts_with [110, 117, 108, 108] r
          then Some (VNull, finish_scalar (p\<lparr>pr_rest := drop 4 r\<rparr>))
          else None))"

definition set_top :: "Frame \<Rightarrow> Parser \<Rightarrow> Parser" where
  "set_top f p = p\<lparr>pr_frames := f # tl (pr_frames p)\<rparr>"

definition add_key :: "pystr \<Rightarrow> Frame \<Rightarrow> Parser \<Rightarrow> Parser" where
  "add_key key f p =
     (let f' = f\<lparr>fr_keys := key # fr_keys f, fr_current_key := Some key\<rparr>;
          p' = set_top f' p
      in if length (pr_frames p) = 1 then p'\<lparr>pr_root_keys := Some (fr_keys f')\<rparr> else p')"

definition consume_array_separator :: "Frame \<Rightarrow> Parser \<Rightarrow> Parser option" where
  "consume_array_separator f p =
     (case consume_byte 44 (pr_rest p) of
        Some r \<Rightarrow> Some (set_top (f\<lparr>fr_state := ArrayValueOrEnd, fr_allow_end := False\<rparr>) (p\<lparr>pr_rest := r\<rparr>))
      | None \<Rightarrow>
          (case consume_byte 93 (pr_rest p) of
             Some r \<Rightarrow> Some (finish_container (p\<lparr>pr_rest := r\<rparr>))
           | None \<Rightarrow> None))"

definition consume_object_key :: "JsonPreflightLimits \<Rightarrow> Frame \<Rightarrow> Parser \<Rightarrow> Parser option" where
  "consume_object_key L f p =
     (case (if fr_allow_end f then consume_byte 125 (pr_rest p) else None) of
        Some r \<Rightarrow> Some (finish_container (p\<lparr>pr_rest := r\<rparr>))
      | None \<Rightarrow>
          if peek_byte (pr_rest p) \<noteq> Some 34 then None
          else case consume_string (max_key_bytes L) True (pr_rest p) of
            None \<Rightarrow> None
          | Some (None, _) \<Rightarrow> None
          | Some (Some key, r) \<Rightarrow>
              if key \<in> set (fr_keys f) then None
              else (let p1 = add_key key f (p\<lparr>pr_rest := r\<rparr>)
                    in case consume_byte 58 (skip_whitespace r) of
                         None \<Rightarrow> None
                       | Some r' \<Rightarrow>
                           Some (set_top ((hd (pr_frames p1))\<lparr>fr_state := ObjectValue\<rparr>) (p1\<lparr>pr_rest := r'\<rparr>))))"

definition consume_object_separator :: "Frame \<Rightarrow> Parser \<Rightarrow> Parser option" where
  "consume_object_separator f0 p =
     (let f = f0\<lparr>fr_current_key := None\<rparr>
      in case consume_byte 44 (pr_rest p) of
           Some r \<Rightarrow> Some (set_top (f\<lparr>fr_state := ObjectKeyOrEnd, fr_allow_end := False\<rparr>) (p\<lparr>pr_rest := r\<rparr>))
         | None \<Rightarrow>
             (case consume_byte 125 (pr_rest p) of
                Some r \<Rightarrow> Some (finish_container (p\<lparr>pr_rest := r\<rparr>))
              | None \<Rightarrow> None))"

definition is_root_request_id_value :: "Frame \<Rightarrow> Parser \<Rightarrow> bool" where
  "is_root_request_id_value f p =
     (length (pr_frames p) = 1 \<and> fr_kind f = ObjectFrame \<and> fr_current_key f = Some (codes ''id''))"

definition consume_object_value :: "JsonPreflightLimits \<Rightarrow> Frame \<Rightarrow> Parser \<Rightarrow> Parser option" where
  "consume_object_value L f p =
     (if max_object_members L < fr_members f + 1 then None
      else let f' = f\<lparr>fr_members := fr_members f + 1\<rparr>;
               is_id = is_root_request_id_value f' p
           in case begin_value L (set_top (f'\<lparr>fr_state := ObjectAfterValue\<rparr>) p) of
                None \<Rightarrow> None
              | Some (k, p') \<Rightarrow>
                  Some (if is_id then p'\<lparr>pr_id_valid := (k = VInteger \<or> k = VString)\<rparr> else p'))"

definition consume_array_value :: "JsonPreflightLimits \<Rightarrow> Frame \<Rightarrow> Parser \<Rightarrow> Parser option" where
  "consume_array_value L f p =
     (case (if fr_allow_end f then consume_byte 93 (pr_rest p) else None) of
        Some r \<Rightarrow> Some (finish_container (p\<lparr>pr_rest := r\<rparr>))
      | None \<Rightarrow>
          if max_array_items L < fr_members f + 1 then None
          else map_option snd
                 (begin_value L
                    (set_top (f\<lparr>fr_members := fr_members f + 1, fr_state := ArrayAfterValue\<rparr>) p)))"

text \<open>One turn of the loop of \<open>validate\<close>.\<close>

definition parser_step :: "JsonPreflightLimits \<Rightarrow> Parser \<Rightarrow> Parser option" where
  "parser_step L p0 =
     (let p = p0\<lparr>pr_rest := skip_whitespace (pr_rest p0)\<rparr>
      in case pr_frames p of
           [] \<Rightarrow> map_option snd (begin_value L p)
         | f # _ \<Rightarrow>
             (case fr_state f of
                ArrayValueOrEnd \<Rightarrow> consume_array_value L f p
              | ArrayAfterValue \<Rightarrow> consume_array_separator f p
              | ObjectKeyOrEnd \<Rightarrow> consume_object_key L f p
              | ObjectValue \<Rightarrow> consume_object_value L f p
              | ObjectAfterValue \<Rightarrow> consume_object_separator f p))"

section \<open>The grammar of bounded JSON texts\<close>

text \<open>
  The reference the parser is measured against, one predicate per nonterminal of RFC 8259.
  A JSON value \<open>jval L d k n v\<close> is the byte string \<open>v\<close> of a value of kind \<open>k\<close> with \<open>n\<close> values
  in it, nested at most \<open>d\<close> deep, within the limits \<open>L\<close>; \<open>jmembers\<close> lists the decoded keys with
  the kinds of their values, last member first.
\<close>

definition ws :: "bytes \<Rightarrow> bool" where "ws w = list_all is_ws w"

definition digits :: "bytes \<Rightarrow> bool" where "digits ds = (ds \<noteq> [] \<and> list_all is_digit ds)"

definition hex4 :: "bytes \<Rightarrow> nat \<Rightarrow> bool" where
  "hex4 h v = (length h = 4 \<and> list_all is_hex h \<and> v = foldl (\<lambda>v d. v * 16 + hex_value d) 0 h)"

inductive jescape :: "bytes \<Rightarrow> bytes \<Rightarrow> bool" where
  simple: "simple_escape e = Some ds \<Longrightarrow> jescape [92, e] ds"
| unit: "hex4 h cp \<Longrightarrow> \<not> (55296 \<le> cp \<and> cp \<le> 57343) \<Longrightarrow> jescape ([92, 117] @ h) (utf8_encode cp)"
| pair: "hex4 h hi \<Longrightarrow> 55296 \<le> hi \<Longrightarrow> hi \<le> 56319 \<Longrightarrow> hex4 l lo \<Longrightarrow> 56320 \<le> lo \<Longrightarrow> lo \<le> 57343 \<Longrightarrow>
         jescape ([92, 117] @ h @ [92, 117] @ l) (utf8_encode (65536 + (hi - 55296) * 1024 + (lo - 56320)))"

inductive jchars :: "utf8_state \<Rightarrow> bytes \<Rightarrow> bytes \<Rightarrow> bool" where
  finished: "jchars UStart [] []"
| char: "31 < b \<Longrightarrow> b \<noteq> 34 \<Longrightarrow> b \<noteq> 92 \<Longrightarrow> utf8_feed st b = Some (st', c) \<Longrightarrow> jchars st' raw ds \<Longrightarrow>
         jchars st (b # raw) (b # ds)"
| esc: "jescape e d \<Longrightarrow> jchars UStart raw ds \<Longrightarrow> jchars UStart (e @ raw) (d @ ds)"

definition jstring :: "nat \<Rightarrow> bytes \<Rightarrow> bytes \<Rightarrow> bool" where
  "jstring mx bs ds = (\<exists>raw. bs = [34] @ raw @ [34] \<and> length raw \<le> mx \<and> jchars UStart raw ds)"

definition jinteger :: "JsonPreflightLimits \<Rightarrow> bytes \<Rightarrow> bool" where
  "jinteger L i = (i = [48] \<or> digits i \<and> hd i \<noteq> 48 \<and> length i \<le> max_integer_digits L)"

definition jfraction :: "bytes \<Rightarrow> bool" where
  "jfraction f = (\<exists>ds. f = [46] @ ds \<and> digits ds)"

definition jexponent :: "bytes \<Rightarrow> bool" where
  "jexponent e = (\<exists>x s ds. e = [x] @ s @ ds \<and> (x = 101 \<or> x = 69) \<and> s \<in> {[], [43], [45]} \<and> digits ds)"

definition jnumber :: "JsonPreflightLimits \<Rightarrow> bool \<Rightarrow> bytes \<Rightarrow> bool" where
  "jnumber L is_int bs =
     (\<exists>s i f e. bs = s @ i @ f @ e \<and> s \<in> {[], [45]} \<and> jinteger L i \<and> (f = [] \<or> jfraction f)
        \<and> (e = [] \<or> jexponent e) \<and> is_int = (f = [] \<and> e = [])
        \<and> length bs \<le> max_scalar_bytes L \<and> isfinite (float_of_number bs))"

inductive jval :: "JsonPreflightLimits \<Rightarrow> nat \<Rightarrow> value_kind \<Rightarrow> nat \<Rightarrow> bytes \<Rightarrow> bool"
  and jitems :: "JsonPreflightLimits \<Rightarrow> nat \<Rightarrow> nat \<Rightarrow> nat \<Rightarrow> bytes \<Rightarrow> bool"
  and jmembers :: "JsonPreflightLimits \<Rightarrow> nat \<Rightarrow> (pystr \<times> value_kind) list \<Rightarrow> nat \<Rightarrow> bytes \<Rightarrow> bool"
  and jmember_start :: "JsonPreflightLimits \<Rightarrow> pystr \<Rightarrow> bytes \<Rightarrow> bool"
  and jobject :: "JsonPreflightLimits \<Rightarrow> nat \<Rightarrow> (pystr \<times> value_kind) list \<Rightarrow> nat \<Rightarrow> bytes \<Rightarrow> bool"
  for L where
  string: "jstring (max_scalar_bytes L) bs ds \<Longrightarrow> jval L d VString 1 bs"
| number: "jnumber L is_int bs \<Longrightarrow> jval L d (if is_int then VInteger else VNumber) 1 bs"
| true: "jval L d VBoolean 1 [116, 114, 117, 101]"
| false: "jval L d VBoolean 1 [102, 97, 108, 115, 101]"
| null: "jval L d VNull 1 [110, 117, 108, 108]"
| array_empty: "ws w \<Longrightarrow> jval L (Suc d) VArray 1 ([91] @ w @ [93])"
| array: "ws w \<Longrightarrow> jitems L d k n bs \<Longrightarrow> k \<le> max_array_items L \<Longrightarrow>
          jval L (Suc d) VArray (Suc n) ([91] @ w @ bs @ [93])"
| object: "jobject L d ms n bs \<Longrightarrow> jval L (Suc d) VObject n bs"
| object_empty: "ws w \<Longrightarrow> jobject L d [] 1 ([123] @ w @ [125])"
| object_members: "ws w \<Longrightarrow> jmembers L d ms n bs \<Longrightarrow> distinct (map fst ms) \<Longrightarrow>
           length ms \<le> max_object_members L \<Longrightarrow> jobject L d ms (Suc n) ([123] @ w @ bs @ [125])"
| item: "jval L d k n v \<Longrightarrow> ws w \<Longrightarrow> jitems L d 1 n (v @ w)"
| items: "jitems L d i m bs \<Longrightarrow> ws w \<Longrightarrow> jval L d k n v \<Longrightarrow> ws w' \<Longrightarrow>
          jitems L d (Suc i) (m + n) (bs @ [44] @ w @ v @ w')"
| start: "jstring (max_key_bytes L) s ds \<Longrightarrow> utf8_decode ds = Some key \<Longrightarrow> ws w \<Longrightarrow> ws w' \<Longrightarrow>
          jmember_start L key (s @ w @ [58] @ w')"
| member: "jmember_start L key st \<Longrightarrow> jval L d k n v \<Longrightarrow> ws w \<Longrightarrow> jmembers L d [(key, k)] n (st @ v @ w)"
| members: "jmembers L d ms m bs \<Longrightarrow> ws w \<Longrightarrow> jmember_start L key st \<Longrightarrow> jval L d k n v \<Longrightarrow> ws w' \<Longrightarrow>
            jmembers L d ((key, k) # ms) (m + n) (bs @ [44] @ w @ st @ v @ w')"

text \<open>
  A JSON text: one value between whitespace, within the depth and token limits. For a root
  object \<open>ms\<close> lists its members.
\<close>

definition json_root :: "JsonPreflightLimits \<Rightarrow> value_kind \<Rightarrow> (pystr \<times> value_kind) list \<Rightarrow> nat \<Rightarrow> bytes \<Rightarrow> bool" where
  "json_root L k ms n v =
     (if k = VObject then \<exists>d. max_depth L = Suc d \<and> jobject L d ms n v
      else ms = [] \<and> jval L (max_depth L) k n v)"

definition json_text :: "JsonPreflightLimits \<Rightarrow> value_kind \<Rightarrow> (pystr \<times> value_kind) list \<Rightarrow> bytes \<Rightarrow> bool" where
  "json_text L k ms payload =
     (\<exists>w v w' n. payload = w @ v @ w' \<and> ws w \<and> ws w' \<and> json_root L k ms n v \<and> n \<le> max_tokens L)"

section \<open>The lexical operations consume what they accept\<close>

lemma ws_simps [simp]: "ws []" "ws (a @ b) \<longleftrightarrow> ws a \<and> ws b"
  by (simp_all add: ws_def)

lemma skip_whitespace_splits: "\<exists>w. r = w @ skip_whitespace r \<and> ws w"
  unfolding skip_whitespace_def ws_def
  by (metis set_takeWhileD takeWhile_dropWhile_id list_all_iff)

lemma consume_byte_Some: "consume_byte c r = Some r' \<longleftrightarrow> r = c # r'"
  by (auto simp: consume_byte_def split: list.splits if_splits)

lemma consume_byte_simps [simp]:
  "consume_byte c [] = None" "consume_byte c (b # r) = (if b = c then Some r else None)"
  by (simp_all add: consume_byte_def)

lemma digits_loop_splits:
  "digits_loop bound n v r = (n', v', r') \<Longrightarrow>
   \<exists>ds. r = ds @ r' \<and> list_all is_digit ds \<and> n' = n + length ds \<and> (ds = [] \<longrightarrow> \<not> peek_is is_digit r)"
proof (induction bound n v r rule: digits_loop.induct)
  case (2 bound n v b r)
  show ?case
  proof (cases "is_digit b")
    case True
    with 2 obtain ds where "r = ds @ r'" "list_all is_digit ds" "n' = n + 1 + length ds" by auto
    with True show ?thesis by (intro exI [of _ "b # ds"]) simp
  qed (use 2 in \<open>auto simp: peek_is_def\<close>)
qed (simp add: peek_is_def)

lemma consume_digits_splits:
  assumes "consume_one_or_more_digits bound r = Some (v, r')"
  obtains ds where "r = ds @ r'" "digits ds" "bound = None \<Longrightarrow> v = length ds"
  using assms digits_loop_splits [of bound 0 0 r]
  by (fastforce simp: consume_one_or_more_digits_def digits_def split: prod.splits if_splits)

lemma consume_sign_splits:
  assumes "consume_sign r = Some r'"
  obtains s where "r = s @ r'" "s = [] \<or> s = [45]"
  using assms by (auto simp: consume_sign_def consume_byte_Some split: option.splits if_splits)

lemma consume_integer_splits:
  assumes "consume_integer L r = Some r'"
  obtains i where "r = i @ r'" "jinteger L i"
proof (cases "consume_byte 48 r")
  case (Some r1)
  with assms show thesis
    by (intro that [of "[48]"]) (auto simp: consume_integer_def consume_byte_Some jinteger_def split: if_splits)
next
  case None
  with assms obtain v where d: "consume_one_or_more_digits None r = Some (v, r')" "v \<le> max_integer_digits L"
    and p: "peek_is (\<lambda>b. 49 \<le> b \<and> b \<le> 57) r"
    by (auto simp: consume_integer_def split: option.splits if_splits)
  from d(1) obtain ds where ds: "r = ds @ r'" "digits ds" "v = length ds" by (elim consume_digits_splits) simp
  with p have "hd ds \<noteq> 48" by (cases ds) (auto simp: peek_is_def digits_def)
  with ds d(2) show thesis by (intro that [of ds]) (auto simp: jinteger_def)
qed

lemma consume_fraction_splits:
  assumes "consume_fraction r = Some (has, r')"
  obtains f where "r = f @ r'" "has = (f \<noteq> [])" "f = [] \<or> jfraction f"
proof (cases "consume_byte 46 r")
  case None
  with assms show thesis by (intro that [of "[]"]) (auto simp: consume_fraction_def)
next
  case (Some r1)
  with assms obtain v where "consume_one_or_more_digits None r1 = Some (v, r')" "has"
    by (auto simp: consume_fraction_def split: option.splits)
  then obtain ds where "r1 = ds @ r'" "digits ds" by (elim consume_digits_splits) simp
  with Some \<open>has\<close> show thesis
    by (intro that [of "46 # ds"]) (auto simp: consume_byte_Some jfraction_def)
qed

lemma consume_exponent_splits:
  assumes "consume_exponent L r = Some (has, r')"
  obtains e where "r = e @ r'" "has = (e \<noteq> [])" "e = [] \<or> jexponent e"
proof (cases "peek_is (\<lambda>b. b = 101 \<or> b = 69) r")
  case False
  with assms show thesis by (intro that [of "[]"]) (auto simp: consume_exponent_def)
next
  case True
  then obtain x r1 where x: "r = x # r1" "x = 101 \<or> x = 69" by (auto simp: peek_is_def split: list.splits)
  define s where "s = (if peek_is (\<lambda>b. b = 43 \<or> b = 45) r1 then [hd r1] else [])"
  define r2 where "r2 = (if peek_is (\<lambda>b. b = 43 \<or> b = 45) r1 then tl r1 else r1)"
  have s: "r1 = s @ r2" "s \<in> {[], [43], [45]}"
    by (auto simp: s_def r2_def peek_is_def split: list.splits)
  from assms True x obtain v where
    "consume_one_or_more_digits (Some (max_exponent_magnitude L)) r2 = Some (v, r')" "has"
    by (auto simp: consume_exponent_def Let_def r2_def split: option.splits if_splits)
  then obtain ds where "r2 = ds @ r'" "digits ds" by (elim consume_digits_splits) simp
  with x s \<open>has\<close> show thesis
    by (intro that [of "x # s @ ds"]) (auto simp: jexponent_def)
qed

lemma consume_number_splits:
  assumes "consume_number L r = Some (is_int, r')"
  obtains bs where "r = bs @ r'" "bs \<noteq> []" "jnumber L is_int bs"
proof -
  from assms obtain r1 r2 hf r3 he where
    c: "consume_sign r = Some r1" "consume_integer L r1 = Some r2" "consume_fraction r2 = Some (hf, r3)"
      "consume_exponent L r3 = Some (he, r')"
    and b: "length r - length r' \<le> max_scalar_bytes L"
      "isfinite (float_of_number (take (length r - length r') r))" "is_int = (\<not> hf \<and> \<not> he)"
    by (auto simp: consume_number_def Let_def split: option.splits if_splits)
  from c(1) obtain s where s: "r = s @ r1" "s = [] \<or> s = [45]" by (elim consume_sign_splits)
  from c(2) obtain i where i: "r1 = i @ r2" "jinteger L i" by (elim consume_integer_splits)
  from c(3) obtain f where f: "r2 = f @ r3" "hf = (f \<noteq> [])" "f = [] \<or> jfraction f"
    by (elim consume_fraction_splits)
  from c(4) obtain e where e: "r3 = e @ r'" "he = (e \<noteq> [])" "e = [] \<or> jexponent e"
    by (elim consume_exponent_splits)
  let ?bs = "s @ i @ f @ e"
  have r: "r = ?bs @ r'" using s i f e by simp
  have "take (length r - length r') r = ?bs" by (simp add: r)
  moreover have "i \<noteq> []" using i(2) by (auto simp: jinteger_def digits_def)
  ultimately show thesis using b s i f e
    by (intro that [of ?bs]) (auto simp: r jnumber_def)
qed

lemma consume_unit_splits:
  "consume_unicode_code_unit r = Some (v, r') \<Longrightarrow> \<exists>h. r = h @ r' \<and> hex4 h v"
  unfolding consume_unicode_code_unit_def Let_def hex4_def
  by (metis append_take_drop_id option.distinct(1) option.inject prod.inject)

lemma consume_escape_splits:
  assumes "consume_escape r = Some (ds, r')"
  obtains e where "92 # r = e @ r'" "jescape e ds"
proof -
  obtain c r1 where r: "r = c # r1" using assms by (auto simp: consume_escape_def split: list.splits)
  show thesis
  proof (cases "simple_escape c")
    case (Some x)
    with assms show thesis
      by (intro that [of "[92, c]"]) (auto simp: consume_escape_def r jescape.simple)
  next
    case None
    with assms obtain cp r2 where u: "c = 117" "consume_unicode_code_unit r1 = Some (cp, r2)"
      by (auto simp: consume_escape_def r split: if_splits option.splits)
    then obtain h where h: "r1 = h @ r2" "hex4 h cp" using consume_unit_splits by blast
    show thesis
    proof (cases "55296 \<le> cp \<and> cp \<le> 56319")
      case True
      with assms None u obtain low r3 where l: "starts_with [92, 117] r2"
        "consume_unicode_code_unit (drop 2 r2) = Some (low, r')" "56320 \<le> low" "low \<le> 57343"
        "ds = utf8_encode (65536 + (cp - 55296) * 1024 + (low - 56320))"
        by (auto simp: consume_escape_def r split: if_splits option.splits)
      from l(1) obtain r4 where r4: "r2 = [92, 117] @ r4" by (auto simp: starts_with_iff)
      with l(2) obtain h' where h': "r4 = h' @ r'" "hex4 h' low" using consume_unit_splits by fastforce
      have "jescape ([92, 117] @ h @ [92, 117] @ h') ds"
        unfolding l(5) by (rule jescape.pair) (use h(2) h'(2) True l(3,4) in simp_all)
      with h h' r4 u show thesis
        by (intro that [of "[92, 117] @ h @ [92, 117] @ h'"]) (simp_all add: r)
    next
      case False
      with assms None u have "ds = utf8_encode cp" "r' = r2" "\<not> (55296 \<le> cp \<and> cp \<le> 57343)"
        by (auto simp: consume_escape_def r split: if_splits)
      moreover then have "jescape ([92, 117] @ h) (utf8_encode cp)" using h(2) by (intro jescape.unit)
      ultimately show thesis using h u
        by (intro that [of "[92, 117] @ h"]) (simp_all add: r)
    qed
  qed
qed

lemma string_loop_splits:
  "string_loop mx n dec st r = Some (dec', r') \<Longrightarrow> n \<le> mx \<Longrightarrow>
   \<exists>raw ds. r = raw @ 34 # r' \<and> jchars st raw ds \<and> n + length raw \<le> mx \<and> dec' = map_option (\<lambda>d. d @ ds) dec"
proof (induction mx n dec st r rule: string_loop.induct)
  case (1 mx n dec st r)
  from 1(3) obtain b r1 where r: "r = b # r1"
    by (subst (asm) string_loop.simps) (auto split: list.splits)
  note run = 1(3) [unfolded r string_loop.simps [of mx n dec st "b # r1"] list.case]
  show ?case
  proof (cases "b = 34")
    case True
    with run show ?thesis
      by (intro exI [of _ "[]"]) (auto simp: r 1(4) option.map_ident jchars.finished split: if_splits)
  next
    case b34: False
    with run have n: "n < mx" and b31: "31 < b" by (auto split: if_splits)
    show ?thesis
    proof (cases "b = 92")
      case False
      with run b34 n b31 obtain st' c where f: "utf8_feed st b = Some (st', c)"
        and l: "string_loop mx (n + 1) (map_option (\<lambda>d. d @ [b]) dec) st' r1 = Some (dec', r')"
        by (auto split: option.splits if_splits)
      from 1(1) [OF r b34 _ _ False f refl l] n b31 obtain raw ds where
        ih: "r1 = raw @ 34 # r'" "jchars st' raw ds" "n + 1 + length raw \<le> mx"
        "dec' = map_option (\<lambda>d. d @ ds) (map_option (\<lambda>d. d @ [b]) dec)" by auto
      then show ?thesis using f b34 b31 False
        by (intro exI [of _ "b # raw"] exI [of _ "b # ds"])
          (auto simp: r option.map_comp o_def intro: jchars.char)
    next
      case True
      with run b34 n b31 obtain d1 r2 where e: "st = UStart" "consume_escape r1 = Some (d1, r2)"
        and m: "n + 1 + (length r1 - length r2) \<le> mx"
        and l: "string_loop mx (n + 1 + (length r1 - length r2)) (map_option (\<lambda>d. d @ d1) dec) UStart r2 = Some (dec', r')"
        by (auto simp: Let_def split: option.splits if_splits)
      from e(2) obtain ec where ec: "92 # r1 = ec @ r2" "jescape ec d1" by (elim consume_escape_splits)
      from 1(2) [OF r b34 _ _ _ _ e(2) refl refl _ l m] n b31 True e(1) m obtain raw ds where
        ih: "r2 = raw @ 34 # r'" "jchars UStart raw ds" "n + 1 + (length r1 - length r2) + length raw \<le> mx"
        "dec' = map_option (\<lambda>d. d @ ds) (map_option (\<lambda>d. d @ d1) dec)" by auto
      have "length ec = 1 + (length r1 - length r2)"
        using arg_cong [OF ec(1), of length] consume_escape_length [OF e(2)] by simp
      then show ?thesis using ih ec True e(1)
        by (intro exI [of _ "ec @ raw"] exI [of _ "d1 @ ds"])
          (auto simp: r option.map_comp o_def intro: jchars.esc)
    qed
  qed
qed

lemma consume_string_splits:
  assumes "consume_string mx retain r = Some (t, r')"
  obtains bs ds where "r = bs @ r'" "bs \<noteq> []" "jstring mx bs ds"
    "retain \<Longrightarrow> utf8_decode ds = t \<and> t \<noteq> None"
proof -
  from assms obtain r1 dec where r1: "r = 34 # r1"
    and l: "string_loop mx 0 (if retain then Some [] else None) UStart r1 = Some (dec, r')"
    and t: "case dec of None \<Rightarrow> t = None | Some d \<Rightarrow> utf8_decode d = t \<and> t \<noteq> None"
    by (force simp: consume_string_def consume_byte_Some split: option.splits)
  from string_loop_splits [OF l] obtain raw ds where
    "r1 = raw @ 34 # r'" "jchars UStart raw ds" "length raw \<le> mx"
    "dec = map_option (\<lambda>d. d @ ds) (if retain then Some [] else None)" by auto
  with r1 t show thesis
    by (intro that [of "[34] @ raw @ [34]" ds]) (auto simp: jstring_def)
qed

section \<open>What the frames remember\<close>

text \<open>
  Between two turns of the loop the bytes read so far are the concatenation of one piece per
  frame. \<open>top_frame\<close> describes the piece of the innermost frame in each of its states,
  \<open>pending_frame\<close> the piece of a frame whose next value has begun. The list \<open>ms\<close> holds the
  members read so far (for a pending frame, the pending member with its kind included).
\<close>

inductive object_start :: "JsonPreflightLimits \<Rightarrow> nat \<Rightarrow> (pystr \<times> value_kind) list \<Rightarrow> nat \<Rightarrow> bool \<Rightarrow> bytes \<Rightarrow> bool"
  for L d where
  first: "ws w \<Longrightarrow> object_start L d [] 1 True ([123] @ w)"
| comma: "ws w \<Longrightarrow> jmembers L d ms m bs \<Longrightarrow> distinct (map fst ms) \<Longrightarrow> length ms \<le> max_object_members L \<Longrightarrow> ws w' \<Longrightarrow>
          object_start L d ms (Suc m) False ([123] @ w @ bs @ [44] @ w')"

inductive array_start :: "JsonPreflightLimits \<Rightarrow> nat \<Rightarrow> nat \<Rightarrow> nat \<Rightarrow> bool \<Rightarrow> bytes \<Rightarrow> bool" for L d where
  first: "ws w \<Longrightarrow> array_start L d 0 1 True ([91] @ w)"
| comma: "ws w \<Longrightarrow> jitems L d i m bs \<Longrightarrow> i \<le> max_array_items L \<Longrightarrow> ws w' \<Longrightarrow>
          array_start L d i (Suc m) False ([91] @ w @ bs @ [44] @ w')"

inductive top_frame :: "JsonPreflightLimits \<Rightarrow> nat \<Rightarrow> Frame \<Rightarrow> (pystr \<times> value_kind) list \<Rightarrow> nat \<Rightarrow> bytes \<Rightarrow> bool"
  for L d where
  array_value: "array_start L d (fr_members f) n (fr_allow_end f) q \<Longrightarrow> fr_kind f = ArrayFrame \<Longrightarrow>
     fr_state f = ArrayValueOrEnd \<Longrightarrow> top_frame L d f [] n q"
| array_after: "ws w \<Longrightarrow> jitems L d (fr_members f) m bs \<Longrightarrow> fr_members f \<le> max_array_items L \<Longrightarrow>
     fr_kind f = ArrayFrame \<Longrightarrow> fr_state f = ArrayAfterValue \<Longrightarrow> top_frame L d f [] (Suc m) ([91] @ w @ bs)"
| object_key: "object_start L d ms n (fr_allow_end f) q \<Longrightarrow> fr_kind f = ObjectFrame \<Longrightarrow>
     fr_state f = ObjectKeyOrEnd \<Longrightarrow> fr_keys f = map fst ms \<Longrightarrow> fr_members f = length ms \<Longrightarrow> top_frame L d f ms n q"
| object_value: "object_start L d ms n a q \<Longrightarrow> jmember_start L key st \<Longrightarrow> fr_kind f = ObjectFrame \<Longrightarrow>
     fr_state f = ObjectValue \<Longrightarrow> fr_keys f = key # map fst ms \<Longrightarrow> distinct (fr_keys f) \<Longrightarrow>
     fr_current_key f = Some key \<Longrightarrow> fr_members f = length ms \<Longrightarrow> top_frame L d f ms n (q @ st)"
| object_after: "ws w \<Longrightarrow> jmembers L d ms m bs \<Longrightarrow> distinct (map fst ms) \<Longrightarrow> length ms \<le> max_object_members L \<Longrightarrow>
     fr_kind f = ObjectFrame \<Longrightarrow> fr_state f = ObjectAfterValue \<Longrightarrow> fr_keys f = map fst ms \<Longrightarrow>
     fr_members f = length ms \<Longrightarrow> top_frame L d f ms (Suc m) ([123] @ w @ bs)"

inductive pending_frame ::
  "JsonPreflightLimits \<Rightarrow> nat \<Rightarrow> Frame \<Rightarrow> value_kind \<Rightarrow> (pystr \<times> value_kind) list \<Rightarrow> nat \<Rightarrow> bytes \<Rightarrow> bool"
  for L d where
  pending_array: "array_start L d i n a q \<Longrightarrow> fr_kind f = ArrayFrame \<Longrightarrow> fr_state f = ArrayAfterValue \<Longrightarrow>
     fr_members f = Suc i \<Longrightarrow> Suc i \<le> max_array_items L \<Longrightarrow> pending_frame L d f k [] n q"
| pending_object: "object_start L d ms n a q \<Longrightarrow> jmember_start L key st \<Longrightarrow> fr_kind f = ObjectFrame \<Longrightarrow>
     fr_state f = ObjectAfterValue \<Longrightarrow> fr_keys f = key # map fst ms \<Longrightarrow> distinct (fr_keys f) \<Longrightarrow>
     fr_members f = Suc (length ms) \<Longrightarrow> Suc (length ms) \<le> max_object_members L \<Longrightarrow>
     pending_frame L d f k ((key, k) # ms) n (q @ st)"

text \<open>The rules with their conclusions up to equality, and trailing whitespace.\<close>

lemma item_eq: "jval L d k n v \<Longrightarrow> ws w \<Longrightarrow> i = 1 \<Longrightarrow> bs = v @ w \<Longrightarrow> jitems L d i n bs"
  by (simp only:) (rule item)

lemma items_eq: "jitems L d i m cs \<Longrightarrow> ws w \<Longrightarrow> jval L d k n v \<Longrightarrow> ws w' \<Longrightarrow> j = Suc i \<Longrightarrow> t = m + n \<Longrightarrow>
    bs = cs @ [44] @ w @ v @ w' \<Longrightarrow> jitems L d j t bs"
  by (simp only:) (rule items)

lemma start_eq: "jstring (max_key_bytes L) s ds \<Longrightarrow> utf8_decode ds = Some key \<Longrightarrow> ws w \<Longrightarrow> ws w' \<Longrightarrow>
    bs = s @ w @ [58] @ w' \<Longrightarrow> jmember_start L key bs"
  by (simp only:) (rule start)

lemma member_eq: "jmember_start L key st \<Longrightarrow> jval L d k n v \<Longrightarrow> ws w \<Longrightarrow> ms = [(key, k)] \<Longrightarrow> bs = st @ v @ w \<Longrightarrow>
    jmembers L d ms n bs"
  by (simp only:) (rule member)

lemma members_eq: "jmembers L d ms m cs \<Longrightarrow> ws w \<Longrightarrow> jmember_start L key st \<Longrightarrow> jval L d k n v \<Longrightarrow> ws w' \<Longrightarrow>
    ms' = (key, k) # ms \<Longrightarrow> t = m + n \<Longrightarrow> bs = cs @ [44] @ w @ st @ v @ w' \<Longrightarrow> jmembers L d ms' t bs"
  by (simp only:) (rule members)

lemma jitems_ws: "jitems L d i m bs \<Longrightarrow> ws w \<Longrightarrow> jitems L d i m (bs @ w)"
  by (erule jitems.cases) (auto intro: item_eq [where w = "_ @ w"] items_eq [where w' = "_ @ w"])

lemma jmembers_ws: "jmembers L d ms m bs \<Longrightarrow> ws w \<Longrightarrow> jmembers L d ms m (bs @ w)"
  by (erule jmembers.cases) (auto intro: member_eq [where w = "_ @ w"] members_eq [where w' = "_ @ w"])

lemma jmember_start_ws: "jmember_start L key st \<Longrightarrow> ws w \<Longrightarrow> jmember_start L key (st @ w)"
  by (erule jmember_start.cases) (auto intro: start_eq [where w' = "_ @ w"])

lemma array_start_ws: "array_start L d i n a q \<Longrightarrow> ws w \<Longrightarrow> array_start L d i n a (q @ w)"
  by (erule array_start.cases)
    (use array_start.first [of "_ @ w" L d] array_start.comma [of _ L d _ _ _ "_ @ w"] in auto)

lemma object_start_ws: "object_start L d ms n a q \<Longrightarrow> ws w \<Longrightarrow> object_start L d ms n a (q @ w)"
  by (erule object_start.cases)
    (use object_start.first [of "_ @ w" L d] object_start.comma [of _ L d _ _ _ "_ @ w"] in auto)

lemma top_frame_ws: "top_frame L d f ms n q \<Longrightarrow> ws w \<Longrightarrow> top_frame L d f ms n (q @ w)"
proof (induction rule: top_frame.cases)
  case (array_value f n q)
  then show ?case by (auto intro: top_frame.array_value array_start_ws)
next
  case (array_after w' f m bs)
  then show ?case using top_frame.array_after [of w' L d f m "bs @ w"] by (simp add: jitems_ws)
next
  case (object_key ms n f q)
  then show ?case by (auto intro: top_frame.object_key object_start_ws)
next
  case (object_value ms n a q key st f)
  then show ?case using top_frame.object_value [of L d ms n a q key "st @ w" f] by (simp add: jmember_start_ws)
next
  case (object_after w' ms m bs f)
  then show ?case using top_frame.object_after [of w' L d ms m "bs @ w" f] by (simp add: jmembers_ws)
qed

text \<open>A pending frame becomes complete with its value.\<close>

lemma pending_frame_value:
  assumes "pending_frame L d f k ms n q" and v: "jval L d k m v"
  shows "top_frame L d f ms (n + m) (q @ v)"
  using assms(1)
proof cases
  case (pending_array i a)
  from \<open>array_start L d i n a q\<close> show ?thesis
  proof cases
    case (first w)
    have "jitems L d 1 m (v @ [])" using v by (intro item) simp_all
    with pending_array first top_frame.array_after [of w L d f m v] show ?thesis by simp
  next
    case (comma w m' bs w')
    have "jitems L d (Suc i) (m' + m) (bs @ [44] @ w' @ v @ [])"
      using v comma by (intro items) simp_all
    with pending_array comma top_frame.array_after [of w L d f "m' + m" "bs @ [44] @ w' @ v"] show ?thesis by simp
  qed
next
  case (pending_object ms' a q' key st)
  from \<open>object_start L d ms' n a q'\<close> show ?thesis
  proof cases
    case (first w)
    have "jmembers L d [(key, k)] m (st @ v @ [])" using v pending_object by (intro member) simp_all
    with pending_object first top_frame.object_after [of w L d "[(key, k)]" m "st @ v" f] show ?thesis by simp
  next
    case (comma w m' bs w')
    have "jmembers L d ((key, k) # ms') (m' + m) (bs @ [44] @ w' @ st @ v @ [])"
      using v pending_object comma by (intro members) simp_all
    with pending_object comma top_frame.object_after [of w L d "(key, k) # ms'" "m' + m" "bs @ [44] @ w' @ st @ v" f]
    show ?thesis by simp
  qed
qed

text \<open>How a frame moves: closing, the next item, separators, keys and member values.\<close>

definition value_of_frame :: "frame_kind \<Rightarrow> value_kind" where
  "value_of_frame k = (case k of ArrayFrame \<Rightarrow> VArray | ObjectFrame \<Rightarrow> VObject)"

definition closed_value ::
  "JsonPreflightLimits \<Rightarrow> nat \<Rightarrow> frame_kind \<Rightarrow> (pystr \<times> value_kind) list \<Rightarrow> nat \<Rightarrow> bytes \<Rightarrow> bool" where
  "closed_value L d k ms n v =
     (case k of ArrayFrame \<Rightarrow> ms = [] \<and> jval L (Suc d) VArray n v | ObjectFrame \<Rightarrow> jobject L d ms n v)"

lemma closed_value_jval: "closed_value L d k ms n v \<Longrightarrow> jval L (Suc d) (value_of_frame k) n v"
  by (cases k) (auto simp: closed_value_def value_of_frame_def intro: object)

lemma close_array_start:
  "top_frame L d f ms n q \<Longrightarrow> fr_state f = ArrayValueOrEnd \<Longrightarrow> fr_allow_end f \<Longrightarrow>
   closed_value L d (fr_kind f) ms n (q @ [93])"
  by (erule top_frame.cases)
    (use array_empty in \<open>auto simp: closed_value_def elim!: array_start.cases\<close>)

lemma close_array_after:
  "top_frame L d f ms n q \<Longrightarrow> fr_state f = ArrayAfterValue \<Longrightarrow> closed_value L d (fr_kind f) ms n (q @ [93])"
  by (erule top_frame.cases) (use array in \<open>auto simp: closed_value_def\<close>)

lemma close_object_start:
  "top_frame L d f ms n q \<Longrightarrow> fr_state f = ObjectKeyOrEnd \<Longrightarrow> fr_allow_end f \<Longrightarrow>
   closed_value L d (fr_kind f) ms n (q @ [125])"
  by (erule top_frame.cases)
    (use object_empty in \<open>auto simp: closed_value_def elim!: object_start.cases\<close>)

lemma close_object_after:
  "top_frame L d f ms n q \<Longrightarrow> fr_state f = ObjectAfterValue \<Longrightarrow> closed_value L d (fr_kind f) ms n (q @ [125])"
  by (erule top_frame.cases) (use object_members in \<open>auto simp: closed_value_def\<close>)

lemma array_item_pending:
  "top_frame L d f ms n q \<Longrightarrow> fr_state f = ArrayValueOrEnd \<Longrightarrow> fr_members f + 1 \<le> max_array_items L \<Longrightarrow>
   ms = [] \<and> pending_frame L d (f\<lparr>fr_members := fr_members f + 1, fr_state := ArrayAfterValue\<rparr>) k [] n q"
  by (erule top_frame.cases) (auto intro: pending_array)

lemma array_comma:
  "top_frame L d f ms n q \<Longrightarrow> fr_state f = ArrayAfterValue \<Longrightarrow>
   top_frame L d (f\<lparr>fr_state := ArrayValueOrEnd, fr_allow_end := False\<rparr>) ms n (q @ [44])"
  by (erule top_frame.cases)
    (use array_start.comma [of _ L d _ _ _ "[]"] in \<open>auto intro!: top_frame.array_value\<close>)

lemma object_comma:
  "top_frame L d f ms n q \<Longrightarrow> fr_state f = ObjectAfterValue \<Longrightarrow>
   top_frame L d (f\<lparr>fr_current_key := None, fr_state := ObjectKeyOrEnd, fr_allow_end := False\<rparr>) ms n (q @ [44])"
  by (erule top_frame.cases)
    (use object_start.comma [of _ L d _ _ _ "[]"] in \<open>auto intro!: top_frame.object_key\<close>)

lemma object_start_distinct: "object_start L d ms n a q \<Longrightarrow> distinct (map fst ms)"
  by (erule object_start.cases) auto

lemma object_key_read:
  assumes "top_frame L d f ms n q" "fr_state f = ObjectKeyOrEnd" "jmember_start L key st" "key \<notin> set (fr_keys f)"
  shows "top_frame L d (f\<lparr>fr_keys := key # fr_keys f, fr_current_key := Some key, fr_state := ObjectValue\<rparr>) ms n (q @ st)"
  using assms(1)
proof cases
  case object_key
  with assms(3,4) object_start_distinct [OF object_key(1)] show ?thesis
    by (intro top_frame.object_value) auto
qed (use assms(2) in simp_all)

lemma object_value_pending:
  assumes "top_frame L d f ms n q" "fr_state f = ObjectValue" "fr_members f + 1 \<le> max_object_members L"
  obtains key where "fr_current_key f = Some key" "key \<notin> set (map fst ms)" "fr_kind f = ObjectFrame"
    "\<And>k. pending_frame L d (f\<lparr>fr_members := fr_members f + 1, fr_state := ObjectAfterValue\<rparr>) k ((key, k) # ms) n q"
  using assms(1)
proof cases
  case (object_value a q' key st)
  with assms(3) show thesis
    by (intro that [of key]) (auto intro: pending_object)
qed (use assms(2) in simp_all)

lemma top_frame_new:
  "top_frame L d (new_frame ArrayFrame ArrayValueOrEnd) [] 1 [91]"
  "top_frame L d (new_frame ObjectFrame ObjectKeyOrEnd) [] 1 [123]"
proof -
  show "top_frame L d (new_frame ArrayFrame ArrayValueOrEnd) [] 1 [91]"
    using array_start.first [of "[]" L d] by (intro top_frame.array_value) (simp_all add: new_frame_def)
  show "top_frame L d (new_frame ObjectFrame ObjectKeyOrEnd) [] 1 [123]"
    using object_start.first [of "[]" L d] by (intro top_frame.object_key) (simp_all add: new_frame_def)
qed

section \<open>The stack of frames\<close>

text \<open>
  \<open>pending_stack\<close>: every frame awaits its value, the innermost one a value of kind \<open>k\<close>;
  \<open>top_stack\<close>: the innermost frame is between values. A frame with \<open>j\<close> frames outside it may
  hold values nested at most \<open>max_depth - j - 1\<close> deep. \<open>rm\<close> lists the members of the outermost
  frame.
\<close>

fun pending_stack ::
  "JsonPreflightLimits \<Rightarrow> Frame list \<Rightarrow> value_kind \<Rightarrow> (pystr \<times> value_kind) list \<Rightarrow> nat \<Rightarrow> bytes \<Rightarrow> bool" where
  "pending_stack L [] k rm n pre = (rm = [] \<and> n = 0 \<and> ws pre)"
| "pending_stack L (f # fs) k rm n pre =
     (\<exists>p q a b rm' ms. pre = p @ q \<and> n = a + b \<and> length fs < max_depth L
        \<and> pending_stack L fs (value_of_frame (fr_kind f)) rm' a p
        \<and> pending_frame L (max_depth L - length fs - 1) f k ms b q \<and> rm = (if fs = [] then ms else rm'))"

definition top_stack ::
  "JsonPreflightLimits \<Rightarrow> Frame list \<Rightarrow> (pystr \<times> value_kind) list \<Rightarrow> nat \<Rightarrow> bytes \<Rightarrow> bool" where
  "top_stack L fs0 rm n pre =
     (\<exists>f fs p q a b rm' ms. fs0 = f # fs \<and> pre = p @ q \<and> n = a + b \<and> length fs < max_depth L
        \<and> pending_stack L fs (value_of_frame (fr_kind f)) rm' a p
        \<and> top_frame L (max_depth L - length fs - 1) f ms b q \<and> rm = (if fs = [] then ms else rm'))"

lemma top_stackE:
  assumes "top_stack L (f # fs) rm n pre"
  obtains p q a b rm' ms where "pre = p @ q" "n = a + b" "length fs < max_depth L"
    "pending_stack L fs (value_of_frame (fr_kind f)) rm' a p"
    "top_frame L (max_depth L - length fs - 1) f ms b q" "rm = (if fs = [] then ms else rm')"
  using assms by (auto simp: top_stack_def)

lemma top_stackI:
  "length fs < max_depth L \<Longrightarrow> pending_stack L fs (value_of_frame (fr_kind f)) rm' a p \<Longrightarrow>
   top_frame L (max_depth L - length fs - 1) f ms b q \<Longrightarrow> rm = (if fs = [] then ms else rm') \<Longrightarrow>
   n = a + b \<Longrightarrow> pre = p @ q \<Longrightarrow> top_stack L (f # fs) rm n pre"
  unfolding top_stack_def by blast

lemma pending_stackI:
  "length fs < max_depth L \<Longrightarrow> pending_stack L fs (value_of_frame (fr_kind f)) rm' a p \<Longrightarrow>
   pending_frame L (max_depth L - length fs - 1) f k ms b q \<Longrightarrow> rm = (if fs = [] then ms else rm') \<Longrightarrow>
   n = a + b \<Longrightarrow> pre = p @ q \<Longrightarrow> pending_stack L (f # fs) k rm n pre"
  unfolding pending_stack.simps by blast

lemma top_stack_ws: "top_stack L fs rm n pre \<Longrightarrow> ws w \<Longrightarrow> top_stack L fs rm n (pre @ w)"
  unfolding top_stack_def by (metis append.assoc top_frame_ws)

lemma pending_stack_value:
  assumes "pending_stack L (f # fs) k rm n pre" "jval L (max_depth L - length (f # fs)) k m v"
  shows "top_stack L (f # fs) rm (n + m) (pre @ v)"
proof -
  obtain p q a b rm' ms where d: "pre = p @ q" "n = a + b" "length fs < max_depth L"
    "pending_stack L fs (value_of_frame (fr_kind f)) rm' a p"
    "pending_frame L (max_depth L - length fs - 1) f k ms b q" "rm = (if fs = [] then ms else rm')"
    using assms(1) by auto
  from pending_frame_value [OF d(5)] assms(2) have "top_frame L (max_depth L - length fs - 1) f ms (b + m) (q @ v)"
    by simp
  then show ?thesis by (rule top_stackI [OF d(3,4) _ d(6)]) (simp_all add: d)
qed

section \<open>The parser's steps\<close>

lemma begin_value_cases:
  assumes "begin_value L p = Some (k, p')"
  obtains (container) fk r where "k = value_of_frame fk" "length (pr_frames p) < max_depth L"
      "pr_tokens p + 1 \<le> max_tokens L" "pr_rest p = (if fk = ArrayFrame then 91 else 123) # r"
      "p' = p\<lparr>pr_rest := r, pr_tokens := pr_tokens p + 1,
              pr_frames := new_frame fk (if fk = ArrayFrame then ArrayValueOrEnd else ObjectKeyOrEnd) # pr_frames p,
              pr_root_keys := (if pr_frames p = [] \<and> fk = ObjectFrame then Some [] else pr_root_keys p)\<rparr>"
  | (scalar) v r where "pr_rest p = v @ r" "v \<noteq> []" "\<And>d. jval L d k 1 v" "k \<noteq> VObject"
      "pr_tokens p + 1 \<le> max_tokens L"
      "p' = finish_scalar (p\<lparr>pr_rest := r, pr_tokens := pr_tokens p + 1\<rparr>)"
proof -
  define p1 where "p1 = p\<lparr>pr_tokens := pr_tokens p + 1\<rparr>"
  have t: "pr_tokens p + 1 \<le> max_tokens L" and c: "count_token L p = Some p1"
    using assms by (auto simp: begin_value_def count_token_def p1_def split: if_splits)
  note bv = assms [unfolded begin_value_def c option.case Let_def]
  have r: "pr_rest p1 = pr_rest p" by (simp add: p1_def)
  have push: thesis if "push_container L fk (p1\<lparr>pr_rest := tl (pr_rest p)\<rparr>) = Some p'" "k = value_of_frame fk"
      "peek_byte (pr_rest p) = Some (if fk = ArrayFrame then 91 else 123)" for fk
  proof (rule container [of fk "tl (pr_rest p)"])
    show "p' = p\<lparr>pr_rest := tl (pr_rest p), pr_tokens := pr_tokens p + 1,
              pr_frames := new_frame fk (if fk = ArrayFrame then ArrayValueOrEnd else ObjectKeyOrEnd) # pr_frames p,
              pr_root_keys := (if pr_frames p = [] \<and> fk = ObjectFrame then Some [] else pr_root_keys p)\<rparr>"
      using that(1) by (auto simp: push_container_def p1_def new_frame_def Let_def split: if_splits)
    show "length (pr_frames p) < max_depth L"
      using that(1) by (auto simp: push_container_def p1_def split: if_splits)
    show "pr_rest p = (if fk = ArrayFrame then 91 else 123) # tl (pr_rest p)"
      using that(3) by (auto simp: peek_byte_def split: list.splits)
  qed (use that t in simp_all)
  have sc: thesis if "pr_rest p = v @ r" "v \<noteq> []" "\<And>d. jval L d k 1 v" "k \<noteq> VObject"
    "p' = finish_scalar (p1\<lparr>pr_rest := r\<rparr>)" for v r
    using that t by (intro scalar [of v r]) (simp_all add: p1_def finish_scalar_def)
  show thesis
  proof (cases "peek_byte (pr_rest p) = Some 123 \<or> peek_byte (pr_rest p) = Some 91")
    case True
    then show thesis using push [of ObjectFrame] push [of ArrayFrame] bv
      by (auto simp: r value_of_frame_def split: if_splits)
  next
    case ncont: False
    show thesis
    proof (cases "peek_byte (pr_rest p) = Some 34")
      case True
      with bv ncont obtain t' r' where cs: "consume_string (max_scalar_bytes L) False (pr_rest p) = Some (t', r')"
        "k = VString" "p' = finish_scalar (p1\<lparr>pr_rest := r'\<rparr>)"
        by (auto simp: r split: option.splits if_splits)
      from cs(1) obtain bs ds where "pr_rest p = bs @ r'" "bs \<noteq> []" "jstring (max_scalar_bytes L) bs ds"
        by (elim consume_string_splits)
      then show thesis using cs string [of L bs ds] by (intro sc [of bs r']) auto
    next
      case nstr: False
      show thesis
      proof (cases "peek_byte (pr_rest p) = Some 45 \<or> peek_is is_digit (pr_rest p)")
        case True
        with bv ncont nstr obtain i r' where cs: "consume_number L (pr_rest p) = Some (i, r')"
          "k = (if i then VInteger else VNumber)" "p' = finish_scalar (p1\<lparr>pr_rest := r'\<rparr>)"
          by (auto simp: r split: option.splits if_splits)
        from cs(1) obtain bs where "pr_rest p = bs @ r'" "bs \<noteq> []" "jnumber L i bs"
          by (elim consume_number_splits)
        then show thesis using cs number [of L i bs] by (intro sc [of bs r']) auto
      next
        case nnum: False
        note lit = bv [unfolded r] ncont nstr nnum
        show thesis
          using lit sc [of "[116, 114, 117, 101]" "drop 4 (pr_rest p)"] sc [of "[102, 97, 108, 115, 101]" "drop 5 (pr_rest p)"]
            sc [of "[110, 117, 108, 108]" "drop 4 (pr_rest p)"]
          by (auto simp: starts_with_iff true [unfolded One_nat_def] false [unfolded One_nat_def]
              null [unfolded One_nat_def] split: if_splits)
      qed
    qed
  qed
qed

lemma begin_value_length: "begin_value L p = Some (k, p') \<Longrightarrow> length (pr_rest p') < length (pr_rest p)"
  by (erule begin_value_cases) (auto simp: finish_scalar_def)

lemma finish_container_rest [simp]: "pr_rest (finish_container p) = pr_rest p"
  by (simp add: finish_container_def Let_def)

lemma set_top_rest [simp]: "pr_rest (set_top f p) = pr_rest p"
  by (simp add: set_top_def)

lemma consume_object_key_length:
  "consume_object_key L f p = Some p' \<Longrightarrow> length (pr_rest p') < length (pr_rest p)"
proof -
  assume h: "consume_object_key L f p = Some p'"
  show ?thesis
  proof (cases "\<exists>r. (if fr_allow_end f then consume_byte 125 (pr_rest p) else None) = Some r")
    case True
    with h show ?thesis by (auto simp: consume_object_key_def consume_byte_Some split: if_splits)
  next
    case False
    with h obtain key r r' where s: "consume_string (max_key_bytes L) True (pr_rest p) = Some (Some key, r)"
      and c: "consume_byte 58 (skip_whitespace r) = Some r'" and p': "pr_rest p' = r'"
      by (force simp: consume_object_key_def Let_def split: option.splits if_splits)
    from s have "length r < length (pr_rest p)" by (elim consume_string_splits) simp
    moreover have "length (skip_whitespace r) \<le> length r" by (simp add: skip_whitespace_def length_dropWhile_le)
    ultimately show ?thesis using c p' by (simp add: consume_byte_Some)
  qed
qed

lemma consume_array_value_length:
  "consume_array_value L f p = Some p' \<Longrightarrow> length (pr_rest p') < length (pr_rest p)"
proof -
  assume h: "consume_array_value L f p = Some p'"
  show ?thesis
  proof (cases "\<exists>r. (if fr_allow_end f then consume_byte 93 (pr_rest p) else None) = Some r")
    case True
    with h show ?thesis by (auto simp: consume_array_value_def consume_byte_Some split: if_splits)
  next
    case False
    with h obtain k where "begin_value L (set_top (f\<lparr>fr_members := fr_members f + 1, fr_state := ArrayAfterValue\<rparr>) p)
        = Some (k, p')"
      by (auto simp: consume_array_value_def split: if_splits)
    then show ?thesis using begin_value_length by fastforce
  qed
qed

lemma parser_step_length: "parser_step L p = Some p' \<Longrightarrow> length (pr_rest p') < length (pr_rest p)"
proof -
  let ?q = "p\<lparr>pr_rest := skip_whitespace (pr_rest p)\<rparr>"
  assume h: "parser_step L p = Some p'"
  have "length (pr_rest p') < length (pr_rest ?q)"
  proof (cases "pr_frames p")
    case Nil
    with h show ?thesis by (auto simp: parser_step_def dest: begin_value_length)
  next
    case (Cons f fs)
    show ?thesis
    proof (cases "fr_state f")
      case ArrayValueOrEnd
      with h Cons show ?thesis
        by (auto simp: parser_step_def Let_def dest: consume_array_value_length)
    next
      case ArrayAfterValue
      with h Cons show ?thesis
        by (auto simp: parser_step_def Let_def consume_array_separator_def consume_byte_Some split: option.splits)
    next
      case ObjectKeyOrEnd
      with h Cons show ?thesis by (auto simp: parser_step_def Let_def dest: consume_object_key_length)
    next
      case ObjectValue
      with h Cons show ?thesis
        by (auto simp: parser_step_def consume_object_value_def Let_def
            split: option.splits if_splits dest: begin_value_length)
    next
      case ObjectAfterValue
      with h Cons show ?thesis
        by (auto simp: parser_step_def consume_object_separator_def consume_byte_Some Let_def split: option.splits)
    qed
  qed
  also have "length (pr_rest ?q) \<le> length (pr_rest p)" by (simp add: skip_whitespace_def length_dropWhile_le)
  finally show ?thesis .
qed

section \<open>The loop and the entry points\<close>

function validate_loop :: "JsonPreflightLimits \<Rightarrow> Parser \<Rightarrow> Parser option" where
  "validate_loop L p =
     (if pr_complete p then Some p
      else case parser_step L p of None \<Rightarrow> None | Some p' \<Rightarrow> validate_loop L p')"
  by pat_completeness auto
termination
  by (relation "measure (\<lambda>(L, p). length (pr_rest p))") (auto dest: parser_step_length)

declare validate_loop.simps [simp del]

definition validate :: "JsonPreflightLimits \<Rightarrow> bytes \<Rightarrow> Parser option" where
  "validate L payload =
     (if payload = [] \<or> max_body_bytes L < length payload then None
      else case validate_loop L (parser_init payload) of
        None \<Rightarrow> None
      | Some p \<Rightarrow> if skip_whitespace (pr_rest p) \<noteq> [] then None else Some p)"

definition preflight_json :: "bytes \<Rightarrow> JsonPreflightLimits option \<Rightarrow> unit option" where
  "preflight_json payload limits =
     map_option (\<lambda>_. ()) (validate (case limits of None \<Rightarrow> DEFAULT_LIMITS | Some L \<Rightarrow> L) payload)"

definition preflight_json_has_root_object_member ::
  "bytes \<Rightarrow> pystr \<Rightarrow> JsonPreflightLimits option \<Rightarrow> bool option" where
  "preflight_json_has_root_object_member payload member limits =
     map_option (\<lambda>p. case pr_root_keys p of None \<Rightarrow> False | Some ks \<Rightarrow> member \<in> set ks)
       (validate (case limits of None \<Rightarrow> DEFAULT_LIMITS | Some L \<Rightarrow> L) payload)"

definition preflight_json_has_valid_root_request_id :: "bytes \<Rightarrow> JsonPreflightLimits option \<Rightarrow> bool option" where
  "preflight_json_has_valid_root_request_id payload limits =
     map_option pr_id_valid (validate (case limits of None \<Rightarrow> DEFAULT_LIMITS | Some L \<Rightarrow> L) payload)"

section \<open>The parser invariant\<close>

definition id_ok :: "(pystr \<times> value_kind) list \<Rightarrow> bool" where
  "id_ok ms = (\<exists>k. (codes ''id'', k) \<in> set ms \<and> (k = VInteger \<or> k = VString))"

definition root_keys_of :: "Frame list \<Rightarrow> pystr list option" where
  "root_keys_of fs =
     (if fs = [] then None else if fr_kind (last fs) = ObjectFrame then Some (fr_keys (last fs)) else None)"

definition parser_inv :: "JsonPreflightLimits \<Rightarrow> bytes \<Rightarrow> Parser \<Rightarrow> bool" where
  "parser_inv L payload p =
     (\<exists>pre. payload = pre @ pr_rest p \<and> pr_tokens p \<le> max_tokens L
        \<and> (if pr_complete p
           then \<exists>w v k ms. pre = w @ v \<and> ws w \<and> json_root L k ms (pr_tokens p) v \<and> pr_id_valid p = id_ok ms
                  \<and> pr_root_keys p = (if k = VObject then Some (map fst ms) else None)
           else pr_root_keys p = root_keys_of (pr_frames p)
                \<and> (if pr_frames p = [] then ws pre \<and> pr_tokens p = 0 \<and> \<not> pr_id_valid p
                   else \<exists>rm. top_stack L (pr_frames p) rm (pr_tokens p) pre \<and> pr_id_valid p = id_ok rm)))"

lemma parser_inv_complete:
  "payload = w @ v @ pr_rest p \<Longrightarrow> ws w \<Longrightarrow> pr_complete p \<Longrightarrow> pr_tokens p \<le> max_tokens L \<Longrightarrow>
   json_root L k ms (pr_tokens p) v \<Longrightarrow> pr_id_valid p = id_ok ms \<Longrightarrow>
   pr_root_keys p = (if k = VObject then Some (map fst ms) else None) \<Longrightarrow> parser_inv L payload p"
  unfolding parser_inv_def by (intro exI [of _ "w @ v"]) auto

lemma parser_inv_open:
  "payload = pre @ pr_rest p \<Longrightarrow> \<not> pr_complete p \<Longrightarrow> pr_frames p \<noteq> [] \<Longrightarrow> pr_tokens p \<le> max_tokens L \<Longrightarrow>
   pr_root_keys p = root_keys_of (pr_frames p) \<Longrightarrow> top_stack L (pr_frames p) rm (pr_tokens p) pre \<Longrightarrow>
   pr_id_valid p = id_ok rm \<Longrightarrow> parser_inv L payload p"
  unfolding parser_inv_def by (intro exI [of _ pre]) auto

lemma top_frame_keys:
  "top_frame L d f ms n q \<Longrightarrow> fr_kind f = ObjectFrame \<Longrightarrow> fr_state f \<noteq> ObjectValue \<Longrightarrow> fr_keys f = map fst ms"
  by (erule top_frame.cases) auto

text \<open>A container ends: its frame is popped, and its bytes are a value of the frame outside it.\<close>

lemma finish_container_inv:
  assumes "top_stack L (f # fs) rm (pr_tokens p) pre" "payload = pre @ c # r"
    and "\<And>d ms n q. top_frame L d f ms n q \<Longrightarrow> closed_value L d (fr_kind f) ms n (q @ [c])"
    and "fr_state f \<noteq> ObjectValue" "pr_tokens p \<le> max_tokens L" "pr_frames p = f # fs" "\<not> pr_complete p"
    and "pr_id_valid p = id_ok rm" "pr_root_keys p = root_keys_of (f # fs)"
  shows "parser_inv L payload (finish_container (p\<lparr>pr_rest := r\<rparr>))"
proof -
  from assms(1) obtain u q a b rm' ms where d: "pre = u @ q" "pr_tokens p = a + b" "length fs < max_depth L"
    "pending_stack L fs (value_of_frame (fr_kind f)) rm' a u"
    "top_frame L (max_depth L - length fs - 1) f ms b q" "rm = (if fs = [] then ms else rm')"
    by (elim top_stackE)
  have cv: "closed_value L (max_depth L - length fs - 1) (fr_kind f) ms b (q @ [c])" using assms(3) d(5) .
  show ?thesis
  proof (cases fs)
    case Nil
    have "json_root L (value_of_frame (fr_kind f)) ms b (q @ [c])"
      using cv d(3) Nil
      by (cases "fr_kind f") (auto simp: json_root_def closed_value_def value_of_frame_def intro: exI [of _ "max_depth L - 1"])
    moreover have "pr_root_keys p = (if value_of_frame (fr_kind f) = VObject then Some (map fst ms) else None)"
      using assms(9) top_frame_keys [OF d(5)] assms(4) Nil
      by (cases "fr_kind f") (simp_all add: root_keys_of_def value_of_frame_def)
    ultimately show ?thesis
      using d Nil assms(2,5,6,8)
      by (intro parser_inv_complete [of payload u "q @ [c]" _ L "value_of_frame (fr_kind f)" ms])
        (auto simp: finish_container_def)
  next
    case (Cons g gs)
    have "Suc (max_depth L - length fs - 1) = max_depth L - length (g # gs)" using d(3) Cons by simp
    then have "jval L (max_depth L - length (g # gs)) (value_of_frame (fr_kind f)) b (q @ [c])"
      using closed_value_jval [OF cv] by simp
    from pending_stack_value [OF d(4) [unfolded Cons] this] show ?thesis
      using Cons d assms(2,5-9)
      by (intro parser_inv_open [of payload "pre @ [c]" _ L rm'])
        (auto simp: finish_container_def root_keys_of_def)
  qed
qed

text \<open>A value begins below a stack whose innermost frame awaits it, whatever its kind.\<close>

lemma begin_value_inv:
  assumes "begin_value L p = Some (k, p')" "payload = pre @ pr_rest p" "\<not> pr_complete p"
    and "\<And>k. pending_stack L (pr_frames p) k (rm k) (pr_tokens p) pre"
    and "pr_root_keys p = root_keys_of (pr_frames p)"
  shows "parser_inv L payload (p'\<lparr>pr_id_valid := id_ok (rm k)\<rparr>)"
  using assms(1)
proof (cases rule: begin_value_cases)
  case (container fk r)
  let ?f = "new_frame fk (if fk = ArrayFrame then ArrayValueOrEnd else ObjectKeyOrEnd)"
  let ?c = "if fk = ArrayFrame then 91 else 123 :: nat"
  have tf: "top_frame L (max_depth L - length (pr_frames p) - 1) ?f [] 1 [?c]"
    using top_frame_new by (cases fk) simp_all
  have rm0: "rm k = []" if "pr_frames p = []" using assms(4) [of k] that by simp
  have "top_stack L (?f # pr_frames p) (rm k) (pr_tokens p + 1) (pre @ [?c])"
    by (rule top_stackI [OF container(2) _ tf, of "rm k" "pr_tokens p" pre])
      (use assms(4) [of k] container(1) rm0 in \<open>auto simp: new_frame_def\<close>)
  moreover have "fr_kind ?f = fk" "fr_keys ?f = []" by (simp_all add: new_frame_def)
  ultimately show ?thesis
    using container assms(2,3,5)
    by (intro parser_inv_open [of payload "pre @ [?c]" _ L "rm k"]) (auto simp: root_keys_of_def)
next
  case (scalar v r)
  show ?thesis
  proof (cases "pr_frames p")
    case Nil
    then have "rm k = []" "pr_tokens p = 0" "ws pre" using assms(4) [of k] by simp_all
    moreover have "json_root L k [] 1 v" using scalar(3,4) by (simp add: json_root_def)
    ultimately show ?thesis using scalar Nil assms(2,5)
      by (intro parser_inv_complete [of payload pre v _ L k "[]"])
        (auto simp: finish_scalar_def root_keys_of_def)
  next
    case (Cons f fs)
    have "top_stack L (f # fs) (rm k) (pr_tokens p + 1) (pre @ v)"
      using pending_stack_value [of L f fs k "rm k" "pr_tokens p" pre 1 v] assms(4) [of k] scalar(3) Cons by simp
    with Cons scalar assms(2,3,5) show ?thesis
      by (intro parser_inv_open [of payload "pre @ v" _ L "rm k"]) (auto simp: finish_scalar_def)
  qed
qed

lemma begin_value_id: "begin_value L p = Some (k, p') \<Longrightarrow> pr_id_valid p' = pr_id_valid p"
  by (erule begin_value_cases) (auto simp: finish_scalar_def)

lemma id_update_same: "pr_id_valid p = b \<Longrightarrow> p\<lparr>pr_id_valid := b\<rparr> = p"
  by (cases p) simp

lemma id_ok_Cons:
  "key \<notin> set (map fst ms) \<Longrightarrow>
   id_ok ((key, k) # ms) = (if key = codes ''id'' then k = VInteger \<or> k = VString else id_ok ms)"
  by (force simp: id_ok_def simp del: codes_simps)

lemma root_keys_of_cong:
  "fr_kind f' = fr_kind f \<Longrightarrow> fr_keys f' = fr_keys f \<Longrightarrow> root_keys_of (f' # fs) = root_keys_of (f # fs)"
  by (simp add: root_keys_of_def)

lemma top_stack_move:
  assumes "top_stack L (f # fs) rm n pre" "fr_kind f' = fr_kind f"
    and "\<And>d ms m q. top_frame L d f ms m q \<Longrightarrow> top_frame L d f' ms m (q @ x)"
  shows "top_stack L (f' # fs) rm n (pre @ x)"
proof -
  from assms(1) obtain p q a b rm' ms where d: "pre = p @ q" "n = a + b" "length fs < max_depth L"
    "pending_stack L fs (value_of_frame (fr_kind f)) rm' a p"
    "top_frame L (max_depth L - length fs - 1) f ms b q" "rm = (if fs = [] then ms else rm')"
    by (elim top_stackE)
  from assms(3) [OF d(5)] show ?thesis
    using d assms(2) by (intro top_stackI [of fs L f' rm' a p ms b "q @ x"]) simp_all
qed

text \<open>The situation of one turn: the frames, the bytes read, and the state of the results.\<close>

definition turn :: "JsonPreflightLimits \<Rightarrow> bytes \<Rightarrow> Frame \<Rightarrow> Frame list \<Rightarrow> (pystr \<times> value_kind) list \<Rightarrow> bytes \<Rightarrow> Parser \<Rightarrow> bool" where
  "turn L payload f fs rm pre p =
     (pr_frames p = f # fs \<and> payload = pre @ pr_rest p \<and> pr_tokens p \<le> max_tokens L \<and> \<not> pr_complete p
      \<and> pr_root_keys p = root_keys_of (f # fs) \<and> top_stack L (f # fs) rm (pr_tokens p) pre
      \<and> pr_id_valid p = id_ok rm)"

lemma turn_close:
  assumes "turn L payload f fs rm pre p" "pr_rest p = c # r" "fr_state f \<noteq> ObjectValue"
    and "\<And>d ms n q. top_frame L d f ms n q \<Longrightarrow> closed_value L d (fr_kind f) ms n (q @ [c])"
  shows "parser_inv L payload (finish_container (p\<lparr>pr_rest := r\<rparr>))"
  using assms by (intro finish_container_inv [of L f fs rm p pre payload c r]) (simp_all add: turn_def)

lemma turn_move:
  assumes "turn L payload f fs rm pre p" "pr_rest p = x @ r" "fr_kind f' = fr_kind f" "fr_keys f' = fr_keys f"
    and "\<And>d ms n q. top_frame L d f ms n q \<Longrightarrow> top_frame L d f' ms n (q @ x)"
  shows "parser_inv L payload (set_top f' (p\<lparr>pr_rest := r\<rparr>))"
  using assms top_stack_move [of L f fs rm "pr_tokens p" pre f' x] root_keys_of_cong [of f' f fs]
  by (intro parser_inv_open [of payload "pre @ x" _ L rm]) (simp_all add: turn_def set_top_def)

lemma array_value_inv:
  assumes t: "turn L payload f fs rm pre p" and s: "fr_state f = ArrayValueOrEnd"
    and r: "consume_array_value L f p = Some p'"
  shows "parser_inv L payload p'"
proof (cases "\<exists>r. (if fr_allow_end f then consume_byte 93 (pr_rest p) else None) = Some r")
  case True
  then obtain r1 where a: "fr_allow_end f" "pr_rest p = 93 # r1" by (auto simp: consume_byte_Some split: if_splits)
  with r have "p' = finish_container (p\<lparr>pr_rest := r1\<rparr>)" by (simp add: consume_array_value_def)
  with turn_close [OF t a(2)] s close_array_start [OF _ s a(1)] show ?thesis by simp
next
  case False
  let ?f = "f\<lparr>fr_members := fr_members f + 1, fr_state := ArrayAfterValue\<rparr>"
  from False r obtain k where m: "fr_members f + 1 \<le> max_array_items L"
    and b: "begin_value L (set_top ?f p) = Some (k, p')"
    by (auto simp: consume_array_value_def split: if_splits)
  from t obtain u q a b' rm' ms where d: "pre = u @ q" "pr_tokens p = a + b'" "length fs < max_depth L"
    "pending_stack L fs (value_of_frame (fr_kind f)) rm' a u"
    "top_frame L (max_depth L - length fs - 1) f ms b' q" "rm = (if fs = [] then ms else rm')"
    by (auto simp: turn_def elim: top_stackE)
  have pend: "pending_stack L (?f # fs) k rm (pr_tokens p) pre" for k
    using array_item_pending [OF d(5) s m, of k] d by (intro pending_stackI [of fs L ?f rm' a u k "[]" b' q]) simp_all
  have "parser_inv L payload (p'\<lparr>pr_id_valid := id_ok rm\<rparr>)"
    using begin_value_inv [OF b, of payload pre "\<lambda>_. rm"] pend t
    by (simp add: turn_def set_top_def root_keys_of_def)
  moreover have "pr_id_valid p' = id_ok rm" using begin_value_id [OF b] t by (simp add: turn_def set_top_def)
  ultimately show ?thesis by (simp add: id_update_same)
qed

lemma object_value_inv:
  assumes t: "turn L payload f fs rm pre p" and s: "fr_state f = ObjectValue"
    and r: "consume_object_value L f p = Some p'"
  shows "parser_inv L payload p'"
proof -
  let ?f = "f\<lparr>fr_members := fr_members f + 1, fr_state := ObjectAfterValue\<rparr>"
  from r obtain k p1 where m: "fr_members f + 1 \<le> max_object_members L"
    and b: "begin_value L (set_top ?f p) = Some (k, p1)"
    and p': "p' = (if is_root_request_id_value (f\<lparr>fr_members := fr_members f + 1\<rparr>) p
                   then p1\<lparr>pr_id_valid := (k = VInteger \<or> k = VString)\<rparr> else p1)"
    by (auto simp: consume_object_value_def Let_def split: if_splits option.splits)
  from t obtain u q a b' rm' ms where d: "pre = u @ q" "pr_tokens p = a + b'" "length fs < max_depth L"
    "pending_stack L fs (value_of_frame (fr_kind f)) rm' a u"
    "top_frame L (max_depth L - length fs - 1) f ms b' q" "rm = (if fs = [] then ms else rm')"
    by (auto simp: turn_def elim: top_stackE)
  obtain key where key: "fr_current_key f = Some key" "key \<notin> set (map fst ms)" "fr_kind f = ObjectFrame"
    and pf: "\<And>k. pending_frame L (max_depth L - length fs - 1) ?f k ((key, k) # ms) b' q"
    using object_value_pending [OF d(5) s m] by metis
  define rk where "rk k = (if fs = [] then (key, k) # ms else rm')" for k
  have pend: "pending_stack L (?f # fs) k (rk k) (pr_tokens p) pre" for k
    using pf [of k] d by (intro pending_stackI [of fs L ?f rm' a u k "(key, k) # ms" b' q]) (simp_all add: rk_def)
  have inv: "parser_inv L payload (p1\<lparr>pr_id_valid := id_ok (rk k)\<rparr>)"
    using begin_value_inv [OF b, of payload pre rk] pend t
    by (simp add: turn_def set_top_def root_keys_of_def)
  have "pr_id_valid p1 = id_ok rm" using begin_value_id [OF b] t by (simp add: turn_def set_top_def)
  then have "p' = p1\<lparr>pr_id_valid := id_ok (rk k)\<rparr>"
    using p' key(1,3) d(6) t id_ok_Cons [OF key(2), of k]
    by (auto simp: is_root_request_id_value_def turn_def rk_def id_update_same simp del: codes_simps)
  with inv show ?thesis by simp
qed

lemma object_key_inv:
  assumes t: "turn L payload f fs rm pre p" and s: "fr_state f = ObjectKeyOrEnd"
    and r: "consume_object_key L f p = Some p'"
  shows "parser_inv L payload p'"
proof (cases "\<exists>r. (if fr_allow_end f then consume_byte 125 (pr_rest p) else None) = Some r")
  case True
  then obtain r1 where a: "fr_allow_end f" "pr_rest p = 125 # r1" by (auto simp: consume_byte_Some split: if_splits)
  with r have "p' = finish_container (p\<lparr>pr_rest := r1\<rparr>)" by (simp add: consume_object_key_def)
  with turn_close [OF t a(2)] s close_object_start [OF _ s a(1)] show ?thesis by simp
next
  case False
  with r obtain key r1 r2 where k: "consume_string (max_key_bytes L) True (pr_rest p) = Some (Some key, r1)"
    and n: "key \<notin> set (fr_keys f)" and c: "skip_whitespace r1 = 58 # r2"
    and p': "p' = (let p1 = add_key key f (p\<lparr>pr_rest := r1\<rparr>)
                   in set_top ((hd (pr_frames p1))\<lparr>fr_state := ObjectValue\<rparr>) (p1\<lparr>pr_rest := r2\<rparr>))"
    by (auto simp: consume_object_key_def consume_byte_Some Let_def split: option.splits if_splits)
  from k obtain bs ds where bs: "pr_rest p = bs @ r1" "jstring (max_key_bytes L) bs ds" "utf8_decode ds = Some key"
    by (elim consume_string_splits) auto
  obtain w where w: "r1 = w @ 58 # r2" "ws w" using skip_whitespace_splits [of r1] c by auto
  let ?x = "bs @ w @ [58]"
  let ?f = "f\<lparr>fr_keys := key # fr_keys f, fr_current_key := Some key, fr_state := ObjectValue\<rparr>"
  have st: "jmember_start L key ?x" using bs w by (intro start_eq [of L bs ds key w "[]"]) simp_all
  have "top_stack L (?f # fs) rm (pr_tokens p) (pre @ ?x)"
    using t st n s by (intro top_stack_move [of L f]) (auto simp: turn_def intro: object_key_read)
  moreover have fp: "pr_frames p' = ?f # fs" "pr_rest p' = r2" "pr_tokens p' = pr_tokens p"
    "pr_complete p' = pr_complete p" "pr_id_valid p' = pr_id_valid p"
    "pr_root_keys p' = (if fs = [] then Some (key # fr_keys f) else pr_root_keys p)"
    using t p' by (auto simp: add_key_def set_top_def turn_def Let_def)
  moreover have "fr_kind f = ObjectFrame"
    using t s by (auto simp: turn_def elim!: top_stackE elim: top_frame.cases)
  moreover then have "pr_root_keys p' = root_keys_of (?f # fs)"
    using t fp(6) by (auto simp: turn_def root_keys_of_def)
  ultimately show ?thesis
    using t bs w by (intro parser_inv_open [of payload "pre @ ?x" _ L rm]) (simp_all add: turn_def)
qed

lemma parser_step_inv:
  assumes "parser_inv L payload p" "\<not> pr_complete p" "parser_step L p = Some p'"
  shows "parser_inv L payload p'"
proof -
  from assms(1,2) obtain pre where pre: "payload = pre @ pr_rest p" "pr_tokens p \<le> max_tokens L"
    "pr_root_keys p = root_keys_of (pr_frames p)"
    and fr: "if pr_frames p = [] then ws pre \<and> pr_tokens p = 0 \<and> \<not> pr_id_valid p
             else \<exists>rm. top_stack L (pr_frames p) rm (pr_tokens p) pre \<and> pr_id_valid p = id_ok rm"
    by (auto simp: parser_inv_def)
  let ?q = "p\<lparr>pr_rest := skip_whitespace (pr_rest p)\<rparr>"
  obtain w where w: "pr_rest p = w @ skip_whitespace (pr_rest p)" "ws w"
    using skip_whitespace_splits [of "pr_rest p"] by blast
  have payload: "payload = (pre @ w) @ skip_whitespace (pr_rest p)" using pre(1) w(1) by simp
  show ?thesis
  proof (cases "pr_frames p")
    case Nil
    with assms(3) obtain k where b: "begin_value L ?q = Some (k, p')" by (auto simp: parser_step_def)
    have "parser_inv L payload (p'\<lparr>pr_id_valid := id_ok []\<rparr>)"
      using begin_value_inv [OF b, of payload "pre @ w" "\<lambda>_. []"] payload Nil fr pre w assms(2) by simp
    moreover have "pr_id_valid p' = id_ok []" using begin_value_id [OF b] Nil fr by (simp add: id_ok_def)
    ultimately show ?thesis by (simp add: id_update_same)
  next
    case (Cons f fs)
    with fr obtain rm where rm: "top_stack L (f # fs) rm (pr_tokens p) pre" "pr_id_valid p = id_ok rm" by auto
    have t: "turn L payload f fs rm (pre @ w) ?q"
      using payload Cons pre assms(2) top_stack_ws [OF rm(1) w(2)] rm(2) by (simp add: turn_def)
    show ?thesis
    proof (cases "fr_state f")
      case ArrayValueOrEnd
      with assms(3) Cons t show ?thesis by (auto simp: parser_step_def Let_def intro: array_value_inv)
    next
      case ArrayAfterValue
      with assms(3) Cons show ?thesis
        using turn_move [OF t, of "[44]" _ "f\<lparr>fr_state := ArrayValueOrEnd, fr_allow_end := False\<rparr>"] array_comma
          turn_close [OF t, of 93] close_array_after
        by (auto simp: parser_step_def Let_def consume_array_separator_def consume_byte_Some split: option.splits)
    next
      case ObjectKeyOrEnd
      with assms(3) Cons t show ?thesis by (auto simp: parser_step_def Let_def intro: object_key_inv)
    next
      case ObjectValue
      with assms(3) Cons t show ?thesis by (auto simp: parser_step_def Let_def intro: object_value_inv)
    next
      case ObjectAfterValue
      with assms(3) Cons show ?thesis
        using turn_move [OF t, of "[44]" _ "f\<lparr>fr_current_key := None, fr_state := ObjectKeyOrEnd, fr_allow_end := False\<rparr>"]
          object_comma turn_close [OF t, of 125] close_object_after
        by (auto simp: parser_step_def Let_def consume_object_separator_def consume_byte_Some split: option.splits)
    qed
  qed
qed

lemma validate_loop_inv:
  "validate_loop L p = Some p' \<Longrightarrow> parser_inv L payload p \<Longrightarrow> parser_inv L payload p' \<and> pr_complete p'"
proof (induction L p rule: validate_loop.induct)
  case (1 L p)
  show ?case
  proof (cases "pr_complete p")
    case True
    with 1 show ?thesis by (simp add: validate_loop.simps)
  next
    case False
    with 1(2) obtain q where q: "parser_step L p = Some q" "validate_loop L q = Some p'"
      by (subst (asm) validate_loop.simps) (auto split: option.splits)
    with 1 False parser_step_inv [OF 1(3) False q(1)] show ?thesis by blast
  qed
qed

lemma validate_sound:
  assumes "validate L payload = Some p"
  obtains k ms where "json_text L k ms payload" "pr_id_valid p = id_ok ms"
    "pr_root_keys p = (if k = VObject then Some (map fst ms) else None)" "length payload \<le> max_body_bytes L"
proof -
  from assms have l: "validate_loop L (parser_init payload) = Some p" "skip_whitespace (pr_rest p) = []"
    "length payload \<le> max_body_bytes L"
    by (auto simp: validate_def split: option.splits if_splits)
  have "parser_inv L payload (parser_init payload)"
    by (simp add: parser_inv_def parser_init_def root_keys_of_def)
  from validate_loop_inv [OF l(1) this] obtain w v k ms where
    "payload = (w @ v) @ pr_rest p" "ws w" "json_root L k ms (pr_tokens p) v" "pr_tokens p \<le> max_tokens L"
    "pr_id_valid p = id_ok ms" "pr_root_keys p = (if k = VObject then Some (map fst ms) else None)"
    by (auto simp: parser_inv_def)
  moreover have "ws (pr_rest p)" using skip_whitespace_splits [of "pr_rest p"] l(2) by auto
  ultimately show thesis using l(3) by (intro that [of k ms]) (auto simp: json_text_def)
qed

section \<open>Properties\<close>

abbreviation selected_limits :: "JsonPreflightLimits option \<Rightarrow> JsonPreflightLimits" where
  "selected_limits limits \<equiv> (case limits of None \<Rightarrow> DEFAULT_LIMITS | Some L \<Rightarrow> L)"


text \<open>The body of the witnesses, \<^verbatim>\<open>{"id": [1, "a"], "b":2}\<close>.\<close>

definition example_body :: bytes where
  "example_body = codes [CHR ''{'', CHR 0x22, CHR ''i'', CHR ''d'', CHR 0x22, CHR '':'', CHR '' '',
     CHR ''['', CHR ''1'', CHR '','', CHR '' '', CHR 0x22, CHR ''a'', CHR 0x22, CHR '']'', CHR '','',
     CHR 0x22, CHR ''b'', CHR 0x22, CHR '':'', CHR ''2'', CHR ''}'']"

lemma example_body_accepted: "preflight_json example_body None = Some ()"
  by code_simp


text \<open>
  The answers about the root are exact: for an accepted body, the member test says
  whether the root is an object with that decoded key, and the request-id test says whether
  the root's \<^verbatim>\<open>id\<close> member has an integer or a string as its value, however deep the other
  values are and however the key was escaped.
\<close>

theorem preflight_root_answers_exact:
  assumes "preflight_json payload limits = Some u"
  shows "\<exists>k ms. json_text (selected_limits limits) k ms payload
     \<and> preflight_json_has_valid_root_request_id payload limits = Some (id_ok ms)
     \<and> preflight_json_has_root_object_member payload m limits = Some (k = VObject \<and> m \<in> set (map fst ms))"
proof -
  from assms obtain p where p: "validate (selected_limits limits) payload = Some p"
    by (auto simp: preflight_json_def)
  then obtain k ms where "json_text (selected_limits limits) k ms payload" "pr_id_valid p = id_ok ms"
    "pr_root_keys p = (if k = VObject then Some (map fst ms) else None)"
    by (elim validate_sound)
  with p show ?thesis
    by (intro exI [of _ k] exI [of _ ms])
      (simp add: preflight_json_has_valid_root_request_id_def preflight_json_has_root_object_member_def)
qed

end
