(* ===== verification/Nplg_Clock.thy ===== *)
theory Nplg_Clock
  imports Nplg_Errors
begin

text \<open>
  The trustworthy retention clock of \<^verbatim>\<open>src/nplg_mcp/storage_lifecycle.py\<close>: clock samples, the
  boot identity, the persisted high-water record and the transitions of
  \<open>ClockHighWater.observe\<close>. An instant of UTC time is its number of microseconds. The state file
  is what \<open>_read\<close> distinguishes: absent, unsafe, readable but invalid, or a valid record; the
  outcomes of the quarantine and of the atomic write are arguments. The lemmas show that age
  deletion is allowed only after an unbroken healthy stretch as long as the window.
\<close>

section \<open>Clock samples and the boot identity\<close>

definition is_alnum :: "nat \<Rightarrow> bool" where
  "is_alnum c = (48 \<le> c \<and> c \<le> 57 \<or> 65 \<le> c \<and> c \<le> 90 \<or> 97 \<le> c \<and> c \<le> 122)"

definition boot_id_char :: "nat \<Rightarrow> bool" where
  "boot_id_char c = (is_alnum c \<or> c = 46 \<or> c = 95 \<or> c = 45)"

definition boot_id_matches :: "pystr \<Rightarrow> bool" where
  "boot_id_matches s =
     (case s of [] \<Rightarrow> False | c # cs \<Rightarrow> is_alnum c \<and> length cs \<le> 127 \<and> list_all boot_id_char cs)"

definition MAX_BOOT_ID_BYTES :: nat where "MAX_BOOT_ID_BYTES = 128"

text \<open>
  \<open>_read_boot_identity\<close> from what it observes: whether the named and the opened file are the
  same regular single-link file, and the at most 130 bytes read from it.
\<close>

definition read_boot_identity :: "bool \<Rightarrow> bytes \<Rightarrow> pystr res" where
  "read_boot_identity same_regular_file content =
     (let bad = Inl (ValueError ''retention boot identity is unavailable or unsafe'');
          read = take (MAX_BOOT_ID_BYTES + 2) content;
          raw = (if read \<noteq> [] \<and> last read = 10 then butlast read else read)
      in if \<not> same_regular_file then bad
         else if raw = [] \<or> MAX_BOOT_ID_BYTES < length raw then bad
         else if \<not> list_all (\<lambda>b. b < 128) raw then bad
         else if \<not> boot_id_matches raw then bad
         else Inr raw)"

text \<open>An aware datetime: its instant in microseconds and its UTC offset in seconds, \<open>None\<close> when naive.\<close>

record datetime =
  dt_micros :: int
  dt_offset :: "int option"

record RetentionClockSample =
  utc_now :: int
  monotonic_now :: pyfloat
  boot_id :: pystr
  synchronized :: bool

definition clock_sample_new :: "datetime \<Rightarrow> pyobj \<Rightarrow> pyobj \<Rightarrow> pyobj \<Rightarrow> RetentionClockSample res" where
  "clock_sample_new utc mt boot synced =
     (case dt_offset utc of
        None \<Rightarrow> Inl (ValueError ''Input should have timezone info'')
      | Some off \<Rightarrow>
          if off \<noteq> 0 then Inl (ValueError ''retention clock must use the UTC timezone'')
          else (case (mt, boot, synced) of
                  (PFloat m, PStr b, PBool s) \<Rightarrow>
                    (if \<not> isfinite m \<or> flt m (Fin 0) then Inl (ValueError ''monotonic_now'')
                     else if \<not> boot_id_matches b then Inl (ValueError ''boot_id'')
                     else Inr \<lparr>utc_now = dt_micros utc, monotonic_now = m, boot_id = b, synchronized = s\<rparr>)
                | (PFloat _, _, _) \<Rightarrow> Inl (ValueError ''clock sample field type'')
                | _ \<Rightarrow> Inl (ValueError ''monotonic clock must be an exact float'')))"

definition sample_ok :: "RetentionClockSample \<Rightarrow> bool" where
  "sample_ok s = (\<exists>m. monotonic_now s = Fin m \<and> 0 \<le> m)"

lemma clock_sample_new_ok: "clock_sample_new u m b sy = Inr s \<Longrightarrow> sample_ok s"
  by (auto simp: clock_sample_new_def sample_ok_def isfinite_iff split: option.splits if_splits pyobj.splits)

section \<open>Assessments and the persisted record\<close>

datatype ClockBlocker =
    MISSING_STATE | CORRUPT_STATE | UNSYNCHRONIZED | BOOT_CHANGED | MONOTONIC_ROLLBACK
  | WALL_ROLLBACK | FORWARD_STEP | WARMING_UP

record ClockAssessment =
  trusted :: bool
  age_deletion_allowed :: bool
  blocker :: "ClockBlocker option"

definition assessment_new :: "bool \<Rightarrow> bool \<Rightarrow> ClockBlocker option \<Rightarrow> ClockAssessment res" where
  "assessment_new t a b =
     (if t \<noteq> a then Inl (ValueError ''trusted clock and age-deletion decision must agree'')
      else if t = (b \<noteq> None) then Inl (ValueError ''trusted clock must have no blocker'')
      else Inr \<lparr>trusted = t, age_deletion_allowed = a, blocker = b\<rparr>)"

definition assessment :: "bool \<Rightarrow> ClockBlocker option \<Rightarrow> ClockAssessment res" where
  "assessment t b = assessment_new t t b"

record ClockHighWaterRecord =
  cr_boot_id :: pystr
  utc_high_water :: int
  last_observed_utc :: int
  last_monotonic :: pyfloat
  healthy_since_monotonic :: "pyfloat option"
  cr_trusted :: bool

text \<open>The consistency validator of the record; its digest is recomputed by the constructor.\<close>

definition clock_record :: "ClockHighWaterRecord \<Rightarrow> ClockHighWaterRecord res" where
  "clock_record r =
     (if (case healthy_since_monotonic r of None \<Rightarrow> False | Some h \<Rightarrow> flt (last_monotonic r) h)
      then Inl (ValueError ''clock state healthy window starts after its latest sample'')
      else if cr_trusted r \<and> healthy_since_monotonic r = None
      then Inl (ValueError ''trusted clock state requires a healthy-window origin'')
      else Inr r)"

datatype clock_file = NoState | UnsafeState | InvalidState bytes | StoredState ClockHighWaterRecord

datatype write_outcome = WriteDone | WriteFailsBefore | WriteFailsAfter

record clock_io =
  quarantine_done :: bool
  write_result :: write_outcome

record ClockHighWater =
  healthy_window_seconds :: pyfloat
  maximum_forward_slew_seconds :: pyfloat
  transition_active :: bool
  state_file :: clock_file

definition clock_high_water_init :: "clock_file \<Rightarrow> pyobj \<Rightarrow> pyobj \<Rightarrow> ClockHighWater res" where
  "clock_high_water_init file window slew =
     (case window of
        PInt w \<Rightarrow>
          (if \<not> (0 \<le> w \<and> w \<le> 3600)
           then Inl (ValueError ''healthy_window_seconds must be an integer from 0 through 3600'')
           else case slew of
             PInt s \<Rightarrow>
               (if \<not> (0 \<le> s \<and> s \<le> 60)
                then Inl (ValueError ''maximum_forward_slew_seconds must be an integer from 0 through 60'')
                else Inr \<lparr>healthy_window_seconds = Fin (of_int w), maximum_forward_slew_seconds = Fin (of_int s),
                          transition_active = False, state_file = file\<rparr>)
           | _ \<Rightarrow> Inl (ValueError ''maximum_forward_slew_seconds must be an integer from 0 through 60''))
      | _ \<Rightarrow> Inl (ValueError ''healthy_window_seconds must be an integer from 0 through 3600''))"

text \<open>
  \<open>_write\<close> replaces the state file atomically by rename. It can fail before the rename, with the
  old file in place, or after it (a changed identity, a failed directory sync), with the new
  one. \<open>require_absent\<close> additionally refuses any file that is there.
\<close>

definition write_state ::
  "clock_io \<Rightarrow> bool \<Rightarrow> ClockHighWaterRecord \<Rightarrow> (pyexc, ClockHighWater, unit) op" where
  "write_state io require_absent r c =
     (case clock_record r of
        Inl e \<Rightarrow> (Inl e, c)
      | Inr r \<Rightarrow>
          if require_absent \<and> state_file c \<noteq> NoState
          then (Inl (ValueError ''clock state path changed before exclusive creation''), c)
          else case write_result io of
            WriteFailsBefore \<Rightarrow> (Inl (OSError ''clock state write''), c)
          | WriteFailsAfter \<Rightarrow>
              (Inl (ValueError ''clock state publication identity changed''), c\<lparr>state_file := StoredState r\<rparr>)
          | WriteDone \<Rightarrow> (Inr (), c\<lparr>state_file := StoredState r\<rparr>))"

definition write_then_assess ::
  "clock_io \<Rightarrow> bool \<Rightarrow> ClockHighWaterRecord \<Rightarrow> bool \<Rightarrow> ClockBlocker option \<Rightarrow>
   (pyexc, ClockHighWater, ClockAssessment) op" where
  "write_then_assess io require_absent r t b c =
     (case write_state io require_absent r c of
        (Inl e, c') \<Rightarrow> (Inl e, c')
      | (Inr _, c') \<Rightarrow> (assessment t b, c'))"

definition baseline_record :: "RetentionClockSample \<Rightarrow> ClockHighWaterRecord" where
  "baseline_record s =
     \<lparr>cr_boot_id = boot_id s, utc_high_water = utc_now s, last_observed_utc = utc_now s,
      last_monotonic = monotonic_now s,
      healthy_since_monotonic = (if synchronized s then Some (monotonic_now s) else None),
      cr_trusted = False\<rparr>"

definition baseline ::
  "clock_io \<Rightarrow> RetentionClockSample \<Rightarrow> ClockBlocker \<Rightarrow> bool \<Rightarrow> (pyexc, ClockHighWater, ClockAssessment) op" where
  "baseline io s b require_absent = write_then_assess io require_absent (baseline_record s) False (Some b)"

definition observe_absent_state ::
  "clock_io \<Rightarrow> RetentionClockSample \<Rightarrow> ClockBlocker option \<Rightarrow> bytes option \<Rightarrow>
   (pyexc, ClockHighWater, ClockAssessment) op" where
  "observe_absent_state io s b recoverable c =
     (if b \<noteq> Some CORRUPT_STATE
      then baseline io s (case b of None \<Rightarrow> CORRUPT_STATE | Some x \<Rightarrow> x) True c
      else if recoverable \<noteq> None \<and> quarantine_done io
      then baseline io s CORRUPT_STATE True (c\<lparr>state_file := NoState\<rparr>)
      else (assessment False (Some CORRUPT_STATE), c))"

definition read_state ::
  "clock_file \<Rightarrow> ClockHighWaterRecord option \<times> ClockBlocker option \<times> bytes option" where
  "read_state f =
     (case f of
        NoState \<Rightarrow> (None, Some MISSING_STATE, None)
      | UnsafeState \<Rightarrow> (None, Some CORRUPT_STATE, None)
      | InvalidState raw \<Rightarrow> (None, Some CORRUPT_STATE, Some raw)
      | StoredState r \<Rightarrow> (Some r, None, None))"

definition wall_delta :: "int \<Rightarrow> int \<Rightarrow> pyfloat" where
  "wall_delta now before = fl_round (of_int (now - before) / 1000000)"

definition step_blocker :: "pyfloat \<Rightarrow> pyfloat \<Rightarrow> int \<Rightarrow> RetentionClockSample \<Rightarrow> ClockBlocker option" where
  "step_blocker slew last_mono last_utc s =
     (let md = fsub (monotonic_now s) last_mono; wd = wall_delta (utc_now s) last_utc
      in if flt wd (Fin 0) then Some WALL_ROLLBACK
         else if flt (fadd md slew) wd then Some FORWARD_STEP else None)"

definition anomaly_record :: "RetentionClockSample \<Rightarrow> pyfloat \<Rightarrow> ClockHighWaterRecord \<Rightarrow> ClockHighWaterRecord" where
  "anomaly_record s mt r =
     \<lparr>cr_boot_id = cr_boot_id r, utc_high_water = max (utc_high_water r) (utc_now s),
      last_observed_utc = utc_now s, last_monotonic = mt, healthy_since_monotonic = None,
      cr_trusted = False\<rparr>"

definition observe_locked ::
  "clock_io \<Rightarrow> RetentionClockSample \<Rightarrow> (pyexc, ClockHighWater, ClockAssessment) op" where
  "observe_locked io s c =
     (case read_state (state_file c) of
        (None, b, recoverable) \<Rightarrow> observe_absent_state io s b recoverable c
      | (Some r, _, _) \<Rightarrow>
          if \<not> synchronized s
          then write_then_assess io False (anomaly_record s (fmax (last_monotonic r) (monotonic_now s)) r)
                 False (Some UNSYNCHRONIZED) c
          else if boot_id s \<noteq> cr_boot_id r then baseline io s BOOT_CHANGED False c
          else if flt (monotonic_now s) (last_monotonic r)
          then write_then_assess io False (anomaly_record s (monotonic_now s) r) False (Some MONOTONIC_ROLLBACK) c
          else case step_blocker (maximum_forward_slew_seconds c) (last_monotonic r) (last_observed_utc r) s of
            Some b \<Rightarrow> write_then_assess io False (anomaly_record s (monotonic_now s) r) False (Some b) c
          | None \<Rightarrow>
              (let h = (case healthy_since_monotonic r of None \<Rightarrow> monotonic_now s | Some h \<Rightarrow> h);
                   t = (cr_trusted r \<or> fle (healthy_window_seconds c) (fsub (monotonic_now s) h))
               in write_then_assess io False
                    \<lparr>cr_boot_id = cr_boot_id r, utc_high_water = max (utc_high_water r) (utc_now s),
                     last_observed_utc = utc_now s, last_monotonic = monotonic_now s,
                     healthy_since_monotonic = Some h, cr_trusted = t\<rparr>
                    t (if t then None else Some WARMING_UP) c))"

definition observe :: "clock_io \<Rightarrow> RetentionClockSample \<Rightarrow> (pyexc, ClockHighWater, ClockAssessment) op" where
  "observe io s c =
     (if transition_active c then (Inl (RuntimeError ''clock high-water observation is already in progress''), c)
      else case observe_locked io s (c\<lparr>transition_active := True\<rparr>) of
             (r, c') \<Rightarrow> (r, c'\<lparr>transition_active := False\<rparr>))"

section \<open>Runs of the clock\<close>

text \<open>
  An observation is published when its record reached the state file. The history of a run
  lists the published samples, latest first.
\<close>

definition published :: "clock_io \<Rightarrow> ClockHighWater \<Rightarrow> bool" where
  "published io c =
     (write_result io \<noteq> WriteFailsBefore
      \<and> (case state_file c of UnsafeState \<Rightarrow> False | InvalidState _ \<Rightarrow> quarantine_done io | _ \<Rightarrow> True))"

inductive clock_run :: "ClockHighWater \<Rightarrow> RetentionClockSample list \<Rightarrow> ClockHighWater \<Rightarrow> bool" for c0 where
  start: "clock_run c0 [] c0"
| step: "clock_run c0 h c \<Longrightarrow> sample_ok s \<Longrightarrow>
         clock_run c0 (if published io c then s # h else h) (snd (observe io s c))"

definition healthy_step :: "pyfloat \<Rightarrow> RetentionClockSample \<Rightarrow> RetentionClockSample \<Rightarrow> bool" where
  "healthy_step slew before s =
     (\<not> flt (monotonic_now s) (monotonic_now before)
      \<and> step_blocker slew (monotonic_now before) (utc_now before) s = None)"

fun healthy_stretch :: "pyfloat \<Rightarrow> pystr \<Rightarrow> RetentionClockSample list \<Rightarrow> bool" where
  "healthy_stretch slew boot [] = False"
| "healthy_stretch slew boot [s] = (synchronized s \<and> boot_id s = boot)"
| "healthy_stretch slew boot (s # b # rest) =
     (synchronized s \<and> boot_id s = boot \<and> healthy_step slew b s \<and> healthy_stretch slew boot (b # rest))"

definition stretch_for ::
  "pyfloat \<Rightarrow> pyfloat \<Rightarrow> RetentionClockSample list \<Rightarrow> ClockHighWaterRecord \<Rightarrow> pyfloat \<Rightarrow> bool" where
  "stretch_for window slew h r h0 =
     (\<exists>st rest. h = st @ rest \<and> healthy_stretch slew (cr_boot_id r) st
        \<and> monotonic_now (hd st) = last_monotonic r \<and> utc_now (hd st) = last_observed_utc r
        \<and> monotonic_now (last st) = h0 \<and> fle h0 (last_monotonic r)
        \<and> (cr_trusted r \<longrightarrow> fle window (fsub (last_monotonic r) h0)))"

definition record_ok ::
  "pyfloat \<Rightarrow> pyfloat \<Rightarrow> RetentionClockSample list \<Rightarrow> ClockHighWaterRecord \<Rightarrow> bool" where
  "record_ok window slew h r =
     (isfinite (last_monotonic r)
      \<and> (case healthy_since_monotonic r of None \<Rightarrow> \<not> cr_trusted r | Some h0 \<Rightarrow> stretch_for window slew h r h0))"

definition clock_inv :: "RetentionClockSample list \<Rightarrow> ClockHighWater \<Rightarrow> bool" where
  "clock_inv h c =
     (\<not> transition_active c
      \<and> (case state_file c of
           StoredState r \<Rightarrow> record_ok (healthy_window_seconds c) (maximum_forward_slew_seconds c) h r
         | _ \<Rightarrow> True))"

lemma assessment_simps [simp]:
  "assessment True None = Inr \<lparr>trusted = True, age_deletion_allowed = True, blocker = None\<rparr>"
  "assessment False (Some b) = Inr \<lparr>trusted = False, age_deletion_allowed = False, blocker = Some b\<rparr>"
  by (simp_all add: assessment_def assessment_new_def)

lemma stretch_for_finite: "stretch_for w sl h r h0 \<Longrightarrow> isfinite (last_monotonic r) \<Longrightarrow> h0 \<noteq> NaN"
  by (auto simp: stretch_for_def)

lemma record_ok_valid:
  assumes "record_ok w sl h r" shows "clock_record r = Inr r"
proof (cases "healthy_since_monotonic r")
  case None
  with assms show ?thesis by (simp add: clock_record_def record_ok_def)
next
  case (Some h0)
  with assms have "fle h0 (last_monotonic r)" by (auto simp: record_ok_def stretch_for_def)
  then have "\<not> flt (last_monotonic r) h0" by (cases h0; cases "last_monotonic r") auto
  with Some show ?thesis by (simp add: clock_record_def)
qed

lemma anomaly_record_ok: "isfinite m \<Longrightarrow> record_ok w sl h (anomaly_record s m r)"
  by (simp add: record_ok_def anomaly_record_def)

lemma stretch_forI:
  "healthy_stretch sl (cr_boot_id r) st \<Longrightarrow> h = st @ rest \<Longrightarrow> monotonic_now (hd st) = last_monotonic r \<Longrightarrow>
   utc_now (hd st) = last_observed_utc r \<Longrightarrow> monotonic_now (last st) = h0 \<Longrightarrow> fle h0 (last_monotonic r) \<Longrightarrow>
   (cr_trusted r \<Longrightarrow> fle w (fsub (last_monotonic r) h0)) \<Longrightarrow> stretch_for w sl h r h0"
  unfolding stretch_for_def by blast

lemma baseline_record_ok: "sample_ok s \<Longrightarrow> record_ok w sl (s # h) (baseline_record s)"
  by (auto simp: record_ok_def baseline_record_def sample_ok_def intro!: stretch_forI [of _ _ "[s]" _ h])

text \<open>Extending a healthy stretch by one healthy sample.\<close>

definition extended_record :: "ClockHighWater \<Rightarrow> RetentionClockSample \<Rightarrow> ClockHighWaterRecord \<Rightarrow> ClockHighWaterRecord" where
  "extended_record c s r =
     (let h = (case healthy_since_monotonic r of None \<Rightarrow> monotonic_now s | Some h \<Rightarrow> h)
      in \<lparr>cr_boot_id = cr_boot_id r, utc_high_water = max (utc_high_water r) (utc_now s),
          last_observed_utc = utc_now s, last_monotonic = monotonic_now s, healthy_since_monotonic = Some h,
          cr_trusted = (cr_trusted r \<or> fle (healthy_window_seconds c) (fsub (monotonic_now s) h))\<rparr>)"

lemma fsub_mono: "fle a b \<Longrightarrow> isfinite a \<Longrightarrow> isfinite b \<Longrightarrow> isfinite c \<Longrightarrow> fle (fsub a c) (fsub b c)"
  by (auto simp: isfinite_iff fsub_def intro!: fl_round_mono)

lemma extended_record_ok:
  assumes r: "record_ok (healthy_window_seconds c) (maximum_forward_slew_seconds c) h r"
    and s: "sample_ok s" "synchronized s" "boot_id s = cr_boot_id r"
    and m: "\<not> flt (monotonic_now s) (last_monotonic r)"
    and b: "step_blocker (maximum_forward_slew_seconds c) (last_monotonic r) (last_observed_utc r) s = None"
  shows "record_ok (healthy_window_seconds c) (maximum_forward_slew_seconds c) (s # h) (extended_record c s r)"
proof (cases "healthy_since_monotonic r")
  case None
  with r have "\<not> cr_trusted r" by (simp add: record_ok_def)
  with None s show ?thesis
    by (auto simp: record_ok_def extended_record_def Let_def sample_ok_def intro!: stretch_forI [of _ _ "[s]" _ h])
next
  case (Some h0)
  with r obtain st rest where st: "h = st @ rest" "healthy_stretch (maximum_forward_slew_seconds c) (cr_boot_id r) st"
    "monotonic_now (hd st) = last_monotonic r" "utc_now (hd st) = last_observed_utc r"
    "monotonic_now (last st) = h0" "fle h0 (last_monotonic r)"
    "cr_trusted r \<longrightarrow> fle (healthy_window_seconds c) (fsub (last_monotonic r) h0)"
    and fin: "isfinite (last_monotonic r)"
    by (auto simp: record_ok_def stretch_for_def)
  obtain b1 st' where b1: "st = b1 # st'" using st(2) by (cases st) auto
  have le: "fle (last_monotonic r) (monotonic_now s)"
    using m fin s(1) by (auto simp: sample_ok_def isfinite_iff not_less)
  have h0: "fle h0 (monotonic_now s)" using st(6) le by (rule fle_trans)
  have "healthy_stretch (maximum_forward_slew_seconds c) (cr_boot_id r) (s # st)"
    using st(2-4) m b s by (simp add: b1 healthy_step_def)
  moreover have "fle (healthy_window_seconds c) (fsub (monotonic_now s) h0)"
    if "cr_trusted r"
  proof -
    have "fle (healthy_window_seconds c) (fsub (last_monotonic r) h0)" using that st(7) by simp
    moreover have "isfinite h0 \<or> h0 = NInf" using st(6) fin by (cases h0) (auto simp: isfinite_iff)
    moreover have "h0 = NInf \<Longrightarrow> fsub (monotonic_now s) h0 = fsub (last_monotonic r) h0"
      using fin s(1) by (auto simp: sample_ok_def isfinite_iff fsub_def)
    ultimately show ?thesis
      using fsub_mono [OF le fin _, of h0] s(1) fle_trans by (force simp: sample_ok_def)
  qed
  ultimately show ?thesis
    using Some st b1 h0 s(1)
    by (auto simp: record_ok_def extended_record_def Let_def sample_ok_def intro!: stretch_forI [of _ _ "s # st" _ rest])
qed

text \<open>Every observation either refuses an unreadable state or tries to publish one valid record.\<close>

definition publish ::
  "clock_io \<Rightarrow> clock_file \<Rightarrow> ClockHighWaterRecord \<Rightarrow> bool \<Rightarrow> ClockBlocker option \<Rightarrow> ClockHighWater \<Rightarrow>
   ClockAssessment res \<times> ClockHighWater" where
  "publish io old rec t b c =
     (case write_result io of
        WriteDone \<Rightarrow> (assessment t b, c\<lparr>state_file := StoredState rec\<rparr>)
      | WriteFailsBefore \<Rightarrow> (Inl (OSError ''clock state write''), c\<lparr>state_file := old\<rparr>)
      | WriteFailsAfter \<Rightarrow>
          (Inl (ValueError ''clock state publication identity changed''), c\<lparr>state_file := StoredState rec\<rparr>))"

lemma write_then_assess_publish:
  assumes "record_ok w sl h rec" "require_absent \<longrightarrow> state_file c = NoState"
  shows "write_then_assess io require_absent rec t b c = publish io (state_file c) rec t b c"
  using record_ok_valid [OF assms(1)] assms(2)
  by (auto simp: write_then_assess_def write_state_def publish_def split: write_outcome.splits)

lemma publish_flag:
  "c\<lparr>transition_active := a\<rparr>\<lparr>state_file := f\<rparr> = c\<lparr>state_file := f, transition_active := a\<rparr>"
  by simp

lemma observe_from_locked:
  assumes "\<not> transition_active c"
    and "observe_locked io s (c\<lparr>transition_active := True\<rparr>) = publish io old rec t b (c\<lparr>transition_active := True\<rparr>)"
  shows "observe io s c = publish io old rec t b c"
  using assms by (cases c) (auto simp: observe_def publish_def split: write_outcome.splits)

lemma observe_cases:
  assumes "clock_inv h c" "sample_ok s"
  obtains (refused) "observe io s c =
        (Inr \<lparr>trusted = False, age_deletion_allowed = False, blocker = Some CORRUPT_STATE\<rparr>, c)"
      "\<not> published io c" "\<forall>r. state_file c \<noteq> StoredState r"
  | (created) b old where "observe io s c = publish io old (baseline_record s) False (Some b) c"
      "published io c = (write_result io \<noteq> WriteFailsBefore)" "\<forall>r. old \<noteq> StoredState r"
      "\<forall>r. state_file c \<noteq> StoredState r"
  | (rebased) r where "state_file c = StoredState r" "synchronized s" "boot_id s \<noteq> cr_boot_id r"
      "observe io s c = publish io (state_file c) (baseline_record s) False (Some BOOT_CHANGED) c"
  | (anomalous) r m b where "state_file c = StoredState r" "isfinite m" "b \<noteq> WARMING_UP" "b \<noteq> BOOT_CHANGED"
      "observe io s c = publish io (state_file c) (anomaly_record s m r) False (Some b) c"
  | (healthy) r where "state_file c = StoredState r" "synchronized s" "boot_id s = cr_boot_id r"
      "record_ok (healthy_window_seconds c) (maximum_forward_slew_seconds c) (s # h) (extended_record c s r)"
      "observe io s c = publish io (state_file c) (extended_record c s r) (cr_trusted (extended_record c s r))
         (if cr_trusted (extended_record c s r) then None else Some WARMING_UP) c"
proof -
  let ?c = "c\<lparr>transition_active := True\<rparr>"
  have na: "\<not> transition_active c" using assms(1) by (simp add: clock_inv_def)
  have upd: "c\<lparr>transition_active := True, state_file := f, transition_active := False\<rparr> = c\<lparr>state_file := f\<rparr>" for f
    using na by (cases c) simp
  have same: "c\<lparr>transition_active := False\<rparr> = c" using na by (cases c) simp
  have base: "write_then_assess io a (baseline_record s) False (Some b) d =
      publish io (state_file d) (baseline_record s) False (Some b) d" if "a \<longrightarrow> state_file d = NoState" for a b d
    by (rule write_then_assess_publish [OF baseline_record_ok [OF assms(2)] that])
  show thesis
  proof (cases "state_file c")
    case NoState
    have "observe io s c = publish io NoState (baseline_record s) False (Some MISSING_STATE) c"
      using NoState
      by (intro observe_from_locked [OF na])
        (simp add: observe_locked_def read_state_def observe_absent_state_def baseline_def base)
    with NoState show thesis by (intro created [of NoState MISSING_STATE]) (simp_all add: published_def)
  next
    case UnsafeState
    then show thesis using na same
      by (intro refused) (simp_all add: observe_def observe_locked_def read_state_def observe_absent_state_def published_def)
  next
    case (InvalidState raw)
    show thesis
    proof (cases "quarantine_done io")
      case True
      have "observe io s c = publish io NoState (baseline_record s) False (Some CORRUPT_STATE) c"
        using na InvalidState True upd
        by (auto simp: observe_def observe_locked_def read_state_def observe_absent_state_def baseline_def base
            publish_def split: write_outcome.splits)
      with InvalidState True show thesis by (intro created [of NoState CORRUPT_STATE]) (simp_all add: published_def)
    next
      case False
      with InvalidState na same show thesis
        by (intro refused) (simp_all add: observe_def observe_locked_def read_state_def observe_absent_state_def published_def)
    qed
  next
    case (StoredState r)
    have ok: "record_ok (healthy_window_seconds c) (maximum_forward_slew_seconds c) h r"
      using assms(1) StoredState by (simp add: clock_inv_def)
    have fin: "isfinite (monotonic_now s)" "isfinite (fmax (last_monotonic r) (monotonic_now s))"
      using assms(2) ok by (auto simp: sample_ok_def record_ok_def fmax_def isfinite_iff)
    have anom: "write_then_assess io False (anomaly_record s m r) False (Some b) d =
        publish io (state_file d) (anomaly_record s m r) False (Some b) d" if "isfinite m" for m b d
      by (rule write_then_assess_publish [OF anomaly_record_ok [OF that]]) simp
    note ol = observe_locked_def [of io s ?c] read_state_def
    show thesis
    proof (cases "\<not> synchronized s")
      case True
      have "observe io s c = publish io (state_file c)
          (anomaly_record s (fmax (last_monotonic r) (monotonic_now s)) r) False (Some UNSYNCHRONIZED) c"
        using True StoredState by (intro observe_from_locked [OF na]) (simp add: ol anom fin)
      with StoredState fin show thesis by (intro anomalous) simp_all
    next
      case sync: False
      show thesis
      proof (cases "boot_id s = cr_boot_id r")
        case False
        have "observe io s c = publish io (state_file c) (baseline_record s) False (Some BOOT_CHANGED) c"
          using False sync StoredState
          by (intro observe_from_locked [OF na]) (simp add: ol baseline_def base)
        with StoredState sync False show thesis by (intro rebased) simp_all
      next
        case boot: True
        show thesis
        proof (cases "flt (monotonic_now s) (last_monotonic r)")
          case True
          have "observe io s c = publish io (state_file c) (anomaly_record s (monotonic_now s) r) False
              (Some MONOTONIC_ROLLBACK) c"
            using True sync boot StoredState by (intro observe_from_locked [OF na]) (simp add: ol anom fin)
          with StoredState fin show thesis by (intro anomalous) simp_all
        next
          case fwd: False
          show thesis
          proof (cases "step_blocker (maximum_forward_slew_seconds c) (last_monotonic r) (last_observed_utc r) s")
            case (Some b)
            then have b: "b \<noteq> WARMING_UP" "b \<noteq> BOOT_CHANGED"
              by (auto simp: step_blocker_def Let_def split: if_splits)
            have "observe io s c = publish io (state_file c) (anomaly_record s (monotonic_now s) r) False (Some b) c"
              using Some fwd sync boot StoredState by (intro observe_from_locked [OF na]) (simp add: ol anom fin)
            with StoredState fin b show thesis by (intro anomalous) simp_all
          next
            case None
            have eok: "record_ok (healthy_window_seconds c) (maximum_forward_slew_seconds c) (s # h) (extended_record c s r)"
              using ok assms(2) sync boot fwd None by (intro extended_record_ok) simp_all
            have "observe io s c = publish io (state_file c) (extended_record c s r) (cr_trusted (extended_record c s r))
                (if cr_trusted (extended_record c s r) then None else Some WARMING_UP) c"
              using None fwd sync boot StoredState write_then_assess_publish [OF eok, of False ?c io]
              by (intro observe_from_locked [OF na]) (simp add: ol extended_record_def Let_def)
            with StoredState sync boot eok show thesis by (intro healthy) simp_all
          qed
        qed
      qed
    qed
  qed
qed

lemma publish_inv:
  assumes "record_ok (healthy_window_seconds c) (maximum_forward_slew_seconds c) (s # h) rec" "clock_inv h c"
    and "old = state_file c \<or> (\<forall>r. old \<noteq> StoredState r)"
  shows "clock_inv (if write_result io \<noteq> WriteFailsBefore then s # h else h) (snd (publish io old rec t b c))"
  using assms by (auto simp: publish_def clock_inv_def split: write_outcome.splits clock_file.splits)

lemma observe_preserves:
  assumes "clock_inv h c" "sample_ok s"
  shows "clock_inv (if published io c then s # h else h) (snd (observe io s c))"
proof (cases rule: observe_cases [OF assms, of io])
  case 1
  with assms(1) show ?thesis by simp
next
  case (2 b old)
  with publish_inv [OF baseline_record_ok [OF assms(2)] assms(1), of old io False "Some b"] show ?thesis by simp
next
  case (3 r)
  with publish_inv [OF baseline_record_ok [OF assms(2)] assms(1), of "state_file c" io] show ?thesis
    by (simp add: published_def)
next
  case (4 r m b)
  with publish_inv [OF anomaly_record_ok [OF 4(2)] assms(1), of "state_file c" io] show ?thesis
    by (simp add: published_def)
next
  case (5 r)
  with publish_inv [OF 5(4) assms(1), of "state_file c" io] show ?thesis by (simp add: published_def)
qed

lemma clock_run_inv:
  assumes "clock_run c0 h c" "clock_inv [] c0"
  shows "clock_inv h c"
  using assms(1)
proof induction
  case start
  from assms(2) show ?case .
next
  case (step h c s io)
  then show ?case by (intro observe_preserves)
qed

section \<open>Properties\<close>

text \<open>
  C16. Age-based deletion waits for the healthy window: whenever an observation allows it,
  on any run from a state without a valid record, with any failing writes and quarantines,
  the published samples that end in this one contain an unbroken stretch of synchronized
  samples of this boot, without rollback and without a forward step beyond the allowance,
  whose monotonic clock spans at least the healthy window.
\<close>

theorem age_deletion_needs_healthy_window:
  assumes "clock_high_water_init file window slew = Inr c0" "\<forall>r. file \<noteq> StoredState r"
    and "clock_run c0 h c" "sample_ok s" "observe io s c = (Inr a, c')" "age_deletion_allowed a"
  shows "\<exists>st rest. s # h = st @ rest \<and> hd st = s
     \<and> healthy_stretch (maximum_forward_slew_seconds c) (boot_id s) st
     \<and> fle (healthy_window_seconds c) (fsub (monotonic_now s) (monotonic_now (last st)))"
proof -
  have "state_file c0 = file" "\<not> transition_active c0"
    using assms(1) by (auto simp: clock_high_water_init_def split: pyobj.splits if_splits)
  then have "clock_inv [] c0" using assms(2) by (auto simp: clock_inv_def split: clock_file.splits)
  then have inv: "clock_inv h c" using clock_run_inv [OF assms(3)] by simp
  show ?thesis
  proof (cases rule: observe_cases [OF inv assms(4), of io])
    case (5 r)
    let ?e = "extended_record c s r"
    have t: "cr_trusted ?e" and w: "write_result io = WriteDone"
      using assms(5,6) 5(5) by (auto simp: publish_def split: write_outcome.splits if_splits)
    have e: "last_monotonic ?e = monotonic_now s" "cr_boot_id ?e = cr_boot_id r"
      by (simp_all add: extended_record_def Let_def)
    obtain h0 where "healthy_since_monotonic ?e = Some h0" by (simp add: extended_record_def Let_def)
    with 5(4) obtain st rest where st: "s # h = st @ rest"
      "healthy_stretch (maximum_forward_slew_seconds c) (cr_boot_id ?e) st"
      "fle (healthy_window_seconds c) (fsub (last_monotonic ?e) h0)" "monotonic_now (last st) = h0"
      using t by (auto simp: record_ok_def stretch_for_def)
    moreover from st(1,2) have "hd st = s" by (cases st) auto
    ultimately show ?thesis using e 5(3) by auto
  qed (use assms(5,6) in \<open>auto simp: publish_def split: write_outcome.splits\<close>)
qed

definition example_sample :: "int \<Rightarrow> rat \<Rightarrow> RetentionClockSample" where
  "example_sample t m = \<lparr>utc_now = t * 1000000, monotonic_now = Fin m, boot_id = codes ''b1'', synchronized = True\<rparr>"

definition example_io :: clock_io where
  "example_io = \<lparr>quarantine_done = False, write_result = WriteDone\<rparr>"

definition example_clock :: "clock_file \<Rightarrow> ClockHighWater" where
  "example_clock f = \<lparr>healthy_window_seconds = Fin 5, maximum_forward_slew_seconds = Fin 1,
                      transition_active = False, state_file = f\<rparr>"

lemmas example_clock_defs = example_sample_def example_io_def example_clock_def observe_def observe_locked_def
  read_state_def observe_absent_state_def baseline_def write_then_assess_def write_state_def baseline_record_def
  clock_record_def step_blocker_def wall_delta_def published_def anomaly_record_def

lemma example_clock_run:
  "clock_run (example_clock NoState) [example_sample 100 10]
     (example_clock (StoredState (baseline_record (example_sample 100 10))))"
proof -
  have ok: "sample_ok (example_sample 100 10)" by (simp add: sample_ok_def example_sample_def)
  have "observe example_io (example_sample 100 10) (example_clock NoState) =
      (Inr \<lparr>trusted = False, age_deletion_allowed = False, blocker = Some MISSING_STATE\<rparr>,
       example_clock (StoredState (baseline_record (example_sample 100 10))))"
    by (simp add: example_clock_defs Let_def)
  moreover have "published example_io (example_clock NoState)" by (simp add: example_clock_defs Let_def)
  ultimately show ?thesis
    using clock_run.step [OF clock_run.start ok, of "example_clock NoState" example_io] by simp
qed

theorem age_deletion_needs_healthy_window_witness:
  "\<exists>st rest. [example_sample 106 16, example_sample 100 10] = st @ rest \<and> hd st = example_sample 106 16
     \<and> healthy_stretch (Fin 1) (codes ''b1'') st
     \<and> fle (Fin 5) (fsub (Fin 16) (monotonic_now (last st)))"
proof -
  have init: "clock_high_water_init NoState (PInt 5) (PInt 1) = Inr (example_clock NoState)"
    by (simp add: clock_high_water_init_def example_clock_def)
  have ok: "sample_ok (example_sample 106 16)" by (simp add: sample_ok_def example_sample_def)
  let ?c = "example_clock (StoredState (baseline_record (example_sample 100 10)))"
  have o: "\<exists>c'. observe example_io (example_sample 106 16) ?c =
      (Inr \<lparr>trusted = True, age_deletion_allowed = True, blocker = None\<rparr>, c')"
    by (simp add: example_clock_defs Let_def)
  from o obtain c' where "observe example_io (example_sample 106 16) ?c =
      (Inr \<lparr>trusted = True, age_deletion_allowed = True, blocker = None\<rparr>, c')" ..
  from age_deletion_needs_healthy_window [OF init _ example_clock_run ok this] show ?thesis
    by (simp add: example_clock_def example_sample_def)
qed

text \<open>
  Anomalies fail closed and are remembered: an observation that reports an unsynchronized
  clock, a rollback or a forward step never allows age deletion and leaves a record whose
  healthy window is cleared and whose UTC high-water mark has not moved back, so that trust
  has to be earned again from the next sample on.
\<close>

theorem clock_anomaly_resets_window:
  assumes "clock_inv h c" "sample_ok s" "state_file c = StoredState r"
    and "observe io s c = (Inr a, c')" "blocker a = Some b"
    and "b \<in> {UNSYNCHRONIZED, MONOTONIC_ROLLBACK, WALL_ROLLBACK, FORWARD_STEP}"
  shows "\<not> age_deletion_allowed a \<and> (\<exists>r'. state_file c' = StoredState r' \<and> \<not> cr_trusted r'
           \<and> healthy_since_monotonic r' = None
           \<and> utc_high_water r \<le> utc_high_water r' \<and> utc_now s \<le> utc_high_water r')"
proof (cases rule: observe_cases [OF assms(1,2), of io])
  case (4 r1 m b1)
  with assms(3-6) show ?thesis
    by (auto simp: publish_def anomaly_record_def split: write_outcome.splits)
qed (use assms(3-6) in \<open>auto simp: publish_def split: write_outcome.splits if_splits\<close>)

text \<open>
  A changed boot identity moves the UTC high-water mark back when the wall clock came up
  behind it: the baseline of the new boot overwrites the mark with the sample.
\<close>

lemma reboot_lowers_utc_high_water:
  assumes "clock_inv h c" "sample_ok s" "state_file c = StoredState r" "synchronized s"
    "boot_id s \<noteq> cr_boot_id r" "utc_now s < utc_high_water r" "write_result io = WriteDone"
  shows "\<exists>r'. state_file (snd (observe io s c)) = StoredState r' \<and> utc_high_water r' < utc_high_water r"
  using assms
  by (auto simp: observe_def observe_locked_def read_state_def baseline_def write_then_assess_def write_state_def
      baseline_record_def clock_record_def clock_inv_def sample_ok_def)

end
