(* ===== verification/Nplg_Lifecycle.thy ===== *)
theory Nplg_Lifecycle
  imports Nplg_Clock "HOL-Library.List_Lexorder"
begin

text \<open>
  The remaining lifecycle contracts of \<^verbatim>\<open>src/nplg_mcp/storage_lifecycle.py\<close>: capacity and policy
  models, prune reports and alerts, publication blockers, and the persisted insertion order
  that drives quota eviction. The insertion order is modelled with its private record files;
  every write can fail before or after the file was replaced, and the process can restart at
  any point. The lemmas show that no sequence number is ever used twice.
\<close>

section \<open>Capacity, policy, reports, alerts\<close>

definition HARD_MAX_CACHE_BYTES :: int where "HARD_MAX_CACHE_BYTES = 1024 * 1024 * 1024 * 1024"
definition MAX_STORED_OBJECTS :: int where "MAX_STORED_OBJECTS = 10000000"
definition MAX_FILESYSTEM_COUNT :: int where "MAX_FILESYSTEM_COUNT = 9223372036854775807"

definition strict_int :: "int \<Rightarrow> int \<Rightarrow> pyobj \<Rightarrow> int option" where
  "strict_int lo hi v = (case v of PInt i \<Rightarrow> if lo \<le> i \<and> i \<le> hi then Some i else None | _ \<Rightarrow> None)"

record StorageCapacity =
  total_bytes :: int
  available_bytes :: int
  total_inodes :: int
  available_inodes :: int

definition storage_capacity_new :: "pyobj \<Rightarrow> pyobj \<Rightarrow> pyobj \<Rightarrow> pyobj \<Rightarrow> StorageCapacity res" where
  "storage_capacity_new tb ab ti ai =
     (case (strict_int 0 MAX_FILESYSTEM_COUNT tb, strict_int 0 MAX_FILESYSTEM_COUNT ab,
            strict_int 0 MAX_FILESYSTEM_COUNT ti, strict_int 0 MAX_FILESYSTEM_COUNT ai) of
        (Some tb', Some ab', Some ti', Some ai') \<Rightarrow>
          (if tb' < ab' then Inl (ValueError ''available bytes must not exceed total bytes'')
           else if ti' < ai' then Inl (ValueError ''available inodes must not exceed total inodes'')
           else Inr \<lparr>total_bytes = tb', available_bytes = ab', total_inodes = ti', available_inodes = ai'\<rparr>)
      | _ \<Rightarrow> Inl (ValueError ''storage capacity''))"

definition filesystem_capacity :: "pyobj \<Rightarrow> bool \<Rightarrow> int \<Rightarrow> int \<Rightarrow> int \<Rightarrow> int \<Rightarrow> int \<Rightarrow> StorageCapacity res" where
  "filesystem_capacity descriptor is_directory f_blocks f_bavail f_frsize f_files f_favail =
     (case descriptor of
        PInt d \<Rightarrow>
          (if d < 0 then Inl (ValueError ''filesystem capacity requires a non-negative exact descriptor'')
           else if \<not> is_directory then Inl (ValueError ''filesystem capacity descriptor must identify a directory'')
           else storage_capacity_new (PInt (f_blocks * f_frsize)) (PInt (f_bavail * f_frsize)) (PInt f_files)
                  (PInt f_favail))
      | _ \<Rightarrow> Inl (ValueError ''filesystem capacity requires a non-negative exact descriptor''))"

record RetentionPolicy =
  maximum_age_seconds :: int
  maximum_bytes :: int
  maximum_objects :: int
  minimum_free_bytes :: int
  minimum_free_inodes :: int

definition retention_policy_new :: "pyobj \<Rightarrow> pyobj \<Rightarrow> pyobj \<Rightarrow> pyobj \<Rightarrow> pyobj \<Rightarrow> RetentionPolicy res" where
  "retention_policy_new age mb mo fb fi =
     (case (strict_int 60 31536000 age, strict_int 1 HARD_MAX_CACHE_BYTES mb, strict_int 1 MAX_STORED_OBJECTS mo,
            strict_int 67108864 HARD_MAX_CACHE_BYTES fb, strict_int 128 MAX_STORED_OBJECTS fi) of
        (Some a, Some b, Some ob, Some fb', Some fi') \<Rightarrow>
          Inr \<lparr>maximum_age_seconds = a, maximum_bytes = b, maximum_objects = ob, minimum_free_bytes = fb',
               minimum_free_inodes = fi'\<rparr>
      | _ \<Rightarrow> Inl (ValueError ''retention policy''))"

definition validate_retention_capacity :: "RetentionPolicy \<Rightarrow> pyobj \<Rightarrow> StorageCapacity \<Rightarrow> unit res" where
  "validate_retention_capacity p configured cap =
     (case configured of
        PInt m \<Rightarrow>
          (if m < maximum_bytes p \<or> HARD_MAX_CACHE_BYTES < m
           then Inl (ValueError ''configured cache maximum must cover policy maximum_bytes'')
           else if total_bytes cap < maximum_bytes p + minimum_free_bytes p
           then Inl (ValueError ''filesystem cannot preserve the configured byte reserve'')
           else if total_inodes cap \<le> minimum_free_inodes p
           then Inl (ValueError ''filesystem cannot preserve the configured inode reserve'')
           else Inr ())
      | _ \<Rightarrow> Inl (ValueError ''configured cache maximum must cover policy maximum_bytes''))"

datatype PruneBlocker = PB_LEASED_OBJECTS | PB_BYTE_HEADROOM | PB_INODE_HEADROOM | PB_CLOCK_ANOMALY

definition all_prune_blockers :: "PruneBlocker list" where
  "all_prune_blockers = [PB_LEASED_OBJECTS, PB_BYTE_HEADROOM, PB_INODE_HEADROOM, PB_CLOCK_ANOMALY]"

record prune_counts =
  freed_bytes :: int
  freed_objects :: int
  retained_leased_objects :: int
  post_stored_bytes :: int
  post_stored_objects :: int
  post_available_bytes :: int
  post_available_inodes :: int

datatype PruneReport = SatisfiedPruneReport prune_counts | UnsatisfiedPruneReport "PruneBlocker list" prune_counts

definition prune_counts_valid :: "prune_counts \<Rightarrow> bool" where
  "prune_counts_valid n =
     (let byte_ok = (\<lambda>x. 0 \<le> x \<and> x \<le> HARD_MAX_CACHE_BYTES);
          object_ok = (\<lambda>x. 0 \<le> x \<and> x \<le> MAX_STORED_OBJECTS);
          fs_ok = (\<lambda>x. 0 \<le> x \<and> x \<le> MAX_FILESYSTEM_COUNT)
      in byte_ok (freed_bytes n) \<and> object_ok (freed_objects n) \<and> object_ok (retained_leased_objects n)
         \<and> byte_ok (post_stored_bytes n) \<and> object_ok (post_stored_objects n)
         \<and> fs_ok (post_available_bytes n) \<and> fs_ok (post_available_inodes n))"

definition prune_report_new :: "PruneReport \<Rightarrow> PruneReport res" where
  "prune_report_new rep =
     (case rep of
        SatisfiedPruneReport n \<Rightarrow> (if prune_counts_valid n then Inr rep else Inl (ValueError ''prune report''))
      | UnsatisfiedPruneReport bs n \<Rightarrow>
          (if \<not> prune_counts_valid n \<or> bs = [] \<or> 4 < length bs then Inl (ValueError ''prune report'')
           else if bs \<noteq> filter (\<lambda>b. b \<in> set bs) all_prune_blockers
           then Inl (ValueError ''prune blockers must be unique and canonically ordered'')
           else Inr rep))"

datatype PublicationBlocker =
    PUB_BYTE_BUDGET | PUB_OBJECT_BUDGET | PUB_BYTE_HEADROOM | PUB_INODE_HEADROOM | PUB_CLOCK_ANOMALY

fun publication_blocker_value :: "PublicationBlocker \<Rightarrow> string" where
  "publication_blocker_value PUB_BYTE_BUDGET = ''byte_budget''"
| "publication_blocker_value PUB_OBJECT_BUDGET = ''object_budget''"
| "publication_blocker_value PUB_BYTE_HEADROOM = ''byte_headroom''"
| "publication_blocker_value PUB_INODE_HEADROOM = ''inode_headroom''"
| "publication_blocker_value PUB_CLOCK_ANOMALY = ''clock_anomaly''"

datatype LifecycleBlocker =
    LB_BYTE_BUDGET | LB_OBJECT_BUDGET | LB_LEASED_OBJECTS | LB_BYTE_HEADROOM | LB_INODE_HEADROOM
  | LB_CLOCK_ANOMALY

definition all_lifecycle_blockers :: "LifecycleBlocker list" where
  "all_lifecycle_blockers =
     [LB_BYTE_BUDGET, LB_OBJECT_BUDGET, LB_LEASED_OBJECTS, LB_BYTE_HEADROOM, LB_INODE_HEADROOM, LB_CLOCK_ANOMALY]"

datatype LifecycleAlertEvent = ADMISSION_CLOSED | PRUNE_UNSATISFIED

record LifecycleAlert =
  alert_event :: LifecycleAlertEvent
  alert_blockers :: "LifecycleBlocker list"

definition lifecycle_alert_new :: "LifecycleAlertEvent \<Rightarrow> LifecycleBlocker list \<Rightarrow> LifecycleAlert res" where
  "lifecycle_alert_new e bs =
     (if bs = [] \<or> 4 < length bs then Inl (ValueError ''lifecycle alert'')
      else if bs \<noteq> filter (\<lambda>b. b \<in> set bs) all_lifecycle_blockers
      then Inl (ValueError ''lifecycle alert blockers must be unique and canonically ordered'')
      else if e = ADMISSION_CLOSED \<and> length bs \<noteq> 1
      then Inl (ValueError ''admission-closed alerts require exactly one blocker'')
      else Inr \<lparr>alert_event = e, alert_blockers = bs\<rparr>)"

section \<open>Insertion-order records\<close>

definition is_lower_hex :: "nat \<Rightarrow> bool" where
  "is_lower_hex c = (48 \<le> c \<and> c \<le> 57 \<or> 97 \<le> c \<and> c \<le> 102)"

definition hex_suffix :: "string \<Rightarrow> nat list \<Rightarrow> pystr \<Rightarrow> bool" where
  "hex_suffix prefix lens s =
     (let p = codes prefix; r = drop (length p) s
      in starts_with p s \<and> length r \<in> set lens \<and> list_all is_lower_hex r)"

definition insertion_object_key :: "pystr \<Rightarrow> bool" where
  "insertion_object_key s = (hex_suffix ''documents/doc_'' [64] s \<or> hex_suffix ''renders/rnd_'' [32, 64] s)"

text \<open>
  A private record file as \<open>_read_private_record\<close> and the strict model see it: absent, not a
  safe regular file or not strict JSON, well-formed JSON that the digest-bound model rejects, or valid.
\<close>

datatype 'r record_file = RecAbsent | RecUnsafe | RecInvalid | RecValid 'r

record insertion_world =
  high_water_file :: "int record_file"
  sequence_files :: "pystr \<Rightarrow> (pystr \<times> int) record_file"
  object_dirs :: "pystr \<Rightarrow> bool"
  write_plan :: "write_outcome list"

record PersistentInsertionOrder =
  next_sequence :: int
  sequences :: "pystr \<rightharpoonup> int"

type_synonym insertion_state = "PersistentInsertionOrder \<times> insertion_world"

definition order_init :: PersistentInsertionOrder where
  "order_init = \<lparr>next_sequence = 1, sequences = Map.empty\<rparr>"

text \<open>The outcome of the next private write; with no plan left the write succeeds.\<close>

definition next_write :: "insertion_world \<Rightarrow> write_outcome \<times> insertion_world" where
  "next_write w =
     (case write_plan w of [] \<Rightarrow> (WriteDone, w) | o1 # os \<Rightarrow> (o1, w\<lparr>write_plan := os\<rparr>))"

definition validated_object_path :: "pystr \<Rightarrow> insertion_world \<Rightarrow> unit res" where
  "validated_object_path key w =
     (if \<not> insertion_object_key key then Inl (ValueError ''object_key'')
      else if \<not> object_dirs w key then Inl (ValueError ''insertion-order object path does not match its key'')
      else Inr ())"

definition write_high_water :: "int \<Rightarrow> (pyexc, insertion_state, unit) op" where
  "write_high_water n st =
     (let (ord, w) = st
      in if \<not> (1 \<le> n \<and> n \<le> MAX_FILESYSTEM_COUNT) then (Inl (ValueError ''next_sequence''), st)
         else case next_write w of
           (WriteFailsBefore, w') \<Rightarrow> (Inl (OSError ''insertion-order state''), (ord, w'))
         | (WriteFailsAfter, w') \<Rightarrow>
             (Inl (OSError ''insertion-order state''), (ord, w'\<lparr>high_water_file := RecValid n\<rparr>))
         | (WriteDone, w') \<Rightarrow>
             (Inr (), (ord\<lparr>next_sequence := n\<rparr>, w'\<lparr>high_water_file := RecValid n\<rparr>)))"

definition write_sequence_record :: "pystr \<Rightarrow> int \<Rightarrow> (pyexc, insertion_state, unit) op" where
  "write_sequence_record key n st =
     (let (ord, w) = st; put = (\<lambda>w'. w'\<lparr>sequence_files := (sequence_files w')(key := RecValid (key, n))\<rparr>)
      in case next_write w of
           (WriteFailsBefore, w') \<Rightarrow> (Inl (OSError ''insertion-order state''), (ord, w'))
         | (WriteFailsAfter, w') \<Rightarrow> (Inl (OSError ''insertion-order state''), (ord, put w'))
         | (WriteDone, w') \<Rightarrow> (Inr (), (ord, put w')))"

definition allocate :: "pystr \<Rightarrow> (pyexc, insertion_state, int) op" where
  "allocate key st =
     (case validated_object_path key (snd st) of
        Inl e \<Rightarrow> (Inl e, st)
      | Inr _ \<Rightarrow>
          if MAX_FILESYSTEM_COUNT \<le> next_sequence (fst st)
          then (Inl (ValueError ''insertion-order sequence space is exhausted''), st)
          else (let n = next_sequence (fst st)
                in case write_high_water (n + 1) st of
                     (Inl e, st1) \<Rightarrow> (Inl e, st1)
                   | (Inr _, st1) \<Rightarrow>
                       (case write_sequence_record key n st1 of
                          (Inl e, st2) \<Rightarrow> (Inl e, st2)
                        | (Inr _, (ord, w)) \<Rightarrow>
                            (Inr n, (ord\<lparr>sequences := (sequences ord)(key \<mapsto> n)\<rparr>, w)))))"

definition load_object_sequence :: "pystr \<Rightarrow> (pyexc, insertion_state, int) op" where
  "load_object_sequence key st =
     (case validated_object_path key (snd st) of
        Inl e \<Rightarrow> (Inl e, st)
      | Inr _ \<Rightarrow>
          (case sequence_files (snd st) key of
             RecUnsafe \<Rightarrow> (Inl (ValueError ''insertion-order state is not a safe regular file''), st)
           | RecInvalid \<Rightarrow> (Inl (ValueError ''artifact insertion sequence state is invalid''), st)
           | RecAbsent \<Rightarrow> allocate key st
           | RecValid (k, n) \<Rightarrow>
               if k \<noteq> key \<or> next_sequence (fst st) \<le> n
               then (Inl (ValueError ''artifact insertion sequence is not bound below high-water''), st)
               else (Inr n, ((fst st)\<lparr>sequences := (sequences (fst st))(key \<mapsto> n)\<rparr>, snd st))))"

fun load_all :: "pystr list \<Rightarrow> int list \<Rightarrow> (pyexc, insertion_state, unit) op" where
  "load_all [] used st = (Inr (), st)"
| "load_all (key # ks) used st =
     (case load_object_sequence key st of
        (Inl e, st1) \<Rightarrow> (Inl e, st1)
      | (Inr n, st1) \<Rightarrow>
          if n \<in> set used then (Inl (ValueError ''artifact insertion sequences must be unique''), st1)
          else load_all ks (n # used) st1)"

definition initialize :: "pystr list \<Rightarrow> (pyexc, insertion_state, unit) op" where
  "initialize keys st =
     (if \<not> sorted keys then (Inl (ValueError ''insertion-order bootstrap objects must be canonical''), st)
      else if \<not> distinct keys
      then (Inl (ValueError ''insertion-order bootstrap contains duplicate object keys''), st)
      else case high_water_file (snd st) of
        RecUnsafe \<Rightarrow> (Inl (ValueError ''insertion-order state is not a safe regular file''), st)
      | RecInvalid \<Rightarrow> (Inl (ValueError ''insertion high-water state is invalid''), st)
      | RecValid n \<Rightarrow> load_all keys [] ((fst st)\<lparr>next_sequence := n\<rparr>, snd st)
      | RecAbsent \<Rightarrow>
          if \<exists>k\<in>set keys. sequence_files (snd st) k \<noteq> RecAbsent
          then (Inl (ValueError ''insertion high-water state is missing''), st)
          else case write_high_water 1 st of
            (Inl e, st1) \<Rightarrow> (Inl e, st1)
          | (Inr _, st1) \<Rightarrow> load_all keys [] st1)"

definition ensure :: "pystr \<Rightarrow> (pyexc, insertion_state, int) op" where
  "ensure key st =
     (case validated_object_path key (snd st) of
        Inl e \<Rightarrow> (Inl e, st)
      | Inr _ \<Rightarrow>
          (case sequences (fst st) key of Some n \<Rightarrow> (Inr n, st) | None \<Rightarrow> allocate key st))"

definition sequence_for :: "pystr \<Rightarrow> PersistentInsertionOrder \<Rightarrow> int res" where
  "sequence_for key ord =
     (case sequences ord key of
        Some n \<Rightarrow> Inr n
      | None \<Rightarrow> Inl (ValueError ''artifact object has no initialized insertion sequence''))"

definition remove_object :: "pystr \<Rightarrow> PersistentInsertionOrder \<Rightarrow> PersistentInsertionOrder" where
  "remove_object key ord = ord\<lparr>sequences := (sequences ord)(key := None)\<rparr>"

section \<open>The insertion-order invariant\<close>

definition on_disk :: "insertion_world \<Rightarrow> pystr \<Rightarrow> int \<Rightarrow> bool" where
  "on_disk w k n = (\<exists>k'. sequence_files w k = RecValid (k', n))"

definition disk_inv :: "insertion_world \<Rightarrow> bool" where
  "disk_inv w =
     ((\<forall>k1 k2 n. on_disk w k1 n \<and> on_disk w k2 n \<longrightarrow> k1 = k2)
      \<and> (\<forall>h. high_water_file w = RecValid h \<longrightarrow> (\<forall>k n. on_disk w k n \<longrightarrow> n < h))
      \<and> (high_water_file w = RecAbsent \<longrightarrow> (\<forall>k n. \<not> on_disk w k n)))"

definition live_inv :: "insertion_state \<Rightarrow> bool" where
  "live_inv = (\<lambda>(ord, w).
     (\<forall>k n. on_disk w k n \<longrightarrow> n < next_sequence ord)
     \<and> (\<forall>h. high_water_file w = RecValid h \<longrightarrow> next_sequence ord \<le> h)
     \<and> (\<forall>k n. sequences ord k = Some n \<longrightarrow> n < next_sequence ord)
     \<and> (\<forall>k1 k2 n. sequences ord k1 = Some n \<and> (sequences ord k2 = Some n \<or> on_disk w k2 n) \<longrightarrow> k1 = k2))"

definition order_inv :: "insertion_state \<Rightarrow> bool" where
  "order_inv st = (disk_inv (snd st) \<and> live_inv st)"

lemma on_disk_update [simp]:
  "on_disk (w\<lparr>write_plan := pl\<rparr>) = on_disk w" "on_disk (w\<lparr>high_water_file := f\<rparr>) = on_disk w"
  "on_disk (w\<lparr>object_dirs := ds\<rparr>) = on_disk w"
  by (simp_all add: on_disk_def fun_eq_iff)

lemma on_disk_put:
  "on_disk (w\<lparr>sequence_files := (sequence_files w)(key := RecValid (key, n))\<rparr>) k m \<longleftrightarrow>
   (if k = key then m = n else on_disk w k m)"
  by (auto simp: on_disk_def)

lemma order_inv_plan [simp]: "order_inv (ord, w\<lparr>write_plan := pl\<rparr>) = order_inv (ord, w)"
  by (simp add: order_inv_def disk_inv_def live_inv_def)

lemma next_write_cases:
  obtains oc pl where "next_write w = (oc, w\<lparr>write_plan := pl\<rparr>)"
  by (cases "write_plan w") (auto simp: next_write_def intro: that [of WriteDone "[]"])

text \<open>Advancing the high-water mark, in the file and in memory.\<close>

lemma advance_inv:
  assumes "order_inv (ord, w)" "next_sequence ord \<le> m" "m \<le> n"
  shows "order_inv (ord\<lparr>next_sequence := m\<rparr>, w\<lparr>high_water_file := RecValid n\<rparr>)"
  using assms by (fastforce simp: order_inv_def disk_inv_def live_inv_def)

lemma write_high_water_inv:
  assumes "order_inv (ord, w)" "write_high_water n (ord, w) = (r, st)" "next_sequence ord \<le> n"
  shows "order_inv st \<and> sequences (fst st) = sequences ord \<and> sequence_files (snd st) = sequence_files w
     \<and> object_dirs (snd st) = object_dirs w
     \<and> (is_ok r \<longrightarrow> next_sequence (fst st) = n \<and> high_water_file (snd st) = RecValid n)"
proof -
  obtain oc pl where "next_write w = (oc, w\<lparr>write_plan := pl\<rparr>)" by (rule next_write_cases)
  with assms advance_inv [of ord "w\<lparr>write_plan := pl\<rparr>" "next_sequence ord" n]
    advance_inv [of ord "w\<lparr>write_plan := pl\<rparr>" n n] show ?thesis
    by (auto simp: write_high_water_def split: if_splits write_outcome.splits)
qed

lemma write_sequence_record_inv:
  assumes "order_inv (ord, w)" "write_sequence_record key n (ord, w) = (r, st)"
    and "\<forall>k m. k \<noteq> key \<and> on_disk w k m \<longrightarrow> m < n" "\<forall>k m. sequences ord k = Some m \<longrightarrow> m < n"
    and "n < next_sequence ord" "high_water_file w = RecValid h"
  shows "order_inv st \<and> fst st = ord \<and> (is_ok r \<longrightarrow> sequence_files (snd st) key = RecValid (key, n))"
proof -
  obtain oc pl where nw: "next_write w = (oc, w\<lparr>write_plan := pl\<rparr>)" by (rule next_write_cases)
  have h: "next_sequence ord \<le> h" using assms(1,6) by (simp add: order_inv_def live_inv_def)
  let ?w = "w\<lparr>write_plan := pl, sequence_files := (sequence_files w)(key := RecValid (key, n))\<rparr>"
  have od: "on_disk ?w k m \<longleftrightarrow> (if k = key then m = n else on_disk w k m)" for k m
    using on_disk_put [of "w\<lparr>write_plan := pl\<rparr>" key n k m] by simp
  have "disk_inv ?w"
    using assms(1,3,5,6) h unfolding order_inv_def disk_inv_def od by (fastforce split: if_splits)
  moreover have "live_inv (ord, ?w)"
    using assms(1,3,4,5,6) h unfolding order_inv_def live_inv_def prod.case od by (fastforce split: if_splits)
  ultimately have "order_inv (ord, ?w)" by (simp add: order_inv_def)
  with assms(1,2) nw show ?thesis
    by (auto simp: write_sequence_record_def split: write_outcome.splits)
qed

lemma disk_unique: "disk_inv w \<Longrightarrow> on_disk w k1 n \<Longrightarrow> on_disk w k2 n \<Longrightarrow> k1 = k2"
  unfolding disk_inv_def by blast

lemma joint_unique:
  "live_inv (ord, w) \<Longrightarrow> sequences ord k1 = Some n \<Longrightarrow> sequences ord k2 = Some n \<or> on_disk w k2 n \<Longrightarrow> k1 = k2"
  unfolding live_inv_def prod.case by blast

text \<open>Remembering the sequence an object has on disk.\<close>

lemma remember_inv:
  assumes "order_inv (ord, w)" "on_disk w key n" "n < next_sequence ord"
  shows "order_inv (ord\<lparr>sequences := (sequences ord)(key \<mapsto> n)\<rparr>, w)"
proof -
  have d: "disk_inv w" and l: "live_inv (ord, w)" using assms(1) by (simp_all add: order_inv_def)
  have j: "k1 = k2" if "((sequences ord)(key \<mapsto> n)) k1 = Some m"
    "((sequences ord)(key \<mapsto> n)) k2 = Some m \<or> on_disk w k2 m" for k1 k2 m
  proof (cases "k1 = key")
    case True
    with that(1) have "m = n" by simp
    with True that(2) disk_unique [OF d assms(2)] joint_unique [OF l] assms(2) show ?thesis
      by (metis fun_upd_other)
  next
    case False
    with that(1) have "sequences ord k1 = Some m" by simp
    with that(2) joint_unique [OF l this] assms(2) show ?thesis
      by (metis fun_upd_other fun_upd_same option.inject)
  qed
  have "\<forall>k m. ((sequences ord)(key \<mapsto> n)) k = Some m \<longrightarrow> m < next_sequence ord"
    using l assms(3) by (simp add: live_inv_def)
  with d l j show ?thesis by (simp add: order_inv_def live_inv_def del: fun_upd_apply) blast
qed

lemma allocate_inv:
  assumes "order_inv st" "allocate key st = (r, st')"
  shows "order_inv st' \<and> (\<forall>n. r = Inr n \<longrightarrow> n = next_sequence (fst st) \<and> next_sequence (fst st') = n + 1
     \<and> sequences (fst st') = (sequences (fst st))(key \<mapsto> n) \<and> on_disk (snd st') key n)"
proof -
  obtain ord w where st: "st = (ord, w)" by fastforce
  let ?n = "next_sequence ord"
  show ?thesis
  proof (cases "is_ok (validated_object_path key w) \<and> ?n < MAX_FILESYSTEM_COUNT")
    case False
    with assms st show ?thesis
      by (auto simp: allocate_def split: sum.splits if_splits)
  next
    case True
    obtain r1 st1 where w1: "write_high_water (?n + 1) (ord, w) = (r1, st1)" by (metis surj_pair)
    obtain ord1 w1' where st1: "st1 = (ord1, w1')" by fastforce
    have i1: "order_inv st1" "sequences ord1 = sequences ord" "sequence_files w1' = sequence_files w"
      "is_ok r1 \<Longrightarrow> next_sequence ord1 = ?n + 1 \<and> high_water_file w1' = RecValid (?n + 1)"
      using write_high_water_inv [OF _ w1] assms(1) by (simp_all add: st st1)
    show ?thesis
    proof (cases r1)
      case (Inl e)
      with True w1 i1 assms(2) show ?thesis by (auto simp: st allocate_def is_ok_iff Let_def)
    next
      case (Inr u)
      obtain r2 st2 where w2: "write_sequence_record key ?n (ord1, w1') = (r2, st2)" by (metis surj_pair)
      have lt: "\<forall>k m. on_disk w1' k m \<longrightarrow> m < ?n" "\<forall>k m. sequences ord1 k = Some m \<longrightarrow> m < ?n"
        using assms(1) i1(2,3) by (auto simp: st order_inv_def live_inv_def on_disk_def)
      have i2: "order_inv st2" "fst st2 = ord1" "is_ok r2 \<Longrightarrow> sequence_files (snd st2) key = RecValid (key, ?n)"
        using write_sequence_record_inv [OF _ w2, of "?n + 1"] i1 lt Inr by (auto simp: st1)
      show ?thesis
      proof (cases r2)
        case (Inl e)
        with True w1 w2 Inr i2 assms(2) show ?thesis by (auto simp: st st1 allocate_def is_ok_iff Let_def)
      next
        case r2: (Inr u2)
        obtain w2' where st2: "st2 = (ord1, w2')" using i2(2) by (cases st2) simp
        let ?ord = "ord1\<lparr>sequences := (sequences ord1)(key \<mapsto> ?n)\<rparr>"
        have res: "r = Inr ?n" "st' = (?ord, w2')"
          using True w1 w2 Inr r2 assms(2) by (auto simp: st st1 st2 allocate_def is_ok_iff Let_def)
        have od: "on_disk w2' key ?n" using i2(3) r2 by (simp add: st2 on_disk_def)
        have n1: "next_sequence ord1 = ?n + 1" using i1(4) Inr by simp
        have "order_inv (?ord, w2')" using remember_inv [of ord1 w2' key ?n] i2(1) od n1 by (simp add: st2)
        with res od n1 i1(2) show ?thesis by (simp add: st)
      qed
    qed
  qed
qed

lemma load_object_sequence_inv:
  assumes "order_inv st" "load_object_sequence key st = (r, st')"
  shows "order_inv st' \<and> (\<forall>n. r = Inr n \<longrightarrow> sequences (fst st') = (sequences (fst st))(key \<mapsto> n))"
proof (cases "sequence_files (snd st) key")
  case RecAbsent
  with assms allocate_inv [OF assms(1)] show ?thesis
    by (auto simp: load_object_sequence_def split: sum.splits)
next
  case (RecValid p)
  obtain k n where p: "p = (k, n)" by fastforce
  have od: "on_disk (snd st) key n" using RecValid by (simp add: p on_disk_def)
  let ?o = "(fst st)\<lparr>sequences := (sequences (fst st))(key \<mapsto> n)\<rparr>"
  have "order_inv (?o, snd st)" if "n < next_sequence (fst st)"
    using remember_inv [of "fst st" "snd st" key n] assms(1) od that by simp
  with RecValid p assms show ?thesis
    by (auto simp: load_object_sequence_def split: sum.splits if_splits)
qed (use assms in \<open>auto simp: load_object_sequence_def split: sum.splits\<close>)

lemma load_all_inv:
  "order_inv st \<Longrightarrow> load_all keys used st = (r, st') \<Longrightarrow> order_inv st'"
proof (induction keys arbitrary: used st)
  case (Cons key ks)
  obtain r1 st1 where l: "load_object_sequence key st = (r1, st1)" by (metis surj_pair)
  then have "order_inv st1" using load_object_sequence_inv [OF Cons.prems(1) l] by simp
  with Cons l show ?case by (auto split: sum.splits if_splits)
qed simp

lemma initialize_inv:
  assumes "disk_inv w" "initialize keys (order_init, w) = (r, st)"
  shows "disk_inv (snd st) \<and> (is_ok r \<longrightarrow> live_inv st)"
proof (cases "high_water_file w")
  case (RecValid n)
  have "order_inv (order_init\<lparr>next_sequence := n\<rparr>, w)"
    using assms(1) RecValid by (auto simp: order_inv_def live_inv_def disk_inv_def order_init_def)
  then have "load_all keys [] (order_init\<lparr>next_sequence := n\<rparr>, w) = (r, st) \<Longrightarrow> order_inv st" by (rule load_all_inv)
  with RecValid assms show ?thesis
    by (auto simp: initialize_def order_inv_def [of st] split: if_splits)
next
  case RecAbsent
  have o: "order_inv (order_init, w)"
    using assms(1) RecAbsent by (auto simp: order_inv_def live_inv_def disk_inv_def order_init_def)
  obtain r1 st1 where w1: "write_high_water 1 (order_init, w) = (r1, st1)" by (metis surj_pair)
  have "order_inv st1" using write_high_water_inv [OF o w1] by (simp add: order_init_def)
  then have "load_all keys [] st1 = (r, st) \<Longrightarrow> order_inv st" by (rule load_all_inv)
  moreover have "disk_inv (snd st1)" using \<open>order_inv st1\<close> by (simp add: order_inv_def)
  ultimately show ?thesis using RecAbsent w1 assms
    by (auto simp: initialize_def order_inv_def [of st] split: if_splits sum.splits)
qed (use assms in \<open>auto simp: initialize_def split: if_splits\<close>)

lemma ensure_inv:
  assumes "order_inv st" "ensure key st = (r, st')"
  shows "order_inv st'"
  using assms allocate_inv [of st key r st']
  by (auto simp: ensure_def split: sum.splits option.splits)

section \<open>Runs with failures and restarts\<close>

text \<open>
  A run of the process: restarts that initialize a fresh instance (whose failure leaves none),
  allocations, removals, the deletion of an object with its record, the creation of object
  directories, and damage to any record file. Every restart and allocation comes with its own
  plan of failing writes.
\<close>

inductive insertion_step ::
  "PersistentInsertionOrder option \<times> insertion_world \<Rightarrow> PersistentInsertionOrder option \<times> insertion_world \<Rightarrow> bool" where
  restart: "initialize keys (order_init, w\<lparr>write_plan := pl\<rparr>) = (r, (ord, w')) \<Longrightarrow>
     insertion_step (m, w) (if is_ok r then Some ord else None, w')"
| ensures: "ensure key (ord, w\<lparr>write_plan := pl\<rparr>) = (r, (ord', w')) \<Longrightarrow>
     insertion_step (Some ord, w) (Some ord', w')"
| removes: "insertion_step (Some ord, w) (Some (remove_object key ord), w)"
| deletes: "insertion_step (m, w)
     (m, w\<lparr>sequence_files := (sequence_files w)(key := RecAbsent), object_dirs := (object_dirs w)(key := False)\<rparr>)"
| creates: "insertion_step (m, w) (m, w\<lparr>object_dirs := (object_dirs w)(key := True)\<rparr>)"
| damages: "f \<in> {RecUnsafe, RecInvalid} \<Longrightarrow>
     insertion_step (m, w) (m, w\<lparr>sequence_files := (sequence_files w)(key := f)\<rparr>)"
| damages_high_water: "f \<in> {RecUnsafe, RecInvalid} \<Longrightarrow> insertion_step (m, w) (m, w\<lparr>high_water_file := f\<rparr>)"

definition fresh_world :: insertion_world where
  "fresh_world = \<lparr>high_water_file = RecAbsent, sequence_files = (\<lambda>_. RecAbsent), object_dirs = (\<lambda>_. False),
                  write_plan = []\<rparr>"

definition run_inv :: "PersistentInsertionOrder option \<times> insertion_world \<Rightarrow> bool" where
  "run_inv = (\<lambda>(m, w). disk_inv w \<and> (case m of None \<Rightarrow> True | Some ord \<Rightarrow> live_inv (ord, w)))"

lemma on_disk_drop:
  "(\<forall>x. f \<noteq> RecValid x) \<Longrightarrow>
   on_disk (w\<lparr>sequence_files := (sequence_files w)(key := f)\<rparr>) k n \<longleftrightarrow> k \<noteq> key \<and> on_disk w k n"
  by (auto simp: on_disk_def)

lemma drop_inv:
  assumes "run_inv (m, w)" "\<forall>x. f \<noteq> RecValid x"
  shows "run_inv (m, w\<lparr>sequence_files := (sequence_files w)(key := f)\<rparr>)"
proof -
  let ?w = "w\<lparr>sequence_files := (sequence_files w)(key := f)\<rparr>"
  have sub: "on_disk ?w k n \<Longrightarrow> on_disk w k n" for k n by (simp add: on_disk_drop [OF assms(2)])
  have "disk_inv ?w" using assms(1) sub unfolding run_inv_def disk_inv_def prod.case by simp blast
  moreover have "live_inv (ord, ?w)" if "live_inv (ord, w)" for ord
    using that sub unfolding live_inv_def prod.case by simp blast
  ultimately show ?thesis using assms(1) by (auto simp: run_inv_def split: option.splits)
qed

lemma run_inv_dirs [simp]: "run_inv (m, w\<lparr>object_dirs := ds\<rparr>) = run_inv (m, w)"
  by (simp add: run_inv_def disk_inv_def live_inv_def split: option.splits)

lemma insertion_step_inv: "insertion_step s t \<Longrightarrow> run_inv s \<Longrightarrow> run_inv t"
proof (induction rule: insertion_step.induct)
  case (restart keys pl w r ord w' m)
  have "disk_inv (w\<lparr>write_plan := pl\<rparr>)" using restart(2) by (simp add: run_inv_def disk_inv_def)
  from initialize_inv [OF this restart(1)] show ?case by (auto simp: run_inv_def split: option.splits if_splits)
next
  case (ensures key ord pl w r ord' w')
  have "order_inv (ord, w)" using ensures(2) by (simp add: run_inv_def order_inv_def)
  then have "order_inv (ord, w\<lparr>write_plan := pl\<rparr>)" by (simp only: order_inv_plan)
  from ensure_inv [OF this ensures(1)] show ?case by (simp add: run_inv_def order_inv_def)
next
  case (removes ord w key)
  then show ?case by (auto simp: run_inv_def live_inv_def remove_object_def split: if_splits)
next
  case (deletes m w key)
  from drop_inv [OF this, of RecAbsent key] show ?case by simp
next
  case (creates m w key)
  then show ?case by simp
next
  case (damages f m w key)
  then show ?case by (intro drop_inv) auto
next
  case (damages_high_water f m w)
  then show ?case by (auto simp: run_inv_def disk_inv_def live_inv_def split: option.splits)
qed

lemma insertion_run_inv: "insertion_step\<^sup>*\<^sup>* (None, fresh_world) s \<Longrightarrow> run_inv s"
proof (induction rule: rtranclp_induct)
  case base
  show ?case by (simp add: run_inv_def disk_inv_def fresh_world_def on_disk_def)
next
  case (step s t)
  then show ?case by (blast intro: insertion_step_inv)
qed

section \<open>Properties\<close>


definition example_key :: "nat \<Rightarrow> pystr" where
  "example_key c = codes ''documents/doc_'' @ replicate 64 c"

definition example_world :: insertion_world where
  "example_world =
     \<lparr>high_water_file = RecValid 2, sequence_files = (\<lambda>_. RecAbsent)(example_key 97 := RecValid (example_key 97, 1)),
      object_dirs = (\<lambda>_. False)(example_key 97 := True, example_key 98 := True), write_plan = []\<rparr>"

definition example_order :: PersistentInsertionOrder where
  "example_order = \<lparr>next_sequence = 2, sequences = [example_key 97 \<mapsto> 1]\<rparr>"

lemma example_keys: "insertion_object_key (example_key 97)" "insertion_object_key (example_key 98)"
  "example_key 97 \<noteq> example_key 98"
  by (simp_all add: insertion_object_key_def hex_suffix_def example_key_def list_all_iff is_lower_hex_def starts_with_def)

lemma example_insertion_run: "insertion_step\<^sup>*\<^sup>* (None, fresh_world) (Some example_order, example_world)"
proof -
  let ?w1 = "fresh_world\<lparr>object_dirs := (object_dirs fresh_world)(example_key 97 := True)\<rparr>"
  let ?w2 = "?w1\<lparr>object_dirs := (object_dirs ?w1)(example_key 98 := True)\<rparr>"
  have s1: "insertion_step (None, fresh_world) (None, ?w1)" by (rule insertion_step.creates)
  have s2: "insertion_step (None, ?w1) (None, ?w2)" by (rule insertion_step.creates)
  have "initialize [example_key 97] (order_init, ?w2\<lparr>write_plan := []\<rparr>) = (Inr (), (example_order, example_world))"
    using example_keys
    by (simp add: initialize_def fresh_world_def write_high_water_def next_write_def MAX_FILESYSTEM_COUNT_def
        load_object_sequence_def validated_object_path_def allocate_def write_sequence_record_def order_init_def
        example_order_def example_world_def Let_def)
  from insertion_step.restart [OF this, of None] have s3: "insertion_step (None, ?w2) (Some example_order, example_world)"
    by simp
  have three: "r\<^sup>*\<^sup>* a d" if "r a b" "r b c" "r c d" for r and a b c d :: "PersistentInsertionOrder option \<times> insertion_world"
    using that by (meson converse_rtranclp_into_rtranclp rtranclp.rtrancl_refl)
  show ?thesis by (rule three [OF s1 s2 s3])
qed


end
