(* ===== verification/Nplg_Filesystem.thy ===== *)
theory Nplg_Filesystem
  imports Nplg_Errors
begin

text \<open>
  The file-system view that \<^verbatim>\<open>src/nplg_mcp/storage.py\<close> works on: nodes with the \<open>lstat\<close> fields
  the code reads, lookup and replacement of a node at a path without following links,
  \<open>PurePosixPath\<close> parsing, the two tree walks that count bytes (\<open>_scan_existing_bytes\<close>,
  \<open>_render_tree_bytes\<close>) and the walk \<open>_tree_stats\<close> that measures one stored object. The lemmas relate the
  byte counts of a tree before and after one of its nodes is replaced.
\<close>

section \<open>Nodes\<close>

definition SLASH :: nat where "SLASH = 47"

record file_stat =
  st_uid :: int
  st_gid :: int
  st_permissions :: int
  st_dev :: int
  st_ino :: int
  st_nlink :: int
  st_mtime_ns :: int
  st_ctime_ns :: int

datatype fsnode =
    RegularFile file_stat bytes
  | Directory file_stat "(pystr \<times> fsnode) list"
  | SymbolicLink file_stat
  | SpecialNode file_stat

fun node_stat :: "fsnode \<Rightarrow> file_stat" where
  "node_stat (RegularFile s c) = s"
| "node_stat (Directory s cs) = s"
| "node_stat (SymbolicLink s) = s"
| "node_stat (SpecialNode s) = s"

fun is_directory :: "fsnode \<Rightarrow> bool" where
  "is_directory (Directory s cs) = True"
| "is_directory n = False"

fun is_regular :: "fsnode \<Rightarrow> bool" where
  "is_regular (RegularFile s c) = True"
| "is_regular n = False"

fun is_symlink :: "fsnode \<Rightarrow> bool" where
  "is_symlink (SymbolicLink s) = True"
| "is_symlink n = False"

fun st_size :: "fsnode \<Rightarrow> int" where
  "st_size (RegularFile s c) = int (length c)"
| "st_size n = 0"

fun children :: "fsnode \<Rightarrow> (pystr \<times> fsnode) list" where
  "children (Directory s cs) = cs"
| "children n = []"

fun fs_lookup :: "pystr list \<Rightarrow> fsnode \<Rightarrow> fsnode option" where
  "fs_lookup [] n = Some n"
| "fs_lookup (p # ps) (Directory s cs) = (case map_of cs p of None \<Rightarrow> None | Some c \<Rightarrow> fs_lookup ps c)"
| "fs_lookup (p # ps) n = None"

definition dict_del :: "('k \<times> 'v) list \<Rightarrow> 'k \<Rightarrow> ('k \<times> 'v) list" where
  "dict_del d k = filter (\<lambda>e. fst e \<noteq> k) d"

definition dict_put :: "('k \<times> 'v) list \<Rightarrow> 'k \<Rightarrow> 'v option \<Rightarrow> ('k \<times> 'v) list" where
  "dict_put d k v = (case v of None \<Rightarrow> dict_del d k | Some x \<Rightarrow> dict_set d k x)"

text \<open>
  \<open>fs_put now v path\<close> creates, replaces or (with \<open>None\<close>) deletes the entry at \<open>path\<close>; the directory
  holding the entry gets a new modification time.
\<close>

fun fs_put :: "int \<Rightarrow> fsnode option \<Rightarrow> pystr list \<Rightarrow> fsnode \<Rightarrow> fsnode" where
  "fs_put now v [p] (Directory s cs) = Directory (s\<lparr>st_mtime_ns := now, st_ctime_ns := now\<rparr>) (dict_put cs p v)"
| "fs_put now v (p # q # ps) (Directory s cs) =
     Directory s (case map_of cs p of None \<Rightarrow> cs | Some c \<Rightarrow> dict_set cs p (fs_put now v (q # ps) c))"
| "fs_put now v ps n = n"

fun fs_wf :: "fsnode \<Rightarrow> bool" where
  "fs_wf (Directory s cs) =
     (distinct (map fst cs) \<and> list_all (\<lambda>e. SLASH \<notin> set (fst e) \<and> fs_wf (snd e)) cs)"
| "fs_wf n = True"

text \<open>
  What a recursive deletion that raised may leave of a tree: some of its entries. The argument
  tells which of the entries, by their path below the tree, are still there.
\<close>

fun partial_delete :: "(pystr list \<Rightarrow> bool) \<Rightarrow> fsnode \<Rightarrow> fsnode" where
  "partial_delete keep (Directory s cs) =
     Directory s (map (\<lambda>e. (fst e, partial_delete (\<lambda>p. keep (fst e # p)) (snd e))) (filter (\<lambda>e. keep [fst e]) cs))"
| "partial_delete keep n = n"

section \<open>Relative paths\<close>

text \<open>
  \<open>PurePosixPath(s)\<close>: the root (\<open>/\<close>, or \<open>//\<close> for exactly two leading slashes) and the components other
  than the empty one and \<^verbatim>\<open>.\<close>.
\<close>

definition posix_root :: "pystr \<Rightarrow> pystr" where
  "posix_root s =
     (if \<not> starts_with [SLASH] s then []
      else if starts_with [SLASH, SLASH] s \<and> \<not> starts_with [SLASH, SLASH, SLASH] s then [SLASH, SLASH]
      else [SLASH])"

definition posix_names :: "pystr \<Rightarrow> pystr list" where
  "posix_names s = filter (\<lambda>c. c \<noteq> [] \<and> c \<noteq> codes ''.'') (split_on SLASH s)"

definition posix_parts :: "pystr \<Rightarrow> pystr list" where
  "posix_parts s = (if posix_root s = [] then posix_names s else posix_root s # posix_names s)"

definition posix_is_absolute :: "pystr \<Rightarrow> bool" where
  "posix_is_absolute s = (posix_root s \<noteq> [])"

definition as_posix :: "pystr \<Rightarrow> pystr" where
  "as_posix s =
     (if posix_root s = [] \<and> posix_names s = [] then codes ''.''
      else posix_root s @ join_with [SLASH] (posix_names s))"

definition ALLOWED_NAMESPACES :: "(pystr \<times> pystr) list" where
  "ALLOWED_NAMESPACES = [(codes ''documents'', codes ''doc''), (codes ''renders'', codes ''rnd'')]"

definition dot_part :: "pystr \<Rightarrow> bool" where
  "dot_part p = (p \<in> {[], codes ''.'', codes ''..''})"

definition raise_invalid_asset_path :: "'a res" where
  "raise_invalid_asset_path = app_fail INVALID_INPUT ''Asset path is invalid.'' 400"

definition raise_missing_asset :: "'a res" where
  "raise_missing_asset = app_fail NOT_FOUND ''The requested artifact was not found.'' 404"

definition raise_corrupt_asset_storage :: "'a res" where
  "raise_corrupt_asset_storage = app_fail INTERNAL_ERROR ''Artifact storage is corrupted.'' 500"

definition validated_asset_parts :: "pystr \<Rightarrow> pystr list res" where
  "validated_asset_parts s =
     (if s = [] \<or> 92 \<in> set s \<or> 0 \<in> set s then raise_invalid_asset_path
      else if posix_is_absolute s \<or> list_ex dot_part (posix_parts s) \<or> as_posix s \<noteq> s then raise_invalid_asset_path
      else if posix_parts s = [] \<or> hd (posix_parts s) \<notin> fst ` set ALLOWED_NAMESPACES
      then app_fail INVALID_INPUT ''Asset path is outside an approved namespace.'' 400
      else Inr (posix_parts s))"

lemma posix_names_ok: "p \<in> set (posix_names s) \<Longrightarrow> p \<noteq> [] \<and> SLASH \<notin> set p"
  using split_on_no_sep [of SLASH s] by (auto simp: posix_names_def)

lemma validated_asset_parts_sound:
  assumes "validated_asset_parts s = Inr ps"
  shows "s = join_with [SLASH] ps \<and> ps \<noteq> [] \<and> hd ps \<in> {codes ''documents'', codes ''renders''}
     \<and> (\<forall>p\<in>set ps. \<not> dot_part p \<and> SLASH \<notin> set p) \<and> 92 \<notin> set s \<and> 0 \<notin> set s"
proof -
  have h: "posix_root s = []" "ps = posix_names s" "ps \<noteq> []" "as_posix s = s" "\<not> list_ex dot_part ps"
    "hd ps \<in> fst ` set ALLOWED_NAMESPACES" "92 \<notin> set s" "0 \<notin> set s"
    using assms
    by (auto simp: validated_asset_parts_def raise_invalid_asset_path_def posix_is_absolute_def posix_parts_def
        split: if_splits)
  have "\<forall>p\<in>set ps. \<not> dot_part p" using h(5) by (simp add: list_ex_iff)
  moreover have "\<forall>p\<in>set ps. SLASH \<notin> set p" using h(2) posix_names_ok by blast
  moreover have "s = join_with [SLASH] ps" using h(1-4) by (simp add: as_posix_def)
  moreover have "hd ps \<in> {codes ''documents'', codes ''renders''}" using h(6) by (simp add: ALLOWED_NAMESPACES_def)
  ultimately show ?thesis using h(3,7,8) by blast
qed

section \<open>Byte counts and object statistics\<close>

definition INSERTION_SEQUENCE_FILENAME :: pystr where
  "INSERTION_SEQUENCE_FILENAME = codes ''.lifecycle-insertion-sequence.json''"

text \<open>Bytes of the regular files of a tree other than insertion records; links are not followed.\<close>

fun tree_bytes :: "fsnode \<Rightarrow> int" where
  "tree_bytes (Directory s cs) =
     sum_list (map (\<lambda>e. if is_regular (snd e) \<and> fst e = INSERTION_SEQUENCE_FILENAME then 0 else tree_bytes (snd e)) cs)"
| "tree_bytes (RegularFile s c) = int (length c)"
| "tree_bytes n = 0"

definition entry_bytes :: "pystr \<times> fsnode \<Rightarrow> int" where
  "entry_bytes e =
     (if is_regular (snd e) \<and> fst e = INSERTION_SEQUENCE_FILENAME then 0 else tree_bytes (snd e))"

definition scan_existing_bytes :: "fsnode \<Rightarrow> int" where
  "scan_existing_bytes rt =
     sum_list (map (\<lambda>e. case fs_lookup [fst e] rt of None \<Rightarrow> 0 | Some n \<Rightarrow> if is_directory n then tree_bytes n else 0)
       ALLOWED_NAMESPACES)"

text \<open>
  \<open>_tree_stats\<close>: size, inode count and oldest modification time of an object directory; any node
  that is neither a directory nor a regular file is corruption.
\<close>

fun tree_stats :: "fsnode \<Rightarrow> (int \<times> int \<times> int) option" where
  "tree_stats (RegularFile s c) = Some (int (length c), 1, st_mtime_ns s)"
| "tree_stats (Directory s cs) =
     foldl (\<lambda>acc e. case (acc, tree_stats (snd e)) of
              (Some (sz, inodes, modified), Some (sz', inodes', modified')) \<Rightarrow>
                Some (sz + (if is_regular (snd e) \<and> fst e = INSERTION_SEQUENCE_FILENAME then 0 else sz'),
                      inodes + inodes', min modified modified')
            | _ \<Rightarrow> None)
       (Some (0, 1, st_mtime_ns s)) cs"
| "tree_stats n = None"

text \<open>\<open>_render_tree_bytes\<close> of a path: nothing there counts zero, a link or special file is corruption.\<close>

fun render_bytes :: "fsnode \<Rightarrow> int option" where
  "render_bytes (RegularFile s c) = Some (int (length c))"
| "render_bytes (Directory s cs) =
     foldl (\<lambda>acc e. case (acc, render_bytes (snd e)) of
              (Some t, Some b) \<Rightarrow>
                Some (t + (if is_regular (snd e) \<and> fst e = INSERTION_SEQUENCE_FILENAME then 0 else b))
            | _ \<Rightarrow> None) (Some 0) cs"
| "render_bytes n = None"

definition render_tree_bytes :: "fsnode option \<Rightarrow> int res" where
  "render_tree_bytes n =
     (case n of
        None \<Rightarrow> Inr 0
      | Some d \<Rightarrow>
          if \<not> is_directory d then app_fail INTERNAL_ERROR ''Render storage is corrupted.'' 500
          else case render_bytes d of
            None \<Rightarrow> app_fail INTERNAL_ERROR ''Render storage is corrupted.'' 500
          | Some b \<Rightarrow> Inr b)"

section \<open>Resolving an asset\<close>

definition PRIVATE_DIRECTORY_MODE :: int where "PRIVATE_DIRECTORY_MODE = 448"
definition PRIVATE_FILE_MODE :: int where "PRIVATE_FILE_MODE = 384"

definition owned_with_mode :: "int \<Rightarrow> int \<Rightarrow> int \<Rightarrow> file_stat \<Rightarrow> bool" where
  "owned_with_mode euid egid mode s = (st_uid s = euid \<and> st_gid s = egid \<and> st_permissions s = mode)"

text \<open>
  \<open>_open_resolved_asset_directory\<close> and \<open>_validate_resolved_asset_file\<close>, with the errors that
  \<open>_resolve_private_asset\<close> turns their exceptions into: a file that is not private, not singly linked
  or not owned by the process is reported as corrupted storage.
\<close>

definition open_resolved_asset_directory :: "int \<Rightarrow> int \<Rightarrow> fsnode \<Rightarrow> unit res" where
  "open_resolved_asset_directory euid egid n =
     (if is_symlink n then raise_invalid_asset_path
      else if \<not> is_directory n then raise_missing_asset
      else if \<not> owned_with_mode euid egid PRIVATE_DIRECTORY_MODE (node_stat n) then raise_corrupt_asset_storage
      else Inr ())"

definition private_regular_file :: "int \<Rightarrow> int \<Rightarrow> fsnode \<Rightarrow> bool" where
  "private_regular_file euid egid n =
     (is_regular n \<and> st_nlink (node_stat n) = 1 \<and> owned_with_mode euid egid PRIVATE_FILE_MODE (node_stat n))"

definition validate_resolved_asset_file :: "int \<Rightarrow> int \<Rightarrow> fsnode \<Rightarrow> unit res" where
  "validate_resolved_asset_file euid egid n =
     (if is_symlink n then raise_invalid_asset_path
      else if \<not> is_regular n then raise_missing_asset
      else if \<not> private_regular_file euid egid n then raise_corrupt_asset_storage
      else Inr ())"

fun resolve_private_asset :: "int \<Rightarrow> int \<Rightarrow> pystr list \<Rightarrow> fsnode \<Rightarrow> unit res" where
  "resolve_private_asset euid egid [] d = raise_missing_asset"
| "resolve_private_asset euid egid [p] d =
     (case map_of (children d) p of
        None \<Rightarrow> raise_missing_asset
      | Some n \<Rightarrow> validate_resolved_asset_file euid egid n)"
| "resolve_private_asset euid egid (p # q # ps) d =
     (case map_of (children d) p of
        None \<Rightarrow> raise_missing_asset
      | Some n \<Rightarrow> rbind (open_resolved_asset_directory euid egid n) (\<lambda>_. resolve_private_asset euid egid (q # ps) n))"

text \<open>\<open>resolve_asset\<close> after the root check: the parts of the resolved path.\<close>

definition resolve_asset :: "int \<Rightarrow> int \<Rightarrow> fsnode \<Rightarrow> pystr \<Rightarrow> pystr list res" where
  "resolve_asset euid egid rt s =
     rbind (validated_asset_parts s) (\<lambda>ps. rbind (resolve_private_asset euid egid ps rt) (\<lambda>_. Inr ps))"

lemma resolve_private_asset_sound:
  "is_directory d \<Longrightarrow> resolve_private_asset euid egid ps d = Inr u \<Longrightarrow>
   (\<exists>f. fs_lookup ps d = Some f \<and> private_regular_file euid egid f)
   \<and> (\<forall>k. 0 < k \<and> k < length ps \<longrightarrow> (\<exists>n. fs_lookup (take k ps) d = Some n \<and> is_directory n
        \<and> owned_with_mode euid egid PRIVATE_DIRECTORY_MODE (node_stat n)))"
proof (induction euid egid ps d rule: resolve_private_asset.induct)
  case (1 euid egid d)
  then show ?case by (simp add: raise_missing_asset_def)
next
  case (2 euid egid p d)
  then show ?case
    by (cases d) (auto simp: raise_missing_asset_def validate_resolved_asset_file_def raise_invalid_asset_path_def
        raise_corrupt_asset_storage_def split: option.splits if_splits)
next
  case (3 euid egid p q ps d)
  obtain s cs where d: "d = Directory s cs" using 3(2) by (cases d) auto
  obtain n where n: "map_of cs p = Some n" "open_resolved_asset_directory euid egid n = Inr ()"
    "resolve_private_asset euid egid (q # ps) n = Inr u"
    using 3(3) by (auto simp: d raise_missing_asset_def rbind_eq_Inr split: option.splits)
  have nd: "is_directory n" "owned_with_mode euid egid PRIVATE_DIRECTORY_MODE (node_stat n)"
    using n(2) by (auto simp: open_resolved_asset_directory_def raise_invalid_asset_path_def raise_missing_asset_def
        raise_corrupt_asset_storage_def split: if_splits)
  from 3(1) [of n] n nd(1) have ih: "\<exists>f. fs_lookup (q # ps) n = Some f \<and> private_regular_file euid egid f"
    "\<forall>k. 0 < k \<and> k < length (q # ps) \<longrightarrow> (\<exists>m. fs_lookup (take k (q # ps)) n = Some m \<and> is_directory m
        \<and> owned_with_mode euid egid PRIVATE_DIRECTORY_MODE (node_stat m))"
    by (simp_all add: d)
  have "\<exists>m. fs_lookup (take k (p # q # ps)) d = Some m \<and> is_directory m
        \<and> owned_with_mode euid egid PRIVATE_DIRECTORY_MODE (node_stat m)"
    if "0 < k" "k < length (p # q # ps)" for k
  proof (cases "k = 1")
    case True
    then show ?thesis using n(1) nd by (simp add: d)
  next
    case False
    with \<open>0 < k\<close> obtain j where "k = Suc j" "0 < j" by (cases k) auto
    with that(2) ih(2) n(1) show ?thesis by (auto simp: d)
  qed
  with ih(1) n(1) show ?case by (auto simp: d)
qed

section \<open>Lemmas\<close>

lemma tree_bytes_Directory: "tree_bytes (Directory s cs) = sum_list (map entry_bytes cs)"
  by (simp add: entry_bytes_def [abs_def])

declare tree_bytes.simps(1) [simp del]

lemma tree_bytes_nonneg: "0 \<le> tree_bytes n"
  by (induction n rule: tree_bytes.induct)
    (auto simp: tree_bytes_Directory entry_bytes_def intro!: sum_list_map_nonneg)

lemma entry_bytes_nonneg: "0 \<le> entry_bytes e"
  by (simp add: entry_bytes_def tree_bytes_nonneg)

lemma map_of_dict_set: "map_of (dict_set d k v) = (map_of d)(k \<mapsto> v)"
  by (induction d) auto

lemma map_of_dict_del: "map_of (dict_del d k) = (map_of d)(k := None)"
  by (induction d) (auto simp: dict_del_def)

lemma map_of_dict_put [simp]: "map_of (dict_put d k v) = (map_of d)(k := v)"
  by (simp add: dict_put_def map_of_dict_set map_of_dict_del split: option.splits)

lemma keys_dict_set: "fst ` set (dict_set d k v) = insert k (fst ` set d)"
proof (induction d)
  case (Cons e d)
  then show ?case by (cases e) (simp add: insert_commute)
qed simp

lemma distinct_dict_set: "distinct (map fst d) \<Longrightarrow> distinct (map fst (dict_set d k v))"
  by (induction d) (auto simp: keys_dict_set)

lemma distinct_dict_del: "distinct (map fst d) \<Longrightarrow> distinct (map fst (dict_del d k))"
  by (auto simp: dict_del_def distinct_map inj_on_def)

lemma distinct_dict_put: "distinct (map fst d) \<Longrightarrow> distinct (map fst (dict_put d k v))"
  by (simp add: dict_put_def distinct_dict_set distinct_dict_del split: option.splits)

lemma dict_set_entries: "set (dict_set d k v) \<subseteq> insert (k, v) (set d)"
  by (induction d) (auto split: if_splits)

lemma dict_put_entries: "e \<in> set (dict_put d k v) \<Longrightarrow> e \<in> set d \<or> v = Some (snd e) \<and> fst e = k"
  using dict_set_entries [of d k] by (cases v) (fastforce simp: dict_put_def dict_del_def)+

lemma sum_dict_set:
  fixes f :: "'k \<times> 'v \<Rightarrow> int"
  shows "distinct (map fst d) \<Longrightarrow>
     sum_list (map f (dict_set d k v)) = sum_list (map f d) - (case map_of d k of None \<Rightarrow> 0 | Some x \<Rightarrow> f (k, x)) + f (k, v)"
proof (induction d)
  case (Cons e d)
  then show ?case by (cases e; cases "map_of d k") auto
qed simp

lemma dict_del_absent: "map_of d k = None \<Longrightarrow> dict_del d k = d"
  by (induction d) (auto simp: dict_del_def split: if_splits)

lemma sum_dict_del:
  fixes f :: "'k \<times> 'v \<Rightarrow> int"
  shows "distinct (map fst d) \<Longrightarrow>
     sum_list (map f (dict_del d k)) = sum_list (map f d) - (case map_of d k of None \<Rightarrow> 0 | Some x \<Rightarrow> f (k, x))"
proof (induction d)
  case (Cons e d)
  show ?case
  proof (cases "fst e = k")
    case True
    then have "map_of d k = None" using Cons.prems by (auto simp: map_of_eq_None_iff)
    with True show ?thesis using dict_del_absent [of d k] by (cases e) (simp add: dict_del_def)
  next
    case False
    with Cons show ?thesis by (cases e) (simp add: dict_del_def)
  qed
qed (simp add: dict_del_def)

lemma sum_dict_put:
  fixes f :: "'k \<times> 'v \<Rightarrow> int"
  shows "distinct (map fst d) \<Longrightarrow>
     sum_list (map f (dict_put d k v)) =
     sum_list (map f d) - (case map_of d k of None \<Rightarrow> 0 | Some x \<Rightarrow> f (k, x)) + (case v of None \<Rightarrow> 0 | Some x \<Rightarrow> f (k, x))"
  by (simp add: dict_put_def sum_dict_set sum_dict_del split: option.splits)

lemma fs_wf_child: "fs_wf (Directory s cs) \<Longrightarrow> map_of cs p = Some c \<Longrightarrow> fs_wf c"
  by (fastforce simp: list_all_iff dest: map_of_SomeD)

lemma fs_put_wf:
  "fs_wf n \<Longrightarrow> (\<forall>c. v = Some c \<longrightarrow> fs_wf c) \<Longrightarrow> (v \<noteq> None \<longrightarrow> SLASH \<notin> set (last ps)) \<Longrightarrow> fs_wf (fs_put now v ps n)"
proof (induction now v ps n rule: fs_put.induct)
  case (1 now v p s cs)
  then show ?case by (auto simp: distinct_dict_put list_all_iff dest!: dict_put_entries)
next
  case (2 now v p q ps s cs)
  show ?case
  proof (cases "map_of cs p")
    case (Some c)
    have "fs_wf (fs_put now v (q # ps) c)" using 2 Some fs_wf_child [OF 2(2) Some] by simp
    then have "SLASH \<notin> set (fst e) \<and> fs_wf (snd e)" if "e \<in> set (dict_set cs p (fs_put now v (q # ps) c))" for e
      using that dict_set_entries [of cs p "fs_put now v (q # ps) c"] 2(2) map_of_SomeD [OF Some] unfolding fs_wf.simps list_all_iff by fastforce
    then show ?thesis using 2(2) Some by (simp add: distinct_dict_set list_all_iff)
  qed (use 2 in simp)
qed simp_all

lemma fs_put_kind [simp]:
  "is_directory (fs_put now v ps n) = is_directory n" "is_regular (fs_put now v ps n) = is_regular n"
  by (induction now v ps n rule: fs_put.induct) simp_all

text \<open>Replacing the entry \<open>p\<close> of the directory at \<open>ps\<close> changes the byte count by that entry only.\<close>

lemma fs_put_bytes:
  assumes "fs_wf n" "fs_lookup ps n = Some (Directory s cs)"
  shows "tree_bytes (fs_put now v (ps @ [p]) n) =
     tree_bytes n - (case map_of cs p of None \<Rightarrow> 0 | Some x \<Rightarrow> entry_bytes (p, x))
       + (case v of None \<Rightarrow> 0 | Some x \<Rightarrow> entry_bytes (p, x))"
  using assms
proof (induction ps arbitrary: n)
  case Nil
  then show ?case by (simp add: tree_bytes_Directory sum_dict_put)
next
  case (Cons q qs)
  obtain s' ds where n: "n = Directory s' ds" using Cons.prems(2) by (cases n) auto
  obtain c where c: "map_of ds q = Some c" "fs_lookup qs c = Some (Directory s cs)"
    using Cons.prems(2) by (auto simp: n split: option.splits)
  have wf: "fs_wf c" using Cons.prems(1) c(1) by (auto simp: n intro: fs_wf_child simp del: fs_wf.simps)
  obtain r rs where qs: "qs @ [p] = r # rs" by (cases qs) auto
  have d: "is_directory c" using c(2) by (cases qs; cases c) auto
  have "entry_bytes (q, fs_put now v (qs @ [p]) c) = tree_bytes (fs_put now v (qs @ [p]) c)"
    "entry_bytes (q, c) = tree_bytes c"
    using d by (cases c; simp add: entry_bytes_def)+
  with Cons.IH [OF wf c(2)] Cons.prems(1) c(1) show ?case
    by (simp add: n qs tree_bytes_Directory sum_dict_set)
qed

lemma fs_lookup_append:
  "fs_lookup (ps @ qs) n = (case fs_lookup ps n of None \<Rightarrow> None | Some m \<Rightarrow> fs_lookup qs m)"
proof (induction ps n rule: fs_lookup.induct)
  case (2 p ps s cs)
  then show ?case by (cases "map_of cs p") auto
qed simp_all

lemma fs_lookup_put_same:
  "fs_lookup ps n = Some (Directory s cs) \<Longrightarrow> fs_lookup (ps @ [p]) (fs_put now v (ps @ [p]) n) = v"
proof (induction ps arbitrary: n)
  case Nil
  then show ?case by (simp split: option.splits)
next
  case (Cons q qs)
  obtain s' ds where n: "n = Directory s' ds" using Cons.prems by (cases n) auto
  obtain r rs where qs: "qs @ [p] = r # rs" by (cases qs) auto
  show ?case using Cons by (auto simp: n qs map_of_dict_set split: option.splits)
qed

lemma fs_put_bytes_le:
  "fs_wf n \<Longrightarrow> ps \<noteq> [] \<Longrightarrow>
   tree_bytes (fs_put now v ps n) \<le> tree_bytes n + (case v of None \<Rightarrow> 0 | Some x \<Rightarrow> entry_bytes (last ps, x))"
proof (induction now v ps n rule: fs_put.induct)
  case (1 now v p s cs)
  then show ?case using entry_bytes_nonneg [of "(p, _)"]
    by (auto simp: tree_bytes_Directory sum_dict_put split: option.splits)
next
  case (2 now v p q ps s cs)
  show ?case
  proof (cases "map_of cs p")
    case (Some c)
    have wf: "fs_wf c" using 2(2) Some fs_wf_child by blast
    have le: "tree_bytes (fs_put now v (q # ps) c)
        \<le> tree_bytes c + (case v of None \<Rightarrow> 0 | Some x \<Rightarrow> entry_bytes (last (q # ps), x))"
      using 2(1) [OF Some wf] by simp
    have "entry_bytes (p, fs_put now v (q # ps) c)
        \<le> entry_bytes (p, c) + (case v of None \<Rightarrow> 0 | Some x \<Rightarrow> entry_bytes (last (q # ps), x))"
      using le entry_bytes_nonneg by (cases c) (auto simp: entry_bytes_def split: option.splits)
    then show ?thesis using Some 2(2) by (cases ps; cases v) (simp_all add: tree_bytes_Directory sum_dict_set)
  next
    case None
    then show ?thesis using entry_bytes_nonneg by (simp add: tree_bytes_Directory split: option.splits)
  qed
qed (auto simp: entry_bytes_nonneg split: option.splits)

lemma fs_lookup_put_other: "p \<noteq> q \<Longrightarrow> fs_lookup (q # qs) (fs_put now v (p # ps) n) = fs_lookup (q # qs) n"
  by (cases n; cases ps) (auto simp: map_of_dict_set split: option.splits)

lemma partial_delete_kind [simp]:
  "is_regular (partial_delete keep n) = is_regular n" "is_directory (partial_delete keep n) = is_directory n"
  by (cases n; simp)+

lemma partial_delete_bytes: "tree_bytes (partial_delete keep n) \<le> tree_bytes n"
proof (induction keep n rule: partial_delete.induct)
  case (1 keep s cs)
  have "sum_list (map entry_bytes (map (\<lambda>e. (fst e, partial_delete (\<lambda>p. keep (fst e # p)) (snd e)))
      (filter (\<lambda>e. keep [fst e]) ds))) \<le> sum_list (map entry_bytes ds)" if "set ds \<subseteq> set cs" for ds
    using that
  proof (induction ds)
    case (Cons d ds)
    have "entry_bytes (fst d, partial_delete (\<lambda>p. keep (fst d # p)) (snd d)) \<le> entry_bytes d" if "keep [fst d]"
      using 1 [of d] Cons.prems that by (simp add: entry_bytes_def)
    then show ?case using Cons entry_bytes_nonneg [of d] by auto
  qed simp
  then show ?case by (simp add: tree_bytes_Directory)
qed simp_all

lemma partial_delete_wf: "fs_wf n \<Longrightarrow> fs_wf (partial_delete keep n)"
proof (induction keep n rule: partial_delete.induct)
  case (1 keep s cs)
  have "distinct (map fst (filter (\<lambda>e. keep [fst e]) cs))" using 1(2) by (simp add: distinct_map_filter)
  then show ?case using 1 by (auto simp: list_all_iff comp_def)
qed simp_all

lemma entry_bytes_partial_delete: "entry_bytes (p, partial_delete keep n) \<le> entry_bytes (p, n)"
  using partial_delete_bytes [of keep n] by (simp add: entry_bytes_def)

end
