(* ===== verification/Nplg_Store.thy ===== *)
theory Nplg_Store
  imports Nplg_Lifecycle Nplg_Filesystem "HOL-Library.Product_Lexorder"
begin

text \<open>
  The artifact lifecycle of \<^verbatim>\<open>ContentAddressedStore\<close> (\<^verbatim>\<open>src/nplg_mcp/storage.py\<close>): the inventory of stored
  objects, aggregate publication reservations (\<open>reserve_publication\<close>, activation, commit, abort), the
  admission latch and its alerts, reader and render-transaction leases, pruning and
  reconciliation. What a call observes of its surroundings (root identity checks, capacity samples,
  the clock, the outcome of recursive deletions) is an argument of the call.
\<close>

section \<open>State\<close>

definition MAX_LIFECYCLE_OBJECTS :: int where "MAX_LIFECYCLE_OBJECTS = 10000000"
definition MIN_OBJECT_KEY_PARTS :: nat where "MIN_OBJECT_KEY_PARTS = 2"

datatype store_exc = PublicationReservationError PublicationBlocker | Raised pyexc

record PublicationRequest =
  rq_policy :: RetentionPolicy
  maximum_new_bytes :: int
  maximum_new_objects :: int
  maximum_new_inodes :: int
  rq_clock :: RetentionClockSample

record PublicationReservation =
  pr_request :: PublicationRequest
  pr_active :: bool
  pr_closed :: bool
  baseline_used_bytes :: int
  baseline_stored_objects :: int
  baseline_available_inodes :: int

definition reservation_new :: "PublicationRequest \<Rightarrow> PublicationReservation" where
  "reservation_new rq =
     \<lparr>pr_request = rq, pr_active = False, pr_closed = False, baseline_used_bytes = 0,
      baseline_stored_objects = 0, baseline_available_inodes = 0\<rparr>"

abbreviation pr_bytes :: "PublicationReservation \<Rightarrow> int" where "pr_bytes r \<equiv> maximum_new_bytes (pr_request r)"
abbreviation pr_objects :: "PublicationReservation \<Rightarrow> int" where "pr_objects r \<equiv> maximum_new_objects (pr_request r)"
abbreviation pr_inodes :: "PublicationReservation \<Rightarrow> int" where "pr_inodes r \<equiv> maximum_new_inodes (pr_request r)"
abbreviation pr_policy :: "PublicationReservation \<Rightarrow> RetentionPolicy" where "pr_policy r \<equiv> rq_policy (pr_request r)"

text \<open>
  The process-local state of the store and the directory tree under its root. Reservation
  objects are identified by their position in \<open>reservation_objects\<close>; \<open>publication_reservations\<close> is the set of
  active ones. \<open>emitted_alerts\<close> lists the alerts handed to the observer, oldest first. The parsed
  insertion records of the object directories are kept in \<open>order_world\<close>.
\<close>

record Store =
  fs_root :: fsnode
  max_bytes :: int
  used_bytes :: int
  reserved_bytes :: int
  staging_reservations :: "(pystr \<times> int) list"
  retention_policy :: "RetentionPolicy option"
  clock_high_water :: "ClockHighWater option"
  clock_sampler_bound :: bool
  insertion_order :: "PersistentInsertionOrder option"
  order_world :: insertion_world
  reservation_objects :: "PublicationReservation list"
  publication_reservations :: "nat list"
  publication_reserved_bytes :: int
  publication_reserved_objects :: int
  publication_reserved_inodes :: int
  emitted_alerts :: "LifecycleAlert list"
  admission_closed_blocker :: "PublicationBlocker option"
  asset_leases :: "(pystr \<times> int) list"
  render_transaction_leases :: "(pystr \<times> nat list) list"

text \<open>
  What one call meets: the outcome of its n-th root identity check and capacity sample, the
  configured clock sampler, the clock state file, and what a recursive deletion leaves behind
  (\<open>None\<close>: it succeeds; \<open>Some keep\<close>: it raises \<open>OSError\<close> and the entries in \<open>keep\<close> are left).
\<close>

record store_io =
  root_ok :: "nat \<Rightarrow> bool"
  capacity_at :: "nat \<Rightarrow> StorageCapacity res"
  clock_sampled :: "RetentionClockSample res"
  clock_env :: clock_io
  deletion_failure :: "pystr list \<Rightarrow> (pystr list \<Rightarrow> bool) option"
  io_now :: int
  io_euid :: int
  io_egid :: int

type_synonym 'a store_op = "(store_exc, Store, 'a) op"

definition raised :: "'a res \<Rightarrow> store_exc + 'a" where
  "raised r = (case r of Inl e \<Rightarrow> Inl (Raised e) | Inr a \<Rightarrow> Inr a)"

definition verify_store_root_identity :: "store_io \<Rightarrow> nat \<Rightarrow> unit res" where
  "verify_store_root_identity io n =
     (if root_ok io n then Inr ()
      else app_fail INTERNAL_ERROR ''Artifact storage root identity is invalid.'' 500)"

text \<open>\<open>_sample_capacity\<close>: the n-th root check, then the n-th sample of the call.\<close>

definition sample_capacity :: "store_io \<Rightarrow> nat \<Rightarrow> nat \<Rightarrow> StorageCapacity res" where
  "sample_capacity io check sample =
     rbind (verify_store_root_identity io check) (\<lambda>_. capacity_at io sample)"

section \<open>Inventory\<close>

record StoredObject =
  so_key :: pystr
  so_size :: int
  so_inodes :: int
  so_modified_ns :: int
  insertion_sequence :: int

definition stored_object_order :: "StoredObject \<Rightarrow> int \<times> pystr" where
  "stored_object_order item = (insertion_sequence item, so_key item)"

definition corrupted :: "'a res" where
  "corrupted = app_fail INTERNAL_ERROR ''Artifact storage is corrupted.'' 500"

definition object_key :: "pystr \<Rightarrow> pystr \<Rightarrow> pystr" where
  "object_key namespace name = namespace @ [SLASH] @ name"

definition stored_object :: "PersistentInsertionOrder \<Rightarrow> pystr \<Rightarrow> pystr \<times> fsnode \<Rightarrow> StoredObject res" where
  "stored_object ord namespace child =
     (if \<not> is_directory (snd child) then corrupted
      else case tree_stats (snd child) of
        None \<Rightarrow> corrupted
      | Some (sz, inodes, modified) \<Rightarrow>
          rbind (sequence_for (object_key namespace (fst child)) ord)
            (\<lambda>n. Inr \<lparr>so_key = object_key namespace (fst child), so_size = sz, so_inodes = inodes,
                       so_modified_ns = modified, insertion_sequence = n\<rparr>))"

fun collect :: "('a \<Rightarrow> 'b res) \<Rightarrow> 'a list \<Rightarrow> 'b list res" where
  "collect f [] = Inr []"
| "collect f (x # xs) = rbind (f x) (\<lambda>y. rbind (collect f xs) (\<lambda>ys. Inr (y # ys)))"

definition namespace_children :: "fsnode \<Rightarrow> pystr \<Rightarrow> (pystr \<times> (pystr \<times> fsnode)) list" where
  "namespace_children rt namespace =
     (case fs_lookup [namespace] rt of
        None \<Rightarrow> []
      | Some d \<Rightarrow> map (\<lambda>c. (namespace, c)) (sort_key fst (children d)))"

definition object_entries :: "fsnode \<Rightarrow> (pystr \<times> (pystr \<times> fsnode)) list" where
  "object_entries rt = concat (map (\<lambda>e. namespace_children rt (fst e)) ALLOWED_NAMESPACES)"

definition stored_objects :: "Store \<Rightarrow> StoredObject list res" where
  "stored_objects st =
     (case insertion_order st of
        None \<Rightarrow> Inl (RuntimeError ''retention lifecycle insertion order is unavailable'')
      | Some ord \<Rightarrow>
          rbind (collect (\<lambda>(namespace, child). stored_object ord namespace child) (object_entries (fs_root st)))
            (\<lambda>objects. if MAX_LIFECYCLE_OBJECTS < int (length objects)
                       then app_fail INTERNAL_ERROR ''Artifact object inventory exceeds its safety bound.'' 500
                       else Inr objects))"

section \<open>The admission latch\<close>

fun lifecycle_blocker_of :: "PublicationBlocker \<Rightarrow> LifecycleBlocker" where
  "lifecycle_blocker_of PUB_BYTE_BUDGET = LB_BYTE_BUDGET"
| "lifecycle_blocker_of PUB_OBJECT_BUDGET = LB_OBJECT_BUDGET"
| "lifecycle_blocker_of PUB_BYTE_HEADROOM = LB_BYTE_HEADROOM"
| "lifecycle_blocker_of PUB_INODE_HEADROOM = LB_INODE_HEADROOM"
| "lifecycle_blocker_of PUB_CLOCK_ANOMALY = LB_CLOCK_ANOMALY"

fun lifecycle_blocker_of_prune :: "PruneBlocker \<Rightarrow> LifecycleBlocker" where
  "lifecycle_blocker_of_prune PB_LEASED_OBJECTS = LB_LEASED_OBJECTS"
| "lifecycle_blocker_of_prune PB_BYTE_HEADROOM = LB_BYTE_HEADROOM"
| "lifecycle_blocker_of_prune PB_INODE_HEADROOM = LB_INODE_HEADROOM"
| "lifecycle_blocker_of_prune PB_CLOCK_ANOMALY = LB_CLOCK_ANOMALY"

text \<open>
  \<open>_close_admission\<close>. Alerts are collected while the lock is held and emitted when it is released;
  nothing else is emitted in between, so the model appends them at once. An observer that
  raises is ignored.
\<close>

definition close_admission :: "PublicationBlocker \<Rightarrow> LifecycleAlert \<Rightarrow> Store \<Rightarrow> PublicationBlocker \<times> Store" where
  "close_admission b alert st =
     (case admission_closed_blocker st of
        Some existing \<Rightarrow> (existing, st)
      | None \<Rightarrow> (b, st\<lparr>admission_closed_blocker := Some b, emitted_alerts := emitted_alerts st @ [alert]\<rparr>))"

definition publication_denial :: "PublicationBlocker \<Rightarrow> 'a store_op" where
  "publication_denial b st =
     (case lifecycle_alert_new ADMISSION_CLOSED [lifecycle_blocker_of b] of
        Inl e \<Rightarrow> (Inl (Raised e), st)
      | Inr alert \<Rightarrow>
          (case close_admission b alert st of
             (effective, st') \<Rightarrow> (Inl (PublicationReservationError effective), st')))"

definition require_lifecycle_policy :: "RetentionPolicy \<Rightarrow> Store \<Rightarrow> unit res" where
  "require_lifecycle_policy p st =
     (if retention_policy st \<noteq> Some p
      then Inl (ValueError ''publication must use the configured retention policy'')
      else if clock_high_water st = None \<or> \<not> clock_sampler_bound st
      then Inl (ValueError ''retention lifecycle clock authority is unavailable'')
      else Inr ())"

text \<open>\<open>observe\<close> on the bound clock authority.\<close>

definition observe_clock :: "store_io \<Rightarrow> RetentionClockSample \<Rightarrow> bool store_op" where
  "observe_clock io s st =
     (case clock_high_water st of
        None \<Rightarrow> (Inl (Raised (RuntimeError ''retention lifecycle clock authority is unavailable'')), st)
      | Some c \<Rightarrow>
          (case observe (clock_env io) s c of
             (Inl e, c') \<Rightarrow> (Inl (Raised e), st\<lparr>clock_high_water := Some c'\<rparr>)
           | (Inr a, c') \<Rightarrow> (Inr (trusted a), st\<lparr>clock_high_water := Some c'\<rparr>)))"

section \<open>Publication reservations\<close>

definition validate_publication_maximum :: "pyobj \<Rightarrow> int \<Rightarrow> string \<Rightarrow> int res" where
  "validate_publication_maximum v maximum name =
     (case v of
        PInt i \<Rightarrow> (if 1 \<le> i \<and> i \<le> maximum then Inr i
                   else Inl (ValueError (name @ '' must be a positive exact integer within policy bounds'')))
      | _ \<Rightarrow> Inl (ValueError (name @ '' must be a positive exact integer within policy bounds'')))"

definition reserve_publication ::
  "RetentionPolicy \<Rightarrow> pyobj \<Rightarrow> pyobj \<Rightarrow> pyobj \<Rightarrow> RetentionClockSample \<Rightarrow> nat store_op" where
  "reserve_publication p mb mo mi clock st =
     (case rbind (require_lifecycle_policy p st) (\<lambda>_.
           rbind (validate_publication_maximum mb (max_bytes st) ''maximum_new_bytes'') (\<lambda>b.
           rbind (validate_publication_maximum mo MAX_LIFECYCLE_OBJECTS ''maximum_new_objects'') (\<lambda>ob.
           rbind (validate_publication_maximum mi MAX_LIFECYCLE_OBJECTS ''maximum_new_inodes'') (\<lambda>i.
           Inr \<lparr>rq_policy = p, maximum_new_bytes = b, maximum_new_objects = ob, maximum_new_inodes = i,
                rq_clock = clock\<rparr>)))) of
        Inl e \<Rightarrow> (Inl (Raised e), st)
      | Inr rq \<Rightarrow>
          (Inr (length (reservation_objects st)),
           st\<lparr>reservation_objects := reservation_objects st @ [reservation_new rq]\<rparr>))"

text \<open>The first budget or reserve a reservation would break, in the order the code tests them.\<close>

definition activation_blocker :: "PublicationReservation \<Rightarrow> int \<Rightarrow> StorageCapacity \<Rightarrow> Store \<Rightarrow> PublicationBlocker option" where
  "activation_blocker r objects cap st =
     (let p = pr_policy r
      in if maximum_bytes p < used_bytes st + reserved_bytes st + publication_reserved_bytes st + pr_bytes r
         then Some PUB_BYTE_BUDGET
         else if maximum_objects p < objects + publication_reserved_objects st + pr_objects r
         then Some PUB_OBJECT_BUDGET
         else if available_bytes cap
                 < minimum_free_bytes p + reserved_bytes st + publication_reserved_bytes st + pr_bytes r
         then Some PUB_BYTE_HEADROOM
         else if available_inodes cap < minimum_free_inodes p + publication_reserved_inodes st + pr_inodes r
         then Some PUB_INODE_HEADROOM
         else None)"

definition activate_reservation :: "nat \<Rightarrow> int \<Rightarrow> StorageCapacity \<Rightarrow> Store \<Rightarrow> Store" where
  "activate_reservation i objects cap st =
     (let r = reservation_objects st ! i
      in st\<lparr>reservation_objects := (reservation_objects st)
              [i := r\<lparr>pr_active := True, baseline_used_bytes := used_bytes st, baseline_stored_objects := objects,
                      baseline_available_inodes := available_inodes cap\<rparr>],
            publication_reservations := i # publication_reservations st,
            publication_reserved_bytes := publication_reserved_bytes st + pr_bytes r,
            publication_reserved_objects := publication_reserved_objects st + pr_objects r,
            publication_reserved_inodes := publication_reserved_inodes st + pr_inodes r\<rparr>)"

definition activate_publication_reservation_locked :: "store_io \<Rightarrow> StorageCapacity \<Rightarrow> nat \<Rightarrow> unit store_op" where
  "activate_publication_reservation_locked io cap i st =
     (let r = reservation_objects st ! i
      in if pr_active r \<or> pr_closed r
         then (Inl (Raised (RuntimeError ''publication reservation cannot be entered twice'')), st)
         else case admission_closed_blocker st of
           Some b \<Rightarrow> (Inl (PublicationReservationError b), st)
         | None \<Rightarrow>
             (case observe_clock io (rq_clock (pr_request r)) st of
                (Inl e, st1) \<Rightarrow> (Inl e, st1)
              | (Inr False, st1) \<Rightarrow> publication_denial PUB_CLOCK_ANOMALY st1
              | (Inr True, st1) \<Rightarrow>
                  (case stored_objects st1 of
                     Inl e \<Rightarrow> (Inl (Raised e), st1)
                   | Inr objects \<Rightarrow>
                       (case activation_blocker r (int (length objects)) cap st1 of
                          Some b \<Rightarrow> publication_denial b st1
                        | None \<Rightarrow> (Inr (), activate_reservation i (int (length objects)) cap st1)))))"

definition begin_publication_reservation :: "store_io \<Rightarrow> nat \<Rightarrow> unit store_op" where
  "begin_publication_reservation io i st =
     (case rbind (verify_store_root_identity io 0) (\<lambda>_. sample_capacity io 1 0) of
        Inl e \<Rightarrow> (Inl (Raised e), st)
      | Inr cap \<Rightarrow> activate_publication_reservation_locked io cap i st)"

definition validate_actual_publication :: "pyobj \<Rightarrow> int \<Rightarrow> string \<Rightarrow> int res" where
  "validate_actual_publication v reserved name =
     (case v of
        PInt i \<Rightarrow> (if 0 \<le> i \<and> i \<le> reserved then Inr i
                   else Inl (ValueError (name @ '' must be an exact integer within its reservation'')))
      | _ \<Rightarrow> Inl (ValueError (name @ '' must be an exact integer within its reservation'')))"

record PublicationCommit =
  actual_bytes :: int
  actual_objects :: int
  actual_inodes :: int
  clock_sample :: RetentionClockSample
  commit_capacity :: StorageCapacity

definition commit_blocker :: "PublicationReservation \<Rightarrow> PublicationCommit \<Rightarrow> int \<Rightarrow> Store \<Rightarrow> PublicationBlocker option" where
  "commit_blocker r c objects st =
     (let p = pr_policy r;
          observed_bytes = max 0 (used_bytes st - baseline_used_bytes r);
          remaining_bytes = max 0 (actual_bytes c - observed_bytes);
          observed_objects = max 0 (objects - baseline_stored_objects r);
          remaining_objects = max 0 (actual_objects c - observed_objects);
          observed_inodes = max 0 (baseline_available_inodes r - available_inodes (commit_capacity c));
          remaining_inodes = max 0 (actual_inodes c - observed_inodes);
          other_reserved_bytes = publication_reserved_bytes st - pr_bytes r;
          other_reserved_objects = publication_reserved_objects st - pr_objects r;
          other_reserved_inodes = publication_reserved_inodes st - pr_inodes r
      in if maximum_bytes p < used_bytes st + reserved_bytes st + other_reserved_bytes + remaining_bytes
         then Some PUB_BYTE_BUDGET
         else if maximum_objects p < objects + other_reserved_objects + remaining_objects
         then Some PUB_OBJECT_BUDGET
         else if available_bytes (commit_capacity c)
                 < minimum_free_bytes p + reserved_bytes st + other_reserved_bytes + remaining_bytes
         then Some PUB_BYTE_HEADROOM
         else if available_inodes (commit_capacity c)
                 < minimum_free_inodes p + other_reserved_inodes + remaining_inodes
         then Some PUB_INODE_HEADROOM
         else None)"

definition reservation_close :: "PublicationReservation \<Rightarrow> PublicationReservation res" where
  "reservation_close r =
     (if \<not> pr_active r \<or> pr_closed r then Inl (RuntimeError ''publication reservation is not active'')
      else Inr (r\<lparr>pr_active := False, pr_closed := True\<rparr>))"

definition release_publication_reservation_locked :: "nat \<Rightarrow> unit store_op" where
  "release_publication_reservation_locked i st =
     (if i \<notin> set (publication_reservations st)
      then (Inl (Raised (RuntimeError ''publication reservation is not active'')), st)
      else let r = reservation_objects st ! i;
               st1 = st\<lparr>publication_reservations := removeAll i (publication_reservations st),
                        publication_reserved_bytes := publication_reserved_bytes st - pr_bytes r,
                        publication_reserved_objects := publication_reserved_objects st - pr_objects r,
                        publication_reserved_inodes := publication_reserved_inodes st - pr_inodes r\<rparr>
           in case reservation_close r of
                Inl e \<Rightarrow> (Inl (Raised e), st1)
              | Inr r' \<Rightarrow> (Inr (), st1\<lparr>reservation_objects := (reservation_objects st1)[i := r']\<rparr>))"

definition commit_publication_reservation_locked :: "store_io \<Rightarrow> PublicationCommit \<Rightarrow> nat \<Rightarrow> unit store_op" where
  "commit_publication_reservation_locked io c i st =
     (if i \<notin> set (publication_reservations st)
      then (Inl (Raised (RuntimeError ''publication reservation is not active'')), st)
      else case observe_clock io (clock_sample c) st of
        (Inl e, st1) \<Rightarrow> (Inl e, st1)
      | (Inr False, st1) \<Rightarrow> publication_denial PUB_CLOCK_ANOMALY st1
      | (Inr True, st1) \<Rightarrow>
          (case stored_objects st1 of
             Inl e \<Rightarrow> (Inl (Raised e), st1)
           | Inr objects \<Rightarrow>
               (case commit_blocker (reservation_objects st1 ! i) c (int (length objects)) st1 of
                  Some b \<Rightarrow> publication_denial b st1
                | None \<Rightarrow> release_publication_reservation_locked i st1)))"

definition commit_publication_reservation :: "store_io \<Rightarrow> nat \<Rightarrow> pyobj \<Rightarrow> pyobj \<Rightarrow> pyobj \<Rightarrow> unit store_op" where
  "commit_publication_reservation io i ab ao ai st =
     (let r = reservation_objects st ! i
      in case rbind (validate_actual_publication ab (pr_bytes r) ''actual_bytes'') (\<lambda>b.
              rbind (validate_actual_publication ao (pr_objects r) ''actual_objects'') (\<lambda>ob.
              rbind (validate_actual_publication ai (pr_inodes r) ''actual_inodes'') (\<lambda>n.
              if i \<notin> set (publication_reservations st)
              then Inl (RuntimeError ''publication reservation is not active'')
              else rbind (verify_store_root_identity io 0) (\<lambda>_.
                if \<not> clock_sampler_bound st
                then Inl (RuntimeError ''retention lifecycle clock authority is unavailable'')
                else rbind (clock_sampled io) (\<lambda>s.
                  rbind (sample_capacity io 1 0) (\<lambda>cap.
                    Inr \<lparr>actual_bytes = b, actual_objects = ob, actual_inodes = n, clock_sample = s,
                         commit_capacity = cap\<rparr>)))))) of
           Inl e \<Rightarrow> (Inl (Raised e), st)
         | Inr c \<Rightarrow> commit_publication_reservation_locked io c i st)"

definition abort_publication_reservation :: "nat \<Rightarrow> unit store_op" where
  "abort_publication_reservation i st = release_publication_reservation_locked i st"

text \<open>The reservation object's own \<open>commit\<close> and \<open>abort\<close>, and the exit of its context.\<close>

definition reservation_commit :: "store_io \<Rightarrow> nat \<Rightarrow> pyobj \<Rightarrow> pyobj \<Rightarrow> pyobj \<Rightarrow> unit store_op" where
  "reservation_commit io i ab ao ai st =
     (if pr_closed (reservation_objects st ! i)
      then (Inl (Raised (RuntimeError ''publication reservation is already closed'')), st)
      else commit_publication_reservation io i ab ao ai st)"

definition reservation_abort :: "nat \<Rightarrow> unit store_op" where
  "reservation_abort i st =
     (if pr_closed (reservation_objects st ! i)
      then (Inl (Raised (RuntimeError ''publication reservation is already closed'')), st)
      else abort_publication_reservation i st)"

definition reservation_context_exit :: "nat \<Rightarrow> unit store_op" where
  "reservation_context_exit i st =
     (if pr_closed (reservation_objects st ! i) then (Inr (), st) else reservation_abort i st)"

section \<open>Leases\<close>

definition dict_get :: "('k \<times> 'v) list \<Rightarrow> 'k \<Rightarrow> 'v \<Rightarrow> 'v" where
  "dict_get d k z = (case map_of d k of None \<Rightarrow> z | Some v \<Rightarrow> v)"

definition asset_object_key :: "pystr \<Rightarrow> pystr res" where
  "asset_object_key s =
     (if length (posix_parts s) < MIN_OBJECT_KEY_PARTS then raise_invalid_asset_path
      else Inr (join_with [SLASH] (take 2 (posix_parts s))))"

definition acquire_asset_lease :: "store_io \<Rightarrow> pystr \<Rightarrow> (pystr \<times> pystr list) store_op" where
  "acquire_asset_lease io s st =
     (case asset_object_key s of
        Inl e \<Rightarrow> (Inl (Raised e), st)
      | Inr key \<Rightarrow>
          if dict_get (render_transaction_leases st) key [] \<noteq> []
          then (raised (app_fail INTERNAL_ERROR ''The render is currently in use and cannot be read.'' 409), st)
          else (case rbind (verify_store_root_identity io 0)
                       (\<lambda>_. resolve_asset (io_euid io) (io_egid io) (fs_root st) s) of
                  Inl e \<Rightarrow> (Inl (Raised e), st)
                | Inr path \<Rightarrow>
                    (Inr (key, path),
                     st\<lparr>asset_leases := dict_set (asset_leases st) key (dict_get (asset_leases st) key 0 + 1)\<rparr>)))"

definition release_asset_lease :: "pystr \<Rightarrow> nat option \<Rightarrow> unit store_op" where
  "release_asset_lease key token st =
     (case token of
        Some t \<Rightarrow>
          (if set (dict_get (render_transaction_leases st) key []) \<noteq> {t}
           then (Inl (Raised (RuntimeError ''render transaction lease release is unbalanced'')), st)
           else (Inr (), st\<lparr>render_transaction_leases := dict_del (render_transaction_leases st) key\<rparr>))
      | None \<Rightarrow>
          (case map_of (asset_leases st) key of
             None \<Rightarrow> (Inl (Raised (RuntimeError ''asset lease release is unbalanced'')), st)
           | Some current \<Rightarrow>
               if current < 1 then (Inl (Raised (RuntimeError ''asset lease release is unbalanced'')), st)
               else if current = 1 then (Inr (), st\<lparr>asset_leases := dict_del (asset_leases st) key\<rparr>)
               else (Inr (), st\<lparr>asset_leases := dict_set (asset_leases st) key (current - 1)\<rparr>)))"

definition register_render_transaction_locked :: "pystr \<Rightarrow> nat \<Rightarrow> unit store_op" where
  "register_render_transaction_locked key token st =
     (if map_of (render_transaction_leases st) key \<noteq> None
      then (Inl (Raised (RuntimeError ''render transaction is already active'')), st)
      else (Inr (), st\<lparr>render_transaction_leases := dict_set (render_transaction_leases st) key [token]\<rparr>))"

definition require_render_mutation_authority_locked :: "pystr \<Rightarrow> nat option \<Rightarrow> Store \<Rightarrow> unit res" where
  "require_render_mutation_authority_locked key token st =
     (if 0 < dict_get (asset_leases st) key 0
      then app_fail INTERNAL_ERROR ''The render is currently in use and cannot be modified.'' 409
      else case token of
        None \<Rightarrow>
          (if dict_get (render_transaction_leases st) key [] \<noteq> []
           then app_fail INTERNAL_ERROR ''The render is currently in use and cannot be modified.'' 409
           else Inr ())
      | Some t \<Rightarrow>
          (if set (dict_get (render_transaction_leases st) key []) \<noteq> {t}
           then Inl (RuntimeError ''render transaction mutation authority is unavailable'')
           else Inr ()))"

text \<open>An object that a reader or a render transaction holds.\<close>

definition leased :: "Store \<Rightarrow> pystr \<Rightarrow> bool" where
  "leased st key = (0 < dict_get (asset_leases st) key 0 \<or> dict_get (render_transaction_leases st) key [] \<noteq> [])"

section \<open>Pruning\<close>

record PruneWorkingSet =
  ws_objects :: "StoredObject list"
  ws_policy :: RetentionPolicy
  ws_capacity :: StorageCapacity
  cutoff_ns :: int
  clock_trusted :: bool

definition prune_pressure :: "PruneWorkingSet \<Rightarrow> bool" where
  "prune_pressure ws =
     (maximum_bytes (ws_policy ws) < sum_list (map so_size (ws_objects ws))
      \<or> maximum_objects (ws_policy ws) < int (length (ws_objects ws))
      \<or> available_bytes (ws_capacity ws) < minimum_free_bytes (ws_policy ws)
      \<or> available_inodes (ws_capacity ws) < minimum_free_inodes (ws_policy ws))"

definition expired :: "PruneWorkingSet \<Rightarrow> StoredObject \<Rightarrow> bool" where
  "expired ws item = (clock_trusted ws \<and> so_modified_ns item < cutoff_ns ws)"

definition key_path :: "pystr \<Rightarrow> pystr list" where
  "key_path key = split_on SLASH key"

text \<open>The insertion record of an object directory exists as long as its file does.\<close>

definition sync_record :: "pystr \<Rightarrow> fsnode \<Rightarrow> insertion_world \<Rightarrow> insertion_world" where
  "sync_record key rt w =
     w\<lparr>sequence_files := (case fs_lookup (key_path key @ [INSERTION_SEQUENCE_FILENAME]) rt of
                            None \<Rightarrow> (sequence_files w)(key := RecAbsent) | Some _ \<Rightarrow> sequence_files w),
       object_dirs := (object_dirs w)(key := (case fs_lookup (key_path key) rt of None \<Rightarrow> False | Some n \<Rightarrow> is_directory n))\<rparr>"

definition replace_object :: "store_io \<Rightarrow> pystr \<Rightarrow> fsnode option \<Rightarrow> Store \<Rightarrow> Store" where
  "replace_object io key v st =
     (let rt = fs_put (io_now io) v (key_path key) (fs_root st)
      in st\<lparr>fs_root := rt, order_world := sync_record key rt (order_world st)\<rparr>)"

text \<open>
  \<open>_remove_storage_path\<close> of an object directory: the tree and its insertion record go, or the
  deletion raises with part of the tree left.
\<close>

definition remove_storage_path :: "store_io \<Rightarrow> pystr \<Rightarrow> unit store_op" where
  "remove_storage_path io key st =
     (case deletion_failure io (key_path key) of
        Some keep \<Rightarrow>
          (Inl (Raised (OSError ''rmtree'')),
           replace_object io key (map_option (partial_delete keep) (fs_lookup (key_path key) (fs_root st))) st)
      | None \<Rightarrow> (Inr (), replace_object io key None st))"

definition forget_object :: "pystr \<Rightarrow> Store \<Rightarrow> Store" where
  "forget_object key st = st\<lparr>insertion_order := map_option (remove_object key) (insertion_order st)\<rparr>"

fun prune_loop ::
  "store_io \<Rightarrow> StoredObject list \<Rightarrow> PruneWorkingSet \<Rightarrow> int \<Rightarrow> int \<Rightarrow> (PruneWorkingSet \<times> int \<times> int) store_op" where
  "prune_loop io [] ws fb fo st = (Inr (ws, fb, fo), st)"
| "prune_loop io (candidate # rest) ws fb fo st =
     (if \<not> expired ws candidate \<and> \<not> prune_pressure ws then prune_loop io rest ws fb fo st
      else if leased st (so_key candidate) then prune_loop io rest ws fb fo st
      else case remove_storage_path io (so_key candidate) st of
        (Inl e, st1) \<Rightarrow> (Inl e, st1)
      | (Inr _, st1) \<Rightarrow>
          prune_loop io rest (ws\<lparr>ws_objects := remove1 candidate (ws_objects ws)\<rparr>)
            (fb + so_size candidate) (fo + 1) (forget_object (so_key candidate) st1))"

definition prune_unleased :: "store_io \<Rightarrow> PruneWorkingSet \<Rightarrow> (PruneWorkingSet \<times> int \<times> int) store_op" where
  "prune_unleased io ws st = prune_loop io (sort_key stored_object_order (ws_objects ws)) ws 0 0 st"

definition unsatisfied_blocker :: "PruneBlocker list \<Rightarrow> PublicationBlocker" where
  "unsatisfied_blocker bs =
     (if PB_CLOCK_ANOMALY \<in> set bs then PUB_CLOCK_ANOMALY
      else if PB_INODE_HEADROOM \<in> set bs then PUB_INODE_HEADROOM
      else if PB_BYTE_HEADROOM \<in> set bs then PUB_BYTE_HEADROOM
      else PUB_OBJECT_BUDGET)"

definition record_unsatisfied_prune :: "PruneBlocker list \<Rightarrow> unit store_op" where
  "record_unsatisfied_prune bs st =
     (case lifecycle_alert_new PRUNE_UNSATISFIED (map lifecycle_blocker_of_prune bs) of
        Inl e \<Rightarrow> (Inl (Raised e), st)
      | Inr alert \<Rightarrow> (Inr (), snd (close_admission (unsatisfied_blocker bs) alert st)))"

record PruneFinalization =
  fin_policy :: RetentionPolicy
  fin_now_ns :: int
  trusted_clock_observation :: bool
  fin_freed_bytes :: int
  fin_freed_objects :: int
  post_capacity :: StorageCapacity

definition prune_blockers :: "PruneFinalization \<Rightarrow> (pystr \<Rightarrow> bool) \<Rightarrow> StoredObject list \<Rightarrow> PruneBlocker list" where
  "prune_blockers fin held objects =
     (let p = fin_policy fin;
          clock_ok = (trusted_clock_observation fin \<and> \<not> list_ex (\<lambda>o1. fin_now_ns fin < so_modified_ns o1) objects);
          retained = length (filter (\<lambda>o1. held (so_key o1)) objects);
          over = (maximum_bytes p < sum_list (map so_size objects) \<or> maximum_objects p < int (length objects));
          found = (if over then [if 0 < retained then PB_LEASED_OBJECTS else PB_BYTE_HEADROOM] else [])
                  @ (if available_bytes (post_capacity fin) < minimum_free_bytes p then [PB_BYTE_HEADROOM] else [])
                  @ (if available_inodes (post_capacity fin) < minimum_free_inodes p then [PB_INODE_HEADROOM] else [])
                  @ (if clock_ok then [] else [PB_CLOCK_ANOMALY])
      in filter (\<lambda>b. b \<in> set found) all_prune_blockers)"

definition report_counts :: "PruneFinalization \<Rightarrow> (pystr \<Rightarrow> bool) \<Rightarrow> StoredObject list \<Rightarrow> prune_counts" where
  "report_counts fin held objects =
     \<lparr>freed_bytes = fin_freed_bytes fin, freed_objects = fin_freed_objects fin,
      retained_leased_objects = int (length (filter (\<lambda>o1. held (so_key o1)) objects)),
      post_stored_bytes = sum_list (map so_size objects), post_stored_objects = int (length objects),
      post_available_bytes = available_bytes (post_capacity fin),
      post_available_inodes = available_inodes (post_capacity fin)\<rparr>"

definition finish_prune_locked :: "PruneFinalization \<Rightarrow> PruneReport store_op" where
  "finish_prune_locked fin st =
     (case stored_objects st of
        Inl e \<Rightarrow> (Inl (Raised e), st)
      | Inr objects \<Rightarrow>
          (let st1 = st\<lparr>used_bytes := scan_existing_bytes (fs_root st)\<rparr>;
               bs = prune_blockers fin (leased st1) objects;
               counts = report_counts fin (leased st1) objects
           in if bs \<noteq> []
              then (case record_unsatisfied_prune bs st1 of
                      (Inl e, st2) \<Rightarrow> (Inl e, st2)
                    | (Inr _, st2) \<Rightarrow> (raised (prune_report_new (UnsatisfiedPruneReport bs counts)), st2))
              else (raised (prune_report_new (SatisfiedPruneReport counts)),
                    st1\<lparr>admission_closed_blocker := None\<rparr>)))"

text \<open>
  \<open>int(clock.utc_now.timestamp() * 1_000_000_000)\<close>: the timestamp is the float nearest to the seconds
  since the epoch, the product is rounded again, and \<open>int\<close> truncates towards zero.
\<close>

definition trunc_int :: "pyfloat \<Rightarrow> int" where
  "trunc_int x = (case x of Fin q \<Rightarrow> (if 0 \<le> q then \<lfloor>q\<rfloor> else \<lceil>q\<rceil>) | _ \<Rightarrow> 0)"

definition utc_now_ns :: "RetentionClockSample \<Rightarrow> int" where
  "utc_now_ns s = trunc_int (fmul (fl_round (of_int (utc_now s) / 1000000)) (Fin 1000000000))"

definition prune_working_set ::
  "RetentionPolicy \<Rightarrow> StorageCapacity \<Rightarrow> int \<Rightarrow> bool \<Rightarrow> StoredObject list \<Rightarrow> PruneWorkingSet" where
  "prune_working_set p cap now observed objects =
     \<lparr>ws_objects = objects, ws_policy = p, ws_capacity = cap,
      cutoff_ns = now - maximum_age_seconds p * 1000000000,
      clock_trusted = (observed \<and> \<not> list_ex (\<lambda>o1. now < so_modified_ns o1) objects)\<rparr>"

definition prune_locked :: "store_io \<Rightarrow> RetentionPolicy \<Rightarrow> RetentionClockSample \<Rightarrow> StorageCapacity \<Rightarrow> PruneReport store_op" where
  "prune_locked io p clock cap st =
     (case observe_clock io clock st of
        (Inl e, st1) \<Rightarrow> (Inl e, st1)
      | (Inr observed, st1) \<Rightarrow>
          (case stored_objects st1 of
             Inl e \<Rightarrow> (Inl (Raised e), st1)
           | Inr objects \<Rightarrow>
               (case prune_unleased io (prune_working_set p cap (utc_now_ns clock) observed objects) st1 of
                  (Inl e, st2) \<Rightarrow> (Inl e, st2)
                | (Inr (ws, fb, fo), st2) \<Rightarrow>
                    (let st3 = st2\<lparr>used_bytes := scan_existing_bytes (fs_root st2)\<rparr>
                     in case sample_capacity io 2 1 of
                          Inl e \<Rightarrow> (Inl (Raised e), st3)
                        | Inr cap' \<Rightarrow>
                            finish_prune_locked
                              \<lparr>fin_policy = p, fin_now_ns = utc_now_ns clock, trusted_clock_observation = observed,
                               fin_freed_bytes = fb, fin_freed_objects = fo, post_capacity = cap'\<rparr> st3))))"

definition prune :: "store_io \<Rightarrow> RetentionPolicy \<Rightarrow> RetentionClockSample \<Rightarrow> PruneReport store_op" where
  "prune io p clock st =
     (case rbind (require_lifecycle_policy p st) (\<lambda>_.
           rbind (verify_store_root_identity io 0) (\<lambda>_. sample_capacity io 1 0)) of
        Inl e \<Rightarrow> (Inl (Raised e), st)
      | Inr cap \<Rightarrow> prune_locked io p clock cap st)"

definition reconcile_lifecycle :: "store_io \<Rightarrow> PruneReport store_op" where
  "reconcile_lifecycle io st =
     (case retention_policy st of
        None \<Rightarrow> (Inl (Raised (ValueError ''retention lifecycle is unavailable'')), st)
      | Some p \<Rightarrow>
          if \<not> clock_sampler_bound st then (Inl (Raised (ValueError ''retention lifecycle is unavailable'')), st)
          else case clock_sampled io of
            Inl e \<Rightarrow> (Inl (Raised e), st)
          | Inr s \<Rightarrow> prune io p s st)"

section \<open>Readiness\<close>

text \<open>
  \<open>ensure_ready\<close> after its directory checks, which read the tree and change nothing: the capacity
  test and the latch.
\<close>

definition ready_objects :: "Store \<Rightarrow> int res" where
  "ready_objects st =
     (if retention_policy st = None then Inr 0 else rbind (stored_objects st) (\<lambda>objects. Inr (int (length objects))))"

definition insufficient_capacity :: "StorageCapacity \<Rightarrow> int \<Rightarrow> Store \<Rightarrow> bool" where
  "insufficient_capacity cap objects st =
     (available_bytes cap = 0 \<or> available_inodes cap = 0
      \<or> (case retention_policy st of
            Some p \<Rightarrow>
              maximum_bytes p < used_bytes st + reserved_bytes st + publication_reserved_bytes st
              \<or> maximum_objects p < objects + publication_reserved_objects st
              \<or> available_bytes cap < minimum_free_bytes p + (reserved_bytes st + publication_reserved_bytes st)
              \<or> available_inodes cap < minimum_free_inodes p + publication_reserved_inodes st
          | None \<Rightarrow> max_bytes st < used_bytes st + reserved_bytes st + publication_reserved_bytes st))"

definition ensure_ready_locked :: "StorageCapacity \<Rightarrow> Store \<Rightarrow> unit res" where
  "ensure_ready_locked cap st =
     rbind (ready_objects st)
       (\<lambda>objects. if admission_closed_blocker st \<noteq> None \<or> insufficient_capacity cap objects st
                   then app_fail CACHE_FULL ''The artifact lifecycle is not ready for publication.'' 503
                   else Inr ())"

section \<open>An example store\<close>

definition example_stat :: "int \<Rightarrow> int \<Rightarrow> file_stat" where
  "example_stat mode mtime =
     \<lparr>st_uid = 7, st_gid = 7, st_permissions = mode, st_dev = 1, st_ino = 1, st_nlink = 1, st_mtime_ns = mtime,
      st_ctime_ns = mtime\<rparr>"

definition example_object :: "int \<Rightarrow> bytes \<Rightarrow> fsnode" where
  "example_object mtime content =
     Directory (example_stat 448 mtime) [(codes ''f.pdf'', RegularFile (example_stat 384 mtime) content)]"

definition example_root :: fsnode where
  "example_root =
     Directory (example_stat 448 0)
       [(codes ''documents'', Directory (example_stat 448 0)
           [(codes ''a'', example_object 105000000000 [1, 2, 3]), (codes ''b'', example_object 104000000000 [4, 5]),
            (codes ''c'', example_object 105000000000 [6])]),
        (codes ''renders'', Directory (example_stat 448 0) []), (codes ''.staging'', Directory (example_stat 448 0) [])]"

definition example_policy :: RetentionPolicy where
  "example_policy =
     \<lparr>maximum_age_seconds = 60, maximum_bytes = 100, maximum_objects = 2, minimum_free_bytes = 50,
      minimum_free_inodes = 5\<rparr>"

definition example_store_order :: PersistentInsertionOrder where
  "example_store_order =
     \<lparr>next_sequence = 4,
      sequences = [codes ''documents/a'' \<mapsto> 1, codes ''documents/b'' \<mapsto> 2, codes ''documents/c'' \<mapsto> 3]\<rparr>"

definition example_store :: Store where
  "example_store =
     \<lparr>fs_root = example_root, max_bytes = 200, used_bytes = 6, reserved_bytes = 0, staging_reservations = [],
      retention_policy = Some example_policy,
      clock_high_water = Some (example_clock (StoredState (baseline_record (example_sample 100 10)))),
      clock_sampler_bound = True, insertion_order = Some example_store_order, order_world = fresh_world,
      reservation_objects = [], publication_reservations = [], publication_reserved_bytes = 0,
      publication_reserved_objects = 0, publication_reserved_inodes = 0, emitted_alerts = [],
      admission_closed_blocker = None, asset_leases = [(codes ''documents/a'', 1)], render_transaction_leases = []\<rparr>"

definition example_capacity :: "int \<Rightarrow> StorageCapacity" where
  "example_capacity free =
     \<lparr>total_bytes = 10000, available_bytes = free, total_inodes = 1000, available_inodes = 500\<rparr>"

definition example_store_io :: "int \<Rightarrow> store_io" where
  "example_store_io free =
     \<lparr>root_ok = (\<lambda>_. True), capacity_at = (\<lambda>_. Inr (example_capacity free)),
      clock_sampled = Inr (example_sample 106 16), clock_env = example_io,
      deletion_failure = (\<lambda>_. None), io_now = 106000000000, io_euid = 7, io_egid = 7\<rparr>"

section \<open>Properties\<close>

text \<open>Paths the asset resolver accepts: clean parts under an approved namespace.\<close>

definition clean_asset_parts :: "pystr list \<Rightarrow> bool" where
  "clean_asset_parts ps =
     (ps \<noteq> [] \<and> hd ps \<in> {codes ''documents'', codes ''renders''}
      \<and> (\<forall>p\<in>set ps. \<not> dot_part p \<and> SLASH \<notin> set p \<and> 92 \<notin> set p \<and> 0 \<notin> set p))"

definition private_directory :: "int \<Rightarrow> int \<Rightarrow> fsnode \<Rightarrow> bool" where
  "private_directory euid egid n =
     (is_directory n \<and> owned_with_mode euid egid PRIVATE_DIRECTORY_MODE (node_stat n))"

lemma set_join_with: "set (join_with sep ws) \<subseteq> set sep \<union> (\<Union>w\<in>set ws. set w)" "(\<Union>w\<in>set ws. set w) \<subseteq> set (join_with sep ws)"
  by (induction sep ws rule: join_with.induct) auto

lemma validated_asset_parts_complete:
  assumes "clean_asset_parts ps"
  shows "validated_asset_parts (join_with [SLASH] ps) = Inr ps"
proof -
  have ps: "ps \<noteq> []" "\<forall>p\<in>set ps. SLASH \<notin> set p" "\<forall>p\<in>set ps. \<not> dot_part p" using assms by (auto simp: clean_asset_parts_def)
  let ?s = "join_with [SLASH] ps"
  have sp: "split_on SLASH ?s = ps" using split_on_join [OF ps(1,2)] .
  have nm: "posix_names ?s = ps" unfolding posix_names_def sp using ps(3) by (auto simp: dot_part_def intro!: filter_True)
  obtain p qs where p: "ps = p # qs" using ps(1) by (cases ps) auto
  then obtain c cs where c: "p = c # cs" "c \<noteq> SLASH" using ps(2,3) by (cases p) (auto simp: dot_part_def)
  have s: "?s = c # tl ?s" unfolding p c(1) by (cases qs) auto
  have rt: "posix_root ?s = []" using c(2) by (subst s) (simp add: posix_root_def starts_with_def)
  have ch: "92 \<notin> set ?s" "0 \<notin> set ?s"
    using set_join_with(1) [of "[SLASH]" ps] assms by (auto simp: clean_asset_parts_def SLASH_def)
  have "?s \<noteq> []" using s by (metis list.distinct(1))
  moreover have "as_posix ?s = ?s" using nm rt ps(1) by (simp add: as_posix_def)
  moreover have "posix_parts ?s = ps" using rt nm by (simp add: posix_parts_def)
  moreover have "\<not> list_ex dot_part ps" using ps(3) by (simp add: list_ex_iff)
  moreover have "hd ps \<in> fst ` set ALLOWED_NAMESPACES" using assms by (auto simp: clean_asset_parts_def ALLOWED_NAMESPACES_def)
  ultimately show ?thesis using ch ps(1) rt by (simp add: validated_asset_parts_def posix_is_absolute_def)
qed

lemma validated_asset_parts_iff:
  "validated_asset_parts s = Inr ps \<longleftrightarrow> clean_asset_parts ps \<and> s = join_with [SLASH] ps"
proof
  assume "validated_asset_parts s = Inr ps"
  from validated_asset_parts_sound [OF this] show "clean_asset_parts ps \<and> s = join_with [SLASH] ps"
    using set_join_with(2) [of ps "[SLASH]"] unfolding clean_asset_parts_def by blast
qed (use validated_asset_parts_complete in blast)

lemma resolve_private_asset_complete:
  "is_directory d \<Longrightarrow> ps \<noteq> [] \<Longrightarrow> fs_lookup ps d = Some f \<Longrightarrow> private_regular_file euid egid f \<Longrightarrow>
   (\<forall>k. 0 < k \<and> k < length ps \<longrightarrow> (\<exists>n. fs_lookup (take k ps) d = Some n \<and> private_directory euid egid n)) \<Longrightarrow>
   resolve_private_asset euid egid ps d = Inr ()"
proof (induction euid egid ps d rule: resolve_private_asset.induct)
  case (2 euid egid p d)
  then show ?case
    by (cases d; cases f)
      (auto simp: validate_resolved_asset_file_def private_regular_file_def split: option.splits)
next
  case (3 euid egid p q ps d)
  obtain s cs where d: "d = Directory s cs" using 3(2) by (cases d) auto
  obtain n where n: "map_of cs p = Some n" "fs_lookup (q # ps) n = Some f"
    using 3(4) by (auto simp: d split: option.splits)
  have "\<exists>m. fs_lookup (take 1 (p # q # ps)) d = Some m \<and> private_directory euid egid m" using 3(6) by auto
  then have nd: "private_directory euid egid n" using n(1) by (simp add: d)
  have "\<forall>k. 0 < k \<and> k < length (q # ps) \<longrightarrow> (\<exists>m. fs_lookup (take k (q # ps)) n = Some m \<and> private_directory euid egid m)"
  proof (intro allI impI)
    fix k assume "0 < k \<and> k < length (q # ps)"
    then have "\<exists>m. fs_lookup (take (Suc k) (p # q # ps)) d = Some m \<and> private_directory euid egid m" using 3(6) by auto
    then show "\<exists>m. fs_lookup (take k (q # ps)) n = Some m \<and> private_directory euid egid m" using n(1) by (simp add: d)
  qed
  moreover have "open_resolved_asset_directory euid egid n = Inr ()" "is_directory n"
    using nd by (cases n; auto simp: private_directory_def open_resolved_asset_directory_def)+
  ultimately show ?case using 3(1) [of n] n 3(5) by (simp add: d)
qed simp

text \<open>
  C26. An asset path resolves exactly when it is the slash-joined form of clean parts (no empty, dot or dot-dot
  part, no backslash or NUL) below \<^verbatim>\<open>documents\<close> or \<^verbatim>\<open>renders\<close>, every directory on the way is a real
  directory of mode 0700 owned by the process, and the last part is a singly linked regular file of mode
  0600 owned by it. No symbolic link is ever followed and nothing outside the two namespaces is reached.
\<close>

theorem resolve_asset_exact:
  assumes "is_directory rt"
  shows "resolve_asset euid egid rt s = Inr ps \<longleftrightarrow>
     clean_asset_parts ps \<and> s = join_with [SLASH] ps
     \<and> (\<exists>f. fs_lookup ps rt = Some f \<and> private_regular_file euid egid f)
     \<and> (\<forall>k. 0 < k \<and> k < length ps \<longrightarrow> (\<exists>n. fs_lookup (take k ps) rt = Some n \<and> private_directory euid egid n))"
proof
  assume h: "resolve_asset euid egid rt s = Inr ps"
  then have v: "validated_asset_parts s = Inr ps" "resolve_private_asset euid egid ps rt = Inr ()"
    by (auto simp: resolve_asset_def rbind_eq_Inr)
  from resolve_private_asset_sound [OF assms v(2)] v(1) show "clean_asset_parts ps \<and> s = join_with [SLASH] ps
     \<and> (\<exists>f. fs_lookup ps rt = Some f \<and> private_regular_file euid egid f)
     \<and> (\<forall>k. 0 < k \<and> k < length ps \<longrightarrow> (\<exists>n. fs_lookup (take k ps) rt = Some n \<and> private_directory euid egid n))"
    by (auto simp: validated_asset_parts_iff private_directory_def)
next
  assume h: "clean_asset_parts ps \<and> s = join_with [SLASH] ps
     \<and> (\<exists>f. fs_lookup ps rt = Some f \<and> private_regular_file euid egid f)
     \<and> (\<forall>k. 0 < k \<and> k < length ps \<longrightarrow> (\<exists>n. fs_lookup (take k ps) rt = Some n \<and> private_directory euid egid n))"
  then obtain f where f: "fs_lookup ps rt = Some f" "private_regular_file euid egid f" by blast
  have "ps \<noteq> []" using h by (simp add: clean_asset_parts_def)
  with h f resolve_private_asset_complete [OF assms _ f] validated_asset_parts_complete
  show "resolve_asset euid egid rt s = Inr ps" by (auto simp: resolve_asset_def)
qed

theorem resolve_asset_exact_witness:
  "resolve_asset 7 7 example_root (codes ''documents/a/f.pdf'') = Inr [codes ''documents'', codes ''a'', codes ''f.pdf'']
   \<and> clean_asset_parts [codes ''documents'', codes ''a'', codes ''f.pdf'']
   \<and> \<not> is_ok (resolve_asset 7 7 example_root (codes ''documents/../.staging/x''))"
proof -
  have d: "is_directory example_root" by code_simp
  have r: "resolve_asset 7 7 example_root (codes ''documents/a/f.pdf'') = Inr [codes ''documents'', codes ''a'', codes ''f.pdf'']"
    by code_simp
  moreover have "\<not> is_ok (resolve_asset 7 7 example_root (codes ''documents/../.staging/x''))" by code_simp
  moreover have "clean_asset_parts [codes ''documents'', codes ''a'', codes ''f.pdf'']"
    using r resolve_asset_exact [OF d] by blast
  ultimately show ?thesis by blast
qed

end
