(* ===== verification/Nplg_Prune.thy ===== *)
theory Nplg_Prune
  imports Nplg_Store "HOL-Library.Multiset"
begin

text \<open>
  Pruning of the artifact store (\<open>ContentAddressedStore.prune\<close>, \<open>_prune_unleased\<close>, \<open>_finish_prune_locked\<close>). The
  deletion loop is refined to the list of objects it evicts; the lemmas follow the inventory
  through the deletions, and the properties say which objects a prune removes, that leased
  objects stay, and what a satisfied or unsatisfied report means for admission.
\<close>

section \<open>Lemmas on pruning\<close>

text \<open>The objects a prune evicts, as a function of what is leased: the specification of the loop.\<close>

fun evictions :: "(pystr \<Rightarrow> bool) \<Rightarrow> StoredObject list \<Rightarrow> PruneWorkingSet \<Rightarrow> StoredObject list" where
  "evictions held [] ws = []"
| "evictions held (candidate # rest) ws =
     (if (expired ws candidate \<or> prune_pressure ws) \<and> \<not> held (so_key candidate)
      then candidate # evictions held rest (ws\<lparr>ws_objects := remove1 candidate (ws_objects ws)\<rparr>)
      else evictions held rest ws)"

definition delete_object :: "store_io \<Rightarrow> Store \<Rightarrow> StoredObject \<Rightarrow> Store" where
  "delete_object io st item = forget_object (so_key item) (replace_object io (so_key item) None st)"

lemma leased_simps [simp]:
  "leased (replace_object io key v st) = leased st" "leased (forget_object key st) = leased st"
  "leased (delete_object io st item) = leased st" "leased (st\<lparr>used_bytes := u\<rparr>) = leased st"
  "leased (st\<lparr>clock_high_water := c\<rparr>) = leased st" "leased (st\<lparr>admission_closed_blocker := ab\<rparr>) = leased st"
  by (simp_all add: leased_def fun_eq_iff replace_object_def forget_object_def delete_object_def Let_def)

lemma expired_objects [simp]: "expired (ws\<lparr>ws_objects := os\<rparr>) = expired ws"
  by (simp add: expired_def fun_eq_iff)

lemma prune_loop_refines_evictions:
  assumes "prune_loop io cs ws fb fo st = (Inr (ws', fb', fo'), st')"
  shows "ws' = ws\<lparr>ws_objects := foldl (\<lambda>os x. remove1 x os) (ws_objects ws) (evictions (leased st) cs ws)\<rparr>
     \<and> fb' = fb + sum_list (map so_size (evictions (leased st) cs ws))
     \<and> fo' = fo + int (length (evictions (leased st) cs ws))
     \<and> st' = foldl (delete_object io) st (evictions (leased st) cs ws)"
  using assms
proof (induction io cs ws fb fo st rule: prune_loop.induct)
  case (2 io candidate rest ws fb fo st)
  show ?case
  proof (cases "(expired ws candidate \<or> prune_pressure ws) \<and> \<not> leased st (so_key candidate)")
    case True
    have nf: "deletion_failure io (key_path (so_key candidate)) = None"
      using 2(4) True by (auto simp: remove_storage_path_def split: option.splits if_splits)
    have "prune_loop io rest (ws\<lparr>ws_objects := remove1 candidate (ws_objects ws)\<rparr>)
       (fb + so_size candidate) (fo + 1) (delete_object io st candidate) = (Inr (ws', fb', fo'), st')"
      using 2(4) True nf by (auto simp: remove_storage_path_def delete_object_def split: if_splits)
    with 2(3) True nf show ?thesis
      by (auto simp: remove_storage_path_def delete_object_def)
  next
    case False
    then show ?thesis using 2(1,2,4) by (auto split: if_splits)
  qed
qed simp

lemma remove1_pressure:
  assumes "prune_pressure (ws\<lparr>ws_objects := remove1 x os\<rparr>)" "\<forall>y\<in>set os. 0 \<le> so_size y" "ws_objects ws = os"
  shows "prune_pressure ws"
proof -
  have "sum_list (map so_size (remove1 x os)) \<le> sum_list (map so_size os)"
    using assms(2) by (induction os) (auto intro: order_trans)
  moreover have "length (remove1 x os) \<le> length os" by (simp add: length_remove1)
  ultimately show ?thesis using assms(1,3) by (auto simp: prune_pressure_def)
qed

lemma evictions_set: "set (evictions held cs ws) \<subseteq> set cs"
  by (induction held cs ws rule: evictions.induct) auto

lemma evictions_unheld: "x \<in> set (evictions held cs ws) \<Longrightarrow> \<not> held (so_key x)"
  by (induction held cs ws rule: evictions.induct) (auto split: if_splits)

lemma evictions_no_pressure:
  "\<not> prune_pressure ws \<Longrightarrow> \<forall>y\<in>set (ws_objects ws). 0 \<le> so_size y \<Longrightarrow>
   x \<in> set (evictions held cs ws) \<Longrightarrow> expired ws x"
proof (induction held cs ws rule: evictions.induct)
  case (2 held c cs ws)
  have "\<not> prune_pressure (ws\<lparr>ws_objects := remove1 c (ws_objects ws)\<rparr>)"
    using remove1_pressure 2(3,4) by blast
  moreover have "\<forall>y\<in>set (remove1 c (ws_objects ws)). 0 \<le> so_size y"
    using 2(4) by (auto dest: set_remove1_subset [THEN subsetD])
  ultimately show ?case using 2 by (auto split: if_splits)
qed simp

abbreviation remaining :: "(pystr \<Rightarrow> bool) \<Rightarrow> StoredObject list \<Rightarrow> PruneWorkingSet \<Rightarrow> StoredObject list" where
  "remaining held cs ws \<equiv> foldl (\<lambda>os x. remove1 x os) (ws_objects ws) (evictions held cs ws)"

text \<open>A candidate that stays is leased, or it is not expired and the pressure is gone.\<close>

lemma evictions_retained:
  assumes "distinct cs" "\<forall>y\<in>set (ws_objects ws). 0 \<le> so_size y" "x \<in> set cs" "x \<notin> set (evictions held cs ws)"
  shows "held (so_key x) \<or> \<not> expired ws x \<and> \<not> prune_pressure (ws\<lparr>ws_objects := remaining held cs ws\<rparr>)"
  using assms
proof (induction held cs ws rule: evictions.induct)
  case (2 held c cs ws)
  let ?ws = "ws\<lparr>ws_objects := remove1 c (ws_objects ws)\<rparr>"
  have nn: "\<forall>y\<in>set (ws_objects ?ws). 0 \<le> so_size y"
    using 2(4) by (auto dest: set_remove1_subset [THEN subsetD])
  show ?case
  proof (cases "(expired ws c \<or> prune_pressure ws) \<and> \<not> held (so_key c)")
    case True
    then show ?thesis using 2 nn by auto
  next
    case False
    show ?thesis
    proof (cases "x = c")
      case xc: True
      have "\<not> prune_pressure (ws\<lparr>ws_objects := foldl (\<lambda>os x. remove1 x os) os es\<rparr>)"
        if "\<not> prune_pressure (ws\<lparr>ws_objects := os\<rparr>)" "\<forall>y\<in>set os. 0 \<le> so_size y" for os es
        using that
      proof (induction es arbitrary: os)
        case (Cons e es)
        have "\<not> prune_pressure (ws\<lparr>ws_objects := remove1 e os\<rparr>)"
          using remove1_pressure [where ws = "ws\<lparr>ws_objects := os\<rparr>" and x = e and os = os] Cons.prems by auto
        then show ?case using Cons by (auto dest: set_remove1_subset [THEN subsetD])
      qed simp
      from this [of "ws_objects ws"] show ?thesis using False xc 2(4) by auto
    next
      case False2: False
      then show ?thesis using 2 False by auto
    qed
  qed
qed simp

text \<open>Eviction goes in candidate order: nothing unexpired is evicted while an earlier unleased candidate stays.\<close>

lemma evictions_in_order:
  assumes "distinct (pre @ x # suf)" "\<forall>y\<in>set (ws_objects ws). 0 \<le> so_size y"
    "x \<notin> set (evictions held (pre @ x # suf) ws)" "\<not> held (so_key x)"
    "y \<in> set suf" "y \<in> set (evictions held (pre @ x # suf) ws)"
  shows "expired ws y"
  using assms
proof (induction pre arbitrary: ws)
  case Nil
  then have "\<not> prune_pressure ws" "y \<in> set (evictions held suf ws)" by (auto split: if_splits)
  then show ?case using evictions_no_pressure Nil.prems(2) by blast
next
  case (Cons c pre)
  let ?ws = "ws\<lparr>ws_objects := remove1 c (ws_objects ws)\<rparr>"
  have nn: "\<forall>y\<in>set (ws_objects ?ws). 0 \<le> so_size y"
    using Cons.prems(2) by (auto dest: set_remove1_subset [THEN subsetD])
  have "y \<noteq> c" using Cons.prems(1,5) by auto
  then show ?case using Cons.IH [of ws] Cons.IH [of ?ws] Cons.prems nn by (auto split: if_splits)
qed

section \<open>The inventory under deletions\<close>

lemma collect_filter:
  assumes "collect f xs = Inr ys" "\<And>x y. x \<in> set xs \<Longrightarrow> f x = Inr y \<Longrightarrow> (P x \<longrightarrow> g x = Inr y) \<and> (Q y \<longleftrightarrow> P x)"
  shows "collect g (filter P xs) = Inr (filter Q ys)"
  using assms
proof (induction xs arbitrary: ys)
  case (Cons x xs)
  obtain y zs where y: "f x = Inr y" "collect f xs = Inr zs" "ys = y # zs"
    using Cons.prems(1) by (auto simp: rbind_eq_Inr)
  have "collect g (filter P xs) = Inr (filter Q zs)" using Cons.IH [OF y(2)] Cons.prems(2) by simp
  moreover have "(P x \<longrightarrow> g x = Inr y) \<and> (Q y \<longleftrightarrow> P x)" using Cons.prems(2) [of x y] y(1) by simp
  ultimately show ?case by (simp add: y)
qed simp

lemma collect_members: "collect f xs = Inr ys \<Longrightarrow> y \<in> set ys \<Longrightarrow> \<exists>x\<in>set xs. f x = Inr y"
  by (induction xs arbitrary: ys) (auto simp: rbind_eq_Inr)

lemma collect_all: "collect f xs = Inr ys \<Longrightarrow> x \<in> set xs \<Longrightarrow> \<exists>y. f x = Inr y"
  by (induction xs arbitrary: ys) (auto simp: rbind_eq_Inr)

lemma collect_map: "collect f xs = Inr ys \<Longrightarrow> (\<And>x y. f x = Inr y \<Longrightarrow> h y = k x) \<Longrightarrow> map h ys = map k xs"
  by (induction xs arbitrary: ys) (auto simp: rbind_eq_Inr)

lemma namespace_no_slash: "e \<in> set ALLOWED_NAMESPACES \<Longrightarrow> SLASH \<notin> set (fst e)"
  by (auto simp: ALLOWED_NAMESPACES_def SLASH_def)

lemma key_path_object_key [simp]:
  "SLASH \<notin> set ns \<Longrightarrow> SLASH \<notin> set name \<Longrightarrow> key_path (object_key ns name) = [ns, name]"
  by (simp add: key_path_def object_key_def split_on_append split_on_single)

lemma stored_object_key: "stored_object ord ns c = Inr item \<Longrightarrow> so_key item = object_key ns (fst c)"
  by (auto simp: stored_object_def corrupted_def rbind_eq_Inr split: if_splits option.splits)

lemma stored_object_forget:
  "object_key ns (fst c) \<noteq> key \<Longrightarrow> stored_object (remove_object key ord) ns c = stored_object ord ns c"
proof -
  assume "object_key ns (fst c) \<noteq> key"
  then have "sequence_for (object_key ns (fst c)) (remove_object key ord) = sequence_for (object_key ns (fst c)) ord"
    by (simp add: sequence_for_def remove_object_def)
  then show ?thesis by (auto simp: stored_object_def split: option.splits)
qed

lemma entry_names:
  assumes "fs_wf rt" "(ns, c) \<in> set (object_entries rt)"
  shows "SLASH \<notin> set ns \<and> SLASH \<notin> set (fst c)
    \<and> (\<exists>s cs. fs_lookup [ns] rt = Some (Directory s cs) \<and> map_of cs (fst c) = Some (snd c))"
proof -
  obtain e where e: "e \<in> set ALLOWED_NAMESPACES" "ns = fst e" "(ns, c) \<in> set (namespace_children rt (fst e))"
    using assms(2) by (auto simp: object_entries_def namespace_children_def split: option.splits)
  then obtain d where d: "fs_lookup [ns] rt = Some d" "c \<in> set (children d)"
    by (cases "fs_lookup [ns] rt") (auto simp: namespace_children_def)
  then obtain s cs where cs: "d = Directory s cs" "c \<in> set cs" by (cases d) auto
  obtain s0 cs0 where rt: "rt = Directory s0 cs0" "map_of cs0 ns = Some d"
    using d(1) by (cases rt) (auto split: option.splits)
  have "fs_wf d" using assms(1) rt fs_wf_child by blast
  then show ?thesis using cs d(1) namespace_no_slash [OF e(1)] e(2)
    by (auto simp: list_all_iff intro: map_of_is_SomeI)
qed

lemma entries_delete:
  assumes "fs_wf rt" "(ns, c) \<in> set (object_entries rt)"
  shows "object_entries (fs_put now None [ns, fst c] rt) =
     filter (\<lambda>e. (fst e, fst (snd e)) \<noteq> (ns, fst c)) (object_entries rt)"
proof -
  obtain s cs where l: "fs_lookup [ns] rt = Some (Directory s cs)" using entry_names [OF assms] by blast
  then obtain s0 cs0 where rt: "rt = Directory s0 cs0" "map_of cs0 ns = Some (Directory s cs)"
    by (cases rt) (auto split: option.splits)
  have "namespace_children (fs_put now None [ns, fst c] rt) ns' =
    filter (\<lambda>e. (fst e, fst (snd e)) \<noteq> (ns, fst c)) (namespace_children rt ns')" for ns'
  proof (cases "ns' = ns")
    case True
    then show ?thesis using rt
      by (simp add: namespace_children_def map_of_dict_set dict_put_def dict_del_def filter_sort filter_map comp_def)
  next
    case False
    then show ?thesis using rt
      by (auto simp: namespace_children_def map_of_dict_set filter_map comp_def split: option.splits)
  qed
  then show ?thesis by (simp add: object_entries_def filter_concat comp_def)
qed

lemma stored_objects_eq:
  "stored_objects st = Inr objs \<longleftrightarrow>
   (\<exists>ord. insertion_order st = Some ord \<and> int (length objs) \<le> MAX_LIFECYCLE_OBJECTS
     \<and> collect (\<lambda>(ns, c). stored_object ord ns c) (object_entries (fs_root st)) = Inr objs)"
proof (cases "insertion_order st")
  case (Some ord)
  then show ?thesis by (cases "collect (\<lambda>(ns, c). stored_object ord ns c) (object_entries (fs_root st))")
    (auto simp: stored_objects_def)
qed (simp add: stored_objects_def)

lemma stored_objects_keys:
  assumes "fs_wf (fs_root st)" "stored_objects st = Inr objs"
  shows "distinct (map so_key objs)"
    and "\<And>item. item \<in> set objs \<Longrightarrow> \<exists>ns c. (ns, c) \<in> set (object_entries (fs_root st)) \<and> so_key item = object_key ns (fst c)
          \<and> key_path (so_key item) = [ns, fst c]"
proof -
  obtain ord where ord: "collect (\<lambda>(ns, c). stored_object ord ns c) (object_entries (fs_root st)) = Inr objs"
    using assms(2) by (auto simp: stored_objects_eq)
  show m: "\<exists>ns c. (ns, c) \<in> set (object_entries (fs_root st)) \<and> so_key item = object_key ns (fst c)
          \<and> key_path (so_key item) = [ns, fst c]" if item: "item \<in> set objs" for item
  proof -
    obtain ns c where e: "(ns, c) \<in> set (object_entries (fs_root st))" "stored_object ord ns c = Inr item"
      using collect_members [OF ord item] by auto
    then have "so_key item = object_key ns (fst c)" by (simp add: stored_object_key)
    with e entry_names [OF assms(1) e(1)] show ?thesis by (metis key_path_object_key)
  qed
  have keys: "map so_key objs = map (\<lambda>e. object_key (fst e) (fst (snd e))) (object_entries (fs_root st))"
    using collect_map [OF ord, of so_key] stored_object_key by fastforce
  have inj: "inj_on (\<lambda>p. object_key (fst p) (snd p)) {p. SLASH \<notin> set (fst p) \<and> SLASH \<notin> set (snd p)}"
    by (rule inj_onI) (metis (mono_tags, lifting) key_path_object_key list.inject mem_Collect_eq prod.collapse)
  have sub: "set (map (\<lambda>e. (fst e, fst (snd e))) (object_entries (fs_root st)))
      \<subseteq> {p. SLASH \<notin> set (fst p) \<and> SLASH \<notin> set (snd p)}"
    using entry_names [OF assms(1)] by auto
  have dn: "distinct (map (\<lambda>e. (fst e, fst (snd e))) (namespace_children (fs_root st) ns))" for ns
  proof (cases "fs_lookup [ns] (fs_root st)")
    case (Some d)
    obtain s0 cs0 where rt: "fs_root st = Directory s0 cs0" "map_of cs0 ns = Some d"
      using Some by (cases "fs_root st") (auto split: option.splits)
    have "fs_wf d" using assms(1) rt fs_wf_child by metis
    then have "distinct (map fst (children d))" by (cases d) simp_all
    then have "distinct (map fst (sort_key fst (children d)))"
      by (metis distinct_map distinct_sort set_sort)
    then have "distinct (map (Pair ns) (map fst (sort_key fst (children d))))"
      by (simp add: distinct_map inj_on_def)
    then show ?thesis using Some by (simp add: namespace_children_def comp_def)
  qed (simp add: namespace_children_def)
  have "distinct (map (\<lambda>e. (fst e, fst (snd e))) (object_entries (fs_root st)))"
  proof -
    have "\<forall>e\<in>set (namespace_children (fs_root st) ns). fst e = ns" for ns
      by (auto simp: namespace_children_def split: option.splits)
    then have "set (map (\<lambda>e. (fst e, fst (snd e))) (namespace_children (fs_root st) (codes ''documents'')))
      \<inter> set (map (\<lambda>e. (fst e, fst (snd e))) (namespace_children (fs_root st) (codes ''renders''))) = {}"
      by fastforce
    then show ?thesis using dn by (simp add: object_entries_def ALLOWED_NAMESPACES_def del: codes_simps)
  qed
  then have "distinct (map (\<lambda>p. object_key (fst p) (snd p)) (map (\<lambda>e. (fst e, fst (snd e))) (object_entries (fs_root st))))"
    using inj sub by (metis (no_types, lifting) distinct_map inj_on_subset)
  then show "distinct (map so_key objs)" by (simp add: keys comp_def)
qed

lemma delete_object_wf: "fs_wf (fs_root st) \<Longrightarrow> fs_wf (fs_root (delete_object io st item))"
  by (simp add: delete_object_def forget_object_def replace_object_def Let_def fs_put_wf)

lemma stored_objects_delete:
  assumes "fs_wf (fs_root st)" "stored_objects st = Inr objs" "item \<in> set objs"
  shows "stored_objects (delete_object io st item) = Inr (remove1 item objs)"
proof -
  obtain ord where ord: "insertion_order st = Some ord" "int (length objs) \<le> MAX_LIFECYCLE_OBJECTS"
    "collect (\<lambda>(ns, c). stored_object ord ns c) (object_entries (fs_root st)) = Inr objs"
    using assms(2) by (auto simp: stored_objects_eq)
  obtain ns c where e: "(ns, c) \<in> set (object_entries (fs_root st))" "so_key item = object_key ns (fst c)"
    "key_path (so_key item) = [ns, fst c]" using stored_objects_keys(2) [OF assms] by blast
  let ?P = "\<lambda>e. (fst e, fst (snd e)) \<noteq> (ns, fst c)"
  have en: "object_entries (fs_root (delete_object io st item)) = filter ?P (object_entries (fs_root st))"
    using entries_delete [OF assms(1) e(1)] e(3)
    by (simp add: delete_object_def forget_object_def replace_object_def Let_def)
  have same: "object_key (fst x) (fst (snd x)) = so_key item \<longleftrightarrow> \<not> ?P x" if "x \<in> set (object_entries (fs_root st))" for x
    using entry_names [OF assms(1), of "fst x" "snd x"] that e(2,3) by (metis fst_conv key_path_object_key list.inject prod.collapse snd_conv)
  have "collect (\<lambda>(ns, c). stored_object (remove_object (so_key item) ord) ns c) (filter ?P (object_entries (fs_root st)))
      = Inr (filter (\<lambda>o1. so_key o1 \<noteq> so_key item) objs)"
  proof (rule collect_filter [OF ord(3)])
    fix x y
    assume x: "x \<in> set (object_entries (fs_root st))" "(case x of (ns, c) \<Rightarrow> stored_object ord ns c) = Inr y"
    then have "so_key y = object_key (fst x) (fst (snd x))" by (auto simp: stored_object_key split: prod.splits)
    then show "(?P x \<longrightarrow> (case x of (ns, c) \<Rightarrow> stored_object (remove_object (so_key item) ord) ns c) = Inr y)
        \<and> (so_key y \<noteq> so_key item \<longleftrightarrow> ?P x)"
      using same [OF x(1)] x(2) by (cases x) (simp add: stored_object_forget)
  qed
  moreover have "filter (\<lambda>o1. so_key o1 \<noteq> so_key item) objs = remove1 item objs"
    using stored_objects_keys(1) [OF assms(1,2)] assms(3)
  proof (induction objs)
    case (Cons a objs)
    have "\<forall>x\<in>set objs. so_key x \<noteq> so_key item" if "a = item"
      using Cons.prems(1) that by (metis distinct.simps(2) image_eqI list.set_map list.simps(9))
    with Cons show ?case by (cases "a = item") auto
  qed simp
  moreover have "int (length (remove1 item objs)) \<le> MAX_LIFECYCLE_OBJECTS"
  proof -
    have "length (remove1 item objs) \<le> length objs" by (simp add: length_remove1)
    then show ?thesis using ord(2) by linarith
  qed
  ultimately show ?thesis using ord(1) en
    by (auto simp: stored_objects_eq delete_object_def forget_object_def replace_object_def Let_def)
qed

lemma stored_objects_deletes:
  assumes "fs_wf (fs_root st)" "stored_objects st = Inr objs" "set es \<subseteq> set objs" "distinct es"
  shows "stored_objects (foldl (delete_object io) st es) = Inr (foldl (\<lambda>os x. remove1 x os) objs es)"
  using assms
proof (induction es arbitrary: st objs)
  case (Cons e es)
  have "distinct objs" using stored_objects_keys(1) [OF Cons.prems(1,2)] by (simp add: distinct_map)
  then have "set es \<subseteq> set (remove1 e objs)" using Cons.prems(3,4) by auto
  then show ?case using Cons.IH [OF delete_object_wf stored_objects_delete] Cons.prems by simp
qed simp


lemma tree_stats_fold:
  assumes "foldl (\<lambda>acc e. case (acc, tree_stats (snd e)) of
              (Some (sz, inodes, modified), Some (sz', inodes', modified')) \<Rightarrow>
                Some (sz + (if is_regular (snd e) \<and> fst e = INSERTION_SEQUENCE_FILENAME then 0 else sz'),
                      inodes + inodes', min modified modified')
            | _ \<Rightarrow> None) (Some (a, i, m)) cs = Some (sz, inodes, modified)"
    "\<And>e b j k. e \<in> set cs \<Longrightarrow> tree_stats (snd e) = Some (b, j, k) \<Longrightarrow> b = tree_bytes (snd e)"
  shows "sz = a + sum_list (map entry_bytes cs)"
  using assms
proof (induction cs arbitrary: a i m)
  case (Cons e cs)
  let ?f = "\<lambda>acc e. case (acc, tree_stats (snd e)) of
              (Some (sz, inodes, modified), Some (sz', inodes', modified')) \<Rightarrow>
                Some (sz + (if is_regular (snd e) \<and> fst e = INSERTION_SEQUENCE_FILENAME then 0 else sz'),
                      inodes + inodes', min modified modified')
            | _ \<Rightarrow> None"
  have none: "foldl ?f None ds = None" for ds by (induction ds) auto
  obtain b j k where e: "tree_stats (snd e) = Some (b, j, k)"
    using Cons.prems(1) none [of cs] by (cases "tree_stats (snd e)") auto
  have b: "b = tree_bytes (snd e)" using Cons.prems(2) [of e] e by simp
  have "sz = (a + entry_bytes e) + sum_list (map entry_bytes cs)"
    using Cons.prems(1) e by (intro Cons.IH [of _ "i + j" "min m k"]) (auto simp: entry_bytes_def b intro: Cons.prems(2))
  then show ?case by simp
qed simp

lemma tree_stats_bytes: "tree_stats n = Some (sz, i, m) \<Longrightarrow> sz = tree_bytes n"
proof (induction n arbitrary: sz i m rule: tree_stats.induct)
  case (2 s cs)
  then have "sz = 0 + sum_list (map entry_bytes cs)"
    by (intro tree_stats_fold [of 0 1 "st_mtime_ns s" cs sz i m]) auto
  then show ?case by (simp add: tree_bytes_Directory)
qed simp_all

lemma stored_object_size:
  "stored_object ord ns c = Inr item \<Longrightarrow> is_directory (snd c) \<and> so_size item = tree_bytes (snd c)"
  using tree_stats_bytes [of "snd c"]
  by (cases "tree_stats (snd c)") (fastforce simp: stored_object_def corrupted_def rbind_eq_Inr split: if_splits)+

text \<open>The inventory and the byte scan agree.\<close>

lemma stored_objects_bytes:
  assumes "stored_objects st = Inr objs"
  shows "sum_list (map so_size objs) = scan_existing_bytes (fs_root st)" "\<forall>item\<in>set objs. 0 \<le> so_size item"
proof -
  obtain ord where ord: "collect (\<lambda>(ns, c). stored_object ord ns c) (object_entries (fs_root st)) = Inr objs"
    using assms by (auto simp: stored_objects_eq)
  have sizes: "map so_size objs = map (\<lambda>e. tree_bytes (snd (snd e))) (object_entries (fs_root st))"
    using ord by (rule collect_map) (auto dest: stored_object_size split: prod.splits)
  show "\<forall>item\<in>set objs. 0 \<le> so_size item"
    using collect_members [OF ord] stored_object_size tree_bytes_nonneg by fastforce
  have dirs: "\<forall>e\<in>set (object_entries (fs_root st)). is_directory (snd (snd e))"
    using collect_all [OF ord] stored_object_size by fastforce
  have "sum_list (map (\<lambda>e. tree_bytes (snd (snd e))) (namespace_children (fs_root st) ns)) =
     (case fs_lookup [ns] (fs_root st) of None \<Rightarrow> 0 | Some n \<Rightarrow> if is_directory n then tree_bytes n else 0)"
    if "\<forall>e\<in>set (namespace_children (fs_root st) ns). is_directory (snd (snd e))" for ns
  proof (cases "fs_lookup [ns] (fs_root st)")
    case (Some n)
    show ?thesis
    proof (cases n)
      case (Directory s cs)
      have "\<forall>e\<in>set cs. is_directory (snd e)" using that Some Directory by (auto simp: namespace_children_def)
      then have "\<forall>e\<in>set cs. entry_bytes e = tree_bytes (snd e)"
        by (auto simp: entry_bytes_def elim!: is_directory.elims(2))
      then have "sum_list (map (\<lambda>e. tree_bytes (snd e)) cs) = sum_list (map entry_bytes cs)"
        by (intro arg_cong [of _ _ sum_list] map_cong) auto
      moreover have "sum_list (map (\<lambda>e. tree_bytes (snd e)) (sort_key fst cs)) = sum_list (map (\<lambda>e. tree_bytes (snd e)) cs)"
        by (simp flip: sum_mset_sum_list)
      ultimately show ?thesis using Some Directory
        by (simp add: namespace_children_def tree_bytes_Directory comp_def)
    qed (use Some in \<open>simp_all add: namespace_children_def\<close>)
  qed (simp add: namespace_children_def)
  then show "sum_list (map so_size objs) = scan_existing_bytes (fs_root st)"
    using dirs by (simp add: sizes scan_existing_bytes_def object_entries_def ALLOWED_NAMESPACES_def del: codes_simps)
qed

section \<open>What a prune leaves\<close>

lemma foldl_remove1: "distinct os \<Longrightarrow> foldl (\<lambda>os x. remove1 x os) os es = filter (\<lambda>x. x \<notin> set es) os"
proof (induction es arbitrary: os)
  case (Cons e es)
  then show ?case by (auto simp: distinct_remove1_removeAll removeAll_filter_not_eq intro!: filter_cong)
qed simp

lemma evictions_distinct: "distinct cs \<Longrightarrow> distinct (evictions held cs ws)"
proof (induction held cs ws rule: evictions.induct)
  case (2 held c cs ws)
  then show ?case using evictions_set [of held cs] by auto
qed simp

lemma observe_clock_frame: "observe_clock io s st = (r, st1) \<Longrightarrow> \<exists>c. st1 = st\<lparr>clock_high_water := c\<rparr>"
  by (cases "clock_high_water st")
    (auto simp: observe_clock_def split: prod.splits sum.splits intro: exI [of _ "clock_high_water st"])

lemma stored_objects_frame [simp]:
  "stored_objects (st\<lparr>clock_high_water := c\<rparr>) = stored_objects st"
  "stored_objects (st\<lparr>used_bytes := u\<rparr>) = stored_objects st"
  "stored_objects (st\<lparr>admission_closed_blocker := b\<rparr>) = stored_objects st"
  "stored_objects (st\<lparr>emitted_alerts := al\<rparr>) = stored_objects st"
  by (simp_all add: stored_objects_def split: option.splits)

definition counts_of :: "PruneReport \<Rightarrow> prune_counts" where
  "counts_of rep = (case rep of SatisfiedPruneReport n \<Rightarrow> n | UnsatisfiedPruneReport bs n \<Rightarrow> n)"

lemma close_admission_frame:
  "snd (close_admission b al st) = st \<or>
   snd (close_admission b al st) = st\<lparr>admission_closed_blocker := Some b, emitted_alerts := emitted_alerts st @ [al]\<rparr>"
  by (simp add: close_admission_def split: option.splits)

lemma close_admission_closed: "admission_closed_blocker (snd (close_admission b al st)) \<noteq> None"
  by (simp add: close_admission_def split: option.splits)

lemma finish_prune_result:
  assumes "finish_prune_locked fin st = (Inr rep, st')"
  obtains objs where "stored_objects st = Inr objs" "stored_objects st' = Inr objs"
    "counts_of rep = report_counts fin (leased st) objs" "fs_root st' = fs_root st" "leased st' = leased st"
    "used_bytes st' = scan_existing_bytes (fs_root st)"
    "rep = (if prune_blockers fin (leased st) objs = [] then SatisfiedPruneReport (counts_of rep)
            else UnsatisfiedPruneReport (prune_blockers fin (leased st) objs) (counts_of rep))"
    "admission_closed_blocker st' = None \<longleftrightarrow> prune_blockers fin (leased st) objs = []"
proof -
  obtain objs where objs: "stored_objects st = Inr objs"
    using assms by (cases "stored_objects st") (auto simp: finish_prune_locked_def)
  let ?bs = "prune_blockers fin (leased st) objs"
  let ?st1 = "st\<lparr>used_bytes := scan_existing_bytes (fs_root st)\<rparr>"
  show ?thesis
  proof (cases "?bs = []")
    case True
    then have "rep = SatisfiedPruneReport (report_counts fin (leased st) objs)" "st' = ?st1\<lparr>admission_closed_blocker := None\<rparr>"
      using assms objs
      by (auto simp: finish_prune_locked_def raised_def prune_report_new_def Let_def split: sum.splits if_splits)
    then show ?thesis using True objs by (intro that [of objs]) (auto simp: counts_of_def)
  next
    case False
    then obtain al where al: "rep = UnsatisfiedPruneReport ?bs (report_counts fin (leased st) objs)"
      "st' = snd (close_admission (unsatisfied_blocker ?bs) al ?st1)"
      using assms objs
      by (auto simp: finish_prune_locked_def raised_def prune_report_new_def record_unsatisfied_prune_def Let_def
          split: sum.splits if_splits)
    have "leased st' = leased st" "stored_objects st' = Inr objs" "fs_root st' = fs_root st"
      "used_bytes st' = scan_existing_bytes (fs_root st)"
      using close_admission_frame [of "unsatisfied_blocker ?bs" al ?st1] objs
      by (auto simp: al(2) leased_def fun_eq_iff)
    then show ?thesis using False objs al close_admission_closed [of "unsatisfied_blocker ?bs" al ?st1]
      by (intro that [of objs]) (auto simp: counts_of_def)
  qed
qed

lemma deletes_frame: "leased (foldl (delete_object io) st es) = leased st" "fs_wf (fs_root st) \<Longrightarrow> fs_wf (fs_root (foldl (delete_object io) st es))"
  by (induction es arbitrary: st) (simp_all add: delete_object_wf)

text \<open>A prune that returns has evicted exactly \<open>evictions\<close> and reports on what is left.\<close>

lemma prune_result:
  assumes "fs_wf (fs_root st)" "stored_objects st = Inr objs" "prune io p clock st = (Inr rep, st')"
  obtains cap cap' observed gone where
    "gone = evictions (leased st) (sort_key stored_object_order objs)
       (prune_working_set p cap (utc_now_ns clock) observed objs)"
    "sample_capacity io 1 0 = Inr cap" "sample_capacity io 2 1 = Inr cap'"
    "\<exists>st1. observe_clock io clock st = (Inr observed, st1)"
    "set gone \<subseteq> set objs" "distinct gone" "stored_objects st' = Inr (filter (\<lambda>x. x \<notin> set gone) objs)"
    "leased st' = leased st" "used_bytes st' = scan_existing_bytes (fs_root st')"
    "finish_prune_locked \<lparr>fin_policy = p, fin_now_ns = utc_now_ns clock, trusted_clock_observation = observed,
        fin_freed_bytes = sum_list (map so_size gone), fin_freed_objects = int (length gone), post_capacity = cap'\<rparr>
        ((foldl (delete_object io) (snd (observe_clock io clock st)) gone)
           \<lparr>used_bytes := scan_existing_bytes (fs_root (foldl (delete_object io) (snd (observe_clock io clock st)) gone))\<rparr>)
      = (Inr rep, st')"
proof -
  obtain cap where cap: "sample_capacity io 1 0 = Inr cap" "prune_locked io p clock cap st = (Inr rep, st')"
    using assms(3) by (auto simp: prune_def rbind_eq_Inr split: sum.splits)
  obtain observed st1 where ob: "observe_clock io clock st = (Inr observed, st1)"
    using cap(2) by (auto simp: prune_locked_def split: prod.splits sum.splits)
  obtain c where st1: "st1 = st\<lparr>clock_high_water := c\<rparr>" using observe_clock_frame [OF ob] by blast
  let ?ws = "prune_working_set p cap (utc_now_ns clock) observed objs"
  define gone where "gone = evictions (leased st) (sort_key stored_object_order objs) ?ws"
  have inv: "stored_objects st1 = Inr objs" "leased st1 = leased st" "fs_wf (fs_root st1)"
    using assms(1,2) by (simp_all add: st1)
  obtain ws fb fo st2 where pu: "prune_unleased io ?ws st1 = (Inr (ws, fb, fo), st2)"
    using cap(2) ob inv(1) by (auto simp: prune_locked_def split: prod.splits sum.splits)
  have pl: "fb = sum_list (map so_size gone)" "fo = int (length gone)" "st2 = foldl (delete_object io) st1 gone"
    using prune_loop_refines_evictions [of io "sort_key stored_object_order objs" ?ws 0 0 st1] pu inv(2)
    by (auto simp: prune_unleased_def gone_def prune_working_set_def)
  obtain cap' where fin: "sample_capacity io 2 1 = Inr cap'"
    "finish_prune_locked \<lparr>fin_policy = p, fin_now_ns = utc_now_ns clock, trusted_clock_observation = observed,
        fin_freed_bytes = fb, fin_freed_objects = fo, post_capacity = cap'\<rparr>
        (st2\<lparr>used_bytes := scan_existing_bytes (fs_root st2)\<rparr>) = (Inr rep, st')"
    using cap(2) ob inv(1) pu by (auto simp: prune_locked_def Let_def split: sum.splits)
  have ds: "distinct (sort_key stored_object_order objs)" "distinct objs"
    using stored_objects_keys(1) [OF assms(1,2)] by (simp_all add: distinct_map)
  have g: "set gone \<subseteq> set objs" "distinct gone"
    using evictions_set [of "leased st" "sort_key stored_object_order objs" ?ws] ds
      evictions_distinct [of "sort_key stored_object_order objs" "leased st" ?ws] by (auto simp: gone_def)
  have so2: "stored_objects st2 = Inr (filter (\<lambda>x. x \<notin> set gone) objs)"
    using stored_objects_deletes [OF inv(3,1) g] foldl_remove1 [OF ds(2)] by (simp add: pl(3))
  obtain objs' where f: "stored_objects (st2\<lparr>used_bytes := scan_existing_bytes (fs_root st2)\<rparr>) = Inr objs'" "stored_objects st' = Inr objs'"
    "fs_root st' = fs_root st2" "leased st' = leased st2" "used_bytes st' = scan_existing_bytes (fs_root st2)"
    using finish_prune_result [OF fin(2)] by (metis (no_types, lifting) Store.select_convs(1) Store.surjective Store.update_convs(3) leased_simps(4))
  show ?thesis
    by (rule that [OF gone_def cap(1) fin(1) _ g])
      (use ob so2 f fin(2) pl inv(2) in \<open>auto simp: deletes_frame\<close>)
qed


lemma working_set_simps [simp]:
  "ws_objects (prune_working_set p cap now observed objs) = objs"
  "ws_policy (prune_working_set p cap now observed objs) = p"
  "ws_capacity (prune_working_set p cap now observed objs) = cap"
  by (simp_all add: prune_working_set_def)

lemma sorted_by_order:
  assumes "distinct (map so_key objs)" "sort_key stored_object_order objs = pre @ x # suf" "y \<in> set pre"
  shows "stored_object_order y < stored_object_order x"
proof -
  have srt: "sorted (map stored_object_order (pre @ x # suf))" using assms(2) by (metis sorted_sort_key)
  have st: "set objs = set (pre @ x # suf)" using assms(2) by (metis set_sort)
  have "distinct (pre @ x # suf)" using assms(1,2) by (metis distinct_map distinct_sort)
  with st assms(3) have "y \<in> set objs" "x \<in> set objs" "y \<noteq> x" by auto
  then have "so_key y \<noteq> so_key x" using assms(1) by (meson distinct_map inj_onD)
  moreover have "stored_object_order y \<le> stored_object_order x"
    using srt assms(3) by (auto simp: sorted_append)
  ultimately show ?thesis by (auto simp: stored_object_order_def order_less_le)
qed

section \<open>Properties\<close>



lemma prune_blockers_empty:
  "prune_blockers fin held objs = [] \<longleftrightarrow>
     sum_list (map so_size objs) \<le> maximum_bytes (fin_policy fin) \<and> int (length objs) \<le> maximum_objects (fin_policy fin)
     \<and> minimum_free_bytes (fin_policy fin) \<le> available_bytes (post_capacity fin)
     \<and> minimum_free_inodes (fin_policy fin) \<le> available_inodes (post_capacity fin)
     \<and> trusted_clock_observation fin \<and> (\<forall>x\<in>set objs. so_modified_ns x \<le> fin_now_ns fin)"
  by (auto simp: prune_blockers_def all_prune_blockers_def Let_def list_ex_iff not_less)

lemma finish_prune_keeps_blocker:
  "finish_prune_locked fin st = (Inr (UnsatisfiedPruneReport bs n), st') \<Longrightarrow> admission_closed_blocker st = Some b \<Longrightarrow>
   admission_closed_blocker st' = Some b"
  by (auto simp: finish_prune_locked_def record_unsatisfied_prune_def close_admission_def raised_def prune_report_new_def
      Let_def split: sum.splits if_splits)

lemma deletes_blocker: "admission_closed_blocker (foldl (delete_object io) st es) = admission_closed_blocker st"
  by (induction es arbitrary: st) (simp_all add: delete_object_def forget_object_def replace_object_def Let_def)

text \<open>
  A returned prune report is satisfied exactly when the objects left on disk fit the byte and
  object budgets, the capacity sampled after the deletions keeps both reserves, the clock
  observation is trusted and no object is dated in the future; admission is open after the
  prune exactly then. An unsatisfied report leaves admission closed, with the earlier blocker if there was one.
\<close>

theorem prune_report_decides_admission:
  assumes "fs_wf (fs_root st)" "stored_objects st = Inr objs" "prune io p clock st = (Inr rep, st')"
  shows "\<exists>kept cap' observed.
      stored_objects st' = Inr kept \<and> sample_capacity io 2 1 = Inr cap'
    \<and> (\<exists>st1. observe_clock io clock st = (Inr observed, st1))
    \<and> ((\<exists>n. rep = SatisfiedPruneReport n) \<longleftrightarrow>
         scan_existing_bytes (fs_root st') \<le> maximum_bytes p \<and> int (length kept) \<le> maximum_objects p
         \<and> minimum_free_bytes p \<le> available_bytes cap' \<and> minimum_free_inodes p \<le> available_inodes cap'
         \<and> observed \<and> (\<forall>x\<in>set kept. so_modified_ns x \<le> utc_now_ns clock))
    \<and> (admission_closed_blocker st' = None \<longleftrightarrow> (\<exists>n. rep = SatisfiedPruneReport n))
    \<and> (\<forall>b bs n. rep = UnsatisfiedPruneReport bs n \<longrightarrow> admission_closed_blocker st = Some b \<longrightarrow>
         admission_closed_blocker st' = Some b)"
proof -
  obtain cap' observed gone st0 where
    c: "sample_capacity io 2 1 = Inr cap'" "\<exists>st1. observe_clock io clock st = (Inr observed, st1)"
    and st0: "st0 = (foldl (delete_object io) (snd (observe_clock io clock st)) gone)
           \<lparr>used_bytes := scan_existing_bytes (fs_root (foldl (delete_object io) (snd (observe_clock io clock st)) gone))\<rparr>"
    and fin: "finish_prune_locked \<lparr>fin_policy = p, fin_now_ns = utc_now_ns clock, trusted_clock_observation = observed,
        fin_freed_bytes = sum_list (map so_size gone), fin_freed_objects = int (length gone), post_capacity = cap'\<rparr> st0
      = (Inr rep, st')"
    using prune_result [OF assms] by metis
  obtain kept where k: "stored_objects st0 = Inr kept" "stored_objects st' = Inr kept" "fs_root st' = fs_root st0"
    "rep = (if prune_blockers \<lparr>fin_policy = p, fin_now_ns = utc_now_ns clock, trusted_clock_observation = observed,
        fin_freed_bytes = sum_list (map so_size gone), fin_freed_objects = int (length gone), post_capacity = cap'\<rparr> (leased st0) kept = []
      then SatisfiedPruneReport (counts_of rep)
      else UnsatisfiedPruneReport (prune_blockers \<lparr>fin_policy = p, fin_now_ns = utc_now_ns clock, trusted_clock_observation = observed,
        fin_freed_bytes = sum_list (map so_size gone), fin_freed_objects = int (length gone), post_capacity = cap'\<rparr> (leased st0) kept) (counts_of rep))"
    "admission_closed_blocker st' = None \<longleftrightarrow> prune_blockers \<lparr>fin_policy = p, fin_now_ns = utc_now_ns clock, trusted_clock_observation = observed,
        fin_freed_bytes = sum_list (map so_size gone), fin_freed_objects = int (length gone), post_capacity = cap'\<rparr> (leased st0) kept = []"
    using finish_prune_result [OF fin] by metis
  have sat: "(\<exists>n. rep = SatisfiedPruneReport n) \<longleftrightarrow> admission_closed_blocker st' = None"
    using k(4,5) by (metis PruneReport.distinct(1))
  have bytes: "sum_list (map so_size kept) = scan_existing_bytes (fs_root st')" using stored_objects_bytes(1) [OF k(2)] .
  have "admission_closed_blocker st0 = admission_closed_blocker st"
    using c(2) observe_clock_frame by (fastforce simp: st0 deletes_blocker)
  then have keep: "\<forall>b bs n. rep = UnsatisfiedPruneReport bs n \<longrightarrow> admission_closed_blocker st = Some b \<longrightarrow>
      admission_closed_blocker st' = Some b"
    using finish_prune_keeps_blocker fin by metis
  show ?thesis
    by (rule exI [of _ kept], rule exI [of _ cap'], rule exI [of _ observed])
      (use k(2) c sat k(5) keep bytes in \<open>simp add: prune_blockers_empty\<close>)
qed

text \<open>
  The loop judges pressure against the capacity sampled before the first deletion: when that
  sample is below a reserve, a prune that returns has removed every unleased object, however much the
  first deletions freed.
\<close>

theorem headroom_pressure_evicts_all_unleased:
  assumes "fs_wf (fs_root st)" "stored_objects st = Inr objs" "prune io p clock st = (Inr rep, st')"
    and "capacity_at io 0 = Inr cap"
    and "available_bytes cap < minimum_free_bytes p \<or> available_inodes cap < minimum_free_inodes p"
  shows "\<exists>kept. stored_objects st' = Inr kept \<and> (\<forall>x\<in>set kept. leased st (so_key x))"
proof -
  obtain cap0 observed gone where
    g: "gone = evictions (leased st) (sort_key stored_object_order objs)
       (prune_working_set p cap0 (utc_now_ns clock) observed objs)"
    "sample_capacity io 1 0 = Inr cap0" "stored_objects st' = Inr (filter (\<lambda>x. x \<notin> set gone) objs)"
    using prune_result [OF assms(1-3)] by metis
  let ?ws = "prune_working_set p cap0 (utc_now_ns clock) observed objs"
  have "cap0 = cap" using g(2) assms(4) by (auto simp: sample_capacity_def rbind_eq_Inr)
  then have pr: "prune_pressure (?ws\<lparr>ws_objects := os\<rparr>)" for os using assms(5) by (auto simp: prune_pressure_def)
  have ds: "distinct (sort_key stored_object_order objs)"
    using stored_objects_keys(1) [OF assms(1,2)] by (simp add: distinct_map)
  have "leased st (so_key x)" if "x \<in> set objs" "x \<notin> set gone" for x
    using evictions_retained [OF ds, of ?ws x "leased st"] stored_objects_bytes(2) [OF assms(2)] that pr
    by (auto simp: g(1) [symmetric])
  then show ?thesis using g(3) by auto
qed

text \<open>
  The nanosecond clock that \<open>prune\<close> computes through two float roundings is within 1.5 microseconds
  of the sample's instant, for every instant from the epoch until the year 2255.
\<close>

theorem prune_clock_error_bound:
  assumes "0 \<le> utc_now s" "utc_now s \<le> 2 ^ 53"
  shows "\<bar>utc_now_ns s - 1000 * utc_now s\<bar> \<le> 1467"
proof -
  let ?q = "of_int (utc_now s) / 1000000 :: rat"
  have "of_int (utc_now s) \<le> (2 ^ 53 :: rat)" using assms(2) by (metis of_int_le_iff of_int_numeral of_int_power)
  then have q: "0 \<le> ?q" "?q \<le> 9007199255" "?q < 2 powi 34" using assms(1) by simp_all
  have p20: "(2 :: rat) powi (34 - 54) = 1 / 1048576" and p9: "(2 :: rat) powi (63 - 54) = 512"
    by (simp_all add: power_int_def power_divide)
  obtain r where r: "fl_round ?q = Fin r" "0 \<le> r" "\<bar>r - ?q\<bar> \<le> 1 / 1048576"
    using fl_round_within [OF q(1,3)] unfolding p20 by auto
  have b: "\<bar>r * 1000000000 - of_int (1000 * utc_now s)\<bar> \<le> 954" 
  proof -
    have "(of_int (1000 * utc_now s) :: rat) = ?q * 1000000000" by simp
    then show ?thesis using r(3) by linarith
  qed
  have "r * 1000000000 < 2 powi 63" 
  proof -
    have "(2 :: rat) powi 63 = 9223372036854775808" by (simp add: power_int_def)
    then show ?thesis using r(3) q(2) by linarith
  qed
  then obtain t where t: "fl_round (r * 1000000000) = Fin t" "0 \<le> t" "\<bar>t - r * 1000000000\<bar> \<le> 512"
    using fl_round_within [of "r * 1000000000" 63] r(2) unfolding p9 by auto
  have ns: "utc_now_ns s = \<lfloor>t\<rfloor>" using r(1) t(1,2) by (simp add: utc_now_ns_def fmul_def trunc_int_def)
  have "\<bar>t - of_int (1000 * utc_now s)\<bar> \<le> 1466" using b t(3) by linarith
  then have "\<bar>of_int \<lfloor>t\<rfloor> - (of_int (1000 * utc_now s) :: rat)\<bar> \<le> 1467" using floor_correct [of t] by linarith
  then have "of_int \<bar>\<lfloor>t\<rfloor> - 1000 * utc_now s\<bar> \<le> (of_int 1467 :: rat)" by simp
  then show ?thesis unfolding ns of_int_le_iff .
qed

end
