(* ===== verification/Nplg_Publication.thy ===== *)
theory Nplg_Publication
  imports Nplg_Prune
begin

text \<open>
  Aggregate publication reservations of the artifact store over whole runs. A run is a sequence
  of calls (reservations and their contexts, leases, prunes, reconciliations) interleaved with
  arbitrary changes of everything else (staged writers, files, used bytes). The invariant is
  that the three reserved totals are the sums over the active reservations; the properties are
  exact accounting, the fit of every admitted reservation within the policy, and the admission latch.
\<close>

section \<open>Calls and runs\<close>

datatype store_call =
    CReserve RetentionPolicy pyobj pyobj pyobj RetentionClockSample
  | CBegin nat
  | CCommit nat pyobj pyobj pyobj
  | CAbort nat
  | CExit nat
  | CAcquire pystr
  | CRelease pystr "nat option"
  | CRegister pystr nat
  | CPrune RetentionPolicy RetentionClockSample
  | CReconcile
  | COther fsnode int int "(pystr \<times> int) list" "PersistentInsertionOrder option" insertion_world

text \<open>The store after a call; a call on a reservation that does not exist is no call.\<close>

definition on_reservation :: "nat \<Rightarrow> (Store \<Rightarrow> Store) \<Rightarrow> Store \<Rightarrow> Store" where
  "on_reservation i f st = (if i < length (reservation_objects st) then f st else st)"

fun run_call :: "store_io \<Rightarrow> store_call \<Rightarrow> Store \<Rightarrow> Store" where
  "run_call io (CReserve p mb mo mi clock) st = snd (reserve_publication p mb mo mi clock st)"
| "run_call io (CBegin i) st = on_reservation i (\<lambda>s. snd (begin_publication_reservation io i s)) st"
| "run_call io (CCommit i ab ao ai) st = on_reservation i (\<lambda>s. snd (reservation_commit io i ab ao ai s)) st"
| "run_call io (CAbort i) st = on_reservation i (\<lambda>s. snd (reservation_abort i s)) st"
| "run_call io (CExit i) st = on_reservation i (\<lambda>s. snd (reservation_context_exit i s)) st"
| "run_call io (CAcquire path) st = snd (acquire_asset_lease io path st)"
| "run_call io (CRelease key token) st = snd (release_asset_lease key token st)"
| "run_call io (CRegister key token) st = snd (register_render_transaction_locked key token st)"
| "run_call io (CPrune p clock) st = snd (prune io p clock st)"
| "run_call io CReconcile st = snd (reconcile_lifecycle io st)"
| "run_call io (COther rt used reserved staging ord w) st =
     st\<lparr>fs_root := rt, used_bytes := used, reserved_bytes := reserved, staging_reservations := staging,
        insertion_order := ord, order_world := w\<rparr>"

definition run_calls :: "(store_io \<times> store_call) list \<Rightarrow> Store \<Rightarrow> Store" where
  "run_calls cs st = foldl (\<lambda>s (io, c). run_call io c s) st cs"

section \<open>The accounting invariant\<close>

definition active_sum :: "(PublicationReservation \<Rightarrow> int) \<Rightarrow> Store \<Rightarrow> int" where
  "active_sum f st = sum_list (map (\<lambda>i. f (reservation_objects st ! i)) (publication_reservations st))"

definition publication_inv :: "Store \<Rightarrow> bool" where
  "publication_inv st =
     (distinct (publication_reservations st)
      \<and> (\<forall>i\<in>set (publication_reservations st). i < length (reservation_objects st))
      \<and> (\<forall>i<length (reservation_objects st).
           let r = reservation_objects st ! i
           in (pr_active r \<longleftrightarrow> i \<in> set (publication_reservations st)) \<and> \<not> (pr_active r \<and> pr_closed r)
              \<and> 1 \<le> pr_bytes r \<and> 1 \<le> pr_objects r \<and> 1 \<le> pr_inodes r)
      \<and> publication_reserved_bytes st = active_sum pr_bytes st
      \<and> publication_reserved_objects st = active_sum pr_objects st
      \<and> publication_reserved_inodes st = active_sum pr_inodes st)"

definition publication_part ::
  "Store \<Rightarrow> PublicationReservation list \<times> nat list \<times> int \<times> int \<times> int" where
  "publication_part st =
     (reservation_objects st, publication_reservations st, publication_reserved_bytes st,
      publication_reserved_objects st, publication_reserved_inodes st)"

lemma publication_part_inv: "publication_part st' = publication_part st \<Longrightarrow> publication_inv st' = publication_inv st"
  by (auto simp: publication_part_def publication_inv_def active_sum_def)

lemma publication_part_simps [simp]:
  "publication_part (st\<lparr>clock_high_water := c\<rparr>) = publication_part st"
  "publication_part (st\<lparr>used_bytes := u\<rparr>) = publication_part st"
  "publication_part (st\<lparr>admission_closed_blocker := b\<rparr>) = publication_part st"
  "publication_part (st\<lparr>emitted_alerts := al\<rparr>) = publication_part st"
  "publication_part (st\<lparr>asset_leases := l\<rparr>) = publication_part st"
  "publication_part (st\<lparr>render_transaction_leases := t\<rparr>) = publication_part st"
  "publication_part (replace_object io key v st) = publication_part st"
  "publication_part (forget_object key st) = publication_part st"
  by (simp_all add: publication_part_def replace_object_def forget_object_def Let_def)

lemma observe_clock_part: "observe_clock io s st = (r, st1) \<Longrightarrow> publication_part st1 = publication_part st"
  using observe_clock_frame by fastforce

lemma close_admission_part: "publication_part (snd (close_admission b al st)) = publication_part st"
  using close_admission_frame [of b al st] by auto

lemma publication_denial_part: "publication_part (snd (publication_denial b st)) = publication_part st"
  by (auto simp: publication_denial_def split: sum.splits prod.splits) (metis close_admission_part snd_conv)

lemma activate_inv:
  assumes "publication_inv st" "i < length (reservation_objects st)"
    "\<not> pr_active (reservation_objects st ! i)" "\<not> pr_closed (reservation_objects st ! i)"
  shows "publication_inv (activate_reservation i n cap st)"
proof -
  let ?st = "activate_reservation i n cap st"
  have ni: "i \<notin> set (publication_reservations st)" using assms by (auto simp: publication_inv_def Let_def)
  have s: "active_sum f ?st = f (reservation_objects st ! i) + active_sum f st"
    if f: "\<And>r. f (r\<lparr>pr_active := True, baseline_used_bytes := used_bytes st, baseline_stored_objects := n,
                      baseline_available_inodes := available_inodes cap\<rparr>) = f r" for f :: "PublicationReservation \<Rightarrow> int"
  proof -
    have "map (\<lambda>j. f (reservation_objects ?st ! j)) (publication_reservations st)
       = map (\<lambda>j. f (reservation_objects st ! j)) (publication_reservations st)"
      using ni
      by (intro map_cong) (auto simp: activate_reservation_def Let_def intro!: arg_cong [of _ _ f] nth_list_update_neq)
    moreover have "f (reservation_objects ?st ! i) = f (reservation_objects st ! i)"
      "publication_reservations ?st = i # publication_reservations st"
      using assms(2) f by (simp_all add: activate_reservation_def Let_def)
    ultimately show ?thesis by (simp only: active_sum_def list.map sum_list.Cons)
  qed
  have e: "reservation_objects ?st ! j =
      (if j = i then (reservation_objects st ! i)\<lparr>pr_active := True, baseline_used_bytes := used_bytes st,
         baseline_stored_objects := n, baseline_available_inodes := available_inodes cap\<rparr>
       else reservation_objects st ! j)" "length (reservation_objects ?st) = length (reservation_objects st)" for j
    using assms(2) by (auto simp: activate_reservation_def Let_def nth_list_update)
  have t: "publication_reservations ?st = i # publication_reservations st"
    "publication_reserved_bytes ?st = publication_reserved_bytes st + pr_bytes (reservation_objects st ! i)"
    "publication_reserved_objects ?st = publication_reserved_objects st + pr_objects (reservation_objects st ! i)"
    "publication_reserved_inodes ?st = publication_reserved_inodes st + pr_inodes (reservation_objects st ! i)"
    by (simp_all add: activate_reservation_def Let_def)
  show ?thesis unfolding publication_inv_def Let_def e t
    using assms ni s [of pr_bytes] s [of pr_objects] s [of pr_inodes]
    by (auto simp: publication_inv_def Let_def)
qed

lemma release_publication_inv:
  assumes "publication_inv st" "release_publication_reservation_locked i st = (r, st')"
  shows "publication_inv st'"
proof (cases "i \<in> set (publication_reservations st)")
  case True
  let ?r = "reservation_objects st ! i" let ?a = "publication_reservations st"
  have i: "i < length (reservation_objects st)" "pr_active ?r" "\<not> pr_closed ?r" "distinct ?a"
    using assms(1) True by (auto simp: publication_inv_def Let_def)
  have st': "st' = st\<lparr>publication_reservations := removeAll i ?a,
      publication_reserved_bytes := publication_reserved_bytes st - pr_bytes ?r,
      publication_reserved_objects := publication_reserved_objects st - pr_objects ?r,
      publication_reserved_inodes := publication_reserved_inodes st - pr_inodes ?r,
      reservation_objects := (reservation_objects st)[i := ?r\<lparr>pr_active := False, pr_closed := True\<rparr>]\<rparr>"
    using assms(2) True i by (auto simp: release_publication_reservation_locked_def reservation_close_def Let_def)
  have s: "active_sum f st' = active_sum f st - f ?r" for f
  proof -
    have "map (\<lambda>j. f (reservation_objects st' ! j)) (removeAll i ?a) = map (\<lambda>j. f (reservation_objects st ! j)) (removeAll i ?a)"
      by (intro map_cong) (auto simp: st' intro!: arg_cong [of _ _ f] nth_list_update_neq)
    moreover have "sum_list (map (\<lambda>j. f (reservation_objects st ! j)) (removeAll i ?a))
        = sum_list (map (\<lambda>j. f (reservation_objects st ! j)) ?a) - f ?r"
      using True i(4) by (simp add: sum_list_map_remove1 [of i ?a] flip: distinct_remove1_removeAll)
    moreover have "publication_reservations st' = removeAll i ?a" by (simp add: st')
    ultimately show ?thesis by (simp only: active_sum_def)
  qed
  have e: "reservation_objects st' ! j = (if j = i then ?r\<lparr>pr_active := False, pr_closed := True\<rparr> else reservation_objects st ! j)"
    "length (reservation_objects st') = length (reservation_objects st)"
    "publication_reservations st' = removeAll i ?a" for j
    using i(1) by (auto simp: st' nth_list_update)
  have t: "publication_reserved_bytes st' = publication_reserved_bytes st - pr_bytes ?r"
    "publication_reserved_objects st' = publication_reserved_objects st - pr_objects ?r"
    "publication_reserved_inodes st' = publication_reserved_inodes st - pr_inodes ?r" by (simp_all add: st')
  show ?thesis unfolding publication_inv_def Let_def e t
    using assms(1) i s [of pr_bytes] s [of pr_objects] s [of pr_inodes]
    by (auto simp: publication_inv_def Let_def distinct_removeAll)
qed (use assms in \<open>auto simp: release_publication_reservation_locked_def\<close>)


lemma begin_cases:
  assumes "begin_publication_reservation io i st = (r, st')"
  obtains (refused) e where "r = Inl e" "publication_part st' = publication_part st"
  | (admitted) cap st1 objs where "r = Inr ()" "\<not> pr_active (reservation_objects st ! i)"
      "\<not> pr_closed (reservation_objects st ! i)" "admission_closed_blocker st = None"
      "sample_capacity io 1 0 = Inr cap" "observe_clock io (rq_clock (pr_request (reservation_objects st ! i))) st = (Inr True, st1)"
      "stored_objects st1 = Inr objs" "activation_blocker (reservation_objects st ! i) (int (length objs)) cap st1 = None"
      "st' = activate_reservation i (int (length objs)) cap st1"
proof (cases "rbind (verify_store_root_identity io 0) (\<lambda>_. sample_capacity io 1 0)")
  case (Inl e)
  then show ?thesis using assms by (intro refused [of "Raised e"]) (auto simp: begin_publication_reservation_def)
next
  case (Inr cap)
  let ?r = "reservation_objects st ! i"
  have sc: "sample_capacity io 1 0 = Inr cap" using Inr by (auto simp: rbind_eq_Inr)
  have act: "activate_publication_reservation_locked io cap i st = (r, st')"
    using assms Inr by (simp add: begin_publication_reservation_def)
  show ?thesis
  proof (cases "pr_active ?r \<or> pr_closed ?r \<or> admission_closed_blocker st \<noteq> None")
    case True
    then obtain e where "r = Inl e" "st' = st"
      using act by (auto simp: activate_publication_reservation_locked_def Let_def split: if_splits)
    then show ?thesis using refused by blast
  next
    case False
    obtain ro st1 where ob: "observe_clock io (rq_clock (pr_request ?r)) st = (ro, st1)" by (metis surj_pair)
    have part: "publication_part st1 = publication_part st" using observe_clock_part [OF ob] .
    have den: "publication_part (snd (publication_denial b st1)) = publication_part st" for b
      using publication_denial_part [of b st1] part by simp
    have inl: "\<exists>e. fst (publication_denial b st1) = (Inl e :: store_exc + unit)" for b
      by (simp add: publication_denial_def split: sum.splits prod.splits)
    consider (e) e where "ro = Inl e" | (f) "ro = Inr False" | (t) "ro = Inr True" by (cases ro) auto
    then show ?thesis
    proof cases
      case e
      with act ob False part show ?thesis
        by (intro refused [of e]) (auto simp: activate_publication_reservation_locked_def Let_def)
    next
      case f
      with act ob False have "(r, st') = publication_denial PUB_CLOCK_ANOMALY st1"
        by (auto simp: activate_publication_reservation_locked_def Let_def)
      then show ?thesis using refused inl den by (metis fst_conv snd_conv)
    next
      case t
      show ?thesis
      proof (cases "stored_objects st1")
        case (Inl e)
        with act ob t False part show ?thesis
          by (intro refused [of "Raised e"]) (auto simp: activate_publication_reservation_locked_def Let_def)
      next
        case so: (Inr objs)
        show ?thesis
        proof (cases "activation_blocker ?r (int (length objs)) cap st1")
          case None
          with act ob t False so show ?thesis
            by (intro admitted [OF _ _ _ _ sc]) (auto simp: activate_publication_reservation_locked_def Let_def)
        next
          case (Some b)
          with act ob t False so have "(r, st') = publication_denial b st1"
            by (auto simp: activate_publication_reservation_locked_def Let_def)
          then show ?thesis using refused inl den by (metis fst_conv snd_conv)
        qed
      qed
    qed
  qed
qed

lemma begin_inv:
  assumes "publication_inv st" "i < length (reservation_objects st)" "begin_publication_reservation io i st = (r, st')"
  shows "publication_inv st'"
  using assms(3)
proof (cases rule: begin_cases)
  case (refused e)
  then show ?thesis using assms(1) publication_part_inv by blast
next
  case (admitted cap st1 objs)
  have part: "publication_part st1 = publication_part st" using observe_clock_part [OF admitted(6)] .
  then have "reservation_objects st1 = reservation_objects st" by (simp add: publication_part_def)
  then show ?thesis using admitted assms(1,2) activate_inv [of st1 i] publication_part_inv [OF part] by simp
qed

lemma commit_locked_inv:
  assumes "publication_inv st" "commit_publication_reservation_locked io c i st = (r, st')"
  shows "publication_inv st'"
proof -
  obtain ro st1 where ob: "observe_clock io (clock_sample c) st = (ro, st1)" by (metis surj_pair)
  have i1: "publication_inv st1" using observe_clock_part [OF ob] assms(1) publication_part_inv by blast
  have den: "publication_inv (snd (publication_denial b st1 :: (store_exc + unit) \<times> Store))" for b
    using publication_denial_part publication_part_inv i1 by blast
  have rel: "publication_inv (snd (release_publication_reservation_locked i st1))"
    using release_publication_inv [OF i1] by (metis prod.collapse)
  have "publication_inv (snd (commit_publication_reservation_locked io c i st))"
  proof (cases ro)
    case (Inr t)
    show ?thesis
    proof (cases t)
      case True
      then show ?thesis using assms(1) i1 Inr den rel
        by (simp add: commit_publication_reservation_locked_def ob split: sum.splits option.splits)
    next
      case False
      then show ?thesis using assms(1) Inr den
        by (simp add: commit_publication_reservation_locked_def ob)
    qed
  qed (use assms(1) i1 in \<open>simp add: commit_publication_reservation_locked_def ob\<close>)
  then show ?thesis using assms(2) by simp
qed

lemma validate_publication_maximum_ok:
  "validate_publication_maximum v m n = Inr i \<Longrightarrow> 1 \<le> i \<and> i \<le> m"
  by (auto simp: validate_publication_maximum_def split: pyobj.splits if_splits)

lemma reserve_cases:
  obtains e where "reserve_publication p mb mo mi clock st = (Inl (Raised e), st)"
  | b ob i where "1 \<le> b" "b \<le> max_bytes st" "1 \<le> ob" "1 \<le> i" "retention_policy st = Some p"
      "reserve_publication p mb mo mi clock st = (Inr (length (reservation_objects st)),
         st\<lparr>reservation_objects := reservation_objects st @ [reservation_new \<lparr>rq_policy = p, maximum_new_bytes = b,
              maximum_new_objects = ob, maximum_new_inodes = i, rq_clock = clock\<rparr>]\<rparr>)"
proof (cases "require_lifecycle_policy p st")
  case (Inr u)
  have rp: "retention_policy st = Some p" using Inr by (simp add: require_lifecycle_policy_def split: if_splits)
  show ?thesis
  proof (cases "validate_publication_maximum mb (max_bytes st) ''maximum_new_bytes''")
    case b: (Inr b)
    show ?thesis
    proof (cases "validate_publication_maximum mo MAX_LIFECYCLE_OBJECTS ''maximum_new_objects''")
      case o: (Inr ob)
      show ?thesis
      proof (cases "validate_publication_maximum mi MAX_LIFECYCLE_OBJECTS ''maximum_new_inodes''")
        case i: (Inr i)
        show ?thesis
          by (rule that(2) [of b ob i])
            (use Inr b o i rp validate_publication_maximum_ok [OF b] validate_publication_maximum_ok [OF o]
              validate_publication_maximum_ok [OF i] in \<open>simp_all add: reserve_publication_def\<close>)
      qed (use Inr b o that(1) in \<open>simp add: reserve_publication_def\<close>)
    qed (use Inr b that(1) in \<open>simp add: reserve_publication_def\<close>)
  qed (use Inr that(1) in \<open>simp add: reserve_publication_def\<close>)
qed (use that(1) in \<open>simp add: reserve_publication_def\<close>)

lemma reserve_inv:
  assumes "publication_inv st"
  shows "publication_inv (snd (reserve_publication p mb mo mi clock st))"
proof (cases rule: reserve_cases [of p mb mo mi clock st])
  case (1 e)
  then show ?thesis using assms by simp
next
  case (2 b ob i)
  let ?r = "reservation_new \<lparr>rq_policy = p, maximum_new_bytes = b, maximum_new_objects = ob,
      maximum_new_inodes = i, rq_clock = clock\<rparr>"
  let ?st = "st\<lparr>reservation_objects := reservation_objects st @ [?r]\<rparr>"
  have lt: "\<forall>j\<in>set (publication_reservations st). j < length (reservation_objects st)"
    using assms by (simp add: publication_inv_def)
  have s: "active_sum f ?st = active_sum f st" for f
    using lt by (auto simp: active_sum_def nth_append intro!: arg_cong [of _ _ sum_list])
  have new: "\<not> pr_active ?r" "\<not> pr_closed ?r" "pr_bytes ?r = b" "pr_objects ?r = ob" "pr_inodes ?r = i"
    by (simp_all add: reservation_new_def)
  have "publication_inv ?st"
    using assms lt 2(1,3,4) new by (auto simp: publication_inv_def s Let_def nth_append less_Suc_eq)
  then show ?thesis by (simp add: 2(6))
qed

lemma prune_part: "publication_part (snd (prune io p clock st)) = publication_part st"
proof -
  have loop: "publication_part (snd (prune_loop io cs ws fb fo s)) = publication_part s" for cs ws fb fo s
    by (induction io cs ws fb fo s rule: prune_loop.induct)
      (auto simp: remove_storage_path_def split: option.splits sum.splits)
  have fin: "publication_part (snd (finish_prune_locked f s)) = publication_part s" for f s
    using close_admission_part
    by (auto simp: finish_prune_locked_def record_unsatisfied_prune_def Let_def split: sum.splits)
  obtain ro st1 where ob: "observe_clock io clock st = (ro, st1)" by (metis surj_pair)
  have p1: "publication_part st1 = publication_part st" using observe_clock_part [OF ob] .
  have "publication_part (snd (prune_locked io p clock cap st)) = publication_part st" for cap
  proof (cases "\<exists>a objs. ro = Inr a \<and> stored_objects st1 = Inr objs")
    case True
    then obtain a objs where a: "ro = Inr a" "stored_objects st1 = Inr objs" by blast
    let ?ws = "prune_working_set p cap (utc_now_ns clock) a objs"
    obtain r2 st2 where pu: "prune_unleased io ?ws st1 = (r2, st2)" by (metis surj_pair)
    have "publication_part st2 = publication_part st"
      using loop [of "sort_key stored_object_order objs" ?ws 0 0 st1] pu p1 by (simp add: prune_unleased_def)
    then show ?thesis using ob a pu fin
      by (auto simp: prune_locked_def Let_def split: sum.splits)
  next
    case False
    then show ?thesis using ob p1 by (auto simp: prune_locked_def split: sum.splits)
  qed
  then show ?thesis by (simp add: prune_def split: sum.splits)
qed

lemma run_call_inv:
  assumes "publication_inv st"
  shows "publication_inv (run_call io c st)"
proof (cases c)
  case (CBegin i)
  then show ?thesis using assms begin_inv by (auto simp: on_reservation_def) (metis prod.collapse)
next
  case (CCommit i ab ao ai)
  then show ?thesis using assms commit_locked_inv
    by (auto simp: on_reservation_def reservation_commit_def commit_publication_reservation_def Let_def split: sum.splits)
      (metis prod.collapse)
next
  case (CReserve p mb mo mi clock)
  then show ?thesis using assms by (simp add: reserve_inv)
next
  case (CPrune p clock)
  then show ?thesis using assms prune_part publication_part_inv by (metis run_call.simps(9))
next
  case CReconcile
  have "publication_part (snd (reconcile_lifecycle io st)) = publication_part st"
    using prune_part by (simp add: reconcile_lifecycle_def split: option.splits sum.splits)
  then show ?thesis using CReconcile assms publication_part_inv by (metis run_call.simps(10))
next
  case (CAbort i)
  then show ?thesis using assms release_publication_inv
    by (auto simp: on_reservation_def reservation_abort_def abort_publication_reservation_def) (metis prod.collapse)
next
  case (CExit i)
  then show ?thesis using assms release_publication_inv
    by (auto simp: on_reservation_def reservation_context_exit_def reservation_abort_def abort_publication_reservation_def)
      (metis prod.collapse)
next
  case (COther rt used reserved staging ord w)
  then show ?thesis using assms by (simp add: publication_inv_def active_sum_def)
next
  case (CAcquire path)
  have "publication_part (run_call io c st) = publication_part st"
    by (simp add: CAcquire acquire_asset_lease_def split: sum.splits)
  then show ?thesis using assms publication_part_inv by blast
next
  case (CRelease key token)
  have "publication_part (run_call io c st) = publication_part st"
    by (simp add: CRelease release_asset_lease_def split: option.splits)
  then show ?thesis using assms publication_part_inv by blast
next
  case (CRegister key token)
  have "publication_part (run_call io c st) = publication_part st"
    by (simp add: CRegister register_render_transaction_locked_def)
  then show ?thesis using assms publication_part_inv by blast
qed

lemma run_calls_inv: "publication_inv st \<Longrightarrow> publication_inv (run_calls cs st)"
  by (induction cs arbitrary: st) (auto simp: run_calls_def run_call_inv)


section \<open>The admission latch\<close>

definition latch_part :: "Store \<Rightarrow> PublicationBlocker option \<times> LifecycleAlert list" where
  "latch_part st = (admission_closed_blocker st, emitted_alerts st)"

lemma latch_part_simps [simp]:
  "latch_part (st\<lparr>clock_high_water := c\<rparr>) = latch_part st" "latch_part (st\<lparr>used_bytes := u\<rparr>) = latch_part st"
  "latch_part (st\<lparr>asset_leases := l\<rparr>) = latch_part st" "latch_part (st\<lparr>render_transaction_leases := t\<rparr>) = latch_part st"
  "latch_part (replace_object io key v st) = latch_part st" "latch_part (forget_object key st) = latch_part st"
  "latch_part (activate_reservation i n cap st) = latch_part st"
  by (simp_all add: latch_part_def replace_object_def forget_object_def activate_reservation_def Let_def)

lemma observe_clock_latch: "observe_clock io s st = (r, st1) \<Longrightarrow> latch_part st1 = latch_part st"
  using observe_clock_frame by fastforce

lemma close_admission_latched:
  "admission_closed_blocker st = Some b \<Longrightarrow> close_admission b' al st = (b, st)"
  by (simp add: close_admission_def)

lemma publication_denial_latched:
  "admission_closed_blocker st = Some b \<Longrightarrow> snd (publication_denial b' st) = st"
  by (simp add: publication_denial_def close_admission_latched split: sum.splits)

lemma release_latch: "latch_part (snd (release_publication_reservation_locked i st)) = latch_part st"
  by (simp add: release_publication_reservation_locked_def latch_part_def Let_def split: sum.splits)

lemma commit_latch:
  assumes "admission_closed_blocker st = Some b"
  shows "latch_part (snd (commit_publication_reservation_locked io c i st)) = latch_part st"
proof -
  obtain ro st1 where ob: "observe_clock io (clock_sample c) st = (ro, st1)" by (metis surj_pair)
  have l: "latch_part st1 = latch_part st" using observe_clock_latch [OF ob] .
  have d: "admission_closed_blocker st1 = Some b" using l assms by (simp add: latch_part_def)
  show ?thesis
  proof (cases ro)
    case (Inr t)
    then show ?thesis
      by (cases t; cases "stored_objects st1")
        (auto simp: commit_publication_reservation_locked_def ob l publication_denial_latched [OF d] release_latch
          split: option.splits)
  qed (use ob l in \<open>simp add: commit_publication_reservation_locked_def\<close>)
qed

lemma finish_latch:
  assumes "admission_closed_blocker st = Some b" "finish_prune_locked fin st = (r, st')"
  shows "latch_part st' = latch_part st
    \<or> emitted_alerts st' = emitted_alerts st \<and> admission_closed_blocker st' = None
      \<and> (\<exists>objs. stored_objects st' = Inr objs \<and> prune_blockers fin (leased st) objs = []
            \<and> used_bytes st' = scan_existing_bytes (fs_root st'))"
proof (cases "stored_objects st")
  case (Inr objs)
  show ?thesis
  proof (cases "prune_blockers fin (leased st) objs = []")
    case True
    then show ?thesis using assms(2) Inr by (auto simp: finish_prune_locked_def Let_def)
  next
    case False
    then show ?thesis using assms Inr
      by (auto simp: finish_prune_locked_def record_unsatisfied_prune_def close_admission_def latch_part_def Let_def
          split: sum.splits)
  qed
qed (use assms in \<open>simp add: finish_prune_locked_def\<close>)

lemma prune_loop_latch: "latch_part (snd (prune_loop io cs ws fb fo st)) = latch_part st"
  by (induction io cs ws fb fo st rule: prune_loop.induct)
    (auto simp: remove_storage_path_def split: option.splits sum.splits)

text \<open>The bounds that hold in the store after a prune that reopens admission.\<close>

definition within_policy :: "RetentionPolicy \<Rightarrow> StorageCapacity \<Rightarrow> Store \<Rightarrow> bool" where
  "within_policy p cap st =
     (case stored_objects st of
        Inl e \<Rightarrow> False
      | Inr objs \<Rightarrow>
          used_bytes st \<le> maximum_bytes p \<and> int (length objs) \<le> maximum_objects p
          \<and> minimum_free_bytes p \<le> available_bytes cap \<and> minimum_free_inodes p \<le> available_inodes cap)"

lemma prune_latch:
  assumes "admission_closed_blocker st = Some b" "prune io p clock st = (r, st')"
  shows "latch_part st' = latch_part st
    \<or> emitted_alerts st' = emitted_alerts st \<and> admission_closed_blocker st' = None \<and> retention_policy st = Some p
      \<and> (\<exists>cap st1. sample_capacity io 2 1 = Inr cap \<and> observe_clock io clock st = (Inr True, st1) \<and> within_policy p cap st')"
proof (cases "rbind (require_lifecycle_policy p st) (\<lambda>_.
           rbind (verify_store_root_identity io 0) (\<lambda>_. sample_capacity io 1 0))")
  case (Inl e)
  then show ?thesis using assms(2) by (simp add: prune_def)
next
  case (Inr cap)
  then have pl: "prune_locked io p clock cap st = (r, st')" and rp: "retention_policy st = Some p"
    using assms(2) by (auto simp: prune_def require_lifecycle_policy_def rbind_eq_Inr split: if_splits)
  obtain ro st1 where ob: "observe_clock io clock st = (ro, st1)" by (metis surj_pair)
  have l1: "latch_part st1 = latch_part st" using observe_clock_latch [OF ob] .
  show ?thesis
  proof (cases "\<exists>a objs. ro = Inr a \<and> stored_objects st1 = Inr objs")
    case True
    then obtain a objs where a: "ro = Inr a" "stored_objects st1 = Inr objs" by blast
    let ?ws = "prune_working_set p cap (utc_now_ns clock) a objs"
    obtain r2 st2 where pu: "prune_unleased io ?ws st1 = (r2, st2)" by (metis surj_pair)
    have l2: "latch_part st2 = latch_part st"
      using prune_loop_latch [of io "sort_key stored_object_order objs" ?ws 0 0 st1] pu l1 by (simp add: prune_unleased_def)
    show ?thesis
    proof (cases "\<exists>ws fb fo cap'. r2 = Inr (ws, fb, fo) \<and> sample_capacity io 2 1 = Inr cap'")
      case True
      then obtain ws fb fo cap' where f: "r2 = Inr (ws, fb, fo)" "sample_capacity io 2 1 = Inr cap'" by blast
      let ?st3 = "st2\<lparr>used_bytes := scan_existing_bytes (fs_root st2)\<rparr>"
      have fin: "finish_prune_locked \<lparr>fin_policy = p, fin_now_ns = utc_now_ns clock, trusted_clock_observation = a,
          fin_freed_bytes = fb, fin_freed_objects = fo, post_capacity = cap'\<rparr> ?st3 = (r, st')"
        using pl ob a pu f by (simp add: prune_locked_def Let_def)
      have b3: "admission_closed_blocker ?st3 = Some b" "latch_part ?st3 = latch_part st"
        using l2 assms(1) by (simp_all add: latch_part_def)
      from finish_latch [OF b3(1) fin] show ?thesis
      proof (elim disjE conjE exE)
        fix objs'
        assume h: "emitted_alerts st' = emitted_alerts ?st3" "admission_closed_blocker st' = None"
          "stored_objects st' = Inr objs'" "used_bytes st' = scan_existing_bytes (fs_root st')"
          "prune_blockers \<lparr>fin_policy = p, fin_now_ns = utc_now_ns clock, trusted_clock_observation = a,
             fin_freed_bytes = fb, fin_freed_objects = fo, post_capacity = cap'\<rparr> (leased ?st3) objs' = []"
        have "within_policy p cap' st'" "a"
          using h(3-5) stored_objects_bytes(1) [OF h(3)] by (auto simp: within_policy_def prune_blockers_empty)
        then show ?thesis using h b3(2) f(2) ob a rp by (auto simp: latch_part_def)
      qed (use b3(2) in simp)
    next
      case False
      then show ?thesis using pl ob a pu l2 by (auto simp: prune_locked_def Let_def split: sum.splits)
    qed
  next
    case False
    then show ?thesis using pl ob l1 by (auto simp: prune_locked_def split: sum.splits)
  qed
qed

lemma sum_list_mset_cong:
  fixes f :: "'a \<Rightarrow> int"
  shows "mset xs = mset ys \<Longrightarrow> sum_list (map f xs) = sum_list (map f ys)"
  by (simp flip: sum_mset_sum_list)

section \<open>Properties\<close>

text \<open>
  C23. Publication accounting is exact on every run: whatever calls, failures and other changes
  are interleaved, the reserved bytes, objects and inodes are the sums over the active
  reservations, each active reservation is covered by them, and when no reservation is active
  all three are zero. A reservation is never active and closed at once.
\<close>

theorem publication_accounting_exact:
  assumes "reservation_objects st = []" "publication_reservations st = []" "publication_reserved_bytes st = 0"
    "publication_reserved_objects st = 0" "publication_reserved_inodes st = 0" "st' = run_calls cs st"
  shows "publication_reserved_bytes st' = sum_list (map pr_bytes (filter pr_active (reservation_objects st')))
    \<and> publication_reserved_objects st' = sum_list (map pr_objects (filter pr_active (reservation_objects st')))
    \<and> publication_reserved_inodes st' = sum_list (map pr_inodes (filter pr_active (reservation_objects st')))
    \<and> (\<forall>r\<in>set (reservation_objects st'). \<not> (pr_active r \<and> pr_closed r)
         \<and> (pr_active r \<longrightarrow> 0 < pr_bytes r \<and> pr_bytes r \<le> publication_reserved_bytes st'))"
proof -
  have "publication_inv st" using assms(1-5) by (simp add: publication_inv_def active_sum_def)
  then have inv: "publication_inv st'" unfolding assms(6) by (rule run_calls_inv)
  let ?rs = "reservation_objects st'" and ?as = "publication_reservations st'"
  have act: "set ?as = {i. i < length ?rs \<and> pr_active (?rs ! i)}" "distinct ?as"
    using inv by (auto simp: publication_inv_def Let_def)
  have sum: "active_sum f st' = sum_list (map f (filter pr_active ?rs))" for f :: "PublicationReservation \<Rightarrow> int"
  proof -
    have "mset ?as = mset (filter (\<lambda>i. pr_active (?rs ! i)) [0..<length ?rs])"
      using act by (intro set_eq_iff_mset_eq_distinct [THEN iffD1]) auto
    then have "active_sum f st' = sum_list (map (\<lambda>i. f (?rs ! i)) (filter (\<lambda>i. pr_active (?rs ! i)) [0..<length ?rs]))"
      unfolding active_sum_def by (rule sum_list_mset_cong)
    also have "map (\<lambda>i. f (?rs ! i)) (filter (\<lambda>i. pr_active (?rs ! i)) [0..<length ?rs]) = map f (filter pr_active ?rs)"
    proof -
      have "filter pr_active ?rs = map ((!) ?rs) (filter (\<lambda>i. pr_active (?rs ! i)) [0..<length ?rs])"
        using filter_map [of pr_active "(!) ?rs" "[0..<length ?rs]"] by (simp add: map_nth comp_def)
      then show ?thesis by (simp add: comp_def)
    qed
    finally show ?thesis .
  qed
  have el: "\<not> (pr_active r \<and> pr_closed r) \<and> 1 \<le> pr_bytes r" if "r \<in> set ?rs" for r
    using inv that by (auto simp: publication_inv_def Let_def in_set_conv_nth)
  have "pr_bytes r \<le> sum_list (map pr_bytes (filter pr_active ?rs))" if "r \<in> set ?rs" "pr_active r" for r
    using that el by (intro sum_list_map_member_le) (auto intro: order_trans [of _ 1])
  then show ?thesis using inv el sum by (fastforce simp: publication_inv_def)
qed


definition example_reserve :: "int \<Rightarrow> store_call" where
  "example_reserve b = CReserve example_policy (PInt b) (PInt 1) (PInt 3) (example_sample 106 16)"

definition example_run :: "(store_io \<times> store_call) list" where
  "example_run =
     [(example_store_io 1000, COther (Directory (example_stat 448 0) []) 0 0 [] (Some example_store_order) fresh_world),
      (example_store_io 1000, example_reserve 40), (example_store_io 1000, CBegin 0),
      (example_store_io 1000, example_reserve 30), (example_store_io 1000, CBegin 1),
      (example_store_io 1000, CCommit 0 (PInt 20) (PInt 1) (PInt 2)), (example_store_io 1000, CExit 0)]"

theorem publication_accounting_exact_witness:
  "publication_reserved_bytes (run_calls example_run example_store) = 30
   \<and> map pr_active (reservation_objects (run_calls example_run example_store)) = [False, True]
   \<and> list_all (\<lambda>r. \<not> (pr_active r \<and> pr_closed r)) (reservation_objects (run_calls example_run example_store))"
proof -
  have "map (\<lambda>r. (pr_active r, pr_bytes r)) (reservation_objects (run_calls example_run example_store))
      = [(False, 40), (True, 30)]" by code_simp
  then have m: "map pr_active (reservation_objects (run_calls example_run example_store)) = [False, True]"
    "map pr_bytes (filter pr_active (reservation_objects (run_calls example_run example_store))) = [30]"
    by auto
  then show ?thesis
    using publication_accounting_exact [of example_store "run_calls example_run example_store" example_run]
    by (auto simp: example_store_def list_all_iff)
qed

text \<open>
  C24. With the root intact, a sampled capacity, a trusted clock and a readable inventory, entering a
  new reservation while admission is open succeeds exactly when the bytes in use, the staged bytes and
  all reservations including this one stay within the policy's byte and object budgets and leave its byte and
  inode reserves free; otherwise it raises the first broken bound and closes admission with it.
\<close>

theorem publication_admitted_iff_it_fits:
  assumes "root_ok io 0" "root_ok io 1" "capacity_at io 0 = Inr cap" "admission_closed_blocker st = None"
    and "r = reservation_objects st ! i" "\<not> pr_active r" "\<not> pr_closed r"
    and "observe_clock io (rq_clock (pr_request r)) st = (Inr True, st1)" "stored_objects st = Inr objs"
    and "begin_publication_reservation io i st = (res, st')"
  shows "(res = Inr () \<longleftrightarrow>
           used_bytes st + reserved_bytes st + publication_reserved_bytes st + pr_bytes r \<le> maximum_bytes (pr_policy r)
           \<and> int (length objs) + publication_reserved_objects st + pr_objects r \<le> maximum_objects (pr_policy r)
           \<and> minimum_free_bytes (pr_policy r) + reserved_bytes st + publication_reserved_bytes st + pr_bytes r
              \<le> available_bytes cap
           \<and> minimum_free_inodes (pr_policy r) + publication_reserved_inodes st + pr_inodes r \<le> available_inodes cap)
    \<and> (res = Inr () \<longrightarrow> publication_reserved_bytes st' = publication_reserved_bytes st + pr_bytes r
         \<and> publication_reserved_objects st' = publication_reserved_objects st + pr_objects r
         \<and> publication_reserved_inodes st' = publication_reserved_inodes st + pr_inodes r
         \<and> admission_closed_blocker st' = None \<and> emitted_alerts st' = emitted_alerts st)
    \<and> (res \<noteq> Inr () \<longrightarrow> (\<exists>b. activation_blocker r (int (length objs)) cap st = Some b
         \<and> res = Inl (PublicationReservationError b) \<and> admission_closed_blocker st' = Some b
         \<and> emitted_alerts st' = emitted_alerts st @ [\<lparr>alert_event = ADMISSION_CLOSED, alert_blockers = [lifecycle_blocker_of b]\<rparr>]
         \<and> publication_part st' = publication_part st))"
proof -
  obtain c where st1: "st1 = st\<lparr>clock_high_water := c\<rparr>" using observe_clock_frame [OF assms(8)] by blast
  have same: "activation_blocker r (int (length objs)) cap st1 = activation_blocker r (int (length objs)) cap st"
    by (simp add: st1 activation_blocker_def Let_def)
  have alert: "lifecycle_alert_new ADMISSION_CLOSED [lifecycle_blocker_of b]
      = Inr \<lparr>alert_event = ADMISSION_CLOSED, alert_blockers = [lifecycle_blocker_of b]\<rparr>" for b
    by (cases b) (simp_all add: lifecycle_alert_new_def all_lifecycle_blockers_def)
  have bg: "(res, st') = (case activation_blocker r (int (length objs)) cap st of
      Some b \<Rightarrow> publication_denial b st1 | None \<Rightarrow> (Inr (), activate_reservation i (int (length objs)) cap st1))"
    using assms same
    by (simp add: begin_publication_reservation_def verify_store_root_identity_def sample_capacity_def
        activate_publication_reservation_locked_def Let_def st1 split: option.splits)
  show ?thesis
  proof (cases "activation_blocker r (int (length objs)) cap st")
    case None
    then have rs: "res = Inr ()" "st' = activate_reservation i (int (length objs)) cap st1" using bg by simp_all
    then show ?thesis using None assms(4,5)
      by (simp add: activation_blocker_def activate_reservation_def st1 Let_def split: if_splits)
  next
    case (Some b)
    then have rs: "res = Inl (PublicationReservationError b)"
      "st' = st1\<lparr>admission_closed_blocker := Some b, emitted_alerts := emitted_alerts st1
          @ [\<lparr>alert_event = ADMISSION_CLOSED, alert_blockers = [lifecycle_blocker_of b]\<rparr>]\<rparr>"
      using bg assms(4) by (simp_all add: publication_denial_def alert close_admission_def st1)
    have "\<not> (used_bytes st + reserved_bytes st + publication_reserved_bytes st + pr_bytes r \<le> maximum_bytes (pr_policy r)
           \<and> int (length objs) + publication_reserved_objects st + pr_objects r \<le> maximum_objects (pr_policy r)
           \<and> minimum_free_bytes (pr_policy r) + reserved_bytes st + publication_reserved_bytes st + pr_bytes r
              \<le> available_bytes cap
           \<and> minimum_free_inodes (pr_policy r) + publication_reserved_inodes st + pr_inodes r \<le> available_inodes cap)"
      using Some by (auto simp: activation_blocker_def Let_def split: if_splits)
    then show ?thesis using rs Some by (simp add: st1)
  qed
qed

theorem publication_admitted_iff_it_fits_witness:
  "\<exists>st'. begin_publication_reservation (example_store_io 1000) 0
       (run_call (example_store_io 1000) (example_reserve 150) example_store)
     = (Inl (PublicationReservationError PUB_BYTE_BUDGET), st') \<and> admission_closed_blocker st' = Some PUB_BYTE_BUDGET"
proof -
  let ?io = "example_store_io 1000"
  let ?st = "run_call ?io (example_reserve 150) example_store"
  have "is_ok (stored_objects ?st)" by code_simp
  then obtain objs where objs: "stored_objects ?st = Inr objs" by (auto simp: is_ok_iff)
  have "(case observe_clock ?io (rq_clock (pr_request (reservation_objects ?st ! 0))) ?st of
      (Inr True, _) \<Rightarrow> True | _ \<Rightarrow> False)" by code_simp
  then obtain st1 where ob: "observe_clock ?io (rq_clock (pr_request (reservation_objects ?st ! 0))) ?st = (Inr True, st1)"
    by (auto split: prod.splits sum.splits bool.splits)
  obtain res st' where bg: "begin_publication_reservation ?io 0 ?st = (res, st')" by (metis surj_pair)
  have f: "admission_closed_blocker ?st = None" "\<not> pr_active (reservation_objects ?st ! 0)"
    "\<not> pr_closed (reservation_objects ?st ! 0)" by code_simp+
  have "fst (begin_publication_reservation ?io 0 ?st) = Inl (PublicationReservationError PUB_BYTE_BUDGET)" by code_simp
  then have rs: "res = Inl (PublicationReservationError PUB_BYTE_BUDGET)" using bg by simp
  have "capacity_at ?io 0 = Inr (example_capacity 1000)" "root_ok ?io 0" "root_ok ?io 1"
    by (simp_all add: example_store_io_def)
  from publication_admitted_iff_it_fits [OF this(2,3,1) f(1) refl f(2,3) ob objs bg] rs bg show ?thesis by auto
qed


lemma begin_latched:
  assumes "admission_closed_blocker st = Some b"
  shows "snd (begin_publication_reservation io i st) = st"
  using assms
  by (simp add: begin_publication_reservation_def activate_publication_reservation_locked_def Let_def split: sum.splits)

lemma run_call_keeps_latch:
  assumes "admission_closed_blocker st = Some b" "\<And>p clock. c \<noteq> CPrune p clock" "c \<noteq> CReconcile"
  shows "latch_part (run_call io c st) = latch_part st"
proof (cases c)
  case (CReserve p mb mo mi clock)
  then show ?thesis by (cases rule: reserve_cases [of p mb mo mi clock st]) (simp_all add: latch_part_def)
next
  case (CBegin i)
  then show ?thesis using begin_latched [OF assms(1)] by (simp add: on_reservation_def)
next
  case (CCommit i ab ao ai)
  then show ?thesis using commit_latch [OF assms(1)]
    by (auto simp: on_reservation_def reservation_commit_def commit_publication_reservation_def Let_def split: sum.splits)
next
  case (CAbort i)
  then show ?thesis using release_latch
    by (simp add: on_reservation_def reservation_abort_def abort_publication_reservation_def)
next
  case (CExit i)
  then show ?thesis using release_latch
    by (simp add: on_reservation_def reservation_context_exit_def reservation_abort_def abort_publication_reservation_def)
next
  case (CAcquire path)
  then show ?thesis by (simp add: acquire_asset_lease_def split: sum.splits)
next
  case (CRelease key token)
  then show ?thesis by (simp add: release_asset_lease_def split: option.splits)
next
  case (CRegister key token)
  then show ?thesis by (simp add: register_render_transaction_locked_def)
next
  case (COther rt used reserved staging ord w)
  then show ?thesis by (simp add: latch_part_def)
qed (use assms in auto)

text \<open>
  Closed admission stays closed: while a blocker is latched no call emits a further alert or
  changes the blocker, entering a reservation leaves the store as it is, and the only calls that can reopen admission
  are a prune or a reconciliation under the configured policy, with a trusted clock observation, that leave the
  store within the byte and object budgets and the sampled capacity above both reserves.
\<close>

theorem admission_latched_until_satisfied_prune:
  assumes "admission_closed_blocker st = Some b"
  shows "emitted_alerts (run_call io c st) = emitted_alerts st
    \<and> (\<forall>i. c = CBegin i \<longrightarrow> run_call io c st = st)
    \<and> (admission_closed_blocker (run_call io c st) = Some b
       \<or> admission_closed_blocker (run_call io c st) = None
         \<and> (\<exists>p clock cap st1. retention_policy st = Some p
               \<and> (c = CPrune p clock \<or> c = CReconcile \<and> clock_sampled io = Inr clock)
               \<and> observe_clock io clock st = (Inr True, st1)
               \<and> sample_capacity io 2 1 = Inr cap \<and> within_policy p cap (run_call io c st)))"
proof -
  have pr: "emitted_alerts (snd (prune io p clock st)) = emitted_alerts st
    \<and> (admission_closed_blocker (snd (prune io p clock st)) = Some b
       \<or> admission_closed_blocker (snd (prune io p clock st)) = None \<and> retention_policy st = Some p
         \<and> (\<exists>cap st1. sample_capacity io 2 1 = Inr cap \<and> observe_clock io clock st = (Inr True, st1)
               \<and> within_policy p cap (snd (prune io p clock st))))" for p clock
    using prune_latch [OF assms, of io p clock] assms by (cases "prune io p clock st") (auto simp: latch_part_def)
  have bg: "\<forall>i. c = CBegin i \<longrightarrow> run_call io c st = st"
    using begin_latched [OF assms] by (auto simp: on_reservation_def)
  consider (p) p clock where "c = CPrune p clock" | (r) "c = CReconcile"
    | (k) "\<And>p clock. c \<noteq> CPrune p clock" "c \<noteq> CReconcile" by blast
  then show ?thesis
  proof cases
    case p
    then show ?thesis using pr [of p clock] bg by auto
  next
    case r
    show ?thesis
    proof (cases "\<exists>p clock. retention_policy st = Some p \<and> clock_sampler_bound st \<and> clock_sampled io = Inr clock")
      case True
      then obtain p clock where t: "retention_policy st = Some p" "clock_sampler_bound st" "clock_sampled io = Inr clock"
        by blast
      then have "run_call io c st = snd (prune io p clock st)" by (simp add: r reconcile_lifecycle_def)
      then show ?thesis using pr [of p clock] bg t(1,3) r by auto
    next
      case False
      then have "run_call io c st = st" by (auto simp: r reconcile_lifecycle_def split: option.splits sum.splits)
      then show ?thesis using assms bg by auto
    qed
  next
    case k
    then show ?thesis using run_call_keeps_latch [OF assms k, of io] assms bg by (simp add: latch_part_def)
  qed
qed

end
