(* ===== verification/Nplg_Digest.thy ===== *)
theory Nplg_Digest
  imports Nplg_Prelude "HOL-Library.Word"
begin

text \<open>
  The digests of Python's standard library that the sources use: \<^verbatim>\<open>hashlib.sha256\<close>, its
  \<^verbatim>\<open>hexdigest\<close>, and \<^verbatim>\<open>hmac.new(key, data, hashlib.sha256).digest()\<close>. The lemmas give the
  shape of the results; nothing is assumed about collisions.
\<close>

unbundle bit_operations_syntax

section \<open>SHA-256\<close>

type_synonym w32 = "32 word"

text \<open>
  The round constants are the fractional parts of the cube roots of the first 64 primes, the initial
  state the fractional parts of the square roots of the first eight, to 32 bits. \<open>int_root k n b a\<close>
  extends \<open>a\<close> bit by bit, from bit \<open>b - 1\<close> down, while its \<open>k\<close>-th power is at most \<open>n\<close>.
\<close>

fun int_root :: "nat \<Rightarrow> nat \<Rightarrow> nat \<Rightarrow> nat \<Rightarrow> nat" where
  "int_root k n 0 a = a"
| "int_root k n (Suc b) a = int_root k n b (if (a + 2 ^ b) ^ k \<le> n then a + 2 ^ b else a)"

definition sha_primes :: "nat list" where
  "sha_primes = filter (\<lambda>n. list_all (\<lambda>d. n mod d \<noteq> 0) [2..<n]) [2..<312]"

definition sha_constants :: "w32 list" where
  "sha_constants = map (\<lambda>p. of_nat (int_root 3 (p * 2 ^ 96) 36 0)) sha_primes"

definition sha_initial :: "w32 list" where
  "sha_initial = map (\<lambda>p. of_nat (int_root 2 (p * 2 ^ 64) 36 0)) [2, 3, 5, 7, 11, 13, 17, 19]"

definition big_sigma0 :: "w32 \<Rightarrow> w32" where
  "big_sigma0 x = word_rotr 2 x XOR word_rotr 13 x XOR word_rotr 22 x"

definition big_sigma1 :: "w32 \<Rightarrow> w32" where
  "big_sigma1 x = word_rotr 6 x XOR word_rotr 11 x XOR word_rotr 25 x"

definition small_sigma0 :: "w32 \<Rightarrow> w32" where
  "small_sigma0 x = word_rotr 7 x XOR word_rotr 18 x XOR drop_bit 3 x"

definition small_sigma1 :: "w32 \<Rightarrow> w32" where
  "small_sigma1 x = word_rotr 17 x XOR word_rotr 19 x XOR drop_bit 10 x"

fun be_bytes :: "nat \<Rightarrow> nat \<Rightarrow> bytes" where
  "be_bytes 0 n = []"
| "be_bytes (Suc k) n = be_bytes k (n div 256) @ [n mod 256]"

definition sha_pad :: "bytes \<Rightarrow> bytes" where
  "sha_pad m =
     (let zeros = (119 - length m mod 64) mod 64
      in m @ [128] @ replicate zeros 0 @ be_bytes 8 (8 * length m))"

fun words_of :: "bytes \<Rightarrow> w32 list" where
  "words_of (a # b # c # d # rest) = of_nat (((a * 256 + b) * 256 + c) * 256 + d) # words_of rest"
| "words_of _ = []"

text \<open>The message schedule, latest word first.\<close>

fun sha_schedule :: "nat \<Rightarrow> w32 list \<Rightarrow> w32 list" where
  "sha_schedule 0 r = r"
| "sha_schedule (Suc k) r = sha_schedule k ((small_sigma1 (r ! 1) + r ! 6 + small_sigma0 (r ! 14) + r ! 15) # r)"

fun sha_round :: "w32 list \<Rightarrow> w32 \<times> w32 \<Rightarrow> w32 list" where
  "sha_round [a, b, c, d, e, f, g, h] (k, w) =
     (let t1 = h + big_sigma1 e + ((e AND f) XOR (NOT e AND g)) + k + w;
          t2 = big_sigma0 a + ((a AND b) XOR (a AND c) XOR (b AND c))
      in [t1 + t2, a, b, c, d + t1, e, f, g])"
| "sha_round s _ = s"

definition sha_block :: "w32 list \<Rightarrow> w32 list \<Rightarrow> w32 list" where
  "sha_block s block =
     map2 (+) s (foldl sha_round s (zip sha_constants (rev (sha_schedule 48 (rev block)))))"

fun sha_blocks :: "nat \<Rightarrow> w32 list \<Rightarrow> w32 list \<Rightarrow> w32 list" where
  "sha_blocks 0 s ws = s"
| "sha_blocks (Suc n) s ws = sha_blocks n (sha_block s (take 16 ws)) (drop 16 ws)"

definition sha256 :: "bytes \<Rightarrow> bytes" where
  "sha256 m =
     (let ws = words_of (sha_pad m)
      in concat (map (\<lambda>w. be_bytes 4 (unat w)) (sha_blocks (length ws div 16) sha_initial ws)))"

definition hex_digit :: "nat \<Rightarrow> nat" where
  "hex_digit d = (if d < 10 then 48 + d else 87 + d)"

definition hexdigest :: "bytes \<Rightarrow> pystr" where
  "hexdigest bs = concat (map (\<lambda>b. [hex_digit (b div 16), hex_digit (b mod 16)]) bs)"

section \<open>HMAC\<close>

definition hmac_sha256 :: "bytes \<Rightarrow> bytes \<Rightarrow> bytes" where
  "hmac_sha256 key msg =
     (let k = (if 64 < length key then sha256 key else key);
          k64 = k @ replicate (64 - length k) 0
      in sha256 (map (\<lambda>b. b XOR 0x5c) k64 @ sha256 (map (\<lambda>b. b XOR 0x36) k64 @ msg)))"

section \<open>Shape of the digests\<close>

lemma length_be_bytes [simp]: "length (be_bytes k n) = k"
  by (induction k arbitrary: n) simp_all

lemma be_bytes_bytes: "b \<in> set (be_bytes k n) \<Longrightarrow> b < 256"
  by (induction k arbitrary: n) auto

lemma length_sha_round [simp]: "length (sha_round s kw) = length s"
  by (cases "(s, kw)" rule: sha_round.cases) (auto simp: Let_def)

lemma length_sha_rounds [simp]: "length (foldl sha_round s kws) = length s"
  by (induction kws arbitrary: s) simp_all

lemma length_sha_blocks [simp]: "length (sha_blocks n s ws) = length s"
  by (induction n arbitrary: s ws) (simp_all add: sha_block_def)

lemma length_concat_const: "(\<And>x. x \<in> set xs \<Longrightarrow> length (f x) = n) \<Longrightarrow> length (concat (map f xs)) = n * length xs"
  by (induction xs) (auto simp: algebra_simps)

lemma length_sha256 [simp]: "length (sha256 m) = 32"
  by (simp add: sha256_def Let_def length_concat_const [of _ _ 4] sha_initial_def)

lemma sha256_bytes: "is_bytes (sha256 m)"
  by (auto simp: sha256_def is_bytes_def Let_def dest: be_bytes_bytes)

lemma length_hmac [simp]: "length (hmac_sha256 key msg) = 32"
  by (simp add: hmac_sha256_def Let_def)

lemma hmac_bytes: "is_bytes (hmac_sha256 key msg)"
  by (simp add: hmac_sha256_def Let_def sha256_bytes)

lemma length_hexdigest [simp]: "length (hexdigest bs) = 2 * length bs"
  by (simp add: hexdigest_def length_concat_const [of _ _ 2])

lemma hexdigest_inj: "is_bytes xs \<Longrightarrow> is_bytes ys \<Longrightarrow> hexdigest xs = hexdigest ys \<Longrightarrow> xs = ys"
proof (induction xs arbitrary: ys)
  case Nil
  then show ?case by (cases ys) (auto simp: hexdigest_def)
next
  case (Cons x xs)
  then obtain y zs where ys: "ys = y # zs" by (cases ys) (auto simp: hexdigest_def)
  have "hex_digit (x div 16) = hex_digit (y div 16)" "hex_digit (x mod 16) = hex_digit (y mod 16)" "hexdigest xs = hexdigest zs"
    using Cons.prems(3) by (auto simp: ys hexdigest_def)
  moreover have "a = b" if "hex_digit a = hex_digit b" "a < 16" "b < 16" for a b
    using that by (auto simp: hex_digit_def split: if_splits)
  ultimately have "x div 16 = y div 16" "x mod 16 = y mod 16" "hexdigest xs = hexdigest zs"
    using Cons.prems(1,2) by (auto simp: is_bytes_def ys less_mult_imp_div_less)
  then have "x = y" by (metis div_mult_mod_eq)
  then show ?case using Cons ys \<open>hexdigest xs = hexdigest zs\<close> by (auto simp: is_bytes_def)
qed

end
