(* ===== verification/Nplg_Staging.thy ===== *)
theory Nplg_Staging
  imports Nplg_Publication Nplg_Digest
begin

text \<open>
  Staged writers and artifact commits of \<^verbatim>\<open>ContentAddressedStore\<close> (\<^verbatim>\<open>src/nplg_mcp/storage.py\<close>): byte reservations of
  open writers, \<open>stage\<close>, \<open>_StagedWriter\<close> with its snapshot, the commit of a document, the commit and
  replacement of a render file, discarding, the deletion of a render subtree, and render transactions.
\<close>

section \<open>Surroundings of a call\<close>

text \<open>
  What a staging call meets besides \<open>store_io\<close>: the outcome of the stream write, what the open
  descriptor shows before and after it is read back, the name and metadata given to a new staged
  file, the metadata of a new directory, an insertion record, whether \<open>os.replace\<close> fails, what
  the moved file shows at the destination right after it, and the node a symbolic link leads to.
\<close>

record stage_io =
  sio :: store_io
  stream_write :: "bytes \<Rightarrow> nat res"
  fd_before :: file_stat
  fd_after :: file_stat
  fd_before_size :: int
  fd_after_size :: int
  fd_regular :: bool
  fd_content :: bytes
  fresh_bytes :: bytes
  new_file_stat :: file_stat
  new_dir_stat :: file_stat
  record_stat :: file_stat
  record_bytes :: bytes
  replace_error :: "pyexc option"
  published_view :: "file_stat \<Rightarrow> bytes \<Rightarrow> file_stat \<times> bytes"
  link_view :: "fsnode option"

definition follow :: "stage_io \<Rightarrow> fsnode option \<Rightarrow> fsnode option" where
  "follow io n = (case n of Some (SymbolicLink s) \<Rightarrow> link_view io | _ \<Rightarrow> n)"

definition STAGING_DIR :: pystr where "STAGING_DIR = codes ''.staging''"

definition staged_path :: "pystr \<Rightarrow> pystr list" where
  "staged_path name = [STAGING_DIR, name]"

definition directory_at :: "fsnode \<Rightarrow> pystr list \<Rightarrow> bool" where
  "directory_at rt path = (case fs_lookup path rt of Some n \<Rightarrow> is_directory n | None \<Rightarrow> False)"

definition store_put :: "stage_io \<Rightarrow> fsnode option \<Rightarrow> pystr list \<Rightarrow> Store \<Rightarrow> Store" where
  "store_put io v path st = st\<lparr>fs_root := fs_put (io_now (sio io)) v path (fs_root st)\<rparr>"

text \<open>\<open>_sha256_path\<close>: the digest of what the path leads to; a directory cannot be opened.\<close>

definition sha256_path :: "fsnode option \<Rightarrow> pystr res" where
  "sha256_path n =
     (case n of Some (RegularFile s c) \<Rightarrow> Inr (hexdigest (sha256 c)) | _ \<Rightarrow> Inl (OSError ''open''))"

section \<open>Validators\<close>

definition validate_namespace :: "pystr \<Rightarrow> pystr res" where
  "validate_namespace ns =
     (if ns \<notin> fst ` set ALLOWED_NAMESPACES
      then app_fail INVALID_INPUT ''Artifact namespace is not permitted.'' 400 else Inr ns)"

definition posix_name :: "pystr \<Rightarrow> pystr" where
  "posix_name s = (if posix_names s = [] then [] else last (posix_names s))"

definition validate_filename :: "pystr \<Rightarrow> pystr res" where
  "validate_filename s =
     (if s = [] \<or> s \<in> {codes ''.'', codes ''..''} \<or> 0 \<in> set s \<or> SLASH \<in> set s \<or> 92 \<in> set s
      then app_fail INVALID_INPUT ''Artifact filename is invalid.'' 400
      else if posix_name s \<noteq> s then app_fail INVALID_INPUT ''Artifact filename is invalid.'' 400
      else Inr s)"

text \<open>Python's \<^verbatim>\<open>str.isspace\<close> of one character.\<close>

definition py_isspace :: "nat \<Rightarrow> bool" where
  "py_isspace c =
     (9 \<le> c \<and> c \<le> 13 \<or> 28 \<le> c \<and> c \<le> 32 \<or> c = 133 \<or> c = 160 \<or> c = 5760 \<or> 8192 \<le> c \<and> c \<le> 8202
      \<or> c = 8232 \<or> c = 8233 \<or> c = 8239 \<or> c = 8287 \<or> c = 12288)"

definition py_strip :: "pystr \<Rightarrow> pystr" where
  "py_strip s = rev (dropWhile py_isspace (rev (dropWhile py_isspace s)))"

text \<open>The Unicode lower-casing of \<^verbatim>\<open>str.lower\<close> is the argument \<open>lower\<close>.\<close>

definition validate_media_type :: "(pystr \<Rightarrow> pystr) \<Rightarrow> pystr \<Rightarrow> pystr res" where
  "validate_media_type lower s =
     (let v = lower (py_strip s)
      in if v = [] \<or> SLASH \<notin> set v \<or> list_ex py_isspace v
         then app_fail INVALID_INPUT ''Artifact media type is invalid.'' 400 else Inr v)"

section \<open>Reservations of open writers\<close>

definition cache_full :: "'a res" where
  "cache_full = app_fail CACHE_FULL ''The local artifact cache has reached its configured capacity.'' 507"

definition unmanaged :: "'a res" where
  "unmanaged = app_fail INVALID_INPUT ''Staged artifact is not managed by this store.'' 400"

definition set_staging :: "pystr \<Rightarrow> int \<Rightarrow> int \<Rightarrow> Store \<Rightarrow> Store" where
  "set_staging name v delta st =
     st\<lparr>staging_reservations := dict_set (staging_reservations st) name v, reserved_bytes := reserved_bytes st + delta\<rparr>"

definition reserve_staging_bytes :: "pystr \<Rightarrow> int \<Rightarrow> unit store_op" where
  "reserve_staging_bytes name amount st =
     (if amount < 0 then (Inl (Raised (ValueError ''reservation amount must not be negative'')), st)
      else if amount = 0 then (Inr (), st)
      else case map_of (staging_reservations st) name of
        None \<Rightarrow> (raised unmanaged, st)
      | Some current \<Rightarrow>
          if max_bytes st < used_bytes st + reserved_bytes st + amount then (raised cache_full, st)
          else (Inr (), set_staging name (current + amount) amount st))"

definition release_staging_bytes :: "pystr \<Rightarrow> int \<Rightarrow> unit store_op" where
  "release_staging_bytes name amount st =
     (if amount \<le> 0 then (Inr (), st)
      else case map_of (staging_reservations st) name of
        None \<Rightarrow> (Inl (Raised (RuntimeError ''staging reservation release is unbalanced'')), st)
      | Some current \<Rightarrow>
          if current < amount then (Inl (Raised (RuntimeError ''staging reservation release is unbalanced'')), st)
          else (Inr (), set_staging name (current - amount) (- amount) st))"

text \<open>Dropping a writer's entry together with the bytes it holds (\<open>pop(path, 0)\<close>).\<close>

definition pop_staging :: "pystr \<Rightarrow> Store \<Rightarrow> Store" where
  "pop_staging name st =
     st\<lparr>reserved_bytes := reserved_bytes st - dict_get (staging_reservations st) name 0,
        staging_reservations := dict_del (staging_reservations st) name\<rparr>"

text \<open>\<open>_release_staged_reservation_locked\<close>: \<open>del\<close> of the entry and the given number of bytes.\<close>

definition release_staged_reservation_locked :: "pystr \<Rightarrow> int \<Rightarrow> Store \<Rightarrow> Store" where
  "release_staged_reservation_locked name reserved st =
     st\<lparr>staging_reservations := dict_del (staging_reservations st) name, reserved_bytes := reserved_bytes st - reserved\<rparr>"

definition reconcile_staged_size_locked :: "pystr \<Rightarrow> int \<Rightarrow> int store_op" where
  "reconcile_staged_size_locked name sz st =
     (case map_of (staging_reservations st) name of
        None \<Rightarrow> (raised unmanaged, st)
      | Some reserved \<Rightarrow>
          if reserved < sz
          then (if max_bytes st < used_bytes st + reserved_bytes st + (sz - reserved) then (raised cache_full, st)
                else (Inr sz, set_staging name sz (sz - reserved) st))
          else if sz < reserved then (Inr sz, set_staging name sz (sz - reserved) st)
          else (Inr sz, st))"

section \<open>Staged writers\<close>

text \<open>
  A writer: its file name under the staging directory, whether its stream is open, and the bytes
  fed to its digest. \<open>verify_access\<close> and \<open>verify_cleanup\<close> are the guards of the render transaction
  that owns the writer; an ordinary writer has the guard that always passes.
\<close>

record StagedWriter =
  sw_name :: pystr
  sw_open :: bool
  sw_data :: bytes

type_synonym 'a writer_op = "(store_exc, StagedWriter \<times> Store, 'a) op"

record StagedSnapshot =
  sn_sha256 :: pystr
  sn_size :: int
  sn_device :: int
  sn_inode :: int
  sn_mtime_ns :: int
  sn_ctime_ns :: int

definition stage :: "stage_io \<Rightarrow> unit res \<Rightarrow> pystr \<Rightarrow> StagedWriter store_op" where
  "stage io guard sfx st =
     (case rbind guard (\<lambda>_. verify_store_root_identity (sio io) 0) of
        Inl e \<Rightarrow> (Inl (Raised e), st)
      | Inr _ \<Rightarrow>
          if SLASH \<in> set sfx \<or> 92 \<in> set sfx \<or> 0 \<in> set sfx
          then (raised (app_fail INVALID_INPUT ''Staging suffix is invalid.'' 400), st)
          else (let name = codes ''stage-'' @ hexdigest (fresh_bytes io) @ sfx
                in if \<not> directory_at (fs_root st) [STAGING_DIR] \<or> fs_lookup (staged_path name) (fs_root st) \<noteq> None
                   then (Inl (Raised (OSError ''open'')), st)
                   else if st_nlink (new_file_stat io) \<noteq> 1
                           \<or> \<not> owned_with_mode (io_euid (sio io)) (io_egid (sio io)) PRIVATE_FILE_MODE (new_file_stat io)
                   then (Inl (Raised (ValueError ''staged artifact did not reach its private file postcondition'')), st)
                   else (Inr \<lparr>sw_name = name, sw_open = True, sw_data = []\<rparr>,
                         (store_put io (Some (RegularFile (new_file_stat io) [])) (staged_path name) st)
                           \<lparr>staging_reservations := dict_set (staging_reservations st) name 0\<rparr>)))"

text \<open>The bytes that reach the file, as long as the staged path still names it.\<close>

definition append_staged :: "stage_io \<Rightarrow> pystr \<Rightarrow> bytes \<Rightarrow> Store \<Rightarrow> Store" where
  "append_staged io name data st =
     (case fs_lookup (staged_path name) (fs_root st) of
        Some (RegularFile s c) \<Rightarrow> store_put io (Some (RegularFile s (c @ data))) (staged_path name) st
      | _ \<Rightarrow> st)"

definition writer_write :: "stage_io \<Rightarrow> unit res \<Rightarrow> bytes \<Rightarrow> nat writer_op" where
  "writer_write io guard data ws =
     (let (w, st) = ws
      in case guard of
        Inl e \<Rightarrow> (Inl (Raised e), ws)
      | Inr _ \<Rightarrow>
          if \<not> sw_open w then (Inl (Raised (RuntimeError ''staged writer is not open'')), ws)
          else case reserve_staging_bytes (sw_name w) (int (length data)) st of
            (Inl e, st1) \<Rightarrow> (Inl e, (w, st1))
          | (Inr _, st1) \<Rightarrow>
              (case stream_write io data of
                 Inl e \<Rightarrow>
                   (case release_staging_bytes (sw_name w) (int (length data)) st1 of
                      (Inl e2, st2) \<Rightarrow> (Inl e2, (w, st2))
                    | (Inr _, st2) \<Rightarrow> (Inl (Raised e), (w, st2)))
               | Inr written \<Rightarrow>
                   (case release_staging_bytes (sw_name w) (int (length data) - int written) st1 of
                      (Inl e2, st2) \<Rightarrow> (Inl e2, (w, append_staged io (sw_name w) (take written data) st2))
                    | (Inr _, st2) \<Rightarrow>
                        (Inr written,
                         (w\<lparr>sw_data := sw_data w @ take written data\<rparr>,
                          append_staged io (sw_name w) (take written data) st2)))))"

definition fingerprint :: "file_stat \<Rightarrow> int \<Rightarrow> int \<times> int \<times> int \<times> int \<times> int" where
  "fingerprint s sz = (st_dev s, st_ino s, sz, st_mtime_ns s, st_ctime_ns s)"

text \<open>\<open>_snapshot\<close>: the descriptor is read back between two \<open>fstat\<close> calls.\<close>

definition writer_snapshot :: "stage_io \<Rightarrow> unit res \<Rightarrow> StagedWriter \<Rightarrow> StagedSnapshot res" where
  "writer_snapshot io guard w =
     rbind guard (\<lambda>_.
       if \<not> sw_open w then Inl (RuntimeError ''staged writer is not open'')
       else let n = length (sw_data w); after = fd_after io
            in if \<not> fd_regular io \<or> fd_after_size io \<noteq> int n \<or> length (fd_content io) \<noteq> n
                  \<or> fingerprint (fd_before io) (fd_before_size io) \<noteq> fingerprint after (fd_after_size io)
                  \<or> sha256 (fd_content io) \<noteq> sha256 (sw_data w)
               then app_fail INVALID_INPUT ''Staged artifact changed before commit.'' 400
               else Inr \<lparr>sn_sha256 = hexdigest (sha256 (fd_content io)), sn_size = int n, sn_device = st_dev after,
                         sn_inode = st_ino after, sn_mtime_ns = st_mtime_ns after, sn_ctime_ns = st_ctime_ns after\<rparr>)"

definition discard_staged_file :: "stage_io \<Rightarrow> pystr \<Rightarrow> unit store_op" where
  "discard_staged_file io name st =
     (case verify_store_root_identity (sio io) 0 of
        Inl e \<Rightarrow> (Inl (Raised e), pop_staging name st)
      | Inr _ \<Rightarrow> (Inr (), pop_staging name (store_put io None (staged_path name) st)))"

definition writer_exit :: "stage_io \<Rightarrow> unit res \<Rightarrow> unit writer_op" where
  "writer_exit io cleanup_guard ws =
     (let (w, st) = ws
      in case cleanup_guard of
        Inl e \<Rightarrow> (Inl (Raised e), ws)
      | Inr _ \<Rightarrow> (case discard_staged_file io (sw_name w) st of (r, st') \<Rightarrow> (r, (w\<lparr>sw_open := False\<rparr>, st'))))"


section \<open>Committing a document\<close>

definition staged_identity_ok :: "fsnode option \<Rightarrow> StagedSnapshot \<Rightarrow> bool" where
  "staged_identity_ok n sn =
     (case n of
        Some (RegularFile s c) \<Rightarrow>
          int (length c) = sn_size sn \<and> st_dev s = sn_device sn \<and> st_ino s = sn_inode sn
          \<and> st_mtime_ns s = sn_mtime_ns sn \<and> st_ctime_ns s = sn_ctime_ns sn
      | _ \<Rightarrow> False)"

definition validate_staged_identity :: "pystr \<Rightarrow> StagedSnapshot \<Rightarrow> Store \<Rightarrow> unit res" where
  "validate_staged_identity name sn st =
     (if staged_identity_ok (fs_lookup (staged_path name) (fs_root st)) sn then Inr ()
      else app_fail INVALID_INPUT ''Staged artifact identity changed before commit.'' 400)"

definition published_identity_ok :: "fsnode option \<Rightarrow> StagedSnapshot \<Rightarrow> bool" where
  "published_identity_ok n sn =
     (case n of
        Some d \<Rightarrow> st_dev (node_stat d) = sn_device sn \<and> st_ino (node_stat d) = sn_inode sn \<and> st_size d = sn_size sn
                  \<and> st_mtime_ns (node_stat d) = sn_mtime_ns sn
      | None \<Rightarrow> False)"

text \<open>
  \<open>_ensure_private_directory_path\<close>: create the directory with mode 0700 or accept an existing one that
  is a real directory of the process with that mode.
\<close>

definition ensure_private_directory_path :: "stage_io \<Rightarrow> pystr list \<Rightarrow> string \<Rightarrow> unit store_op" where
  "ensure_private_directory_path io path context st =
     (case fs_lookup path (fs_root st) of
        None \<Rightarrow>
          if \<not> directory_at (fs_root st) (butlast path) then (Inl (Raised (OSError ''mkdir'')), st)
          else
          (let st1 = store_put io (Some (Directory ((new_dir_stat io)\<lparr>st_permissions := PRIVATE_DIRECTORY_MODE\<rparr>) [])) path st
           in if st_uid (new_dir_stat io) \<noteq> io_euid (sio io) \<or> st_gid (new_dir_stat io) \<noteq> io_egid (sio io)
              then (Inl (Raised (ValueError (context @ '' directory is unsafe''))), st1)
              else (Inr (), st1))
      | Some n \<Rightarrow>
          if private_directory (io_euid (sio io)) (io_egid (sio io)) n then (Inr (), st)
          else (Inl (Raised (ValueError (context @ '' directory is unsafe''))), st))"

text \<open>
  \<open>_ensure_insertion_sequence\<close>: the insertion order allocates a sequence for a new object and writes its
  record file into the object directory.
\<close>

definition ensure_insertion_sequence :: "stage_io \<Rightarrow> pystr \<Rightarrow> unit store_op" where
  "ensure_insertion_sequence io key st =
     (case insertion_order st of
        None \<Rightarrow> (Inr (), st)
      | Some ord \<Rightarrow>
          (case ensure key (ord, sync_record key (fs_root st) (order_world st)) of
             (r, (ord', w')) \<Rightarrow>
               (let record_path = key_path key @ [INSERTION_SEQUENCE_FILENAME];
                    st1 = st\<lparr>insertion_order := Some ord', order_world := w'\<rparr>;
                    st2 = (if fs_lookup record_path (fs_root st1) = None \<and> sequence_files w' key \<noteq> RecAbsent
                           then store_put io (Some (RegularFile (record_stat io) (record_bytes io))) record_path st1 else st1)
                in (case r of Inl e \<Rightarrow> Inl (Raised e) | Inr _ \<Rightarrow> Inr (), st2))))"

text \<open>
  \<open>staged.replace(destination)\<close>: the staged node takes the destination's place with a new change time.
\<close>

definition published_node :: "stage_io \<Rightarrow> fsnode \<Rightarrow> fsnode" where
  "published_node io n =
     (case n of
        RegularFile s c \<Rightarrow>
          (case published_view io (s\<lparr>st_ctime_ns := io_now (sio io)\<rparr>) c of (s', c') \<Rightarrow> RegularFile s' c')
      | _ \<Rightarrow> n)"

definition replace_path :: "stage_io \<Rightarrow> pystr \<Rightarrow> pystr list \<Rightarrow> unit store_op" where
  "replace_path io name destination st =
     (case replace_error io of
        Some e \<Rightarrow> (Inl (Raised e), st)
      | None \<Rightarrow>
          (case fs_lookup (staged_path name) (fs_root st) of
             None \<Rightarrow> (Inl (Raised (OSError ''FileNotFoundError'')), st)
           | Some n \<Rightarrow>
               if \<not> directory_at (fs_root st) (butlast destination)
               then (Inl (Raised (OSError ''FileNotFoundError'')), st)
               else (Inr (), store_put io (Some (published_node io n)) destination
                               (store_put io None (staged_path name) st))))"

definition identity_changed :: "'a res" where
  "identity_changed = app_fail INVALID_INPUT ''Staged artifact identity changed during commit.'' 400"

definition consume_existing_document_locked ::
  "stage_io \<Rightarrow> pystr \<Rightarrow> pystr list \<Rightarrow> pystr \<Rightarrow> StagedSnapshot \<Rightarrow> unit store_op" where
  "consume_existing_document_locked io name destination key sn st =
     (case sha256_path (follow io (fs_lookup destination (fs_root st))) of
        Inl e \<Rightarrow> (Inl (Raised e), st)
      | Inr digest \<Rightarrow>
          if digest \<noteq> sn_sha256 sn
          then (raised (app_fail INTERNAL_ERROR ''A content-address collision was detected.'' 500), st)
          else case ensure_insertion_sequence io key st of
            (Inl e, st1) \<Rightarrow> (Inl e, st1)
          | (Inr _, st1) \<Rightarrow>
              (case validate_staged_identity name sn st1 of
                 Inl e \<Rightarrow> (Inl (Raised e), st1)
               | Inr _ \<Rightarrow>
                   (Inr (), release_staged_reservation_locked name (sn_size sn) (store_put io None (staged_path name) st1))))"

text \<open>
  The cleanup of a failed publication: the destination is unlinked, the object forgotten and its
  whole directory removed; an \<open>OSError\<close> of the removal replaces the original exception.
\<close>

definition undo_publication :: "stage_io \<Rightarrow> pystr list \<Rightarrow> pystr \<Rightarrow> store_exc \<Rightarrow> unit store_op" where
  "undo_publication io destination key e st =
     (case remove_storage_path (sio io) key (forget_object key (store_put io None destination st)) of
        (Inl e2, st2) \<Rightarrow> (Inl e2, st2)
      | (Inr _, st2) \<Rightarrow> (Inl e, st2))"

definition publish_new_document_locked ::
  "stage_io \<Rightarrow> pystr \<Rightarrow> pystr list \<Rightarrow> pystr \<Rightarrow> StagedSnapshot \<Rightarrow> unit store_op" where
  "publish_new_document_locked io name destination key sn st =
     (case ensure_insertion_sequence io key st of
        (Inl e, st1) \<Rightarrow> undo_publication io destination key e st1
      | (Inr _, st1) \<Rightarrow>
          (case replace_path io name destination st1 of
             (Inl e, st2) \<Rightarrow> undo_publication io destination key e st2
           | (Inr _, st2) \<Rightarrow>
               if \<not> published_identity_ok (fs_lookup destination (fs_root st2)) sn
               then (case raised identity_changed of
                       Inl e \<Rightarrow> undo_publication io destination key e st2 | Inr u \<Rightarrow> (Inr u, st2))
               else (Inr (), (release_staged_reservation_locked name (sn_size sn) st2)
                               \<lparr>used_bytes := used_bytes st2 + sn_size sn\<rparr>)))"

record StoredArtifact =
  object_id :: pystr
  artifact_sha256 :: pystr
  artifact_size :: int
  artifact_media_type :: pystr
  artifact_path :: "pystr list"

definition document_object_id :: "pystr \<Rightarrow> pystr \<Rightarrow> pystr" where
  "document_object_id namespace sha = dict_get ALLOWED_NAMESPACES namespace [] @ codes ''_'' @ sha"

definition commit_staged_file ::
  "stage_io \<Rightarrow> (pystr \<Rightarrow> pystr) \<Rightarrow> pystr \<Rightarrow> pystr \<Rightarrow> pystr \<Rightarrow> pystr \<Rightarrow> StagedSnapshot \<Rightarrow> StoredArtifact store_op" where
  "commit_staged_file io lower name namespace filename media_type sn st =
     (case rbind (verify_store_root_identity (sio io) 0) (\<lambda>_.
           rbind (validate_namespace namespace) (\<lambda>ns.
           rbind (validate_filename filename) (\<lambda>fn.
           rbind (validate_media_type lower media_type) (\<lambda>mt. Inr (ns, fn, mt))))) of
        Inl e \<Rightarrow> (Inl (Raised e), st)
      | Inr (ns, fn, mt) \<Rightarrow>
          (let oid = document_object_id ns (sn_sha256 sn); key = object_key ns oid; destination = [ns, oid, fn]
           in case ensure_private_directory_path io [ns, oid] ''document object'' st of
                (Inl e, st1) \<Rightarrow> (Inl e, st1)
              | (Inr _, st1) \<Rightarrow>
                  (case validate_staged_identity name sn st1 of
                     Inl e \<Rightarrow> (Inl (Raised e), st1)
                   | Inr _ \<Rightarrow>
                       (case reconcile_staged_size_locked name (sn_size sn) st1 of
                          (Inl e, st2) \<Rightarrow> (Inl e, st2)
                        | (Inr _, st2) \<Rightarrow>
                            (case (if follow io (fs_lookup destination (fs_root st2)) \<noteq> None
                                   then consume_existing_document_locked io name destination key sn st2
                                   else publish_new_document_locked io name destination key sn st2) of
                               (Inl e, st3) \<Rightarrow> (Inl e, st3)
                             | (Inr _, st3) \<Rightarrow>
                                 (Inr \<lparr>object_id = oid, artifact_sha256 = sn_sha256 sn, artifact_size = sn_size sn,
                                       artifact_media_type = mt, artifact_path = destination\<rparr>, st3))))))"

definition writer_commit ::
  "stage_io \<Rightarrow> unit res \<Rightarrow> (pystr \<Rightarrow> pystr) \<Rightarrow> pystr \<Rightarrow> pystr \<Rightarrow> pystr \<Rightarrow> StoredArtifact writer_op" where
  "writer_commit io guard lower namespace filename media_type ws =
     (let (w, st) = ws
      in if \<not> sw_open w then (Inl (Raised (RuntimeError ''staged writer is not open'')), ws)
         else case writer_snapshot io guard w of
           Inl e \<Rightarrow> (Inl (Raised e), ws)
         | Inr sn \<Rightarrow>
             (case commit_staged_file io lower (sw_name w) namespace filename media_type sn st of
                (r, st') \<Rightarrow> (r, (w\<lparr>sw_open := False\<rparr>, st'))))"


section \<open>Render files\<close>

definition RENDER_ID_LENGTH :: nat where "RENDER_ID_LENGTH = 36"
definition MIN_RENDER_SUBTREE_PARTS :: nat where "MIN_RENDER_SUBTREE_PARTS = 2"
definition SHA256_HEX_LENGTH :: nat where "SHA256_HEX_LENGTH = 64"

definition RENDERS :: pystr where "RENDERS = codes ''renders''"

definition render_corrupted :: "'a res" where
  "render_corrupted = app_fail INTERNAL_ERROR ''Render storage is corrupted.'' 500"

definition is_render_id :: "pystr \<Rightarrow> bool" where
  "is_render_id s =
     (length s = RENDER_ID_LENGTH \<and> starts_with (codes ''rnd_'') s \<and> list_all is_lower_hex (drop 4 s))"

definition symlink_at :: "fsnode \<Rightarrow> pystr list \<Rightarrow> bool" where
  "symlink_at rt path = (case fs_lookup path rt of Some n \<Rightarrow> is_symlink n | None \<Rightarrow> False)"

definition render_path_malformed :: "pystr \<Rightarrow> nat \<Rightarrow> bool" where
  "render_path_malformed s least =
     (posix_is_absolute s \<or> length (posix_parts s) < least \<or> hd (posix_parts s) \<noteq> RENDERS
      \<or> list_ex dot_part (posix_parts s) \<or> as_posix s \<noteq> s \<or> 92 \<in> set s \<or> 0 \<in> set s)"

definition validated_render_subtree :: "pystr \<Rightarrow> Store \<Rightarrow> pystr list res" where
  "validated_render_subtree s st =
     (let ps = posix_parts s
      in if render_path_malformed s MIN_RENDER_SUBTREE_PARTS
         then app_fail INVALID_INPUT ''Render subtree path is invalid.'' 400
         else if \<not> is_render_id (ps ! 1)
         then app_fail INVALID_INPUT ''Render subtree identifier is invalid.'' 400
         else if list_ex (\<lambda>k. symlink_at (fs_root st) (take (Suc k) ps)) [0..<length ps] then render_corrupted
         else Inr ps)"

definition validated_render_destination :: "pystr \<Rightarrow> Store \<Rightarrow> pystr list res" where
  "validated_render_destination s st =
     (let ps = posix_parts s
      in if render_path_malformed s 1 then app_fail INVALID_INPUT ''Render asset path is invalid.'' 400
         else if list_ex (\<lambda>k. symlink_at (fs_root st) (take (Suc k) ps)) [0..<length ps - 1]
         then app_fail INVALID_INPUT ''Render asset path is invalid.'' 400
         else if symlink_at (fs_root st) ps then render_corrupted
         else Inr ps)"

definition require_render_transaction_destination ::
  "pystr list \<Rightarrow> pystr list option \<Rightarrow> nat option \<Rightarrow> unit res" where
  "require_render_transaction_destination destination subtree token =
     (case (token, subtree) of
        (None, None) \<Rightarrow> Inr ()
      | (Some t, Some sub) \<Rightarrow>
          if starts_with sub destination \<and> sub \<noteq> destination then Inr ()
          else app_fail INVALID_INPUT ''Render asset path is outside its transaction subtree.'' 400
      | _ \<Rightarrow> Inl (RuntimeError ''render transaction destination authority is invalid''))"

fun ensure_directories :: "stage_io \<Rightarrow> pystr list \<Rightarrow> pystr list \<Rightarrow> unit store_op" where
  "ensure_directories io base [] st = (Inr (), st)"
| "ensure_directories io base (c # cs) st =
     (case ensure_private_directory_path io (base @ [c]) ''render object'' st of
        (Inl e, st1) \<Rightarrow> (Inl e, st1)
      | (Inr _, st1) \<Rightarrow> ensure_directories io (base @ [c]) cs st1)"

definition matching_reservation :: "pystr \<Rightarrow> StagedSnapshot \<Rightarrow> Store \<Rightarrow> int res" where
  "matching_reservation name sn st =
     (case map_of (staging_reservations st) name of
        None \<Rightarrow> unmanaged
      | Some reserved \<Rightarrow>
          if sn_size sn \<noteq> reserved
          then app_fail INTERNAL_ERROR ''Staged render accounting is inconsistent.'' 500 else Inr reserved)"

definition consume_existing_render ::
  "stage_io \<Rightarrow> pystr \<Rightarrow> pystr list \<Rightarrow> pystr \<Rightarrow> StagedSnapshot \<Rightarrow> int \<Rightarrow> unit store_op" where
  "consume_existing_render io name destination key sn reserved st =
     (case sha256_path (follow io (fs_lookup destination (fs_root st))) of
        Inl e \<Rightarrow> (Inl (Raised e), st)
      | Inr digest \<Rightarrow>
          if digest \<noteq> sn_sha256 sn
          then (raised (app_fail INTERNAL_ERROR ''A deterministic render collision was detected.'' 500), st)
          else case ensure_insertion_sequence io key st of
            (Inl e, st1) \<Rightarrow> (Inl e, st1)
          | (Inr _, st1) \<Rightarrow>
              (case validate_staged_identity name sn st1 of
                 Inl e \<Rightarrow> (Inl (Raised e), st1)
               | Inr _ \<Rightarrow>
                   (Inr (), release_staged_reservation_locked name reserved (store_put io None (staged_path name) st1))))"

definition publish_new_render ::
  "stage_io \<Rightarrow> pystr \<Rightarrow> pystr list \<Rightarrow> pystr \<Rightarrow> StagedSnapshot \<Rightarrow> int \<Rightarrow> unit store_op" where
  "publish_new_render io name destination key sn reserved st =
     (case ensure_insertion_sequence io key st of
        (Inl e, st1) \<Rightarrow> (Inl e, st1)
      | (Inr _, st1) \<Rightarrow>
          (case replace_path io name destination st1 of
             (Inl e, st2) \<Rightarrow> (Inl e, st2)
           | (Inr _, st2) \<Rightarrow>
               if \<not> published_identity_ok (fs_lookup destination (fs_root st2)) sn
               then (raised identity_changed, store_put io None destination st2)
               else (Inr (), (release_staged_reservation_locked name reserved st2)
                               \<lparr>used_bytes := used_bytes st2 + sn_size sn\<rparr>)))"

definition render_key :: "pystr list \<Rightarrow> pystr" where
  "render_key ps = join_with [SLASH] (take MIN_OBJECT_KEY_PARTS ps)"

definition commit_staged_render ::
  "stage_io \<Rightarrow> unit res \<Rightarrow> pystr list option \<Rightarrow> nat option \<Rightarrow> pystr \<Rightarrow> pystr \<Rightarrow> StagedSnapshot \<Rightarrow> (pystr \<times> pystr) store_op" where
  "commit_staged_render io guard subtree token name s sn st =
     (case rbind guard (\<lambda>_. rbind (verify_store_root_identity (sio io) 0) (\<lambda>_.
           rbind (validated_render_destination s st) (\<lambda>ps.
           if length ps < 2 then Inl (RuntimeError ''tuple index out of range'')
           else rbind (require_render_transaction_destination ps subtree token) (\<lambda>_.
           rbind (require_render_mutation_authority_locked (render_key ps) token st) (\<lambda>_. Inr ps))))) of
        Inl e \<Rightarrow> (Inl (Raised e), st)
      | Inr ps \<Rightarrow>
          (case ensure_directories io [RENDERS] (tl (butlast ps)) st of
             (Inl e, st1) \<Rightarrow> (Inl e, st1)
           | (Inr _, st1) \<Rightarrow>
               (case rbind (validate_staged_identity name sn st1) (\<lambda>_. matching_reservation name sn st1) of
                  Inl e \<Rightarrow> (Inl (Raised e), st1)
                | Inr reserved \<Rightarrow>
                    (case (if follow io (fs_lookup ps (fs_root st1)) \<noteq> None
                           then consume_existing_render io name ps (render_key ps) sn reserved st1
                           else publish_new_render io name ps (render_key ps) sn reserved st1) of
                       (Inl e, st2) \<Rightarrow> (Inl e, st2)
                     | (Inr _, st2) \<Rightarrow> (Inr (s, sn_sha256 sn), st2)))))"

definition valid_sha256_hex :: "pystr \<Rightarrow> bool" where
  "valid_sha256_hex s = (length s = SHA256_HEX_LENGTH \<and> list_all is_lower_hex s)"

definition replacement_allowed :: "stage_io \<Rightarrow> fsnode option \<Rightarrow> pystr \<Rightarrow> unit res" where
  "replacement_allowed io n expected =
     (case n of
        Some (RegularFile s c) \<Rightarrow>
          if hexdigest (sha256 c) = expected then Inr ()
          else app_fail INTERNAL_ERROR ''Render replacement precondition failed.'' 500
      | _ \<Rightarrow> app_fail INTERNAL_ERROR ''Render replacement precondition failed.'' 500)"

definition replace_staged_render ::
  "stage_io \<Rightarrow> unit res \<Rightarrow> pystr list option \<Rightarrow> nat option \<Rightarrow> pystr \<Rightarrow> pystr \<Rightarrow> pystr \<Rightarrow> StagedSnapshot \<Rightarrow>
   (pystr \<times> pystr) store_op" where
  "replace_staged_render io guard subtree token name s expected sn st =
     (case rbind guard (\<lambda>_. rbind (verify_store_root_identity (sio io) 0) (\<lambda>_.
           if \<not> valid_sha256_hex expected then app_fail INVALID_INPUT ''Expected render digest is invalid.'' 400
           else rbind (validated_render_destination s st) (\<lambda>ps.
             rbind (require_render_transaction_destination ps subtree token) (\<lambda>_.
             rbind (require_render_mutation_authority_locked (render_key ps) token st) (\<lambda>_.
             rbind (validate_staged_identity name sn st) (\<lambda>_.
             rbind (matching_reservation name sn st) (\<lambda>reserved.
             rbind (replacement_allowed io (fs_lookup ps (fs_root st)) expected) (\<lambda>_.
             Inr (ps, reserved))))))))) of
        Inl e \<Rightarrow> (Inl (Raised e), st)
      | Inr (ps, reserved) \<Rightarrow>
          (let replaced = (case fs_lookup ps (fs_root st) of Some n \<Rightarrow> st_size n | None \<Rightarrow> 0)
           in case replace_path io name ps st of
                (Inl e, st1) \<Rightarrow> (Inl e, st1)
              | (Inr _, st1) \<Rightarrow>
                  if \<not> published_identity_ok (fs_lookup ps (fs_root st1)) sn
                  then (let st2 = store_put io None ps st1
                        in (raised identity_changed, st2\<lparr>used_bytes := scan_existing_bytes (fs_root st2)\<rparr>))
                  else (Inr (s, sn_sha256 sn),
                        (release_staged_reservation_locked name reserved st1)
                          \<lparr>used_bytes := used_bytes st1 + (sn_size sn - replaced)\<rparr>)))"

text \<open>The writer's own \<open>prepare_for_scan\<close>, \<open>commit_render\<close> and \<open>replace_render\<close>.\<close>

definition prepare_for_scan :: "stage_io \<Rightarrow> unit res \<Rightarrow> StagedWriter \<Rightarrow> (pystr list \<times> pystr) res" where
  "prepare_for_scan io guard w =
     rbind (verify_store_root_identity (sio io) 0) (\<lambda>_.
       rbind (writer_snapshot io guard w) (\<lambda>sn. Inr (staged_path (sw_name w), sn_sha256 sn)))"

definition writer_commit_render ::
  "stage_io \<Rightarrow> unit res \<Rightarrow> pystr list option \<Rightarrow> nat option \<Rightarrow> pystr \<Rightarrow> (pystr \<times> pystr) writer_op" where
  "writer_commit_render io guard subtree token s ws =
     (let (w, st) = ws
      in if \<not> sw_open w then (Inl (Raised (RuntimeError ''staged writer is not open'')), ws)
         else case writer_snapshot io guard w of
           Inl e \<Rightarrow> (Inl (Raised e), ws)
         | Inr sn \<Rightarrow>
             (case commit_staged_render io guard subtree token (sw_name w) s sn st of
                (r, st') \<Rightarrow> (r, (w\<lparr>sw_open := False\<rparr>, st'))))"

definition writer_replace_render ::
  "stage_io \<Rightarrow> unit res \<Rightarrow> pystr list option \<Rightarrow> nat option \<Rightarrow> pystr \<Rightarrow> pystr \<Rightarrow> (pystr \<times> pystr) writer_op" where
  "writer_replace_render io guard subtree token s expected ws =
     (let (w, st) = ws
      in if \<not> sw_open w then (Inl (Raised (RuntimeError ''staged writer is not open'')), ws)
         else case writer_snapshot io guard w of
           Inl e \<Rightarrow> (Inl (Raised e), ws)
         | Inr sn \<Rightarrow>
             (case replace_staged_render io guard subtree token (sw_name w) s expected sn st of
                (r, st') \<Rightarrow> (r, (w\<lparr>sw_open := False\<rparr>, st'))))"

section \<open>Render subtrees and transactions\<close>

definition in_use :: "'a res" where
  "in_use = app_fail INTERNAL_ERROR ''The render is currently in use and cannot be modified.'' 409"

definition delete_authority :: "pystr \<Rightarrow> nat option \<Rightarrow> Store \<Rightarrow> unit res" where
  "delete_authority key token st =
     (let leases = set (dict_get (render_transaction_leases st) key [])
      in case token of
           Some t \<Rightarrow>
             (if t \<notin> leases then Inl (RuntimeError ''render transaction lease authority is unavailable'')
              else if 0 < dict_get (asset_leases st) key 0 \<or> leases - {t} \<noteq> {} then in_use else Inr ())
         | None \<Rightarrow> (if 0 < dict_get (asset_leases st) key 0 \<or> leases \<noteq> {} then in_use else Inr ()))"

text \<open>
  \<open>rmtree\<close> and its \<open>finally\<close>: the object is forgotten when its root goes, what is left is checked again and
  the used bytes are recounted.
\<close>

definition remove_render_tree :: "stage_io \<Rightarrow> pystr list \<Rightarrow> bool store_op" where
  "remove_render_tree io ps st =
     (let failure = deletion_failure (sio io) ps;
          left = (case failure of None \<Rightarrow> None | Some keep \<Rightarrow> map_option (partial_delete keep) (fs_lookup ps (fs_root st)));
          rt = fs_put (io_now (sio io)) left ps (fs_root st);
          st1 = st\<lparr>fs_root := rt, order_world := sync_record (render_key ps) rt (order_world st)\<rparr>;
          st2 = (if length ps = 2 then forget_object (render_key ps) st1 else st1)
      in case render_tree_bytes (fs_lookup ps rt) of
           Inl e \<Rightarrow> (Inl (Raised e), st2)
         | Inr _ \<Rightarrow>
             (let st3 = st2\<lparr>used_bytes := scan_existing_bytes rt\<rparr>
              in if failure = None then (Inr True, st3) else (Inl (Raised (OSError ''rmtree'')), st3)))"

definition existing :: "stage_io \<Rightarrow> fsnode option \<Rightarrow> fsnode option" where
  "existing io n = (if follow io n = None then None else n)"

definition delete_render_subtree_locked :: "stage_io \<Rightarrow> nat option \<Rightarrow> pystr list \<Rightarrow> bool store_op" where
  "delete_render_subtree_locked io token ps st =
     (case rbind (verify_store_root_identity (sio io) 0) (\<lambda>_.
           if length ps < MIN_OBJECT_KEY_PARTS then Inl (RuntimeError ''render transaction lease authority is invalid'')
           else rbind (delete_authority (render_key ps) token st) (\<lambda>_. render_tree_bytes (existing io (fs_lookup ps (fs_root st))))) of
        Inl e \<Rightarrow> (Inl (Raised e), st)
      | Inr _ \<Rightarrow>
          if existing io (fs_lookup ps (fs_root st)) = None then (Inr False, st) else remove_render_tree io ps st)"

definition delete_render_subtree :: "stage_io \<Rightarrow> pystr \<Rightarrow> bool store_op" where
  "delete_render_subtree io s st =
     (case rbind (verify_store_root_identity (sio io) 1) (\<lambda>_. validated_render_subtree s st) of
        Inl e \<Rightarrow> (Inl (Raised e), st)
      | Inr ps \<Rightarrow> delete_render_subtree_locked io None ps st)"

definition render_completion_exists :: "fsnode option \<Rightarrow> bool res" where
  "render_completion_exists n =
     (case n of
        None \<Rightarrow> Inr False
      | Some d \<Rightarrow> if is_symlink d then render_corrupted else Inr (is_regular d))"

record RenderTransaction =
  tx_subtree :: "pystr list"
  tx_completion :: "pystr list"
  tx_token :: nat
  tx_complete :: bool
  tx_closed :: bool
  tx_owner :: nat

text \<open>
  \<open>begin_render_transaction\<close> once the render lock is held: register the token, then recover the subtree
  unless it is complete; any failure gives the lease back. \<open>owner\<close> is the thread and task that call it.
\<close>

definition release_suppressed :: "pystr \<Rightarrow> nat \<Rightarrow> Store \<Rightarrow> Store" where
  "release_suppressed key token st = snd (release_asset_lease key (Some token) st)"

definition begin_render_transaction ::
  "stage_io \<Rightarrow> nat \<Rightarrow> nat \<Rightarrow> pystr \<Rightarrow> pystr \<Rightarrow> RenderTransaction store_op" where
  "begin_render_transaction io owner token s completion_file st =
     (case rbind (verify_store_root_identity (sio io) 1) (\<lambda>_.
           rbind (validated_render_subtree s st) (\<lambda>ps.
           rbind (validate_filename completion_file) (\<lambda>fn. Inr (ps, ps @ [fn])))) of
        Inl e \<Rightarrow> (Inl (Raised e), st)
      | Inr (ps, completion) \<Rightarrow>
          (let key = render_key ps; tx = \<lparr>tx_subtree = ps, tx_completion = completion, tx_token = token,
                 tx_complete = True, tx_closed = False, tx_owner = owner\<rparr>
           in case register_render_transaction_locked key token st of
                (Inl e, st1) \<Rightarrow> (Inl e, release_suppressed key token st1)
              | (Inr _, st1) \<Rightarrow>
                  (case render_completion_exists (fs_lookup completion (fs_root st1)) of
                     Inl e \<Rightarrow> (Inl (Raised e), release_suppressed key token st1)
                   | Inr True \<Rightarrow> (Inr tx, st1)
                   | Inr False \<Rightarrow>
                       (case delete_render_subtree_locked io (Some token) ps st1 of
                          (Inl e, st2) \<Rightarrow> (Inl e, release_suppressed key token st2)
                        | (Inr _, st2) \<Rightarrow> (Inr (tx\<lparr>tx_complete := False\<rparr>), st2)))))"

definition require_owner_context :: "nat \<Rightarrow> RenderTransaction \<Rightarrow> unit res" where
  "require_owner_context ctx tx =
     (if tx_owner tx \<noteq> ctx then Inl (RuntimeError ''render transaction belongs to another execution context'') else Inr ())"

definition require_active_owner_context :: "stage_io \<Rightarrow> nat \<Rightarrow> nat \<Rightarrow> RenderTransaction \<Rightarrow> unit res" where
  "require_active_owner_context io n ctx tx =
     (if tx_closed tx then Inl (RuntimeError ''render transaction is already closed'')
      else rbind (require_owner_context ctx tx) (\<lambda>_. verify_store_root_identity (sio io) n))"

type_synonym 'a tx_op = "(store_exc, RenderTransaction \<times> Store, 'a) op"

text \<open>Closing: the lease is released whatever happened before; its failure replaces the result.\<close>

definition close_transaction :: "store_exc + unit \<Rightarrow> unit tx_op" where
  "close_transaction r ts =
     (let (tx, st) = ts
      in case release_asset_lease (render_key (tx_subtree tx)) (Some (tx_token tx)) st of
           (Inl e, st1) \<Rightarrow> (Inl e, (tx\<lparr>tx_closed := True\<rparr>, st1))
         | (Inr _, st1) \<Rightarrow> (r, (tx\<lparr>tx_closed := True\<rparr>, st1)))"

definition transaction_rollback :: "stage_io \<Rightarrow> nat \<Rightarrow> unit tx_op" where
  "transaction_rollback io ctx ts =
     (let (tx, st) = ts
      in if tx_closed tx then (Inr (), ts)
         else case require_owner_context ctx tx of
           Inl e \<Rightarrow> (Inl (Raised e), ts)
         | Inr _ \<Rightarrow>
             (case verify_store_root_identity (sio io) 1 of
                Inl e \<Rightarrow> close_transaction (Inl (Raised e)) ts
              | Inr _ \<Rightarrow>
                  if tx_complete tx then close_transaction (Inr ()) ts
                  else (case delete_render_subtree_locked io (Some (tx_token tx)) (tx_subtree tx) st of
                          (Inl e, st1) \<Rightarrow> close_transaction (Inl e) (tx, st1)
                        | (Inr _, st1) \<Rightarrow> close_transaction (Inr ()) (tx, st1))))"

definition transaction_commit :: "stage_io \<Rightarrow> nat \<Rightarrow> unit tx_op" where
  "transaction_commit io ctx ts =
     (let (tx, st) = ts
      in if tx_closed tx then (Inl (Raised (RuntimeError ''render transaction is already closed'')), ts)
         else case require_owner_context ctx tx of
           Inl e \<Rightarrow> (Inl (Raised e), ts)
         | Inr _ \<Rightarrow>
             (case verify_store_root_identity (sio io) 2 of
                Inl e \<Rightarrow> close_transaction (Inl (Raised e)) ts
              | Inr _ \<Rightarrow>
                  (case fs_lookup (tx_completion tx) (fs_root st) of
                     Some (RegularFile s c) \<Rightarrow> close_transaction (Inr ()) ts
                   | _ \<Rightarrow>
                       (case transaction_rollback io ctx ts of
                          (Inl e, ts1) \<Rightarrow> (Inl e, ts1)
                        | (Inr _, ts1) \<Rightarrow>
                            (raised (app_fail INTERNAL_ERROR
                               ''A render transaction did not publish its completion manifest.'' 500), ts1)))))"

definition transaction_reset :: "stage_io \<Rightarrow> nat \<Rightarrow> unit tx_op" where
  "transaction_reset io ctx ts =
     (let (tx, st) = ts
      in case require_active_owner_context io 1 ctx tx of
           Inl e \<Rightarrow> (Inl (Raised e), ts)
         | Inr _ \<Rightarrow>
             (case delete_render_subtree_locked io (Some (tx_token tx)) (tx_subtree tx) st of
                (Inl e, st1) \<Rightarrow> (Inl e, (tx, st1))
              | (Inr _, st1) \<Rightarrow> (Inr (), (tx\<lparr>tx_complete := False\<rparr>, st1))))"

section \<open>Whole publications\<close>

text \<open>
  \<open>with self.stage(suffix=...) as stream: ...\<close>: the exit runs after every outcome of the body, and its own failure
  replaces that outcome. \<open>suffix_of\<close> is \<open>PurePath.suffix\<close>, which the supported versions of Python compute differently
  for names ending in a dot.
\<close>

definition with_staged :: "stage_io \<Rightarrow> pystr \<Rightarrow> 'a writer_op \<Rightarrow> 'a store_op" where
  "with_staged io sfx body st =
     (case stage io (Inr ()) sfx st of
        (Inl e, st1) \<Rightarrow> (Inl e, st1)
      | (Inr w, st1) \<Rightarrow>
          (case body (w, st1) of
             (r, ws) \<Rightarrow>
               (case writer_exit io (Inr ()) ws of
                  (Inl e, (w3, st3)) \<Rightarrow> (Inl e, st3)
                | (Inr _, (w3, st3)) \<Rightarrow> (r, st3))))"

definition put_bytes ::
  "stage_io \<Rightarrow> (pystr \<Rightarrow> pystr) \<Rightarrow> (pystr \<Rightarrow> pystr) \<Rightarrow> bytes \<Rightarrow> pystr \<Rightarrow> pystr \<Rightarrow> pystr \<Rightarrow> StoredArtifact store_op" where
  "put_bytes io lower suffix_of data namespace filename media_type st =
     (case rbind (verify_store_root_identity (sio io) 0) (\<lambda>_.
           rbind (validate_namespace namespace) (\<lambda>ns.
           rbind (validate_filename filename) (\<lambda>fn.
           rbind (validate_media_type lower media_type) (\<lambda>mt. Inr (ns, fn, mt))))) of
        Inl e \<Rightarrow> (Inl (Raised e), st)
      | Inr (ns, fn, mt) \<Rightarrow>
          (let sha = hexdigest (sha256 data); oid = document_object_id ns sha; destination = [ns, oid, fn]
           in if follow io (fs_lookup destination (fs_root st)) \<noteq> None
              then (case sha256_path (follow io (fs_lookup destination (fs_root st))) of
                      Inl e \<Rightarrow> (Inl (Raised e), st)
                    | Inr digest \<Rightarrow>
                        if digest \<noteq> sha
                        then (raised (app_fail INTERNAL_ERROR ''A content-address collision was detected.'' 500), st)
                        else (Inr \<lparr>object_id = oid, artifact_sha256 = sha, artifact_size = int (length data),
                                   artifact_media_type = mt, artifact_path = destination\<rparr>, st))
              else with_staged io (suffix_of fn)
                     (obind (writer_write io (Inr ()) data) (\<lambda>_. writer_commit io (Inr ()) lower ns fn mt)) st))"

definition put_render_bytes :: "stage_io \<Rightarrow> (pystr \<Rightarrow> pystr) \<Rightarrow> pystr \<Rightarrow> bytes \<Rightarrow> (pystr \<times> pystr) store_op" where
  "put_render_bytes io suffix_of s data =
     with_staged io (suffix_of s)
       (obind (writer_write io (Inr ()) data) (\<lambda>_. writer_commit_render io (Inr ()) None None s))"

definition replace_render_bytes_if_matches ::
  "stage_io \<Rightarrow> (pystr \<Rightarrow> pystr) \<Rightarrow> pystr \<Rightarrow> bytes \<Rightarrow> pystr \<Rightarrow> (pystr \<times> pystr) store_op" where
  "replace_render_bytes_if_matches io suffix_of s data expected =
     with_staged io (suffix_of s)
       (obind (writer_write io (Inr ()) data) (\<lambda>_. writer_replace_render io (Inr ()) None None s expected))"

section \<open>An example\<close>

definition example_stage_io :: "bytes \<Rightarrow> stage_io" where
  "example_stage_io content =
     \<lparr>sio = example_store_io 5000, stream_write = (\<lambda>d. Inr (length d)), fd_before = example_stat 384 0,
      fd_after = example_stat 384 0, fd_before_size = int (length content), fd_after_size = int (length content),
      fd_regular = True, fd_content = content, fresh_bytes = [171], new_file_stat = example_stat 384 0,
      new_dir_stat = example_stat 448 0, record_stat = example_stat 384 0, record_bytes = [], replace_error = None,
      published_view = Pair, link_view = None\<rparr>"

definition example_writer :: "bytes \<Rightarrow> StagedWriter" where
  "example_writer content = \<lparr>sw_name = codes ''stage-ab'', sw_open = True, sw_data = content\<rparr>"

definition example_render :: pystr where
  "example_render = codes ''rnd_0123456789abcdef0123456789abcdef''"

text \<open>A store without a lifecycle policy, with one staged file of three bytes and one render that a reader holds.\<close>

definition example_staging_store :: Store where
  "example_staging_store = example_store
     \<lparr>fs_root := Directory (example_stat 448 0)
        [(codes ''documents'', Directory (example_stat 448 0) []),
         (codes ''renders'', Directory (example_stat 448 0) [(example_render, example_object 5 [9, 9])]),
         (codes ''.staging'', Directory (example_stat 448 0)
            [(codes ''stage-ab'', RegularFile (example_stat 384 0) [1, 2, 3])])],
      used_bytes := 2, reserved_bytes := 3, staging_reservations := [(codes ''stage-ab'', 3)],
      retention_policy := None, insertion_order := None,
      asset_leases := [(codes ''renders/'' @ example_render, 1)]\<rparr>"

end
