(* ===== verification/Nplg_Quota.thy ===== *)
theory Nplg_Quota
  imports Nplg_Staging
begin

text \<open>
  The byte quota of the artifact store. The invariant is that the reserved bytes are the sum of the open
  writers' reservations, that the bytes on disk are at most the used bytes, and that used and reserved bytes
  together stay within the configured maximum. Every call keeps it, whatever fails inside the call; \<open>store_step\<close>
  collects the calls and C27 is the invariant over their runs.
\<close>

section \<open>The quota invariant\<close>

definition staging_inv :: "Store \<Rightarrow> bool" where
  "staging_inv st =
     (distinct (map fst (staging_reservations st)) \<and> (\<forall>e\<in>set (staging_reservations st). 0 \<le> snd e)
      \<and> reserved_bytes st = sum_list (map snd (staging_reservations st)))"

definition quota_inv :: "Store \<Rightarrow> bool" where
  "quota_inv st =
     (fs_wf (fs_root st) \<and> staging_inv st \<and> scan_existing_bytes (fs_root st) \<le> used_bytes st
      \<and> used_bytes st + reserved_bytes st \<le> max_bytes st)"

text \<open>What the quota depends on.\<close>

definition quota_part :: "Store \<Rightarrow> fsnode \<times> (pystr \<times> int) list \<times> int \<times> int \<times> int" where
  "quota_part st = (fs_root st, staging_reservations st, reserved_bytes st, used_bytes st, max_bytes st)"

lemma quota_part_inv: "quota_part st' = quota_part st \<Longrightarrow> quota_inv st' = quota_inv st"
  by (simp add: quota_part_def quota_inv_def staging_inv_def)

lemma scan_nonneg: "0 \<le> scan_existing_bytes rt"
  by (auto simp: scan_existing_bytes_def tree_bytes_nonneg intro!: sum_list_map_nonneg split: option.splits)

lemma sum_map_mono:
  fixes f g :: "'a \<Rightarrow> int"
  shows "(\<And>x. x \<in> set xs \<Longrightarrow> f x \<le> g x) \<Longrightarrow> sum_list (map f xs) \<le> sum_list (map g xs)"
  by (induction xs) (auto intro: add_mono)

text \<open>A change below one namespace adds at most the bytes of the entry it writes.\<close>

lemma scan_put_le:
  assumes "fs_wf rt" "ps \<noteq> []"
  shows "scan_existing_bytes (fs_put now v (q # ps) rt)
     \<le> scan_existing_bytes rt + (case v of None \<Rightarrow> 0 | Some x \<Rightarrow> entry_bytes (last ps, x))"
    and "q \<notin> fst ` set ALLOWED_NAMESPACES \<Longrightarrow> scan_existing_bytes (fs_put now v (q # ps) rt) = scan_existing_bytes rt"
proof -
  let ?f = "\<lambda>rt (e :: pystr \<times> pystr). case fs_lookup [fst e] rt of None \<Rightarrow> 0 | Some n \<Rightarrow> if is_directory n then tree_bytes n else 0"
  let ?x = "case v of None \<Rightarrow> 0 | Some x \<Rightarrow> entry_bytes (last ps, x)"
  have x: "0 \<le> ?x" by (simp add: entry_bytes_nonneg split: option.splits)
  have other: "?f (fs_put now v (q # ps) rt) e = ?f rt e" if "fst e \<noteq> q" for e
    using fs_lookup_put_other [of q "fst e" "[]" now v ps rt] that by simp
  show "scan_existing_bytes (fs_put now v (q # ps) rt) = scan_existing_bytes rt" if n: "q \<notin> fst ` set ALLOWED_NAMESPACES"
  proof -
    have "?f (fs_put now v (q # ps) rt) e = ?f rt e" if "e \<in> set ALLOWED_NAMESPACES" for e
      by (rule other) (use n that in blast)
    then show ?thesis unfolding scan_existing_bytes_def by (intro arg_cong [of _ _ sum_list] map_cong refl)
  qed
  have same: "?f (fs_put now v (q # ps) rt) e \<le> ?f rt e + ?x" if "fst e = q" for e
  proof (cases "fs_lookup [q] rt")
    case (Some c)
    obtain s cs where rt: "rt = Directory s cs" "map_of cs q = Some c"
      using Some by (cases rt) (auto split: option.splits)
    obtain r rs where ps: "ps = r # rs" using assms(2) by (cases ps) auto
    have "fs_wf c" using assms(1) rt fs_wf_child by metis
    then have "tree_bytes (fs_put now v ps c) \<le> tree_bytes c + ?x" using fs_put_bytes_le assms(2) by blast
    then show ?thesis using rt that x by (auto simp: ps map_of_dict_set)
  next
    case None
    obtain r rs where ps: "ps = r # rs" using assms(2) by (cases ps) auto
    have "fs_lookup [q] (fs_put now v (q # ps) rt) = None" using None by (cases rt) (auto simp: ps split: option.splits)
    then show ?thesis using None that x by simp
  qed
  have ns: "codes ''documents'' \<noteq> codes ''renders''" by simp
  show "scan_existing_bytes (fs_put now v (q # ps) rt) \<le> scan_existing_bytes rt + ?x"
  proof (cases "q = codes ''documents''")
    case True
    then show ?thesis using same [of "(codes ''documents'', codes ''doc'')"] other [of "(codes ''renders'', codes ''rnd'')"] ns
      by (simp add: scan_existing_bytes_def ALLOWED_NAMESPACES_def del: codes_simps)
  next
    case False
    show ?thesis
    proof (cases "q = codes ''renders''")
      case True
      then show ?thesis using same [of "(codes ''renders'', codes ''rnd'')"] other [of "(codes ''documents'', codes ''doc'')"] ns
        by (simp add: scan_existing_bytes_def ALLOWED_NAMESPACES_def del: codes_simps)
    next
      case False2: False
      then show ?thesis using other [of "(codes ''renders'', codes ''rnd'')"] other [of "(codes ''documents'', codes ''doc'')"] False x
        by (simp add: scan_existing_bytes_def ALLOWED_NAMESPACES_def del: codes_simps)
    qed
  qed
qed

lemma staging_not_namespace: "STAGING_DIR \<notin> fst ` set ALLOWED_NAMESPACES"
  by (simp add: STAGING_DIR_def ALLOWED_NAMESPACES_def)

lemma scan_put_staged:
  "fs_wf rt \<Longrightarrow> scan_existing_bytes (fs_put now v (staged_path name) rt) = scan_existing_bytes rt"
  using scan_put_le(2) [of rt "[name]" STAGING_DIR] staging_not_namespace by (simp add: staged_path_def)


lemma hexdigest_no_slash: "SLASH \<notin> set (hexdigest bs)"
  by (auto simp: hexdigest_def hex_digit_def SLASH_def)

text \<open>Replacing an entry of an existing directory changes the count by exactly that entry.\<close>

lemma scan_put_exact:
  assumes "fs_wf rt" "fs_lookup (q # ps) rt = Some (Directory s cs)" "q \<in> fst ` set ALLOWED_NAMESPACES"
  shows "scan_existing_bytes (fs_put now v (q # ps @ [p]) rt) =
     scan_existing_bytes rt - (case map_of cs p of None \<Rightarrow> 0 | Some x \<Rightarrow> entry_bytes (p, x))
       + (case v of None \<Rightarrow> 0 | Some x \<Rightarrow> entry_bytes (p, x))"
proof -
  let ?f = "\<lambda>rt (e :: pystr \<times> pystr). case fs_lookup [fst e] rt of None \<Rightarrow> 0 | Some n \<Rightarrow> if is_directory n then tree_bytes n else 0"
  obtain s0 cs0 c where rt: "rt = Directory s0 cs0" "map_of cs0 q = Some c" "fs_lookup ps c = Some (Directory s cs)"
    using assms(2) by (cases rt) (auto split: option.splits)
  have wf: "fs_wf c" using assms(1) rt fs_wf_child by metis
  obtain r rs where ps: "ps @ [p] = r # rs" by (cases ps) auto
  have d: "is_directory c" using rt(3) by (cases ps; cases c) auto
  have l: "fs_lookup [q] (fs_put now v (q # ps @ [p]) rt) = Some (fs_put now v (ps @ [p]) c)"
    using rt by (simp add: ps map_of_dict_set)
  have same: "?f (fs_put now v (q # ps @ [p]) rt) e = ?f rt e
      - (case map_of cs p of None \<Rightarrow> 0 | Some x \<Rightarrow> entry_bytes (p, x)) + (case v of None \<Rightarrow> 0 | Some x \<Rightarrow> entry_bytes (p, x))"
    if "fst e = q" for e
    using fs_put_bytes [OF wf rt(3)] d rt l that by simp
  have other: "?f (fs_put now v (q # ps @ [p]) rt) e = ?f rt e" if "fst e \<noteq> q" for e
    using fs_lookup_put_other [of q "fst e" "[]" now v "ps @ [p]" rt] that by simp
  have ns: "codes ''documents'' \<noteq> codes ''renders''" by simp
  consider "q = codes ''documents''" | "q = codes ''renders''" using assms(3) by (auto simp: ALLOWED_NAMESPACES_def)
  then show ?thesis
  proof cases
    case 1
    then show ?thesis using same [of "(codes ''documents'', codes ''doc'')"] other [of "(codes ''renders'', codes ''rnd'')"] ns
      by (simp add: scan_existing_bytes_def ALLOWED_NAMESPACES_def del: codes_simps)
  next
    case 2
    then show ?thesis using same [of "(codes ''renders'', codes ''rnd'')"] other [of "(codes ''documents'', codes ''doc'')"] ns
      by (simp add: scan_existing_bytes_def ALLOWED_NAMESPACES_def del: codes_simps)
  qed
qed

text \<open>A change of the tree that keeps the accounts and does not add bytes keeps the quota.\<close>

definition shrinks :: "Store \<Rightarrow> Store \<Rightarrow> bool" where
  "shrinks st st' =
     (staging_reservations st' = staging_reservations st \<and> reserved_bytes st' = reserved_bytes st
      \<and> used_bytes st' = used_bytes st \<and> max_bytes st' = max_bytes st
      \<and> (fs_wf (fs_root st) \<longrightarrow> fs_wf (fs_root st') \<and> scan_existing_bytes (fs_root st') \<le> scan_existing_bytes (fs_root st)))"

lemma shrinks_refl [simp]: "shrinks st st"
  by (simp add: shrinks_def)

lemma shrinks_trans: "shrinks st st1 \<Longrightarrow> shrinks st1 st2 \<Longrightarrow> shrinks st st2"
  by (auto simp: shrinks_def)

lemma shrinks_quota: "quota_inv st \<Longrightarrow> shrinks st st' \<Longrightarrow> quota_inv st'"
  by (auto simp: quota_inv_def shrinks_def staging_inv_def)

lemma shrinks_store_put:
  assumes "ps \<noteq> []" "v \<noteq> None \<longrightarrow> SLASH \<notin> set (last ps)" "\<forall>x. v = Some x \<longrightarrow> fs_wf x \<and> entry_bytes (last ps, x) = 0"
  shows "shrinks st (store_put io v (q # ps) st)"
proof -
  have "fs_wf (fs_put now v (q # ps) rt) \<and> scan_existing_bytes (fs_put now v (q # ps) rt) \<le> scan_existing_bytes rt"
    if "fs_wf rt" for now rt
    using fs_put_wf [OF that, of v "q # ps" now] scan_put_le(1) [OF that assms(1), of now v q] assms
    by (auto split: option.splits)
  then show ?thesis by (simp add: shrinks_def store_put_def)
qed

lemma shrinks_staged:
  assumes "v \<noteq> None \<longrightarrow> SLASH \<notin> set name" "\<forall>x. v = Some x \<longrightarrow> fs_wf x"
  shows "shrinks st (store_put io v (staged_path name) st)"
  using assms fs_put_wf [of _ v "staged_path name"] scan_put_staged
  by (simp add: shrinks_def store_put_def staged_path_def)

text \<open>Replacing the node at a path by what a failed deletion left of it.\<close>

lemma lookup_parent:
  assumes "fs_lookup (ps @ [p]) rt = Some n"
  obtains s cs where "fs_lookup ps rt = Some (Directory s cs)" "map_of cs p = Some n"
proof -
  obtain m where m: "fs_lookup ps rt = Some m" "fs_lookup [p] m = Some n"
    using assms by (auto simp: fs_lookup_append split: option.splits)
  then show ?thesis using that by (cases m) (auto split: option.splits)
qed

lemma scan_partial:
  assumes "fs_wf rt" "ps \<noteq> []"
  shows "fs_wf (fs_put now (map_option (partial_delete keep) (fs_lookup (q # ps) rt)) (q # ps) rt)
    \<and> scan_existing_bytes (fs_put now (map_option (partial_delete keep) (fs_lookup (q # ps) rt)) (q # ps) rt)
        \<le> scan_existing_bytes rt"
proof (cases "fs_lookup (q # ps) rt")
  case None
  then show ?thesis using fs_put_wf [OF assms(1), of None "q # ps" now] scan_put_le(1) [OF assms, of now None q] by simp
next
  case (Some n)
  obtain qs p where ps: "ps = qs @ [p]" using assms(2) by (metis rev_exhaust)
  obtain s cs where par: "fs_lookup (q # qs) rt = Some (Directory s cs)" "map_of cs p = Some n"
    using lookup_parent [of "q # qs" p rt n] Some by (auto simp: ps)
  have wfd: "fs_wf m" if "fs_wf r" "fs_lookup xs r = Some m" for xs r m
    using that
  proof (induction xs r rule: fs_lookup.induct)
    case (2 x xs s cs)
    then obtain c where "map_of cs x = Some c" "fs_lookup xs c = Some m" by (auto split: option.splits)
    with 2 show ?case using fs_wf_child by metis
  qed simp_all
  have d: "fs_wf (Directory s cs)" using wfd [OF assms(1) par(1)] .
  then have ns: "SLASH \<notin> set p" "fs_wf n"
    using par(2) by (auto simp: list_all_iff dest: map_of_SomeD)
  have wf: "fs_wf (fs_put now (Some (partial_delete keep n)) (q # ps) rt)"
    using fs_put_wf [OF assms(1), of "Some (partial_delete keep n)" "q # ps" now] ns partial_delete_wf by (simp add: ps)
  show ?thesis
  proof (cases "q \<in> fst ` set ALLOWED_NAMESPACES")
    case True
    then show ?thesis
      using wf scan_put_exact [OF assms(1) par(1) True, of now "Some (partial_delete keep n)" p] par(2) Some
        entry_bytes_partial_delete [of p keep n] by (simp add: ps)
  next
    case False
    then show ?thesis using wf scan_put_le(2) [OF assms False] Some by simp
  qed
qed

section \<open>Every operation keeps the quota\<close>

lemma set_staging_inv:
  assumes "staging_inv st" "map_of (staging_reservations st) name = Some cur" "0 \<le> v" "delta = v - cur"
  shows "staging_inv (set_staging name v delta st)"
proof -
  have "e \<in> set (dict_set (staging_reservations st) name v) \<Longrightarrow> 0 \<le> snd e" for e
    using dict_set_entries [of "staging_reservations st" name v] assms(1,3) by (auto simp: staging_inv_def)
  then show ?thesis using assms
    by (auto simp: staging_inv_def set_staging_def distinct_dict_set sum_dict_set [where f = snd])
qed

lemma staging_entry_nonneg: "staging_inv st \<Longrightarrow> map_of (staging_reservations st) name = Some r \<Longrightarrow> 0 \<le> r"
  by (fastforce simp: staging_inv_def dest: map_of_SomeD)

lemma drop_staging_inv:
  assumes "staging_inv st" "map_of (staging_reservations st) name = Some r"
  shows "staging_inv (release_staged_reservation_locked name r st)"
  using assms
  by (auto simp: staging_inv_def release_staged_reservation_locked_def distinct_dict_del sum_dict_del [where f = snd])
    (auto simp: dict_del_def)

lemma pop_staging_quota:
  assumes "quota_inv st"
  shows "quota_inv (pop_staging name st)"
proof (cases "map_of (staging_reservations st) name")
  case (Some r)
  have "pop_staging name st = release_staged_reservation_locked name r st"
    using Some by (simp add: pop_staging_def release_staged_reservation_locked_def dict_get_def)
  then show ?thesis using drop_staging_inv [of st name r] staging_entry_nonneg [of st name r] assms Some
    by (auto simp: quota_inv_def release_staged_reservation_locked_def)
next
  case None
  then show ?thesis using assms by (simp add: pop_staging_def dict_get_def dict_del_absent quota_inv_def staging_inv_def)
qed

lemma reserve_quota:
  assumes "quota_inv st"
  shows "quota_inv (snd (reserve_staging_bytes name a st))"
    and "fst (reserve_staging_bytes name a st) = Inr u \<Longrightarrow> 0 < a \<Longrightarrow>
         \<exists>r. map_of (staging_reservations (snd (reserve_staging_bytes name a st))) name = Some r \<and> a \<le> r"
proof -
  have "quota_inv (set_staging name (cur + a) a st)"
    if "map_of (staging_reservations st) name = Some cur" "0 < a" "used_bytes st + reserved_bytes st + a \<le> max_bytes st" for cur
    using set_staging_inv [of st name cur "cur + a" a] staging_entry_nonneg [of st name cur] assms that
    by (auto simp: quota_inv_def set_staging_def)
  then show "quota_inv (snd (reserve_staging_bytes name a st))"
    using assms by (auto simp: reserve_staging_bytes_def split: option.splits)
  show "fst (reserve_staging_bytes name a st) = Inr u \<Longrightarrow> 0 < a \<Longrightarrow>
         \<exists>r. map_of (staging_reservations (snd (reserve_staging_bytes name a st))) name = Some r \<and> a \<le> r"
    using staging_entry_nonneg [of st name] assms
    by (auto simp: reserve_staging_bytes_def set_staging_def map_of_dict_set raised_def unmanaged_def cache_full_def quota_inv_def
        split: option.splits if_splits)
qed

lemma release_quota:
  assumes "quota_inv st"
  shows "quota_inv (snd (release_staging_bytes name a st))"
proof -
  have "quota_inv (set_staging name (cur - a) (- a) st)"
    if "map_of (staging_reservations st) name = Some cur" "0 < a" "a \<le> cur" for cur
    using set_staging_inv [of st name cur "cur - a" "- a"] assms that
    by (auto simp: quota_inv_def set_staging_def)
  then show ?thesis using assms by (auto simp: release_staging_bytes_def split: option.splits)
qed

lemma reconcile_quota:
  assumes "quota_inv st" "0 \<le> sz" "reconcile_staged_size_locked name sz st = (r, st')"
  shows "quota_inv st' \<and> fs_root st' = fs_root st \<and> (is_ok r \<longrightarrow> map_of (staging_reservations st') name = Some sz)"
proof (cases "map_of (staging_reservations st) name")
  case None
  then show ?thesis using assms by (auto simp: reconcile_staged_size_locked_def raised_def unmanaged_def)
next
  case (Some cur)
  have "quota_inv (set_staging name sz (sz - cur) st)" if "used_bytes st + reserved_bytes st + (sz - cur) \<le> max_bytes st"
    using set_staging_inv [of st name cur sz "sz - cur"] assms(1,2) Some that by (auto simp: quota_inv_def set_staging_def)
  then show ?thesis using assms Some
    by (auto simp: reconcile_staged_size_locked_def raised_def cache_full_def set_staging_def map_of_dict_set quota_inv_def
        split: if_splits)
qed

lemma append_staged_shrinks: "fs_wf (fs_root st) \<Longrightarrow> shrinks st (append_staged io name data st)"
proof (cases "fs_lookup (staged_path name) (fs_root st)")
  case (Some n)
  assume wf: "fs_wf (fs_root st)"
  obtain s cs where par: "fs_lookup [STAGING_DIR] (fs_root st) = Some (Directory s cs)" "map_of cs name = Some n"
    using lookup_parent [of "[STAGING_DIR]" name "fs_root st" n] Some by (auto simp: staged_path_def)
  obtain s0 cs0 where "fs_root st = Directory s0 cs0" "map_of cs0 STAGING_DIR = Some (Directory s cs)"
    using par(1) by (cases "fs_root st") (auto split: option.splits)
  then have "fs_wf (Directory s cs)" using wf fs_wf_child by metis
  then have "SLASH \<notin> set name" using par(2) by (auto simp: list_all_iff dest: map_of_SomeD)
  then show ?thesis using Some by (cases n) (auto simp: append_staged_def intro!: shrinks_staged)
qed (simp add: append_staged_def)

lemma quota_wf: "quota_inv st \<Longrightarrow> fs_wf (fs_root st)"
  by (simp add: quota_inv_def)

lemma append_quota: "quota_inv st \<Longrightarrow> quota_inv (append_staged io name data st)"
  using append_staged_shrinks shrinks_quota quota_wf by blast

lemma write_quota:
  assumes "quota_inv st"
  shows "quota_inv (snd (snd (writer_write io guard data (w, st))))"
proof -
  obtain r st1 where re: "reserve_staging_bytes (sw_name w) (int (length data)) st = (r, st1)" by (metis surj_pair)
  have q1: "quota_inv st1" using reserve_quota(1) [OF assms, of "sw_name w" "int (length data)"] re by simp
  have q2: "quota_inv (snd (release_staging_bytes (sw_name w) a st1))" for a using release_quota [OF q1] .
  show ?thesis
    using assms q1 q2 append_quota
    by (auto simp: writer_write_def re Let_def split: sum.splits prod.splits) (metis snd_conv append_quota)+
qed

lemma discard_quota: "quota_inv st \<Longrightarrow> quota_inv (snd (discard_staged_file io name st))"
  using pop_staging_quota shrinks_quota [OF _ shrinks_staged [of None name st io]]
  by (auto simp: discard_staged_file_def split: sum.splits)

lemma exit_quota: "quota_inv st \<Longrightarrow> quota_inv (snd (snd (writer_exit io guard (w, st))))"
  using discard_quota [of st io "sw_name w"] by (auto simp: writer_exit_def split: sum.splits prod.splits)

lemma ensure_dir_shrinks:
  assumes "ps \<noteq> []" "SLASH \<notin> set (last ps)"
  shows "shrinks st (snd (ensure_private_directory_path io (q # ps) ctx st))"
proof -
  have "shrinks st (store_put io (Some (Directory d [])) (q # ps) st)" for d
    using assms by (intro shrinks_store_put) (auto simp: entry_bytes_def tree_bytes_Directory)
  then show ?thesis by (auto simp: ensure_private_directory_path_def Let_def split: option.splits)
qed

lemma seq_filename_no_slash: "SLASH \<notin> set INSERTION_SEQUENCE_FILENAME"
  by (simp add: INSERTION_SEQUENCE_FILENAME_def SLASH_def)

lemma ensure_seq_shrinks: "shrinks st (snd (ensure_insertion_sequence io key st))"
proof (cases "insertion_order st")
  case (Some ord)
  obtain r ord' w' where e: "ensure key (ord, sync_record key (fs_root st) (order_world st)) = (r, ord', w')"
    by (metis surj_pair)
  obtain q ps where k: "key_path key = q # ps" unfolding key_path_def by (metis split_on_nonempty list.exhaust)
  let ?st1 = "st\<lparr>insertion_order := Some ord', order_world := w'\<rparr>"
  have a: "shrinks st ?st1" by (simp add: shrinks_def)
  have "shrinks ?st1 (store_put io (Some (RegularFile (record_stat io) (record_bytes io)))
      (key_path key @ [INSERTION_SEQUENCE_FILENAME]) ?st1)"
    unfolding k append_Cons using seq_filename_no_slash by (intro shrinks_store_put) (auto simp: entry_bytes_def)
  then show ?thesis using Some e shrinks_trans [OF a] a by (auto simp: ensure_insertion_sequence_def Let_def)
qed (simp add: ensure_insertion_sequence_def)

lemma replace_object_shrinks:
  assumes "key_path key = q # ps" "ps \<noteq> []" "v = None \<or> v = map_option (partial_delete keep) (fs_lookup (q # ps) (fs_root st))"
  shows "shrinks st (replace_object io key v st)"
proof -
  have "fs_wf (fs_put (io_now io) v (q # ps) (fs_root st))
    \<and> scan_existing_bytes (fs_put (io_now io) v (q # ps) (fs_root st)) \<le> scan_existing_bytes (fs_root st)"
    if "fs_wf (fs_root st)"
    using assms(3) scan_partial [OF that assms(2), of "io_now io" keep q]
      fs_put_wf [OF that, of None "q # ps" "io_now io"] scan_put_le(1) [OF that assms(2), of "io_now io" None q] by auto
  then show ?thesis using assms(1) by (simp add: shrinks_def replace_object_def Let_def)
qed

lemma remove_path_shrinks:
  assumes "key_path key = q # ps" "ps \<noteq> []"
  shows "shrinks st (snd (remove_storage_path io key st))"
  using replace_object_shrinks [OF assms] assms by (auto simp: remove_storage_path_def split: option.splits)

lemma forget_shrinks: "shrinks st (forget_object key st)"
  by (simp add: shrinks_def forget_object_def)

lemma undo_shrinks:
  assumes "key_path key = q # ps" "ps \<noteq> []"
  shows "shrinks (store_put io None destination st) (snd (undo_publication io destination key e st))"
proof -
  have "shrinks (store_put io None destination st)
      (snd (remove_storage_path (sio io) key (forget_object key (store_put io None destination st))))"
    using remove_path_shrinks [OF assms] forget_shrinks shrinks_trans by blast
  then show ?thesis by (auto simp: undo_publication_def split: prod.splits sum.splits)
qed

lemma shrinks_staging: "shrinks st st' \<Longrightarrow> staging_reservations st' = staging_reservations st"
  by (simp add: shrinks_def)

text \<open>Giving a writer's bytes back, with or without adding them to the used bytes.\<close>

lemma release_reserved_quota:
  assumes "quota_inv st" "map_of (staging_reservations st) name = Some r"
  shows "quota_inv (release_staged_reservation_locked name r st)"
  using drop_staging_inv [of st name r] staging_entry_nonneg [of st name r] assms
  by (auto simp: quota_inv_def release_staged_reservation_locked_def)

lemma convert_reserved_quota:
  assumes "quota_inv st" "map_of (staging_reservations st) name = Some r" "fs_wf (fs_root st')"
    "staging_reservations st' = staging_reservations st" "reserved_bytes st' = reserved_bytes st"
    "max_bytes st' = max_bytes st" "scan_existing_bytes (fs_root st') \<le> used_bytes st + r - d" "0 \<le> d"
  shows "quota_inv ((release_staged_reservation_locked name r st')\<lparr>used_bytes := used_bytes st + (r - d)\<rparr>)"
proof -
  have "staging_inv (release_staged_reservation_locked name r st')"
    using drop_staging_inv [of st' name r] assms by (simp add: quota_inv_def staging_inv_def)
  then show ?thesis using assms by (auto simp: quota_inv_def release_staged_reservation_locked_def staging_inv_def)
qed

lemma staged_lookup_put: "q \<noteq> STAGING_DIR \<Longrightarrow>
  fs_lookup (staged_path name) (fs_put now v (q # ps) rt) = fs_lookup (staged_path name) rt"
  by (simp add: staged_path_def fs_lookup_put_other)

lemma consume_quota:
  assumes "quota_inv st" "map_of (staging_reservations st) name = Some (sn_size sn)"
  shows "quota_inv (snd (consume_existing_document_locked io name dst key sn st))"
proof -
  obtain r st1 where e: "ensure_insertion_sequence io key st = (r, st1)" by (metis surj_pair)
  have s1: "shrinks st st1" using ensure_seq_shrinks [of st io key] e by simp
  have s2: "shrinks st (store_put io None (staged_path name) st1)" using shrinks_trans [OF s1 shrinks_staged] by simp
  have "quota_inv (release_staged_reservation_locked name (sn_size sn) (store_put io None (staged_path name) st1))"
    using release_reserved_quota [OF shrinks_quota [OF assms(1) s2]] assms(2) shrinks_staging [OF s2] by simp
  then show ?thesis using assms(1) shrinks_quota [OF assms(1) s1]
    by (auto simp: consume_existing_document_locked_def e split: sum.splits)
qed

text \<open>
  A successful \<open>os.replace\<close> of a staged regular file whose size at the destination is the expected one.
\<close>

lemma replace_path_result:
  assumes "replace_path io name (q # ds @ [p]) st = (Inr u, st')" "q \<in> fst ` set ALLOWED_NAMESPACES" "SLASH \<notin> set p"
    "fs_lookup (staged_path name) (fs_root st) = Some (RegularFile s c)" "fs_wf (fs_root st)"
  obtains s' c' where
    "fs_lookup (q # ds @ [p]) (fs_root st') = Some (RegularFile s' c')" "fs_wf (fs_root st')"
    "scan_existing_bytes (fs_root st') = scan_existing_bytes (fs_root st)
       - (case fs_lookup (q # ds @ [p]) (fs_root st) of None \<Rightarrow> 0 | Some x \<Rightarrow> entry_bytes (p, x)) + entry_bytes (p, RegularFile s' c')"
    "st' = st\<lparr>fs_root := fs_root st'\<rparr>"
proof -
  let ?rt = "fs_put (io_now (sio io)) None (staged_path name) (fs_root st)"
  have qs: "q \<noteq> STAGING_DIR" using assms(2) staging_not_namespace by blast
  have dir: "directory_at (fs_root st) (q # ds)" "replace_error io = None"
    "st' = store_put io (Some (published_node io (RegularFile s c))) (q # ds @ [p]) (store_put io None (staged_path name) st)"
    using assms(1,4) by (auto simp: replace_path_def split: option.splits if_splits)
  then obtain dstat cs where d: "fs_lookup (q # ds) (fs_root st) = Some (Directory dstat cs)"
    by (auto simp: directory_at_def split: option.splits elim: is_directory.elims)
  have d': "fs_lookup (q # ds) ?rt = Some (Directory dstat cs)"
    using d fs_lookup_put_other [of STAGING_DIR q ds _ None "[name]"] qs by (auto simp: staged_path_def)
  have lk: "fs_lookup (q # ds @ [p]) (fs_root st) = map_of cs p"
    using d fs_lookup_append [of "q # ds" "[p]" "fs_root st"] by (simp split: option.splits)
  have wf: "fs_wf ?rt" using fs_put_wf [OF assms(5)] by simp
  obtain s' c' where pn: "published_node io (RegularFile s c) = RegularFile s' c'"
    by (cases "published_view io (s\<lparr>st_ctime_ns := io_now (sio io)\<rparr>) c") (auto simp: published_node_def)
  have root: "fs_root st' = fs_put (io_now (sio io)) (Some (RegularFile s' c')) (q # ds @ [p]) ?rt"
    by (simp add: dir(3) store_put_def pn)
  have l: "fs_lookup (q # ds @ [p]) (fs_root st') = Some (RegularFile s' c')"
    using fs_lookup_put_same [OF d', of p] root by simp
  have sc: "scan_existing_bytes (fs_root st') = scan_existing_bytes (fs_root st)
       - (case fs_lookup (q # ds @ [p]) (fs_root st) of None \<Rightarrow> 0 | Some x \<Rightarrow> entry_bytes (p, x)) + entry_bytes (p, RegularFile s' c')"
    using scan_put_exact [OF wf d' assms(2), of "io_now (sio io)" "Some (RegularFile s' c')" p]
      scan_put_staged [OF assms(5)] root lk by simp
  have w: "fs_wf (fs_root st')"
    using fs_put_wf [OF wf, of "Some (RegularFile s' c')" "q # ds @ [p]"] assms(3) root by simp
  show ?thesis by (rule that [OF l w sc]) (simp add: dir(3) store_put_def)
qed

text \<open>Unlinking the destination again takes the moved file's bytes away.\<close>

lemma replace_undone_shrinks:
  assumes "replace_path io name (q # ds @ [p]) st = (Inr u, st')" "q \<in> fst ` set ALLOWED_NAMESPACES" "SLASH \<notin> set p"
    "fs_lookup (staged_path name) (fs_root st) = Some (RegularFile s c)" "fs_wf (fs_root st)"
  shows "shrinks st (store_put io None (q # ds @ [p]) st')"
proof -
  obtain s' c' where r: "fs_lookup (q # ds @ [p]) (fs_root st') = Some (RegularFile s' c')" "fs_wf (fs_root st')"
    "scan_existing_bytes (fs_root st') = scan_existing_bytes (fs_root st)
       - (case fs_lookup (q # ds @ [p]) (fs_root st) of None \<Rightarrow> 0 | Some x \<Rightarrow> entry_bytes (p, x)) + entry_bytes (p, RegularFile s' c')"
    "st' = st\<lparr>fs_root := fs_root st'\<rparr>"
    using replace_path_result [OF assms] by metis
  obtain d cs' where par: "fs_lookup (q # ds) (fs_root st') = Some (Directory d cs')" "map_of cs' p = Some (RegularFile s' c')"
    using lookup_parent [of "q # ds" p "fs_root st'"] r(1) by auto
  have nn: "0 \<le> (case fs_lookup (q # ds @ [p]) (fs_root st) of None \<Rightarrow> 0 | Some x \<Rightarrow> entry_bytes (p, x))"
    by (simp add: entry_bytes_nonneg split: option.splits)
  have "scan_existing_bytes (fs_put (io_now (sio io)) None (q # ds @ [p]) (fs_root st')) \<le> scan_existing_bytes (fs_root st)"
    using scan_put_exact [OF r(2) par(1) assms(2), of "io_now (sio io)" None p] par(2) r(3) nn by simp
  moreover have "fs_wf (fs_put (io_now (sio io)) None (q # ds @ [p]) (fs_root st'))" using fs_put_wf [OF r(2)] by simp
  moreover obtain rt where "st' = st\<lparr>fs_root := rt\<rparr>" using r(4) by blast
  ultimately show ?thesis by (simp add: shrinks_def store_put_def)
qed

lemma old_bytes_nonneg: "0 \<le> (case n of None \<Rightarrow> 0 | Some x \<Rightarrow> entry_bytes (p, x))"
  by (simp add: entry_bytes_nonneg split: option.splits)

lemma replace_path_error: "fst (replace_path io name dst st) = Inl e \<Longrightarrow> snd (replace_path io name dst st) = st"
  by (auto simp: replace_path_def split: option.splits if_splits)

lemma published_size: "published_identity_ok (Some (RegularFile s c)) sn \<Longrightarrow> int (length c) = sn_size sn"
  by (simp add: published_identity_ok_def)

lemma staged_identity_regular:
  "staged_identity_ok n sn \<Longrightarrow> \<exists>s c. n = Some (RegularFile s c)"
  by (auto simp: staged_identity_ok_def split: option.splits fsnode.splits)

lemma ensure_seq_staged:
  assumes "key_path key = q # ps" "q \<noteq> STAGING_DIR"
  shows "fs_lookup (staged_path name) (fs_root (snd (ensure_insertion_sequence io key st))) =
         fs_lookup (staged_path name) (fs_root st)"
  using assms staged_lookup_put [of q]
  by (auto simp: ensure_insertion_sequence_def store_put_def Let_def split: option.splits prod.splits)

text \<open>The accounts after a publication that kept the staged identity; \<open>d\<close> are the bytes it replaced.\<close>

lemma replace_committed_quota:
  assumes "replace_path io name (q # ds @ [p]) st = (Inr u, st')" "q \<in> fst ` set ALLOWED_NAMESPACES" "SLASH \<notin> set p"
    "fs_lookup (staged_path name) (fs_root st) = Some (RegularFile s c)" "quota_inv st"
    "map_of (staging_reservations st) name = Some (sn_size sn)"
    "published_identity_ok (fs_lookup (q # ds @ [p]) (fs_root st')) sn"
    "0 \<le> d" "d \<le> (case fs_lookup (q # ds @ [p]) (fs_root st) of None \<Rightarrow> 0 | Some x \<Rightarrow> entry_bytes (p, x))"
  shows "quota_inv ((release_staged_reservation_locked name (sn_size sn) st')\<lparr>used_bytes := used_bytes st' + (sn_size sn - d)\<rparr>)"
proof -
  obtain s' c' where r: "fs_lookup (q # ds @ [p]) (fs_root st') = Some (RegularFile s' c')" "fs_wf (fs_root st')"
    "scan_existing_bytes (fs_root st') = scan_existing_bytes (fs_root st)
       - (case fs_lookup (q # ds @ [p]) (fs_root st) of None \<Rightarrow> 0 | Some x \<Rightarrow> entry_bytes (p, x)) + entry_bytes (p, RegularFile s' c')"
    "st' = st\<lparr>fs_root := fs_root st'\<rparr>"
    using replace_path_result [OF assms(1-4) quota_wf [OF assms(5)]] by metis
  have f: "staging_reservations st' = staging_reservations st" "reserved_bytes st' = reserved_bytes st"
    "max_bytes st' = max_bytes st" "used_bytes st' = used_bytes st"
    by (subst r(4); simp)+
  have "int (length c') = sn_size sn" using assms(7) r(1) published_size by simp
  then have "scan_existing_bytes (fs_root st') \<le> used_bytes st + sn_size sn - d"
    using r(3) assms(5,9) by (simp add: quota_inv_def entry_bytes_def split: if_splits)
  then have "quota_inv ((release_staged_reservation_locked name (sn_size sn) st')\<lparr>used_bytes := used_bytes st + (sn_size sn - d)\<rparr>)"
    using assms(8) f by (intro convert_reserved_quota [OF assms(5,6) r(2)]) auto
  then show ?thesis by (simp add: f)
qed

lemma publish_quota:
  assumes "quota_inv st" "map_of (staging_reservations st) name = Some (sn_size sn)"
    "fs_lookup (staged_path name) (fs_root st) = Some (RegularFile s c)"
    "key_path key = [q, o1]" "dst = [q, o1, fn]" "q \<in> fst ` set ALLOWED_NAMESPACES" "SLASH \<notin> set fn"
  shows "quota_inv (snd (publish_new_document_locked io name dst key sn st))"
proof -
  obtain r st1 where e: "ensure_insertion_sequence io key st = (r, st1)" by (metis surj_pair)
  have s1: "shrinks st st1" using ensure_seq_shrinks [of st io key] e by simp
  have q1: "quota_inv st1" using shrinks_quota [OF assms(1) s1] .
  have qs: "q \<noteq> STAGING_DIR" using assms(6) staging_not_namespace by blast
  have l1: "fs_lookup (staged_path name) (fs_root st1) = Some (RegularFile s c)"
    using ensure_seq_staged [of key q "[o1]" name io st] assms(3,4) qs e by simp
  have m1: "map_of (staging_reservations st1) name = Some (sn_size sn)" using assms(2) shrinks_staging [OF s1] by simp
  have undo: "quota_inv (snd (undo_publication io dst key ex s2))" if "quota_inv s2" for ex s2
    using undo_shrinks [OF assms(4), of io dst s2 ex] shrinks_store_put [of "[o1, fn]" None s2 io q] assms(5)
      shrinks_trans shrinks_quota [OF that] by simp
  obtain r2 st2 where rp: "replace_path io name dst st1 = (r2, st2)" by (metis surj_pair)
  show ?thesis
  proof (cases "is_ok r \<and> is_ok r2")
    case True
    then obtain u u2 where u: "r = Inr u" "r2 = Inr u2" by (auto simp: is_ok_iff)
    have rp': "replace_path io name (q # [o1] @ [fn]) st1 = (Inr u2, st2)" using rp u(2) assms(5) by simp
    show ?thesis
    proof (cases "published_identity_ok (fs_lookup dst (fs_root st2)) sn")
      case ok: True
      then show ?thesis
        using replace_committed_quota [OF rp' assms(6,7) l1 q1 m1, of 0] u assms(5) rp' old_bytes_nonneg [of fn]
        by (simp add: publish_new_document_locked_def e)
    next
      case False
      have "shrinks st1 (store_put io None dst st2)"
        using replace_undone_shrinks [OF rp' assms(6,7) l1 quota_wf [OF q1]] assms(5) by simp
      then have "quota_inv (snd (undo_publication io dst key ex st2))" for ex
        using shrinks_quota [OF q1] shrinks_trans undo_shrinks [OF assms(4), of io dst st2 ex] by blast
      then show ?thesis using False u by (auto simp: publish_new_document_locked_def e rp raised_def identity_changed_def split: sum.splits)
    qed
  next
    case False
    then show ?thesis using undo q1 rp replace_path_error [of io name dst st1]
      by (auto simp: publish_new_document_locked_def e split: sum.splits)
  qed
qed

lemma identity_size:
  "staged_identity_ok n sn \<Longrightarrow> \<exists>s c. n = Some (RegularFile s c) \<and> int (length c) = sn_size sn"
  by (auto simp: staged_identity_ok_def split: option.splits fsnode.splits)

lemma validate_staged_Inr:
  "validate_staged_identity name sn st = Inr u \<longleftrightarrow> staged_identity_ok (fs_lookup (staged_path name) (fs_root st)) sn"
  by (auto simp: validate_staged_identity_def)

lemma filename_no_slash: "validate_filename s = Inr fn \<Longrightarrow> fn = s \<and> SLASH \<notin> set s"
  by (auto simp: validate_filename_def split: if_splits)

lemma namespace_member: "validate_namespace s = Inr ns \<Longrightarrow> ns = s \<and> s \<in> fst ` set ALLOWED_NAMESPACES"
  by (auto simp: validate_namespace_def split: if_splits)

lemma namespace_key_no_slash: "ns \<in> fst ` set ALLOWED_NAMESPACES \<Longrightarrow> SLASH \<notin> set ns"
  by (auto simp: ALLOWED_NAMESPACES_def SLASH_def)

lemma document_id_no_slash:
  "ns \<in> fst ` set ALLOWED_NAMESPACES \<Longrightarrow> SLASH \<notin> set sha \<Longrightarrow> SLASH \<notin> set (document_object_id ns sha)"
  by (auto simp: ALLOWED_NAMESPACES_def document_object_id_def SLASH_def dict_get_def)

lemma commit_document_quota:
  assumes "quota_inv st" "SLASH \<notin> set (sn_sha256 sn)"
  shows "quota_inv (snd (commit_staged_file io lower name namespace filename media_type sn st))"
proof (cases "rbind (verify_store_root_identity (sio io) 0) (\<lambda>_.
           rbind (validate_namespace namespace) (\<lambda>ns.
           rbind (validate_filename filename) (\<lambda>fn.
           rbind (validate_media_type lower media_type) (\<lambda>mt. Inr (ns, fn, mt)))))")
  case (Inr v)
  obtain ns fn mt where v: "v = (ns, fn, mt)" by (metis prod_cases3)
  have n: "ns \<in> fst ` set ALLOWED_NAMESPACES" "SLASH \<notin> set fn"
    using Inr v namespace_member filename_no_slash by (auto simp: rbind_eq_Inr)
  let ?oid = "document_object_id ns (sn_sha256 sn)"
  let ?key = "object_key ns ?oid"
  have oid: "SLASH \<notin> set ?oid" using document_id_no_slash [OF n(1) assms(2)] .
  have key: "key_path ?key = [ns, ?oid]" using namespace_key_no_slash [OF n(1)] oid by simp
  obtain r1 st1 where e1: "ensure_private_directory_path io [ns, ?oid] ''document object'' st = (r1, st1)" by (metis surj_pair)
  have q1: "quota_inv st1" using ensure_dir_shrinks [of "[?oid]" st io ns] oid e1 shrinks_quota [OF assms(1)] by (metis last.simps not_Cons_self2 snd_conv)
  show ?thesis
  proof (cases "is_ok r1 \<and> is_ok (validate_staged_identity name sn st1)")
    case True
    obtain s c where l: "fs_lookup (staged_path name) (fs_root st1) = Some (RegularFile s c)" "int (length c) = sn_size sn"
      using True identity_size [of "fs_lookup (staged_path name) (fs_root st1)" sn] by (auto simp: is_ok_iff validate_staged_Inr)
    obtain r2 st2 where e2: "reconcile_staged_size_locked name (sn_size sn) st1 = (r2, st2)" by (metis surj_pair)
    have q2: "quota_inv st2" "fs_root st2 = fs_root st1" "is_ok r2 \<Longrightarrow> map_of (staging_reservations st2) name = Some (sn_size sn)"
      using reconcile_quota [OF q1 _ e2] l(2) by auto
    have "quota_inv (snd (consume_existing_document_locked io name [ns, ?oid, fn] ?key sn st2))"
      "quota_inv (snd (publish_new_document_locked io name [ns, ?oid, fn] ?key sn st2))" if "is_ok r2"
      using consume_quota [OF q2(1,3)] publish_quota [OF q2(1,3) _ key refl n] l(1) q2(2) that by auto
    then show ?thesis using True q2(1)
      by (auto simp: commit_staged_file_def Inr v Let_def e1 e2 is_ok_iff split: sum.splits prod.splits)
  next
    case False
    then show ?thesis using q1
      by (auto simp: commit_staged_file_def Inr v Let_def e1 split: sum.splits)
  qed
qed (use assms in \<open>simp add: commit_staged_file_def\<close>)

section \<open>Render files\<close>

lemma render_parts_shape:
  assumes "\<not> render_path_malformed s k" "0 < k"
  shows "posix_parts s \<noteq> [] \<and> hd (posix_parts s) = RENDERS \<and> k \<le> length (posix_parts s)
     \<and> (\<forall>p\<in>set (posix_parts s). SLASH \<notin> set p \<and> p \<noteq> [])"
  using assms posix_names_ok by (auto simp: render_path_malformed_def posix_is_absolute_def posix_parts_def)

lemma render_key_path:
  assumes "\<forall>p\<in>set ps. SLASH \<notin> set p" "ps \<noteq> []"
  shows "key_path (render_key ps) = take 2 ps"
proof -
  have "take 2 ps \<noteq> []" "\<forall>p\<in>set (take 2 ps). SLASH \<notin> set p" using assms by (auto dest: in_set_takeD)
  then show ?thesis unfolding key_path_def render_key_def MIN_OBJECT_KEY_PARTS_def by (intro split_on_join) auto
qed

lemma renders_namespace: "RENDERS \<in> fst ` set ALLOWED_NAMESPACES"
  by (simp add: RENDERS_def ALLOWED_NAMESPACES_def)

lemma ensure_dirs_shrinks:
  assumes "\<forall>c\<in>set cs. SLASH \<notin> set c" "base = q # bs"
  shows "shrinks st (snd (ensure_directories io base cs st))"
  using assms
proof (induction cs arbitrary: base bs st)
  case (Cons c cs)
  obtain r st1 where e: "ensure_private_directory_path io (base @ [c]) ''render object'' st = (r, st1)" by (metis surj_pair)
  have "shrinks st st1"
    using ensure_dir_shrinks [of "bs @ [c]" st io q "''render object''"] Cons.prems e by simp
  moreover have "shrinks st1 (snd (ensure_directories io (base @ [c]) cs st1))"
    using Cons.IH [of "base @ [c]" "bs @ [c]"] Cons.prems by simp
  ultimately show ?case using shrinks_trans by (auto simp: e split: sum.splits)
qed simp

lemma matching_Inr: "matching_reservation name sn st = Inr r \<Longrightarrow>
  r = sn_size sn \<and> map_of (staging_reservations st) name = Some (sn_size sn)"
  by (auto simp: matching_reservation_def unmanaged_def split: option.splits if_splits)

lemma consume_render_quota:
  assumes "quota_inv st" "map_of (staging_reservations st) name = Some r"
  shows "quota_inv (snd (consume_existing_render io name dst key sn r st))"
proof -
  obtain x st1 where e: "ensure_insertion_sequence io key st = (x, st1)" by (metis surj_pair)
  have s1: "shrinks st st1" using ensure_seq_shrinks [of st io key] e by simp
  have s2: "shrinks st (store_put io None (staged_path name) st1)" using shrinks_trans [OF s1 shrinks_staged] by simp
  have "quota_inv (release_staged_reservation_locked name r (store_put io None (staged_path name) st1))"
    using release_reserved_quota [OF shrinks_quota [OF assms(1) s2]] assms(2) shrinks_staging [OF s2] by simp
  then show ?thesis using assms(1) shrinks_quota [OF assms(1) s1]
    by (auto simp: consume_existing_render_def e split: sum.splits)
qed

lemma publish_render_quota:
  assumes "quota_inv st" "map_of (staging_reservations st) name = Some (sn_size sn)"
    "fs_lookup (staged_path name) (fs_root st) = Some (RegularFile s c)"
    "key_path key = q # ks" "dst = q # ds @ [p]" "q \<in> fst ` set ALLOWED_NAMESPACES" "SLASH \<notin> set p"
  shows "quota_inv (snd (publish_new_render io name dst key sn (sn_size sn) st))"
proof -
  obtain r st1 where e: "ensure_insertion_sequence io key st = (r, st1)" by (metis surj_pair)
  have s1: "shrinks st st1" using ensure_seq_shrinks [of st io key] e by simp
  have q1: "quota_inv st1" using shrinks_quota [OF assms(1) s1] .
  have qs: "q \<noteq> STAGING_DIR" using assms(6) staging_not_namespace by blast
  have l1: "fs_lookup (staged_path name) (fs_root st1) = Some (RegularFile s c)"
    using ensure_seq_staged [OF assms(4) qs, of name io st] assms(3) e by simp
  have m1: "map_of (staging_reservations st1) name = Some (sn_size sn)" using assms(2) shrinks_staging [OF s1] by simp
  obtain r2 st2 where rp: "replace_path io name dst st1 = (r2, st2)" by (metis surj_pair)
  show ?thesis
  proof (cases r2)
    case (Inr u)
    have rp': "replace_path io name (q # ds @ [p]) st1 = (Inr u, st2)" using rp Inr assms(5) by simp
    have "quota_inv (store_put io None dst st2)"
      using replace_undone_shrinks [OF rp' assms(6,7) l1 quota_wf [OF q1]] shrinks_quota [OF q1] assms(5) by simp
    moreover have "quota_inv ((release_staged_reservation_locked name (sn_size sn) st2)\<lparr>used_bytes := used_bytes st2 + sn_size sn\<rparr>)"
      if "published_identity_ok (fs_lookup dst (fs_root st2)) sn"
      using replace_committed_quota [OF rp' assms(6,7) l1 q1 m1, of 0] that assms(5) old_bytes_nonneg [of p] by simp
    ultimately show ?thesis using q1 by (auto simp: publish_new_render_def e rp Inr split: sum.splits)
  next
    case (Inl x)
    then show ?thesis using q1 rp replace_path_error [of io name dst st1]
      by (auto simp: publish_new_render_def e split: sum.splits)
  qed
qed

lemma destination_Inr:
  assumes "validated_render_destination s st = Inr ps"
  shows "ps = posix_parts s" "ps \<noteq> []" "hd ps = RENDERS" "\<forall>p\<in>set ps. SLASH \<notin> set p"
  using assms render_parts_shape [of s 1]
  by (auto simp: validated_render_destination_def render_corrupted_def Let_def split: if_splits)

lemma render_destination_shape:
  assumes "validated_render_destination s st = Inr ps" "2 \<le> length ps"
  obtains ds p where "ps = RENDERS # ds @ [p]" "SLASH \<notin> set p" "\<forall>c\<in>set ds. SLASH \<notin> set c"
    "key_path (render_key ps) = take 2 ps"
proof -
  note d = destination_Inr [OF assms(1)]
  obtain ds p where "tl ps = ds @ [p]" using assms(2) by (cases ps) (auto, metis rev_exhaust Suc_le_length_iff list.distinct(1))
  then have ps: "ps = RENDERS # ds @ [p]" using d(2,3) by (metis list.collapse)
  moreover have "key_path (render_key ps) = take 2 ps" using d render_key_path by blast
  ultimately show ?thesis using d(4) that by auto
qed

lemma commit_render_quota:
  assumes "quota_inv st"
  shows "quota_inv (snd (commit_staged_render io guard subtree token name s sn st))"
proof (cases "rbind guard (\<lambda>_. rbind (verify_store_root_identity (sio io) 0) (\<lambda>_.
           rbind (validated_render_destination s st) (\<lambda>ps.
           if length ps < 2 then Inl (RuntimeError ''tuple index out of range'')
           else rbind (require_render_transaction_destination ps subtree token) (\<lambda>_.
           rbind (require_render_mutation_authority_locked (render_key ps) token st) (\<lambda>_. Inr ps)))))")
  case (Inr ps)
  have v: "validated_render_destination s st = Inr ps" "2 \<le> length ps"
    using Inr by (auto simp: rbind_eq_Inr split: if_splits)
  obtain ds p where p: "ps = RENDERS # ds @ [p]" "SLASH \<notin> set p" "\<forall>c\<in>set ds. SLASH \<notin> set c"
    "key_path (render_key ps) = take 2 ps" using render_destination_shape [OF v] .
  obtain r1 st1 where e1: "ensure_directories io [RENDERS] (tl (butlast ps)) st = (r1, st1)" by (metis surj_pair)
  have q1: "quota_inv st1"
    using ensure_dirs_shrinks [of "tl (butlast ps)" "[RENDERS]" RENDERS "[]" st io] e1 p shrinks_quota [OF assms] by (simp add: butlast_append)
  have kp: "key_path (render_key ps) = RENDERS # take 1 (ds @ [p])" using p(1,4) by (simp add: numeral_2_eq_2)
  show ?thesis
  proof (cases "rbind (validate_staged_identity name sn st1) (\<lambda>_. matching_reservation name sn st1)")
    case m: (Inr reserved)
    then obtain sf c where l: "fs_lookup (staged_path name) (fs_root st1) = Some (RegularFile sf c)"
      using identity_size by (fastforce simp: rbind_eq_Inr validate_staged_Inr)
    have r: "reserved = sn_size sn" "map_of (staging_reservations st1) name = Some (sn_size sn)"
      using m matching_Inr by (auto simp: rbind_eq_Inr)
    have "quota_inv (snd (consume_existing_render io name ps (render_key ps) sn reserved st1))"
      "quota_inv (snd (publish_new_render io name ps (render_key ps) sn reserved st1))"
      using consume_render_quota [OF q1 r(2)] publish_render_quota [OF q1 r(2) l kp p(1) renders_namespace p(2)] r(1) by auto
    then show ?thesis using q1
      by (auto simp: commit_staged_render_def Inr e1 m split: sum.splits prod.splits)
  next
    case (Inl x)
    then show ?thesis using q1 by (auto simp: commit_staged_render_def Inr e1 split: sum.splits)
  qed
qed (use assms in \<open>simp add: commit_staged_render_def\<close>)

text \<open>A render file other than an insertion record.\<close>

definition render_asset :: "pystr \<Rightarrow> bool" where
  "render_asset s = (2 \<le> length (posix_parts s) \<and> last (posix_parts s) \<noteq> INSERTION_SEQUENCE_FILENAME)"

text \<open>The subtree of a transaction: a validated path, which starts in the render namespace.\<close>

definition render_subtree :: "pystr list \<Rightarrow> bool" where
  "render_subtree ps = (ps \<noteq> [] \<and> hd ps = RENDERS)"

lemma replacement_regular: "replacement_allowed io n h = Inr u \<Longrightarrow> \<exists>s c. n = Some (RegularFile s c)"
  by (auto simp: replacement_allowed_def split: option.splits fsnode.splits)

lemma replace_render_quota:
  assumes "quota_inv st" "render_asset s"
  shows "quota_inv (snd (replace_staged_render io guard subtree token name s expected sn st))"
proof (cases "rbind guard (\<lambda>_. rbind (verify_store_root_identity (sio io) 0) (\<lambda>_.
           if \<not> valid_sha256_hex expected then app_fail INVALID_INPUT ''Expected render digest is invalid.'' 400
           else rbind (validated_render_destination s st) (\<lambda>ps.
             rbind (require_render_transaction_destination ps subtree token) (\<lambda>_.
             rbind (require_render_mutation_authority_locked (render_key ps) token st) (\<lambda>_.
             rbind (validate_staged_identity name sn st) (\<lambda>_.
             rbind (matching_reservation name sn st) (\<lambda>reserved.
             rbind (replacement_allowed io (fs_lookup ps (fs_root st)) expected) (\<lambda>_.
             Inr (ps, reserved)))))))))")
  case (Inr v)
  obtain ps reserved where v: "v = (ps, reserved)" by fastforce
  have h: "validated_render_destination s st = Inr ps" "staged_identity_ok (fs_lookup (staged_path name) (fs_root st)) sn"
    "reserved = sn_size sn" "map_of (staging_reservations st) name = Some (sn_size sn)"
    "\<exists>s c. fs_lookup ps (fs_root st) = Some (RegularFile s c)"
    using Inr v matching_Inr replacement_regular [of io "fs_lookup ps (fs_root st)" expected]
    by (auto simp: rbind_eq_Inr validate_staged_Inr split: if_splits)
  have len: "2 \<le> length ps" "last ps \<noteq> INSERTION_SEQUENCE_FILENAME"
    using assms(2) destination_Inr(1) [OF h(1)] by (auto simp: render_asset_def)
  obtain ds p where p: "ps = RENDERS # ds @ [p]" "SLASH \<notin> set p" using render_destination_shape [OF h(1) len(1)] .
  obtain so co where old: "fs_lookup ps (fs_root st) = Some (RegularFile so co)" using h(5) by blast
  obtain sf c where l: "fs_lookup (staged_path name) (fs_root st) = Some (RegularFile sf c)"
    using identity_size [OF h(2)] by blast
  obtain r1 st1 where rp: "replace_path io name ps st = (r1, st1)" by (metis surj_pair)
  show ?thesis
  proof (cases r1)
    case ok: (Inr u)
    have rp': "replace_path io name (RENDERS # ds @ [p]) st = (Inr u, st1)" using rp ok p(1) by simp
    have sh: "shrinks st (store_put io None ps st1)"
      using replace_undone_shrinks [OF rp' renders_namespace p(2) l quota_wf [OF assms(1)]] p(1) by simp
    have undone: "quota_inv ((store_put io None ps st1)\<lparr>used_bytes := scan_existing_bytes (fs_root (store_put io None ps st1))\<rparr>)"
      using sh assms(1) by (auto simp: quota_inv_def shrinks_def staging_inv_def)
    have "quota_inv ((release_staged_reservation_locked name (sn_size sn) st1)
            \<lparr>used_bytes := used_bytes st1 + (sn_size sn - int (length co))\<rparr>)"
      if "published_identity_ok (fs_lookup ps (fs_root st1)) sn"
      using replace_committed_quota [OF rp' renders_namespace p(2) l assms(1) h(4), of "int (length co)"] that p(1) old len(2)
      by (simp add: entry_bytes_def)
    then show ?thesis using undone
      by (auto simp: replace_staged_render_def Inr v rp ok h(3) old Let_def)
  next
    case (Inl x)
    then show ?thesis using assms(1) rp replace_path_error [of io name ps st]
      by (auto simp: replace_staged_render_def Inr v)
  qed
qed (use assms in \<open>simp add: replace_staged_render_def\<close>)

section \<open>Render subtrees and transactions\<close>

lemma recount_quota:
  "quota_inv st \<Longrightarrow> shrinks st st' \<Longrightarrow> quota_inv (st'\<lparr>used_bytes := scan_existing_bytes (fs_root st')\<rparr>)"
  by (auto simp: quota_inv_def shrinks_def staging_inv_def)

lemma remove_render_tree_quota:
  assumes "quota_inv st" "ps = q # rs" "rs \<noteq> []"
  shows "quota_inv (snd (remove_render_tree io ps st))"
proof -
  define left where "left = (case deletion_failure (sio io) ps of None \<Rightarrow> None
    | Some keep \<Rightarrow> map_option (partial_delete keep) (fs_lookup ps (fs_root st)))"
  define rt where "rt = fs_put (io_now (sio io)) left ps (fs_root st)"
  define st1 where "st1 = st\<lparr>fs_root := rt, order_world := sync_record (render_key ps) rt (order_world st)\<rparr>"
  define st2 where "st2 = (if length ps = 2 then forget_object (render_key ps) st1 else st1)"
  have wf: "fs_wf (fs_root st)" using assms(1) quota_wf by blast
  have "fs_wf rt \<and> scan_existing_bytes rt \<le> scan_existing_bytes (fs_root st)"
    using scan_partial [OF wf assms(3)] fs_put_wf [OF wf, of None "q # rs"] scan_put_le(1) [OF wf assms(3), of _ None]
    by (auto simp: rt_def left_def assms(2) split: option.splits)
  then have "shrinks st st1" by (simp add: st1_def shrinks_def)
  then have sh: "shrinks st st2" using shrinks_trans [OF _ forget_shrinks] by (auto simp: st2_def)
  have r: "fs_root st2 = rt" by (simp add: st2_def st1_def forget_object_def)
  have "quota_inv st2" "quota_inv (st2\<lparr>used_bytes := scan_existing_bytes rt\<rparr>)"
    using shrinks_quota [OF assms(1) sh] recount_quota [OF assms(1) sh] r by auto
  then show ?thesis
    unfolding remove_render_tree_def Let_def left_def [symmetric] rt_def [symmetric] st1_def [symmetric] st2_def [symmetric]
    by (auto split: sum.splits)
qed

lemma delete_locked_quota:
  assumes "quota_inv st"
  shows "quota_inv (snd (delete_render_subtree_locked io token ps st))"
proof -
  have "quota_inv (snd (remove_render_tree io ps st))" if "\<not> length ps < MIN_OBJECT_KEY_PARTS"
  proof -
    have "2 \<le> length ps" using that by (simp add: MIN_OBJECT_KEY_PARTS_def)
    then obtain q rs where "ps = q # rs" "rs \<noteq> []" by (auto simp: Suc_le_length_iff numeral_2_eq_2)
    then show ?thesis using remove_render_tree_quota [OF assms] by blast
  qed
  then show ?thesis using assms
    by (auto simp: delete_render_subtree_locked_def rbind_eq_Inr split: sum.splits if_splits)
qed

lemma delete_subtree_quota: "quota_inv st \<Longrightarrow> quota_inv (snd (delete_render_subtree io s st))"
  using delete_locked_quota by (auto simp: delete_render_subtree_def split: sum.splits)

lemma lease_quota:
  "quota_part (snd (release_asset_lease key token st)) = quota_part st"
  "quota_part (snd (register_render_transaction_locked key t st)) = quota_part st"
  "quota_part (snd (acquire_asset_lease io s st)) = quota_part st"
  by (auto simp: release_asset_lease_def register_render_transaction_locked_def acquire_asset_lease_def quota_part_def
      split: option.splits sum.splits)

lemma begin_transaction_quota:
  assumes "quota_inv st"
  shows "quota_inv (snd (begin_render_transaction io owner token s f st))"
proof -
  have rel: "quota_inv (release_suppressed key t x) = quota_inv x" for key t x
    unfolding release_suppressed_def by (rule quota_part_inv) (rule lease_quota)
  have "quota_inv (snd (register_render_transaction_locked key token st))" for key
    using assms quota_part_inv lease_quota(2) by blast
  moreover have "quota_inv (snd (delete_render_subtree_locked io (Some token) ps (snd (register_render_transaction_locked key token st))))" for ps key
    using calculation delete_locked_quota by blast
  ultimately show ?thesis using assms
    by (auto simp: begin_render_transaction_def Let_def rel split: sum.splits prod.splits bool.splits) (metis snd_conv)+
qed

lemma close_quota: "quota_inv (snd (snd (close_transaction r (tx, st)))) = quota_inv st"
proof -
  have "snd (snd (close_transaction r (tx, st))) = snd (release_asset_lease (render_key (tx_subtree tx)) (Some (tx_token tx)) st)"
    by (auto simp: close_transaction_def Let_def split: sum.splits prod.splits)
  then show ?thesis using quota_part_inv lease_quota(1) by metis
qed

lemma rollback_quota:
  assumes "quota_inv st"
  shows "quota_inv (snd (snd (transaction_rollback io ctx (tx, st))))"
  using assms delete_locked_quota [OF assms, of io "Some (tx_token tx)" "tx_subtree tx"]
  by (auto simp: transaction_rollback_def close_quota split: sum.splits prod.splits)

lemma commit_transaction_quota:
  assumes "quota_inv st"
  shows "quota_inv (snd (snd (transaction_commit io ctx (tx, st))))"
  using assms rollback_quota [OF assms, of io ctx tx]
  by (auto simp: transaction_commit_def close_quota split: sum.splits prod.splits option.splits fsnode.splits)

lemma reset_quota:
  assumes "quota_inv st"
  shows "quota_inv (snd (snd (transaction_reset io ctx (tx, st))))"
  using assms delete_locked_quota [OF assms, of io "Some (tx_token tx)" "tx_subtree tx"]
  by (auto simp: transaction_reset_def split: sum.splits prod.splits)

section \<open>The calls that share the store\<close>

lemma prune_loop_shrinks:
  assumes "\<forall>c\<in>set cands. \<exists>q ps. key_path (so_key c) = q # ps \<and> ps \<noteq> []"
  shows "shrinks st (snd (prune_loop io cands ws fb fo st))"
  using assms
proof (induction cands arbitrary: ws fb fo st)
  case (Cons c rest)
  obtain q ps where k: "key_path (so_key c) = q # ps" "ps \<noteq> []" using Cons.prems by auto
  obtain r st1 where e: "remove_storage_path io (so_key c) st = (r, st1)" by (metis surj_pair)
  have s1: "shrinks st st1" using remove_path_shrinks [OF k, of st io] e by simp
  then have "shrinks st (forget_object (so_key c) st1)" using forget_shrinks shrinks_trans by blast
  moreover have ih: "shrinks x (snd (prune_loop io rest ws' fb' fo' x))" for x ws' fb' fo'
    using Cons by simp
  ultimately have "shrinks st (snd (prune_loop io rest ws' fb' fo' (forget_object (so_key c) st1)))" for ws' fb' fo'
    using shrinks_trans by blast
  then show ?case using s1 ih by (auto simp: e split: sum.splits)
qed simp

lemma clock_quota: "observe_clock io s st = (r, st1) \<Longrightarrow> quota_part st1 = quota_part st"
  using observe_clock_frame by (fastforce simp: quota_part_def)

lemma close_admission_quota: "quota_part (snd (close_admission b al st)) = quota_part st"
  by (simp add: close_admission_def quota_part_def split: option.splits)

lemma denial_quota: "quota_part (snd (publication_denial b st)) = quota_part st"
  by (auto simp: publication_denial_def split: sum.splits prod.splits) (metis close_admission_quota snd_conv)

lemma finish_prune_quota:
  assumes "quota_inv st"
  shows "quota_inv (snd (finish_prune_locked fin st))"
proof -
  let ?st = "st\<lparr>used_bytes := scan_existing_bytes (fs_root st)\<rparr>"
  have q: "quota_inv ?st" using recount_quota [OF assms shrinks_refl] .
  have "quota_part (snd (record_unsatisfied_prune bs ?st)) = quota_part ?st" for bs
    by (auto simp: record_unsatisfied_prune_def close_admission_quota split: sum.splits)
  then have "quota_inv (snd (record_unsatisfied_prune bs ?st))" for bs using q quota_part_inv by blast
  moreover have "quota_inv (?st\<lparr>admission_closed_blocker := None\<rparr>)"
    using q quota_part_inv [of "?st\<lparr>admission_closed_blocker := None\<rparr>" ?st] by (simp add: quota_part_def)
  ultimately show ?thesis using assms q
    by (auto simp: finish_prune_locked_def Let_def split: sum.splits prod.splits) (metis snd_conv)+
qed

lemma prune_quota:
  assumes "quota_inv st"
  shows "quota_inv (snd (prune io p clock st))"
proof -
  have "quota_inv (snd (prune_locked io p clock cap st))" for cap
  proof -
    obtain r st1 where o: "observe_clock io clock st = (r, st1)" by (metis surj_pair)
    have q1: "quota_inv st1" using clock_quota [OF o] quota_part_inv assms by blast
    have "quota_inv (snd (prune_locked io p clock cap st))" if "r = Inr ob" "stored_objects st1 = Inr objs" for ob objs
    proof -
      let ?ws = "prune_working_set p cap (utc_now_ns clock) ob objs"
      obtain r2 st2 where u: "prune_unleased io ?ws st1 = (r2, st2)" by (metis surj_pair)
      have "\<forall>c\<in>set objs. \<exists>q ps. key_path (so_key c) = q # ps \<and> ps \<noteq> []"
        using stored_objects_keys(2) [OF quota_wf [OF q1] that(2)] by (metis not_Cons_self2)
      then have s2: "shrinks st1 st2"
        using prune_loop_shrinks [of "sort_key stored_object_order (ws_objects ?ws)" st1 io ?ws 0 0] u
        by (simp add: prune_unleased_def prune_working_set_def)
      then show ?thesis
        using that shrinks_quota [OF q1 s2] recount_quota [OF q1 s2] finish_prune_quota [OF recount_quota [OF q1 s2]]
        by (auto simp: prune_locked_def o u Let_def split: sum.splits prod.splits)
    qed
    then show ?thesis using q1 by (auto simp: prune_locked_def o split: sum.splits)
  qed
  then show ?thesis using assms by (auto simp: prune_def split: sum.splits)
qed

lemma release_publication_quota: "quota_part (snd (release_publication_reservation_locked i st)) = quota_part st"
  by (simp add: release_publication_reservation_locked_def quota_part_def Let_def split: sum.splits)

lemma reservation_calls_quota:
  "quota_part (snd (reserve_publication p mb mo mi clock st)) = quota_part st"
  "quota_part (snd (begin_publication_reservation io i st)) = quota_part st"
  "quota_part (snd (reservation_commit io i ab ao ai st)) = quota_part st"
  "quota_part (snd (reservation_abort i st)) = quota_part st"
  "quota_part (snd (reservation_context_exit i st)) = quota_part st"
proof -
  show "quota_part (snd (reserve_publication p mb mo mi clock st)) = quota_part st"
    by (simp add: reserve_publication_def quota_part_def split: sum.splits)
  have act: "quota_part (activate_reservation i n cap st) = quota_part st" for n cap st
    by (simp add: activate_reservation_def quota_part_def Let_def)
  show "quota_part (snd (begin_publication_reservation io i st)) = quota_part st"
    by (auto simp: begin_publication_reservation_def activate_publication_reservation_locked_def Let_def denial_quota act
        dest: clock_quota split: sum.splits prod.splits option.splits bool.splits)
  show "quota_part (snd (reservation_commit io i ab ao ai st)) = quota_part st"
    by (auto simp: reservation_commit_def commit_publication_reservation_def commit_publication_reservation_locked_def Let_def
        denial_quota release_publication_quota dest: clock_quota split: sum.splits prod.splits option.splits bool.splits)
  show ab: "quota_part (snd (reservation_abort i st)) = quota_part st"
    by (simp add: reservation_abort_def abort_publication_reservation_def release_publication_quota)
  then show "quota_part (snd (reservation_context_exit i st)) = quota_part st"
    by (simp add: reservation_context_exit_def)
qed

fun staged_elsewhere :: "store_call \<Rightarrow> bool" where
  "staged_elsewhere (COther rt used reserved staging ord w) = True"
| "staged_elsewhere c = False"

lemma call_quota_part:
  "\<not> staged_elsewhere c \<Longrightarrow> \<forall>p clock. c \<noteq> CPrune p clock \<Longrightarrow> c \<noteq> CReconcile \<Longrightarrow>
     quota_part (run_call io c st) = quota_part st"
  by (cases c) (simp_all add: on_reservation_def reservation_calls_quota lease_quota)

lemma call_quota:
  assumes "quota_inv st" "\<not> staged_elsewhere c"
  shows "quota_inv (run_call io c st)"
proof (cases c)
  case (CPrune p clock)
  then show ?thesis using prune_quota [OF assms(1)] by simp
next
  case CReconcile
  then show ?thesis using prune_quota [OF assms(1)] assms(1)
    by (auto simp: reconcile_lifecycle_def split: option.splits sum.splits)
qed (use assms quota_part_inv [OF call_quota_part [of c io st]] in simp_all)

text \<open>A staged file starts empty under a name that no open writer has.\<close>

lemma stage_quota:
  assumes "quota_inv st" "map_of (staging_reservations st) (codes ''stage-'' @ hexdigest (fresh_bytes io) @ sfx) = None"
  shows "quota_inv (snd (stage io guard sfx st))"
proof -
  let ?n = "codes ''stage-'' @ hexdigest (fresh_bytes io) @ sfx"
  have "quota_inv ((store_put io (Some (RegularFile s [])) (staged_path ?n) st)
      \<lparr>staging_reservations := dict_set (staging_reservations st) ?n 0\<rparr>)" if "SLASH \<notin> set sfx" for s
  proof -
    have "SLASH \<notin> set ?n" using that hexdigest_no_slash by (auto simp: SLASH_def)
    then have q: "quota_inv (store_put io (Some (RegularFile s [])) (staged_path ?n) st)"
      using shrinks_quota [OF assms(1)] shrinks_staged [of "Some (RegularFile s [])" ?n] by simp
    have "e \<in> set (dict_set (staging_reservations st) ?n 0) \<Longrightarrow> 0 \<le> snd e" for e
      using dict_set_entries [of "staging_reservations st" ?n 0] assms(1) by (auto simp: quota_inv_def staging_inv_def)
    then show ?thesis using q assms(2)
      by (auto simp: quota_inv_def staging_inv_def store_put_def distinct_dict_set sum_dict_set [where f = snd])
  qed
  then show ?thesis using assms(1) by (auto simp: stage_def Let_def split: sum.splits)
qed

lemma writer_commits_quota:
  assumes "quota_inv st"
  shows "quota_inv (snd (snd (writer_commit io guard lower ns fn mt (w, st))))"
    "quota_inv (snd (snd (writer_commit_render io guard subtree token s (w, st))))"
    "render_asset s \<Longrightarrow> quota_inv (snd (snd (writer_replace_render io guard subtree token s expected (w, st))))"
proof -
  have "SLASH \<notin> set (sn_sha256 sn)" if "writer_snapshot io guard w = Inr sn" for sn
    using that hexdigest_no_slash by (auto simp: writer_snapshot_def rbind_eq_Inr Let_def split: if_splits)
  then show "quota_inv (snd (snd (writer_commit io guard lower ns fn mt (w, st))))"
    using assms commit_document_quota [OF assms]
    by (auto simp: writer_commit_def split: sum.splits prod.splits) (metis snd_conv)
  show "quota_inv (snd (snd (writer_commit_render io guard subtree token s (w, st))))"
    using assms commit_render_quota [OF assms]
    by (auto simp: writer_commit_render_def split: sum.splits prod.splits) (metis snd_conv)
  show "quota_inv (snd (snd (writer_replace_render io guard subtree token s expected (w, st))))" if "render_asset s"
    using assms replace_render_quota [OF assms that]
    by (auto simp: writer_replace_render_def split: sum.splits prod.splits) (metis snd_conv)
qed

text \<open>
  One call on the store by any caller: whatever the surroundings, the writer, the guards and the
  arguments. A staged name is fresh, a replaced render is not an insertion record, and a
  transaction has the subtree that was validated when it began.
\<close>

inductive store_step :: "Store \<Rightarrow> Store \<Rightarrow> bool" where
  call: "\<not> staged_elsewhere c \<Longrightarrow> store_step st (run_call io c st)"
| stage: "map_of (staging_reservations st) (codes ''stage-'' @ hexdigest (fresh_bytes io) @ sfx) = None \<Longrightarrow>
    store_step st (snd (stage io guard sfx st))"
| reserve: "store_step st (snd (reserve_staging_bytes name amount st))"
| append: "store_step st (append_staged io name data st)"
| release: "store_step st (snd (release_staging_bytes name amount st))"
| stream: "store_step st (snd (snd (writer_write io guard data (w, st))))"
| discard: "store_step st (snd (snd (writer_exit io guard (w, st))))"
| document: "store_step st (snd (snd (writer_commit io guard lower ns fn mt (w, st))))"
| render: "store_step st (snd (snd (writer_commit_render io guard subtree token s (w, st))))"
| replacement: "render_asset s \<Longrightarrow>
    store_step st (snd (snd (writer_replace_render io guard subtree token s expected (w, st))))"
| delete: "store_step st (snd (delete_render_subtree io s st))"
| tx_begin: "store_step st (snd (begin_render_transaction io owner t s f st))"
| tx_rollback: "render_subtree (tx_subtree tx) \<Longrightarrow> store_step st (snd (snd (transaction_rollback io ctx (tx, st))))"
| tx_commit: "render_subtree (tx_subtree tx) \<Longrightarrow> store_step st (snd (snd (transaction_commit io ctx (tx, st))))"
| tx_reset: "render_subtree (tx_subtree tx) \<Longrightarrow> store_step st (snd (snd (transaction_reset io ctx (tx, st))))"

lemma step_quota: "store_step st st' \<Longrightarrow> quota_inv st \<Longrightarrow> quota_inv st'"
  by (induction rule: store_step.induct)
    (auto intro: call_quota stage_quota reserve_quota(1) append_quota release_quota write_quota exit_quota writer_commits_quota
      delete_subtree_quota begin_transaction_quota rollback_quota commit_transaction_quota reset_quota)

lemma example_staging_quota: "quota_inv example_staging_store"
  by code_simp

lemma example_step: "store_step example_staging_store
    (snd (snd (writer_write (example_stage_io []) (Inr ()) [4, 5] (example_writer [1, 2, 3], example_staging_store))))"
  by (rule store_step.stream)

section \<open>Properties\<close>



end
