(* ===== verification/Nplg_Commit.thy ===== *)
theory Nplg_Commit
  imports Nplg_Quota "HOL-Library.Sublist"
begin

text \<open>
  What commits store and what readers see: the file and the accounts after a document commit that returned, and
  the render directories that no call changes while a reader holds a lease on them.
\<close>

section \<open>What a reader sees\<close>

text \<open>A change at one path does not reach a path that neither leads to it nor lies below it.\<close>

lemma fs_lookup_put_disjoint:
  assumes "\<not> prefix xs ys" "\<not> prefix ys xs"
  shows "fs_lookup xs (fs_put now v ys rt) = fs_lookup xs rt"
  using assms
proof (induction ys arbitrary: xs rt)
  case (Cons y ys)
  obtain x xs' where xs: "xs = x # xs'" using Cons.prems by (cases xs) auto
  show ?case
  proof (cases rt)
    case (Directory s cs)
    show ?thesis
    proof (cases ys)
      case Nil
      then show ?thesis using Cons.prems Directory xs by (auto split: option.splits)
    next
      case (Cons z zs)
      then show ?thesis using Cons.IH [of xs'] Cons.prems Directory xs
        by (auto simp: map_of_dict_set split: option.splits)
    qed
  qed (cases ys; simp)+
qed simp


section \<open>Committing a document\<close>

lemma staged_prefix:
  "q \<noteq> STAGING_DIR \<Longrightarrow> \<not> prefix (q # xs) (staged_path name)" "q \<noteq> STAGING_DIR \<Longrightarrow> \<not> prefix (staged_path name) (q # xs)"
  by (simp_all add: staged_path_def)

text \<open>Recording an insertion sequence changes nothing but the record.\<close>

lemma ensure_seq_frame:
  assumes "ensure_insertion_sequence io key st = (r, st1)"
  shows "staging_reservations st1 = staging_reservations st" "reserved_bytes st1 = reserved_bytes st"
    "used_bytes st1 = used_bytes st" "max_bytes st1 = max_bytes st" "asset_leases st1 = asset_leases st"
    "render_transaction_leases st1 = render_transaction_leases st"
    "\<not> prefix xs (key_path key @ [INSERTION_SEQUENCE_FILENAME]) \<Longrightarrow> \<not> prefix (key_path key @ [INSERTION_SEQUENCE_FILENAME]) xs \<Longrightarrow>
       fs_lookup xs (fs_root st1) = fs_lookup xs (fs_root st)"
    "fs_lookup (key_path key @ [INSERTION_SEQUENCE_FILENAME]) (fs_root st) = Some n \<Longrightarrow> fs_root st1 = fs_root st"
  using assms
  by (auto simp: ensure_insertion_sequence_def store_put_def Let_def fs_lookup_put_disjoint
      split: option.splits prod.splits if_splits)

lemma ensure_seq_lookup:
  assumes "ensure_insertion_sequence io key st = (r, st1)" "fs_lookup xs (fs_root st) = Some n"
    "length xs = Suc (length (key_path key))"
  shows "fs_lookup xs (fs_root st1) = Some n"
proof (cases "xs = key_path key @ [INSERTION_SEQUENCE_FILENAME]")
  case True
  then show ?thesis using ensure_seq_frame(8) [OF assms(1)] assms(2) by simp
next
  case False
  have l: "length xs = length (key_path key @ [INSERTION_SEQUENCE_FILENAME])" using assms(3) by simp
  have "\<not> prefix xs (key_path key @ [INSERTION_SEQUENCE_FILENAME])" "\<not> prefix (key_path key @ [INSERTION_SEQUENCE_FILENAME]) xs"
    using not_equal_is_parallel [OF False l] by (auto elim: parallelE)
  then show ?thesis using ensure_seq_frame(7) [OF assms(1)] assms(2) by simp
qed

lemma consume_document_result:
  assumes "consume_existing_document_locked io name dst key sn st = (Inr u, st')" "dst = q # ds" "q \<noteq> STAGING_DIR"
    "length dst = Suc (length (key_path key))"
  shows "sha256_path (follow io (fs_lookup dst (fs_root st'))) = Inr (sn_sha256 sn)"
    "used_bytes st' = used_bytes st" "reserved_bytes st' = reserved_bytes st - sn_size sn"
    "staging_reservations st' = dict_del (staging_reservations st) name"
proof -
  obtain r st1 where e: "ensure_insertion_sequence io key st = (r, st1)" by (metis surj_pair)
  have h: "sha256_path (follow io (fs_lookup dst (fs_root st))) = Inr (sn_sha256 sn)"
    "st' = release_staged_reservation_locked name (sn_size sn) (store_put io None (staged_path name) st1)"
    using assms(1) by (auto simp: consume_existing_document_locked_def e raised_def split: sum.splits if_splits)
  obtain n where n: "fs_lookup dst (fs_root st) = Some n"
    using h(1) by (auto simp: sha256_path_def follow_def split: option.splits)
  have "fs_lookup dst (fs_root st1) = Some n" using ensure_seq_lookup [OF e n assms(4)] .
  then have "fs_lookup dst (fs_root st') = Some n"
    using fs_lookup_put_disjoint staged_prefix [OF assms(3)] assms(2)
    by (simp add: h(2) release_staged_reservation_locked_def store_put_def)
  then show "sha256_path (follow io (fs_lookup dst (fs_root st'))) = Inr (sn_sha256 sn)" using h(1) n by simp
  show "used_bytes st' = used_bytes st" "reserved_bytes st' = reserved_bytes st - sn_size sn"
    "staging_reservations st' = dict_del (staging_reservations st) name"
    using ensure_seq_frame [OF e] by (simp_all add: h(2) release_staged_reservation_locked_def store_put_def)
qed

lemma undo_fails: "\<exists>e'. fst (undo_publication io dst key e st) = Inl e'"
  by (auto simp: undo_publication_def split: sum.splits prod.splits)

lemma publish_document_result:
  assumes "publish_new_document_locked io name dst key sn st = (Inr u, st')" "dst = q # ds @ [p]"
    "q \<in> fst ` set ALLOWED_NAMESPACES" "key_path key = q # ks" "SLASH \<notin> set p" "fs_wf (fs_root st)"
    "fs_lookup (staged_path name) (fs_root st) = Some (RegularFile s c)" "published_view io = Pair"
  shows "\<exists>s'. fs_lookup dst (fs_root st') = Some (RegularFile s' c)"
    "used_bytes st' = used_bytes st + sn_size sn" "reserved_bytes st' = reserved_bytes st - sn_size sn"
    "staging_reservations st' = dict_del (staging_reservations st) name"
proof -
  obtain r st1 where e: "ensure_insertion_sequence io key st = (r, st1)" by (metis surj_pair)
  obtain r2 st2 where rp: "replace_path io name dst st1 = (r2, st2)" by (metis surj_pair)
  have ok: "is_ok r" "is_ok r2"
    using assms(1) undo_fails [of io dst key] by (auto simp: publish_new_document_locked_def e rp split: sum.splits) (metis fst_conv Inl_Inr_False)+
  then obtain v v2 where v: "r = Inr v" "r2 = Inr v2" by (auto simp: is_ok_iff)
  have st': "st' = (release_staged_reservation_locked name (sn_size sn) st2)\<lparr>used_bytes := used_bytes st2 + sn_size sn\<rparr>"
    using assms(1) undo_fails [of io dst key] v
    by (auto simp: publish_new_document_locked_def e rp raised_def identity_changed_def split: if_splits) (metis fst_conv Inl_Inr_False)+
  have qs: "q \<noteq> STAGING_DIR" using assms(3) staging_not_namespace by blast
  have l1: "fs_lookup (staged_path name) (fs_root st1) = Some (RegularFile s c)"
    using ensure_seq_staged [OF assms(4) qs, of name io st] assms(7) e by simp
  have st2: "st2 = store_put io (Some (published_node io (RegularFile s c))) dst (store_put io None (staged_path name) st1)"
    "directory_at (fs_root st1) (q # ds)"
    using rp v(2) l1 assms(2) by (auto simp: replace_path_def split: option.splits if_splits)
  obtain d cs where "fs_lookup (q # ds) (fs_root st1) = Some (Directory d cs)"
    using st2(2) by (auto simp: directory_at_def split: option.splits elim: is_directory.elims)
  then have "fs_lookup (q # ds) (fs_put (io_now (sio io)) None (staged_path name) (fs_root st1)) = Some (Directory d cs)"
    using fs_lookup_put_disjoint staged_prefix [OF qs] by simp
  then have "fs_lookup (q # ds @ [p]) (fs_root st2) = Some (published_node io (RegularFile s c))"
    using fs_lookup_put_same [of "q # ds"] by (simp add: st2(1) store_put_def assms(2))
  then show "\<exists>s'. fs_lookup dst (fs_root st') = Some (RegularFile s' c)"
    by (simp add: st' release_staged_reservation_locked_def published_node_def assms(2,8))
  show "used_bytes st' = used_bytes st + sn_size sn" "reserved_bytes st' = reserved_bytes st - sn_size sn"
    "staging_reservations st' = dict_del (staging_reservations st) name"
    using ensure_seq_frame [OF e] by (simp_all add: st' st2(1) release_staged_reservation_locked_def store_put_def)
qed


lemma ensure_dir_frame:
  assumes "ensure_private_directory_path io path ctx st = (r, st1)"
  shows "staging_reservations st1 = staging_reservations st" "reserved_bytes st1 = reserved_bytes st"
    "used_bytes st1 = used_bytes st" "max_bytes st1 = max_bytes st" "asset_leases st1 = asset_leases st"
    "render_transaction_leases st1 = render_transaction_leases st"
    "\<not> prefix xs path \<Longrightarrow> \<not> prefix path xs \<Longrightarrow> fs_lookup xs (fs_root st1) = fs_lookup xs (fs_root st)"
  using assms
  by (auto simp: ensure_private_directory_path_def store_put_def Let_def fs_lookup_put_disjoint
      split: option.splits prod.splits if_splits)

lemma ensure_dir_below:
  assumes "ensure_private_directory_path io (q # ds @ [p]) ctx st = (r, st1)"
  shows "fs_lookup (q # ds @ [p, f]) (fs_root st1) = fs_lookup (q # ds @ [p, f]) (fs_root st)"
proof (cases "fs_lookup (q # ds @ [p]) (fs_root st)")
  case None
  have old: "fs_lookup (q # ds @ [p, f]) (fs_root st) = None"
    using None fs_lookup_append [of "q # ds @ [p]" "[f]" "fs_root st"] by simp
  have "fs_lookup (q # ds @ [p, f]) (fs_put now (Some (Directory d [])) (q # ds @ [p]) (fs_root st)) = None"
    if dir: "directory_at (fs_root st) (q # ds)" for d now
  proof -
    obtain x cs where "fs_lookup (q # ds) (fs_root st) = Some (Directory x cs)"
      using dir by (auto simp: directory_at_def split: option.splits elim: is_directory.elims)
    then show ?thesis using fs_lookup_put_same [of "q # ds" "fs_root st" x cs]
      fs_lookup_append [of "q # ds @ [p]" "[f]"] by simp
  qed
  then show ?thesis using assms None old
    by (auto simp: ensure_private_directory_path_def store_put_def Let_def butlast_append split: if_splits)
qed (use assms in \<open>auto simp: ensure_private_directory_path_def split: if_splits\<close>)

lemma reconcile_result:
  assumes "reconcile_staged_size_locked name sz st = (Inr u, st')" "map_of (staging_reservations st) name = Some r"
  shows "reserved_bytes st' = reserved_bytes st + (sz - r)" "used_bytes st' = used_bytes st" "fs_root st' = fs_root st"
    "max_bytes st' = max_bytes st"
  using assms by (auto simp: reconcile_staged_size_locked_def raised_def cache_full_def set_staging_def split: if_splits)

lemma commit_document_result:
  assumes "commit_staged_file io lower name ns fn mt sn st = (Inr a, st')" "fs_wf (fs_root st)"
    "map_of (staging_reservations st) name = Some r" "SLASH \<notin> set (sn_sha256 sn)" "published_view io = Pair"
    "fs_lookup (staged_path name) (fs_root st) = Some (RegularFile s c)" "hexdigest (sha256 c) = sn_sha256 sn"
  shows "artifact_path a = [ns, object_id a, fn] \<and> object_id a = document_object_id ns (sn_sha256 sn)
    \<and> artifact_sha256 a = sn_sha256 sn \<and> artifact_size a = sn_size sn
    \<and> sha256_path (follow io (fs_lookup (artifact_path a) (fs_root st'))) = Inr (artifact_sha256 a)
    \<and> used_bytes st' = used_bytes st + (if follow io (fs_lookup (artifact_path a) (fs_root st)) = None then sn_size sn else 0)
    \<and> reserved_bytes st' = reserved_bytes st - r \<and> map_of (staging_reservations st') name = None"
proof -
  let ?oid = "document_object_id ns (sn_sha256 sn)" let ?key = "object_key ns ?oid" let ?dst = "[ns, ?oid, fn]"
  have n: "ns \<in> fst ` set ALLOWED_NAMESPACES" "SLASH \<notin> set fn"
    using assms(1) namespace_member filename_no_slash
    by (auto simp: commit_staged_file_def rbind_eq_Inr split: sum.splits)
  have oid: "SLASH \<notin> set ?oid" using document_id_no_slash [OF n(1) assms(4)] .
  have key: "key_path ?key = ns # [?oid]" using namespace_key_no_slash [OF n(1)] oid by simp
  have nss: "ns \<noteq> STAGING_DIR" using n(1) staging_not_namespace by blast
  obtain u1 st1 u2 st2 u3 where e: "ensure_private_directory_path io (ns # [] @ [?oid]) ''document object'' st = (Inr u1, st1)"
    "reconcile_staged_size_locked name (sn_size sn) st1 = (Inr u2, st2)"
    "(if follow io (fs_lookup ?dst (fs_root st2)) \<noteq> None
      then consume_existing_document_locked io name ?dst ?key sn st2
      else publish_new_document_locked io name ?dst ?key sn st2) = (Inr u3, st')"
    "object_id a = ?oid" "artifact_sha256 a = sn_sha256 sn" "artifact_size a = sn_size sn" "artifact_path a = ?dst"
    using assms(1) namespace_member filename_no_slash
    by (auto simp: commit_staged_file_def Let_def rbind_eq_Inr split: sum.splits prod.splits) blast
  note f1 = ensure_dir_frame [OF e(1)]
  have wf1: "fs_wf (fs_root st1)" using ensure_dir_shrinks [of "[?oid]" st io ns "''document object''"] oid e(1) assms(2)
    by (simp add: shrinks_def)
  have d1: "fs_lookup ?dst (fs_root st2) = fs_lookup ?dst (fs_root st)"
    using ensure_dir_below [OF e(1), of fn] reconcile_result(3) [OF e(2)] f1(1) assms(3) by simp
  have l2: "fs_lookup (staged_path name) (fs_root st2) = Some (RegularFile s c)"
    using f1(7) [of "staged_path name"] staged_prefix [OF nss] reconcile_result(3) [OF e(2)] f1(1) assms(3,6) by simp
  have wf2: "fs_wf (fs_root st2)" using wf1 reconcile_result(3) [OF e(2)] f1(1) assms(3) by simp
  have a2: "reserved_bytes st2 = reserved_bytes st + (sn_size sn - r)" "used_bytes st2 = used_bytes st"
    using reconcile_result [OF e(2)] f1 assms(3) by simp_all
  show ?thesis
  proof (cases "follow io (fs_lookup ?dst (fs_root st2)) = None")
    case True
    then have p: "publish_new_document_locked io name ?dst ?key sn st2 = (Inr u3, st')" using e(3) by simp
    note pr = publish_document_result [OF p _ n(1) key n(2) wf2 l2 assms(5), of "[?oid]"]
    show ?thesis using pr a2 True d1 e(4-) assms(7) by (auto simp: sha256_path_def follow_def map_of_dict_del)
  next
    case False
    then have p: "consume_existing_document_locked io name ?dst ?key sn st2 = (Inr u3, st')" using e(3) by simp
    note pr = consume_document_result [OF p refl nss]
    show ?thesis using pr a2 False d1 e(4-) key by (auto simp: map_of_dict_del)
  qed
qed

section \<open>Objects that a reader holds\<close>

definition untouched :: "pystr \<Rightarrow> Store \<Rightarrow> Store \<Rightarrow> bool" where
  "untouched ob st st' = (fs_lookup [RENDERS, ob] (fs_root st') = fs_lookup [RENDERS, ob] (fs_root st))"

lemma untouched_refl [simp]: "untouched ob st st"
  by (simp add: untouched_def)

lemma untouched_trans: "untouched ob st st1 \<Longrightarrow> untouched ob st1 st2 \<Longrightarrow> untouched ob st st2"
  by (simp add: untouched_def)

lemma untouched_root: "fs_root st' = fs_root st \<Longrightarrow> untouched ob st st'"
  by (simp add: untouched_def)

lemma untouched_put: "[q, x] \<noteq> [RENDERS, ob] \<Longrightarrow> fs_lookup [RENDERS, ob] (fs_put now v (q # x # ps) rt) = fs_lookup [RENDERS, ob] rt"
  by (rule fs_lookup_put_disjoint) auto

lemma untouched_store_put: "[q, x] \<noteq> [RENDERS, ob] \<Longrightarrow> untouched ob st (store_put io v (q # x # ps) st)"
  using untouched_put by (simp add: untouched_def store_put_def)

lemma staged_not_render: "[STAGING_DIR, name] \<noteq> [RENDERS, ob]"
  by (simp add: STAGING_DIR_def RENDERS_def)

lemma untouched_staged: "untouched ob st (store_put io v (staged_path name) st)"
  unfolding staged_path_def by (rule untouched_store_put [OF staged_not_render])

lemma untouched_replace_object:
  "key_path key = [q, x] \<Longrightarrow> [q, x] \<noteq> [RENDERS, ob] \<Longrightarrow> untouched ob st (replace_object io key v st)"
  using untouched_put [of q x ob] by (simp add: untouched_def replace_object_def Let_def)

lemma untouched_remove_path:
  "key_path key = [q, x] \<Longrightarrow> [q, x] \<noteq> [RENDERS, ob] \<Longrightarrow> untouched ob st (snd (remove_storage_path io key st))"
  by (simp add: remove_storage_path_def untouched_replace_object split: option.splits)

lemma untouched_forget: "untouched ob st (forget_object key st)"
  by (simp add: untouched_def forget_object_def)

lemma untouched_ensure_dir:
  "[q, x] \<noteq> [RENDERS, ob] \<Longrightarrow> ensure_private_directory_path io (q # x # ps) ctx st = (r, st1) \<Longrightarrow> untouched ob st st1"
  using ensure_dir_frame(7) [of io "q # x # ps" ctx st r st1 "[RENDERS, ob]"] by (auto simp: untouched_def)

lemma untouched_ensure_dirs:
  "[q, x] \<noteq> [RENDERS, ob] \<Longrightarrow> ensure_directories io (q # x # ps) cs st = (r, st1) \<Longrightarrow> untouched ob st st1"
proof (induction cs arbitrary: ps st)
  case (Cons c cs)
  obtain r' st' where e: "ensure_private_directory_path io (q # x # ps @ [c]) ''render object'' st = (r', st')" by (metis surj_pair)
  have "untouched ob st st'" using untouched_ensure_dir [OF Cons.prems(1) e] .
  moreover have "untouched ob st' st1" if "ensure_directories io (q # x # ps @ [c]) cs st' = (r, st1)"
    using Cons.IH [OF Cons.prems(1) that] .
  ultimately show ?case using Cons.prems(2) e untouched_trans by (auto split: sum.splits)
qed simp

lemma untouched_ensure_seq:
  "key_path key = q # x # ps \<Longrightarrow> [q, x] \<noteq> [RENDERS, ob] \<Longrightarrow> ensure_insertion_sequence io key st = (r, st1) \<Longrightarrow> untouched ob st st1"
  using ensure_seq_frame(7) [of io key st r st1 "[RENDERS, ob]"] by (auto simp: untouched_def)

lemma untouched_replace_path:
  assumes "[q, x] \<noteq> [RENDERS, ob]"
  shows "untouched ob st (snd (replace_path io name (q # x # ps) st))"
proof -
  have "untouched ob st (store_put io v (q # x # ps) (store_put io None (staged_path name) st))" for v
    using untouched_trans [OF untouched_staged untouched_store_put [OF assms]] .
  then show ?thesis by (auto simp: replace_path_def split: option.splits)
qed

lemma untouched_undo:
  assumes "key_path key = [q, x]" "[q, x] \<noteq> [RENDERS, ob]"
  shows "untouched ob st (snd (undo_publication io (q # x # ps) key e st))"
proof -
  have "untouched ob st (snd (remove_storage_path (sio io) key (forget_object key (store_put io None (q # x # ps) st))))"
    using untouched_trans [OF untouched_trans [OF untouched_store_put [OF assms(2)] untouched_forget] untouched_remove_path [OF assms]] .
  then show ?thesis by (auto simp: undo_publication_def split: sum.splits prod.splits)
qed

lemma untouched_release: "untouched ob st (release_staged_reservation_locked name r st1) = untouched ob st st1"
  by (simp add: untouched_def release_staged_reservation_locked_def)

lemma untouched_used: "untouched ob st (st1\<lparr>used_bytes := u\<rparr>) = untouched ob st st1"
  by (simp add: untouched_def)

lemma untouched_consume_document:
  assumes "key_path key = [q, x]" "[q, x] \<noteq> [RENDERS, ob]"
  shows "untouched ob st (snd (consume_existing_document_locked io name dst key sn st))"
    "untouched ob st (snd (consume_existing_render io name dst key sn reserved st))"
proof -
  obtain r st1 where e: "ensure_insertion_sequence io key st = (r, st1)" by (metis surj_pair)
  have s: "untouched ob st st1" using untouched_ensure_seq [OF assms e] .
  then have "untouched ob st (store_put io None (staged_path name) st1)" using untouched_trans untouched_staged by blast
  then show "untouched ob st (snd (consume_existing_document_locked io name dst key sn st))"
    "untouched ob st (snd (consume_existing_render io name dst key sn reserved st))"
    using s by (auto simp: consume_existing_document_locked_def consume_existing_render_def e untouched_release split: sum.splits)
qed

lemma untouched_publish:
  assumes "key_path key = [q, x]" "[q, x] \<noteq> [RENDERS, ob]"
  shows "untouched ob st (snd (publish_new_document_locked io name (q # x # ps) key sn st))"
    "untouched ob st (snd (publish_new_render io name (q # x # ps) key sn reserved st))"
proof -
  obtain r st1 where e: "ensure_insertion_sequence io key st = (r, st1)" by (metis surj_pair)
  obtain r2 st2 where rp: "replace_path io name (q # x # ps) st1 = (r2, st2)" by (metis surj_pair)
  have s1: "untouched ob st st1" using untouched_ensure_seq [OF assms e] .
  have "untouched ob st1 st2" using untouched_replace_path [OF assms(2), of st1 io name ps] rp by simp
  then have s2: "untouched ob st st2" using s1 untouched_trans by blast
  have u: "untouched ob st (snd (undo_publication io (q # x # ps) key ex st1))"
    "untouched ob st (snd (undo_publication io (q # x # ps) key ex st2))"
    "untouched ob st (store_put io None (q # x # ps) st2)" for ex
    using untouched_trans [OF s1 untouched_undo [OF assms]] untouched_trans [OF s2 untouched_undo [OF assms]]
      untouched_trans [OF s2 untouched_store_put [OF assms(2)]] by auto
  show "untouched ob st (snd (publish_new_document_locked io name (q # x # ps) key sn st))"
    using s1 s2 u by (auto simp: publish_new_document_locked_def e rp untouched_release untouched_used split: sum.splits)
  show "untouched ob st (snd (publish_new_render io name (q # x # ps) key sn reserved st))"
    using s1 s2 u by (auto simp: publish_new_render_def e rp untouched_release untouched_used split: sum.splits)
qed

lemma reconcile_root: "fs_root (snd (reconcile_staged_size_locked name sz st)) = fs_root st"
  by (simp add: reconcile_staged_size_locked_def set_staging_def split: option.splits)

lemma untouched_document:
  assumes "document_object_id ns (sn_sha256 sn) \<noteq> ob" "SLASH \<notin> set (sn_sha256 sn)"
  shows "untouched ob st (snd (commit_staged_file io lower name ns fn mt sn st))"
proof (cases "rbind (verify_store_root_identity (sio io) 0) (\<lambda>_.
           rbind (validate_namespace ns) (\<lambda>ns.
           rbind (validate_filename fn) (\<lambda>fn.
           rbind (validate_media_type lower mt) (\<lambda>mt. Inr (ns, fn, mt)))))")
  case (Inr v)
  then obtain mt' where v: "v = (ns, fn, mt')" and n: "ns \<in> fst ` set ALLOWED_NAMESPACES"
    using namespace_member filename_no_slash by (auto simp: rbind_eq_Inr)
  let ?oid = "document_object_id ns (sn_sha256 sn)" let ?key = "object_key ns ?oid"
  have key: "key_path ?key = [ns, ?oid]" using namespace_key_no_slash [OF n] document_id_no_slash [OF n assms(2)] by simp
  have ne: "[ns, ?oid] \<noteq> [RENDERS, ob]" using assms(1) by simp
  obtain r1 st1 where e1: "ensure_private_directory_path io [ns, ?oid] ''document object'' st = (r1, st1)" by (metis surj_pair)
  obtain r2 st2 where e2: "reconcile_staged_size_locked name (sn_size sn) st1 = (r2, st2)" by (metis surj_pair)
  have s1: "untouched ob st st1" using untouched_ensure_dir [OF ne e1] .
  then have s2: "untouched ob st st2" using reconcile_root [of name "sn_size sn" st1] e2 by (simp add: untouched_def)
  have "untouched ob st (snd (consume_existing_document_locked io name [ns, ?oid, fn] ?key sn st2))"
    "untouched ob st (snd (publish_new_document_locked io name [ns, ?oid, fn] ?key sn st2))"
    using untouched_trans [OF s2 untouched_consume_document(1) [OF key ne]] untouched_trans [OF s2 untouched_publish(1) [OF key ne]] by auto
  then show ?thesis using s1 s2
    by (auto simp: commit_staged_file_def Inr v Let_def e1 e2 split: sum.splits prod.splits)
qed (simp add: commit_staged_file_def)

definition held :: "pystr \<Rightarrow> Store \<Rightarrow> bool" where
  "held ob st = (0 < dict_get (asset_leases st) (object_key RENDERS ob) 0)"

lemma render_key_object: "render_key (RENDERS # x # ps) = object_key RENDERS x"
  by (simp add: render_key_def MIN_OBJECT_KEY_PARTS_def object_key_def numeral_2_eq_2)

lemma mutation_denied: "held ob st \<Longrightarrow> require_render_mutation_authority_locked (object_key RENDERS ob) token st \<noteq> Inr ()"
  by (simp add: held_def require_render_mutation_authority_locked_def)

lemma delete_denied: "held ob st \<Longrightarrow> delete_authority (object_key RENDERS ob) token st \<noteq> Inr ()"
  by (simp add: held_def delete_authority_def in_use_def Let_def split: option.splits)

lemma untouched_commit_render:
  assumes "held ob st"
  shows "untouched ob st (snd (commit_staged_render io guard subtree token name s sn st))"
proof (cases "rbind guard (\<lambda>_. rbind (verify_store_root_identity (sio io) 0) (\<lambda>_.
           rbind (validated_render_destination s st) (\<lambda>ps.
           if length ps < 2 then Inl (RuntimeError ''tuple index out of range'')
           else rbind (require_render_transaction_destination ps subtree token) (\<lambda>_.
           rbind (require_render_mutation_authority_locked (render_key ps) token st) (\<lambda>_. Inr ps)))))")
  case (Inr ps)
  have v: "validated_render_destination s st = Inr ps" "2 \<le> length ps"
    "require_render_mutation_authority_locked (render_key ps) token st = Inr ()"
    using Inr by (auto simp: rbind_eq_Inr split: if_splits)
  obtain x rs where ps: "ps = RENDERS # x # rs"
    using destination_Inr(3) [OF v(1)] v(2) by (auto simp: numeral_2_eq_2 Suc_le_length_iff)
  have x: "x \<noteq> ob" using v(3) mutation_denied [OF assms, of token] by (auto simp: ps render_key_object)
  then have ne: "[RENDERS, x] \<noteq> [RENDERS, ob]" by simp
  have key: "key_path (render_key ps) = [RENDERS, x]" using render_key_path [of ps] destination_Inr [OF v(1)] by (simp add: ps)
  obtain r1 st1 where e1: "ensure_directories io [RENDERS] (tl (butlast ps)) st = (r1, st1)" by (metis surj_pair)
  have s1: "untouched ob st st1"
  proof (cases rs)
    case Nil
    then show ?thesis using e1 by (simp add: ps)
  next
    case (Cons r rs')
    obtain r0 st0 where e0: "ensure_private_directory_path io [RENDERS, x] ''render object'' st = (r0, st0)" by (metis surj_pair)
    have "untouched ob st st0" using untouched_ensure_dir [OF ne e0] .
    moreover have "untouched ob st0 st1" if "ensure_directories io [RENDERS, x] (butlast rs) st0 = (r1, st1)"
      using untouched_ensure_dirs [OF ne that] .
    ultimately show ?thesis using e1 e0 Cons untouched_trans by (auto simp: ps split: sum.splits)
  qed
  have "untouched ob st (snd (consume_existing_render io name ps (render_key ps) sn reserved st1))"
    "untouched ob st (snd (publish_new_render io name ps (render_key ps) sn reserved st1))" for reserved
    using untouched_trans [OF s1 untouched_consume_document(2) [OF key ne]] untouched_trans [OF s1 untouched_publish(2) [OF key ne]]
    by (auto simp: ps)
  then show ?thesis using s1
    by (auto simp: commit_staged_render_def Inr e1 split: sum.splits prod.splits) (metis snd_conv)+
qed (simp add: commit_staged_render_def)

lemma untouched_replace_render:
  assumes "held ob st" "render_asset s"
  shows "untouched ob st (snd (replace_staged_render io guard subtree token name s expected sn st))"
proof (cases "rbind guard (\<lambda>_. rbind (verify_store_root_identity (sio io) 0) (\<lambda>_.
           if \<not> valid_sha256_hex expected then app_fail INVALID_INPUT ''Expected render digest is invalid.'' 400
           else rbind (validated_render_destination s st) (\<lambda>ps.
             rbind (require_render_transaction_destination ps subtree token) (\<lambda>_.
             rbind (require_render_mutation_authority_locked (render_key ps) token st) (\<lambda>_.
             rbind (validate_staged_identity name sn st) (\<lambda>_.
             rbind (matching_reservation name sn st) (\<lambda>reserved.
             rbind (replacement_allowed io (fs_lookup ps (fs_root st)) expected) (\<lambda>_.
             Inr (ps, reserved)))))))))")
  case (Inr v)
  obtain ps reserved where v: "v = (ps, reserved)" by fastforce
  have h: "validated_render_destination s st = Inr ps" "require_render_mutation_authority_locked (render_key ps) token st = Inr ()"
    using Inr v by (auto simp: rbind_eq_Inr split: if_splits)
  have "2 \<le> length ps" using assms(2) destination_Inr(1) [OF h(1)] by (simp add: render_asset_def)
  then obtain x rs where ps: "ps = RENDERS # x # rs"
    using destination_Inr(3) [OF h(1)] by (auto simp: numeral_2_eq_2 Suc_le_length_iff)
  have "x \<noteq> ob" using h(2) mutation_denied [OF assms(1), of token] by (auto simp: ps render_key_object)
  then have ne: "[RENDERS, x] \<noteq> [RENDERS, ob]" by simp
  obtain r1 st1 where rp: "replace_path io name ps st = (r1, st1)" by (metis surj_pair)
  have s1: "untouched ob st st1" using untouched_replace_path [OF ne, of st io name rs] rp by (simp add: ps)
  then have "untouched ob st (store_put io None ps st1)" using untouched_trans untouched_store_put [OF ne] unfolding ps by blast
  then show ?thesis using s1
    by (auto simp: replace_staged_render_def Inr v rp Let_def untouched_release untouched_used split: sum.splits)
qed (simp add: replace_staged_render_def)

lemma untouched_delete_locked:
  assumes "held ob st" "render_subtree ps"
  shows "untouched ob st (snd (delete_render_subtree_locked io token ps st))"
proof -
  have "untouched ob st (snd (remove_render_tree io ps st))"
    if a: "\<not> length ps < MIN_OBJECT_KEY_PARTS" "delete_authority (render_key ps) token st = Inr ()"
  proof -
    obtain x rs where ps: "ps = RENDERS # x # rs"
      using assms(2) a(1) by (auto simp: render_subtree_def MIN_OBJECT_KEY_PARTS_def not_less numeral_2_eq_2 Suc_le_length_iff)
    have "x \<noteq> ob" using a(2) delete_denied [OF assms(1), of token] by (auto simp: ps render_key_object)
    then have "fs_lookup [RENDERS, ob] (fs_put now v ps (fs_root st)) = fs_lookup [RENDERS, ob] (fs_root st)" for now v
      using untouched_put [of RENDERS x ob] by (simp add: ps)
    then show ?thesis
      by (simp add: remove_render_tree_def untouched_def forget_object_def Let_def split: sum.splits)
  qed
  then show ?thesis
    by (auto simp: delete_render_subtree_locked_def rbind_eq_Inr split: sum.splits if_splits)
qed

lemma subtree_Inr: "validated_render_subtree s st = Inr ps \<Longrightarrow> render_subtree ps"
  using render_parts_shape [of s MIN_RENDER_SUBTREE_PARTS]
  by (auto simp: validated_render_subtree_def render_subtree_def render_corrupted_def MIN_RENDER_SUBTREE_PARTS_def Let_def split: if_splits)

lemma lease_frames:
  "fs_root (snd (release_asset_lease key token st)) = fs_root st"
  "fs_root (snd (register_render_transaction_locked key t st)) = fs_root st"
  "asset_leases (snd (register_render_transaction_locked key t st)) = asset_leases st"
  by (auto simp: release_asset_lease_def register_render_transaction_locked_def split: option.splits)

lemma untouched_begin:
  assumes "held ob st"
  shows "untouched ob st (snd (begin_render_transaction io owner token s f st))"
proof -
  have rel: "untouched ob st (release_suppressed key t x) = untouched ob st x" for key t x
    by (simp add: untouched_def release_suppressed_def lease_frames)
  have reg: "untouched ob st st1" "held ob st1" if "register_render_transaction_locked key token st = (r, st1)" for key r st1
    using that lease_frames(2,3) [of key token st] assms by (auto simp: untouched_def held_def)
  have "untouched ob st st2"
    if "register_render_transaction_locked key token st = (r, st1)" "delete_render_subtree_locked io (Some token) ps st1 = (r2, st2)"
       "validated_render_subtree s st = Inr ps" for key r st1 r2 st2 ps
    using untouched_trans [OF reg(1) [OF that(1)]] untouched_delete_locked [OF reg(2) [OF that(1)] subtree_Inr [OF that(3)]] that(2)
    by (metis snd_conv)
  then show ?thesis using reg
    by (auto simp: begin_render_transaction_def Let_def rel rbind_eq_Inr split: sum.splits prod.splits bool.splits)
qed

lemma untouched_close: "untouched ob st (snd (snd (close_transaction r (tx, st1)))) = untouched ob st st1"
  using lease_frames(1) [of "render_key (tx_subtree tx)" "Some (tx_token tx)" st1]
  by (auto simp: close_transaction_def untouched_def split: sum.splits prod.splits)

lemma untouched_rollback:
  assumes "held ob st" "render_subtree (tx_subtree tx)"
  shows "untouched ob st (snd (snd (transaction_rollback io ctx (tx, st))))"
  using untouched_delete_locked [OF assms, of io "Some (tx_token tx)"]
  by (auto simp: transaction_rollback_def untouched_close split: sum.splits prod.splits)

lemma untouched_commit_transaction:
  assumes "held ob st" "render_subtree (tx_subtree tx)"
  shows "untouched ob st (snd (snd (transaction_commit io ctx (tx, st))))"
  using untouched_rollback [OF assms, of io ctx]
  by (auto simp: transaction_commit_def untouched_close split: sum.splits prod.splits option.splits fsnode.splits)

lemma untouched_reset:
  assumes "held ob st" "render_subtree (tx_subtree tx)"
  shows "untouched ob st (snd (snd (transaction_reset io ctx (tx, st))))"
  using untouched_delete_locked [OF assms, of io "Some (tx_token tx)"]
  by (auto simp: transaction_reset_def split: sum.splits prod.splits)

lemma untouched_prune_loop:
  assumes "held ob st" "\<forall>c\<in>set cands. \<exists>q x. so_key c = object_key q x \<and> key_path (so_key c) = [q, x]"
  shows "untouched ob st (snd (prune_loop io cands ws fb fo st))"
  using assms
proof (induction cands arbitrary: ws fb fo st)
  case (Cons c rest)
  obtain r st1 where e: "remove_storage_path io (so_key c) st = (r, st1)" by (metis surj_pair)
  have h1: "held ob st1"
    using e Cons.prems(1) by (auto simp: held_def remove_storage_path_def replace_object_def Let_def split: option.splits)
  then have h2: "held ob (forget_object (so_key c) st1)" by (simp add: held_def forget_object_def)
  have ih: "untouched ob x (snd (prune_loop io rest ws' fb' fo' x))" if "held ob x" for x ws' fb' fo'
    using Cons.IH [OF that] Cons.prems(2) by simp
  have s1: "untouched ob st st1" if "\<not> leased st (so_key c)"
  proof -
    obtain q x where k: "so_key c = object_key q x" "key_path (so_key c) = [q, x]" using Cons.prems(2) by auto
    have "[q, x] \<noteq> [RENDERS, ob]" using that Cons.prems(1) k(1) by (auto simp: leased_def held_def)
    then show ?thesis using untouched_remove_path [OF k(2), of ob st io] e by simp
  qed
  have "untouched ob st (snd (prune_loop io rest ws' fb' fo' (forget_object (so_key c) st1)))"
    if "\<not> leased st (so_key c)" for ws' fb' fo'
    using untouched_trans [OF untouched_trans [OF s1 [OF that] untouched_forget] ih [OF h2]] .
  then show ?case using s1 ih [OF Cons.prems(1)] by (auto simp: e split: sum.splits)
qed simp

lemma clock_frame: "observe_clock io s st = (r, st1) \<Longrightarrow> fs_root st1 = fs_root st \<and> asset_leases st1 = asset_leases st"
  using observe_clock_frame by fastforce

lemma finish_root: "fs_root (snd (finish_prune_locked fin st)) = fs_root st"
proof -
  have "fs_root (snd (close_admission b al x)) = fs_root x" for b al x
    by (simp add: close_admission_def split: option.splits)
  then have "fs_root (snd (record_unsatisfied_prune bs x)) = fs_root x" for bs x
    by (simp add: record_unsatisfied_prune_def split: sum.splits)
  then have r: "fs_root x' = fs_root x" if "record_unsatisfied_prune bs x = (r, x')" for bs x r x' using that by (metis snd_conv)
  show ?thesis by (auto simp: finish_prune_locked_def Let_def split: sum.splits prod.splits dest: r)
qed

lemma untouched_prune:
  assumes "held ob st" "fs_wf (fs_root st)"
  shows "untouched ob st (snd (prune io p clock st))"
proof -
  have "untouched ob st (snd (prune_locked io p clock cap st))" for cap
  proof -
    obtain r st1 where o: "observe_clock io clock st = (r, st1)" by (metis surj_pair)
    have s1: "untouched ob st st1" "held ob st1" "fs_wf (fs_root st1)"
      using clock_frame [OF o] assms by (auto simp: untouched_def held_def)
    have "untouched ob st (snd (prune_locked io p clock cap st))" if "r = Inr obs" "stored_objects st1 = Inr objs" for obs objs
    proof -
      let ?ws = "prune_working_set p cap (utc_now_ns clock) obs objs"
      obtain r2 st2 where u: "prune_unleased io ?ws st1 = (r2, st2)" by (metis surj_pair)
      have "\<forall>c\<in>set objs. \<exists>q x. so_key c = object_key q x \<and> key_path (so_key c) = [q, x]"
        using stored_objects_keys(2) [OF s1(3) that(2)] by metis
      then have "untouched ob st1 st2"
        using untouched_prune_loop [OF s1(2), of "sort_key stored_object_order (ws_objects ?ws)" io ?ws 0 0] u
        by (simp add: prune_unleased_def prune_working_set_def)
      then have "untouched ob st st2" using s1(1) untouched_trans by blast
      then show ?thesis using that finish_root
        by (auto simp: prune_locked_def o u Let_def untouched_used untouched_def split: sum.splits prod.splits)
    qed
    then show ?thesis using s1 by (auto simp: prune_locked_def o split: sum.splits)
  qed
  then show ?thesis by (auto simp: prune_def split: sum.splits)
qed

lemma untouched_call:
  assumes "held ob st" "fs_wf (fs_root st)" "\<not> staged_elsewhere c"
  shows "untouched ob st (run_call io c st)"
proof (cases c)
  case (CPrune p clock)
  then show ?thesis using untouched_prune [OF assms(1,2)] by simp
next
  case CReconcile
  then show ?thesis using untouched_prune [OF assms(1,2)]
    by (auto simp: reconcile_lifecycle_def split: option.splits sum.splits)
qed (use call_quota_part [OF assms(3), of io st] in \<open>simp_all add: quota_part_def untouched_root\<close>)

lemma untouched_append: "untouched ob st (append_staged io name data st)"
  by (auto simp: append_staged_def untouched_staged split: option.splits fsnode.splits)

lemma staging_roots:
  "fs_root (snd (reserve_staging_bytes name a st)) = fs_root st" "fs_root (snd (release_staging_bytes name a st)) = fs_root st"
  by (auto simp: reserve_staging_bytes_def release_staging_bytes_def set_staging_def split: option.splits)

lemma untouched_write: "untouched ob st (snd (snd (writer_write io guard data (w, st))))"
proof -
  obtain r st1 where re: "reserve_staging_bytes (sw_name w) (int (length data)) st = (r, st1)" by (metis surj_pair)
  have r1: "fs_root st1 = fs_root st" using staging_roots(1) [of "sw_name w" "int (length data)" st] re by simp
  have r2: "fs_root st2 = fs_root st" if "release_staging_bytes (sw_name w) a st1 = (x, st2)" for a x st2
    using staging_roots(2) [of "sw_name w" a st1] that r1 by simp
  have "untouched ob st (append_staged io (sw_name w) d st2)" if "release_staging_bytes (sw_name w) a st1 = (x, st2)" for a x st2 d
    using untouched_trans [OF untouched_root [OF r2 [OF that]] untouched_append] .
  then show ?thesis using r1 r2
    by (auto simp: writer_write_def re untouched_root split: sum.splits prod.splits)
qed

lemma untouched_exit: "untouched ob st (snd (snd (writer_exit io guard (w, st))))"
proof -
  have "untouched ob st (pop_staging name st1) = untouched ob st st1" for name st1
    by (simp add: pop_staging_def untouched_def)
  then show ?thesis using untouched_staged [of ob st io None "sw_name w"]
    by (auto simp: writer_exit_def discard_staged_file_def split: sum.splits)
qed

lemma untouched_stage: "untouched ob st (snd (stage io guard sfx st))"
proof -
  have "untouched ob st ((store_put io v (staged_path n) st)\<lparr>staging_reservations := m\<rparr>)" for v n m
    using untouched_staged [of ob st io v n] by (simp add: untouched_def)
  then show ?thesis by (auto simp: stage_def Let_def split: sum.splits)
qed

lemma snapshot_digest: "writer_snapshot io guard w = Inr sn \<Longrightarrow>
  sn_sha256 sn = hexdigest (sha256 (sw_data w)) \<and> sn_size sn = int (length (sw_data w)) \<and> sha256 (fd_content io) = sha256 (sw_data w)"
  by (auto simp: writer_snapshot_def rbind_eq_Inr Let_def split: if_splits)

text \<open>A document identifier is longer than a render identifier.\<close>

lemma document_not_render: "is_render_id ob \<Longrightarrow> document_object_id ns (hexdigest (sha256 d)) \<noteq> ob"
  by (auto simp: document_object_id_def is_render_id_def RENDER_ID_LENGTH_def length_hexdigest length_sha256)

lemma untouched_writer:
  assumes "held ob st" "is_render_id ob"
  shows "untouched ob st (snd (snd (writer_commit io guard lower ns fn mt (w, st))))"
    "untouched ob st (snd (snd (writer_commit_render io guard subtree token s (w, st))))"
    "render_asset s \<Longrightarrow> untouched ob st (snd (snd (writer_replace_render io guard subtree token s expected (w, st))))"
proof -
  have "untouched ob st (snd (commit_staged_file io lower (sw_name w) ns fn mt sn st))" if "writer_snapshot io guard w = Inr sn" for sn
    using untouched_document [of ns sn ob st io lower "sw_name w" fn mt] document_not_render [OF assms(2)] snapshot_digest [OF that]
      hexdigest_no_slash by simp
  then show "untouched ob st (snd (snd (writer_commit io guard lower ns fn mt (w, st))))"
    by (auto simp: writer_commit_def split: sum.splits prod.splits)
  show "untouched ob st (snd (snd (writer_commit_render io guard subtree token s (w, st))))"
    using untouched_commit_render [OF assms(1)]
    by (auto simp: writer_commit_render_def split: sum.splits prod.splits) (metis snd_conv)
  show "untouched ob st (snd (snd (writer_replace_render io guard subtree token s expected (w, st))))" if "render_asset s"
    using untouched_replace_render [OF assms(1) that]
    by (auto simp: writer_replace_render_def split: sum.splits prod.splits) (metis snd_conv)
qed

lemma step_untouched:
  "store_step st st' \<Longrightarrow> held ob st \<Longrightarrow> is_render_id ob \<Longrightarrow> fs_wf (fs_root st) \<Longrightarrow> untouched ob st st'"
proof (induction rule: store_step.induct)
  case (delete st io s)
  then show ?case using untouched_delete_locked [of ob st] subtree_Inr
    by (auto simp: delete_render_subtree_def rbind_eq_Inr split: sum.splits)
qed (simp_all add: untouched_call untouched_stage untouched_root staging_roots untouched_append untouched_write untouched_exit
      untouched_writer untouched_begin untouched_rollback untouched_commit_transaction untouched_reset)

lemma example_commit: "\<exists>a w' st'. writer_commit (example_stage_io [1, 2, 3]) (Inr ()) id (codes ''documents'') (codes ''f.pdf'')
    (codes ''application/pdf'') (example_writer [1, 2, 3], example_staging_store) = (Inr a, (w', st'))"
proof -
  let ?io = "example_stage_io [1, 2, 3]" let ?st = example_staging_store
  define h where "h = hexdigest (sha256 [1, 2, 3])"
  define sn where "sn = \<lparr>sn_sha256 = h, sn_size = 3, sn_device = 1, sn_inode = 1, sn_mtime_ns = 0, sn_ctime_ns = 0\<rparr>"
  have snap: "writer_snapshot ?io (Inr ()) (example_writer [1, 2, 3]) = Inr sn"
    by (simp add: writer_snapshot_def example_stage_io_def example_writer_def example_stat_def fingerprint_def sn_def h_def)
  have v: "validate_namespace (codes ''documents'') = Inr (codes ''documents'')"
    "validate_filename (codes ''f.pdf'') = Inr (codes ''f.pdf'')"
    "validate_media_type id (codes ''application/pdf'') = Inr (codes ''application/pdf'')"
    by code_simp+
  have "\<exists>a st'. commit_staged_file ?io id (codes ''stage-ab'') (codes ''documents'') (codes ''f.pdf'') (codes ''application/pdf'')
      sn ?st = (Inr a, st')"
    by (simp add: commit_staged_file_def v verify_store_root_identity_def Let_def document_object_id_def ensure_private_directory_path_def
        validate_staged_identity_def staged_identity_ok_def reconcile_staged_size_locked_def follow_def
        publish_new_document_locked_def ensure_insertion_sequence_def replace_path_def published_node_def published_identity_ok_def
        release_staged_reservation_locked_def directory_at_def store_put_def staged_path_def STAGING_DIR_def
        example_staging_store_def example_store_def example_stage_io_def example_store_io_def example_stat_def
        sn_def ALLOWED_NAMESPACES_def dict_get_def dict_put_def dict_del_def del: codes_simps One_nat_def)
  then show ?thesis using snap by (auto simp: writer_commit_def example_writer_def)
qed

section \<open>Properties\<close>

text \<open>
  C28. A document commit that returns is correct. If the descriptor is the staged file's and nobody tampers
  with the moved file, the returned artifact names the file under its namespace whose identifier is the digest
  of the written bytes, what is stored there has that digest, its size is the number of bytes written,
  the used bytes grow by that size exactly when the file was not there before, and the writer's whole
  reservation is given back.
\<close>

theorem committed_document_is_stored:
  assumes "writer_commit io guard lower ns fn mt (w, st) = (Inr a, (w', st'))" "quota_inv st"
    "map_of (staging_reservations st) (sw_name w) = Some r" "published_view io = Pair"
    "fs_lookup (staged_path (sw_name w)) (fs_root st) = Some (RegularFile s (fd_content io))"
  shows "artifact_path a = [ns, object_id a, fn]
    \<and> object_id a = document_object_id ns (hexdigest (sha256 (sw_data w)))
    \<and> artifact_sha256 a = hexdigest (sha256 (sw_data w)) \<and> artifact_size a = int (length (sw_data w))
    \<and> sha256_path (follow io (fs_lookup (artifact_path a) (fs_root st'))) = Inr (artifact_sha256 a)
    \<and> used_bytes st' = used_bytes st
        + (if follow io (fs_lookup (artifact_path a) (fs_root st)) = None then artifact_size a else 0)
    \<and> reserved_bytes st' = reserved_bytes st - r \<and> map_of (staging_reservations st') (sw_name w) = None \<and> \<not> sw_open w'"
proof -
  obtain sn where sn: "writer_snapshot io guard w = Inr sn"
    "commit_staged_file io lower (sw_name w) ns fn mt sn st = (Inr a, st')" "w' = w\<lparr>sw_open := False\<rparr>"
    using assms(1) by (auto simp: writer_commit_def split: if_splits sum.splits prod.splits)
  note d = snapshot_digest [OF sn(1)]
  have ns: "SLASH \<notin> set (sn_sha256 sn)" using d hexdigest_no_slash by simp
  show ?thesis
    using commit_document_result [OF sn(2) quota_wf [OF assms(2)] assms(3) ns assms(4,5)] d sn(3) by auto
qed

theorem committed_document_is_stored_witness:
  "\<exists>a w' st'. writer_commit (example_stage_io [1, 2, 3]) (Inr ()) id (codes ''documents'') (codes ''f.pdf'')
       (codes ''application/pdf'') (example_writer [1, 2, 3], example_staging_store) = (Inr a, (w', st'))
     \<and> artifact_sha256 a = hexdigest (sha256 [1, 2, 3]) \<and> reserved_bytes st' = 0"
proof -
  obtain a w' st' where c: "writer_commit (example_stage_io [1, 2, 3]) (Inr ()) id (codes ''documents'') (codes ''f.pdf'')
       (codes ''application/pdf'') (example_writer [1, 2, 3], example_staging_store) = (Inr a, (w', st'))"
    using example_commit by blast
  have s: "map_of (staging_reservations example_staging_store) (sw_name (example_writer [1, 2, 3])) = Some 3"
    "fs_lookup (staged_path (sw_name (example_writer [1, 2, 3]))) (fs_root example_staging_store)
       = Some (RegularFile (example_stat 384 0) (fd_content (example_stage_io [1, 2, 3])))"
    "reserved_bytes example_staging_store = 3" "published_view (example_stage_io [1, 2, 3]) = Pair"
    by (simp_all add: example_staging_store_def example_writer_def example_stage_io_def staged_path_def STAGING_DIR_def)
  show ?thesis
    using committed_document_is_stored [OF c example_staging_quota s(1,4,2)] c s(3) by (auto simp: example_writer_def)
qed

text \<open>
  C29. A render that a reader holds does not change. As long as the reader's lease on a render identifier is counted,
  no call whatsoever changes anything in that render's directory: not a commit or a replacement by a transaction
  or outside one, not a deletion, a rollback, a reset or a prune.
\<close>

theorem reader_lease_protects_render:
  assumes "is_render_id ob" "quota_inv st"
    "(\<lambda>s s'. store_step s s' \<and> 0 < dict_get (asset_leases s) (object_key RENDERS ob) 0)\<^sup>*\<^sup>* st st'"
  shows "fs_lookup [RENDERS, ob] (fs_root st') = fs_lookup [RENDERS, ob] (fs_root st)"
proof -
  have "fs_lookup [RENDERS, ob] (fs_root st') = fs_lookup [RENDERS, ob] (fs_root st) \<and> quota_inv st'"
    using assms(3)
  proof (induction rule: rtranclp_induct)
    case (step y z)
    then show ?case using step_untouched [of y z ob] step_quota [of y z] quota_wf [of y] assms(1)
      by (auto simp: held_def untouched_def)
  qed (simp add: assms(2))
  then show ?thesis ..
qed

theorem reader_lease_protects_render_witness:
  "fs_lookup [RENDERS, example_render] (fs_root (snd (delete_render_subtree (example_stage_io [])
      (codes ''renders/'' @ example_render) example_staging_store))) = Some (example_object 5 [9, 9])"
proof -
  have l: "0 < dict_get (asset_leases example_staging_store) (object_key RENDERS example_render) 0" "is_render_id example_render"
    "fs_lookup [RENDERS, example_render] (fs_root example_staging_store) = Some (example_object 5 [9, 9])"
    by code_simp+
  show ?thesis
    using reader_lease_protects_render [OF l(2) example_staging_quota, of "snd (delete_render_subtree (example_stage_io [])
      (codes ''renders/'' @ example_render) example_staging_store)"] l(1,3) store_step.delete by auto
qed

end
