(* ===== verification/Nplg_Publish.thy ===== *)
theory Nplg_Publish
  imports Nplg_Commit
begin

text \<open>
  Whole publications (\<open>put_bytes\<close>, \<open>put_render_bytes\<close>, \<open>replace_render_bytes_if_matches\<close>): each stages a file, writes it, commits it
  and leaves the writer's context. The lemmas follow the reservations of the other writers through every step, and
  the result is that the publication gives back what it had reserved, whatever its outcome.
\<close>

section \<open>Reservations are given back\<close>

definition others :: "pystr \<Rightarrow> Store \<Rightarrow> (pystr \<times> int) list" where
  "others name st = dict_del (staging_reservations st) name"

lemma dict_del_set [simp]: "dict_del (dict_set d k v) k = dict_del d k"
  by (induction d k v rule: dict_set.induct) (auto simp: dict_del_def)

lemma dict_del_idem [simp]: "dict_del (dict_del d k) k = dict_del d k"
  by (simp add: dict_del_def)

lemma others_basic:
  "others name (set_staging name v delta st) = others name st"
  "others name (release_staged_reservation_locked name r st) = others name st"
  "others name (pop_staging name st) = others name st"
  "others name (store_put io node path st) = others name st"
  "others name (st\<lparr>used_bytes := u\<rparr>) = others name st"
  "others name (append_staged io n d st) = others name st"
  by (simp_all add: others_def set_staging_def release_staged_reservation_locked_def pop_staging_def store_put_def
      append_staged_def split: option.splits fsnode.splits)

lemma others_same: "staging_reservations st' = staging_reservations st \<Longrightarrow> others name st' = others name st"
  by (simp add: others_def)

lemma others_reserve: "others name (snd (reserve_staging_bytes name a st)) = others name st"
  "others name (snd (release_staging_bytes name a st)) = others name st"
  "others name (snd (reconcile_staged_size_locked name a st)) = others name st"
  by (auto simp: reserve_staging_bytes_def release_staging_bytes_def reconcile_staged_size_locked_def others_basic split: option.splits)

lemma others_write:
  "others (sw_name w) (snd (snd (writer_write io guard data (w, st)))) = others (sw_name w) st"
  "sw_name (fst (snd (writer_write io guard data (w, st)))) = sw_name w"
proof -
  obtain r st1 where re: "reserve_staging_bytes (sw_name w) (int (length data)) st = (r, st1)" by (metis surj_pair)
  have r1: "others (sw_name w) st1 = others (sw_name w) st" using others_reserve(1) [of "sw_name w" "int (length data)" st] re by simp
  have r2: "others (sw_name w) st2 = others (sw_name w) st" if "release_staging_bytes (sw_name w) a st1 = (x, st2)" for a x st2
    using others_reserve(2) [of "sw_name w" a st1] that r1 by simp
  show "others (sw_name w) (snd (snd (writer_write io guard data (w, st)))) = others (sw_name w) st"
    "sw_name (fst (snd (writer_write io guard data (w, st)))) = sw_name w"
    using r1 r2 by (auto simp: writer_write_def re others_basic split: sum.splits prod.splits)
qed

lemma others_replace_path: "others name (snd (replace_path io n dst st)) = others name st"
  by (simp add: replace_path_def others_basic split: option.splits)

lemma others_undo: "others name (snd (undo_publication io dst key e st)) = others name st"
proof -
  have "staging_reservations (snd (remove_storage_path sx key x)) = staging_reservations x" for sx x
    by (simp add: remove_storage_path_def replace_object_def Let_def split: option.splits)
  then have "others name (snd (remove_storage_path (sio io) key (forget_object key (store_put io None dst st)))) = others name st"
    by (simp add: others_def forget_object_def store_put_def)
  then show ?thesis by (auto simp: undo_publication_def split: sum.splits prod.splits)
qed

lemma others_ensure:
  "others name (snd (ensure_insertion_sequence io key st)) = others name st"
  "others name (snd (ensure_private_directory_path io path ctx st)) = others name st"
  "others name (snd (ensure_directories io path cs st)) = others name st"
proof -
  have seq: "others name (snd (ensure_insertion_sequence io key st)) = others name st" for st
    using ensure_seq_frame(1) [of io key st] by (metis others_same surj_pair snd_conv)
  have dir: "others name (snd (ensure_private_directory_path io path ctx st)) = others name st" for path ctx st
    using ensure_dir_frame(1) [of io path ctx st] by (metis others_same surj_pair snd_conv)
  have dir': "others name st1 = others name st" if "ensure_private_directory_path io path ctx st = (r, st1)" for path ctx st r st1
    using dir [of path ctx st] that by simp
  show "others name (snd (ensure_insertion_sequence io key st)) = others name st"
    "others name (snd (ensure_private_directory_path io path ctx st)) = others name st" by (rule seq, rule dir)
  show "others name (snd (ensure_directories io path cs st)) = others name st"
    by (induction cs arbitrary: path st) (auto split: sum.splits prod.splits dest: dir')
qed

lemma others_publish:
  "others name (snd (consume_existing_document_locked io name dst key sn st)) = others name st"
  "others name (snd (publish_new_document_locked io name dst key sn st)) = others name st"
  "others name (snd (consume_existing_render io name dst key sn r st)) = others name st"
  "others name (snd (publish_new_render io name dst key sn r st)) = others name st"
proof -
  obtain x st1 where e: "ensure_insertion_sequence io key st = (x, st1)" by (metis surj_pair)
  obtain y st2 where rp: "replace_path io name dst st1 = (y, st2)" by (metis surj_pair)
  have o1: "others name st1 = others name st" using others_ensure(1) [of name io key st] e by simp
  have o2: "others name st2 = others name st" using others_replace_path [of name io name dst st1] rp o1 by simp
  show "others name (snd (consume_existing_document_locked io name dst key sn st)) = others name st"
    "others name (snd (consume_existing_render io name dst key sn r st)) = others name st"
    using o1 by (auto simp: consume_existing_document_locked_def consume_existing_render_def e others_basic split: sum.splits)
  show "others name (snd (publish_new_document_locked io name dst key sn st)) = others name st"
    "others name (snd (publish_new_render io name dst key sn r st)) = others name st"
    using o1 o2 by (auto simp: publish_new_document_locked_def publish_new_render_def e rp others_basic others_undo split: sum.splits)
qed

lemma others_document: "others name (snd (commit_staged_file io lower name ns fn mt sn st)) = others name st"
proof (cases "rbind (verify_store_root_identity (sio io) 0) (\<lambda>_.
           rbind (validate_namespace ns) (\<lambda>ns.
           rbind (validate_filename fn) (\<lambda>fn.
           rbind (validate_media_type lower mt) (\<lambda>mt. Inr (ns, fn, mt)))))")
  case (Inr v)
  obtain ns' fn' mt' where v: "v = (ns', fn', mt')" by (metis prod_cases3)
  let ?oid = "document_object_id ns' (sn_sha256 sn)"
  obtain r1 st1 where e1: "ensure_private_directory_path io [ns', ?oid] ''document object'' st = (r1, st1)" by (metis surj_pair)
  obtain r2 st2 where e2: "reconcile_staged_size_locked name (sn_size sn) st1 = (r2, st2)" by (metis surj_pair)
  have o1: "others name st1 = others name st" using others_ensure(2) [of name io "[ns', ?oid]" _ st] e1 by (metis snd_conv)
  have o2: "others name st2 = others name st" using others_reserve(3) [of name "sn_size sn" st1] e2 o1 by simp
  have "others name st3 = others name st"
    if "consume_existing_document_locked io name d k sn st2 = (x, st3) \<or> publish_new_document_locked io name d k sn st2 = (x, st3)" for d k x st3
    using that others_publish(1,2) [of name io d k sn st2] o2 by auto
  then show ?thesis using o1 o2
    by (auto simp: commit_staged_file_def Inr v Let_def e1 e2 split: sum.splits prod.splits)
qed (simp add: commit_staged_file_def)

lemma others_render: "others name (snd (commit_staged_render io guard subtree token name s sn st)) = others name st"
proof -
  have d: "others name st1 = others name st" if "ensure_directories io base cs st = (r1, st1)" for base cs r1 st1
    using that others_ensure(3) [of name io base cs st] by simp
  have c: "others name st2 = others name st"
    if "ensure_directories io base cs st = (r1, st1)" "consume_existing_render io name ps key sn reserved st1 = (r2, st2)"
    for base cs r1 ps key reserved st1 r2 st2 using that(2) d [OF that(1)] others_publish(3) [of name io ps key sn reserved st1] by simp
  have p: "others name st2 = others name st"
    if "ensure_directories io base cs st = (r1, st1)" "publish_new_render io name ps key sn reserved st1 = (r2, st2)"
    for base cs r1 ps key reserved st1 r2 st2 using that(2) d [OF that(1)] others_publish(4) [of name io ps key sn reserved st1] by simp
  show ?thesis
    by (auto simp: commit_staged_render_def split: sum.splits prod.splits dest: d c p)
qed

lemma others_replace: "others name (snd (replace_staged_render io guard subtree token name s expected sn st)) = others name st"
proof -
  have "others name st1 = others name st" if "replace_path io name ps st = (r1, st1)" for ps r1 st1
    using that others_replace_path [of name io name ps st] by simp
  then show ?thesis
    by (auto simp: replace_staged_render_def Let_def others_basic split: sum.splits prod.splits)
qed

lemma others_writer:
  "others (sw_name w) (snd (snd (writer_commit io guard lower ns fn mt (w, st)))) = others (sw_name w) st"
  "others (sw_name w) (snd (snd (writer_commit_render io guard subtree token s (w, st)))) = others (sw_name w) st"
  "others (sw_name w) (snd (snd (writer_replace_render io guard subtree token s expected (w, st)))) = others (sw_name w) st"
  "sw_name (fst (snd (writer_commit io guard lower ns fn mt (w, st)))) = sw_name w"
  "sw_name (fst (snd (writer_commit_render io guard subtree token s (w, st)))) = sw_name w"
  "sw_name (fst (snd (writer_replace_render io guard subtree token s expected (w, st)))) = sw_name w"
proof -
  have d: "others n st' = others n st" if "commit_staged_file io lower n ns fn mt sn st = (r, st')" for n sn r st'
    using that others_document [of n io lower ns fn mt sn st] by simp
  have c: "others n st' = others n st" if "commit_staged_render io guard subtree token n s sn st = (r, st')" for n sn r st'
    using that others_render [of n io guard subtree token s sn st] by simp
  have p: "others n st' = others n st" if "replace_staged_render io guard subtree token n s expected sn st = (r, st')" for n sn r st'
    using that others_replace [of n io guard subtree token s expected sn st] by simp
  show "others (sw_name w) (snd (snd (writer_commit io guard lower ns fn mt (w, st)))) = others (sw_name w) st"
    "others (sw_name w) (snd (snd (writer_commit_render io guard subtree token s (w, st)))) = others (sw_name w) st"
    "others (sw_name w) (snd (snd (writer_replace_render io guard subtree token s expected (w, st)))) = others (sw_name w) st"
    "sw_name (fst (snd (writer_commit io guard lower ns fn mt (w, st)))) = sw_name w"
    "sw_name (fst (snd (writer_commit_render io guard subtree token s (w, st)))) = sw_name w"
    "sw_name (fst (snd (writer_replace_render io guard subtree token s expected (w, st)))) = sw_name w"
    by (auto simp: writer_commit_def writer_commit_render_def writer_replace_render_def split: sum.splits prod.splits dest: d c p)
qed

text \<open>A body that keeps the quota and touches no reservation but its writer's own.\<close>

definition well_behaved :: "'a writer_op \<Rightarrow> bool" where
  "well_behaved body =
     (\<forall>w st. (quota_inv st \<longrightarrow> quota_inv (snd (snd (body (w, st))))) \<and> sw_name (fst (snd (body (w, st)))) = sw_name w
             \<and> others (sw_name w) (snd (snd (body (w, st)))) = others (sw_name w) st)"

lemma well_behaved_bind:
  assumes "well_behaved m" "\<And>a. well_behaved (f a)"
  shows "well_behaved (obind m f)"
  unfolding well_behaved_def
proof (intro allI)
  fix w st
  obtain r w1 st1 where m: "m (w, st) = (r, (w1, st1))" by (metis surj_pair)
  have h: "quota_inv st \<Longrightarrow> quota_inv st1" "sw_name w1 = sw_name w" "others (sw_name w) st1 = others (sw_name w) st"
    using assms(1) m by (auto simp: well_behaved_def dest!: spec [of _ w] spec [of _ st])
  show "(quota_inv st \<longrightarrow> quota_inv (snd (snd (obind m f (w, st))))) \<and> sw_name (fst (snd (obind m f (w, st)))) = sw_name w
      \<and> others (sw_name w) (snd (snd (obind m f (w, st)))) = others (sw_name w) st"
  proof (cases r)
    case (Inr a)
    have "(quota_inv st1 \<longrightarrow> quota_inv (snd (snd (f a (w1, st1))))) \<and> sw_name (fst (snd (f a (w1, st1)))) = sw_name w1
             \<and> others (sw_name w1) (snd (snd (f a (w1, st1)))) = others (sw_name w1) st1"
      using assms(2) [of a] unfolding well_behaved_def by blast
    then show ?thesis using h Inr m by (simp add: obind_def)
  qed (use h m in \<open>simp add: obind_def\<close>)
qed

lemma well_behaved_calls:
  "well_behaved (writer_write io guard data)"
  "well_behaved (writer_commit io guard lower ns fn mt)"
  "well_behaved (writer_commit_render io guard subtree token s)"
  "render_asset s \<Longrightarrow> well_behaved (writer_replace_render io guard subtree token s expected)"
  unfolding well_behaved_def
  using write_quota writer_commits_quota others_write others_writer by auto

lemma with_staged_balanced:
  assumes "quota_inv st" "map_of (staging_reservations st) (codes ''stage-'' @ hexdigest (fresh_bytes io) @ sfx) = None"
    "well_behaved body"
  shows "quota_inv (snd (with_staged io sfx body st))
    \<and> staging_reservations (snd (with_staged io sfx body st)) = staging_reservations st
    \<and> reserved_bytes (snd (with_staged io sfx body st)) = reserved_bytes st"
proof (cases "stage io (Inr ()) sfx st")
  case (Pair r st1)
  show ?thesis
  proof (cases r)
    case (Inl e)
    then have "st1 = st" using Pair by (auto simp: stage_def Let_def split: sum.splits if_splits)
    then show ?thesis using assms(1) Pair Inl by (simp add: with_staged_def)
  next
    case (Inr w)
    have q1: "quota_inv st1" using stage_quota [OF assms(1,2), of "Inr ()"] Pair by simp
    have w: "sw_name w = codes ''stage-'' @ hexdigest (fresh_bytes io) @ sfx"
      "staging_reservations st1 = dict_set (staging_reservations st) (sw_name w) 0"
      using Pair Inr by (auto simp: stage_def Let_def raised_def split: sum.splits if_splits)
    obtain r2 w2 st2 where b: "body (w, st1) = (r2, (w2, st2))" by (metis surj_pair)
    have h: "quota_inv st2" "sw_name w2 = sw_name w" "others (sw_name w) st2 = others (sw_name w) st1"
      using assms(3) b q1 by (auto simp: well_behaved_def dest!: spec [of _ w] spec [of _ st1])
    obtain r3 w3 st3 where x: "writer_exit io (Inr ()) (w2, st2) = (r3, (w3, st3))" by (metis surj_pair)
    have q3: "quota_inv st3" using exit_quota [OF h(1), of io "Inr ()" w2] x by simp
    have "staging_reservations st3 = others (sw_name w2) st2"
      using x by (auto simp: writer_exit_def discard_staged_file_def pop_staging_def store_put_def others_def split: sum.splits)
    also have "\<dots> = staging_reservations st"
      using h(2,3) w assms(2) by (simp add: others_def dict_del_absent)
    finally have s: "staging_reservations st3 = staging_reservations st" .
    moreover have "reserved_bytes st3 = reserved_bytes st" using q3 assms(1) s by (simp add: quota_inv_def staging_inv_def)
    moreover have "snd (with_staged io sfx body st) = st3"
      using Pair Inr b x by (auto simp: with_staged_def split: sum.splits)
    ultimately show ?thesis using q3 by simp
  qed
qed

section \<open>Properties\<close>

text \<open>
  Publications never leak reserved bytes. However publishing a document, publishing a render file or replacing one
  ends, by returning or by any error of any of its steps (staging, the stream write, the snapshot, the commit, the
  cleanup), every byte it had reserved is given back: the open writers' reservations and their total are
  exactly what they were before.
\<close>

theorem publications_return_reservations:
  assumes "quota_inv st" "render_asset s"
    "\<forall>sfx. map_of (staging_reservations st) (codes ''stage-'' @ hexdigest (fresh_bytes io) @ sfx) = None"
  shows "staging_reservations (snd (put_bytes io lower suffix_of data ns fn mt st)) = staging_reservations st
    \<and> reserved_bytes (snd (put_bytes io lower suffix_of data ns fn mt st)) = reserved_bytes st
    \<and> staging_reservations (snd (put_render_bytes io suffix_of s data st)) = staging_reservations st
    \<and> reserved_bytes (snd (put_render_bytes io suffix_of s data st)) = reserved_bytes st
    \<and> staging_reservations (snd (replace_render_bytes_if_matches io suffix_of s data expected st)) = staging_reservations st
    \<and> reserved_bytes (snd (replace_render_bytes_if_matches io suffix_of s data expected st)) = reserved_bytes st"
proof -
  note b = with_staged_balanced [OF assms(1) spec [OF assms(3)]]
  note w = well_behaved_bind [OF well_behaved_calls(1)]
  have d: "staging_reservations (snd (with_staged io sfx (obind (writer_write io (Inr ()) data) (\<lambda>_. writer_commit io (Inr ()) lower n f m)) st))
      = staging_reservations st
    \<and> reserved_bytes (snd (with_staged io sfx (obind (writer_write io (Inr ()) data) (\<lambda>_. writer_commit io (Inr ()) lower n f m)) st))
      = reserved_bytes st" for sfx n f m
    using b [OF w [OF well_behaved_calls(2)]] by simp
  have 1: "staging_reservations (snd (put_bytes io lower suffix_of data ns fn mt st)) = staging_reservations st
    \<and> reserved_bytes (snd (put_bytes io lower suffix_of data ns fn mt st)) = reserved_bytes st"
    by (auto simp: put_bytes_def Let_def d split: sum.splits)
  show ?thesis
    using 1 b [OF w [OF well_behaved_calls(3)]] b [OF w [OF well_behaved_calls(4) [OF assms(2)]]]
    by (simp add: put_render_bytes_def replace_render_bytes_if_matches_def)
qed

text \<open>
  A failed publication takes the whole document object with it. When moving the staged file into place fails,
  the cleanup removes the object directory and its insertion record, although the directory may already hold the same
  content committed under another filename and a reader may hold a lease on it; the used bytes still
  count the files that were removed.
\<close>

theorem failed_publication_removes_object:
  assumes "ns \<in> {codes ''documents'', codes ''renders''}" "SLASH \<notin> set oid" "insertion_order st = None"
    "fs_lookup [ns] (fs_root st) = Some (Directory s cs)"
    "replace_error io = Some e" "deletion_failure (sio io) [ns, oid] = None"
  shows "\<exists>st'. publish_new_document_locked io name [ns, oid, fn] (object_key ns oid) sn st = (Inl (Raised e), st')
    \<and> fs_lookup [ns, oid] (fs_root st') = None \<and> used_bytes st' = used_bytes st \<and> asset_leases st' = asset_leases st"
proof -
  have k: "key_path (object_key ns oid) = [ns, oid]" using assms(1,2) by (auto simp: SLASH_def)
  let ?st = "store_put io None [ns, oid, fn] st"
  let ?st' = "replace_object (sio io) (object_key ns oid) None (forget_object (object_key ns oid) ?st)"
  have "publish_new_document_locked io name [ns, oid, fn] (object_key ns oid) sn st = (Inl (Raised e), ?st')"
    using assms(3,5,6) k
    by (simp add: publish_new_document_locked_def ensure_insertion_sequence_def replace_path_def undo_publication_def remove_storage_path_def)
  moreover have "\<exists>s' cs'. fs_lookup [ns] (fs_root ?st) = Some (Directory s' cs')"
    using assms(4) by (cases "fs_root st") (auto simp: store_put_def map_of_dict_set split: option.splits)
  then have "fs_lookup [ns, oid] (fs_root ?st') = None"
    using fs_lookup_put_same [of "[ns]" "fs_root ?st" _ _ oid] k
    by (auto simp: replace_object_def forget_object_def Let_def store_put_def)
  ultimately show ?thesis by (simp add: replace_object_def forget_object_def Let_def store_put_def)
qed

definition example_shared_store :: Store where
  "example_shared_store = example_staging_store
     \<lparr>fs_root := fs_put 0 (Some (example_object 5 [1, 2, 3])) [codes ''documents'', codes ''doc_1''] (fs_root example_staging_store),
      used_bytes := 5, asset_leases := [(codes ''documents/doc_1'', 1)]\<rparr>"

end
