(* ===== verification/Nplg_Startup.thy ===== *)
theory Nplg_Startup
  imports Nplg_Commit
begin

text \<open>
  Construction of \<^verbatim>\<open>ContentAddressedStore\<close> over a directory tree left by an earlier process: the validation of the
  artifact tree, the bounded inventory and deletion of orphaned staging files, the removal of incomplete renders
  and tile sets, and the state the store starts with. The tree is the one the starting process finds; nobody
  else changes it while the constructor runs.
\<close>

section \<open>The artifact tree\<close>

definition MAX_ORPHAN_STAGING_ENTRIES :: nat where "MAX_ORPHAN_STAGING_ENTRIES = 4096"
definition MAX_ORPHAN_STAGING_DEPTH :: nat where "MAX_ORPHAN_STAGING_DEPTH = 8"
definition MAX_ARTIFACT_TREE_ENTRIES :: nat where "MAX_ARTIFACT_TREE_ENTRIES = 10000000"
definition MAX_ARTIFACT_TREE_DEPTH :: nat where "MAX_ARTIFACT_TREE_DEPTH = 16"
definition MAX_STAGING_ENTRY_NAME_BYTES :: nat where "MAX_STAGING_ENTRY_NAME_BYTES = 255"
definition ASCII_CONTROL_LIMIT :: nat where "ASCII_CONTROL_LIMIT = 32"
definition ASCII_DELETE :: nat where "ASCII_DELETE = 127"

text \<open>\<open>_validate_artifact_directory\<close>: the number of entries seen so far is threaded through the walk.\<close>

fun validate_artifact_directory :: "int \<Rightarrow> int \<Rightarrow> nat \<Rightarrow> fsnode \<Rightarrow> nat \<Rightarrow> nat res" where
  "validate_artifact_directory euid egid lvl (Directory s cs) = (\<lambda>count.
     if MAX_ARTIFACT_TREE_DEPTH < lvl
     then Inl (ValueError ''pre-existing artifact tree exceeded its depth bound'')
     else foldl (\<lambda>acc e. rbind acc (\<lambda>n.
            if MAX_ARTIFACT_TREE_ENTRIES < Suc n
            then Inl (ValueError ''pre-existing artifact tree exceeded its entry bound'')
            else if is_directory (snd e)
            then (if owned_with_mode euid egid PRIVATE_DIRECTORY_MODE (node_stat (snd e))
                  then validate_artifact_directory euid egid (Suc lvl) (snd e) (Suc n)
                  else Inl (ValueError ''pre-existing artifact tree directory is not private''))
            else if is_regular (snd e)
            then (if private_regular_file euid egid (snd e) then Inr (Suc n)
                  else Inl (ValueError ''pre-existing artifact tree file is not a safe private regular file''))
            else Inl (ValueError ''pre-existing artifact tree contains a link or special file'')))
          (Inr count) cs)"
| "validate_artifact_directory euid egid lvl n = (\<lambda>count. Inl (ValueError ''storage path must identify a directory''))"

definition validate_preexisting_artifact_tree :: "int \<Rightarrow> int \<Rightarrow> fsnode \<Rightarrow> unit res" where
  "validate_preexisting_artifact_tree euid egid rt =
     (case foldl (\<lambda>acc ns. rbind acc (\<lambda>n.
             case fs_lookup [ns] rt of
               None \<Rightarrow> Inl (OSError ''stat'')
             | Some d \<Rightarrow> validate_artifact_directory euid egid 0 d n))
           (Inr 0) (map fst ALLOWED_NAMESPACES) of
        Inl e \<Rightarrow> Inl (ValueError ''pre-existing artifact tree is unsafe'')
      | Inr n \<Rightarrow> Inr ())"

section \<open>Orphaned staging files\<close>

datatype OrphanStagingEntry =
  OrphanEntry (oe_name: pystr) (oe_identity: "int \<times> int") (oe_directory: bool) (oe_children: "OrphanStagingEntry list")

definition validate_staging_entry_name :: "pystr \<Rightarrow> unit res" where
  "validate_staging_entry_name name =
     (if name = [] \<or> name \<in> {codes ''.'', codes ''..''} \<or> MAX_STAGING_ENTRY_NAME_BYTES < length name
         \<or> list_ex (\<lambda>c. 127 < c) name \<or> list_ex (\<lambda>c. c < ASCII_CONTROL_LIMIT \<or> c = ASCII_DELETE) name
      then Inl (ValueError ''cache staging recovery entry name is unsafe'') else Inr ())"

definition node_identity :: "fsnode \<Rightarrow> int \<times> int" where
  "node_identity n = (st_dev (node_stat n), st_ino (node_stat n))"

text \<open>\<open>_StagingRecoveryBudget.consume\<close>: entries and bytes counted so far.\<close>

definition consume_budget :: "int \<Rightarrow> fsnode \<Rightarrow> nat \<times> int \<Rightarrow> (nat \<times> int) res" where
  "consume_budget maximum n b =
     (let entries = Suc (fst b); total = snd b + (if is_regular n then st_size n else 0)
      in if MAX_ORPHAN_STAGING_ENTRIES < entries
         then Inl (ValueError ''cache staging recovery inventory exceeds its entry bound'')
         else if is_regular n \<and> maximum < total
         then Inl (ValueError ''cache staging recovery byte inventory exceeds max_bytes'')
         else Inr (entries, total))"

definition inventory_entry ::
  "int \<Rightarrow> int \<Rightarrow> nat \<Rightarrow> (nat \<times> int \<Rightarrow> (OrphanStagingEntry list \<times> (nat \<times> int)) res) \<Rightarrow> pystr \<Rightarrow> fsnode \<Rightarrow>
   nat \<times> int \<Rightarrow> (OrphanStagingEntry \<times> (nat \<times> int)) res" where
  "inventory_entry device maximum lvl below name n b =
     rbind (validate_staging_entry_name name) (\<lambda>_.
       if st_dev (node_stat n) \<noteq> device
       then Inl (ValueError ''cache staging recovery entry crossed its filesystem boundary'')
       else rbind (consume_budget maximum n b) (\<lambda>b1.
         if is_regular n
         then (if st_nlink (node_stat n) \<noteq> 1
               then Inl (ValueError ''cache staging recovery rejects non-regular entries'')
               else Inr (OrphanEntry name (node_identity n) False [], b1))
         else if \<not> is_directory n then Inl (ValueError ''cache staging recovery rejects non-regular entries'')
         else if MAX_ORPHAN_STAGING_DEPTH \<le> lvl then Inl (ValueError ''cache staging recovery depth exceeds its bound'')
         else rbind (below b1) (\<lambda>(es, b2). Inr (OrphanEntry name (node_identity n) True es, b2))))"

fun inventory_loop ::
  "(pystr \<times> (nat \<times> int \<Rightarrow> (OrphanStagingEntry \<times> (nat \<times> int)) res)) list \<Rightarrow> nat \<times> int \<Rightarrow>
   (OrphanStagingEntry list \<times> (nat \<times> int)) res" where
  "inventory_loop [] b = Inr ([], b)"
| "inventory_loop (x # xs) b =
     rbind (snd x b) (\<lambda>(e, b1). rbind (inventory_loop xs b1) (\<lambda>(es, b2). Inr (e # es, b2)))"

text \<open>\<open>_inventory_orphan_staging\<close>: the entries of one directory in sorted order.\<close>

fun inventory_orphan_staging ::
  "int \<Rightarrow> int \<Rightarrow> nat \<Rightarrow> fsnode \<Rightarrow> nat \<times> int \<Rightarrow> (OrphanStagingEntry list \<times> (nat \<times> int)) res" where
  "inventory_orphan_staging device maximum lvl (Directory s cs) =
     inventory_loop (sort_key fst
       (map (\<lambda>e. (fst e, inventory_entry device maximum lvl
               (inventory_orphan_staging device maximum (Suc lvl) (snd e)) (fst e) (snd e))) cs))"
| "inventory_orphan_staging device maximum lvl n = (\<lambda>b. Inl (OSError ''listdir''))"

definition same_staging_entry :: "fsnode \<Rightarrow> OrphanStagingEntry \<Rightarrow> bool" where
  "same_staging_entry n e =
     (node_identity n = oe_identity e \<and> is_directory n = oe_directory e \<and> (oe_directory e \<or> is_regular n))"

fun delete_orphan_staging_inventory :: "int \<Rightarrow> OrphanStagingEntry list \<Rightarrow> fsnode \<Rightarrow> fsnode res" where
  "delete_orphan_staging_inventory now [] d = Inr d"
| "delete_orphan_staging_inventory now (OrphanEntry name ident isdir below # es) d =
     (case map_of (children d) name of
        None \<Rightarrow> Inl (OSError ''stat'')
      | Some n \<Rightarrow>
          if \<not> same_staging_entry n (OrphanEntry name ident isdir below)
          then Inl (ValueError ''cache staging recovery entry identity changed before deletion'')
          else if \<not> isdir
          then (if st_nlink (node_stat n) \<noteq> 1
                then Inl (ValueError ''cache staging recovery rejects non-regular entries'')
                else delete_orphan_staging_inventory now es (fs_put now None [name] d))
          else rbind (delete_orphan_staging_inventory now below n) (\<lambda>n'.
            if children n' \<noteq> []
            then Inl (ValueError ''cache staging recovery directory changed during deletion'')
            else delete_orphan_staging_inventory now es (fs_put now None [name] d)))"

definition cleanup_stale_staging :: "store_io \<Rightarrow> int \<Rightarrow> fsnode \<Rightarrow> fsnode res" where
  "cleanup_stale_staging io maximum rt =
     rbind (verify_store_root_identity io 0) (\<lambda>_.
       case fs_lookup [STAGING_DIR] rt of
         None \<Rightarrow> Inl (OSError ''stat'')
       | Some d \<Rightarrow>
           if \<not> is_directory d then Inl (ValueError ''storage path must identify a directory'')
           else if st_dev (node_stat d) \<noteq> st_dev (node_stat rt)
           then Inl (ValueError ''cache staging recovery crossed its filesystem boundary'')
           else (case rbind (inventory_orphan_staging (st_dev (node_stat rt)) maximum 0 d (0, 0))
                       (\<lambda>(es, b). delete_orphan_staging_inventory (io_now io) es d) of
                   Inl (OSError m) \<Rightarrow>
                     Inl (ValueError ''cache staging recovery encountered an unsafe filesystem state'')
                 | Inl e \<Rightarrow> Inl e
                 | Inr d' \<Rightarrow>
                     if children d' \<noteq> []
                     then Inl (ValueError ''cache staging recovery did not reach an empty post-state'')
                     else (case rt of Directory s cs \<Rightarrow> Inr (Directory s (dict_set cs STAGING_DIR d')) | _ \<Rightarrow> Inr rt)))"

section \<open>Incomplete renders\<close>

definition MANIFEST :: pystr where "MANIFEST = codes ''manifest.json''"
definition TILES :: pystr where "TILES = codes ''tiles''"

text \<open>Removing some of a directory's entries gives it a new modification time.\<close>

definition keep_entries :: "int \<Rightarrow> (pystr \<times> fsnode \<Rightarrow> fsnode option) \<Rightarrow> fsnode \<Rightarrow> fsnode" where
  "keep_entries now f n =
     (case n of
        Directory s cs \<Rightarrow>
          (let kept = List.map_filter (\<lambda>e. map_option (Pair (fst e)) (f e)) cs
           in Directory (if length kept < length cs then s\<lparr>st_mtime_ns := now, st_ctime_ns := now\<rparr> else s) kept)
      | _ \<Rightarrow> n)"

definition complete_directory :: "fsnode \<Rightarrow> bool" where
  "complete_directory n = (is_directory n \<and> (case fs_lookup [MANIFEST] n of Some m \<Rightarrow> is_regular m | None \<Rightarrow> False))"

definition cleanup_tile_page :: "int \<Rightarrow> fsnode \<Rightarrow> fsnode option" where
  "cleanup_tile_page now page =
     (if \<not> is_directory page then None
      else let page' = keep_entries now (\<lambda>e. if complete_directory (snd e) then Some (snd e) else None) page
           in if children page' = [] then None else Some page')"

definition cleanup_render_tiles :: "int \<Rightarrow> fsnode \<Rightarrow> fsnode" where
  "cleanup_render_tiles now render =
     (case fs_lookup [TILES] render of
        None \<Rightarrow> render
      | Some tiles \<Rightarrow>
          if \<not> is_directory tiles then fs_put now None [TILES] render
          else let tiles' = keep_entries now (\<lambda>e. cleanup_tile_page now (snd e)) tiles
               in if children tiles' = [] then fs_put now None [TILES] render
                  else (case render of Directory s cs \<Rightarrow> Directory s (dict_set cs TILES tiles') | _ \<Rightarrow> render))"

definition cleanup_render :: "int \<Rightarrow> pystr \<times> fsnode \<Rightarrow> fsnode option" where
  "cleanup_render now e =
     (if \<not> is_render_id (fst e) then Some (snd e)
      else if \<not> complete_directory (snd e) then None
      else Some (cleanup_render_tiles now (snd e)))"

definition cleanup_incomplete_renders :: "int \<Rightarrow> fsnode \<Rightarrow> fsnode" where
  "cleanup_incomplete_renders now rt =
     (case (rt, fs_lookup [RENDERS] rt) of
        (Directory s cs, Some d) \<Rightarrow> Directory s (dict_set cs RENDERS (keep_entries now (cleanup_render now) d))
      | _ \<Rightarrow> rt)"

section \<open>The constructor\<close>

record StoreLifecycleConfiguration =
  lc_policy :: RetentionPolicy
  lc_clock_high_water :: ClockHighWater

definition ensure_private_directory_at :: "stage_io \<Rightarrow> string \<Rightarrow> pystr \<Rightarrow> fsnode \<Rightarrow> fsnode res" where
  "ensure_private_directory_at io context name rt =
     (case fs_lookup [name] rt of
        None \<Rightarrow>
          if st_uid (new_dir_stat io) \<noteq> io_euid (sio io) \<or> st_gid (new_dir_stat io) \<noteq> io_egid (sio io)
          then Inl (ValueError (context @ '' directory is unsafe''))
          else Inr (fs_put (io_now (sio io)) (Some (Directory ((new_dir_stat io)\<lparr>st_permissions := PRIVATE_DIRECTORY_MODE\<rparr>) [])) [name] rt)
      | Some n \<Rightarrow>
          if private_directory (io_euid (sio io)) (io_egid (sio io)) n then Inr rt
          else Inl (ValueError (context @ '' directory is unsafe'')))"

definition object_roots :: "fsnode \<Rightarrow> pystr list res" where
  "object_roots rt =
     (if list_ex (\<lambda>e. \<not> is_directory (snd (snd e))) (object_entries rt) then corrupted
      else Inr (map (\<lambda>e. object_key (fst e) (fst (snd e))) (object_entries rt)))"

text \<open>The records that bootstrapping the insertion order wrote, as files of the tree.\<close>

definition write_records :: "stage_io \<Rightarrow> insertion_world \<Rightarrow> pystr list \<Rightarrow> fsnode \<Rightarrow> fsnode" where
  "write_records io w keys rt =
     foldl (\<lambda>r key. let p = key_path key @ [INSERTION_SEQUENCE_FILENAME]
                    in if fs_lookup p r = None \<and> sequence_files w key \<noteq> RecAbsent
                       then fs_put (io_now (sio io)) (Some (RegularFile (record_stat io) (record_bytes io))) p r else r) rt keys"

definition initial_store ::
  "int \<Rightarrow> StoreLifecycleConfiguration option \<Rightarrow> PersistentInsertionOrder option \<Rightarrow> insertion_world \<Rightarrow> fsnode \<Rightarrow> Store" where
  "initial_store maximum lifecycle ord w rt =
     \<lparr>fs_root = rt, max_bytes = maximum, used_bytes = scan_existing_bytes rt, reserved_bytes = 0, staging_reservations = [],
      retention_policy = map_option lc_policy lifecycle, clock_high_water = map_option lc_clock_high_water lifecycle,
      clock_sampler_bound = (lifecycle \<noteq> None), insertion_order = ord, order_world = w, reservation_objects = [],
      publication_reservations = [], publication_reserved_bytes = 0, publication_reserved_objects = 0,
      publication_reserved_inodes = 0, emitted_alerts = [], admission_closed_blocker = None, asset_leases = [],
      render_transaction_leases = []\<rparr>"

definition build_runtime_state ::
  "stage_io \<Rightarrow> StoreLifecycleConfiguration option \<Rightarrow> int \<Rightarrow> insertion_world \<Rightarrow> fsnode \<Rightarrow> Store res" where
  "build_runtime_state io lifecycle maximum w rt =
     (case lifecycle of
        None \<Rightarrow> Inr (initial_store maximum None None w rt)
      | Some lc \<Rightarrow>
          rbind (object_roots rt) (\<lambda>keys.
            case initialize keys (order_init, foldl (\<lambda>x key. sync_record key rt x) w keys) of
              (Inl e, st1) \<Rightarrow> Inl e
            | (Inr _, (ord, w1)) \<Rightarrow> Inr (initial_store maximum lifecycle (Some ord) w1 (write_records io w1 keys rt))))"

text \<open>
  The constructor; \<open>root_check\<close> is the outcome of the checks on the root directory and its parents.
\<close>

definition store_init ::
  "stage_io \<Rightarrow> unit res \<Rightarrow> pyobj \<Rightarrow> StoreLifecycleConfiguration option \<Rightarrow> insertion_world \<Rightarrow> fsnode \<Rightarrow> Store res" where
  "store_init io root_check maximum lifecycle w rt =
     (case maximum of
        PInt m \<Rightarrow>
          if m \<le> 0 then Inl (ValueError ''max_bytes must be a positive integer'')
          else rbind root_check (\<lambda>_.
            rbind (ensure_private_directory_at io ''cache staging'' STAGING_DIR rt) (\<lambda>rt1.
            rbind (foldl (\<lambda>acc ns. rbind acc (ensure_private_directory_at io ''cache namespace'' ns)) (Inr rt1)
                     (map fst ALLOWED_NAMESPACES)) (\<lambda>rt2.
            rbind (validate_preexisting_artifact_tree (io_euid (sio io)) (io_egid (sio io)) rt2) (\<lambda>_.
            rbind (cleanup_stale_staging (sio io) m rt2) (\<lambda>rt3.
            rbind (build_runtime_state io lifecycle m w (cleanup_incomplete_renders (io_now (sio io)) rt3)) (\<lambda>st.
            case lifecycle of
              None \<Rightarrow> Inr st
            | Some lc \<Rightarrow>
                rbind (sample_capacity (sio io) 1 0) (\<lambda>cap.
                  rbind (validate_retention_capacity (lc_policy lc) (PInt m) cap) (\<lambda>_. Inr st))))))))
      | _ \<Rightarrow> Inl (ValueError ''max_bytes must be a positive integer''))"

section \<open>The staging recovery accepts exactly the bounded trees\<close>

fun node_count :: "fsnode \<Rightarrow> nat" where
  "node_count (Directory s cs) = sum_list (map (\<lambda>e. Suc (node_count (snd e))) cs)"
| "node_count n = 0"

fun file_bytes :: "fsnode \<Rightarrow> int" where
  "file_bytes (Directory s cs) = sum_list (map (\<lambda>e. file_bytes (snd e)) cs)"
| "file_bytes (RegularFile s c) = int (length c)"
| "file_bytes n = 0"

text \<open>Safe names, one filesystem, singly linked regular files, real directories down to the depth bound.\<close>

fun recoverable :: "int \<Rightarrow> nat \<Rightarrow> fsnode \<Rightarrow> bool" where
  "recoverable device lvl (Directory s cs) =
     list_all (\<lambda>e. is_ok (validate_staging_entry_name (fst e)) \<and> st_dev (node_stat (snd e)) = device
                   \<and> (if is_regular (snd e) then st_nlink (node_stat (snd e)) = 1
                      else is_directory (snd e) \<and> lvl < MAX_ORPHAN_STAGING_DEPTH \<and> recoverable device (Suc lvl) (snd e))) cs"
| "recoverable device lvl n = False"

fun orphan_tree :: "fsnode \<Rightarrow> OrphanStagingEntry list" where
  "orphan_tree (Directory s cs) =
     map (\<lambda>p. OrphanEntry (fst p) (node_identity (fst (snd p))) (is_directory (fst (snd p))) (snd (snd p)))
       (sort_key fst (map (\<lambda>e. (fst e, (snd e, orphan_tree (snd e)))) cs))"
| "orphan_tree n = []"

definition orphan_entry :: "pystr \<times> fsnode \<Rightarrow> OrphanStagingEntry" where
  "orphan_entry e = OrphanEntry (fst e) (node_identity (snd e)) (is_directory (snd e)) (orphan_tree (snd e))"

definition in_budget :: "int \<Rightarrow> nat \<times> int \<Rightarrow> bool" where
  "in_budget m b = (fst b \<le> MAX_ORPHAN_STAGING_ENTRIES \<and> snd b \<le> m)"

lemma insort_map_pair: "insort_key fst (fst e, g e) (map (\<lambda>e. (fst e, g e)) xs) = map (\<lambda>e. (fst e, g e)) (insort_key fst e xs)"
  by (induction xs) auto

lemma sort_map_pair: "sort_key fst (map (\<lambda>e. (fst e, g e)) xs) = map (\<lambda>e. (fst e, g e)) (sort_key fst xs)"
  by (induction xs) (simp_all add: insort_map_pair)

lemma sum_sort_key: "sum_list (map g (sort_key k xs)) = sum_list (map g xs)" for g :: "'a \<Rightarrow> 'b :: comm_monoid_add"
  by (metis (no_types, lifting) mset_map mset_sort sum_mset_sum_list)

lemma orphan_tree_Directory: "orphan_tree (Directory s cs) = map orphan_entry (sort_key fst cs)"
  by (simp add: sort_map_pair orphan_entry_def comp_def)

lemma file_bytes_nonneg: "0 \<le> file_bytes n"
proof (induction n rule: file_bytes.induct)
  case (1 s cs)
  then show ?case by (simp, intro sum_list_nonneg) auto
qed simp_all

definition entry_ok :: "int \<Rightarrow> nat \<Rightarrow> pystr \<times> fsnode \<Rightarrow> bool" where
  "entry_ok device lvl e =
     (is_ok (validate_staging_entry_name (fst e)) \<and> st_dev (node_stat (snd e)) = device
      \<and> (if is_regular (snd e) then st_nlink (node_stat (snd e)) = 1
         else is_directory (snd e) \<and> lvl < MAX_ORPHAN_STAGING_DEPTH \<and> recoverable device (Suc lvl) (snd e)))"

text \<open>A step of the inventory that answers what it should: the entries and the new totals, or an error.\<close>

definition exact_answer :: "bool \<Rightarrow> 'a \<Rightarrow> nat \<times> int \<Rightarrow> int \<Rightarrow> ('a \<times> (nat \<times> int)) res \<Rightarrow> bool" where
  "exact_answer ok a b m r = (if ok \<and> in_budget m b then r = Inr (a, b) else (\<exists>e. r = Inl e))"

lemma inventory_entry_exact:
  assumes "in_budget m b"
    "is_directory (snd e) \<Longrightarrow> (\<And>b1. in_budget m b1 \<Longrightarrow>
       exact_answer (recoverable device (Suc lvl) (snd e)) (orphan_tree (snd e))
         (fst b1 + node_count (snd e), snd b1 + file_bytes (snd e)) m (below b1))"
  shows "exact_answer (entry_ok device lvl e) (orphan_entry e)
     (fst b + Suc (node_count (snd e)), snd b + file_bytes (snd e)) m (inventory_entry device m lvl below (fst e) (snd e) b)"
proof (cases "is_ok (validate_staging_entry_name (fst e)) \<and> st_dev (node_stat (snd e)) = device")
  case True
  then have v: "validate_staging_entry_name (fst e) = Inr ()" "st_dev (node_stat (snd e)) = device" by (auto simp: is_ok_iff)
  show ?thesis
  proof (cases "snd e")
    case (RegularFile s c)
    then show ?thesis using v assms(1)
      by (auto simp: exact_answer_def entry_ok_def inventory_entry_def consume_budget_def in_budget_def orphan_entry_def Let_def node_identity_def)
  next
    case (Directory s cs)
    let ?b1 = "(Suc (fst b), snd b)"
    have d: "is_directory (snd e)" "\<not> is_regular (snd e)" using Directory by simp_all
    show ?thesis
    proof (cases "Suc (fst b) \<le> MAX_ORPHAN_STAGING_ENTRIES \<and> lvl < MAX_ORPHAN_STAGING_DEPTH")
      case True
      then have "in_budget m ?b1" using assms(1) by (simp add: in_budget_def)
      then have "exact_answer (recoverable device (Suc lvl) (snd e)) (orphan_tree (snd e))
         (Suc (fst b) + node_count (snd e), snd b + file_bytes (snd e)) m (below ?b1)"
        using assms(2) [OF d(1), of ?b1] by simp
      then show ?thesis using v True d
        by (auto simp: exact_answer_def entry_ok_def inventory_entry_def consume_budget_def orphan_entry_def Let_def split: if_splits)
    next
      case False
      then show ?thesis using v d assms(1)
        by (auto simp: exact_answer_def entry_ok_def inventory_entry_def consume_budget_def in_budget_def Let_def)
    qed
  qed (use v in \<open>auto simp: exact_answer_def entry_ok_def inventory_entry_def consume_budget_def Let_def\<close>)
next
  case False
  then show ?thesis
    by (cases "validate_staging_entry_name (fst e)") (auto simp: exact_answer_def entry_ok_def inventory_entry_def)
qed

lemma inventory_loop_exact:
  assumes "in_budget m b"
    "\<And>e b1. e \<in> set xs \<Longrightarrow> in_budget m b1 \<Longrightarrow>
       exact_answer (entry_ok device lvl e) (orphan_entry e) (fst b1 + Suc (node_count (snd e)), snd b1 + file_bytes (snd e)) m (f e b1)"
  shows "exact_answer (list_all (entry_ok device lvl) xs) (map orphan_entry xs)
     (fst b + sum_list (map (\<lambda>e. Suc (node_count (snd e))) xs), snd b + sum_list (map (\<lambda>e. file_bytes (snd e)) xs)) m
     (inventory_loop (map (\<lambda>e. (fst e, f e)) xs) b)"
  using assms
proof (induction xs arbitrary: b)
  case (Cons e xs)
  let ?b1 = "(fst b + Suc (node_count (snd e)), snd b + file_bytes (snd e))"
  have e: "exact_answer (entry_ok device lvl e) (orphan_entry e) ?b1 m (f e b)" using Cons.prems by simp
  have nn: "0 \<le> sum_list (map (\<lambda>e. file_bytes (snd e)) xs)" by (intro sum_list_nonneg) (auto simp: file_bytes_nonneg)
  show ?case
  proof (cases "entry_ok device lvl e \<and> in_budget m ?b1")
    case True
    have ih: "exact_answer (list_all (entry_ok device lvl) xs) (map orphan_entry xs)
     (fst ?b1 + sum_list (map (\<lambda>e. Suc (node_count (snd e))) xs), snd ?b1 + sum_list (map (\<lambda>e. file_bytes (snd e)) xs)) m
     (inventory_loop (map (\<lambda>e. (fst e, f e)) xs) ?b1)"
      using Cons.IH [of ?b1] Cons.prems True by simp
    have "f e b = Inr (orphan_entry e, ?b1)" using e True by (simp add: exact_answer_def)
    then show ?thesis using ih True by (auto simp: exact_answer_def add.assoc split: if_splits)
  next
    case False
    then obtain err where "f e b = Inl err" using e by (auto simp: exact_answer_def)
    moreover have "\<not> (list_all (entry_ok device lvl) (e # xs) \<and>
       in_budget m (fst b + sum_list (map (\<lambda>e. Suc (node_count (snd e))) (e # xs)), snd b + sum_list (map (\<lambda>e. file_bytes (snd e)) (e # xs))))"
      using False nn by (auto simp: in_budget_def)
    ultimately show ?thesis by (simp only: exact_answer_def if_False) simp
  qed
qed (simp add: exact_answer_def)

lemma inventory_exact:
  assumes "in_budget m b" "is_directory n"
  shows "exact_answer (recoverable device lvl n) (orphan_tree n) (fst b + node_count n, snd b + file_bytes n) m
     (inventory_orphan_staging device m lvl n b)"
  using assms
proof (induction device m lvl n arbitrary: b rule: inventory_orphan_staging.induct)
  case (1 device m lvl s cs)
  let ?f = "\<lambda>e. inventory_entry device m lvl (inventory_orphan_staging device m (Suc lvl) (snd e)) (fst e) (snd e)"
  have "exact_answer (entry_ok device lvl e) (orphan_entry e) (fst b1 + Suc (node_count (snd e)), snd b1 + file_bytes (snd e)) m (?f e b1)"
    if "e \<in> set (sort_key fst cs)" "in_budget m b1" for e b1
    using inventory_entry_exact [OF that(2), of e device lvl] 1(1) [of e] that by simp
  from inventory_loop_exact [OF 1(2), of "sort_key fst cs" device lvl ?f, OF this]
  have "exact_answer (list_all (entry_ok device lvl) (sort_key fst cs)) (map orphan_entry (sort_key fst cs))
     (fst b + sum_list (map (\<lambda>e. Suc (node_count (snd e))) (sort_key fst cs)),
      snd b + sum_list (map (\<lambda>e. file_bytes (snd e)) (sort_key fst cs))) m
     (inventory_loop (map (\<lambda>e. (fst e, ?f e)) (sort_key fst cs)) b)" .
  moreover have "recoverable device lvl (Directory s cs) = list_all (entry_ok device lvl) (sort_key fst cs)"
    by (simp add: entry_ok_def list_all_iff)
  ultimately show ?case by (simp add: sort_map_pair orphan_tree_Directory sum_sort_key del: orphan_tree.simps recoverable.simps)
qed simp_all

lemma orphan_entry_same: "is_directory (snd e) \<or> is_regular (snd e) \<Longrightarrow> same_staging_entry (snd e) (orphan_entry e)"
  by (simp add: same_staging_entry_def orphan_entry_def)

lemma children_drop: "is_directory d \<Longrightarrow> children (fs_put now None [k] d) = dict_del (children d) k \<and> is_directory (fs_put now None [k] d)"
  by (cases d) (simp_all add: dict_put_def)

lemma delete_entries:
  assumes "is_directory d" "distinct (map fst xs)" "\<forall>e\<in>set xs. map_of (children d) (fst e) = Some (snd e)"
    "fst ` set (children d) = fst ` set xs" "\<forall>e\<in>set xs. entry_ok device lvl e"
    "\<forall>e\<in>set xs. is_directory (snd e) \<longrightarrow>
       (\<exists>n'. delete_orphan_staging_inventory now (orphan_tree (snd e)) (snd e) = Inr n' \<and> children n' = [])"
  shows "\<exists>d'. delete_orphan_staging_inventory now (map orphan_entry xs) d = Inr d' \<and> children d' = [] \<and> is_directory d'"
  using assms
proof (induction xs arbitrary: d)
  case (Cons e xs)
  let ?d = "fs_put now None [fst e] d"
  have c: "children ?d = dict_del (children d) (fst e)" "is_directory ?d" using children_drop [OF Cons.prems(1)] by auto
  have ne: "fst x \<noteq> fst e" if "x \<in> set xs" for x using Cons.prems(2) that by (auto simp: image_iff)
  have "fst ` set (children ?d) = fst ` set (children d) - {fst e}" by (auto simp: c(1) dict_del_def)
  then have "fst ` set (children ?d) = fst ` set xs" using Cons.prems(2,4) by auto
  then have ih: "\<exists>d'. delete_orphan_staging_inventory now (map orphan_entry xs) ?d = Inr d' \<and> children d' = [] \<and> is_directory d'"
    using Cons.prems c ne by (intro Cons.IH) (auto simp: map_of_dict_del)
  have k: "entry_ok device lvl e" "map_of (children d) (fst e) = Some (snd e)" using Cons.prems by auto
  then have s: "same_staging_entry (snd e) (orphan_entry e)" using orphan_entry_same by (auto simp: entry_ok_def split: if_splits)
  have o: "orphan_entry e = OrphanEntry (fst e) (node_identity (snd e)) (is_directory (snd e)) (orphan_tree (snd e))"
    by (simp add: orphan_entry_def)
  show ?case
  proof (cases "is_directory (snd e)")
    case True
    then obtain n' where "delete_orphan_staging_inventory now (orphan_tree (snd e)) (snd e) = Inr n'" "children n' = []"
      using Cons.prems(6) by auto
    then show ?thesis using ih k(2) s True unfolding list.map o by simp
  next
    case False
    then have "st_nlink (node_stat (snd e)) = 1" using k(1) by (auto simp: entry_ok_def split: if_splits)
    then show ?thesis using ih k(2) s False unfolding list.map o by simp
  qed
qed simp

lemma delete_orphans:
  assumes "recoverable device lvl d" "fs_wf d" "is_directory d"
  shows "\<exists>d'. delete_orphan_staging_inventory now (orphan_tree d) d = Inr d' \<and> children d' = [] \<and> is_directory d'"
  using assms
proof (induction device lvl d rule: recoverable.induct)
  case (1 device lvl s cs)
  have e: "\<forall>e\<in>set cs. entry_ok device lvl e" using 1(2) by (auto simp: list_all_iff entry_ok_def)
  have wf: "distinct (map fst cs)" "\<forall>e\<in>set cs. fs_wf (snd e)" using 1(3) by (auto simp: list_all_iff)
  have sub: "\<exists>n'. delete_orphan_staging_inventory now (orphan_tree (snd x)) (snd x) = Inr n' \<and> children n' = []"
    if "x \<in> set cs" "is_directory (snd x)" for x
  proof -
    have "\<not> is_regular (snd x)" using that(2) by (cases "snd x") auto
    moreover have "recoverable device (Suc lvl) (snd x)" using e that calculation by (auto simp: entry_ok_def split: if_splits)
    ultimately show ?thesis using 1(1) [OF that(1)] wf(2) that by blast
  qed
  have d: "distinct (map fst (sort_key fst cs))" using wf(1) by (metis (no_types) distinct_sort distinct_map set_sort)
  show ?case unfolding orphan_tree_Directory
    using e wf(1) sub d by (intro delete_entries [where device = device and lvl = lvl]) auto
qed simp_all

lemma cleanup_stale_staging_exact:
  assumes "fs_wf rt" "root_ok io 0" "fs_lookup [STAGING_DIR] rt = Some d" "is_directory d"
    "st_dev (node_stat d) = st_dev (node_stat rt)" "0 \<le> m"
  shows "is_ok (cleanup_stale_staging io m rt) \<longleftrightarrow>
      recoverable (st_dev (node_stat rt)) 0 d \<and> node_count d \<le> MAX_ORPHAN_STAGING_ENTRIES \<and> file_bytes d \<le> m"
    "cleanup_stale_staging io m rt = Inr rt' \<Longrightarrow>
      \<exists>d' s cs. rt = Directory s cs \<and> rt' = Directory s (dict_set cs STAGING_DIR d') \<and> children d' = [] \<and> is_directory d'"
proof -
  obtain s cs where rt: "rt = Directory s cs" "map_of cs STAGING_DIR = Some d"
    using assms(3) by (cases rt) (auto split: option.splits)
  have wf: "fs_wf d" using assms(1) rt fs_wf_child by metis
  have b: "in_budget m (0, 0)" using assms(6) by (simp add: in_budget_def)
  let ?dev = "st_dev (node_stat rt)"
  let ?good = "recoverable ?dev 0 d \<and> node_count d \<le> MAX_ORPHAN_STAGING_ENTRIES \<and> file_bytes d \<le> m"
  have ex: "exact_answer (recoverable ?dev 0 d) (orphan_tree d) (node_count d, file_bytes d) m
     (inventory_orphan_staging ?dev m 0 d (0, 0))"
    using inventory_exact [OF b assms(4), of ?dev 0] by simp
  have good: "\<exists>d'. cleanup_stale_staging io m rt = Inr (Directory s (dict_set cs STAGING_DIR d')) \<and> children d' = [] \<and> is_directory d'" if g: ?good
  proof -
    obtain d' where "delete_orphan_staging_inventory (io_now io) (orphan_tree d) d = Inr d'" "children d' = []" "is_directory d'"
      using delete_orphans [of ?dev 0 d "io_now io"] g wf assms(4) by blast
    moreover have "inventory_orphan_staging ?dev m 0 d (0, 0) = Inr (orphan_tree d, (node_count d, file_bytes d))"
      using ex g by (simp add: exact_answer_def in_budget_def)
    ultimately show ?thesis using assms(2-5) rt
      by (auto simp: cleanup_stale_staging_def verify_store_root_identity_def)
  qed
  have bad: "\<not> is_ok (cleanup_stale_staging io m rt)" if g: "\<not> ?good"
  proof -
    obtain e where "inventory_orphan_staging ?dev m 0 d (0, 0) = Inl e"
      using ex g by (auto simp: exact_answer_def in_budget_def split: if_splits)
    then show ?thesis using assms(2-5)
      by (simp add: cleanup_stale_staging_def verify_store_root_identity_def split: pyexc.splits)
  qed
  show "is_ok (cleanup_stale_staging io m rt) \<longleftrightarrow> ?good" using good bad by (metis is_ok_simps(1))
  show "\<exists>d' s cs. rt = Directory s cs \<and> rt' = Directory s (dict_set cs STAGING_DIR d') \<and> children d' = [] \<and> is_directory d'"
    if r: "cleanup_stale_staging io m rt = Inr rt'"
  proof -
    have ?good using bad r by (metis is_ok_simps(1))
    then show ?thesis using good r rt(1) by (metis sum.inject(2))
  qed
qed

section \<open>What the start-up keeps and removes\<close>

lemma map_filter_keys: "set (map fst (List.map_filter (\<lambda>e. map_option (Pair (fst e)) (f e)) cs)) \<subseteq> fst ` set cs"
  by (force simp: List.map_filter_def)

lemma keep_entries_lookup:
  assumes "distinct (map fst (children n))" "is_directory n"
  shows "map_of (children (keep_entries now f n)) k = (case map_of (children n) k of None \<Rightarrow> None | Some v \<Rightarrow> f (k, v))"
proof -
  have "map_of (List.map_filter (\<lambda>e. map_option (Pair (fst e)) (f e)) cs) k = (case map_of cs k of None \<Rightarrow> None | Some v \<Rightarrow> f (k, v))"
    if "distinct (map fst cs)" for cs
    using that
  proof (induction cs)
    case (Cons e cs)
    obtain a b where e: "e = (a, b)" by fastforce
    have none: "map_of (List.map_filter (\<lambda>e. map_option (Pair (fst e)) (f e)) cs) a = None"
      using Cons.prems map_filter_keys [of f cs] e by (auto simp: map_of_eq_None_iff)
    show ?case using Cons none e by (cases "f (a, b)") (auto simp: List.map_filter_simps)
  qed (simp add: List.map_filter_simps)
  then show ?thesis using assms by (cases n) (auto simp: keep_entries_def Let_def)
qed

lemma keep_entries_directory [simp]: "is_directory (keep_entries now f n) = is_directory n"
  by (cases n) (simp_all add: keep_entries_def Let_def)

lemma map_filter_distinct:
  "distinct (map fst cs) \<Longrightarrow> distinct (map fst (List.map_filter (\<lambda>e. map_option (Pair (fst e)) (f e)) cs))"
proof (induction cs)
  case (Cons e cs)
  then show ?case using map_filter_keys [of f cs] by (cases "f e") (auto simp: List.map_filter_simps)
qed (simp add: List.map_filter_simps)

lemma keep_entries_wf:
  assumes "fs_wf n" "\<And>e x. f e = Some x \<Longrightarrow> fs_wf (snd e) \<Longrightarrow> fs_wf x"
  shows "fs_wf (keep_entries now f n)"
proof (cases n)
  case (Directory s cs)
  have "distinct (map fst (List.map_filter (\<lambda>e. map_option (Pair (fst e)) (f e)) cs))"
    using assms(1) Directory map_filter_distinct by auto
  moreover have "list_all (\<lambda>e. SLASH \<notin> set (fst e) \<and> fs_wf (snd e)) (List.map_filter (\<lambda>e. map_option (Pair (fst e)) (f e)) cs)"
    using assms Directory by (auto simp: list_all_iff List.map_filter_def)
  ultimately show ?thesis using Directory by (simp add: keep_entries_def Let_def)
qed (use assms in \<open>simp_all add: keep_entries_def\<close>)

lemma manifest_not_tiles: "MANIFEST \<noteq> TILES" "TILES \<noteq> INSERTION_SEQUENCE_FILENAME" "MANIFEST \<noteq> INSERTION_SEQUENCE_FILENAME"
  by (simp_all add: MANIFEST_def TILES_def INSERTION_SEQUENCE_FILENAME_def)

lemma fs_lookup_Cons: "fs_lookup (p # ps) n = (case map_of (children n) p of None \<Rightarrow> None | Some c \<Rightarrow> fs_lookup ps c)"
  by (cases n) auto

lemma lookup_keep:
  assumes "fs_wf n" "is_directory n"
  shows "fs_lookup (k # ps) (keep_entries now f n) =
    (case map_of (children n) k of None \<Rightarrow> None | Some v \<Rightarrow> (case f (k, v) of None \<Rightarrow> None | Some x \<Rightarrow> fs_lookup ps x))"
proof -
  have "distinct (map fst (children n))" using assms by (cases n) auto
  then show ?thesis using keep_entries_lookup assms(2) by (simp add: fs_lookup_Cons split: option.splits)
qed

lemma tile_page_wf: "cleanup_tile_page now p = Some p' \<Longrightarrow> fs_wf p \<Longrightarrow> fs_wf p'"
  by (auto simp: cleanup_tile_page_def Let_def intro!: keep_entries_wf split: if_splits)

lemma render_tiles_wf:
  assumes "fs_wf n"
  shows "fs_wf (cleanup_render_tiles now n)"
proof (cases n)
  case (Directory s cs)
  have "fs_wf (Directory s (dict_set cs TILES (keep_entries now (\<lambda>e. cleanup_tile_page now (snd e)) t)))" if "map_of cs TILES = Some t" for t
  proof -
    have "fs_wf t" using assms Directory that fs_wf_child by metis
    then have "fs_wf (keep_entries now (\<lambda>e. cleanup_tile_page now (snd e)) t)" by (auto intro!: keep_entries_wf intro: tile_page_wf)
    then show ?thesis using assms Directory dict_set_entries [of cs TILES] distinct_dict_set [of cs TILES]
      by (fastforce simp: list_all_iff TILES_def SLASH_def)
  qed
  moreover have "fs_wf (fs_put now None [TILES] n)" using fs_put_wf [OF assms, of None "[TILES]"] by simp
  ultimately show ?thesis using assms Directory
    by (auto simp: cleanup_render_tiles_def Let_def simp del: fs_wf.simps fs_put.simps split: option.splits)
qed (use assms in \<open>simp_all add: cleanup_render_tiles_def\<close>)

text \<open>Outside its tiles a render is left as it is; the tiles that stay are complete.\<close>

lemma render_tiles_lookup:
  assumes "fs_wf n" "is_directory n"
  shows "k \<noteq> TILES \<Longrightarrow> fs_lookup (k # ps) (cleanup_render_tiles now n) = fs_lookup (k # ps) n"
    "is_directory (cleanup_render_tiles now n)"
    "fs_lookup [TILES, p, g] (cleanup_render_tiles now n) = Some x \<Longrightarrow>
       complete_directory x \<and> fs_lookup [TILES, p, g] n = Some x"
proof -
  obtain s cs where n: "n = Directory s cs" using assms(2) by (cases n) auto
  show "k \<noteq> TILES \<Longrightarrow> fs_lookup (k # ps) (cleanup_render_tiles now n) = fs_lookup (k # ps) n"
    "is_directory (cleanup_render_tiles now n)"
    using fs_lookup_put_other [of TILES k ps now None "[]" n]
    by (auto simp: n cleanup_render_tiles_def Let_def map_of_dict_set dict_put_def map_of_dict_del split: option.splits)
  show "complete_directory x \<and> fs_lookup [TILES, p, g] n = Some x"
    if l: "fs_lookup [TILES, p, g] (cleanup_render_tiles now n) = Some x"
  proof (cases "map_of cs TILES")
    case None
    then show ?thesis using l by (simp add: n cleanup_render_tiles_def)
  next
    case (Some t)
    have wft: "fs_wf t" using assms(1) n Some fs_wf_child by metis
    let ?t = "keep_entries now (\<lambda>e. cleanup_tile_page now (snd e)) t"
    have t: "is_directory t" "fs_lookup [p, g] ?t = Some x"
      using l Some by (auto simp: n cleanup_render_tiles_def Let_def map_of_dict_set dict_put_def map_of_dict_del split: if_splits)
    obtain q q' where q: "map_of (children t) p = Some q" "cleanup_tile_page now q = Some q'" "fs_lookup [g] q' = Some x"
      using t lookup_keep [OF wft t(1), of p "[g]"] by (auto split: option.splits)
    have wfq: "fs_wf q" "is_directory q" using q wft t(1) fs_wf_child by (cases t; auto simp: cleanup_tile_page_def split: if_splits)+
    have q': "q' = keep_entries now (\<lambda>e. if complete_directory (snd e) then Some (snd e) else None) q"
      using q(2) by (auto simp: cleanup_tile_page_def Let_def split: if_splits)
    have "complete_directory x \<and> map_of (children q) g = Some x"
      using q(3) lookup_keep [OF wfq, of g "[]"] by (auto simp: q' split: option.splits if_splits)
    then show ?thesis using q(1) Some by (simp add: n fs_lookup_Cons)
  qed
qed

lemma complete_lookup: "complete_directory n \<longleftrightarrow> is_directory n \<and> (\<exists>m. fs_lookup [MANIFEST] n = Some m \<and> is_regular m)"
  by (auto simp: complete_directory_def split: option.splits)

lemma render_tiles_complete: "fs_wf n \<Longrightarrow> complete_directory n \<Longrightarrow> complete_directory (cleanup_render_tiles now n)"
  using render_tiles_lookup(1) [of n MANIFEST "[]"] render_tiles_lookup(2) [of n] manifest_not_tiles
  by (simp add: complete_lookup)

lemma ensure_at_result:
  assumes "ensure_private_directory_at io ctx name rt = Inr rt'" "SLASH \<notin> set name"
  shows "fs_wf rt \<Longrightarrow> fs_wf rt'" "fs_lookup (a # b # ps) rt' = fs_lookup (a # b # ps) rt"
    "name \<noteq> a \<Longrightarrow> fs_lookup [a] rt' = fs_lookup [a] rt" "fs_lookup [a] rt = Some n \<Longrightarrow> fs_lookup [a] rt' = Some n"
proof -
  show "fs_wf rt \<Longrightarrow> fs_wf rt'"
    using assms fs_put_wf [of rt _ "[name]"] by (auto simp: ensure_private_directory_at_def split: option.splits if_splits)
  have "fs_lookup (a # b # ps) (fs_put now (Some (Directory d [])) [name] rt) = fs_lookup (a # b # ps) rt"
    if "fs_lookup [name] rt = None" for now d
    using that by (cases rt) (auto simp: dict_put_def map_of_dict_set split: option.splits)
  then show "fs_lookup (a # b # ps) rt' = fs_lookup (a # b # ps) rt"
    using assms(1) by (auto simp: ensure_private_directory_at_def split: option.splits if_splits)
  have "fs_lookup [a] (fs_put now (Some (Directory d [])) [name] rt) = fs_lookup [a] rt"
    if "name \<noteq> a" for now d
    using that fs_lookup_put_other [of name a "[]"] by simp
  then show o: "name \<noteq> a \<Longrightarrow> fs_lookup [a] rt' = fs_lookup [a] rt"
    using assms(1) by (auto simp: ensure_private_directory_at_def split: option.splits if_splits)
  show "fs_lookup [a] rt = Some n \<Longrightarrow> fs_lookup [a] rt' = Some n"
    using o assms(1) by (cases "name = a") (auto simp: ensure_private_directory_at_def split: option.splits if_splits)
qed

lemma directories_result:
  assumes "rbind (ensure_private_directory_at io ''cache staging'' STAGING_DIR rt) (\<lambda>rt1.
      foldl (\<lambda>acc ns. rbind acc (ensure_private_directory_at io ''cache namespace'' ns)) (Inr rt1) (map fst ALLOWED_NAMESPACES)) = Inr rt2"
  shows "fs_wf rt \<Longrightarrow> fs_wf rt2" "fs_lookup (a # b # ps) rt2 = fs_lookup (a # b # ps) rt"
proof -
  obtain rt1 rta where r: "ensure_private_directory_at io ''cache staging'' STAGING_DIR rt = Inr rt1"
    "ensure_private_directory_at io ''cache namespace'' (codes ''documents'') rt1 = Inr rta"
    "ensure_private_directory_at io ''cache namespace'' (codes ''renders'') rta = Inr rt2"
    using assms by (auto simp: rbind_eq_Inr ALLOWED_NAMESPACES_def simp del: codes_simps)
  have ns: "SLASH \<notin> set STAGING_DIR" "SLASH \<notin> set (codes ''documents'')" "SLASH \<notin> set (codes ''renders'')"
    by (simp_all add: STAGING_DIR_def SLASH_def)
  show "fs_wf rt \<Longrightarrow> fs_wf rt2"
    using ensure_at_result(1) [OF r(1) ns(1)] ensure_at_result(1) [OF r(2) ns(2)] ensure_at_result(1) [OF r(3) ns(3)] by blast
  show "fs_lookup (a # b # ps) rt2 = fs_lookup (a # b # ps) rt"
    using ensure_at_result(2) [OF r(1) ns(1)] ensure_at_result(2) [OF r(2) ns(2)] ensure_at_result(2) [OF r(3) ns(3)] by simp
qed

lemma delete_directory: "delete_orphan_staging_inventory now es d = Inr d' \<Longrightarrow> is_directory d \<Longrightarrow> is_directory d'"
proof (induction now es d arbitrary: d' rule: delete_orphan_staging_inventory.induct)
  case (2 now name ident isdir below es d)
  obtain n where n: "map_of (children d) name = Some n" using 2(4) by (cases "map_of (children d) name") simp_all
  have dd: "is_directory (fs_put now None [name] d)" using children_drop 2(5) by blast
  have same: "same_staging_entry n (OrphanEntry name ident isdir below)" using 2(4) n by (simp split: if_splits)
  show ?case
  proof (cases isdir)
    case True
    then obtain n' where "delete_orphan_staging_inventory now below n = Inr n'" "children n' = []"
      "delete_orphan_staging_inventory now es (fs_put now None [name] d) = Inr d'"
      using 2(4) n same by (auto simp: rbind_eq_Inr simp del: fs_put.simps split: if_splits)
    then show ?thesis using 2(3) [OF n _ _ _ _ dd] same True by simp
  next
    case False
    then have "st_nlink (node_stat n) = 1" "delete_orphan_staging_inventory now es (fs_put now None [name] d) = Inr d'"
      using 2(4) n same by (auto simp del: fs_put.simps split: if_splits)
    then show ?thesis using 2(1) [OF n _ _ _ _ dd] same False by simp
  qed
qed simp

lemma cleanup_staging_result:
  assumes "cleanup_stale_staging io m rt = Inr rt'" "fs_wf rt"
  shows "fs_wf rt'" "a \<noteq> STAGING_DIR \<Longrightarrow> fs_lookup (a # ps) rt' = fs_lookup (a # ps) rt"
    "\<exists>d. fs_lookup [STAGING_DIR] rt' = Some d \<and> is_directory d \<and> children d = []"
proof -
  obtain d where l: "fs_lookup [STAGING_DIR] rt = Some d"
    using assms(1) by (cases "fs_lookup [STAGING_DIR] rt") (simp_all add: cleanup_stale_staging_def rbind_def split: sum.splits)
  define r where "r = rbind (inventory_orphan_staging (st_dev (node_stat rt)) m 0 d (0, 0))
      (\<lambda>(es, b). delete_orphan_staging_inventory (io_now io) es d)"
  obtain s cs where rt: "rt = Directory s cs" "map_of cs STAGING_DIR = Some d"
    using l by (cases rt) (auto split: option.splits)
  have top: "is_directory d" "(case r of Inl (OSError x) \<Rightarrow> Inl (ValueError ''cache staging recovery encountered an unsafe filesystem state'')
      | Inl e \<Rightarrow> Inl e
      | Inr d' \<Rightarrow> if children d' \<noteq> [] then Inl (ValueError ''cache staging recovery did not reach an empty post-state'')
                  else Inr (Directory s (dict_set cs STAGING_DIR d'))) = Inr rt'"
    using assms(1) l rt(1) r_def [symmetric] by (auto simp: cleanup_stale_staging_def rbind_def split: sum.splits if_splits)
  obtain d' where d: "r = Inr d'" "children d' = []" and rt': "rt' = Directory s (dict_set cs STAGING_DIR d')"
  proof (cases r)
    case (Inl e)
    then show ?thesis using top(2) by (cases e) simp_all
  next
    case (Inr x)
    then show ?thesis using top(2) that by (simp split: if_splits)
  qed
  have wf: "fs_wf d" using assms(2) rt fs_wf_child by metis
  have dd: "is_directory d'" using top(1) d(1) delete_directory by (auto simp: rbind_eq_Inr r_def)
  then have "fs_wf d'" using d(2) by (cases d') auto
  then show "fs_wf rt'" using assms(2) rt rt' dict_set_entries [of cs STAGING_DIR d'] distinct_dict_set [of cs STAGING_DIR d']
    by (auto simp: list_all_iff STAGING_DIR_def SLASH_def)
  show "a \<noteq> STAGING_DIR \<Longrightarrow> fs_lookup (a # ps) rt' = fs_lookup (a # ps) rt" using rt rt' by (simp add: map_of_dict_set)
  show "\<exists>d. fs_lookup [STAGING_DIR] rt' = Some d \<and> is_directory d \<and> children d = []"
    using rt' d(2) dd by (simp add: map_of_dict_set)
qed

lemma cleanup_render_wf: "cleanup_render now e = Some x \<Longrightarrow> fs_wf (snd e) \<Longrightarrow> fs_wf x"
  using render_tiles_wf by (auto simp: cleanup_render_def split: if_splits)

lemma cleanup_renders_result:
  assumes "fs_wf rt" "fs_lookup [RENDERS] rt = Some d" "is_directory d"
  shows "fs_wf (cleanup_incomplete_renders now rt)"
    "a \<noteq> RENDERS \<Longrightarrow> fs_lookup (a # ps) (cleanup_incomplete_renders now rt) = fs_lookup (a # ps) rt"
    "fs_lookup (RENDERS # r # ps) (cleanup_incomplete_renders now rt) =
       (case map_of (children d) r of None \<Rightarrow> None
        | Some n \<Rightarrow> (case cleanup_render now (r, n) of None \<Rightarrow> None | Some x \<Rightarrow> fs_lookup ps x))"
proof -
  obtain s cs where rt: "rt = Directory s cs" "map_of cs RENDERS = Some d" using assms(2) by (cases rt) (auto split: option.splits)
  have wf: "fs_wf d" using assms(1) rt fs_wf_child by metis
  then have wk: "fs_wf (keep_entries now (cleanup_render now) d)" using cleanup_render_wf by (auto intro!: keep_entries_wf)
  have c: "cleanup_incomplete_renders now rt = Directory s (dict_set cs RENDERS (keep_entries now (cleanup_render now) d))"
    using rt by (simp add: cleanup_incomplete_renders_def)
  show "fs_wf (cleanup_incomplete_renders now rt)"
    using assms(1) rt wk c dict_set_entries [of cs RENDERS "keep_entries now (cleanup_render now) d"]
      distinct_dict_set [of cs RENDERS] namespace_key_no_slash [OF renders_namespace] by (fastforce simp: list_all_iff)
  show "a \<noteq> RENDERS \<Longrightarrow> fs_lookup (a # ps) (cleanup_incomplete_renders now rt) = fs_lookup (a # ps) rt"
    using rt c by (simp add: map_of_dict_set)
  show "fs_lookup (RENDERS # r # ps) (cleanup_incomplete_renders now rt) =
       (case map_of (children d) r of None \<Rightarrow> None
        | Some n \<Rightarrow> (case cleanup_render now (r, n) of None \<Rightarrow> None | Some x \<Rightarrow> fs_lookup ps x))"
    using rt c lookup_keep [OF wf assms(3), of r ps] by (simp add: map_of_dict_set)
qed

lemma lookup_put_below: "fs_lookup [a, b] (fs_put now v [a, b, f] r) = map_option (fs_put now v [f]) (fs_lookup [a, b] r)"
proof (cases "fs_lookup [a] r")
  case (Some c)
  then obtain s cs where "r = Directory s cs" "map_of cs a = Some c" by (cases r) (auto split: option.splits)
  then show ?thesis by (cases c) (auto simp: map_of_dict_set split: option.splits)
next
  case None
  then show ?thesis by (cases r) (auto split: option.splits)
qed

text \<open>Bootstrapping the insertion order adds record files and nothing else.\<close>

lemma write_records_lookup:
  assumes "\<forall>k\<in>set keys. \<exists>q x. key_path k = [q, x]"
  shows "c \<noteq> INSERTION_SEQUENCE_FILENAME \<Longrightarrow> fs_lookup (a # b # c # ps) (write_records io w keys rt) = fs_lookup (a # b # c # ps) rt"
    "fs_wf rt \<Longrightarrow> fs_wf (write_records io w keys rt)"
    "(\<exists>n. fs_lookup [a, b] (write_records io w keys rt) = Some n \<and> is_directory n) \<longleftrightarrow> (\<exists>n. fs_lookup [a, b] rt = Some n \<and> is_directory n)"
    "(\<exists>n. fs_lookup [a, b] (write_records io w keys rt) = Some n) \<longleftrightarrow> (\<exists>n. fs_lookup [a, b] rt = Some n)"
    "\<forall>k\<in>set keys. \<exists>q x. key_path k = [q, x] \<and> q \<noteq> a \<Longrightarrow> fs_lookup [a] (write_records io w keys rt) = fs_lookup [a] rt"
proof -
  have step: "(\<exists>n. fs_lookup [a, b] (fs_put now v [q, x, f] r) = Some n \<and> P n) \<longleftrightarrow> (\<exists>n. fs_lookup [a, b] r = Some n \<and> P n)"
    if "\<And>n v now. P (fs_put now v [f] n) = P n" for now v q x f r P
  proof (cases "[q, x] = [a, b]")
    case True
    then show ?thesis using that lookup_put_below [of a b now v f r] by auto
  next
    case False
    then have "fs_lookup [a, b] (fs_put now v [q, x, f] r) = fs_lookup [a, b] r" by (intro fs_lookup_put_disjoint) auto
    then show ?thesis by simp
  qed
  show "c \<noteq> INSERTION_SEQUENCE_FILENAME \<Longrightarrow> fs_lookup (a # b # c # ps) (write_records io w keys rt) = fs_lookup (a # b # c # ps) rt"
    using assms unfolding write_records_def
  proof (induction keys arbitrary: rt)
    case (Cons k ks)
    obtain q x where k: "key_path k = [q, x]" using Cons.prems by auto
    have "fs_lookup (a # b # c # ps) (fs_put now v [q, x, INSERTION_SEQUENCE_FILENAME] rt) = fs_lookup (a # b # c # ps) rt" for now v
      using Cons.prems(1) by (intro fs_lookup_put_disjoint) auto
    then show ?case using Cons k by (simp add: Let_def)
  qed simp
  show "fs_wf rt \<Longrightarrow> fs_wf (write_records io w keys rt)"
    using assms unfolding write_records_def
  proof (induction keys arbitrary: rt)
    case (Cons k ks)
    have "fs_wf (fs_put now (Some (RegularFile s d)) (key_path k @ [INSERTION_SEQUENCE_FILENAME]) rt)" for now s d
      using fs_put_wf [OF Cons.prems(1), of "Some (RegularFile s d)" "key_path k @ [INSERTION_SEQUENCE_FILENAME]"] seq_filename_no_slash by simp
    then show ?case using Cons by (simp add: Let_def)
  qed simp
  show "(\<exists>n. fs_lookup [a, b] (write_records io w keys rt) = Some n \<and> is_directory n) \<longleftrightarrow> (\<exists>n. fs_lookup [a, b] rt = Some n \<and> is_directory n)"
    using assms unfolding write_records_def
  proof (induction keys arbitrary: rt)
    case (Cons k ks)
    obtain q x where k: "key_path k = [q, x]" using Cons.prems by auto
    show ?case using Cons k step [of is_directory] by (simp add: Let_def)
  qed simp
  show "(\<exists>n. fs_lookup [a, b] (write_records io w keys rt) = Some n) \<longleftrightarrow> (\<exists>n. fs_lookup [a, b] rt = Some n)"
    using assms unfolding write_records_def
  proof (induction keys arbitrary: rt)
    case (Cons k ks)
    obtain q x where k: "key_path k = [q, x]" using Cons.prems by auto
    show ?case using Cons k step [of "\<lambda>_. True"] by (simp add: Let_def)
  qed simp
  show "\<forall>k\<in>set keys. \<exists>q x. key_path k = [q, x] \<and> q \<noteq> a \<Longrightarrow> fs_lookup [a] (write_records io w keys rt) = fs_lookup [a] rt"
    unfolding write_records_def
  proof (induction keys arbitrary: rt)
    case (Cons k ks)
    obtain q x where k: "key_path k = [q, x]" "q \<noteq> a" using Cons.prems by auto
    show ?case using Cons k fs_lookup_put_other [of q a "[]"] by (simp add: Let_def)
  qed simp
qed

lemma object_root_keys:
  assumes "object_roots rt = Inr keys" "fs_wf rt" "k \<in> set keys"
  shows "\<exists>q x. key_path k = [q, x] \<and> q \<noteq> STAGING_DIR"
proof -
  obtain ns c where e: "(ns, c) \<in> set (object_entries rt)" "k = object_key ns (fst c)"
    using assms(1,3) by (auto simp: object_roots_def corrupted_def split: if_splits)
  have "ns \<in> fst ` set ALLOWED_NAMESPACES"
    using e(1) by (auto simp: object_entries_def namespace_children_def ALLOWED_NAMESPACES_def split: option.splits)
  then have "ns \<noteq> STAGING_DIR" using staging_not_namespace by blast
  then show ?thesis using entry_names [OF assms(2) e(1)] e(2) by (metis key_path_object_key)
qed

lemma runtime_state_result:
  assumes "build_runtime_state io lifecycle m w rt = Inr st"
  obtains ord w' keys where "st = initial_store m lifecycle ord w' (write_records io w' keys rt)"
    "fs_wf rt \<Longrightarrow> \<forall>k\<in>set keys. \<exists>q x. key_path k = [q, x] \<and> q \<noteq> STAGING_DIR"
proof (cases lifecycle)
  case None
  then show ?thesis using assms that [of None w "[]"] by (simp add: build_runtime_state_def write_records_def)
next
  case (Some lc)
  obtain keys where k: "object_roots rt = Inr keys" using assms Some by (auto simp: build_runtime_state_def rbind_eq_Inr)
  obtain r ord w1 where i: "initialize keys (order_init, foldl (\<lambda>x key. sync_record key rt x) w keys) = (r, (ord, w1))" by (metis surj_pair)
  then have "st = initial_store m lifecycle (Some ord) w1 (write_records io w1 keys rt)"
    using assms Some k by (auto simp: build_runtime_state_def split: sum.splits)
  then show ?thesis using that [of "Some ord" w1 keys] object_root_keys [OF k] by blast
qed

lemma validated_renders:
  assumes "validate_preexisting_artifact_tree euid egid rt = Inr u"
  shows "\<exists>d. fs_lookup [RENDERS] rt = Some d \<and> is_directory d"
proof -
  have "is_directory d" if "validate_artifact_directory euid egid l d n = Inr x" for l d n x
    using that by (cases d) simp_all
  then show ?thesis using assms
    by (fastforce simp: validate_preexisting_artifact_tree_def ALLOWED_NAMESPACES_def RENDERS_def rbind_eq_Inr
        simp del: codes_simps split: sum.splits option.splits)
qed

section \<open>Properties\<close>

text \<open>
  C32. The recovery of orphaned staging files accepts exactly the bounded trees. On the tree a starting process finds, the
  cleanup succeeds exactly when every name is safe, every node is on the root's filesystem, every file is a singly linked
  regular file, every other node a real directory within the depth bound, and the number of entries and the bytes
  are within their limits; it then leaves an empty staging directory and nothing else changed, and
  otherwise it deletes nothing.
\<close>

theorem staging_recovery_accepts_bounded:
  assumes "fs_wf rt" "root_ok io 0" "fs_lookup [STAGING_DIR] rt = Some d" "is_directory d"
    "st_dev (node_stat d) = st_dev (node_stat rt)" "0 \<le> m"
  shows "if recoverable (st_dev (node_stat rt)) 0 d \<and> node_count d \<le> MAX_ORPHAN_STAGING_ENTRIES \<and> file_bytes d \<le> m
    then \<exists>rt'. cleanup_stale_staging io m rt = Inr rt'
           \<and> (\<exists>d'. fs_lookup [STAGING_DIR] rt' = Some d' \<and> is_directory d' \<and> children d' = [])
           \<and> (\<forall>a ps. a \<noteq> STAGING_DIR \<longrightarrow> fs_lookup (a # ps) rt' = fs_lookup (a # ps) rt)
    else \<exists>e. cleanup_stale_staging io m rt = Inl e"
proof (cases "cleanup_stale_staging io m rt")
  case (Inl e)
  then show ?thesis using cleanup_stale_staging_exact(1) [OF assms] by auto
next
  case (Inr rt')
  then show ?thesis using cleanup_stale_staging_exact(1) [OF assms] cleanup_staging_result(2,3) [OF Inr assms(1)] by auto
qed

definition example_orphans :: fsnode where
  "example_orphans = Directory (example_stat 448 0)
     [(codes ''stage-1'', RegularFile (example_stat 384 0) [1, 2]),
      (codes ''sub'', Directory (example_stat 448 0) [(codes ''stage-2'', RegularFile (example_stat 384 0) [3])])]"

definition example_orphan_root :: fsnode where
  "example_orphan_root = Directory (example_stat 448 0)
     [(codes ''.staging'', example_orphans),
      (codes ''renders'', Directory (example_stat 448 0)
         [(example_render, Directory (example_stat 448 0) [(codes ''manifest.json'', RegularFile (example_stat 384 0) [9])]),
          (codes ''rnd_ffffffffffffffffffffffffffffffff'', Directory (example_stat 448 0)
             [(codes ''page.png'', RegularFile (example_stat 384 0) [8])])])]"

theorem staging_recovery_accepts_bounded_witness:
  "(\<exists>rt'. cleanup_stale_staging (example_store_io 5000) 3 example_orphan_root = Inr rt'
       \<and> (\<exists>d'. fs_lookup [STAGING_DIR] rt' = Some d' \<and> children d' = []))
   \<and> (\<exists>e. cleanup_stale_staging (example_store_io 5000) 2 example_orphan_root = Inl e)"
proof -
  have f: "fs_wf example_orphan_root" "root_ok (example_store_io 5000) 0"
    "fs_lookup [STAGING_DIR] example_orphan_root = Some example_orphans" "is_directory example_orphans"
    "st_dev (node_stat example_orphans) = st_dev (node_stat example_orphan_root)"
    by code_simp+
  have g: "recoverable (st_dev (node_stat example_orphan_root)) 0 example_orphans" "node_count example_orphans \<le> MAX_ORPHAN_STAGING_ENTRIES"
    "file_bytes example_orphans = 3"
    by code_simp+
  show ?thesis
    using staging_recovery_accepts_bounded [OF f, of 3] staging_recovery_accepts_bounded [OF f, of 2] g by auto
qed

text \<open>The tree after the constructor, stage by stage; \<open>d\<close> is the render namespace before its cleanup.\<close>

lemma startup_tree:
  assumes "store_init io root_check maximum lifecycle w rt = Inr st" "fs_wf rt"
  obtains d m ord w' where "fs_wf d" "is_directory d" "fs_wf (fs_root st)" "st = initial_store m lifecycle ord w' (fs_root st)"
    "\<exists>e. fs_lookup [STAGING_DIR] (fs_root st) = Some e \<and> children e = []"
    "\<And>r qs. fs_lookup (RENDERS # r # qs) rt = fs_lookup (r # qs) d"
    "\<And>r k ps. k \<noteq> INSERTION_SEQUENCE_FILENAME \<Longrightarrow> fs_lookup (RENDERS # r # k # ps) (fs_root st) =
       (case map_of (children d) r of None \<Rightarrow> None
        | Some n \<Rightarrow> (case cleanup_render (io_now (sio io)) (r, n) of None \<Rightarrow> None | Some x \<Rightarrow> fs_lookup (k # ps) x))"
    "\<And>r n. fs_lookup [RENDERS, r] (fs_root st) = Some n \<Longrightarrow>
       \<exists>n1 x. map_of (children d) r = Some n1 \<and> cleanup_render (io_now (sio io)) (r, n1) = Some x"
    "\<And>o1 k ps. k \<noteq> INSERTION_SEQUENCE_FILENAME \<Longrightarrow>
       fs_lookup (codes ''documents'' # o1 # k # ps) (fs_root st) = fs_lookup (codes ''documents'' # o1 # k # ps) rt"
proof -
  obtain m where m: "maximum = PInt m" using assms(1) by (cases maximum) (simp_all add: store_init_def)
  obtain rt2 rt3 where r: "rbind (ensure_private_directory_at io ''cache staging'' STAGING_DIR rt) (\<lambda>rt1.
      foldl (\<lambda>acc ns. rbind acc (ensure_private_directory_at io ''cache namespace'' ns)) (Inr rt1) (map fst ALLOWED_NAMESPACES)) = Inr rt2"
    "validate_preexisting_artifact_tree (io_euid (sio io)) (io_egid (sio io)) rt2 = Inr ()"
    "cleanup_stale_staging (sio io) m rt2 = Inr rt3"
    "build_runtime_state io lifecycle m w (cleanup_incomplete_renders (io_now (sio io)) rt3) = Inr st"
    using assms(1) m by (auto simp: store_init_def rbind_eq_Inr split: if_splits option.splits)
  let ?rt4 = "cleanup_incomplete_renders (io_now (sio io)) rt3"
  have wf2: "fs_wf rt2" and l2: "fs_lookup (a # b # ps) rt2 = fs_lookup (a # b # ps) rt" for a b ps
    using directories_result [OF r(1)] assms(2) by blast+
  note c3 = cleanup_staging_result [OF r(3) wf2]
  have ns: "RENDERS \<noteq> STAGING_DIR" "codes ''documents'' \<noteq> STAGING_DIR" "codes ''documents'' \<noteq> RENDERS"
    by (simp_all add: RENDERS_def STAGING_DIR_def)
  obtain d where d: "fs_lookup [RENDERS] rt3 = Some d" "is_directory d"
    using validated_renders [OF r(2)] c3(2) [OF ns(1), of "[]"] by auto
  note c4 = cleanup_renders_result [OF c3(1) d, where now = "io_now (sio io)"]
  have wf4: "fs_wf ?rt4" using c4(1) .
  obtain ord w' keys where st: "st = initial_store m lifecycle ord w' (write_records io w' keys ?rt4)"
    "\<forall>k\<in>set keys. \<exists>q x. key_path k = [q, x] \<and> q \<noteq> STAGING_DIR" using runtime_state_result [OF r(4)] wf4 by metis
  have keys: "\<forall>k\<in>set keys. \<exists>q x. key_path k = [q, x]" using st(2) by blast
  have root: "fs_root st = write_records io w' keys ?rt4" by (simp add: st(1) initial_store_def)
  have staging: "\<exists>d. fs_lookup [STAGING_DIR] (fs_root st) = Some d \<and> children d = []"
    using c3(3) c4(2) [of STAGING_DIR "[]"] write_records_lookup(5) [OF keys, of STAGING_DIR io w' ?rt4] st(2) ns(1) root by auto
  have wfd: "fs_wf d" using d(1) c3(1) fs_wf_child by (cases rt3) (auto split: option.splits)
  have cr: "fs_lookup (RENDERS # r # k # ps) (fs_root st) =
       (case map_of (children d) r of None \<Rightarrow> None
        | Some n \<Rightarrow> (case cleanup_render (io_now (sio io)) (r, n) of None \<Rightarrow> None | Some x \<Rightarrow> fs_lookup (k # ps) x))"
    if "k \<noteq> INSERTION_SEQUENCE_FILENAME" for r k ps
    using write_records_lookup(1) [OF keys that, of RENDERS r ps io w' ?rt4] c4(3) [of r "k # ps"] root by simp
  have ex: "\<exists>n1 x. map_of (children d) r = Some n1 \<and> cleanup_render (io_now (sio io)) (r, n1) = Some x"
    if "fs_lookup [RENDERS, r] (fs_root st) = Some n" for r n
    using write_records_lookup(4) [OF keys, of RENDERS r io w' ?rt4] that root c4(3) [of r "[]"] by (auto split: option.splits)
  have l3: "fs_lookup (RENDERS # r # qs) rt = fs_lookup (r # qs) d" for r qs
    using l2 [of RENDERS r qs] c3(2) [OF ns(1), of "r # qs"] d(1) by (cases rt3) (auto split: option.splits)
  have docs: "fs_lookup (codes ''documents'' # o1 # k # ps) (fs_root st) = fs_lookup (codes ''documents'' # o1 # k # ps) rt"
    if "k \<noteq> INSERTION_SEQUENCE_FILENAME" for o1 k ps
    using write_records_lookup(1) [OF keys that, of "codes ''documents''" o1 ps io w' ?rt4] c4(2) [OF ns(3)] c3(2) [OF ns(2)] l2 root by simp
  have wf: "fs_wf (fs_root st)" using write_records_lookup(2) [OF keys wf4] root by simp
  show ?thesis
    by (rule that [OF wfd d(2) wf _ staging l3 cr ex docs, of m ord w']) (simp_all add: st(1) initial_store_def)
qed

lemma startup_renders:
  assumes "store_init io root_check maximum lifecycle w rt = Inr st" "fs_wf rt" "is_render_id r"
    "fs_lookup [RENDERS, r] (fs_root st) = Some n"
  shows "(\<exists>m. fs_lookup [RENDERS, r, MANIFEST] (fs_root st) = Some m \<and> is_regular m)
     \<and> (\<forall>p g x. fs_lookup [RENDERS, r, TILES, p, g] (fs_root st) = Some x \<longrightarrow> complete_directory x)"
proof (rule startup_tree [OF assms(1,2)])
  fix d m ord w'
  assume d: "fs_wf d" "is_directory d"
    and cr: "\<And>r k ps. k \<noteq> INSERTION_SEQUENCE_FILENAME \<Longrightarrow> fs_lookup (RENDERS # r # k # ps) (fs_root st) =
       (case map_of (children d) r of None \<Rightarrow> None
        | Some n \<Rightarrow> (case cleanup_render (io_now (sio io)) (r, n) of None \<Rightarrow> None | Some x \<Rightarrow> fs_lookup (k # ps) x))"
    and ex: "\<And>r n. fs_lookup [RENDERS, r] (fs_root st) = Some n \<Longrightarrow>
       \<exists>n1 x. map_of (children d) r = Some n1 \<and> cleanup_render (io_now (sio io)) (r, n1) = Some x"
  obtain n1 where n1: "map_of (children d) r = Some n1" "complete_directory n1"
    "cleanup_render (io_now (sio io)) (r, n1) = Some (cleanup_render_tiles (io_now (sio io)) n1)"
    using ex [OF assms(4)] assms(3) by (auto simp: cleanup_render_def split: if_splits)
  have wfn: "fs_wf n1" using d n1(1) fs_wf_child by (cases d) auto
  have cd: "is_directory n1" "complete_directory (cleanup_render_tiles (io_now (sio io)) n1)"
    using n1(2) render_tiles_complete [OF wfn] by (auto simp: complete_lookup)
  show ?thesis using cr [OF manifest_not_tiles(3), of r "[]"] cr [OF manifest_not_tiles(2), of r] n1 cd
      render_tiles_lookup(3) [OF wfn cd(1)] by (auto simp: complete_lookup)
qed

lemma startup_keeps:
  assumes "store_init io root_check maximum lifecycle w rt = Inr st" "fs_wf rt" "fs_lookup [RENDERS, r] rt = Some n"
    "is_render_id r \<longrightarrow> complete_directory n \<and> k \<noteq> TILES" "k \<noteq> INSERTION_SEQUENCE_FILENAME"
  shows "fs_lookup (RENDERS # r # k # ps) (fs_root st) = fs_lookup (RENDERS # r # k # ps) rt"
proof (rule startup_tree [OF assms(1,2)])
  fix d m ord w'
  assume d: "fs_wf d" "is_directory d" and l3: "\<And>r qs. fs_lookup (RENDERS # r # qs) rt = fs_lookup (r # qs) d"
    and cr: "\<And>r k ps. k \<noteq> INSERTION_SEQUENCE_FILENAME \<Longrightarrow> fs_lookup (RENDERS # r # k # ps) (fs_root st) =
       (case map_of (children d) r of None \<Rightarrow> None
        | Some n \<Rightarrow> (case cleanup_render (io_now (sio io)) (r, n) of None \<Rightarrow> None | Some x \<Rightarrow> fs_lookup (k # ps) x))"
  have n: "map_of (children d) r = Some n" using l3 [of r "[]"] assms(3) by (simp add: fs_lookup_Cons split: option.splits)
  have wfn: "fs_wf n" using d n fs_wf_child by (cases d) auto
  have "cleanup_render (io_now (sio io)) (r, n) = Some x \<and> fs_lookup (k # ps) x = fs_lookup (k # ps) n"
    if "x = (if is_render_id r then cleanup_render_tiles (io_now (sio io)) n else n)" for x
    using that assms(4) render_tiles_lookup(1) [OF wfn, of k ps] by (auto simp: cleanup_render_def complete_lookup)
  then show ?thesis using cr [OF assms(5), of r ps] n l3 [of r "k # ps"] by (simp add: fs_lookup_Cons split: if_splits)
qed



end
