(* ===== verification/Nplg_Json.thy ===== *)
theory Nplg_Json
  imports Nplg_Errors Nplg_Json_Preflight "HOL-Library.List_Lexorder"
begin

text \<open>
  The closed JSON values of \<^verbatim>\<open>src/nplg_mcp/json_types.py\<close>, with the encoder and decoder of Python's
  \<^verbatim>\<open>json\<close> module as the sources call them. A value of the interpreter is a tree \<open>pyval\<close>; a
  \<open>JsonValue\<close> is a \<open>json\<close> of the error theory. The decoder is a fuelled recursive descent that
  returns \<open>None\<close> only when the fuel is used up; \<open>json_decode\<close> gives it more fuel than the text has
  characters, and the lemmas show that this is always enough. The interpreter's
  recursion limit is not modelled. \<open>float_repr\<close> is an argument and stands for the built-in
  \<^verbatim>\<open>float.__repr__\<close>.
\<close>

section \<open>Python values at the boundary\<close>

text \<open>
  \<open>VMapping\<close> is a \<^verbatim>\<open>Mapping\<close> that is not a \<^verbatim>\<open>dict\<close>; \<open>VOther\<close> is any other object, an instance of a
  proper subclass of \<^verbatim>\<open>bool\<close>, \<^verbatim>\<open>int\<close>, \<^verbatim>\<open>str\<close> or \<^verbatim>\<open>float\<close> included.
\<close>

datatype pyval =
    VNone | VBool bool | VInt int | VFloat pyfloat | VStr pystr | VList "pyval list"
  | VTuple "pyval list" | VDict "(pyval \<times> pyval) list" | VMapping "(pyval \<times> pyval) list" | VOther

fun is_str :: "pyval \<Rightarrow> bool" where
  "is_str (VStr s) = True"
| "is_str _ = False"

fun is_json_value :: "pyval \<Rightarrow> bool" where
  "is_json_value VNone = True"
| "is_json_value (VBool b) = True"
| "is_json_value (VInt i) = True"
| "is_json_value (VStr s) = True"
| "is_json_value (VFloat x) = isfinite x"
| "is_json_value (VList vs) = list_all is_json_value vs"
| "is_json_value (VDict es) = list_all (\<lambda>(k, v). is_str k \<and> is_json_value v) es"
| "is_json_value (VTuple vs) = False"
| "is_json_value (VMapping es) = False"
| "is_json_value VOther = False"

text \<open>The Python value of a \<open>JsonValue\<close>.\<close>

fun py_of_json :: "json \<Rightarrow> pyval" where
  "py_of_json JNull = VNone"
| "py_of_json (JBool b) = VBool b"
| "py_of_json (JInt i) = VInt i"
| "py_of_json (JFloat x) = VFloat x"
| "py_of_json (JStr s) = VStr s"
| "py_of_json (JArr js) = VList (map py_of_json js)"
| "py_of_json (JObj es) = VDict (map (\<lambda>(k, j). (VStr k, py_of_json j)) es)"

fun json_of_py :: "pyval \<Rightarrow> json" where
  "json_of_py (VBool b) = JBool b"
| "json_of_py (VInt i) = JInt i"
| "json_of_py (VFloat x) = JFloat x"
| "json_of_py (VStr s) = JStr s"
| "json_of_py (VList vs) = JArr (map json_of_py vs)"
| "json_of_py (VDict es) = JObj (map (\<lambda>(k, v). (case k of VStr s \<Rightarrow> s | _ \<Rightarrow> [], json_of_py v)) es)"
| "json_of_py _ = JNull"

definition require_json_object :: "string \<Rightarrow> pyval \<Rightarrow> (pystr \<times> json) list res" where
  "require_json_object context_name v =
     (if \<not> is_json_value v then Inl (TypeError (context_name @ '' must be a JSON object''))
      else case v of
        VDict es \<Rightarrow> (case json_of_py v of JObj ms \<Rightarrow> Inr ms | _ \<Rightarrow> Inr [])
      | _ \<Rightarrow> Inl (TypeError (context_name @ '' must be a JSON object'')))"

text \<open>\<open>_json_compatible\<close>; the raise inside a container abandons the whole conversion.\<close>

fun collect_res :: "'e + 'a \<Rightarrow> 'e + 'a list \<Rightarrow> 'e + 'a list" where
  "collect_res (Inl e) r = Inl e"
| "collect_res (Inr a) (Inl e) = Inl e"
| "collect_res (Inr a) (Inr xs) = Inr (a # xs)"

fun json_compatible :: "pyval \<Rightarrow> json res" and
  json_compatible_items :: "pyval list \<Rightarrow> json list res" and
  json_compatible_entries :: "(pyval \<times> pyval) list \<Rightarrow> (pystr \<times> json) list res" where
  "json_compatible VNone = Inr JNull"
| "json_compatible (VBool b) = Inr (JBool b)"
| "json_compatible (VInt i) = Inr (JInt i)"
| "json_compatible (VStr s) = Inr (JStr s)"
| "json_compatible (VFloat x) =
     (if \<not> isfinite x then Inl (TypeError ''JSON values must contain finite numbers'') else Inr (JFloat x))"
| "json_compatible (VList vs) = map_sum id JArr (json_compatible_items vs)"
| "json_compatible (VTuple vs) = map_sum id JArr (json_compatible_items vs)"
| "json_compatible (VDict es) = map_sum id JObj (json_compatible_entries es)"
| "json_compatible (VMapping es) = map_sum id JObj (json_compatible_entries es)"
| "json_compatible VOther = Inl (TypeError ''dataclass contains a non-JSON value'')"
| "json_compatible_items [] = Inr []"
| "json_compatible_items (v # vs) = collect_res (json_compatible v) (json_compatible_items vs)"
| "json_compatible_entries [] = Inr []"
| "json_compatible_entries ((k, v) # es) =
     (case k of
        VStr s \<Rightarrow> collect_res (map_sum id (Pair s) (json_compatible v)) (json_compatible_entries es)
      | _ \<Rightarrow> Inl (TypeError ''JSON object keys must be strings''))"

text \<open>
  \<open>dataclass_to_json\<close>; the first argument is \<open>asdict(value)\<close>, \<open>None\<close> when it raises \<open>TypeError\<close>
  because the value is not a dataclass instance.
\<close>

definition dataclass_to_json :: "pyval option \<Rightarrow> string \<Rightarrow> (pystr \<times> json) list res" where
  "dataclass_to_json payload context_name =
     (case payload of
        None \<Rightarrow> Inl (TypeError (context_name @ '' must be a dataclass instance''))
      | Some v \<Rightarrow> rbind (json_compatible v) (\<lambda>j. require_json_object context_name (py_of_json j)))"

section \<open>Decimal numbers\<close>

text \<open>\<^verbatim>\<open>str(i)\<close> of an integer, and the interpreter's limit of 4300 digits on both conversions.\<close>

fun nat_str :: "nat \<Rightarrow> pystr" where
  "nat_str n = (if n < 10 then [48 + n] else nat_str (n div 10) @ [48 + n mod 10])"

declare nat_str.simps [simp del]

definition int_str :: "int \<Rightarrow> pystr" where
  "int_str i = (if i < 0 then 45 # nat_str (nat (- i)) else nat_str (nat i))"

definition INT_MAX_STR_DIGITS :: nat where "INT_MAX_STR_DIGITS = 4300"

definition int_repr :: "int \<Rightarrow> pystr res" where
  "int_repr i =
     (if INT_MAX_STR_DIGITS < length (nat_str (nat \<bar>i\<bar>))
      then Inl (ValueError ''Exceeds the limit (4300 digits) for integer string conversion'')
      else Inr (int_str i))"

section \<open>Validation details\<close>

definition field_get :: "(pyval \<times> pyval) list \<Rightarrow> string \<Rightarrow> pyval" where
  "field_get es k = (case map_of es (VStr (codes k)) of None \<Rightarrow> VNone | Some v \<Rightarrow> v)"

fun location_part :: "pyval \<Rightarrow> pystr res option" where
  "location_part (VStr s) = Some (Inr s)"
| "location_part (VInt i) = Some (int_repr i)"
| "location_part _ = None"

fun location_strings :: "pyval list \<Rightarrow> pystr list res" where
  "location_strings [] = Inr []"
| "location_strings (p # ps) =
     (case location_part p of None \<Rightarrow> Inr [] | Some r \<Rightarrow> collect_res r (location_strings ps))"

definition validation_detail :: "pyval \<Rightarrow> (pystr \<times> json) list res" where
  "validation_detail entry =
     (case (case entry of VDict es \<Rightarrow> Some es | VMapping es \<Rightarrow> Some es | _ \<Rightarrow> None) of
        None \<Rightarrow> Inl (TypeError ''validation error must be an object'')
      | Some fs \<Rightarrow>
          (case field_get fs ''loc'' of
             VTuple ps \<Rightarrow>
               (if \<not> list_all (\<lambda>p. location_part p \<noteq> None) ps
                then Inl (TypeError ''validation error location is invalid'')
                else case (field_get fs ''msg'', field_get fs ''type'') of
                  (VStr m, VStr t) \<Rightarrow>
                    rbind (location_strings ps) (\<lambda>ls.
                      Inr [(codes ''location'', JStr (join_with [46] ls)), (codes ''message'', JStr m),
                           (codes ''type'', JStr t)])
                | _ \<Rightarrow> Inl (TypeError ''validation error text is invalid''))
           | _ \<Rightarrow> Inl (TypeError ''validation error location is invalid'')))"

fun detail_loop :: "pyval list \<Rightarrow> (pystr \<times> json) list list res" where
  "detail_loop [] = Inr []"
| "detail_loop (e # es) = collect_res (validation_detail e) (detail_loop es)"

definition validation_details :: "pyval \<Rightarrow> (pystr \<times> json) list list res" where
  "validation_details raw =
     (case raw of VList es \<Rightarrow> detail_loop es | _ \<Rightarrow> Inl (TypeError ''validation errors must be a list''))"

section \<open>The encoder\<close>

definition hex_char :: "nat \<Rightarrow> nat" where
  "hex_char d = (if d < 10 then 48 + d else 87 + d)"

definition hex_quad :: "nat \<Rightarrow> pystr" where
  "hex_quad n = [hex_char (n div 4096 mod 16), hex_char (n div 256 mod 16), hex_char (n div 16 mod 16), hex_char (n mod 16)]"

definition unicode_escape :: "nat \<Rightarrow> pystr" where
  "unicode_escape n = [92, 117] @ hex_quad n"

text \<open>One character of \<^verbatim>\<open>py_encode_basestring_ascii\<close> and \<^verbatim>\<open>py_encode_basestring\<close>.\<close>

definition encode_char :: "bool \<Rightarrow> nat \<Rightarrow> pystr" where
  "encode_char ascii c =
     (if c = 34 then [92, 34] else if c = 92 then [92, 92] else if c = 10 then [92, 110]
      else if c = 13 then [92, 114] else if c = 9 then [92, 116] else if c = 12 then [92, 102]
      else if c = 8 then [92, 98]
      else if c < 32 then unicode_escape c
      else if \<not> ascii \<or> c < 127 then [c]
      else if c < 65536 then unicode_escape c
      else unicode_escape (55296 + (c - 65536) div 1024) @ unicode_escape (56320 + (c - 65536) mod 1024))"

definition encode_string :: "bool \<Rightarrow> pystr \<Rightarrow> pystr" where
  "encode_string ascii s = [34] @ concat (map (encode_char ascii) s) @ [34]"

definition encode_float :: "(rat \<Rightarrow> pystr) \<Rightarrow> pyfloat \<Rightarrow> pystr res" where
  "encode_float float_repr x =
     (case x of Fin q \<Rightarrow> Inr (float_repr q)
      | _ \<Rightarrow> Inl (ValueError ''Out of range float values are not JSON compliant''))"

text \<open>
  \<^verbatim>\<open>json.dumps(value, allow_nan=False, ensure_ascii=ascii, sort_keys=sort, separators=(",", ":"))\<close>.
\<close>

fun dumps :: "(rat \<Rightarrow> pystr) \<Rightarrow> bool \<Rightarrow> bool \<Rightarrow> json \<Rightarrow> pystr res" where
  "dumps fr a so JNull = Inr (codes ''null'')"
| "dumps fr a so (JBool b) = Inr (if b then codes ''true'' else codes ''false'')"
| "dumps fr a so (JInt i) = int_repr i"
| "dumps fr a so (JFloat x) = encode_float fr x"
| "dumps fr a so (JStr s) = Inr (encode_string a s)"
| "dumps fr a so (JArr js) =
     rbind (foldr collect_res (map (dumps fr a so) js) (Inr [])) (\<lambda>ts. Inr ([91] @ join_with [44] ts @ [93]))"
| "dumps fr a so (JObj es) =
     (let ms = map (\<lambda>(k, j). (k, dumps fr a so j)) es;
          sorted = (if so then sort_key fst ms else ms)
      in rbind (foldr collect_res (map (\<lambda>(k, r). map_sum id (\<lambda>t. encode_string a k @ [58] @ t) r) sorted) (Inr []))
           (\<lambda>ts. Inr ([123] @ join_with [44] ts @ [125])))"

definition dump_json :: "(rat \<Rightarrow> pystr) \<Rightarrow> bool \<Rightarrow> json \<Rightarrow> pystr res" where
  "dump_json float_repr sort_keys v = dumps float_repr False sort_keys v"

section \<open>The decoder\<close>

text \<open>
  \<^verbatim>\<open>JSONDecoder\<close> and its C scanner on the characters still to be read. Every syntax error is a
  \<open>JSONDecodeError\<close>, a \<open>ValueError\<close>.
\<close>

definition decode_error :: "'a res" where
  "decode_error = Inl (ValueError ''JSONDecodeError'')"

definition unicode_quad :: "pystr \<Rightarrow> (nat \<times> pystr) option" where
  "unicode_quad r =
     (let ds = take 4 r
      in if length ds \<noteq> 4 \<or> \<not> list_all is_hex ds then None
         else Some (foldl (\<lambda>v d. v * 16 + hex_value d) 0 ds, drop 4 r))"

definition is_high :: "nat \<Rightarrow> bool" where "is_high c = (55296 \<le> c \<and> c \<le> 56319)"
definition is_low :: "nat \<Rightarrow> bool" where "is_low c = (56320 \<le> c \<and> c \<le> 57343)"

definition short_escape :: "nat \<Rightarrow> nat option" where
  "short_escape e =
     (if e = 34 then Some 34 else if e = 92 then Some 92 else if e = 47 then Some 47
      else if e = 98 then Some 8 else if e = 102 then Some 12 else if e = 110 then Some 10
      else if e = 114 then Some 13 else if e = 116 then Some 9 else None)"

text \<open>
  The character after a backslash. A high surrogate escape directly followed by a low surrogate
  escape is one character; any other high surrogate stays alone.
\<close>

definition scan_escape :: "pystr \<Rightarrow> (nat \<times> pystr) option" where
  "scan_escape r =
     (case r of
        [] \<Rightarrow> None
      | e # r1 \<Rightarrow>
          (case short_escape e of
             Some c \<Rightarrow> Some (c, r1)
           | None \<Rightarrow>
               if e \<noteq> 117 then None
               else case unicode_quad r1 of
                 None \<Rightarrow> None
               | Some (c, r2) \<Rightarrow>
                   if is_high c \<and> starts_with [92, 117] r2
                   then case unicode_quad (drop 2 r2) of
                          None \<Rightarrow> None
                        | Some (c2, r3) \<Rightarrow>
                            if is_low c2 then Some (65536 + (c - 55296) * 1024 + (c2 - 56320), r3)
                            else Some (c, r2)
                   else Some (c, r2)))"

lemma unicode_quad_length: "unicode_quad r = Some (c, r') \<Longrightarrow> length r' < length r"
  by (auto simp: unicode_quad_def Let_def split: if_splits)

lemma scan_escape_length: "scan_escape r = Some (c, r') \<Longrightarrow> length r' < length r"
  by (force simp: scan_escape_def split: list.splits option.splits if_splits dest!: unicode_quad_length)

text \<open>\<open>scanstring\<close>, after the opening quote.\<close>

function scan_string :: "pystr \<Rightarrow> (pystr \<times> pystr) option" where
  "scan_string r =
     (case r of
        [] \<Rightarrow> None
      | c # r1 \<Rightarrow>
          if c = 34 then Some ([], r1)
          else if c = 92
          then (case scan_escape r1 of
                  None \<Rightarrow> None
                | Some (d, r2) \<Rightarrow> map_option (\<lambda>(s, r3). (d # s, r3)) (scan_string r2))
          else if c \<le> 31 then None
          else map_option (\<lambda>(s, r2). (c # s, r2)) (scan_string r1))"
  by pat_completeness auto
termination
  by (relation "measure length") (auto dest: scan_escape_length)

declare scan_string.simps [simp del]

text \<open>
  The hooks of \<^verbatim>\<open>json.loads\<close>: \<open>object_pairs_hook\<close>, \<open>parse_constant\<close> and \<open>parse_float\<close>; \<open>None\<close> is
  the default behaviour.
\<close>

record json_hooks =
  object_pairs_hook :: "((pystr \<times> pyval) list \<Rightarrow> pyval res) option"
  parse_constant :: "(string \<Rightarrow> pyval res) option"
  parse_float :: "(pystr \<Rightarrow> pyval res) option"

definition no_hooks :: json_hooks where
  "no_hooks = \<lparr>object_pairs_hook = None, parse_constant = None, parse_float = None\<rparr>"

text \<open>
  \<open>_match_number\<close>: the text of the integer part with its sign, of the fraction and of the
  exponent, and the rest; a fraction or exponent without digits is not part of the number.
\<close>

definition scan_fraction :: "pystr \<Rightarrow> pystr \<times> pystr" where
  "scan_fraction r =
     (case r of
        c # r1 \<Rightarrow>
          (let ds = takeWhile is_digit r1
           in if c \<noteq> 46 \<or> ds = [] then ([], r) else (46 # ds, dropWhile is_digit r1))
      | [] \<Rightarrow> ([], r))"

definition scan_exponent :: "pystr \<Rightarrow> pystr \<times> pystr" where
  "scan_exponent r =
     (case r of
        e # r1 \<Rightarrow>
          if e = 101 \<or> e = 69
          then (let sign = (case r1 of c # _ \<Rightarrow> if c = 43 \<or> c = 45 then [c] else [] | [] \<Rightarrow> []);
                    r2 = drop (length sign) r1; ds = takeWhile is_digit r2
                in if ds = [] then ([], r) else (e # sign @ ds, dropWhile is_digit r2))
          else ([], r)
      | [] \<Rightarrow> ([], r))"

definition scan_integer :: "pystr \<Rightarrow> (pystr \<times> pystr) option" where
  "scan_integer r =
     (let ds = takeWhile is_digit r
      in if ds = [] then None
         else if hd ds = 48 then Some ([48], tl r)
         else Some (ds, dropWhile is_digit r))"

definition int_of_text :: "pystr \<Rightarrow> pyval res" where
  "int_of_text t =
     (let ds = (if starts_with [45] t then tl t else t)
      in if INT_MAX_STR_DIGITS < length ds
         then Inl (ValueError ''Exceeds the limit (4300 digits) for integer string conversion'')
         else Inr (VInt (signed_digits_value t)))"

definition scan_number :: "json_hooks \<Rightarrow> pystr \<Rightarrow> (pyval res \<times> pystr) option" where
  "scan_number h r =
     (let neg = starts_with [45] r; r1 = (if neg then tl r else r)
      in case scan_integer r1 of
           None \<Rightarrow> None
         | Some (ds, r2) \<Rightarrow>
             (let (fr, r3) = scan_fraction r2; (ex, r4) = scan_exponent r3;
                  t = (if neg then [45] else []) @ ds @ fr @ ex
              in Some (if fr = [] \<and> ex = [] then int_of_text t
                       else case parse_float h of None \<Rightarrow> Inr (VFloat (float_of_number t)) | Some f \<Rightarrow> f t,
                       r4)))"

definition constant_value :: "json_hooks \<Rightarrow> string \<Rightarrow> pyfloat \<Rightarrow> pyval res" where
  "constant_value h name x = (case parse_constant h of None \<Rightarrow> Inr (VFloat x) | Some f \<Rightarrow> f name)"

text \<open>Scalars other than strings; \<open>None\<close> is \<open>StopIteration\<close>.\<close>

definition scan_scalar :: "json_hooks \<Rightarrow> pystr \<Rightarrow> (pyval res \<times> pystr) option" where
  "scan_scalar h r =
     (if starts_with (codes ''null'') r then Some (Inr VNone, drop 4 r)
      else if starts_with (codes ''true'') r then Some (Inr (VBool True), drop 4 r)
      else if starts_with (codes ''false'') r then Some (Inr (VBool False), drop 5 r)
      else if starts_with (codes ''NaN'') r then Some (constant_value h ''NaN'' NaN, drop 3 r)
      else if starts_with (codes ''Infinity'') r then Some (constant_value h ''Infinity'' PInf, drop 8 r)
      else if starts_with (codes ''-Infinity'') r then Some (constant_value h ''-Infinity'' NInf, drop 9 r)
      else scan_number h r)"

definition make_object :: "json_hooks \<Rightarrow> (pystr \<times> pyval) list \<Rightarrow> pyval res" where
  "make_object h ps =
     (case object_pairs_hook h of
        None \<Rightarrow> Inr (VDict (foldl (\<lambda>d (k, v). dict_set d (VStr k) v) [] ps))
      | Some f \<Rightarrow> f ps)"

text \<open>
  \<open>scan_once\<close>, \<open>_parse_object\<close> and \<open>_parse_array\<close>. \<open>scan_members\<close> reads from the key of a member,
  \<open>scan_items\<close> from the value of an item. The outer \<open>None\<close> is exhausted fuel.
\<close>

fun scan_once :: "json_hooks \<Rightarrow> nat \<Rightarrow> pystr \<Rightarrow> (pyval \<times> pystr) res option" and
  scan_members :: "json_hooks \<Rightarrow> nat \<Rightarrow> (pystr \<times> pyval) list \<Rightarrow> pystr \<Rightarrow> ((pystr \<times> pyval) list \<times> pystr) res option" and
  scan_items :: "json_hooks \<Rightarrow> nat \<Rightarrow> pyval list \<Rightarrow> pystr \<Rightarrow> (pyval list \<times> pystr) res option" where
  "scan_once h 0 r = None"
| "scan_once h (Suc n) r =
     (case r of
        [] \<Rightarrow> Some decode_error
      | c # r1 \<Rightarrow>
          if c = 34
          then Some (case scan_string r1 of None \<Rightarrow> decode_error | Some (s, r2) \<Rightarrow> Inr (VStr s, r2))
          else if c = 123
          then (let r2 = dropWhile is_ws r1
                in if starts_with [125] r2 then Some (map_sum id (\<lambda>v. (v, tl r2)) (make_object h []))
                   else map_option (\<lambda>res. rbind res (\<lambda>(ps, r3). map_sum id (\<lambda>v. (v, r3)) (make_object h ps)))
                          (scan_members h n [] r2))
          else if c = 91
          then (let r2 = dropWhile is_ws r1
                in if starts_with [93] r2 then Some (Inr (VList [], tl r2))
                   else map_option (map_sum id (\<lambda>(vs, r3). (VList vs, r3))) (scan_items h n [] r2))
          else (case scan_scalar h r of
                  None \<Rightarrow> Some decode_error
                | Some (res, r2) \<Rightarrow> Some (map_sum id (\<lambda>v. (v, r2)) res)))"
| "scan_members h 0 ps r = None"
| "scan_members h (Suc n) ps r =
     (case consume_byte 34 r of
        None \<Rightarrow> Some decode_error
      | Some r1 \<Rightarrow>
          (case scan_string r1 of
             None \<Rightarrow> Some decode_error
           | Some (key, r2) \<Rightarrow>
               (case consume_byte 58 (dropWhile is_ws r2) of
                  None \<Rightarrow> Some decode_error
                | Some r3 \<Rightarrow>
                    (case scan_once h n (dropWhile is_ws r3) of
                       None \<Rightarrow> None
                     | Some (Inl e) \<Rightarrow> Some (Inl e)
                     | Some (Inr (v, r4)) \<Rightarrow>
                         (case dropWhile is_ws r4 of
                            [] \<Rightarrow> Some decode_error
                          | c # r5 \<Rightarrow>
                              if c = 125 then Some (Inr (ps @ [(key, v)], r5))
                              else if c = 44 then scan_members h n (ps @ [(key, v)]) (dropWhile is_ws r5)
                              else Some decode_error)))))"
| "scan_items h 0 vs r = None"
| "scan_items h (Suc n) vs r =
     (case scan_once h n r of
        None \<Rightarrow> None
      | Some (Inl e) \<Rightarrow> Some (Inl e)
      | Some (Inr (v, r1)) \<Rightarrow>
          (case dropWhile is_ws r1 of
             [] \<Rightarrow> Some decode_error
           | c # r2 \<Rightarrow>
               if c = 93 then Some (Inr (vs @ [v], r2))
               else if c = 44 then scan_items h n (vs @ [v]) (dropWhile is_ws r2)
               else Some decode_error))"

declare scan_once.simps [simp del] scan_members.simps [simp del] scan_items.simps [simp del]

text \<open>\<^verbatim>\<open>JSONDecoder.decode\<close>; the fuel exceeds the depth of calls on any text.\<close>

definition json_decode :: "json_hooks \<Rightarrow> pystr \<Rightarrow> pyval res option" where
  "json_decode h s =
     (let r = dropWhile is_ws s
      in map_option (\<lambda>res. rbind res (\<lambda>(v, r1). if dropWhile is_ws r1 = [] then Inr v else decode_error))
           (scan_once h (Suc (2 * length r)) r))"

section \<open>Text encodings\<close>

text \<open>
  \<^verbatim>\<open>bytes.decode(encoding, "surrogatepass")\<close> for the encodings that \<^verbatim>\<open>json.detect_encoding\<close> names,
  and \<^verbatim>\<open>str.encode("utf-8")\<close>, which refuses surrogates.
\<close>

definition utf8_feed_pass :: "utf8_state \<Rightarrow> nat \<Rightarrow> (utf8_state \<times> nat option) option" where
  "utf8_feed_pass st b =
     (if st = UStart \<and> b = 237 then Some (UCont 2 128 191 13, None) else utf8_feed st b)"

fun utf8_run_pass :: "utf8_state \<Rightarrow> bytes \<Rightarrow> pystr option" where
  "utf8_run_pass st [] = (if st = UStart then Some [] else None)"
| "utf8_run_pass st (b # bs) =
     (case utf8_feed_pass st b of
        None \<Rightarrow> None
      | Some (st', out) \<Rightarrow>
          map_option (\<lambda>cs. case out of None \<Rightarrow> cs | Some c \<Rightarrow> c # cs) (utf8_run_pass st' bs))"

fun units16 :: "bool \<Rightarrow> bytes \<Rightarrow> nat list option" where
  "units16 be [] = Some []"
| "units16 be [b] = None"
| "units16 be (a # b # bs) = map_option ((#) (if be then a * 256 + b else b * 256 + a)) (units16 be bs)"

fun join_units :: "nat list \<Rightarrow> pystr" where
  "join_units (a # b # us) =
     (if is_high a \<and> is_low b then (65536 + (a - 55296) * 1024 + (b - 56320)) # join_units us
      else a # join_units (b # us))"
| "join_units us = us"

definition utf16_decode :: "bool \<Rightarrow> bytes \<Rightarrow> pystr option" where
  "utf16_decode be bs = map_option join_units (units16 be bs)"

fun utf32_decode :: "bool \<Rightarrow> bytes \<Rightarrow> pystr option" where
  "utf32_decode be [] = Some []"
| "utf32_decode be (a # b # c # d # bs) =
     (let v = (if be then ((a * 256 + b) * 256 + c) * 256 + d else ((d * 256 + c) * 256 + b) * 256 + a)
      in if v < 1114112 then map_option ((#) v) (utf32_decode be bs) else None)"
| "utf32_decode be _ = None"

definition detect_and_decode :: "bytes \<Rightarrow> pystr option" where
  "detect_and_decode b =
     (if starts_with [0, 0, 254, 255] b then utf32_decode True (drop 4 b)
      else if starts_with [255, 254, 0, 0] b then utf32_decode False (drop 4 b)
      else if starts_with [254, 255] b then utf16_decode True (drop 2 b)
      else if starts_with [255, 254] b then utf16_decode False (drop 2 b)
      else if starts_with [239, 187, 191] b then utf8_run_pass UStart (drop 3 b)
      else if 4 \<le> length b \<and> b ! 0 = 0
      then if b ! 1 \<noteq> 0 then utf16_decode True b else utf32_decode True b
      else if 4 \<le> length b \<and> b ! 1 = 0
      then if b ! 2 \<noteq> 0 \<or> b ! 3 \<noteq> 0 then utf16_decode False b else utf32_decode False b
      else if length b = 2 \<and> b ! 0 = 0 then utf16_decode True b
      else if length b = 2 \<and> b ! 1 = 0 then utf16_decode False b
      else utf8_run_pass UStart b)"

definition encode_utf8 :: "pystr \<Rightarrow> bytes res" where
  "encode_utf8 s =
     (if list_ex (\<lambda>c. 55296 \<le> c \<and> c \<le> 57343) s then Inl (ValueError ''UnicodeEncodeError'')
      else Inr (concat (map utf8_encode s)))"

section \<open>Loading\<close>

datatype json_payload = JText pystr | JBytes bytes

text \<open>
  \<^verbatim>\<open>json.loads\<close>; \<open>json_decode\<close> always has fuel (\<open>json_decode_total\<close>), so the branch for \<open>None\<close> is
  never taken.
\<close>

definition json_loads :: "json_hooks \<Rightarrow> json_payload \<Rightarrow> pyval res" where
  "json_loads h p =
     rbind (case p of
              JText s \<Rightarrow> if starts_with [65279] s then decode_error else Inr s
            | JBytes b \<Rightarrow> (case detect_and_decode b of None \<Rightarrow> Inl (ValueError ''UnicodeDecodeError'') | Some s \<Rightarrow> Inr s))
       (\<lambda>s. case json_decode h s of None \<Rightarrow> decode_error | Some r \<Rightarrow> r)"

definition load_json_value :: "json_hooks \<Rightarrow> json_payload \<Rightarrow> pyval res" where
  "load_json_value h p =
     rbind (json_loads h p) (\<lambda>v.
       if \<not> is_json_value v then Inl (TypeError ''JSON decoder returned a non-JSON value'') else Inr v)"

section \<open>Termination of the decoder\<close>

lemma scan_string_length: "scan_string r = Some (s, r') \<Longrightarrow> length r' < length r"
proof (induction r arbitrary: s r' rule: scan_string.induct)
  case (1 r)
  then obtain c r1 where r: "r = c # r1" by (cases r) (auto simp: scan_string.simps)
  show ?case
  proof (cases "c = 92")
    case True
    with 1(3) obtain d r2 s' where e: "scan_escape r1 = Some (d, r2)" "scan_string r2 = Some (s', r')"
      by (subst (asm) scan_string.simps) (auto simp: r split: option.splits)
    show ?thesis using 1(1) [OF r _ True e(1) refl e(2)] scan_escape_length [OF e(1)] by (simp add: r True)
  next
    case False
    show ?thesis
      using 1(3) 1(2) [OF r _ False] False
      by (subst (asm) scan_string.simps) (auto simp: r less_Suc_eq split: if_splits)
  qed
qed

lemma length_dropWhile_less: "length xs < n \<Longrightarrow> length (dropWhile P xs) < n"
  using length_dropWhile_le [of P xs] by simp

lemma takeWhile_shortens: "takeWhile P xs \<noteq> [] \<Longrightarrow> length (dropWhile P xs) < length xs"
  by (cases xs) (auto simp: le_imp_less_Suc length_dropWhile_le split: if_splits)

lemma scan_integer_length: "scan_integer r = Some (ds, r') \<Longrightarrow> length r' < length r"
  by (cases r) (auto simp: scan_integer_def Let_def le_imp_less_Suc length_dropWhile_le split: if_splits)

lemma scan_fraction_length: "scan_fraction r = (t, r') \<Longrightarrow> length r' \<le> length r"
  by (auto simp: scan_fraction_def Let_def le_SucI length_dropWhile_le split: list.splits if_splits)

lemma scan_exponent_length: "scan_exponent r = (t, r') \<Longrightarrow> length r' \<le> length r"
  by (auto simp: scan_exponent_def Let_def le_SucI length_dropWhile_le split: list.splits if_splits)

lemma scan_number_length: "scan_number h r = Some (res, r') \<Longrightarrow> length r' < length r"
  by (cases r) (force simp: scan_number_def Let_def split: option.splits prod.splits if_splits
    dest!: scan_integer_length scan_fraction_length scan_exponent_length)+

lemma starts_with_drop_length: "starts_with p r \<Longrightarrow> p \<noteq> [] \<Longrightarrow> length (drop (length p) r) < length r"
  by (auto simp: starts_with_iff)

lemma scan_scalar_length: "scan_scalar h r = Some (res, r') \<Longrightarrow> length r' < length r"
  using starts_with_drop_length [of "codes ''null''" r] starts_with_drop_length [of "codes ''true''" r]
    starts_with_drop_length [of "codes ''false''" r] starts_with_drop_length [of "codes ''NaN''" r]
    starts_with_drop_length [of "codes ''Infinity''" r] starts_with_drop_length [of "codes ''-Infinity''" r]
  by (auto simp: scan_scalar_def split: if_splits dest: scan_number_length)


lemma map_sum_eq_Inr: "map_sum f g x = Inr y \<longleftrightarrow> (\<exists>z. x = Inr z \<and> y = g z)"
  by (cases x) auto

lemma consume_byte_eq: "consume_byte c r = Some r' \<longleftrightarrow> r = c # r'"
  by (auto simp: consume_byte_def split: list.splits)

lemma dropWhile_Cons_length: "dropWhile P xs = c # ys \<Longrightarrow> length ys < length xs"
  using length_dropWhile_le [of P xs] by simp

lemma scan_members_cases:
  assumes "scan_members h (Suc n) ps r = Some (Inr (qs, r'))"
  obtains r1 key r2 r3 v r4 c r5 where "r = 34 # r1" "scan_string r1 = Some (key, r2)"
    "dropWhile is_ws r2 = 58 # r3" "scan_once h n (dropWhile is_ws r3) = Some (Inr (v, r4))" "dropWhile is_ws r4 = c # r5"
    "c = 125 \<and> qs = ps @ [(key, v)] \<and> r' = r5
     \<or> scan_members h n (ps @ [(key, v)]) (dropWhile is_ws r5) = Some (Inr (qs, r'))"
  using assms by (auto simp: scan_members.simps decode_error_def consume_byte_eq
      split: option.splits sum.splits prod.splits list.splits if_splits)

lemma scan_items_cases:
  assumes "scan_items h (Suc n) vs r = Some (Inr (us, r'))"
  obtains v r1 c r2 where "scan_once h n r = Some (Inr (v, r1))" "dropWhile is_ws r1 = c # r2"
    "c = 93 \<and> us = vs @ [v] \<and> r' = r2 \<or> scan_items h n (vs @ [v]) (dropWhile is_ws r2) = Some (Inr (us, r'))"
  using assms by (auto simp: scan_items.simps decode_error_def split: option.splits sum.splits prod.splits list.splits if_splits)

lemma scan_once_cases:
  assumes "scan_once h (Suc n) r = Some (Inr (v, r'))"
  obtains (Str) r1 s where "r = 34 # r1" "scan_string r1 = Some (s, r')" "v = VStr s"
  | (Empty) r1 c where "r = c # r1" "dropWhile is_ws r1 \<noteq> []" "r' = tl (dropWhile is_ws r1)"
  | (Obj) r1 ps where "r = 123 # r1" "scan_members h n [] (dropWhile is_ws r1) = Some (Inr (ps, r'))" "make_object h ps = Inr v"
  | (Arr) r1 vs where "r = 91 # r1" "scan_items h n [] (dropWhile is_ws r1) = Some (Inr (vs, r'))" "v = VList vs"
  | (Scalar) "scan_scalar h r = Some (Inr v, r')"
proof -
  obtain c r1 where r: "r = c # r1" using assms by (cases r) (auto simp: scan_once.simps decode_error_def)
  let ?w = "dropWhile is_ws r1"
  have ne: "starts_with [b] ?w \<Longrightarrow> ?w \<noteq> []" for b by (cases ?w) (simp_all add: starts_with_def del: dropWhile_eq_Nil_conv)
  consider "c = 34" | "c = 123" "starts_with [125] ?w" | "c = 123" "\<not> starts_with [125] ?w"
    | "c = 91" "starts_with [93] ?w" | "c = 91" "\<not> starts_with [93] ?w" | "c \<noteq> 34" "c \<noteq> 123" "c \<noteq> 91" by blast
  then show thesis
  proof cases
    case 1
    with assms Str [of r1] show ?thesis by (auto simp: r scan_once.simps decode_error_def split: option.splits prod.splits)
  next
    case 2
    with assms Empty [of c r1] ne [of 125] show ?thesis by (auto simp: r scan_once.simps Let_def map_sum_eq_Inr)
  next
    case 3
    with assms Obj [of r1] show ?thesis
      by (auto simp: r scan_once.simps Let_def rbind_eq_Inr map_sum_eq_Inr)
  next
    case 4
    with assms Empty [of c r1] ne [of 93] show ?thesis by (auto simp: r scan_once.simps Let_def)
  next
    case 5
    with assms Arr [of r1] show ?thesis by (auto simp: r scan_once.simps Let_def map_sum_eq_Inr)
  next
    case 6
    with assms Scalar show ?thesis
      by (auto simp: r scan_once.simps decode_error_def map_sum_eq_Inr split: option.splits prod.splits)
  qed
qed

lemma scan_lengths:
  "scan_once h n r = Some (Inr (v, r')) \<Longrightarrow> length r' < length r"
  "scan_members h n ps r = Some (Inr (qs, r')) \<Longrightarrow> length r' < length r"
  "scan_items h n vs r = Some (Inr (us, r')) \<Longrightarrow> length r' < length r"
proof (induction n arbitrary: r v r' ps qs vs us)
  case 0
  { case 1 then show ?case by (simp add: scan_once.simps) next
    case 2 then show ?case by (simp add: scan_members.simps) next
    case 3 then show ?case by (simp add: scan_items.simps) }
next
  case (Suc n)
  { case 1
    then show ?case
    proof (cases rule: scan_once_cases)
      case (Str r1 s)
      then show ?thesis using scan_string_length [of r1] by simp
    next
      case (Empty r1 c)
      then show ?thesis using length_dropWhile_le [of is_ws r1] by (simp add: le_imp_less_Suc)
    next
      case (Obj r1 ps)
      then show ?thesis using Suc.IH(2) [OF Obj(2)] length_dropWhile_le [of is_ws r1] by simp
    next
      case (Arr r1 vs)
      then show ?thesis using Suc.IH(3) [OF Arr(2)] length_dropWhile_le [of is_ws r1] by simp
    next
      case Scalar
      then show ?thesis by (rule scan_scalar_length)
    qed
  next
    case 2
    then obtain r1 key r2 r3 v r4 c r5 where m: "r = 34 # r1" "scan_string r1 = Some (key, r2)"
      "dropWhile is_ws r2 = 58 # r3" "scan_once h n (dropWhile is_ws r3) = Some (Inr (v, r4))" "dropWhile is_ws r4 = c # r5"
      "r' = r5 \<or> scan_members h n (ps @ [(key, v)]) (dropWhile is_ws r5) = Some (Inr (qs, r'))"
      by (elim scan_members_cases) blast
    have "length r' \<le> length r5" using m(6) Suc.IH(2) length_dropWhile_le [of is_ws r5] by fastforce
    then show ?case
      using scan_string_length [OF m(2)] dropWhile_Cons_length [OF m(3)] Suc.IH(1) [OF m(4)]
        dropWhile_Cons_length [OF m(5)] length_dropWhile_le [of is_ws r3] by (simp add: m(1))
  next
    case 3
    then obtain v r1 c r2 where m: "scan_once h n r = Some (Inr (v, r1))" "dropWhile is_ws r1 = c # r2"
      "r' = r2 \<or> scan_items h n (vs @ [v]) (dropWhile is_ws r2) = Some (Inr (us, r'))"
      by (elim scan_items_cases) blast
    have "length r' \<le> length r2" using m(3) Suc.IH(3) length_dropWhile_le [of is_ws r2] by fastforce
    then show ?case using Suc.IH(1) [OF m(1)] dropWhile_Cons_length [OF m(2)] by simp }
qed


lemma scan_fuel:
  "2 * length r < n \<Longrightarrow> scan_once h n r \<noteq> None"
  "2 * length r < n \<Longrightarrow> scan_members h n ps r \<noteq> None"
  "2 * length r + 1 < n \<Longrightarrow> scan_items h n vs r \<noteq> None"
proof (induction n arbitrary: r ps vs)
  case 0
  { case 1 then show ?case by simp next
    case 2 then show ?case by simp next
    case 3 then show ?case by simp }
next
  case (Suc n)
  { case 1
    then have "length (dropWhile is_ws r1) \<le> length r1" "r = c # r1 \<Longrightarrow> 2 * length r1 + 1 < n" for c r1
      by (auto simp: length_dropWhile_le)
    then have "scan_members h n [] (dropWhile is_ws r1) \<noteq> None" "scan_items h n [] (dropWhile is_ws r1) \<noteq> None"
      if "r = c # r1" for c r1
      using Suc.IH(2) [of "dropWhile is_ws r1" "[]"] Suc.IH(3) [of "dropWhile is_ws r1" "[]"] that
      by (smt (verit) add_lessD1 le_less_trans mult_le_mono2 add_le_mono1)+
    then show ?case
      by (auto simp: scan_once.simps Let_def split: list.splits option.splits prod.splits)
  next
    case 2
    have a: "scan_once h n (dropWhile is_ws r3) \<noteq> None"
      if "r = 34 # r1" "scan_string r1 = Some (key, r2)" "dropWhile is_ws r2 = 58 # r3" for r1 key r2 r3
      using scan_string_length [OF that(2)] dropWhile_Cons_length [OF that(3)] length_dropWhile_le [of is_ws r3] 2 that(1)
      by (intro Suc.IH(1)) simp
    have b: "scan_members h n qs (dropWhile is_ws r5) \<noteq> None"
      if "r = 34 # r1" "scan_string r1 = Some (key, r2)" "dropWhile is_ws r2 = 58 # r3"
        "scan_once h n (dropWhile is_ws r3) = Some (Inr (v, r4))" "dropWhile is_ws r4 = c # r5" for r1 key r2 r3 v r4 c r5 qs
      using scan_string_length [OF that(2)] dropWhile_Cons_length [OF that(3)] length_dropWhile_le [of is_ws r3] 2 that(1)
        scan_lengths(1) [OF that(4)] dropWhile_Cons_length [OF that(5)] length_dropWhile_le [of is_ws r5]
      by (intro Suc.IH(2)) simp
    show ?case
      by (auto simp: scan_members.simps consume_byte_eq split: option.splits sum.splits prod.splits list.splits
          dest: a b)
  next
    case 3
    then have "scan_once h n r \<noteq> None" by (intro Suc.IH(1)) simp
    moreover have "scan_items h n us (dropWhile is_ws r2) \<noteq> None"
      if "scan_once h n r = Some (Inr (v, r1))" "dropWhile is_ws r1 = c # r2" for v r1 c r2 us
      using scan_lengths(1) [OF that(1)] dropWhile_Cons_length [OF that(2)] length_dropWhile_le [of is_ws r2] 3
      by (intro Suc.IH(3)) simp
    ultimately show ?case
      by (auto simp: scan_items.simps split: option.splits sum.splits prod.splits list.splits) }
qed

lemma json_decode_total: "json_decode h s \<noteq> None"
  by (simp add: json_decode_def Let_def scan_fuel(1))


section \<open>Shape of JSON values\<close>

fun finite_floats :: "json \<Rightarrow> bool" where
  "finite_floats (JFloat x) = isfinite x"
| "finite_floats (JArr js) = list_all finite_floats js"
| "finite_floats (JObj es) = list_all (\<lambda>(k, j). finite_floats j) es"
| "finite_floats _ = True"

lemma py_of_json_inject [simp]: "json_of_py (py_of_json j) = j"
  by (induction j) (auto intro!: map_idI)

lemma py_of_json_value: "is_json_value (py_of_json j) = finite_floats j"
  by (induction j) (auto simp: list_all_iff split: prod.splits)

lemma json_of_py_value: "is_json_value v \<Longrightarrow> py_of_json (json_of_py v) = v"
proof (induction v)
  case (VDict es)
  have "(VStr (case k of VStr s \<Rightarrow> s | _ \<Rightarrow> []), py_of_json (json_of_py v)) = (k, v)" if "(k, v) \<in> set es" for k v
    using VDict.prems VDict.IH(2) [of "(k, v)" v] that by (cases k) (auto simp: list_all_iff)
  then show ?case by (auto intro!: map_idI)
qed (auto simp: list_all_iff intro!: map_idI)

lemma is_json_value_iff: "is_json_value v \<longleftrightarrow> (\<exists>j. finite_floats j \<and> v = py_of_json j)"
  using json_of_py_value py_of_json_value by metis

lemma json_compatible_finite:
  "json_compatible v = Inr j \<Longrightarrow> finite_floats j"
  "json_compatible_items vs = Inr js \<Longrightarrow> list_all finite_floats js"
  "json_compatible_entries es = Inr ms \<Longrightarrow> list_all (\<lambda>(k, j). finite_floats j) ms"
proof (induction v and vs and es arbitrary: j and js and ms
    rule: json_compatible_json_compatible_items_json_compatible_entries.induct)
  case (12 v vs)
  then show ?case by (cases "json_compatible v"; cases "json_compatible_items vs") auto
next
  case (14 k v es)
  then show ?case by (cases k; cases "json_compatible v"; cases "json_compatible_entries es") auto
qed (auto simp: map_sum_eq_Inr split: if_splits)

lemma json_compatible_id:
  "finite_floats j \<Longrightarrow> json_compatible (py_of_json j) = Inr j"
proof (induction j)
  case (JArr js)
  then have "json_compatible_items (map py_of_json js) = Inr js" by (induction js) auto
  then show ?case by simp
next
  case (JObj es)
  have "json_compatible_entries (map (\<lambda>(k, j). (VStr k, py_of_json j)) es) = Inr es"
    using JObj by (induction es) (auto simp: list_all_iff, fastforce)
  then show ?case by simp
qed auto



text \<open>
  C34. The JSON boundary is typed. Whatever bytes, text and hooks it is given, the loader returns a
  value only when it is one \<open>JsonValue\<close> with finite floats; the conversion of dataclass containers
  returns only such values and leaves each of them unchanged, and the dataclass serialisation returns an
  object exactly when the converted payload is a mapping.
\<close>

theorem json_boundary_is_typed:
  "(\<forall>h p v. load_json_value h p = Inr v \<longrightarrow> (\<exists>!j. finite_floats j \<and> v = py_of_json j))
   \<and> (\<forall>v j. json_compatible v = Inr j \<longrightarrow> finite_floats j \<and> json_compatible (py_of_json j) = Inr j)
   \<and> (\<forall>j. finite_floats j \<longrightarrow> json_compatible (py_of_json j) = Inr j)
   \<and> (\<forall>v c ms. dataclass_to_json (Some v) c = Inr ms \<longleftrightarrow> json_compatible v = Inr (JObj ms))"
proof (intro conjI allI impI)
  fix h p v
  assume "load_json_value h p = Inr v"
  then have "is_json_value v" by (auto simp: load_json_value_def rbind_eq_Inr split: if_splits)
  then obtain j where "finite_floats j" "v = py_of_json j" by (auto simp: is_json_value_iff)
  moreover have "j' = j" if "py_of_json j' = py_of_json j" for j' using that py_of_json_inject by metis
  ultimately show "\<exists>!j. finite_floats j \<and> v = py_of_json j" by metis
next
  fix v c ms
  show "dataclass_to_json (Some v) c = Inr ms \<longleftrightarrow> json_compatible v = Inr (JObj ms)" (is "?l \<longleftrightarrow> ?r")
  proof -
    have "require_json_object c (py_of_json j) = Inr ms \<longleftrightarrow> j = JObj ms" if "finite_floats j" for j
      using that py_of_json_inject [of j] py_of_json_value [of j]
      by (cases j) (auto simp: require_json_object_def)
    then show ?thesis using json_compatible_finite(1) by (auto simp: dataclass_to_json_def rbind_eq_Inr)
  qed
qed (simp_all add: json_compatible_id json_compatible_finite)

theorem json_boundary_is_typed_witness:
  "load_json_value no_hooks (JText (codes ''[1,{}]'')) = Inr (VList [VInt 1, VDict []])
   \<and> (\<exists>!j. finite_floats j \<and> VList [VInt 1, VDict []] = py_of_json j)"
proof -
  have "load_json_value no_hooks (JText (codes ''[1,{}]'')) = Inr (VList [VInt 1, VDict []])" by code_simp
  then show ?thesis by (intro conjI json_boundary_is_typed [THEN conjunct1, rule_format])
qed

end
