(* ===== verification/Nplg_Json_Text.thy ===== *)
theory Nplg_Json_Text
  imports Nplg_Json
begin

text \<open>
  The encoder and the decoder of \<^verbatim>\<open>src/nplg_mcp/json_types.py\<close> are inverse to each other: what the
  decoder reads from an encoded string, number, array or object, and the round trip of whole values.
\<close>

section \<open>Round trip\<close>

text \<open>
  Strings whose escapes decode to themselves: code points below \<open>0x110000\<close>, and with
  \<open>ensure_ascii\<close> no high surrogate directly before a low one.
\<close>

fun no_split_pair :: "pystr \<Rightarrow> bool" where
  "no_split_pair (a # b # s) = (\<not> (is_high a \<and> is_low b) \<and> no_split_pair (b # s))"
| "no_split_pair _ = True"

definition text_ok :: "bool \<Rightarrow> pystr \<Rightarrow> bool" where
  "text_ok ascii s = (list_all (\<lambda>c. c < 1114112) s \<and> (ascii \<longrightarrow> no_split_pair s))"

lemma text_ok_Cons: "text_ok ascii (c # s) \<Longrightarrow> text_ok ascii s"
  by (cases s) (auto simp: text_ok_def)

lemma hex_char_digit: "d < 16 \<Longrightarrow> is_hex (hex_char d)" "d < 16 \<Longrightarrow> hex_value (hex_char d) = d"
  by (auto simp: hex_char_def is_hex_def is_digit_def hex_value_def)

lemma unicode_quad_hex: "n < 65536 \<Longrightarrow> unicode_quad (hex_quad n @ r) = Some (n, r)"
proof -
  assume n: "n < 65536"
  define a b c where "a = n div 16" "b = a div 16" "c = b div 16"
  have d: "n div 256 = b" "n div 4096 = c" by (simp_all add: a_b_c_def div_mult2_eq [symmetric])
  have "c < 16" using n by (simp add: d [symmetric])
  moreover have "a = b * 16 + a mod 16" "b = c * 16 + b mod 16" "n = a * 16 + n mod 16" by (simp_all add: a_b_c_def)
  ultimately show ?thesis
    by (simp add: unicode_quad_def hex_quad_def hex_char_digit Let_def d a_b_c_def(1) [symmetric])
qed

lemma scan_escape_unicode:
  "n < 65536 \<Longrightarrow> \<not> is_high n \<Longrightarrow> scan_escape (117 # hex_quad n @ r) = Some (n, r)"
  by (simp add: scan_escape_def short_escape_def unicode_quad_hex)

lemma scan_escape_lone:
  assumes "n < 65536" "\<And>r'. r = 92 # 117 # r' \<Longrightarrow> \<exists>c r''. unicode_quad r' = Some (c, r'') \<and> \<not> is_low c"
  shows "scan_escape (117 # hex_quad n @ r) = Some (n, r)"
proof (cases "is_high n \<and> starts_with [92, 117] r")
  case True
  then obtain r' where r: "r = 92 # 117 # r'" by (auto simp: starts_with_iff)
  then obtain c r'' where "unicode_quad r' = Some (c, r'')" "\<not> is_low c" using assms(2) by blast
  then show ?thesis using True assms(1) by (simp add: scan_escape_def short_escape_def unicode_quad_hex r)
qed (use assms(1) in \<open>auto simp: scan_escape_def short_escape_def unicode_quad_hex\<close>)

lemma scan_escape_astral:
  assumes "65536 \<le> c" "c < 1114112"
  shows "scan_escape (117 # hex_quad (55296 + (c - 65536) div 1024) @ unicode_escape (56320 + (c - 65536) mod 1024) @ r)
    = Some (c, r)"
proof -
  have "(c - 65536) div 1024 < 1024" using assms by (simp add: less_mult_imp_div_less)
  then show ?thesis
    using assms
    by (simp add: scan_escape_def short_escape_def unicode_escape_def unicode_quad_hex is_high_def is_low_def starts_with_def)
qed

text \<open>What follows an escaped lone high surrogate is never read as its second half.\<close>

lemma encoded_not_low:
  assumes "concat (map (encode_char True) s) @ 34 # r = 92 # 117 # r'" "text_ok True s" "\<And>b t. s = b # t \<Longrightarrow> \<not> is_low b"
  shows "\<exists>c r''. unicode_quad r' = Some (c, r'') \<and> \<not> is_low c"
proof -
  obtain b t where s: "s = b # t" using assms(1) by (cases s) auto
  let ?r = "concat (map (encode_char True) t) @ 34 # r"
  have b: "b < 1114112" using assms(2) by (simp add: text_ok_def s)
  have e: "encode_char True b @ ?r = 92 # 117 # r'" using assms(1) by (simp add: s)
  show ?thesis
  proof (cases "b < 65536")
    case True
    then have "r' = hex_quad b @ ?r" using e by (auto simp: encode_char_def unicode_escape_def split: if_splits)
    then show ?thesis using True assms(3) [OF s] by (simp add: unicode_quad_hex)
  next
    case False
    then have "r' = hex_quad (55296 + (b - 65536) div 1024) @ unicode_escape (56320 + (b - 65536) mod 1024) @ ?r"
      using e by (auto simp: encode_char_def unicode_escape_def)
    moreover have "(b - 65536) div 1024 < 1024" using b by (simp add: less_mult_imp_div_less)
    ultimately show ?thesis by (simp add: unicode_quad_hex is_low_def)
  qed
qed

lemma scan_string_escape:
  "scan_escape r1 = Some (d, r2) \<Longrightarrow> scan_string (92 # r1) = map_option (\<lambda>(s, r3). (d # s, r3)) (scan_string r2)"
  by (subst scan_string.simps) simp

lemma scan_string_literal:
  "31 < c \<Longrightarrow> c \<noteq> 34 \<Longrightarrow> c \<noteq> 92 \<Longrightarrow> scan_string (c # r) = map_option (\<lambda>(s, r2). (c # s, r2)) (scan_string r)"
  by (subst scan_string.simps) simp

lemma scan_encoded_char:
  assumes "text_ok ascii (c # s)"
  shows "scan_string (encode_char ascii c @ concat (map (encode_char ascii) s) @ 34 # r)
    = map_option (\<lambda>(t, r2). (c # t, r2)) (scan_string (concat (map (encode_char ascii) s) @ 34 # r))"
proof -
  let ?r = "concat (map (encode_char ascii) s) @ 34 # r"
  have c: "c < 1114112" using assms by (simp add: text_ok_def)
  have sh: "scan_escape (e # ?r) = Some (d, ?r)" if "short_escape e = Some d" for e d
    using that by (simp add: scan_escape_def)
  consider "c \<in> {34, 92, 10, 13, 9, 12, 8}" | "c < 32" "c \<notin> {34, 92, 10, 13, 9, 12, 8}"
    | "32 \<le> c" "\<not> ascii \<or> c < 127" "c \<notin> {34, 92}" | "ascii" "127 \<le> c" "c < 65536" | "ascii" "65536 \<le> c" by force
  then show ?thesis
  proof cases
    case 1
    then show ?thesis using sh by (auto simp: encode_char_def short_escape_def scan_string_escape)
  next
    case 2
    then show ?thesis
      by (simp add: encode_char_def unicode_escape_def scan_string_escape scan_escape_unicode is_high_def)
  next
    case 3
    then show ?thesis by (auto simp: encode_char_def scan_string_literal)
  next
    case 4
    have "scan_escape (117 # hex_quad c @ ?r) = Some (c, ?r)"
    proof (cases "is_high c")
      case True
      have "\<exists>d r''. unicode_quad r' = Some (d, r'') \<and> \<not> is_low d" if "?r = 92 # 117 # r'" for r'
        using that encoded_not_low [of s r r'] assms True 4(1) text_ok_Cons [OF assms] by (cases s) (auto simp: text_ok_def)
      then show ?thesis using 4(3) by (rule scan_escape_lone [rotated])
    qed (simp add: scan_escape_unicode 4(3))
    then show ?thesis using 4 by (simp add: encode_char_def unicode_escape_def scan_string_escape)
  next
    case 5
    then show ?thesis using scan_escape_astral [OF 5(2) c]
      by (simp add: encode_char_def unicode_escape_def scan_string_escape)
  qed
qed

lemma scan_encoded_string:
  "text_ok ascii s \<Longrightarrow> scan_string (concat (map (encode_char ascii) s) @ 34 # r) = Some (s, r)"
proof (induction s)
  case Nil
  show ?case by (subst scan_string.simps) simp
next
  case (Cons c s)
  then show ?case using scan_encoded_char [of ascii c s r] text_ok_Cons [of ascii c s] by simp
qed

lemma nat_str_digits: "digits (nat_str n)"
proof (induction n rule: nat_str.induct)
  case (1 n)
  then show ?case by (cases "n < 10") (auto simp: nat_str.simps [of n] digits_def is_digit_def)
qed

lemma nat_str_nonempty [simp]: "nat_str n \<noteq> []"
  using nat_str_digits [of n] by (auto simp: digits_def)

lemma nat_str_value: "digits_value (nat_str n) = n"
proof (induction n rule: nat_str.induct)
  case (1 n)
  then show ?case by (cases "n < 10") (auto simp: nat_str.simps [of n] digits_value_def)
qed

lemma nat_str_no_zero: "hd (nat_str n) = 48 \<Longrightarrow> nat_str n = [48]"
proof (induction n rule: nat_str.induct)
  case (1 n)
  show ?case
  proof (cases "n < 10")
    case True
    then show ?thesis using 1(2) by (auto simp: nat_str.simps [of n] nat_str.simps [of 0])
  next
    case False
    then have h: "hd (nat_str n) = hd (nat_str (n div 10))" by (simp add: nat_str.simps [of n])
    then have "nat_str (n div 10) = [48]" using 1 False by simp
    then have "n div 10 = 0" using nat_str_value [of "n div 10"] by (simp add: digits_value_def)
    then show ?thesis using False by simp
  qed
qed

definition number_end :: "pystr \<Rightarrow> bool" where
  "number_end r = (case r of [] \<Rightarrow> True | c # _ \<Rightarrow> \<not> is_digit c \<and> c \<noteq> 46 \<and> c \<noteq> 101 \<and> c \<noteq> 69)"

lemma takeWhile_digits:
  assumes "list_all is_digit ds" "\<And>c t. r = c # t \<Longrightarrow> \<not> is_digit c"
  shows "takeWhile is_digit (ds @ r) = ds" "dropWhile is_digit (ds @ r) = r"
  using assms by (cases r; auto simp: list_all_iff takeWhile_append dropWhile_append)+

lemma scan_integer_digits:
  assumes "digits ds" "hd ds = 48 \<longrightarrow> ds = [48]" "\<And>c t. r = c # t \<Longrightarrow> \<not> is_digit c"
  shows "scan_integer (ds @ r) = Some (ds, r)"
  using takeWhile_digits [of ds r] assms by (auto simp: scan_integer_def digits_def Let_def)

text \<open>The shape of the text of a finite float: a JSON number with a fraction or an exponent.\<close>

definition float_literal :: "pystr \<Rightarrow> bool" where
  "float_literal t =
     (\<exists>sg ds fr ex. t = sg @ ds @ fr @ ex \<and> (sg = [] \<or> sg = [45]) \<and> digits ds \<and> (hd ds = 48 \<longrightarrow> ds = [48])
        \<and> (fr = [] \<or> jfraction fr) \<and> (ex = [] \<or> jexponent ex) \<and> (fr \<noteq> [] \<or> ex \<noteq> []))"

lemma scan_fraction_text:
  assumes "fr = [] \<or> jfraction fr" "\<And>c t. r = c # t \<Longrightarrow> \<not> is_digit c \<and> c \<noteq> 46"
  shows "scan_fraction (fr @ r) = (fr, r)"
proof -
  consider "fr = []" | ds where "fr = 46 # ds" "digits ds" using assms(1) by (auto simp: jfraction_def)
  then show ?thesis
  proof cases
    case 1
    then show ?thesis using assms(2) by (cases r) (auto simp: scan_fraction_def Let_def)
  next
    case 2
    then show ?thesis using takeWhile_digits [of ds r] assms(2)
      by (auto simp: scan_fraction_def Let_def digits_def)
  qed
qed

lemma scan_exponent_text:
  assumes "ex = [] \<or> jexponent ex" "\<And>c t. r = c # t \<Longrightarrow> \<not> is_digit c \<and> c \<noteq> 101 \<and> c \<noteq> 69"
  shows "scan_exponent (ex @ r) = (ex, r)"
proof -
  consider "ex = []" | e sg ds where "ex = e # sg @ ds" "e = 101 \<or> e = 69" "sg = [] \<or> sg = [43] \<or> sg = [45]" "digits ds"
    using assms(1) by (auto simp: jexponent_def)
  then show ?thesis
  proof cases
    case 1
    then show ?thesis using assms(2) by (cases r) (auto simp: scan_exponent_def Let_def)
  next
    case 2
    obtain d ds' where ds: "ds = d # ds'" "is_digit d" using 2(4) by (cases ds) (auto simp: digits_def)
    have t: "takeWhile is_digit (ds @ r) = ds" "dropWhile is_digit (ds @ r) = r"
      using takeWhile_digits [of ds r] 2(4) assms(2) by (auto simp: digits_def)
    have n: "d \<noteq> 43" "d \<noteq> 45" using ds(2) by (auto simp: is_digit_def)
    let ?sign = "case sg @ ds @ r of c # _ \<Rightarrow> if c = 43 \<or> c = 45 then [c] else [] | [] \<Rightarrow> []"
    have "?sign = sg" using 2(3) n by (auto simp: ds(1))
    then show ?thesis using 2 t ds(1)
      by (simp add: scan_exponent_def Let_def)
  qed
qed

lemma number_end_Cons: "number_end (c # t) \<longleftrightarrow> \<not> is_digit c \<and> c \<noteq> 46 \<and> c \<noteq> 101 \<and> c \<noteq> 69"
  by (simp add: number_end_def)

lemma scan_number_text:
  assumes "sg = [] \<or> sg = [45]" "digits ds" "hd ds = 48 \<longrightarrow> ds = [48]" "fr = [] \<or> jfraction fr" "ex = [] \<or> jexponent ex"
    and "number_end r"
  shows "scan_number h (sg @ ds @ fr @ ex @ r) =
    Some (if fr = [] \<and> ex = [] then int_of_text (sg @ ds)
          else case parse_float h of None \<Rightarrow> Inr (VFloat (float_of_number (sg @ ds @ fr @ ex))) | Some f \<Rightarrow> f (sg @ ds @ fr @ ex), r)"
proof -
  have e: "\<not> is_digit c \<and> c \<noteq> 46" if "ex @ r = c # t" for c t
    using that assms(5,6) by (cases ex) (auto simp: jexponent_def is_digit_def number_end_Cons)
  have f: "\<not> is_digit c" if "fr @ ex @ r = c # t" for c t
    using that e assms(4) by (cases fr) (auto simp: jfraction_def is_digit_def)
  have x: "scan_exponent (ex @ r) = (ex, r)"
    using assms(5,6) by (intro scan_exponent_text) (auto simp: number_end_Cons)
  obtain d ds' where ds: "ds = d # ds'" "is_digit d" using assms(2) by (cases ds) (auto simp: digits_def)
  have "starts_with [45] (sg @ ds @ fr @ ex @ r) \<longleftrightarrow> sg = [45]"
    using assms(1) ds by (auto simp: starts_with_def is_digit_def)
  moreover have "(if sg = [45] then tl (sg @ ds @ fr @ ex @ r) else sg @ ds @ fr @ ex @ r) = ds @ fr @ ex @ r"
    using assms(1) by auto
  moreover have "(if sg = [45] then [45] else []) = sg" using assms(1) by auto
  ultimately show ?thesis
    using scan_integer_digits [OF assms(2,3) f] scan_fraction_text [OF assms(4) e] x
    by (simp add: scan_number_def Let_def)
qed

lemma scan_number_int:
  assumes "length (nat_str (nat \<bar>i\<bar>)) \<le> INT_MAX_STR_DIGITS" "number_end r"
  shows "scan_number h (int_str i @ r) = Some (Inr (VInt i), r)"
proof -
  let ?sg = "if i < 0 then [45] else [] :: pystr" and ?ds = "nat_str (nat \<bar>i\<bar>)"
  have t: "int_str i = ?sg @ ?ds" by (simp add: int_str_def)
  have d: "\<not> starts_with [45] ?ds" "\<not> starts_with [43] ?ds"
    using nat_str_digits [of "nat \<bar>i\<bar>"] by (cases ?ds; auto simp: starts_with_def digits_def is_digit_def)+
  have "scan_number h (?sg @ ?ds @ [] @ [] @ r) = Some (int_of_text (?sg @ ?ds), r)"
    using scan_number_text [of ?sg ?ds "[]" "[]" r h] nat_str_digits nat_str_no_zero assms(2) by simp
  moreover have "int_of_text (?sg @ ?ds) = Inr (VInt i)"
    using assms(1) d by (auto simp: int_of_text_def signed_digits_value_def nat_str_value starts_with_def)
  ultimately show ?thesis by (simp add: t)
qed

lemma scan_number_float:
  assumes "float_literal t" "number_end r" "parse_float h = None"
  shows "scan_number h (t @ r) = Some (Inr (VFloat (float_of_number t)), r)"
proof -
  obtain sg ds fr ex where t: "t = sg @ ds @ fr @ ex" "sg = [] \<or> sg = [45]" "digits ds" "hd ds = 48 \<longrightarrow> ds = [48]"
    "fr = [] \<or> jfraction fr" "ex = [] \<or> jexponent ex" "fr \<noteq> [] \<or> ex \<noteq> []"
    using assms(1) by (auto simp: float_literal_def)
  then show ?thesis using scan_number_text [OF t(2-6) assms(2), of h] assms(3) by auto
qed

text \<open>A text that begins as a number is scanned as one.\<close>

definition number_start :: "pystr \<Rightarrow> bool" where
  "number_start t = (peek_is is_digit t \<or> starts_with [45] t \<and> peek_is is_digit (tl t))"

lemma number_start_digits:
  assumes "digits ds" "sg = [] \<or> sg = [45]"
  shows "number_start (sg @ ds @ r)"
  using assms by (cases ds) (auto simp: number_start_def digits_def peek_is_def starts_with_def)

lemma number_start_int: "number_start (int_str i @ r)"
  using number_start_digits [OF nat_str_digits, of "[]" "nat i" r] number_start_digits [OF nat_str_digits, of "[45]" "nat (- i)" r]
  by (simp add: int_str_def)

lemma number_start_float: "float_literal t \<Longrightarrow> number_start (t @ r)"
  unfolding float_literal_def using number_start_digits by (metis append.assoc)

lemma scan_once_number:
  assumes "number_start t"
  shows "scan_once h (Suc n) t = (case scan_number h t of None \<Rightarrow> Some decode_error
    | Some (res, r2) \<Rightarrow> Some (map_sum id (\<lambda>v. (v, r2)) res))"
proof -
  obtain c t' where t: "t = c # t'" "c = 45 \<or> is_digit c" "c = 45 \<Longrightarrow> \<exists>d t2. t' = d # t2 \<and> is_digit d"
    using assms by (cases t) (auto simp: number_start_def peek_is_def starts_with_def split: list.splits simp: is_digit_def)
  have "scan_scalar h t = scan_number h t"
    using t by (auto simp: scan_scalar_def starts_with_iff is_digit_def)
  moreover have "c \<noteq> 34" "c \<noteq> 123" "c \<noteq> 91" using t(2) by (auto simp: is_digit_def)
  ultimately show ?thesis by (simp add: scan_once.simps t(1))
qed

text \<open>
  The values that survive the round trip: integers and floats within the interpreter's text limits,
  strings that the escapes can carry, and objects with distinct keys, as every \<^verbatim>\<open>dict\<close> has.
\<close>

fun dumpable :: "(rat \<Rightarrow> pystr) \<Rightarrow> bool \<Rightarrow> json \<Rightarrow> bool" where
  "dumpable fr a (JInt i) = (length (nat_str (nat \<bar>i\<bar>)) \<le> INT_MAX_STR_DIGITS)"
| "dumpable fr a (JFloat x) =
     (case x of Fin q \<Rightarrow> float_literal (fr q) \<and> float_of_number (fr q) = Fin q | _ \<Rightarrow> False)"
| "dumpable fr a (JStr s) = text_ok a s"
| "dumpable fr a (JArr js) = list_all (dumpable fr a) js"
| "dumpable fr a (JObj es) = (distinct (map fst es) \<and> list_all (\<lambda>(k, j). text_ok a k \<and> dumpable fr a j) es)"
| "dumpable fr a _ = True"

text \<open>The value as the encoder writes it: with \<open>sort_keys\<close> the members of every object are sorted.\<close>

fun ordered :: "bool \<Rightarrow> json \<Rightarrow> json" where
  "ordered so (JArr js) = JArr (map (ordered so) js)"
| "ordered so (JObj es) =
     (let ms = map (\<lambda>(k, j). (k, ordered so j)) es in JObj (if so then sort_key fst ms else ms))"
| "ordered so j = j"

lemma insort_key_map: "(\<And>x. f (g x) = f' x) \<Longrightarrow> insort_key f (g x) (map g xs) = map g (insort_key f' x xs)"
  by (induction xs) auto

lemma sort_key_map: "(\<And>x. f (g x) = f' x) \<Longrightarrow> sort_key f (map g xs) = map g (sort_key f' xs)"
  by (induction xs) (simp_all add: insort_key_map)

lemma foldr_collect_res: "(\<And>x. x \<in> set xs \<Longrightarrow> f x = Inr (g x)) \<Longrightarrow> foldr collect_res (map f xs) (Inr []) = Inr (map g xs)"
  by (induction xs) auto

text \<open>The text of a value whose parts all have one.\<close>

fun text_of :: "(rat \<Rightarrow> pystr) \<Rightarrow> bool \<Rightarrow> json \<Rightarrow> pystr" where
  "text_of fr a JNull = codes ''null''"
| "text_of fr a (JBool b) = (if b then codes ''true'' else codes ''false'')"
| "text_of fr a (JInt i) = int_str i"
| "text_of fr a (JFloat x) = (case x of Fin q \<Rightarrow> fr q | _ \<Rightarrow> [])"
| "text_of fr a (JStr s) = encode_string a s"
| "text_of fr a (JArr js) = [91] @ join_with [44] (map (text_of fr a) js) @ [93]"
| "text_of fr a (JObj es) = [123] @ join_with [44] (map (\<lambda>(k, j). encode_string a k @ [58] @ text_of fr a j) es) @ [125]"

lemma dumps_text: "dumpable fr a j \<Longrightarrow> dumps fr a so j = Inr (text_of fr a (ordered so j))"
proof (induction j)
  case (JArr js)
  then have "foldr collect_res (map (dumps fr a so) js) (Inr []) = Inr (map (\<lambda>j. text_of fr a (ordered so j)) js)"
    by (intro foldr_collect_res) (auto simp: list_all_iff)
  then show ?case by (simp add: comp_def)
next
  case (JObj es)
  define ms where "ms = map (\<lambda>(k, j). (k, ordered so j)) es"
  define srt where "srt = (if so then sort_key fst ms else ms)"
  have d: "dumps fr a so j = Inr (text_of fr a (ordered so j))" if "(k, j) \<in> set es" for k j
    using JObj.prems JObj.IH [OF that] that by (auto simp: list_all_iff)
  let ?t = "\<lambda>(k, j). (k, Inr (text_of fr a j) :: pystr res)"
  have m: "map (\<lambda>(k, j). (k, dumps fr a so j)) es = map ?t ms"
    using d by (auto simp: ms_def)
  have "sort_key fst (map ?t ms) = map ?t (sort_key fst ms)" by (rule sort_key_map) auto
  then have s: "(if so then sort_key fst (map ?t ms) else map ?t ms) = map ?t srt" by (simp add: srt_def)
  have "foldr collect_res (map (\<lambda>(k, r). map_sum id (\<lambda>t. encode_string a k @ [58] @ t) r) (map ?t srt)) (Inr [])
      = Inr (map (\<lambda>(k, j). encode_string a k @ [58] @ text_of fr a j) srt)"
    unfolding map_map by (intro foldr_collect_res) auto
  moreover have "ordered so (JObj es) = JObj srt" by (simp add: srt_def ms_def Let_def)
  ultimately show ?case by (simp add: m s Let_def)
qed (auto simp: int_repr_def encode_float_def split: pyfloat.splits)

lemma ordered_dumpable: "dumpable fr a j \<Longrightarrow> dumpable fr a (ordered so j)"
proof (induction j)
  case (JObj es)
  define ms where "ms = map (\<lambda>(k, j). (k, ordered so j)) es"
  have "map fst ms = map fst es" by (auto simp: ms_def)
  then have "distinct (map fst ms)" using JObj.prems by simp
  then have d: "distinct (map fst (sort_key fst ms))" by (simp add: distinct_map)
  have "text_ok a k \<and> dumpable fr a j" if kj: "(k, j) \<in> set ms" for k j
  proof -
    obtain j0 where j0: "(k, j0) \<in> set es" "j = ordered so j0" using kj by (auto simp: ms_def)
    then show ?thesis using JObj.prems JObj.IH [OF j0(1)] by (auto simp: list_all_iff)
  qed
  then show ?case using d \<open>distinct (map fst ms)\<close> by (auto simp: Let_def list_all_iff simp flip: ms_def)
qed (auto simp: list_all_iff)

lemma text_head: "dumpable fr a j \<Longrightarrow> \<exists>c t. text_of fr a j = c # t \<and> \<not> is_ws c \<and> c \<noteq> 93 \<and> c \<noteq> 65279"
proof -
  have n: "\<exists>c t. s = c # t \<and> \<not> is_ws c \<and> c \<noteq> 93 \<and> c \<noteq> 65279" if "number_start s" for s
    using that by (cases s) (auto simp: number_start_def peek_is_def starts_with_def is_ws_def is_digit_def)
  assume "dumpable fr a j"
  then show ?thesis
    using n [OF number_start_int [of _ "[]"]] n [OF number_start_float [of _ "[]"]]
    by (cases j) (auto simp: encode_string_def is_ws_def split: pyfloat.splits)
qed

definition plain_hooks :: "json_hooks \<Rightarrow> bool" where
  "plain_hooks h = (object_pairs_hook h = None \<and> parse_float h = None)"

definition rescans :: "(rat \<Rightarrow> pystr) \<Rightarrow> bool \<Rightarrow> json_hooks \<Rightarrow> json \<Rightarrow> bool" where
  "rescans fr a h j = (\<forall>n r. number_end r \<longrightarrow> 2 * length (text_of fr a j @ r) \<le> n \<longrightarrow>
     scan_once h (Suc n) (text_of fr a j @ r) = Some (Inr (py_of_json j, r)))"

lemma rescansD:
  "rescans fr a h j \<Longrightarrow> number_end r \<Longrightarrow> 2 * length (text_of fr a j @ r) < n \<Longrightarrow>
   scan_once h n (text_of fr a j @ r) = Some (Inr (py_of_json j, r))"
  by (cases n) (simp_all add: rescans_def)

lemma not_ws: "\<not> is_ws c \<Longrightarrow> dropWhile is_ws (c # r) = c # r"
  by simp

lemma punctuation [simp]: "\<not> is_ws 34" "\<not> is_ws 44" "\<not> is_ws 58" "\<not> is_ws 93" "\<not> is_ws 125" "\<not> is_ws 91" "\<not> is_ws 123"
  "number_end (44 # r)" "number_end (93 # r)" "number_end (125 # r)" "number_end []"
  by (simp_all add: is_ws_def number_end_def is_digit_def)

lemma join_with_Cons: "ws' \<noteq> [] \<Longrightarrow> join_with sep (w # ws') = w @ sep @ join_with sep ws'"
  by (cases ws') auto

lemma rescan_items:
  assumes "js \<noteq> []" "\<forall>j\<in>set js. rescans fr a h j \<and> dumpable fr a j"
    and "2 * length (join_with [44] (map (text_of fr a) js) @ 93 # r) + 1 < n"
  shows "scan_items h n vs (join_with [44] (map (text_of fr a) js) @ 93 # r) = Some (Inr (vs @ map py_of_json js, r))"
  using assms
proof (induction js arbitrary: n vs)
  case (Cons j js)
  obtain m where n: "n = Suc m" using Cons.prems(3) by (cases n) auto
  show ?case
  proof (cases "js = []")
    case True
    have "scan_once h m (text_of fr a j @ 93 # r) = Some (Inr (py_of_json j, 93 # r))"
      using Cons.prems by (intro rescansD) (auto simp: True n)
    then show ?thesis by (simp add: True n scan_items.simps)
  next
    case False
    let ?r = "join_with [44] (map (text_of fr a) js) @ 93 # r"
    have t: "join_with [44] (map (text_of fr a) (j # js)) @ 93 # r = text_of fr a j @ 44 # ?r"
      using False by (simp add: join_with_Cons)
    have len: "2 * length (text_of fr a j @ 44 # ?r) + 1 < Suc m" using Cons.prems(3) unfolding t n by simp
    have "scan_once h m (text_of fr a j @ 44 # ?r) = Some (Inr (py_of_json j, 44 # ?r))"
      using Cons.prems(2) len by (intro rescansD) auto
    moreover have "dropWhile is_ws ?r = ?r"
    proof -
      obtain j' js' where js: "js = j' # js'" using False by (cases js) auto
      then obtain c u where "text_of fr a j' = c # u" "\<not> is_ws c" using Cons.prems(2) text_head by (metis list.set_intros)
      then show ?thesis by (cases js') (auto simp: js)
    qed
    moreover have "scan_items h m (vs @ [py_of_json j]) ?r = Some (Inr ((vs @ [py_of_json j]) @ map py_of_json js, r))"
      using Cons.prems(2) False len by (intro Cons.IH) auto
    ultimately show ?thesis unfolding t by (simp add: n scan_items.simps)
  qed
qed simp

abbreviation member_text :: "(rat \<Rightarrow> pystr) \<Rightarrow> bool \<Rightarrow> pystr \<times> json \<Rightarrow> pystr" where
  "member_text fr a \<equiv> \<lambda>(k, j). encode_string a k @ [58] @ text_of fr a j"

lemma rescan_members:
  assumes "es \<noteq> []" "\<forall>(k, j)\<in>set es. rescans fr a h j \<and> dumpable fr a j \<and> text_ok a k"
    and "2 * length (join_with [44] (map (member_text fr a) es) @ 125 # r) < n"
  shows "scan_members h n ps (join_with [44] (map (member_text fr a) es) @ 125 # r)
    = Some (Inr (ps @ map (\<lambda>(k, j). (k, py_of_json j)) es, r))"
  using assms
proof (induction es arbitrary: n ps)
  case (Cons e es)
  obtain k j where e: "e = (k, j)" by (cases e)
  obtain m where n: "n = Suc m" using Cons.prems(3) by (cases n) auto
  have j: "rescans fr a h j" "dumpable fr a j" "text_ok a k" using Cons.prems(2) by (auto simp: e)
  then obtain c u where hd: "text_of fr a j = c # u" "\<not> is_ws c" using text_head by metis
  have key: "scan_string (concat (map (encode_char a) k) @ 34 # s) = Some (k, s)" for s
    by (rule scan_encoded_string [OF j(3)])
  have step: "scan_members h n ps (member_text fr a (k, j) @ s)
    = (case scan_once h m (text_of fr a j @ s) of
         None \<Rightarrow> None
       | Some (Inl e) \<Rightarrow> Some (Inl e)
       | Some (Inr (v, r4)) \<Rightarrow>
           (case dropWhile is_ws r4 of
              [] \<Rightarrow> Some decode_error
            | c # r5 \<Rightarrow>
                if c = 125 then Some (Inr (ps @ [(k, v)], r5))
                else if c = 44 then scan_members h m (ps @ [(k, v)]) (dropWhile is_ws r5)
                else Some decode_error))" for s
    using key [of "58 # text_of fr a j @ s"] hd
    by (simp add: n scan_members.simps encode_string_def consume_byte_def)
  show ?case
  proof (cases "es = []")
    case True
    have "scan_once h m (text_of fr a j @ 125 # r) = Some (Inr (py_of_json j, 125 # r))"
      using Cons.prems(3) j(1) by (intro rescansD) (auto simp: True n e encode_string_def)
    then show ?thesis using step [of "125 # r"] by (simp add: True e)
  next
    case False
    let ?r = "join_with [44] (map (member_text fr a) es) @ 125 # r"
    have t: "join_with [44] (map (member_text fr a) (e # es)) @ 125 # r = member_text fr a (k, j) @ 44 # ?r"
      using False by (simp add: join_with_Cons e)
    have len: "2 * length (member_text fr a (k, j) @ 44 # ?r) < Suc m" using Cons.prems(3) unfolding t n by simp
    have "scan_once h m (text_of fr a j @ 44 # ?r) = Some (Inr (py_of_json j, 44 # ?r))"
      using j(1) len by (intro rescansD) (auto simp: encode_string_def)
    moreover have "dropWhile is_ws ?r = ?r"
    proof -
      obtain k' j' es' where es: "es = (k', j') # es'" using False by (cases es) auto
      then show ?thesis by (cases es') (auto simp: encode_string_def)
    qed
    moreover have "scan_members h m (ps @ [(k, py_of_json j)]) ?r
        = Some (Inr ((ps @ [(k, py_of_json j)]) @ map (\<lambda>(k, j). (k, py_of_json j)) es, r))"
      using Cons.prems(2) False len by (intro Cons.IH) auto
    ultimately show ?thesis using step [of "44 # ?r"] unfolding t by (simp add: e)
  qed
qed simp

lemma dict_set_new: "k \<notin> fst ` set d \<Longrightarrow> dict_set d k v = d @ [(k, v)]"
  by (induction d k v rule: dict_set.induct) auto

lemma foldl_dict_set:
  assumes "distinct (map fst ps)" "\<forall>k\<in>set (map fst ps). VStr k \<notin> fst ` set d"
  shows "foldl (\<lambda>d (k, v). dict_set d (VStr k) v) d ps = d @ map (\<lambda>(k, v). (VStr k, v)) ps"
  using assms
proof (induction ps arbitrary: d)
  case (Cons p ps)
  obtain k v where p: "p = (k, v)" by (cases p)
  have "foldl (\<lambda>d (k, v). dict_set d (VStr k) v) (d @ [(VStr k, v)]) ps
      = (d @ [(VStr k, v)]) @ map (\<lambda>(k, v). (VStr k, v)) ps"
    using Cons.prems by (intro Cons.IH) (auto simp: p)
  then show ?case using Cons.prems(2) by (simp add: p dict_set_new)
qed simp

lemma make_object_pairs:
  assumes "plain_hooks h" "distinct (map fst es)"
  shows "make_object h (map (\<lambda>(k, j). (k, py_of_json j)) es) = Inr (py_of_json (JObj es))"
proof -
  let ?ps = "map (\<lambda>(k, j). (k, py_of_json j)) es"
  have "map fst ?ps = map fst es" by auto
  then have "distinct (map fst ?ps)" using assms(2) by (simp only:)
  then have "foldl (\<lambda>d (k, v). dict_set d (VStr k) v) [] ?ps = map (\<lambda>(k, v). (VStr k, v)) ?ps"
    using foldl_dict_set [of ?ps "[]"] by simp
  moreover have "map (\<lambda>(k, v). (VStr k, v)) ?ps = map (\<lambda>(k, j). (VStr k, py_of_json j)) es" by auto
  ultimately show ?thesis using assms(1) by (simp add: make_object_def plain_hooks_def)
qed

lemma scan_once_array:
  assumes "text = c # t" "\<not> is_ws c" "c \<noteq> 93"
  shows "scan_once h (Suc n) (91 # text) = map_option (map_sum id (\<lambda>(vs, r3). (VList vs, r3))) (scan_items h n [] text)"
  using assms by (simp add: scan_once.simps starts_with_def)

lemma scan_once_object:
  "scan_once h (Suc n) (123 # 34 # t) =
     map_option (\<lambda>res. rbind res (\<lambda>(ps, r3). map_sum id (\<lambda>v. (v, r3)) (make_object h ps))) (scan_members h n [] (34 # t))"
  by (simp add: scan_once.simps starts_with_def)

lemma rescan_value:
  assumes "plain_hooks h"
  shows "dumpable fr a j \<Longrightarrow> rescans fr a h j"
proof (induction j)
  case (JInt i)
  then show ?case
    by (auto simp: rescans_def scan_once_number number_start_int scan_number_int)
next
  case (JFloat x)
  then obtain q where x: "x = Fin q" "float_literal (fr q)" "float_of_number (fr q) = Fin q" by (auto split: pyfloat.splits)
  show ?case using x assms
    by (auto simp: rescans_def plain_hooks_def scan_once_number number_start_float scan_number_float)
next
  case (JStr s)
  then show ?case
    by (auto simp: rescans_def encode_string_def scan_once.simps scan_encoded_string)
next
  case (JArr js)
  then have js: "\<forall>j\<in>set js. rescans fr a h j \<and> dumpable fr a j" by (auto simp: list_all_iff)
  show ?case unfolding rescans_def
  proof (intro allI impI)
    fix m r
    assume len: "2 * length (text_of fr a (JArr js) @ r) \<le> m"
    let ?t = "join_with [44] (map (text_of fr a) js) @ 93 # r"
    show "scan_once h (Suc m) (text_of fr a (JArr js) @ r) = Some (Inr (py_of_json (JArr js), r))"
    proof (cases js)
      case Nil
      then show ?thesis by (simp add: scan_once.simps starts_with_def)
    next
      case (Cons j js')
      then obtain c u where "text_of fr a j = c # u" "\<not> is_ws c" "c \<noteq> 93" using js text_head by (metis list.set_intros(1))
      then obtain u' where hd: "?t = c # u'" "\<not> is_ws c" "c \<noteq> 93" by (cases js') (auto simp: Cons)
      have "scan_items h m [] ?t = Some (Inr ([] @ map py_of_json js, r))"
        using js len by (intro rescan_items) (auto simp: Cons)
      then show ?thesis using scan_once_array [OF hd, of h m] by simp
    qed
  qed
next
  case (JObj es)
  then have es: "\<forall>(k, j)\<in>set es. rescans fr a h j \<and> dumpable fr a j \<and> text_ok a k" "distinct (map fst es)"
    by (auto simp: list_all_iff)
  show ?case unfolding rescans_def
  proof (intro allI impI)
    fix m r
    assume len: "2 * length (text_of fr a (JObj es) @ r) \<le> m"
    let ?t = "join_with [44] (map (member_text fr a) es) @ 125 # r"
    show "scan_once h (Suc m) (text_of fr a (JObj es) @ r) = Some (Inr (py_of_json (JObj es), r))"
    proof (cases es)
      case Nil
      then show ?thesis using make_object_pairs [OF assms, of "[]"] by (simp add: scan_once.simps starts_with_def)
    next
      case (Cons e es')
      obtain u where hd: "?t = 34 # u" by (cases e; cases es') (auto simp: Cons encode_string_def)
      have "scan_members h m [] ?t = Some (Inr ([] @ map (\<lambda>(k, j). (k, py_of_json j)) es, r))"
        using es(1) len by (intro rescan_members) (auto simp: Cons)
      then have "scan_once h (Suc m) (123 # ?t) = Some (Inr (py_of_json (JObj es), r))"
        unfolding hd using make_object_pairs [OF assms es(2)] by (simp add: scan_once_object)
      then show ?thesis by simp
    qed
  qed
qed (auto simp: rescans_def scan_once.simps scan_scalar_def starts_with_def)

lemma json_decode_dumps:
  assumes "dumpable fr a j" "plain_hooks h"
  shows "json_decode h (text_of fr a j) = Some (Inr (py_of_json j))"
proof -
  obtain c t where "text_of fr a j = c # t" "\<not> is_ws c" using text_head [OF assms(1)] by blast
  then have "dropWhile is_ws (text_of fr a j) = text_of fr a j" by simp
  moreover have "scan_once h (Suc (2 * length (text_of fr a j))) (text_of fr a j) = Some (Inr (py_of_json j, []))"
    using rescansD [OF rescan_value [OF assms(2,1)], of "[]"] by simp
  ultimately show ?thesis by (simp add: json_decode_def)
qed

lemma ordered_False: "ordered False j = j"
  by (induction j) (auto simp: Let_def intro!: map_idI)

lemma dumpable_finite: "dumpable fr a j \<Longrightarrow> finite_floats j"
  by (induction j) (auto simp: list_all_iff isfinite_def split: pyfloat.splits)

lemma load_dumped_text:
  assumes "dumpable fr a j" "plain_hooks h"
  shows "load_json_value h (JText (text_of fr a j)) = Inr (py_of_json j)"
proof -
  obtain c t where "text_of fr a j = c # t" "c \<noteq> 65279" using text_head [OF assms(1)] by blast
  then show ?thesis using json_decode_dumps [OF assms] dumpable_finite [OF assms(1)]
    by (simp add: load_json_value_def json_loads_def starts_with_def py_of_json_value)
qed

text \<open>
  C35. Serialising with the project's defaults loses nothing: a JSON value whose numbers the interpreter can
  print and whose objects have distinct keys is written, and the loader reads it back from the text unchanged
  except that \<open>sort_keys\<close> has put the members of each object in key order. Every string survives, lone
  surrogates included.
\<close>

theorem dump_load_roundtrip:
  assumes "dumpable float_repr False j"
  shows "\<exists>t. dump_json float_repr sort_keys j = Inr t
    \<and> load_json_value no_hooks (JText t) = Inr (py_of_json (if sort_keys then ordered True j else j))"
proof -
  let ?j = "ordered sort_keys j"
  have "dump_json float_repr sort_keys j = Inr (text_of float_repr False ?j)"
    by (simp add: dump_json_def dumps_text assms)
  moreover have "load_json_value no_hooks (JText (text_of float_repr False ?j)) = Inr (py_of_json ?j)"
    by (rule load_dumped_text) (simp_all add: ordered_dumpable assms plain_hooks_def no_hooks_def)
  ultimately show ?thesis by (auto simp: ordered_False)
qed

definition example_float_repr :: "rat \<Rightarrow> pystr" where
  "example_float_repr q = (if q = 3 / 2 then codes ''1.5'' else codes ''0.0'')"

definition example_json :: json where
  "example_json = JObj [(codes ''b'', JFloat (Fin (3 / 2))), (codes ''a'', JArr [JInt (- 7), JStr [34, 55296, 56320], JNull])]"

definition example_text :: pystr where
  "example_text =
     [123, 34, 97, 34, 58, 91, 45, 55, 44, 34, 92, 34, 55296, 56320, 34, 44] @ codes ''null'' @
     [93, 44, 34, 98, 34, 58] @ codes ''1.5'' @ [125]"

theorem dump_load_roundtrip_witness:
  "dump_json example_float_repr True example_json = Inr example_text
   \<and> load_json_value no_hooks (JText example_text) = Inr (py_of_json (ordered True example_json))"
proof -
  have "float_literal (codes ''1.5'')"
    unfolding float_literal_def
    by (rule exI [of _ "[]"], rule exI [of _ "[49]"], rule exI [of _ "[46, 53]"], rule exI [of _ "[]"])
      (simp add: digits_def is_digit_def jfraction_def)
  moreover have "float_of_number (codes ''1.5'') = Fin (3 / 2)" by code_simp
  moreover have "length (nat_str 7) \<le> INT_MAX_STR_DIGITS" "text_ok False (codes ''b'')" "text_ok False (codes ''a'')"
    "text_ok False [34, 55296, 56320]" by code_simp+
  ultimately have "dumpable example_float_repr False example_json"
    by (simp add: example_json_def example_float_repr_def del: codes_simps)
  note r = dump_load_roundtrip [OF this, of True]
  have "dump_json example_float_repr True example_json = Inr example_text" by code_simp
  then show ?thesis using r by simp
qed

end
