(* ===== verification/Nplg_Tokens.thy ===== *)
theory Nplg_Tokens
  imports Nplg_Json_Text Nplg_Filesystem Nplg_Digest
begin

text \<open>
  The signed asset tokens and pagination cursors of \<^verbatim>\<open>src/nplg_mcp/tokens.py\<close>: unpadded base64url, the
  canonical asset path, signing and verification. A \<^verbatim>\<open>datetime\<close> with a timezone is its instant in
  microseconds since the epoch. The pydantic model \<open>CursorV1\<close> is validated and printed by code outside the
  sources, which the cursor operations take as arguments.
\<close>

section \<open>Interfaces\<close>

text \<open>
  An encoding of byte strings into token text, as the token formats use it: it can be undone, and its
  text is ASCII without the separator.
\<close>

locale token_codec =
  fixes enc :: "bytes \<Rightarrow> pystr" and dec :: "pystr \<Rightarrow> bytes res"
  assumes dec_enc: "is_bytes b \<Longrightarrow> dec (enc b) = Inr b"
    and enc_chars: "is_bytes b \<Longrightarrow> c \<in> set (enc b) \<Longrightarrow> c < 128 \<and> c \<noteq> 46"
begin

lemma split_join:
  assumes "is_bytes p"
  shows "split_once 46 (enc p @ [46] @ enc s) = Some (enc p, enc s)"
  using enc_chars [OF assms] by (auto simp: split_once_Some)

lemma enc_inject:
  assumes "is_bytes p" "is_bytes q"
  shows "enc p = enc q \<longleftrightarrow> p = q"
  using dec_enc assms by (metis sum.inject(2))

lemma join_inject:
  assumes "is_bytes p" "is_bytes q" "is_bytes s" "is_bytes t"
  shows "enc p @ [46] @ enc s = enc q @ [46] @ enc t \<longleftrightarrow> p = q \<and> s = t"
  using split_join [OF assms(1), of s] split_join [OF assms(2), of t] enc_inject assms
  by (metis option.inject prod.inject)

end

section \<open>Base64url without padding\<close>

definition b64_char :: "nat \<Rightarrow> nat" where
  "b64_char d =
     (if d < 26 then 65 + d else if d < 52 then 71 + d else if d < 62 then d - 4 else if d = 62 then 45 else 95)"

fun urlsafe_b64encode :: "bytes \<Rightarrow> pystr" where
  "urlsafe_b64encode [] = []"
| "urlsafe_b64encode [a] = [b64_char (a div 4), b64_char (a mod 4 * 16), 61, 61]"
| "urlsafe_b64encode [a, b] = [b64_char (a div 4), b64_char (a mod 4 * 16 + b div 16), b64_char (b mod 16 * 4), 61]"
| "urlsafe_b64encode (a # b # c # r) =
     [b64_char (a div 4), b64_char (a mod 4 * 16 + b div 16), b64_char (b mod 16 * 4 + c div 64), b64_char (c mod 64)]
     @ urlsafe_b64encode r"

definition b64encode :: "bytes \<Rightarrow> pystr" where
  "b64encode v = rev (dropWhile (\<lambda>c. c = 61) (rev (urlsafe_b64encode v)))"

text \<open>
  \<^verbatim>\<open>base64.b64decode(s, altchars=b"-_", validate=True)\<close>: the alternative characters are translated to
  \<open>+\<close> and \<open>/\<close> first, so those are accepted too; strict decoding admits alphabet characters and the padding of the
  last quadruple only, and ignores the unused low bits of the last character.
\<close>

definition b64_value :: "nat \<Rightarrow> nat option" where
  "b64_value c =
     (if 65 \<le> c \<and> c \<le> 90 then Some (c - 65) else if 97 \<le> c \<and> c \<le> 122 then Some (c - 71)
      else if 48 \<le> c \<and> c \<le> 57 then Some (c + 4) else if c = 45 \<or> c = 43 then Some 62
      else if c = 95 \<or> c = 47 then Some 63 else None)"

fun b64_quads :: "pystr \<Rightarrow> bytes option" where
  "b64_quads [] = Some []"
| "b64_quads (a # b # c # d # r) =
     (case (b64_value a, b64_value b) of
        (Some x, Some y) \<Rightarrow>
          (if d = 61 \<and> r = [] \<and> c = 61 then Some [x * 4 + y div 16]
           else case b64_value c of
             None \<Rightarrow> None
           | Some z \<Rightarrow>
               if d = 61 \<and> r = [] then Some [x * 4 + y div 16, y mod 16 * 16 + z div 4]
               else case b64_value d of
                 None \<Rightarrow> None
               | Some w \<Rightarrow>
                   map_option (\<lambda>bs. [x * 4 + y div 16, y mod 16 * 16 + z div 4, z mod 4 * 64 + w] @ bs) (b64_quads r))
      | _ \<Rightarrow> None)"
| "b64_quads _ = None"

definition token_invalid :: "'a res" where
  "token_invalid = app_fail UNAUTHORIZED ''The asset token is invalid.'' 401"

definition b64decode :: "pystr \<Rightarrow> bytes res" where
  "b64decode v =
     (let padding = replicate ((4 - length v mod 4) mod 4) 61
      in if list_ex (\<lambda>c. 128 \<le> c) v then token_invalid
         else case b64_quads (v @ padding) of None \<Rightarrow> token_invalid | Some bs \<Rightarrow> Inr bs)"

section \<open>Asset paths\<close>

definition validate_path :: "pystr \<Rightarrow> pystr res" where
  "validate_path path =
     (if path = [] \<or> 92 \<in> set path then app_fail INVALID_INPUT ''Asset path is invalid.'' 400
      else if posix_is_absolute path \<or> path = codes ''.'' \<or> path = codes ''..''
              \<or> list_ex (\<lambda>p. p = [] \<or> p = codes ''.'' \<or> p = codes ''..'') (posix_parts path)
      then app_fail INVALID_INPUT ''Asset path is invalid.'' 400
      else if as_posix path \<noteq> path then app_fail INVALID_INPUT ''Asset path is not canonical.'' 400
      else Inr (as_posix path))"

section \<open>Asset tokens\<close>

definition HARD_MAX_ASSET_TOKEN_TTL_SECONDS :: int where "HARD_MAX_ASSET_TOKEN_TTL_SECONDS = 86400"

datatype pydatetime = Aware int | Naive int

text \<open>\<^verbatim>\<open>int(d.astimezone(UTC).timestamp())\<close>: the quotient by a million is rounded to a float, then truncated.\<close>

definition int_timestamp :: "int \<Rightarrow> int" where
  "int_timestamp us =
     (case fl_round (of_int us / 1000000) of
        Fin q \<Rightarrow> if 0 \<le> q then \<lfloor>q\<rfloor> else \<lceil>q\<rceil>
      | _ \<Rightarrow> 0)"

definition asset_payload :: "int \<Rightarrow> pystr \<Rightarrow> pystr \<Rightarrow> json" where
  "asset_payload expiry media_type path =
     JObj [(codes ''exp'', JInt expiry), (codes ''media_type'', JStr media_type), (codes ''path'', JStr path),
           (codes ''v'', JInt 1)]"

text \<open>The payload holds no float, so the argument for \<^verbatim>\<open>float.__repr__\<close> is never used.\<close>

definition sign_asset_token :: "bytes \<Rightarrow> pystr \<Rightarrow> pystr \<Rightarrow> pydatetime \<Rightarrow> pystr res" where
  "sign_asset_token secret path media_type expires_at =
     rbind (validate_path path) (\<lambda>canonical_path.
       case expires_at of
         Naive _ \<Rightarrow> app_fail INVALID_INPUT ''Asset expiry must include a timezone.'' 400
       | Aware us \<Rightarrow>
           rbind (dumps (\<lambda>_. []) True True (asset_payload (int_timestamp us) media_type canonical_path)) (\<lambda>text.
           rbind (encode_utf8 text) (\<lambda>bytes.
             let encoded_payload = b64encode bytes
             in Inr (encoded_payload @ [46] @ b64encode (hmac_sha256 secret encoded_payload)))))"

record AssetGrant =
  ag_path :: pystr
  ag_media_type :: pystr
  ag_expires_at :: int

text \<open>Python compares \<open>1\<close>, \<open>True\<close> and \<open>1.0\<close> as equal.\<close>

fun equals_one :: "json \<Rightarrow> bool" where
  "equals_one (JInt i) = (i = 1)"
| "equals_one (JBool b) = b"
| "equals_one (JFloat x) = (x = Fin 1)"
| "equals_one _ = False"

definition claim_get :: "(pystr \<times> json) list \<Rightarrow> string \<Rightarrow> json" where
  "claim_get es k = (case map_of es (codes k) of None \<Rightarrow> JNull | Some j \<Rightarrow> j)"

definition validate_asset_claims :: "(pystr \<times> json) list \<Rightarrow> (pystr \<times> pystr \<times> int) res" where
  "validate_asset_claims payload =
     (if \<not> equals_one (claim_get payload ''v'') then Inl (ValueError ''unsupported payload'')
      else case (claim_get payload ''path'', claim_get payload ''media_type'', claim_get payload ''exp'') of
        (JStr p, JStr m, JInt e) \<Rightarrow> rbind (validate_path p) (\<lambda>q. Inr (q, m, e))
      | _ \<Rightarrow> Inl (ValueError ''malformed payload''))"

definition asset_claims :: "pystr \<Rightarrow> (pystr \<times> pystr \<times> int) res" where
  "asset_claims encoded_payload =
     rbind (b64decode encoded_payload) (\<lambda>bs.
     rbind (load_json_value no_hooks (JBytes bs)) (\<lambda>v.
     rbind (require_json_object ''asset token payload'' v) validate_asset_claims))"

definition verify_asset_token :: "bytes \<Rightarrow> pystr \<Rightarrow> pyobj \<Rightarrow> int \<Rightarrow> AssetGrant res" where
  "verify_asset_token secret token max_ttl_seconds now =
     (case split_once 46 token of
        None \<Rightarrow> token_invalid
      | Some (encoded_payload, encoded_signature) \<Rightarrow>
          rbind (b64decode encoded_signature) (\<lambda>supplied_signature.
          if list_ex (\<lambda>c. 128 \<le> c) encoded_payload then token_invalid
          else if supplied_signature \<noteq> hmac_sha256 secret encoded_payload then token_invalid
          else case asset_claims encoded_payload of
            Inl (ValueError _) \<Rightarrow> token_invalid
          | Inl (TypeError _) \<Rightarrow> token_invalid
          | Inl e \<Rightarrow> Inl e
          | Inr (path, media_type, expires_at) \<Rightarrow>
              (case max_ttl_seconds of
                 PInt ttl \<Rightarrow>
                   if ttl < 1 \<or> HARD_MAX_ASSET_TOKEN_TTL_SECONDS < ttl
                   then Inl (ValueError ''max_ttl_seconds must be an integer between 1 and 86400'')
                   else if expires_at \<le> int_timestamp now
                   then app_fail UNAUTHORIZED ''The asset token has expired.'' 401
                   else if ttl < expires_at - int_timestamp now
                   then app_fail UNAUTHORIZED ''The asset token lifetime is invalid.'' 401
                   else Inr \<lparr>ag_path = path, ag_media_type = media_type, ag_expires_at = expires_at\<rparr>
               | _ \<Rightarrow> Inl (ValueError ''max_ttl_seconds must be an integer between 1 and 86400''))))"


section \<open>The base64 codec\<close>

lemma b64_value_char: "d < 64 \<Longrightarrow> b64_value (b64_char d) = Some d"
  by (auto simp: b64_value_def b64_char_def)

lemma b64_char_range: "d < 64 \<Longrightarrow> 0 < b64_char d \<and> b64_char d < 128 \<and> b64_char d \<noteq> 46 \<and> b64_char d \<noteq> 61"
  by (auto simp: b64_char_def)

text \<open>The text without its padding, by the length of the last group.\<close>

fun b64_text :: "bytes \<Rightarrow> pystr" where
  "b64_text [] = []"
| "b64_text [a] = [b64_char (a div 4), b64_char (a mod 4 * 16)]"
| "b64_text [a, b] = [b64_char (a div 4), b64_char (a mod 4 * 16 + b div 16), b64_char (b mod 16 * 4)]"
| "b64_text (a # b # c # r) =
     [b64_char (a div 4), b64_char (a mod 4 * 16 + b div 16), b64_char (b mod 16 * 4 + c div 64), b64_char (c mod 64)]
     @ b64_text r"

lemma group_bounds:
  assumes "a < 256" "b < 256" "c < (256 :: nat)"
  shows "a div 4 < 64" "a mod 4 * 16 + b div 16 < 64" "a mod 4 * 16 < 64" "b mod 16 * 4 + c div 64 < 64" "b mod 16 * 4 < 64" "c mod 64 < 64"
  using assms by auto

lemma b64_text_chars: "is_bytes v \<Longrightarrow> x \<in> set (b64_text v) \<Longrightarrow> 0 < x \<and> x < 128 \<and> x \<noteq> 46 \<and> x \<noteq> 61"
  by (induction v rule: b64_text.induct) (auto simp: is_bytes_def b64_char_range group_bounds)

lemma urlsafe_b64encode_text:
  "urlsafe_b64encode v = b64_text v @ replicate ((4 - length (b64_text v) mod 4) mod 4) 61"
proof (induction v rule: b64_text.induct)
  case (4 a b c r)
  moreover have "Suc (Suc (Suc (Suc n))) mod 4 = n mod 4" for n :: nat by presburger
  ultimately show ?case by simp
qed (simp_all add: numeral_2_eq_2)

lemma b64encode_text: "is_bytes v \<Longrightarrow> b64encode v = b64_text v"
proof -
  assume v: "is_bytes v"
  have "dropWhile (\<lambda>c. c = 61) (replicate n 61 @ rev (b64_text v)) = rev (b64_text v)" for n
    using b64_text_chars [OF v] by (induction n) (auto simp: dropWhile_eq_self_iff hd_rev intro: last_in_set)
  then show ?thesis by (simp add: b64encode_def urlsafe_b64encode_text)
qed

lemma group_parts:
  assumes "b < 256" "c < (256 :: nat)"
  shows "(a mod 4 * 16 + b div 16) div 16 = a mod 4" "(a mod 4 * 16 + b div 16) mod 16 = b div 16"
    "(b mod 16 * 4 + c div 64) div 4 = b mod 16" "(b mod 16 * 4 + c div 64) mod 4 = c div 64"
  using assms by (simp_all add: less_mult_imp_div_less)

lemma b64_quads_encode: "is_bytes v \<Longrightarrow> b64_quads (urlsafe_b64encode v) = Some v"
proof (induction v rule: b64_text.induct)
  case (4 a b c r)
  then have "a < 256" "b < 256" "c < 256" "b64_quads (urlsafe_b64encode r) = Some r" by (auto simp: is_bytes_def)
  then show ?case by (simp add: b64_value_char group_bounds b64_char_range group_parts)
next
  case (3 a b)
  then have "a < 256" "b < 256" by (auto simp: is_bytes_def)
  then show ?case using group_parts(1,2) [where a = a and b = b and c = 0] group_parts(3,4) [where b = b and c = 0] by (simp add: b64_value_char group_bounds b64_char_range)
next
  case (2 a)
  then have "a < 256" by (auto simp: is_bytes_def)
  then show ?case by (simp add: b64_value_char group_bounds)
qed simp

lemma b64decode_encode: "is_bytes v \<Longrightarrow> b64decode (b64encode v) = Inr v"
proof -
  assume v: "is_bytes v"
  have "\<not> list_ex (\<lambda>c. 128 \<le> c) (b64_text v)" using b64_text_chars [OF v] by (fastforce simp: list_ex_iff)
  then show ?thesis
    using b64_quads_encode [OF v] by (simp add: b64decode_def b64encode_text [OF v] urlsafe_b64encode_text)
qed

interpretation b64: token_codec b64encode b64decode
  by unfold_locales (simp add: b64decode_encode, auto simp: b64encode_text dest: b64_text_chars)

section \<open>Encoded payloads are ASCII\<close>

definition ascii_text :: "pystr \<Rightarrow> bool" where
  "ascii_text s = list_all (\<lambda>c. 0 < c \<and> c < 128) s"

lemma ascii_text_simps [simp]:
  "ascii_text []" "ascii_text (c # s) \<longleftrightarrow> 0 < c \<and> c < 128 \<and> ascii_text s"
  "ascii_text (s @ t) \<longleftrightarrow> ascii_text s \<and> ascii_text t"
  by (simp_all add: ascii_text_def)

lemma ascii_hex_quad [simp]: "ascii_text (hex_quad n)"
proof -
  have "hex_char (m mod 16) < 128 \<and> 0 < hex_char (m mod 16)" for m
    using mod_less_divisor [of 16 m] by (auto simp: hex_char_def simp del: mod_less_divisor)
  then show ?thesis by (simp add: hex_quad_def)
qed

lemma ascii_encode_char: "ascii_text (encode_char True c)"
  by (auto simp: encode_char_def unicode_escape_def)

lemma ascii_encode_string: "ascii_text (encode_string True s)"
  by (induction s) (auto simp: encode_string_def ascii_encode_char)

lemma ascii_join: "(\<And>w. w \<in> set ws' \<Longrightarrow> ascii_text w) \<Longrightarrow> ascii_text sep \<Longrightarrow> ascii_text (join_with sep ws')"
  by (induction sep ws' rule: join_with.induct) auto

lemma ascii_digits: "digits ds \<Longrightarrow> ascii_text ds"
  by (auto simp: digits_def ascii_text_def is_digit_def list_all_iff)

lemma ascii_int_str: "ascii_text (int_str i)"
  using ascii_digits [OF nat_str_digits] by (simp add: int_str_def)

lemma ascii_float: "float_literal t \<Longrightarrow> ascii_text t"
  by (auto simp: float_literal_def jfraction_def jexponent_def ascii_digits)

lemma ascii_text_of: "dumpable fr True j \<Longrightarrow> ascii_text (text_of fr True j)"
proof (induction j)
  case (JArr js)
  then show ?case by (auto simp: list_all_iff intro!: ascii_join)
next
  case (JObj es)
  then have "ascii_text (text_of fr True j)" if "(k, j) \<in> set es" for k j
    using that by (auto simp: list_all_iff)
  then show ?case by (auto simp: ascii_encode_string intro!: ascii_join)
qed (auto simp: ascii_encode_string ascii_int_str ascii_float split: pyfloat.splits)

lemma utf8_pass_ascii: "ascii_text s \<Longrightarrow> utf8_run_pass UStart s = Some s"
  by (induction s) (auto simp: utf8_feed_pass_def utf8_feed_def)

lemma detect_ascii: "ascii_text s \<Longrightarrow> detect_and_decode s = Some s"
proof -
  assume s: "ascii_text s"
  have n: "s ! i \<noteq> 0" if "i < length s" for i
    using s nth_mem [OF that] by (fastforce simp: ascii_text_def list_all_iff)
  have "\<not> starts_with (b # bs) s" if "b = 0 \<or> 128 \<le> b" for b bs
    using s that by (auto simp: starts_with_iff)
  then show ?thesis using n [of 0] n [of 1] utf8_pass_ascii [OF s]
    by (cases "s = []") (auto simp: detect_and_decode_def)
qed

lemma encode_utf8_ascii: "ascii_text s \<Longrightarrow> encode_utf8 s = Inr s"
proof -
  assume s: "ascii_text s"
  have "\<not> list_ex (\<lambda>c. 55296 \<le> c \<and> c \<le> 57343) s"
    using s by (fastforce simp: ascii_text_def list_all_iff list_ex_iff)
  moreover have "concat (map utf8_encode s) = s" using s by (induction s) (auto simp: utf8_encode_def)
  ultimately show ?thesis by (simp add: encode_utf8_def)
qed

lemma ascii_is_bytes: "ascii_text s \<Longrightarrow> is_bytes s"
  by (auto simp: ascii_text_def is_bytes_def list_all_iff)

lemma load_dumped_bytes:
  assumes "dumpable fr True j" "plain_hooks h"
  shows "load_json_value h (JBytes (text_of fr True j)) = Inr (py_of_json j)"
  using json_decode_dumps [OF assms] dumpable_finite [OF assms(1)] detect_ascii [OF ascii_text_of [OF assms(1)]]
  by (simp add: load_json_value_def json_loads_def py_of_json_value)

section \<open>Signing and verifying\<close>

lemma validate_path_Inr:
  "validate_path path = Inr q \<longleftrightarrow> q = path \<and> path \<noteq> [] \<and> 92 \<notin> set path \<and> \<not> posix_is_absolute path \<and> as_posix path = path
     \<and> path \<noteq> codes ''.'' \<and> path \<noteq> codes ''..'' \<and> list_all (\<lambda>p. p \<noteq> [] \<and> p \<noteq> codes ''.'' \<and> p \<noteq> codes ''..'') (posix_parts path)"
  by (auto simp: validate_path_def list_all_iff list_ex_iff)

text \<open>The instants a \<^verbatim>\<open>datetime\<close> can hold, years 1 to 9999.\<close>

definition datetime_range :: "int \<Rightarrow> bool" where
  "datetime_range us = (- 62135596800000000 \<le> us \<and> us \<le> 253402300799999999)"

lemma nat_str_length: "n < 10 ^ k \<Longrightarrow> 0 < k \<Longrightarrow> length (nat_str n) \<le> k"
proof (induction k arbitrary: n)
  case (Suc k)
  show ?case
  proof (cases "n < 10")
    case False
    then have "length (nat_str (n div 10)) \<le> k" using Suc by (cases k) (auto simp: less_mult_imp_div_less mult.commute)
    then show ?thesis using False by (simp add: nat_str.simps [of n])
  qed (simp add: nat_str.simps [of n])
qed simp

lemma int_timestamp_bound:
  assumes "datetime_range us"
  shows "\<bar>int_timestamp us\<bar> \<le> 2 ^ 38"
proof -
  have f: "fl_round (of_int (2 ^ 38)) = Fin (of_int (2 ^ 38))" "fl_round (of_int (- (2 ^ 38))) = Fin (of_int (- (2 ^ 38)))"
    by (rule fl_round_of_int, simp)+
  let ?x = "of_int us / 1000000 :: rat"
  have "?x \<le> 253402300799999999 / 1000000" "- 62135596800000000 / 1000000 \<le> ?x"
    using assms unfolding datetime_range_def by (metis (no_types) of_int_le_iff of_int_numeral of_int_minus divide_right_mono zero_le_numeral)+
  then have "?x \<le> of_int (2 ^ 38)" "of_int (- (2 ^ 38)) \<le> ?x" by simp_all
  then obtain y where y: "fl_round ?x = Fin y" "of_int (- (2 ^ 38)) \<le> y" "y \<le> of_int (2 ^ 38)"
    using fl_round_between f by blast
  have ts: "int_timestamp us = (if 0 \<le> y then \<lfloor>y\<rfloor> else \<lceil>y\<rceil>)" by (simp add: int_timestamp_def y(1))
  show ?thesis
  proof (cases "0 \<le> y")
    case True
    then have "0 \<le> \<lfloor>y\<rfloor>" "\<lfloor>y\<rfloor> \<le> 2 ^ 38" using y(3) by (simp_all add: floor_le_iff)
    then have "\<bar>\<lfloor>y\<rfloor>\<bar> \<le> 2 ^ 38" by linarith
    then show ?thesis by (simp only: ts True if_True)
  next
    case False
    then have "\<lceil>y\<rceil> \<le> 0" "- (2 ^ 38) \<le> \<lceil>y\<rceil>" using y(2) by (simp add: ceiling_le_iff, linarith)
    then have "\<bar>\<lceil>y\<rceil>\<bar> \<le> 2 ^ 38" by linarith
    then show ?thesis by (simp only: ts False if_False)
  qed
qed

text \<open>The payload of a signed token decodes to its claims.\<close>

lemma asset_payload_dumpable:
  assumes "\<bar>expiry\<bar> \<le> 2 ^ 38" "text_ok True media_type" "text_ok True path"
  shows "dumpable fr True (asset_payload expiry media_type path)" "ordered True (asset_payload expiry media_type path) = asset_payload expiry media_type path"
proof -
  have "length (nat_str (nat \<bar>expiry\<bar>)) \<le> 12" "length (nat_str 1) \<le> 1" using assms(1) by (intro nat_str_length; simp)+
  then show "dumpable fr True (asset_payload expiry media_type path)"
    using assms(2,3)
    by (simp add: asset_payload_def INT_MAX_STR_DIGITS_def text_ok_def is_high_def is_low_def)
qed (simp add: asset_payload_def)

lemma sign_asset_token_text:
  assumes "validate_path path = Inr path" "datetime_range us" "text_ok True media_type" "text_ok True path"
  defines "payload \<equiv> text_of (\<lambda>_. []) True (asset_payload (int_timestamp us) media_type path)"
  shows "sign_asset_token secret path media_type (Aware us) = Inr (b64encode payload @ [46] @ b64encode (hmac_sha256 secret (b64encode payload)))"
    and "ascii_text payload" "is_bytes payload"
    and "asset_claims (b64encode payload) = Inr (path, media_type, int_timestamp us)"
proof -
  note d = asset_payload_dumpable [OF int_timestamp_bound [OF assms(2)] assms(3,4)]
  show a: "ascii_text payload" unfolding payload_def by (rule ascii_text_of [OF d(1)])
  then show b: "is_bytes payload" by (rule ascii_is_bytes)
  have t: "dumps (\<lambda>_. []) True True (asset_payload (int_timestamp us) media_type path) = Inr payload"
    by (simp add: payload_def dumps_text d)
  show "sign_asset_token secret path media_type (Aware us) = Inr (b64encode payload @ [46] @ b64encode (hmac_sha256 secret (b64encode payload)))"
    by (simp add: sign_asset_token_def assms(1) t encode_utf8_ascii [OF a] Let_def)
  have l: "load_json_value no_hooks (JBytes payload) = Inr (py_of_json (asset_payload (int_timestamp us) media_type path))"
    unfolding payload_def by (rule load_dumped_bytes [OF d(1)]) (simp add: plain_hooks_def no_hooks_def)
  show "asset_claims (b64encode payload) = Inr (path, media_type, int_timestamp us)"
    by (simp add: asset_claims_def b64.dec_enc [OF b] l require_json_object_def asset_payload_def validate_asset_claims_def
        claim_get_def assms(1))
qed


lemma no_wide_chars: "is_bytes p \<Longrightarrow> \<not> list_ex (\<lambda>c. 128 \<le> c) (b64encode p)"
  using b64.enc_chars [of p] by (fastforce simp: list_ex_iff)

lemma signed_token_verifies:
  assumes "validate_path path = Inr path" "datetime_range us" "text_ok True media_type" "text_ok True path"
    and "1 \<le> ttl" "ttl \<le> HARD_MAX_ASSET_TOKEN_TTL_SECONDS"
    and "int_timestamp now < int_timestamp us" "int_timestamp us \<le> int_timestamp now + ttl"
  obtains token where "sign_asset_token secret path media_type (Aware us) = Inr token"
    "verify_asset_token secret token (PInt ttl) now = Inr \<lparr>ag_path = path, ag_media_type = media_type, ag_expires_at = int_timestamp us\<rparr>"
proof -
  define p where "p = text_of (\<lambda>_. []) True (asset_payload (int_timestamp us) media_type path)"
  note s = sign_asset_token_text [OF assms(1-4), folded p_def]
  show ?thesis
    using assms(5-8)
    by (intro that [OF s(1)]) (simp add: s(4) verify_asset_token_def b64.split_join [OF s(3), simplified]
        b64.dec_enc [OF hmac_bytes] no_wide_chars [OF s(3)])
qed

text \<open>
  C36. A signed grant comes back. For a canonical path, a media type and path of Unicode text without split
  surrogate pairs, and an aware expiry, signing succeeds, and with the same secret the verifier returns exactly
  the signed path, media type and expiry second, at every instant before the expiry that is within the allowed lifetime of it.
\<close>

theorem asset_token_roundtrip:
  assumes "validate_path path = Inr path" "datetime_range us" "text_ok True media_type" "text_ok True path"
    and "1 \<le> ttl" "ttl \<le> HARD_MAX_ASSET_TOKEN_TTL_SECONDS"
    and "int_timestamp now < int_timestamp us" "int_timestamp us \<le> int_timestamp now + ttl"
  shows "\<exists>token. sign_asset_token secret path media_type (Aware us) = Inr token
    \<and> verify_asset_token secret token (PInt ttl) now
      = Inr \<lparr>ag_path = path, ag_media_type = media_type, ag_expires_at = int_timestamp us\<rparr>"
  by (rule signed_token_verifies [OF assms]) blast

definition example_path :: pystr where "example_path = codes ''documents/a.pdf''"

definition example_media :: pystr where "example_media = codes ''application/pdf''"

lemma example_token_facts:
  "validate_path example_path = Inr example_path" "datetime_range 1700000000000000" "text_ok True example_media"
  "text_ok True example_path" "(1 :: int) \<le> 600" "600 \<le> HARD_MAX_ASSET_TOKEN_TTL_SECONDS"
  "int_timestamp 1699999900500000 < int_timestamp 1700000000000000"
  "int_timestamp 1700000000000000 \<le> int_timestamp 1699999900500000 + 600"
  by code_simp+

theorem asset_token_roundtrip_witness:
  "\<exists>token. sign_asset_token [7, 7] example_path example_media (Aware 1700000000000000) = Inr token
    \<and> verify_asset_token [7, 7] token (PInt 600) 1699999900500000
      = Inr \<lparr>ag_path = example_path, ag_media_type = example_media, ag_expires_at = 1700000000\<rparr>"
proof -
  have "int_timestamp 1700000000000000 = 1700000000" by code_simp
  then show ?thesis using asset_token_roundtrip [OF example_token_facts, of "[7, 7]"] by simp
qed

text \<open>
  C37. Nothing unsigned is granted. Whatever text is presented, the verifier returns a grant only when the text
  has a separator, the part after it decodes to the keyed digest of the part before it, that part
  decodes to claims with this path, media type and expiry, the expiry lies after the current second and
  within the allowed lifetime, which is between one second and a day, and the path is canonical: relative,
  without backslash, empty, \<open>.\<close> or \<open>..\<close> components.
\<close>

theorem asset_grant_is_authenticated:
  assumes "verify_asset_token secret token max_ttl now = Inr grant"
  shows "\<exists>p s ttl. token = p @ [46] @ s \<and> 46 \<notin> set p \<and> b64decode s = Inr (hmac_sha256 secret p)
    \<and> asset_claims p = Inr (ag_path grant, ag_media_type grant, ag_expires_at grant)
    \<and> max_ttl = PInt ttl \<and> 1 \<le> ttl \<and> ttl \<le> 86400
    \<and> int_timestamp now < ag_expires_at grant \<and> ag_expires_at grant \<le> int_timestamp now + ttl
    \<and> \<not> posix_is_absolute (ag_path grant) \<and> 92 \<notin> set (ag_path grant)
    \<and> ag_path grant = join_with [SLASH] (posix_parts (ag_path grant))
    \<and> list_all (\<lambda>c. c \<noteq> [] \<and> c \<noteq> codes ''.'' \<and> c \<noteq> codes ''..'') (posix_parts (ag_path grant))"
proof -
  obtain p s where t: "split_once 46 token = Some (p, s)"
    using assms by (auto simp: verify_asset_token_def token_invalid_def split: option.splits)
  then have v: "rbind (b64decode s) (\<lambda>sig. if list_ex (\<lambda>c. 128 \<le> c) p then token_invalid
      else if sig \<noteq> hmac_sha256 secret p then token_invalid else Inr ()) = Inr ()"
    using assms by (auto simp: verify_asset_token_def token_invalid_def rbind_eq_Inr split: if_splits)
  then have sig: "b64decode s = Inr (hmac_sha256 secret p)" "\<not> list_ex (\<lambda>c. 128 \<le> c) p"
    by (auto simp: rbind_eq_Inr token_invalid_def split: if_splits)
  obtain path m e where c: "asset_claims p = Inr (path, m, e)"
    using assms t sig by (auto simp: verify_asset_token_def token_invalid_def split: sum.splits pyexc.splits)
  then obtain ttl where g: "max_ttl = PInt ttl" "1 \<le> ttl" "ttl \<le> 86400" "int_timestamp now < e" "e \<le> int_timestamp now + ttl"
    "grant = \<lparr>ag_path = path, ag_media_type = m, ag_expires_at = e\<rparr>"
    using assms t sig
    by (auto simp: verify_asset_token_def HARD_MAX_ASSET_TOKEN_TTL_SECONDS_def split: pyobj.splits if_splits)
  have "validate_path path = Inr path"
    using c by (auto simp: asset_claims_def validate_asset_claims_def rbind_eq_Inr validate_path_Inr split: if_splits json.splits)
  then show ?thesis
    using t sig c g
    by (intro exI [of _ p] exI [of _ s] exI [of _ ttl]) (auto simp: split_once_Some validate_path_Inr posix_is_absolute_def as_posix_def posix_parts_def split: if_splits)
qed


theorem asset_grant_is_authenticated_witness:
  "\<exists>p s. sign_asset_token [7, 7] example_path example_media (Aware 1700000000000000) = Inr (p @ [46] @ s)
     \<and> 46 \<notin> set p \<and> b64decode s = Inr (hmac_sha256 [7, 7] p)
     \<and> asset_claims p = Inr (example_path, example_media, int_timestamp 1700000000000000)"
proof -
  obtain token where "sign_asset_token [7, 7] example_path example_media (Aware 1700000000000000) = Inr token"
    and v: "verify_asset_token [7, 7] token (PInt 600) 1699999900500000
      = Inr \<lparr>ag_path = example_path, ag_media_type = example_media, ag_expires_at = int_timestamp 1700000000000000\<rparr>"
    by (rule signed_token_verifies [OF example_token_facts])
  then show ?thesis using asset_grant_is_authenticated [OF v] by auto
qed

section \<open>Cursors\<close>

definition HARD_MAX_CURSOR_TTL_SECONDS :: int where "HARD_MAX_CURSOR_TTL_SECONDS = 3600"
definition CURSOR_KEY_ID :: pystr where "CURSOR_KEY_ID = codes ''cursor-v1''"
definition CURSOR_KEY_PURPOSE :: bytes where "CURSOR_KEY_PURPOSE = codes ''nplg-mcp:cursor-signing:v1''"
definition MIN_SIGNING_SECRET_BYTES :: nat where "MIN_SIGNING_SECRET_BYTES = 32"
definition MAX_CURSOR_OFFSET :: int where "MAX_CURSOR_OFFSET = 10000000"
definition MAX_CURSOR_TOKEN_BYTES :: nat where "MAX_CURSOR_TOKEN_BYTES = 1024"

record CursorV1 =
  cu_version :: int
  cu_key_id :: pystr
  cu_query_hash :: pystr
  cu_scope_handle :: "pystr option"
  cu_offset :: int
  cu_page_size :: int
  cu_issued_at :: int
  cu_expires_at :: int

text \<open>The patterns of \<open>BoundedKeyId\<close>, \<open>Sha256\<close> and \<open>CanonicalHandle\<close>.\<close>

definition bounded_key_id :: "pystr \<Rightarrow> bool" where
  "bounded_key_id s =
     (1 \<le> length s \<and> length s \<le> 64 \<and> list_all (\<lambda>c. 97 \<le> c \<and> c \<le> 122 \<or> is_digit c \<or> c = 45) s)"

definition sha256_hex :: "pystr \<Rightarrow> bool" where
  "sha256_hex s = (length s = 64 \<and> list_all (\<lambda>c. is_digit c \<or> 97 \<le> c \<and> c \<le> 102) s)"

definition handle_part :: "pystr \<Rightarrow> bool" where
  "handle_part s = (s \<noteq> [] \<and> length s \<le> 32 \<and> hd s \<noteq> 48 \<and> list_all is_digit s)"

definition canonical_handle :: "pystr \<Rightarrow> bool" where
  "canonical_handle s =
     (3 \<le> length s \<and> length s \<le> 65 \<and> (case split_on 47 s of [a, b] \<Rightarrow> handle_part a \<and> handle_part b | _ \<Rightarrow> False))"

definition bounded_lifetime :: "CursorV1 \<Rightarrow> bool" where
  "bounded_lifetime c =
     (let lifetime = cu_expires_at c - cu_issued_at c
      in \<not> (lifetime \<le> 0 \<or> HARD_MAX_CURSOR_TTL_SECONDS * 1000000 < lifetime))"

definition cursor_valid :: "CursorV1 \<Rightarrow> bool" where
  "cursor_valid c =
     (cu_version c = 1 \<and> bounded_key_id (cu_key_id c) \<and> sha256_hex (cu_query_hash c)
      \<and> (case cu_scope_handle c of None \<Rightarrow> True | Some s \<Rightarrow> canonical_handle s)
      \<and> 0 \<le> cu_offset c \<and> cu_offset c \<le> MAX_CURSOR_OFFSET \<and> 1 \<le> cu_page_size c \<and> cu_page_size c \<le> 50
      \<and> bounded_lifetime c)"

definition derive_cursor_signing_key :: "bytes \<Rightarrow> bytes res" where
  "derive_cursor_signing_key root_secret =
     (if length root_secret < MIN_SIGNING_SECRET_BYTES
      then Inl (ValueError ''cursor root secret must contain at least 32 bytes'')
      else Inr (hmac_sha256 root_secret CURSOR_KEY_PURPOSE))"

definition cursor_query_hash :: "pystr \<Rightarrow> pystr res" where
  "cursor_query_hash normalized_query =
     (if normalized_query = [] then Inl (ValueError ''normalized cursor query must be nonempty'')
      else rbind (encode_utf8 normalized_query) (\<lambda>bs. Inr (hexdigest (sha256 bs))))"

fun reject_duplicate_loop :: "(pyval \<times> pyval) list \<Rightarrow> (pystr \<times> pyval) list \<Rightarrow> pyval res" where
  "reject_duplicate_loop result [] = Inr (VDict result)"
| "reject_duplicate_loop result ((k, v) # pairs) =
     (if VStr k \<in> fst ` set result then Inl (ValueError ''duplicate cursor claim'')
      else if \<not> is_json_value v then Inl (TypeError ''cursor claim is not a JSON value'')
      else reject_duplicate_loop (dict_set result (VStr k) v) pairs)"

definition reject_duplicate_cursor_keys :: "(pystr \<times> pyval) list \<Rightarrow> pyval res" where
  "reject_duplicate_cursor_keys pairs = reject_duplicate_loop [] pairs"

text \<open>
  \<open>model_dump_json\<close> and the field parser of \<open>model_validate_json\<close> belong to pydantic; the constraints and
  the validator the parsed fields must meet are those of the model.
\<close>

definition sign_cursor :: "(CursorV1 \<Rightarrow> pystr) \<Rightarrow> bytes \<Rightarrow> CursorV1 \<Rightarrow> pystr res" where
  "sign_cursor model_dump_json secret cursor =
     rbind (derive_cursor_signing_key secret) (\<lambda>key.
     rbind (encode_utf8 (model_dump_json cursor)) (\<lambda>payload.
       let encoded_payload = b64encode payload
       in Inr (encoded_payload @ [46] @ b64encode (hmac_sha256 key encoded_payload))))"

definition cursor_hooks :: json_hooks where
  "cursor_hooks = \<lparr>object_pairs_hook = Some reject_duplicate_cursor_keys, parse_constant = None, parse_float = None\<rparr>"

definition model_validate_cursor :: "(pystr \<Rightarrow> CursorV1 option) \<Rightarrow> pystr \<Rightarrow> CursorV1 res" where
  "model_validate_cursor parse_fields text =
     (case parse_fields text of
        None \<Rightarrow> Inl (ValueError ''ValidationError'')
      | Some c \<Rightarrow> if \<not> cursor_valid c then Inl (ValueError ''ValidationError'') else Inr c)"

definition cursor_of_payload :: "(rat \<Rightarrow> pystr) \<Rightarrow> (pystr \<Rightarrow> CursorV1 option) \<Rightarrow> pystr \<Rightarrow> CursorV1 res" where
  "cursor_of_payload float_repr parse_fields encoded_payload =
     rbind (b64decode encoded_payload) (\<lambda>bs.
     rbind (load_json_value cursor_hooks (JBytes bs)) (\<lambda>v.
     rbind (require_json_object ''cursor payload'' v) (\<lambda>raw.
     rbind (dumps float_repr True True (JObj raw)) (model_validate_cursor parse_fields))))"

text \<open>The body of the \<open>try\<close> statement of \<open>verify_cursor\<close>.\<close>

definition authenticated_cursor ::
  "(rat \<Rightarrow> pystr) \<Rightarrow> (pystr \<Rightarrow> CursorV1 option) \<Rightarrow> bytes \<Rightarrow> pystr \<Rightarrow> CursorV1 res" where
  "authenticated_cursor float_repr parse_fields secret token =
     (case split_once 46 token of
        None \<Rightarrow> Inl (ValueError ''not enough values to unpack'')
      | Some (encoded_payload, encoded_signature) \<Rightarrow>
          rbind (b64decode encoded_signature) (\<lambda>supplied_signature.
          rbind (derive_cursor_signing_key secret) (\<lambda>key.
          if list_ex (\<lambda>c. 128 \<le> c) encoded_payload then Inl (ValueError ''UnicodeEncodeError'')
          else if supplied_signature \<noteq> hmac_sha256 key encoded_payload
          then Inl (ValueError ''cursor signature mismatch'')
          else cursor_of_payload float_repr parse_fields encoded_payload)))"

definition cursor_rejected :: "string \<Rightarrow> 'a res" where
  "cursor_rejected m = app_fail INVALID_INPUT m 400"

definition verify_cursor ::
  "(rat \<Rightarrow> pystr) \<Rightarrow> (pystr \<Rightarrow> CursorV1 option) \<Rightarrow> bytes \<Rightarrow> pystr \<Rightarrow> pystr \<Rightarrow> pystr option \<Rightarrow> int \<Rightarrow> int \<Rightarrow> CursorV1 res" where
  "verify_cursor float_repr parse_fields secret token normalized_query scope_handle page_size now =
     (if token = [] then cursor_rejected ''Cursor is malformed.''
      else rbind (encode_utf8 token) (\<lambda>bs.
        if MAX_CURSOR_TOKEN_BYTES < length bs then cursor_rejected ''Cursor is malformed.''
        else case authenticated_cursor float_repr parse_fields secret token of
          Inl e \<Rightarrow> cursor_rejected ''Cursor is malformed.''
        | Inr cursor \<Rightarrow>
            if cu_key_id cursor \<noteq> CURSOR_KEY_ID \<or> cu_version cursor \<noteq> 1
            then cursor_rejected ''Cursor version is unsupported.''
            else if now < cu_issued_at cursor \<or> cu_expires_at cursor \<le> now
            then cursor_rejected ''Cursor lifetime is invalid.''
            else rbind (cursor_query_hash normalized_query) (\<lambda>h.
              if cu_query_hash cursor \<noteq> h \<or> cu_scope_handle cursor \<noteq> scope_handle \<or> cu_page_size cursor \<noteq> page_size
              then cursor_rejected ''Cursor does not match the search context.''
              else Inr cursor)))"

lemma b64decode_error_kind: "b64decode v = Inl e \<Longrightarrow> \<exists>a. e = AppErr a"
  by (auto simp: b64decode_def token_invalid_def Let_def split: if_splits option.splits)

text \<open>
  C38. A cursor is accepted exactly when it is short enough, was signed with the key derived from the root secret,
  carries fields of the model's ranges, is of the supported version, is used from its issue to before its expiry, at
  most an hour later, and was issued for this query, scope and page size; then the decoded cursor is returned. Every
  other token that can be written as UTF-8 is refused as invalid input, with status 400, for any
  query that can be hashed.
\<close>

theorem cursor_accepted_iff:
  assumes "encode_utf8 token = Inr bs" "cursor_query_hash normalized_query = Inr h"
  shows "(verify_cursor fr parse secret token normalized_query scope page now = Inr c \<longleftrightarrow>
      length bs \<le> 1024 \<and> 32 \<le> length secret
      \<and> (\<exists>p s. token = p @ [46] @ s \<and> 46 \<notin> set p \<and> list_all (\<lambda>x. x < 128) p
           \<and> b64decode s = Inr (hmac_sha256 (hmac_sha256 secret CURSOR_KEY_PURPOSE) p)
           \<and> cursor_of_payload fr parse p = Inr c)
      \<and> cu_key_id c = CURSOR_KEY_ID \<and> cu_issued_at c \<le> now \<and> now < cu_expires_at c
      \<and> cu_query_hash c = h \<and> cu_scope_handle c = scope \<and> cu_page_size c = page)
    \<and> (verify_cursor fr parse secret token normalized_query scope page now = Inr c \<longrightarrow>
      cursor_valid c \<and> cu_expires_at c \<le> cu_issued_at c + 3600000000 \<and> 0 \<le> cu_offset c \<and> cu_offset c \<le> 10000000)
    \<and> (\<not> is_ok (verify_cursor fr parse secret token normalized_query scope page now) \<longrightarrow>
      (\<exists>m. verify_cursor fr parse secret token normalized_query scope page now = Inl (AppErr (AppError INVALID_INPUT m 400))))"
proof -
  let ?v = "verify_cursor fr parse secret token normalized_query scope page now"
  let ?k = "hmac_sha256 secret CURSOR_KEY_PURPOSE"
  have auth: "authenticated_cursor fr parse secret token = Inr c \<longleftrightarrow>
      32 \<le> length secret \<and> (\<exists>p s. token = p @ [46] @ s \<and> 46 \<notin> set p \<and> list_all (\<lambda>x. x < 128) p
         \<and> b64decode s = Inr (hmac_sha256 ?k p) \<and> cursor_of_payload fr parse p = Inr c)" for c
  proof (cases "split_once 46 token")
    case None
    then have "\<not> (token = p @ [46] @ s \<and> 46 \<notin> set p)" for p s using split_once_Some [of 46 token p s] by auto
    then show ?thesis by (auto simp: authenticated_cursor_def None)
  next
    case (Some ps)
    then obtain p s where ps: "split_once 46 token = Some (p, s)" by (cases ps) auto
    have u: "token = p' @ [46] @ s' \<and> 46 \<notin> set p' \<longleftrightarrow> p' = p \<and> s' = s" for p' s'
      using split_once_Some [of 46 token p' s'] ps by auto
    have "authenticated_cursor fr parse secret token = Inr c \<longleftrightarrow> 32 \<le> length secret \<and> list_all (\<lambda>x. x < 128) p
         \<and> b64decode s = Inr (hmac_sha256 ?k p) \<and> cursor_of_payload fr parse p = Inr c"
      by (auto simp: authenticated_cursor_def ps rbind_eq_Inr derive_cursor_signing_key_def MIN_SIGNING_SECRET_BYTES_def
          list_ex_iff list_all_iff split: if_splits)
    then show ?thesis using u by metis
  qed
  have valid: "cursor_valid c" if "authenticated_cursor fr parse secret token = Inr c" for c
    using that by (auto simp: auth cursor_of_payload_def model_validate_cursor_def rbind_eq_Inr split: option.splits if_splits)
  have ne: "token \<noteq> []" if "authenticated_cursor fr parse secret token = Inr c" for c using that auth by auto
  have acc: "?v = Inr c \<longleftrightarrow> length bs \<le> 1024 \<and> authenticated_cursor fr parse secret token = Inr c \<and> cu_key_id c = CURSOR_KEY_ID
      \<and> cu_issued_at c \<le> now \<and> now < cu_expires_at c \<and> cu_query_hash c = h \<and> cu_scope_handle c = scope \<and> cu_page_size c = page"
    using valid ne assms
    by (cases "authenticated_cursor fr parse secret token")
      (auto simp: verify_cursor_def cursor_rejected_def cursor_valid_def MAX_CURSOR_TOKEN_BYTES_def split: if_splits)
  have rej: "\<exists>m. ?v = Inl (AppErr (AppError INVALID_INPUT m 400))" if "\<not> is_ok ?v"
    using that assms
    by (cases "authenticated_cursor fr parse secret token")
      (auto simp: verify_cursor_def cursor_rejected_def split: if_splits)
  have lim: "cu_expires_at c \<le> cu_issued_at c + 3600000000 \<and> 0 \<le> cu_offset c \<and> cu_offset c \<le> 10000000" if "cursor_valid c"
    using that by (auto simp: cursor_valid_def bounded_lifetime_def HARD_MAX_CURSOR_TTL_SECONDS_def MAX_CURSOR_OFFSET_def Let_def)
  show ?thesis
  proof (intro conjI impI)
    assume "?v = Inr c"
    then have "cursor_valid c" using acc valid by blast
    then show "cursor_valid c" "cu_expires_at c \<le> cu_issued_at c + 3600000000" "0 \<le> cu_offset c" "cu_offset c \<le> 10000000"
      using lim by blast+
  qed (unfold acc auth, blast, rule rej)
qed

lemma length_b64_text: "length (b64_text v) = (4 * length v + 2) div 3"
  by (induction v rule: b64_text.induct) auto

lemma hexdigest_hex: "is_bytes bs \<Longrightarrow> list_all (\<lambda>c. is_digit c \<or> 97 \<le> c \<and> c \<le> 102) (hexdigest bs)"
proof -
  have "is_digit (hex_digit d) \<or> 97 \<le> hex_digit d \<and> hex_digit d \<le> 102" if "d < 16" for d
    using that by (auto simp: hex_digit_def is_digit_def)
  then show "is_bytes bs \<Longrightarrow> list_all (\<lambda>c. is_digit c \<or> 97 \<le> c \<and> c \<le> 102) (hexdigest bs)"
    by (induction bs) (auto simp: hexdigest_def is_bytes_def less_mult_imp_div_less)
qed

definition example_cursor :: CursorV1 where
  "example_cursor =
     \<lparr>cu_version = 1, cu_key_id = CURSOR_KEY_ID, cu_query_hash = hexdigest (sha256 (codes ''vepkhi'')),
      cu_scope_handle = None, cu_offset = 20, cu_page_size = 10, cu_issued_at = 1700000000000000,
      cu_expires_at = 1700000900000000\<rparr>"

definition example_cursor_text :: pystr where
  "example_cursor_text = [123, 34] @ codes ''offset'' @ [34, 58, 50, 48, 125]"

definition example_parse_fields :: "pystr \<Rightarrow> CursorV1 option" where
  "example_parse_fields t = (if t = example_cursor_text then Some example_cursor else None)"

theorem cursor_accepted_iff_witness:
  "\<exists>token. sign_cursor (\<lambda>_. example_cursor_text) (replicate 32 7) example_cursor = Inr token
     \<and> verify_cursor example_float_repr example_parse_fields (replicate 32 7) token (codes ''vepkhi'') None 10 1700000000000000
       = Inr example_cursor"
proof -
  let ?k = "hmac_sha256 (replicate 32 7) CURSOR_KEY_PURPOSE" and ?p = "b64encode example_cursor_text"
  let ?s = "b64encode (hmac_sha256 ?k ?p)"
  have a: "ascii_text example_cursor_text" "is_bytes example_cursor_text" by code_simp+
  have b: "ascii_text (b64encode v)" if "is_bytes v" for v
    using b64_text_chars [OF that] by (auto simp: b64encode_text [OF that] ascii_text_def list_all_iff)
  note ba = b [OF a(2)] and bs = b [OF hmac_bytes]
  have tok: "ascii_text (?p @ [46] @ ?s)" "encode_utf8 (?p @ [46] @ ?s) = Inr (?p @ [46] @ ?s)"
    using ba bs [of ?k ?p] by (simp_all add: encode_utf8_ascii)
  have len: "length (?p @ [46] @ ?s) \<le> 1024"
    by (simp add: b64encode_text a(2) hmac_bytes length_b64_text) (simp add: example_cursor_text_def)
  have pay: "cursor_of_payload example_float_repr example_parse_fields ?p = Inr example_cursor"
  proof -
    have l: "load_json_value cursor_hooks (JBytes example_cursor_text) = Inr (py_of_json (JObj [(codes ''offset'', JInt 20)]))"
      and d: "dumps example_float_repr True True (JObj [(codes ''offset'', JInt 20)]) = Inr example_cursor_text"
      and r: "require_json_object ''cursor payload'' (py_of_json (JObj [(codes ''offset'', JInt 20)])) = Inr [(codes ''offset'', JInt 20)]"
      by code_simp+
    have "bounded_key_id CURSOR_KEY_ID" by code_simp
    then have "cursor_valid example_cursor"
      by (simp add: cursor_valid_def example_cursor_def sha256_hex_def hexdigest_hex sha256_bytes bounded_lifetime_def
          HARD_MAX_CURSOR_TTL_SECONDS_def MAX_CURSOR_OFFSET_def Let_def)
    then show ?thesis
      by (simp only: cursor_of_payload_def b64.dec_enc [OF a(2)] rbind_simps l r d model_validate_cursor_def
          example_parse_fields_def option.case not_True_eq_False if_True if_False simp_thms)
  qed
  have q: "cursor_query_hash (codes ''vepkhi'') = Inr (hexdigest (sha256 (codes ''vepkhi'')))"
  proof -
    have "encode_utf8 (codes ''vepkhi'') = Inr (codes ''vepkhi'')" by code_simp
    then show ?thesis by (simp add: cursor_query_hash_def del: codes_simps) simp
  qed
  have "verify_cursor example_float_repr example_parse_fields (replicate 32 7) (?p @ [46] @ ?s) (codes ''vepkhi'') None 10 1700000000000000
      = Inr example_cursor"
  proof (rule cursor_accepted_iff [OF tok(2) q, THEN conjunct1, THEN iffD2], intro conjI)
    show "\<exists>p s. ?p @ [46] @ ?s = p @ [46] @ s \<and> 46 \<notin> set p \<and> list_all (\<lambda>x. x < 128) p
        \<and> b64decode s = Inr (hmac_sha256 ?k p) \<and> cursor_of_payload example_float_repr example_parse_fields p = Inr example_cursor"
      using pay b64.dec_enc [OF hmac_bytes] b64.enc_chars [OF a(2)]
      by (intro exI [of _ ?p] exI [of _ ?s]) (auto simp: list_all_iff)
  qed (use len in \<open>simp_all add: example_cursor_def\<close>)
  moreover have "sign_cursor (\<lambda>_. example_cursor_text) (replicate 32 7) example_cursor = Inr (?p @ [46] @ ?s)"
    by (simp add: sign_cursor_def derive_cursor_signing_key_def MIN_SIGNING_SECRET_BYTES_def encode_utf8_ascii a(1) Let_def)
  ultimately show ?thesis by blast
qed

end
