(* ===== verification/Nplg_Interfaces.thy ===== *)
theory Nplg_Interfaces
  imports Main
begin

text \<open>
  The interfaces between a stateful component and its specification: labelled runs of a step
  relation, a locale for invariants that every step keeps and one for a specification that every step
  follows, with the facts about whole runs that clients use.
\<close>

inductive run :: "('s \<Rightarrow> 'l \<Rightarrow> 's \<Rightarrow> bool) \<Rightarrow> 's \<Rightarrow> 'l list \<Rightarrow> 's \<Rightarrow> bool" for step where
  run_Nil: "run step s [] s"
| run_Cons: "step s l t \<Longrightarrow> run step t ls u \<Longrightarrow> run step s (l # ls) u"

inductive_simps run_Nil_iff [simp]: "run step s [] t"
inductive_simps run_Cons_iff: "run step s (l # ls) t"

lemma run_append: "run step s (ls @ ms) u \<longleftrightarrow> (\<exists>t. run step s ls t \<and> run step t ms u)"
  by (induction ls arbitrary: s) (auto simp: run_Cons_iff)

locale step_invariant =
  fixes step :: "'s \<Rightarrow> 'l \<Rightarrow> 's \<Rightarrow> bool" and inv :: "'s \<Rightarrow> bool"
  assumes step_inv: "inv s \<Longrightarrow> step s l t \<Longrightarrow> inv t"
begin

lemma run_inv:
  assumes "run step s ls t" "inv s"
  shows "inv t"
  using assms by (induction rule: run.induct) (auto intro: step_inv)

end

locale simulation = step_invariant step inv
  for step :: "'s \<Rightarrow> 'l \<Rightarrow> 's \<Rightarrow> bool" and inv :: "'s \<Rightarrow> bool" +
  fixes spec :: "'a \<Rightarrow> 'l \<Rightarrow> 'a \<Rightarrow> bool" and abs :: "'s \<Rightarrow> 'a"
  assumes step_spec: "inv s \<Longrightarrow> step s l t \<Longrightarrow> spec (abs s) l (abs t)"
begin

lemma run_spec:
  assumes "run step s ls t" "inv s"
  shows "run spec (abs s) ls (abs t)"
  using assms by (induction rule: run.induct) (auto intro: run.intros step_inv step_spec)

end

end
