(* ===== verification/Nplg_Worker_Slot.thy ===== *)
theory Nplg_Worker_Slot
  imports Nplg_Json Nplg_Filesystem Nplg_Interfaces
begin

text \<open>
  The dedicated file-system slot of the PDF worker, \<^verbatim>\<open>src/nplg_mcp/pdf_worker_slot.py\<close>: the policy and
  its loader, descriptor-relative directory opening, mount inspection, the validation of the slot against the
  policy, and the single lease on it. \<open>PdfWorkerSlotError\<close> is a \<open>RuntimeError\<close>. The answers of the
  operating system and pydantic's field parsing are arguments. A lease object is a number; the quota
  hands out each number once.
\<close>

unbundle bit_operations_syntax

section \<open>Policy\<close>

definition REQUIRED_MOUNT_OPTIONS :: "pystr list" where
  "REQUIRED_MOUNT_OPTIONS = [codes ''rw'', codes ''nodev'', codes ''nosuid'', codes ''noexec'']"

definition MAX_POLICY_BYTES :: nat where "MAX_POLICY_BYTES = 16384"
definition MIN_JSON_OBJECT_BYTES :: nat where "MIN_JSON_OBJECT_BYTES = 2"

abbreviation slot_fail :: "string \<Rightarrow> 'a res" where
  "slot_fail m \<equiv> Inl (RuntimeError m)"

record PdfWorkerSlotPolicy =
  po_version :: int
  po_root :: pystr
  po_filesystem_type :: pystr
  po_maximum_total_bytes :: int
  po_minimum_available_bytes :: int
  po_maximum_total_inodes :: int
  po_minimum_available_inodes :: int
  po_mount_options :: "pystr list"
  po_concurrency :: int

definition require_version_one :: "int \<Rightarrow> int res" where
  "require_version_one v =
     (if v \<noteq> 1 then Inl (ValueError ''PDF worker slot policy version must equal 1'') else Inr v)"

definition require_absolute_root :: "pystr \<Rightarrow> pystr res" where
  "require_absolute_root v =
     (if \<not> posix_is_absolute v \<or> as_posix v \<noteq> v \<or> 0 \<in> set v
      then Inl (ValueError ''PDF worker slot root must be a canonical absolute path'') else Inr v)"

definition require_ext4 :: "pystr \<Rightarrow> pystr res" where
  "require_ext4 v =
     (if v \<noteq> codes ''ext4'' then Inl (ValueError ''PDF worker slot filesystem type must be ext4'') else Inr v)"

definition require_positive_capacity :: "int \<Rightarrow> int res" where
  "require_positive_capacity v =
     (if v \<le> 0 then Inl (ValueError ''PDF worker slot capacities must be positive integers'') else Inr v)"

definition require_json_option_array :: "pyval \<Rightarrow> pyval list res" where
  "require_json_option_array v =
     (case v of VList vs \<Rightarrow> Inr vs
      | _ \<Rightarrow> Inl (ValueError ''PDF worker slot mount options must be a JSON array''))"

definition require_exact_mount_options :: "pystr list \<Rightarrow> pystr list res" where
  "require_exact_mount_options v =
     (if set v \<noteq> set REQUIRED_MOUNT_OPTIONS \<or> length v \<noteq> length REQUIRED_MOUNT_OPTIONS
      then Inl (ValueError ''PDF worker slot mount options are not the reviewed set'') else Inr v)"

definition require_serial_execution :: "int \<Rightarrow> int res" where
  "require_serial_execution v =
     (if v \<noteq> 1 then Inl (ValueError ''PDF worker slot concurrency must equal 1'') else Inr v)"

text \<open>The maximum is \<open>None\<close> when its own validation failed.\<close>

definition require_byte_headroom_not_over_capacity :: "int option \<Rightarrow> int \<Rightarrow> int res" where
  "require_byte_headroom_not_over_capacity maximum v =
     (case maximum of
        Some m \<Rightarrow> if m < v then Inl (ValueError ''PDF worker slot byte headroom exceeds total capacity'') else Inr v
      | None \<Rightarrow> Inr v)"

definition require_inode_headroom_not_over_capacity :: "int option \<Rightarrow> int \<Rightarrow> int res" where
  "require_inode_headroom_not_over_capacity maximum v =
     (case maximum of
        Some m \<Rightarrow> if m < v then Inl (ValueError ''PDF worker slot inode headroom exceeds total capacity'') else Inr v
      | None \<Rightarrow> Inr v)"

text \<open>The model accepts parsed fields when every validator does.\<close>

definition policy_validators :: "PdfWorkerSlotPolicy \<Rightarrow> PdfWorkerSlotPolicy res" where
  "policy_validators p =
     rbind (require_version_one (po_version p)) (\<lambda>_.
     rbind (require_absolute_root (po_root p)) (\<lambda>_.
     rbind (require_ext4 (po_filesystem_type p)) (\<lambda>_.
     rbind (require_positive_capacity (po_maximum_total_bytes p)) (\<lambda>_.
     rbind (require_positive_capacity (po_minimum_available_bytes p)) (\<lambda>_.
     rbind (require_byte_headroom_not_over_capacity (Some (po_maximum_total_bytes p)) (po_minimum_available_bytes p)) (\<lambda>_.
     rbind (require_positive_capacity (po_maximum_total_inodes p)) (\<lambda>_.
     rbind (require_positive_capacity (po_minimum_available_inodes p)) (\<lambda>_.
     rbind (require_inode_headroom_not_over_capacity (Some (po_maximum_total_inodes p)) (po_minimum_available_inodes p)) (\<lambda>_.
     rbind (require_exact_mount_options (po_mount_options p)) (\<lambda>_.
     rbind (require_serial_execution (po_concurrency p)) (\<lambda>_. Inr p)))))))))))"

text \<open>
  The loader. \<open>chunks\<close> are the answers of \<open>os.read\<close>, cut to the size it was asked for, an empty one at the end of
  the file; \<open>parse_fields\<close> is pydantic's strict parsing of the document, with the array check of the
  \<open>mount_options\<close> field before it.
\<close>

record policy_file =
  pf_regular :: bool
  pf_nlink :: int
  pf_mode :: nat
  pf_size :: nat

fun reject_duplicate_keys_loop :: "(pyval \<times> pyval) list \<Rightarrow> (pystr \<times> pyval) list \<Rightarrow> pyval res" where
  "reject_duplicate_keys_loop result [] = Inr (VDict result)"
| "reject_duplicate_keys_loop result ((k, v) # pairs) =
     (if VStr k \<in> fst ` set result then slot_fail ''PDF worker slot policy contains duplicate JSON keys''
      else reject_duplicate_keys_loop (dict_set result (VStr k) v) pairs)"

definition reject_duplicate_json_keys :: "(pystr \<times> pyval) list \<Rightarrow> pyval res" where
  "reject_duplicate_json_keys pairs = reject_duplicate_keys_loop [] pairs"

fun read_policy_loop :: "bytes list \<Rightarrow> bytes \<Rightarrow> bytes" where
  "read_policy_loop [] payload = payload"
| "read_policy_loop (c # cs) payload =
     (if MAX_POLICY_BYTES < length payload then payload
      else let chunk = take (MAX_POLICY_BYTES + 1 - length payload) c
           in if chunk = [] then payload else read_policy_loop cs (payload @ chunk))"

definition policy_document :: "bytes \<Rightarrow> pyval res" where
  "policy_document payload =
     (case utf8_decode payload of
        None \<Rightarrow> slot_fail ''PDF worker slot policy is not valid JSON''
      | Some decoded \<Rightarrow>
          (case json_loads \<lparr>object_pairs_hook = Some reject_duplicate_json_keys, parse_constant = None, parse_float = None\<rparr>
                  (JText decoded) of
             Inl e \<Rightarrow> if e = ValueError ''JSONDecodeError'' then slot_fail ''PDF worker slot policy is not valid JSON'' else Inl e
           | Inr v \<Rightarrow> Inr v))"

definition load_pdf_worker_slot_policy ::
  "((pyval \<times> pyval) list \<Rightarrow> PdfWorkerSlotPolicy option) \<Rightarrow> pystr \<Rightarrow> policy_file option \<Rightarrow> bytes list \<Rightarrow> PdfWorkerSlotPolicy res" where
  "load_pdf_worker_slot_policy parse_fields path opened chunks =
     (if \<not> posix_is_absolute path \<or> 0 \<in> set path then slot_fail ''PDF worker slot policy path is invalid''
      else case opened of
        None \<Rightarrow> slot_fail ''PDF worker slot policy cannot be opened safely''
      | Some m \<Rightarrow>
          if \<not> pf_regular m \<or> pf_nlink m \<noteq> 1 \<or> pf_mode m AND 18 \<noteq> 0 \<or> pf_size m < MIN_JSON_OBJECT_BYTES
             \<or> MAX_POLICY_BYTES < pf_size m
          then slot_fail ''PDF worker slot policy is not a safe regular file''
          else let payload = read_policy_loop chunks []
               in if length payload \<noteq> pf_size m \<or> MAX_POLICY_BYTES < length payload
                  then slot_fail ''PDF worker slot policy changed or exceeded its size limit''
                  else rbind (policy_document payload) (\<lambda>document.
                    case document of
                      VDict es \<Rightarrow>
                        (case parse_fields es of
                           None \<Rightarrow> slot_fail ''PDF worker slot policy does not meet the strict schema''
                         | Some p \<Rightarrow>
                             (case policy_validators p of
                                Inl _ \<Rightarrow> slot_fail ''PDF worker slot policy does not meet the strict schema''
                              | Inr q \<Rightarrow> Inr q))
                    | _ \<Rightarrow> slot_fail ''PDF worker slot policy root must be a JSON object''))"

section \<open>Directory descriptors\<close>

text \<open>The answers of the kernel about paths and descriptors, and the descriptors the process holds open.\<close>

record fd_stat =
  fd_is_dir :: bool
  fd_is_link :: bool
  fd_dev :: int
  fd_uid :: int
  fd_mode :: nat

record fd_kernel =
  k_open :: "pystr \<Rightarrow> int option \<Rightarrow> int option"
  k_inheritable :: "int \<Rightarrow> bool"
  k_fstat :: "int \<Rightarrow> fd_stat"
  k_euid :: int

record DirectoryFd =
  dfd_value :: int
  dfd_device :: int

type_synonym 'a fdop = "int set \<Rightarrow> 'a res \<times> int set"

definition safe_segment_char :: "nat \<Rightarrow> bool" where
  "safe_segment_char c = (65 \<le> c \<and> c \<le> 90 \<or> 97 \<le> c \<and> c \<le> 122 \<or> is_digit c)"

definition validate_safe_path_segment :: "pyval \<Rightarrow> pystr res" where
  "validate_safe_path_segment value =
     (case value of
        VStr s \<Rightarrow>
          if s = codes ''.'' \<or> s = codes ''..''
             \<or> \<not> (case s of [] \<Rightarrow> False
                   | c # r \<Rightarrow> safe_segment_char c \<and> length r \<le> 127
                       \<and> list_all (\<lambda>d. safe_segment_char d \<or> d = 46 \<or> d = 95 \<or> d = 45) r)
          then slot_fail ''PDF worker slot child name is invalid'' else Inr s
      | _ \<Rightarrow> slot_fail ''PDF worker slot child name is invalid'')"

definition validated_directory_from_descriptor :: "fd_kernel \<Rightarrow> int \<Rightarrow> DirectoryFd option \<Rightarrow> DirectoryFd res" where
  "validated_directory_from_descriptor k raw directory_fd =
     (if raw < 0 then slot_fail ''PDF worker slot directory descriptor is invalid''
      else if k_inheritable k raw then slot_fail ''PDF worker slot directory descriptor is inheritable''
      else let m = k_fstat k raw
           in if \<not> fd_is_dir m \<or> fd_is_link m then slot_fail ''PDF worker slot target is not a safe directory''
              else if (case directory_fd of None \<Rightarrow> False | Some d \<Rightarrow> fd_dev m \<noteq> dfd_device d)
              then slot_fail ''PDF worker slot child directory is on another device''
              else Inr \<lparr>dfd_value = raw, dfd_device = fd_dev m\<rparr>)"

definition open_validated_directory :: "fd_kernel \<Rightarrow> pystr \<Rightarrow> DirectoryFd option \<Rightarrow> DirectoryFd fdop" where
  "open_validated_directory k path directory_fd = (\<lambda>fds.
     case k_open k path (map_option dfd_value directory_fd) of
       None \<Rightarrow> (slot_fail ''PDF worker slot directory cannot be opened safely'', fds)
     | Some raw \<Rightarrow>
         (case validated_directory_from_descriptor k raw directory_fd of
            Inl e \<Rightarrow> (Inl e, insert raw fds - {raw})
          | Inr d \<Rightarrow> (Inr d, insert raw fds)))"

definition close_directory :: "DirectoryFd \<Rightarrow> unit fdop" where
  "close_directory d = (\<lambda>fds. (Inr (), fds - {dfd_value d}))"

definition validate_root_descriptor_metadata :: "fd_kernel \<Rightarrow> fd_stat \<Rightarrow> unit res" where
  "validate_root_descriptor_metadata k m =
     (if fd_uid m \<noteq> k_euid k \<or> fd_mode m AND 63 \<noteq> 0
      then slot_fail ''PDF worker slot root directory ownership or mode is unsafe'' else Inr ())"

definition open_configured_root_fd :: "fd_kernel \<Rightarrow> PdfWorkerSlotPolicy \<Rightarrow> DirectoryFd fdop" where
  "open_configured_root_fd k policy =
     obind (open_validated_directory k (po_root policy) None) (\<lambda>d fds.
       case validate_root_descriptor_metadata k (k_fstat k (dfd_value d)) of
         Inl e \<Rightarrow> (Inl e, snd (close_directory d fds))
       | Inr _ \<Rightarrow> (Inr d, fds))"

definition open_child_directory_fd :: "fd_kernel \<Rightarrow> DirectoryFd option \<Rightarrow> pyval \<Rightarrow> DirectoryFd fdop" where
  "open_child_directory_fd k parent name = (\<lambda>fds.
     case parent of
       None \<Rightarrow> (slot_fail ''PDF worker slot parent descriptor is invalid'', fds)
     | Some p \<Rightarrow>
         (case validate_safe_path_segment name of
            Inl e \<Rightarrow> (Inl e, fds)
          | Inr s \<Rightarrow> open_validated_directory k s (Some p) fds))"

section \<open>Mount inspection\<close>

definition is_octal :: "nat \<Rightarrow> bool" where "is_octal c = (48 \<le> c \<and> c \<le> 55)"

text \<open>
  The loop of \<open>_decode_mountinfo_path\<close>, on the characters from the index on: an escape needs the backslash
  and three more characters.
\<close>

fun decode_mountinfo_path :: "pystr \<Rightarrow> pystr" where
  "decode_mountinfo_path (c # x # y # z # r) =
     (if c = 92 \<and> is_octal x \<and> is_octal y \<and> is_octal z
      then ((x - 48) * 64 + (y - 48) * 8 + (z - 48)) # decode_mountinfo_path r
      else c # decode_mountinfo_path (x # y # z # r))"
| "decode_mountinfo_path (c # r) = c # decode_mountinfo_path r"
| "decode_mountinfo_path [] = []"

text \<open>\<^verbatim>\<open>str.splitlines()\<close>: every Unicode line boundary ends a line, a carriage return with a line feed once.\<close>

definition line_boundary :: "nat \<Rightarrow> bool" where
  "line_boundary c = (c \<in> {10, 11, 12, 13, 28, 29, 30, 133, 8232, 8233})"

fun splitlines_from :: "pystr \<Rightarrow> pystr \<Rightarrow> pystr list" where
  "splitlines_from line [] = (if line = [] then [] else [line])"
| "splitlines_from line [c] = (if line_boundary c then [line] else [line @ [c]])"
| "splitlines_from line (c # d # r) =
     (if c = 13 \<and> d = 10 then line # splitlines_from [] r
      else if line_boundary c then line # splitlines_from [] (d # r)
      else splitlines_from (line @ [c]) (d # r))"

definition splitlines :: "pystr \<Rightarrow> pystr list" where
  "splitlines s = splitlines_from [] s"

definition dev_major :: "nat \<Rightarrow> nat" where
  "dev_major d = d div 256 mod 4096 + d div 2 ^ 44 mod 2 ^ 20 * 4096"

definition dev_minor :: "nat \<Rightarrow> nat" where
  "dev_minor d = d mod 256 + d div 2 ^ 20 mod 2 ^ 24 * 256"

record mount_entry =
  me_point :: pystr
  me_device :: pystr
  me_options :: "pystr list"
  me_type :: pystr

text \<open>One line; \<open>None\<close> is the \<open>ValueError\<close> of \<open>index\<close> or an \<open>IndexError\<close>.\<close>

definition parse_mount_line :: "pystr \<Rightarrow> mount_entry option" where
  "parse_mount_line line =
     (let fs = split_on 32 line; separator = length (takeWhile (\<lambda>f. f \<noteq> [45]) fs)
      in if separator < length fs \<and> 5 < length fs \<and> separator + 1 < length fs
         then Some \<lparr>me_point = decode_mountinfo_path (fs ! 4), me_device = fs ! 2, me_options = split_on 44 (fs ! 5),
                    me_type = fs ! (separator + 1)\<rparr>
         else None)"

fun mount_loop ::
  "pystr \<Rightarrow> pystr \<Rightarrow> (pystr list \<times> pystr) list \<Rightarrow> bool \<Rightarrow> pystr list \<Rightarrow> ((pystr list \<times> pystr) list \<times> bool) res" where
  "mount_loop expected root_text matches nested [] = Inr (matches, nested)"
| "mount_loop expected root_text matches nested (line # lines) =
     (case parse_mount_line line of
        None \<Rightarrow> slot_fail ''PDF worker slot mount metadata is malformed''
      | Some e \<Rightarrow>
          if me_point e = root_text \<and> me_device e \<noteq> expected
          then slot_fail ''PDF worker slot mount device does not match its root''
          else mount_loop expected root_text
                 (if me_point e = root_text then matches @ [(me_options e, me_type e)] else matches)
                 (nested \<or> starts_with (root_text @ [47]) (me_point e)) lines)"

text \<open>\<open>mountinfo\<close> is the text of \<^verbatim>\<open>/proc/self/mountinfo\<close>, \<open>None\<close> when it cannot be read.\<close>

definition mount_details :: "pystr option \<Rightarrow> pystr \<Rightarrow> nat \<Rightarrow> (pystr list \<times> pystr) res" where
  "mount_details mountinfo root_text device =
     (let expected = nat_str (dev_major device) @ [58] @ nat_str (dev_minor device)
      in case mountinfo of
           None \<Rightarrow> slot_fail ''PDF worker slot mount metadata is unavailable''
         | Some text \<Rightarrow>
             rbind (mount_loop expected root_text [] False (splitlines text)) (\<lambda>(matches, nested).
               if nested \<or> length matches \<noteq> 1
               then slot_fail ''PDF worker slot must be exactly one non-nested mount''
               else Inr (hd matches)))"

section \<open>Validation of the slot\<close>

record WorkerSlotFilesystem =
  ob_filesystem_type :: pystr
  ob_mount_options :: "pystr list"
  ob_total_bytes :: int
  ob_available_bytes :: int
  ob_total_inodes :: int
  ob_available_inodes :: int

definition require_nonnegative_integer :: "int \<Rightarrow> int res" where
  "require_nonnegative_integer v =
     (if v < 0 then Inl (ValueError ''worker slot filesystem metrics must be non-negative integers'') else Inr v)"

record statvfs_result =
  f_blocks :: int
  f_bavail :: int
  f_frsize :: int
  f_files :: int
  f_favail :: int

text \<open>The system inspector, on the kernel's answers for the root.\<close>

definition system_inspect :: "bool \<Rightarrow> bool \<Rightarrow> nat \<Rightarrow> pystr option \<Rightarrow> statvfs_result \<Rightarrow> pystr \<Rightarrow> WorkerSlotFilesystem res" where
  "system_inspect is_dir is_link device mountinfo stats root_text =
     (if \<not> is_dir \<or> is_link then slot_fail ''PDF worker slot root is not a regular directory''
      else rbind (mount_details mountinfo root_text device) (\<lambda>(mount_options, filesystem_type).
        rbind (require_nonnegative_integer (f_blocks stats * f_frsize stats)) (\<lambda>total_bytes.
        rbind (require_nonnegative_integer (f_bavail stats * f_frsize stats)) (\<lambda>available_bytes.
        rbind (require_nonnegative_integer (f_files stats)) (\<lambda>total_inodes.
        rbind (require_nonnegative_integer (f_favail stats)) (\<lambda>available_inodes.
          Inr \<lparr>ob_filesystem_type = filesystem_type, ob_mount_options = mount_options, ob_total_bytes = total_bytes,
               ob_available_bytes = available_bytes, ob_total_inodes = total_inodes,
               ob_available_inodes = available_inodes\<rparr>)))))) "

record QuotaBoundStagingRoot =
  qr_path :: pystr
  qr_policy :: PdfWorkerSlotPolicy

definition validate_quota_bound_staging_root ::
  "PdfWorkerSlotPolicy \<Rightarrow> WorkerSlotFilesystem res \<Rightarrow> QuotaBoundStagingRoot res" where
  "validate_quota_bound_staging_root policy inspected =
     rbind inspected (\<lambda>observed.
       if ob_filesystem_type observed \<noteq> po_filesystem_type policy
       then slot_fail ''PDF worker slot filesystem type does not match policy''
       else if \<not> set REQUIRED_MOUNT_OPTIONS \<subseteq> set (ob_mount_options observed)
       then slot_fail ''PDF worker slot mount options do not match policy''
       else if ob_total_bytes observed \<noteq> po_maximum_total_bytes policy
       then slot_fail ''PDF worker slot total byte capacity does not match policy''
       else if ob_available_bytes observed < po_minimum_available_bytes policy
       then slot_fail ''PDF worker slot available byte headroom is insufficient''
       else if ob_total_inodes observed \<noteq> po_maximum_total_inodes policy
       then slot_fail ''PDF worker slot total inode capacity does not match policy''
       else if ob_available_inodes observed < po_minimum_available_inodes policy
       then slot_fail ''PDF worker slot available inode headroom is insufficient''
       else Inr \<lparr>qr_path = po_root policy, qr_policy = policy\<rparr>)"

section \<open>The lease\<close>

datatype WorkerSlotLeaseState = ISSUED | ENTERED

text \<open>The running thread and its asyncio task, if any.\<close>

type_synonym exec_context = "nat \<times> nat option"

text \<open>\<open>issued\<close> is the number of lease objects this quota has made; the next one gets that number.\<close>

record WorkerStagingQuota =
  wq_policy :: PdfWorkerSlotPolicy
  wq_root :: QuotaBoundStagingRoot
  active_lease :: "nat option"
  active_lease_state :: "WorkerSlotLeaseState option"
  active_owner_thread :: "nat option"
  active_owner_task :: "nat option"
  released_leases :: "nat list"
  issued :: nat

datatype lease_argument = Lease nat | NotALease

type_synonym 'a slot_op = "WorkerStagingQuota \<Rightarrow> 'a res \<times> WorkerStagingQuota"

text \<open>
  The constructor; \<open>kern\<close> is given when no inspector is injected, and then the root is opened and
  closed once.
\<close>

definition quota_init ::
  "fd_kernel option \<Rightarrow> PdfWorkerSlotPolicy \<Rightarrow> WorkerSlotFilesystem res \<Rightarrow> int set \<Rightarrow> WorkerStagingQuota res \<times> int set" where
  "quota_init kern policy inspected fds =
     (let (opened, fds1) =
        (case kern of
           None \<Rightarrow> (Inr (), fds)
         | Some k \<Rightarrow> obind (open_configured_root_fd k policy) close_directory fds)
      in (rbind opened (\<lambda>_. rbind (validate_quota_bound_staging_root policy inspected) (\<lambda>r.
            Inr \<lparr>wq_policy = policy, wq_root = r, active_lease = None, active_lease_state = None,
                 active_owner_thread = None, active_owner_task = None, released_leases = [], issued = 0\<rparr>)), fds1))"

definition quota_lease :: "exec_context \<Rightarrow> WorkerSlotFilesystem res \<Rightarrow> nat slot_op" where
  "quota_lease ctx inspected st =
     (if active_lease st \<noteq> None then (slot_fail ''PDF worker slot is already leased'', st)
      else case validate_quota_bound_staging_root (wq_policy st) inspected of
        Inl e \<Rightarrow> (Inl e, st)
      | Inr r \<Rightarrow>
          (Inr (issued st),
           st\<lparr>active_lease := Some (issued st), active_lease_state := Some ISSUED, active_owner_thread := Some (fst ctx),
              active_owner_task := snd ctx, issued := issued st + 1\<rparr>))"

definition require_lease_owner :: "exec_context \<Rightarrow> WorkerStagingQuota \<Rightarrow> unit res" where
  "require_lease_owner ctx st =
     (if active_owner_thread st \<noteq> Some (fst ctx) \<or> active_owner_task st \<noteq> snd ctx
      then slot_fail ''PDF worker slot lease belongs to another execution context'' else Inr ())"

definition quota_enter :: "exec_context \<Rightarrow> lease_argument \<Rightarrow> QuotaBoundStagingRoot slot_op" where
  "quota_enter ctx arg st =
     (case arg of
        NotALease \<Rightarrow> (slot_fail ''PDF worker slot lease is invalid'', st)
      | Lease l \<Rightarrow>
          if l \<in> set (released_leases st) then (slot_fail ''PDF worker slot lease was already released'', st)
          else if active_lease st \<noteq> Some l then (slot_fail ''PDF worker slot lease is invalid'', st)
          else case require_lease_owner ctx st of
            Inl e \<Rightarrow> (Inl e, st)
          | Inr _ \<Rightarrow>
              if active_lease_state st = Some ENTERED then (slot_fail ''PDF worker slot lease is already entered'', st)
              else if active_lease_state st \<noteq> Some ISSUED then (slot_fail ''PDF worker slot lease is invalid'', st)
              else (Inr (wq_root st), st\<lparr>active_lease_state := Some ENTERED\<rparr>))"

definition quota_release :: "exec_context \<Rightarrow> lease_argument \<Rightarrow> unit slot_op" where
  "quota_release ctx arg st =
     (case arg of
        NotALease \<Rightarrow> (slot_fail ''PDF worker slot lease is invalid'', st)
      | Lease l \<Rightarrow>
          if active_lease st = Some l
          then (case require_lease_owner ctx st of
                  Inl e \<Rightarrow> (Inl e, st)
                | Inr _ \<Rightarrow>
                    if active_lease_state st = None then (slot_fail ''PDF worker slot lease is invalid'', st)
                    else (Inr (), st\<lparr>released_leases := l # released_leases st, active_lease := None,
                                     active_lease_state := None, active_owner_thread := None, active_owner_task := None\<rparr>))
          else if l \<notin> set (released_leases st) then (slot_fail ''PDF worker slot lease is invalid'', st)
          else (Inr (), st))"

section \<open>Calls on the lease and what it promises\<close>

datatype slot_call =
    CallLease exec_context "WorkerSlotFilesystem res"
  | CallEnter exec_context lease_argument
  | CallRelease exec_context lease_argument

datatype slot_outcome = Leased nat | Entered | Released | Failed

definition slot_exec :: "slot_call \<Rightarrow> WorkerStagingQuota \<Rightarrow> slot_outcome \<times> WorkerStagingQuota" where
  "slot_exec call st =
     (case call of
        CallLease ctx i \<Rightarrow> apfst (case_sum (\<lambda>_. Failed) Leased) (quota_lease ctx i st)
      | CallEnter ctx a \<Rightarrow> apfst (case_sum (\<lambda>_. Failed) (\<lambda>_. Entered)) (quota_enter ctx a st)
      | CallRelease ctx a \<Rightarrow> apfst (case_sum (\<lambda>_. Failed) (\<lambda>_. Released)) (quota_release ctx a st))"

definition slot_step :: "WorkerStagingQuota \<Rightarrow> slot_call \<times> slot_outcome \<Rightarrow> WorkerStagingQuota \<Rightarrow> bool" where
  "slot_step st l st' = (slot_exec (fst l) st = (snd l, st'))"

text \<open>
  The specification: at most one holder, a lease with the context that took it and whether it was entered, and
  the leases given back so far. A refused call changes nothing.
\<close>

record slot_spec_state =
  holder :: "(nat \<times> exec_context \<times> bool) option"
  past :: "nat set"

inductive slot_spec :: "slot_spec_state \<Rightarrow> slot_call \<times> slot_outcome \<Rightarrow> slot_spec_state \<Rightarrow> bool" where
  take: "holder s = None \<Longrightarrow> l \<notin> past s \<Longrightarrow> slot_spec s (CallLease c i, Leased l) (s\<lparr>holder := Some (l, c, False)\<rparr>)"
| refuse_lease: "slot_spec s (CallLease c i, Failed) s"
| enter: "holder s = Some (l, c, False) \<Longrightarrow> slot_spec s (CallEnter c (Lease l), Entered) (s\<lparr>holder := Some (l, c, True)\<rparr>)"
| refuse_enter: "(\<And>l. a = Lease l \<Longrightarrow> holder s \<noteq> Some (l, c, False)) \<Longrightarrow> slot_spec s (CallEnter c a, Failed) s"
| give_back: "holder s = Some (l, c, e) \<Longrightarrow>
    slot_spec s (CallRelease c (Lease l), Released) (s\<lparr>holder := None, past := insert l (past s)\<rparr>)"
| again: "l \<in> past s \<Longrightarrow> slot_spec s (CallRelease c (Lease l), Released) s"
| refuse_release: "(\<And>l e. a = Lease l \<Longrightarrow> holder s \<noteq> Some (l, c, e) \<and> l \<notin> past s) \<Longrightarrow> slot_spec s (CallRelease c a, Failed) s"

inductive_cases slot_spec_cases: "slot_spec s x t"

definition slot_abs :: "WorkerStagingQuota \<Rightarrow> slot_spec_state" where
  "slot_abs st =
     \<lparr>holder = (case (active_lease st, active_owner_thread st) of
                  (Some l, Some t) \<Rightarrow> Some (l, (t, active_owner_task st), active_lease_state st = Some ENTERED)
                | _ \<Rightarrow> None),
      past = set (released_leases st)\<rparr>"

definition slot_inv :: "WorkerStagingQuota \<Rightarrow> bool" where
  "slot_inv st =
     ((active_lease st = None \<longleftrightarrow> active_lease_state st = None) \<and> (active_lease st = None \<longleftrightarrow> active_owner_thread st = None)
      \<and> (active_lease st = None \<longrightarrow> active_owner_task st = None)
      \<and> (\<forall>l. active_lease st = Some l \<longrightarrow> l < issued st \<and> l \<notin> set (released_leases st))
      \<and> (\<forall>l\<in>set (released_leases st). l < issued st))"

lemmas slot_ops = slot_step_def slot_exec_def quota_lease_def quota_enter_def quota_release_def require_lease_owner_def

lemma slot_spec_update:
  "holder s = None \<Longrightarrow> l \<notin> past s \<Longrightarrow> t = s\<lparr>holder := Some (l, c, False)\<rparr> \<Longrightarrow> slot_spec s (CallLease c i, Leased l) t"
  "holder s = Some (l, c, False) \<Longrightarrow> t = s\<lparr>holder := Some (l, c, True)\<rparr> \<Longrightarrow> slot_spec s (CallEnter c (Lease l), Entered) t"
  "holder s = Some (l, c, e) \<Longrightarrow> t = s\<lparr>holder := None, past := insert l (past s)\<rparr> \<Longrightarrow>
     slot_spec s (CallRelease c (Lease l), Released) t"
  by (auto intro: slot_spec.intros)

lemma slot_step_keeps_inv: "slot_inv s \<Longrightarrow> slot_step s l t \<Longrightarrow> slot_inv t"
  by (cases "fst l"; cases l)
    (auto simp: slot_ops slot_inv_def less_Suc_eq split: if_splits sum.splits lease_argument.splits)

lemma slot_step_follows_spec:
  assumes inv: "slot_inv s" and st: "slot_step s l t"
  shows "slot_spec (slot_abs s) l (slot_abs t)"
proof -
  obtain call r where l: "l = (call, r)" by (cases l)
  show ?thesis
  proof (cases call)
    case (CallLease c i)
    then show ?thesis using inv st
      by (cases c) (auto simp: l slot_ops slot_inv_def slot_abs_def split: if_splits sum.splits
          intro!: slot_spec_update(1) slot_spec.refuse_lease)
  next
    case (CallEnter c a)
    then show ?thesis using inv st
      by (cases c) (auto simp: l slot_ops slot_inv_def slot_abs_def split: if_splits sum.splits lease_argument.splits option.splits
          intro!: slot_spec_update(2) slot_spec.refuse_enter, metis WorkerSlotLeaseState.exhaust)
  next
    case (CallRelease c a)
    then show ?thesis using inv st
      by (cases c) (auto simp: l slot_ops slot_inv_def slot_abs_def split: if_splits sum.splits lease_argument.splits option.splits
          intro: slot_spec_update(3) slot_spec.again slot_spec.refuse_release)
  qed
qed

interpretation slot: simulation slot_step slot_inv slot_spec slot_abs
  by unfold_locales (auto intro: slot_step_keeps_inv slot_step_follows_spec)


section \<open>Exclusive use\<close>

lemma slot_spec_past: "slot_spec s x t \<Longrightarrow> past s \<subseteq> past t"
  by (elim slot_spec_cases) auto

lemma slot_spec_run_past: "run slot_spec s ls t \<Longrightarrow> past s \<subseteq> past t"
  by (induction rule: run.induct) (auto dest: slot_spec_past)

lemma slot_spec_released: "slot_spec s (CallRelease c (Lease l), Released) t \<Longrightarrow> l \<in> past t"
  by (elim slot_spec_cases) auto

lemma run_released:
  assumes "run slot_spec s ls t" "(CallRelease c (Lease l), Released) \<in> set ls"
  shows "l \<in> past t"
  using assms
proof (induction rule: run.induct)
  case (run_Cons s x t ls u)
  show ?case
  proof (cases "x = (CallRelease c (Lease l), Released)")
    case True
    then show ?thesis using slot_spec_released [of s c l t] slot_spec_run_past [OF run_Cons.hyps(2)] run_Cons.hyps(1) by blast
  qed (use run_Cons in auto)
qed simp

lemma run_keeps_holder:
  assumes "run slot_spec s ls t" "\<exists>e. holder s = Some (l, c, e)" "(CallRelease c (Lease l), Released) \<notin> set ls"
  shows "\<exists>e. holder t = Some (l, c, e)"
  using assms
proof (induction rule: run.induct)
  case (run_Cons s x t ls u)
  then have "\<exists>e. holder t = Some (l, c, e)" by (auto elim!: slot_spec_cases)
  then show ?case using run_Cons by simp
qed simp

lemma leases_are_exclusive:
  assumes "run slot_spec s (ls1 @ (CallLease c i, Leased l) # ls2 @ (CallLease c' i', Leased l') # ls3) u"
  shows "(CallRelease c (Lease l), Released) \<in> set ls2 \<and> l' \<noteq> l"
proof -
  obtain s1 s2 s3 s4 where r: "slot_spec s1 (CallLease c i, Leased l) s2" "run slot_spec s2 ls2 s3"
    "slot_spec s3 (CallLease c' i', Leased l') s4"
    using assms by (auto simp: run_append run_Cons_iff)
  have "\<exists>e. holder s2 = Some (l, c, e)" using r(1) by (cases rule: slot_spec.cases) auto
  moreover have "holder s3 = None" "l' \<notin> past s3" using r(3) by (cases rule: slot_spec.cases; simp)+
  ultimately show ?thesis using run_keeps_holder [OF r(2)] run_released [OF r(2)] by (metis option.distinct(1))
qed

lemma quota_init_inv: "quota_init kern policy i fds = (Inr st, fds') \<Longrightarrow> slot_inv st \<and> slot_abs st = \<lparr>holder = None, past = {}\<rparr> \<and> wq_policy st = policy"
  by (auto simp: quota_init_def slot_inv_def slot_abs_def rbind_eq_Inr split: prod.splits)

text \<open>
  C39. The lease refines exclusive ownership. Over every sequence of lease, enter and release calls from any threads and
  tasks, with any file-system observations, the outcomes are those of a specification with at most one holder, in which only the
  context that took a lease can enter it, once, or give it back, and a refused call changes nothing. Hence between two successful leases
  the first was released by the context that took it, and no lease is handed out twice.
\<close>

theorem worker_slot_refines_exclusive_lease:
  assumes "quota_init kern policy inspected fds = (Inr st0, fds')" "run slot_step st0 calls st"
  shows "run slot_spec \<lparr>holder = None, past = {}\<rparr> calls (slot_abs st)
    \<and> (\<forall>ls1 c i l ls2 c' i' l' ls3. calls = ls1 @ (CallLease c i, Leased l) # ls2 @ (CallLease c' i', Leased l') # ls3 \<longrightarrow>
         (CallRelease c (Lease l), Released) \<in> set ls2 \<and> l' \<noteq> l)"
proof -
  have "run slot_spec \<lparr>holder = None, past = {}\<rparr> calls (slot_abs st)"
    using slot.run_spec [OF assms(2)] quota_init_inv [OF assms(1)] by simp
  then show ?thesis using leases_are_exclusive by blast
qed

fun slot_replay :: "WorkerStagingQuota \<Rightarrow> (slot_call \<times> slot_outcome) list \<Rightarrow> WorkerStagingQuota option" where
  "slot_replay st [] = Some st"
| "slot_replay st ((call, r) # ls) =
     (case slot_exec call st of (r', st') \<Rightarrow> if r' = r then slot_replay st' ls else None)"

lemma slot_replay_run: "slot_replay st ls = Some t \<Longrightarrow> run slot_step st ls t"
  by (induction st ls rule: slot_replay.induct) (auto simp: run_Cons_iff slot_step_def split: prod.splits if_splits)

definition example_slot_policy :: PdfWorkerSlotPolicy where
  "example_slot_policy =
     \<lparr>po_version = 1, po_root = codes ''/worker'', po_filesystem_type = codes ''ext4'', po_maximum_total_bytes = 4096,
      po_minimum_available_bytes = 1024, po_maximum_total_inodes = 64, po_minimum_available_inodes = 8,
      po_mount_options = REQUIRED_MOUNT_OPTIONS, po_concurrency = 1\<rparr>"

definition example_observed :: WorkerSlotFilesystem where
  "example_observed =
     \<lparr>ob_filesystem_type = codes ''ext4'', ob_mount_options = codes ''relatime'' # REQUIRED_MOUNT_OPTIONS,
      ob_total_bytes = 4096, ob_available_bytes = 4000, ob_total_inodes = 64, ob_available_inodes = 60\<rparr>"

definition example_quota :: WorkerStagingQuota where
  "example_quota =
     \<lparr>wq_policy = example_slot_policy, wq_root = \<lparr>qr_path = codes ''/worker'', qr_policy = example_slot_policy\<rparr>,
      active_lease = None, active_lease_state = None, active_owner_thread = None, active_owner_task = None,
      released_leases = [], issued = 0\<rparr>"

definition example_calls :: "(slot_call \<times> slot_outcome) list" where
  "example_calls =
     [(CallLease (1, None) (Inr example_observed), Leased 0), (CallLease (2, None) (Inr example_observed), Failed),
      (CallEnter (1, None) (Lease 0), Entered), (CallRelease (2, None) (Lease 0), Failed),
      (CallRelease (1, None) (Lease 0), Released), (CallEnter (1, None) (Lease 0), Failed),
      (CallRelease (2, Some 3) (Lease 0), Released),
      (CallLease (2, Some 3) (Inr (example_observed\<lparr>ob_available_bytes := 10\<rparr>)), Failed),
      (CallLease (2, Some 3) (Inr example_observed), Leased 1)]"

lemma example_slot_run:
  "quota_init None example_slot_policy (Inr example_observed) {} = (Inr example_quota, {})"
  "\<exists>st. run slot_step example_quota example_calls st \<and> slot_abs st = \<lparr>holder = Some (1, (2, Some 3), False), past = {0}\<rparr>"
proof -
  have "validate_quota_bound_staging_root example_slot_policy (Inr example_observed)
      = Inr \<lparr>qr_path = codes ''/worker'', qr_policy = example_slot_policy\<rparr>" by code_simp
  then show "quota_init None example_slot_policy (Inr example_observed) {} = (Inr example_quota, {})"
    by (simp add: quota_init_def example_quota_def)
  have "map_option (\<lambda>st. (holder (slot_abs st), released_leases st)) (slot_replay example_quota example_calls)
      = Some (Some (1, (2, Some 3), False), [0])" by code_simp
  then obtain st where st: "slot_replay example_quota example_calls = Some st"
    "holder (slot_abs st) = Some (1, (2, Some 3), False)" "released_leases st = [0]" by auto
  then show "\<exists>st. run slot_step example_quota example_calls st \<and> slot_abs st = \<lparr>holder = Some (1, (2, Some 3), False), past = {0}\<rparr>"
    using slot_replay_run [OF st(1)] by (auto simp: slot_abs_def split: option.splits)
qed

theorem worker_slot_refines_exclusive_lease_witness:
  "run slot_spec \<lparr>holder = None, past = {}\<rparr> example_calls \<lparr>holder = Some (1, (2, Some 3), False), past = {0}\<rparr>"
proof -
  obtain st where "run slot_step example_quota example_calls st" "slot_abs st = \<lparr>holder = Some (1, (2, Some 3), False), past = {0}\<rparr>"
    using example_slot_run(2) by blast
  then show ?thesis using worker_slot_refines_exclusive_lease [OF example_slot_run(1)] by metis
qed

text \<open>
  C40. The slot is never lost. In every state a quota can reach, the context that holds the lease can give it back, entered or
  not; and whenever no lease is held, the next call from any context whose observation matches the policy gets one.
\<close>

theorem worker_slot_stays_available:
  assumes "quota_init kern policy inspected fds = (Inr st0, fds')" "run slot_step st0 calls st"
  shows "(\<forall>l c e. holder (slot_abs st) = Some (l, c, e) \<longrightarrow>
        (\<exists>st1. quota_release c (Lease l) st = (Inr (), st1) \<and> holder (slot_abs st1) = None))
    \<and> (\<forall>c i root. holder (slot_abs st) = None \<longrightarrow> validate_quota_bound_staging_root policy i = Inr root \<longrightarrow>
        (\<exists>l st1. quota_lease c i st = (Inr l, st1) \<and> holder (slot_abs st1) = Some (l, c, False)
           \<and> quota_enter c (Lease l) st1 = (Inr (wq_root st0), st1\<lparr>active_lease_state := Some ENTERED\<rparr>)))"
proof -
  have const: "wq_policy t = wq_policy s \<and> wq_root t = wq_root s" if "run slot_step s ls t" for s ls t
    using that
  proof (induction rule: run.induct)
    case (run_Cons s x t ls u)
    then have "wq_policy t = wq_policy s \<and> wq_root t = wq_root s"
      by (cases "fst x"; cases x) (auto simp: slot_ops split: if_splits sum.splits lease_argument.splits)
    then show ?case using run_Cons.IH by simp
  qed simp
  have inv: "slot_inv st" "wq_policy st = policy" "wq_root st = wq_root st0"
    using slot.run_inv [OF assms(2)] quota_init_inv [OF assms(1)] const [OF assms(2)] by simp_all
  have "\<exists>st1. quota_release c (Lease l) st = (Inr (), st1) \<and> holder (slot_abs st1) = None"
    if "holder (slot_abs st) = Some (l, c, e)" for l c e
    using that inv(1)
    by (auto simp: slot_abs_def quota_release_def require_lease_owner_def slot_inv_def split: option.splits)
  moreover have "\<exists>l st1. quota_lease c i st = (Inr l, st1) \<and> holder (slot_abs st1) = Some (l, c, False)
      \<and> quota_enter c (Lease l) st1 = (Inr (wq_root st0), st1\<lparr>active_lease_state := Some ENTERED\<rparr>)"
    if "holder (slot_abs st) = None" "validate_quota_bound_staging_root policy i = Inr root" for c i root
    using that inv
    by (cases c) (auto simp: slot_abs_def quota_lease_def quota_enter_def require_lease_owner_def slot_inv_def split: option.splits)
  ultimately show ?thesis by blast
qed

theorem worker_slot_stays_available_witness:
  "\<exists>st st1. run slot_step example_quota example_calls st \<and> quota_release (2, Some 3) (Lease 1) st = (Inr (), st1)
     \<and> holder (slot_abs st1) = None"
proof -
  obtain st where st: "run slot_step example_quota example_calls st" "slot_abs st = \<lparr>holder = Some (1, (2, Some 3), False), past = {0}\<rparr>"
    using example_slot_run(2) by blast
  then have "holder (slot_abs st) = Some (1, (2, Some 3), False)" by simp
  then show ?thesis using worker_slot_stays_available [OF example_slot_run(1) st(1), THEN conjunct1] st(1) by blast
qed

section \<open>The mount table of the kernel\<close>

text \<open>
  A line of \<^verbatim>\<open>/proc/self/mountinfo\<close> as the kernel documents it. Space, tab, line feed and backslash are
  written as three octal digits after a backslash in the root and mount point fields.
\<close>

definition mangle_char :: "nat \<Rightarrow> pystr" where
  "mangle_char c =
     (if c = 32 \<or> c = 9 \<or> c = 10 \<or> c = 92 then [92, 48 + c div 64, 48 + c div 8 mod 8, 48 + c mod 8] else [c])"

definition mangle :: "pystr \<Rightarrow> pystr" where
  "mangle s = concat (map mangle_char s)"

record kernel_mount =
  km_id :: pystr
  km_parent :: pystr
  km_device :: pystr
  km_root :: pystr
  km_point :: pystr
  km_options :: "pystr list"
  km_tags :: "pystr list"
  km_type :: pystr
  km_source :: pystr
  km_super :: pystr

definition kernel_fields :: "kernel_mount \<Rightarrow> pystr list" where
  "kernel_fields m =
     [km_id m, km_parent m, km_device m, mangle (km_root m), mangle (km_point m), join_with [44] (km_options m)]
     @ km_tags m @ [[45], km_type m, km_source m, km_super m]"

definition kernel_line :: "kernel_mount \<Rightarrow> pystr" where
  "kernel_line m = join_with [32] (kernel_fields m)"

definition mountinfo_text :: "kernel_mount list \<Rightarrow> pystr" where
  "mountinfo_text ms = concat (map (\<lambda>m. kernel_line m @ [10]) ms)"

text \<open>
  Fields the kernel writes unescaped have no space; the paths are absolute; and no field has one of the
  characters other than line feed that \<^verbatim>\<open>splitlines\<close> takes for the end of a line.
\<close>

definition plain_field :: "pystr \<Rightarrow> bool" where
  "plain_field w = list_all (\<lambda>c. c \<noteq> 32 \<and> \<not> line_boundary c) w"

definition mount_path :: "pystr \<Rightarrow> bool" where
  "mount_path p = (starts_with [47] p \<and> list_all (\<lambda>c. line_boundary c \<longrightarrow> c = 10) p)"

definition mount_ok :: "kernel_mount \<Rightarrow> bool" where
  "mount_ok m =
     (list_all (\<lambda>w. plain_field w \<and> w \<noteq> [45]) ([km_id m, km_parent m, km_device m, join_with [44] (km_options m)] @ km_tags m)
      \<and> list_all plain_field [km_type m, km_source m, km_super m] \<and> mount_path (km_root m) \<and> mount_path (km_point m)
      \<and> km_options m \<noteq> [] \<and> list_all (\<lambda>w. 44 \<notin> set w) (km_options m))"

lemma mangle_simps [simp]: "mangle [] = []" "mangle (c # s) = mangle_char c @ mangle s"
  by (simp_all add: mangle_def)

lemma decode_plain: "c \<noteq> 92 \<Longrightarrow> decode_mountinfo_path (c # r) = c # decode_mountinfo_path r"
  by (cases r rule: remdups_adj.cases; cases "tl (tl r)") auto

lemma decode_mangle: "decode_mountinfo_path (mangle s) = s"
proof (induction s)
  case (Cons c s)
  then show ?case
    by (cases "c = 32 \<or> c = 9 \<or> c = 10 \<or> c = 92") (auto simp: mangle_char_def is_octal_def decode_plain)
qed simp

lemma mangle_plain: "mount_path p \<Longrightarrow> plain_field (mangle p) \<and> mangle p \<noteq> [45]"
proof -
  assume p: "mount_path p"
  have "plain_field (mangle_char c)" if "line_boundary c \<longrightarrow> c = 10" for c
    using that by (auto simp: mangle_char_def plain_field_def line_boundary_def)
  then have "\<forall>c\<in>set p. plain_field (mangle_char c)" using p by (auto simp: mount_path_def list_all_iff)
  then have "plain_field (mangle p)" by (induction p) (auto simp: plain_field_def)
  moreover obtain r where "p = 47 # r" using p by (auto simp: mount_path_def starts_with_iff)
  ultimately show ?thesis by (simp add: mangle_char_def)
qed

lemma splitlines_line:
  "list_all (\<lambda>c. \<not> line_boundary c) w \<Longrightarrow> splitlines_from l (w @ 10 # r) = (l @ w) # splitlines_from [] r"
proof (induction w arbitrary: l)
  case Nil
  have "line_boundary 10" by (simp add: line_boundary_def)
  then show ?case by (cases r) auto
next
  case (Cons c w)
  obtain d r' where dr: "w @ 10 # r = d # r'" by (cases w) auto
  have "c \<noteq> 13" using Cons.prems by (auto simp: line_boundary_def)
  then have "splitlines_from l (c # w @ 10 # r) = splitlines_from (l @ [c]) (w @ 10 # r)"
    using Cons.prems by (simp add: dr)
  then show ?case using Cons by simp
qed

lemma kernel_fields_plain: "mount_ok m \<Longrightarrow> w \<in> set (kernel_fields m) \<Longrightarrow> plain_field w"
proof -
  assume m: "mount_ok m" and w: "w \<in> set (kernel_fields m)"
  have "plain_field [45]" by (simp add: plain_field_def line_boundary_def)
  moreover have "plain_field (mangle (km_root m))" "plain_field (mangle (km_point m))"
    using m mangle_plain by (auto simp: mount_ok_def)
  ultimately show ?thesis using m w by (auto simp: mount_ok_def kernel_fields_def list_all_iff)
qed

lemma join_with_chars: "c \<in> set (join_with sep ws') \<Longrightarrow> c \<in> set sep \<or> (\<exists>w\<in>set ws'. c \<in> set w)"
  by (induction sep ws' rule: join_with.induct) auto

lemma kernel_line_boundary: "mount_ok m \<Longrightarrow> list_all (\<lambda>c. \<not> line_boundary c) (kernel_line m)"
proof -
  assume m: "mount_ok m"
  have "\<not> line_boundary 32" by (simp add: line_boundary_def)
  moreover have "\<not> line_boundary c" if "w \<in> set (kernel_fields m)" "c \<in> set w" for c w
    using kernel_fields_plain [OF m that(1)] that(2) by (auto simp: plain_field_def list_all_iff)
  ultimately show ?thesis using join_with_chars by (fastforce simp: kernel_line_def list_all_iff)
qed

lemma splitlines_mountinfo: "\<forall>m\<in>set ms. mount_ok m \<Longrightarrow> splitlines (mountinfo_text ms) = map kernel_line ms"
  by (induction ms) (auto simp: splitlines_def mountinfo_text_def splitlines_line kernel_line_boundary)

lemma parse_kernel_line:
  assumes "mount_ok m"
  shows "parse_mount_line (kernel_line m)
    = Some \<lparr>me_point = km_point m, me_device = km_device m, me_options = km_options m, me_type = km_type m\<rparr>"
proof -
  let ?pre = "[km_id m, km_parent m, km_device m, mangle (km_root m), mangle (km_point m), join_with [44] (km_options m)] @ km_tags m"
  let ?fs = "?pre @ [45] # [km_type m, km_source m, km_super m]"
  have fs: "kernel_fields m = ?fs" by (simp add: kernel_fields_def)
  have "split_on 32 (kernel_line m) = kernel_fields m"
    unfolding kernel_line_def
    by (rule split_on_join) (use kernel_fields_plain [OF assms] in \<open>auto simp: kernel_fields_def plain_field_def list_all_iff\<close>)
  moreover have "\<forall>w\<in>set ?pre. w \<noteq> [45]"
    using assms mangle_plain by (auto simp: mount_ok_def list_all_iff)
  then have tw: "takeWhile (\<lambda>f. f \<noteq> [45]) ?fs = ?pre" by (subst takeWhile_append2) auto
  moreover have "?fs ! (length ?pre + 1) = km_type m" by (simp add: nth_append)
  moreover have "split_on 44 (join_with [44] (km_options m)) = km_options m"
    using assms by (intro split_on_join) (auto simp: mount_ok_def list_all_iff)
  ultimately show ?thesis by (simp add: parse_mount_line_def fs Let_def decode_mangle)
qed

lemma mount_loop_entries:
  assumes "\<forall>m\<in>set ms. mount_ok m"
  shows "mount_loop ex root_text ps n (map kernel_line ms) =
    (if \<exists>m\<in>set ms. km_point m = root_text \<and> km_device m \<noteq> ex
     then slot_fail ''PDF worker slot mount device does not match its root''
     else Inr (ps @ map (\<lambda>m. (km_options m, km_type m)) (filter (\<lambda>m. km_point m = root_text) ms),
               n \<or> (\<exists>m\<in>set ms. starts_with (root_text @ [47]) (km_point m))))"
  using assms by (induction ms arbitrary: ps n) (auto simp: parse_kernel_line)

text \<open>
  The mount check reads the kernel's table exactly. For every table of mounts, escaped names included, whose names have no
  exotic line boundary, the check succeeds exactly when one mount is at the root, it is on the root's device, and no
  mount is below the root; and then it returns the options and the type of that mount.
\<close>

theorem mount_details_exact:
  assumes "\<forall>m\<in>set ms. mount_ok m"
  shows "mount_details (Some (mountinfo_text ms)) root_text device = Inr (opts, ty) \<longleftrightarrow>
    (\<exists>m. filter (\<lambda>m. km_point m = root_text) ms = [m] \<and> km_device m = nat_str (dev_major device) @ [58] @ nat_str (dev_minor device)
       \<and> km_options m = opts \<and> km_type m = ty)
    \<and> (\<forall>m\<in>set ms. \<not> starts_with (root_text @ [47]) (km_point m))"
proof -
  let ?ex = "nat_str (dev_major device) @ [58] @ nat_str (dev_minor device)"
  let ?at = "filter (\<lambda>m. km_point m = root_text) ms"
  let ?bad = "\<exists>m\<in>set ms. km_point m = root_text \<and> km_device m \<noteq> ?ex"
  have run: "mount_loop ?ex root_text [] False (splitlines (mountinfo_text ms)) = (if ?bad
     then slot_fail ''PDF worker slot mount device does not match its root''
     else Inr (map (\<lambda>m. (km_options m, km_type m)) ?at, \<exists>m\<in>set ms. starts_with (root_text @ [47]) (km_point m)))"
    by (simp add: splitlines_mountinfo [OF assms] mount_loop_entries [OF assms])
  show ?thesis
  proof (cases "\<exists>m. ?at = [m]")
    case True
    then obtain m where m: "?at = [m]" by blast
    then have "{x \<in> set ms. km_point x = root_text} = {m}" by (metis set_filter list.set(1) list.set(2))
    then have "x \<in> set ms \<and> km_point x = root_text \<longleftrightarrow> x = m" for x by blast
    then have "?bad \<longleftrightarrow> km_device m \<noteq> ?ex" by metis
    then show ?thesis unfolding mount_details_def Let_def option.case run by (auto simp: m)
  next
    case False
    then have "length ?at \<noteq> Suc 0" by (auto simp: length_Suc_conv)
    then show ?thesis using False unfolding mount_details_def Let_def option.case run by auto
  qed
qed

definition example_mount :: "pystr \<Rightarrow> string \<Rightarrow> kernel_mount" where
  "example_mount point dev =
     \<lparr>km_id = codes ''36'', km_parent = codes ''35'', km_device = codes dev, km_root = codes ''/'', km_point = point,
      km_options = REQUIRED_MOUNT_OPTIONS, km_tags = [codes ''shared:1''], km_type = codes ''ext4'',
      km_source = codes ''/dev/loop0'', km_super = codes ''rw''\<rparr>"

definition example_mounts :: "kernel_mount list" where
  "example_mounts =
     [example_mount (codes ''/'') ''8:1'', example_mount (codes ''/srv/slot a'') ''7:3'', example_mount (codes ''/srv/slot'') ''8:2'']"

end
