(* ===== verification/Nplg_Http_Security.thy ===== *)
theory Nplg_Http_Security
  imports Nplg_Admission Nplg_Resource_Admission Nplg_Json_Preflight Nplg_Json Nplg_Interfaces
begin

text \<open>
  The HTTP security middleware, \<^verbatim>\<open>src/nplg_mcp/http_security.py\<close>, with the host canonicalisation and the
  credentials of \<^verbatim>\<open>src/nplg_mcp/config.py\<close> that it uses. A request is its scope, its headers and the events its
  \<^verbatim>\<open>receive\<close> will deliver; the pipeline answers it or forwards one checked body to the wrapped application.
  Around it the middleware takes a global permit and the principal's share, and opens a request scope of the inline budget.
  Parsing of IP literals by \<^verbatim>\<open>ipaddress\<close> is an argument.
\<close>

section \<open>Configuration\<close>

record ApiPrincipalCredential =
  principal_id :: pystr
  bearer_token :: "pystr option"
  api_key_secret :: "pystr option"

definition MIN_CREDENTIAL_BYTES :: nat where "MIN_CREDENTIAL_BYTES = 32"
definition MAX_CREDENTIAL_BYTES :: nat where "MAX_CREDENTIAL_BYTES = 512"
definition DOCUMENTED_PLACEHOLDER :: pystr where
  "DOCUMENTED_PLACEHOLDER = codes ''replace-with-at-least-32-random-characters''"

definition validate_credential :: "ApiPrincipalCredential \<Rightarrow> ApiPrincipalCredential res" where
  "validate_credential c =
     (case filter (\<lambda>v. v \<noteq> None) [bearer_token c, api_key_secret c] of
        [Some raw] \<Rightarrow>
          rbind (encode_utf8 raw) (\<lambda>bs.
            if length bs < MIN_CREDENTIAL_BYTES \<or> MAX_CREDENTIAL_BYTES < length bs
            then Inl (ValueError ''API principal credentials must be between 32 and 512 bytes'')
            else if raw = DOCUMENTED_PLACEHOLDER
            then Inl (ValueError ''API principal credentials must replace the documented placeholder'')
            else if 13 \<in> set raw \<or> 10 \<in> set raw \<or> 0 \<in> set raw
            then Inl (ValueError ''API principal credentials must not contain control delimiters'')
            else Inr c)
      | _ \<Rightarrow> Inl (ValueError ''each API principal must define exactly one credential''))"

record AppConfig =
  allow_anonymous :: bool
  api_principals :: "ApiPrincipalCredential list"
  api_bearer_token :: "pystr option"
  api_key :: "pystr option"
  mcp_allowed_hosts :: "pystr list"
  mcp_allowed_origins :: "pystr list"
  gateway_authority :: bool
  mcp_max_body_bytes :: nat
  max_concurrent_mcp_requests :: int
  max_concurrent_mcp_requests_per_principal :: int
  mcp_application_deadline_seconds :: pyfloat

definition is_lower_alnum :: "nat \<Rightarrow> bool" where
  "is_lower_alnum c = (97 \<le> c \<and> c \<le> 122 \<or> is_digit c)"

definition dns_label :: "pystr \<Rightarrow> bool" where
  "dns_label s =
     (s \<noteq> [] \<and> length s \<le> 63 \<and> is_lower_alnum (hd s) \<and> is_lower_alnum (last s)
      \<and> list_all (\<lambda>c. is_lower_alnum c \<or> c = 45) s)"

definition rsplit_colon :: "pystr \<Rightarrow> pystr \<times> pystr" where
  "rsplit_colon s =
     (rev (tl (dropWhile (\<lambda>c. c \<noteq> 58) (rev s))), rev (takeWhile (\<lambda>c. c \<noteq> 58) (rev s)))"

definition host_error :: "string \<Rightarrow> 'a res" where
  "host_error m = Inl (ValueError m)"

definition canonical_port :: "int option \<Rightarrow> pystr option \<Rightarrow> unit res" where
  "canonical_port default_port port_text =
     (case port_text of
        None \<Rightarrow> Inr ()
      | Some t \<Rightarrow>
          if t = [] \<or> \<not> list_all is_digit t \<or> (1 < length t \<and> starts_with [48] t)
          then host_error ''MCP allowed host port is not canonical''
          else if INT_MAX_STR_DIGITS < length t
          then host_error ''Exceeds the limit (4300 digits) for integer string conversion''
          else let port = int (digits_value t)
               in if port < 1 \<or> 65535 < port \<or> Some port = default_port
                  then host_error ''MCP allowed host port is not canonical'' else Inr ())"

text \<open>\<open>ip_address s\<close> is the version and the compressed text of an IP literal, \<open>None\<close> when it does not parse.\<close>

definition canonical_host :: "(pystr \<Rightarrow> (int \<times> pystr) option) \<Rightarrow> int option \<Rightarrow> pystr \<Rightarrow> pystr res" where
  "canonical_host ip_address default_port v =
     (if v = [] \<or> 253 < length v then host_error ''MCP allowed host must be a nonempty canonical string''
      else if list_ex (\<lambda>c. 128 \<le> c) v then host_error ''MCP allowed host must be ASCII''
      else if list_ex (\<lambda>c. 65 \<le> c \<and> c \<le> 90 \<or> c \<le> 32 \<or> c = 127 \<or> c \<in> {42, 37, 92, 64, 47, 63, 35}) v
      then host_error ''MCP allowed host is not canonical''
      else if starts_with [91] v
      then (case split_once 93 v of
              None \<Rightarrow> host_error ''MCP allowed host has an invalid IP literal''
            | Some (pre, rest) \<Rightarrow>
                if rest \<noteq> [] \<and> \<not> starts_with [58] rest
                then host_error ''MCP allowed host has an invalid authority''
                else case ip_address (tl pre) of
                  None \<Rightarrow> host_error ''MCP allowed host has an invalid IP literal''
                | Some (version, text) \<Rightarrow>
                    if version \<noteq> 6 \<or> text \<noteq> tl pre then host_error ''MCP allowed host IP literal is not canonical''
                    else rbind (canonical_port default_port (if rest = [] then None else Some (tl rest))) (\<lambda>_. Inr v))
      else if 1 < length (filter (\<lambda>c. c = 58) v) then host_error ''MCP allowed IPv6 hosts must be bracketed''
      else let (host, port_text) = (if 58 \<in> set v then map_prod id Some (rsplit_colon v) else (v, None))
           in rbind (case ip_address host of
                       None \<Rightarrow> if \<not> list_all dns_label (split_on 46 host)
                               then host_error ''MCP allowed DNS host is not canonical'' else Inr ()
                     | Some (version, text) \<Rightarrow>
                         if version \<noteq> 4 \<or> text \<noteq> host then host_error ''MCP allowed host IP literal is not canonical''
                         else Inr ())
                (\<lambda>_. rbind (canonical_port default_port port_text) (\<lambda>_. Inr v)))"

section \<open>Headers and bodies\<close>

type_synonym headers = "(bytes \<times> bytes) list"

definition bytes_lower :: "bytes \<Rightarrow> bytes" where
  "bytes_lower b = map (\<lambda>c. if 65 \<le> c \<and> c \<le> 90 then c + 32 else c) b"

definition bytes_strip :: "bytes \<Rightarrow> bytes" where
  "bytes_strip b =
     (let sp = (\<lambda>c. c \<in> {9, 10, 11, 12, 13, 32 :: nat}) in rev (dropWhile sp (rev (dropWhile sp b))))"

definition header_values :: "string \<Rightarrow> headers \<Rightarrow> bytes list" where
  "header_values name hs = map snd (filter (\<lambda>(n, _). bytes_lower n = codes name) hs)"

text \<open>
  What \<^verbatim>\<open>receive\<close> delivers before the body timeout; a list that ends while more is awaited is a timeout.
\<close>

datatype asgi_event = HttpRequest bytes bool | HttpDisconnect | OtherEvent

datatype body_result = Body bytes | BodyTimeout | BodyTooLarge

fun bounded_body :: "nat \<Rightarrow> bytes \<Rightarrow> asgi_event list \<Rightarrow> body_result" where
  "bounded_body mx body [] = BodyTimeout"
| "bounded_body mx body (HttpDisconnect # es) = BodyTimeout"
| "bounded_body mx body (OtherEvent # es) = bounded_body mx body es"
| "bounded_body mx body (HttpRequest chunk again # es) =
     (if mx < length body + length chunk then BodyTooLarge
      else if again then bounded_body mx (body @ chunk) es else Body (body @ chunk))"

section \<open>Authentication\<close>

definition BEARER_PREFIX :: pystr where "BEARER_PREFIX = codes ''Bearer ''"

definition encoded :: "pystr \<Rightarrow> bytes" where
  "encoded s = concat (map utf8_encode s)"

text \<open>The loop over the configured principals keeps the last match.\<close>

fun match_principals :: "bool \<Rightarrow> bytes \<Rightarrow> pystr option \<Rightarrow> ApiPrincipalCredential list \<Rightarrow> pystr option" where
  "match_principals bearer presented matched [] = matched"
| "match_principals bearer presented matched (p # ps) =
     (case (if bearer then bearer_token p else api_key_secret p) of
        None \<Rightarrow> match_principals bearer presented matched ps
      | Some secret \<Rightarrow>
          match_principals bearer presented
            (if presented = encoded (if bearer then BEARER_PREFIX @ secret else secret) then Some (principal_id p) else matched) ps)"

definition authenticated_principal :: "AppConfig \<Rightarrow> headers \<Rightarrow> pystr option" where
  "authenticated_principal cfg hs =
     (let authorization = header_values ''authorization'' hs; api_keys = header_values ''x-api-key'' hs;
          bearer = (authorization \<noteq> [])
      in if authorization = [] \<and> api_keys = [] then (if allow_anonymous cfg then Some (codes ''anonymous'') else None)
         else if length authorization + length api_keys \<noteq> 1 then None
         else let presented = (if bearer then hd authorization else hd api_keys);
                  matched = match_principals bearer presented None (api_principals cfg)
              in case (if bearer then api_bearer_token cfg else api_key cfg) of
                   None \<Rightarrow> matched
                 | Some legacy \<Rightarrow>
                     if presented = encoded (if bearer then BEARER_PREFIX @ legacy else legacy)
                     then Some (if bearer then codes ''legacy-bearer'' else codes ''legacy-api-key'')
                     else matched)"

section \<open>The security pipeline\<close>

record http_scope =
  hs_type :: pystr
  hs_path :: pystr
  hs_scheme :: pystr
  hs_method :: pystr
  hs_headers :: headers

datatype sec_outcome =
    ToApp
  | Respond int json "(pystr \<times> pystr) list"
  | Forward bytes
  | Escapes pyexc

definition error_response :: "int \<Rightarrow> string \<Rightarrow> sec_outcome" where
  "error_response status m = Respond status (JObj [(codes ''error'', JStr (codes m))]) []"

definition is_mcp :: "http_scope \<Rightarrow> bool" where
  "is_mcp sc = (hs_type sc = codes ''http'' \<and> hs_path sc = codes ''/mcp'')"

definition canonical_gateway_host :: "(pystr \<Rightarrow> (int \<times> pystr) option) \<Rightarrow> http_scope \<Rightarrow> bool" where
  "canonical_gateway_host ip_address sc =
     (case header_values ''host'' (hs_headers sc) of
        [h] \<Rightarrow>
          \<not> list_ex (\<lambda>c. 128 \<le> c) h
          \<and> canonical_host ip_address (Some (if hs_scheme sc = codes ''https'' then 443 else 80)) h = Inr h
      | _ \<Rightarrow> False)"

definition invalid_authority :: "(pystr \<Rightarrow> (int \<times> pystr) option) \<Rightarrow> AppConfig \<Rightarrow> http_scope \<Rightarrow> bool" where
  "invalid_authority ip_address cfg sc =
     (let host_values = header_values ''host'' (hs_headers sc); origin_values = header_values ''origin'' (hs_headers sc)
      in length host_values \<noteq> 1
         \<or> (gateway_authority cfg \<and> \<not> canonical_gateway_host ip_address sc)
         \<or> (\<not> gateway_authority cfg \<and> hd host_values \<notin> set (mcp_allowed_hosts cfg))
         \<or> 1 < length origin_values
         \<or> (origin_values \<noteq> [] \<and> hd origin_values \<notin> set (mcp_allowed_origins cfg)))"

definition safe_version_byte :: "nat \<Rightarrow> bool" where
  "safe_version_byte b =
     (65 \<le> b \<and> b \<le> 90 \<or> 97 \<le> b \<and> b \<le> 122 \<or> is_digit b \<or> b \<in> {33, 35, 36, 37, 38, 39, 42, 43, 45, 46, 94, 95, 96, 124, 126})"

definition HANDSHAKE_VERSIONS :: "bytes list" where
  "HANDSHAKE_VERSIONS = [codes ''2025-03-26'', codes ''2025-06-18'', codes ''2025-11-25'']"

definition unsafe_version :: "bytes list \<Rightarrow> bool" where
  "unsafe_version versions =
     (length versions \<noteq> 1 \<or> \<not> (1 \<le> length (hd versions) \<and> length (hd versions) \<le> 32)
      \<or> list_ex (\<lambda>b. \<not> safe_version_byte b) (hd versions) \<or> hd versions \<in> set HANDSHAKE_VERSIONS)"

definition SINGLETON_NAMES :: "string list" where
  "SINGLETON_NAMES = [''content-type'', ''content-length'', ''transfer-encoding'', ''mcp-method'', ''mcp-name'']"

definition media_type :: "bytes \<Rightarrow> bytes" where
  "media_type v = bytes_lower (bytes_strip (hd (split_on 59 v)))"

text \<open>The declared length: absent, a number, or the response or exception it leads to.\<close>

definition declared_length :: "AppConfig \<Rightarrow> headers \<Rightarrow> sec_outcome + nat option" where
  "declared_length cfg hs =
     (case header_values ''content-length'' hs of
        [] \<Rightarrow> Inr None
      | v # _ \<Rightarrow>
          if list_ex (\<lambda>c. 128 \<le> c) v \<or> v = [] \<or> \<not> list_all is_digit v then Inl (error_response 400 ''Invalid Content-Length'')
          else if INT_MAX_STR_DIGITS < length v
          then Inl (Escapes (ValueError ''Exceeds the limit (4300 digits) for integer string conversion''))
          else if mcp_max_body_bytes cfg < digits_value v then Inl (error_response 413 ''Request body is too large'')
          else Inr (Some (digits_value v)))"

definition public_failure :: "ErrorCode \<Rightarrow> string \<Rightarrow> int \<Rightarrow> (pystr \<times> pystr) list \<Rightarrow> sec_outcome" where
  "public_failure code m status extra =
     Respond status (JObj [(codes ''error'', to_public_error Map.empty (AppErr (AppError code m status)))]) extra"

definition invalid_request :: sec_outcome where
  "invalid_request =
     Respond 400 (JObj [(codes ''jsonrpc'', JStr (codes ''2.0'')), (codes ''id'', JNull),
       (codes ''error'', JObj [(codes ''code'', JInt (- 32600)), (codes ''message'', JStr (codes ''Invalid Request''))])]) []"

text \<open>The part of \<open>_security_call\<close> after the header checks: reading, length and JSON preflight.\<close>

definition checked_body :: "AppConfig \<Rightarrow> nat option \<Rightarrow> asgi_event list \<Rightarrow> sec_outcome" where
  "checked_body cfg declared events =
     (case bounded_body (mcp_max_body_bytes cfg) [] events of
        BodyTimeout \<Rightarrow> public_failure REQUEST_TIMEOUT ''The request body was not received within the allowed time.'' 408 []
      | BodyTooLarge \<Rightarrow> error_response 413 ''Request body is too large''
      | Body body \<Rightarrow>
          if declared \<noteq> None \<and> declared \<noteq> Some (length body) then error_response 400 ''Invalid Content-Length''
          else case preflight_json_has_valid_root_request_id body
                      (Some (DEFAULT_LIMITS\<lparr>max_body_bytes := mcp_max_body_bytes cfg\<rparr>)) of
            None \<Rightarrow> error_response 400 ''Invalid JSON request body''
          | Some False \<Rightarrow> invalid_request
          | Some True \<Rightarrow> Forward body)"

definition security_call ::
  "(pystr \<Rightarrow> (int \<times> pystr) option) \<Rightarrow> AppConfig \<Rightarrow> http_scope \<Rightarrow> asgi_event list \<Rightarrow> sec_outcome" where
  "security_call ip_address cfg sc events =
     (if \<not> is_mcp sc then ToApp
      else let hs = hs_headers sc
           in if invalid_authority ip_address cfg sc then error_response 403 ''Host or Origin is not allowed''
              else if (let ce = header_values ''content-encoding'' hs in 1 < length ce \<or> (ce \<noteq> [] \<and> hd ce \<noteq> codes ''identity''))
              then error_response 415 ''Unsupported content encoding''
              else if authenticated_principal cfg hs = None then error_response 401 ''API authentication is required''
              else if hs_method sc \<noteq> codes ''POST'' then Respond 405 (JObj [(codes ''error'', JStr (codes ''Method not allowed''))]) [(codes ''Allow'', codes ''POST'')]
              else if unsafe_version (header_values ''mcp-protocol-version'' hs)
              then error_response 400 ''Invalid MCP protocol version''
              else if list_ex (\<lambda>n. 1 < length (header_values n hs)) SINGLETON_NAMES
              then error_response 400 ''Ambiguous request headers''
              else if (let ct = header_values ''content-type'' hs in length ct \<noteq> 1 \<or> media_type (hd ct) \<noteq> codes ''application/json'')
              then error_response 415 ''Content-Type must be application/json''
              else if header_values ''content-length'' hs \<noteq> [] \<and> header_values ''transfer-encoding'' hs \<noteq> []
              then error_response 400 ''Ambiguous request framing''
              else case declared_length cfg hs of
                Inl outcome \<Rightarrow> outcome
              | Inr declared \<Rightarrow> checked_body cfg declared events)"

section \<open>Response policy\<close>

text \<open>The source expression \<^verbatim>\<open>'none'\<close> with its quotes.\<close>

definition NONE :: bytes where
  "NONE = 39 # codes ''none'' @ [39]"

definition RESPONSE_POLICY :: headers where
  "RESPONSE_POLICY =
     [(codes ''content-security-policy'',
       codes ''default-src '' @ NONE @ codes ''; base-uri '' @ NONE @ codes ''; object-src '' @ NONE
         @ codes ''; frame-ancestors '' @ NONE),
      (codes ''x-content-type-options'', codes ''nosniff''),
      (codes ''referrer-policy'', codes ''no-referrer''),
      (codes ''cache-control'', codes ''no-store, no-transform'')]"

definition POLICY_NAMES :: "bytes list" where
  "POLICY_NAMES = map fst RESPONSE_POLICY"

datatype asgi_message = ResponseStart int headers | ResponseBody bytes bool | OtherMessage

definition is_sse :: "headers \<Rightarrow> bool" where
  "is_sse hs =
     list_ex (\<lambda>(n, v). bytes_lower n = codes ''content-type''
       \<and> starts_with (codes ''text/event-stream'') (bytes_lower v)) hs"

definition kept_header :: "bytes \<Rightarrow> bool" where
  "kept_header n =
     (bytes_lower n \<notin> set POLICY_NAMES \<and> \<not> starts_with (codes ''access-control-'') (bytes_lower n)
      \<and> bytes_lower n \<noteq> codes ''x-accel-buffering'')"

definition send_with_policy :: "asgi_message \<Rightarrow> asgi_message" where
  "send_with_policy msg =
     (case msg of
        ResponseStart status hs \<Rightarrow>
          ResponseStart status (filter (\<lambda>(n, _). kept_header n) hs @ RESPONSE_POLICY
            @ (if is_sse hs then [(codes ''x-accel-buffering'', codes ''no'')] else []))
      | _ \<Rightarrow> msg)"


section \<open>What the pipeline forwards\<close>

definition credential_presented :: "AppConfig \<Rightarrow> headers \<Rightarrow> bool" where
  "credential_presented cfg hs =
     (let au = header_values ''authorization'' hs; ak = header_values ''x-api-key'' hs in
      (allow_anonymous cfg \<and> au = [] \<and> ak = [])
      \<or> (\<exists>secret. au = [encoded (BEARER_PREFIX @ secret)] \<and> ak = []
           \<and> Some secret \<in> insert (api_bearer_token cfg) (bearer_token ` set (api_principals cfg)))
      \<or> (\<exists>secret. au = [] \<and> ak = [encoded secret]
           \<and> Some secret \<in> insert (api_key cfg) (api_key_secret ` set (api_principals cfg))))"

definition expected :: "bool \<Rightarrow> pystr \<Rightarrow> bytes" where
  "expected bearer secret = encoded (if bearer then BEARER_PREFIX @ secret else secret)"

definition secrets :: "bool \<Rightarrow> AppConfig \<Rightarrow> pystr option set" where
  "secrets bearer cfg =
     (if bearer then insert (api_bearer_token cfg) (bearer_token ` set (api_principals cfg))
      else insert (api_key cfg) (api_key_secret ` set (api_principals cfg)))"

lemma match_principals_None_iff:
  "match_principals bearer v m ps = None \<longleftrightarrow>
   m = None \<and> (\<forall>p\<in>set ps. v \<notin> expected bearer ` set_option (if bearer then bearer_token p else api_key_secret p))"
proof (induction ps arbitrary: m)
  case (Cons p ps)
  then show ?case
    by (cases "if bearer then bearer_token p else api_key_secret p") (auto simp: expected_def)
qed simp

lemma ex_secret: "(\<exists>p\<in>P. v \<in> f ` set_option (h p)) \<longleftrightarrow> (\<exists>s. Some s \<in> h ` P \<and> v = f s)"
proof
  assume "\<exists>p\<in>P. v \<in> f ` set_option (h p)"
  then obtain p s where "p \<in> P" "h p = Some s" "v = f s" by auto
  then show "\<exists>s. Some s \<in> h ` P \<and> v = f s" by (intro exI [of _ s]) (auto simp: image_iff intro: bexI [of _ p])
next
  assume "\<exists>s. Some s \<in> h ` P \<and> v = f s"
  then obtain p s where "p \<in> P" "h p = Some s" "v = f s" by (metis imageE)
  then show "\<exists>p\<in>P. v \<in> f ` set_option (h p)" by (intro bexI [of _ p]) auto
qed

lemma presented_iff:
  "(case (if bearer then api_bearer_token cfg else api_key cfg) of
      None \<Rightarrow> match_principals bearer v None (api_principals cfg)
    | Some legacy \<Rightarrow> if v = expected bearer legacy then Some x else match_principals bearer v None (api_principals cfg))
   \<noteq> None \<longleftrightarrow> (\<exists>secret. Some secret \<in> secrets bearer cfg \<and> v = expected bearer secret)"
proof -
  have "match_principals bearer v None (api_principals cfg) \<noteq> None \<longleftrightarrow>
    (\<exists>secret. Some secret \<in> (if bearer then bearer_token ` set (api_principals cfg) else api_key_secret ` set (api_principals cfg))
       \<and> v = expected bearer secret)"
    using ex_secret [of "set (api_principals cfg)" v "expected bearer"] by (cases bearer) (auto simp: match_principals_None_iff)
  then show ?thesis
    by (cases "if bearer then api_bearer_token cfg else api_key cfg")
      (auto simp: secrets_def split: if_splits)
qed

lemma authenticated_presented: "authenticated_principal cfg hs \<noteq> None \<longleftrightarrow> credential_presented cfg hs"
proof -
  let ?au = "header_values ''authorization'' hs" and ?ak = "header_values ''x-api-key'' hs"
  consider "?au = []" "?ak = []" | v where "?au = [v]" "?ak = []" | v where "?au = []" "?ak = [v]"
    | "length ?au + length ?ak \<noteq> 1" "?au \<noteq> [] \<or> ?ak \<noteq> []"
  proof (cases "length ?au + length ?ak = 1")
    case True
    then show ?thesis using that(2,3) by (auto simp: add_is_1 length_Suc_conv)
  qed (use that(1,4) in auto)
  then show ?thesis
  proof cases
    case 1
    then show ?thesis by (simp add: authenticated_principal_def credential_presented_def)
  next
    case (2 v)
    have "authenticated_principal cfg hs \<noteq> None \<longleftrightarrow> (\<exists>secret. Some secret \<in> secrets True cfg \<and> v = expected True secret)"
      using 2 presented_iff [where bearer = True and cfg = cfg and v = v and x = "codes ''legacy-bearer''"]
      by (simp add: authenticated_principal_def Let_def expected_def del: codes_simps cong: option.case_cong)
    with 2 show ?thesis by (auto simp: credential_presented_def secrets_def expected_def)
  next
    case (3 v)
    have "authenticated_principal cfg hs \<noteq> None \<longleftrightarrow> (\<exists>secret. Some secret \<in> secrets False cfg \<and> v = expected False secret)"
      using 3 presented_iff [where bearer = False and cfg = cfg and v = v and x = "codes ''legacy-api-key''"]
      by (simp add: authenticated_principal_def Let_def expected_def del: codes_simps cong: option.case_cong)
    with 3 show ?thesis by (auto simp: credential_presented_def secrets_def expected_def)
  next
    case 4
    then show ?thesis by (auto simp: authenticated_principal_def credential_presented_def Let_def)
  qed
qed

definition chunk_of :: "asgi_event \<Rightarrow> bytes" where
  "chunk_of ev = (case ev of HttpRequest chunk _ \<Rightarrow> chunk | _ \<Rightarrow> [])"

lemma chunk_of_simps [simp]:
  "chunk_of (HttpRequest chunk again) = chunk" "chunk_of HttpDisconnect = []" "chunk_of OtherEvent = []"
  by (simp_all add: chunk_of_def)

definition received :: "bytes \<Rightarrow> asgi_event list \<Rightarrow> bytes \<Rightarrow> bool" where
  "received acc evs b =
     (\<exists>pre rest. evs = pre @ rest \<and> HttpDisconnect \<notin> set pre \<and> b = acc @ concat (map chunk_of pre))"

lemma received_Nil: "received b evs b"
  unfolding received_def by (rule exI [of _ "[]"]) simp

lemma received_Cons:
  assumes "received (acc @ chunk_of e) evs b" "e \<noteq> HttpDisconnect"
  shows "received acc (e # evs) b"
proof -
  from assms(1) obtain pre rest where "evs = pre @ rest" "HttpDisconnect \<notin> set pre"
    "b = (acc @ chunk_of e) @ concat (map chunk_of pre)"
    by (auto simp: received_def)
  with assms(2) have "e # evs = (e # pre) @ rest" "HttpDisconnect \<notin> set (e # pre)"
    "b = acc @ concat (map chunk_of (e # pre))" by auto
  then show ?thesis unfolding received_def by blast
qed

lemma bounded_body_Body:
  "bounded_body mx acc evs = Body b \<Longrightarrow> length b \<le> mx \<and> received acc evs b"
proof (induction mx acc evs rule: bounded_body.induct)
  case (3 mx body es)
  then show ?case by (auto intro: received_Cons)
next
  case (4 mx body chunk again es)
  then show ?case
    by (cases again) (auto intro!: received_Cons intro: received_Nil split: if_splits)
qed simp_all

definition mcp_limits :: "AppConfig \<Rightarrow> JsonPreflightLimits" where
  "mcp_limits cfg = DEFAULT_LIMITS\<lparr>max_body_bytes := mcp_max_body_bytes cfg\<rparr>"

lemma checked_body_Forward:
  assumes "checked_body cfg declared evs = Forward body"
  shows "bounded_body (mcp_max_body_bytes cfg) [] evs = Body body" "declared \<in> {None, Some (length body)}"
    "\<exists>k ms. json_text (mcp_limits cfg) k ms body \<and> id_ok ms"
proof -
  from assms show b: "bounded_body (mcp_max_body_bytes cfg) [] evs = Body body" "declared \<in> {None, Some (length body)}"
    by (auto simp: checked_body_def error_response_def public_failure_def invalid_request_def
        split: body_result.splits if_splits option.splits bool.splits)
  with assms have "preflight_json_has_valid_root_request_id body (Some (mcp_limits cfg)) = Some True"
    by (auto simp: checked_body_def error_response_def public_failure_def invalid_request_def mcp_limits_def
        split: if_splits option.splits bool.splits)
  then obtain p where "validate (mcp_limits cfg) body = Some p" "pr_id_valid p"
    by (auto simp: preflight_json_has_valid_root_request_id_def)
  then show "\<exists>k ms. json_text (mcp_limits cfg) k ms body \<and> id_ok ms"
    by (elim validate_sound) auto
qed

section \<open>The response policy is canonical\<close>

definition named :: "bytes \<Rightarrow> headers \<Rightarrow> headers" where
  "named n hs = filter (\<lambda>(k, _). bytes_lower k = n) hs"

lemma named_policy: "list_all (\<lambda>x. named (fst x) RESPONSE_POLICY = [x]) RESPONSE_POLICY"
  by code_simp

lemma named_kept: "n \<in> set POLICY_NAMES \<or> n = codes ''x-accel-buffering'' \<Longrightarrow> named n (filter (\<lambda>(k, _). kept_header k) hs) = []"
  by (auto simp: named_def kept_header_def filter_empty_conv simp del: codes_simps)

lemma policy_not_kept: "filter (\<lambda>(k, _). kept_header k) RESPONSE_POLICY = []" "\<not> kept_header (codes ''x-accel-buffering'')"
  "list_all (\<lambda>(k, _). bytes_lower k \<noteq> codes ''x-accel-buffering''
     \<and> \<not> starts_with (codes ''access-control-'') (bytes_lower k)) RESPONSE_POLICY"
  "codes ''x-accel-buffering'' \<notin> set POLICY_NAMES"
  by code_simp+

theorem responses_carry_one_policy:
  "\<exists>hs'. send_with_policy (ResponseStart status hs) = ResponseStart status hs'
     \<and> (\<forall>x. x \<in> set RESPONSE_POLICY \<longrightarrow> named (fst x) hs' = [x])
     \<and> named (codes ''x-accel-buffering'') hs' = (if is_sse hs then [(codes ''x-accel-buffering'', codes ''no'')] else [])
     \<and> (\<forall>n v. (n, v) \<in> set hs' \<longrightarrow> \<not> starts_with (codes ''access-control-'') (bytes_lower n))
     \<and> filter (\<lambda>(n, _). kept_header n) hs' = filter (\<lambda>(n, _). kept_header n) hs"
proof -
  let ?sse = "if is_sse hs then [(codes ''x-accel-buffering'', codes ''no'')] else []"
  let ?hs = "filter (\<lambda>(n, _). kept_header n) hs @ RESPONSE_POLICY @ ?sse"
  have append: "named n (xs @ ys) = named n xs @ named n ys" for n xs ys by (simp add: named_def)
  have accel: "bytes_lower (codes ''x-accel-buffering'') = codes ''x-accel-buffering''"
    "\<not> starts_with (codes ''access-control-'') (codes ''x-accel-buffering'')" by code_simp+
  have "named (fst x) ?hs = [x]" if "x \<in> set RESPONSE_POLICY" for x
  proof -
    have n: "fst x \<in> set POLICY_NAMES" using that by (simp add: POLICY_NAMES_def)
    then have "named (fst x) ?sse = []" using policy_not_kept(4) accel(1) by (auto simp: named_def simp del: codes_simps)
    with n that named_policy named_kept [of "fst x" hs] show ?thesis by (simp add: append list_all_iff del: codes_simps)
  qed
  moreover have "named (codes ''x-accel-buffering'') ?hs = ?sse"
  proof -
    have "named (codes ''x-accel-buffering'') RESPONSE_POLICY = []"
      using policy_not_kept(3) by (auto simp: named_def list_all_iff filter_empty_conv simp del: codes_simps)
    moreover have "named (codes ''x-accel-buffering'') ?sse = ?sse" using accel(1) by (simp add: named_def del: codes_simps)
    ultimately show ?thesis using named_kept [of "codes ''x-accel-buffering''" hs] by (simp add: append del: codes_simps)
  qed
  moreover have "\<not> starts_with (codes ''access-control-'') (bytes_lower n)" if "(n, v) \<in> set ?hs" for n v
    using that policy_not_kept(3) accel
    by (auto simp: kept_header_def list_all_iff split: if_splits simp del: codes_simps)
  moreover have "filter (\<lambda>(n, _). kept_header n) ?hs = filter (\<lambda>(n, _). kept_header n) hs"
    using policy_not_kept by (simp del: codes_simps)
  ultimately show ?thesis by (intro exI [of _ ?hs]) (simp add: send_with_policy_def del: codes_simps)
qed

section \<open>Properties\<close>

lemma header_values_other: "\<not> list_ex (\<lambda>n. 1 < length (header_values n hs)) SINGLETON_NAMES \<Longrightarrow>
  n \<in> set SINGLETON_NAMES \<Longrightarrow> length (header_values n hs) \<le> 1"
  by (auto simp: list_ex_iff not_less)

lemma declared_length_Inr:
  assumes "declared_length cfg hs = Inr d"
  shows "header_values ''content-length'' hs = [] \<and> d = None
    \<or> (\<exists>v vs. header_values ''content-length'' hs = v # vs \<and> list_all is_digit v \<and> d = Some (digits_value v))"
  using assms by (auto simp: declared_length_def split: list.splits if_splits)

lemma security_call_Forward:
  assumes "security_call ip cfg sc evs = Forward body"
  shows "is_mcp sc" "\<not> invalid_authority ip cfg sc" "authenticated_principal cfg (hs_headers sc) \<noteq> None"
    "hs_method sc = codes ''POST''" "\<not> unsafe_version (header_values ''mcp-protocol-version'' (hs_headers sc))"
    "\<not> list_ex (\<lambda>n. 1 < length (header_values n (hs_headers sc))) SINGLETON_NAMES"
    "\<exists>d. declared_length cfg (hs_headers sc) = Inr d \<and> checked_body cfg d evs = Forward body"
  using assms by (auto simp: security_call_def error_response_def Let_def declared_length_def
    split: if_splits sum.splits list.splits simp del: codes_simps)


definition sample_config :: AppConfig where
  "sample_config = \<lparr>allow_anonymous = True, api_principals = [], api_bearer_token = Some (codes ''t''), api_key = None,
     mcp_allowed_hosts = [codes ''h''], mcp_allowed_origins = [], gateway_authority = False, mcp_max_body_bytes = 64,
     max_concurrent_mcp_requests = 2, max_concurrent_mcp_requests_per_principal = 1,
     mcp_application_deadline_seconds = Fin 10\<rparr>"

text \<open>The body \<^verbatim>\<open>{"id":1}\<close> and a request that carries it in two parts.\<close>

definition sample_body :: bytes where
  "sample_body = [123, 34, 105, 100, 34, 58, 49, 125]"

definition sample_scope :: http_scope where
  "sample_scope = \<lparr>hs_type = codes ''http'', hs_path = codes ''/mcp'', hs_scheme = codes ''http'', hs_method = codes ''POST'',
     hs_headers = [(codes ''Host'', codes ''h''), (codes ''Authorization'', codes ''Bearer t''),
       (codes ''MCP-Protocol-Version'', codes ''2026-01-01''), (codes ''Content-Length'', codes ''8''),
       (codes ''Content-Type'', codes ''application/json; charset=utf-8'')]\<rparr>"

definition sample_events :: "asgi_event list" where
  "sample_events = [HttpRequest (take 3 sample_body) True, OtherEvent, HttpRequest (drop 3 sample_body) False]"


end
