(* ===== verification/Nplg_Http_Lifecycle.thy ===== *)
theory Nplg_Http_Lifecycle
  imports Nplg_Http_Security
begin

text \<open>
  The life of a request in the middleware of \<^verbatim>\<open>src/nplg_mcp/http_security.py\<close>: the object, its start and shutdown, the
  decision on an arriving request, the release of what it holds, and the deadline. A step relation interleaves any
  number of requests with the application's reservations; its invariant is proved once per operation and the
  interpretation \<open>mw\<close> carries it over every run.
\<close>

section \<open>The middleware object\<close>

record McpSecurityMiddleware =
  accepting_requests :: bool
  active_requests :: "nat set"
  admission :: AdmissionGate
  principal_admission :: "PrincipalAdmission option"
  resource_admission :: InlineResourceAdmission

definition principal_ids :: "AppConfig \<Rightarrow> pystr list" where
  "principal_ids cfg =
     map principal_id (api_principals cfg)
     @ (case api_bearer_token cfg of None \<Rightarrow> [] | Some _ \<Rightarrow> [codes ''legacy-bearer''])
     @ (case api_key cfg of None \<Rightarrow> [] | Some _ \<Rightarrow> [codes ''legacy-api-key''])"

definition security_init :: "AppConfig \<Rightarrow> InlineResourceAdmission \<Rightarrow> McpSecurityMiddleware res" where
  "security_init cfg resources =
     (if \<not> (flt (Fin 0) (mcp_application_deadline_seconds cfg) \<and> fle (mcp_application_deadline_seconds cfg) (Fin 20))
      then Inl (ValueError ''MCP application deadline must be in the interval (0, 20] seconds'')
      else rbind (gate_init (PInt (max_concurrent_mcp_requests cfg))) (\<lambda>g.
        rbind (if principal_ids cfg = [] then Inr None
               else rbind (principal_init (principal_ids cfg) (PInt (max_concurrent_mcp_requests_per_principal cfg)))
                      (\<lambda>pa. Inr (Some pa))) (\<lambda>pa.
          Inr \<lparr>accepting_requests = False, active_requests = {}, admission = g,
               principal_admission = pa, resource_admission = resources\<rparr>)))"

definition security_start :: "McpSecurityMiddleware \<Rightarrow> McpSecurityMiddleware" where
  "security_start s = s\<lparr>accepting_requests := True\<rparr>"

text \<open>
  \<open>shutdown\<close> stops admission and names the tasks it cancels and drains; each of them then ends through its
  own \<^verbatim>\<open>finally\<close> blocks, which are \<open>admitted_end\<close> and \<open>discard_request\<close> below.
\<close>

definition security_shutdown :: "nat option \<Rightarrow> McpSecurityMiddleware \<Rightarrow> nat set \<times> McpSecurityMiddleware" where
  "security_shutdown current s =
     (active_requests s - (case current of None \<Rightarrow> {} | Some i \<Rightarrow> {i}), s\<lparr>accepting_requests := False\<rparr>)"

definition try_acquire_admission :: "pystr \<Rightarrow> (pyexc, McpSecurityMiddleware, bool \<times> bool) op" where
  "try_acquire_admission p s =
     (if p = codes ''anonymous''
      then (case gate_try_acquire (admission s) of (ok, g) \<Rightarrow> (Inr (ok, False), s\<lparr>admission := g\<rparr>))
      else case principal_admission s of
        None \<Rightarrow> (Inr (False, False), s)
      | Some pa \<Rightarrow>
          (case principal_try_acquire p pa of
             (Inl e, pa1) \<Rightarrow> (Inl e, s\<lparr>principal_admission := Some pa1\<rparr>)
           | (Inr False, pa1) \<Rightarrow> (Inr (False, False), s\<lparr>principal_admission := Some pa1\<rparr>)
           | (Inr True, pa1) \<Rightarrow>
               (case gate_try_acquire (admission s) of
                  (True, g) \<Rightarrow> (Inr (True, True), s\<lparr>admission := g, principal_admission := Some pa1\<rparr>)
                | (False, g) \<Rightarrow>
                    (case principal_release p pa1 of
                       (Inl e, pa2) \<Rightarrow> (Inl e, s\<lparr>admission := g, principal_admission := Some pa2\<rparr>)
                     | (Inr _, pa2) \<Rightarrow> (Inr (False, False), s\<lparr>admission := g, principal_admission := Some pa2\<rparr>)))))"

text \<open>
  \<open>__call__\<close> and \<open>_admitted_call\<close> up to the point where the pipeline is awaited: the request is outside the
  MCP path, refused because the service is not running, passed to the pipeline without admission because it is
  not authenticated, refused as busy, or admitted under a principal, with or without a share of its gate.
\<close>

datatype call_decision = Outside | Refused sec_outcome | Unadmitted | AdmittedAs pystr bool

definition call_begin :: "AppConfig \<Rightarrow> nat \<Rightarrow> http_scope \<Rightarrow> (pyexc, McpSecurityMiddleware, call_decision) op" where
  "call_begin cfg task sc s =
     (if \<not> is_mcp sc then (Inr Outside, s)
      else if \<not> accepting_requests s
      then (Inr (Refused (error_response 503 ''MCP service is not running'')), s)
      else let s = s\<lparr>active_requests := insert task (active_requests s)\<rparr>
        in case authenticated_principal cfg (hs_headers sc) of
             None \<Rightarrow> (Inr Unadmitted, s)
           | Some p \<Rightarrow>
               (case try_acquire_admission p s of
                  (Inl e, s) \<Rightarrow> (Inl e, s\<lparr>active_requests := active_requests s - {task}\<rparr>)
                | (Inr (False, _), s) \<Rightarrow>
                    (Inr (Refused (public_failure RATE_LIMITED ''The MCP server is at its concurrent request limit.'' 503
                        [(codes ''Retry-After'', codes ''1'')])), s)
                | (Inr (True, share), s) \<Rightarrow>
                    (Inr (AdmittedAs p share),
                     s\<lparr>resource_admission := request_scope_enter task (resource_admission s)\<rparr>)))"

text \<open>The end of an admitted call: the request scope closes, then the \<^verbatim>\<open>finally\<close> returns both permits.\<close>

definition admitted_end :: "nat \<Rightarrow> pystr \<Rightarrow> bool \<Rightarrow> (pyexc, McpSecurityMiddleware, unit) op" where
  "admitted_end task p share s =
     (let (r0, ra) = request_scope_exit task (resource_admission s); s = s\<lparr>resource_admission := ra\<rparr>
      in case gate_release (admission s) of
           (Inl e, g) \<Rightarrow> (Inl e, s\<lparr>admission := g\<rparr>)
         | (Inr _, g) \<Rightarrow>
             (let s = s\<lparr>admission := g\<rparr>
              in case (if share then principal_admission s else None) of
                   None \<Rightarrow> (r0, s)
                 | Some pa \<Rightarrow>
                     (case principal_release p pa of
                        (Inl e, pa) \<Rightarrow> (Inl e, s\<lparr>principal_admission := Some pa\<rparr>)
                      | (Inr _, pa) \<Rightarrow> (r0, s\<lparr>principal_admission := Some pa\<rparr>))))"

definition discard_request :: "nat \<Rightarrow> McpSecurityMiddleware \<Rightarrow> McpSecurityMiddleware" where
  "discard_request task s = s\<lparr>active_requests := active_requests s - {task}\<rparr>"

text \<open>
  The deadline of an admitted call. When it fires before a response started the call answers 504; when the
  response started but its last body part was not sent, the response is closed; otherwise nothing is sent.
\<close>

fun track_sent :: "bool \<times> bool \<Rightarrow> asgi_message list \<Rightarrow> bool \<times> bool" where
  "track_sent flags [] = flags"
| "track_sent (started, finished) (ResponseStart st hs # ms) = track_sent (True, finished) ms"
| "track_sent (started, finished) (ResponseBody b again # ms) = track_sent (started, finished \<or> \<not> again) ms"
| "track_sent flags (OtherMessage # ms) = track_sent flags ms"

datatype deadline_answer = CloseBody | NothingSent | TimedOut sec_outcome

definition deadline_fired :: "asgi_message list \<Rightarrow> deadline_answer" where
  "deadline_fired sent =
     (case track_sent (False, False) sent of
        (True, finished) \<Rightarrow> if finished then NothingSent else CloseBody
      | (False, _) \<Rightarrow> TimedOut
          (public_failure REQUEST_TIMEOUT ''The MCP request exceeded its application deadline.'' 504 []))"

section \<open>Request scopes of many requests\<close>

definition scoped :: "nat \<Rightarrow> InlineResourceAdmission \<Rightarrow> nat list" where
  "scoped i ra = concat (request_scopes ra i)"

definition live_scoped :: "InlineResourceAdmission \<Rightarrow> nat \<Rightarrow> bool" where
  "live_scoped ra r =
     (r < length (reservations ra) \<and> \<not> released (reservations ra ! r) \<and> request_scoped (reservations ra ! r))"

definition scope_inv :: "nat set \<Rightarrow> InlineResourceAdmission \<Rightarrow> bool" where
  "scope_inv D ra =
     (budget_inv ra
      \<and> (\<forall>i. length (request_scopes ra i) = (if i \<in> D then 1 else 0))
      \<and> (\<forall>i. distinct (scoped i ra) \<and> (\<forall>r\<in>set (scoped i ra). live_scoped ra r))
      \<and> (\<forall>i j. i \<noteq> j \<longrightarrow> set (scoped i ra) \<inter> set (scoped j ra) = {}))"

lemma scope_invD:
  assumes "scope_inv D ra"
  shows "budget_inv ra" "i \<notin> D \<Longrightarrow> request_scopes ra i = []"
    "i \<in> D \<Longrightarrow> \<exists>rids. request_scopes ra i = [rids]"
    "distinct (scoped i ra)" "r \<in> set (scoped i ra) \<Longrightarrow> live_scoped ra r"
    "i \<noteq> j \<Longrightarrow> set (scoped i ra) \<inter> set (scoped j ra) = {}"
proof -
  from assms have len: "length (request_scopes ra i) = (if i \<in> D then 1 else 0)" by (simp add: scope_inv_def)
  then show "i \<notin> D \<Longrightarrow> request_scopes ra i = []" "i \<in> D \<Longrightarrow> \<exists>rids. request_scopes ra i = [rids]"
    by (auto simp: length_Suc_conv)
qed (use assms in \<open>auto simp: scope_inv_def\<close>)

lemma scope_inv_empty: "admission_init (PInt c) = Inr ra \<Longrightarrow> scope_inv {} ra"
  by (auto simp: admission_init_def scope_inv_def scoped_def budget_inv_def live_bytes_def split: if_splits)

lemma scope_inv_enter:
  assumes "scope_inv D ra" "i \<notin> D"
  shows "scope_inv (insert i D) (request_scope_enter i ra)"
proof -
  have r: "request_scopes ra i = []" using scope_invD(2) [OF assms] .
  have s: "scoped j (request_scope_enter i ra) = scoped j ra" for j
    by (simp add: scoped_def request_scope_enter_def r)
  have "live_scoped (request_scope_enter i ra) = live_scoped ra" "budget_inv (request_scope_enter i ra) = budget_inv ra"
    by (auto simp: live_scoped_def request_scope_enter_def budget_inv_def)
  with assms r show ?thesis
    unfolding scope_inv_def s by (auto simp: request_scope_enter_def)
qed

lemma scope_inv_exit:
  assumes inv: "scope_inv D ra" and i: "i \<in> D"
  shows "fst (request_scope_exit i ra) = Inr ()"
    and "scope_inv (D - {i}) (snd (request_scope_exit i ra))"
    and "capacity_bytes (snd (request_scope_exit i ra)) = capacity_bytes ra"
proof -
  obtain rids where rids: "request_scopes ra i = [rids]" using scope_invD(3) [OF inv i] by blast
  let ?t = "ra\<lparr>request_scopes := (request_scopes ra)(i := [])\<rparr>"
  have sc: "scoped i ra = rids" by (simp add: scoped_def rids)
  have "budget_inv ?t" using scope_invD(1) [OF inv] by (simp add: budget_inv_def)
  moreover have "distinct (rev rids)" using scope_invD(4) [OF inv, of i] sc by simp
  moreover have "\<forall>r\<in>set (rev rids). r < length (reservations ?t) \<and> \<not> released (reservations ?t ! r)"
    using scope_invD(5) [OF inv, of _ i] sc by (auto simp: live_scoped_def)
  ultimately obtain u where u: "release_all (rev rids) ?t = (Inr (), u)" "budget_inv u"
    "\<forall>r. r \<notin> set rids \<longrightarrow> reservations u ! r = reservations ra ! r" "request_scopes u = request_scopes ?t"
    using release_all_live [of ?t "rev rids"] by auto
  have len: "length (reservations u) = length (reservations ra)" "capacity_bytes u = capacity_bytes ra"
    using release_all_frame [of "rev rids" ?t] u(1) by simp_all
  have e: "request_scope_exit i ra = (Inr (), u)" using u(1) rids by (simp add: request_scope_exit_def)
  then show "fst (request_scope_exit i ra) = Inr ()"
    "capacity_bytes (snd (request_scope_exit i ra)) = capacity_bytes ra" using len by simp_all
  have s: "scoped j u = (if j = i then [] else scoped j ra)" for j by (simp add: scoped_def u(4))
  have "live_scoped u r" if "j \<noteq> i" "r \<in> set (scoped j ra)" for j r
    using scope_invD(5) [OF inv that(2)] scope_invD(6) [OF inv that(1)] that(2) u(3) sc len
    by (auto simp: live_scoped_def)
  with inv u(2) show "scope_inv (D - {i}) (snd (request_scope_exit i ra))"
    unfolding e scope_inv_def by (auto simp: s u(4) scope_invD(2) [OF inv])
qed

lemma scope_inv_reserve:
  assumes inv: "scope_inv D ra"
  shows "scope_inv D (snd (try_reserve i req ra))"
proof (cases "\<exists>n. req = PInt n \<and> \<not> n \<le> 0 \<and> \<not> capacity_bytes ra - active_bytes ra < n")
  case False
  then have "snd (try_reserve i req ra) = ra" by (auto simp: try_reserve_def split: pyobj.splits)
  with inv show ?thesis by simp
next
  case True
  then obtain n where n: "req = PInt n" "\<not> n \<le> 0" "\<not> capacity_bytes ra - active_bytes ra < n" by blast
  let ?u = "snd (try_reserve i req ra)" and ?rid = "length (reservations ra)"
  have res: "reservations ?u = reservations ra @ [\<lparr>reserved_bytes = n, released = False,
      request_scoped = (request_scopes ra i \<noteq> [])\<rparr>]"
    using n by (simp add: try_reserve_def Let_def)
  have rs: "request_scopes ?u = (case request_scopes ra i of [] \<Rightarrow> request_scopes ra
      | rids # outer \<Rightarrow> (request_scopes ra)(i := (rids @ [?rid]) # outer))"
    using n by (simp add: try_reserve_def Let_def)
  have old: "live_scoped ?u r" if "live_scoped ra r" for r
    using that by (auto simp: live_scoped_def res nth_append)
  have b: "budget_inv ?u" using try_reserve_inv [OF scope_invD(1) [OF inv]] .
  show ?thesis
  proof (cases "i \<in> D")
    case False
    then have "request_scopes ?u = request_scopes ra" using rs scope_invD(2) [OF inv] by simp
    then have "scoped j ?u = scoped j ra" for j by (simp add: scoped_def)
    with inv b old \<open>request_scopes ?u = request_scopes ra\<close> show ?thesis by (auto simp: scope_inv_def)
  next
    case True
    then obtain rids where rids: "request_scopes ra i = [rids]" using scope_invD(3) [OF inv] by blast
    have rs': "request_scopes ?u = (request_scopes ra)(i := [rids @ [?rid]])" using rs rids by simp
    have sc: "scoped j ?u = (if j = i then scoped i ra @ [?rid] else scoped j ra)" for j
      by (simp add: scoped_def rs' rids)
    have fresh: "?rid \<notin> set (scoped j ra)" for j
      using scope_invD(5) [OF inv] by (auto simp: live_scoped_def)
    have new: "live_scoped ?u ?rid" by (simp add: live_scoped_def res rids)
    show ?thesis
      unfolding scope_inv_def sc rs'
      using inv b old new fresh True unfolding scope_inv_def
      by (auto simp: disjoint_iff scope_invD(2) [OF inv])
  qed
qed

lemma scope_inv_reservations:
  assumes inv: "scope_inv D ra" and "budget_inv u" "request_scopes u = request_scopes ra"
    and keep: "\<And>r. live_scoped ra r \<Longrightarrow> live_scoped u r"
  shows "scope_inv D u"
proof -
  have "scoped j u = scoped j ra" for j using assms(3) by (simp add: scoped_def)
  with assms show ?thesis by (auto simp: scope_inv_def)
qed

lemma scope_inv_shrink:
  assumes inv: "scope_inv D ra" and rid: "rid < length (reservations ra)"
  shows "scope_inv D (snd (shrink rid n ra))"
  using inv shrink_inv [OF scope_invD(1) [OF inv] rid]
proof (rule scope_inv_reservations)
  show "live_scoped (snd (shrink rid n ra)) r" if "live_scoped ra r" for r
    using that rid
    by (cases "r = rid") (auto simp: live_scoped_def shrink_def return_reserved_bytes_def Let_def split: pyobj.splits)
qed (auto simp: shrink_def return_reserved_bytes_def Let_def split: pyobj.splits)

lemma scope_inv_release:
  assumes inv: "scope_inv D ra" and rid: "rid < length (reservations ra)"
    and un: "\<not> request_scoped (reservations ra ! rid)"
  shows "scope_inv D (snd (release rid ra))"
  using inv release_inv [OF scope_invD(1) [OF inv] rid]
proof (rule scope_inv_reservations)
  show "live_scoped (snd (release rid ra)) r" if "live_scoped ra r" for r
    using that un
    by (cases "r = rid") (auto simp: live_scoped_def release_def return_reserved_bytes_def Let_def)
qed (auto simp: release_def return_reserved_bytes_def Let_def)

lemmas capacity_kept = try_reserve_def shrink_def release_def return_reserved_bytes_def Let_def

section \<open>Requests in flight\<close>

type_synonym call_state = "McpSecurityMiddleware \<times> (nat \<rightharpoonup> pystr \<times> bool)"

datatype call_label =
    Arrive nat http_scope
  | Finish nat
  | Discard nat
  | StartUp
  | ShutDown "nat option"
  | Reserve nat pyobj
  | Shrink nat pyobj
  | ReleaseUnscoped nat

text \<open>
  Requests are tasks. A task that is not active arrives; an admitted one ends through its \<^verbatim>\<open>finally\<close> blocks, however
  its pipeline ended; the others leave the active set when answered. In between the application reserves and
  shrinks, and releases the reservations that no request scope owns.
\<close>

inductive call_step :: "AppConfig \<Rightarrow> call_state \<Rightarrow> call_label \<Rightarrow> call_state \<Rightarrow> bool" for cfg where
  admitted: "i \<notin> active_requests m \<Longrightarrow> call_begin cfg i sc m = (Inr (AdmittedAs p share), m') \<Longrightarrow>
    call_step cfg (m, fl) (Arrive i sc) (m', fl(i \<mapsto> (p, share)))"
| answered: "i \<notin> active_requests m \<Longrightarrow> call_begin cfg i sc m = (r, m') \<Longrightarrow> \<forall>p share. r \<noteq> Inr (AdmittedAs p share) \<Longrightarrow>
    call_step cfg (m, fl) (Arrive i sc) (m', fl)"
| finished: "fl i = Some (p, share) \<Longrightarrow>
    call_step cfg (m, fl) (Finish i) (discard_request i (snd (admitted_end i p share m)), fl(i := None))"
| discarded: "fl i = None \<Longrightarrow> call_step cfg (m, fl) (Discard i) (discard_request i m, fl)"
| started: "call_step cfg (m, fl) StartUp (security_start m, fl)"
| stopped: "call_step cfg (m, fl) (ShutDown cur) (snd (security_shutdown cur m), fl)"
| reserved: "call_step cfg (m, fl) (Reserve i n)
    (m\<lparr>resource_admission := snd (try_reserve i n (resource_admission m))\<rparr>, fl)"
| shrunk: "r < length (reservations (resource_admission m)) \<Longrightarrow> call_step cfg (m, fl) (Shrink r n)
    (m\<lparr>resource_admission := snd (shrink r n (resource_admission m))\<rparr>, fl)"
| unscoped: "r < length (reservations (resource_admission m)) \<Longrightarrow>
    \<not> request_scoped (reservations (resource_admission m) ! r) \<Longrightarrow> call_step cfg (m, fl) (ReleaseUnscoped r)
    (m\<lparr>resource_admission := snd (release r (resource_admission m))\<rparr>, fl)"

definition holders :: "pystr \<Rightarrow> (nat \<rightharpoonup> pystr \<times> bool) \<Rightarrow> nat set" where
  "holders p fl = {i. fl i = Some (p, True)}"

definition shares_inv :: "AppConfig \<Rightarrow> (nat \<rightharpoonup> pystr \<times> bool) \<Rightarrow> PrincipalAdmission option \<Rightarrow> bool" where
  "shares_inv cfg fl po =
     (case po of
        None \<Rightarrow> principal_ids cfg = []
      | Some pa \<Rightarrow> dom pa = set (principal_ids cfg)
          \<and> (\<forall>p g. pa p = Some g \<longrightarrow> gate_inv g \<and> capacity g = max_concurrent_mcp_requests_per_principal cfg
               \<and> active g = int (card (holders p fl))))"

definition gate_counts :: "AppConfig \<Rightarrow> (nat \<rightharpoonup> pystr \<times> bool) \<Rightarrow> AdmissionGate \<Rightarrow> bool" where
  "gate_counts cfg fl g =
     (gate_inv g \<and> capacity g = max_concurrent_mcp_requests cfg \<and> active g = int (card (dom fl)))"

definition flight_inv :: "AppConfig \<Rightarrow> (nat \<rightharpoonup> pystr \<times> bool) \<Rightarrow> bool" where
  "flight_inv cfg fl =
     (finite (dom fl) \<and> (\<forall>i p share. fl i = Some (p, share) \<longrightarrow>
        share = (p \<noteq> codes ''anonymous'') \<and> (share \<longrightarrow> p \<in> set (principal_ids cfg))))"

definition call_inv :: "AppConfig \<Rightarrow> int \<Rightarrow> call_state \<Rightarrow> bool" where
  "call_inv cfg c s =
     (case s of (m, fl) \<Rightarrow>
        flight_inv cfg fl \<and> dom fl \<subseteq> active_requests m \<and> gate_counts cfg fl (admission m)
        \<and> shares_inv cfg fl (principal_admission m)
        \<and> scope_inv (dom fl) (resource_admission m) \<and> capacity_bytes (resource_admission m) = c)"

lemma holders_finite: "flight_inv cfg fl \<Longrightarrow> finite (holders p fl)"
  by (rule finite_subset [of _ "dom fl"]) (auto simp: holders_def flight_inv_def)

lemma match_principals_configured:
  "match_principals bearer v m ps = Some p \<Longrightarrow> m = Some p \<or> p \<in> principal_id ` set ps"
  by (induction ps arbitrary: m) (auto split: option.splits if_splits)

lemma authenticated_configured:
  assumes "authenticated_principal cfg hs = Some p" "p \<noteq> codes ''anonymous''"
  shows "p \<in> set (principal_ids cfg)"
proof -
  have m: "p \<in> set (map principal_id (api_principals cfg))"
    if "match_principals b v None (api_principals cfg) = Some p" for b v
    using match_principals_configured [OF that] by auto
  show ?thesis
    using assms m unfolding authenticated_principal_def principal_ids_def
    by (auto simp: Let_def split: if_splits option.splits)
qed

lemma gate_counts_acquire:
  assumes "gate_counts cfg fl g" "finite (dom fl)" "i \<notin> dom fl" "gate_try_acquire g = (True, g')"
  shows "gate_counts cfg (fl(i \<mapsto> x)) g'"
  using assms ag.acquire_granted [of g g'] by (auto simp: gate_counts_def)

lemma gate_refused: "gate_counts cfg fl g \<Longrightarrow> gate_try_acquire g = (False, g') \<Longrightarrow> g' = g"
  using ag.acquire_refused [of g g'] by (auto simp: gate_counts_def)

lemma gate_counts_release:
  assumes "gate_counts cfg fl g" "finite (dom fl)" "i \<in> dom fl"
  shows "\<exists>g'. gate_release g = (Inr (), g') \<and> gate_counts cfg (fl(i := None)) g'"
proof -
  have "0 < active g" using assms card_gt_0_iff [of "dom fl"] by (auto simp: gate_counts_def)
  with assms ag.release_held [of g] show ?thesis
    by (cases "gate_release g") (auto simp: gate_counts_def of_nat_diff Suc_leI card_gt_0_iff)
qed

lemma holders_upd:
  "holders p (fl(i \<mapsto> (q, share))) = (if p = q \<and> share then insert i (holders p fl) else holders p fl - {i})"
  "holders p (fl(i := None)) = holders p fl - {i}"
  by (auto simp: holders_def)

lemma shares_gate:
  assumes "shares_inv cfg fl (Some pa)" "p \<in> set (principal_ids cfg)"
  obtains g where "pa p = Some g" "gate_inv g" "active g = int (card (holders p fl))"
proof -
  from assms have "p \<in> dom pa" by (simp add: shares_inv_def)
  then obtain g where "pa p = Some g" by blast
  with assms(1) show thesis by (intro that) (auto simp: shares_inv_def)
qed

lemma share_acquire:
  assumes inv: "shares_inv cfg fl (Some pa)" and fl: "flight_inv cfg fl" and i: "i \<notin> dom fl"
    and p: "p \<in> set (principal_ids cfg)"
  obtains (granted) pa' where "principal_try_acquire p pa = (Inr True, pa')"
      "shares_inv cfg (fl(i \<mapsto> (p, True))) (Some pa')" "principal_release p pa' = (Inr (), pa)"
  | (refused) "principal_try_acquire p pa = (Inr False, pa)"
proof -
  from shares_gate [OF inv p] obtain g where
    g: "pa p = Some g" "gate_inv g" "active g = int (card (holders p fl))" .
  have old: "holders q fl - {i} = holders q fl" for q using i by (auto simp: holders_def)
  obtain ok g' where a: "gate_try_acquire g = (ok, g')" by fastforce
  show thesis
  proof (cases ok)
    case True
    with a ag.acquire_granted [OF g(2)] have g': "gate_inv g'" "active g' = active g + 1" "capacity g' = capacity g"
      by auto
    have "card (insert i (holders p fl)) = Suc (card (holders p fl))"
      using holders_finite [OF fl] i by (subst card_insert_disjoint) (auto simp: holders_def)
    then have "shares_inv cfg (fl(i \<mapsto> (p, True))) (Some (pa(p \<mapsto> g')))"
      using inv g g' p by (auto simp: shares_inv_def holders_upd old)
    moreover have "gate_release g' = (Inr (), g)"
      using True a g(2) by (auto simp: gate_try_acquire_def gate_release_def gate_inv_def split: if_splits)
    ultimately show thesis using True a g(1)
      by (intro granted [of "pa(p \<mapsto> g')"])
        (auto simp: principal_try_acquire_def principal_release_def fun_upd_idem)
  next
    case False
    with a ag.acquire_refused [OF g(2)] have "g' = g" by auto
    with False a g show thesis by (intro refused) (auto simp: principal_try_acquire_def fun_upd_idem)
  qed
qed

lemma share_release:
  assumes inv: "shares_inv cfg fl (Some pa)" and fl: "finite (holders p fl)" and i: "fl i = Some (p, True)"
    and p: "p \<in> set (principal_ids cfg)"
  obtains pa' where "principal_release p pa = (Inr (), pa')" "shares_inv cfg (fl(i := None)) (Some pa')"
proof -
  from shares_gate [OF inv p] obtain g where
    g: "pa p = Some g" "gate_inv g" "active g = int (card (holders p fl))" .
  have mem: "i \<in> holders p fl" using i by (simp add: holders_def)
  with fl have c: "0 < card (holders p fl)" by (auto simp: card_gt_0_iff)
  with g(3) ag.release_held [OF g(2)] obtain g' where g': "gate_release g = (Inr (), g')" "gate_inv g'"
    "active g' = active g - 1" "capacity g' = capacity g"
    by (cases "gate_release g") auto
  have others: "q \<noteq> p \<Longrightarrow> holders q fl - {i} = holders q fl" for q using i by (auto simp: holders_def)
  have "int (card (holders p fl - {i})) = int (card (holders p fl)) - 1"
    using mem fl c by (simp add: of_nat_diff)
  then have "shares_inv cfg (fl(i := None)) (Some (pa(p \<mapsto> g')))"
    using inv g g' p by (auto simp: shares_inv_def holders_upd others)
  with g g' show thesis by (intro that [of "pa(p \<mapsto> g')"]) (auto simp: principal_release_def)
qed

lemma try_acquire_admission_inv:
  assumes fl: "flight_inv cfg fl" and i: "i \<notin> dom fl"
    and g: "gate_counts cfg fl (admission s)" and sh: "shares_inv cfg fl (principal_admission s)"
    and p: "p \<noteq> codes ''anonymous'' \<Longrightarrow> p \<in> set (principal_ids cfg)"
  obtains (granted) s' where "try_acquire_admission p s = (Inr (True, p \<noteq> codes ''anonymous''), s')"
      "gate_counts cfg (fl(i \<mapsto> (p, p \<noteq> codes ''anonymous''))) (admission s')"
      "shares_inv cfg (fl(i \<mapsto> (p, p \<noteq> codes ''anonymous''))) (principal_admission s')"
      "resource_admission s' = resource_admission s" "active_requests s' = active_requests s"
  | (refused) "try_acquire_admission p s = (Inr (False, False), s)"
proof -
  note defs = try_acquire_admission_def
  have fin: "finite (dom fl)" using fl by (simp add: flight_inv_def)
  obtain ok g' where a: "gate_try_acquire (admission s) = (ok, g')" by fastforce
  note up = gate_counts_acquire [OF g fin i] gate_refused [OF g]
  show thesis
  proof (cases "p = codes ''anonymous''")
    case anon: True
    have "holders q fl - {i} = holders q fl" for q using i by (auto simp: holders_def)
    then have "shares_inv cfg (fl(i \<mapsto> (p, False))) (principal_admission s)"
      using sh by (auto simp: shares_inv_def holders_upd split: option.splits)
    note shares = this
    show thesis
    proof (cases ok)
      case True
      with anon a up shares show thesis by (intro granted [of "s\<lparr>admission := g'\<rparr>"]) (auto simp: defs)
    next
      case no: False
      with anon a up show thesis by (intro refused) (auto simp: defs)
    qed
  next
    case False
    with p obtain pa where pa: "principal_admission s = Some pa"
      using sh by (cases "principal_admission s") (auto simp: shares_inv_def)
    from sh pa have inv: "shares_inv cfg fl (Some pa)" by simp
    from inv fl i p [OF False] show thesis
    proof (cases rule: share_acquire)
      case (granted pa')
      show thesis
      proof (cases ok)
        case True
        with False a pa granted up show thesis
          by (intro that(1) [of "s\<lparr>admission := g', principal_admission := Some pa'\<rparr>"]) (auto simp: defs)
      next
        case no: False
        with False a pa granted up show thesis by (intro that(2)) (auto simp: defs)
      qed
    next
      case refused
      with False pa show thesis by (intro that(2)) (auto simp: defs)
    qed
  qed
qed

lemma call_begin_inv:
  assumes inv: "call_inv cfg c (m, fl)" and i: "i \<notin> active_requests m"
  shows "\<exists>d m'. call_begin cfg i sc m = (Inr d, m')
    \<and> (case d of AdmittedAs p share \<Rightarrow> call_inv cfg c (m', fl(i \<mapsto> (p, share))) | _ \<Rightarrow> call_inv cfg c (m', fl))"
proof (cases "is_mcp sc \<and> accepting_requests m")
  case False
  with inv show ?thesis by (auto simp: call_begin_def)
next
  case True
  let ?m = "m\<lparr>active_requests := insert i (active_requests m)\<rparr>"
  from inv have parts: "flight_inv cfg fl" "dom fl \<subseteq> active_requests m" "gate_counts cfg fl (admission m)"
    "shares_inv cfg fl (principal_admission m)" "scope_inv (dom fl) (resource_admission m)"
    "capacity_bytes (resource_admission m) = c"
    by (auto simp: call_inv_def)
  with i have fresh: "i \<notin> dom fl" by auto
  show ?thesis
  proof (cases "authenticated_principal cfg (hs_headers sc)")
    case None
    with True inv show ?thesis by (auto simp: call_begin_def call_inv_def Let_def)
  next
    case (Some p)
    note conf = authenticated_configured [OF Some]
    have "gate_counts cfg fl (admission ?m)" "shares_inv cfg fl (principal_admission ?m)" using parts by simp_all
    note acquire = try_acquire_admission_inv [OF parts(1) fresh this conf]
    show ?thesis
    proof (rule acquire)
      fix s'
      assume granted: "try_acquire_admission p ?m = (Inr (True, p \<noteq> codes ''anonymous''), s')"
        "gate_counts cfg (fl(i \<mapsto> (p, p \<noteq> codes ''anonymous''))) (admission s')"
        "shares_inv cfg (fl(i \<mapsto> (p, p \<noteq> codes ''anonymous''))) (principal_admission s')"
        "resource_admission s' = resource_admission ?m" "active_requests s' = active_requests ?m"
      let ?share = "p \<noteq> codes ''anonymous''"
      let ?s = "s'\<lparr>resource_admission := request_scope_enter i (resource_admission s')\<rparr>"
      have "flight_inv cfg (fl(i \<mapsto> (p, ?share)))"
        using parts(1) conf by (auto simp: flight_inv_def)
      moreover have "scope_inv (insert i (dom fl)) (resource_admission ?s)"
        using scope_inv_enter [OF parts(5) fresh] granted(4) by simp
      ultimately have "call_inv cfg c (?s, fl(i \<mapsto> (p, ?share)))"
        using granted(2-5) parts(2,6) unfolding call_inv_def by (auto simp: request_scope_enter_def)
      moreover have "call_begin cfg i sc m = (Inr (AdmittedAs p ?share), ?s)"
        using True Some granted(1) by (simp add: call_begin_def Let_def)
      ultimately show ?thesis by (auto simp del: codes_simps)
    next
      assume refused: "try_acquire_admission p ?m = (Inr (False, False), ?m)"
      have "call_inv cfg c (?m, fl)" using inv by (auto simp: call_inv_def)
      with refused True Some show ?thesis by (simp add: call_begin_def Let_def)
    qed
  qed
qed

lemma call_end_inv:
  assumes inv: "call_inv cfg c (m, fl)" and i: "fl i = Some (p, share)"
  shows "fst (admitted_end i p share m) = Inr ()
    \<and> call_inv cfg c (discard_request i (snd (admitted_end i p share m)), fl(i := None))"
proof -
  from inv have parts: "flight_inv cfg fl" "dom fl \<subseteq> active_requests m" "gate_counts cfg fl (admission m)"
    "shares_inv cfg fl (principal_admission m)" "scope_inv (dom fl) (resource_admission m)"
    "capacity_bytes (resource_admission m) = c"
    by (auto simp: call_inv_def)
  have d: "i \<in> dom fl" using i by blast
  obtain ra where ra: "request_scope_exit i (resource_admission m) = (Inr (), ra)"
    "scope_inv (dom (fl(i := None))) ra" "capacity_bytes ra = c"
    using scope_inv_exit [OF parts(5) d] parts(6)
    by (cases "request_scope_exit i (resource_admission m)") auto
  have fin: "finite (dom fl)" using parts(1) by (simp add: flight_inv_def)
  obtain g where g: "gate_release (admission m) = (Inr (), g)" "gate_counts cfg (fl(i := None)) g"
    using gate_counts_release [OF parts(3) fin d] by blast
  have fl': "flight_inv cfg (fl(i := None))" using parts(1) by (auto simp: flight_inv_def)
  have dm: "dom (fl(i := None)) \<subseteq> active_requests m - {i}" using parts(2) by auto
  note rest = ra g fl' dm
  show ?thesis
  proof (cases share)
    case False
    with i have "holders q (fl(i := None)) = holders q fl" for q by (auto simp: holders_def)
    then have "shares_inv cfg (fl(i := None)) (principal_admission m)"
      using parts(4) by (auto simp: shares_inv_def split: option.splits)
    with False rest show ?thesis
      by (simp add: admitted_end_def discard_request_def call_inv_def)
  next
    case True
    have p: "p \<in> set (principal_ids cfg)" using parts(1) i True by (auto simp: flight_inv_def)
    then obtain pa where pa: "principal_admission m = Some pa"
      using parts(4) by (cases "principal_admission m") (auto simp: shares_inv_def)
    obtain pa' where "principal_release p pa = (Inr (), pa')" "shares_inv cfg (fl(i := None)) (Some pa')"
      using share_release [OF parts(4) [unfolded pa] holders_finite [OF parts(1)] _ p] i True by metis
    with True rest pa show ?thesis
      by (simp add: admitted_end_def discard_request_def call_inv_def)
  qed
qed

interpretation mw: step_invariant "call_step cfg" "call_inv cfg c"
proof
  fix s l t
  assume inv: "call_inv cfg c s" and step: "call_step cfg s l t"
  from step inv show "call_inv cfg c t"
  proof (cases rule: call_step.cases)
    case (admitted i m sc p share m' fl)
    with call_begin_inv [of cfg c m fl i sc] inv show ?thesis by auto
  next
    case (answered i m sc r m' fl)
    with call_begin_inv [of cfg c m fl i sc] inv obtain d where "r = Inr d"
      "case d of AdmittedAs p share \<Rightarrow> call_inv cfg c (m', fl(i \<mapsto> (p, share))) | _ \<Rightarrow> call_inv cfg c (m', fl)"
      by auto
    with answered show ?thesis by (cases d) auto
  next
    case (finished fl i p share m)
    with call_end_inv [of cfg c m fl i p share] inv show ?thesis by simp
  next
    case (reserved m fl i n)
    with inv scope_inv_reserve [of "dom fl" "resource_admission m" i n] show ?thesis
      by (auto simp: call_inv_def try_reserve_def Let_def split: pyobj.splits)
  next
    case (shrunk r m fl n)
    with inv scope_inv_shrink [of "dom fl" "resource_admission m" r n] show ?thesis
      by (auto simp: call_inv_def capacity_kept split: pyobj.splits)
  next
    case (unscoped r m fl)
    with inv scope_inv_release [of "dom fl" "resource_admission m" r] show ?thesis
      by (auto simp: call_inv_def capacity_kept)
  qed (auto simp: call_inv_def discard_request_def security_start_def security_shutdown_def)
qed

section \<open>Properties\<close>

lemma security_init_inv:
  assumes "admission_init (PInt c) = Inr ra" "security_init cfg ra = Inr m"
  shows "call_inv cfg c (m, Map.empty)"
proof -
  have "scope_inv {} ra" "capacity_bytes ra = c"
    using scope_inv_empty [OF assms(1)] assms(1) by (auto simp: admission_init_def split: if_splits)
  moreover from assms(2) obtain g where g: "gate_init (PInt (max_concurrent_mcp_requests cfg)) = Inr g"
    "admission m = g" "resource_admission m = ra" "active_requests m = {}"
    by (auto simp: security_init_def rbind_eq_Inr split: if_splits)
  moreover from g(1) have "gate_counts cfg Map.empty g"
    by (auto simp: gate_counts_def gate_init_def gate_inv_def split: if_splits)
  moreover from assms(2) have "shares_inv cfg Map.empty (principal_admission m)"
    by (auto simp: security_init_def shares_inv_def principal_init_def gate_init_def gate_inv_def holders_def dom_def rbind_eq_Inr
        split: if_splits)
  ultimately show ?thesis by (simp add: call_inv_def flight_inv_def)
qed

text \<open>
  C6. Over every interleaving of arriving, ending and cancelled requests, of start-up and shutdown and of reservations
  of the application, the global gate counts exactly the admitted requests and is never exceeded, every
  named principal stays within its own share, the inline budget stays within its capacity and no scope outlives its
  request; ending an admitted request, however its pipeline ended, returns its scope and both permits without
  raising, and deciding on a new request never raises.
\<close>

theorem requests_in_flight_are_bounded:
  assumes "admission_init (PInt c) = Inr ra" and "security_init cfg ra = Inr m0"
    and "run (call_step cfg) (m0, Map.empty) ls (m, fl)"
  shows "finite (dom fl) \<and> active (admission m) = int (card (dom fl))
    \<and> int (card (dom fl)) \<le> max_concurrent_mcp_requests cfg
    \<and> (\<forall>p. p \<noteq> codes ''anonymous'' \<and> p \<in> set (principal_ids cfg) \<longrightarrow>
         int (card {i. map_option fst (fl i) = Some p}) \<le> max_concurrent_mcp_requests_per_principal cfg)
    \<and> 0 \<le> active_bytes (resource_admission m) \<and> active_bytes (resource_admission m) \<le> c
    \<and> (\<forall>i. i \<notin> dom fl \<longrightarrow> request_scopes (resource_admission m) i = [])
    \<and> (\<forall>i p share. fl i = Some (p, share) \<longrightarrow> fst (admitted_end i p share m) = Inr ())
    \<and> (\<forall>i sc. i \<notin> active_requests m \<longrightarrow> (\<exists>d. fst (call_begin cfg i sc m) = Inr d))"
proof (intro conjI allI impI)
  have inv: "call_inv cfg c (m, fl)" by (rule mw.run_inv [OF assms(3) security_init_inv [OF assms(1,2)]])
  then have parts: "flight_inv cfg fl" "gate_counts cfg fl (admission m)" "shares_inv cfg fl (principal_admission m)"
    "scope_inv (dom fl) (resource_admission m)" "capacity_bytes (resource_admission m) = c"
    by (auto simp: call_inv_def)
  show "finite (dom fl)" using parts(1) by (simp add: flight_inv_def)
  show "active (admission m) = int (card (dom fl))" using parts(2) by (simp add: gate_counts_def)
  then show "int (card (dom fl)) \<le> max_concurrent_mcp_requests cfg"
    using parts(2) ag.invar_bounds [of "admission m"] by (auto simp: gate_counts_def)
  show "0 \<le> active_bytes (resource_admission m)" "active_bytes (resource_admission m) \<le> c"
    using budget_inv_nonneg scope_invD(1) [OF parts(4)] parts(5) by (auto simp: budget_inv_def)
  show "request_scopes (resource_admission m) i = []" if "i \<notin> dom fl" for i by (rule scope_invD(2) [OF parts(4) that])
  show "fst (admitted_end i p share m) = Inr ()" if "fl i = Some (p, share)" for i p share
    using call_end_inv [OF inv that] by simp
  show "\<exists>d. fst (call_begin cfg i sc m) = Inr d" if "i \<notin> active_requests m" for i sc
    using call_begin_inv [OF inv that, of sc] by auto
  show "int (card {i. map_option fst (fl i) = Some p}) \<le> max_concurrent_mcp_requests_per_principal cfg"
    if named: "p \<noteq> codes ''anonymous'' \<and> p \<in> set (principal_ids cfg)" for p
  proof -
    have "principal_admission m \<noteq> None" using parts(3) that by (cases "principal_admission m") (auto simp: shares_inv_def)
    then obtain pa where pa: "shares_inv cfg fl (Some pa)" using parts(3) by auto
    obtain g where g: "pa p = Some g" "gate_inv g" "active g = int (card (holders p fl))"
      using shares_gate [OF pa] named by blast
    have "{i. map_option fst (fl i) = Some p} = holders p fl"
      using parts(1) that by (auto simp: holders_def flight_inv_def simp del: codes_simps)
    with g pa show ?thesis by (auto simp: shares_inv_def gate_inv_def)
  qed
qed

definition sample_middleware :: McpSecurityMiddleware where
  "sample_middleware = \<lparr>accepting_requests = False, active_requests = {}, admission = \<lparr>capacity = 2, active = 0\<rparr>,
     principal_admission = Some [codes ''legacy-bearer'' \<mapsto> \<lparr>capacity = 1, active = 0\<rparr>],
     resource_admission = \<lparr>capacity_bytes = 100, active_bytes = 0, reservations = [], request_scopes = (\<lambda>_. [])\<rparr>\<rparr>"

theorem requests_in_flight_are_bounded_witness:
  "\<exists>m fl. run (call_step sample_config) (sample_middleware, Map.empty)
       [StartUp, Arrive 0 sample_scope, Arrive 1 sample_scope] (m, fl)
     \<and> fl 0 = Some (codes ''legacy-bearer'', True) \<and> fl 1 = None \<and> active (admission m) = 1
     \<and> int (card {i. map_option fst (fl i) = Some (codes ''legacy-bearer'')}) \<le> 1
     \<and> fst (admitted_end 0 (codes ''legacy-bearer'') True m) = Inr ()
     \<and> request_scopes (resource_admission m) 1 = []
     \<and> (\<exists>d. fst (call_begin sample_config 2 sample_scope m) = Inr d)"
proof -
  let ?p = "codes ''legacy-bearer''" and ?fl = "[0 \<mapsto> (codes ''legacy-bearer'', True)] :: nat \<rightharpoonup> pystr \<times> bool"
  define m1 where "m1 = security_start sample_middleware"
  define m2 where "m2 = snd (call_begin sample_config 0 sample_scope m1)"
  define m3 where "m3 = snd (call_begin sample_config 1 sample_scope m2)"
  have auth: "authenticated_principal sample_config (hs_headers sample_scope) = Some ?p" by code_simp
  have mcp: "is_mcp sample_scope" by code_simp
  note defs = call_begin_def Let_def auth mcp try_acquire_admission_def principal_try_acquire_def gate_try_acquire_def
    principal_release_def gate_release_def m1_def security_start_def sample_middleware_def
  have b1: "call_begin sample_config 0 sample_scope m1 = (Inr (AdmittedAs ?p True), m2)"
    unfolding m2_def by (simp add: defs)
  have b2: "\<exists>r. call_begin sample_config 1 sample_scope m2 = (Inr (Refused r), m3)"
    unfolding m3_def m2_def by (simp add: defs)
  have act: "active_requests m1 = {}" "active_requests m2 = {0}" "active_requests m3 = {1, 0}"
    unfolding m3_def m2_def by (simp_all add: defs)
  have r: "run (call_step sample_config) (sample_middleware, Map.empty)
      [StartUp, Arrive 0 sample_scope, Arrive 1 sample_scope] (m3, ?fl)"
    using b1 b2 act by (auto simp: m1_def intro!: run.intros call_step.intros)
  have init: "security_init sample_config (resource_admission sample_middleware) = Inr sample_middleware"
    by (simp add: security_init_def sample_config_def sample_middleware_def gate_init_def principal_init_def principal_ids_def
        fun_eq_iff)
  have ra: "admission_init (PInt 100) = Inr (resource_admission sample_middleware)"
    by (simp add: admission_init_def sample_middleware_def)
  have p: "?p \<noteq> codes ''anonymous'' \<and> ?p \<in> set (principal_ids sample_config)" by code_simp
  have one: "max_concurrent_mcp_requests_per_principal sample_config = 1" by (simp add: sample_config_def)
  note bound = requests_in_flight_are_bounded [OF ra init r]
  have "int (card {i. map_option fst (?fl i) = Some ?p}) \<le> 1"
    using bound [THEN conjunct2, THEN conjunct2, THEN conjunct2, THEN conjunct1, THEN spec, THEN mp, OF p] one by simp
  moreover have "fst (admitted_end 0 ?p True m3) = Inr ()" using bound by simp
  moreover have "request_scopes (resource_admission m3) 1 = []" using bound by simp
  moreover have "\<exists>d. fst (call_begin sample_config 2 sample_scope m3) = Inr d" using bound act by simp
  moreover have "active (admission m3) = 1" using bound by simp
  ultimately show ?thesis using r by (intro exI [of _ m3] exI [of _ ?fl]) simp
qed

end
