(* ===== verification/Nplg_Security.thy ===== *)
theory Nplg_Security
  imports Nplg_Json
begin

text \<open>
  The outbound request policy, \<^verbatim>\<open>src/nplg_mcp/security.py\<close>, and the resource identifiers of
  \<^verbatim>\<open>src/nplg_mcp/errors.py\<close>. Splitting a URL is the algorithm of \<^verbatim>\<open>urllib.parse\<close>; the Unicode tables and the parser
  of IP literals it consults are the fields of a record \<open>library\<close>, and \<open>library_laws\<close> states what the sources rely on of them.
\<close>

section \<open>Library tables\<close>

record library =
  str_lower :: "pystr \<Rightarrow> pystr"
  nfkc :: "pystr \<Rightarrow> pystr"
  decimal_digit :: "nat \<Rightarrow> bool"
  control_or_format :: "nat \<Rightarrow> bool"
  ip_literal :: "pystr \<Rightarrow> (int \<times> pystr) option"

definition ascii :: "pystr \<Rightarrow> bool" where
  "ascii s = list_all (\<lambda>c. c < 128) s"

definition ascii_lower :: "pystr \<Rightarrow> pystr" where
  "ascii_lower s = map (\<lambda>c. if 65 \<le> c \<and> c \<le> 90 then c + 32 else c) s"

text \<open>\<^verbatim>\<open>str.isspace\<close> on one character.\<close>

definition space_code :: "nat \<Rightarrow> bool" where
  "space_code c =
     (9 \<le> c \<and> c \<le> 13 \<or> 28 \<le> c \<and> c \<le> 32 \<or> 8192 \<le> c \<and> c \<le> 8202
      \<or> c \<in> {133, 160, 5760, 8232, 8233, 8239, 8287, 12288})"

definition strip :: "pystr \<Rightarrow> pystr" where
  "strip s = rev (dropWhile space_code (rev (dropWhile space_code s)))"

section \<open>urlsplit\<close>

record SplitResult =
  scheme :: pystr
  netloc :: pystr
  url_path :: pystr
  query :: pystr
  fragment :: pystr

definition is_alpha :: "nat \<Rightarrow> bool" where
  "is_alpha c = (65 \<le> c \<and> c \<le> 90 \<or> 97 \<le> c \<and> c \<le> 122)"

definition scheme_char :: "nat \<Rightarrow> bool" where
  "scheme_char c = (is_alpha c \<or> is_digit c \<or> c \<in> {43, 45, 46})"

text \<open>\<^verbatim>\<open>str.partition\<close>: the text before and after the first separator, and whether there is one.\<close>

definition partition_on :: "nat \<Rightarrow> pystr \<Rightarrow> pystr \<times> bool \<times> pystr" where
  "partition_on c s = (case split_once c s of None \<Rightarrow> (s, False, []) | Some (a, b) \<Rightarrow> (a, True, b))"

definition after_at :: "pystr \<Rightarrow> pystr" where
  "after_at s = rev (takeWhile (\<lambda>c. c \<noteq> 64) (rev s))"

definition split_scheme :: "pystr \<Rightarrow> pystr \<times> pystr" where
  "split_scheme url =
     (case split_once 58 url of
        Some (a, b) \<Rightarrow> if a \<noteq> [] \<and> is_alpha (hd a) \<and> list_all scheme_char a then (ascii_lower a, b) else ([], url)
      | None \<Rightarrow> ([], url))"

definition split_netloc :: "pystr \<Rightarrow> pystr \<times> pystr" where
  "split_netloc rest = (let p = (\<lambda>c. c \<noteq> 47 \<and> c \<noteq> 63 \<and> c \<noteq> 35) in (takeWhile p rest, dropWhile p rest))"

text \<open>\<open>_check_bracketed_netloc\<close> and \<open>_check_bracketed_host\<close>: nothing before the bracket, only a port after it, and an
  IPv6 or future literal inside.\<close>

definition future_literal :: "pystr \<Rightarrow> bool" where
  "future_literal h =
     (case split_once 46 (tl h) of
        None \<Rightarrow> False
      | Some (a, b) \<Rightarrow> a \<noteq> [] \<and> b \<noteq> [] \<and> 10 \<notin> set b
          \<and> list_all (\<lambda>c. is_digit c \<or> 65 \<le> c \<and> c \<le> 70 \<or> 97 \<le> c \<and> c \<le> 102) a)"

definition check_bracketed :: "library \<Rightarrow> pystr \<Rightarrow> bool" where
  "check_bracketed L nl =
     (let hostinfo = after_at nl; (before, open_br, bracketed) = partition_on 91 hostinfo;
          (h, _, port) = (if open_br then partition_on 93 bracketed else partition_on 58 hostinfo)
      in (open_br \<longrightarrow> before = [] \<and> (port = [] \<or> starts_with [58] port))
         \<and> (if starts_with [118] h then future_literal h
            else (case ip_literal L h of None \<Rightarrow> False | Some (v, _) \<Rightarrow> v \<noteq> 4)))"

definition check_netloc :: "library \<Rightarrow> pystr \<Rightarrow> bool" where
  "check_netloc L nl =
     (nl = [] \<or> ascii nl
      \<or> (let n = filter (\<lambda>c. c \<notin> {64, 58, 35, 63}) nl; m = nfkc L n
         in n = m \<or> {47, 63, 35, 64, 58} \<inter> set m = {}))"

definition urlsplit :: "library \<Rightarrow> pystr \<Rightarrow> SplitResult res" where
  "urlsplit L raw =
     (let url = filter (\<lambda>c. c \<notin> {9, 10, 13}) (dropWhile (\<lambda>c. c \<le> 32) raw);
          (sch, rest) = split_scheme url;
          (nl, rest) = (if starts_with [47, 47] rest then split_netloc (drop 2 rest) else ([], rest))
      in if (91 \<in> set nl) \<noteq> (93 \<in> set nl) \<or> (91 \<in> set nl \<and> 93 \<in> set nl \<and> \<not> check_bracketed L nl)
         then Inl (ValueError ''Invalid IPv6 URL'')
         else let (rest, _, frag) = partition_on 35 rest; (pth, _, q) = partition_on 63 rest
              in if \<not> check_netloc L nl then Inl (ValueError ''netloc contains invalid characters under NFKC normalization'')
                 else Inr \<lparr>scheme = sch, netloc = nl, url_path = pth, query = q, fragment = frag\<rparr>)"

definition hostinfo :: "SplitResult \<Rightarrow> pystr \<times> pystr option" where
  "hostinfo parts =
     (let info = after_at (netloc parts); (_, open_br, bracketed) = partition_on 91 info;
          (h, port) = (if open_br then (let (h, _, r) = partition_on 93 bracketed; (_, _, p) = partition_on 58 r in (h, p))
                       else (let (h, _, p) = partition_on 58 info in (h, p)))
      in (h, if port = [] then None else Some port))"

definition has_userinfo :: "SplitResult \<Rightarrow> bool" where
  "has_userinfo parts = (64 \<in> set (netloc parts))"

definition hostname :: "library \<Rightarrow> SplitResult \<Rightarrow> pystr option" where
  "hostname L parts =
     (case fst (hostinfo parts) of
        [] \<Rightarrow> None
      | h \<Rightarrow> let (a, percent, zone) = partition_on 37 h in Some (str_lower L a @ (if percent then [37] else []) @ zone))"

definition url_port :: "SplitResult \<Rightarrow> int option res" where
  "url_port parts =
     (case snd (hostinfo parts) of
        None \<Rightarrow> Inr None
      | Some p \<Rightarrow>
          if \<not> list_all is_digit p then Inl (ValueError ''Port could not be cast to integer value'')
          else if INT_MAX_STR_DIGITS < length p
          then Inl (ValueError ''Exceeds the limit (4300 digits) for integer string conversion'')
          else if 65535 < digits_value p then Inl (ValueError ''Port out of range 0-65535'')
          else Inr (Some (int (digits_value p))))"

section \<open>The NPLG origin\<close>

definition NPLG_HOST :: pystr where "NPLG_HOST = codes ''dspace.nplg.gov.ge''"
definition NPLG_ORIGIN :: pystr where "NPLG_ORIGIN = codes ''https://'' @ NPLG_HOST"

definition invalid_url :: "string \<Rightarrow> 'a res" where
  "invalid_url m = app_fail INVALID_INPUT m 400"

definition validate_origin :: "library \<Rightarrow> SplitResult \<Rightarrow> string \<Rightarrow> unit res" where
  "validate_origin L parts label =
     (if 37 \<in> set (netloc parts) \<or> 92 \<in> set (netloc parts) then invalid_url (label @ '' contains an unsafe host encoding'')
      else if scheme parts \<noteq> codes ''https'' then invalid_url (label @ '' must use HTTPS'')
      else if has_userinfo parts then invalid_url (label @ '' must not contain credentials'')
      else case url_port parts of
        Inl _ \<Rightarrow> invalid_url (label @ '' contains an invalid port'')
      | Inr port \<Rightarrow>
          if str_lower L (case hostname L parts of None \<Rightarrow> [] | Some h \<Rightarrow> h) \<noteq> NPLG_HOST \<or> port \<notin> {None, Some 443}
          then invalid_url (label @ '' must use the exact NPLG origin'')
          else if fragment parts \<noteq> [] then invalid_url (label @ '' must not contain a fragment'')
          else Inr ())"

text \<open>\<^verbatim>\<open>[1-9]\d*\<close>, where \<^verbatim>\<open>\d\<close> matches every Unicode decimal digit.\<close>

definition handle_number :: "library \<Rightarrow> pystr \<Rightarrow> bool" where
  "handle_number L s = (s \<noteq> [] \<and> 49 \<le> hd s \<and> hd s \<le> 57 \<and> list_all (decimal_digit L) (tl s))"

definition is_handle :: "library \<Rightarrow> pystr \<Rightarrow> bool" where
  "is_handle L s = (case split_on 47 s of [a, b] \<Rightarrow> handle_number L a \<and> handle_number L b | _ \<Rightarrow> False)"

fun allowed_segments :: "library \<Rightarrow> pystr list \<Rightarrow> bool" where
  "allowed_segments L [r, a] = (r = [] \<and> a \<in> {codes ''simple-search'', codes ''community-list''})"
| "allowed_segments L [r, a, b] = (r = [] \<and> a = codes ''oai'' \<and> b = codes ''request'')"
| "allowed_segments L (r # a # b # c # rest) =
     (r = [] \<and> handle_number L b \<and> handle_number L c
      \<and> (a = codes ''handle'' \<and> rest \<in> {[], [codes ''simple-search'']}
         \<or> a = codes ''bitstream'' \<and> rest \<noteq> [] \<and> rest \<noteq> [[]] \<and> list_all (\<lambda>s. 10 \<notin> set s) rest))"
| "allowed_segments L _ = False"

definition allowed_path :: "library \<Rightarrow> pystr \<Rightarrow> bool" where
  "allowed_path L p = allowed_segments L (split_on 47 p)"

fun percent_ok :: "pystr \<Rightarrow> bool" where
  "percent_ok [] = True"
| "percent_ok (c # cs) = ((c = 37 \<longrightarrow> 2 \<le> length cs \<and> list_all is_hex (take 2 cs)) \<and> percent_ok cs)"

text \<open>\<^verbatim>\<open>unquote_to_bytes\<close> of the UTF-8 text: an escape becomes its byte, everything else stays.\<close>

fun unquote_bytes :: "bytes \<Rightarrow> bytes" where
  "unquote_bytes (c # a # b # cs) =
     (if c = 37 \<and> is_hex a \<and> is_hex b then (hex_value a * 16 + hex_value b) # unquote_bytes cs
      else c # unquote_bytes (a # b # cs))"
| "unquote_bytes cs = cs"

definition unquote_to_bytes :: "pystr \<Rightarrow> bytes res" where
  "unquote_to_bytes s = rbind (encode_utf8 s) (\<lambda>bs. Inr (unquote_bytes bs))"

definition unsafe_segment :: "bytes \<Rightarrow> bool" where
  "unsafe_segment d =
     (d \<in> {[46], [46, 46]} \<or> 47 \<in> set d \<or> 92 \<in> set d \<or> 37 \<in> set d \<or> list_ex (\<lambda>v. v < 32 \<or> v = 127) d)"

fun check_segments :: "pystr list \<Rightarrow> unit res" where
  "check_segments [] = Inr ()"
| "check_segments (s # ss) =
     rbind (unquote_to_bytes s) (\<lambda>d. if unsafe_segment d then invalid_url ''Upstream URL path is not canonical'' else check_segments ss)"

definition unsafe_url_text :: "pystr \<Rightarrow> bool" where
  "unsafe_url_text url = (url \<noteq> strip url \<or> 92 \<in> set url \<or> list_ex (\<lambda>c. c < 32 \<or> c = 127) url)"

definition validate_upstream_url :: "library \<Rightarrow> pystr \<Rightarrow> pystr res" where
  "validate_upstream_url L url =
     (if unsafe_url_text url then invalid_url ''Upstream URL contains unsafe characters''
      else rbind (urlsplit L url) (\<lambda>parts.
        rbind (validate_origin L parts ''Upstream URL'') (\<lambda>_.
          if \<not> percent_ok (url_path parts) then invalid_url ''Upstream URL path contains invalid percent encoding''
          else rbind (check_segments (split_on 47 (url_path parts))) (\<lambda>_.
            if \<not> allowed_path L (url_path parts) then invalid_url ''Upstream URL path is not permitted''
            else Inr url))))"

section \<open>Handles\<close>

text \<open>
  \<^verbatim>\<open>parse_qs\<close> with blank values kept: the fields of a query string, empty ones skipped. A decoded name or value
  equals an ASCII text exactly when its unquoted bytes do, since a byte that does not decode becomes U+FFFD.
\<close>

definition plus_to_space :: "pystr \<Rightarrow> pystr" where
  "plus_to_space s = map (\<lambda>c. if c = 43 then 32 else c) s"

definition field_is :: "pystr \<Rightarrow> string \<Rightarrow> bool" where
  "field_is s t = (unquote_bytes (plus_to_space s) = codes t)"

definition query_fields :: "pystr \<Rightarrow> (pystr \<times> pystr) list" where
  "query_fields q =
     map (\<lambda>nv. let (n, _, v) = partition_on 61 nv in (n, v)) (filter (\<lambda>nv. nv \<noteq> []) (split_on 38 q))"

definition unsupported_query :: "pystr \<Rightarrow> bool" where
  "unsupported_query q =
     (case query_fields q of [] \<Rightarrow> False | [(n, v)] \<Rightarrow> \<not> (field_is n ''mode'' \<and> field_is v ''full'') | _ \<Rightarrow> True)"

definition item_path_handle :: "library \<Rightarrow> pystr \<Rightarrow> pystr option" where
  "item_path_handle L p =
     (case split_on 47 p of
        [r, h, a, b] \<Rightarrow> if r = [] \<and> h = codes ''handle'' \<and> handle_number L a \<and> handle_number L b then Some (a @ 47 # b) else None
      | _ \<Rightarrow> None)"

definition handle_parts :: "library \<Rightarrow> pystr \<Rightarrow> SplitResult res" where
  "handle_parts L candidate =
     (if starts_with (codes ''/handle/'') candidate
      then rbind (urlsplit L candidate) (\<lambda>parts.
        if scheme parts \<noteq> [] \<or> netloc parts \<noteq> [] then invalid_url ''Handle path is malformed'' else Inr parts)
      else if starts_with (codes ''https://'') candidate
      then rbind (urlsplit L candidate) (\<lambda>parts. rbind (validate_origin L parts ''Handle URL'') (\<lambda>_. Inr parts))
      else invalid_url ''Handle must be in the form 1234/567 or a canonical NPLG item URL'')"

definition parse_handle_input :: "library \<Rightarrow> pystr \<Rightarrow> pystr res" where
  "parse_handle_input L v =
     (let candidate = strip v in
      if is_handle L candidate then Inr candidate
      else rbind (handle_parts L candidate) (\<lambda>parts.
        case item_path_handle L (url_path parts) of
          None \<Rightarrow> invalid_url ''Handle URL does not identify a canonical NPLG item''
        | Some h \<Rightarrow>
            if unsupported_query (query parts) then invalid_url ''Handle URL contains unsupported query parameters''
            else Inr h))"

definition build_item_url :: "library \<Rightarrow> pystr \<Rightarrow> bool \<Rightarrow> pystr res" where
  "build_item_url L handle full =
     rbind (parse_handle_input L handle) (\<lambda>canonical.
       let url = NPLG_ORIGIN @ codes ''/handle/'' @ canonical
       in Inr (if full then url @ codes ''?mode=full'' else url))"

section \<open>Outbound headers and addresses\<close>

datatype OutboundPurpose = METADATA | DOWNLOAD | CANARY

fun accepted :: "OutboundPurpose \<Rightarrow> pystr" where
  "accepted METADATA = codes ''text/html, application/xhtml+xml, application/xml;q=0.9''"
| "accepted DOWNLOAD = codes ''application/pdf, application/octet-stream;q=0.8''"
| "accepted CANARY = codes ''text/html''"

definition build_outbound_headers :: "OutboundPurpose \<Rightarrow> (pystr \<rightharpoonup> pystr) option \<Rightarrow> (pystr \<times> pystr) list" where
  "build_outbound_headers purpose inbound_headers =
     [(codes ''Accept'', accepted purpose), (codes ''Accept-Encoding'', codes ''identity''),
      (codes ''User-Agent'', codes ''nplg-dspace-mcp/0.1.0 (+read-only research connector)'')]"

text \<open>
  An address as \<^verbatim>\<open>ipaddress.ip_address\<close> returns it. Membership in \<^verbatim>\<open>fec0::/10\<close> is read off its 128-bit value.
\<close>

record ip_address =
  is_ipv6 :: bool
  ip_value :: nat
  ip_global :: bool
  ip_scope :: bool
  ip_mapped :: bool
  ip_text :: pystr

definition site_local :: "ip_address \<Rightarrow> bool" where
  "site_local a = (ip_value a div 2 ^ 118 = 1019)"

definition is_forbidden_address :: "ip_address \<Rightarrow> bool" where
  "is_forbidden_address a =
     (if is_ipv6 a then \<not> ip_global a \<or> ip_scope a \<or> ip_mapped a \<or> site_local a else \<not> ip_global a)"

datatype dns_error = DnsTransientError app_error | DnsSecurityRejectionError app_error

fun approve_answers :: "(pystr \<Rightarrow> ip_address option) \<Rightarrow> pystr list \<Rightarrow> pystr list \<Rightarrow> dns_error + pystr list" where
  "approve_answers parse addresses [] = Inr addresses"
| "approve_answers parse addresses (raw # answers) =
     (case parse raw of
        None \<Rightarrow> Inl (DnsSecurityRejectionError (AppError UPSTREAM_FAILURE ''The repository returned an invalid network address.'' 502))
      | Some a \<Rightarrow>
          if is_forbidden_address a
          then Inl (DnsSecurityRejectionError (AppError UPSTREAM_FAILURE ''The repository hostname resolved to a non-public address.'' 502))
          else approve_answers parse (if ip_text a \<in> set addresses then addresses else addresses @ [ip_text a]) answers)"

text \<open>The answers are the address texts of the resolver, or \<open>None\<close> when it raised \<^verbatim>\<open>OSError\<close>.\<close>

definition resolve_approved_addresses ::
  "library \<Rightarrow> (pystr \<Rightarrow> ip_address option) \<Rightarrow> (pystr \<Rightarrow> pystr list option) \<Rightarrow> pystr \<Rightarrow> dns_error + pystr list" where
  "resolve_approved_addresses L parse resolver host =
     (if str_lower L host \<noteq> NPLG_HOST
      then Inl (DnsSecurityRejectionError (AppError INVALID_INPUT ''DNS resolution is allowed only for the NPLG host'' 400))
      else case resolver host of
        None \<Rightarrow> Inl (DnsTransientError (AppError UPSTREAM_FAILURE ''The repository hostname could not be resolved.'' 502))
      | Some answers \<Rightarrow>
          (case approve_answers parse [] answers of
             Inl e \<Rightarrow> Inl e
           | Inr [] \<Rightarrow> Inl (DnsTransientError (AppError UPSTREAM_FAILURE ''The repository hostname returned no usable addresses.'' 502))
           | Inr addresses \<Rightarrow> Inr addresses))"

section \<open>Resource identifiers\<close>

definition lower_hex :: "nat \<Rightarrow> pystr \<Rightarrow> bool" where
  "lower_hex n s = (length s = n \<and> list_all (\<lambda>c. is_digit c \<or> 97 \<le> c \<and> c \<le> 102) s)"

definition canonical_artifact_uri :: "pystr \<Rightarrow> bool" where
  "canonical_artifact_uri u =
     (starts_with (codes ''nplg://artifact/doc_'') u \<and> lower_hex 64 (drop 20 u))"

definition canonical_render_manifest_uri :: "pystr \<Rightarrow> bool" where
  "canonical_render_manifest_uri u =
     (starts_with (codes ''nplg://render/rnd_'') u \<and> lower_hex 32 (take 32 (drop 18 u)) \<and> drop 50 u = codes ''/manifest'')"

definition AGENT_WORKFLOW_URI :: pystr where
  "AGENT_WORKFLOW_URI = codes ''nplg://skills/georgian-newspaper-visual-analysis''"

definition validate_resource_uri :: "library \<Rightarrow> pystr \<Rightarrow> pystr option" where
  "validate_resource_uri L uri =
     (if uri = [] \<or> 512 < length uri then None
      else if list_ex (control_or_format L) uri then None
      else if uri \<in> {codes ''nplg://about'', AGENT_WORKFLOW_URI} \<or> canonical_artifact_uri uri \<or> canonical_render_manifest_uri uri
      then Some uri else None)"

section \<open>What the policy relies on of the library\<close>

definition library_laws :: "library \<Rightarrow> bool" where
  "library_laws L =
     ((\<forall>s. ascii s \<longrightarrow> str_lower L s = ascii_lower s)
      \<and> (\<forall>s. ascii_lower (str_lower L s) = NPLG_HOST \<longrightarrow> ascii s)
      \<and> (\<forall>c. c < 128 \<longrightarrow> decimal_digit L c = is_digit c)
      \<and> (\<forall>c. decimal_digit L c \<longrightarrow> \<not> space_code c \<and> c < 1114112 \<and> \<not> (55296 \<le> c \<and> c \<le> 57343))
      \<and> (\<forall>s v t. ip_literal L s = Some (v, t) \<longrightarrow> v = 4 \<or> 58 \<in> set s))"

lemma library_lawsD:
  assumes "library_laws L"
  shows "ascii s \<Longrightarrow> str_lower L s = ascii_lower s"
    "ascii_lower (str_lower L s) = NPLG_HOST \<Longrightarrow> ascii s"
    "c < 128 \<Longrightarrow> decimal_digit L c = is_digit c"
    "decimal_digit L c \<Longrightarrow> \<not> space_code c \<and> c < 1114112 \<and> \<not> (55296 \<le> c \<and> c \<le> 57343)"
    "ip_literal L s = Some (v, t) \<Longrightarrow> v = 4 \<or> 58 \<in> set s"
  using assms unfolding library_laws_def by blast+

lemma ascii_lower_idem [simp]: "ascii_lower (ascii_lower s) = ascii_lower s"
  by (auto simp: ascii_lower_def)

lemma ascii_lower_host [simp]: "ascii_lower NPLG_HOST = NPLG_HOST" "ascii NPLG_HOST" "58 \<notin> set NPLG_HOST"
  "NPLG_HOST \<noteq> []" "hd NPLG_HOST = 100"
  by (simp_all add: NPLG_HOST_def ascii_lower_def ascii_def)

lemma ascii_lower_ascii: "ascii (ascii_lower s) = ascii s"
  by (auto simp: ascii_def ascii_lower_def list_all_iff)

lemma lower_host:
  assumes L: "library_laws L" and h: "str_lower L (str_lower L s) = NPLG_HOST"
  shows "ascii_lower s = NPLG_HOST"
proof -
  have a: "ascii (str_lower L s)" using library_lawsD(2) [OF L, of "str_lower L s"] h by simp
  then have "ascii_lower (str_lower L s) = NPLG_HOST" using library_lawsD(1) [OF L] h by simp
  then have "ascii s" by (rule library_lawsD(2) [OF L])
  then show ?thesis using library_lawsD(1) [OF L] a h by (metis ascii_lower_idem)
qed

section \<open>Parsing lemmas\<close>

lemma split_once_None: "split_once c s = None \<longleftrightarrow> c \<notin> set s"
  by (auto simp: split_once_def Let_def dropWhile_eq_Nil_conv)

lemma partition_on_absent: "c \<notin> set s \<Longrightarrow> partition_on c s = (s, False, [])"
  using split_once_None [of c s] by (simp add: partition_on_def)

lemma partition_on_first: "c \<notin> set a \<Longrightarrow> partition_on c (a @ c # b) = (a, True, b)"
  using split_once_Some [of c "a @ c # b" a b] by (simp add: partition_on_def)

lemma partition_on_absentD: "partition_on c s = (a, False, b) \<Longrightarrow> a = s \<and> b = [] \<and> c \<notin> set s"
  by (auto simp: partition_on_def split_once_None split: option.splits)

lemma partition_on_firstD: "partition_on c s = (a, True, b) \<Longrightarrow> s = a @ c # b \<and> c \<notin> set a"
  by (auto simp: partition_on_def split_once_Some split: option.splits)

lemma partition_on_join: "partition_on c s = (a, b, r) \<Longrightarrow> s = a @ (if b then c # r else [])"
  by (auto simp: partition_on_def split_once_Some split: option.splits)

lemma after_at_id: "64 \<notin> set s \<Longrightarrow> after_at s = s"
  unfolding after_at_def by (subst takeWhile_eq_all_conv [THEN iffD2]) auto

lemma strip_fix: "strip s = s \<Longrightarrow> s \<noteq> [] \<Longrightarrow> \<not> space_code (hd s)"
proof
  assume "strip s = s" "s \<noteq> []" "space_code (hd s)"
  then have "length (dropWhile space_code s) < length s"
    by (cases s) (auto simp: le_imp_less_Suc length_dropWhile_le)
  moreover have "length (strip s) \<le> length (dropWhile space_code s)"
    unfolding strip_def by (metis length_dropWhile_le length_rev)
  ultimately show False using \<open>strip s = s\<close> by simp
qed

lemma strip_id:
  assumes "s = [] \<or> \<not> space_code (hd s) \<and> \<not> space_code (last s)"
  shows "strip s = s"
  proof -
  have "dropWhile space_code s = s" "dropWhile space_code (rev s) = rev s"
    using assms by (auto simp: dropWhile_eq_self_iff hd_rev)
  then show ?thesis by (simp add: strip_def)
qed

lemma urlsplit_clean:
  assumes "\<not> unsafe_url_text url"
  shows "filter (\<lambda>c. c \<notin> {9, 10, 13}) (dropWhile (\<lambda>c. c \<le> 32) url) = url"
proof (cases url)
  case (Cons c cs)
  have n: "\<not> x < 32" if "x \<in> set url" for x using assms that by (auto simp: unsafe_url_text_def list_ex_iff)
  have "\<not> space_code c" using strip_fix [of url] assms Cons by (auto simp: unsafe_url_text_def)
  with n [of c] Cons have "\<not> c \<le> 32" by (auto simp: space_code_def)
  with Cons n [of 9] n [of 10] n [of 13] show ?thesis by (auto simp: filter_id_conv)
qed simp

definition https_port :: "pystr \<Rightarrow> bool" where
  "https_port p = (p = [] \<or> p = [58] \<or> (\<exists>ds. p = 58 # ds \<and> list_all is_digit ds \<and> digits_value ds = 443))"

definition nplg_authority :: "pystr \<Rightarrow> bool" where
  "nplg_authority nl = (\<exists>h p. nl = h @ p \<and> ascii_lower h = NPLG_HOST \<and> https_port p)"

lemma validate_originD:
  assumes "validate_origin L parts label = Inr u"
  shows "37 \<notin> set (netloc parts)" "92 \<notin> set (netloc parts)" "scheme parts = codes ''https''"
    "64 \<notin> set (netloc parts)" "\<exists>port. url_port parts = Inr port \<and> port \<in> {None, Some 443}"
    "str_lower L (case hostname L parts of None \<Rightarrow> [] | Some h \<Rightarrow> h) = NPLG_HOST" "fragment parts = []"
  using assms
  by (auto simp: validate_origin_def invalid_url_def has_userinfo_def split: if_splits sum.splits simp del: codes_simps)

lemma hostname_lower:
  assumes L: "library_laws L" and p: "37 \<notin> set (fst (hostinfo parts))"
    and h: "str_lower L (case hostname L parts of None \<Rightarrow> [] | Some h \<Rightarrow> h) = NPLG_HOST"
  shows "ascii_lower (fst (hostinfo parts)) = NPLG_HOST"
proof (cases "fst (hostinfo parts)")
  case Nil
  then have "str_lower L [] = NPLG_HOST" using h by (simp add: hostname_def)
  then have "NPLG_HOST = []" using library_lawsD(1) [OF L, of "[]"] by (simp add: ascii_def ascii_lower_def)
  then show ?thesis by simp
next
  case (Cons c cs)
  then have "hostname L parts = Some (str_lower L (fst (hostinfo parts)))"
    using partition_on_absent [OF p] by (simp add: hostname_def)
  with h show ?thesis using lower_host [OF L] by simp
qed

lemma set_partition: "partition_on c s = (a, b, r) \<Longrightarrow> set a \<subseteq> set s \<and> set r \<subseteq> set s"
  by (cases b) (auto dest: partition_on_absentD partition_on_firstD)

text \<open>No bracketed authority has the NPLG host name inside, so the host is plain text up to the port.\<close>

lemma bracketed_not_host:
  assumes L: "library_laws L" and nl: "netloc parts = nl" "64 \<notin> set nl" "91 \<in> set nl" and chk: "check_bracketed L nl"
  shows "ascii_lower (fst (hostinfo parts)) \<noteq> NPLG_HOST"
proof
  assume host: "ascii_lower (fst (hostinfo parts)) = NPLG_HOST"
  obtain a b where "partition_on 91 nl = (a, True, b)"
    using nl(3) split_once_None [of 91 nl] by (cases "split_once 91 nl") (auto simp: partition_on_def)
  note part = this
  obtain h t r where h: "partition_on 93 b = (h, t, r)" by (metis prod_cases3)
  have f: "fst (hostinfo parts) = h"
    using nl part h by (simp add: hostinfo_def after_at_id Let_def split: prod.splits)
  have "starts_with [118] h \<or> (\<exists>v t. ip_literal L h = Some (v, t) \<and> v \<noteq> 4)"
    using chk nl(2) part h by (auto simp: check_bracketed_def after_at_id Let_def split: if_splits option.splits)
  then show False
  proof
    assume "starts_with [118] h"
    then have "hd (ascii_lower h) = 118" by (auto simp: starts_with_iff ascii_lower_def)
    with host f show False by simp
  next
    assume "\<exists>v t. ip_literal L h = Some (v, t) \<and> v \<noteq> 4"
    then have "58 \<in> set h" using library_lawsD(5) [OF L] by blast
    then have "58 \<in> set (ascii_lower h)" by (force simp: ascii_lower_def)
    with host f show False by simp
  qed
qed

lemma plain_authority:
  assumes "64 \<notin> set (netloc parts)" "91 \<notin> set (netloc parts)"
  shows "\<exists>p. netloc parts = fst (hostinfo parts) @ p
    \<and> (p = [] \<and> snd (hostinfo parts) = None \<or> p = [58] \<and> snd (hostinfo parts) = None
       \<or> (\<exists>ds. p = 58 # ds \<and> snd (hostinfo parts) = Some ds))"
proof -
  obtain h t r where h: "partition_on 58 (netloc parts) = (h, t, r)" by (metis prod_cases3)
  have "hostinfo parts = (h, if r = [] then None else Some r)"
    using assms h by (simp add: hostinfo_def after_at_id partition_on_absent Let_def)
  with h show ?thesis
    by (cases t) (auto dest!: partition_on_absentD partition_on_firstD)
qed

lemma origin_authority:
  assumes L: "library_laws L" and o: "validate_origin L parts label = Inr u"
    and b: "91 \<in> set (netloc parts) \<Longrightarrow> check_bracketed L (netloc parts)"
  shows "nplg_authority (netloc parts)"
proof -
  note v = validate_originD [OF o]
  have sub: "set (fst (hostinfo parts)) \<subseteq> set (netloc parts)"
  proof -
    obtain h t r where 1: "partition_on 91 (netloc parts) = (h, t, r)" by (metis prod_cases3)
    obtain h' t' r' where 2: "partition_on 93 r = (h', t', r')" by (metis prod_cases3)
    obtain h'' t'' r'' where 3: "partition_on 58 (netloc parts) = (h'', t'', r'')" by (metis prod_cases3)
    show ?thesis using 1 2 3 set_partition [OF 1] set_partition [OF 2] set_partition [OF 3] v(4)
      by (auto simp: hostinfo_def after_at_id Let_def split: if_splits prod.splits)
  qed
  then have host: "ascii_lower (fst (hostinfo parts)) = NPLG_HOST"
    using hostname_lower [OF L _ v(6)] v(1) by blast
  then have "91 \<notin> set (netloc parts)" using bracketed_not_host [OF L refl v(4)] b by blast
  from plain_authority [OF v(4) this] obtain p where p: "netloc parts = fst (hostinfo parts) @ p"
    "p = [] \<or> p = [58] \<or> (\<exists>ds. p = 58 # ds \<and> snd (hostinfo parts) = Some ds)" by blast
  have "https_port p"
    using p(2) v(5) by (auto simp: https_port_def url_port_def split: if_splits)
  with p(1) host show ?thesis unfolding nplg_authority_def by blast
qed

definition safe_path :: "pystr \<Rightarrow> bool" where
  "safe_path p = list_all (\<lambda>s. \<exists>d. unquote_to_bytes s = Inr d \<and> \<not> unsafe_segment d) (split_on 47 p)"

text \<open>What follows the path: a query without a fragment, at most closed by one empty fragment mark.\<close>

definition query_tail :: "pystr \<Rightarrow> bool" where
  "query_tail t = (\<exists>q. 35 \<notin> set q \<and> (q = [] \<or> hd q = 63) \<and> (t = q \<or> t = q @ [35]))"

lemma check_segments_safe: "check_segments ss = Inr u \<Longrightarrow> list_all (\<lambda>s. \<exists>d. unquote_to_bytes s = Inr d \<and> \<not> unsafe_segment d) ss"
  by (induction ss) (auto simp: rbind_eq_Inr invalid_url_def split: if_splits)

lemma split_scheme_https:
  assumes "split_scheme url = (codes ''https'', rest)"
  shows "\<exists>s. url = s @ 58 # rest \<and> ascii_lower s = codes ''https''"
  using assms by (auto simp: split_scheme_def split_once_Some split: option.splits if_splits)

lemma urlsplit_Inr:
  assumes c: "\<not> unsafe_url_text url" and u: "urlsplit L url = Inr parts" and s: "scheme parts = codes ''https''"
    and nl: "netloc parts \<noteq> []" and fr: "fragment parts = []"
  shows "91 \<in> set (netloc parts) \<longrightarrow> check_bracketed L (netloc parts)"
    and "\<exists>sch t. url = sch @ codes ''://'' @ netloc parts @ url_path parts @ t \<and> ascii_lower sch = codes ''https'' \<and> query_tail t"
proof -
  obtain sch rest where 1: "split_scheme url = (sch, rest)" by fastforce
  obtain n r where 2: "(if starts_with [47, 47] rest then split_netloc (drop 2 rest) else ([], rest)) = (n, r)" by fastforce
  obtain r1 b1 frag where 3: "partition_on 35 r = (r1, b1, frag)" by (metis prod_cases3)
  obtain pth b2 q where 4: "partition_on 63 r1 = (pth, b2, q)" by (metis prod_cases3)
  note e = u [unfolded urlsplit_def urlsplit_clean [OF c] Let_def 1 prod.case 2 3 4]
  have p: "parts = \<lparr>scheme = sch, netloc = n, url_path = pth, query = q, fragment = frag\<rparr>"
    and br: "91 \<in> set n \<longrightarrow> check_bracketed L n"
    using e by (auto split: if_splits)
  from p br show "91 \<in> set (netloc parts) \<longrightarrow> check_bracketed L (netloc parts)" by simp
  from p s 1 obtain sc where sc: "url = sc @ 58 # rest" "ascii_lower sc = codes ''https''"
    using split_scheme_https [of url rest] by auto
  from 2 p nl have "starts_with [47, 47] rest" "split_netloc (drop 2 rest) = (n, r)" by (auto split: if_splits)
  then have rest: "rest = 47 # 47 # n @ r" by (auto simp: starts_with_iff split_netloc_def Let_def)
  have fr': "frag = []" using p fr by simp
  have tail: "r = pth @ (if b2 then 63 # q else []) @ (if b1 then [35] else [])"
    using partition_on_join [OF 3] partition_on_join [OF 4] fr' by simp
  have "35 \<notin> set r1"
    using 3 by (cases b1) (auto dest: partition_on_absentD partition_on_firstD)
  then have "query_tail ((if b2 then 63 # q else []) @ (if b1 then [35] else []))"
    using partition_on_join [OF 4] unfolding query_tail_def
    by (intro exI [of _ "if b2 then 63 # q else []"]) (auto split: if_splits)
  with sc rest tail p show "\<exists>sch t. url = sch @ codes ''://'' @ netloc parts @ url_path parts @ t
      \<and> ascii_lower sch = codes ''https'' \<and> query_tail t"
    by (intro exI [of _ sc] exI [of _ "(if b2 then 63 # q else []) @ (if b1 then [35] else [])"]) simp
qed

lemma upstream_url_shape:
  assumes L: "library_laws L" and v: "validate_upstream_url L url = Inr r"
  shows "r = url \<and> (\<exists>sch authority path t. url = sch @ codes ''://'' @ authority @ path @ t
    \<and> ascii_lower sch = codes ''https'' \<and> nplg_authority authority \<and> allowed_path L path \<and> safe_path path \<and> query_tail t)"
proof -
  from v have c: "\<not> unsafe_url_text url" by (auto simp: validate_upstream_url_def invalid_url_def split: if_splits)
  with v obtain parts where p: "urlsplit L url = Inr parts" "validate_origin L parts ''Upstream URL'' = Inr ()"
    "check_segments (split_on 47 (url_path parts)) = Inr ()" "allowed_path L (url_path parts)" "r = url"
    by (auto simp: validate_upstream_url_def invalid_url_def rbind_eq_Inr split: if_splits)
  note o = validate_originD [OF p(2)]
  have "netloc parts \<noteq> []"
  proof
    assume "netloc parts = []"
    then have "fst (hostinfo parts) = []" by (simp add: hostinfo_def after_at_def partition_on_absent)
    then show False using hostname_lower [OF L _ o(6)] by (simp add: ascii_lower_def NPLG_HOST_def)
  qed
  note s = urlsplit_Inr [OF c p(1) o(3) this o(7)]
  have "nplg_authority (netloc parts)" using origin_authority [OF L p(2)] s(1) by blast
  with s(2) p check_segments_safe [OF p(3)] show ?thesis unfolding safe_path_def by blast
qed

section \<open>Handles survive the URL they are put into\<close>

definition handle_code :: "nat \<Rightarrow> bool" where
  "handle_code c = ((is_digit c \<or> 128 \<le> c) \<and> \<not> space_code c \<and> c < 1114112 \<and> \<not> (55296 \<le> c \<and> c \<le> 57343))"

lemma handle_number_codes:
  assumes L: "library_laws L" and s: "handle_number L s"
  shows "list_all handle_code s \<and> s \<noteq> []"
proof -
  have "handle_code c" if "decimal_digit L c" for c
    using library_lawsD(3,4) [OF L, of c] that by (auto simp: handle_code_def not_less)
  then show ?thesis using s
    by (cases s) (auto simp: handle_number_def list_all_iff handle_code_def is_digit_def space_code_def)
qed

lemma handle_code_not:
  "handle_code c \<Longrightarrow> c \<notin> {35, 37, 38, 47, 58, 61, 63, 64, 91, 92, 93, 127}" "handle_code c \<Longrightarrow> \<not> c < 32"
  by (auto simp: handle_code_def is_digit_def)

lemma is_handle_parts:
  assumes "is_handle L h"
  obtains a b where "h = a @ 47 # b" "handle_number L a" "handle_number L b"
proof -
  from assms obtain a b where "split_on 47 h = [a, b]" "handle_number L a" "handle_number L b"
    by (auto simp: is_handle_def split: list.splits)
  then show thesis using that [of a b] join_split_on [of 47 h] by simp
qed

lemma is_handleI:
  assumes "library_laws L" "handle_number L a" "handle_number L b"
  shows "is_handle L (a @ 47 # b)"
proof -
  have "47 \<notin> set a" "47 \<notin> set b"
    using handle_number_codes [OF assms(1)] assms(2,3) handle_code_not(1) by (fastforce simp: list_all_iff)+
  with assms show ?thesis by (simp add: is_handle_def split_on_append split_on_single)
qed

lemma handle_strip:
  assumes "library_laws L" "is_handle L h"
  shows "strip h = h" "list_all (\<lambda>c. handle_code c \<or> c = 47) h" "h \<noteq> []" "handle_code (last h)"
proof -
  from assms(2) obtain a b where h: "h = a @ 47 # b" "handle_number L a" "handle_number L b" by (rule is_handle_parts)
  note c = handle_number_codes [OF assms(1) h(2)] handle_number_codes [OF assms(1) h(3)]
  then show "list_all (\<lambda>c. handle_code c \<or> c = 47) h" "h \<noteq> []" "handle_code (last h)"
    using h(1) by (auto simp: list_all_iff)
  have "\<not> space_code (hd h)" "\<not> space_code (last h)"
    using c h(1) by (auto simp: list_all_iff handle_code_def hd_append)
  then show "strip h = h" by (intro strip_id) simp
qed

lemma parse_handle_id: "library_laws L \<Longrightarrow> is_handle L h \<Longrightarrow> parse_handle_input L h = Inr h"
  by (simp add: parse_handle_input_def handle_strip)

lemma parse_handle_is_handle:
  assumes L: "library_laws L" and p: "parse_handle_input L v = Inr h"
  shows "is_handle L h"
proof (cases "is_handle L (strip v)")
  case True
  with p show ?thesis by (simp add: parse_handle_input_def)
next
  case False
  with p obtain parts :: SplitResult where "(case item_path_handle L (url_path parts) of
      None \<Rightarrow> invalid_url ''Handle URL does not identify a canonical NPLG item''
    | Some h \<Rightarrow> if unsupported_query (query parts) then invalid_url ''Handle URL contains unsupported query parameters''
        else Inr h) = Inr h"
    unfolding parse_handle_input_def Let_def by (auto simp: rbind_eq_Inr)
  then have "item_path_handle L (url_path parts) = Some h"
    by (auto simp: invalid_url_def split: option.splits if_splits)
  then show ?thesis using is_handleI [OF L]
    by (auto simp: item_path_handle_def split: list.splits if_splits)
qed

lemma utf8_high: "128 \<le> c \<Longrightarrow> b \<in> set (utf8_encode c) \<Longrightarrow> 128 \<le> b"
  by (auto simp: utf8_encode_def split: if_splits)

lemma utf8_digit: "is_digit c \<Longrightarrow> utf8_encode c = [c]"
  by (auto simp: utf8_encode_def is_digit_def)

lemma unquote_bytes_id: "37 \<notin> set bs \<Longrightarrow> unquote_bytes bs = bs"
  by (induction bs rule: unquote_bytes.induct) auto

lemma digits_safe:
  assumes "\<forall>x\<in>set d. is_digit x \<or> 128 \<le> x"
  shows "\<not> unsafe_segment d"
proof -
  have n: "x \<notin> set d" if "x < 48 \<or> x = 92 \<or> x = 127" for x using assms that by (auto simp: is_digit_def)
  have "46 \<notin> set d" "47 \<notin> set d" "92 \<notin> set d" "37 \<notin> set d" "127 \<notin> set d" by (simp_all add: n)
  moreover have "\<not> list_ex (\<lambda>v. v < 32 \<or> v = 127) d" using n by (auto simp: list_ex_iff)
  ultimately show ?thesis by (auto simp: unsafe_segment_def)
qed

lemma handle_segment_safe:
  assumes "list_all handle_code s"
  shows "\<exists>d. unquote_to_bytes s = Inr d \<and> \<not> unsafe_segment d"
proof -
  let ?d = "concat (map utf8_encode s)"
  have b: "is_digit x \<or> 128 \<le> x" if "x \<in> set ?d" for x
    using that assms utf8_high utf8_digit by (fastforce simp: list_all_iff handle_code_def)
  have "encode_utf8 s = Inr ?d"
    using assms by (auto simp: encode_utf8_def list_ex_iff list_all_iff handle_code_def)
  moreover have "37 \<notin> set ?d" using b [of 37] by (auto simp: is_digit_def)
  moreover have "\<not> unsafe_segment ?d"
    by (rule digits_safe) (use b in blast)
  ultimately show ?thesis by (simp add: unquote_to_bytes_def unquote_bytes_id)
qed

text \<open>The parts of the item URL of a handle.\<close>

definition item_url :: "pystr \<Rightarrow> bool \<Rightarrow> pystr" where
  "item_url h full = NPLG_ORIGIN @ codes ''/handle/'' @ h @ (if full then codes ''?mode=full'' else [])"

lemma item_url_clean:
  assumes "library_laws L" "is_handle L h"
  shows "strip (item_url h full) = item_url h full" "\<not> unsafe_url_text (item_url h full)"
proof -
  note hs = handle_strip [OF assms]
  have "last (item_url h full) = (if full then 108 else last h)" using hs(3) by (simp add: item_url_def)
  moreover have "\<not> space_code (last h)" using hs(4) by (simp add: handle_code_def)
  ultimately have "\<not> space_code (last (item_url h full))" by (auto simp: space_code_def)
  moreover have "hd (item_url h full) = 104" by (simp add: item_url_def NPLG_ORIGIN_def)
  ultimately show s: "strip (item_url h full) = item_url h full" by (intro strip_id) (auto simp: space_code_def)
  have h: "92 \<notin> set h" "\<not> list_ex (\<lambda>c. c < 32 \<or> c = 127) h"
    using hs(2) handle_code_not by (fastforce simp: list_all_iff list_ex_iff)+
  with s show "\<not> unsafe_url_text (item_url h full)"
    by (simp add: unsafe_url_text_def) (simp add: item_url_def NPLG_ORIGIN_def NPLG_HOST_def)
qed

lemma split_netloc_slash:
  assumes "\<forall>c\<in>set n. c \<notin> {35, 47, 63}"
  shows "split_netloc (n @ 47 # r) = (n, 47 # r)"
  using assms by (auto simp: split_netloc_def takeWhile_append dropWhile_append)

lemma item_urlsplit:
  assumes L: "library_laws L" and h: "is_handle L h"
  shows "urlsplit L (item_url h full) =
    Inr \<lparr>scheme = codes ''https'', netloc = NPLG_HOST, url_path = codes ''/handle/'' @ h,
         query = (if full then codes ''mode=full'' else []), fragment = []\<rparr>"
proof -
  let ?q = "if full then codes ''?mode=full'' else []"
  let ?r = "codes ''handle/'' @ h @ ?q"
  have url: "item_url h full = codes ''https'' @ 58 # 47 # 47 # NPLG_HOST @ 47 # ?r"
    by (simp add: item_url_def NPLG_ORIGIN_def)
  have 1: "split_scheme (item_url h full) = (codes ''https'', 47 # 47 # NPLG_HOST @ 47 # ?r)"
    using split_once_Some [of 58 "item_url h full" "codes ''https''" "47 # 47 # NPLG_HOST @ 47 # ?r"] url
    by (simp add: split_scheme_def is_alpha_def scheme_char_def ascii_lower_def)
  have "split_netloc (NPLG_HOST @ 47 # ?r) = (NPLG_HOST, 47 # ?r)"
    by (rule split_netloc_slash) (simp add: NPLG_HOST_def)
  then have 2: "(if starts_with [47, 47] (47 # 47 # NPLG_HOST @ 47 # ?r) then split_netloc (drop 2 (47 # 47 # NPLG_HOST @ 47 # ?r))
      else ([], 47 # 47 # NPLG_HOST @ 47 # ?r)) = (NPLG_HOST, 47 # ?r)"
    by (simp add: starts_with_def del: codes_simps)
  have no: "c \<notin> set h" if "c \<in> {35, 63}" for c
    using handle_strip(2) [OF L h] handle_code_not(1) that by (fastforce simp: list_all_iff)
  have 3: "partition_on 35 (47 # ?r) = (47 # ?r, False, [])"
    using no by (intro partition_on_absent) simp
  have "63 \<notin> set (47 # codes ''handle/'' @ h)" using no by simp
  then have 4: "partition_on 63 (47 # ?r) = (47 # codes ''handle/'' @ h, full, if full then codes ''mode=full'' else [])"
    using partition_on_first [of 63 "47 # codes ''handle/'' @ h" "codes ''mode=full''"]
      partition_on_absent [of 63 "47 # codes ''handle/'' @ h"]
    by (cases full) simp_all
  have 5: "91 \<notin> set NPLG_HOST" "93 \<notin> set NPLG_HOST" "check_netloc L NPLG_HOST"
    by (simp_all add: NPLG_HOST_def check_netloc_def ascii_def)
  show ?thesis
    unfolding urlsplit_def urlsplit_clean [OF item_url_clean(2) [OF L h]] Let_def 1 prod.case 2 3 4
    using 5 by (simp del: codes_simps) simp
qed

lemma item_origin:
  assumes L: "library_laws L"
  shows "validate_origin L \<lparr>scheme = codes ''https'', netloc = NPLG_HOST, url_path = p, query = q, fragment = []\<rparr> label = Inr ()"
proof -
  let ?p = "\<lparr>scheme = codes ''https'', netloc = NPLG_HOST, url_path = p, query = q, fragment = []\<rparr>"
  have n: "c \<notin> set NPLG_HOST" if "c \<in> {37, 58, 64, 91, 92}" for c using that by (auto simp: NPLG_HOST_def)
  have i: "hostinfo ?p = (NPLG_HOST, None)" using n by (simp add: hostinfo_def after_at_id partition_on_absent)
  then have "hostname L ?p = Some (str_lower L NPLG_HOST)"
    using i n partition_on_absent [of 37 NPLG_HOST] unfolding hostname_def by (auto split: list.split)
  moreover have "str_lower L NPLG_HOST = NPLG_HOST" using library_lawsD(1) [OF L, of NPLG_HOST] by simp
  ultimately show ?thesis using n i by (simp add: validate_origin_def has_userinfo_def url_port_def)
qed

lemma safe_check_segments:
  "list_all (\<lambda>s. \<exists>d. unquote_to_bytes s = Inr d \<and> \<not> unsafe_segment d) ss \<Longrightarrow> check_segments ss = Inr ()"
  by (induction ss) auto

lemma item_path:
  assumes L: "library_laws L" and h: "is_handle L h"
  shows "item_path_handle L (codes ''/handle/'' @ h) = Some h" "allowed_path L (codes ''/handle/'' @ h)"
    "percent_ok (codes ''/handle/'' @ h)" "check_segments (split_on 47 (codes ''/handle/'' @ h)) = Inr ()"
proof -
  from h obtain a b where ab: "h = a @ 47 # b" "handle_number L a" "handle_number L b" by (rule is_handle_parts)
  note c = handle_number_codes [OF L ab(2)] handle_number_codes [OF L ab(3)]
  have n: "47 \<notin> set a" "47 \<notin> set b" using c handle_code_not(1) by (fastforce simp: list_all_iff)+
  have s: "split_on 47 (codes ''/handle/'' @ h) = [[], codes ''handle'', a, b]"
    using n by (simp add: ab(1) split_on_append split_on_single)
  show "item_path_handle L (codes ''/handle/'' @ h) = Some h" using ab unfolding item_path_handle_def s by simp
  show "allowed_path L (codes ''/handle/'' @ h)" using ab unfolding allowed_path_def s by simp
  have p: "percent_ok s" if "37 \<notin> set s" for s using that by (induction s) auto
  have "37 \<notin> set h" using handle_strip(2) [OF L h] handle_code_not(1) by (fastforce simp: list_all_iff)
  then show "percent_ok (codes ''/handle/'' @ h)" by (intro p) simp
  have "\<exists>d. unquote_to_bytes (codes ''handle'') = Inr d \<and> \<not> unsafe_segment d"
    "\<exists>d. unquote_to_bytes [] = Inr d \<and> \<not> unsafe_segment d"
    by (simp_all add: unquote_to_bytes_def encode_utf8_def utf8_encode_def unsafe_segment_def)
  with handle_segment_safe c show "check_segments (split_on 47 (codes ''/handle/'' @ h)) = Inr ()"
    unfolding s by (intro safe_check_segments) (simp del: codes_simps)
qed

lemma build_item_url_eq:
  assumes "parse_handle_input L v = Inr h"
  shows "build_item_url L v full = Inr (item_url h full)"
  using assms by (simp add: build_item_url_def item_url_def)


lemma item_url_query: "\<not> unsupported_query (if full then codes ''mode=full'' else [])"
proof -
  have "\<not> unsupported_query (codes ''mode=full'')" "\<not> unsupported_query []" by code_simp+
  then show ?thesis by simp
qed

lemma item_url_accepted:
  assumes L: "library_laws L" and h: "is_handle L h"
  shows "validate_upstream_url L (item_url h full) = Inr (item_url h full)"
    "parse_handle_input L (item_url h full) = Inr h"
proof -
  note u = item_urlsplit [OF L h, of full] and c = item_url_clean [OF L h, of full] and p = item_path [OF L h]
  note o = item_origin [OF L]
  show "validate_upstream_url L (item_url h full) = Inr (item_url h full)"
    using c(2) p unfolding validate_upstream_url_def u by (simp add: o del: codes_simps)
  have n: "\<not> is_handle L (item_url h full)"
  proof
    assume "is_handle L (item_url h full)"
    from handle_strip(2) [OF L this] show False
      by (simp add: item_url_def NPLG_ORIGIN_def handle_code_def is_digit_def)
  qed
  have s: "\<not> starts_with (codes ''/handle/'') (item_url h full)" "starts_with (codes ''https://'') (item_url h full)"
    by (simp_all add: starts_with_def item_url_def NPLG_ORIGIN_def)
  have "handle_parts L (item_url h full) = urlsplit L (item_url h full)"
    using s unfolding handle_parts_def u by (simp add: o del: codes_simps)
  then show "parse_handle_input L (item_url h full) = Inr h"
    using n c(1) p(1) item_url_query [of full] unfolding parse_handle_input_def u Let_def by (simp del: codes_simps)
qed

section \<open>Approved addresses\<close>

lemma approve_answers_Inr:
  assumes "approve_answers parse acc answers = Inr as" "distinct acc"
  shows "distinct as \<and> list_all (\<lambda>raw. \<exists>a. parse raw = Some a \<and> \<not> is_forbidden_address a) answers
    \<and> set as = set acc \<union> {ip_text a | a. \<exists>raw\<in>set answers. parse raw = Some a}"
  using assms
proof (induction answers arbitrary: acc)
  case (Cons raw answers)
  then obtain a where a: "parse raw = Some a" "\<not> is_forbidden_address a"
    "approve_answers parse (if ip_text a \<in> set acc then acc else acc @ [ip_text a]) answers = Inr as"
    by (auto split: option.splits if_splits)
  from Cons.IH [OF a(3)] Cons.prems(2) a(1,2) show ?case by (auto split: if_splits)
qed auto

section \<open>Properties\<close>

text \<open>
  C12. An outbound URL is accepted only unchanged and only when it reads as HTTPS to the NPLG host, in any letter case,
  without credentials and on the default port, with an allowed repository path none of whose segments
  decodes to a dot segment, a separator, an escape or a control byte, and with no fragment text.
\<close>

theorem accepted_upstream_urls_are_nplg:
  assumes "library_laws L" and "validate_upstream_url L url = Inr r"
  shows "r = url \<and> (\<exists>sch authority path t. url = sch @ codes ''://'' @ authority @ path @ t
    \<and> ascii_lower sch = codes ''https'' \<and> nplg_authority authority \<and> allowed_path L path \<and> safe_path path \<and> query_tail t)"
  using upstream_url_shape [OF assms] .

text \<open>An instance of the tables: ASCII only, and no IP literals.\<close>

definition ascii_library :: library where
  "ascii_library = \<lparr>str_lower = (\<lambda>s. if ascii s then ascii_lower s else s), nfkc = (\<lambda>s. s), decimal_digit = is_digit,
     control_or_format = (\<lambda>c. c < 32 \<or> c = 127), ip_literal = (\<lambda>_. None)\<rparr>"

lemma ascii_library_laws: "library_laws ascii_library"
proof -
  have "ascii s" if "ascii_lower s = NPLG_HOST" for s
    using that ascii_lower_ascii [of s] by simp
  then show ?thesis
    by (auto simp: library_laws_def ascii_library_def is_digit_def space_code_def split: if_splits)
qed

theorem accepted_upstream_urls_are_nplg_witness:
  "\<exists>sch authority path t. codes ''HTTPS://dspace.NPLG.gov.ge:0443/handle/1234/567?mode=full'' = sch @ codes ''://'' @ authority @ path @ t
    \<and> ascii_lower sch = codes ''https'' \<and> nplg_authority authority \<and> allowed_path ascii_library path \<and> safe_path path \<and> query_tail t"
proof -
  let ?u = "codes ''HTTPS://dspace.NPLG.gov.ge:0443/handle/1234/567?mode=full''"
  have "validate_upstream_url ascii_library ?u = Inr ?u" by code_simp
  from accepted_upstream_urls_are_nplg [OF ascii_library_laws this] show ?thesis by (rule conjunct2)
qed

text \<open>
  Every accepted way to write a handle gives one canonical handle: reading it again changes nothing, the
  item URL built from it reads back as the same handle, and the outbound guard accepts that URL.
\<close>

theorem handle_url_roundtrip:
  assumes "library_laws L" and "parse_handle_input L v = Inr h"
  shows "parse_handle_input L h = Inr h
    \<and> (\<exists>u. build_item_url L v full = Inr u \<and> parse_handle_input L u = Inr h \<and> validate_upstream_url L u = Inr u)"
  using parse_handle_is_handle [OF assms] parse_handle_id item_url_accepted build_item_url_eq [OF assms(2)] assms(1)
  by blast

text \<open>
  Resolution returns a nonempty list without duplicates of exactly the addresses the resolver gave for the NPLG host, and only
  when every one of them is a public address; one forbidden or unreadable answer rejects them all.
\<close>

theorem resolved_addresses_are_public:
  assumes "resolve_approved_addresses L parse resolver host = Inr as"
  shows "str_lower L host = NPLG_HOST \<and> as \<noteq> [] \<and> distinct as
    \<and> (\<exists>answers. resolver host = Some answers
         \<and> list_all (\<lambda>raw. \<exists>a. parse raw = Some a \<and> \<not> is_forbidden_address a) answers
         \<and> set as = {ip_text a | a. \<exists>raw\<in>set answers. parse raw = Some a})"
proof -
  from assms obtain answers where a: "str_lower L host = NPLG_HOST" "resolver host = Some answers"
    "approve_answers parse [] answers = Inr as" "as \<noteq> []"
    by (auto simp: resolve_approved_addresses_def split: if_splits option.splits sum.splits list.splits)
  with approve_answers_Inr [OF a(3)] show ?thesis by auto
qed

definition sample_address :: ip_address where
  "sample_address = \<lparr>is_ipv6 = False, ip_value = 134744072, ip_global = True, ip_scope = False, ip_mapped = False, ip_text = codes ''8.8.8.8''\<rparr>"

text \<open>
  A malformed bracket makes \<^verbatim>\<open>urlsplit\<close> raise, and nothing in the policy turns that into the error it uses for
  every other rejected handle or URL.
\<close>

lemma malformed_brackets_escape:
  "parse_handle_input L (codes ''https://['') = Inl (ValueError ''Invalid IPv6 URL'')"
  "validate_upstream_url L (codes ''https://['') = Inl (ValueError ''Invalid IPv6 URL'')"
proof -
  have s: "strip (codes ''https://['') = codes ''https://[''" "\<not> unsafe_url_text (codes ''https://['')" by code_simp+
  have "split_scheme (codes ''https://['') = (codes ''https'', codes ''//['')"
    "(if starts_with [47, 47] (codes ''//['') then split_netloc (drop 2 (codes ''//['')) else ([], codes ''//['')) = ([91], [])"
    by code_simp+
  note parts = this
  have u: "urlsplit L (codes ''https://['') = Inl (ValueError ''Invalid IPv6 URL'')"
    unfolding urlsplit_def urlsplit_clean [OF s(2)] Let_def parts prod.case by simp
  then show "validate_upstream_url L (codes ''https://['') = Inl (ValueError ''Invalid IPv6 URL'')"
    using s(2) by (simp add: validate_upstream_url_def del: codes_simps)
  have "\<not> is_handle L (codes ''https://['')" by (simp add: is_handle_def handle_number_def)
  moreover have "\<not> starts_with (codes ''/handle/'') (codes ''https://['')" "starts_with (codes ''https://'') (codes ''https://['')"
    by code_simp+
  ultimately show "parse_handle_input L (codes ''https://['') = Inl (ValueError ''Invalid IPv6 URL'')"
    using s(1) u by (simp add: parse_handle_input_def handle_parts_def del: codes_simps)
qed

end
