(* ===== verification/Nplg_Pdf_Geometry.thy ===== *)
theory Nplg_Pdf_Geometry
  imports Nplg_Json
begin

text \<open>
  The pixel geometry of \<^verbatim>\<open>src/nplg_mcp/pdf.py\<close>: tile layouts and boxes, page selections, target grids and their pixel
  limits. The boxes are proved to tile the page; the grids to respect both pixel limits.
\<close>

section \<open>Tiles\<close>

record TileBox =
  tb_x :: int
  tb_y :: int
  tb_width :: int
  tb_height :: int

definition HARD_MAX_TILE_DIMENSION :: int where "HARD_MAX_TILE_DIMENSION = 4096"
definition HARD_MAX_TILE_OVERLAP :: int where "HARD_MAX_TILE_OVERLAP = 512"

definition tile_layout :: "pyobj \<Rightarrow> pyobj \<Rightarrow> pyobj \<Rightarrow> pyobj \<Rightarrow> pyobj \<Rightarrow> (int \<times> int \<times> int) res" where
  "tile_layout width height tile_width tile_height overlap =
     (case (width, height, tile_width, tile_height, overlap) of
        (PInt w, PInt h, PInt tw, PInt th, PInt ov) \<Rightarrow>
          if w \<le> 0 \<or> h \<le> 0 \<or> tw \<le> 0 \<or> th \<le> 0 \<or> ov < 0
          then app_fail INVALID_INPUT ''Tile geometry must be positive and overlap must be non-negative.'' 400
          else if HARD_MAX_TILE_DIMENSION < tw \<or> HARD_MAX_TILE_DIMENSION < th
          then app_fail INVALID_INPUT ''Tile dimensions exceed the compiled safety ceiling.'' 400
          else if HARD_MAX_TILE_OVERLAP < ov
          then app_fail INVALID_INPUT ''Tile overlap exceeds the compiled safety ceiling.'' 400
          else if tw \<le> ov \<or> th \<le> ov
          then app_fail INVALID_INPUT ''Tile overlap must be smaller than both tile dimensions.'' 400
          else let stride_x = tw - ov; stride_y = th - ov;
                   columns = (w - 1) div stride_x + 1; rows = (h - 1) div stride_y + 1
               in Inr (stride_x, stride_y, columns * rows)
      | _ \<Rightarrow> app_fail INVALID_INPUT ''Tile geometry must use integer pixel values.'' 400)"

text \<open>\<^verbatim>\<open>range(start, stop, step)\<close> for a positive step.\<close>

function range_step :: "int \<Rightarrow> int \<Rightarrow> int \<Rightarrow> int list" where
  "range_step start stop step = (if 0 < step \<and> start < stop then start # range_step (start + step) stop step else [])"
  by pat_completeness auto
termination by (relation "measure (\<lambda>(start, stop, step). nat (stop - start))") auto

declare range_step.simps [simp del]

definition tile_boxes :: "pyobj \<Rightarrow> pyobj \<Rightarrow> pyobj \<Rightarrow> pyobj \<Rightarrow> pyobj \<Rightarrow> TileBox list res" where
  "tile_boxes width height tile_width tile_height overlap =
     rbind (tile_layout width height tile_width tile_height overlap) (\<lambda>(stride_x, stride_y, _).
       case (width, height, tile_width, tile_height) of
         (PInt w, PInt h, PInt tw, PInt th) \<Rightarrow>
           Inr (concat (map (\<lambda>y. map (\<lambda>x.
             \<lparr>tb_x = x, tb_y = y, tb_width = min tw (w - x), tb_height = min th (h - y)\<rparr>) (range_step 0 w stride_x))
               (range_step 0 h stride_y)))
       | _ \<Rightarrow> Inr [])"

section \<open>Page selection and pixel limits\<close>

record PdfProcessor =
  max_pages_per_render :: int
  max_page_pixels :: int
  max_render_pixels :: int
  fallback_dpi :: int
  pp_tile_width :: int
  pp_tile_height :: int
  pp_tile_overlap :: int
  max_tiles_per_page :: int
  max_document_pages :: int

definition processor_init :: "PdfProcessor \<Rightarrow> PdfProcessor res" where
  "processor_init P =
     (if \<not> (1 \<le> max_pages_per_render P \<and> max_pages_per_render P \<le> 64)
      then Inl (ValueError ''max_pages_per_render must be between 1 and 64'')
      else if max_page_pixels P \<le> 0 \<or> max_render_pixels P \<le> 0 then Inl (ValueError ''pixel limits must be positive'')
      else if \<not> (72 \<le> fallback_dpi P \<and> fallback_dpi P \<le> 1200) then Inl (ValueError ''fallback_dpi must be between 72 and 1200'')
      else if max_tiles_per_page P \<le> 0 then Inl (ValueError ''max_tiles_per_page must be positive'')
      else rbind (tile_boxes (PInt 1) (PInt 1) (PInt (pp_tile_width P)) (PInt (pp_tile_height P)) (PInt (pp_tile_overlap P)))
             (\<lambda>_. Inr P))"

text \<open>The number an object compares equal to, for the duplicate test of a set.\<close>

definition number_key :: "pyobj \<Rightarrow> pyobj" where
  "number_key p =
     (case p of
        PBool b \<Rightarrow> PInt (if b then 1 else 0)
      | PFloat (Fin q) \<Rightarrow> if of_int \<lfloor>q\<rfloor> = q then PInt \<lfloor>q\<rfloor> else p
      | _ \<Rightarrow> p)"

definition validate_page_selection :: "PdfProcessor \<Rightarrow> pyobj list \<Rightarrow> int \<Rightarrow> pyobj list res" where
  "validate_page_selection P selected page_count =
     (if selected = [] \<or> max_pages_per_render P < int (length selected)
      then app_fail INVALID_INPUT (''Select between 1 and '' @ map char_of (int_str (max_pages_per_render P)) @ '' pages per render request.'') 400
      else if card (number_key ` set selected) \<noteq> length selected
      then app_fail INVALID_INPUT ''Page selection must not contain duplicates.'' 400
      else if list_ex (\<lambda>p. case p of PInt n \<Rightarrow> n < 1 \<or> page_count < n | _ \<Rightarrow> True) selected
      then app_fail INVALID_INPUT ''Page numbers are one-based and must exist in the PDF.'' 400
      else Inr selected)"

record PageInspection =
  pi_page_number :: int
  width_points :: pyfloat
  height_points :: pyfloat
  pi_rotation :: int
  pi_classification :: pystr
  image_count :: int
  has_text :: bool
  has_drawings :: bool
  crop_applied :: bool
  dominant_image_index :: "int option"
  dominant_extension :: "pystr option"
  dominant_coverage :: "pyfloat option"
  native_width :: "int option"
  native_height :: "int option"
  effective_dpi_x :: "pyfloat option"
  effective_dpi_y :: "pyfloat option"
  direct_jpeg_eligible :: bool
  native_raster_extract_eligible :: bool

type_synonym render_grid = "int \<times> int \<times> pyfloat \<times> pyfloat \<times> pystr"

definition py_round :: "pyfloat \<Rightarrow> int res" where
  "py_round x =
     (case x of
        Fin q \<Rightarrow> Inr (round_half_even q)
      | NaN \<Rightarrow> Inl (ValueError ''cannot convert float NaN to integer'')
      | _ \<Rightarrow> Inl (OverflowError ''cannot convert float infinity to integer''))"

definition true_divide :: "pyfloat \<Rightarrow> pyfloat \<Rightarrow> pyfloat res" where
  "true_divide a b =
     (case (a, b) of
        (_, Fin y) \<Rightarrow>
          if y = 0 then Inl (ZeroDivisionError ''float division by zero'')
          else (case a of
                  PInf \<Rightarrow> Inr (if 0 < y then PInf else NInf)
                | NInf \<Rightarrow> Inr (if 0 < y then NInf else PInf)
                | _ \<Rightarrow> Inr (fdiv a b))
      | _ \<Rightarrow> Inr (fdiv a b))"

definition int_to_float :: "int \<Rightarrow> pyfloat res" where
  "int_to_float i =
     (case fl_round (of_int i) of Fin q \<Rightarrow> Inr (Fin q) | _ \<Rightarrow> Inl (OverflowError ''int too large to convert to float''))"

text \<open>\<^verbatim>\<open>dpi or pixels * 72.0 / points\<close>.\<close>

definition grid_dpi :: "pyfloat option \<Rightarrow> int \<Rightarrow> pyfloat \<Rightarrow> pyfloat res" where
  "grid_dpi dpi pixels points =
     (case dpi of
        Some d \<Rightarrow> if d = Fin 0 then rbind (int_to_float pixels) (\<lambda>p. true_divide (fmul p (Fin 72)) points) else Inr d
      | None \<Rightarrow> rbind (int_to_float pixels) (\<lambda>p. true_divide (fmul p (Fin 72)) points))"

definition fallback_pixels :: "PdfProcessor \<Rightarrow> pyfloat \<Rightarrow> int res" where
  "fallback_pixels P points =
     rbind (true_divide (fmul points (Fin (of_int (fallback_dpi P)))) (Fin 72)) (\<lambda>x. rbind (py_round x) (\<lambda>n. Inr (max 1 n)))"

definition RASTER_CLASSES :: "pystr list" where
  "RASTER_CLASSES = [codes ''single_raster_jpeg'', codes ''single_raster_other'', codes ''raster_with_overlay'']"

definition fallback_grid :: "PdfProcessor \<Rightarrow> PageInspection \<Rightarrow> render_grid res" where
  "fallback_grid P ins =
     rbind (fallback_pixels P (width_points ins)) (\<lambda>w. rbind (fallback_pixels P (height_points ins)) (\<lambda>h.
       Inr (w, h, Fin (of_int (fallback_dpi P)), Fin (of_int (fallback_dpi P)), codes ''fallback_400_dpi'')))"

definition target_grid :: "PdfProcessor \<Rightarrow> PageInspection \<Rightarrow> render_grid res" where
  "target_grid P ins =
     (case (native_width ins, native_height ins) of
        (Some w, Some h) \<Rightarrow>
          if pi_classification ins \<in> set RASTER_CLASSES \<and> w \<noteq> 0 \<and> h \<noteq> 0
          then rbind (grid_dpi (effective_dpi_x ins) w (width_points ins)) (\<lambda>dx.
                 rbind (grid_dpi (effective_dpi_y ins) h (height_points ins)) (\<lambda>dy.
                   Inr (w, h, dx, dy, codes ''embedded_scan'')))
          else fallback_grid P ins
      | _ \<Rightarrow> fallback_grid P ins)"

fun grid_loop :: "PdfProcessor \<Rightarrow> int \<Rightarrow> (int \<times> render_grid) list \<Rightarrow> (int \<times> PageInspection) list \<Rightarrow> (int \<times> (int \<times> render_grid) list) res" where
  "grid_loop P pixel_sum grids [] = Inr (pixel_sum, grids)"
| "grid_loop P pixel_sum grids ((n, ins) # rest) =
     rbind (target_grid P ins) (\<lambda>grid.
       let pixels = fst grid * fst (snd grid)
       in if max_page_pixels P < pixels
          then app_fail PDF_PROCESSING_FAILED ''A rendered page would exceed the configured pixel limit.'' 422
          else grid_loop P (pixel_sum + pixels) (grids @ [(n, grid)]) rest)"

definition render_grids :: "PdfProcessor \<Rightarrow> (int \<times> PageInspection) list \<Rightarrow> (int \<times> render_grid) list res" where
  "render_grids P inspections =
     rbind (grid_loop P 0 [] inspections) (\<lambda>(pixel_sum, grids).
       if max_render_pixels P < pixel_sum
       then app_fail PDF_PROCESSING_FAILED ''The render request would exceed the configured total pixel limit.'' 422
       else Inr grids)"

section \<open>Ranges\<close>

lemma range_step_set: "0 < s \<Longrightarrow> set (range_step a b s) = {x. a \<le> x \<and> x < b \<and> s dvd (x - a)}"
proof (induction a b s rule: range_step.induct)
  case (1 a b s)
  show ?case
  proof (cases "a < b")
    case True
    have "a \<le> x \<and> s dvd (x - a) \<longleftrightarrow> x = a \<or> a + s \<le> x \<and> s dvd (x - (a + s))" for x
    proof -
      have "s dvd (x - (a + s)) \<longleftrightarrow> s dvd (x - a)" using dvd_add_left_iff [of s s "x - (a + s)"] by (simp add: algebra_simps)
      moreover have "a + s \<le> x" if "a < x" "s dvd (x - a)" using zdvd_imp_le [OF that(2)] that(1) by simp
      ultimately show ?thesis using 1(2) by auto
    qed
    then have "{x. a \<le> x \<and> x < b \<and> s dvd (x - a)} = insert a {x. a + s \<le> x \<and> x < b \<and> s dvd (x - (a + s))}"
      using True by auto
    with 1 True show ?thesis by (subst range_step.simps) simp
  next
    case False
    then show ?thesis by (subst range_step.simps) auto
  qed
qed

lemma range_step_sorted: "0 < s \<Longrightarrow> sorted_wrt (<) (range_step a b s)"
proof (induction a b s rule: range_step.induct)
  case (1 a b s)
  then show ?case by (subst range_step.simps) (auto simp: range_step_set)
qed

lemma range_step_length:
  "0 < s \<Longrightarrow> int (length (range_step a b s)) = (if a < b then (b - a - 1) div s + 1 else 0)"
proof (induction a b s rule: range_step.induct)
  case (1 a b s)
  show ?case
  proof (cases "a < b")
    case True
    have "(b - a - 1) div s = (if a + s < b then (b - (a + s) - 1) div s + 1 else 0)"
    proof (cases "a + s < b")
      case True
      have "b - a - 1 = (b - (a + s) - 1) + s" by simp
      then show ?thesis using True 1(2) by (metis div_add_self2 order_less_irrefl)
    qed (use 1(2) \<open>a < b\<close> in \<open>simp add: div_pos_pos_trivial\<close>)
    with 1 True show ?thesis by (subst range_step.simps) simp
  next
    case False
    then show ?thesis by (subst range_step.simps) simp
  qed
qed

section \<open>The tiling\<close>

lemma tile_layout_Inr:
  assumes "tile_layout width height tile_width tile_height overlap = Inr (sx, sy, n)"
  obtains w h tw th ov where "width = PInt w" "height = PInt h" "tile_width = PInt tw" "tile_height = PInt th" "overlap = PInt ov"
    "0 < w" "0 < h" "0 \<le> ov" "ov < tw" "ov < th" "tw \<le> HARD_MAX_TILE_DIMENSION" "th \<le> HARD_MAX_TILE_DIMENSION"
    "sx = tw - ov" "sy = th - ov" "n = ((w - 1) div (tw - ov) + 1) * ((h - 1) div (th - ov) + 1)"
  using assms by (auto simp: tile_layout_def Let_def split: pyobj.splits if_splits)

definition covers :: "TileBox \<Rightarrow> int \<Rightarrow> int \<Rightarrow> bool" where
  "covers b px py = (tb_x b \<le> px \<and> px < tb_x b + tb_width b \<and> tb_y b \<le> py \<and> py < tb_y b + tb_height b)"

lemma range_covers:
  assumes "0 < s" "0 \<le> p" "p < n"
  obtains x where "x \<in> set (range_step 0 n s)" "x \<le> p" "p < x + s"
proof
  show "(p div s) * s \<in> set (range_step 0 n s)"
    using assms by (simp add: range_step_set pos_imp_zdiv_nonneg_iff)
      (metis div_mult_mod_eq le_add_same_cancel1 order_le_less_trans pos_mod_sign)
  show "(p div s) * s \<le> p" "p < (p div s) * s + s"
    using assms(1) by (metis div_mult_mod_eq le_add_same_cancel1 pos_mod_sign, metis add_less_cancel_left div_mult_mod_eq pos_mod_bound)
qed

lemma sorted_product:
  assumes "sorted_wrt (<) (ys :: int list)" "sorted_wrt (<) (xs :: int list)"
  shows "sorted_wrt (\<lambda>(y, x) (y', x'). y < y' \<or> y = y' \<and> x < x') (concat (map (\<lambda>y. map (Pair y) xs) ys))"
  using assms by (induction ys) (auto simp: sorted_wrt_append sorted_wrt_map)

definition box_at :: "int \<Rightarrow> int \<Rightarrow> int \<Rightarrow> int \<Rightarrow> int \<Rightarrow> int \<Rightarrow> TileBox" where
  "box_at w h tw th y x = \<lparr>tb_x = x, tb_y = y, tb_width = min tw (w - x), tb_height = min th (h - y)\<rparr>"

lemma tile_boxes_Inr:
  assumes "tile_boxes (PInt w) (PInt h) (PInt tw) (PInt th) (PInt ov) = Inr boxes"
  shows "0 < w" "0 < h" "0 \<le> ov" "ov < tw" "ov < th"
    "tile_layout (PInt w) (PInt h) (PInt tw) (PInt th) (PInt ov) =
       Inr (tw - ov, th - ov, ((w - 1) div (tw - ov) + 1) * ((h - 1) div (th - ov) + 1))"
    "boxes = concat (map (\<lambda>y. map (box_at w h tw th y) (range_step 0 w (tw - ov))) (range_step 0 h (th - ov)))"
proof -
  from assms obtain sx sy n where lay: "tile_layout (PInt w) (PInt h) (PInt tw) (PInt th) (PInt ov) = Inr (sx, sy, n)"
    by (auto simp: tile_boxes_def rbind_eq_Inr)
  then have c: "0 < w" "0 < h" "0 \<le> ov" "ov < tw" "ov < th" "sx = tw - ov" "sy = th - ov"
    "n = ((w - 1) div (tw - ov) + 1) * ((h - 1) div (th - ov) + 1)"
    by (auto elim!: tile_layout_Inr)
  then show "0 < w" "0 < h" "0 \<le> ov" "ov < tw" "ov < th"
    "tile_layout (PInt w) (PInt h) (PInt tw) (PInt th) (PInt ov) =
       Inr (tw - ov, th - ov, ((w - 1) div (tw - ov) + 1) * ((h - 1) div (th - ov) + 1))"
    using lay by simp_all
  show "boxes = concat (map (\<lambda>y. map (box_at w h tw th y) (range_step 0 w (tw - ov))) (range_step 0 h (th - ov)))"
    using assms lay c by (simp add: tile_boxes_def box_at_def [abs_def])
qed

lemma tile_boxes_sorted:
  assumes "tile_boxes (PInt w) (PInt h) (PInt tw) (PInt th) (PInt ov) = Inr boxes"
  shows "sorted_wrt (\<lambda>a b. tb_y a < tb_y b \<or> tb_y a = tb_y b \<and> tb_x a < tb_x b) boxes"
proof -
  note t = tile_boxes_Inr [OF assms]
  have s: "0 < tw - ov" "0 < th - ov" using t(4,5) by simp_all
  have flat: "boxes = map (\<lambda>(y, x). box_at w h tw th y x)
      (concat (map (\<lambda>y. map (Pair y) (range_step 0 w (tw - ov))) (range_step 0 h (th - ov))))"
    unfolding t(7) by (simp add: map_concat comp_def)
  show ?thesis
    using sorted_product [OF range_step_sorted [OF s(2), of 0 h] range_step_sorted [OF s(1), of 0 w]]
    unfolding flat sorted_wrt_map by (rule sorted_wrt_mono_rel [rotated]) (auto simp: box_at_def)
qed

lemma tile_boxes_within:
  assumes "tile_boxes (PInt w) (PInt h) (PInt tw) (PInt th) (PInt ov) = Inr boxes" and "b \<in> set boxes"
  shows "0 \<le> tb_x b \<and> 0 < tb_width b \<and> tb_width b \<le> tw \<and> tb_x b + tb_width b \<le> w
      \<and> 0 \<le> tb_y b \<and> 0 < tb_height b \<and> tb_height b \<le> th \<and> tb_y b + tb_height b \<le> h"
proof -
  note t = tile_boxes_Inr [OF assms(1)]
  from assms(2) obtain y x where yx: "y \<in> set (range_step 0 h (th - ov))" "x \<in> set (range_step 0 w (tw - ov))"
    "b = box_at w h tw th y x" unfolding t(7) by auto
  have "0 \<le> x \<and> x < w \<and> 0 \<le> y \<and> y < h" using yx(1,2) t(4,5) by (simp add: range_step_set)
  with yx(3) t show ?thesis by (auto simp: box_at_def)
qed

text \<open>
  C9. An accepted tile geometry tiles the page: there are exactly as many boxes as the layout counts, in strict row-major
  order, each is a nonempty rectangle within the page and within the tile size, every pixel of the page lies in a
  box, and a box that is not in the first column overlaps its left neighbour by the configured overlap, or by what is left of the page.
\<close>

theorem tiles_partition_page:
  assumes "tile_boxes (PInt w) (PInt h) (PInt tw) (PInt th) (PInt ov) = Inr boxes"
  shows "tile_layout (PInt w) (PInt h) (PInt tw) (PInt th) (PInt ov) = Inr (tw - ov, th - ov, int (length boxes))
    \<and> sorted_wrt (\<lambda>a b. tb_y a < tb_y b \<or> tb_y a = tb_y b \<and> tb_x a < tb_x b) boxes
    \<and> (\<forall>b\<in>set boxes. 0 \<le> tb_x b \<and> 0 < tb_width b \<and> tb_width b \<le> tw \<and> tb_x b + tb_width b \<le> w
         \<and> 0 \<le> tb_y b \<and> 0 < tb_height b \<and> tb_height b \<le> th \<and> tb_y b + tb_height b \<le> h)
    \<and> (\<forall>px py. 0 \<le> px \<and> px < w \<and> 0 \<le> py \<and> py < h \<longrightarrow> (\<exists>b\<in>set boxes. covers b px py))
    \<and> (\<forall>b\<in>set boxes. 0 < tb_x b \<longrightarrow> (\<exists>a\<in>set boxes. tb_y a = tb_y b \<and> tb_x a < tb_x b
         \<and> tb_x a + tb_width a - tb_x b = min ov (w - tb_x b)))"
proof -
  note t = tile_boxes_Inr [OF assms]
  let ?sx = "tw - ov" and ?sy = "th - ov" and ?box = "box_at w h tw th"
  let ?xs = "range_step 0 w ?sx" and ?ys = "range_step 0 h ?sy"
  have s: "0 < ?sx" "0 < ?sy" using t(4,5) by simp_all
  have mem: "b \<in> set boxes \<longleftrightarrow> (\<exists>y\<in>set ?ys. \<exists>x\<in>set ?xs. b = ?box y x)" for b unfolding t(7) by auto
  have "length boxes = length ?xs * length ?ys" unfolding t(7) by (simp add: length_concat comp_def sum_list_triv)
  then have len: "int (length boxes) = ((w - 1) div ?sx + 1) * ((h - 1) div ?sy + 1)"
    using t(1,2) s by (simp add: range_step_length)
  have cov: "\<exists>b\<in>set boxes. covers b px py" if p: "0 \<le> px" "px < w" "0 \<le> py" "py < h" for px py
  proof -
    obtain x where x: "x \<in> set ?xs" "x \<le> px" "px < x + ?sx" using range_covers [OF s(1) p(1,2)] .
    obtain y where y: "y \<in> set ?ys" "y \<le> py" "py < y + ?sy" using range_covers [OF s(2) p(3,4)] .
    have "covers (?box y x) px py" using x y p t by (auto simp: covers_def box_at_def)
    with x y show ?thesis using mem by blast
  qed
  have nb: "\<exists>a\<in>set boxes. tb_y a = tb_y b \<and> tb_x a < tb_x b \<and> tb_x a + tb_width a - tb_x b = min ov (w - tb_x b)"
    if b: "b \<in> set boxes" "0 < tb_x b" for b
  proof -
    from b(1) obtain y x where yx: "y \<in> set ?ys" "x \<in> set ?xs" "b = ?box y x" using mem by blast
    have x: "0 < x" "x < w" "?sx dvd x" using yx b(2) s by (simp_all add: range_step_set box_at_def)
    then have "x - ?sx \<in> set ?xs" using s zdvd_imp_le [of ?sx x] by (simp add: range_step_set)
    then have "?box y (x - ?sx) \<in> set boxes" using yx(1) mem by blast
    moreover have "tb_x (?box y (x - ?sx)) + tb_width (?box y (x - ?sx)) - x = min ov (w - x)" by (simp add: box_at_def)
    ultimately show ?thesis using yx(3) s by (intro bexI [of _ "?box y (x - ?sx)"]) (simp_all add: box_at_def)
  qed
  show ?thesis using t(6) len tile_boxes_sorted [OF assms] tile_boxes_within [OF assms] cov nb by simp
qed

theorem tiles_partition_page_witness:
  "\<exists>boxes. tile_boxes (PInt 2500) (PInt 1000) (PInt 2048) (PInt 2048) (PInt 128) = Inr boxes \<and> length boxes = 2
     \<and> (\<exists>b\<in>set boxes. covers b 2499 999) \<and> list_all (\<lambda>b. tb_x b + tb_width b \<le> 2500) boxes"
proof -
  let ?boxes = "[\<lparr>tb_x = 0, tb_y = 0, tb_width = 2048, tb_height = 1000\<rparr>, \<lparr>tb_x = 1920, tb_y = 0, tb_width = 580, tb_height = 1000\<rparr>]"
  have e: "tile_boxes (PInt 2500) (PInt 1000) (PInt 2048) (PInt 2048) (PInt 128) = Inr ?boxes" by code_simp
  have "\<exists>b\<in>set ?boxes. covers b 2499 999" using tiles_partition_page [OF e] by fastforce
  moreover have "list_all (\<lambda>b. tb_x b + tb_width b \<le> 2500) ?boxes" using tiles_partition_page [OF e] by simp
  ultimately show ?thesis using e by (intro exI [of _ ?boxes]) simp
qed

section \<open>Pixel limits\<close>

definition grid_pixels :: "int \<times> render_grid \<Rightarrow> int" where
  "grid_pixels g = fst (snd g) * fst (snd (snd g))"

lemma grid_loop_Inr:
  assumes "grid_loop P pixel_sum grids inspections = Inr (t, gs)"
  shows "\<exists>new. gs = grids @ new \<and> map fst new = map fst inspections \<and> t = pixel_sum + sum_list (map grid_pixels new)
    \<and> list_all (\<lambda>g. grid_pixels g \<le> max_page_pixels P) new"
  using assms
proof (induction inspections arbitrary: pixel_sum grids)
  case (Cons x rest)
  obtain n ins where x: "x = (n, ins)" by fastforce
  with Cons.prems obtain grid where g: "\<not> max_page_pixels P < fst grid * fst (snd grid)"
    "grid_loop P (pixel_sum + fst grid * fst (snd grid)) (grids @ [(n, grid)]) rest = Inr (t, gs)"
    by (auto simp: rbind_eq_Inr Let_def split: if_splits)
  from Cons.IH [OF g(2)] obtain new where "gs = (grids @ [(n, grid)]) @ new" "map fst new = map fst rest"
    "t = pixel_sum + fst grid * fst (snd grid) + sum_list (map grid_pixels new)"
    "list_all (\<lambda>g. grid_pixels g \<le> max_page_pixels P) new" by blast
  with g(1) x show ?case by (intro exI [of _ "(n, grid) # new"]) (simp add: grid_pixels_def [of "(n, grid)"])
qed simp

theorem render_grids_within_limits:
  assumes "render_grids P inspections = Inr grids"
  shows "map fst grids = map fst inspections \<and> list_all (\<lambda>g. grid_pixels g \<le> max_page_pixels P) grids
    \<and> sum_list (map grid_pixels grids) \<le> max_render_pixels P"
  using assms grid_loop_Inr [of P 0 "[]" inspections]
  by (auto simp: render_grids_def rbind_eq_Inr split: if_splits prod.splits)

end
