(* ===== verification/Nplg_Pdf_Manifest.thy ===== *)
theory Nplg_Pdf_Manifest
  imports Nplg_Pdf_Geometry Nplg_Json_Text
begin

text \<open>
  Render and tile manifests of \<^verbatim>\<open>src/nplg_mcp/pdf.py\<close> and the deterministic names of \<^verbatim>\<open>src/nplg_mcp/pdf_identity.py\<close>: the
  records, their JSON form, reading a cached manifest back from the store and checking it against its request
  and the digests of its assets. What the store shows of a cached file is an argument, as is the printing of floats.
\<close>

section \<open>Records\<close>

record RenderedPage =
  rp_page_number :: int
  rp_width :: int
  rp_height :: int
  rp_rotation :: int
  rp_classification :: pystr
  rp_effective_dpi_x :: pyfloat
  rp_effective_dpi_y :: pyfloat
  rp_resolution_source :: pystr
  rp_conversion_path :: pystr
  rp_relative_path :: pystr
  rp_sha256 :: pystr
  rp_media_type :: pystr
  rp_resize_applied :: bool
  rp_pixel_dimensions_preserved :: bool
  rp_renderer_resampling :: pystr
  rp_reencoded :: bool
  rp_lossy_conversion :: bool

record RenderManifest =
  rm_render_id :: pystr
  rm_source_sha256 :: pystr
  rm_renderer_version :: pystr
  rm_mode :: pystr
  rm_pages :: "RenderedPage list"
  rm_manifest_relative_path :: pystr
  rm_manifest_schema_version :: pystr
  rm_render_pipeline_version :: pystr
  rm_classification_algorithm_version :: pystr
  rm_tile_pipeline_version :: pystr

record RenderedTile =
  rt_tile_id :: pystr
  rt_page_number :: int
  rt_x :: int
  rt_y :: int
  rt_width :: int
  rt_height :: int
  rt_full_page_width :: int
  rt_full_page_height :: int
  rt_overlap :: int
  rt_relative_path :: pystr
  rt_sha256 :: pystr
  rt_media_type :: pystr
  rt_resize_applied :: bool
  rt_pixel_dimensions_preserved :: bool
  rt_renderer_resampling :: pystr
  rt_reencoded :: bool
  rt_lossy_conversion :: bool

record TileManifest =
  tm_render_id :: pystr
  tm_page_number :: int
  tm_page_sha256 :: pystr
  tm_tile_width :: int
  tm_tile_height :: int
  tm_overlap :: int
  tm_tiles :: "RenderedTile list"
  tm_manifest_relative_path :: pystr
  tm_manifest_schema_version :: pystr
  tm_render_pipeline_version :: pystr
  tm_classification_algorithm_version :: pystr
  tm_tile_pipeline_version :: pystr

section \<open>Manifest fields\<close>

type_synonym members = "(pystr \<times> json) list"

definition json_field :: "members \<Rightarrow> string \<Rightarrow> json res" where
  "json_field payload name = (case map_of payload (codes name) of None \<Rightarrow> Inl (KeyError name) | Some v \<Rightarrow> Inr v)"

definition field_error :: "string \<Rightarrow> string \<Rightarrow> 'a res" where
  "field_error name what = Inl (TypeError (''manifest field '' @ name @ '' must be '' @ what))"

definition string_field :: "members \<Rightarrow> string \<Rightarrow> pystr res" where
  "string_field payload name =
     rbind (json_field payload name) (\<lambda>v. case v of JStr s \<Rightarrow> Inr s | _ \<Rightarrow> field_error name ''a string'')"

definition integer_field :: "members \<Rightarrow> string \<Rightarrow> int res" where
  "integer_field payload name =
     rbind (json_field payload name) (\<lambda>v. case v of JInt i \<Rightarrow> Inr i | _ \<Rightarrow> field_error name ''an integer'')"

definition boolean_field :: "members \<Rightarrow> string \<Rightarrow> bool res" where
  "boolean_field payload name =
     rbind (json_field payload name) (\<lambda>v. case v of JBool b \<Rightarrow> Inr b | _ \<Rightarrow> field_error name ''a boolean'')"

definition float_field :: "members \<Rightarrow> string \<Rightarrow> pyfloat res" where
  "float_field payload name =
     rbind (json_field payload name) (\<lambda>v. case v of
       JInt i \<Rightarrow> int_to_float i | JFloat x \<Rightarrow> Inr x | _ \<Rightarrow> field_error name ''numeric'')"

definition list_field :: "members \<Rightarrow> string \<Rightarrow> json list res" where
  "list_field payload name =
     rbind (json_field payload name) (\<lambda>v. case v of JArr js \<Rightarrow> Inr js | _ \<Rightarrow> field_error name ''an array'')"

definition closed_object :: "string \<Rightarrow> string list \<Rightarrow> json \<Rightarrow> members res" where
  "closed_object context_name names value =
     rbind (require_json_object context_name (py_of_json value)) (\<lambda>payload.
       if set (map fst payload) \<noteq> set (map codes names)
       then Inl (TypeError (context_name @ '' has unknown or missing fields'')) else Inr payload)"

fun collect_results :: "('a \<Rightarrow> 'b res) \<Rightarrow> 'a list \<Rightarrow> 'b list res" where
  "collect_results f [] = Inr []"
| "collect_results f (x # xs) = rbind (f x) (\<lambda>y. rbind (collect_results f xs) (\<lambda>ys. Inr (y # ys)))"

definition PAGE_FIELDS :: "string list" where
  "PAGE_FIELDS =
    [''page_number'', ''width'', ''height'', ''rotation'', ''classification'', ''effective_dpi_x'',
      ''effective_dpi_y'', ''resolution_source'', ''conversion_path'', ''relative_path'', ''sha256'',
      ''media_type'', ''resize_applied'', ''pixel_dimensions_preserved'', ''renderer_resampling'', ''reencoded'',
      ''lossy_conversion'']"

definition rendered_page_from_json :: "json \<Rightarrow> RenderedPage res" where
  "rendered_page_from_json value =
     rbind (closed_object ''rendered page'' PAGE_FIELDS value) (\<lambda>payload.
     rbind (integer_field payload ''page_number'') (\<lambda>v_page_number.
     rbind (integer_field payload ''width'') (\<lambda>v_width.
     rbind (integer_field payload ''height'') (\<lambda>v_height.
     rbind (integer_field payload ''rotation'') (\<lambda>v_rotation.
     rbind (string_field payload ''classification'') (\<lambda>v_classification.
     rbind (float_field payload ''effective_dpi_x'') (\<lambda>v_effective_dpi_x.
     rbind (float_field payload ''effective_dpi_y'') (\<lambda>v_effective_dpi_y.
     rbind (string_field payload ''resolution_source'') (\<lambda>v_resolution_source.
     rbind (string_field payload ''conversion_path'') (\<lambda>v_conversion_path.
     rbind (string_field payload ''relative_path'') (\<lambda>v_relative_path.
     rbind (string_field payload ''sha256'') (\<lambda>v_sha256.
     rbind (string_field payload ''media_type'') (\<lambda>v_media_type.
     rbind (boolean_field payload ''resize_applied'') (\<lambda>v_resize_applied.
     rbind (boolean_field payload ''pixel_dimensions_preserved'') (\<lambda>v_pixel_dimensions_preserved.
     rbind (string_field payload ''renderer_resampling'') (\<lambda>v_renderer_resampling.
     rbind (boolean_field payload ''reencoded'') (\<lambda>v_reencoded.
     rbind (boolean_field payload ''lossy_conversion'') (\<lambda>v_lossy_conversion.
       Inr \<lparr>rp_page_number = v_page_number, rp_width = v_width, rp_height = v_height,
         rp_rotation = v_rotation, rp_classification = v_classification, rp_effective_dpi_x = v_effective_dpi_x,
         rp_effective_dpi_y = v_effective_dpi_y, rp_resolution_source = v_resolution_source,
         rp_conversion_path = v_conversion_path, rp_relative_path = v_relative_path, rp_sha256 = v_sha256,
         rp_media_type = v_media_type, rp_resize_applied = v_resize_applied,
         rp_pixel_dimensions_preserved = v_pixel_dimensions_preserved,
         rp_renderer_resampling = v_renderer_resampling, rp_reencoded = v_reencoded,
         rp_lossy_conversion = v_lossy_conversion\<rparr>))))))))))))))))))"

definition TILE_FIELDS :: "string list" where
  "TILE_FIELDS =
    [''tile_id'', ''page_number'', ''x'', ''y'', ''width'', ''height'', ''full_page_width'', ''full_page_height'',
      ''overlap'', ''relative_path'', ''sha256'', ''media_type'', ''resize_applied'',
      ''pixel_dimensions_preserved'', ''renderer_resampling'', ''reencoded'', ''lossy_conversion'']"

definition rendered_tile_from_json :: "json \<Rightarrow> RenderedTile res" where
  "rendered_tile_from_json value =
     rbind (closed_object ''rendered tile'' TILE_FIELDS value) (\<lambda>payload.
     rbind (string_field payload ''tile_id'') (\<lambda>v_tile_id.
     rbind (integer_field payload ''page_number'') (\<lambda>v_page_number.
     rbind (integer_field payload ''x'') (\<lambda>v_x.
     rbind (integer_field payload ''y'') (\<lambda>v_y.
     rbind (integer_field payload ''width'') (\<lambda>v_width.
     rbind (integer_field payload ''height'') (\<lambda>v_height.
     rbind (integer_field payload ''full_page_width'') (\<lambda>v_full_page_width.
     rbind (integer_field payload ''full_page_height'') (\<lambda>v_full_page_height.
     rbind (integer_field payload ''overlap'') (\<lambda>v_overlap.
     rbind (string_field payload ''relative_path'') (\<lambda>v_relative_path.
     rbind (string_field payload ''sha256'') (\<lambda>v_sha256.
     rbind (string_field payload ''media_type'') (\<lambda>v_media_type.
     rbind (boolean_field payload ''resize_applied'') (\<lambda>v_resize_applied.
     rbind (boolean_field payload ''pixel_dimensions_preserved'') (\<lambda>v_pixel_dimensions_preserved.
     rbind (string_field payload ''renderer_resampling'') (\<lambda>v_renderer_resampling.
     rbind (boolean_field payload ''reencoded'') (\<lambda>v_reencoded.
     rbind (boolean_field payload ''lossy_conversion'') (\<lambda>v_lossy_conversion.
       Inr \<lparr>rt_tile_id = v_tile_id, rt_page_number = v_page_number, rt_x = v_x, rt_y = v_y,
         rt_width = v_width, rt_height = v_height, rt_full_page_width = v_full_page_width,
         rt_full_page_height = v_full_page_height, rt_overlap = v_overlap, rt_relative_path = v_relative_path,
         rt_sha256 = v_sha256, rt_media_type = v_media_type, rt_resize_applied = v_resize_applied,
         rt_pixel_dimensions_preserved = v_pixel_dimensions_preserved,
         rt_renderer_resampling = v_renderer_resampling, rt_reencoded = v_reencoded,
         rt_lossy_conversion = v_lossy_conversion\<rparr>))))))))))))))))))"

section \<open>The JSON form\<close>

text \<open>\<^verbatim>\<open>dataclasses.asdict\<close> of the records: tuples stay tuples.\<close>

definition page_asdict :: "RenderedPage \<Rightarrow> pyval" where
  "page_asdict p = VDict
     [(VStr (codes ''page_number''), VInt (rp_page_number p)), (VStr (codes ''width''), VInt (rp_width p)),
      (VStr (codes ''height''), VInt (rp_height p)), (VStr (codes ''rotation''), VInt (rp_rotation p)),
      (VStr (codes ''classification''), VStr (rp_classification p)),
      (VStr (codes ''effective_dpi_x''), VFloat (rp_effective_dpi_x p)),
      (VStr (codes ''effective_dpi_y''), VFloat (rp_effective_dpi_y p)),
      (VStr (codes ''resolution_source''), VStr (rp_resolution_source p)),
      (VStr (codes ''conversion_path''), VStr (rp_conversion_path p)),
      (VStr (codes ''relative_path''), VStr (rp_relative_path p)),
      (VStr (codes ''sha256''), VStr (rp_sha256 p)), (VStr (codes ''media_type''), VStr (rp_media_type p)),
      (VStr (codes ''resize_applied''), VBool (rp_resize_applied p)),
      (VStr (codes ''pixel_dimensions_preserved''), VBool (rp_pixel_dimensions_preserved p)),
      (VStr (codes ''renderer_resampling''), VStr (rp_renderer_resampling p)),
      (VStr (codes ''reencoded''), VBool (rp_reencoded p)),
      (VStr (codes ''lossy_conversion''), VBool (rp_lossy_conversion p))]"

definition manifest_asdict :: "RenderManifest \<Rightarrow> pyval" where
  "manifest_asdict m = VDict
     [(VStr (codes ''render_id''), VStr (rm_render_id m)),
      (VStr (codes ''source_sha256''), VStr (rm_source_sha256 m)),
      (VStr (codes ''renderer_version''), VStr (rm_renderer_version m)),
      (VStr (codes ''mode''), VStr (rm_mode m)),
      (VStr (codes ''pages''), VTuple (map page_asdict (rm_pages m))),
      (VStr (codes ''manifest_relative_path''), VStr (rm_manifest_relative_path m)),
      (VStr (codes ''manifest_schema_version''), VStr (rm_manifest_schema_version m)),
      (VStr (codes ''render_pipeline_version''), VStr (rm_render_pipeline_version m)),
      (VStr (codes ''classification_algorithm_version''), VStr (rm_classification_algorithm_version m)),
      (VStr (codes ''tile_pipeline_version''), VStr (rm_tile_pipeline_version m))]"

definition tile_asdict :: "RenderedTile \<Rightarrow> pyval" where
  "tile_asdict p = VDict
     [(VStr (codes ''tile_id''), VStr (rt_tile_id p)), (VStr (codes ''page_number''), VInt (rt_page_number p)),
      (VStr (codes ''x''), VInt (rt_x p)), (VStr (codes ''y''), VInt (rt_y p)),
      (VStr (codes ''width''), VInt (rt_width p)), (VStr (codes ''height''), VInt (rt_height p)),
      (VStr (codes ''full_page_width''), VInt (rt_full_page_width p)),
      (VStr (codes ''full_page_height''), VInt (rt_full_page_height p)),
      (VStr (codes ''overlap''), VInt (rt_overlap p)),
      (VStr (codes ''relative_path''), VStr (rt_relative_path p)),
      (VStr (codes ''sha256''), VStr (rt_sha256 p)), (VStr (codes ''media_type''), VStr (rt_media_type p)),
      (VStr (codes ''resize_applied''), VBool (rt_resize_applied p)),
      (VStr (codes ''pixel_dimensions_preserved''), VBool (rt_pixel_dimensions_preserved p)),
      (VStr (codes ''renderer_resampling''), VStr (rt_renderer_resampling p)),
      (VStr (codes ''reencoded''), VBool (rt_reencoded p)),
      (VStr (codes ''lossy_conversion''), VBool (rt_lossy_conversion p))]"

definition tile_manifest_asdict :: "TileManifest \<Rightarrow> pyval" where
  "tile_manifest_asdict m = VDict
     [(VStr (codes ''render_id''), VStr (tm_render_id m)),
      (VStr (codes ''page_number''), VInt (tm_page_number m)),
      (VStr (codes ''page_sha256''), VStr (tm_page_sha256 m)),
      (VStr (codes ''tile_width''), VInt (tm_tile_width m)),
      (VStr (codes ''tile_height''), VInt (tm_tile_height m)), (VStr (codes ''overlap''), VInt (tm_overlap m)),
      (VStr (codes ''tiles''), VTuple (map tile_asdict (tm_tiles m))),
      (VStr (codes ''manifest_relative_path''), VStr (tm_manifest_relative_path m)),
      (VStr (codes ''manifest_schema_version''), VStr (tm_manifest_schema_version m)),
      (VStr (codes ''render_pipeline_version''), VStr (tm_render_pipeline_version m)),
      (VStr (codes ''classification_algorithm_version''), VStr (tm_classification_algorithm_version m)),
      (VStr (codes ''tile_pipeline_version''), VStr (tm_tile_pipeline_version m))]"

section \<open>Reading a render manifest\<close>

definition manifest_invalid :: "'a res" where
  "manifest_invalid = app_fail INTERNAL_ERROR ''The cached render manifest is invalid.'' 500"

fun field_failure :: "pyexc \<Rightarrow> bool" where
  "field_failure (KeyError m) = True"
| "field_failure (TypeError m) = True"
| "field_failure (ValueError m) = True"
| "field_failure _ = False"

fun asset_failure :: "pyexc \<Rightarrow> bool" where
  "asset_failure (OSError m) = True"
| "asset_failure (TypeError m) = True"
| "asset_failure (ValueError m) = True"
| "asset_failure _ = False"

text \<open>A handler that turns the exceptions it names into one application error.\<close>

definition handled :: "(pyexc \<Rightarrow> bool) \<Rightarrow> 'a res \<Rightarrow> 'a res \<Rightarrow> 'a res" where
  "handled caught failure r = (case r of Inl e \<Rightarrow> if caught e then failure else Inl e | Inr v \<Rightarrow> Inr v)"

definition MANIFEST_FIELDS :: "string list" where
  "MANIFEST_FIELDS =
    [''render_id'', ''source_sha256'', ''renderer_version'', ''mode'', ''pages'', ''manifest_relative_path'',
     ''manifest_schema_version'', ''render_pipeline_version'', ''classification_algorithm_version'', ''tile_pipeline_version'']"

definition manifest_fields :: "members \<Rightarrow> RenderManifest res" where
  "manifest_fields payload =
     rbind (closed_object ''render manifest'' MANIFEST_FIELDS (JObj payload)) (\<lambda>payload.
     rbind (list_field payload ''pages'') (\<lambda>page_values.
     rbind (collect_results rendered_page_from_json page_values) (\<lambda>v_pages.
     rbind (string_field payload ''render_id'') (\<lambda>v_render_id.
     rbind (string_field payload ''source_sha256'') (\<lambda>v_source_sha256.
     rbind (string_field payload ''renderer_version'') (\<lambda>v_renderer_version.
     rbind (string_field payload ''mode'') (\<lambda>v_mode.
     rbind (string_field payload ''manifest_relative_path'') (\<lambda>v_path.
     rbind (string_field payload ''manifest_schema_version'') (\<lambda>v_schema.
     rbind (string_field payload ''render_pipeline_version'') (\<lambda>v_render.
     rbind (string_field payload ''classification_algorithm_version'') (\<lambda>v_classification.
     rbind (string_field payload ''tile_pipeline_version'') (\<lambda>v_tile.
       Inr \<lparr>rm_render_id = v_render_id, rm_source_sha256 = v_source_sha256, rm_renderer_version = v_renderer_version,
         rm_mode = v_mode, rm_pages = v_pages, rm_manifest_relative_path = v_path, rm_manifest_schema_version = v_schema,
         rm_render_pipeline_version = v_render, rm_classification_algorithm_version = v_classification,
         rm_tile_pipeline_version = v_tile\<rparr>))))))))))))"

definition manifest_from_dict :: "members \<Rightarrow> RenderManifest res" where
  "manifest_from_dict payload = handled field_failure manifest_invalid (manifest_fields payload)"

text \<open>
  What the store shows of cached files: whether a path resolves, the bytes behind it, and the digest of its content.
\<close>

record asset_view =
  av_resolve :: "pystr \<Rightarrow> unit res"
  av_bytes :: "pystr \<Rightarrow> bytes res"
  av_sha256 :: "pystr \<Rightarrow> pystr res"

fun universal_newlines :: "pystr \<Rightarrow> pystr" where
  "universal_newlines [] = []"
| "universal_newlines [c] = [if c = 13 then 10 else c]"
| "universal_newlines (c # d # s) =
     (if c \<noteq> 13 then c # universal_newlines (d # s)
      else 10 # universal_newlines (if d = 10 then s else d # s))"

definition read_text :: "asset_view \<Rightarrow> pystr \<Rightarrow> pystr res" where
  "read_text V path =
     rbind (av_bytes V path) (\<lambda>b. case utf8_decode b of
       None \<Rightarrow> Inl (ValueError ''UnicodeDecodeError'') | Some s \<Rightarrow> Inr (universal_newlines s))"

definition hex_text :: "nat \<Rightarrow> pystr \<Rightarrow> bool" where
  "hex_text n s = (length s = n \<and> list_all (\<lambda>c. is_digit c \<or> 97 \<le> c \<and> c \<le> 102) s)"

definition validate_render_id :: "pystr \<Rightarrow> pystr res" where
  "validate_render_id rid =
     (if \<not> (starts_with (codes ''rnd_'') rid \<and> hex_text 32 (drop 4 rid))
      then app_fail INVALID_INPUT ''Render identifier is invalid.'' 400 else Inr rid)"

text \<open>The format specifications \<^verbatim>\<open>03d\<close>, \<^verbatim>\<open>04d\<close> and \<^verbatim>\<open>06d\<close>.\<close>

definition zero_padded :: "nat \<Rightarrow> int \<Rightarrow> pystr" where
  "zero_padded n i =
     (let ds = nat_str (nat \<bar>i\<bar>); sign = (if i < 0 then [45] else []) in sign @ replicate (n - length sign - length ds) 48 @ ds)"

definition SEMANTIC_VERSION :: pystr where "SEMANTIC_VERSION = codes ''1.0.0''"

definition page_path :: "pystr \<Rightarrow> int \<Rightarrow> pystr" where
  "page_path rid n = codes ''renders/'' @ rid @ codes ''/page-'' @ zero_padded 4 n @ codes ''.jpg''"

definition manifest_path :: "pystr \<Rightarrow> pystr" where
  "manifest_path rid = codes ''renders/'' @ rid @ codes ''/manifest.json''"

fun check_pages :: "asset_view \<Rightarrow> pystr \<Rightarrow> int set \<Rightarrow> RenderedPage list \<Rightarrow> unit res" where
  "check_pages V rid seen [] = Inr ()"
| "check_pages V rid seen (p # ps) =
     (if rp_page_number p < 1 \<or> rp_page_number p \<in> seen \<or> rp_width p < 1 \<or> rp_height p < 1
         \<or> rp_relative_path p \<noteq> page_path rid (rp_page_number p) \<or> rp_media_type p \<noteq> codes ''image/jpeg''
         \<or> \<not> hex_text 64 (rp_sha256 p)
      then manifest_invalid
      else rbind (av_resolve V (rp_relative_path p)) (\<lambda>_.
        rbind (av_sha256 V (rp_relative_path p)) (\<lambda>digest.
          if digest \<noteq> rp_sha256 p
          then app_fail INTERNAL_ERROR ''A cached render asset failed integrity validation.'' 500
          else check_pages V rid (insert (rp_page_number p) seen) ps)))"

definition validate_manifest_assets :: "asset_view \<Rightarrow> pystr \<Rightarrow> RenderManifest \<Rightarrow> unit res" where
  "validate_manifest_assets V renderer m =
     (if \<not> hex_text 64 (rm_source_sha256 m) \<or> rm_renderer_version m \<noteq> renderer \<or> rm_mode m \<noteq> codes ''native''
         \<or> rm_pages m = [] \<or> rm_manifest_schema_version m \<noteq> SEMANTIC_VERSION
         \<or> rm_render_pipeline_version m \<noteq> SEMANTIC_VERSION
         \<or> rm_classification_algorithm_version m \<noteq> SEMANTIC_VERSION \<or> rm_tile_pipeline_version m \<noteq> SEMANTIC_VERSION
      then manifest_invalid
      else handled asset_failure manifest_invalid (check_pages V (rm_render_id m) {} (rm_pages m)))"

fun read_failure :: "pyexc \<Rightarrow> bool" where
  "read_failure (OSError m) = True"
| "read_failure (ValueError m) = (m = ''UnicodeDecodeError'' \<or> m = ''JSONDecodeError'')"
| "read_failure _ = False"

definition read_json_object :: "asset_view \<Rightarrow> pystr \<Rightarrow> string \<Rightarrow> members res" where
  "read_json_object V path context_name =
     rbind (read_text V path) (\<lambda>t. rbind (load_json_value no_hooks (JText t)) (require_json_object context_name))"

definition get_manifest :: "asset_view \<Rightarrow> pystr \<Rightarrow> pystr \<Rightarrow> RenderManifest res" where
  "get_manifest V renderer rid =
     rbind (validate_render_id rid) (\<lambda>rid.
       let path = manifest_path rid in
       rbind (av_resolve V path) (\<lambda>_.
         rbind (handled read_failure (app_fail INTERNAL_ERROR ''The cached render manifest could not be read.'' 500)
                  (read_json_object V path ''render manifest root'')) (\<lambda>payload.
           rbind (manifest_from_dict payload) (\<lambda>m.
             if rm_render_id m \<noteq> rid \<or> rm_manifest_relative_path m \<noteq> path
             then app_fail INTERNAL_ERROR ''The cached render manifest is not bound to its render identifier.'' 500
             else rbind (validate_manifest_assets V renderer m) (\<lambda>_. Inr m)))))"

section \<open>Tiles\<close>

record TileManifestRequest =
  tq_relative_path :: pystr
  tq_render_id :: pystr
  tq_page_number :: int
  tq_tile_width :: int
  tq_tile_height :: int
  tq_overlap :: int
  tq_page :: RenderedPage
  tq_boxes :: "TileBox list"
  tq_tile_root :: pystr

definition tile_geometry_identifier :: "int \<Rightarrow> int \<Rightarrow> int \<Rightarrow> pystr res" where
  "tile_geometry_identifier w h ov =
     (if \<not> (1 \<le> w \<and> w \<le> 65535 \<and> 1 \<le> h \<and> h \<le> 65535 \<and> 0 \<le> ov \<and> ov \<le> 65535)
      then Inl (ValueError ''validation error for TileGeometryRequest'')
      else Inr (codes ''tpv'' @ map (\<lambda>c. if c = 46 then 45 else c) SEMANTIC_VERSION @ codes ''-w'' @ zero_padded 4 w
                @ codes ''-h'' @ zero_padded 4 h @ codes ''-o'' @ zero_padded 3 ov))"

definition tile_identifier :: "int \<Rightarrow> pystr \<Rightarrow> int \<Rightarrow> int \<Rightarrow> pystr" where
  "tile_identifier page key x y =
     codes ''p'' @ zero_padded 4 page @ codes ''_'' @ key @ codes ''_x'' @ zero_padded 6 x @ codes ''_y'' @ zero_padded 6 y"

definition tile_path :: "pystr \<Rightarrow> pystr \<Rightarrow> pystr \<Rightarrow> pystr" where
  "tile_path rid tile_root tile_id = codes ''renders/'' @ rid @ codes ''/'' @ tile_root @ codes ''/'' @ tile_id @ codes ''.jpg''"

definition tile_root_of :: "int \<Rightarrow> pystr \<Rightarrow> pystr" where
  "tile_root_of page key = codes ''tiles/page-'' @ zero_padded 4 page @ codes ''/'' @ key"

definition tile_request :: "PdfProcessor \<Rightarrow> RenderManifest \<Rightarrow> pystr \<Rightarrow> int \<Rightarrow> int option \<Rightarrow> int option \<Rightarrow> int option \<Rightarrow> TileManifestRequest res" where
  "tile_request P m rid page_number tile_width tile_height overlap =
     (case List.find (\<lambda>p. rp_page_number p = page_number) (rm_pages m) of
        None \<Rightarrow> app_fail INVALID_INPUT ''The selected page is not present in this render.'' 400
      | Some page \<Rightarrow>
          let w = (case tile_width of None \<Rightarrow> pp_tile_width P | Some w \<Rightarrow> w);
              h = (case tile_height of None \<Rightarrow> pp_tile_height P | Some h \<Rightarrow> h);
              ov = (case overlap of None \<Rightarrow> pp_tile_overlap P | Some ov \<Rightarrow> ov);
              dims = (\<lambda>f. f (PInt (rp_width page)) (PInt (rp_height page)) (PInt w) (PInt h) (PInt ov))
          in rbind (dims tile_layout) (\<lambda>(_, _, tile_count).
               if max_tiles_per_page P < tile_count
               then app_fail PDF_PROCESSING_FAILED ''The requested tile geometry would exceed the tile-count limit.'' 422
               else rbind (tile_boxes (PInt (rp_width page)) (PInt (rp_height page)) (PInt w) (PInt h) (PInt ov)) (\<lambda>boxes.
                 rbind (tile_geometry_identifier w h ov) (\<lambda>key.
                   let tile_root = tile_root_of page_number key
                   in Inr \<lparr>tq_relative_path = codes ''renders/'' @ rid @ codes ''/'' @ tile_root @ codes ''/manifest.json'',
                        tq_render_id = rid, tq_page_number = page_number, tq_tile_width = w, tq_tile_height = h,
                        tq_overlap = ov, tq_page = page, tq_boxes = boxes, tq_tile_root = tile_root\<rparr>))))"

definition TILE_MANIFEST_FIELDS :: "string list" where
  "TILE_MANIFEST_FIELDS =
    [''render_id'', ''page_number'', ''page_sha256'', ''tile_width'', ''tile_height'', ''overlap'', ''tiles'',
     ''manifest_relative_path'', ''manifest_schema_version'', ''render_pipeline_version'',
     ''classification_algorithm_version'', ''tile_pipeline_version'']"

definition tile_manifest_invalid :: "'a res" where
  "tile_manifest_invalid = app_fail INTERNAL_ERROR ''The cached tile manifest is invalid.'' 500"

definition tile_manifest_fields :: "members \<Rightarrow> TileManifest res" where
  "tile_manifest_fields payload =
     rbind (closed_object ''tile manifest'' TILE_MANIFEST_FIELDS (JObj payload)) (\<lambda>payload.
     rbind (list_field payload ''tiles'') (\<lambda>tile_values.
     rbind (string_field payload ''render_id'') (\<lambda>v_render_id.
     rbind (integer_field payload ''page_number'') (\<lambda>v_page_number.
     rbind (string_field payload ''page_sha256'') (\<lambda>v_page_sha256.
     rbind (integer_field payload ''tile_width'') (\<lambda>v_tile_width.
     rbind (integer_field payload ''tile_height'') (\<lambda>v_tile_height.
     rbind (integer_field payload ''overlap'') (\<lambda>v_overlap.
     rbind (collect_results rendered_tile_from_json tile_values) (\<lambda>v_tiles.
     rbind (string_field payload ''manifest_relative_path'') (\<lambda>v_path.
     rbind (string_field payload ''manifest_schema_version'') (\<lambda>v_schema.
     rbind (string_field payload ''render_pipeline_version'') (\<lambda>v_render.
     rbind (string_field payload ''classification_algorithm_version'') (\<lambda>v_classification.
     rbind (string_field payload ''tile_pipeline_version'') (\<lambda>v_tile.
       Inr \<lparr>tm_render_id = v_render_id, tm_page_number = v_page_number, tm_page_sha256 = v_page_sha256,
         tm_tile_width = v_tile_width, tm_tile_height = v_tile_height, tm_overlap = v_overlap, tm_tiles = v_tiles,
         tm_manifest_relative_path = v_path, tm_manifest_schema_version = v_schema, tm_render_pipeline_version = v_render,
         tm_classification_algorithm_version = v_classification, tm_tile_pipeline_version = v_tile\<rparr>))))))))))))))"

fun tile_read_failure :: "pyexc \<Rightarrow> bool" where
  "tile_read_failure e = (field_failure e \<or> asset_failure e)"

definition unbound_tile_manifest :: "TileManifestRequest \<Rightarrow> TileManifest \<Rightarrow> bool" where
  "unbound_tile_manifest q m =
     (tm_render_id m \<noteq> tq_render_id q \<or> tm_page_number m \<noteq> tq_page_number q \<or> tm_tile_width m \<noteq> tq_tile_width q
      \<or> tm_tile_height m \<noteq> tq_tile_height q \<or> tm_overlap m \<noteq> tq_overlap q
      \<or> tm_manifest_relative_path m \<noteq> tq_relative_path q \<or> tm_page_sha256 m \<noteq> rp_sha256 (tq_page q)
      \<or> length (tm_tiles m) \<noteq> length (tq_boxes q) \<or> tm_manifest_schema_version m \<noteq> SEMANTIC_VERSION
      \<or> tm_render_pipeline_version m \<noteq> SEMANTIC_VERSION \<or> tm_classification_algorithm_version m \<noteq> SEMANTIC_VERSION
      \<or> tm_tile_pipeline_version m \<noteq> SEMANTIC_VERSION)"

definition tile_mismatch :: "TileManifestRequest \<Rightarrow> pystr \<Rightarrow> RenderedTile \<Rightarrow> TileBox \<Rightarrow> bool" where
  "tile_mismatch q key t b =
     (let expected_id = tile_identifier (tq_page_number q) key (tb_x b) (tb_y b)
      in rt_tile_id t \<noteq> expected_id \<or> rt_page_number t \<noteq> tq_page_number q
         \<or> (rt_x t, rt_y t, rt_width t, rt_height t) \<noteq> (tb_x b, tb_y b, tb_width b, tb_height b)
         \<or> (rt_full_page_width t, rt_full_page_height t) \<noteq> (rp_width (tq_page q), rp_height (tq_page q))
         \<or> rt_overlap t \<noteq> tq_overlap q \<or> rt_relative_path t \<noteq> tile_path (tq_render_id q) (tq_tile_root q) expected_id
         \<or> rt_media_type t \<noteq> codes ''image/jpeg'' \<or> \<not> hex_text 64 (rt_sha256 t))"

fun check_tiles :: "asset_view \<Rightarrow> TileManifestRequest \<Rightarrow> (RenderedTile \<times> TileBox) list \<Rightarrow> unit res" where
  "check_tiles V q [] = Inr ()"
| "check_tiles V q ((t, b) # rest) =
     rbind (tile_geometry_identifier (tq_tile_width q) (tq_tile_height q) (tq_overlap q)) (\<lambda>key.
       if tile_mismatch q key t b then tile_manifest_invalid
       else rbind (av_resolve V (rt_relative_path t)) (\<lambda>_.
         rbind (av_sha256 V (rt_relative_path t)) (\<lambda>digest.
           if digest \<noteq> rt_sha256 t then app_fail INTERNAL_ERROR ''A cached tile failed integrity validation.'' 500
           else check_tiles V q rest)))"

definition read_tile_manifest :: "asset_view \<Rightarrow> TileManifestRequest \<Rightarrow> TileManifest res" where
  "read_tile_manifest V q =
     rbind (av_resolve V (tq_relative_path q)) (\<lambda>_.
       rbind (handled tile_read_failure tile_manifest_invalid
                (rbind (read_json_object V (tq_relative_path q) ''tile manifest root'') tile_manifest_fields)) (\<lambda>m.
         if unbound_tile_manifest q m
         then app_fail INTERNAL_ERROR ''The cached tile manifest is not bound to its request.'' 500
         else rbind (handled asset_failure tile_manifest_invalid (check_tiles V q (zip (tm_tiles m) (tq_boxes q)))) (\<lambda>_. Inr m)))"

section \<open>Writing manifests\<close>

definition manifest_text :: "(rat \<Rightarrow> pystr) \<Rightarrow> string \<Rightarrow> pyval \<Rightarrow> bytes res" where
  "manifest_text float_repr context_name v =
     rbind (dataclass_to_json (Some v) context_name) (\<lambda>ms. rbind (dumps float_repr False True (JObj ms)) encode_utf8)"

definition render_manifest :: "pystr \<Rightarrow> pystr \<Rightarrow> pystr \<Rightarrow> pystr \<Rightarrow> RenderedPage list \<Rightarrow> RenderManifest" where
  "render_manifest renderer rid source mode pages =
     \<lparr>rm_render_id = rid, rm_source_sha256 = source, rm_renderer_version = renderer, rm_mode = mode, rm_pages = pages,
      rm_manifest_relative_path = manifest_path rid, rm_manifest_schema_version = SEMANTIC_VERSION,
      rm_render_pipeline_version = SEMANTIC_VERSION, rm_classification_algorithm_version = SEMANTIC_VERSION,
      rm_tile_pipeline_version = SEMANTIC_VERSION\<rparr>"

definition tile_manifest :: "TileManifestRequest \<Rightarrow> RenderedTile list \<Rightarrow> TileManifest" where
  "tile_manifest q tiles =
     \<lparr>tm_render_id = tq_render_id q, tm_page_number = tq_page_number q, tm_page_sha256 = rp_sha256 (tq_page q),
      tm_tile_width = tq_tile_width q, tm_tile_height = tq_tile_height q, tm_overlap = tq_overlap q, tm_tiles = tiles,
      tm_manifest_relative_path = tq_relative_path q, tm_manifest_schema_version = SEMANTIC_VERSION,
      tm_render_pipeline_version = SEMANTIC_VERSION, tm_classification_algorithm_version = SEMANTIC_VERSION,
      tm_tile_pipeline_version = SEMANTIC_VERSION\<rparr>"

section \<open>UTF-8 text survives writing and reading\<close>

lemma utf8_run_two:
  assumes "2 \<le> x" "x < 32" "z < 64"
  shows "utf8_run UStart ((192 + x) # (128 + z) # bs) = map_option (\<lambda>(st, cs). (st, (x * 64 + z) # cs)) (utf8_run UStart bs)"
  using assms by (auto simp: utf8_feed_def Let_def split: option.splits)

lemma utf8_run_three:
  assumes "x < 16" "y < 64" "z < 64" "x = 0 \<longrightarrow> 32 \<le> y" "x = 13 \<longrightarrow> y < 32"
  shows "utf8_run UStart ((224 + x) # (128 + y) # (128 + z) # bs) =
    map_option (\<lambda>(st, cs). (st, ((x * 64 + y) * 64 + z) # cs)) (utf8_run UStart bs)"
proof -
  have "utf8_feed UStart (224 + x) =
      Some (UCont 2 (if x = 0 then 160 else 128) (if x = 13 then 159 else 191) x, None)"
    using assms(1) by (auto simp: utf8_feed_def)
  moreover have "utf8_feed (UCont 2 (if x = 0 then 160 else 128) (if x = 13 then 159 else 191) x) (128 + y) =
      Some (UCont 1 128 191 (x * 64 + y), None)"
    using assms by (auto simp: utf8_feed_def Let_def)
  moreover have "utf8_feed (UCont 1 128 191 (x * 64 + y)) (128 + z) = Some (UStart, Some ((x * 64 + y) * 64 + z))"
    using assms by (auto simp: utf8_feed_def Let_def)
  ultimately show ?thesis by (auto split: option.splits)
qed

lemma utf8_run_four:
  assumes "x < 5" "w < 64" "y < 64" "z < 64" "x = 0 \<longrightarrow> 16 \<le> w" "x = 4 \<longrightarrow> w < 16"
  shows "utf8_run UStart ((240 + x) # (128 + w) # (128 + y) # (128 + z) # bs) =
    map_option (\<lambda>(st, cs). (st, (((x * 64 + w) * 64 + y) * 64 + z) # cs)) (utf8_run UStart bs)"
proof -
  have "utf8_feed UStart (240 + x) =
      Some (UCont 3 (if x = 0 then 144 else 128) (if x = 4 then 143 else 191) x, None)"
    using assms(1) by (auto simp: utf8_feed_def)
  moreover have "utf8_feed (UCont 3 (if x = 0 then 144 else 128) (if x = 4 then 143 else 191) x) (128 + w) =
      Some (UCont 2 128 191 (x * 64 + w), None)"
    using assms by (auto simp: utf8_feed_def Let_def)
  moreover have "utf8_feed (UCont 2 128 191 (x * 64 + w)) (128 + y) = Some (UCont 1 128 191 ((x * 64 + w) * 64 + y), None)"
    using assms by (auto simp: utf8_feed_def Let_def)
  moreover have "utf8_feed (UCont 1 128 191 ((x * 64 + w) * 64 + y)) (128 + z) = Some (UStart, Some (((x * 64 + w) * 64 + y) * 64 + z))"
    using assms by (auto simp: utf8_feed_def Let_def)
  ultimately show ?thesis by (auto split: option.splits)
qed

lemma utf8_run_char:
  assumes "c < 1114112" "\<not> (55296 \<le> c \<and> c \<le> 57343)"
  shows "utf8_run UStart (utf8_encode c @ bs) = map_option (\<lambda>(st, cs). (st, c # cs)) (utf8_run UStart bs)"
proof -
  have split: "c = c div 64 * 64 + c mod 64" "c mod 64 < 64" "c div 64 = c div 64 div 64 * 64 + c div 64 mod 64"
    "c div 64 mod 64 < 64" "c div 64 div 64 = c div 64 div 64 div 64 * 64 + c div 64 div 64 mod 64"
    "c div 64 div 64 mod 64 < 64" by simp_all
  have quot: "c div 4096 = c div 64 div 64" "c div 262144 = c div 64 div 64 div 64" by (simp_all add: div_mult2_eq [symmetric])
  consider "c < 128" | "128 \<le> c" "c < 2048" | "2048 \<le> c" "c < 65536" | "65536 \<le> c" by (meson not_less)
  then show ?thesis
  proof cases
    case 1
    then show ?thesis by (auto simp: utf8_encode_def utf8_feed_def split: option.splits)
  next
    case 2
    have "2 \<le> c div 64" "c div 64 < 32" using 2 split by linarith+
    from utf8_run_two [OF this, of "c mod 64" bs] 2 split show ?thesis by (simp add: utf8_encode_def)
  next
    case 3
    have b: "c div 64 div 64 < 16" "c div 64 div 64 = 0 \<longrightarrow> 32 \<le> c div 64 mod 64"
      "c div 64 div 64 = 13 \<longrightarrow> c div 64 mod 64 < 32" using 3 assms(2) split by linarith+
    have "(c div 64 div 64 * 64 + c div 64 mod 64) * 64 + c mod 64 = c" by simp
    with utf8_run_three [OF b(1) _ _ b(2,3), of "c mod 64" bs] 3 split(2,4) quot show ?thesis by (simp add: utf8_encode_def)
  next
    case 4
    have b: "c div 64 div 64 div 64 < 5" "c div 64 div 64 div 64 = 0 \<longrightarrow> 16 \<le> c div 64 div 64 mod 64"
      "c div 64 div 64 div 64 = 4 \<longrightarrow> c div 64 div 64 mod 64 < 16" using 4 assms(1) split by linarith+
    have "((c div 64 div 64 div 64 * 64 + c div 64 div 64 mod 64) * 64 + c div 64 mod 64) * 64 + c mod 64 = c" by simp
    with utf8_run_four [OF b(1) _ _ _ b(2,3), of "c div 64 mod 64" "c mod 64" bs] 4 split(2,4,6) quot
    show ?thesis by (simp add: utf8_encode_def)
  qed
qed

lemma utf8_roundtrip:
  assumes "encode_utf8 s = Inr b" "list_all (\<lambda>c. c < 1114112) s"
  shows "utf8_decode b = Some s"
proof -
  have b: "b = concat (map utf8_encode s)" and n: "\<forall>c\<in>set s. \<not> (55296 \<le> c \<and> c \<le> 57343)"
    using assms(1) by (auto simp: encode_utf8_def list_ex_iff split: if_splits)
  have "utf8_run UStart (concat (map utf8_encode s)) = Some (UStart, s)"
    using n assms(2) by (induction s) (auto simp: utf8_run_char)
  then show ?thesis by (simp add: utf8_decode_def b)
qed

lemma universal_newlines_id: "13 \<notin> set s \<Longrightarrow> universal_newlines s = s"
  by (induction s rule: universal_newlines.induct) auto

section \<open>Printed JSON is plain text\<close>

definition plain :: "nat \<Rightarrow> bool" where
  "plain c = (c < 1114112 \<and> c \<noteq> 13)"

lemma plain_marks [simp]: "plain 34" "plain 44" "plain 58" "plain 91" "plain 93" "plain 123" "plain 125"
  by (simp_all add: plain_def)

lemma plain_digits: "list_all is_digit ds \<Longrightarrow> list_all plain ds"
  by (auto simp: list_all_iff plain_def is_digit_def)

lemma encode_char_plain: "c < 1114112 \<Longrightarrow> list_all plain (encode_char False c)"
  by (auto simp: encode_char_def unicode_escape_def hex_quad_def hex_char_def plain_def)

lemma encode_string_plain: "text_ok False s \<Longrightarrow> list_all plain (encode_string False s)"
  using encode_char_plain by (auto simp: encode_string_def text_ok_def list_all_iff)

lemma int_str_plain: "list_all plain (int_str i)"
  using plain_digits [of "nat_str (nat i)"] plain_digits [of "nat_str (nat (- i))"] nat_str_digits
  by (auto simp: int_str_def digits_def plain_def)

lemma float_literal_plain: "float_literal t \<Longrightarrow> list_all plain t"
  by (auto simp: float_literal_def jfraction_def jexponent_def digits_def plain_digits) (auto simp: plain_def plain_digits)

lemma join_with_plain: "list_all (list_all plain) ts \<Longrightarrow> list_all plain (join_with [44] ts)"
  by (induction "[44 :: nat]" ts rule: join_with.induct) (auto simp: plain_def)

lemma text_of_plain: "dumpable fr False j \<Longrightarrow> list_all plain (text_of fr False j)"
proof (induction j)
  case (JFloat x)
  then show ?case by (auto split: pyfloat.splits simp: float_literal_plain)
next
  case (JArr js)
  then have "list_all (list_all plain) (map (text_of fr False) js)" by (auto simp: list_all_iff)
  from join_with_plain [OF this] show ?case by simp
next
  case (JObj es)
  have "list_all (list_all plain) (map (\<lambda>(k, j). encode_string False k @ [58] @ text_of fr False j) es)"
  proof -
    have "list_all plain (encode_string False k @ [58] @ text_of fr False j)" if "(k, j) \<in> set es" for k j
    proof -
      have "dumpable fr False j" "text_ok False k" using JObj.prems that by (auto simp: list_all_iff)
      then show ?thesis using JObj.IH [OF that, of j] encode_string_plain [of k] by simp
    qed
    then show ?thesis by (auto simp: list_all_iff)
  qed
  from join_with_plain [OF this] show ?case by simp
qed (simp_all add: int_str_plain encode_string_plain, simp_all add: plain_def)

section \<open>The members of a manifest\<close>

definition page_members :: "RenderedPage \<Rightarrow> (pystr \<times> json) list" where
  "page_members p =
     [(codes ''page_number'', JInt (rp_page_number p)), (codes ''width'', JInt (rp_width p)),
      (codes ''height'', JInt (rp_height p)), (codes ''rotation'', JInt (rp_rotation p)),
      (codes ''classification'', JStr (rp_classification p)),
      (codes ''effective_dpi_x'', JFloat (rp_effective_dpi_x p)),
      (codes ''effective_dpi_y'', JFloat (rp_effective_dpi_y p)),
      (codes ''resolution_source'', JStr (rp_resolution_source p)),
      (codes ''conversion_path'', JStr (rp_conversion_path p)),
      (codes ''relative_path'', JStr (rp_relative_path p)), (codes ''sha256'', JStr (rp_sha256 p)),
      (codes ''media_type'', JStr (rp_media_type p)), (codes ''resize_applied'', JBool (rp_resize_applied p)),
      (codes ''pixel_dimensions_preserved'', JBool (rp_pixel_dimensions_preserved p)),
      (codes ''renderer_resampling'', JStr (rp_renderer_resampling p)),
      (codes ''reencoded'', JBool (rp_reencoded p)),
      (codes ''lossy_conversion'', JBool (rp_lossy_conversion p))]"

definition manifest_members :: "RenderManifest \<Rightarrow> (pystr \<times> json) list" where
  "manifest_members m =
     [(codes ''render_id'', JStr (rm_render_id m)), (codes ''source_sha256'', JStr (rm_source_sha256 m)),
      (codes ''renderer_version'', JStr (rm_renderer_version m)), (codes ''mode'', JStr (rm_mode m)),
      (codes ''pages'', JArr (map (\<lambda>p. JObj (page_members p)) (rm_pages m))),
      (codes ''manifest_relative_path'', JStr (rm_manifest_relative_path m)),
      (codes ''manifest_schema_version'', JStr (rm_manifest_schema_version m)),
      (codes ''render_pipeline_version'', JStr (rm_render_pipeline_version m)),
      (codes ''classification_algorithm_version'', JStr (rm_classification_algorithm_version m)),
      (codes ''tile_pipeline_version'', JStr (rm_tile_pipeline_version m))]"

definition tile_members :: "RenderedTile \<Rightarrow> (pystr \<times> json) list" where
  "tile_members p =
     [(codes ''tile_id'', JStr (rt_tile_id p)), (codes ''page_number'', JInt (rt_page_number p)),
      (codes ''x'', JInt (rt_x p)), (codes ''y'', JInt (rt_y p)), (codes ''width'', JInt (rt_width p)),
      (codes ''height'', JInt (rt_height p)), (codes ''full_page_width'', JInt (rt_full_page_width p)),
      (codes ''full_page_height'', JInt (rt_full_page_height p)), (codes ''overlap'', JInt (rt_overlap p)),
      (codes ''relative_path'', JStr (rt_relative_path p)), (codes ''sha256'', JStr (rt_sha256 p)),
      (codes ''media_type'', JStr (rt_media_type p)), (codes ''resize_applied'', JBool (rt_resize_applied p)),
      (codes ''pixel_dimensions_preserved'', JBool (rt_pixel_dimensions_preserved p)),
      (codes ''renderer_resampling'', JStr (rt_renderer_resampling p)),
      (codes ''reencoded'', JBool (rt_reencoded p)),
      (codes ''lossy_conversion'', JBool (rt_lossy_conversion p))]"

definition tile_manifest_members :: "TileManifest \<Rightarrow> (pystr \<times> json) list" where
  "tile_manifest_members m =
     [(codes ''render_id'', JStr (tm_render_id m)), (codes ''page_number'', JInt (tm_page_number m)),
      (codes ''page_sha256'', JStr (tm_page_sha256 m)), (codes ''tile_width'', JInt (tm_tile_width m)),
      (codes ''tile_height'', JInt (tm_tile_height m)), (codes ''overlap'', JInt (tm_overlap m)),
      (codes ''tiles'', JArr (map (\<lambda>p. JObj (tile_members p)) (tm_tiles m))),
      (codes ''manifest_relative_path'', JStr (tm_manifest_relative_path m)),
      (codes ''manifest_schema_version'', JStr (tm_manifest_schema_version m)),
      (codes ''render_pipeline_version'', JStr (tm_render_pipeline_version m)),
      (codes ''classification_algorithm_version'', JStr (tm_classification_algorithm_version m)),
      (codes ''tile_pipeline_version'', JStr (tm_tile_pipeline_version m))]"


definition ordered_members :: "members \<Rightarrow> members" where
  "ordered_members ms = sort_key fst (map (\<lambda>(k, j). (k, ordered True j)) ms)"

lemma ordered_JObj: "ordered True (JObj ms) = JObj (ordered_members ms)"
  by (simp add: ordered_members_def)

lemma ordered_members_keys: "set (map fst (ordered_members ms)) = set (map fst ms)"
  by (force simp: ordered_members_def)

lemma ordered_members_lookup:
  assumes "distinct (map fst ms)"
  shows "map_of (ordered_members ms) k = map_option (ordered True) (map_of ms k)"
proof -
  let ?xs = "map (\<lambda>(k, j). (k, ordered True j)) ms"
  have keys: "map fst ?xs = map fst ms" by (induction ms) auto
  have d: "distinct (map fst ?xs)" using assms by (simp only: keys)
  then have "distinct (map fst (sort_key fst ?xs))"
    using distinct_map [of fst ?xs] by (simp add: distinct_map del: map_map)
  then have "map_of (sort_key fst ?xs) = map_of ?xs"
    using d map_of_inject_set [of "sort_key fst ?xs" ?xs] by (simp del: map_map)
  moreover have "map_of ?xs k = map_option (ordered True) (map_of ms k)" by (induction ms) auto
  ultimately show ?thesis by (simp add: ordered_members_def)
qed

lemma ordered_fields:
  assumes "distinct (map fst ms)"
  shows "string_field (ordered_members ms) n = string_field ms n"
    "integer_field (ordered_members ms) n = integer_field ms n"
    "boolean_field (ordered_members ms) n = boolean_field ms n"
    "float_field (ordered_members ms) n = float_field ms n"
    "list_field (ordered_members ms) n = map_sum id (map (ordered True)) (list_field ms n)"
  by (cases "map_of ms (codes n)"; cases "the (map_of ms (codes n))";
      simp add: string_field_def integer_field_def boolean_field_def float_field_def list_field_def json_field_def
        ordered_members_lookup [OF assms] field_error_def Let_def int_to_float_def split: pyfloat.split)+

lemma require_object_JObj:
  "finite_floats (JObj ms) \<Longrightarrow> require_json_object context_name (py_of_json (JObj ms)) = Inr ms"
  using py_of_json_value [of "JObj ms"] py_of_json_inject [of "JObj ms"] by (simp add: require_json_object_def)

lemma finite_ordered: "finite_floats (ordered True j) = finite_floats j"
  by (induction j) (auto simp: list_all_iff Let_def)

lemma closed_ordered:
  assumes "finite_floats (JObj ms)" "set (map fst ms) = set (map codes names)"
  shows "closed_object context_name names (JObj (ordered_members ms)) = Inr (ordered_members ms)"
  using assms finite_ordered [of "JObj ms"] ordered_members_keys [of ms]
  by (simp add: closed_object_def require_object_JObj ordered_JObj del: finite_floats.simps ordered.simps py_of_json.simps)

lemmas field_defs = string_field_def integer_field_def boolean_field_def float_field_def list_field_def json_field_def

definition finite_page :: "RenderedPage \<Rightarrow> bool" where
  "finite_page p = (isfinite (rp_effective_dpi_x p) \<and> isfinite (rp_effective_dpi_y p))"

lemma page_members_keys: "map fst (page_members p) = map codes PAGE_FIELDS" "distinct (map codes PAGE_FIELDS)"
  by (simp_all add: page_members_def PAGE_FIELDS_def del: codes_simps)

lemma page_members_finite: "finite_floats (JObj (page_members p)) = finite_page p"
  by (simp add: page_members_def finite_page_def del: codes_simps)

lemma page_from_json:
  assumes "finite_page p"
  shows "rendered_page_from_json (ordered True (JObj (page_members p))) = Inr p"
proof -
  have d: "distinct (map fst (page_members p))" by (simp only: page_members_keys)
  have c: "closed_object ''rendered page'' PAGE_FIELDS (JObj (ordered_members (page_members p))) =
      Inr (ordered_members (page_members p))"
    using assms page_members_finite page_members_keys(1) by (intro closed_ordered) simp_all
  show ?thesis
    unfolding rendered_page_from_json_def ordered_JObj c
    by (simp add: ordered_fields [OF d]) (simp add: field_defs page_members_def del: codes_simps)
qed

lemma tile_members_keys: "map fst (tile_members p) = map codes TILE_FIELDS" "distinct (map codes TILE_FIELDS)"
  by (simp_all add: tile_members_def TILE_FIELDS_def del: codes_simps)

lemma tile_members_finite: "finite_floats (JObj (tile_members p))"
  by (simp add: tile_members_def del: codes_simps)

lemma tile_from_json: "rendered_tile_from_json (ordered True (JObj (tile_members p))) = Inr p"
proof -
  have d: "distinct (map fst (tile_members p))" by (simp only: tile_members_keys)
  have c: "closed_object ''rendered tile'' TILE_FIELDS (JObj (ordered_members (tile_members p))) =
      Inr (ordered_members (tile_members p))"
    using tile_members_finite tile_members_keys(1) by (intro closed_ordered) simp_all
  show ?thesis
    unfolding rendered_tile_from_json_def ordered_JObj c
    by (simp add: ordered_fields [OF d]) (simp add: field_defs tile_members_def del: codes_simps)
qed

lemma collect_results_map: "(\<And>x. x \<in> set xs \<Longrightarrow> f (g x) = Inr x) \<Longrightarrow> collect_results f (map g xs) = Inr xs"
  by (induction xs) auto

lemma manifest_members_keys: "map fst (manifest_members m) = map codes MANIFEST_FIELDS" "distinct (map codes MANIFEST_FIELDS)"
  by (simp_all add: manifest_members_def MANIFEST_FIELDS_def del: codes_simps)

lemma manifest_members_finite: "finite_floats (JObj (manifest_members m)) = list_all finite_page (rm_pages m)"
  using page_members_finite
  by (simp add: manifest_members_def list_all_iff del: codes_simps finite_floats.simps(3)) (auto simp: list_all_iff)

lemma manifest_from_members:
  assumes "list_all finite_page (rm_pages m)"
  shows "manifest_fields (ordered_members (manifest_members m)) = Inr m"
proof -
  have d: "distinct (map fst (manifest_members m))" by (simp only: manifest_members_keys)
  have c: "closed_object ''render manifest'' MANIFEST_FIELDS (JObj (ordered_members (manifest_members m))) =
      Inr (ordered_members (manifest_members m))"
    using assms manifest_members_finite manifest_members_keys(1) by (intro closed_ordered) simp_all
  have l: "list_field (manifest_members m) ''pages'' = Inr (map (\<lambda>p. JObj (page_members p)) (rm_pages m))"
    by (simp add: field_defs manifest_members_def del: codes_simps)
  have p: "collect_results rendered_page_from_json (map (ordered True) (map (\<lambda>p. JObj (page_members p)) (rm_pages m))) = Inr (rm_pages m)"
    unfolding map_map comp_def using assms by (intro collect_results_map page_from_json) (simp add: list_all_iff)
  show ?thesis
    unfolding manifest_fields_def c
    by (simp add: ordered_fields [OF d] l p del: map_map ordered.simps) (simp add: field_defs manifest_members_def del: codes_simps)
qed

lemma tile_manifest_members_keys: "map fst (tile_manifest_members m) = map codes TILE_MANIFEST_FIELDS" "distinct (map codes TILE_MANIFEST_FIELDS)"
  by (simp_all add: tile_manifest_members_def TILE_MANIFEST_FIELDS_def del: codes_simps)

lemma tile_manifest_members_finite: "finite_floats (JObj (tile_manifest_members m))"
  using tile_members_finite by (simp add: tile_manifest_members_def list_all_iff del: codes_simps)

lemma tile_manifest_from_members: "tile_manifest_fields (ordered_members (tile_manifest_members m)) = Inr m"
proof -
  have d: "distinct (map fst (tile_manifest_members m))" by (simp only: tile_manifest_members_keys)
  have c: "closed_object ''tile manifest'' TILE_MANIFEST_FIELDS (JObj (ordered_members (tile_manifest_members m))) =
      Inr (ordered_members (tile_manifest_members m))"
    using tile_manifest_members_finite tile_manifest_members_keys(1) by (intro closed_ordered) simp_all
  have l: "list_field (tile_manifest_members m) ''tiles'' = Inr (map (\<lambda>p. JObj (tile_members p)) (tm_tiles m))"
    by (simp add: field_defs tile_manifest_members_def del: codes_simps)
  have p: "collect_results rendered_tile_from_json (map (ordered True) (map (\<lambda>p. JObj (tile_members p)) (tm_tiles m))) = Inr (tm_tiles m)"
    unfolding map_map comp_def by (intro collect_results_map tile_from_json)
  show ?thesis
    unfolding tile_manifest_fields_def c
    by (simp add: ordered_fields [OF d] l p del: map_map ordered.simps) (simp add: field_defs tile_manifest_members_def del: codes_simps)
qed

section \<open>Writing\<close>

lemma json_compatible_items_map: "(\<And>x. x \<in> set xs \<Longrightarrow> json_compatible (f x) = Inr (g x)) \<Longrightarrow> json_compatible_items (map f xs) = Inr (map g xs)"
  by (induction xs) auto

lemma page_compatible: "finite_page p \<Longrightarrow> json_compatible (page_asdict p) = Inr (JObj (page_members p))"
  by (simp add: page_asdict_def page_members_def finite_page_def del: codes_simps)

lemma tile_compatible: "json_compatible (tile_asdict p) = Inr (JObj (tile_members p))"
  by (simp add: tile_asdict_def tile_members_def del: codes_simps)

lemma manifest_compatible:
  assumes "list_all finite_page (rm_pages m)"
  shows "json_compatible (manifest_asdict m) = Inr (JObj (manifest_members m))"
proof -
  have "json_compatible_items (map page_asdict (rm_pages m)) = Inr (map (\<lambda>p. JObj (page_members p)) (rm_pages m))"
    using assms by (intro json_compatible_items_map page_compatible) (simp add: list_all_iff)
  then show ?thesis by (simp add: manifest_asdict_def manifest_members_def del: codes_simps)
qed

lemma tile_manifest_compatible: "json_compatible (tile_manifest_asdict m) = Inr (JObj (tile_manifest_members m))"
proof -
  have "json_compatible_items (map tile_asdict (tm_tiles m)) = Inr (map (\<lambda>p. JObj (tile_members p)) (tm_tiles m))"
    by (intro json_compatible_items_map tile_compatible)
  then show ?thesis by (simp add: tile_manifest_asdict_def tile_manifest_members_def del: codes_simps)
qed

text \<open>A manifest document that was written is read back as its members in key order.\<close>

lemma written_document_read:
  assumes comp: "json_compatible v = Inr (JObj ms)" and dump: "dumpable fr False (JObj ms)"
    and w: "manifest_text fr ctx v = Inr b" and r: "av_bytes V path = Inr b"
  shows "read_json_object V path ctx' = Inr (ordered_members ms)"
proof -
  let ?t = "text_of fr False (ordered True (JObj ms))"
  have fin: "finite_floats (JObj ms)" using dumpable_finite [OF dump] .
  have "dataclass_to_json (Some v) ctx = Inr ms"
    using comp require_object_JObj [OF fin] by (simp add: dataclass_to_json_def del: py_of_json.simps finite_floats.simps)
  then have "encode_utf8 ?t = Inr b"
    using w dumps_text [OF dump, of True] by (simp add: manifest_text_def del: dumpable.simps ordered.simps dumps.simps)
  moreover have o: "dumpable fr False (ordered True (JObj ms))" by (rule ordered_dumpable [OF dump])
  moreover note pl = text_of_plain [OF o]
  ultimately have "utf8_decode b = Some ?t"
    by (intro utf8_roundtrip) (auto simp: list_all_iff plain_def)
  moreover have "universal_newlines ?t = ?t"
    using pl by (intro universal_newlines_id) (auto simp: list_all_iff plain_def)
  ultimately have t: "read_text V path = Inr ?t" by (simp add: read_text_def r)
  have "load_json_value no_hooks (JText ?t) = Inr (py_of_json (ordered True (JObj ms)))"
    by (rule load_dumped_text [OF o]) (simp add: plain_hooks_def no_hooks_def)
  moreover have "finite_floats (JObj (ordered_members ms))" using fin finite_ordered [of "JObj ms"] by (simp only: ordered_JObj)
  ultimately show ?thesis
    unfolding read_json_object_def t by (simp add: require_object_JObj ordered_JObj del: py_of_json.simps finite_floats.simps ordered.simps)
qed

section \<open>What a returned manifest guarantees\<close>

definition verified_page :: "asset_view \<Rightarrow> pystr \<Rightarrow> RenderedPage \<Rightarrow> bool" where
  "verified_page V rid p =
     (1 \<le> rp_page_number p \<and> 1 \<le> rp_width p \<and> 1 \<le> rp_height p \<and> rp_relative_path p = page_path rid (rp_page_number p)
      \<and> rp_media_type p = codes ''image/jpeg'' \<and> hex_text 64 (rp_sha256 p)
      \<and> av_resolve V (rp_relative_path p) = Inr () \<and> av_sha256 V (rp_relative_path p) = Inr (rp_sha256 p))"

lemma check_pages_step:
  "check_pages V rid seen (p # ps) = Inr () \<longleftrightarrow>
   rp_page_number p \<notin> seen \<and> verified_page V rid p \<and> check_pages V rid (insert (rp_page_number p) seen) ps = Inr ()"
  by (auto simp: verified_page_def manifest_invalid_def rbind_eq_Inr split: if_splits)

lemma check_pages_iff:
  "check_pages V rid seen ps = Inr () \<longleftrightarrow>
   distinct (map rp_page_number ps) \<and> seen \<inter> set (map rp_page_number ps) = {} \<and> list_all (verified_page V rid) ps"
proof (induction ps arbitrary: seen)
  case (Cons p ps)
  show ?case unfolding check_pages_step Cons.IH by auto
qed simp

lemma handled_Inr_iff: "(\<And>x. f \<noteq> Inr x) \<Longrightarrow> handled c f r = Inr v \<longleftrightarrow> r = Inr v"
  by (auto simp: handled_def split: sum.splits if_splits)

lemma manifest_invalid_neq [simp]: "manifest_invalid \<noteq> Inr x"
  by (simp add: manifest_invalid_def)

lemma validate_manifest_assets_iff:
  "validate_manifest_assets V renderer (render_manifest renderer rid source (codes ''native'') pages) = Inr () \<longleftrightarrow>
   hex_text 64 source \<and> pages \<noteq> [] \<and> distinct (map rp_page_number pages) \<and> list_all (verified_page V rid) pages"
  by (simp add: validate_manifest_assets_def render_manifest_def handled_Inr_iff check_pages_iff)

lemma get_manifest_verified:
  assumes "get_manifest V renderer rid = Inr m"
  shows "rm_render_id m = rid \<and> rm_manifest_relative_path m = manifest_path rid \<and> rm_renderer_version m = renderer
    \<and> rm_pages m \<noteq> [] \<and> distinct (map rp_page_number (rm_pages m)) \<and> list_all (verified_page V rid) (rm_pages m)"
proof -
  from assms have b: "rm_render_id m = rid" "rm_manifest_relative_path m = manifest_path rid"
    "validate_manifest_assets V renderer m = Inr ()"
    by (auto simp: get_manifest_def rbind_eq_Inr Let_def validate_render_id_def split: if_splits)
  then have c: "rm_renderer_version m = renderer" "rm_pages m \<noteq> []"
    "handled asset_failure manifest_invalid (check_pages V rid {} (rm_pages m)) = Inr ()"
    by (auto simp: validate_manifest_assets_def manifest_invalid_def split: if_splits)
  then have "check_pages V rid {} (rm_pages m) = Inr ()" by (simp add: handled_Inr_iff)
  with b c show ?thesis by (simp add: check_pages_iff)
qed

lemma get_manifest_written:
  assumes rid: "validate_render_id rid = Inr rid" and m: "rm_render_id m = rid" "rm_manifest_relative_path m = manifest_path rid"
    and dump: "dumpable fr False (JObj (manifest_members m))" and w: "manifest_text fr ctx (manifest_asdict m) = Inr b"
    and V: "av_resolve V (manifest_path rid) = Inr ()" "av_bytes V (manifest_path rid) = Inr b"
  shows "get_manifest V renderer rid = rbind (validate_manifest_assets V renderer m) (\<lambda>_. Inr m)"
proof -
  have fin: "list_all finite_page (rm_pages m)"
    using dumpable_finite [OF dump] manifest_members_finite by blast
  note r = written_document_read [OF manifest_compatible [OF fin] dump w V(2)]
  have "manifest_from_dict (ordered_members (manifest_members m)) = Inr m"
    by (simp add: manifest_from_dict_def handled_def manifest_from_members [OF fin])
  then show ?thesis using rid m V(1) r by (simp add: get_manifest_def Let_def handled_def)
qed

text \<open>
  C5. Reading the manifest that a render wrote, from a file that still holds the written bytes, gives back exactly that
  manifest if and only if its source digest is well formed, it has pages, no page number occurs twice, and every page has
  positive dimensions, the path of its render and number, and stored content whose digest is the recorded one. So a
  written manifest survives encoding and decoding unchanged, and one missing, renamed or altered page makes the read fail.
\<close>

theorem render_manifest_roundtrip:
  assumes "validate_render_id rid = Inr rid"
    and "m = render_manifest renderer rid source (codes ''native'') pages"
    and "dumpable float_repr False (JObj (manifest_members m))"
    and "manifest_text float_repr ''render manifest'' (manifest_asdict m) = Inr written"
    and "av_resolve V (manifest_path rid) = Inr ()" and "av_bytes V (manifest_path rid) = Inr written"
  shows "get_manifest V renderer rid = Inr m \<longleftrightarrow>
    hex_text 64 source \<and> pages \<noteq> [] \<and> distinct (map rp_page_number pages) \<and> list_all (verified_page V rid) pages"
proof -
  have "get_manifest V renderer rid = rbind (validate_manifest_assets V renderer m) (\<lambda>_. Inr m)"
    using assms by (intro get_manifest_written) (auto simp: render_manifest_def)
  then show ?thesis by (simp add: rbind_eq_Inr validate_manifest_assets_iff assms(2) del: codes_simps)
qed

definition example_page :: RenderedPage where
  "example_page =
     \<lparr>rp_page_number = 1, rp_width = 400, rp_height = 800, rp_rotation = 0, rp_classification = codes ''vector'',
      rp_effective_dpi_x = Fin 400, rp_effective_dpi_y = Fin 400, rp_resolution_source = codes ''fallback_400_dpi'',
      rp_conversion_path = codes ''pdfium_render'', rp_relative_path = page_path (codes ''rnd_'' @ replicate 32 97) 1,
      rp_sha256 = replicate 64 98, rp_media_type = codes ''image/jpeg'', rp_resize_applied = False,
      rp_pixel_dimensions_preserved = True, rp_renderer_resampling = codes ''none'', rp_reencoded = True,
      rp_lossy_conversion = True\<rparr>"

definition example_manifest :: RenderManifest where
  "example_manifest =
     render_manifest (codes ''pypdfium2'') (codes ''rnd_'' @ replicate 32 97) (replicate 64 99) (codes ''native'') [example_page]"

definition example_view :: "bytes \<Rightarrow> asset_view" where
  "example_view b = \<lparr>av_resolve = (\<lambda>_. Inr ()), av_bytes = (\<lambda>_. Inr b), av_sha256 = (\<lambda>_. Inr (replicate 64 98))\<rparr>"

lemma example_manifest_dumpable: "dumpable (\<lambda>_. codes ''400.0'') False (JObj (manifest_members example_manifest))"
proof -
  have f: "float_literal (codes ''400.0'')"
    unfolding float_literal_def
    by (rule exI [of _ "[]"], rule exI [of _ "codes ''400''"], rule exI [of _ "codes ''.0''"], rule exI [of _ "[]"])
      (simp add: digits_def is_digit_def jfraction_def)
  have v: "float_of_number (codes ''400.0'') = Fin 400" by code_simp
  have t: "list_all (text_ok False) (map codes PAGE_FIELDS @ map codes MANIFEST_FIELDS
      @ [codes ''vector'', codes ''fallback_400_dpi'', codes ''pdfium_render'', page_path (codes ''rnd_'' @ replicate 32 97) 1,
         replicate 64 98, codes ''image/jpeg'', codes ''none'', codes ''rnd_'' @ replicate 32 97, replicate 64 99,
         codes ''pypdfium2'', codes ''native'', manifest_path (codes ''rnd_'' @ replicate 32 97), SEMANTIC_VERSION])"
    by code_simp
  have n: "length (nat_str 1) \<le> INT_MAX_STR_DIGITS" "length (nat_str 400) \<le> INT_MAX_STR_DIGITS"
    "length (nat_str 800) \<le> INT_MAX_STR_DIGITS" "length (nat_str 0) \<le> INT_MAX_STR_DIGITS" by code_simp+
  have page: "dumpable (\<lambda>_. codes ''400.0'') False (JObj (page_members example_page))"
    using f v t n page_members_keys
    by (simp add: page_members_def example_page_def PAGE_FIELDS_def del: codes_simps)
  show ?thesis
    using page t
    by (simp add: manifest_members_def example_manifest_def render_manifest_def MANIFEST_FIELDS_def
        del: codes_simps)
qed

theorem render_manifest_roundtrip_witness:
  "\<exists>written. manifest_text (\<lambda>_. codes ''400.0'') ''render manifest'' (manifest_asdict example_manifest) = Inr written
     \<and> get_manifest (example_view written) (codes ''pypdfium2'') (codes ''rnd_'' @ replicate 32 97) = Inr example_manifest"
proof -
  have "is_ok (manifest_text (\<lambda>_. codes ''400.0'') ''render manifest'' (manifest_asdict example_manifest))" by code_simp
  then obtain written where
    w: "manifest_text (\<lambda>_. codes ''400.0'') ''render manifest'' (manifest_asdict example_manifest) = Inr written"
    by (auto simp: is_ok_iff)
  have i: "validate_render_id (codes ''rnd_'' @ replicate 32 97) = Inr (codes ''rnd_'' @ replicate 32 97)" by code_simp
  have h: "hex_text 64 (replicate 64 99)" "hex_text 64 (replicate 64 98)" by code_simp+
  have "verified_page (example_view written) (codes ''rnd_'' @ replicate 32 97) example_page"
    using h by (simp add: verified_page_def example_view_def example_page_def del: codes_simps)
  then have "get_manifest (example_view written) (codes ''pypdfium2'') (codes ''rnd_'' @ replicate 32 97) = Inr example_manifest"
    using render_manifest_roundtrip [OF i example_manifest_def example_manifest_dumpable w, of "example_view written"] h
    by (simp add: example_view_def del: codes_simps)
  with w show ?thesis by blast
qed

text \<open>The same for tiles: the manifest of a request is accepted for that request.\<close>

theorem tile_manifest_roundtrip:
  assumes "m = tile_manifest q tiles" and "length tiles = length (tq_boxes q)"
    and "dumpable float_repr False (JObj (tile_manifest_members m))"
    and "manifest_text float_repr ''tile manifest'' (tile_manifest_asdict m) = Inr written"
    and "av_resolve V (tq_relative_path q) = Inr ()" and "av_bytes V (tq_relative_path q) = Inr written"
    and "check_tiles V q (zip tiles (tq_boxes q)) = Inr ()"
  shows "read_tile_manifest V q = Inr m"
proof -
  note r = written_document_read [OF tile_manifest_compatible assms(3,4,6)]
  have "\<not> unbound_tile_manifest q m" using assms(2) by (simp add: unbound_tile_manifest_def assms(1) tile_manifest_def)
  moreover have "tm_tiles m = tiles" by (simp add: assms(1) tile_manifest_def)
  ultimately show ?thesis
    using assms(5,7) r by (simp add: read_tile_manifest_def handled_def tile_manifest_from_members)
qed

text \<open>
  A cached manifest whose root is JSON but not an object makes \<^verbatim>\<open>get_manifest\<close> raise \<^verbatim>\<open>TypeError\<close>, not the application
  error that the renderer answers by rendering again.
\<close>

lemma damaged_manifest_escapes:
  assumes "validate_render_id rid = Inr rid" "av_resolve V (manifest_path rid) = Inr ()"
    "av_bytes V (manifest_path rid) = Inr (codes ''[]'')"
  shows "get_manifest V renderer rid = Inl (TypeError ''render manifest root must be a JSON object'')"
proof -
  have "utf8_decode (codes ''[]'') = Some (codes ''[]'')" "universal_newlines (codes ''[]'') = codes ''[]''"
    "load_json_value no_hooks (JText (codes ''[]'')) = Inr (VList [])" by code_simp+
  then have "read_json_object V (manifest_path rid) ''render manifest root''
      = Inl (TypeError ''render manifest root must be a JSON object'')"
    using assms(3) by (simp add: read_json_object_def read_text_def require_json_object_def del: codes_simps)
  with assms(1,2) show ?thesis by (simp add: get_manifest_def handled_def Let_def)
qed

section \<open>Tile names\<close>

lemma digits_value_zeros: "digits_value (replicate k 48 @ ds) = digits_value ds"
  by (induction k) (simp_all add: digits_value_def)

lemma zero_padded_digits: "0 \<le> i \<Longrightarrow> list_all is_digit (zero_padded n i)"
  using nat_str_digits [of "nat i"] by (auto simp: zero_padded_def digits_def list_all_iff is_digit_def Let_def)

lemma zero_padded_value: "0 \<le> i \<Longrightarrow> int (digits_value (zero_padded n i)) = i"
  by (simp add: zero_padded_def digits_value_zeros nat_str_value Let_def)

lemma zero_padded_inject: "0 \<le> i \<Longrightarrow> 0 \<le> j \<Longrightarrow> zero_padded n i = zero_padded n j \<longleftrightarrow> i = j"
  using zero_padded_value by metis

lemma digits_then:
  assumes "list_all is_digit a" "list_all is_digit b" "\<not> is_digit c" "a @ c # r = b @ c # s"
  shows "a = b \<and> r = s"
  using assms by (induction a arbitrary: b) (auto simp: Cons_eq_append_conv append_eq_Cons_conv)

lemma tile_identifier_inject:
  assumes "0 \<le> x" "0 \<le> y" "0 \<le> x'" "0 \<le> y'" "tile_identifier p key x y = tile_identifier p key x' y'"
  shows "x = x' \<and> y = y'"
proof -
  have "zero_padded 6 x @ 95 # 121 # zero_padded 6 y = zero_padded 6 x' @ 95 # 121 # zero_padded 6 y'"
    using assms(5) by (simp add: tile_identifier_def)
  from digits_then [OF zero_padded_digits zero_padded_digits _ this] assms
  have "zero_padded 6 x = zero_padded 6 x'" "zero_padded 6 y = zero_padded 6 y'" by (auto simp: is_digit_def)
  with assms show ?thesis by (simp add: zero_padded_inject)
qed

text \<open>Tiles of one page and geometry never share a path.\<close>

lemma tile_paths_distinct:
  assumes "tile_boxes (PInt w) (PInt h) (PInt tw) (PInt th) (PInt ov) = Inr boxes"
  shows "distinct (map (\<lambda>b. tile_path rid tile_root (tile_identifier p key (tb_x b) (tb_y b))) boxes)"
proof -
  have "distinct (map (\<lambda>b. (tb_x b, tb_y b)) boxes)"
    unfolding distinct_conv_nth
    using tile_boxes_sorted [OF assms] by (auto simp: sorted_wrt_iff_nth_less) (metis linorder_neqE_nat order_less_irrefl)
  moreover have "inj_on (\<lambda>(x, y). tile_path rid tile_root (tile_identifier p key x y)) (set (map (\<lambda>b. (tb_x b, tb_y b)) boxes))"
    using tile_boxes_within [OF assms] tile_identifier_inject [of _ _ _ _ p key]
    by (auto simp: inj_on_def tile_path_def) (metis (no_types))+
  ultimately have "distinct (map (\<lambda>(x, y). tile_path rid tile_root (tile_identifier p key x y)) (map (\<lambda>b. (tb_x b, tb_y b)) boxes))"
    unfolding distinct_map by blast
  then show ?thesis by (simp add: comp_def)
qed

end
