(* ===== verification/Nplg_Pdf_Ipc.thy ===== *)
theory Nplg_Pdf_Ipc
  imports Nplg_Pdf_Manifest Nplg_Digest Nplg_Filesystem
begin

text \<open>
  The private PDF worker transport: \<^verbatim>\<open>src/nplg_mcp/pdf_ipc.py\<close> (paths, commands, the structural check of a frame,
  frame encoding) and the frame readers of \<^verbatim>\<open>pdf_worker_client.py\<close> and \<^verbatim>\<open>pdf_worker_main.py\<close>. \<open>PdfIpcError\<close> is a
  \<open>ValueError\<close>. Parsing the fields of a model and printing one belong to pydantic and are arguments; the constraints
  the fields must meet are the ones declared in the source.
\<close>

section \<open>Errors and paths\<close>

datatype worker_exc =
    PdfWorkerError string
  | PdfWorkerOperationalError string
  | PdfWorkerUnavailableError string
  | IncompleteReadError
  | WorkerRaised pyexc

definition MAX_COMMAND_FRAME_BYTES :: nat where "MAX_COMMAND_FRAME_BYTES = 65536"
definition MAX_RESULT_FRAME_BYTES :: nat where "MAX_RESULT_FRAME_BYTES = 4194304"
definition MAX_JSON_DEPTH :: nat where "MAX_JSON_DEPTH = 64"
definition MAX_JSON_VALUES :: nat where "MAX_JSON_VALUES = 32768"
definition MAX_SAFE_PATH_LENGTH :: nat where "MAX_SAFE_PATH_LENGTH = 512"

definition safe_char :: "nat \<Rightarrow> bool" where
  "safe_char c = (65 \<le> c \<and> c \<le> 90 \<or> 97 \<le> c \<and> c \<le> 122 \<or> is_digit c \<or> c = 46 \<or> c = 95 \<or> c = 45)"

definition safe_segment :: "pystr \<Rightarrow> bool" where
  "safe_segment s = (s \<noteq> [] \<and> list_all safe_char s)"

definition unsafe_part :: "pystr \<Rightarrow> bool" where
  "unsafe_part part =
     (part \<in> {[], codes ''.'', codes ''..''} \<or> \<not> safe_segment part \<or> list_ex (\<lambda>c. c < 32 \<or> c = 127) part)"

definition validate_safe_relative_path :: "pystr \<Rightarrow> pystr res" where
  "validate_safe_relative_path value =
     (if value = [] \<or> MAX_SAFE_PATH_LENGTH < length value \<or> posix_is_absolute value \<or> 92 \<in> set value \<or> 0 \<in> set value
         \<or> as_posix value \<noteq> value \<or> list_ex unsafe_part (split_on SLASH value)
      then Inl (ValueError ''worker relative path is invalid'') else Inr value)"

section \<open>Commands\<close>

record RenderTilesParams =
  rq_render_id :: pystr
  rq_page_number :: int
  rq_tile_width :: "int option"
  rq_tile_height :: "int option"
  rq_overlap :: "int option"

datatype PdfCommand =
    InspectCommand (command_id: pystr) (source_relative_path: pystr)
  | RenderPagesCommand (command_id: pystr) (source_relative_path: pystr) (selected_pages: "int list")
  | RenderTilesCommand (command_id: pystr) (tile_parameters: RenderTilesParams)
  | ManifestCommand (command_id: pystr) (manifest_render_id: pystr)

datatype PdfOperation = OpInspect | OpRenderPages | OpRenderTiles | OpManifest

fun command_operation :: "PdfCommand \<Rightarrow> PdfOperation" where
  "command_operation (InspectCommand _ _) = OpInspect"
| "command_operation (RenderPagesCommand _ _ _) = OpRenderPages"
| "command_operation (RenderTilesCommand _ _) = OpRenderTiles"
| "command_operation (ManifestCommand _ _) = OpManifest"

definition page_number_ok :: "int \<Rightarrow> bool" where "page_number_ok n = (1 \<le> n \<and> n \<le> 10000)"
definition tile_dimension_ok :: "int \<Rightarrow> bool" where "tile_dimension_ok n = (256 \<le> n \<and> n \<le> HARD_MAX_TILE_DIMENSION)"
definition tile_overlap_ok :: "int \<Rightarrow> bool" where "tile_overlap_ok n = (0 \<le> n \<and> n \<le> HARD_MAX_TILE_OVERLAP)"

definition optional_ok :: "('a \<Rightarrow> bool) \<Rightarrow> 'a option \<Rightarrow> bool" where
  "optional_ok P x = (case x of None \<Rightarrow> True | Some v \<Rightarrow> P v)"

text \<open>\<open>RenderTilesParams.model_post_init\<close>.\<close>

definition tiles_post_init :: "RenderTilesParams \<Rightarrow> unit res" where
  "tiles_post_init p =
     (case rq_overlap p of
        None \<Rightarrow> Inr ()
      | Some ov \<Rightarrow>
          if \<not> optional_ok (\<lambda>w. ov < w) (rq_tile_width p) then Inl (ValueError ''overlap must be smaller than tile_width'')
          else if \<not> optional_ok (\<lambda>h. ov < h) (rq_tile_height p) then Inl (ValueError ''overlap must be smaller than tile_height'')
          else Inr ())"

definition render_id_ok :: "pystr \<Rightarrow> bool" where
  "render_id_ok rid = is_ok (validate_render_id rid)"

definition tiles_params_ok :: "RenderTilesParams \<Rightarrow> bool" where
  "tiles_params_ok p =
     (render_id_ok (rq_render_id p) \<and> page_number_ok (rq_page_number p)
      \<and> optional_ok tile_dimension_ok (rq_tile_width p) \<and> optional_ok tile_dimension_ok (rq_tile_height p)
      \<and> optional_ok tile_overlap_ok (rq_overlap p) \<and> is_ok (tiles_post_init p))"

text \<open>The constraints the command models declare on their fields.\<close>

fun command_ok :: "PdfCommand \<Rightarrow> bool" where
  "command_ok (InspectCommand _ path) = is_ok (validate_safe_relative_path path)"
| "command_ok (RenderPagesCommand _ path pages) =
     (is_ok (validate_safe_relative_path path) \<and> 1 \<le> length pages \<and> length pages \<le> 8 \<and> list_all page_number_ok pages)"
| "command_ok (RenderTilesCommand _ p) = tiles_params_ok p"
| "command_ok (ManifestCommand _ rid) = render_id_ok rid"

section \<open>The structural check of a frame\<close>

definition reject_constant :: "string \<Rightarrow> pyval res" where
  "reject_constant value = Inl (ValueError (''non-finite JSON constant is forbidden: '' @ value))"

fun reject_pairs_loop :: "(pyval \<times> pyval) list \<Rightarrow> (pystr \<times> pyval) list \<Rightarrow> pyval res" where
  "reject_pairs_loop value [] = Inr (VDict value)"
| "reject_pairs_loop value ((key, item) # pairs) =
     (if VStr key \<in> set (map fst value) then Inl (ValueError ''duplicate JSON object key is forbidden'')
      else reject_pairs_loop (value @ [(VStr key, item)]) pairs)"

definition reject_duplicate_pairs :: "(pystr \<times> pyval) list \<Rightarrow> pyval res" where
  "reject_duplicate_pairs pairs = reject_pairs_loop [] pairs"

definition frame_hooks :: json_hooks where
  "frame_hooks =
     \<lparr>object_pairs_hook = Some reject_duplicate_pairs, parse_constant = Some reject_constant, parse_float = None\<rparr>"

fun json_children :: "pyval \<Rightarrow> pyval list" where
  "json_children (VList vs) = vs"
| "json_children (VDict es) = map snd es"
| "json_children _ = []"

definition non_finite :: "pyval \<Rightarrow> bool" where
  "non_finite v = (case v of VFloat x \<Rightarrow> \<not> isfinite x | _ \<Rightarrow> False)"

text \<open>
  The worklist loop; the head of the list is the top of the stack, and \<open>None\<close> means that the fuel ran out, which it
  never does (\<open>structure_loop_total\<close>).
\<close>

fun structure_loop :: "nat \<Rightarrow> (pyval \<times> nat) list \<Rightarrow> nat \<Rightarrow> unit res option" where
  "structure_loop fuel [] visited = Some (Inr ())"
| "structure_loop 0 (_ # _) visited = None"
| "structure_loop (Suc fuel) ((item, level) # todo) visited =
     (let visited' = visited + 1
      in if MAX_JSON_VALUES < visited' \<or> MAX_JSON_DEPTH < level
         then Some (Inl (ValueError ''worker JSON structure exceeds its limit''))
         else if non_finite item then Some (Inl (ValueError ''worker JSON numbers must be finite''))
         else structure_loop fuel (rev (map (\<lambda>child. (child, level + 1)) (json_children item)) @ todo) visited')"

definition structure_check :: "pyval \<Rightarrow> unit res" where
  "structure_check v =
     (case structure_loop (MAX_JSON_VALUES + 1) [(v, 1)] 0 of Some r \<Rightarrow> r | None \<Rightarrow> Inl (RuntimeError ''fuel''))"

definition canonical_failure :: "pyexc \<Rightarrow> bool" where
  "canonical_failure e = (e = ValueError ''UnicodeDecodeError'' \<or> e = ValueError ''JSONDecodeError'')"

definition preflight_frame :: "nat \<Rightarrow> bytes \<Rightarrow> unit res" where
  "preflight_frame maximum frame =
     (if frame = [] \<or> maximum < length frame
      then Inl (ValueError ''worker frame length is outside the allowed range'')
      else if starts_with [239, 187, 191] frame then Inl (ValueError ''worker frame must not contain a UTF-8 BOM'')
      else rbind (handled canonical_failure (Inl (ValueError ''worker frame is not canonical UTF-8 JSON''))
                    (case utf8_decode frame of
                       None \<Rightarrow> Inl (ValueError ''UnicodeDecodeError'')
                     | Some text \<Rightarrow> json_loads frame_hooks (JText text)))
             structure_check)"

text \<open>\<open>validate_json(frame, strict=True)\<close>: the fields as pydantic reads them, then the declared constraints.\<close>

definition adapter_validate :: "(bytes \<Rightarrow> 'a option) \<Rightarrow> ('a \<Rightarrow> bool) \<Rightarrow> bytes \<Rightarrow> 'a res" where
  "adapter_validate parse_fields ok frame =
     (case parse_fields frame of
        None \<Rightarrow> Inl (ValueError ''ValidationError'')
      | Some m \<Rightarrow> if ok m then Inr m else Inl (ValueError ''ValidationError''))"

definition parse_command_frame :: "(bytes \<Rightarrow> PdfCommand option) \<Rightarrow> bytes \<Rightarrow> PdfCommand res" where
  "parse_command_frame parse_fields frame =
     rbind (preflight_frame MAX_COMMAND_FRAME_BYTES frame) (\<lambda>_. adapter_validate parse_fields command_ok frame)"

section \<open>Frames\<close>

definition encode_frame :: "nat \<Rightarrow> bytes \<Rightarrow> bytes res" where
  "encode_frame maximum body =
     (if body = [] \<or> maximum < length body then Inl (ValueError ''worker frame length is outside the allowed range'')
      else if 256 ^ 4 \<le> length body then Inl (OverflowError ''int too big to convert'')
      else Inr (be_bytes 4 (length body) @ body))"

text \<open>A stream is what the peer sends until it closes.\<close>

definition readexactly :: "nat \<Rightarrow> bytes \<Rightarrow> worker_exc + bytes \<times> bytes" where
  "readexactly n stream = (if length stream < n then Inl IncompleteReadError else Inr (take n stream, drop n stream))"

definition from_bytes :: "bytes \<Rightarrow> nat" where
  "from_bytes bs = foldl (\<lambda>n b. n * 256 + b) 0 bs"

definition read_one_frame :: "nat \<Rightarrow> worker_exc \<Rightarrow> worker_exc \<Rightarrow> bytes \<Rightarrow> worker_exc + bytes" where
  "read_one_frame maximum bad_length trailing stream =
     rbind (readexactly 4 stream) (\<lambda>(header, rest).
       let size = from_bytes header
       in if size < 1 \<or> maximum < size then Inl bad_length
          else rbind (readexactly size rest) (\<lambda>(body, rest). if rest \<noteq> [] then Inl trailing else Inr body))"

definition read_result_body :: "bytes \<Rightarrow> worker_exc + bytes" where
  "read_result_body =
     read_one_frame MAX_RESULT_FRAME_BYTES
       (PdfWorkerOperationalError ''PDF worker result length is outside the allowed range'')
       (PdfWorkerOperationalError ''PDF worker emitted trailing output'')"

definition read_socket_command :: "bytes \<Rightarrow> worker_exc + bytes" where
  "read_socket_command =
     read_one_frame MAX_COMMAND_FRAME_BYTES
       (WorkerRaised (RuntimeError ''PDF worker command length is outside the allowed range''))
       (WorkerRaised (RuntimeError ''PDF worker command has trailing data''))"

definition read_job_result :: "bytes \<Rightarrow> worker_exc + bytes" where
  "read_job_result =
     read_one_frame MAX_RESULT_FRAME_BYTES
       (WorkerRaised (RuntimeError ''PDF job result length is outside the allowed range''))
       (WorkerRaised (RuntimeError ''PDF job emitted trailing output''))"

text \<open>\<open>_read_command\<close> reads standard input, where a short read returns what there is.\<close>

definition read_command :: "bytes \<Rightarrow> worker_exc + bytes" where
  "read_command stream =
     (let prefix = take 4 stream; rest = drop 4 stream; size = from_bytes prefix
      in if length prefix \<noteq> 4 then Inl (WorkerRaised (RuntimeError ''PDF worker command prefix is truncated''))
         else if size < 1 \<or> MAX_COMMAND_FRAME_BYTES < size
         then Inl (WorkerRaised (RuntimeError ''PDF worker command length is outside the allowed range''))
         else if length (take size rest) \<noteq> size \<or> drop size rest \<noteq> []
         then Inl (WorkerRaised (RuntimeError ''PDF worker command is truncated or has trailing data''))
         else Inr (take size rest))"

fun read_stderr :: "nat \<Rightarrow> nat \<Rightarrow> bytes list \<Rightarrow> worker_exc + unit" where
  "read_stderr limit seen [] = Inr ()"
| "read_stderr limit seen (chunk # chunks) =
     (if limit < seen + length chunk then Inl (PdfWorkerOperationalError ''PDF worker stderr exceeded its limit'')
      else read_stderr limit (seen + length chunk) chunks)"

section \<open>The structural check always ends\<close>

fun json_nodes :: "pyval \<Rightarrow> nat" where
  "json_nodes (VList vs) = 1 + sum_list (map json_nodes vs)"
| "json_nodes (VDict es) = 1 + sum_list (map (\<lambda>(k, v). json_nodes v) es)"
| "json_nodes _ = 1"

fun within_depth :: "nat \<Rightarrow> pyval \<Rightarrow> bool" where
  "within_depth d (VList vs) = (d \<le> MAX_JSON_DEPTH \<and> list_all (within_depth (d + 1)) vs)"
| "within_depth d (VDict es) = (d \<le> MAX_JSON_DEPTH \<and> list_all (\<lambda>(k, v). within_depth (d + 1) v) es)"
| "within_depth d v = (d \<le> MAX_JSON_DEPTH \<and> \<not> non_finite v)"

lemma json_nodes_children: "json_nodes v = 1 + sum_list (map json_nodes (json_children v))"
  by (cases v) (simp_all add: comp_def case_prod_unfold)

lemma within_depth_children:
  "within_depth d v \<longleftrightarrow> d \<le> MAX_JSON_DEPTH \<and> \<not> non_finite v \<and> list_all (within_depth (d + 1)) (json_children v)"
  by (cases v) (auto simp: non_finite_def list_all_iff split: prod.splits)

definition pending :: "(pyval \<times> nat) list \<Rightarrow> nat" where
  "pending todo = sum_list (map (json_nodes \<circ> fst) todo)"

lemma pending_push:
  "pending (rev (map (\<lambda>c. (c, d)) vs) @ todo) = sum_list (map json_nodes vs) + pending todo"
  by (simp add: pending_def comp_def flip: rev_map)

lemma structure_loop_total:
  assumes "MAX_JSON_VALUES < fuel + visited" and "visited \<le> MAX_JSON_VALUES"
  shows "\<exists>r. structure_loop fuel todo visited = Some r
    \<and> (r = Inr () \<longleftrightarrow> visited + pending todo \<le> MAX_JSON_VALUES \<and> list_all (\<lambda>(v, d). within_depth d v) todo)"
  using assms
proof (induction fuel todo visited rule: structure_loop.induct)
  case (3 fuel item level todo visited)
  let ?next = "rev (map (\<lambda>c. (c, level + 1)) (json_children item)) @ todo"
  have count: "pending ((item, level) # todo) = 1 + pending ?next"
    using json_nodes_children [of item] pending_push [of "level + 1" "json_children item" todo] by (simp add: pending_def)
  have bound: "list_all (\<lambda>(v, d). within_depth d v) ((item, level) # todo) \<longleftrightarrow>
      level \<le> MAX_JSON_DEPTH \<and> \<not> non_finite item \<and> list_all (\<lambda>(v, d). within_depth d v) ?next"
    using within_depth_children [of level item] by (auto simp: list_all_iff)
  consider (over) "MAX_JSON_VALUES < visited + 1 \<or> MAX_JSON_DEPTH < level \<or> non_finite item"
    | (next_item) "visited + 1 \<le> MAX_JSON_VALUES" "level \<le> MAX_JSON_DEPTH" "\<not> non_finite item" by linarith
  then show ?case
  proof cases
    case over
    then have "\<exists>e. structure_loop (Suc fuel) ((item, level) # todo) visited = Some (Inl e)" by auto
    moreover have "\<not> (visited + pending ((item, level) # todo) \<le> MAX_JSON_VALUES
        \<and> list_all (\<lambda>(v, d). within_depth d v) ((item, level) # todo))"
      using over unfolding count bound by auto
    ultimately show ?thesis by auto
  next
    case next_item
    then obtain r where r: "structure_loop fuel ?next (visited + 1) = Some r"
      "r = Inr () \<longleftrightarrow> visited + 1 + pending ?next \<le> MAX_JSON_VALUES \<and> list_all (\<lambda>(v, d). within_depth d v) ?next"
      using 3 by (auto simp: Let_def)
    with next_item show ?thesis unfolding count bound by (auto simp: Let_def)
  qed
qed (auto simp: pending_def)

text \<open>
  C11. The structural check of a worker frame ends within one more iteration than the number of values it allows,
  however large or deep the decoded value is, and it accepts exactly the values with at most that many nodes, no node
  below the depth limit and no number that is not finite.
\<close>

theorem frame_check_terminates:
  "\<exists>r. structure_loop (MAX_JSON_VALUES + 1) [(v, 1)] 0 = Some r
     \<and> (r = Inr () \<longleftrightarrow> json_nodes v \<le> MAX_JSON_VALUES \<and> within_depth 1 v)"
  using structure_loop_total [of "MAX_JSON_VALUES + 1" 0 "[(v, 1)]"] by (simp add: pending_def)

lemma structure_check_iff:
  "structure_check v = Inr () \<longleftrightarrow> json_nodes v \<le> MAX_JSON_VALUES \<and> within_depth 1 v"
  using structure_loop_total [of "MAX_JSON_VALUES + 1" 0 "[(v, 1)]"] by (auto simp: structure_check_def pending_def)

text \<open>What an accepted frame is: bounded, without a byte order mark, and one JSON text with the structure above.\<close>

lemma preflight_frame_accepts:
  assumes "preflight_frame maximum frame = Inr ()"
  obtains t v where "frame \<noteq> []" "length frame \<le> maximum" "utf8_decode frame = Some t" "json_loads frame_hooks (JText t) = Inr v"
    "json_nodes v \<le> MAX_JSON_VALUES" "within_depth 1 v"
proof -
  have f: "frame \<noteq> []" "length frame \<le> maximum"
    using assms by (auto simp: preflight_frame_def split: if_splits)
  obtain v where "handled canonical_failure (Inl (ValueError ''worker frame is not canonical UTF-8 JSON''))
      (case utf8_decode frame of None \<Rightarrow> Inl (ValueError ''UnicodeDecodeError'') | Some text \<Rightarrow> json_loads frame_hooks (JText text)) = Inr v"
    "structure_check v = Inr ()"
    using assms by (auto simp: preflight_frame_def rbind_eq_Inr split: if_splits)
  then have "(case utf8_decode frame of None \<Rightarrow> Inl (ValueError ''UnicodeDecodeError'') | Some text \<Rightarrow> json_loads frame_hooks (JText text)) = Inr v"
    "json_nodes v \<le> MAX_JSON_VALUES \<and> within_depth 1 v"
    by (auto simp: handled_Inr_iff structure_check_iff)
  then show ?thesis using that f by (auto split: option.splits)
qed

text \<open>A decoded object never lost a member to a duplicate key.\<close>

lemma reject_pairs_loop_Inr:
  "reject_pairs_loop acc pairs = Inr v \<Longrightarrow> distinct (map fst acc) \<Longrightarrow>
   v = VDict (acc @ map (\<lambda>(k, x). (VStr k, x)) pairs) \<and> distinct (map fst acc @ map (VStr \<circ> fst) pairs)"
  by (induction acc pairs rule: reject_pairs_loop.induct) (auto split: if_splits)

lemma reject_duplicate_pairs_iff:
  "reject_duplicate_pairs pairs = Inr v \<longleftrightarrow>
   distinct (map fst pairs) \<and> v = VDict (map (\<lambda>(k, x). (VStr k, x)) pairs)"
proof
  assume "reject_duplicate_pairs pairs = Inr v"
  from reject_pairs_loop_Inr [OF this [unfolded reject_duplicate_pairs_def]]
  show "distinct (map fst pairs) \<and> v = VDict (map (\<lambda>(k, x). (VStr k, x)) pairs)"
    by (auto simp: distinct_map comp_def inj_on_def)
next
  assume d: "distinct (map fst pairs) \<and> v = VDict (map (\<lambda>(k, x). (VStr k, x)) pairs)"
  have "reject_pairs_loop acc ps = Inr (VDict (acc @ map (\<lambda>(k, x). (VStr k, x)) ps))"
    if "distinct (map fst ps)" "set (map fst acc) \<inter> VStr ` set (map fst ps) = {}" for acc ps
    using that
  proof (induction ps arbitrary: acc)
    case (Cons p ps)
    from Cons.IH [of "acc @ [(VStr (fst p), snd p)]"] Cons.prems show ?case by (cases p) auto
  qed simp
  from this [of pairs "[]"] d show "reject_duplicate_pairs pairs = Inr v" by (simp add: reject_duplicate_pairs_def)
qed

section \<open>Safe paths\<close>

text \<open>
  An accepted worker path stays below the job root: it is short, relative and canonical, and each of its components is a
  nonempty word of portable characters other than the two dot names.
\<close>

theorem safe_paths_are_confined:
  assumes "validate_safe_relative_path value = Inr path"
  shows "path = value \<and> value \<noteq> [] \<and> length value \<le> 512 \<and> \<not> posix_is_absolute value
    \<and> list_all (\<lambda>part. part \<noteq> [] \<and> part \<noteq> codes ''.'' \<and> part \<noteq> codes ''..'' \<and> list_all safe_char part) (split_on SLASH value)
    \<and> posix_parts value = split_on SLASH value"
proof -
  have p: "path = value" "value \<noteq> []" "length value \<le> MAX_SAFE_PATH_LENGTH" "\<not> posix_is_absolute value" "as_posix value = value"
    "\<not> list_ex unsafe_part (split_on SLASH value)"
    using assms by (simp_all only: validate_safe_relative_path_def split: if_splits) simp_all
  have "list_all (\<lambda>part. \<not> unsafe_part part) (split_on SLASH value)" using p(6) by (simp add: list_all_iff list_ex_iff)
  then have "list_all (\<lambda>part. part \<noteq> [] \<and> part \<noteq> codes ''.'' \<and> part \<noteq> codes ''..'' \<and> list_all safe_char part) (split_on SLASH value)"
    by (rule list.pred_mono_strong) (simp add: unsafe_part_def safe_segment_def)
  moreover have "posix_root value = []" using p(4) by (simp add: posix_is_absolute_def)
  moreover have "posix_names value = split_on SLASH value"
    unfolding posix_names_def by (rule filter_True) (use calculation(1) in \<open>simp add: list_all_iff\<close>)
  ultimately show ?thesis using p(1-4) by (simp add: MAX_SAFE_PATH_LENGTH_def posix_parts_def del: codes_simps)
qed

section \<open>Frames read back\<close>

lemma from_bytes_append: "from_bytes (xs @ [b]) = from_bytes xs * 256 + b"
  by (simp add: from_bytes_def)

lemma from_be_bytes: "from_bytes (be_bytes k n) = n mod 256 ^ k"
proof (induction k arbitrary: n)
  case (Suc k)
  have "n mod (256 ^ k * 256) = 256 * (n div 256 mod 256 ^ k) + n mod 256"
    using mod_mult2_eq [of n 256 "256 ^ k"] by (simp add: mult.commute)
  with Suc show ?case by (simp add: from_bytes_append mult.commute)
qed (simp add: from_bytes_def)

lemma be_from_bytes: "is_bytes bs \<Longrightarrow> be_bytes (length bs) (from_bytes bs) = bs"
  by (induction bs rule: rev_induct) (auto simp: is_bytes_def from_bytes_append)

lemma read_one_frame_iff:
  assumes "is_bytes stream" and "maximum < 256 ^ 4"
  shows "read_one_frame maximum e1 e2 stream = Inr body \<longleftrightarrow> encode_frame maximum body = Inr stream"
proof
  assume "read_one_frame maximum e1 e2 stream = Inr body"
  then have r: "4 \<le> length stream" "1 \<le> from_bytes (take 4 stream)" "from_bytes (take 4 stream) \<le> maximum"
    "from_bytes (take 4 stream) \<le> length (drop 4 stream)" "drop (from_bytes (take 4 stream)) (drop 4 stream) = []"
    "body = take (from_bytes (take 4 stream)) (drop 4 stream)"
    by (auto simp: read_one_frame_def readexactly_def rbind_eq_Inr Let_def split: if_splits)
  then have b: "body = drop 4 stream" "length body = from_bytes (take 4 stream)" by simp_all
  have "is_bytes (take 4 stream)" using assms(1) by (auto simp: is_bytes_def dest: in_set_takeD)
  then have "be_bytes 4 (length body) = take 4 stream" using be_from_bytes [of "take 4 stream"] b r(1) by simp
  then have "be_bytes 4 (length body) @ body = stream" by (simp add: b(1))
  moreover have "body \<noteq> []" "length body \<le> maximum" using r b by auto
  ultimately show "encode_frame maximum body = Inr stream" using assms(2) by (simp add: encode_frame_def)
next
  assume "encode_frame maximum body = Inr stream"
  then have e: "stream = be_bytes 4 (length body) @ body" "body \<noteq> []" "length body \<le> maximum" "length body < 256 ^ 4"
    by (auto simp: encode_frame_def split: if_splits)
  then show "read_one_frame maximum e1 e2 stream = Inr body"
    using from_be_bytes [of 4 "length body"] by (auto simp: read_one_frame_def readexactly_def Let_def Suc_le_eq)
qed

lemma read_command_agrees: "read_command stream = Inr body \<longleftrightarrow> read_socket_command stream = Inr body"
  by (auto simp: read_command_def read_socket_command_def read_one_frame_def readexactly_def rbind_eq_Inr Let_def min_def split: if_splits)

lemmas frame_limits = MAX_COMMAND_FRAME_BYTES_def MAX_RESULT_FRAME_BYTES_def

text \<open>
  Every reader of the transport accepts exactly the streams that the frame encoder writes for that reader's limit:
  a stream is read as a body if and only if encoding the body gives the stream. So a frame survives the pipe and the
  socket in both directions, and a short, oversized, empty or trailing stream is refused.
\<close>

theorem frames_roundtrip:
  assumes "is_bytes stream"
  shows "(read_result_body stream = Inr body \<longleftrightarrow> encode_frame MAX_RESULT_FRAME_BYTES body = Inr stream)
    \<and> (read_job_result stream = Inr body \<longleftrightarrow> encode_frame MAX_RESULT_FRAME_BYTES body = Inr stream)
    \<and> (read_socket_command stream = Inr body \<longleftrightarrow> encode_frame MAX_COMMAND_FRAME_BYTES body = Inr stream)
    \<and> (read_command stream = Inr body \<longleftrightarrow> encode_frame MAX_COMMAND_FRAME_BYTES body = Inr stream)"
  using assms read_one_frame_iff [of stream]
  by (simp add: read_command_agrees read_result_body_def read_job_result_def read_socket_command_def frame_limits)

lemma read_stderr_iff: "read_stderr limit seen chunks = Inr () \<longleftrightarrow> chunks = [] \<or> seen + length (concat chunks) \<le> limit"
proof (induction chunks arbitrary: seen)
  case (Cons c cs)
  show ?case by (cases "cs = []") (auto simp: Cons.IH)
qed simp

end
