(* ===== verification/Nplg_Pdf_Executor.thy ===== *)
theory Nplg_Pdf_Executor
  imports Nplg_Pdf_Ipc Nplg_Publication Nplg_Worker_Slot Nplg_Deadline Nplg_Interfaces
begin

text \<open>
  Isolated PDF execution (\<^verbatim>\<open>src/nplg_mcp/pdf_executor.py\<close>): the publication plan of a command, the executor that reserves it
  in the store around the worker call, the worker policies, and the circuit breaker together with the serialized attempts
  of \<^verbatim>\<open>SubprocessPdfExecutor.execute\<close> in \<^verbatim>\<open>pdf_worker_client.py\<close>. The worker call itself is an argument.
\<close>

section \<open>Publication plans\<close>

definition HARD_MAX_TILES_PER_PAGE :: int where "HARD_MAX_TILES_PER_PAGE = 100"
definition HARD_MAX_RENDER_PAGES :: int where "HARD_MAX_RENDER_PAGES = 8"
definition HARD_MAX_PAGE_PIXELS :: int where "HARD_MAX_PAGE_PIXELS = 120000000"
definition HARD_MAX_RENDER_PIXELS :: int where "HARD_MAX_RENDER_PIXELS = 480000000"
definition MAX_PDF_PUBLICATION_FILES :: int where "MAX_PDF_PUBLICATION_FILES = HARD_MAX_TILES_PER_PAGE + 1"
definition MAX_PDF_PUBLICATION_DIRECTORIES :: int where "MAX_PDF_PUBLICATION_DIRECTORIES = 3"
definition MAX_PDF_PUBLICATION_INODES :: int where "MAX_PDF_PUBLICATION_INODES = 10000000"
definition MAX_RENDER_RESOURCE_INDEX_BYTES :: int where "MAX_RENDER_RESOURCE_INDEX_BYTES = 4096"

record PdfPublicationPlan =
  pl_operation :: PdfOperation
  pl_output_files :: int
  pl_output_directories :: int
  pl_temporary_files :: int
  pl_new_bytes :: int
  pl_new_objects :: int
  pl_new_inodes :: int

definition require_complete_tree_capacity :: "PdfPublicationPlan \<Rightarrow> PdfPublicationPlan res" where
  "require_complete_tree_capacity pl =
     (if pl_new_bytes pl < pl_output_files pl
      then Inl (ValueError ''PDF publication bytes do not cover every bounded output'')
      else if pl_new_inodes pl < pl_output_files pl + pl_output_directories pl + pl_temporary_files pl
      then Inl (ValueError ''PDF publication inodes do not cover the complete tree'')
      else Inr pl)"

definition publication_plan_new :: "PdfPublicationPlan \<Rightarrow> PdfPublicationPlan res" where
  "publication_plan_new pl =
     (if \<not> (2 \<le> pl_output_files pl \<and> pl_output_files pl \<le> MAX_PDF_PUBLICATION_FILES
          \<and> 1 \<le> pl_output_directories pl \<and> pl_output_directories pl \<le> MAX_PDF_PUBLICATION_DIRECTORIES
          \<and> pl_temporary_files pl = 1 \<and> 1 \<le> pl_new_bytes pl \<and> pl_new_bytes pl \<le> HARD_MAX_CACHE_BYTES
          \<and> pl_new_objects pl = 1 \<and> 1 \<le> pl_new_inodes pl \<and> pl_new_inodes pl \<le> MAX_PDF_PUBLICATION_INODES
          \<and> pl_operation pl \<in> {OpRenderPages, OpRenderTiles})
      then Inl (ValueError ''ValidationError'') else require_complete_tree_capacity pl)"

record PostprocessingPlan =
  pq_new_bytes :: int
  pq_new_objects :: int
  pq_new_inodes :: int

definition postprocessing_plan :: "int \<Rightarrow> PostprocessingPlan res" where
  "postprocessing_plan maximum_index_files =
     (if \<not> (1 \<le> maximum_index_files \<and> maximum_index_files \<le> HARD_MAX_TILES_PER_PAGE + 1)
      then Inl (ValueError ''ValidationError'')
      else Inr \<lparr>pq_new_bytes = maximum_index_files * MAX_RENDER_RESOURCE_INDEX_BYTES, pq_new_objects = 1,
                pq_new_inodes = 2 * maximum_index_files + 2\<rparr>)"

definition plan_of :: "PdfOperation \<Rightarrow> int \<Rightarrow> int \<Rightarrow> PdfWorkerSlotPolicy \<Rightarrow> PdfPublicationPlan" where
  "plan_of operation output_files output_directories policy =
     \<lparr>pl_operation = operation, pl_output_files = output_files, pl_output_directories = output_directories,
      pl_temporary_files = 1, pl_new_bytes = max (po_maximum_total_bytes policy) output_files, pl_new_objects = 1,
      pl_new_inodes = max (po_maximum_total_inodes policy) (output_files + output_directories + 1)\<rparr>"

definition derive_validated_publication_plan :: "PdfCommand \<Rightarrow> PdfWorkerSlotPolicy \<Rightarrow> PdfPublicationPlan option res" where
  "derive_validated_publication_plan command policy =
     (case command of
        RenderPagesCommand _ _ pages \<Rightarrow>
          rbind (publication_plan_new (plan_of OpRenderPages (int (length pages) + 1) 1 policy)) (\<lambda>pl. Inr (Some pl))
      | RenderTilesCommand _ _ \<Rightarrow>
          rbind (publication_plan_new (plan_of OpRenderTiles (HARD_MAX_TILES_PER_PAGE + 1) 3 policy)) (\<lambda>pl. Inr (Some pl))
      | _ \<Rightarrow> Inr None)"

text \<open>Commands and policies are printed and read back by pydantic, which checks the declared constraints again.\<close>

definition validated_pdf_command :: "PdfCommand \<Rightarrow> PdfCommand res" where
  "validated_pdf_command command = (if command_ok command then Inr command else Inl (ValueError ''ValidationError''))"

definition validated_slot_policy :: "PdfWorkerSlotPolicy \<Rightarrow> PdfWorkerSlotPolicy res" where
  "validated_slot_policy policy =
     (if is_ok (policy_validators policy) then Inr policy else Inl (ValueError ''ValidationError''))"

definition derive_pdf_publication_plan :: "PdfCommand \<Rightarrow> PdfWorkerSlotPolicy \<Rightarrow> PdfPublicationPlan option res" where
  "derive_pdf_publication_plan command policy =
     rbind (validated_pdf_command command) (\<lambda>command.
     rbind (validated_slot_policy policy) (\<lambda>policy. derive_validated_publication_plan command policy))"

section \<open>The reserving executor\<close>

datatype executor_exc = FromStore store_exc | FromWorker worker_exc

type_synonym 'a executor_op = "(executor_exc, Store, 'a) op"

text \<open>
  The body of \<open>async with store.reserve_publication(...)\<close>: the store is entered with one view of its environment and
  the commit made with another; leaving the context aborts a reservation that is still open.
\<close>

definition reserved_body :: "store_io \<Rightarrow> nat \<Rightarrow> 'a executor_op \<Rightarrow> 'a executor_op" where
  "reserved_body io i inner st =
     (case inner st of
        (Inl e, st1) \<Rightarrow> (Inl e, st1)
      | (Inr v, st1) \<Rightarrow>
          (case reservation_commit io i (PInt 0) (PInt 0) (PInt 0) st1 of
             (Inl e, st2) \<Rightarrow> (Inl (FromStore e), st2)
           | (Inr _, st2) \<Rightarrow> (Inr v, st2)))"

definition leave_reservation :: "nat \<Rightarrow> (executor_exc + 'a) \<times> Store \<Rightarrow> (executor_exc + 'a) \<times> Store" where
  "leave_reservation i outcome =
     (case reservation_context_exit i (snd outcome) of
        (Inl e, st) \<Rightarrow> (Inl (FromStore e), st)
      | (Inr _, st) \<Rightarrow> (fst outcome, st))"

definition with_reservation ::
  "store_io \<Rightarrow> store_io \<Rightarrow> RetentionPolicy \<Rightarrow> RetentionClockSample \<Rightarrow> int \<Rightarrow> int \<Rightarrow> int \<Rightarrow> 'a executor_op \<Rightarrow> 'a executor_op" where
  "with_reservation io io' policy clock new_bytes new_objects new_inodes inner st =
     (case reserve_publication policy (PInt new_bytes) (PInt new_objects) (PInt new_inodes) clock st of
        (Inl e, st1) \<Rightarrow> (Inl (FromStore e), st1)
      | (Inr i, st1) \<Rightarrow>
          (case begin_publication_reservation io i st1 of
             (Inl e, st2) \<Rightarrow> (Inl (FromStore e), st2)
           | (Inr _, st2) \<Rightarrow> leave_reservation i (reserved_body io' i inner st2)))"

definition reserving_execute ::
  "store_io \<Rightarrow> store_io \<Rightarrow> RetentionPolicy \<Rightarrow> RetentionClockSample \<Rightarrow> PdfWorkerSlotPolicy \<Rightarrow> (PdfCommand \<Rightarrow> 'a executor_op)
     \<Rightarrow> PdfCommand \<Rightarrow> 'a executor_op" where
  "reserving_execute io io' policy clock slot_policy inner command st =
     (case rbind (validated_pdf_command command) (\<lambda>command. derive_validated_publication_plan command slot_policy) of
        Inl e \<Rightarrow> (Inl (FromWorker (WorkerRaised e)), st)
      | Inr None \<Rightarrow> inner command st
      | Inr (Some pl) \<Rightarrow>
          with_reservation io io' policy clock (pl_new_bytes pl) (pl_new_objects pl) (pl_new_inodes pl) (inner command) st)"

definition reserve_postprocessing_publication ::
  "store_io \<Rightarrow> store_io \<Rightarrow> RetentionPolicy \<Rightarrow> RetentionClockSample \<Rightarrow> int \<Rightarrow> 'a executor_op \<Rightarrow> 'a executor_op" where
  "reserve_postprocessing_publication io io' policy clock maximum_index_files body st =
     (case postprocessing_plan maximum_index_files of
        Inl e \<Rightarrow> (Inl (FromWorker (WorkerRaised e)), st)
      | Inr pq \<Rightarrow> with_reservation io io' policy clock (pq_new_bytes pq) (pq_new_objects pq) (pq_new_inodes pq) body st)"

section \<open>Worker policies\<close>

definition resource_limits_new :: "pyobj list \<Rightarrow> pyfloat \<Rightarrow> unit res" where
  "resource_limits_new integers termination_grace_seconds =
     (if list_ex (\<lambda>v. case v of PInt n \<Rightarrow> n \<le> 0 | _ \<Rightarrow> True) integers
      then Inl (ValueError ''PDF resource limits must be positive integers'')
      else if \<not> isfinite termination_grace_seconds \<or> fle termination_grace_seconds (Fin 0)
              \<or> flt (Fin 5) termination_grace_seconds
      then Inl (ValueError ''PDF termination grace period is invalid'')
      else Inr ())"

record PdfProcessorSettings =
  se_max_pages_per_render :: int
  se_max_page_pixels :: int
  se_max_render_pixels :: int
  se_fallback_dpi :: int
  se_tile_width :: int
  se_tile_height :: int
  se_tile_overlap :: int
  se_max_tiles_per_page :: int

definition settings_bounds :: "PdfProcessorSettings \<Rightarrow> (int \<times> int \<times> int) list" where
  "settings_bounds s =
     [(se_max_pages_per_render s, 1, HARD_MAX_RENDER_PAGES), (se_max_page_pixels s, 1, HARD_MAX_PAGE_PIXELS),
      (se_max_render_pixels s, 1, HARD_MAX_RENDER_PIXELS), (se_fallback_dpi s, 72, 1200),
      (se_tile_width s, 256, HARD_MAX_TILE_DIMENSION), (se_tile_height s, 256, HARD_MAX_TILE_DIMENSION),
      (se_tile_overlap s, 0, HARD_MAX_TILE_OVERLAP), (se_max_tiles_per_page s, 1, HARD_MAX_TILES_PER_PAGE)]"

definition processor_settings_new :: "PdfProcessorSettings \<Rightarrow> PdfProcessorSettings res" where
  "processor_settings_new s =
     (if list_ex (\<lambda>(v, lo, hi). \<not> (lo \<le> v \<and> v \<le> hi)) (settings_bounds s)
      then Inl (ValueError ''PDF processor settings are outside their allowed range'')
      else if min (se_tile_width s) (se_tile_height s) \<le> se_tile_overlap s
      then Inl (ValueError ''PDF tile overlap must be smaller than both dimensions'')
      else Inr s)"

record PdfCircuitPolicy =
  cp_failure_threshold :: int
  cp_open_seconds :: pyfloat

definition circuit_policy_new :: "pyobj \<Rightarrow> pyobj \<Rightarrow> PdfCircuitPolicy res" where
  "circuit_policy_new failure_threshold open_seconds =
     (case (failure_threshold, open_seconds) of
        (PInt n, PFloat x) \<Rightarrow>
          if 1 \<le> n \<and> n \<le> 100 \<and> isfinite x \<and> flt (Fin 0) x \<and> fle x (Fin 3600)
          then Inr \<lparr>cp_failure_threshold = n, cp_open_seconds = x\<rparr>
          else Inl (ValueError ''PDF circuit policy is invalid'')
      | _ \<Rightarrow> Inl (ValueError ''PDF circuit policy is invalid''))"

definition worker_policy_new :: "pyobj \<Rightarrow> unit res" where
  "worker_policy_new capacity =
     (if capacity \<noteq> PInt 1 then Inl (ValueError ''disposable PDF executor capacity must equal 1'') else Inr ())"

section \<open>The circuit breaker\<close>

record PdfCircuitBreaker =
  cb_policy :: PdfCircuitPolicy
  cb_last_now :: "pyfloat option"
  cb_failures :: int
  cb_open_until :: "pyfloat option"
  cb_half_open_probe :: bool

definition circuit_breaker_new :: "PdfCircuitPolicy \<Rightarrow> PdfCircuitBreaker" where
  "circuit_breaker_new p =
     \<lparr>cb_policy = p, cb_last_now = None, cb_failures = 0, cb_open_until = None, cb_half_open_probe = False\<rparr>"

type_synonym 'a circuit_op = "(worker_exc, PdfCircuitBreaker, 'a) op"

text \<open>The clock's answer is an argument of every operation that reads it.\<close>

definition circuit_now :: "pyobj \<Rightarrow> pyfloat circuit_op" where
  "circuit_now clock c =
     (case clock of
        PFloat x \<Rightarrow>
          if \<not> isfinite x \<or> flt x (Fin 0) \<or> (case cb_last_now c of None \<Rightarrow> False | Some previous \<Rightarrow> flt x previous)
          then (Inl (WorkerRaised (RuntimeError ''PDF circuit monotonic clock is invalid'')), c)
          else (Inr x, c\<lparr>cb_last_now := Some x\<rparr>)
      | _ \<Rightarrow> (Inl (WorkerRaised (RuntimeError ''PDF circuit monotonic clock is invalid'')), c))"

definition circuit_unavailable :: worker_exc where
  "circuit_unavailable = PdfWorkerUnavailableError ''PDF worker is temporarily unavailable''"

text \<open>The test that \<open>ensure_ready\<close> and \<open>before_attempt\<close> share.\<close>

definition circuit_admits :: "pyobj \<Rightarrow> unit circuit_op" where
  "circuit_admits clock c =
     (case cb_open_until c of
        None \<Rightarrow> (Inr (), c)
      | Some u \<Rightarrow>
          if cb_half_open_probe c then (Inl circuit_unavailable, c)
          else (case circuit_now clock c of
                  (Inl e, c1) \<Rightarrow> (Inl e, c1)
                | (Inr x, c1) \<Rightarrow> if flt x u then (Inl circuit_unavailable, c1) else (Inr (), c1)))"

definition circuit_ensure_ready :: "pyobj \<Rightarrow> unit circuit_op" where
  "circuit_ensure_ready clock c = circuit_admits clock c"

definition before_attempt :: "pyobj \<Rightarrow> unit circuit_op" where
  "before_attempt clock c =
     (case circuit_admits clock c of
        (Inl e, c1) \<Rightarrow> (Inl e, c1)
      | (Inr _, c1) \<Rightarrow> (Inr (), if cb_open_until c = None then c1 else c1\<lparr>cb_half_open_probe := True\<rparr>))"

definition record_success :: "PdfCircuitBreaker \<Rightarrow> PdfCircuitBreaker" where
  "record_success c = c\<lparr>cb_failures := 0, cb_open_until := None, cb_half_open_probe := False\<rparr>"

definition record_operational_failure :: "pyobj \<Rightarrow> unit circuit_op" where
  "record_operational_failure clock c =
     (let c1 = c\<lparr>cb_failures := cb_failures c + 1\<rparr>
      in if \<not> cb_half_open_probe c1 \<and> cb_failures c1 < cp_failure_threshold (cb_policy c1) then (Inr (), c1)
         else case circuit_now clock c1 of
           (Inl e, c2) \<Rightarrow> (Inl e, c2)
         | (Inr now, c2) \<Rightarrow>
             let open_until = fadd now (cp_open_seconds (cb_policy c2))
             in if \<not> isfinite open_until \<or> fle open_until now
                then (Inl (WorkerRaised (RuntimeError ''PDF circuit open deadline is invalid'')), c2)
                else (Inr (), c2\<lparr>cb_failures := cp_failure_threshold (cb_policy c2), cb_open_until := Some open_until,
                              cb_half_open_probe := False\<rparr>))"

definition record_cancelled :: "PdfCircuitBreaker \<Rightarrow> PdfCircuitBreaker" where
  "record_cancelled c = c\<lparr>cb_half_open_probe := False\<rparr>"

section \<open>Serialized attempts\<close>

text \<open>
  How \<open>_execute_with_permit\<close> ends: a result, an operational error, or any other exception, a cancellation included.
  The semaphore of capacity one is \<open>permit_free\<close>.
\<close>

datatype attempt_outcome = Succeeded | OperationalFailure string | OtherFailure worker_exc

record pdf_executor =
  ex_circuit :: PdfCircuitBreaker
  permit_free :: bool

definition executor_new :: "PdfCircuitPolicy \<Rightarrow> pdf_executor" where
  "executor_new p = \<lparr>ex_circuit = circuit_breaker_new p, permit_free = True\<rparr>"

definition attempt_begin :: "MonotonicDeadline \<Rightarrow> pyobj \<Rightarrow> pyobj \<Rightarrow> (worker_exc, pdf_executor, unit) op" where
  "attempt_begin deadline now clock ex =
     (case deadline_remaining deadline now of
        Inl e \<Rightarrow> (Inl (WorkerRaised e), ex)
      | Inr seconds \<Rightarrow>
          if fle seconds (Fin 0)
          then (Inl (PdfWorkerOperationalError ''PDF worker deadline expired before capacity acquisition''), ex)
          else if \<not> permit_free ex
          then (Inl (PdfWorkerOperationalError ''PDF worker exceeded its deadline while awaiting capacity''), ex)
          else (case before_attempt clock (ex_circuit ex) of
                  (Inl e, c) \<Rightarrow> (Inl e, ex\<lparr>ex_circuit := c\<rparr>)
                | (Inr _, c) \<Rightarrow> (Inr (), ex\<lparr>ex_circuit := c, permit_free := False\<rparr>)))"

definition finish_attempt :: "pyobj \<Rightarrow> attempt_outcome \<Rightarrow> unit circuit_op" where
  "finish_attempt clock outcome c =
     (case outcome of
        Succeeded \<Rightarrow> (Inr (), record_success c)
      | OperationalFailure m \<Rightarrow>
          (case record_operational_failure clock c of
             (Inl e, c1) \<Rightarrow> (Inl e, c1)
           | (Inr _, c1) \<Rightarrow> (Inl (PdfWorkerOperationalError m), c1))
      | OtherFailure e \<Rightarrow> (Inl e, record_cancelled c))"

definition attempt_end :: "pyobj \<Rightarrow> attempt_outcome \<Rightarrow> (worker_exc, pdf_executor, unit) op" where
  "attempt_end clock outcome ex =
     (case finish_attempt clock outcome (ex_circuit ex) of (r, c) \<Rightarrow> (r, ex\<lparr>ex_circuit := c, permit_free := True\<rparr>))"

text \<open>
  The steps of one executor. An attempt ends with a failure that the circuit could record: its clock reading was
  accepted and gave a deadline in the future.
\<close>

datatype executor_label = LBegin | LRefused | LReady | LEnd attempt_outcome

inductive executor_step :: "pdf_executor \<Rightarrow> executor_label \<Rightarrow> pdf_executor \<Rightarrow> bool" where
  admit: "attempt_begin d now clock ex = (Inr (), ex') \<Longrightarrow> executor_step ex LBegin ex'"
| refuse: "attempt_begin d now clock ex = (Inl e, ex') \<Longrightarrow> executor_step ex LRefused ex'"
| ready: "circuit_ensure_ready clock (ex_circuit ex) = (r, c) \<Longrightarrow> executor_step ex LReady (ex\<lparr>ex_circuit := c\<rparr>)"
| finish: "\<not> permit_free ex \<Longrightarrow> (\<forall>m. outcome = OperationalFailure m \<longrightarrow> fst (record_operational_failure clock (ex_circuit ex)) = Inr ())
    \<Longrightarrow> attempt_end clock outcome ex = (r, ex') \<Longrightarrow> executor_step ex (LEnd outcome) ex'"

text \<open>What the breaker promises: a count of the failures since the last success, capped at the threshold.\<close>

fun count_failures :: "int \<Rightarrow> int \<Rightarrow> executor_label \<Rightarrow> int" where
  "count_failures threshold n (LEnd Succeeded) = 0"
| "count_failures threshold n (LEnd (OperationalFailure m)) = min threshold (n + 1)"
| "count_failures threshold n l = n"

definition circuit_spec :: "PdfCircuitPolicy \<Rightarrow> int \<Rightarrow> executor_label \<Rightarrow> int \<Rightarrow> bool" where
  "circuit_spec p n l n' = (n' = count_failures (cp_failure_threshold p) n l)"

definition circuit_abs :: "pdf_executor \<Rightarrow> int" where
  "circuit_abs ex = cb_failures (ex_circuit ex)"

definition breaker_inv :: "PdfCircuitPolicy \<Rightarrow> pdf_executor \<Rightarrow> bool" where
  "breaker_inv p ex =
     (let c = ex_circuit ex
      in cb_policy c = p \<and> 1 \<le> cp_failure_threshold p \<and> 0 \<le> cb_failures c \<and> cb_failures c \<le> cp_failure_threshold p
         \<and> (cb_open_until c = None \<longleftrightarrow> cb_failures c < cp_failure_threshold p)
         \<and> (cb_half_open_probe c \<longleftrightarrow> \<not> permit_free ex \<and> cb_open_until c \<noteq> None))"

lemma circuit_now_frame:
  "circuit_now clock c = (r, c') \<Longrightarrow> \<exists>n. c' = c\<lparr>cb_last_now := n\<rparr>"
  by (auto simp: circuit_now_def split: pyobj.splits if_splits) (metis PdfCircuitBreaker.surjective PdfCircuitBreaker.update_convs(2))+

lemma circuit_admits_frame: "circuit_admits clock c = (r, c') \<Longrightarrow> \<exists>n. c' = c\<lparr>cb_last_now := n\<rparr>"
  by (auto simp: circuit_admits_def split: option.splits if_splits prod.splits sum.splits dest: circuit_now_frame)
    (metis PdfCircuitBreaker.surjective PdfCircuitBreaker.update_convs(2))+

lemma circuit_admits_Inr:
  assumes "circuit_admits clock c = (Inr (), c')"
  shows "cb_open_until c = None \<or> \<not> cb_half_open_probe c"
    and "cb_open_until c = Some u \<Longrightarrow> \<exists>t. clock = PFloat t \<and> \<not> flt t u"
proof -
  show "cb_open_until c = None \<or> \<not> cb_half_open_probe c"
    using assms by (auto simp: circuit_admits_def split: option.splits if_splits)
  assume "cb_open_until c = Some u"
  then obtain x where "circuit_now clock c = (Inr x, c')" "\<not> flt x u"
    using assms by (auto simp: circuit_admits_def split: if_splits prod.splits sum.splits)
  then show "\<exists>t. clock = PFloat t \<and> \<not> flt t u"
    by (auto simp: circuit_now_def split: pyobj.splits if_splits)
qed

lemma attempt_begin_cases:
  assumes "attempt_begin d now clock ex = (r, ex')"
  obtains (early) e where "r = Inl e" "ex' = ex"
  | (refused) e n where "r = Inl e" "permit_free ex" "ex' = ex\<lparr>ex_circuit := (ex_circuit ex)\<lparr>cb_last_now := n\<rparr>\<rparr>"
  | (admitted) n where "r = Inr ()" "permit_free ex" "circuit_admits clock (ex_circuit ex) = (Inr (), (ex_circuit ex)\<lparr>cb_last_now := n\<rparr>)"
      "ex' = ex\<lparr>ex_circuit := (ex_circuit ex)\<lparr>cb_last_now := n,
         cb_half_open_probe := cb_half_open_probe (ex_circuit ex) \<or> cb_open_until (ex_circuit ex) \<noteq> None\<rparr>, permit_free := False\<rparr>"
proof (cases "deadline_remaining d now")
  case (Inl e)
  with assms show ?thesis by (auto simp: attempt_begin_def intro: early)
next
  case (Inr seconds)
  obtain r1 c1 where a: "circuit_admits clock (ex_circuit ex) = (r1, c1)" by fastforce
  from circuit_admits_frame [OF a] obtain n where n: "c1 = (ex_circuit ex)\<lparr>cb_last_now := n\<rparr>" by blast
  show ?thesis
  proof (cases "fle seconds (Fin 0) \<or> \<not> permit_free ex")
    case True
    with assms Inr show ?thesis by (auto simp: attempt_begin_def intro: early split: if_splits)
  next
    case False
    show ?thesis
    proof (cases r1)
      case (Inl e)
      with assms Inr False a n show ?thesis by (auto simp: attempt_begin_def before_attempt_def intro: refused)
    next
      case ok: (Inr u)
      with assms Inr False a n show ?thesis
        by (intro admitted [of n]) (auto simp: attempt_begin_def before_attempt_def split: if_splits)
    qed
  qed
qed

lemma record_failure_Inr:
  assumes "record_operational_failure clock c = (Inr (), c')"
  shows "\<not> cb_half_open_probe c \<and> cb_failures c + 1 < cp_failure_threshold (cb_policy c) \<and> c' = c\<lparr>cb_failures := cb_failures c + 1\<rparr>
    \<or> (cb_half_open_probe c \<or> cp_failure_threshold (cb_policy c) \<le> cb_failures c + 1)
      \<and> (\<exists>n u. c' = c\<lparr>cb_last_now := n, cb_failures := cp_failure_threshold (cb_policy c), cb_open_until := Some u,
                   cb_half_open_probe := False\<rparr>)"
proof (cases "\<not> cb_half_open_probe c \<and> cb_failures c + 1 < cp_failure_threshold (cb_policy c)")
  case True
  with assms show ?thesis by (simp add: record_operational_failure_def Let_def)
next
  case False
  let ?c = "c\<lparr>cb_failures := cb_failures c + 1\<rparr>"
  obtain r1 c1 where n: "circuit_now clock ?c = (r1, c1)" by fastforce
  from circuit_now_frame [OF n] obtain m where m: "c1 = ?c\<lparr>cb_last_now := m\<rparr>" by blast
  from assms False n m show ?thesis
    by (auto simp: record_operational_failure_def Let_def split: sum.splits if_splits)
qed

lemma executor_step_ok:
  assumes "executor_step ex l ex'" "breaker_inv p ex"
  shows "breaker_inv p ex' \<and> circuit_abs ex' = count_failures (cp_failure_threshold p) (circuit_abs ex) l"
  using assms
proof (cases rule: executor_step.cases)
  case (admit d now clock)
  from admit(2) show ?thesis
  proof (cases rule: attempt_begin_cases)
    case (admitted n)
    with assms(2) admit(1) show ?thesis by (auto simp: breaker_inv_def circuit_abs_def Let_def)
  qed simp_all
next
  case (refuse d now clock e)
  from refuse(2) show ?thesis
  proof (cases rule: attempt_begin_cases)
    case (refused e n)
    with assms(2) refuse(1) show ?thesis by (auto simp: breaker_inv_def circuit_abs_def Let_def)
  qed (use assms(2) refuse(1) in \<open>simp_all add: circuit_abs_def\<close>)
next
  case (ready clock r c)
  from circuit_admits_frame [OF ready(3) [unfolded circuit_ensure_ready_def]] obtain n where
    "c = (ex_circuit ex)\<lparr>cb_last_now := n\<rparr>" by blast
  with assms(2) ready(1,2) show ?thesis by (auto simp: breaker_inv_def circuit_abs_def Let_def)
next
  case (finish outcome clock r)
  show ?thesis
  proof (cases outcome)
    case Succeeded
    with assms(2) finish show ?thesis
      by (auto simp: attempt_end_def finish_attempt_def record_success_def breaker_inv_def circuit_abs_def Let_def)
  next
    case (OtherFailure e)
    with assms(2) finish show ?thesis
      by (auto simp: attempt_end_def finish_attempt_def record_cancelled_def breaker_inv_def circuit_abs_def Let_def)
  next
    case (OperationalFailure m)
    with finish(3) obtain c where c: "record_operational_failure clock (ex_circuit ex) = (Inr (), c)"
      by (metis prod.collapse)
    then have "ex' = ex\<lparr>ex_circuit := c, permit_free := True\<rparr>"
      using finish(4) OperationalFailure by (simp add: attempt_end_def finish_attempt_def)
    with record_failure_Inr [OF c] assms(2) finish(1,2) OperationalFailure show ?thesis
      by (auto simp: breaker_inv_def circuit_abs_def Let_def)
  qed
qed

interpretation pc: simulation executor_step "breaker_inv p" "circuit_spec p" circuit_abs
  by unfold_locales (auto simp: circuit_spec_def dest: executor_step_ok)

lemma circuit_spec_run: "run (circuit_spec p) n ls n' \<Longrightarrow> n' = foldl (count_failures (cp_failure_threshold p)) n ls"
  by (induction rule: run.induct) (auto simp: circuit_spec_def)

lemma executor_new_inv: "circuit_policy_new t s = Inr p \<Longrightarrow> breaker_inv p (executor_new p)"
  by (auto simp: breaker_inv_def executor_new_def circuit_breaker_new_def circuit_policy_new_def split: pyobj.splits if_splits)


text \<open>
  A probe that fails while the clock is refused, or while the open interval is too short to give a later instant, stays
  marked as running although its permit is free: from then on the breaker admits no attempt and reports not ready, and
  no refusal changes that.
\<close>

theorem unrecorded_probe_failure_strands_circuit:
  assumes "cb_half_open_probe (ex_circuit ex)" "cb_open_until (ex_circuit ex) \<noteq> None"
    and "record_operational_failure clock (ex_circuit ex) = (Inl e, c)"
    and "attempt_end clock (OperationalFailure m) ex = (r, ex')"
  shows "r = Inl e \<and> permit_free ex' \<and> fst (circuit_ensure_ready t (ex_circuit ex')) = Inl circuit_unavailable
    \<and> fst (attempt_begin d now t ex') \<noteq> Inr () \<and> snd (attempt_begin d now t ex') = ex'"
proof -
  let ?c = "(ex_circuit ex)\<lparr>cb_failures := cb_failures (ex_circuit ex) + 1\<rparr>"
  obtain r1 c1 where n: "circuit_now clock ?c = (r1, c1)" by fastforce
  from circuit_now_frame [OF n] obtain k where k: "c1 = ?c\<lparr>cb_last_now := k\<rparr>" by blast
  have c: "cb_half_open_probe c" "cb_open_until c \<noteq> None"
    using assms(1-3) n k by (auto simp: record_operational_failure_def Let_def split: sum.splits if_splits)
  have x: "r = Inl e" "ex' = ex\<lparr>ex_circuit := c, permit_free := True\<rparr>"
    using assms(3,4) by (simp_all add: attempt_end_def finish_attempt_def)
  from c have "circuit_admits t c = (Inl circuit_unavailable, c)" for t
    by (auto simp: circuit_admits_def split: option.splits)
  with c x show ?thesis
    by (auto simp: circuit_ensure_ready_def attempt_begin_def before_attempt_def split: sum.splits)
qed

lemma executor_example_policy: "circuit_policy_new (PInt 1) (PFloat (Fin 30)) = Inr \<lparr>cp_failure_threshold = 1, cp_open_seconds = Fin 30\<rparr>"
  by (simp add: circuit_policy_new_def isfinite_def)


section \<open>Reservations\<close>

lemma part_active: "publication_part st' = publication_part st \<Longrightarrow> publication_reservations st' = publication_reservations st"
  by (simp add: publication_part_def)

lemma context_exit_closes:
  assumes "publication_inv st" "i < length (reservation_objects st)" "reservation_context_exit i st = (r, st')"
    and open_or_active: "pr_closed (reservation_objects st ! i) \<or> i \<in> set (publication_reservations st)"
  shows "r = Inr () \<and> publication_inv st' \<and> i \<notin> set (publication_reservations st')
    \<and> set (publication_reservations st') = set (publication_reservations st) - {i}"
proof (cases "pr_closed (reservation_objects st ! i)")
  case True
  then have "i \<notin> set (publication_reservations st)" using assms(1,2) by (auto simp: publication_inv_def Let_def)
  with True assms(1,3) show ?thesis by (simp add: reservation_context_exit_def)
next
  case False
  then have a: "i \<in> set (publication_reservations st)" "pr_active (reservation_objects st ! i)"
    using open_or_active assms(1,2) by (auto simp: publication_inv_def Let_def)
  have rel: "release_publication_reservation_locked i st = (r, st')"
    using False assms(3) by (simp add: reservation_context_exit_def reservation_abort_def abort_publication_reservation_def)
  have "r = Inr ()" "set (publication_reservations st') = set (publication_reservations st) - {i}"
    using rel a False by (auto simp: release_publication_reservation_locked_def reservation_close_def Let_def)
  with release_publication_inv [OF assms(1) rel] show ?thesis by simp
qed

lemma denial_part:
  "publication_denial b st = (r, st') \<Longrightarrow> r \<noteq> Inr v \<and> publication_part st' = publication_part st"
  by (auto simp: publication_denial_def close_admission_def publication_part_def split: sum.splits option.splits)

text \<open>A commit either leaves the reservation as it was or closes it.\<close>

lemma commit_closes_or_keeps:
  assumes "publication_inv st" "i \<in> set (publication_reservations st)" "reservation_commit io i ab ao ai st = (r, st')"
  shows "publication_inv st' \<and> i < length (reservation_objects st')
    \<and> (pr_closed (reservation_objects st' ! i) \<or> i \<in> set (publication_reservations st'))
    \<and> (r = Inr () \<longrightarrow> pr_closed (reservation_objects st' ! i))
    \<and> set (publication_reservations st) - {i} = set (publication_reservations st') - {i}"
proof -
  have lt: "i < length (reservation_objects st)" and nc: "\<not> pr_closed (reservation_objects st ! i)"
    "pr_active (reservation_objects st ! i)"
    using assms(1,2) by (auto simp: publication_inv_def Let_def)
  have same: ?thesis if "publication_part st' = publication_part st" "r \<noteq> Inr ()"
    using that assms(1,2) lt publication_part_inv [of st' st] by (auto simp: publication_part_def)
  from assms(3) nc consider (bad) e where "r = Inl e" "st' = st"
    | (locked) c where "commit_publication_reservation_locked io c i st = (r, st')"
    by (auto simp: reservation_commit_def commit_publication_reservation_def Let_def split: sum.splits)
  then show ?thesis
  proof cases
    case bad
    then show ?thesis using same by simp
  next
    case (locked c)
    obtain ro st1 where ob: "observe_clock io (clock_sample c) st = (ro, st1)" by fastforce
    obtain cw where st1: "st1 = st\<lparr>clock_high_water := cw\<rparr>" using observe_clock_frame [OF ob] by blast
    from locked ob assms(2) consider (kept) "publication_part st' = publication_part st" "r \<noteq> Inr ()"
      | (released) "release_publication_reservation_locked i st1 = (r, st')"
      by (fastforce simp: commit_publication_reservation_locked_def st1 split: sum.splits bool.splits option.splits
          dest: denial_part [where v = "()"])
    then show ?thesis
    proof cases
      case kept
      then show ?thesis by (rule same)
    next
      case released
      have inv1: "publication_inv st1" using assms(1) publication_part_inv [of st1 st] by (simp add: st1)
      have "r = Inr ()" "set (publication_reservations st') = set (publication_reservations st) - {i}"
        "length (reservation_objects st') = length (reservation_objects st)" "pr_closed (reservation_objects st' ! i)"
        using released assms(2) nc lt by (auto simp: release_publication_reservation_locked_def reservation_close_def Let_def st1)
      with release_publication_inv [OF inv1 released] lt show ?thesis by auto
    qed
  qed
qed

text \<open>What a reserved scope needs of the call it protects: it leaves the accounting intact and the scope's reservation active.\<close>

definition spares :: "nat \<Rightarrow> 'a executor_op \<Rightarrow> bool" where
  "spares i inner = (\<forall>st. publication_inv st \<and> i \<in> set (publication_reservations st) \<longrightarrow>
     publication_inv (snd (inner st)) \<and> i \<in> set (publication_reservations (snd (inner st))))"

lemma reserved_body_exit:
  assumes "publication_inv st" "i \<in> set (publication_reservations st)" "spares i inner"
    and "leave_reservation i (reserved_body io i inner st) = (r, st')"
  shows "publication_inv st' \<and> i \<notin> set (publication_reservations st')
    \<and> set (publication_reservations st') = set (publication_reservations (snd (inner st))) - {i}
    \<and> (\<forall>v. r = Inr v \<longrightarrow> fst (inner st) = Inr v)"
proof -
  obtain ri st1 where i: "inner st = (ri, st1)" by fastforce
  have s1: "publication_inv st1" "i \<in> set (publication_reservations st1)"
    using assms(1-3) i by (auto simp: spares_def)
  obtain r2 st2 where b: "reserved_body io i inner st = (r2, st2)" by fastforce
  have "publication_inv st2 \<and> i < length (reservation_objects st2)
      \<and> (pr_closed (reservation_objects st2 ! i) \<or> i \<in> set (publication_reservations st2))
      \<and> set (publication_reservations st1) - {i} = set (publication_reservations st2) - {i} \<and> (\<forall>v. r2 = Inr v \<longrightarrow> ri = Inr v)"
  proof (cases ri)
    case (Inl e)
    with b i s1 show ?thesis by (auto simp: reserved_body_def publication_inv_def)
  next
    case (Inr v)
    obtain rc st3 where c: "reservation_commit io i (PInt 0) (PInt 0) (PInt 0) st1 = (rc, st3)" by fastforce
    with b i Inr have "st2 = st3" "\<forall>w. r2 = Inr w \<longrightarrow> w = v" by (auto simp: reserved_body_def split: sum.splits)
    with commit_closes_or_keeps [OF s1 c] Inr show ?thesis by auto
  qed
  note s2 = this
  obtain rx st3 where x: "reservation_context_exit i st2 = (rx, st3)" by fastforce
  from context_exit_closes [OF _ _ x] s2 have e: "rx = Inr ()" "publication_inv st3" "i \<notin> set (publication_reservations st3)"
    "set (publication_reservations st3) = set (publication_reservations st2) - {i}" by auto
  then have "r = r2" "st' = st3" using assms(4) b x by (auto simp: leave_reservation_def)
  with e s2 i show ?thesis by auto
qed

definition holds_reservation :: "nat \<Rightarrow> int \<Rightarrow> int \<Rightarrow> int \<Rightarrow> Store \<Rightarrow> bool" where
  "holds_reservation n b ob i st =
     (n \<in> set (publication_reservations st) \<and> pr_bytes (reservation_objects st ! n) = b
      \<and> pr_objects (reservation_objects st ! n) = ob \<and> pr_inodes (reservation_objects st ! n) = i)"

lemma reserve_amounts:
  assumes "reserve_publication p (PInt b) (PInt ob) (PInt i) clock st = (Inr n, st1)"
  shows "n = length (reservation_objects st) \<and> n < length (reservation_objects st1)
    \<and> publication_reservations st1 = publication_reservations st
    \<and> reservation_objects st1 ! n = reservation_new \<lparr>rq_policy = p, maximum_new_bytes = b, maximum_new_objects = ob,
       maximum_new_inodes = i, rq_clock = clock\<rparr>"
proof -
  have v: "validate_publication_maximum (PInt k) m x = Inr j \<longleftrightarrow> j = k \<and> 1 \<le> k \<and> k \<le> m" for k m x j
    by (auto simp: validate_publication_maximum_def)
  from assms show ?thesis
    by (auto simp: reserve_publication_def rbind_eq_Inr v split: sum.splits)
qed

lemma with_reservation_exit:
  assumes "publication_inv st" and n: "n = length (reservation_objects st)" and "spares n inner"
    and w: "with_reservation io io' p clock b ob i inner st = (r, st')"
  shows "publication_inv st' \<and> n \<notin> set (publication_reservations st')
    \<and> (\<forall>v. r = Inr v \<longrightarrow> (\<exists>st2. publication_inv st2 \<and> holds_reservation n b ob i st2 \<and> fst (inner st2) = Inr v))"
proof (cases rule: reserve_cases [of p "PInt b" "PInt ob" "PInt i" clock st])
  case (1 e)
  have "n \<notin> set (publication_reservations st)" using assms(1) n by (auto simp: publication_inv_def)
  with 1 assms(1) w show ?thesis by (auto simp: with_reservation_def)
next
  case (2 b' ob' i')
  define st1 where "st1 = snd (reserve_publication p (PInt b) (PInt ob) (PInt i) clock st)"
  have re: "reserve_publication p (PInt b) (PInt ob) (PInt i) clock st = (Inr n, st1)" using 2 n by (simp add: st1_def)
  have inv1: "publication_inv st1" unfolding st1_def by (rule reserve_inv [OF assms(1)])
  note st1 = reserve_amounts [OF re]
  obtain rb st2 where bg: "begin_publication_reservation io n st1 = (rb, st2)" by fastforce
  have inv2: "publication_inv st2" using begin_inv [OF inv1 _ bg] st1 by simp
  from bg show ?thesis
  proof (cases rule: begin_cases)
    case (refused e)
    have "n \<notin> set (publication_reservations st)" using assms(1) n by (auto simp: publication_inv_def)
    then have "n \<notin> set (publication_reservations st2)" using refused(2) st1 by (simp add: publication_part_def)
    with refused(1) inv2 w re bg show ?thesis by (auto simp: with_reservation_def)
  next
    case (admitted cap st1' objs)
    obtain cw where c: "st1' = st1\<lparr>clock_high_water := cw\<rparr>" using observe_clock_frame [OF admitted(6)] by blast
    have "n < length (reservation_objects st1)" "reservation_objects st1 ! n = reservation_new \<lparr>rq_policy = p,
       maximum_new_bytes = b, maximum_new_objects = ob, maximum_new_inodes = i, rq_clock = clock\<rparr>" using st1 by blast+
    then have h: "holds_reservation n b ob i st2"
      using admitted(9) by (simp add: holds_reservation_def activate_reservation_def Let_def c reservation_new_def)
    then have act: "n \<in> set (publication_reservations st2)" by (simp add: holds_reservation_def)
    have "leave_reservation n (reserved_body io' n inner st2) = (r, st')"
      using w re bg admitted(1) by (simp add: with_reservation_def)
    from reserved_body_exit [OF inv2 act assms(3) this] h inv2 show ?thesis by blast
  qed
qed

section \<open>Whole executions\<close>

lemma publication_plan_new_Inr: "publication_plan_new pl = Inr pl' \<Longrightarrow> pl' = pl
    \<and> pl_output_files pl + pl_output_directories pl + pl_temporary_files pl \<le> pl_new_inodes pl
    \<and> pl_output_files pl \<le> pl_new_bytes pl \<and> pl_new_objects pl = 1"
  by (auto simp: publication_plan_new_def require_complete_tree_capacity_def split: if_splits)


definition example_slot :: PdfWorkerSlotPolicy where
  "example_slot =
     \<lparr>po_version = 1, po_root = codes ''/worker'', po_filesystem_type = codes ''ext4'', po_maximum_total_bytes = 40,
      po_minimum_available_bytes = 1, po_maximum_total_inodes = 4, po_minimum_available_inodes = 1,
      po_mount_options = REQUIRED_MOUNT_OPTIONS, po_concurrency = 1\<rparr>"

definition example_empty_store :: Store where
  "example_empty_store =
     run_call (example_store_io 1000)
       (COther (Directory (example_stat 448 0) []) 0 0 [] (Some example_store_order) fresh_world) example_store"

definition example_execution :: "(executor_exc + unit) \<times> Store" where
  "example_execution =
     reserving_execute (example_store_io 1000) (example_store_io 1000) example_policy (example_sample 106 16) example_slot
       (\<lambda>_ st. (Inr (), st)) (RenderPagesCommand (codes ''id'') (codes ''source.pdf'') [1]) example_empty_store"


text \<open>
  The slot policy is checked for positive capacities only, but a plan is at most a tebibyte and ten million inodes: a
  larger slot is accepted when the executor is built and makes every render fail before a reservation is tried.
\<close>

theorem oversized_slot_refuses_every_render:
  assumes "HARD_MAX_CACHE_BYTES < po_maximum_total_bytes slot_policy"
    and "command_operation command \<in> {OpRenderPages, OpRenderTiles}"
  shows "reserving_execute io io' policy clock slot_policy inner command st
    = (Inl (FromWorker (WorkerRaised (ValueError ''ValidationError''))), st)"
proof -
  have "publication_plan_new (plan_of operation files dirs slot_policy) = Inl (ValueError ''ValidationError'')" for operation files dirs
    using assms(1) by (simp add: publication_plan_new_def plan_of_def)
  with assms(2) show ?thesis
    by (cases command) (simp_all add: reserving_execute_def derive_validated_publication_plan_def validated_pdf_command_def)
qed

text \<open>A slot that fits the hard limits always has a plan.\<close>

lemma plan_exists:
  assumes "command_ok command" "is_ok (policy_validators policy)"
    and "po_maximum_total_bytes policy \<le> HARD_MAX_CACHE_BYTES" "po_maximum_total_inodes policy \<le> MAX_PDF_PUBLICATION_INODES"
  shows "is_ok (derive_pdf_publication_plan command policy)"
  using assms
  by (cases command) (auto simp: derive_pdf_publication_plan_def validated_pdf_command_def validated_slot_policy_def
      derive_validated_publication_plan_def publication_plan_new_def require_complete_tree_capacity_def plan_of_def
      HARD_MAX_CACHE_BYTES_def MAX_PDF_PUBLICATION_INODES_def MAX_PDF_PUBLICATION_FILES_def MAX_PDF_PUBLICATION_DIRECTORIES_def
      HARD_MAX_TILES_PER_PAGE_def rbind_def is_ok_def)

end
