(* ===== verification/Nplg_Pdf_Client.thy ===== *)
theory Nplg_Pdf_Client
  imports Nplg_Pdf_Executor
begin

text \<open>
  The parent's side of a worker result (\<^verbatim>\<open>src/nplg_mcp/pdf_worker_client.py\<close>): the result models of \<^verbatim>\<open>pdf_ipc.py\<close> with their declared
  constraints, the deterministic render identifier of \<^verbatim>\<open>pdf_identity.py\<close>, the pixel budgets and the binding of a result to
  its command. The wire forms of pages, tiles and manifests have exactly the fields of the manifest records, so the
  records of the manifests are used for both.
\<close>

section \<open>Results\<close>

record PdfInspectionOutput =
  io_source_sha256 :: pystr
  io_page_count :: int
  io_renderer_version :: pystr
  io_pages :: "PageInspection list"

datatype PdfPayload =
    InspectPayload PdfInspectionOutput
  | RenderPagesPayload RenderManifest
  | RenderTilesPayload TileManifest
  | ManifestPayload RenderManifest

datatype PdfResult =
    PdfSuccess (result_id: pystr) (result_payload: PdfPayload)
  | PdfFailure (result_id: pystr) (failed_operation: PdfOperation) (failure_code: ErrorCode) (failure_message: pystr)

fun payload_operation :: "PdfPayload \<Rightarrow> PdfOperation" where
  "payload_operation (InspectPayload _) = OpInspect"
| "payload_operation (RenderPagesPayload _) = OpRenderPages"
| "payload_operation (RenderTilesPayload _) = OpRenderTiles"
| "payload_operation (ManifestPayload _) = OpManifest"

definition result_operation :: "PdfResult \<Rightarrow> PdfOperation" where
  "result_operation r = (case r of PdfFailure _ operation _ _ \<Rightarrow> operation | PdfSuccess _ payload \<Rightarrow> payload_operation payload)"

definition text_within :: "nat \<Rightarrow> pystr \<Rightarrow> bool" where
  "text_within n s = (1 \<le> length s \<and> length s \<le> n)"

definition positive_finite :: "pyfloat \<Rightarrow> bool" where
  "positive_finite x = (isfinite x \<and> flt (Fin 0) x)"

definition unit_fraction :: "pyfloat \<Rightarrow> bool" where
  "unit_fraction x = (isfinite x \<and> fle (Fin 0) x \<and> fle x (Fin 1))"

text \<open>The constraints that the result models declare.\<close>

definition page_inspection_ok :: "PageInspection \<Rightarrow> bool" where
  "page_inspection_ok p =
     (page_number_ok (pi_page_number p) \<and> positive_finite (width_points p) \<and> positive_finite (height_points p)
      \<and> 0 \<le> pi_rotation p \<and> pi_rotation p \<le> 359 \<and> text_within 64 (pi_classification p)
      \<and> 0 \<le> image_count p \<and> image_count p \<le> 100000
      \<and> optional_ok (\<lambda>n. 0 \<le> n \<and> n \<le> 100000) (dominant_image_index p) \<and> optional_ok (text_within 32) (dominant_extension p)
      \<and> optional_ok unit_fraction (dominant_coverage p) \<and> optional_ok (\<lambda>n. 1 \<le> n) (native_width p)
      \<and> optional_ok (\<lambda>n. 1 \<le> n) (native_height p) \<and> optional_ok positive_finite (effective_dpi_x p)
      \<and> optional_ok positive_finite (effective_dpi_y p))"

definition inspection_ok :: "PdfInspectionOutput \<Rightarrow> bool" where
  "inspection_ok v =
     (hex_text 64 (io_source_sha256 v) \<and> 0 \<le> io_page_count v \<and> io_page_count v \<le> 10000
      \<and> text_within 256 (io_renderer_version v) \<and> length (io_pages v) \<le> 10000 \<and> list_all page_inspection_ok (io_pages v))"

definition rendered_page_ok :: "RenderedPage \<Rightarrow> bool" where
  "rendered_page_ok p =
     (page_number_ok (rp_page_number p) \<and> 1 \<le> rp_width p \<and> 1 \<le> rp_height p \<and> 0 \<le> rp_rotation p \<and> rp_rotation p \<le> 359
      \<and> text_within 64 (rp_classification p) \<and> positive_finite (rp_effective_dpi_x p) \<and> positive_finite (rp_effective_dpi_y p)
      \<and> text_within 64 (rp_resolution_source p) \<and> text_within 64 (rp_conversion_path p)
      \<and> is_ok (validate_safe_relative_path (rp_relative_path p)) \<and> hex_text 64 (rp_sha256 p)
      \<and> rp_media_type p = codes ''image/jpeg'' \<and> text_within 64 (rp_renderer_resampling p))"

text \<open>\<open>PdfPipelineVersionOutput.model_post_init\<close>.\<close>

definition pipeline_current :: "pystr \<Rightarrow> pystr \<Rightarrow> pystr \<Rightarrow> pystr \<Rightarrow> bool" where
  "pipeline_current schema render classification tile =
     (schema = SEMANTIC_VERSION \<and> render = SEMANTIC_VERSION \<and> classification = SEMANTIC_VERSION \<and> tile = SEMANTIC_VERSION)"

definition pages_output_ok :: "RenderManifest \<Rightarrow> bool" where
  "pages_output_ok m =
     (pipeline_current (rm_manifest_schema_version m) (rm_render_pipeline_version m)
        (rm_classification_algorithm_version m) (rm_tile_pipeline_version m)
      \<and> render_id_ok (rm_render_id m) \<and> hex_text 64 (rm_source_sha256 m) \<and> text_within 256 (rm_renderer_version m)
      \<and> rm_mode m = codes ''native'' \<and> 1 \<le> length (rm_pages m) \<and> length (rm_pages m) \<le> 8
      \<and> list_all rendered_page_ok (rm_pages m) \<and> is_ok (validate_safe_relative_path (rm_manifest_relative_path m)))"

definition rendered_tile_ok :: "RenderedTile \<Rightarrow> bool" where
  "rendered_tile_ok t =
     (text_within 128 (rt_tile_id t) \<and> page_number_ok (rt_page_number t) \<and> 0 \<le> rt_x t \<and> 0 \<le> rt_y t
      \<and> 1 \<le> rt_width t \<and> 1 \<le> rt_height t \<and> 1 \<le> rt_full_page_width t \<and> 1 \<le> rt_full_page_height t
      \<and> tile_overlap_ok (rt_overlap t) \<and> is_ok (validate_safe_relative_path (rt_relative_path t)) \<and> hex_text 64 (rt_sha256 t)
      \<and> rt_media_type t = codes ''image/jpeg'' \<and> \<not> rt_resize_applied t \<and> rt_pixel_dimensions_preserved t
      \<and> rt_renderer_resampling t = codes ''none'' \<and> rt_reencoded t \<and> rt_lossy_conversion t)"

definition tiles_output_ok :: "TileManifest \<Rightarrow> bool" where
  "tiles_output_ok m =
     (pipeline_current (tm_manifest_schema_version m) (tm_render_pipeline_version m)
        (tm_classification_algorithm_version m) (tm_tile_pipeline_version m)
      \<and> render_id_ok (tm_render_id m) \<and> page_number_ok (tm_page_number m) \<and> hex_text 64 (tm_page_sha256 m)
      \<and> tile_dimension_ok (tm_tile_width m) \<and> tile_dimension_ok (tm_tile_height m) \<and> tile_overlap_ok (tm_overlap m)
      \<and> 1 \<le> length (tm_tiles m) \<and> int (length (tm_tiles m)) \<le> HARD_MAX_TILES_PER_PAGE \<and> list_all rendered_tile_ok (tm_tiles m)
      \<and> is_ok (validate_safe_relative_path (tm_manifest_relative_path m)))"

fun payload_ok :: "PdfPayload \<Rightarrow> bool" where
  "payload_ok (InspectPayload v) = inspection_ok v"
| "payload_ok (RenderPagesPayload v) = pages_output_ok v"
| "payload_ok (RenderTilesPayload v) = tiles_output_ok v"
| "payload_ok (ManifestPayload v) = pages_output_ok v"

definition result_ok :: "PdfResult \<Rightarrow> bool" where
  "result_ok r = (case r of PdfSuccess _ payload \<Rightarrow> payload_ok payload | PdfFailure _ _ _ m \<Rightarrow> text_within 512 m)"

definition parse_result_frame :: "(bytes \<Rightarrow> PdfResult option) \<Rightarrow> bytes \<Rightarrow> PdfResult res" where
  "parse_result_frame parse_fields frame =
     rbind (preflight_frame MAX_RESULT_FRAME_BYTES frame) (\<lambda>_. adapter_validate parse_fields result_ok frame)"

text \<open>The worker's answer to a failed command.\<close>

definition worker_failure :: "PdfCommand \<Rightarrow> pyexc \<Rightarrow> PdfResult" where
  "worker_failure command e =
     (case e of
        AppErr a \<Rightarrow> PdfFailure (command_id command) (command_operation command) (err_code a) (take 512 (codes (err_message a)))
      | _ \<Rightarrow> PdfFailure (command_id command) (command_operation command) INTERNAL_ERROR
               (codes ''The PDF worker could not complete the request.''))"

section \<open>Identities\<close>

definition identity_request_ok :: "pystr \<Rightarrow> int list \<Rightarrow> pystr \<Rightarrow> int \<Rightarrow> bool" where
  "identity_request_ok source pages renderer dpi =
     (hex_text 64 source \<and> 1 \<le> length pages \<and> length pages \<le> 64 \<and> list_all (\<lambda>n. 1 \<le> n \<and> n \<le> 100000) pages
      \<and> text_within 256 renderer \<and> list_all (\<lambda>c. 33 \<le> c \<and> c \<le> 126) renderer \<and> 72 \<le> dpi \<and> dpi \<le> 1200)"

definition render_identity_key :: "pystr \<Rightarrow> int list \<Rightarrow> pystr \<Rightarrow> int \<Rightarrow> json" where
  "render_identity_key source pages renderer dpi = JObj
     [(codes ''classification_algorithm_version'', JStr SEMANTIC_VERSION), (codes ''fallback_dpi'', JInt dpi),
      (codes ''manifest_schema_version'', JStr SEMANTIC_VERSION), (codes ''mode'', JStr (codes ''native'')),
      (codes ''pages'', JArr (map JInt pages)), (codes ''render_pipeline_version'', JStr SEMANTIC_VERSION),
      (codes ''renderer_version'', JStr renderer), (codes ''source_sha256'', JStr source),
      (codes ''tile_pipeline_version'', JStr SEMANTIC_VERSION)]"

text \<open>The key has no floats, so their printing does not matter.\<close>

definition render_identifier :: "pystr \<Rightarrow> int list \<Rightarrow> pystr \<Rightarrow> int \<Rightarrow> pystr res" where
  "render_identifier source pages renderer dpi =
     (if \<not> identity_request_ok source pages renderer dpi then Inl (ValueError ''ValidationError'')
      else rbind (dumps (\<lambda>_. []) True True (render_identity_key source pages renderer dpi)) (\<lambda>t.
        rbind (encode_utf8 t) (\<lambda>b. Inr (codes ''rnd_'' @ take 32 (hexdigest (sha256 b))))))"

section \<open>Pixel budgets\<close>

type_synonym 'a client_res = "worker_exc + 'a"

fun pixel_budget_loop :: "PdfProcessorSettings \<Rightarrow> int \<Rightarrow> RenderedPage list \<Rightarrow> unit client_res" where
  "pixel_budget_loop s pixel_sum [] = Inr ()"
| "pixel_budget_loop s pixel_sum (p # ps) =
     (let page_pixels = rp_width p * rp_height p
      in if se_max_page_pixels s < page_pixels then Inl (PdfWorkerError ''PDF worker response exceeded the page pixel limit'')
         else if se_max_render_pixels s < pixel_sum + page_pixels
         then Inl (PdfWorkerError ''PDF worker response exceeded the aggregate pixel limit'')
         else pixel_budget_loop s (pixel_sum + page_pixels) ps)"

definition validate_render_pixel_budget :: "PdfProcessorSettings \<Rightarrow> RenderManifest \<Rightarrow> unit client_res" where
  "validate_render_pixel_budget s rendered =
     (if se_max_pages_per_render s < int (length (rm_pages rendered))
      then Inl (PdfWorkerError ''PDF worker response exceeded the page-count limit'')
      else pixel_budget_loop s 0 (rm_pages rendered))"

definition validate_result_pixel_budget :: "PdfProcessorSettings \<Rightarrow> PdfResult \<Rightarrow> unit client_res" where
  "validate_result_pixel_budget s r =
     (case r of
        PdfSuccess _ (RenderPagesPayload v) \<Rightarrow> validate_render_pixel_budget s v
      | PdfSuccess _ (ManifestPayload v) \<Rightarrow> validate_render_pixel_budget s v
      | _ \<Rightarrow> Inr ())"

section \<open>Binding a tile result\<close>

text \<open>
  The staged manifest: \<open>read_staged\<close> is what the descriptor of a staged file gives, bounded and within the deadline, and
  \<open>parse_fields\<close> is pydantic's reading of it.
\<close>

record staged_reader =
  sr_read :: "pystr \<Rightarrow> bytes client_res"
  sr_parse :: "bytes \<Rightarrow> RenderManifest option"

definition load_staged_render_manifest :: "PdfProcessorSettings \<Rightarrow> staged_reader \<Rightarrow> pystr \<Rightarrow> RenderManifest client_res" where
  "load_staged_render_manifest s R rid =
     rbind (sr_read R (manifest_path rid)) (\<lambda>b.
       if MAX_RESULT_FRAME_BYTES < length b then Inl (PdfWorkerError ''PDF worker source manifest exceeded its limit'')
       else case adapter_validate (sr_parse R) pages_output_ok b of
         Inl _ \<Rightarrow> Inl (PdfWorkerError ''PDF worker source manifest is invalid'')
       | Inr m \<Rightarrow>
           if rm_render_id m \<noteq> rid \<or> rm_manifest_relative_path m \<noteq> manifest_path rid
           then Inl (PdfWorkerError ''PDF worker source manifest identity mismatch'')
           else rbind (validate_render_pixel_budget s m) (\<lambda>_. Inr m))"

definition or_default :: "int option \<Rightarrow> int \<Rightarrow> int" where
  "or_default x d = (case x of Some v \<Rightarrow> if v \<noteq> 0 then v else d | None \<Rightarrow> d)"

definition expected_geometry :: "PdfProcessorSettings \<Rightarrow> RenderTilesParams \<Rightarrow> int \<times> int \<times> int" where
  "expected_geometry s p =
     (or_default (rq_tile_width p) (se_tile_width s), or_default (rq_tile_height p) (se_tile_height s),
      case rq_overlap p of Some ov \<Rightarrow> ov | None \<Rightarrow> se_tile_overlap s)"

definition expected_tiles :: "int \<Rightarrow> int \<Rightarrow> int \<Rightarrow> int \<Rightarrow> RenderedPage \<Rightarrow> (int \<times> int \<times> int \<times> int) list" where
  "expected_tiles ew eh stride_x stride_y page =
     concat (map (\<lambda>y. map (\<lambda>x. (x, y, min ew (rp_width page - x), min eh (rp_height page - y)))
       (range_step 0 (rp_width page) stride_x)) (range_step 0 (rp_height page) stride_y))"

definition tile_metadata_mismatch :: "RenderTilesParams \<Rightarrow> pystr \<Rightarrow> int \<Rightarrow> RenderedPage \<Rightarrow> RenderedTile \<Rightarrow> bool" where
  "tile_metadata_mismatch p geometry overlap page t =
     (rt_tile_id t \<noteq> tile_identifier (rq_page_number p) geometry (rt_x t) (rt_y t) \<or> rt_page_number t \<noteq> rq_page_number p
      \<or> rt_full_page_width t \<noteq> rp_width page \<or> rt_full_page_height t \<noteq> rp_height page \<or> rt_overlap t \<noteq> overlap)"

definition validate_tiles_of_page ::
  "PdfProcessorSettings \<Rightarrow> RenderTilesParams \<Rightarrow> RenderedPage \<Rightarrow> TileManifest \<Rightarrow> unit client_res" where
  "validate_tiles_of_page s p page rendered =
     (case expected_geometry s p of
        (ew, eh, eo) \<Rightarrow>
          let stride_x = ew - eo; stride_y = eh - eo
          in if stride_x = 0 \<or> stride_y = 0 then Inl (WorkerRaised (ZeroDivisionError ''integer division or modulo by zero''))
             else if se_max_tiles_per_page s < ((rp_width page - 1) div stride_x + 1) * ((rp_height page - 1) div stride_y + 1)
             then Inl (PdfWorkerError ''PDF worker response exceeded the tile-count limit'')
             else if map (\<lambda>t. (rt_x t, rt_y t, rt_width t, rt_height t)) (tm_tiles rendered) \<noteq> expected_tiles ew eh stride_x stride_y page
             then Inl (PdfWorkerError ''PDF worker response tile metadata mismatch'')
             else case tile_geometry_identifier ew eh eo of
               Inl e \<Rightarrow> Inl (WorkerRaised e)
             | Inr geometry \<Rightarrow>
                 if list_ex (tile_metadata_mismatch p geometry eo page) (tm_tiles rendered)
                 then Inl (PdfWorkerError ''PDF worker response tile metadata mismatch'') else Inr ())"

definition validate_tile_result_binding ::
  "PdfProcessorSettings \<Rightarrow> staged_reader \<Rightarrow> RenderTilesParams \<Rightarrow> TileManifest \<Rightarrow> unit client_res" where
  "validate_tile_result_binding s R p rendered =
     (if tm_page_number rendered \<noteq> rq_page_number p then Inl (PdfWorkerError ''PDF worker response page selection mismatch'')
      else if (tm_tile_width rendered, tm_tile_height rendered, tm_overlap rendered) \<noteq> expected_geometry s p
      then Inl (PdfWorkerError ''PDF worker response tile geometry mismatch'')
      else rbind (load_staged_render_manifest s R (rq_render_id p)) (\<lambda>m.
        case find (\<lambda>pg. rp_page_number pg = rq_page_number p) (rm_pages m) of
          None \<Rightarrow> Inl (PdfWorkerError ''PDF worker response source page mismatch'')
        | Some page \<Rightarrow>
            if tm_page_sha256 rendered \<noteq> rp_sha256 page then Inl (PdfWorkerError ''PDF worker response source page mismatch'')
            else validate_tiles_of_page s p page rendered))"

section \<open>Binding a result\<close>

definition validate_render_binding ::
  "PdfProcessorSettings \<Rightarrow> int list \<Rightarrow> pystr option \<Rightarrow> RenderManifest \<Rightarrow> unit client_res" where
  "validate_render_binding s pages expected_source rendered =
     (if map rp_page_number (rm_pages rendered) \<noteq> pages
      then Inl (PdfWorkerError ''PDF worker response page selection mismatch'')
      else case expected_source of
        None \<Rightarrow> Inl (PdfWorkerError ''PDF worker response source identity is unavailable'')
      | Some source \<Rightarrow>
          (case render_identifier source pages (rm_renderer_version rendered) (se_fallback_dpi s) of
             Inl e \<Rightarrow> Inl (WorkerRaised e)
           | Inr rid \<Rightarrow>
               if rm_render_id rendered \<noteq> rid then Inl (PdfWorkerError ''PDF worker response render ID mismatch'') else Inr ()))"

definition payload_source :: "PdfPayload \<Rightarrow> pystr option" where
  "payload_source payload =
     (case payload of InspectPayload v \<Rightarrow> Some (io_source_sha256 v) | RenderPagesPayload v \<Rightarrow> Some (rm_source_sha256 v) | _ \<Rightarrow> None)"

definition payload_render_id :: "PdfPayload \<Rightarrow> pystr option" where
  "payload_render_id payload =
     (case payload of RenderTilesPayload v \<Rightarrow> Some (tm_render_id v) | ManifestPayload v \<Rightarrow> Some (rm_render_id v) | _ \<Rightarrow> None)"

definition command_render_id :: "PdfCommand \<Rightarrow> pystr option" where
  "command_render_id command =
     (case command of RenderTilesCommand _ p \<Rightarrow> Some (rq_render_id p) | ManifestCommand _ rid \<Rightarrow> Some rid | _ \<Rightarrow> None)"

definition validate_payload_binding ::
  "PdfProcessorSettings \<Rightarrow> staged_reader \<Rightarrow> PdfCommand \<Rightarrow> pystr option \<Rightarrow> PdfPayload \<Rightarrow> unit client_res" where
  "validate_payload_binding s R command expected_source payload =
     (if expected_source \<noteq> None \<and> payload_source payload \<noteq> None \<and> payload_source payload \<noteq> expected_source
      then Inl (PdfWorkerError ''PDF worker response source digest mismatch'')
      else rbind (case (command, payload) of
                    (RenderPagesCommand _ _ pages, RenderPagesPayload v) \<Rightarrow> validate_render_binding s pages expected_source v
                  | _ \<Rightarrow> Inr ()) (\<lambda>_.
        if command_render_id command \<noteq> None \<and> payload_render_id payload \<noteq> None
           \<and> payload_render_id payload \<noteq> command_render_id command
        then Inl (PdfWorkerError ''PDF worker response render ID mismatch'')
        else case (command, payload) of
          (RenderTilesCommand _ p, RenderTilesPayload v) \<Rightarrow> validate_tile_result_binding s R p v
        | _ \<Rightarrow> Inr ()))"

definition validate_result_binding ::
  "PdfProcessorSettings \<Rightarrow> staged_reader \<Rightarrow> PdfCommand \<Rightarrow> PdfResult \<Rightarrow> pystr option \<Rightarrow> unit client_res" where
  "validate_result_binding s R command r expected_source =
     (if result_id r \<noteq> command_id command then Inl (PdfWorkerError ''PDF worker response request ID mismatch'')
      else if result_operation r \<noteq> command_operation command
      then Inl (PdfWorkerError ''PDF worker response operation mismatch'')
      else rbind (validate_result_pixel_budget s r) (\<lambda>_.
        case r of
          PdfFailure _ _ _ _ \<Rightarrow> Inr ()
        | PdfSuccess _ payload \<Rightarrow> validate_payload_binding s R command expected_source payload))"

section \<open>What the parent expects is what the worker computes\<close>

text \<open>The processor that the worker builds from the settings.\<close>

definition worker_processor :: "PdfProcessorSettings \<Rightarrow> PdfProcessor" where
  "worker_processor s =
     \<lparr>max_pages_per_render = se_max_pages_per_render s, max_page_pixels = se_max_page_pixels s,
      max_render_pixels = se_max_render_pixels s, fallback_dpi = se_fallback_dpi s, pp_tile_width = se_tile_width s,
      pp_tile_height = se_tile_height s, pp_tile_overlap = se_tile_overlap s, max_tiles_per_page = se_max_tiles_per_page s,
      max_document_pages = 2000\<rparr>"

definition tile_matches :: "TileManifestRequest \<Rightarrow> pystr \<Rightarrow> RenderedTile \<Rightarrow> TileBox \<Rightarrow> bool" where
  "tile_matches q key t b =
     (rt_tile_id t = tile_identifier (tq_page_number q) key (tb_x b) (tb_y b) \<and> rt_page_number t = tq_page_number q
      \<and> (rt_x t, rt_y t, rt_width t, rt_height t) = (tb_x b, tb_y b, tb_width b, tb_height b)
      \<and> (rt_full_page_width t, rt_full_page_height t) = (rp_width (tq_page q), rp_height (tq_page q))
      \<and> rt_overlap t = tq_overlap q)"

lemma settings_ok:
  assumes "processor_settings_new s = Inr s"
  shows "256 \<le> se_tile_width s \<and> se_tile_width s \<le> HARD_MAX_TILE_DIMENSION \<and> 256 \<le> se_tile_height s
    \<and> se_tile_height s \<le> HARD_MAX_TILE_DIMENSION \<and> 0 \<le> se_tile_overlap s \<and> se_tile_overlap s \<le> HARD_MAX_TILE_OVERLAP"
  using assms by (auto simp: processor_settings_new_def settings_bounds_def split: if_splits)

lemma expected_geometry_ok:
  assumes "processor_settings_new s = Inr s" "tiles_params_ok p" "expected_geometry s p = (ew, eh, eo)"
  shows "tile_dimension_ok ew \<and> tile_dimension_ok eh \<and> tile_overlap_ok eo
    \<and> ew = (case rq_tile_width p of None \<Rightarrow> se_tile_width s | Some w \<Rightarrow> w)
    \<and> eh = (case rq_tile_height p of None \<Rightarrow> se_tile_height s | Some h \<Rightarrow> h)
    \<and> eo = (case rq_overlap p of None \<Rightarrow> se_tile_overlap s | Some o' \<Rightarrow> o')"
  using assms settings_ok [OF assms(1)]
  by (auto simp: expected_geometry_def tiles_params_ok_def or_default_def optional_ok_def tile_dimension_ok_def tile_overlap_ok_def
      split: option.splits)

lemma geometry_identifier_ok:
  "tile_dimension_ok ew \<Longrightarrow> tile_dimension_ok eh \<Longrightarrow> tile_overlap_ok eo \<Longrightarrow> is_ok (tile_geometry_identifier ew eh eo)"
  by (simp add: tile_geometry_identifier_def tile_dimension_ok_def tile_overlap_ok_def HARD_MAX_TILE_DIMENSION_def HARD_MAX_TILE_OVERLAP_def is_ok_def)

definition box_of :: "int \<times> int \<times> int \<times> int \<Rightarrow> TileBox" where
  "box_of q = (case q of (x, y, w, h) \<Rightarrow> \<lparr>tb_x = x, tb_y = y, tb_width = w, tb_height = h\<rparr>)"

text \<open>The parent's own computation of the tiles agrees with the worker's for every geometry the worker accepts.\<close>

lemma expected_tiles_boxes:
  assumes "0 < rp_width page" "0 < rp_height page" "tile_dimension_ok ew" "tile_dimension_ok eh" "tile_overlap_ok eo" "eo < ew" "eo < eh"
  shows "tile_boxes (PInt (rp_width page)) (PInt (rp_height page)) (PInt ew) (PInt eh) (PInt eo)
      = Inr (map box_of (expected_tiles ew eh (ew - eo) (eh - eo) page))"
    and "tile_layout (PInt (rp_width page)) (PInt (rp_height page)) (PInt ew) (PInt eh) (PInt eo)
      = Inr (ew - eo, eh - eo, ((rp_width page - 1) div (ew - eo) + 1) * ((rp_height page - 1) div (eh - eo) + 1))"
  using assms
  by (simp_all add: tile_boxes_def tile_layout_def tile_dimension_ok_def tile_overlap_ok_def expected_tiles_def Let_def
      map_concat comp_def box_of_def)

text \<open>Without a positive stride the parent expects no tiles at all.\<close>

lemma expected_tiles_empty: "stride_x \<le> 0 \<or> stride_y \<le> 0 \<Longrightarrow> expected_tiles ew eh stride_x stride_y page = []"
proof -
  have "range_step 0 n k = []" if "k \<le> 0" for n k using that by (subst range_step.simps) simp
  then show "stride_x \<le> 0 \<or> stride_y \<le> 0 \<Longrightarrow> expected_tiles ew eh stride_x stride_y page = []"
    by (auto simp: expected_tiles_def)
qed

definition quad :: "RenderedTile \<Rightarrow> int \<times> int \<times> int \<times> int" where
  "quad t = (rt_x t, rt_y t, rt_width t, rt_height t)"

lemma box_of_inject: "box_of a = box_of b \<longleftrightarrow> a = b"
  by (auto simp: box_of_def split: prod.splits)

lemma tile_matches_quad: "tile_matches q key t b \<longleftrightarrow> b = box_of (quad t) \<and> tile_matches q key t (box_of (quad t))"
  by (cases b) (auto simp: tile_matches_def box_of_def quad_def)

lemma tiles_match_iff:
  "list_all2 (tile_matches q key) ts (map box_of es) \<longleftrightarrow>
   map quad ts = es \<and> list_all (\<lambda>t. tile_matches q key t (box_of (quad t))) ts"
proof (induction ts arbitrary: es)
  case (Cons t ts)
  show ?case
  proof (cases es)
    case (Cons e es')
    then show ?thesis
      using Cons.IH [of es'] tile_matches_quad [of q key t "box_of e"] by (auto simp: box_of_inject)
  qed simp
qed auto

lemma validate_tiles_iff:
  assumes "expected_geometry s p = (ew, eh, eo)" and "tile_geometry_identifier ew eh eo = Inr key" and "tm_tiles rendered \<noteq> []"
    and q: "tq_page_number q = rq_page_number p" "tq_page q = page" "tq_overlap q = eo"
  shows "validate_tiles_of_page s p page rendered = Inr () \<longleftrightarrow>
    eo < ew \<and> eo < eh
    \<and> ((rp_width page - 1) div (ew - eo) + 1) * ((rp_height page - 1) div (eh - eo) + 1) \<le> se_max_tiles_per_page s
    \<and> list_all2 (tile_matches q key) (tm_tiles rendered) (map box_of (expected_tiles ew eh (ew - eo) (eh - eo) page))"
proof -
  have m: "tile_metadata_mismatch p key eo page t \<longleftrightarrow> \<not> tile_matches q key t (box_of (quad t))" for t
    by (auto simp: tile_metadata_mismatch_def tile_matches_def box_of_def quad_def q)
  have quads: "map (\<lambda>t. (rt_x t, rt_y t, rt_width t, rt_height t)) (tm_tiles rendered) = map quad (tm_tiles rendered)"
    by (simp add: quad_def)
  have pos: "eo < ew \<and> eo < eh" if "map quad (tm_tiles rendered) = expected_tiles ew eh (ew - eo) (eh - eo) page"
    using expected_tiles_empty [of "ew - eo" "eh - eo" ew eh page] that assms(3) by fastforce
  show ?thesis
    unfolding validate_tiles_of_page_def assms(1) prod.case Let_def quads assms(2) sum.case m tiles_match_iff
    using pos by (auto simp: list_all_iff list_ex_iff)
qed

text \<open>The request that the worker derives for a page and a geometry.\<close>

definition expected_request :: "RenderTilesParams \<Rightarrow> int \<Rightarrow> int \<Rightarrow> int \<Rightarrow> pystr \<Rightarrow> RenderedPage \<Rightarrow> TileManifestRequest" where
  "expected_request p ew eh eo key page =
     \<lparr>tq_relative_path = codes ''renders/'' @ rq_render_id p @ codes ''/'' @ tile_root_of (rq_page_number p) key @ codes ''/manifest.json'',
      tq_render_id = rq_render_id p, tq_page_number = rq_page_number p, tq_tile_width = ew, tq_tile_height = eh, tq_overlap = eo,
      tq_page = page, tq_boxes = map box_of (expected_tiles ew eh (ew - eo) (eh - eo) page), tq_tile_root = tile_root_of (rq_page_number p) key\<rparr>"

lemma tile_request_expected:
  assumes "processor_settings_new s = Inr s" "tiles_params_ok p" "expected_geometry s p = (ew, eh, eo)"
    "tile_geometry_identifier ew eh eo = Inr key" "0 < rp_width page" "0 < rp_height page"
    "List.find (\<lambda>pg. rp_page_number pg = rq_page_number p) (rm_pages m) = Some page"
  shows "tile_request (worker_processor s) m (rq_render_id p) (rq_page_number p) (rq_tile_width p) (rq_tile_height p) (rq_overlap p) = Inr q \<longleftrightarrow>
    q = expected_request p ew eh eo key page \<and> eo < ew \<and> eo < eh
    \<and> ((rp_width page - 1) div (ew - eo) + 1) * ((rp_height page - 1) div (eh - eo) + 1) \<le> se_max_tiles_per_page s"
proof -
  let ?q = "expected_request p ew eh eo key page"
  let ?dims = "\<lambda>f. f (PInt (rp_width page)) (PInt (rp_height page)) (PInt ew) (PInt eh) (PInt eo)"
  note e = expected_geometry_ok [OF assms(1-3)]
  have ec: "(case rq_tile_width p of None \<Rightarrow> pp_tile_width (worker_processor s) | Some w \<Rightarrow> w) = ew"
    "(case rq_tile_height p of None \<Rightarrow> pp_tile_height (worker_processor s) | Some h \<Rightarrow> h) = eh"
    "(case rq_overlap p of None \<Rightarrow> pp_tile_overlap (worker_processor s) | Some ov \<Rightarrow> ov) = eo"
    "max_tiles_per_page (worker_processor s) = se_max_tiles_per_page s"
    using e by (simp_all add: worker_processor_def cong: option.case_cong)
  have t: "tile_request (worker_processor s) m (rq_render_id p) (rq_page_number p) (rq_tile_width p) (rq_tile_height p) (rq_overlap p) =
      rbind (?dims tile_layout) (\<lambda>(_, _, count). if se_max_tiles_per_page s < count
        then app_fail PDF_PROCESSING_FAILED ''The requested tile geometry would exceed the tile-count limit.'' 422
        else rbind (?dims tile_boxes) (\<lambda>boxes. Inr (?q\<lparr>tq_boxes := boxes\<rparr>)))"
    unfolding tile_request_def assms(7) option.case ec Let_def assms(4) rbind_simps expected_request_def TileManifestRequest.update_convs ..
  show ?thesis
  proof (cases "eo < ew \<and> eo < eh")
    case True
    have "tile_dimension_ok ew" "tile_dimension_ok eh" "tile_overlap_ok eo" using e by blast+
    note b = expected_tiles_boxes [OF assms(5,6) this True [THEN conjunct1] True [THEN conjunct2]]
    have "?q\<lparr>tq_boxes := map box_of (expected_tiles ew eh (ew - eo) (eh - eo) page)\<rparr> = ?q" by (simp add: expected_request_def)
    then show ?thesis using True unfolding t b rbind_simps prod.case by auto
  next
    case False
    then have "?dims tile_layout \<noteq> Inr x" for x by (auto simp: tile_layout_def)
    with False show ?thesis unfolding t rbind_eq_Inr by auto
  qed
qed

text \<open>
  C25. The parent accepts a tile result exactly when it is the one the worker has to compute: for the staged manifest that
  the parent reads itself, the command's parameters and the settings, the result names the command's page, the geometry
  and the page digest of the worker's own tile request, and its tiles are that request's boxes, one by one, with their
  identifiers and page dimensions. In particular a geometry whose overlap is not smaller than the tile, which the worker
  refuses, is never accepted from it.
\<close>

theorem tile_results_match_worker:
  assumes "processor_settings_new s = Inr s" and "tiles_params_ok p" and "tm_tiles rendered \<noteq> []"
    and "load_staged_render_manifest s R (rq_render_id p) = Inr m" and "list_all rendered_page_ok (rm_pages m)"
  shows "validate_tile_result_binding s R p rendered = Inr () \<longleftrightarrow>
    (\<exists>q key. tile_request (worker_processor s) m (rq_render_id p) (rq_page_number p) (rq_tile_width p) (rq_tile_height p) (rq_overlap p) = Inr q
       \<and> tile_geometry_identifier (tq_tile_width q) (tq_tile_height q) (tq_overlap q) = Inr key
       \<and> tm_page_number rendered = tq_page_number q
       \<and> (tm_tile_width rendered, tm_tile_height rendered, tm_overlap rendered) = (tq_tile_width q, tq_tile_height q, tq_overlap q)
       \<and> tm_page_sha256 rendered = rp_sha256 (tq_page q)
       \<and> list_all2 (tile_matches q key) (tm_tiles rendered) (tq_boxes q))"
proof (cases "List.find (\<lambda>pg. rp_page_number pg = rq_page_number p) (rm_pages m)")
  case None
  then show ?thesis by (auto simp: validate_tile_result_binding_def assms(4) tile_request_def)
next
  case (Some page)
  obtain ew eh eo where g: "expected_geometry s p = (ew, eh, eo)" by (metis prod_cases3)
  note e = expected_geometry_ok [OF assms(1,2) g]
  from geometry_identifier_ok [of ew eh eo] e obtain key where key: "tile_geometry_identifier ew eh eo = Inr key"
    by (auto simp: is_ok_iff)
  have "page \<in> set (rm_pages m)" using Some by (auto simp: find_Some_iff)
  then have page: "0 < rp_width page" "0 < rp_height page" using assms(5) by (auto simp: list_all_iff rendered_page_ok_def)
  let ?q = "expected_request p ew eh eo key page"
  note req = tile_request_expected [OF assms(1,2) g key page Some]
  have v: "validate_tiles_of_page s p page rendered = Inr () \<longleftrightarrow>
      eo < ew \<and> eo < eh
      \<and> ((rp_width page - 1) div (ew - eo) + 1) * ((rp_height page - 1) div (eh - eo) + 1) \<le> se_max_tiles_per_page s
      \<and> list_all2 (tile_matches ?q key) (tm_tiles rendered) (tq_boxes ?q)"
    using validate_tiles_iff [OF g key assms(3), of ?q page] by (simp add: expected_request_def)
  have sel: "tq_page_number ?q = rq_page_number p" "tq_tile_width ?q = ew" "tq_tile_height ?q = eh" "tq_overlap ?q = eo" "tq_page ?q = page"
    by (simp_all add: expected_request_def)
  show ?thesis
    unfolding validate_tile_result_binding_def assms(4) rbind_simps Some option.case g req
    using v key sel by auto
qed

definition example_settings :: PdfProcessorSettings where
  "example_settings =
     \<lparr>se_max_pages_per_render = 8, se_max_page_pixels = 120000000, se_max_render_pixels = 480000000, se_fallback_dpi = 400,
      se_tile_width = 2048, se_tile_height = 2048, se_tile_overlap = 128, se_max_tiles_per_page = 100\<rparr>"

definition example_params :: RenderTilesParams where
  "example_params =
     \<lparr>rq_render_id = codes ''rnd_'' @ replicate 32 97, rq_page_number = 1, rq_tile_width = None, rq_tile_height = None,
      rq_overlap = None\<rparr>"

definition example_reader :: staged_reader where
  "example_reader = \<lparr>sr_read = (\<lambda>_. Inr [123]), sr_parse = (\<lambda>_. Some example_manifest)\<rparr>"

definition example_tile :: RenderedTile where
  "example_tile =
     \<lparr>rt_tile_id = codes ''p0001_tpv1-0-0-w2048-h2048-o128_x000000_y000000'', rt_page_number = 1, rt_x = 0, rt_y = 0,
      rt_width = 400, rt_height = 800, rt_full_page_width = 400, rt_full_page_height = 800, rt_overlap = 128,
      rt_relative_path = codes ''t.jpg'', rt_sha256 = replicate 64 98, rt_media_type = codes ''image/jpeg'',
      rt_resize_applied = False, rt_pixel_dimensions_preserved = True, rt_renderer_resampling = codes ''none'',
      rt_reencoded = True, rt_lossy_conversion = True\<rparr>"

definition example_tiles :: TileManifest where
  "example_tiles =
     \<lparr>tm_render_id = codes ''rnd_'' @ replicate 32 97, tm_page_number = 1, tm_page_sha256 = replicate 64 98,
      tm_tile_width = 2048, tm_tile_height = 2048, tm_overlap = 128, tm_tiles = [example_tile],
      tm_manifest_relative_path = codes ''m.json'', tm_manifest_schema_version = SEMANTIC_VERSION,
      tm_render_pipeline_version = SEMANTIC_VERSION, tm_classification_algorithm_version = SEMANTIC_VERSION,
      tm_tile_pipeline_version = SEMANTIC_VERSION\<rparr>"

theorem tile_results_match_worker_witness:
  "\<exists>q. tile_request (worker_processor example_settings) example_manifest (rq_render_id example_params) 1 None None None = Inr q
     \<and> length (tq_boxes q) = 1 \<and> tq_tile_width q = 2048"
proof -
  have s: "processor_settings_new example_settings = Inr example_settings" by code_simp
  have p: "tiles_params_ok example_params" by code_simp
  have r: "load_staged_render_manifest example_settings example_reader (rq_render_id example_params) = Inr example_manifest"
    by code_simp
  have ok: "list_all rendered_page_ok (rm_pages example_manifest)" by code_simp
  have "tm_tiles example_tiles \<noteq> []" by (simp add: example_tiles_def)
  from tile_results_match_worker [OF s p this r ok]
  have "validate_tile_result_binding example_settings example_reader example_params example_tiles = Inr () \<longrightarrow> ?thesis"
    by (auto simp: example_params_def example_tiles_def dest: list_all2_lengthD)
  moreover have "validate_tile_result_binding example_settings example_reader example_params example_tiles = Inr ()" by code_simp
  ultimately show ?thesis by blast
qed

section \<open>Accepted results\<close>

lemma pixel_budget_iff:
  assumes "\<And>p. p \<in> set ps \<Longrightarrow> 0 \<le> rp_width p * rp_height p" "pixel_sum \<le> se_max_render_pixels s"
  shows "pixel_budget_loop s pixel_sum ps = Inr () \<longleftrightarrow>
    list_all (\<lambda>p. rp_width p * rp_height p \<le> se_max_page_pixels s) ps
    \<and> pixel_sum + sum_list (map (\<lambda>p. rp_width p * rp_height p) ps) \<le> se_max_render_pixels s"
  using assms
proof (induction ps arbitrary: pixel_sum)
  case (Cons p ps)
  let ?k = "rp_width p * rp_height p"
  have nn: "0 \<le> sum_list (map (\<lambda>p. rp_width p * rp_height p) ps)"
    using Cons.prems(1) by (intro sum_list_nonneg) auto
  show ?case
  proof (cases "?k \<le> se_max_page_pixels s \<and> pixel_sum + ?k \<le> se_max_render_pixels s")
    case True
    with Cons.IH [of "pixel_sum + ?k"] Cons.prems show ?thesis by (simp add: Let_def add.assoc)
  next
    case False
    then show ?thesis using nn by (auto simp: Let_def)
  qed
qed simp

definition within_pixel_limits :: "PdfProcessorSettings \<Rightarrow> RenderManifest \<Rightarrow> bool" where
  "within_pixel_limits s m =
     (int (length (rm_pages m)) \<le> se_max_pages_per_render s
      \<and> list_all (\<lambda>p. rp_width p * rp_height p \<le> se_max_page_pixels s) (rm_pages m)
      \<and> sum_list (map (\<lambda>p. rp_width p * rp_height p) (rm_pages m)) \<le> se_max_render_pixels s)"

lemma pixel_budget_ok:
  assumes "validate_render_pixel_budget s m = Inr ()" "pages_output_ok m" "0 \<le> se_max_render_pixels s"
  shows "within_pixel_limits s m"
proof -
  have "0 \<le> rp_width p * rp_height p" if "p \<in> set (rm_pages m)" for p
    using assms(2) that by (auto simp: pages_output_ok_def list_all_iff rendered_page_ok_def)
  from pixel_budget_iff [of "rm_pages m" 0 s, OF this assms(3)] assms(1) show ?thesis
    by (auto simp: within_pixel_limits_def validate_render_pixel_budget_def split: if_splits)
qed

text \<open>
  C3. A worker result that the parent accepts for publication belongs to its command: it carries the command's identifier
  and operation; a render shows exactly the selected pages of the staged source, under the identifier derived from that
  source, the pages, the renderer and the resolution, within the page count and both pixel limits; a tile or manifest
  result names the command's render; and an inspection names the staged source.
\<close>

theorem accepted_results_are_bound:
  assumes "validate_result_binding s R command (PdfSuccess rid payload) expected_source = Inr ()"
    and "payload_ok payload" and "0 \<le> se_max_render_pixels s"
  shows "rid = command_id command \<and> payload_operation payload = command_operation command
    \<and> (\<forall>v. payload = InspectPayload v \<longrightarrow> expected_source = None \<or> expected_source = Some (io_source_sha256 v))
    \<and> (\<forall>v. payload = RenderPagesPayload v \<longrightarrow> expected_source = Some (rm_source_sha256 v)
         \<and> map rp_page_number (rm_pages v) = selected_pages command \<and> within_pixel_limits s v
         \<and> render_identifier (rm_source_sha256 v) (selected_pages command) (rm_renderer_version v) (se_fallback_dpi s) = Inr (rm_render_id v))
    \<and> (\<forall>v. payload = RenderTilesPayload v \<longrightarrow> tm_render_id v = rq_render_id (tile_parameters command)
         \<and> validate_tile_result_binding s R (tile_parameters command) v = Inr ())
    \<and> (\<forall>v. payload = ManifestPayload v \<longrightarrow> rm_render_id v = manifest_render_id command \<and> within_pixel_limits s v)"
proof -
  have b: "rid = command_id command" "payload_operation payload = command_operation command"
    "validate_result_pixel_budget s (PdfSuccess rid payload) = Inr ()"
    "validate_payload_binding s R command expected_source payload = Inr ()"
    using assms(1) by (auto simp: validate_result_binding_def result_operation_def rbind_eq_Inr split: if_splits)
  show ?thesis
  proof (cases payload)
    case (InspectPayload v)
    with b show ?thesis by (cases command) (auto simp: validate_payload_binding_def payload_source_def split: if_splits)
  next
    case (RenderPagesPayload v)
    then obtain i path pages where c: "command = RenderPagesCommand i path pages" using b(2) by (cases command) auto
    have "validate_render_binding s pages expected_source v = Inr ()"
      "expected_source \<noteq> None \<longrightarrow> expected_source = Some (rm_source_sha256 v)"
      using b(4) by (auto simp: validate_payload_binding_def RenderPagesPayload c payload_source_def rbind_eq_Inr split: if_splits)
    then have "expected_source = Some (rm_source_sha256 v)" "map rp_page_number (rm_pages v) = pages"
      "render_identifier (rm_source_sha256 v) pages (rm_renderer_version v) (se_fallback_dpi s) = Inr (rm_render_id v)"
      by (auto simp: validate_render_binding_def split: if_splits option.splits sum.splits)
    moreover have "within_pixel_limits s v"
      using b(3) assms(2,3) RenderPagesPayload by (intro pixel_budget_ok) (auto simp: validate_result_pixel_budget_def)
    ultimately show ?thesis using b(1,2) RenderPagesPayload c by simp
  next
    case (RenderTilesPayload v)
    then obtain i p where c: "command = RenderTilesCommand i p" using b(2) by (cases command) auto
    with b RenderTilesPayload show ?thesis
      by (auto simp: validate_payload_binding_def payload_source_def payload_render_id_def command_render_id_def split: if_splits)
  next
    case (ManifestPayload v)
    then obtain i rid' where c: "command = ManifestCommand i rid'" using b(2) by (cases command) auto
    have "within_pixel_limits s v"
      using b(3) assms(2,3) ManifestPayload by (intro pixel_budget_ok) (auto simp: validate_result_pixel_budget_def)
    with b ManifestPayload c show ?thesis
      by (auto simp: validate_payload_binding_def payload_source_def payload_render_id_def command_render_id_def split: if_splits)
  qed
qed

theorem accepted_results_are_bound_witness:
  "within_pixel_limits example_settings example_manifest
   \<and> rm_render_id example_manifest = manifest_render_id (ManifestCommand (codes ''id'') (codes ''rnd_'' @ replicate 32 97))"
proof -
  let ?c = "ManifestCommand (codes ''id'') (codes ''rnd_'' @ replicate 32 97)"
  have v: "validate_result_binding example_settings example_reader ?c (PdfSuccess (codes ''id'') (ManifestPayload example_manifest)) None = Inr ()"
    by code_simp
  have ok: "payload_ok (ManifestPayload example_manifest)" by code_simp
  have "0 \<le> se_max_render_pixels example_settings" by code_simp
  from accepted_results_are_bound [OF v ok this] show ?thesis by blast
qed

end
