(* ===== verification/Nplg_Parser.thy ===== *)
theory Nplg_Parser
  imports Nplg_Json_Preflight Nplg_Admission Nplg_Filesystem
begin

text \<open>
  Disposable metadata parsers: the messages of \<^verbatim>\<open>src/nplg_mcp/parser_ipc.py\<close>, the parent side of
  \<^verbatim>\<open>parser_executor.py\<close> and the child of \<^verbatim>\<open>parser_worker_main.py\<close>. The parsed values are those of \<^verbatim>\<open>parsers.py\<close> and stay
  abstract (the types \<open>'s\<close> of search pages and \<open>'d\<close> of document records), as do the five parsing functions, which are one
  argument. Reading and printing a model belong to pydantic and are a \<open>codec\<close>; the constraints are the declared ones.
  \<open>ParserIpcError\<close> is a \<open>ValueError\<close>. The details of an application error are a mapping or absent, as its class declares; the
  resource limits of the child and the signals that end it are not modelled.
\<close>

section \<open>Messages\<close>

definition MAX_PARSER_COMMAND_BYTES :: nat where "MAX_PARSER_COMMAND_BYTES = 4 * 1024 * 1024"
definition MAX_PARSER_RESULT_BYTES :: nat where "MAX_PARSER_RESULT_BYTES = 4 * 1024 * 1024"
definition MAX_STDERR_BYTES :: nat where "MAX_STDERR_BYTES = 16384"

datatype ParserOperation = POpSearch | POpSearchVersion | POpItem | POpMetadataFormats | POpOaiRecord

datatype ParserCommand =
    SearchCommand (pc_id: pystr) (pc_markup: pystr) (pc_source_url: pystr) (pc_page_size: int)
  | SearchVersionCommand (pc_id: pystr) (pc_markup: pystr) (pc_source_url: pystr)
  | ItemCommand (pc_id: pystr) (pc_markup: pystr) (pc_expected_handle: pystr) (pc_source_url: pystr)
  | MetadataFormatsCommand (pc_id: pystr) (pc_markup: pystr)
  | OaiRecordCommand (pc_id: pystr) (pc_markup: pystr) (pc_expected_handle: pystr) (pc_metadata_prefix: pystr)

fun pc_operation :: "ParserCommand \<Rightarrow> ParserOperation" where
  "pc_operation (SearchCommand _ _ _ _) = POpSearch"
| "pc_operation (SearchVersionCommand _ _ _) = POpSearchVersion"
| "pc_operation (ItemCommand _ _ _ _) = POpItem"
| "pc_operation (MetadataFormatsCommand _ _) = POpMetadataFormats"
| "pc_operation (OaiRecordCommand _ _ _ _) = POpOaiRecord"

definition length_within :: "nat \<Rightarrow> nat \<Rightarrow> pystr \<Rightarrow> bool" where
  "length_within lo hi s = (lo \<le> length s \<and> length s \<le> hi)"

abbreviation markup_ok :: "pystr \<Rightarrow> bool" where "markup_ok \<equiv> length_within 1 MAX_PARSER_COMMAND_BYTES"
abbreviation source_url_ok :: "pystr \<Rightarrow> bool" where "source_url_ok \<equiv> length_within 1 2048"
abbreviation handle_ok :: "pystr \<Rightarrow> bool" where "handle_ok \<equiv> length_within 3 256"

fun parser_command_ok :: "ParserCommand \<Rightarrow> bool" where
  "parser_command_ok (SearchCommand _ markup url page_size) = (markup_ok markup \<and> source_url_ok url \<and> 1 \<le> page_size \<and> page_size \<le> 50)"
| "parser_command_ok (SearchVersionCommand _ markup url) = (markup_ok markup \<and> source_url_ok url)"
| "parser_command_ok (ItemCommand _ markup handle url) = (markup_ok markup \<and> handle_ok handle \<and> source_url_ok url)"
| "parser_command_ok (MetadataFormatsCommand _ markup) = markup_ok markup"
| "parser_command_ok (OaiRecordCommand _ markup handle prefix) =
     (markup_ok markup \<and> handle_ok handle \<and> prefix \<in> {codes ''dim'', codes ''oai_dc''})"

datatype ('s, 'd) ParserPayload =
    SearchPayload 's
  | SearchVersionPayload pystr
  | ItemPayload 'd
  | MetadataFormatsPayload "pystr list"
  | OaiRecordPayload 'd

fun pp_operation :: "('s, 'd) ParserPayload \<Rightarrow> ParserOperation" where
  "pp_operation (SearchPayload _) = POpSearch"
| "pp_operation (SearchVersionPayload _) = POpSearchVersion"
| "pp_operation (ItemPayload _) = POpItem"
| "pp_operation (MetadataFormatsPayload _) = POpMetadataFormats"
| "pp_operation (OaiRecordPayload _) = POpOaiRecord"

fun parser_payload_ok :: "('s, 'd) ParserPayload \<Rightarrow> bool" where
  "parser_payload_ok (SearchVersionPayload v) =
     (length v = 10 \<and> take 2 v = codes ''ex'' \<and> list_all (\<lambda>c. 48 \<le> c \<and> c \<le> 57) (drop 2 v))"
| "parser_payload_ok (MetadataFormatsPayload vs) = (1 \<le> length vs \<and> length vs \<le> 64)"
| "parser_payload_ok _ = True"

record ParserErrorDetails =
  ed_source_url :: "pystr option"
  ed_oai_error :: "pystr option"
  ed_metadata_prefix :: "pystr option"

definition details_ok :: "ParserErrorDetails \<Rightarrow> bool" where
  "details_ok d =
     (pred_option source_url_ok (ed_source_url d) \<and> pred_option (length_within 1 128) (ed_oai_error d)
      \<and> pred_option (length_within 1 64) (ed_metadata_prefix d))"

definition as_public_mapping :: "ParserErrorDetails \<Rightarrow> (pystr \<times> pystr) list" where
  "as_public_mapping d =
     (case ed_source_url d of None \<Rightarrow> [] | Some v \<Rightarrow> [(codes ''source_url'', v)])
     @ (case ed_oai_error d of None \<Rightarrow> [] | Some v \<Rightarrow> [(codes ''oai_error'', v)])
     @ (case ed_metadata_prefix d of None \<Rightarrow> [] | Some v \<Rightarrow> [(codes ''metadata_prefix'', v)])"

record ParserPublicError =
  pe_code :: ErrorCode
  pe_message :: pystr
  pe_http_status :: int
  pe_details :: "ParserErrorDetails option"

definition public_error_ok :: "ParserPublicError \<Rightarrow> bool" where
  "public_error_ok e =
     (length_within 1 512 (pe_message e) \<and> 400 \<le> pe_http_status e \<and> pe_http_status e \<le> 599 \<and> pred_option details_ok (pe_details e))"

datatype ('s, 'd) ParserResult =
    ParserSuccess (pr_id: pystr) "('s, 'd) ParserPayload"
  | ParserFailure (pr_id: pystr) ParserOperation ParserPublicError

fun parser_result_ok :: "('s, 'd) ParserResult \<Rightarrow> bool" where
  "parser_result_ok (ParserSuccess _ p) = parser_payload_ok p"
| "parser_result_ok (ParserFailure _ _ e) = public_error_ok e"

section \<open>Frames\<close>

record 'm codec =
  parse_model :: "bytes \<Rightarrow> 'm option"
  dump_model :: "'m \<Rightarrow> bytes"

definition parser_limits :: "nat \<Rightarrow> JsonPreflightLimits" where
  "parser_limits maximum =
     \<lparr>max_body_bytes = maximum, max_depth = 64, max_object_members = 64, max_array_items = 4096, max_tokens = 100000,
      max_key_bytes = 128, max_scalar_bytes = maximum, max_integer_digits = 32, max_exponent_magnitude = 0\<rparr>"

definition preflight_parser_frame :: "nat \<Rightarrow> bytes \<Rightarrow> unit res" where
  "preflight_parser_frame maximum frame =
     (if frame = [] \<or> maximum < length frame then Inl (ValueError ''parser frame length is outside the allowed range'')
      else if \<not> limits_valid (parser_limits maximum) \<or> preflight_json frame (Some (parser_limits maximum)) = None
      then Inl (ValueError ''parser frame is not valid bounded JSON'') else Inr ())"

definition encode_parser_frame :: "nat \<Rightarrow> 'm codec \<Rightarrow> 'm \<Rightarrow> bytes res" where
  "encode_parser_frame maximum K m =
     (let frame = dump_model K m
      in if frame = [] \<or> maximum < length frame then Inl (ValueError ''parser frame length is outside the allowed range'')
         else Inr frame)"

definition parse_parser_frame :: "nat \<Rightarrow> string \<Rightarrow> string \<Rightarrow> 'm codec \<Rightarrow> ('m \<Rightarrow> bool) \<Rightarrow> bytes \<Rightarrow> 'm res" where
  "parse_parser_frame maximum invalid noncanonical K ok frame =
     rbind (preflight_parser_frame maximum frame) (\<lambda>_.
       case parse_model K frame of
         None \<Rightarrow> Inl (ValueError invalid)
       | Some m \<Rightarrow>
           if \<not> ok m then Inl (ValueError invalid)
           else if dump_model K m \<noteq> frame then Inl (ValueError noncanonical) else Inr m)"

definition parse_parser_command :: "ParserCommand codec \<Rightarrow> bytes \<Rightarrow> ParserCommand res" where
  "parse_parser_command K =
     parse_parser_frame MAX_PARSER_COMMAND_BYTES ''parser command failed strict validation'' ''parser command is not canonical'' K parser_command_ok"

definition parse_parser_result :: "('s, 'd) ParserResult codec \<Rightarrow> bytes \<Rightarrow> ('s, 'd) ParserResult res" where
  "parse_parser_result K =
     parse_parser_frame MAX_PARSER_RESULT_BYTES ''parser result failed strict validation'' ''parser result is not canonical'' K parser_result_ok"

section \<open>The worker process\<close>

definition error_details :: "heap \<Rightarrow> app_error \<Rightarrow> ParserErrorDetails option res" where
  "error_details h e =
     (case safe_details e of
        None \<Rightarrow> Inr None
      | Some raw \<Rightarrow>
          (case raw of
             PRef a \<Rightarrow>
               (case h a of
                  Some (CDict items) \<Rightarrow>
                    if \<not> set (map fst items) \<subseteq> {PStr (codes ''source_url''), PStr (codes ''oai_error''), PStr (codes ''metadata_prefix'')}
                       \<or> list_ex (\<lambda>(_, v). case v of PStr _ \<Rightarrow> False | _ \<Rightarrow> True) items
                    then Inr None
                    else let get = (\<lambda>k. case map_of items (PStr (codes k)) of Some (PStr v) \<Rightarrow> Some v | _ \<Rightarrow> None);
                             d = \<lparr>ed_source_url = get ''source_url'', ed_oai_error = get ''oai_error'',
                                  ed_metadata_prefix = get ''metadata_prefix''\<rparr>
                         in if details_ok d then Inr (Some d) else Inl (ValueError ''ValidationError'')
                | _ \<Rightarrow> Inl (TypeError ''cannot convert dictionary update sequence''))
           | _ \<Rightarrow> Inl (TypeError ''object is not iterable'')))"

definition expected_failure :: "heap \<Rightarrow> ParserCommand \<Rightarrow> app_error \<Rightarrow> ('s, 'd) ParserResult res" where
  "expected_failure h command e =
     rbind (error_details h e) (\<lambda>details.
       let p = \<lparr>pe_code = err_code e, pe_message = codes (err_message e), pe_http_status = http_status e, pe_details = details\<rparr>
       in if public_error_ok p then Inr (ParserFailure (pc_id command) (pc_operation command) p)
          else Inl (ValueError ''ValidationError''))"

definition unexpected_failure :: "ParserCommand \<Rightarrow> ('s, 'd) ParserResult" where
  "unexpected_failure command =
     ParserFailure (pc_id command) (pc_operation command)
       \<lparr>pe_code = UPSTREAM_FAILURE, pe_message = codes ''The repository response could not be parsed safely.'',
        pe_http_status = 502, pe_details = None\<rparr>"

text \<open>
  The parsing functions: a value, or the exception they raise. A payload that violates its model is a validation error,
  which the worker answers like any other unexpected exception.
\<close>

definition parser_execute :: "(ParserCommand \<Rightarrow> ('s, 'd) ParserPayload res) \<Rightarrow> ParserCommand \<Rightarrow> ('s, 'd) ParserResult res" where
  "parser_execute parse command =
     rbind (parse command) (\<lambda>p.
       if parser_payload_ok p then Inr (ParserSuccess (pc_id command) p) else Inl (ValueError ''ValidationError''))"

text \<open>What the parent sees of a finished child: its exit status, its output, and whether it wrote to standard error.\<close>

record child_outcome =
  co_status :: int
  co_stdout :: bytes
  co_stderr :: bytes

definition exited :: "int \<Rightarrow> bytes \<Rightarrow> child_outcome" where
  "exited status out = \<lparr>co_status = status, co_stdout = out, co_stderr = []\<rparr>"

definition crashed :: child_outcome where
  "crashed = \<lparr>co_status = 1, co_stdout = [], co_stderr = codes ''Traceback''\<rparr>"

definition worker_result ::
  "heap \<Rightarrow> (ParserCommand \<Rightarrow> ('s, 'd) ParserPayload res) \<Rightarrow> ParserCommand \<Rightarrow> ('s, 'd) ParserResult res" where
  "worker_result h parse command =
     (case parser_execute parse command of
        Inr r \<Rightarrow> Inr r
      | Inl (AppErr e) \<Rightarrow> expected_failure h command e
      | Inl _ \<Rightarrow> Inr (unexpected_failure command))"

definition read_parser_command :: "ParserCommand codec \<Rightarrow> bytes \<Rightarrow> ParserCommand res" where
  "read_parser_command K stdin =
     (let frame = take (MAX_PARSER_COMMAND_BYTES + 1) stdin
      in if MAX_PARSER_COMMAND_BYTES < length frame then Inl (ValueError ''parser command exceeded its byte limit'')
         else parse_parser_command K frame)"

definition parser_worker_main ::
  "heap \<Rightarrow> ParserCommand codec \<Rightarrow> ('s, 'd) ParserResult codec \<Rightarrow> (ParserCommand \<Rightarrow> ('s, 'd) ParserPayload res) \<Rightarrow> bytes \<Rightarrow> child_outcome" where
  "parser_worker_main h KC KR parse stdin =
     (case read_parser_command KC stdin of
        Inl _ \<Rightarrow> exited 2 []
      | Inr command \<Rightarrow>
          (case worker_result h parse command of
             Inl _ \<Rightarrow> crashed
           | Inr r \<Rightarrow>
               (case encode_parser_frame MAX_PARSER_RESULT_BYTES KR r of
                  Inl _ \<Rightarrow> exited 3 []
                | Inr frame \<Rightarrow> exited 0 frame)))"

section \<open>The parent\<close>

datatype parser_exc =
    ParserWorkerError string
  | ParserAppError ErrorCode pystr int "(pystr \<times> pystr) list option"
  | BlockingWorkCapacityError
  | ParserRaised pyexc

definition validate_worker_argv :: "pyobj list option \<Rightarrow> pyobj list res" where
  "validate_worker_argv argv =
     (case argv of
        None \<Rightarrow> Inl (TypeError ''parser worker argv must be one non-empty tuple'')
      | Some [] \<Rightarrow> Inl (TypeError ''parser worker argv must be one non-empty tuple'')
      | Some (a # as) \<Rightarrow>
          if list_ex (\<lambda>v. case v of PStr s \<Rightarrow> s = [] \<or> 4096 < length s \<or> 0 \<in> set s | _ \<Rightarrow> True) (a # as)
          then Inl (ValueError ''parser worker argv contains an invalid argument'')
          else if \<not> (case a of PStr s \<Rightarrow> posix_is_absolute s | _ \<Rightarrow> False)
          then Inl (ValueError ''parser worker executable must be absolute'')
          else Inr (a # as))"

text \<open>
  \<open>_read_bounded\<close>: every chunk is at most what was asked for; the empty chunk ends the stream, so the chunks of the
  argument are nonempty.
\<close>

fun read_bounded :: "nat \<Rightarrow> bytes \<Rightarrow> bytes list \<Rightarrow> parser_exc + bytes" where
  "read_bounded maximum acc [] = Inr acc"
| "read_bounded maximum acc (chunk # chunks) =
     (if maximum < length acc + length chunk then Inl (ParserWorkerError ''parser worker output exceeded its byte limit'')
      else read_bounded maximum (acc @ chunk) chunks)"

definition validated_result_payload ::
  "('s, 'd) ParserResult codec \<Rightarrow> ParserCommand \<Rightarrow> bytes \<Rightarrow> parser_exc + ('s, 'd) ParserPayload" where
  "validated_result_payload K command frame =
     (case parse_parser_result K frame of
        Inl _ \<Rightarrow> Inl (ParserWorkerError ''parser worker returned an invalid result'')
      | Inr r \<Rightarrow>
          if pr_id r \<noteq> pc_id command
          then Inl (ParserWorkerError ''parser worker response identity did not match the command'')
          else (case r of
            ParserFailure _ operation e \<Rightarrow>
              if operation \<noteq> pc_operation command
              then Inl (ParserWorkerError ''parser worker response operation did not match the command'')
              else Inl (ParserAppError (pe_code e) (pe_message e) (pe_http_status e) (map_option as_public_mapping (pe_details e)))
          | ParserSuccess _ p \<Rightarrow>
              if pp_operation p \<noteq> pc_operation command
              then Inl (ParserWorkerError ''parser worker response operation did not match the command'') else Inr p))"

definition parser_exchange ::
  "ParserCommand codec \<Rightarrow> ('s, 'd) ParserResult codec \<Rightarrow> (bytes \<Rightarrow> child_outcome) \<Rightarrow> ParserCommand \<Rightarrow> parser_exc + ('s, 'd) ParserPayload" where
  "parser_exchange KC KR child command =
     (case encode_parser_frame MAX_PARSER_COMMAND_BYTES KC command of
        Inl _ \<Rightarrow> Inl (ParserWorkerError ''parser command could not be encoded within its boundary'')
      | Inr frame \<Rightarrow>
          let out = child frame
          in if MAX_PARSER_RESULT_BYTES < length (co_stdout out) \<or> MAX_STDERR_BYTES < length (co_stderr out)
             then Inl (ParserWorkerError ''parser worker output exceeded its byte limit'')
             else if co_status out \<noteq> 0 \<or> co_stderr out \<noteq> []
             then Inl (ParserWorkerError ''parser worker exited without one valid result'')
             else validated_result_payload KR command (co_stdout out))"

text \<open>
  \<open>_execute\<close>: the deadline, the gate, and the exchange; \<open>None\<close> for the exchange means that the deadline passed while
  it ran. The gate is given back in every case.
\<close>

definition parser_gated ::
  "pyobj \<Rightarrow> pyfloat \<Rightarrow> (parser_exc + 'p) option \<Rightarrow> AdmissionGate \<Rightarrow> (parser_exc + 'p) \<times> AdmissionGate" where
  "parser_gated deadline now exchange g =
     (case deadline of
        PFloat d \<Rightarrow>
          if \<not> isfinite d then (Inl (ParserRaised (TypeError ''parser deadline must be one finite float'')), g)
          else if fle d now then (Inl (ParserRaised (TimeoutError [])), g)
          else (case gate_try_acquire g of
                  (False, g1) \<Rightarrow> (Inl BlockingWorkCapacityError, g1)
                | (True, g1) \<Rightarrow>
                    (case gate_release g1 of
                       (Inl e, g2) \<Rightarrow> (Inl (ParserRaised e), g2)
                     | (Inr _, g2) \<Rightarrow> (case exchange of None \<Rightarrow> Inl (ParserRaised (TimeoutError [])) | Some r \<Rightarrow> r, g2)))
      | _ \<Rightarrow> (Inl (ParserRaised (TypeError ''parser deadline must be one finite float'')), g))"

section \<open>The process boundary\<close>

lemma parse_parser_frame_Inr:
  "parse_parser_frame maximum e1 e2 K ok frame = Inr m \<longleftrightarrow>
   preflight_parser_frame maximum frame = Inr () \<and> parse_model K frame = Some m \<and> ok m \<and> dump_model K m = frame"
  by (auto simp: parse_parser_frame_def rbind_eq_Inr split: option.splits if_splits)

lemma read_bounded_eq:
  "length acc \<le> maximum \<Longrightarrow> read_bounded maximum acc chunks =
     (if maximum < length acc + length (concat chunks)
      then Inl (ParserWorkerError ''parser worker output exceeded its byte limit'') else Inr (acc @ concat chunks))"
  by (induction chunks arbitrary: acc) auto

text \<open>
  What the subprocess executor promises: the answer the inline executor would give, except that an error crosses the
  boundary with the allowed details only and any other failure becomes one generic upstream error.
\<close>

definition boundary_answer ::
  "heap \<Rightarrow> (ParserCommand \<Rightarrow> ('s, 'd) ParserPayload res) \<Rightarrow> ParserCommand \<Rightarrow> parser_exc + ('s, 'd) ParserPayload" where
  "boundary_answer h parse command =
     (case parse command of
        Inr p \<Rightarrow> Inr p
      | Inl (AppErr e) \<Rightarrow>
          Inl (ParserAppError (err_code e) (codes (err_message e)) (http_status e)
                (case error_details h e of Inr (Some d) \<Rightarrow> Some (as_public_mapping d) | _ \<Rightarrow> None))
      | Inl _ \<Rightarrow> Inl (ParserAppError UPSTREAM_FAILURE (codes ''The repository response could not be parsed safely.'') 502 None))"

definition frame_travels :: "nat \<Rightarrow> 'm codec \<Rightarrow> 'm \<Rightarrow> bool" where
  "frame_travels maximum K m =
     (parse_model K (dump_model K m) = Some m \<and> preflight_parser_frame maximum (dump_model K m) = Inr ())"

lemma frame_travels_encode: "frame_travels maximum K m \<Longrightarrow> encode_parser_frame maximum K m = Inr (dump_model K m)"
  by (auto simp: frame_travels_def encode_parser_frame_def preflight_parser_frame_def Let_def split: if_splits)

lemma frame_travels_length: "frame_travels maximum K m \<Longrightarrow> length (dump_model K m) \<le> maximum"
  by (auto simp: frame_travels_def preflight_parser_frame_def split: if_splits)

lemma worker_result_ok:
  assumes "worker_result h parse command = Inr r"
  shows "parser_result_ok r \<and> pr_id r = pc_id command"
proof (cases "parser_execute parse command")
  case (Inr r')
  with assms show ?thesis by (auto simp: worker_result_def parser_execute_def rbind_eq_Inr split: if_splits)
next
  case (Inl e)
  show ?thesis
  proof (cases "\<exists>a. e = AppErr a")
    case True
    with assms Inl show ?thesis
      by (auto simp: worker_result_def expected_failure_def rbind_eq_Inr Let_def split: if_splits)
  next
    case False
    with assms Inl have "r = unexpected_failure command" by (cases e) (auto simp: worker_result_def)
    then show ?thesis by (simp add: unexpected_failure_def public_error_ok_def length_within_def)
  qed
qed

lemma worker_main_answers:
  assumes "parser_command_ok command" "frame_travels MAX_PARSER_COMMAND_BYTES KC command"
    and "worker_result h parse command = Inr r" "frame_travels MAX_PARSER_RESULT_BYTES KR r"
  shows "parser_worker_main h KC KR parse (dump_model KC command) = exited 0 (dump_model KR r)"
proof -
  have "read_parser_command KC (dump_model KC command) = Inr command"
    using assms(1,2) frame_travels_length [OF assms(2)]
    by (simp add: read_parser_command_def parse_parser_command_def parse_parser_frame_Inr frame_travels_def Let_def)
  with assms(3) frame_travels_encode [OF assms(4)] show ?thesis by (simp add: parser_worker_main_def)
qed

text \<open>
  C4. Parsing in a disposable process refines parsing in place. When the command and the worker's answer travel as
  canonical bounded frames, the executor returns exactly what the parser computed, raises the parser's own application
  error with its code, message, status and only the allowed string details, and turns every other exception of the parser
  into the one generic upstream failure.
\<close>

theorem parser_process_refines_parser:
  assumes "parser_command_ok command" and "frame_travels MAX_PARSER_COMMAND_BYTES KC command"
    and "worker_result h parse command = Inr r" and "frame_travels MAX_PARSER_RESULT_BYTES KR r"
    and "\<forall>p. parse command = Inr p \<longrightarrow> parser_payload_ok p \<and> pp_operation p = pc_operation command"
  shows "parser_exchange KC KR (parser_worker_main h KC KR parse) command = boundary_answer h parse command"
proof -
  note r = worker_result_ok [OF assms(3)]
  have "parse_parser_result KR (dump_model KR r) = Inr r"
    using r assms(4) by (simp add: parse_parser_result_def parse_parser_frame_Inr frame_travels_def)
  then have x: "parser_exchange KC KR (parser_worker_main h KC KR parse) command =
      (case r of ParserFailure _ operation e \<Rightarrow>
              if operation \<noteq> pc_operation command
              then Inl (ParserWorkerError ''parser worker response operation did not match the command'')
              else Inl (ParserAppError (pe_code e) (pe_message e) (pe_http_status e) (map_option as_public_mapping (pe_details e)))
          | ParserSuccess _ p \<Rightarrow>
              if pp_operation p \<noteq> pc_operation command
              then Inl (ParserWorkerError ''parser worker response operation did not match the command'') else Inr p)"
    using r worker_main_answers [OF assms(1-4)] frame_travels_encode [OF assms(2)] frame_travels_length [OF assms(4)]
    by (simp add: parser_exchange_def exited_def validated_result_payload_def Let_def)
  show ?thesis
  proof (cases "parse command")
    case (Inr p)
    with assms(5) have ok: "parser_payload_ok p" "pp_operation p = pc_operation command" by auto
    with Inr assms(3) have "r = ParserSuccess (pc_id command) p" by (simp add: worker_result_def parser_execute_def)
    with ok Inr x show ?thesis by (simp add: boundary_answer_def)
  next
    case (Inl e)
    show ?thesis
    proof (cases "\<exists>a. e = AppErr a")
      case True
      then obtain a where a: "e = AppErr a" by blast
      with Inl assms(3) have "expected_failure h command a = Inr r" by (simp add: worker_result_def parser_execute_def)
      then obtain d where "error_details h a = Inr d" "r = ParserFailure (pc_id command) (pc_operation command)
          \<lparr>pe_code = err_code a, pe_message = codes (err_message a), pe_http_status = http_status a, pe_details = d\<rparr>"
        by (auto simp: expected_failure_def rbind_eq_Inr Let_def split: if_splits)
      with Inl a x show ?thesis by (cases d) (simp_all add: boundary_answer_def)
    next
      case False
      with Inl assms(3) have "r = unexpected_failure command"
        by (cases e) (auto simp: worker_result_def parser_execute_def)
      with Inl False x show ?thesis by (cases e) (auto simp: unexpected_failure_def boundary_answer_def)
    qed
  qed
qed

definition example_command :: ParserCommand where
  "example_command = MetadataFormatsCommand (codes ''id'') (codes ''<OAI-PMH/>'')"

definition example_parse :: "ParserCommand \<Rightarrow> (unit, unit) ParserPayload res" where
  "example_parse command = Inr (MetadataFormatsPayload [codes ''oai_dc''])"

definition example_command_codec :: "ParserCommand codec" where
  "example_command_codec = \<lparr>parse_model = (\<lambda>_. Some example_command), dump_model = (\<lambda>_. codes ''{}'')\<rparr>"

definition example_result_codec :: "(unit, unit) ParserResult codec" where
  "example_result_codec =
     \<lparr>parse_model = (\<lambda>_. Some (ParserSuccess (codes ''id'') (MetadataFormatsPayload [codes ''oai_dc'']))), dump_model = (\<lambda>_. codes ''[]'')\<rparr>"

theorem parser_process_refines_parser_witness:
  "parser_exchange example_command_codec example_result_codec
     (parser_worker_main Map.empty example_command_codec example_result_codec example_parse) example_command
   = Inr (MetadataFormatsPayload [codes ''oai_dc''])"
proof -
  have ok: "parser_command_ok example_command" by code_simp
  have c: "frame_travels MAX_PARSER_COMMAND_BYTES example_command_codec example_command"
    unfolding frame_travels_def by (rule conjI) code_simp+
  let ?r = "ParserSuccess (codes ''id'') (MetadataFormatsPayload [codes ''oai_dc''])"
  have w: "worker_result Map.empty example_parse example_command = Inr ?r" by code_simp
  have r: "frame_travels MAX_PARSER_RESULT_BYTES example_result_codec ?r"
    unfolding frame_travels_def by (rule conjI) code_simp+
  have "\<forall>p. example_parse example_command = Inr p \<longrightarrow> parser_payload_ok p \<and> pp_operation p = pc_operation example_command"
    by (simp add: example_parse_def example_command_def)
  note parser_process_refines_parser [OF ok c w r this]
  also have "boundary_answer Map.empty example_parse example_command = Inr (MetadataFormatsPayload [codes ''oai_dc''])"
    by (simp add: boundary_answer_def example_parse_def)
  finally show ?thesis .
qed

text \<open>
  Whatever a child writes, the parent returns a payload only from a clean exit whose output is the canonical frame of a
  valid success for this command, and the gate is as it was before.
\<close>

theorem parser_results_are_bound:
  assumes "parser_exchange KC KR child command = Inr p"
  shows "\<exists>frame. co_status (child frame) = 0 \<and> co_stderr (child frame) = []
    \<and> co_stdout (child frame) = dump_model KR (ParserSuccess (pc_id command) p)
    \<and> length (co_stdout (child frame)) \<le> MAX_PARSER_RESULT_BYTES
    \<and> parser_payload_ok p \<and> pp_operation p = pc_operation command"
proof -
  obtain frame where e: "encode_parser_frame MAX_PARSER_COMMAND_BYTES KC command = Inr frame"
    using assms by (auto simp: parser_exchange_def split: sum.splits)
  with assms have c: "length (co_stdout (child frame)) \<le> MAX_PARSER_RESULT_BYTES" "co_status (child frame) = 0" "co_stderr (child frame) = []"
    "validated_result_payload KR command (co_stdout (child frame)) = Inr p"
    by (auto simp: parser_exchange_def Let_def split: if_splits)
  then have "parse_parser_result KR (co_stdout (child frame)) = Inr (ParserSuccess (pc_id command) p)" "pp_operation p = pc_operation command"
    by (auto simp: validated_result_payload_def split: sum.splits if_splits ParserResult.splits)
  with c show ?thesis by (auto simp: parse_parser_result_def parse_parser_frame_Inr)
qed

lemma parser_gate_balanced:
  assumes "gate_inv g" "parser_gated deadline now exchange g = (r, g')"
  shows "g' = g \<and> (\<forall>e. r = Inl (ParserRaised (RuntimeError e)) \<longrightarrow> exchange = Some r)"
  using assms
  by (auto simp: parser_gated_def gate_inv_def gate_try_acquire_def gate_release_def split: pyobj.splits if_splits option.splits)

end
