(* ===== verification/Nplg_Upstream.thy ===== *)
theory Nplg_Upstream
  imports Nplg_Security Nplg_Resilience Nplg_Staging
begin

text \<open>
  Bounded requests to the repository, the part that \<^verbatim>\<open>src/nplg_mcp/downloader.py\<close> and \<^verbatim>\<open>src/nplg_mcp/repository.py\<close> share: relative
  redirects, declared lengths, the checks of a status, and one attempt under a permit of the upstream guard with its
  DNS check, rate limiter, response and recorded outcome. The HTTP client is what it answers: a response or an exception.
  The two modules repeat this code; where they differ the difference is an argument. Awaits of other tasks in between are
  not modelled.
\<close>

section \<open>Text helpers of the standard library\<close>

text \<open>\<^verbatim>\<open>int(text)\<close>: surrounding white space, a sign, decimal digits of any script with single underscores between them, at most 4300.\<close>

definition int_groups :: "pystr \<Rightarrow> pystr option" where
  "int_groups s = (let gs = split_on 95 s in if list_all (\<lambda>g. g \<noteq> []) gs then Some (concat gs) else None)"

definition py_int :: "(nat \<Rightarrow> nat option) \<Rightarrow> pystr \<Rightarrow> int option" where
  "py_int digit s =
     (let t = strip s; negative = starts_with [45] t; body = (if negative \<or> starts_with [43] t then tl t else t)
      in case int_groups body of
           None \<Rightarrow> None
         | Some ds \<Rightarrow>
             if list_ex (\<lambda>c. digit c = None) ds \<or> INT_MAX_STR_DIGITS < length ds then None
             else let n = foldl (\<lambda>a c. a * 10 + int (the (digit c))) 0 ds in Some (if negative then - n else n))"

text \<open>
  \<^verbatim>\<open>urljoin\<close> onto an HTTPS base with a network location, which every base is here. The parameters of a path are what follows the
  first semicolon of its last segment.
\<close>

definition USES_RELATIVE :: "pystr list" where
  "USES_RELATIVE = map codes ['''', ''ftp'', ''http'', ''gopher'', ''nntp'', ''imap'', ''wais'', ''file'', ''https'', ''shttp'', ''mms'',
     ''prospero'', ''rtsp'', ''rtsps'', ''rtspu'', ''sftp'', ''svn'', ''svn+ssh'', ''ws'', ''wss'']"

definition split_params :: "pystr \<Rightarrow> pystr \<times> pystr" where
  "split_params p =
     (let seg = rev (takeWhile (\<lambda>c. c \<noteq> 47) (rev p)); directory = take (length p - length seg) p
      in case split_once 59 seg of None \<Rightarrow> (p, []) | Some (a, b) \<Rightarrow> (directory @ a, b))"

definition with_params :: "pystr \<Rightarrow> pystr \<Rightarrow> pystr" where
  "with_params p params = (if params = [] then p else p @ 59 # params)"

definition urlunsplit :: "SplitResult \<Rightarrow> pystr" where
  "urlunsplit p =
     (scheme p @ codes ''://'' @ netloc p
      @ (if url_path p \<noteq> [] \<and> hd (url_path p) \<noteq> 47 then 47 # url_path p else url_path p)
      @ (if query p \<noteq> [] then 63 # query p else []) @ (if fragment p \<noteq> [] then 35 # fragment p else []))"

fun resolve_dots :: "pystr list \<Rightarrow> pystr list \<Rightarrow> pystr list" where
  "resolve_dots acc [] = acc"
| "resolve_dots acc (seg # segs) =
     resolve_dots (if seg = codes ''..'' then butlast acc else if seg = codes ''.'' then acc else acc @ [seg]) segs"

definition merge_path :: "pystr \<Rightarrow> pystr \<Rightarrow> pystr" where
  "merge_path base path =
     (let bs = split_on 47 base; bs = (if last bs \<noteq> [] then butlast bs else bs); ps = split_on 47 path;
          all = bs @ ps;
          segs = (if starts_with [47] path then ps
                  else if length all \<le> 2 then all else hd all # filter (\<lambda>s. s \<noteq> []) (butlast (tl all)) @ [last all]);
          resolved = resolve_dots [] segs @ (if last segs \<in> {codes ''.'', codes ''..''} then [[]] else []);
          joined = join_with [47] resolved
      in if joined = [] then [47] else joined)"

definition urljoin :: "library \<Rightarrow> pystr \<Rightarrow> pystr \<Rightarrow> pystr res" where
  "urljoin L base url =
     (if base = [] then Inr url
      else if url = [] then Inr base
      else rbind (urlsplit L base) (\<lambda>b. rbind (urlsplit L url) (\<lambda>u.
        let sch = (if scheme u = [] then scheme b else scheme u);
            (bpath, bparams) = split_params (url_path b); (path, params) = split_params (url_path u);
            unparse = (\<lambda>nl p ps q. Inr (urlunsplit \<lparr>scheme = sch, netloc = nl, url_path = with_params p ps, query = q, fragment = fragment u\<rparr>))
        in if sch \<noteq> scheme b \<or> sch \<notin> set USES_RELATIVE then Inr url
           else if netloc u \<noteq> [] then unparse (netloc u) path params (query u)
           else if path = [] \<and> params = [] then unparse (netloc b) bpath bparams (if query u = [] then query b else query u)
           else unparse (netloc b) (merge_path bpath path) params (query u))))"

section \<open>Responses\<close>

text \<open>
  Exceptions of a request: an exception of the library or of the application, an \<^verbatim>\<open>httpx.RequestError\<close> (a policy rejection of the
  bound transport or another one), the refusal of a publication, or the assertion after the redirect loop.
\<close>

datatype upstream_exc = UpRaised pyexc | RequestError bool | PublicationRefused PublicationBlocker | AssertionError

abbreviation up_fail :: "ErrorCode \<Rightarrow> string \<Rightarrow> int \<Rightarrow> upstream_exc + 'a" where
  "up_fail c m h \<equiv> Inl (UpRaised (AppErr (AppError c m h)))"

definition up :: "'a res \<Rightarrow> upstream_exc + 'a" where
  "up r = (case r of Inl e \<Rightarrow> Inl (UpRaised e) | Inr a \<Rightarrow> Inr a)"

text \<open>Headers are read by their lower-case name; the charset is the one the client reports; the body is its chunks and how the stream ends.\<close>

record http_response =
  rs_status :: int
  rs_headers :: "pystr \<Rightarrow> pystr option"
  rs_charset :: "pystr option"
  rs_chunks :: "bytes list"
  rs_end :: "upstream_exc option"

definition header :: "http_response \<Rightarrow> string \<Rightarrow> pystr" where
  "header r name = (case rs_headers r (codes name) of None \<Rightarrow> [] | Some v \<Rightarrow> v)"

definition REDIRECT_STATUSES :: "int set" where "REDIRECT_STATUSES = {301, 302, 303, 307, 308}"

definition redirect_location :: "library \<Rightarrow> int \<Rightarrow> string \<times> string \<Rightarrow> http_response \<Rightarrow> pystr \<Rightarrow> nat \<Rightarrow> pystr option res" where
  "redirect_location L max_redirects messages r current redirect_index =
     (if rs_status r \<notin> REDIRECT_STATUSES then Inr None
      else if max_redirects \<le> int redirect_index then app_fail UPSTREAM_FAILURE (fst messages) 502
      else if header r ''location'' = [] then app_fail UPSTREAM_FAILURE (snd messages) 502
      else rbind (urljoin L current (header r ''location'')) (\<lambda>joined.
        rbind (validate_upstream_url L joined) (\<lambda>target. Inr (Some target))))"

record status_messages =
  sm_not_found :: string
  sm_restricted :: string
  sm_rate_limited :: string
  sm_unsuccessful :: string

definition validate_response_status :: "status_messages \<Rightarrow> int \<Rightarrow> unit res" where
  "validate_response_status m status =
     (if status = 404 then app_fail NOT_FOUND (sm_not_found m) 404
      else if status \<in> {401, 403} then app_fail RESTRICTED (sm_restricted m) 403
      else if status = 429 then app_fail RATE_LIMITED (sm_rate_limited m) 503
      else if status < 200 \<or> 300 \<le> status then app_fail UPSTREAM_FAILURE (sm_unsuccessful m) 502
      else Inr ())"

definition content_encoding_ok :: "library \<Rightarrow> http_response \<Rightarrow> unit res" where
  "content_encoding_ok L r =
     (if str_lower L (strip (header r ''content-encoding'')) \<notin> {[], codes ''identity''}
      then app_fail UPSTREAM_FAILURE ''The repository returned unsupported content encoding.'' 502 else Inr ())"

definition validate_content_length :: "(nat \<Rightarrow> nat option) \<Rightarrow> int \<Rightarrow> unit res \<Rightarrow> pystr \<Rightarrow> unit res" where
  "validate_content_length digit maximum too_large s =
     (case py_int digit s of
        None \<Rightarrow> app_fail UPSTREAM_FAILURE ''The repository returned an invalid Content-Length.'' 502
      | Some declared \<Rightarrow>
          if declared < 0 then app_fail UPSTREAM_FAILURE ''The repository returned an invalid Content-Length.'' 502
          else if maximum < declared then too_large else Inr ())"

definition declared_length_ok :: "(nat \<Rightarrow> nat option) \<Rightarrow> int \<Rightarrow> unit res \<Rightarrow> http_response \<Rightarrow> unit res" where
  "declared_length_ok digit maximum too_large r =
     (if header r ''content-length'' = [] then Inr ()
      else validate_content_length digit maximum too_large (header r ''content-length''))"

definition response_media_type :: "library \<Rightarrow> http_response \<Rightarrow> pystr" where
  "response_media_type L r = str_lower L (strip (hd (split_on 59 (header r ''content-type''))))"

section \<open>One attempt under a permit\<close>

text \<open>The state a request works on: the guard with its permits, the rate limiter, and the state of what handles the response.\<close>

record 'x upstream =
  us_guard :: guard_system
  us_limiter :: "AsyncRateLimiter option"
  us_extra :: 'x

type_synonym ('x, 'a) up_op = "(upstream_exc, 'x upstream, 'a) op"

datatype dns_outcome = DnsApproved | DnsBusy | DnsFailed dns_error

text \<open>
  What one attempt meets: the guard's clock and observer, the resolver, the two clock samples of the limiter, the clock
  read for the remaining time, the client's answer, and the clock and random sample when the outcome is recorded.
\<close>

record attempt_io =
  at_clock :: pyobj
  at_observer :: observer
  at_dns :: dns_outcome
  at_paced :: "pyfloat \<times> pyfloat"
  at_now :: pyobj
  at_answer :: "upstream_exc + http_response"
  at_record_clock :: pyobj
  at_random :: pyobj

definition ensure_dns :: "bool \<Rightarrow> dns_outcome \<Rightarrow> (app_error \<times> outcome) option" where
  "ensure_dns validate_dns dns =
     (if \<not> validate_dns then None
      else case dns of
        DnsApproved \<Rightarrow> None
      | DnsBusy \<Rightarrow> Some (AppError RATE_LIMITED ''The DNS resolver is at capacity.'' 503, Transient)
      | DnsFailed (DnsTransientError e) \<Rightarrow> Some (e, Transient)
      | DnsFailed (DnsSecurityRejectionError e) \<Rightarrow> Some (e, if err_code e = RATE_LIMITED then Transient else Excluded))"

definition up_record :: "attempt_io \<Rightarrow> nat \<Rightarrow> outcome \<Rightarrow> ('x, unit) up_op" where
  "up_record io i oc s =
     (case permit_record (at_record_clock io) (at_random io) (at_observer io) oc i (us_guard s) of
        (r, g) \<Rightarrow> (up r, s\<lparr>us_guard := g\<rparr>))"

definition up_raise :: "upstream_exc \<Rightarrow> ('x, 'a) up_op" where
  "up_raise e s = (Inl e, s)"

definition up_return :: "'a \<Rightarrow> ('x, 'a) up_op" where
  "up_return a s = (Inr a, s)"

definition up_lift :: "'a res \<Rightarrow> ('x, 'a) up_op" where
  "up_lift r s = (up r, s)"

definition pace :: "attempt_io \<Rightarrow> ('x, unit) up_op" where
  "pace io s =
     (Inr (), s\<lparr>us_limiter := map_option (\<lambda>l. snd (limiter_acquire (fst (at_paced io)) (snd (at_paced io)) l)) (us_limiter s)\<rparr>)"

definition admit_dependencies :: "attempt_io \<Rightarrow> bool \<Rightarrow> nat \<Rightarrow> ('x, unit) up_op" where
  "admit_dependencies io validate_dns i =
     (case ensure_dns validate_dns (at_dns io) of
        Some (e, oc) \<Rightarrow> obind (up_record io i oc) (\<lambda>_. up_raise (UpRaised (AppErr e)))
      | None \<Rightarrow> pace io)"

definition on_extra :: "(upstream_exc, 'x, 'a) op \<Rightarrow> ('x, 'a) up_op" where
  "on_extra m s = (case m (us_extra s) of (r, x) \<Rightarrow> (r, s\<lparr>us_extra := x\<rparr>))"

definition status_outcome :: "int \<Rightarrow> outcome option" where
  "status_outcome status =
     (if status = 429 \<or> 500 \<le> status then Some Transient else if status < 200 \<or> 300 \<le> status then Some Excluded else None)"

text \<open>The body of the response context: the next target, or the result of the handler.\<close>

definition handle_response ::
  "attempt_io \<Rightarrow> nat \<Rightarrow> (http_response \<Rightarrow> pystr option res) \<Rightarrow> status_messages \<Rightarrow> (http_response \<Rightarrow> (upstream_exc, 'x, 'a) op)
     \<Rightarrow> http_response \<Rightarrow> ('x, pystr + 'a) up_op" where
  "handle_response io i redirect m accept r =
     obind (up_lift (redirect r)) (\<lambda>target.
       case target of
         Some t \<Rightarrow> obind (up_record io i Success) (\<lambda>_. up_return (Inl t))
       | None \<Rightarrow>
           obind (case status_outcome (rs_status r) of None \<Rightarrow> up_return () | Some oc \<Rightarrow> up_record io i oc) (\<lambda>_.
             obind (up_lift (validate_response_status m (rs_status r))) (\<lambda>_.
               obind (on_extra (accept r)) (\<lambda>a.
                 obind (up_record io i Success) (\<lambda>_. up_return (Inr a))))))"

text \<open>\<open>classify_transport_failure\<close> on the exceptions of the handler below, and \<open>_record_transport_error\<close>.\<close>

definition transport_outcome :: "upstream_exc \<Rightarrow> outcome option" where
  "transport_outcome e =
     (case e of UpRaised (TimeoutError _) \<Rightarrow> Some Transient | RequestError policy \<Rightarrow> Some (if policy then Excluded else Transient) | _ \<Rightarrow> None)"

definition transport_handler :: "attempt_io \<Rightarrow> nat \<Rightarrow> ('x, 'a) up_op \<Rightarrow> ('x, 'a) up_op" where
  "transport_handler io i m s =
     (case m s of
        (Inr a, s1) \<Rightarrow> (Inr a, s1)
      | (Inl e, s1) \<Rightarrow>
          (case transport_outcome e of
             None \<Rightarrow> (Inl e, s1)
           | Some oc \<Rightarrow>
               if finalized (snd (us_guard s1) ! i) then (Inl e, s1)
               else obind (up_record io i oc) (\<lambda>_. up_raise e) s1))"

definition attempt_body ::
  "attempt_io \<Rightarrow> bool \<Rightarrow> nat \<Rightarrow> (http_response \<Rightarrow> pystr option res) \<Rightarrow> status_messages \<Rightarrow> (http_response \<Rightarrow> (upstream_exc, 'x, 'a) op)
     \<Rightarrow> ('x, pystr + 'a) up_op" where
  "attempt_body io validate_dns i redirect m accept =
     obind (admit_dependencies io validate_dns i) (\<lambda>_ s.
       case deadline_remaining (permit_deadline (snd (us_guard s) ! i)) (at_now io) of
         Inl e \<Rightarrow> (Inl (UpRaised e), s)
       | Inr t \<Rightarrow>
           if fle t (Fin 0) then (Inl (UpRaised (TimeoutError [])), s)
           else transport_handler io i
                  (case at_answer io of Inl e \<Rightarrow> up_raise e | Inr r \<Rightarrow> handle_response io i redirect m accept r) s)"

definition leave_permit :: "attempt_io \<Rightarrow> nat \<Rightarrow> ('x, 'a) up_op \<Rightarrow> ('x, 'a) up_op" where
  "leave_permit io i m s =
     (case m s of
        (r, s1) \<Rightarrow>
          (case permit_exit (at_record_clock io) (at_random io) (at_observer io) i (us_guard s1) of
             (Inl e, g) \<Rightarrow> (Inl (UpRaised e), s1\<lparr>us_guard := g\<rparr>)
           | (Inr _, g) \<Rightarrow> (r, s1\<lparr>us_guard := g\<rparr>)))"

definition attempt ::
  "attempt_io \<Rightarrow> bool \<Rightarrow> MonotonicDeadline \<Rightarrow> (http_response \<Rightarrow> pystr option res) \<Rightarrow> status_messages \<Rightarrow> (http_response \<Rightarrow> (upstream_exc, 'x, 'a) op)
     \<Rightarrow> ('x, pystr + 'a) up_op" where
  "attempt io validate_dns d redirect m accept s =
     (case admit_step (at_clock io) (at_observer io) d (us_guard s) of
        (Inl e, g) \<Rightarrow> (Inl (UpRaised e), s\<lparr>us_guard := g\<rparr>)
      | (Inr _, g) \<Rightarrow>
          (let i = length (snd g) - 1
           in leave_permit io i (attempt_body io validate_dns i redirect m accept) (s\<lparr>us_guard := g\<rparr>)))"

text \<open>The loop over redirects: \<open>budget\<close> attempts from \<open>redirect_index\<close> on, each given its index and its URL.\<close>

fun redirect_loop :: "(nat \<Rightarrow> pystr \<Rightarrow> ('x, pystr + 'a) up_op) \<Rightarrow> nat \<Rightarrow> nat \<Rightarrow> pystr \<Rightarrow> ('x, 'a) up_op" where
  "redirect_loop step redirect_index 0 current s = (Inl AssertionError, s)"
| "redirect_loop step redirect_index (Suc budget) current s =
     (case step redirect_index current s of
        (Inl e, s1) \<Rightarrow> (Inl e, s1)
      | (Inr (Inl next_url), s1) \<Rightarrow> redirect_loop step (Suc redirect_index) budget next_url s1
      | (Inr (Inr a), s1) \<Rightarrow> (Inr a, s1))"

section \<open>Permits come back\<close>

text \<open>An operation that keeps the guard's invariant and touches no permit but the one it is given.\<close>

definition only_permit :: "nat \<Rightarrow> guard_system \<Rightarrow> guard_system \<Rightarrow> bool" where
  "only_permit i g g' =
     (guard_inv g' \<and> length (snd g') = length (snd g) \<and> (\<forall>j. j \<noteq> i \<longrightarrow> snd g' ! j = snd g ! j))"

definition keeps_permits :: "nat \<Rightarrow> ('x, 'a) up_op \<Rightarrow> bool" where
  "keeps_permits i m =
     (\<forall>s. guard_inv (us_guard s) \<and> i < length (snd (us_guard s)) \<longrightarrow> only_permit i (us_guard s) (us_guard (snd (m s))))"

lemma only_permit_refl [simp]: "only_permit i g g = guard_inv g"
  by (auto simp: only_permit_def)

lemma only_permit_trans: "only_permit i g g1 \<Longrightarrow> only_permit i g1 g2 \<Longrightarrow> only_permit i g g2"
  by (auto simp: only_permit_def)

lemma keeps_permitsD:
  "keeps_permits i m \<Longrightarrow> m s = (r, s') \<Longrightarrow> guard_inv (us_guard s) \<Longrightarrow> i < length (snd (us_guard s)) \<Longrightarrow> only_permit i (us_guard s) (us_guard s')"
  by (auto simp: keeps_permits_def dest!: spec [of _ s])

lemma keeps_permits_bind:
  assumes "keeps_permits i m" "\<And>a. keeps_permits i (f a)"
  shows "keeps_permits i (obind m f)"
  unfolding keeps_permits_def
proof (intro allI impI)
  fix s :: "'a upstream" assume g: "guard_inv (us_guard s) \<and> i < length (snd (us_guard s))"
  obtain r s1 where m: "m s = (r, s1)" by fastforce
  have 1: "only_permit i (us_guard s) (us_guard s1)" using keeps_permitsD [OF assms(1) m] g by simp
  show "only_permit i (us_guard s) (us_guard (snd (obind m f s)))"
  proof (cases r)
    case (Inr a)
    obtain r2 s2 where f: "f a s1 = (r2, s2)" by fastforce
    have "only_permit i (us_guard s1) (us_guard s2)"
      using keeps_permitsD [OF assms(2) f] 1 g by (simp add: only_permit_def)
    with 1 m Inr f show ?thesis by (auto simp: obind_def intro: only_permit_trans)
  qed (use 1 m in \<open>simp add: obind_def\<close>)
qed

lemma record_only_permit:
  assumes "guard_inv g" "i < length (snd g)" "permit_record c rnd ob oc i g = (r, g')"
  shows "only_permit i g g' \<and> finalized (snd g' ! i)"
proof (cases g)
  case (Pair u ps)
  have "guard_inv g'" using record_preserves [of u ps i c rnd ob oc] assms Pair by simp
  with assms Pair show ?thesis
    by (auto simp: only_permit_def permit_record_def Let_def split: if_splits prod.splits)
qed

lemma keeps_permits_simple:
  "keeps_permits i (up_record io i oc)" "keeps_permits i (up_raise e)" "keeps_permits i (up_return a)" "keeps_permits i (up_lift r)"
  "keeps_permits i (pace io)" "keeps_permits i (on_extra n)"
  unfolding keeps_permits_def
  by (auto simp: up_record_def up_raise_def up_return_def up_lift_def pace_def on_extra_def dest: record_only_permit split: prod.splits)

lemma keeps_permits_dependencies: "keeps_permits i (admit_dependencies io v i)"
  unfolding admit_dependencies_def
  by (auto split: option.splits intro!: keeps_permits_bind keeps_permits_simple)

lemma keeps_permits_response: "keeps_permits i (handle_response io i redirect m accept r)"
  unfolding handle_response_def
  by (auto split: option.splits intro!: keeps_permits_bind keeps_permits_simple)

lemma keeps_permits_handler:
  assumes "keeps_permits i m"
  shows "keeps_permits i (transport_handler io i m)"
  unfolding keeps_permits_def
proof (intro allI impI)
  fix s :: "'a upstream" assume g: "guard_inv (us_guard s) \<and> i < length (snd (us_guard s))"
  obtain r s1 where m: "m s = (r, s1)" by fastforce
  have 1: "only_permit i (us_guard s) (us_guard s1)" using keeps_permitsD [OF assms m] g by simp
  have k: "keeps_permits i (obind (up_record io i oc) (\<lambda>_. up_raise e) :: ('a, 'b) up_op)" for oc e
    by (intro keeps_permits_bind keeps_permits_simple)
  have "only_permit i (us_guard s1) (us_guard (snd ((obind (up_record io i oc) (\<lambda>_. up_raise e) :: ('a, 'b) up_op) s1)))" for oc e
    using k [of oc e] 1 g unfolding keeps_permits_def by (simp add: only_permit_def)
  with 1 m show "only_permit i (us_guard s) (us_guard (snd (transport_handler io i m s)))"
    by (auto simp: transport_handler_def split: sum.splits option.splits intro: only_permit_trans)
qed

lemma keeps_permits_body: "keeps_permits i (attempt_body io v i redirect m accept)"
  unfolding attempt_body_def
proof (rule keeps_permits_bind [OF keeps_permits_dependencies])
  have "keeps_permits i (transport_handler io i (case at_answer io of Inl e \<Rightarrow> up_raise e | Inr r \<Rightarrow> handle_response io i redirect m accept r))"
    by (rule keeps_permits_handler) (auto split: sum.splits intro: keeps_permits_simple keeps_permits_response)
  then show "keeps_permits i (\<lambda>s. case deadline_remaining (permit_deadline (snd (us_guard s) ! i)) (at_now io) of
         Inl e \<Rightarrow> (Inl (UpRaised e), s)
       | Inr t \<Rightarrow> if fle t (Fin 0) then (Inl (UpRaised (TimeoutError [])), s)
           else transport_handler io i (case at_answer io of Inl e \<Rightarrow> up_raise e | Inr r \<Rightarrow> handle_response io i redirect m accept r) s)" for a
    unfolding keeps_permits_def by (auto split: sum.splits)
qed

text \<open>After an attempt every permit it took is final: the permits still live are the ones that were live before.\<close>

lemma attempt_returns_permit:
  assumes "guard_inv (us_guard s)" "deadline_wf d" "clock_in_range (at_clock io)"
    and a: "attempt io v d redirect m accept s = (r, s')"
  shows "guard_inv (us_guard s') \<and> live (snd (us_guard s')) = live (snd (us_guard s))"
proof -
  obtain g ps where gp: "us_guard s = (g, ps)" by fastforce
  obtain ra sys1 where ad: "admit_step (at_clock io) (at_observer io) d (us_guard s) = (ra, sys1)" by (metis surj_pair)
  have i1: "guard_inv sys1" using admit_preserves [of g ps d "at_clock io" "at_observer io"] assms(1-3) gp ad by simp
  show ?thesis
  proof (cases ra)
    case (Inl e)
    then have "snd sys1 = ps" using ad gp by (auto simp: admit_step_def split: prod.splits sum.splits)
    with Inl a ad i1 gp show ?thesis by (auto simp: attempt_def)
  next
    case (Inr u)
    obtain g1 p where p: "sys1 = (g1, ps @ [p])" using ad gp Inr by (auto simp: admit_step_def split: prod.splits sum.splits)
    let ?i = "length ps" let ?s = "s\<lparr>us_guard := sys1\<rparr>"
    obtain rb s2 where b: "attempt_body io v ?i redirect m accept ?s = (rb, s2)" by fastforce
    have o: "only_permit ?i sys1 (us_guard s2)" using keeps_permitsD [OF keeps_permits_body b] i1 p by simp
    obtain re g3 where x: "permit_exit (at_record_clock io) (at_random io) (at_observer io) ?i (us_guard s2) = (re, g3)" by (metis surj_pair)
    have l: "?i < length (snd (us_guard s2))" using o p by (simp add: only_permit_def)
    have f: "only_permit ?i (us_guard s2) g3 \<and> finalized (snd g3 ! ?i)"
      using x record_only_permit [OF _ l] o by (auto simp: permit_exit_def only_permit_def split: if_splits)
    have s': "us_guard s' = g3"
      using a ad Inr p b x by (auto simp: attempt_def leave_permit_def Let_def split: sum.splits)
    have "length (snd g3) = Suc ?i" "\<forall>j < ?i. snd g3 ! j = ps ! j"
      using f o p by (auto simp: only_permit_def nth_append)
    then have "take ?i (snd g3) = ps" by (intro nth_equalityI) auto
    then have "snd g3 = ps @ [snd g3 ! ?i]" using \<open>length (snd g3) = Suc ?i\<close>
      by (metis lessI take_Suc_conv_app_nth take_all_iff le_refl)
    then have "live (snd g3) = live ps" using f by (metis live_append append_Nil2)
    with f s' gp show ?thesis by (auto simp: only_permit_def)
  qed
qed

lemma redirect_loop_returns_permits:
  assumes "guard_inv (us_guard s)"
    and "\<And>k current s. guard_inv (us_guard s) \<Longrightarrow>
      guard_inv (us_guard (snd (step k current s))) \<and> live (snd (us_guard (snd (step k current s)))) = live (snd (us_guard s))"
  shows "guard_inv (us_guard (snd (redirect_loop step k n current s)))
    \<and> live (snd (us_guard (snd (redirect_loop step k n current s)))) = live (snd (us_guard s))"
  using assms(1)
proof (induction n arbitrary: k current s)
  case (Suc n)
  obtain r s1 where r: "step k current s = (r, s1)" by fastforce
  have 1: "guard_inv (us_guard s1)" "live (snd (us_guard s1)) = live (snd (us_guard s))" using assms(2) [OF Suc.prems, of k current] r by simp_all
  then show ?case using Suc.IH [OF 1(1)] r by (auto split: sum.splits)
qed simp

section \<open>What a request returns\<close>

text \<open>The bookkeeping of an attempt leaves the handler's state alone.\<close>

lemma extra_frame [simp]:
  "us_extra (snd (up_record io i oc s)) = us_extra s" "us_extra (snd (up_raise e s)) = us_extra s"
  "us_extra (snd (up_lift r s)) = us_extra s" "us_extra (snd (pace io s)) = us_extra s"
  by (simp_all add: up_record_def up_raise_def up_lift_def pace_def split: prod.splits)

lemma obind_Inr: "obind m f s = (Inr b, s') \<longleftrightarrow> (\<exists>a s1. m s = (Inr a, s1) \<and> f a s1 = (Inr b, s'))"
  by (cases "m s"; cases "fst (m s)") (auto simp: obind_def)

lemma record_extra: "up_record io i oc s = (r, s') \<Longrightarrow> us_extra s' = us_extra s"
  by (metis extra_frame(1) snd_conv)

lemma handle_response_Inr:
  assumes "handle_response io i redirect m accept r s = (Inr v, s')"
  shows "(\<exists>t. v = Inl t \<and> redirect r = Inr (Some t) \<and> us_extra s' = us_extra s)
    \<or> (\<exists>a. v = Inr a \<and> redirect r = Inr None \<and> 200 \<le> rs_status r \<and> rs_status r < 300 \<and> accept r (us_extra s) = (Inr a, us_extra s'))"
proof (cases "redirect r")
  case (Inr target)
  show ?thesis
  proof (cases target)
    case None
    obtain s0 a s1 s2 where h: "validate_response_status m (rs_status r) = Inr ()"
      "(case status_outcome (rs_status r) of None \<Rightarrow> up_return () | Some oc \<Rightarrow> up_record io i oc) s = (Inr (), s0)"
      "on_extra (accept r) s0 = (Inr a, s1)" "up_record io i Success s1 = (Inr (), s2)" "v = Inr a" "s' = s2"
      using assms Inr None by (auto simp: handle_response_def obind_Inr up_lift_def up_def up_return_def split: sum.splits)
    from h(1) have ok: "200 \<le> rs_status r" "rs_status r < 300" by (auto simp: validate_response_status_def split: if_splits)
    then have "s0 = s" using h(2) by (simp add: status_outcome_def up_return_def)
    with h(3) have "accept r (us_extra s) = (Inr a, us_extra s1)" by (auto simp: on_extra_def split: prod.splits)
    with ok h(5,6) record_extra [OF h(4)] Inr None show ?thesis by auto
  next
    case (Some t)
    with assms Inr show ?thesis
      by (auto simp: handle_response_def obind_Inr up_lift_def up_def up_return_def dest!: record_extra)
  qed
qed (use assms in \<open>auto simp: handle_response_def obind_Inr up_lift_def up_def\<close>)

lemma transport_handler_Inr: "transport_handler io i n s = (Inr a, s') \<longleftrightarrow> n s = (Inr a, s')"
  by (auto simp: transport_handler_def obind_Inr up_raise_def split: sum.splits prod.splits option.splits)

lemma dependencies_extra: "admit_dependencies io v i s = (Inr u, s') \<Longrightarrow> us_extra s' = us_extra s"
  by (auto simp: admit_dependencies_def obind_Inr up_raise_def pace_def split: option.splits prod.splits)

lemma attempt_Inr:
  assumes "attempt io v d redirect m accept s = (Inr w, s')"
  shows "\<exists>r. at_answer io = Inr r \<and>
    ((\<exists>t. w = Inl t \<and> redirect r = Inr (Some t) \<and> us_extra s' = us_extra s)
     \<or> (\<exists>a. w = Inr a \<and> redirect r = Inr None \<and> 200 \<le> rs_status r \<and> rs_status r < 300 \<and> accept r (us_extra s) = (Inr a, us_extra s')))"
proof -
  obtain i g s2 where b: "attempt_body io v i redirect m accept (s\<lparr>us_guard := g\<rparr>) = (Inr w, s2)" "us_extra s' = us_extra s2"
    using assms by (auto simp: attempt_def leave_permit_def Let_def split: sum.splits prod.splits)
  then obtain s1 where d1: "admit_dependencies io v i (s\<lparr>us_guard := g\<rparr>) = (Inr (), s1)"
    "(case deadline_remaining (permit_deadline (snd (us_guard s1) ! i)) (at_now io) of
         Inl e \<Rightarrow> (Inl (UpRaised e), s1)
       | Inr t \<Rightarrow> if fle t (Fin 0) then (Inl (UpRaised (TimeoutError [])), s1)
           else transport_handler io i (case at_answer io of Inl e \<Rightarrow> up_raise e | Inr r \<Rightarrow> handle_response io i redirect m accept r) s1) = (Inr w, s2)"
    by (auto simp: attempt_body_def obind_Inr)
  then have d: "admit_dependencies io v i (s\<lparr>us_guard := g\<rparr>) = (Inr (), s1)"
    "(case at_answer io of Inl e \<Rightarrow> up_raise e | Inr r \<Rightarrow> handle_response io i redirect m accept r) s1 = (Inr w, s2)"
    by (cases "deadline_remaining (permit_deadline (snd (us_guard s1) ! i)) (at_now io)"; auto simp: transport_handler_Inr split: if_splits)+
  then obtain r where h: "us_extra s1 = us_extra s" "at_answer io = Inr r" "handle_response io i redirect m accept r s1 = (Inr w, s2)"
    using dependencies_extra [OF d(1)] by (cases "at_answer io") (auto simp: up_raise_def)
  with handle_response_Inr [OF h(3)] b(2) show ?thesis by auto
qed

lemma redirect_loop_Inr:
  assumes "redirect_loop step k n current s = (Inr a, s')" "good current"
    and "\<And>k current s t s'. good current \<Longrightarrow> step k current s = (Inr (Inl t), s') \<Longrightarrow> good t"
  shows "\<exists>j last_url s1. j < k + n \<and> good last_url \<and> step j last_url s1 = (Inr (Inr a), s')"
  using assms(1,2)
proof (induction n arbitrary: k current s)
  case (Suc n)
  obtain r s1 where r: "step k current s = (r, s1)" by fastforce
  from Suc.prems r consider (next_url) t where "r = Inr (Inl t)" "redirect_loop step (Suc k) n t s1 = (Inr a, s')"
    | (result) "r = Inr (Inr a)" "s1 = s'"
    by (auto split: sum.splits)
  then show ?case
  proof cases
    case next_url
    with Suc.IH [OF next_url(2)] assms(3) Suc.prems(2) r show ?thesis by fastforce
  next
    case result
    with r Suc.prems(2) show ?thesis by (intro exI [of _ k]) auto
  qed
qed simp

text \<open>A handler whose every call keeps an invariant of its state: requests through it keep the invariant, whatever their outcome.\<close>

locale response_handler =
  fixes accept :: "pystr \<Rightarrow> http_response \<Rightarrow> (upstream_exc, 'x, 'a) op" and inv :: "'x \<Rightarrow> bool"
  assumes accept_keeps: "inv x \<Longrightarrow> inv (snd (accept current r x))"
begin

definition keeps :: "('x, 'b) up_op \<Rightarrow> bool" where
  "keeps m = (\<forall>s. inv (us_extra s) \<longrightarrow> inv (us_extra (snd (m s))))"

lemma keeps_bind: "keeps m \<Longrightarrow> (\<And>a. keeps (f a)) \<Longrightarrow> keeps (obind m f)"
  by (force simp: keeps_def obind_def split: sum.splits prod.splits)

lemma keeps_simple:
  "keeps (up_record io i oc)" "keeps (up_raise e)" "keeps (up_lift q)" "keeps (pace io)" "keeps (on_extra (accept current r))" "keeps (up_return b)"
  by (auto simp: keeps_def on_extra_def up_return_def split: prod.splits) (metis accept_keeps snd_conv)

lemma keeps_dependencies: "keeps (admit_dependencies io v i)"
  by (auto simp: admit_dependencies_def split: option.splits intro!: keeps_bind keeps_simple)

lemma keeps_response: "keeps (handle_response io i redirect m (accept current) r)"
  by (auto simp: handle_response_def split: option.splits intro!: keeps_bind keeps_simple)

lemma keeps_handler:
  fixes n :: "('x, 'b) up_op"
  assumes "keeps n"
  shows "keeps (transport_handler io i n)"
proof -
  have k: "keeps (obind (up_record io i oc) (\<lambda>_. up_raise e) :: ('x, 'b) up_op)" for oc e by (intro keeps_bind keeps_simple)
  show ?thesis
    unfolding keeps_def
  proof (intro allI impI)
    fix s :: "'x upstream" assume "inv (us_extra s)"
    obtain r s1 where n: "n s = (r, s1)" by fastforce
    have "inv (us_extra s1)" using assms n \<open>inv (us_extra s)\<close> unfolding keeps_def by (metis snd_conv)
    with k have "inv (us_extra (snd ((obind (up_record io i oc) (\<lambda>_. up_raise e) :: ('x, 'b) up_op) s1)))" for oc e
      unfolding keeps_def by blast
    with n \<open>inv (us_extra s1)\<close> show "inv (us_extra (snd (transport_handler io i n s)))"
      by (auto simp: transport_handler_def split: sum.splits option.splits)
  qed
qed

lemma keeps_attempt: "keeps (attempt io v d redirect m (accept current))"
proof -
  have b: "keeps (transport_handler io i (case at_answer io of Inl e \<Rightarrow> up_raise e | Inr r \<Rightarrow> handle_response io i redirect m (accept current) r))" for i
    by (rule keeps_handler) (auto split: sum.splits intro: keeps_simple keeps_response)
  have k: "keeps (attempt_body io v i redirect m (accept current))" for i
    unfolding attempt_body_def
    by (intro keeps_bind keeps_dependencies) (use b [of i] in \<open>auto simp: keeps_def split: sum.splits\<close>)
  show ?thesis
    unfolding keeps_def
  proof (intro allI impI)
    fix s :: "'x upstream" assume "inv (us_extra s)"
    have "inv (us_extra s2)" if "attempt_body io v i redirect m (accept current) (s\<lparr>us_guard := g\<rparr>) = (r, s2)" for i g r s2
      using k [of i] that \<open>inv (us_extra s)\<close> unfolding keeps_def by (metis snd_conv upstream.select_convs(3) upstream.update_convs(1) upstream.surjective)
    with \<open>inv (us_extra s)\<close> show "inv (us_extra (snd (attempt io v d redirect m (accept current) s)))"
      by (auto simp: attempt_def leave_permit_def Let_def split: sum.splits prod.splits)
  qed
qed

lemma keeps_loop:
  assumes "\<And>k current. keeps (step k current)"
  shows "keeps (redirect_loop step k n current)"
  unfolding keeps_def
proof (intro allI impI)
  fix s :: "'x upstream" assume "inv (us_extra s)"
  then show "inv (us_extra (snd (redirect_loop step k n current s)))"
  proof (induction n arbitrary: k current s)
    case (Suc n)
    obtain r s1 where r: "step k current s = (r, s1)" by fastforce
    have "inv (us_extra s1)" using assms [of k current] Suc.prems r unfolding keeps_def by (metis snd_conv)
    then show ?case using Suc.IH r by (auto split: sum.splits)
  qed simp
qed

end

end
