(* ===== verification/Nplg_Malware.thy ===== *)
theory Nplg_Malware
  imports Nplg_Staging Nplg_Security Nplg_Pdf_Ipc Nplg_Tokens Nplg_Deadline
begin

text \<open>
  The malware scanner of \<^verbatim>\<open>src/nplg_mcp/malware.py\<close>: the ClamAV client over a Unix socket, its version and verdict replies, the
  framed transfer of the artifact with its digest, and the policy that accepts a verdict. What a connection and the
  file system show during one scan are records of observations, an error or an elapsed timeout being \<open>None\<close> or \<open>False\<close>.
\<close>

section \<open>Instants and verdicts\<close>

text \<open>
  An aware \<open>datetime\<close> is its instant in microseconds since the epoch, as for the tokens; a naive one has no zone. Adding a
  \<open>timedelta\<close> past the last representable instant raises \<open>OverflowError\<close>.
\<close>

definition MICROSECONDS :: int where "MICROSECONDS = 1000000"
definition DATETIME_MAX :: int where "DATETIME_MAX = (3652059 - 719162) * 86400 * MICROSECONDS - 1"
definition MAX_SIGNATURE_AGE :: int where "MAX_SIGNATURE_AGE = 86400 * MICROSECONDS"
definition MAX_FUTURE_SIGNATURE_SKEW :: int where "MAX_FUTURE_SIGNATURE_SKEW = 5 * 60 * MICROSECONDS"
definition PEER_CREDENTIAL_BYTES :: nat where "PEER_CREDENTIAL_BYTES = 12"
definition MAX_SCANNER_REPLY_BYTES :: nat where "MAX_SCANNER_REPLY_BYTES = 4096"
definition SCANNER_STREAM_CHUNK_BYTES :: nat where "SCANNER_STREAM_CHUNK_BYTES = 64 * 1024"

datatype ScanVerdict = CLEAN | INFECTED | SCAN_ERROR | SIGNATURES_STALE

record ScanResult =
  verdict :: ScanVerdict
  scanned_sha256 :: pystr
  engine_version :: pystr
  signature_version :: pystr
  signatures_updated_at :: pydatetime

datatype scan_exc = MalwareScanError string | ScanRaised pyexc

type_synonym 'a scan_res = "scan_exc + 'a"

abbreviation scan_fail :: "string \<Rightarrow> 'a scan_res" where "scan_fail m \<equiv> Inl (MalwareScanError m)"

definition version_char :: "nat \<Rightarrow> bool" where
  "version_char c = (is_alpha c \<or> is_digit c \<or> c \<in> set (codes ''._+-''))"

definition bounded_version :: "pystr \<Rightarrow> bool" where
  "bounded_version s =
     (1 \<le> length s \<and> length s \<le> 128 \<and> (is_alpha (hd s) \<or> is_digit (hd s)) \<and> list_all version_char (tl s))"

definition scan_result_new :: "ScanResult \<Rightarrow> ScanResult res" where
  "scan_result_new r =
     (if \<not> (lower_hex 64 (scanned_sha256 r) \<and> bounded_version (engine_version r) \<and> bounded_version (signature_version r))
      then Inl (ValueError ''ValidationError'')
      else case signatures_updated_at r of
        Naive _ \<Rightarrow> Inl (ValueError ''scanner signature timestamp must be timezone-aware'')
      | Aware _ \<Rightarrow> Inr r)"

section \<open>Connecting\<close>

record ClamAvScanner =
  socket_path :: pystr
  scan_max_bytes :: int

definition scanner_new :: "pystr \<Rightarrow> pyobj \<Rightarrow> ClamAvScanner res" where
  "scanner_new path maximum =
     (if \<not> posix_is_absolute path then Inl (ValueError ''scanner socket path must be absolute'')
      else if 0 \<in> set path then Inl (ValueError ''scanner socket path must not contain NUL'')
      else case maximum of
        PInt n \<Rightarrow> if n < 1 then Inl (ValueError ''scanner maximum bytes must be a positive integer'')
                  else Inr \<lparr>socket_path = path, scan_max_bytes = n\<rparr>
      | _ \<Rightarrow> Inl (ValueError ''scanner maximum bytes must be a positive integer''))"

text \<open>The process and its platform: the effective user, the byte order, and whether \<open>SO_PEERCRED\<close> exists.\<close>

record scan_host =
  host_euid :: int
  host_little_endian :: bool
  host_peercred :: bool

record socket_stat =
  sock_is_socket :: bool
  sock_is_symlink :: bool
  sock_uid :: int
  sock_mode :: int

text \<open>
  One connection: \<open>lstat\<close> of the socket path, whether it could be opened in time, the family of the peer and its
  credentials, the clock at each call of \<open>_remaining\<close>, whether each \<open>drain\<close> succeeds, and what one read returns.
\<close>

record scan_connection =
  cn_lstat :: "socket_stat option"
  cn_opens :: bool
  cn_unix :: bool
  cn_credentials :: "bytes option"
  cn_clock :: "nat \<Rightarrow> pyobj"
  cn_drains :: "nat \<Rightarrow> bool"
  cn_reply :: "bytes option"

definition signed32 :: "nat \<Rightarrow> int" where
  "signed32 n = (if n < 2 ^ 31 then int n else int n - 2 ^ 32)"

definition native_int :: "bool \<Rightarrow> bytes \<Rightarrow> int" where
  "native_int little bs = signed32 (from_bytes (if little then rev bs else bs))"

definition peer_credentials :: "bool \<Rightarrow> bytes \<Rightarrow> (int \<times> int \<times> int) scan_res" where
  "peer_credentials little v =
     (if length v \<noteq> PEER_CREDENTIAL_BYTES then scan_fail ''scanner peer credentials are malformed''
      else Inr (native_int little (take 4 v), native_int little (take 4 (drop 4 v)), native_int little (take 4 (drop 8 v))))"

definition scanner_remaining :: "MonotonicDeadline \<Rightarrow> pyobj \<Rightarrow> pyfloat scan_res" where
  "scanner_remaining d now =
     (case deadline_remaining d now of
        Inl (ValueError _) \<Rightarrow> scan_fail ''scanner deadline is invalid''
      | Inl e \<Rightarrow> Inl (ScanRaised e)
      | Inr r \<Rightarrow> if fle r (Fin 0) then scan_fail ''scanner deadline expired'' else Inr r)"

definition verify_socket_path :: "scan_host \<Rightarrow> socket_stat option \<Rightarrow> unit scan_res" where
  "verify_socket_path H s =
     (case s of
        None \<Rightarrow> scan_fail ''scanner socket is unavailable''
      | Some m \<Rightarrow>
          if \<not> sock_is_socket m \<or> sock_is_symlink m \<or> sock_uid m \<noteq> host_euid H \<or> sock_mode m mod 64 \<noteq> 0
          then scan_fail ''scanner socket identity is invalid'' else Inr ())"

definition verify_peer :: "scan_host \<Rightarrow> scan_connection \<Rightarrow> unit scan_res" where
  "verify_peer H K =
     (if \<not> cn_unix K then scan_fail ''scanner transport is not Unix-domain IPC''
      else if \<not> host_peercred H then Inr ()
      else case cn_credentials K of
        None \<Rightarrow> scan_fail ''scanner peer credentials are unavailable''
      | Some v \<Rightarrow>
          rbind (peer_credentials (host_little_endian H) v) (\<lambda>(_, uid, _).
            if uid \<noteq> host_euid H then scan_fail ''scanner peer identity is invalid'' else Inr ()))"

definition scanner_connect :: "scan_host \<Rightarrow> scan_connection \<Rightarrow> MonotonicDeadline \<Rightarrow> unit scan_res" where
  "scanner_connect H K d =
     rbind (verify_socket_path H (cn_lstat K)) (\<lambda>_.
       rbind (scanner_remaining d (cn_clock K 0)) (\<lambda>_.
         if \<not> cn_opens K then scan_fail ''scanner transport is unavailable'' else verify_peer H K))"

definition scanner_drain :: "scan_connection \<Rightarrow> MonotonicDeadline \<Rightarrow> nat \<Rightarrow> unit scan_res" where
  "scanner_drain K d k =
     rbind (scanner_remaining d (cn_clock K k)) (\<lambda>_.
       if cn_drains K k then Inr () else scan_fail ''scanner transport failed'')"

definition read_reply :: "scan_connection \<Rightarrow> MonotonicDeadline \<Rightarrow> nat \<Rightarrow> pystr scan_res" where
  "read_reply K d k =
     rbind (scanner_remaining d (cn_clock K k)) (\<lambda>_.
       case cn_reply K of
         None \<Rightarrow> scan_fail ''scanner did not return a verdict''
       | Some received_stream \<Rightarrow>
           (let data = take (MAX_SCANNER_REPLY_BYTES + 1) received_stream
            in if data = [] \<or> MAX_SCANNER_REPLY_BYTES < length data \<or> last data \<noteq> 0 \<or> count_list data 0 \<noteq> 1
               then scan_fail ''scanner returned a malformed verdict''
               else if ascii (butlast data) then Inr (butlast data) else scan_fail ''scanner verdict is not ASCII''))"

section \<open>The signature version\<close>

definition is_upper :: "nat \<Rightarrow> bool" where "is_upper c = (65 \<le> c \<and> c \<le> 90)"
definition is_lower :: "nat \<Rightarrow> bool" where "is_lower c = (97 \<le> c \<and> c \<le> 122)"

definition updated_shape :: "(nat \<Rightarrow> bool) list" where
  "updated_shape =
     (let word = [is_upper, is_lower, is_lower]; two = [is_digit, is_digit]; sp = [\<lambda>c. c = 32]; colon = [\<lambda>c. c = 58]
      in word @ sp @ word @ sp @ [\<lambda>c. c = 32 \<or> is_digit c, is_digit] @ sp @ two @ colon @ two @ colon @ two @ sp @ two @ two)"

fun matches :: "('a \<Rightarrow> bool) list \<Rightarrow> 'a list \<Rightarrow> bool" where
  "matches [] s = (s = [])"
| "matches (p # ps) s = (case s of [] \<Rightarrow> False | c # cs \<Rightarrow> p c \<and> matches ps cs)"

text \<open>\<open>fullmatch\<close> of the version pattern: none of its three groups contains the separating slash.\<close>

definition match_version :: "pystr \<Rightarrow> (pystr \<times> pystr \<times> pystr) option" where
  "match_version response =
     (case split_on 47 response of
        [a, signature, updated] \<Rightarrow>
          (let engine = drop 7 a
           in if starts_with (codes ''ClamAV '') a \<and> engine \<noteq> [] \<and> length engine \<le> 32 \<and> is_digit (hd engine)
                 \<and> list_all (\<lambda>c. is_digit c \<or> c = 46) (tl engine)
                 \<and> signature \<noteq> [] \<and> length signature \<le> 20 \<and> list_all is_digit signature \<and> matches updated_shape updated
              then Some (engine, signature, updated) else None)
      | _ \<Rightarrow> None)"

definition two_digits :: "nat \<Rightarrow> pystr \<Rightarrow> int" where
  "two_digits i s = 10 * (if s ! i = 32 then 0 else int (s ! i) - 48) + (int (s ! Suc i) - 48)"

definition MONTHS :: "pystr list" where
  "MONTHS = map codes [''Jan'', ''Feb'', ''Mar'', ''Apr'', ''May'', ''Jun'', ''Jul'', ''Aug'', ''Sep'', ''Oct'', ''Nov'', ''Dec'']"

definition WEEKDAYS :: "pystr list" where
  "WEEKDAYS = map codes [''Mon'', ''Tue'', ''Wed'', ''Thu'', ''Fri'', ''Sat'', ''Sun'']"

definition leap_year :: "int \<Rightarrow> bool" where
  "leap_year y = (y mod 4 = 0 \<and> (y mod 100 \<noteq> 0 \<or> y mod 400 = 0))"

definition days_in_month :: "int \<Rightarrow> nat \<Rightarrow> int" where
  "days_in_month y m = (if m = 1 \<and> leap_year y then 29 else [31, 28, 31, 30, 31, 30, 31, 31, 30, 31, 30, 31] ! m)"

definition days_before_year :: "int \<Rightarrow> int" where
  "days_before_year y = (let p = y - 1 in p * 365 + p div 4 - p div 100 + p div 400)"

definition days_before_month :: "int \<Rightarrow> nat \<Rightarrow> int" where
  "days_before_month y m = sum_list (map (days_in_month y) [0..<m])"

fun index_of :: "'a \<Rightarrow> 'a list \<Rightarrow> nat option" where
  "index_of x [] = None"
| "index_of x (y # ys) = (if x = y then Some 0 else map_option Suc (index_of x ys))"

text \<open>
  \<open>strptime\<close> with the format \<^verbatim>\<open>%a %b %d %H:%M:%S %Y\<close> in the C locale on a text of the matched shape, then UTC: the weekday must be a
  name and is otherwise ignored.
\<close>

definition strptime_updated :: "pystr \<Rightarrow> pydatetime option" where
  "strptime_updated s =
     (case (index_of (take 3 s) WEEKDAYS, index_of (take 3 (drop 4 s)) MONTHS) of
        (Some _, Some m) \<Rightarrow>
          (let d = two_digits 8 s; h = two_digits 11 s; mi = two_digits 14 s; sec = two_digits 17 s;
               y = 100 * two_digits 20 s + two_digits 22 s
           in if 1 \<le> y \<and> 1 \<le> d \<and> d \<le> days_in_month y m \<and> h \<le> 23 \<and> mi \<le> 59 \<and> sec \<le> 59
              then Some (Aware ((((days_before_year y + days_before_month y m + d - 719163) * 24 + h) * 60 + mi) * 60 * MICROSECONDS
                           + sec * MICROSECONDS))
              else None)
      | _ \<Rightarrow> None)"

definition scanner_version ::
  "scan_host \<Rightarrow> scan_connection \<Rightarrow> MonotonicDeadline \<Rightarrow> (pystr \<times> pystr \<times> pydatetime) scan_res" where
  "scanner_version H K d =
     rbind (scanner_connect H K d) (\<lambda>_.
       rbind (scanner_drain K d 1) (\<lambda>_.
         rbind (read_reply K d 2) (\<lambda>response.
           case match_version response of
             None \<Rightarrow> scan_fail ''scanner version response is invalid''
           | Some (engine, signature, updated) \<Rightarrow>
               (case strptime_updated updated of
                  None \<Rightarrow> scan_fail ''scanner signature timestamp is invalid''
                | Some t \<Rightarrow> Inr (engine, signature, t)))))"

section \<open>Streaming the artifact\<close>

text \<open>
  The artifact during a scan: \<open>lstat\<close> of its path, whether it can be opened, the descriptor at the start and at the
  end, and what each read of the descriptor returns; the first empty read ends the file.
\<close>

record scan_artifact =
  av_lstat :: "fsnode option"
  av_opens :: bool
  av_opened :: "fsnode option"
  av_completed :: "fsnode option"
  av_reads :: "bytes option list"

definition open_artifact :: "int \<Rightarrow> scan_artifact \<Rightarrow> fsnode scan_res" where
  "open_artifact maximum A =
     (case av_lstat A of
        None \<Rightarrow> scan_fail ''scanner artifact is unavailable''
      | Some n \<Rightarrow>
          if is_symlink n \<or> \<not> is_regular n \<or> st_nlink (node_stat n) \<noteq> 1
          then scan_fail ''scanner artifact is not a regular unlinked file''
          else if st_size n < 1 \<or> maximum < st_size n then scan_fail ''scanner artifact size is invalid''
          else if \<not> av_opens A then scan_fail ''scanner artifact is unavailable'' else Inr n)"

definition same_artifact :: "fsnode \<Rightarrow> fsnode \<Rightarrow> nat \<Rightarrow> bool" where
  "same_artifact before after sent_bytes =
     (int sent_bytes = st_size before
      \<and> st_dev (node_stat after) = st_dev (node_stat before) \<and> st_ino (node_stat after) = st_ino (node_stat before)
      \<and> st_size after = st_size before \<and> st_mtime_ns (node_stat after) = st_mtime_ns (node_stat before)
      \<and> st_ctime_ns (node_stat after) = st_ctime_ns (node_stat before))"

text \<open>
  \<open>_send_file\<close>: the bytes fed to the digest, the bytes written to the connection, and the number of the next call
  of \<open>_remaining\<close>. \<open>struct.pack\<close> refuses a length that does not fit in four bytes.
\<close>

fun send_file ::
  "int \<Rightarrow> (nat \<Rightarrow> unit scan_res) \<Rightarrow> nat \<Rightarrow> bytes \<Rightarrow> bytes \<Rightarrow> bytes option list \<Rightarrow> (bytes \<times> bytes \<times> nat) scan_res" where
  "send_file maximum drain k data sent (Some (b # bs) # reads) =
     (let chunk = b # bs
      in if maximum < int (length data + length chunk) then scan_fail ''scanner artifact exceeds its configured limit''
         else if 256 ^ 4 \<le> length chunk then Inl (ScanRaised (RuntimeError ''struct.error''))
         else rbind (drain k) (\<lambda>_.
           send_file maximum drain (Suc k) (data @ chunk) (sent @ be_bytes 4 (length chunk) @ chunk) reads))"
| "send_file maximum drain k data sent (None # reads) = Inl (ScanRaised (OSError ''read''))"
| "send_file maximum drain k data sent reads = rbind (drain k) (\<lambda>_. Inr (data, sent @ be_bytes 4 0, Suc k))"

definition changed_identity :: "fsnode \<Rightarrow> fsnode \<Rightarrow> bool" where
  "changed_identity initial opened =
     (\<not> is_regular opened \<or> st_nlink (node_stat opened) \<noteq> 1 \<or> st_dev (node_stat opened) \<noteq> st_dev (node_stat initial)
      \<or> st_ino (node_stat opened) \<noteq> st_ino (node_stat initial) \<or> st_size opened \<noteq> st_size initial)"

definition INSTREAM :: bytes where "INSTREAM = codes ''zINSTREAM'' @ [0]"

text \<open>An \<open>OSError\<close> raised while the descriptor is open becomes a scan error.\<close>

definition transport_guard :: "'a scan_res \<Rightarrow> 'a scan_res" where
  "transport_guard r = (case r of Inl (ScanRaised (OSError _)) \<Rightarrow> scan_fail ''scanner transport failed'' | _ \<Rightarrow> r)"

definition exchange_artifact ::
  "int \<Rightarrow> scan_host \<Rightarrow> scan_connection \<Rightarrow> scan_artifact \<Rightarrow> MonotonicDeadline \<Rightarrow> pystr \<Rightarrow> fsnode \<Rightarrow> (pystr \<times> bytes) scan_res" where
  "exchange_artifact maximum H K A d expected initial =
     (case av_opened A of
        None \<Rightarrow> Inl (ScanRaised (OSError ''fstat''))
      | Some opened \<Rightarrow>
          if changed_identity initial opened then scan_fail ''scanner artifact identity changed before streaming''
          else rbind (scanner_connect H K d) (\<lambda>_.
            rbind (send_file maximum (scanner_drain K d) 1 [] INSTREAM (av_reads A)) (\<lambda>(data, sent, k).
              case av_completed A of
                None \<Rightarrow> Inl (ScanRaised (OSError ''fstat''))
              | Some completed \<Rightarrow>
                  if \<not> same_artifact opened completed (length data) \<or> hexdigest (sha256 data) \<noteq> expected
                  then scan_fail ''scanner artifact changed while streaming''
                  else rbind (read_reply K d k) (\<lambda>response. Inr (response, sent)))))"

definition ends_with :: "'a list \<Rightarrow> 'a list \<Rightarrow> bool" where
  "ends_with sfx s = starts_with (rev sfx) (rev s)"

definition verdict_of :: "pystr \<Rightarrow> ScanVerdict scan_res" where
  "verdict_of response =
     (if response = codes ''stream: OK'' then Inr CLEAN
      else if starts_with (codes ''stream: '') response \<and> ends_with (codes '' FOUND'') response then Inr INFECTED
      else if starts_with (codes ''stream: '') response \<and> ends_with (codes '' ERROR'') response then Inr SCAN_ERROR
      else scan_fail ''scanner returned an unrecognized verdict'')"

text \<open>\<open>_stream\<close>; the bytes written to the connection are returned beside the verdict.\<close>

definition stream_artifact ::
  "int \<Rightarrow> scan_host \<Rightarrow> scan_connection \<Rightarrow> scan_artifact \<Rightarrow> MonotonicDeadline \<Rightarrow> pystr \<Rightarrow> (ScanVerdict \<times> bytes) scan_res" where
  "stream_artifact maximum H K A d expected =
     rbind (open_artifact maximum A) (\<lambda>initial.
       rbind (transport_guard (exchange_artifact maximum H K A d expected initial)) (\<lambda>(response, sent).
         rbind (verdict_of response) (\<lambda>v. Inr (v, sent))))"

definition scan ::
  "ClamAvScanner \<Rightarrow> scan_host \<Rightarrow> scan_connection \<Rightarrow> scan_connection \<Rightarrow> scan_artifact \<Rightarrow> MonotonicDeadline \<Rightarrow> pystr
     \<Rightarrow> (ScanResult \<times> bytes) scan_res" where
  "scan S H K1 K2 A d expected =
     (if \<not> lower_hex 64 expected then scan_fail ''scanner expected digest is invalid''
      else rbind (scanner_version H K1 d) (\<lambda>(engine, signature, t).
        rbind (stream_artifact (scan_max_bytes S) H K2 A d expected) (\<lambda>(v, sent).
          case scan_result_new \<lparr>verdict = v, scanned_sha256 = expected, engine_version = engine,
                 signature_version = signature, signatures_updated_at = t\<rparr> of
            Inl e \<Rightarrow> Inl (ScanRaised e)
          | Inr r \<Rightarrow> Inr (r, sent))))"

section \<open>Accepting a verdict\<close>

text \<open>A result has an aware timestamp by construction, so the branch for a naive one is never taken.\<close>

definition validate_clean_scan_result :: "fsnode option \<Rightarrow> pystr \<Rightarrow> ScanResult \<Rightarrow> pydatetime \<Rightarrow> unit scan_res" where
  "validate_clean_scan_result node expected result now =
     (case now of
        Naive _ \<Rightarrow> Inl (ScanRaised (ValueError ''scanner verification time must be timezone-aware''))
      | Aware verified_at \<Rightarrow>
          (case node of
             None \<Rightarrow> scan_fail ''scanner artifact is unavailable''
           | Some n \<Rightarrow>
               if \<not> is_regular n \<or> is_symlink n \<or> st_nlink (node_stat n) \<noteq> 1
               then scan_fail ''scanner artifact is not a regular unlinked file''
               else case sha256_path (Some n) of
                 Inl _ \<Rightarrow> scan_fail ''scanner artifact could not be read''
               | Inr actual \<Rightarrow>
                   if actual \<noteq> expected \<or> scanned_sha256 result \<noteq> expected
                   then scan_fail ''scanner verdict does not match artifact bytes''
                   else if verdict result \<noteq> CLEAN then scan_fail ''scanner did not return a clean verdict''
                   else case signatures_updated_at result of
                     Naive _ \<Rightarrow> Inl (ScanRaised (ValueError ''naive datetime''))
                   | Aware updated_at \<Rightarrow>
                       if DATETIME_MAX < verified_at + MAX_FUTURE_SIGNATURE_SKEW
                       then Inl (ScanRaised (OverflowError ''date value out of range''))
                       else if verified_at + MAX_FUTURE_SIGNATURE_SKEW < updated_at
                               \<or> MAX_SIGNATURE_AGE < verified_at - updated_at
                       then scan_fail ''scanner signatures are not fresh'' else Inr ()))"

section \<open>What the scanner receives\<close>

text \<open>
  The other end of the connection: \<^verbatim>\<open>zINSTREAM\<close>, then chunks with a four-byte length until a chunk of length zero. The fuel
  is the number of bytes, since every chunk takes at least its length field.
\<close>

fun receive_chunks :: "nat \<Rightarrow> bytes \<Rightarrow> bytes option" where
  "receive_chunks 0 s = None"
| "receive_chunks (Suc fuel) s =
     (let n = from_bytes (take 4 s); rest = drop 4 s
      in if length s < 4 then None
         else if n = 0 then (if rest = [] then Some [] else None)
         else if length rest < n then None
         else map_option (\<lambda>data. take n rest @ data) (receive_chunks fuel (drop n rest)))"

definition received_stream :: "bytes \<Rightarrow> bytes option" where
  "received_stream s =
     (if starts_with INSTREAM s then receive_chunks (length s) (drop (length INSTREAM) s) else None)"

lemma receive_chunk:
  assumes "chunk \<noteq> []" "length chunk < 256 ^ 4"
  shows "receive_chunks (Suc fuel) (be_bytes 4 (length chunk) @ chunk @ rest) = map_option ((@) chunk) (receive_chunks fuel rest)"
proof -
  have "from_bytes (be_bytes 4 (length chunk)) = length chunk"
    using assms(2) from_be_bytes [of 4 "length chunk"] by simp
  with assms show ?thesis by (simp add: Let_def)
qed

lemma receive_end: "receive_chunks (Suc fuel) (be_bytes 4 0) = Some []"
  using from_be_bytes [of 4 0] by simp

lemma received_nothing: "length (be_bytes 4 0) \<le> fuel \<Longrightarrow> receive_chunks fuel (be_bytes 4 0) = Some []"
  using receive_end by (cases fuel) (auto simp del: receive_chunks.simps be_bytes.simps)

declare receive_chunks.simps [simp del]

text \<open>What is written after the first bytes reads as exactly the bytes fed to the digest.\<close>

lemma send_file_framed:
  assumes "send_file maximum drain k data sent reads = Inr (data', sent', k')" "int (length data) \<le> maximum"
  shows "\<exists>new tail. data' = data @ new \<and> sent' = sent @ tail \<and> int (length data') \<le> maximum
    \<and> (\<forall>fuel. length tail \<le> fuel \<longrightarrow> receive_chunks fuel tail = Some new)"
  using assms
proof (induction maximum drain k data sent reads rule: send_file.induct)
  case (1 maximum drain k data sent b bs reads)
  let ?c = "b # bs"
  from 1(2) have fits: "\<not> maximum < int (length data + length ?c)" "\<not> 256 ^ 4 \<le> length ?c"
    and s: "send_file maximum drain (Suc k) (data @ ?c) (sent @ be_bytes 4 (length ?c) @ ?c) reads = Inr (data', sent', k')"
    by (auto simp: Let_def rbind_eq_Inr split: if_splits)
  have "int (length (data @ ?c)) \<le> maximum" using fits(1) by simp
  from 1(1) [OF refl fits s this] obtain new tail where n: "data' = (data @ ?c) @ new"
    "sent' = (sent @ be_bytes 4 (length ?c) @ ?c) @ tail" "int (length data') \<le> maximum"
    "\<forall>fuel. length tail \<le> fuel \<longrightarrow> receive_chunks fuel tail = Some new" by blast
  have "receive_chunks fuel (be_bytes 4 (length ?c) @ ?c @ tail) = Some (?c @ new)"
    if l: "length (be_bytes 4 (length ?c) @ ?c @ tail) \<le> fuel" for fuel
  proof -
    obtain f where f: "fuel = Suc f" "length tail \<le> f" using l by (cases fuel) auto
    show ?thesis using receive_chunk [of ?c f tail] fits(2) n(4) f by simp
  qed
  then show ?case using n(1-3)
    by (intro exI [of _ "?c @ new"] exI [of _ "be_bytes 4 (length ?c) @ ?c @ tail"]) simp
qed (use received_nothing in \<open>auto simp: rbind_eq_Inr\<close>)

lemma read_reply_exact:
  assumes "read_reply K d k = Inr response"
  shows "cn_reply K = Some (response @ [0])"
proof -
  obtain s where s: "cn_reply K = Some s" and n: "take (MAX_SCANNER_REPLY_BYTES + 1) s \<noteq> []" "last (take (MAX_SCANNER_REPLY_BYTES + 1) s) = 0"
    and l: "length (take (MAX_SCANNER_REPLY_BYTES + 1) s) \<le> MAX_SCANNER_REPLY_BYTES" and r: "response = butlast (take (MAX_SCANNER_REPLY_BYTES + 1) s)"
    using assms by (auto simp: read_reply_def rbind_eq_Inr Let_def split: option.splits if_splits simp del: take_eq_Nil)
  have "take (MAX_SCANNER_REPLY_BYTES + 1) s = s" using l by simp
  then show ?thesis using s n r append_butlast_last_id [of s] by simp
qed

definition authenticated :: "scan_host \<Rightarrow> scan_connection \<Rightarrow> bool" where
  "authenticated H K =
     ((\<exists>m. cn_lstat K = Some m \<and> sock_is_socket m \<and> sock_uid m = host_euid H \<and> sock_mode m mod 64 = 0)
      \<and> (host_peercred H \<longrightarrow> (\<exists>v pid gid. cn_credentials K = Some v \<and> peer_credentials (host_little_endian H) v = Inr (pid, host_euid H, gid))))"

lemma connect_authenticated: "scanner_connect H K d = Inr u \<Longrightarrow> authenticated H K"
  by (auto simp: scanner_connect_def verify_socket_path_def verify_peer_def authenticated_def rbind_eq_Inr
      split: option.splits if_splits)

lemma transport_guard_Inr: "transport_guard r = Inr x \<longleftrightarrow> r = Inr x"
  by (cases r) (auto simp: transport_guard_def split: scan_exc.splits pyexc.splits)

lemma stream_received:
  assumes "stream_artifact maximum H K A d expected = Inr (v, sent)"
  shows "\<exists>data response. received_stream sent = Some data \<and> hexdigest (sha256 data) = expected \<and> data \<noteq> [] \<and> int (length data) \<le> maximum
    \<and> cn_reply K = Some (response @ [0]) \<and> verdict_of response = Inr v \<and> authenticated H K"
proof -
  obtain initial response where i: "open_artifact maximum A = Inr initial"
    "exchange_artifact maximum H K A d expected initial = Inr (response, sent)" "verdict_of response = Inr v"
    using assms by (auto simp: stream_artifact_def transport_guard_Inr rbind_eq_Inr)
  from i(1) have size: "1 \<le> st_size initial" "st_size initial \<le> maximum" by (auto simp: open_artifact_def split: option.splits if_splits)
  from i(2) obtain opened completed data k where o: "scanner_connect H K d = Inr ()" "\<not> changed_identity initial opened"
    "send_file maximum (scanner_drain K d) 1 [] INSTREAM (av_reads A) = Inr (data, sent, k)"
    "same_artifact opened completed (length data)" "hexdigest (sha256 data) = expected" "read_reply K d k = Inr response"
    by (auto simp: exchange_artifact_def rbind_eq_Inr split: option.splits if_splits)
  have "0 \<le> maximum" using size by simp
  then obtain tail where t: "sent = INSTREAM @ tail" "int (length data) \<le> maximum"
    "\<forall>fuel. length tail \<le> fuel \<longrightarrow> receive_chunks fuel tail = Some data"
    using send_file_framed [OF o(3)] by auto
  have "received_stream sent = Some data" using t(1,3) by (simp add: received_stream_def)
  moreover have "data \<noteq> []" using o(2,4) size(1) by (auto simp: same_artifact_def changed_identity_def)
  ultimately show ?thesis using t(2) o(5) read_reply_exact [OF o(6)] i(3) connect_authenticated [OF o(1)] by blast
qed

lemma verdict_clean: "verdict_of response = Inr CLEAN \<longleftrightarrow> response = codes ''stream: OK''"
  by (simp add: verdict_of_def del: codes_simps)

definition example_host :: scan_host where
  "example_host = \<lparr>host_euid = 10, host_little_endian = True, host_peercred = True\<rparr>"

definition example_scan_connection :: "string \<Rightarrow> scan_connection" where
  "example_scan_connection reply =
     \<lparr>cn_lstat = Some \<lparr>sock_is_socket = True, sock_is_symlink = False, sock_uid = 10, sock_mode = 49536\<rparr>,
      cn_opens = True, cn_unix = True, cn_credentials = Some [1, 0, 0, 0, 10, 0, 0, 0, 10, 0, 0, 0],
      cn_clock = (\<lambda>_. PFloat (Fin 1)), cn_drains = (\<lambda>_. True), cn_reply = Some (codes reply @ [0])\<rparr>"

definition example_scan_artifact :: "bytes \<Rightarrow> scan_artifact" where
  "example_scan_artifact content =
     (let n = Some (RegularFile (example_stat 384 0) content)
      in \<lparr>av_lstat = n, av_opens = True, av_opened = n, av_completed = n, av_reads = [Some content]\<rparr>)"

definition example_scan_deadline :: MonotonicDeadline where
  "example_scan_deadline = \<lparr>created_at = Fin 0, expires_at = Fin 60\<rparr>"

lemma digest_lower_hex: "lower_hex 64 (hexdigest (sha256 data))"
  using hexdigest_hex [OF sha256_bytes] by (simp add: lower_hex_def length_sha256)

lemma example_version:
  "scanner_version example_host (example_scan_connection ''ClamAV 1.4.1/27500/Thu Jan  1 00:00:00 1970'') example_scan_deadline
   = Inr (codes ''1.4.1'', codes ''27500'', Aware 0)"
  by code_simp

lemma example_stream:
  "stream_artifact 10 example_host (example_scan_connection ''stream: OK'') (example_scan_artifact [1, 2, 3]) example_scan_deadline
     (hexdigest (sha256 [1, 2, 3])) = Inr (CLEAN, INSTREAM @ [0, 0, 0, 3, 1, 2, 3, 0, 0, 0, 0])"
proof -
  let ?K = "example_scan_connection ''stream: OK''"
  have c: "scanner_connect example_host ?K example_scan_deadline = Inr ()"
    "send_file 10 (scanner_drain ?K example_scan_deadline) 1 [] INSTREAM [Some [1, 2, 3]]
       = Inr ([1, 2, 3], INSTREAM @ [0, 0, 0, 3, 1, 2, 3, 0, 0, 0, 0], 3)"
    "read_reply ?K example_scan_deadline 3 = Inr (codes ''stream: OK'')"
    by code_simp+
  show ?thesis
    by (simp add: stream_artifact_def open_artifact_def exchange_artifact_def example_scan_artifact_def changed_identity_def
        same_artifact_def example_stat_def c transport_guard_def verdict_of_def Let_def del: codes_simps send_file.simps One_nat_def)
qed

text \<open>
  C13. A clean verdict is about the artifact's bytes: the scanner, reached over a private socket of this user and answering
  exactly \<^verbatim>\<open>stream: OK\<close>, received_stream a complete stream whose content is nonempty, within the limit, and has the expected digest.
\<close>

theorem clean_verdict_is_for_the_artifact:
  assumes "scan S H K1 K2 A d expected = Inr (r, sent)" and "verdict r = CLEAN"
  shows "\<exists>data. received_stream sent = Some data \<and> hexdigest (sha256 data) = expected \<and> scanned_sha256 r = expected
    \<and> data \<noteq> [] \<and> int (length data) \<le> scan_max_bytes S
    \<and> cn_reply K2 = Some (codes ''stream: OK'' @ [0]) \<and> authenticated H K1 \<and> authenticated H K2"
proof -
  obtain e g t where s: "scanner_version H K1 d = Inr (e, g, t)" "stream_artifact (scan_max_bytes S) H K2 A d expected = Inr (CLEAN, sent)"
    "scanned_sha256 r = expected"
    using assms by (auto simp: scan_def scan_result_new_def rbind_eq_Inr split: if_splits sum.splits pydatetime.splits)
  have "authenticated H K1" using s(1) connect_authenticated by (auto simp: scanner_version_def rbind_eq_Inr)
  with stream_received [OF s(2)] s(3) show ?thesis by (auto simp: verdict_clean simp del: codes_simps)
qed

theorem clean_verdict_is_for_the_artifact_witness:
  "\<exists>r sent. scan \<lparr>socket_path = codes ''/run/clamd.sock'', scan_max_bytes = 10\<rparr> example_host
     (example_scan_connection ''ClamAV 1.4.1/27500/Thu Jan  1 00:00:00 1970'') (example_scan_connection ''stream: OK'')
     (example_scan_artifact [1, 2, 3]) example_scan_deadline (hexdigest (sha256 [1, 2, 3])) = Inr (r, sent)
   \<and> verdict r = CLEAN \<and> received_stream sent = Some [1, 2, 3] \<and> scanned_sha256 r = hexdigest (sha256 [1, 2, 3])"
proof -
  let ?K1 = "example_scan_connection ''ClamAV 1.4.1/27500/Thu Jan  1 00:00:00 1970''"
  let ?S = "\<lparr>socket_path = codes ''/run/clamd.sock'', scan_max_bytes = 10\<rparr>"
  have v: "bounded_version (codes ''1.4.1'')" "bounded_version (codes ''27500'')" by code_simp+
  obtain r sent where s: "scan ?S example_host ?K1 (example_scan_connection ''stream: OK'') (example_scan_artifact [1, 2, 3])
      example_scan_deadline (hexdigest (sha256 [1, 2, 3])) = Inr (r, sent)" "verdict r = CLEAN"
      "sent = INSTREAM @ [0, 0, 0, 3, 1, 2, 3, 0, 0, 0, 0]"
    using example_version example_stream v by (simp add: scan_def scan_result_new_def digest_lower_hex del: codes_simps One_nat_def)
  have "received_stream sent = Some [1, 2, 3]" unfolding s(3) by code_simp
  then show ?thesis using clean_verdict_is_for_the_artifact [OF s(1,2)] s by auto
qed

end
