(* ===== verification/Nplg_Download.thy ===== *)
theory Nplg_Download
  imports Nplg_Upstream Nplg_Malware Nplg_Publish
begin

text \<open>
  The document downloader, \<^verbatim>\<open>src/nplg_mcp/downloader.py\<close>: checks of the bitstream and of every redirect, the checks of the
  response, the transfer into a staged file under the byte limit, the signature and malware checks, the commit, and the
  publication reservation around it. The scanner is an argument, as in the code; what staging meets is a \<open>stage_io\<close> per write
  and one for the rest. The details of errors are left out.
\<close>

section \<open>Configuration\<close>

record Bitstream =
  bitstream_id :: pystr
  bs_handle :: pystr
  bs_filename :: pystr
  bs_source_url :: pystr
  reported_size :: "int option"
  reported_format :: "pystr option"
  bs_description :: "pystr option"
  access_status :: pystr

type_synonym scanner = "fsnode option \<Rightarrow> pystr \<Rightarrow> MonotonicDeadline \<Rightarrow> ScanResult scan_res"

record DocumentDownloader =
  dl_max_bytes :: int
  dl_validate_dns :: bool
  dl_max_redirects :: int
  dl_total_timeout :: pyfloat
  dl_scanner :: "scanner option"
  dl_retention :: "(RetentionPolicy \<times> RetentionClockSample) option"

definition MAX_CONFIGURED_REDIRECTS :: int where "MAX_CONFIGURED_REDIRECTS = 5"
definition MAX_UPSTREAM_TIMEOUT_SECONDS :: pyfloat where "MAX_UPSTREAM_TIMEOUT_SECONDS = Fin 120"
definition PDF_SIGNATURE_LENGTH :: nat where "PDF_SIGNATURE_LENGTH = 8"
definition DOCUMENT_PUBLICATION_INODES :: int where "DOCUMENT_PUBLICATION_INODES = 3"

definition timeout_valid :: "pyobj \<Rightarrow> pyfloat option" where
  "timeout_valid v =
     (case v of
        PFloat x \<Rightarrow> if \<not> isfinite x \<or> fle x (Fin 0) \<or> flt MAX_UPSTREAM_TIMEOUT_SECONDS x then None else Some x
      | _ \<Rightarrow> None)"

definition downloader_new ::
  "pyobj \<Rightarrow> bool \<Rightarrow> int \<Rightarrow> pyobj \<Rightarrow> scanner option \<Rightarrow> bool \<Rightarrow> pyobj \<Rightarrow> RetentionPolicy option \<Rightarrow> RetentionClockSample option
     \<Rightarrow> DocumentDownloader res" where
  "downloader_new maximum validate_dns max_redirects timeout scanner guard_ok require_scanner policy clock =
     (case maximum of
        PInt n \<Rightarrow>
          if n \<le> 0 then Inl (ValueError ''max_bytes must be a positive integer'')
          else if \<not> (0 \<le> max_redirects \<and> max_redirects \<le> MAX_CONFIGURED_REDIRECTS)
          then Inl (ValueError ''max_redirects must be between 0 and 5'')
          else (case timeout_valid timeout of
            None \<Rightarrow> Inl (ValueError ''total_timeout_seconds must be positive'')
          | Some t \<Rightarrow>
              if \<not> guard_ok then Inl (TypeError ''guard must be an UpstreamGuard'')
              else case require_scanner of
                PBool required \<Rightarrow>
                  if required \<and> scanner = None then Inl (ValueError ''private-full downloads require a malware scanner'')
                  else if (policy = None) \<noteq> (clock = None)
                  then Inl (ValueError ''retention policy and clock authority must be configured together'')
                  else Inr \<lparr>dl_max_bytes = n, dl_validate_dns = validate_dns, dl_max_redirects = max_redirects, dl_total_timeout = t,
                            dl_scanner = scanner,
                            dl_retention = (case (policy, clock) of (Some p, Some c) \<Rightarrow> Some (p, c) | _ \<Rightarrow> None)\<rparr>
              | _ \<Rightarrow> Inl (ValueError ''require_scanner must be a boolean''))
      | _ \<Rightarrow> Inl (ValueError ''max_bytes must be a positive integer''))"

section \<open>Bitstreams and redirects\<close>

definition bound_path :: "library \<Rightarrow> pystr \<Rightarrow> pystr \<Rightarrow> bool res" where
  "bound_path L handle url =
     rbind (urlsplit L url) (\<lambda>parts. Inr (starts_with (codes ''/bitstream/'' @ handle @ [47]) (url_path parts)))"

definition validate_bitstream :: "library \<Rightarrow> Bitstream \<Rightarrow> pystr res" where
  "validate_bitstream L b =
     (if access_status b \<noteq> codes ''public''
      then app_fail RESTRICTED ''The repository file is not publicly downloadable.'' 403
      else rbind (parse_handle_input L (bs_handle b)) (\<lambda>handle.
        rbind (validate_upstream_url L (bs_source_url b)) (\<lambda>url.
          rbind (bound_path L handle url) (\<lambda>bound.
            if \<not> bound then app_fail INVALID_INPUT ''The bitstream URL is not bound to the requested item.'' 400
            else case reported_size b of
              Some n \<Rightarrow> if n < 0 then app_fail INVALID_INPUT ''The bitstream reported an invalid size.'' 400 else Inr url
            | None \<Rightarrow> Inr url))))"

definition preflight_bitstream :: "library \<Rightarrow> DocumentDownloader \<Rightarrow> Bitstream \<Rightarrow> pystr res" where
  "preflight_bitstream L D b =
     rbind (validate_bitstream L b) (\<lambda>url.
       case reported_size b of
         Some n \<Rightarrow>
           if dl_max_bytes D < n
           then app_fail DOWNLOAD_TOO_LARGE ''The repository file exceeds the configured download limit.'' 413 else Inr url
       | None \<Rightarrow> Inr url)"

definition download_redirect :: "library \<Rightarrow> DocumentDownloader \<Rightarrow> Bitstream \<Rightarrow> pystr \<Rightarrow> nat \<Rightarrow> http_response \<Rightarrow> pystr option res" where
  "download_redirect L D b current k r =
     rbind (redirect_location L (dl_max_redirects D)
              (''The repository returned too many download redirects.'', ''The repository returned an incomplete download redirect.'')
              r current k) (\<lambda>found.
       case found of
         None \<Rightarrow> Inr None
       | Some next_url \<Rightarrow>
           rbind (parse_handle_input L (bs_handle b)) (\<lambda>handle.
             rbind (bound_path L handle next_url) (\<lambda>bound.
               if \<not> bound then app_fail INVALID_INPUT ''The download redirect escaped the discovered bitstream.'' 400
               else Inr (Some next_url))))"

definition download_messages :: status_messages where
  "download_messages =
     \<lparr>sm_not_found = ''The repository file was not found.'', sm_restricted = ''The repository file is not publicly downloadable.'',
      sm_rate_limited = ''The repository is rate limiting file downloads.'',
      sm_unsuccessful = ''The repository returned an unsuccessful download response.''\<rparr>"

definition ALLOWED_PDF_TYPES :: "pystr list" where
  "ALLOWED_PDF_TYPES = map codes [''application/pdf'', ''application/octet-stream'', ''binary/octet-stream'', '''']"

definition validate_response_headers :: "library \<Rightarrow> (nat \<Rightarrow> nat option) \<Rightarrow> DocumentDownloader \<Rightarrow> http_response \<Rightarrow> unit res" where
  "validate_response_headers L digit D r =
     rbind (content_encoding_ok L r) (\<lambda>_.
       rbind (declared_length_ok digit (dl_max_bytes D)
                (app_fail DOWNLOAD_TOO_LARGE ''The repository file exceeds the configured download limit.'' 413) r) (\<lambda>_.
         if response_media_type L r \<notin> set ALLOWED_PDF_TYPES
         then app_fail INVALID_DOCUMENT ''The repository response is not a supported PDF document.'' 422 else Inr ()))"

section \<open>Storing the response\<close>

text \<open>
  The body of the staging context never fails on the store's side: an exception of the body is a value, and leaving
  the context discards the staged file either way.
\<close>

type_synonym 'a body_op = "(upstream_exc + 'a) writer_op"

definition of_store :: "store_exc \<Rightarrow> upstream_exc" where
  "of_store e = (case e of Raised x \<Rightarrow> UpRaised x | PublicationReservationError p \<Rightarrow> PublicationRefused p)"

definition staged_result :: "upstream_exc + 'a \<Rightarrow> 'a body_op" where
  "staged_result r wst = (Inr r, wst)"

definition body_call :: "'a writer_op \<Rightarrow> 'a body_op" where
  "body_call m wst = (case m wst of (Inl e, wst1) \<Rightarrow> (Inr (Inl (of_store e)), wst1) | (Inr a, wst1) \<Rightarrow> (Inr (Inr a), wst1))"

definition body_bind :: "'a body_op \<Rightarrow> ('a \<Rightarrow> 'b body_op) \<Rightarrow> 'b body_op" where
  "body_bind m f = obind m (\<lambda>r. case r of Inl e \<Rightarrow> staged_result (Inl e) | Inr a \<Rightarrow> f a)"

text \<open>\<open>_run_storage_write\<close> and \<open>_run_storage_commit\<close>: \<open>busy\<close> when the storage workers are all in use.\<close>

definition run_storage :: "bool \<Rightarrow> 'a writer_op \<Rightarrow> 'a body_op" where
  "run_storage busy m =
     (if busy then staged_result (up_fail RATE_LIMITED ''The artifact storage service is at capacity.'' 503) else body_call m)"

record download_io =
  d_write_io :: "nat \<Rightarrow> stage_io"
  d_write_busy :: "nat \<Rightarrow> bool"
  d_stage_io :: stage_io
  d_commit_busy :: bool
  d_scan_clock :: pyobj
  d_scan_now :: pydatetime

fun store_chunks ::
  "download_io \<Rightarrow> int \<Rightarrow> upstream_exc option \<Rightarrow> nat \<Rightarrow> nat \<Rightarrow> bytes \<Rightarrow> bytes list \<Rightarrow> (nat \<times> bytes) body_op" where
  "store_chunks io maximum ending k downloaded head [] =
     staged_result (case ending of Some e \<Rightarrow> Inl e | None \<Rightarrow> Inr (downloaded, head))"
| "store_chunks io maximum ending k downloaded head (chunk # chunks) =
     (if chunk = [] then store_chunks io maximum ending k downloaded head chunks
      else if maximum < int (downloaded + length chunk)
      then staged_result (up_fail DOWNLOAD_TOO_LARGE ''The repository file exceeded the configured download limit while streaming.'' 413)
      else body_bind (run_storage (d_write_busy io k) (writer_write (d_write_io io k) (Inr ()) chunk)) (\<lambda>_.
             store_chunks io maximum ending (Suc k) (downloaded + length chunk)
               (if length head < PDF_SIGNATURE_LENGTH then head @ take (PDF_SIGNATURE_LENGTH - length head) chunk else head) chunks))"

definition not_clean :: "upstream_exc + 'a" where
  "not_clean = up_fail INVALID_DOCUMENT ''The downloaded document did not pass security scanning.'' 422"

text \<open>The exceptions of the scan that count as a document that did not pass; the others propagate.\<close>

definition scan_failure :: "scan_exc \<Rightarrow> upstream_exc + 'a" where
  "scan_failure e =
     (case e of
        MalwareScanError _ \<Rightarrow> not_clean
      | ScanRaised x \<Rightarrow> (case x of OSError _ \<Rightarrow> not_clean | TimeoutError _ \<Rightarrow> not_clean | ValueError _ \<Rightarrow> not_clean | _ \<Rightarrow> Inl (UpRaised x)))"

definition run_scan :: "download_io \<Rightarrow> DocumentDownloader \<Rightarrow> scanner \<Rightarrow> fsnode option \<Rightarrow> pystr \<Rightarrow> unit scan_res" where
  "run_scan io D scanner node expected =
     (case deadline_after (PFloat (fmin (dl_total_timeout D) (Fin 60))) (d_scan_clock io) of
        Inl e \<Rightarrow> Inl (ScanRaised e)
      | Inr d \<Rightarrow> rbind (scanner node expected d) (\<lambda>result. validate_clean_scan_result node expected result (d_scan_now io)))"

definition scan_staged :: "download_io \<Rightarrow> DocumentDownloader \<Rightarrow> unit body_op" where
  "scan_staged io D wst =
     (case dl_scanner D of
        None \<Rightarrow> staged_result (Inr ()) wst
      | Some scanner \<Rightarrow>
          (case prepare_for_scan (d_stage_io io) (Inr ()) (fst wst) of
             Inl e \<Rightarrow> staged_result (Inl (UpRaised e)) wst
           | Inr (path, expected) \<Rightarrow>
               (case run_scan io D scanner (fs_lookup path (fs_root (snd wst))) expected of
                  Inl e \<Rightarrow> staged_result (scan_failure e) wst
                | Inr _ \<Rightarrow> staged_result (Inr ()) wst)))"

record DownloadResult =
  dr_artifact :: StoredArtifact
  dr_bitstream_id :: pystr
  dr_source_url :: pystr
  dr_bytes_downloaded :: nat

definition PDF_MAGIC :: bytes where "PDF_MAGIC = codes ''%PDF-''"

definition store_body :: "library \<Rightarrow> download_io \<Rightarrow> DocumentDownloader \<Rightarrow> Bitstream \<Rightarrow> pystr \<Rightarrow> http_response \<Rightarrow> DownloadResult body_op" where
  "store_body L io D b source_url r =
     body_bind (store_chunks io (dl_max_bytes D) (rs_end r) 0 0 [] (rs_chunks r)) (\<lambda>(downloaded, head).
       if downloaded = 0 \<or> \<not> starts_with PDF_MAGIC head
       then staged_result (up_fail INVALID_DOCUMENT ''The repository response did not contain a valid PDF signature.'' 422)
       else body_bind (scan_staged io D) (\<lambda>_.
         body_bind (run_storage (d_commit_busy io)
                      (writer_commit (d_stage_io io) (Inr ()) (str_lower L) (codes ''documents'') (codes ''source.pdf'') (codes ''application/pdf''))) (\<lambda>artifact.
           staged_result (Inr \<lparr>dr_artifact = artifact, dr_bitstream_id = bitstream_id b, dr_source_url = source_url,
                             dr_bytes_downloaded = downloaded\<rparr>))))"

definition store_response ::
  "library \<Rightarrow> download_io \<Rightarrow> DocumentDownloader \<Rightarrow> Bitstream \<Rightarrow> pystr \<Rightarrow> http_response \<Rightarrow> (upstream_exc, Store, DownloadResult) op" where
  "store_response L io D b source_url r st =
     (case with_staged (d_stage_io io) (codes ''.pdf'') (store_body L io D b source_url r) st of
        (Inl e, st1) \<Rightarrow> (Inl (of_store e), st1)
      | (Inr v, st1) \<Rightarrow> (v, st1))"

definition accept_download ::
  "library \<Rightarrow> (nat \<Rightarrow> nat option) \<Rightarrow> download_io \<Rightarrow> DocumentDownloader \<Rightarrow> Bitstream \<Rightarrow> pystr \<Rightarrow> http_response
     \<Rightarrow> (upstream_exc, Store, DownloadResult) op" where
  "accept_download L digit io D b current r st =
     (case validate_response_headers L digit D r of
        Inl e \<Rightarrow> (Inl (UpRaised e), st)
      | Inr _ \<Rightarrow> store_response L io D b current r st)"

section \<open>The download\<close>

definition download_within_deadline ::
  "library \<Rightarrow> (nat \<Rightarrow> nat option) \<Rightarrow> (nat \<Rightarrow> attempt_io) \<Rightarrow> (nat \<Rightarrow> download_io) \<Rightarrow> DocumentDownloader \<Rightarrow> Bitstream \<Rightarrow> MonotonicDeadline
     \<Rightarrow> (Store, DownloadResult) up_op" where
  "download_within_deadline L digit aio dio D b d s =
     (case preflight_bitstream L D b of
        Inl e \<Rightarrow> (Inl (UpRaised e), s)
      | Inr url \<Rightarrow>
          redirect_loop (\<lambda>k current. attempt (aio k) (dl_validate_dns D) d (download_redirect L D b current k) download_messages
                           (accept_download L digit (dio k) D b current)) 0 (nat (dl_max_redirects D + 1)) url s)"

text \<open>\<open>asyncio.timeout\<close>: a cancellation becomes a timeout when the timer of this context fired.\<close>

definition timeout_context :: "bool \<Rightarrow> ('x, 'a) up_op \<Rightarrow> ('x, 'a) up_op" where
  "timeout_context fired m s =
     (case m s of (Inl e, s1) \<Rightarrow> (Inl (if fired \<and> e = UpRaised CancelledError then UpRaised (TimeoutError []) else e), s1) | (Inr a, s1) \<Rightarrow> (Inr a, s1))"

definition on_store :: "'a store_op \<Rightarrow> (Store, 'a) up_op" where
  "on_store m s =
     (case m (us_extra s) of (Inl e, st) \<Rightarrow> (Inl (of_store e), s\<lparr>us_extra := st\<rparr>) | (Inr a, st) \<Rightarrow> (Inr a, s\<lparr>us_extra := st\<rparr>))"

text \<open>Leaving the reservation context: an exception of the exit replaces the outcome.\<close>

definition leave_publication :: "nat \<Rightarrow> (Store, 'a) up_op \<Rightarrow> (Store, 'a) up_op" where
  "leave_publication i m s =
     (case m s of
        (r, s1) \<Rightarrow> (case on_store (reservation_context_exit i) s1 of (Inl e, s2) \<Rightarrow> (Inl e, s2) | (Inr _, s2) \<Rightarrow> (r, s2)))"

definition reserved_download ::
  "store_io \<Rightarrow> store_io \<Rightarrow> DocumentDownloader \<Rightarrow> (Store, DownloadResult) up_op \<Rightarrow> (Store, DownloadResult) up_op" where
  "reserved_download sx cx D m =
     (case dl_retention D of
        None \<Rightarrow> m
      | Some (policy, clock) \<Rightarrow>
          obind (on_store (reserve_publication policy (PInt (dl_max_bytes D)) (PInt 1) (PInt DOCUMENT_PUBLICATION_INODES) clock)) (\<lambda>i.
            obind (on_store (begin_publication_reservation sx i)) (\<lambda>_.
              leave_publication i
                (obind m (\<lambda>result.
                  obind (on_store (reservation_commit cx i (PInt (artifact_size (dr_artifact result))) (PInt 1) (PInt DOCUMENT_PUBLICATION_INODES)))
                    (\<lambda>_. up_return result))))))"

definition public_download_error :: "upstream_exc \<Rightarrow> upstream_exc" where
  "public_download_error e =
     (case e of
        UpRaised (UpstreamUnavailable _) \<Rightarrow> UpRaised (AppErr (AppError RATE_LIMITED ''The repository is temporarily unavailable.'' 503))
      | UpRaised (TimeoutError _) \<Rightarrow>
          UpRaised (AppErr (AppError UPSTREAM_FAILURE ''The repository download did not complete within the configured deadline.'' 502))
      | RequestError _ \<Rightarrow>
          UpRaised (AppErr (AppError UPSTREAM_FAILURE ''The repository download did not complete within the configured deadline.'' 502))
      | _ \<Rightarrow> e)"

definition download ::
  "library \<Rightarrow> (nat \<Rightarrow> nat option) \<Rightarrow> (nat \<Rightarrow> attempt_io) \<Rightarrow> (nat \<Rightarrow> download_io) \<Rightarrow> store_io \<Rightarrow> store_io \<Rightarrow> pyobj \<Rightarrow> bool
     \<Rightarrow> DocumentDownloader \<Rightarrow> Bitstream \<Rightarrow> (Store, DownloadResult) up_op" where
  "download L digit aio dio sx cx clock fired D b s =
     (case rbind (preflight_bitstream L D b) (\<lambda>_. deadline_after (PFloat (fmin (dl_total_timeout D) (Fin 59))) clock) of
        Inl e \<Rightarrow> (Inl (UpRaised e), s)
      | Inr d \<Rightarrow>
          (case reserved_download sx cx D (timeout_context fired (download_within_deadline L digit aio dio D b d)) s of
             (Inl e, s1) \<Rightarrow> (Inl (public_download_error e), s1)
           | (Inr a, s1) \<Rightarrow> (Inr a, s1)))"

section \<open>What a stored download is\<close>

text \<open>A stream that writes all it is given, as a buffered binary file does.\<close>

definition writes_whole :: "download_io \<Rightarrow> bool" where
  "writes_whole io = (\<forall>k data n. stream_write (d_write_io io k) data = Inr n \<longrightarrow> n = length data)"

lemma body_bind_Inr:
  "body_bind m f wst = (Inr (Inr b), wst') \<longleftrightarrow> (\<exists>a wst1. m wst = (Inr (Inr a), wst1) \<and> f a wst1 = (Inr (Inr b), wst'))"
  by (cases "m wst"; cases "fst (m wst)") (auto simp: body_bind_def obind_def staged_result_def split: sum.splits)

lemma run_storage_Inr: "run_storage busy m wst = (Inr (Inr a), wst') \<longleftrightarrow> \<not> busy \<and> m wst = (Inr a, wst')"
  by (auto simp: run_storage_def staged_result_def body_call_def split: sum.splits prod.splits)

lemma writer_write_data:
  assumes "writer_write io guard data (w, st) = (Inr n, (w', st'))"
  shows "stream_write io data = Inr n \<and> sw_data w' = sw_data w @ take n data \<and> sw_name w' = sw_name w"
  using assms by (auto simp: writer_write_def Let_def split: sum.splits if_splits prod.splits)

lemma take_take_append: "take m (take m x @ y) = take m (x @ y)"
  by (simp add: min_def)

lemma store_chunks_Inr:
  assumes "store_chunks io maximum ending k n hd0 chunks (w, st) = (Inr (Inr (n', hd')), (w', st'))"
    and "writes_whole io" "int n \<le> maximum" "length hd0 \<le> PDF_SIGNATURE_LENGTH"
  shows "sw_data w' = sw_data w @ concat chunks \<and> n' = n + length (concat chunks) \<and> int n' \<le> maximum
    \<and> hd' = take PDF_SIGNATURE_LENGTH (hd0 @ concat chunks) \<and> ending = None"
  using assms(1,3,4)
proof (induction chunks arbitrary: k n hd0 w st)
  case Nil
  then show ?case by (auto simp: staged_result_def split: option.splits)
next
  case (Cons chunk chunks)
  show ?case
  proof (cases "chunk = []")
    case False
    let ?hd = "if length hd0 < PDF_SIGNATURE_LENGTH then hd0 @ take (PDF_SIGNATURE_LENGTH - length hd0) chunk else hd0"
    have hd: "?hd = take PDF_SIGNATURE_LENGTH (hd0 @ chunk)" using Cons.prems(3) by simp
    from Cons.prems(1) False obtain a w1 st1 where fits: "int (n + length chunk) \<le> maximum"
      and wr: "writer_write (d_write_io io k) (Inr ()) chunk (w, st) = (Inr a, (w1, st1))"
      and rest: "store_chunks io maximum ending (Suc k) (n + length chunk) ?hd chunks (w1, st1) = (Inr (Inr (n', hd')), (w', st'))"
      by (auto simp: body_bind_Inr run_storage_Inr staged_result_def split: if_splits)
    have "sw_data w1 = sw_data w @ chunk" using writer_write_data [OF wr] assms(2) by (auto simp: writes_whole_def)
    with Cons.IH [OF rest [unfolded hd] fits] take_take_append [of PDF_SIGNATURE_LENGTH "hd0 @ chunk" "concat chunks"]
    show ?thesis by (auto simp del: take_append)
  qed (use Cons in simp)
qed

definition fresh :: "pydatetime \<Rightarrow> ScanResult \<Rightarrow> bool" where
  "fresh now r =
     (\<exists>v u. now = Aware v \<and> signatures_updated_at r = Aware u \<and> u \<le> v + MAX_FUTURE_SIGNATURE_SKEW \<and> v - u \<le> MAX_SIGNATURE_AGE)"

lemma validate_clean_Inr:
  "validate_clean_scan_result node expected r now = Inr u \<Longrightarrow>
   sha256_path node = Inr expected \<and> scanned_sha256 r = expected \<and> verdict r = CLEAN \<and> fresh now r"
  by (auto simp: validate_clean_scan_result_def fresh_def split: pydatetime.splits option.splits if_splits sum.splits)

definition scanned_clean :: "download_io \<Rightarrow> DocumentDownloader \<Rightarrow> pystr \<Rightarrow> bool" where
  "scanned_clean io D sha =
     (\<forall>scanner. dl_scanner D = Some scanner \<longrightarrow>
        (\<exists>node d r. scanner node sha d = Inr r \<and> sha256_path node = Inr sha \<and> scanned_sha256 r = sha \<and> verdict r = CLEAN
           \<and> fresh (d_scan_now io) r))"

lemma scan_staged_Inr:
  assumes "scan_staged io D (w, st) = (Inr (Inr u), wst')"
  shows "wst' = (w, st) \<and> scanned_clean io D (hexdigest (sha256 (sw_data w)))"
proof (cases "dl_scanner D")
  case (Some sc)
  then obtain path expected where p: "prepare_for_scan (d_stage_io io) (Inr ()) w = Inr (path, expected)"
    "run_scan io D sc (fs_lookup path (fs_root st)) expected = Inr ()" "wst' = (w, st)"
    using assms
    by (auto simp: scan_staged_def staged_result_def scan_failure_def not_clean_def split: sum.splits prod.splits scan_exc.splits pyexc.splits)
  have "expected = hexdigest (sha256 (sw_data w))"
    using p(1) snapshot_digest by (auto simp: prepare_for_scan_def rbind_eq_Inr)
  moreover obtain d r where "sc (fs_lookup path (fs_root st)) expected d = Inr r"
    "validate_clean_scan_result (fs_lookup path (fs_root st)) expected r (d_scan_now io) = Inr ()"
    using p(2) by (auto simp: run_scan_def rbind_eq_Inr split: sum.splits)
  ultimately show ?thesis using p(3) Some validate_clean_Inr [of "fs_lookup path (fs_root st)" expected r]
    by (auto simp: scanned_clean_def)
qed (use assms in \<open>auto simp: scan_staged_def staged_result_def scanned_clean_def\<close>)

lemma commit_artifact:
  assumes "writer_commit io guard lower ns fn mt (w, st) = (Inr a, wst')"
  shows "artifact_sha256 a = hexdigest (sha256 (sw_data w)) \<and> artifact_size a = int (length (sw_data w))
    \<and> artifact_path a = [ns, document_object_id ns (artifact_sha256 a), fn]"
proof -
  obtain sn st' where sn: "writer_snapshot io guard w = Inr sn" "commit_staged_file io lower (sw_name w) ns fn mt sn st = (Inr a, st')"
    using assms by (auto simp: writer_commit_def split: if_splits sum.splits prod.splits)
  have v: "validate_namespace x = Inr y \<Longrightarrow> y = x" "validate_filename x = Inr y \<Longrightarrow> y = x" for x y
    by (auto simp: validate_namespace_def validate_filename_def split: if_splits)
  show ?thesis using sn(2) snapshot_digest [OF sn(1)]
    by (auto simp: commit_staged_file_def Let_def rbind_eq_Inr dest!: v split: sum.splits prod.splits)
qed

definition stored_pdf :: "download_io \<Rightarrow> DocumentDownloader \<Rightarrow> http_response \<Rightarrow> DownloadResult \<Rightarrow> bool" where
  "stored_pdf io D r res =
     (let data = concat (rs_chunks r); sha = hexdigest (sha256 data)
      in starts_with PDF_MAGIC data \<and> int (length data) \<le> dl_max_bytes D \<and> rs_end r = None
         \<and> dr_bytes_downloaded res = length data \<and> artifact_size (dr_artifact res) = int (length data)
         \<and> artifact_sha256 (dr_artifact res) = sha
         \<and> artifact_path (dr_artifact res) = [codes ''documents'', document_object_id (codes ''documents'') sha, codes ''source.pdf'']
         \<and> scanned_clean io D sha)"

lemma stage_empty: "stage io guard sfx st = (Inr w, st') \<Longrightarrow> sw_data w = []"
  by (auto simp: stage_def raised_def Let_def split: sum.splits if_splits)

lemma with_staged_Inr:
  "with_staged io sfx body st = (Inr v, st') \<Longrightarrow> \<exists>w st1 wst2. sw_data w = [] \<and> body (w, st1) = (Inr v, wst2)"
  by (auto simp: with_staged_def dest: stage_empty split: sum.splits prod.splits)

lemma store_response_Inr:
  assumes "store_response L io D b url r st = (Inr res, st')" "writes_whole io" "0 \<le> dl_max_bytes D"
  shows "stored_pdf io D r res \<and> dr_source_url res = url \<and> dr_bitstream_id res = bitstream_id b"
proof -
  obtain w st1 wst2 where b: "sw_data w = []" "store_body L io D b url r (w, st1) = (Inr (Inr res), wst2)"
    using assms(1) by (auto simp: store_response_def dest!: with_staged_Inr split: sum.splits prod.splits)
  then obtain n hd0 w1 st2 w2 st3 a wst4 where
    c: "store_chunks io (dl_max_bytes D) (rs_end r) 0 0 [] (rs_chunks r) (w, st1) = (Inr (Inr (n, hd0)), (w1, st2))"
    and sig: "n \<noteq> 0" "starts_with PDF_MAGIC hd0" and sc: "scan_staged io D (w1, st2) = (Inr (Inr ()), (w2, st3))"
    and cm: "writer_commit (d_stage_io io) (Inr ()) (str_lower L) (codes ''documents'') (codes ''source.pdf'') (codes ''application/pdf'') (w2, st3)
      = (Inr a, wst4)"
    and res: "res = \<lparr>dr_artifact = a, dr_bitstream_id = bitstream_id b, dr_source_url = url, dr_bytes_downloaded = n\<rparr>"
    by (auto simp: store_body_def body_bind_Inr run_storage_Inr staged_result_def split: if_splits simp del: codes_simps)
  note ch = store_chunks_Inr [OF c assms(2)]
  have d: "sw_data w1 = concat (rs_chunks r)" "n = length (concat (rs_chunks r))" "int n \<le> dl_max_bytes D"
    "hd0 = take PDF_SIGNATURE_LENGTH (concat (rs_chunks r))" "rs_end r = None"
    using ch assms(3) b(1) by simp_all
  have "starts_with PDF_MAGIC (concat (rs_chunks r))"
    using sig(2) d(4) by (simp add: starts_with_def PDF_MAGIC_def PDF_SIGNATURE_LENGTH_def min_def)
  with d commit_artifact [OF cm] scan_staged_Inr [OF sc] res show ?thesis
    by (auto simp: stored_pdf_def Let_def simp del: codes_simps)
qed

section \<open>What a download asks for\<close>

definition bound_url :: "library \<Rightarrow> Bitstream \<Rightarrow> pystr \<Rightarrow> bool" where
  "bound_url L b url =
     (validate_upstream_url L url = Inr url
      \<and> (\<exists>handle. parse_handle_input L (bs_handle b) = Inr handle \<and> bound_path L handle url = Inr True))"

lemma validate_upstream_same: "validate_upstream_url L url = Inr r \<Longrightarrow> r = url"
  by (auto simp: validate_upstream_url_def invalid_url_def rbind_eq_Inr split: if_splits)

lemma preflight_bound:
  "preflight_bitstream L D b = Inr url \<Longrightarrow> bound_url L b url \<and> access_status b = codes ''public''"
  by (auto simp: preflight_bitstream_def validate_bitstream_def bound_url_def rbind_eq_Inr
      dest: validate_upstream_same split: if_splits option.splits simp del: codes_simps)

lemma redirect_bound: "download_redirect L D b current k r = Inr (Some url) \<Longrightarrow> bound_url L b url \<and> int k < dl_max_redirects D"
  by (auto simp: download_redirect_def redirect_location_def bound_url_def rbind_eq_Inr
      dest: validate_upstream_same split: if_splits option.splits simp del: codes_simps)

lemma download_within_Inr:
  assumes "download_within_deadline L digit aio dio D b d s = (Inr res, s')" "0 \<le> dl_max_bytes D"
    and "\<forall>k. writes_whole (dio k)"
  shows "access_status b = codes ''public'' \<and> bound_url L b (dr_source_url res) \<and> dr_bitstream_id res = bitstream_id b
    \<and> (\<exists>k r. int k \<le> dl_max_redirects D \<and> at_answer (aio k) = Inr r \<and> 200 \<le> rs_status r \<and> rs_status r < 300
         \<and> stored_pdf (dio k) D r res)"
proof -
  let ?step = "\<lambda>k current. attempt (aio k) (dl_validate_dns D) d (download_redirect L D b current k) download_messages
                           (accept_download L digit (dio k) D b current)"
  obtain url where u: "preflight_bitstream L D b = Inr url"
    "redirect_loop ?step 0 (nat (dl_max_redirects D + 1)) url s = (Inr res, s')"
    using assms(1) by (auto simp: download_within_deadline_def split: sum.splits)
  note p = preflight_bound [OF u(1)]
  have g: "bound_url L b t" if "?step k current s1 = (Inr (Inl t), s2)" for k current s1 s2 t
    using attempt_Inr [OF that] redirect_bound by blast
  obtain k last_url s1 where l: "k < nat (dl_max_redirects D + 1)" "bound_url L b last_url" "?step k last_url s1 = (Inr (Inr res), s')"
    using redirect_loop_Inr [OF u(2), of "bound_url L b"] p g by auto
  obtain r where r: "at_answer (aio k) = Inr r" "200 \<le> rs_status r" "rs_status r < 300"
    "accept_download L digit (dio k) D b last_url r (us_extra s1) = (Inr res, us_extra s')"
    using attempt_Inr [OF l(3)] by auto
  then have "store_response L (dio k) D b last_url r (us_extra s1) = (Inr res, us_extra s')"
    by (auto simp: accept_download_def split: sum.splits)
  note sr = store_response_Inr [OF this _ assms(2)]
  have "int k \<le> dl_max_redirects D" using l(1) by linarith
  with sr assms(3) l(2) r(1-3) p show ?thesis by blast
qed

lemma leave_publication_Inr: "leave_publication i m s = (Inr a, s') \<Longrightarrow> \<exists>s1. m s = (Inr a, s1)"
  by (cases "m s") (auto simp: leave_publication_def split: sum.splits prod.splits)

lemma reserved_download_Inr:
  assumes "reserved_download sx cx D m s = (Inr res, s')"
  shows "\<exists>s1 s2. m s1 = (Inr res, s2)"
proof (cases "dl_retention D")
  case (Some pc)
  with assms obtain i s1 s2 where "leave_publication i (obind m (\<lambda>result.
      obind (on_store (reservation_commit cx i (PInt (artifact_size (dr_artifact result))) (PInt 1) (PInt DOCUMENT_PUBLICATION_INODES)))
        (\<lambda>_. up_return result))) s1 = (Inr res, s2)"
    by (cases pc) (auto simp: reserved_download_def obind_Inr)
  from leave_publication_Inr [OF this] show ?thesis by (auto simp: obind_Inr up_return_def)
qed (use assms in \<open>auto simp: reserved_download_def\<close>)

section \<open>Nothing is left behind\<close>

lemma well_behaved_body_bind:
  "well_behaved m \<Longrightarrow> (\<And>a. well_behaved (f a)) \<Longrightarrow> well_behaved (body_bind m f)"
  unfolding body_bind_def by (rule well_behaved_bind) (auto split: sum.splits simp: staged_result_def well_behaved_def)

lemma well_behaved_body:
  "well_behaved (staged_result r)" "well_behaved m \<Longrightarrow> well_behaved (run_storage busy m)" "well_behaved (scan_staged io D)"
  by (auto simp: well_behaved_def staged_result_def run_storage_def body_call_def scan_staged_def split: sum.splits prod.splits option.splits)
    (metis snd_conv fst_conv)+

lemma well_behaved_chunks: "well_behaved (store_chunks io maximum ending k n hd0 chunks)"
  by (induction chunks arbitrary: k n hd0)
    (auto intro!: well_behaved_body well_behaved_body_bind well_behaved_calls)

lemma well_behaved_store: "well_behaved (store_body L io D b url r)"
  unfolding store_body_def
  by (intro well_behaved_body_bind well_behaved_chunks) (auto intro!: well_behaved_body well_behaved_body_bind well_behaved_calls)

text \<open>The store a download starts from: the quota is respected and the names it may stage under are unused.\<close>

definition staging_ready :: "(nat \<Rightarrow> download_io) \<Rightarrow> (pystr \<times> int) list \<Rightarrow> Store \<Rightarrow> bool" where
  "staging_ready dio R st =
     (quota_inv st \<and> staging_reservations st = R
      \<and> (\<forall>k. map_of R (codes ''stage-'' @ hexdigest (fresh_bytes (d_stage_io (dio k))) @ codes ''.pdf'') = None))"

lemma accept_download_ready:
  "staging_ready dio R st \<Longrightarrow> staging_ready dio R (snd (accept_download L digit (dio k) D b current r st))"
  using with_staged_balanced [of st "d_stage_io (dio k)" "codes ''.pdf''", OF _ _ well_behaved_store [of L "dio k" D b current r]]
  by (auto simp: staging_ready_def accept_download_def store_response_def split: sum.splits prod.splits simp del: codes_simps)

interpretation dl: response_handler "accept_download L digit (dio k) D b" "staging_ready dio R" for L digit dio k D b R
  by unfold_locales (rule accept_download_ready)

lemma download_keeps_ready:
  assumes "staging_ready dio R (us_extra s)"
  shows "staging_ready dio R (us_extra (snd (download_within_deadline L digit aio dio D b d s)))"
proof -
  let ?step = "\<lambda>k current. attempt (aio k) (dl_validate_dns D) d (download_redirect L D b current k) download_messages
                           (accept_download L digit (dio k) D b current)"
  have "dl.keeps dio R (redirect_loop ?step 0 n url)" for n url by (rule dl.keeps_loop) (rule dl.keeps_attempt)
  then show ?thesis using assms
    by (auto simp: download_within_deadline_def dl.keeps_def split: sum.splits)
qed

section \<open>An example\<close>

definition example_bitstream :: Bitstream where
  "example_bitstream =
     \<lparr>bitstream_id = codes ''1'', bs_handle = codes ''1234/5'', bs_filename = codes ''a.pdf'',
      bs_source_url = codes ''https://dspace.nplg.gov.ge/bitstream/1234/5/a.pdf'', reported_size = Some 8, reported_format = None,
      bs_description = None, access_status = codes ''public''\<rparr>"

definition example_verdict :: "pystr \<Rightarrow> ScanResult" where
  "example_verdict sha =
     \<lparr>verdict = CLEAN, scanned_sha256 = sha, engine_version = codes ''1'', signature_version = codes ''2'', signatures_updated_at = Aware 0\<rparr>"

definition example_downloader :: DocumentDownloader where
  "example_downloader =
     \<lparr>dl_max_bytes = 100, dl_validate_dns = False, dl_max_redirects = 1, dl_total_timeout = Fin 30,
      dl_scanner = Some (\<lambda>node expected d. Inr (example_verdict expected)), dl_retention = None\<rparr>"

definition example_pdf :: bytes where "example_pdf = codes ''%PDF-1.7''"

definition example_response :: http_response where
  "example_response = \<lparr>rs_status = 200, rs_headers = Map.empty, rs_charset = None, rs_chunks = [example_pdf], rs_end = None\<rparr>"

definition example_attempt :: attempt_io where
  "example_attempt =
     \<lparr>at_clock = PFloat (Fin 1), at_observer = NoObserver, at_dns = DnsApproved, at_paced = (Fin 1, Fin 1), at_now = PFloat (Fin 2),
      at_answer = Inr example_response, at_record_clock = PFloat (Fin 3), at_random = PFloat (Fin 0)\<rparr>"

definition example_download_io :: download_io where
  "example_download_io =
     (let io = (example_stage_io example_pdf)\<lparr>fresh_bytes := [205]\<rparr>
      in \<lparr>d_write_io = (\<lambda>_. io), d_write_busy = (\<lambda>_. False), d_stage_io = io, d_commit_busy = False,
          d_scan_clock = PFloat (Fin 2), d_scan_now = Aware 0\<rparr>)"

definition example_digit :: "nat \<Rightarrow> nat option" where
  "example_digit c = (if is_digit c then Some (c - 48) else None)"

definition example_upstream :: "Store upstream" where
  "example_upstream = \<lparr>us_guard = (guard_init None, []), us_limiter = None, us_extra = example_staging_store\<rparr>"

text \<open>The store once the response is staged.\<close>

definition example_staged_store :: Store where
  "example_staged_store = example_staging_store
     \<lparr>fs_root := Directory (example_stat 448 0)
        [(codes ''documents'', Directory (example_stat 448 0) []),
         (codes ''renders'', Directory (example_stat 448 0) [(example_render, example_object 5 [9, 9])]),
         (codes ''.staging'', Directory ((example_stat 448 0)\<lparr>st_mtime_ns := 106000000000, st_ctime_ns := 106000000000\<rparr>)
            [(codes ''stage-ab'', RegularFile (example_stat 384 0) [1, 2, 3]),
             (codes ''stage-cd.pdf'', RegularFile (example_stat 384 0) example_pdf)])],
      reserved_bytes := 11, staging_reservations := [(codes ''stage-ab'', 3), (codes ''stage-cd.pdf'', 8)]\<rparr>"

definition example_pdf_writer :: StagedWriter where
  "example_pdf_writer = \<lparr>sw_name = codes ''stage-cd.pdf'', sw_open = True, sw_data = example_pdf\<rparr>"

lemmas example_download_defs = example_staging_store_def example_store_def example_stage_io_def example_store_io_def example_stat_def
  example_download_io_def example_staged_store_def example_pdf_writer_def staged_path_def STAGING_DIR_def store_put_def directory_at_def
  verify_store_root_identity_def Let_def dict_put_def

lemma example_staging:
  "\<exists>w st. stage (d_stage_io example_download_io) (Inr ()) (codes ''.pdf'') example_staging_store = (Inr w, st)
     \<and> store_chunks example_download_io 100 None 0 0 [] [example_pdf] (w, st)
         = (Inr (Inr (8, example_pdf)), (example_pdf_writer, example_staged_store))"
  by (simp add: stage_def example_download_defs hexdigest_def hex_digit_def owned_with_mode_def SLASH_def PRIVATE_FILE_MODE_def
      body_bind_def run_storage_def body_call_def obind_def writer_write_def reserve_staging_bytes_def release_staging_bytes_def
      set_staging_def append_staged_def staged_result_def PDF_SIGNATURE_LENGTH_def example_pdf_def)

lemma example_pdf_snapshot:
  "writer_snapshot (d_stage_io example_download_io) (Inr ()) example_pdf_writer
   = Inr \<lparr>sn_sha256 = hexdigest (sha256 example_pdf), sn_size = 8, sn_device = 1, sn_inode = 1, sn_mtime_ns = 0, sn_ctime_ns = 0\<rparr>"
proof -
  have "length example_pdf = 8" by code_simp
  then show ?thesis by (simp add: writer_snapshot_def example_download_defs fingerprint_def)
qed

lemma example_scan: "scan_staged example_download_io example_downloader (example_pdf_writer, example_staged_store)
   = (Inr (Inr ()), (example_pdf_writer, example_staged_store))"
proof -
  have d: "deadline_after (PFloat (fmin (dl_total_timeout example_downloader) (Fin 60))) (d_scan_clock example_download_io)
       = Inr \<lparr>created_at = Fin 2, expires_at = Fin 32\<rparr>" by code_simp
  have l: "fs_lookup (staged_path (codes ''stage-cd.pdf'')) (fs_root example_staged_store) = Some (RegularFile (example_stat 384 0) example_pdf)"
    by (simp add: example_staged_store_def staged_path_def STAGING_DIR_def)
  have p: "prepare_for_scan (d_stage_io example_download_io) (Inr ()) example_pdf_writer
      = Inr (staged_path (codes ''stage-cd.pdf''), hexdigest (sha256 example_pdf))"
    by (simp add: prepare_for_scan_def example_pdf_snapshot) (simp add: example_download_defs)
  have "run_scan example_download_io example_downloader (\<lambda>node expected d. Inr (example_verdict expected))
      (Some (RegularFile (example_stat 384 0) example_pdf)) (hexdigest (sha256 example_pdf)) = Inr ()"
    by (simp add: run_scan_def d) (simp add: validate_clean_scan_result_def example_download_io_def Let_def example_verdict_def
        example_stat_def sha256_path_def DATETIME_MAX_def MAX_FUTURE_SIGNATURE_SKEW_def MAX_SIGNATURE_AGE_def MICROSECONDS_def)
  with p l show ?thesis
    by (simp add: scan_staged_def example_downloader_def staged_result_def)
qed

lemma example_pdf_commit:
  "\<exists>a wst'. writer_commit (d_stage_io example_download_io) (Inr ()) (str_lower ascii_library) (codes ''documents'') (codes ''source.pdf'')
     (codes ''application/pdf'') (example_pdf_writer, example_staged_store) = (Inr a, wst')"
proof -
  define h where "h = hexdigest (sha256 example_pdf)"
  have v: "validate_namespace (codes ''documents'') = Inr (codes ''documents'')"
    "validate_filename (codes ''source.pdf'') = Inr (codes ''source.pdf'')"
    "validate_media_type (str_lower ascii_library) (codes ''application/pdf'') = Inr (codes ''application/pdf'')" "length example_pdf = 8"
    by code_simp+
  have "\<exists>a st'. commit_staged_file (d_stage_io example_download_io) (str_lower ascii_library) (codes ''stage-cd.pdf'') (codes ''documents'')
      (codes ''source.pdf'') (codes ''application/pdf'')
      \<lparr>sn_sha256 = h, sn_size = 8, sn_device = 1, sn_inode = 1, sn_mtime_ns = 0, sn_ctime_ns = 0\<rparr> example_staged_store = (Inr a, st')"
    by (simp add: commit_staged_file_def v example_download_defs document_object_id_def ensure_private_directory_path_def
        validate_staged_identity_def staged_identity_ok_def reconcile_staged_size_locked_def follow_def
        publish_new_document_locked_def ensure_insertion_sequence_def replace_path_def published_node_def published_identity_ok_def
        release_staged_reservation_locked_def ALLOWED_NAMESPACES_def dict_get_def dict_del_def del: codes_simps One_nat_def)
  then show ?thesis using example_pdf_snapshot by (auto simp: writer_commit_def h_def example_pdf_writer_def)
qed

lemma example_accept:
  "\<exists>res st'. accept_download ascii_library example_digit example_download_io example_downloader example_bitstream url example_response
     example_staging_store = (Inr res, st')"
proof -
  obtain w st where w: "stage (d_stage_io example_download_io) (Inr ()) (codes ''.pdf'') example_staging_store = (Inr w, st)"
    "store_chunks example_download_io 100 None 0 0 [] [example_pdf] (w, st)
       = (Inr (Inr (8, example_pdf)), (example_pdf_writer, example_staged_store))"
    using example_staging by blast
  obtain a w' st' where c: "writer_commit (d_stage_io example_download_io) (Inr ()) (str_lower ascii_library) (codes ''documents'')
     (codes ''source.pdf'') (codes ''application/pdf'') (example_pdf_writer, example_staged_store) = (Inr a, (w', st'))"
    using example_pdf_commit by auto
  have f: "validate_response_headers ascii_library example_digit example_downloader example_response = Inr ()"
    "starts_with PDF_MAGIC example_pdf" "dl_max_bytes example_downloader = 100" "\<not> d_commit_busy example_download_io"
    by code_simp+
  have r: "rs_chunks example_response = [example_pdf]" "rs_end example_response = None" by (simp_all add: example_response_def)
  have "\<exists>res. store_body ascii_library example_download_io example_downloader example_bitstream url example_response (w, st)
      = (Inr (Inr res), (w', st'))"
    using w(2) f(2-4) example_scan c by (auto simp: store_body_def body_bind_Inr run_storage_Inr staged_result_def r simp del: codes_simps)
  moreover have "\<exists>wst. writer_exit (d_stage_io example_download_io) (Inr ()) (w', st') = (Inr (), wst)"
    by (simp add: writer_exit_def discard_staged_file_def) (simp add: example_download_defs)
  ultimately have "\<exists>res st2. with_staged (d_stage_io example_download_io) (codes ''.pdf'')
      (store_body ascii_library example_download_io example_downloader example_bitstream url example_response) example_staging_store
      = (Inr (Inr res), st2)"
    using w(1) by (auto simp: with_staged_def simp del: codes_simps)
  then show ?thesis using f(1) by (auto simp: accept_download_def store_response_def)
qed

definition example_guarded :: guard_system where
  "example_guarded = snd (admit_step (PFloat (Fin 1)) NoObserver \<lparr>created_at = Fin 0, expires_at = Fin 30\<rparr> (guard_init None, []))"

lemma example_attempt_runs:
  "\<exists>res s'. attempt example_attempt False \<lparr>created_at = Fin 0, expires_at = Fin 30\<rparr>
     (download_redirect ascii_library example_downloader example_bitstream url 0) download_messages
     (accept_download ascii_library example_digit example_download_io example_downloader example_bitstream url) example_upstream
   = (Inr (Inr res), s')"
proof -
  have g: "is_ok (fst (admit_step (PFloat (Fin 1)) NoObserver \<lparr>created_at = Fin 0, expires_at = Fin 30\<rparr> (guard_init None, [])))"
    "length (snd example_guarded) = 1"
    "case deadline_remaining (permit_deadline (snd example_guarded ! 0)) (PFloat (Fin 2)) of Inr t \<Rightarrow> \<not> fle t (Fin 0) | _ \<Rightarrow> False"
    "is_ok (fst (permit_record (PFloat (Fin 3)) (PFloat (Fin 0)) NoObserver Success 0 example_guarded))"
    "finalized (snd (snd (permit_record (PFloat (Fin 3)) (PFloat (Fin 0)) NoObserver Success 0 example_guarded)) ! 0)"
    by code_simp+
  obtain u where ad: "admit_step (PFloat (Fin 1)) NoObserver \<lparr>created_at = Fin 0, expires_at = Fin 30\<rparr> (guard_init None, []) = (Inr u, example_guarded)"
    using g(1) by (auto simp: example_guarded_def is_ok_iff prod_eq_iff)
  obtain u2 g2 where rec: "permit_record (PFloat (Fin 3)) (PFloat (Fin 0)) NoObserver Success 0 example_guarded = (Inr u2, g2)" "finalized (snd g2 ! 0)"
    using g(4,5) by (metis is_ok_iff prod.collapse)
  obtain t where t: "deadline_remaining (permit_deadline (snd example_guarded ! 0)) (PFloat (Fin 2)) = Inr t" "\<not> fle t (Fin 0)"
    using g(3) by (auto split: sum.splits)
  obtain res st' where acc: "accept_download ascii_library example_digit example_download_io example_downloader example_bitstream url
      example_response example_staging_store = (Inr res, st')"
    using example_accept by blast
  show ?thesis
    using ad rec t acc g(2)
    by (simp add: attempt_def leave_permit_def attempt_body_def transport_handler_def handle_response_def obind_def admit_dependencies_def
        ensure_dns_def pace_def up_lift_def up_def up_record_def up_return_def on_extra_def example_attempt_def example_upstream_def
        download_redirect_def redirect_location_def example_response_def REDIRECT_STATUSES_def status_outcome_def
        validate_response_status_def permit_exit_def Let_def)
qed

lemma example_download:
  "\<exists>res s'. download_within_deadline ascii_library example_digit (\<lambda>_. example_attempt) (\<lambda>_. example_download_io) example_downloader
     example_bitstream \<lparr>created_at = Fin 0, expires_at = Fin 30\<rparr> example_upstream = (Inr res, s')"
proof -
  have p: "preflight_bitstream ascii_library example_downloader example_bitstream = Inr (bs_source_url example_bitstream)"
    "nat (dl_max_redirects example_downloader + 1) = Suc 1" "dl_validate_dns example_downloader = False" by code_simp+
  obtain res s' where "attempt example_attempt False \<lparr>created_at = Fin 0, expires_at = Fin 30\<rparr>
     (download_redirect ascii_library example_downloader example_bitstream (bs_source_url example_bitstream) 0) download_messages
     (accept_download ascii_library example_digit example_download_io example_downloader example_bitstream (bs_source_url example_bitstream))
     example_upstream = (Inr (Inr res), s')"
    using example_attempt_runs by blast
  with p show ?thesis by (simp add: download_within_deadline_def)
qed

section \<open>Properties\<close>

text \<open>
  C21. What a download publishes. When a download returns, the bitstream was public, the URL it was fetched from is an accepted
  NPLG URL under the item's own handle, reached through at most the configured number of redirects, and answered with a
  success status. The committed document is exactly the body of that response: a PDF signature, at most the configured
  bytes, named by its SHA-256 digest; and when a scanner is configured it returned, for this digest and these staged
  bytes, a clean verdict with fresh signatures.
\<close>

theorem downloads_are_bound_clean_pdfs:
  assumes "download L digit aio dio sx cx clock fired D b s = (Inr res, s')" "0 < dl_max_bytes D"
    and "\<forall>k. writes_whole (dio k)"
  shows "access_status b = codes ''public'' \<and> bound_url L b (dr_source_url res) \<and> dr_bitstream_id res = bitstream_id b
    \<and> (\<exists>k r. int k \<le> dl_max_redirects D \<and> at_answer (aio k) = Inr r \<and> 200 \<le> rs_status r \<and> rs_status r < 300
         \<and> stored_pdf (dio k) D r res)"
proof -
  obtain d where "reserved_download sx cx D (timeout_context fired (download_within_deadline L digit aio dio D b d)) s = (Inr res, s')"
    using assms(1) by (auto simp: download_def split: sum.splits prod.splits)
  then obtain s1 s2 where "timeout_context fired (download_within_deadline L digit aio dio D b d) s1 = (Inr res, s2)"
    using reserved_download_Inr by blast
  then have "download_within_deadline L digit aio dio D b d s1 = (Inr res, s2)"
    by (auto simp: timeout_context_def split: sum.splits prod.splits)
  from download_within_Inr [OF this _ assms(3)] assms(2) show ?thesis by simp
qed

lemma example_writes_whole: "writes_whole example_download_io"
  by (simp add: writes_whole_def example_download_io_def example_stage_io_def Let_def)

theorem downloads_are_bound_clean_pdfs_witness:
  "\<exists>res s'. download ascii_library example_digit (\<lambda>_. example_attempt) (\<lambda>_. example_download_io) (example_store_io 0) (example_store_io 0)
      (PFloat (Fin 0)) False example_downloader example_bitstream example_upstream = (Inr res, s')
    \<and> stored_pdf example_download_io example_downloader example_response res"
proof -
  have c: "deadline_after (PFloat (fmin (dl_total_timeout example_downloader) (Fin 59))) (PFloat (Fin 0)) = Inr \<lparr>created_at = Fin 0, expires_at = Fin 30\<rparr>"
    "preflight_bitstream ascii_library example_downloader example_bitstream = Inr (bs_source_url example_bitstream)"
    by code_simp+
  obtain res s' where d: "download ascii_library example_digit (\<lambda>_. example_attempt) (\<lambda>_. example_download_io) (example_store_io 0) (example_store_io 0)
      (PFloat (Fin 0)) False example_downloader example_bitstream example_upstream = (Inr res, s')"
    using example_download c by (auto simp: download_def reserved_download_def timeout_context_def example_downloader_def [THEN arg_cong, of dl_retention])
  have "0 < dl_max_bytes example_downloader" by code_simp
  from downloads_are_bound_clean_pdfs [OF d this] example_writes_whole d show ?thesis
    by (auto simp: example_attempt_def)
qed



text \<open>
  The scan deadline asks for the whole budget of sixty seconds, and adding it to a clock just below a power of two can round up:
  here the clock reads \<open>65530 + 3 / 2 ^ 37\<close> and the deadline is refused, so the scan counts as failed.
\<close>

lemma scan_deadline_refused:
  "fl_round (9006374621020163 / 137438953472) = Fin (9006374621020163 / 137438953472)
   \<and> \<not> is_ok (deadline_after (PFloat (Fin 60)) (PFloat (Fin (9006374621020163 / 137438953472))))
   \<and> (run_scan (example_download_io\<lparr>d_scan_clock := PFloat (Fin (9006374621020163 / 137438953472))\<rparr>) (example_downloader\<lparr>dl_total_timeout := Fin 120\<rparr>)
        scanner node expected
      = Inl (ScanRaised (ValueError ''deadline budget must be between 0 and 60 seconds'')))"
proof -
  have e: "deadline_after (PFloat (Fin 60)) (PFloat (Fin (9006374621020163 / 137438953472))) = Inl (ValueError ''deadline budget must be between 0 and 60 seconds'')"
    "fmin (Fin 120) (Fin 60) = Fin 60" "fl_round (9006374621020163 / 137438953472) = Fin (9006374621020163 / 137438953472)"
    by code_simp+
  show ?thesis by (simp add: run_scan_def e)
qed

end
