(* ===== verification/Nplg_Network.thy ===== *)
theory Nplg_Network
  imports Nplg_Security Nplg_Deadline
begin

text \<open>
  Outbound connections, \<^verbatim>\<open>src/nplg_mcp/network.py\<close>: the DNS answer with its CNAME chain and lifetime, the validated endpoint, the
  connection that is bound to it, the transcript of one observed connection and the checks of the HTTP transport. The answers
  of dnspython, the IDNA codec, the parser of IP literals, the connection pool and the sockets are arguments. A name in an
  answer is its text in canonical form.
\<close>

section \<open>Errors\<close>

text \<open>
  \<open>PolicyRejected\<close> is \<open>_HttpcoreTransportPolicyError\<close>, \<open>DnsPolicyRejection\<close> the subclass of \<open>ValueError\<close>, \<open>NetOther\<close> any exception of the
  libraries, by its name.
\<close>

datatype net_exc = PolicyRejected string | DnsPolicyRejection string | CoreConnectError string | CoreConnectTimeout string
  | LocalProtocolError string | TransportPolicyError string | NetRaised pyexc | NetOther string

type_synonym 'a net = "net_exc + 'a"

definition net_res :: "'a res \<Rightarrow> 'a net" where
  "net_res r = (case r of Inl e \<Rightarrow> Inl (NetRaised e) | Inr a \<Rightarrow> Inr a)"

definition TARGET_REJECTED :: string where "TARGET_REJECTED = ''outbound connection target is not approved''"
definition EMPTY_ADDRESS_SET :: string where "EMPTY_ADDRESS_SET = ''approved address set is empty''"
definition PEER_REJECTED :: string where "PEER_REJECTED = ''connected peer is not approved''"
definition UNIX_REJECTED :: string where "UNIX_REJECTED = ''Unix sockets are not permitted''"
definition ORIGIN_REJECTED :: string where "ORIGIN_REJECTED = ''outbound request origin is not approved''"
definition SNI_REJECTED :: string where "SNI_REJECTED = ''request-controlled SNI override is not permitted''"
definition HOST_REJECTED :: string where "HOST_REJECTED = ''outbound request Host header is not approved''"
definition DNS_CAPACITY_EXHAUSTED :: string where "DNS_CAPACITY_EXHAUSTED = ''DNS resolver capacity is exhausted''"
definition DNS_LOOKUP_FAILED :: string where "DNS_LOOKUP_FAILED = ''DNS resolution failed''"
definition DNS_POLICY_REJECTED :: string where "DNS_POLICY_REJECTED = ''DNS answer rejected by outbound policy''"
definition GENERIC_POLICY_REJECTION :: string where
  "GENERIC_POLICY_REJECTION = ''Outbound transport policy rejected the request.''"

definition POLICY_MESSAGES :: "string list" where
  "POLICY_MESSAGES =
     [TARGET_REJECTED, EMPTY_ADDRESS_SET, PEER_REJECTED, UNIX_REJECTED, ORIGIN_REJECTED, SNI_REJECTED, HOST_REJECTED, DNS_POLICY_REJECTED]"

definition transport_policy_error :: "string \<Rightarrow> net_exc" where
  "transport_policy_error internal_message =
     TransportPolicyError (if internal_message \<in> set POLICY_MESSAGES then internal_message else GENERIC_POLICY_REJECTION)"

section \<open>Endpoints\<close>

record ResolvedEndpoint =
  ep_hostname :: pystr
  ep_port :: int
  ep_addresses :: "ip_address list"
  ep_validity :: MonotonicDeadline

definition MAX_PORT :: int where "MAX_PORT = 65535"
definition HTTPS_PORT :: int where "HTTPS_PORT = 443"
definition MAX_NETWORK_TIMEOUT_SECONDS :: pyfloat where "MAX_NETWORK_TIMEOUT_SECONDS = Fin 60"

fun check_addresses :: "ip_address list \<Rightarrow> ip_address list \<Rightarrow> unit res" where
  "check_addresses seen [] = Inr ()"
| "check_addresses seen (a # as) =
     (if a \<in> set seen \<or> is_forbidden_address a then Inl (ValueError ''endpoint address set is duplicate or non-public'')
      else check_addresses (a # seen) as)"

definition endpoint_new :: "library \<Rightarrow> ResolvedEndpoint \<Rightarrow> ResolvedEndpoint res" where
  "endpoint_new L e =
     (let h = ep_hostname e
      in if h = [] \<or> h \<noteq> str_lower L h \<or> last h = 46 then Inl (ValueError ''endpoint hostname is not canonical'')
         else if \<not> ascii h then Inl (ValueError ''endpoint hostname is not canonical ASCII'')
         else if \<not> (1 \<le> ep_port e \<and> ep_port e \<le> MAX_PORT) then Inl (ValueError ''endpoint port is invalid'')
         else if ep_addresses e = [] then Inl (ValueError ''endpoint address set is empty or mutable'')
         else rbind (check_addresses [] (ep_addresses e)) (\<lambda>_. Inr e))"

text \<open>\<open>str.removesuffix(".")\<close>.\<close>

definition remove_dot :: "pystr \<Rightarrow> pystr" where
  "remove_dot h = (if h \<noteq> [] \<and> last h = 46 then butlast h else h)"

fun parse_answers :: "(pystr \<Rightarrow> ip_address option) \<Rightarrow> ip_address list \<Rightarrow> pystr list \<Rightarrow> ip_address list net" where
  "parse_answers parse parsed [] = Inr parsed"
| "parse_answers parse parsed (raw # answers) =
     (if raw = [] \<or> 37 \<in> set raw then Inl (DnsPolicyRejection ''resolver address is invalid'')
      else case parse raw of
        None \<Rightarrow> Inl (NetRaised (ValueError ''resolver address is invalid''))
      | Some a \<Rightarrow>
          if raw \<noteq> ip_text a \<or> is_forbidden_address a
          then Inl (DnsPolicyRejection ''resolver address is noncanonical or non-public'')
          else parse_answers parse (if a \<in> set parsed then parsed else parsed @ [a]) answers)"

definition create_resolved_endpoint ::
  "library \<Rightarrow> (pystr \<Rightarrow> pystr option) \<Rightarrow> (pystr \<Rightarrow> ip_address option) \<Rightarrow> pystr \<Rightarrow> int \<Rightarrow> pystr list \<Rightarrow> pyfloat \<Rightarrow> pyobj \<Rightarrow> ResolvedEndpoint net" where
  "create_resolved_endpoint L idna parse hostname_text port_number addresses ttl_seconds clock =
     (if hostname_text = [] then Inl (NetRaised (ValueError ''endpoint hostname is invalid''))
      else case idna hostname_text of
        None \<Rightarrow> Inl (NetRaised (ValueError ''endpoint hostname is invalid''))
      | Some encoded \<Rightarrow>
          if \<not> (1 \<le> port_number \<and> port_number \<le> MAX_PORT) then Inl (NetRaised (ValueError ''endpoint port is invalid''))
          else if \<not> isfinite ttl_seconds then Inl (NetRaised (ValueError ''resolver TTL is invalid''))
          else rbind (parse_answers parse [] addresses) (\<lambda>parsed.
            rbind (net_res (deadline_after (PFloat (fmin (Fin 60) (fmax (Fin 1) ttl_seconds))) clock)) (\<lambda>validity.
              net_res (endpoint_new L
                \<lparr>ep_hostname = remove_dot (str_lower L encoded), ep_port = port_number, ep_addresses = parsed, ep_validity = validity\<rparr>))))"

section \<open>The DNS answer\<close>

text \<open>
  An answer for one record type: its CNAME record sets with their owner and the texts of their records, the canonical name
  the library followed it to, the texts of the address records, if there are any, and the least TTL on the way.
\<close>

record dns_answer =
  an_cnames :: "(pystr \<times> pystr list) list"
  an_canonical :: pystr
  an_records :: "pystr list option"
  an_ttl :: nat

fun cname_links :: "(pystr \<Rightarrow> pystr option) \<Rightarrow> (pystr \<times> pystr) list \<Rightarrow> (pystr \<times> pystr list) list \<Rightarrow> (pystr \<times> pystr) list net" where
  "cname_links canonical links [] = Inr links"
| "cname_links canonical links ((owner, records) # rrsets) =
     (if length records \<noteq> 1 then Inl (DnsPolicyRejection ''DNS CNAME chain is ambiguous'')
      else case canonical (hd records) of
        None \<Rightarrow> Inl (NetOther ''dns.name.from_text'')
      | Some tgt \<Rightarrow>
          if owner \<in> fst ` set links then Inl (DnsPolicyRejection ''DNS CNAME chain contains duplicate owners'')
          else cname_links canonical (links @ [(owner, tgt)]) rrsets)"

text \<open>The \<open>while\<close> loop: the chain so far and the visited owners, until a name has no link.\<close>

function follow_chain :: "(pystr \<times> pystr) list \<Rightarrow> pystr list \<Rightarrow> pystr list \<Rightarrow> pystr \<Rightarrow> (pystr list \<times> pystr list \<times> pystr) net" where
  "follow_chain links visited chain current =
     (case map_of links current of
        None \<Rightarrow> Inr (visited, chain, current)
      | Some nx \<Rightarrow>
          if current \<in> set visited then Inl (DnsPolicyRejection ''DNS CNAME chain contains a cycle'')
          else follow_chain links (current # visited) (chain @ [nx]) nx)"
  by auto
termination
proof (relation "measure (\<lambda>(links, visited, chain, current). card (fst ` set links - set visited))", simp)
  fix links :: "(pystr \<times> pystr) list" and visited chain :: "pystr list" and current nx :: pystr
  assume "map_of links current = Some nx" "current \<notin> set visited"
  then have "current \<in> fst ` set links - set visited" by (auto dest!: map_of_SomeD intro: rev_image_eqI)
  then have "card (fst ` set links - set (current # visited)) < card (fst ` set links - set visited)"
    by (intro psubset_card_mono) auto
  then show "((links, current # visited, chain @ [nx], nx), links, visited, chain, current)
      \<in> measure (\<lambda>(links, visited, chain, current). card (fst ` set links - set visited))" by simp
qed

declare follow_chain.simps [simp del]

definition canonical_cname_chain :: "(pystr \<Rightarrow> pystr option) \<Rightarrow> pystr \<Rightarrow> dns_answer \<Rightarrow> pystr list net" where
  "canonical_cname_chain canonical host answer =
     rbind (cname_links canonical [] (an_cnames answer)) (\<lambda>links.
       case canonical host of
         None \<Rightarrow> Inl (NetOther ''dns.name.from_text'')
       | Some start \<Rightarrow>
           rbind (follow_chain links [] [] start) (\<lambda>(visited, chain, current).
             if length visited \<noteq> length links then Inl (DnsPolicyRejection ''DNS CNAME answer contains an unrelated chain'')
             else if current \<noteq> an_canonical answer then Inl (DnsPolicyRejection ''DNS CNAME chain changed during resolution'')
             else Inr chain))"

definition consistent_cname_chain :: "pystr list option \<Rightarrow> pystr list \<Rightarrow> pystr list net" where
  "consistent_cname_chain expected observed =
     (if expected \<noteq> None \<and> expected \<noteq> Some observed then Inl (DnsPolicyRejection ''DNS CNAME chain changed across address families'')
      else Inr observed)"

fun add_new :: "pystr list \<Rightarrow> pystr list \<Rightarrow> pystr list" where
  "add_new addresses [] = addresses"
| "add_new addresses (a # as) = add_new (if a \<in> set addresses then addresses else addresses @ [a]) as"

text \<open>The loop over the record types; a lookup is an answer or the exception the library raised.\<close>

fun resolve_types ::
  "(pystr \<Rightarrow> pystr option) \<Rightarrow> pystr \<Rightarrow> pystr list option \<Rightarrow> pystr list \<Rightarrow> pyfloat list \<Rightarrow> dns_answer net list \<Rightarrow> (pystr list \<times> pyfloat list) net" where
  "resolve_types canonical host expected addresses ttls [] = Inr (addresses, ttls)"
| "resolve_types canonical host expected addresses ttls (lookup # lookups) =
     rbind lookup (\<lambda>answer.
       rbind (canonical_cname_chain canonical host answer) (\<lambda>observed.
         rbind (consistent_cname_chain expected observed) (\<lambda>chain.
           case an_records answer of
             None \<Rightarrow> resolve_types canonical host (Some chain) addresses ttls lookups
           | Some records \<Rightarrow>
               resolve_types canonical host (Some chain) (add_new addresses records) (ttls @ [fl_round (of_nat (an_ttl answer))]) lookups)))"

text \<open>\<open>min\<close> of the lifetimes: the first least one.\<close>

fun least_ttl :: "pyfloat \<Rightarrow> pyfloat list \<Rightarrow> pyfloat" where
  "least_ttl t [] = t"
| "least_ttl t (u # us) = least_ttl (if flt u t then u else t) us"

definition resolve_addresses_with_ttl ::
  "library \<Rightarrow> (pystr \<Rightarrow> pystr option) \<Rightarrow> dns_answer net \<Rightarrow> dns_answer net \<Rightarrow> pystr \<Rightarrow> (pystr list \<times> pyfloat) net" where
  "resolve_addresses_with_ttl L canonical a aaaa host =
     (if str_lower L host \<noteq> NPLG_HOST then Inl (PolicyRejected TARGET_REJECTED)
      else case resolve_types canonical host None [] [] [a, aaaa] of
        Inl (DnsPolicyRejection _) \<Rightarrow> Inl (PolicyRejected DNS_POLICY_REJECTED)
      | Inl _ \<Rightarrow> Inl (CoreConnectError DNS_LOOKUP_FAILED)
      | Inr (addresses, ttls) \<Rightarrow>
          (case ttls of
             [] \<Rightarrow> Inl (CoreConnectError DNS_LOOKUP_FAILED)
           | t # ts \<Rightarrow> if addresses = [] then Inl (CoreConnectError DNS_LOOKUP_FAILED) else Inr (addresses, least_ttl t ts)))"

text \<open>What one resolution meets: whether the worker threads are all taken, the two lookups and the clock.\<close>

record dns_io =
  dn_busy :: bool
  dn_a :: "dns_answer net"
  dn_aaaa :: "dns_answer net"
  dn_clock :: pyobj

record dns_libraries =
  nl_library :: library
  nl_idna :: "pystr \<Rightarrow> pystr option"
  nl_parse :: "pystr \<Rightarrow> ip_address option"
  nl_canonical :: "pystr \<Rightarrow> pystr option"

definition resolve_approved_addresses_async :: "dns_libraries \<Rightarrow> dns_io \<Rightarrow> pystr \<Rightarrow> ResolvedEndpoint net" where
  "resolve_approved_addresses_async D io host =
     (if dn_busy io then Inl (CoreConnectError DNS_CAPACITY_EXHAUSTED)
      else case rbind (resolve_addresses_with_ttl (nl_library D) (nl_canonical D) (dn_a io) (dn_aaaa io) host) (\<lambda>(addresses, ttl_seconds).
                  create_resolved_endpoint (nl_library D) (nl_idna D) (nl_parse D) host HTTPS_PORT addresses ttl_seconds (dn_clock io)) of
             Inr e \<Rightarrow> Inr e
           | Inl (NetRaised (ValueError _)) \<Rightarrow> Inl (PolicyRejected DNS_POLICY_REJECTED)
           | Inl (DnsPolicyRejection _) \<Rightarrow> Inl (PolicyRejected DNS_POLICY_REJECTED)
           | Inl e \<Rightarrow> Inl e)"

section \<open>The transcript of an observed connection\<close>

record BoundNetworkObservation =
  ob_canonical_hostname :: pystr
  ob_host_header :: pystr
  ob_tls_sni_hostname :: pystr
  ob_certificate_hostname :: pystr
  ob_validated_addresses :: "ip_address list"
  ob_selected_address :: ip_address
  ob_actual_peer :: ip_address
  ob_request_count :: int

definition observation_new :: "BoundNetworkObservation \<Rightarrow> BoundNetworkObservation res" where
  "observation_new ob =
     (if list_ex (\<lambda>n. n \<noteq> NPLG_HOST) [ob_canonical_hostname ob, ob_host_header ob, ob_tls_sni_hostname ob, ob_certificate_hostname ob]
      then Inl (ValueError ''network observation hostname is invalid'')
      else if ob_validated_addresses ob = [] \<or> \<not> distinct (ob_validated_addresses ob)
              \<or> list_ex is_forbidden_address (ob_validated_addresses ob)
      then Inl (ValueError ''network observation address set is invalid'')
      else if ob_selected_address ob \<notin> set (ob_validated_addresses ob) \<or> ob_actual_peer ob \<noteq> ob_selected_address ob
              \<or> ob_request_count ob \<noteq> 1
      then Inl (ValueError ''network observation is incomplete'')
      else Inr ob)"

record BoundNetworkTranscript =
  tr_host_header :: "pystr option"
  tr_endpoint :: "ResolvedEndpoint option"
  tr_selected :: "ip_address option"
  tr_peer :: "ip_address option"
  tr_tls_sni :: "pystr option"
  tr_certificate_hostname :: "pystr option"
  tr_request_count :: int
  tr_connection_count :: int
  tr_tls_count :: int
  tr_finalized :: bool

definition transcript_init :: BoundNetworkTranscript where
  "transcript_init =
     \<lparr>tr_host_header = None, tr_endpoint = None, tr_selected = None, tr_peer = None, tr_tls_sni = None, tr_certificate_hostname = None,
      tr_request_count = 0, tr_connection_count = 0, tr_tls_count = 0, tr_finalized = False\<rparr>"

type_synonym 'a transcript_op = "(net_exc, BoundNetworkTranscript, 'a) op"

definition record_request :: "pystr \<Rightarrow> unit transcript_op" where
  "record_request host_header T =
     (let T1 = T\<lparr>tr_request_count := tr_request_count T + 1\<rparr>
      in if tr_request_count T1 \<noteq> 1 \<or> host_header \<noteq> NPLG_HOST
         then (Inl (LocalProtocolError ''observed transport request sequence is invalid''), T1)
         else (Inr (), T1\<lparr>tr_host_header := Some host_header\<rparr>))"

definition record_connection :: "(pystr \<Rightarrow> ip_address option) \<Rightarrow> ResolvedEndpoint \<Rightarrow> pystr \<Rightarrow> pystr \<Rightarrow> unit transcript_op" where
  "record_connection parse endpoint selected peer T =
     (let T1 = T\<lparr>tr_connection_count := tr_connection_count T + 1\<rparr>
      in if tr_connection_count T1 \<noteq> 1 then (Inl (CoreConnectError ''observed transport connection sequence is invalid''), T1)
         else case (parse selected, parse peer) of
           (Some selected_address, Some peer_address) \<Rightarrow>
             if selected_address \<notin> set (ep_addresses endpoint) \<or> peer_address \<noteq> selected_address
             then (Inl (CoreConnectError PEER_REJECTED), T1)
             else (Inr (), T1\<lparr>tr_endpoint := Some endpoint, tr_selected := Some selected_address, tr_peer := Some peer_address\<rparr>)
         | _ \<Rightarrow> (Inl (NetRaised (ValueError ''does not appear to be an IPv4 or IPv6 address'')), T1))"

record ssl_context =
  check_hostname :: bool
  cert_required :: bool

definition record_tls :: "ssl_context \<Rightarrow> pystr option \<Rightarrow> unit transcript_op" where
  "record_tls context server_hostname T =
     (let T1 = T\<lparr>tr_tls_count := tr_tls_count T + 1\<rparr>
      in if tr_tls_count T1 \<noteq> 1 \<or> server_hostname \<noteq> Some NPLG_HOST \<or> \<not> check_hostname context \<or> \<not> cert_required context
         then (Inl (CoreConnectError ''observed TLS identity is invalid''), T1)
         else (Inr (), T1\<lparr>tr_tls_sni := server_hostname, tr_certificate_hostname := server_hostname\<rparr>))"

definition finalize :: "BoundNetworkObservation transcript_op" where
  "finalize T =
     (if tr_finalized T then (Inl (NetRaised (RuntimeError ''network observation was already finalized'')), T)
      else (if tr_request_count T \<noteq> 1 \<or> tr_connection_count T \<noteq> 1 \<or> tr_tls_count T \<noteq> 1
            then Inl (NetRaised (RuntimeError ''network observation transcript is incomplete''))
            else case (tr_host_header T, tr_endpoint T, tr_selected T, tr_peer T, tr_tls_sni T, tr_certificate_hostname T) of
              (Some h, Some e, Some sel, Some p, Some sni, Some cert) \<Rightarrow>
                net_res (observation_new
                  \<lparr>ob_canonical_hostname = ep_hostname e, ob_host_header = h, ob_tls_sni_hostname = sni, ob_certificate_hostname = cert,
                   ob_validated_addresses = ep_addresses e, ob_selected_address = sel, ob_actual_peer = p,
                   ob_request_count = tr_request_count T\<rparr>)
            | _ \<Rightarrow> Inl (NetRaised (RuntimeError ''network observation transcript is incomplete'')),
            T\<lparr>tr_finalized := True\<rparr>))"

section \<open>Connections\<close>

text \<open>
  The state around a transport: the transcript, when it is observed, the addresses dialled with their port and timeout, and the
  numbers of open streams and pools.
\<close>

record net_state =
  ns_transcript :: "BoundNetworkTranscript option"
  ns_dials :: "(pystr \<times> int \<times> pyfloat) list"
  ns_streams :: int
  ns_pools :: int

type_synonym 'a net_op = "(net_exc, net_state, 'a) op"

definition with_transcript :: "unit transcript_op \<Rightarrow> unit net_op" where
  "with_transcript m s =
     (case ns_transcript s of
        None \<Rightarrow> (Inr (), s)
      | Some T \<Rightarrow> (case m T of (r, T1) \<Rightarrow> (r, s\<lparr>ns_transcript := Some T1\<rparr>)))"

definition network_deadline :: "pyobj \<Rightarrow> pyobj \<Rightarrow> MonotonicDeadline net" where
  "network_deadline timeout clock =
     (case timeout of
        PFloat t \<Rightarrow>
          if \<not> isfinite t \<or> \<not> (flt (Fin 0) t \<and> fle t MAX_NETWORK_TIMEOUT_SECONDS)
          then Inl (NetRaised (ValueError ''network timeout must be an exact finite float from 0 to 60''))
          else net_res (deadline_after timeout clock)
      | _ \<Rightarrow> Inl (NetRaised (ValueError ''network timeout must be an exact finite float from 0 to 60'')))"

text \<open>The peer of a stream is \<open>None\<close> when it is not a tuple.\<close>

definition normalized_peer :: "(pystr \<Rightarrow> ip_address option) \<Rightarrow> pyobj list option \<Rightarrow> (pystr \<times> int) option" where
  "normalized_peer parse peer =
     (case peer of
        Some (PStr raw_address # PInt raw_port # rest) \<Rightarrow>
          if length rest \<in> {0, 2} then map_option (\<lambda>a. (ip_text a, raw_port)) (parse raw_address) else None
      | _ \<Rightarrow> None)"

text \<open>What one connection meets: the two clock samples, the resolver's answer, and the socket, by address, port and timeout.\<close>

record connect_io =
  ct_clock :: pyobj
  ct_endpoint :: "ResolvedEndpoint net"
  ct_now :: pyobj
  ct_dial :: "pystr \<Rightarrow> int \<Rightarrow> pyfloat \<Rightarrow> pyobj list option net"

definition approved_endpoint :: "library \<Rightarrow> ResolvedEndpoint net \<Rightarrow> ResolvedEndpoint net" where
  "approved_endpoint L r =
     rbind r (\<lambda>e.
       case endpoint_new L e of
         Inl _ \<Rightarrow> Inl (PolicyRejected EMPTY_ADDRESS_SET)
       | Inr e' \<Rightarrow>
           if ep_hostname e' \<noteq> NPLG_HOST \<or> ep_port e' \<noteq> HTTPS_PORT \<or> ep_addresses e' = []
           then Inl (PolicyRejected EMPTY_ADDRESS_SET) else Inr e')"

definition connect_remaining :: "MonotonicDeadline \<Rightarrow> ResolvedEndpoint \<Rightarrow> pyobj \<Rightarrow> pyfloat net" where
  "connect_remaining request_deadline endpoint now =
     rbind (net_res (deadline_remaining request_deadline now)) (\<lambda>r1.
       rbind (net_res (deadline_remaining (ep_validity endpoint) now)) (\<lambda>r2.
         if fle (fmin r1 r2) (Fin 0) then Inl (CoreConnectTimeout ''validated endpoint or request timeout expired'')
         else Inr (fmin r1 r2)))"

text \<open>The part after the checks. The result is the normalized peer of the open stream.\<close>

definition dial ::
  "(pystr \<Rightarrow> ip_address option) \<Rightarrow> connect_io \<Rightarrow> ResolvedEndpoint \<Rightarrow> int \<Rightarrow> pyfloat \<Rightarrow> (pystr \<times> int) net_op" where
  "dial parse io endpoint port_number t s =
     (let selected = ip_text (hd (ep_addresses endpoint));
          s1 = s\<lparr>ns_dials := ns_dials s @ [(selected, port_number, t)]\<rparr>
      in case ct_dial io selected port_number t of
           Inl e \<Rightarrow> (Inl e, s1)
         | Inr peer \<Rightarrow>
             (case normalized_peer parse peer of
                None \<Rightarrow> (Inl (PolicyRejected PEER_REJECTED), s1)
              | Some np \<Rightarrow>
                  if np \<noteq> (selected, port_number) then (Inl (PolicyRejected PEER_REJECTED), s1)
                  else (case with_transcript (record_connection parse endpoint selected (fst np)) (s1\<lparr>ns_streams := ns_streams s1 + 1\<rparr>) of
                          (Inl e, s2) \<Rightarrow> (Inl e, s2)
                        | (Inr _, s2) \<Rightarrow> (Inr np, s2))))"

definition connect_tcp ::
  "library \<Rightarrow> (pystr \<Rightarrow> ip_address option) \<Rightarrow> connect_io \<Rightarrow> pystr \<Rightarrow> int \<Rightarrow> pyobj \<Rightarrow> (pystr \<times> int) net_op" where
  "connect_tcp L parse io host port_number timeout s =
     (case rbind (network_deadline timeout (ct_clock io)) (\<lambda>request_deadline.
             if host \<noteq> NPLG_HOST \<or> port_number \<noteq> HTTPS_PORT then Inl (PolicyRejected TARGET_REJECTED)
             else rbind (approved_endpoint L (ct_endpoint io)) (\<lambda>endpoint.
               rbind (connect_remaining request_deadline endpoint (ct_now io)) (\<lambda>t. Inr (endpoint, t)))) of
        Inl e \<Rightarrow> (Inl e, s)
      | Inr (endpoint, t) \<Rightarrow> dial parse io endpoint port_number t s)"

definition connect_unix_socket :: "pyobj \<Rightarrow> pyobj \<Rightarrow> unit net" where
  "connect_unix_socket timeout clock = rbind (network_deadline timeout clock) (\<lambda>_. Inl (PolicyRejected UNIX_REJECTED))"

text \<open>The seconds that the backend is asked to sleep.\<close>

definition network_sleep :: "pyobj \<Rightarrow> pyobj \<Rightarrow> pyobj \<Rightarrow> pyfloat net" where
  "network_sleep seconds clock now =
     rbind (network_deadline seconds clock) (\<lambda>d.
       rbind (net_res (deadline_remaining d now)) (\<lambda>t.
         if fle t (Fin 0) then Inl (NetRaised (ValueError ''network timeout expired'')) else Inr t))"

text \<open>A TLS upgrade wraps the open stream; when the transcript refuses it, the new stream is closed.\<close>

definition start_tls :: "unit net \<Rightarrow> ssl_context \<Rightarrow> pystr option \<Rightarrow> unit net_op" where
  "start_tls upgraded context server_hostname s =
     (case upgraded of
        Inl e \<Rightarrow> (Inl e, s)
      | Inr _ \<Rightarrow>
          (case with_transcript (record_tls context server_hostname) s of
             (Inl e, s1) \<Rightarrow> (Inl e, s1\<lparr>ns_streams := ns_streams s1 - 1\<rparr>)
           | (Inr _, s1) \<Rightarrow> (Inr (), s1)))"

section \<open>The HTTP transport\<close>

record http_request =
  rq_scheme :: pystr
  rq_host :: pystr
  rq_port :: "int option"
  rq_sni_override :: bool
  rq_host_headers :: "pystr list"

definition check_request :: "http_request \<Rightarrow> unit net" where
  "check_request q =
     (if rq_scheme q \<noteq> codes ''https'' \<or> ascii_lower (rq_host q) \<noteq> NPLG_HOST \<or> rq_port q \<notin> {None, Some HTTPS_PORT}
      then Inl (transport_policy_error ORIGIN_REJECTED)
      else if rq_sni_override q then Inl (transport_policy_error SNI_REJECTED)
      else if rq_host_headers q \<noteq> [NPLG_HOST] then Inl (transport_policy_error HOST_REJECTED)
      else Inr ())"

text \<open>
  The table of exceptions, searched in its order. Its first row is for the policy rejection, the others are searched with the
  class test of the library.
\<close>

definition HTTPCORE_EXCEPTIONS :: "(string \<times> string) list" where
  "HTTPCORE_EXCEPTIONS =
     map (\<lambda>n. (n, n))
       [''ConnectTimeout'', ''ReadTimeout'', ''WriteTimeout'', ''PoolTimeout'', ''ConnectError'', ''ReadError'', ''WriteError'', ''ProxyError'',
        ''UnsupportedProtocol'', ''LocalProtocolError'', ''RemoteProtocolError'', ''TimeoutException'', ''NetworkError'', ''ProtocolError'']"

definition map_httpcore_exception :: "(net_exc \<Rightarrow> string \<Rightarrow> bool) \<Rightarrow> (string \<Rightarrow> net_exc) \<Rightarrow> net_exc \<Rightarrow> net_exc" where
  "map_httpcore_exception is_instance httpx_error e =
     (case e of
        PolicyRejected m \<Rightarrow> transport_policy_error m
      | _ \<Rightarrow> (case find (\<lambda>(src, _). is_instance e src) HTTPCORE_EXCEPTIONS of Some (_, tgt) \<Rightarrow> httpx_error tgt | None \<Rightarrow> e))"

definition handle_async_request ::
  "(net_exc \<Rightarrow> string \<Rightarrow> bool) \<Rightarrow> (string \<Rightarrow> net_exc) \<Rightarrow> 'r net_op \<Rightarrow> http_request \<Rightarrow> 'r net_op" where
  "handle_async_request is_instance httpx_error pool_request q s =
     (case check_request q of
        Inl e \<Rightarrow> (Inl e, s)
      | Inr _ \<Rightarrow>
          (case with_transcript (record_request (hd (rq_host_headers q))) s of
             (Inl e, s1) \<Rightarrow> (Inl e, s1)
           | (Inr _, s1) \<Rightarrow>
               (case pool_request (s1\<lparr>ns_pools := ns_pools s1 + 1\<rparr>) of
                  (Inl e, s2) \<Rightarrow> (Inl (map_httpcore_exception is_instance httpx_error e), s2\<lparr>ns_pools := ns_pools s2 - 1\<rparr>)
                | (Inr r, s2) \<Rightarrow> (Inr r, s2))))"

text \<open>Closing a response closes its stream and then the pool, also when the stream's close raises.\<close>

definition response_aclose :: "(net_exc \<Rightarrow> string \<Rightarrow> bool) \<Rightarrow> (string \<Rightarrow> net_exc) \<Rightarrow> unit net_op \<Rightarrow> unit net_op" where
  "response_aclose is_instance httpx_error stream_aclose s =
     (case stream_aclose s of
        (Inl e, s1) \<Rightarrow> (Inl (map_httpcore_exception is_instance httpx_error e), s1\<lparr>ns_pools := ns_pools s1 - 1\<rparr>)
      | (Inr _, s1) \<Rightarrow> (Inr (), s1\<lparr>ns_pools := ns_pools s1 - 1\<rparr>))"

section \<open>CNAME chains\<close>

lemma zip_path_keys: "map fst (zip (x # c) c) = butlast (x # c)"
  by (induction c arbitrary: x) auto

lemma cname_links_Inr:
  "cname_links canonical acc rrsets = Inr links \<longleftrightarrow>
     (\<exists>targets. list_all2 (\<lambda>(owner, records) t. \<exists>r. records = [r] \<and> canonical r = Some t) rrsets targets
        \<and> links = acc @ zip (map fst rrsets) targets \<and> distinct (map fst rrsets) \<and> fst ` set acc \<inter> set (map fst rrsets) = {})"
proof (induction canonical acc rrsets rule: cname_links.induct)
  case (2 canonical acc owner records rrsets)
  show ?case
  proof (cases "\<exists>r t. records = [r] \<and> canonical r = Some t \<and> owner \<notin> fst ` set acc")
    case True
    then obtain r t where r: "records = [r]" "canonical r = Some t" "owner \<notin> fst ` set acc" by blast
    have "cname_links canonical acc ((owner, records) # rrsets) = cname_links canonical (acc @ [(owner, t)]) rrsets" using r by simp
    with 2 [of t] r show ?thesis by (fastforce simp: list_all2_Cons1)
  next
    case False
    then have "\<not> is_ok (cname_links canonical acc ((owner, records) # rrsets))"
      by (cases "length records = 1") (auto simp: length_Suc_conv split: option.splits)
    with False show ?thesis by (fastforce simp: list_all2_Cons1)
  qed
qed auto

lemma cname_links_keys: "cname_links canonical [] rrsets = Inr links \<Longrightarrow> distinct (map fst links)"
  unfolding cname_links_Inr by (auto dest: list_all2_lengthD)

lemma follow_chain_Inr:
  "follow_chain links visited chain current = Inr (v, c, e) \<Longrightarrow>
   \<exists>new. c = chain @ new \<and> v = rev (butlast (current # new)) @ visited \<and> e = last (current # new) \<and> map_of links e = None
     \<and> (\<forall>(a, b) \<in> set (zip (current # new) new). map_of links a = Some b)
     \<and> distinct (butlast (current # new)) \<and> set (butlast (current # new)) \<inter> set visited = {}"
proof (induction links visited chain current rule: follow_chain.induct)
  case (1 links visited chain current)
  show ?case
  proof (cases "map_of links current")
    case None
    then show ?thesis using 1(2) by (intro exI [of _ "[]"]) (auto simp: follow_chain.simps)
  next
    case (Some nx)
    then have n: "current \<notin> set visited" "follow_chain links (current # visited) (chain @ [nx]) nx = Inr (v, c, e)"
      using 1(2) by (subst (asm) follow_chain.simps, auto split: if_splits)+
    from 1(1) [OF Some n] obtain new where new: "c = (chain @ [nx]) @ new" "v = rev (butlast (nx # new)) @ current # visited"
      "e = last (nx # new)" "map_of links e = None" "\<forall>(a, b) \<in> set (zip (nx # new) new). map_of links a = Some b"
      "distinct (butlast (nx # new))" "set (butlast (nx # new)) \<inter> set (current # visited) = {}" by blast
    then show ?thesis using Some n(1) by (intro exI [of _ "nx # new"]) auto
  qed
qed

lemma follow_chain_path:
  "\<forall>(a, b) \<in> set (zip (current # new) new). map_of links a = Some b \<Longrightarrow> distinct (current # new) \<Longrightarrow>
   set (current # new) \<inter> set visited = {} \<Longrightarrow> map_of links (last (current # new)) = None \<Longrightarrow>
   follow_chain links visited chain current = Inr (rev (butlast (current # new)) @ visited, chain @ new, last (current # new))"
proof (induction new arbitrary: visited chain current)
  case (Cons n new)
  then have "map_of links current = Some n" "current \<notin> set visited" by auto
  moreover have "follow_chain links (current # visited) (chain @ [n]) n
      = Inr (rev (butlast (n # new)) @ current # visited, (chain @ [n]) @ new, last (n # new))"
    using Cons.prems by (intro Cons.IH) auto
  ultimately show ?case by (subst follow_chain.simps) simp
qed (simp add: follow_chain.simps)

text \<open>Following the links uses every one of them exactly when they form one path without repetition.\<close>

lemma follow_uses_all:
  assumes "follow_chain links [] [] start = Inr (visited, chain, e)" "length visited = length links"
  shows "distinct (start # chain) \<and> set links = set (zip (start # chain) chain) \<and> e = last (start # chain)"
proof -
  let ?p = "zip (start # chain) chain"
  have f: "visited = rev (butlast (start # chain))" "e = last (start # chain)" "map_of links (last (start # chain)) = None"
    "\<forall>(a, b) \<in> set ?p. map_of links a = Some b" "distinct (butlast (start # chain))"
    using follow_chain_Inr [OF assms(1)] by auto
  have "distinct ?p" using f(5) zip_path_keys [of start chain] distinct_map by metis
  moreover have "length ?p = length links" using f(1) assms(2) zip_path_keys [of start chain] by (metis length_map length_rev)
  ultimately have "card (set ?p) = length links" by (metis distinct_card)
  moreover have "set ?p \<subseteq> set links" using f(4) map_of_SomeD by fastforce
  ultimately have "set ?p = set links" by (metis List.finite_set card_length card_seteq)
  moreover have "last (start # chain) \<notin> set (butlast (start # chain))"
  proof
    assume "last (start # chain) \<in> set (butlast (start # chain))"
    then have "last (start # chain) \<in> fst ` set ?p" by (metis list.set_map zip_path_keys)
    then show False using f(3,4) by fastforce
  qed
  then have "distinct (butlast (start # chain) @ [last (start # chain)])" using f(5) by simp
  ultimately show ?thesis using f(2) append_butlast_last_id [of "start # chain"] by (metis list.distinct(1))
qed

lemma path_is_followed:
  assumes "distinct (map fst links)" "distinct (start # chain)" "set links = set (zip (start # chain) chain)"
  shows "\<exists>visited. follow_chain links [] [] start = Inr (visited, chain, last (start # chain)) \<and> length visited = length links"
proof -
  let ?p = "zip (start # chain) chain"
  have m: "\<forall>(a, b) \<in> set ?p. map_of links a = Some b" using assms(1,3) by (auto simp: map_of_eq_Some_iff)
  have d: "distinct (butlast (start # chain) @ [last (start # chain)])" using assms(2) append_butlast_last_id [of "start # chain"] by simp
  have "fst ` set links = set (butlast (start # chain))" using assms(3) zip_path_keys [of start chain] by (metis list.set_map)
  then have "map_of links (last (start # chain)) = None" using d by (simp add: map_of_eq_None_iff)
  from follow_chain_path [OF m assms(2) _ this] have "follow_chain links [] [] start = Inr (rev (butlast (start # chain)), chain, last (start # chain))"
    by simp
  moreover have "length links = length ?p"
    using assms(1,3) d zip_path_keys [of start chain] by (metis distinct_append distinct_card distinct_map)
  then have "length (rev (butlast (start # chain))) = length links" by simp
  ultimately show ?thesis by blast
qed

text \<open>
  C22. The CNAME records of an answer are accepted exactly when each record set has one record, no owner occurs twice, and all
  of them together, in any order, are the links of one path without repetition from the host to the canonical name of the
  answer; the chain is then that path. In particular the loop that follows the records always ends.
\<close>

theorem cname_chain_is_the_path:
  "canonical_cname_chain canonical host A = Inr chain \<longleftrightarrow>
     (\<exists>start targets. canonical host = Some start
        \<and> list_all2 (\<lambda>(owner, records) t. \<exists>r. records = [r] \<and> canonical r = Some t) (an_cnames A) targets
        \<and> distinct (map fst (an_cnames A)) \<and> distinct (start # chain)
        \<and> set (zip (map fst (an_cnames A)) targets) = set (zip (start # chain) chain)
        \<and> last (start # chain) = an_canonical A)"
proof -
  have "canonical_cname_chain canonical host A = Inr chain \<longleftrightarrow>
      (\<exists>start links visited. canonical host = Some start \<and> cname_links canonical [] (an_cnames A) = Inr links
         \<and> follow_chain links [] [] start = Inr (visited, chain, an_canonical A) \<and> length visited = length links)"
    by (auto simp: canonical_cname_chain_def rbind_eq_Inr split: option.splits)
  also have "\<dots> \<longleftrightarrow> (\<exists>start links. canonical host = Some start \<and> cname_links canonical [] (an_cnames A) = Inr links
      \<and> distinct (start # chain) \<and> set links = set (zip (start # chain) chain) \<and> last (start # chain) = an_canonical A)"
    using follow_uses_all path_is_followed cname_links_keys by metis
  finally show ?thesis unfolding cname_links_Inr by (simp only: append_Nil list.set image_empty inf_bot_left simp_thms) blast
qed

section \<open>Connections are bound to the answer\<close>

lemma net_res_Inr [simp]: "net_res r = Inr a \<longleftrightarrow> r = Inr a"
  by (simp add: net_res_def split: sum.splits)

lemma check_addresses_Inr:
  "check_addresses seen as = Inr () \<longleftrightarrow> distinct as \<and> set as \<inter> set seen = {} \<and> list_all (\<lambda>a. \<not> is_forbidden_address a) as"
  by (induction seen as rule: check_addresses.induct) auto

lemma endpoint_new_Inr:
  "endpoint_new L e = Inr e' \<Longrightarrow> e' = e \<and> ep_addresses e \<noteq> [] \<and> distinct (ep_addresses e) \<and> list_all (\<lambda>a. \<not> is_forbidden_address a) (ep_addresses e)"
  by (auto simp: endpoint_new_def Let_def rbind_eq_Inr check_addresses_Inr split: if_splits)

lemma parse_answers_Inr:
  "parse_answers parse parsed answers = Inr as \<Longrightarrow>
   set as = set parsed \<union> (\<lambda>raw. the (parse raw)) ` set answers
   \<and> list_all (\<lambda>raw. \<exists>a. parse raw = Some a \<and> ip_text a = raw \<and> \<not> is_forbidden_address a) answers"
proof (induction parse parsed answers rule: parse_answers.induct)
  case (2 parse parsed raw answers)
  obtain a where a: "parse raw = Some a" "ip_text a = raw" "\<not> is_forbidden_address a" "\<not> (raw = [] \<or> 37 \<in> set raw)"
    and r: "parse_answers parse (if a \<in> set parsed then parsed else parsed @ [a]) answers = Inr as"
    using 2(2) by (auto split: if_splits option.splits)
  have "\<not> (raw \<noteq> ip_text a \<or> is_forbidden_address a)" using a by simp
  from 2(1) [OF a(4,1) this r] a show ?case by auto
qed simp

lemma add_new_set: "set (add_new addresses as) = set addresses \<union> set as"
  by (induction addresses as rule: add_new.induct) auto

definition records_of :: "dns_answer \<Rightarrow> pystr list" where
  "records_of A = (case an_records A of None \<Rightarrow> [] | Some records \<Rightarrow> records)"

text \<open>A resolution that returns has read both answers, which agree on the CNAME chain, and returns all of their addresses.\<close>

lemma resolve_addresses_Inr:
  assumes "resolve_addresses_with_ttl L canonical a aaaa host = Inr (addresses, ttl)"
  shows "\<exists>A4 A6 chain. a = Inr A4 \<and> aaaa = Inr A6 \<and> canonical_cname_chain canonical host A4 = Inr chain
    \<and> canonical_cname_chain canonical host A6 = Inr chain \<and> set addresses = set (records_of A4 @ records_of A6)"
proof -
  obtain ttls where "resolve_types canonical host None [] [] [a, aaaa] = Inr (addresses, ttls)"
    using assms by (auto simp: resolve_addresses_with_ttl_def split: if_splits sum.splits net_exc.splits list.splits prod.splits)
  then show ?thesis
    by (auto simp: rbind_eq_Inr consistent_cname_chain_def records_of_def add_new_set split: option.splits if_splits)
qed

definition public_record :: "dns_libraries \<Rightarrow> pystr \<Rightarrow> bool" where
  "public_record D raw = (\<exists>a. nl_parse D raw = Some a \<and> ip_text a = raw \<and> \<not> is_forbidden_address a)"

lemma resolved_endpoint:
  assumes "resolve_approved_addresses_async D dio host = Inr e"
  shows "\<exists>A4 A6 chain. dn_a dio = Inr A4 \<and> dn_aaaa dio = Inr A6 \<and> canonical_cname_chain (nl_canonical D) host A4 = Inr chain
    \<and> canonical_cname_chain (nl_canonical D) host A6 = Inr chain \<and> list_all (public_record D) (records_of A4 @ records_of A6)
    \<and> ip_text ` set (ep_addresses e) = set (records_of A4 @ records_of A6)"
proof -
  obtain addresses ttl where r: "resolve_addresses_with_ttl (nl_library D) (nl_canonical D) (dn_a dio) (dn_aaaa dio) host = Inr (addresses, ttl)"
    "create_resolved_endpoint (nl_library D) (nl_idna D) (nl_parse D) host HTTPS_PORT addresses ttl (dn_clock dio) = Inr e"
    using assms by (auto simp: resolve_approved_addresses_async_def rbind_eq_Inr split: if_splits sum.splits net_exc.splits pyexc.splits)
  then obtain as where as: "parse_answers (nl_parse D) [] addresses = Inr as" "ep_addresses e = as"
    by (auto simp: create_resolved_endpoint_def rbind_eq_Inr dest!: endpoint_new_Inr split: if_splits option.splits)
  from parse_answers_Inr [OF as(1)] have "list_all (public_record D) addresses" "ip_text ` set as = set addresses"
    by (auto simp: public_record_def list_all_iff image_image) (metis image_eqI option.sel)
  with resolve_addresses_Inr [OF r(1)] as(2) show ?thesis by (metis list_all_iff)
qed

lemma deadline_after_wf: "deadline_after b c = Inr d \<Longrightarrow> deadline_wf d"
  by (auto simp: deadline_after_def intro: deadline_new_wf split: pyobj.splits if_splits)

lemma connect_remaining_bounds:
  assumes "network_deadline timeout clock = Inr d" "connect_remaining d e now = Inr t"
  shows "flt (Fin 0) t \<and> fle t (Fin 60)"
proof -
  obtain r1 r2 where r: "deadline_remaining d now = Inr r1" "t = fmin r1 r2" "\<not> fle t (Fin 0)" "deadline_remaining (ep_validity e) now = Inr r2"
    using assms(2) by (auto simp: connect_remaining_def rbind_eq_Inr split: if_splits)
  have "deadline_wf d" using assms(1) deadline_after_wf by (auto simp: network_deadline_def split: pyobj.splits if_splits)
  from deadline_remaining_bounds [OF this r(1)] have b: "fle (Fin 0) r1" "fle r1 (Fin 60)" by auto
  have "fle t (Fin 60)"
  proof (cases "flt r2 r1")
    case True
    then have "fle r2 (Fin 60)" using fle_trans [OF flt_imp_fle b(2)] by blast
    with True show ?thesis by (simp add: r(2) fmin_def)
  qed (use b(2) in \<open>simp add: r(2) fmin_def\<close>)
  moreover then have "flt (Fin 0) t" using r(3) by (cases t) auto
  ultimately show ?thesis by simp
qed

lemma with_transcript_frame: "ns_dials (snd (with_transcript m s)) = ns_dials s \<and> ns_streams (snd (with_transcript m s)) = ns_streams s"
  by (auto simp: with_transcript_def split: option.splits prod.splits)

lemma dial_result:
  assumes "dial parse io e p t s = (r, s')"
  shows "ns_dials s' = ns_dials s @ [(ip_text (hd (ep_addresses e)), p, t)]
    \<and> (\<forall>np. r = Inr np \<longrightarrow> np = (ip_text (hd (ep_addresses e)), p)
         \<and> (\<exists>peer. ct_dial io (ip_text (hd (ep_addresses e))) p t = Inr peer \<and> normalized_peer parse peer = Some np))"
proof -
  let ?sel = "ip_text (hd (ep_addresses e))"
  define s1 where "s1 = s\<lparr>ns_dials := ns_dials s @ [(?sel, p, t)]\<rparr>"
  have d: "ns_dials s1 = ns_dials s @ [(?sel, p, t)]" by (simp add: s1_def)
  show ?thesis
  proof (cases "\<exists>peer. ct_dial io ?sel p t = Inr peer \<and> normalized_peer parse peer = Some (?sel, p)")
    case True
    then obtain peer where peer: "ct_dial io ?sel p t = Inr peer" "normalized_peer parse peer = Some (?sel, p)" by blast
    let ?s = "s1\<lparr>ns_streams := ns_streams s1 + 1\<rparr>"
    obtain r2 s2 where o: "with_transcript (record_connection parse e ?sel ?sel) ?s = (r2, s2)" by fastforce
    have "s' = s2 \<and> r = (case r2 of Inl x \<Rightarrow> Inl x | Inr _ \<Rightarrow> Inr (?sel, p))"
      using assms peer o by (simp add: dial_def Let_def s1_def split: sum.splits)
    moreover have "ns_dials s2 = ns_dials s1" using with_transcript_frame [of "record_connection parse e ?sel ?sel" ?s] o by simp
    ultimately show ?thesis using d peer by (auto split: sum.splits)
  next
    case False
    then have "s' = s1 \<and> \<not> is_ok r"
      using assms by (auto simp: dial_def Let_def s1_def split: sum.splits option.splits if_splits)
    then show ?thesis using d by auto
  qed
qed

lemma approved_endpoint_Inr:
  assumes "approved_endpoint L r = Inr e"
  shows "r = Inr e \<and> ep_addresses e \<noteq> []"
proof -
  obtain e0 where "r = Inr e0" "endpoint_new L e0 = Inr e"
    using assms by (cases r) (auto simp: approved_endpoint_def split: sum.splits if_splits)
  then show ?thesis using endpoint_new_Inr by blast
qed

text \<open>
  C17. Whatever the resolver, the clock and the socket do, a connection is only dialled to the NPLG host on port 443, at a public
  address that one of the two answers of this resolution named, where both answers followed the same CNAME chain and
  every address of both is public and in canonical form, and with a positive timeout of at most 60 seconds; the stream is only
  returned when its peer is that address and port.
\<close>

theorem connections_are_bound:
  assumes "connect_tcp (nl_library D) (nl_parse D) io host port_number timeout s = (r, s')"
    "ct_endpoint io = resolve_approved_addresses_async D dio host"
    "is_ok r \<or> ns_dials s' \<noteq> ns_dials s"
  shows "host = NPLG_HOST \<and> port_number = 443
    \<and> (\<exists>A4 A6 chain address t. dn_a dio = Inr A4 \<and> dn_aaaa dio = Inr A6
         \<and> canonical_cname_chain (nl_canonical D) host A4 = Inr chain \<and> canonical_cname_chain (nl_canonical D) host A6 = Inr chain
         \<and> list_all (public_record D) (records_of A4 @ records_of A6) \<and> address \<in> set (records_of A4 @ records_of A6)
         \<and> ns_dials s' = ns_dials s @ [(address, 443, t)] \<and> flt (Fin 0) t \<and> fle t (Fin 60)
         \<and> (\<forall>np. r = Inr np \<longrightarrow> np = (address, 443)
              \<and> (\<exists>peer. ct_dial io address 443 t = Inr peer \<and> normalized_peer (nl_parse D) peer = Some np)))"
proof -
  obtain d e t where c: "network_deadline timeout (ct_clock io) = Inr d" "host = NPLG_HOST" "port_number = 443"
    "approved_endpoint (nl_library D) (ct_endpoint io) = Inr e" "connect_remaining d e (ct_now io) = Inr t"
    "dial (nl_parse D) io e 443 t s = (r, s')"
    using assms(1,3) by (auto simp: connect_tcp_def rbind_eq_Inr HTTPS_PORT_def split: sum.splits if_splits)
  then have e: "resolve_approved_addresses_async D dio host = Inr e" "ep_addresses e \<noteq> []"
    using assms(2) approved_endpoint_Inr by auto
  obtain A4 A6 chain where a: "dn_a dio = Inr A4" "dn_aaaa dio = Inr A6" "canonical_cname_chain (nl_canonical D) host A4 = Inr chain"
    "canonical_cname_chain (nl_canonical D) host A6 = Inr chain" "list_all (public_record D) (records_of A4 @ records_of A6)"
    "ip_text ` set (ep_addresses e) = set (records_of A4 @ records_of A6)"
    using resolved_endpoint [OF e(1)] by blast
  have "ip_text (hd (ep_addresses e)) \<in> set (records_of A4 @ records_of A6)" using a(6) e(2) by (metis hd_in_set imageI)
  with a(1-5) c(2,3) dial_result [OF c(6)] connect_remaining_bounds [OF c(1,5)] show ?thesis by blast
qed

text \<open>
  When the transcript refuses a connection, the error leaves the connected stream open: unlike the other refusals it is not
  closed.
\<close>

lemma refused_observation_keeps_stream:
  assumes "ns_transcript s = Some T" "tr_connection_count T \<noteq> 0"
    "ct_dial io (ip_text (hd (ep_addresses e))) p t = Inr peer" "normalized_peer parse peer = Some (ip_text (hd (ep_addresses e)), p)"
  shows "\<exists>s'. dial parse io e p t s = (Inl (CoreConnectError ''observed transport connection sequence is invalid''), s')
    \<and> ns_streams s' = ns_streams s + 1"
  using assms by (simp add: dial_def Let_def with_transcript_def record_connection_def)

section \<open>An example\<close>

definition example_dns :: dns_libraries where
  "example_dns =
     \<lparr>nl_library = ascii_library, nl_idna = (\<lambda>h. Some h),
      nl_parse = (\<lambda>raw. if raw = codes ''8.8.8.8'' then Some sample_address else None), nl_canonical = (\<lambda>n. Some (n @ [46]))\<rparr>"

definition example_dns_io :: dns_io where
  "example_dns_io =
     (let edge = (NPLG_HOST @ [46], [codes ''edge.nplg.gov.ge''])
      in \<lparr>dn_busy = False,
          dn_a = Inr \<lparr>an_cnames = [edge], an_canonical = codes ''edge.nplg.gov.ge.'', an_records = Some [codes ''8.8.8.8''], an_ttl = 30\<rparr>,
          dn_aaaa = Inr \<lparr>an_cnames = [edge], an_canonical = codes ''edge.nplg.gov.ge.'', an_records = None, an_ttl = 30\<rparr>,
          dn_clock = PFloat (Fin 1)\<rparr>)"

definition example_connect_io :: connect_io where
  "example_connect_io =
     \<lparr>ct_clock = PFloat (Fin 1), ct_endpoint = resolve_approved_addresses_async example_dns example_dns_io NPLG_HOST, ct_now = PFloat (Fin 2),
      ct_dial = (\<lambda>address p t. Inr (Some [PStr address, PInt p]))\<rparr>"

definition example_net_state :: net_state where
  "example_net_state = \<lparr>ns_transcript = Some transcript_init, ns_dials = [], ns_streams = 0, ns_pools = 0\<rparr>"

theorem connections_are_bound_witness:
  "\<exists>s'. connect_tcp ascii_library (nl_parse example_dns) example_connect_io NPLG_HOST 443 (PFloat (Fin 10)) example_net_state
       = (Inr (codes ''8.8.8.8'', 443), s')
     \<and> (\<exists>t. ns_dials s' = [(codes ''8.8.8.8'', 443, t)] \<and> fle t (Fin 60)) \<and> ns_streams s' = 1"
proof -
  let ?c = "connect_tcp (nl_library example_dns) (nl_parse example_dns) example_connect_io NPLG_HOST 443 (PFloat (Fin 10)) example_net_state"
  have f: "fst ?c = Inr (codes ''8.8.8.8'', 443)" "ns_streams (snd ?c) = 1" by code_simp+
  obtain s' where c: "?c = (Inr (codes ''8.8.8.8'', 443), s')" using f(1) by (metis prod.collapse)
  have e: "ct_endpoint example_connect_io = resolve_approved_addresses_async example_dns example_dns_io NPLG_HOST"
    "nl_library example_dns = ascii_library" "ns_dials example_net_state = []"
    by (simp_all add: example_connect_io_def example_dns_def example_net_state_def)
  have "\<exists>t. ns_dials s' = [(codes ''8.8.8.8'', 443, t)] \<and> fle t (Fin 60)"
    using connections_are_bound [OF c e(1)] e(3) by (auto simp del: codes_simps)
  with c f(2) e(2) show ?thesis by auto
qed

section \<open>What a finished transcript proves\<close>

datatype transcript_call = RequestCall pystr | ConnectionCall ResolvedEndpoint pystr pystr | TlsCall ssl_context "pystr option"

primrec transcript_step :: "(pystr \<Rightarrow> ip_address option) \<Rightarrow> transcript_call \<Rightarrow> BoundNetworkTranscript \<Rightarrow> BoundNetworkTranscript" where
  "transcript_step parse (RequestCall h) T = snd (record_request h T)"
| "transcript_step parse (ConnectionCall e selected peer) T = snd (record_connection parse e selected peer T)"
| "transcript_step parse (TlsCall ctx server_hostname) T = snd (record_tls ctx server_hostname T)"

fun requests :: "transcript_call list \<Rightarrow> pystr list" where
  "requests [] = []"
| "requests (RequestCall h # cs) = h # requests cs"
| "requests (_ # cs) = requests cs"

fun connections :: "transcript_call list \<Rightarrow> (ResolvedEndpoint \<times> pystr \<times> pystr) list" where
  "connections [] = []"
| "connections (ConnectionCall e selected peer # cs) = (e, selected, peer) # connections cs"
| "connections (_ # cs) = connections cs"

fun handshakes :: "transcript_call list \<Rightarrow> (ssl_context \<times> pystr option) list" where
  "handshakes [] = []"
| "handshakes (TlsCall ctx server_hostname # cs) = (ctx, server_hostname) # handshakes cs"
| "handshakes (_ # cs) = handshakes cs"

lemma calls_append [simp]:
  "requests (cs @ cs') = requests cs @ requests cs'"
  "connections (cs @ cs') = connections cs @ connections cs'"
  "handshakes (cs @ cs') = handshakes cs @ handshakes cs'"
  by (induction cs rule: requests.induct, simp_all)

text \<open>The fields of the transcript come from the first call of their kind.\<close>

definition transcript_inv :: "(pystr \<Rightarrow> ip_address option) \<Rightarrow> transcript_call list \<Rightarrow> BoundNetworkTranscript \<Rightarrow> bool" where
  "transcript_inv parse cs T =
     (\<not> tr_finalized T \<and> tr_request_count T = int (length (requests cs)) \<and> tr_connection_count T = int (length (connections cs))
      \<and> tr_tls_count T = int (length (handshakes cs))
      \<and> (tr_host_header T \<noteq> None \<longrightarrow> requests cs \<noteq> [] \<and> tr_host_header T = Some NPLG_HOST \<and> hd (requests cs) = NPLG_HOST)
      \<and> (tr_endpoint T \<noteq> None \<longrightarrow> (\<exists>e selected peer a rest. connections cs = (e, selected, peer) # rest \<and> tr_endpoint T = Some e
           \<and> parse selected = Some a \<and> parse peer = Some a \<and> a \<in> set (ep_addresses e) \<and> tr_selected T = Some a \<and> tr_peer T = Some a))
      \<and> (tr_tls_sni T \<noteq> None \<longrightarrow> (\<exists>ctx rest. handshakes cs = (ctx, Some NPLG_HOST) # rest \<and> check_hostname ctx \<and> cert_required ctx
           \<and> tr_tls_sni T = Some NPLG_HOST \<and> tr_certificate_hostname T = Some NPLG_HOST)))"

lemma transcript_inv_step:
  assumes "transcript_inv parse cs T"
  shows "transcript_inv parse (cs @ [c]) (transcript_step parse c T)"
proof (cases c)
  case (RequestCall h)
  then show ?thesis using assms by (cases "requests cs") (auto simp: transcript_inv_def record_request_def Let_def)
next
  case (ConnectionCall e selected peer)
  then show ?thesis using assms
    by (cases "connections cs") (auto simp: transcript_inv_def record_connection_def Let_def split: option.splits)
next
  case (TlsCall ctx server_hostname)
  then show ?thesis using assms by (cases "handshakes cs") (auto simp: transcript_inv_def record_tls_def Let_def)
qed

lemma transcript_inv_run: "transcript_inv parse cs (fold (transcript_step parse) cs transcript_init)"
proof (induction cs rule: rev_induct)
  case (snoc c cs)
  then show ?case using transcript_inv_step by simp
qed (simp add: transcript_inv_def transcript_init_def)

text \<open>
  An observation is only handed out after exactly one request for the NPLG host, one connection and one verified TLS handshake
  for it; its addresses are those of that connection's endpoint, all public, and its peer is the selected one. It
  is handed out once.
\<close>

theorem observation_is_complete:
  assumes "finalize (fold (transcript_step parse) cs transcript_init) = (Inr ob, T)"
  shows "requests cs = [NPLG_HOST]
    \<and> (\<exists>e selected peer. connections cs = [(e, selected, peer)] \<and> ep_hostname e = NPLG_HOST \<and> ob_validated_addresses ob = ep_addresses e
         \<and> list_all (\<lambda>a. \<not> is_forbidden_address a) (ep_addresses e)
         \<and> parse selected = Some (ob_selected_address ob) \<and> parse peer = Some (ob_selected_address ob)
         \<and> ob_actual_peer ob = ob_selected_address ob \<and> ob_selected_address ob \<in> set (ep_addresses e))
    \<and> (\<exists>ctx. handshakes cs = [(ctx, Some NPLG_HOST)] \<and> check_hostname ctx \<and> cert_required ctx)
    \<and> \<not> is_ok (fst (finalize T))"
proof -
  let ?T = "fold (transcript_step parse) cs transcript_init"
  have i: "transcript_inv parse cs ?T" by (rule transcript_inv_run)
  obtain h e sel p sni cert where f: "tr_host_header ?T = Some h" "tr_endpoint ?T = Some e" "tr_selected ?T = Some sel" "tr_peer ?T = Some p"
    "tr_tls_sni ?T = Some sni" "tr_certificate_hostname ?T = Some cert" "tr_request_count ?T = 1" "tr_connection_count ?T = 1" "tr_tls_count ?T = 1"
    "tr_finalized T"
    and o: "observation_new \<lparr>ob_canonical_hostname = ep_hostname e, ob_host_header = h, ob_tls_sni_hostname = sni, ob_certificate_hostname = cert,
        ob_validated_addresses = ep_addresses e, ob_selected_address = sel, ob_actual_peer = p, ob_request_count = 1\<rparr> = Inr ob"
    using assms by (auto simp: finalize_def split: if_splits option.splits)
  have "requests cs = [NPLG_HOST]" using i f(1,7) by (cases "requests cs") (auto simp: transcript_inv_def)
  moreover obtain selected peer where "connections cs = [(e, selected, peer)]" "parse selected = Some sel" "parse peer = Some sel" "p = sel"
    "sel \<in> set (ep_addresses e)" using i f(2,3,4,8) by (auto simp: transcript_inv_def)
  moreover have "\<exists>ctx. handshakes cs = [(ctx, Some NPLG_HOST)] \<and> check_hostname ctx \<and> cert_required ctx"
    using i f(5,9) by (auto simp: transcript_inv_def)
  moreover have "\<not> is_ok (fst (finalize T))" using f(10) by (simp add: finalize_def)
  ultimately show ?thesis using o by (auto simp: observation_new_def list_all_iff list_ex_iff split: if_splits)
qed

end
