(* ===== verification/Nplg_Repository.thy ===== *)
theory Nplg_Repository
  imports Nplg_Upstream Nplg_Parser Nplg_Tokens
begin

text \<open>
  Read-only access to the repository, \<^verbatim>\<open>src/nplg_mcp/repository.py\<close>: bounded text responses, the search with its authenticated
  cursor and cached version marker, items, and OAI-PMH metadata with its bounded cache of formats. The parser executor is
  its answers, as the parent process sees them; \<^verbatim>\<open>httpx.URL\<close> and the text codecs are arguments. Calls are modelled one
  at a time, and the details of errors are left out.
\<close>

section \<open>Configuration and state\<close>

record NplgRepository =
  rp_validate_dns :: bool
  rp_max_redirects :: int
  rp_max_metadata_bytes :: int
  rp_total_timeout :: pyfloat
  rp_secret :: bytes

definition MAX_METADATA_BYTES :: int where "MAX_METADATA_BYTES = 10 * 1024 * 1024"
definition MAX_SEARCH_PAGE_SIZE :: int where "MAX_SEARCH_PAGE_SIZE = 50"
definition MAX_QUERY_LENGTH :: nat where "MAX_QUERY_LENGTH = 500"
definition OAI_DISCOVERY_CACHE_TTL_SECONDS :: pyfloat where "OAI_DISCOVERY_CACHE_TTL_SECONDS = Fin 300"
definition MAX_OAI_DISCOVERY_CACHE_ENTRIES :: nat where "MAX_OAI_DISCOVERY_CACHE_ENTRIES = 8"
definition DEFAULT_CURSOR_TTL_SECONDS :: int where "DEFAULT_CURSOR_TTL_SECONDS = 900"

definition repository_new :: "NplgRepository \<Rightarrow> pyobj \<Rightarrow> bool \<Rightarrow> bool \<Rightarrow> NplgRepository res" where
  "repository_new R timeout guard_ok parser_ok =
     (case timeout of
        PFloat t \<Rightarrow>
          if \<not> isfinite t \<or> fle t (Fin 0) \<or> flt (Fin 120) t then Inl (ValueError ''total_timeout_seconds must be positive'')
          else if \<not> guard_ok then Inl (TypeError ''guard must be an UpstreamGuard'')
          else if \<not> parser_ok then Inl (TypeError ''parser_executor must implement the strict parser protocol'')
          else rbind (derive_cursor_signing_key (rp_secret R)) (\<lambda>_. Inr (R\<lparr>rp_total_timeout := t\<rparr>))
      | _ \<Rightarrow> Inl (ValueError ''total_timeout_seconds must be positive''))"

record OaiFormatCacheEntry =
  ce_formats :: "pystr list"
  ce_created :: pyfloat
  ce_expires :: pyfloat

definition cache_entry_valid :: "OaiFormatCacheEntry \<Rightarrow> bool" where
  "cache_entry_valid e =
     (isfinite (ce_created e) \<and> isfinite (ce_expires e) \<and> \<not> flt (ce_created e) (Fin 0)
      \<and> flt (Fin 0) (fsub (ce_expires e) (ce_created e)) \<and> fle (fsub (ce_expires e) (ce_created e)) OAI_DISCOVERY_CACHE_TTL_SECONDS)"

type_synonym format_cache = "(pystr \<times> OaiFormatCacheEntry) list"

text \<open>\<open>min\<close> over the keys of the dictionary: the first one with the least expiry.\<close>

fun oldest_origin :: "pystr \<Rightarrow> pyfloat \<Rightarrow> format_cache \<Rightarrow> pystr" where
  "oldest_origin k t [] = k"
| "oldest_origin k t ((k', e) # es) = (if flt (ce_expires e) t then oldest_origin k' (ce_expires e) es else oldest_origin k t es)"

definition publish_metadata_formats :: "pystr \<Rightarrow> pystr list \<Rightarrow> pyfloat \<Rightarrow> (pyexc, format_cache, unit) op" where
  "publish_metadata_formats origin formats stored_at cache =
     (let kept = filter (\<lambda>(k, e). \<not> fle (ce_expires e) stored_at) cache;
          room = (case kept of
                    [] \<Rightarrow> []
                  | (k, e) # es \<Rightarrow> if MAX_OAI_DISCOVERY_CACHE_ENTRIES \<le> length kept then dict_del kept (oldest_origin k (ce_expires e) es) else kept);
          entry = \<lparr>ce_formats = formats, ce_created = stored_at, ce_expires = fadd stored_at OAI_DISCOVERY_CACHE_TTL_SECONDS\<rparr>
      in if cache_entry_valid entry then (Inr (), dict_set room origin entry)
         else (Inl (ValueError ''OAI discovery cache expiry is invalid''), room))"

record repo_state =
  rs_version :: "pystr option"
  rs_generation :: int
  rs_cache :: format_cache

datatype repo_exc = FromUpstream upstream_exc | FromParser parser_exc

type_synonym 'a repo_op = "(repo_exc, repo_state upstream, 'a) op"

abbreviation repo_app :: "ErrorCode \<Rightarrow> string \<Rightarrow> int \<Rightarrow> repo_exc" where
  "repo_app c m h \<equiv> FromUpstream (UpRaised (AppErr (AppError c m h)))"

text \<open>The code of an application error, whichever side raised it.\<close>

definition repo_code :: "repo_exc \<Rightarrow> ErrorCode option" where
  "repo_code e =
     (case e of
        FromUpstream (UpRaised (AppErr a)) \<Rightarrow> Some (err_code a)
      | FromParser (ParserAppError c _ _ _) \<Rightarrow> Some c
      | _ \<Rightarrow> None)"

section \<open>Cursors and queries\<close>

text \<open>\<open>" ".join(query.split())\<close>.\<close>

fun split_words :: "pystr \<Rightarrow> pystr \<Rightarrow> pystr list" where
  "split_words acc [] = (if acc = [] then [] else [acc])"
| "split_words acc (c # cs) =
     (if space_code c then (if acc = [] then split_words [] cs else acc # split_words [] cs) else split_words (acc @ [c]) cs)"

definition canonical_search_query :: "pyobj \<Rightarrow> pystr res" where
  "canonical_search_query q =
     (case q of PStr s \<Rightarrow> Inr (join_with [32] (split_words [] s)) | _ \<Rightarrow> app_fail INVALID_INPUT ''Search query must be text.'' 400)"

definition encode_cursor ::
  "(CursorV1 \<Rightarrow> pystr) \<Rightarrow> int \<Rightarrow> bytes \<Rightarrow> pystr \<Rightarrow> pystr option \<Rightarrow> int \<Rightarrow> int \<Rightarrow> pystr res" where
  "encode_cursor dump offset secret normalized_query scope page_size now =
     (case cursor_query_hash normalized_query of
        Inl e \<Rightarrow> app_fail INVALID_INPUT ''Cursor offset is outside the supported range.'' 400
      | Inr h \<Rightarrow>
          (let c = \<lparr>cu_version = 1, cu_key_id = CURSOR_KEY_ID, cu_query_hash = h, cu_scope_handle = scope, cu_offset = offset,
                    cu_page_size = page_size, cu_issued_at = now, cu_expires_at = now + DEFAULT_CURSOR_TTL_SECONDS * 1000000\<rparr>
           in if \<not> cursor_valid c then app_fail INVALID_INPUT ''Cursor offset is outside the supported range.'' 400
              else sign_cursor dump secret c))"

definition decode_cursor ::
  "(rat \<Rightarrow> pystr) \<Rightarrow> (pystr \<Rightarrow> CursorV1 option) \<Rightarrow> pystr \<Rightarrow> bytes \<Rightarrow> pystr \<Rightarrow> pystr option \<Rightarrow> int \<Rightarrow> int \<Rightarrow> int res" where
  "decode_cursor float_repr parse_fields cursor secret normalized_query scope page_size now =
     rbind (verify_cursor float_repr parse_fields secret cursor normalized_query scope page_size now) (\<lambda>c. Inr (cu_offset c))"

section \<open>Bounded text\<close>

definition metadata_redirect :: "library \<Rightarrow> NplgRepository \<Rightarrow> pystr \<Rightarrow> nat \<Rightarrow> http_response \<Rightarrow> pystr option res" where
  "metadata_redirect L R current k r =
     redirect_location L (rp_max_redirects R)
       (''The repository returned too many redirects.'', ''The repository returned an incomplete redirect.'') r current k"

definition metadata_messages :: status_messages where
  "metadata_messages =
     \<lparr>sm_not_found = ''The requested repository item was not found.'',
      sm_restricted = ''The requested repository item is not publicly accessible.'',
      sm_rate_limited = ''The repository is temporarily rate limiting requests.'',
      sm_unsuccessful = ''The repository returned an unsuccessful response.''\<rparr>"

definition too_large :: "'a res" where
  "too_large = app_fail UPSTREAM_FAILURE ''The repository metadata response was unexpectedly large.'' 502"

definition response_encoding :: "library \<Rightarrow> (nat \<Rightarrow> nat option) \<Rightarrow> NplgRepository \<Rightarrow> http_response \<Rightarrow> pystr res" where
  "response_encoding L digit R r =
     rbind (content_encoding_ok L r) (\<lambda>_.
       rbind (declared_length_ok digit (rp_max_metadata_bytes R) too_large r) (\<lambda>_.
         Inr (case rs_charset r of Some (c # cs) \<Rightarrow> c # cs | _ \<Rightarrow> codes ''utf-8'')))"

definition subtype_suffix :: "pystr \<Rightarrow> pystr" where
  "subtype_suffix item = 43 # last (split_on 47 item)"

definition validate_content_type :: "library \<Rightarrow> http_response \<Rightarrow> pystr list \<Rightarrow> unit res" where
  "validate_content_type L r accepted_types =
     (let ct = response_media_type L r
      in if ct \<noteq> [] \<and> \<not> list_ex (\<lambda>item. ct = item \<or> starts_with (rev (subtype_suffix item)) (rev ct)) accepted_types
         then app_fail UPSTREAM_FAILURE ''The repository returned an unexpected metadata content type.'' 502 else Inr ())"

fun read_body :: "int \<Rightarrow> upstream_exc option \<Rightarrow> bytes \<Rightarrow> bytes list \<Rightarrow> upstream_exc + bytes" where
  "read_body maximum ending body [] = (case ending of Some e \<Rightarrow> Inl e | None \<Rightarrow> Inr body)"
| "read_body maximum ending body (chunk # chunks) =
     (if chunk = [] then read_body maximum ending body chunks
      else if maximum - int (length body) < int (length chunk) then up too_large
      else read_body maximum ending (body @ chunk) chunks)"

text \<open>\<open>decode\<close> is the codec of a name, or \<open>None\<close> for an unknown codec or undecodable bytes.\<close>

definition read_response_text :: "(pystr \<Rightarrow> bytes \<Rightarrow> pystr option) \<Rightarrow> NplgRepository \<Rightarrow> http_response \<Rightarrow> pystr \<Rightarrow> upstream_exc + pystr" where
  "read_response_text decode R r encoding =
     rbind (read_body (rp_max_metadata_bytes R) (rs_end r) [] (rs_chunks r)) (\<lambda>body.
       case decode encoding body of
         None \<Rightarrow> up_fail UPSTREAM_FAILURE ''The repository returned undecodable metadata.'' 502
       | Some text \<Rightarrow> Inr text)"

definition accept_text ::
  "library \<Rightarrow> (nat \<Rightarrow> nat option) \<Rightarrow> (pystr \<Rightarrow> bytes \<Rightarrow> pystr option) \<Rightarrow> NplgRepository \<Rightarrow> pystr list \<Rightarrow> pystr \<Rightarrow> http_response
     \<Rightarrow> (upstream_exc, repo_state, pystr \<times> pystr) op" where
  "accept_text L digit decode R accepted_types current r x =
     (rbind (up (response_encoding L digit R r)) (\<lambda>encoding.
        rbind (up (validate_content_type L r accepted_types)) (\<lambda>_.
          rbind (read_response_text decode R r encoding) (\<lambda>text. Inr (text, current)))), x)"

text \<open>What one text request meets: the clock before each attempt, the attempts, and whether its timer fired.\<close>

record fetch_io =
  fx_clock :: "nat \<Rightarrow> pyobj"
  fx_attempt :: "nat \<Rightarrow> attempt_io"
  fx_fired :: bool

definition request_deadline :: "pyfloat \<Rightarrow> pyobj \<Rightarrow> MonotonicDeadline res" where
  "request_deadline deadline clock =
     (case clock of
        PFloat now \<Rightarrow>
          (let remaining_time = fsub deadline now
           in if fle remaining_time (Fin 0) then Inl (TimeoutError [])
              else deadline_new (PFloat now) (PFloat (fadd now (fmin remaining_time (Fin 59)))))
      | _ \<Rightarrow> Inl (TypeError ''unsupported operand type(s) for -''))"

record libraries =
  lib :: library
  lib_digit :: "nat \<Rightarrow> nat option"
  lib_decode :: "pystr \<Rightarrow> bytes \<Rightarrow> pystr option"
  lib_url :: "pystr \<Rightarrow> (pystr \<times> pyobj) list option \<Rightarrow> pystr"
  lib_dump :: "CursorV1 \<Rightarrow> pystr"
  lib_float_repr :: "rat \<Rightarrow> pystr"
  lib_parse_fields :: "pystr \<Rightarrow> CursorV1 option"

definition text_attempt ::
  "libraries \<Rightarrow> fetch_io \<Rightarrow> NplgRepository \<Rightarrow> pystr list \<Rightarrow> pyfloat \<Rightarrow> nat \<Rightarrow> pystr \<Rightarrow> (repo_state, pystr + pystr \<times> pystr) up_op" where
  "text_attempt B io R accepted_types deadline k current s =
     (case request_deadline deadline (fx_clock io k) of
        Inl e \<Rightarrow> (Inl (UpRaised e), s)
      | Inr d \<Rightarrow>
          attempt (fx_attempt io k) (rp_validate_dns R) d (metadata_redirect (lib B) R current k) metadata_messages
            (accept_text (lib B) (lib_digit B) (lib_decode B) R accepted_types current) s)"

definition get_text_within_deadline ::
  "libraries \<Rightarrow> fetch_io \<Rightarrow> NplgRepository \<Rightarrow> pystr \<Rightarrow> (pystr \<times> pyobj) list option \<Rightarrow> pystr list \<Rightarrow> pyfloat \<Rightarrow> (repo_state, pystr \<times> pystr) up_op" where
  "get_text_within_deadline B io R url params accepted_types deadline s =
     (case validate_upstream_url (lib B) (lib_url B url params) of
        Inl e \<Rightarrow> (Inl (UpRaised e), s)
      | Inr current \<Rightarrow>
          redirect_loop (text_attempt B io R accepted_types deadline) 0 (nat (rp_max_redirects R + 1)) current s)"

definition deadline_failure :: repo_exc where
  "deadline_failure = repo_app UPSTREAM_FAILURE ''The repository request did not complete within the configured deadline.'' 502"

definition get_text ::
  "libraries \<Rightarrow> fetch_io \<Rightarrow> NplgRepository \<Rightarrow> pystr \<Rightarrow> (pystr \<times> pyobj) list option \<Rightarrow> pystr list \<Rightarrow> pyfloat \<Rightarrow> (pystr \<times> pystr) repo_op" where
  "get_text B io R url params accepted_types deadline s =
     (case get_text_within_deadline B io R url params accepted_types deadline s of
        (Inr a, s1) \<Rightarrow> (Inr a, s1)
      | (Inl e, s1) \<Rightarrow>
          (Inl (case e of
             UpRaised (UpstreamUnavailable _) \<Rightarrow> repo_app RATE_LIMITED ''The repository is temporarily unavailable.'' 503
           | UpRaised (TimeoutError _) \<Rightarrow> deadline_failure
           | RequestError _ \<Rightarrow> deadline_failure
           | UpRaised CancelledError \<Rightarrow> if fx_fired io then deadline_failure else FromUpstream e
           | _ \<Rightarrow> FromUpstream e), s1))"

definition parse_within_deadline :: "parser_exc + 'a \<Rightarrow> 'a repo_op" where
  "parse_within_deadline r s =
     (case r of
        Inr a \<Rightarrow> Inr a
      | Inl BlockingWorkCapacityError \<Rightarrow> Inl (repo_app RATE_LIMITED ''The metadata parser is at parser capacity.'' 503)
      | Inl (ParserRaised (TimeoutError _)) \<Rightarrow> Inl deadline_failure
      | Inl (ParserWorkerError _) \<Rightarrow> Inl (repo_app UPSTREAM_FAILURE ''The repository response could not be parsed safely.'' 502)
      | Inl e \<Rightarrow> Inl (FromParser e), s)"

section \<open>The operations\<close>

text \<open>
  The parser executor's answers for one call: the functions of the text it is given. A search page is its value and the
  offset of the next page; a record is its value and its files.
\<close>

record ('s, 'd) parser_answers =
  px_search :: "pystr \<Rightarrow> pystr \<Rightarrow> int \<Rightarrow> parser_exc + 's \<times> int option"
  px_search_version :: "pystr \<Rightarrow> pystr \<Rightarrow> parser_exc + pystr"
  px_item :: "pystr \<Rightarrow> pystr \<Rightarrow> pystr \<Rightarrow> parser_exc + 'd"
  px_metadata_formats :: "pystr \<Rightarrow> parser_exc + pystr list"
  px_oai_record :: "pystr \<Rightarrow> pystr \<Rightarrow> pystr \<Rightarrow> parser_exc + 'd"

definition HTML_TYPES :: "pystr list" where "HTML_TYPES = map codes [''text/html'', ''application/xhtml+xml'']"
definition XML_TYPES :: "pystr list" where "XML_TYPES = map codes [''text/xml'', ''application/xml'']"

definition repo_raise :: "repo_exc \<Rightarrow> 'a repo_op" where "repo_raise e s = (Inl e, s)"
definition repo_return :: "'a \<Rightarrow> 'a repo_op" where "repo_return a s = (Inr a, s)"
definition repo_lift :: "'a res \<Rightarrow> 'a repo_op" where
  "repo_lift r s = (case r of Inl e \<Rightarrow> Inl (FromUpstream (UpRaised e)) | Inr a \<Rightarrow> Inr a, s)"

definition search_url :: pystr where "search_url = NPLG_ORIGIN @ codes ''/simple-search''"

definition discover_search_version ::
  "libraries \<Rightarrow> fetch_io \<Rightarrow> ('s, 'd) parser_answers \<Rightarrow> NplgRepository \<Rightarrow> pyfloat \<Rightarrow> (pystr \<times> int) repo_op" where
  "discover_search_version B io P R deadline =
     obind (get_text B io R search_url None HTML_TYPES deadline) (\<lambda>(markup, final_url).
       if final_url \<noteq> search_url
       then repo_raise (repo_app UPSTREAM_FAILURE ''The repository search discovery route changed.'' 502)
       else obind (parse_within_deadline (px_search_version P markup final_url)) (\<lambda>marker s.
         let g = rs_generation (us_extra s) + 1
         in (Inr (marker, g), s\<lparr>us_extra := (us_extra s)\<lparr>rs_version := Some marker, rs_generation := g\<rparr>\<rparr>)))"

text \<open>Waiting for the lock past the deadline raises \<open>TimeoutError\<close> (\<open>late\<close>), which is mapped like every other timeout.\<close>

definition get_search_version ::
  "libraries \<Rightarrow> fetch_io \<Rightarrow> bool \<Rightarrow> ('s, 'd) parser_answers \<Rightarrow> NplgRepository \<Rightarrow> pyfloat \<Rightarrow> int option \<Rightarrow> (pystr \<times> int) repo_op" where
  "get_search_version B io late P R deadline stale_generation s =
     (if late then (Inl deadline_failure, s)
      else case rs_version (us_extra s) of
        Some v \<Rightarrow>
          if stale_generation \<noteq> Some (rs_generation (us_extra s)) then (Inr (v, rs_generation (us_extra s)), s)
          else discover_search_version B io P R deadline s
      | None \<Rightarrow> discover_search_version B io P R deadline s)"

definition search_params :: "pystr \<Rightarrow> int \<Rightarrow> int \<Rightarrow> pystr \<Rightarrow> (pystr \<times> pyobj) list" where
  "search_params asked page_size offset version =
     [(codes ''query'', PStr asked), (codes ''rpp'', PInt page_size), (codes ''start'', PInt offset), (codes ''envfv'', PStr version)]"

record search_io =
  sx_fetch :: "nat \<Rightarrow> fetch_io"
  sx_late :: "nat \<Rightarrow> bool"
  sx_cursor_now :: int

text \<open>The body of the \<open>try\<close> statement: one search, and one more after a refreshed marker when the first is not found.\<close>

definition fetch_search ::
  "libraries \<Rightarrow> search_io \<Rightarrow> ('s, 'd) parser_answers \<Rightarrow> NplgRepository \<Rightarrow> pyfloat \<Rightarrow> pystr \<Rightarrow> (pystr \<Rightarrow> (pystr \<times> pyobj) list)
     \<Rightarrow> (pystr \<times> pystr) repo_op" where
  "fetch_search B io P R deadline url params =
     obind (get_search_version B (sx_fetch io 0) (sx_late io 0) P R deadline None) (\<lambda>(version, generation) s.
       case get_text B (sx_fetch io 1) R url (Some (params version)) HTML_TYPES deadline s of
         (Inr a, s1) \<Rightarrow> (Inr a, s1)
       | (Inl e, s1) \<Rightarrow>
           if repo_code e \<noteq> Some NOT_FOUND then (Inl e, s1)
           else obind (get_search_version B (sx_fetch io 2) (sx_late io 1) P R deadline (Some generation)) (\<lambda>(version, _).
                  get_text B (sx_fetch io 3) R url (Some (params version)) HTML_TYPES deadline) s1)"

definition search_unavailable :: "'a repo_op \<Rightarrow> 'a repo_op" where
  "search_unavailable m s =
     (case m s of
        (Inr a, s1) \<Rightarrow> (Inr a, s1)
      | (Inl e, s1) \<Rightarrow>
          (Inl (if repo_code e = Some NOT_FOUND then repo_app UPSTREAM_FAILURE ''The repository search service is unavailable.'' 502 else e), s1))"

definition check_search :: "libraries \<Rightarrow> NplgRepository \<Rightarrow> int \<Rightarrow> pyobj \<Rightarrow> pyobj \<Rightarrow> pystr option \<Rightarrow> pystr option \<Rightarrow> (pystr \<times> int \<times> pystr option \<times> pystr \<times> int) res" where
  "check_search B R now asked page_size scope_handle cursor =
     rbind (canonical_search_query asked) (\<lambda>q.
       if q = [] \<or> MAX_QUERY_LENGTH < length q then app_fail INVALID_INPUT ''Search query must contain 1 to 500 characters.'' 400
       else case page_size of
         PInt n \<Rightarrow>
           if n < 1 \<or> MAX_SEARCH_PAGE_SIZE < n then app_fail INVALID_INPUT ''page_size must be between 1 and 50.'' 400
           else rbind (case scope_handle of
                         None \<Rightarrow> Inr (None, search_url)
                       | Some h \<Rightarrow> rbind (parse_handle_input (lib B) h) (\<lambda>scope.
                                    Inr (Some scope, NPLG_ORIGIN @ codes ''/handle/'' @ scope @ codes ''/simple-search''))) (\<lambda>(scope, url).
             rbind (case cursor of
                      None \<Rightarrow> Inr 0
                    | Some c \<Rightarrow> decode_cursor (lib_float_repr B) (lib_parse_fields B) c (rp_secret R) q scope n now) (\<lambda>offset.
               Inr (q, n, scope, url, offset)))
       | _ \<Rightarrow> app_fail INVALID_INPUT ''page_size must be between 1 and 50.'' 400)"

definition search ::
  "libraries \<Rightarrow> search_io \<Rightarrow> ('s, 'd) parser_answers \<Rightarrow> NplgRepository \<Rightarrow> pyfloat \<Rightarrow> pyobj \<Rightarrow> pyobj \<Rightarrow> pystr option \<Rightarrow> pystr option
     \<Rightarrow> ('s \<times> pystr option) repo_op" where
  "search B io P R deadline asked page_size scope_handle cursor =
     obind (repo_lift (check_search B R (sx_cursor_now io) asked page_size scope_handle cursor)) (\<lambda>(q, n, scope, url, offset).
       obind (search_unavailable (fetch_search B io P R deadline url (search_params q n offset))) (\<lambda>(text, final_url).
         obind (parse_within_deadline (px_search P text final_url n)) (\<lambda>(page, next_offset).
           case next_offset of
             None \<Rightarrow> repo_return (page, None)
           | Some nx \<Rightarrow>
               obind (repo_lift (encode_cursor (lib_dump B) nx (rp_secret R) q scope n (sx_cursor_now io))) (\<lambda>c.
                 repo_return (page, Some c)))))"

definition fetch_item ::
  "libraries \<Rightarrow> fetch_io \<Rightarrow> ('s, 'd) parser_answers \<Rightarrow> NplgRepository \<Rightarrow> pyfloat \<Rightarrow> pystr \<Rightarrow> bool \<Rightarrow> 'd repo_op" where
  "fetch_item B io P R deadline canonical full =
     obind (repo_lift (build_item_url (lib B) canonical full)) (\<lambda>url.
       obind (get_text B io R url None HTML_TYPES deadline) (\<lambda>(text, final_url).
         parse_within_deadline (px_item P text canonical final_url)))"

definition get_item ::
  "libraries \<Rightarrow> fetch_io \<Rightarrow> ('s, 'd) parser_answers \<Rightarrow> NplgRepository \<Rightarrow> pyfloat \<Rightarrow> pystr \<Rightarrow> 'd repo_op" where
  "get_item B io P R deadline handle =
     obind (repo_lift (parse_handle_input (lib B) handle)) (\<lambda>canonical. fetch_item B io P R deadline canonical False)"

definition list_files ::
  "('d \<Rightarrow> 'f) \<Rightarrow> libraries \<Rightarrow> fetch_io \<Rightarrow> ('s, 'd) parser_answers \<Rightarrow> NplgRepository \<Rightarrow> pyfloat \<Rightarrow> pystr \<Rightarrow> 'f repo_op" where
  "list_files bitstreams B io P R deadline handle = obind (get_item B io P R deadline handle) (\<lambda>d. repo_return (bitstreams d))"

section \<open>OAI-PMH metadata\<close>

definition set_cache :: "format_cache \<Rightarrow> repo_state upstream \<Rightarrow> repo_state upstream" where
  "set_cache c s = s\<lparr>us_extra := (us_extra s)\<lparr>rs_cache := c\<rparr>\<rparr>"

definition cache_of :: "repo_state upstream \<Rightarrow> format_cache" where
  "cache_of s = rs_cache (us_extra s)"

definition clock_backwards :: repo_exc where
  "clock_backwards = FromUpstream (UpRaised (RuntimeError ''monotonic cache clock moved backwards''))"

definition oai_url :: pystr where "oai_url = NPLG_ORIGIN @ codes ''/oai/request''"

text \<open>Discovery after the cache had no usable entry: \<open>now\<close> is the sample before the request, \<open>stored_at\<close> the one after it.\<close>

definition discover_formats ::
  "libraries \<Rightarrow> fetch_io \<Rightarrow> ('s, 'd) parser_answers \<Rightarrow> NplgRepository \<Rightarrow> pyfloat \<Rightarrow> pyfloat \<Rightarrow> pyfloat \<Rightarrow> pystr list repo_op" where
  "discover_formats B io P R deadline now stored_at =
     obind (get_text B io R oai_url (Some [(codes ''verb'', PStr (codes ''ListMetadataFormats''))]) XML_TYPES deadline) (\<lambda>(text, _).
       obind (parse_within_deadline (px_metadata_formats P text)) (\<lambda>formats s.
         if flt stored_at now then (Inl clock_backwards, set_cache (dict_del (cache_of s) NPLG_ORIGIN) s)
         else case publish_metadata_formats NPLG_ORIGIN formats stored_at (cache_of s) of
           (Inl e, c) \<Rightarrow> (Inl (FromUpstream (UpRaised e)), set_cache c s)
         | (Inr _, c) \<Rightarrow> (Inr formats, set_cache c s)))"

definition metadata_formats ::
  "libraries \<Rightarrow> fetch_io \<Rightarrow> ('s, 'd) parser_answers \<Rightarrow> NplgRepository \<Rightarrow> pyfloat \<Rightarrow> pyfloat \<Rightarrow> pyfloat \<Rightarrow> pystr list repo_op" where
  "metadata_formats B io P R deadline now stored_at s =
     (case map_of (cache_of s) NPLG_ORIGIN of
        None \<Rightarrow> discover_formats B io P R deadline now stored_at s
      | Some e \<Rightarrow>
          if flt now (ce_created e) then (Inl clock_backwards, set_cache (dict_del (cache_of s) NPLG_ORIGIN) s)
          else if flt now (ce_expires e) then (Inr (ce_formats e), s)
          else discover_formats B io P R deadline now stored_at (set_cache (dict_del (cache_of s) NPLG_ORIGIN) s))"

definition require_metadata_prefix :: "pystr list \<Rightarrow> pystr res" where
  "require_metadata_prefix formats =
     (if codes ''dim'' \<in> set formats then Inr (codes ''dim'')
      else if codes ''oai_dc'' \<in> set formats then Inr (codes ''oai_dc'')
      else app_fail UPSTREAM_FAILURE ''The repository did not expose a supported OAI-PMH metadata format.'' 502)"

record metadata_io =
  mx_formats :: fetch_io
  mx_record :: fetch_io
  mx_item :: fetch_io
  mx_now :: pyfloat
  mx_stored_at :: pyfloat

definition oai_metadata ::
  "libraries \<Rightarrow> metadata_io \<Rightarrow> ('s, 'd) parser_answers \<Rightarrow> NplgRepository \<Rightarrow> pyfloat \<Rightarrow> pystr \<Rightarrow> 'd repo_op" where
  "oai_metadata B io P R deadline canonical =
     obind (metadata_formats B (mx_formats io) P R deadline (mx_now io) (mx_stored_at io)) (\<lambda>formats.
       obind (repo_lift (require_metadata_prefix formats)) (\<lambda>prefix_name.
         obind (get_text B (mx_record io) R oai_url
                  (Some [(codes ''verb'', PStr (codes ''GetRecord'')), (codes ''metadataPrefix'', PStr prefix_name),
                         (codes ''identifier'', PStr (codes ''oai:dspace.nplg.gov.ge:'' @ canonical))]) XML_TYPES deadline) (\<lambda>(text, _).
           parse_within_deadline (px_oai_record P text canonical prefix_name))))"

definition get_metadata ::
  "libraries \<Rightarrow> metadata_io \<Rightarrow> ('s, 'd) parser_answers \<Rightarrow> NplgRepository \<Rightarrow> pyfloat \<Rightarrow> pystr \<Rightarrow> 'd repo_op" where
  "get_metadata B io P R deadline handle =
     obind (repo_lift (parse_handle_input (lib B) handle)) (\<lambda>canonical s.
       case oai_metadata B io P R deadline canonical s of
         (Inr d, s1) \<Rightarrow> (Inr d, s1)
       | (Inl e, s1) \<Rightarrow>
           if repo_code e \<in> {Some UPSTREAM_FAILURE, Some NOT_FOUND}
           then fetch_item B (mx_item io) P R deadline canonical True s1 else (Inl e, s1))"

section \<open>Requests for text\<close>

text \<open>A text request never touches the repository's own state: its handler keeps every property of it.\<close>

interpretation tx: response_handler "accept_text L digit decode R accepted_types" "\<lambda>x. x = x0" for L digit decode R accepted_types x0
  by unfold_locales (simp add: accept_text_def)

definition fetch_ok :: "fetch_io \<Rightarrow> bool" where
  "fetch_ok io = (\<forall>k. clock_in_range (at_clock (fx_attempt io k)))"

lemma request_deadline_wf: "request_deadline deadline clock = Inr d \<Longrightarrow> deadline_wf d"
  by (auto simp: request_deadline_def Let_def intro: deadline_new_wf split: pyobj.splits if_splits)

lemma text_attempt_frame:
  assumes "fetch_ok io" "guard_inv (us_guard s)"
  shows "guard_inv (us_guard (snd (text_attempt B io R ts deadline k current s)))
    \<and> live (snd (us_guard (snd (text_attempt B io R ts deadline k current s)))) = live (snd (us_guard s))"
proof (cases "request_deadline deadline (fx_clock io k)")
  case (Inr d)
  obtain r s' where a: "text_attempt B io R ts deadline k current s = (r, s')" by fastforce
  with Inr have "attempt (fx_attempt io k) (rp_validate_dns R) d (metadata_redirect (lib B) R current k) metadata_messages
      (accept_text (lib B) (lib_digit B) (lib_decode B) R ts current) s = (r, s')" by (simp add: text_attempt_def)
  from attempt_returns_permit [OF assms(2) request_deadline_wf [OF Inr] _ this] assms(1) a show ?thesis by (simp add: fetch_ok_def)
qed (use assms(2) in \<open>simp add: text_attempt_def\<close>)

lemma text_attempt_extra: "tx.keeps x0 (text_attempt B io R ts deadline k current)"
proof -
  have k: "tx.keeps x0 (attempt (fx_attempt io k) (rp_validate_dns R) d (metadata_redirect (lib B) R current k) metadata_messages
      (accept_text (lib B) (lib_digit B) (lib_decode B) R ts current))" for d by (rule tx.keeps_attempt)
  then show ?thesis unfolding tx.keeps_def text_attempt_def by (auto split: sum.splits)
qed

lemma get_text_frame:
  assumes "fetch_ok io" "guard_inv (us_guard s)" "get_text B io R url params ts deadline s = (r, s')"
  shows "guard_inv (us_guard s') \<and> live (snd (us_guard s')) = live (snd (us_guard s)) \<and> us_extra s' = us_extra s"
proof -
  obtain r1 where g: "get_text_within_deadline B io R url params ts deadline s = (r1, s')"
    using assms(3) by (auto simp: get_text_def split: sum.splits prod.splits)
  show ?thesis
  proof (cases "validate_upstream_url (lib B) (lib_url B url params)")
    case (Inr current)
    let ?loop = "redirect_loop (text_attempt B io R ts deadline) 0 (nat (rp_max_redirects R + 1)) current"
    have s': "s' = snd (?loop s)" using g Inr by (simp add: get_text_within_deadline_def)
    have "tx.keeps (us_extra s) ?loop" by (rule tx.keeps_loop) (rule text_attempt_extra)
    then have "us_extra s' = us_extra s" using s' unfolding tx.keeps_def by blast
    with redirect_loop_returns_permits [where step = "text_attempt B io R ts deadline", OF assms(2) text_attempt_frame [OF assms(1)]] s'
    show ?thesis by blast
  qed (use g assms(2) in \<open>simp add: get_text_within_deadline_def\<close>)
qed

lemma read_body_Inr:
  "read_body maximum ending body chunks = Inr b \<Longrightarrow> int (length body) \<le> maximum \<Longrightarrow>
   b = body @ concat chunks \<and> int (length b) \<le> maximum \<and> ending = None"
proof (induction chunks arbitrary: body)
  case (Cons chunk chunks)
  show ?case
  proof (cases "chunk = []")
    case False
    with Cons.prems have "int (length (body @ chunk)) \<le> maximum" "read_body maximum ending (body @ chunk) chunks = Inr b"
      by (auto simp: too_large_def up_def split: if_splits)
    from Cons.IH [OF this(2,1)] show ?thesis by auto
  qed (use Cons in simp)
qed (auto split: option.splits)

text \<open>
  C20. A text that a request returns is the whole decoded body of a successful answer from an accepted NPLG URL, at most the
  configured bytes long, after at most the configured redirects.
\<close>

theorem fetched_text_is_bounded:
  assumes "get_text B io R url params ts deadline s = (Inr (text, final_url), s')" "0 \<le> rp_max_metadata_bytes R"
  shows "validate_upstream_url (lib B) final_url = Inr final_url
    \<and> (\<exists>k r encoding. int k \<le> rp_max_redirects R \<and> at_answer (fx_attempt io k) = Inr r \<and> 200 \<le> rs_status r \<and> rs_status r < 300
         \<and> rs_end r = None \<and> int (length (concat (rs_chunks r))) \<le> rp_max_metadata_bytes R
         \<and> lib_decode B encoding (concat (rs_chunks r)) = Some text)"
proof -
  let ?good = "\<lambda>u. validate_upstream_url (lib B) u = Inr u"
  have same: "validate_upstream_url (lib B) u = Inr v \<Longrightarrow> v = u" for u v
    by (auto simp: validate_upstream_url_def invalid_url_def rbind_eq_Inr split: if_splits)
  obtain current where c: "?good current" "redirect_loop (text_attempt B io R ts deadline) 0 (nat (rp_max_redirects R + 1)) current s
      = (Inr (text, final_url), s')"
    using assms(1) same by (fastforce simp: get_text_def get_text_within_deadline_def split: sum.splits prod.splits)
  have t: "\<exists>d. attempt (fx_attempt io k) (rp_validate_dns R) d (metadata_redirect (lib B) R u k) metadata_messages
      (accept_text (lib B) (lib_digit B) (lib_decode B) R ts u) s1 = (Inr w, s2)"
    if "text_attempt B io R ts deadline k u s1 = (Inr w, s2)" for k u s1 w s2
    using that by (auto simp: text_attempt_def split: sum.splits)
  have g: "?good v" if "text_attempt B io R ts deadline k u s1 = (Inr (Inl v), s2)" for k u s1 v s2
    using t [OF that] by (auto dest!: attempt_Inr simp: metadata_redirect_def redirect_location_def rbind_eq_Inr split: if_splits) (metis same)
  obtain k u s1 where l: "k < nat (rp_max_redirects R + 1)" "?good u" "text_attempt B io R ts deadline k u s1 = (Inr (Inr (text, final_url)), s')"
    using redirect_loop_Inr [OF c(2), of ?good] c(1) g by auto
  obtain r where r: "at_answer (fx_attempt io k) = Inr r" "200 \<le> rs_status r" "rs_status r < 300"
    "accept_text (lib B) (lib_digit B) (lib_decode B) R ts u r (us_extra s1) = (Inr (text, final_url), us_extra s')"
    using t [OF l(3)] attempt_Inr by blast
  then obtain encoding body where b: "read_body (rp_max_metadata_bytes R) (rs_end r) [] (rs_chunks r) = Inr body"
    "lib_decode B encoding body = Some text" "final_url = u"
    by (auto simp: accept_text_def read_response_text_def rbind_eq_Inr split: option.splits)
  have "int k \<le> rp_max_redirects R" using l(1) by linarith
  with read_body_Inr [OF b(1)] assms(2) b(2,3) l(2) r(1-3) show ?thesis by auto
qed

section \<open>The repository's state\<close>

definition cache_inv :: "format_cache \<Rightarrow> bool" where
  "cache_inv c =
     (distinct (map fst c) \<and> length c \<le> MAX_OAI_DISCOVERY_CACHE_ENTRIES \<and> (\<forall>(k, e) \<in> set c. cache_entry_valid e))"

lemma dict_del_filter: "dict_del d k = filter (\<lambda>p. fst p \<noteq> k) d"
  by (simp add: dict_del_def case_prod_beta)

lemma cache_inv_filter: "cache_inv c \<Longrightarrow> cache_inv (filter p c)"
  using length_filter_le [of p c] unfolding cache_inv_def by (auto simp: distinct_map_filter simp del: length_filter_le)

lemma cache_inv_del: "cache_inv c \<Longrightarrow> cache_inv (dict_del c k)"
  by (simp add: dict_del_filter cache_inv_filter)

lemma dict_set_length: "length (dict_set d k v) = (if k \<in> fst ` set d then length d else Suc (length d))"
  by (induction d k v rule: dict_set.induct) auto

lemma oldest_member: "oldest_origin k t es \<in> insert k (fst ` set es)"
  by (induction k t es rule: oldest_origin.induct) auto

lemma publish_cache_inv:
  assumes "cache_inv c"
  shows "cache_inv (snd (publish_metadata_formats origin formats t c))"
proof -
  let ?kept = "filter (\<lambda>(k, e). \<not> fle (ce_expires e) t) c"
  define room where "room = (case ?kept of [] \<Rightarrow> [] | (k, e) # es \<Rightarrow> if MAX_OAI_DISCOVERY_CACHE_ENTRIES \<le> length ?kept
      then dict_del ?kept (oldest_origin k (ce_expires e) es) else ?kept)"
  have kept: "cache_inv ?kept" using assms by (rule cache_inv_filter)
  have room: "cache_inv room \<and> length room < MAX_OAI_DISCOVERY_CACHE_ENTRIES"
  proof (cases ?kept)
    case Nil
    then show ?thesis by (simp add: room_def cache_inv_def MAX_OAI_DISCOVERY_CACHE_ENTRIES_def)
  next
    case (Cons p es)
    obtain k e where p: "p = (k, e)" by fastforce
    let ?o = "oldest_origin k (ce_expires e) es"
    have "?o \<in> fst ` set ?kept" using oldest_member [of k "ce_expires e" es] unfolding Cons p by simp
    then have "length (dict_del ?kept ?o) < length ?kept"
      unfolding dict_del_filter by (metis (mono_tags, lifting) imageE length_filter_less)
    with kept cache_inv_del [OF kept, of ?o] show ?thesis
      unfolding room_def by (auto simp: Cons p cache_inv_def)
  qed
  moreover have "cache_inv (dict_set room origin entry)" if "cache_entry_valid entry" for entry
    using room that dict_set_length [of room origin entry] distinct_dict_set [of room origin entry] dict_set_entries [of room origin entry]
    by (fastforce simp: cache_inv_def split: if_splits)
  ultimately show ?thesis
    by (simp add: publish_metadata_formats_def Let_def room_def [symmetric])
qed

text \<open>
  An operation that, however it ends, keeps the invariants of the guard and of the cache and holds no permit afterwards that
  was not held before.
\<close>

definition repo_inv :: "repo_state upstream \<Rightarrow> bool" where
  "repo_inv s = (guard_inv (us_guard s) \<and> cache_inv (cache_of s) \<and> 0 \<le> rs_generation (us_extra s)
     \<and> (rs_version (us_extra s) = None \<longleftrightarrow> rs_generation (us_extra s) = 0))"

definition repo_safe :: "'a repo_op \<Rightarrow> bool" where
  "repo_safe m = (\<forall>s. repo_inv s \<longrightarrow> repo_inv (snd (m s)) \<and> live (snd (us_guard (snd (m s)))) = live (snd (us_guard s)))"

lemma repo_safeD: "repo_safe m \<Longrightarrow> m s = (r, s') \<Longrightarrow> repo_inv s \<Longrightarrow> repo_inv s' \<and> live (snd (us_guard s')) = live (snd (us_guard s))"
  unfolding repo_safe_def by (metis snd_conv)

lemma repo_safe_bind:
  assumes "repo_safe m" "\<And>a. repo_safe (f a)"
  shows "repo_safe (obind m f)"
  unfolding repo_safe_def
proof (intro allI impI)
  fix s assume i: "repo_inv s"
  obtain r s1 where m: "m s = (r, s1)" by fastforce
  note 1 = repo_safeD [OF assms(1) m i]
  show "repo_inv (snd (obind m f s)) \<and> live (snd (us_guard (snd (obind m f s)))) = live (snd (us_guard s))"
  proof (cases r)
    case (Inr a)
    obtain r2 s2 where f: "f a s1 = (r2, s2)" by fastforce
    from repo_safeD [OF assms(2) f] 1 m Inr f show ?thesis by (simp add: obind_def)
  qed (use 1 m in \<open>simp add: obind_def\<close>)
qed

lemma repo_safe_simple:
  "repo_safe (repo_raise e)" "repo_safe (repo_return a)" "repo_safe (repo_lift r)" "repo_safe (parse_within_deadline p)"
  by (simp_all add: repo_safe_def repo_raise_def repo_return_def repo_lift_def parse_within_deadline_def)

lemma repo_safe_text: "fetch_ok io \<Longrightarrow> repo_safe (get_text B io R url params ts deadline)"
  unfolding repo_safe_def
proof (intro allI impI)
  fix s assume "fetch_ok io" "repo_inv s"
  obtain r s' where g: "get_text B io R url params ts deadline s = (r, s')" by fastforce
  from get_text_frame [OF \<open>fetch_ok io\<close> _ g] \<open>repo_inv s\<close> g
  show "repo_inv (snd (get_text B io R url params ts deadline s))
     \<and> live (snd (us_guard (snd (get_text B io R url params ts deadline s)))) = live (snd (us_guard s))"
    by (simp add: repo_inv_def cache_of_def)
qed

lemma repo_safe_version:
  "repo_safe (\<lambda>s. let g = rs_generation (us_extra s) + 1
     in (Inr (marker, g), s\<lparr>us_extra := (us_extra s)\<lparr>rs_version := Some marker, rs_generation := g\<rparr>\<rparr>))"
  by (simp add: repo_safe_def repo_inv_def cache_of_def Let_def)

lemma repo_safe_if: "repo_safe m \<Longrightarrow> repo_safe m' \<Longrightarrow> repo_safe (if b then m else m')"
  by simp

lemma repo_safe_pair: "(\<And>a b. repo_safe (f a b)) \<Longrightarrow> repo_safe (case p of (a, b) \<Rightarrow> f a b)"
  by (cases p) simp

lemmas repo_safe_intros = repo_safe_bind repo_safe_pair repo_safe_if repo_safe_simple repo_safe_text repo_safe_version

lemma repo_safe_discover: "fetch_ok io \<Longrightarrow> repo_safe (discover_search_version B io P R deadline)"
  unfolding discover_search_version_def by (intro repo_safe_intros)

lemma repo_safe_get_version:
  assumes "fetch_ok io"
  shows "repo_safe (get_search_version B io late P R deadline stale)"
  using repo_safe_discover [OF assms, of B P R deadline]
  by (auto simp: repo_safe_def get_search_version_def split: option.splits)

definition search_ok :: "search_io \<Rightarrow> bool" where
  "search_ok io = (\<forall>k. fetch_ok (sx_fetch io k))"

text \<open>Handling an error with another safe operation is safe, and so is renaming it.\<close>

lemma repo_safe_handle:
  assumes "repo_safe m" "\<And>e. repo_safe (h e)"
  shows "repo_safe (\<lambda>s. case m s of (Inr a, s1) \<Rightarrow> (Inr a, s1) | (Inl e, s1) \<Rightarrow> h e s1)"
  unfolding repo_safe_def
proof (intro allI impI)
  fix s assume i: "repo_inv s"
  obtain r s1 where m: "m s = (r, s1)" by fastforce
  note 1 = repo_safeD [OF assms(1) m i]
  let ?h = "\<lambda>s. case m s of (Inr a, s1) \<Rightarrow> (Inr a, s1) | (Inl e, s1) \<Rightarrow> h e s1"
  show "repo_inv (snd (?h s)) \<and> live (snd (us_guard (snd (?h s)))) = live (snd (us_guard s))"
  proof (cases r)
    case (Inl e)
    obtain r2 s2 where h: "h e s1 = (r2, s2)" by fastforce
    from repo_safeD [OF assms(2) h] 1 m Inl h show ?thesis by simp
  qed (use 1 m in simp)
qed

lemma search_unavailable_handle:
  "search_unavailable m = (\<lambda>s. case m s of (Inr a, s1) \<Rightarrow> (Inr a, s1)
     | (Inl e, s1) \<Rightarrow> repo_raise (if repo_code e = Some NOT_FOUND
         then repo_app UPSTREAM_FAILURE ''The repository search service is unavailable.'' 502 else e) s1)"
  by (rule ext) (simp add: search_unavailable_def repo_raise_def split: prod.splits sum.splits)

lemma fetch_search_handle:
  "fetch_search B io P R deadline url params =
     obind (get_search_version B (sx_fetch io 0) (sx_late io 0) P R deadline None) (\<lambda>p s.
       case get_text B (sx_fetch io 1) R url (Some (params (fst p))) HTML_TYPES deadline s of
         (Inr a, s1) \<Rightarrow> (Inr a, s1)
       | (Inl e, s1) \<Rightarrow>
           (if repo_code e \<noteq> Some NOT_FOUND then repo_raise e
            else obind (get_search_version B (sx_fetch io 2) (sx_late io 1) P R deadline (Some (snd p))) (\<lambda>(version, _).
                  get_text B (sx_fetch io 3) R url (Some (params version)) HTML_TYPES deadline)) s1)"
  unfolding fetch_search_def
  by (rule arg_cong [where f = "obind _"]) (auto simp: fun_eq_iff repo_raise_def split: prod.splits sum.splits)

lemma repo_safe_fetch_search: "search_ok io \<Longrightarrow> repo_safe (fetch_search B io P R deadline url params)"
  unfolding fetch_search_handle search_ok_def
  by (intro repo_safe_bind repo_safe_handle repo_safe_if repo_safe_pair repo_safe_simple repo_safe_text repo_safe_get_version) auto

lemma repo_safe_search: "search_ok io \<Longrightarrow> repo_safe (search B io P R deadline asked page_size scope_handle cursor)"
  unfolding search_def
  by (intro repo_safe_bind repo_safe_pair repo_safe_simple)
     (auto simp: search_unavailable_handle intro!: repo_safe_handle repo_safe_simple repo_safe_fetch_search
       repo_safe_pair repo_safe_bind split: option.splits)

lemma repo_safe_fetch_item: "fetch_ok io \<Longrightarrow> repo_safe (fetch_item B io P R deadline canonical full)"
  unfolding fetch_item_def by (intro repo_safe_intros)

lemma repo_safe_formats:
  assumes "fetch_ok io"
  shows "repo_safe (metadata_formats B io P R deadline now stored_at)"
proof -
  have store: "repo_safe (\<lambda>s. if flt stored_at now then (Inl clock_backwards, set_cache (dict_del (cache_of s) NPLG_ORIGIN) s)
      else case publish_metadata_formats NPLG_ORIGIN formats stored_at (cache_of s) of
        (Inl e, c) \<Rightarrow> (Inl (FromUpstream (UpRaised e)), set_cache c s) | (Inr _, c) \<Rightarrow> (Inr formats, set_cache c s))" for formats
    using publish_cache_inv [of _ NPLG_ORIGIN formats stored_at] cache_inv_del
    by (auto simp: repo_safe_def repo_inv_def cache_of_def set_cache_def split: prod.splits sum.splits) (metis snd_conv)+
  have "repo_safe (discover_formats B io P R deadline now stored_at)"
    unfolding discover_formats_def using assms by (intro repo_safe_bind repo_safe_pair repo_safe_text repo_safe_simple store)
  then show ?thesis
    using cache_inv_del
    by (auto simp: repo_safe_def metadata_formats_def repo_inv_def cache_of_def set_cache_def split: option.splits)
qed

definition metadata_ok :: "metadata_io \<Rightarrow> bool" where
  "metadata_ok io = (fetch_ok (mx_formats io) \<and> fetch_ok (mx_record io) \<and> fetch_ok (mx_item io))"

lemma get_metadata_handle:
  "get_metadata B io P R deadline handle =
     obind (repo_lift (parse_handle_input (lib B) handle)) (\<lambda>canonical s.
       case oai_metadata B io P R deadline canonical s of
         (Inr d, s1) \<Rightarrow> (Inr d, s1)
       | (Inl e, s1) \<Rightarrow>
           (if repo_code e \<in> {Some UPSTREAM_FAILURE, Some NOT_FOUND}
            then fetch_item B (mx_item io) P R deadline canonical True else repo_raise e) s1)"
  unfolding get_metadata_def
  by (rule arg_cong [where f = "obind _"]) (auto simp: fun_eq_iff repo_raise_def split: prod.splits sum.splits)

lemma repo_safe_metadata: "metadata_ok io \<Longrightarrow> repo_safe (get_metadata B io P R deadline handle)"
  unfolding get_metadata_handle oai_metadata_def metadata_ok_def
  by (intro repo_safe_bind repo_safe_handle repo_safe_if repo_safe_pair repo_safe_simple repo_safe_text repo_safe_formats
      repo_safe_fetch_item) auto

lemma repo_safe_item: "fetch_ok io \<Longrightarrow> repo_safe (get_item B io P R deadline handle)"
  unfolding get_item_def by (intro repo_safe_bind repo_safe_simple repo_safe_fetch_item)

section \<open>Sequences of calls\<close>

datatype ('s, 'd) repo_call =
    SearchCall search_io "('s, 'd) parser_answers" pyfloat pyobj pyobj "pystr option" "pystr option"
  | ItemCall fetch_io "('s, 'd) parser_answers" pyfloat pystr
  | MetadataCall metadata_io "('s, 'd) parser_answers" pyfloat pystr

primrec call_ok :: "('s, 'd) repo_call \<Rightarrow> bool" where
  "call_ok (SearchCall io _ _ _ _ _ _) = search_ok io"
| "call_ok (ItemCall io _ _ _) = fetch_ok io"
| "call_ok (MetadataCall io _ _ _) = metadata_ok io"

primrec serve :: "libraries \<Rightarrow> NplgRepository \<Rightarrow> ('s, 'd) repo_call \<Rightarrow> repo_state upstream \<Rightarrow> repo_state upstream" where
  "serve B R (SearchCall io P deadline asked page_size scope_handle cursor) s =
     snd (search B io P R deadline asked page_size scope_handle cursor s)"
| "serve B R (ItemCall io P deadline handle) s = snd (get_item B io P R deadline handle s)"
| "serve B R (MetadataCall io P deadline handle) s = snd (get_metadata B io P R deadline handle s)"

definition repo_init :: "repo_state upstream" where
  "repo_init = \<lparr>us_guard = (guard_init None, []), us_limiter = None, us_extra = \<lparr>rs_version = None, rs_generation = 0, rs_cache = []\<rparr>\<rparr>"

lemma guard_init_inv: "guard_inv (guard_init None, [])"
  using default_policy_valid by (auto simp: guard_inv_def guard_init_def circuit_inv_def live_def live_current_def policy_valid_def)

lemma serve_safe:
  assumes "call_ok c" "repo_inv s"
  shows "repo_inv (serve B R c s) \<and> live (snd (us_guard (serve B R c s))) = live (snd (us_guard s))"
proof -
  have "repo_safe (\<lambda>s. (Inr (), serve B R c s))"
    using assms(1) repo_safe_search repo_safe_item repo_safe_metadata by (cases c) (simp_all add: repo_safe_def)
  with assms(2) show ?thesis by (simp add: repo_safe_def)
qed

lemma serves_safe:
  "list_all call_ok calls \<Longrightarrow> repo_inv s \<Longrightarrow>
   repo_inv (fold (serve B R) calls s) \<and> live (snd (us_guard (fold (serve B R) calls s))) = live (snd (us_guard s))"
proof (induction calls arbitrary: s)
  case (Cons c calls)
  from serve_safe [of c s B R] Cons.prems have "repo_inv (serve B R c s)" "live (snd (us_guard (serve B R c s))) = live (snd (us_guard s))"
    by simp_all
  with Cons.IH [of "serve B R c s"] Cons.prems show ?case by simp
qed simp

lemma fsub_pos:
  assumes "flt (Fin 0) (fsub u t)" "isfinite t" "isfinite u"
  shows "flt t u"
proof -
  obtain x y where f: "t = Fin x" "u = Fin y" using assms(2,3) by (cases t; cases u) (auto simp: isfinite_def)
  have "\<not> y - x \<le> 0"
  proof
    assume "y - x \<le> 0"
    then have "fle (fl_round (y - x)) (Fin 0)" by (rule fl_round_le_Fin) simp
    then show False using assms(1) f by (cases "fl_round (y - x)") auto
  qed
  then show ?thesis using f by simp
qed

text \<open>What the invariant says of the cache.\<close>

lemma cache_inv_bounds:
  assumes "cache_inv c"
  shows "distinct (map fst c) \<and> length c \<le> 8
    \<and> list_all (\<lambda>(k, e). fle (fsub (ce_expires e) (ce_created e)) (Fin 300) \<and> flt (ce_created e) (ce_expires e)) c"
proof -
  have "fle (fsub (ce_expires e) (ce_created e)) (Fin 300) \<and> flt (ce_created e) (ce_expires e)" if "cache_entry_valid e" for e
    using that fsub_pos unfolding cache_entry_valid_def OAI_DISCOVERY_CACHE_TTL_SECONDS_def by blast
  then show ?thesis
    using assms unfolding cache_inv_def MAX_OAI_DISCOVERY_CACHE_ENTRIES_def list_all_iff by blast
qed

text \<open>
  C30. Whatever searches, item and metadata requests a new repository serves, and however each of them ends, afterwards the
  upstream guard's invariant holds with no attempt in flight, the marker of the search page is known exactly when it has been
  discovered, and the cache of metadata formats has distinct origins, at most eight entries and only entries that are valid
  for at most 300 seconds.
\<close>

theorem repository_calls_keep_invariants:
  assumes "list_all call_ok calls"
  shows "let s = fold (serve B R) calls repo_init; x = us_extra s
    in guard_inv (us_guard s) \<and> guard_active (fst (us_guard s)) = 0
       \<and> (rs_version x = None \<longleftrightarrow> rs_generation x = 0)
       \<and> distinct (map fst (rs_cache x)) \<and> length (rs_cache x) \<le> 8
       \<and> list_all (\<lambda>(origin, e). fle (fsub (ce_expires e) (ce_created e)) (Fin 300) \<and> flt (ce_created e) (ce_expires e)) (rs_cache x)"
proof -
  have "repo_inv repo_init" "live (snd (us_guard repo_init)) = []"
    using guard_init_inv by (simp_all add: repo_inv_def repo_init_def cache_of_def cache_inv_def live_def)
  with serves_safe [OF assms] have s: "repo_inv (fold (serve B R) calls repo_init)"
    "live (snd (us_guard (fold (serve B R) calls repo_init))) = []" by metis+
  then have "cache_inv (rs_cache (us_extra (fold (serve B R) calls repo_init)))" by (simp add: repo_inv_def cache_of_def)
  moreover have "guard_active (fst (us_guard (fold (serve B R) calls repo_init))) = 0"
    using s unfolding repo_inv_def guard_inv_def by (auto split: prod.splits)
  ultimately show ?thesis using s cache_inv_bounds unfolding Let_def repo_inv_def by blast
qed

section \<open>An example\<close>

definition example_libraries :: libraries where
  "example_libraries =
     \<lparr>lib = ascii_library, lib_digit = (\<lambda>c. if is_digit c then Some (c - 48) else None),
      lib_decode = (\<lambda>encoding bs. if encoding = codes ''utf-8'' \<and> list_all (\<lambda>b. b < 128) bs then Some bs else None),
      lib_url = (\<lambda>url _. url), lib_dump = (\<lambda>_. []), lib_float_repr = (\<lambda>_. []), lib_parse_fields = (\<lambda>_. None)\<rparr>"

definition example_repository :: NplgRepository where
  "example_repository =
     \<lparr>rp_validate_dns = False, rp_max_redirects = 3, rp_max_metadata_bytes = 100, rp_total_timeout = Fin 30, rp_secret = replicate 32 7\<rparr>"

definition example_text_io :: "bytes list \<Rightarrow> fetch_io" where
  "example_text_io chunks =
     \<lparr>fx_clock = (\<lambda>_. PFloat (Fin 1)),
      fx_attempt = (\<lambda>_. \<lparr>at_clock = PFloat (Fin 1), at_observer = NoObserver, at_dns = DnsApproved, at_paced = (Fin 1, Fin 1),
         at_now = PFloat (Fin 2),
         at_answer = Inr \<lparr>rs_status = 200, rs_headers = Map.empty, rs_charset = None, rs_chunks = chunks, rs_end = None\<rparr>,
         at_record_clock = PFloat (Fin 3), at_random = PFloat (Fin 0)\<rparr>),
      fx_fired = False\<rparr>"

definition example_answers :: "(pystr, pystr) parser_answers" where
  "example_answers =
     \<lparr>px_search = (\<lambda>text _ _. Inr (text, None)), px_search_version = (\<lambda>text _. Inr text), px_item = (\<lambda>text _ _. Inr text),
      px_metadata_formats = (\<lambda>_. Inr [codes ''dim'']), px_oai_record = (\<lambda>text _ _. Inr text)\<rparr>"

definition example_repo_calls :: "(pystr, pystr) repo_call list" where
  "example_repo_calls =
     (let io = example_text_io [codes ''ab'', [], codes ''c'']
      in [MetadataCall \<lparr>mx_formats = io, mx_record = io, mx_item = io, mx_now = Fin 1, mx_stored_at = Fin 2\<rparr> example_answers (Fin 30)
            (codes ''1234/5''),
          SearchCall \<lparr>sx_fetch = (\<lambda>_. io), sx_late = (\<lambda>_. False), sx_cursor_now = 0\<rparr> example_answers (Fin 30) (PStr (codes ''vepkhi''))
            (PInt 10) None None])"

lemma example_clocks: "fetch_ok (example_text_io chunks)"
  by (simp add: fetch_ok_def example_text_io_def clock_in_range_def)

theorem fetched_text_is_bounded_witness:
  "\<exists>s'. get_text example_libraries (example_text_io [codes ''ab'', [], codes ''c'']) example_repository search_url None HTML_TYPES (Fin 30)
       repo_init = (Inr (codes ''abc'', search_url), s')
     \<and> validate_upstream_url (lib example_libraries) search_url = Inr search_url"
proof -
  have "fst (get_text example_libraries (example_text_io [codes ''ab'', [], codes ''c'']) example_repository search_url None HTML_TYPES (Fin 30)
       repo_init) = Inr (codes ''abc'', search_url)" by code_simp
  then obtain s' where g: "get_text example_libraries (example_text_io [codes ''ab'', [], codes ''c'']) example_repository search_url None
      HTML_TYPES (Fin 30) repo_init = (Inr (codes ''abc'', search_url), s')" by (metis prod.collapse)
  have "0 \<le> rp_max_metadata_bytes example_repository" by (simp add: example_repository_def)
  from fetched_text_is_bounded [OF g this] g show ?thesis by blast
qed

theorem repository_calls_keep_invariants_witness:
  "let s = fold (serve example_libraries example_repository) example_repo_calls repo_init
   in guard_active (fst (us_guard s)) = 0 \<and> length (rs_cache (us_extra s)) = 1 \<and> rs_version (us_extra s) = Some (codes ''abc'')
      \<and> rs_generation (us_extra s) = 1 \<and> length (snd (us_guard s)) = 4"
proof -
  have "list_all call_ok example_repo_calls"
    by (simp add: example_repo_calls_def Let_def search_ok_def metadata_ok_def example_clocks)
  from repository_calls_keep_invariants [OF this, of example_libraries example_repository]
  have "guard_active (fst (us_guard (fold (serve example_libraries example_repository) example_repo_calls repo_init))) = 0"
    by (simp add: Let_def)
  moreover have "let s = fold (serve example_libraries example_repository) example_repo_calls repo_init
    in length (rs_cache (us_extra s)) = 1 \<and> rs_version (us_extra s) = Some (codes ''abc'')
      \<and> rs_generation (us_extra s) = 1 \<and> length (snd (us_guard s)) = 4" by code_simp
  ultimately show ?thesis by (simp add: Let_def)
qed

text \<open>
  The expiry of a cache entry is the clock plus the whole lifetime of 300 seconds, and that sum can round up: here the clock
  reads \<open>65530 + 3 / 2 ^ 37\<close> and the entry is refused.
\<close>

lemma cache_expiry_refused:
  "publish_metadata_formats origin formats (Fin (9006374621020163 / 137438953472)) []
     = (Inl (ValueError ''OAI discovery cache expiry is invalid''), [])"
proof -
  have "\<not> fle (fsub (fadd (Fin (9006374621020163 / 137438953472)) (Fin 300)) (Fin (9006374621020163 / 137438953472))) (Fin 300)"
    by code_simp
  then show ?thesis
    by (simp add: publish_metadata_formats_def cache_entry_valid_def OAI_DISCOVERY_CACHE_TTL_SECONDS_def del: fsub_Fin)
qed

end
