(* ===== verification/Spec2Isabelle.thy ===== *)
theory Spec2Isabelle
  imports Nplg_Errors Nplg_Admission Nplg_Resource_Admission Nplg_Deadline Nplg_Resilience Nplg_Json_Preflight Nplg_Clock Nplg_Lifecycle Nplg_Filesystem Nplg_Store Nplg_Prune Nplg_Publication Nplg_Publish Nplg_Startup Nplg_Json_Text Nplg_Tokens Nplg_Worker_Slot Nplg_Http_Lifecycle Nplg_Security
    Nplg_Pdf_Geometry Nplg_Pdf_Manifest Nplg_Pdf_Ipc Nplg_Pdf_Executor Nplg_Pdf_Client Nplg_Parser Nplg_Download Nplg_Network Nplg_Repository
begin

text \<open>
  A verification library for the NPLG DSpace MCP server, a read-only connector between language-model clients and the DSpace
  repository of the National Parliamentary Library of Georgia. The sources are the Python package \<^verbatim>\<open>src/nplg_mcp\<close>; paths below
  are relative to it.

  \<^bold>\<open>The program.\<close> A request enters through the HTTP security middleware, which admits it, bounds its time and body and checks its
  headers and JSON text. A tool then searches the repository, reads items and metadata, or downloads a document: each
  outbound request takes a permit of the upstream guard, is paced, checked against the URL policy and connected only to a
  public address of the repository. Markup and XML are parsed in disposable processes. A downloaded document is staged, scanned
  for malware and committed to a content-addressed store with quotas, leases, pruning and crash recovery. PDF pages and
  tiles are rendered by a worker process in an exclusive quota slot; its answers are bound to the command before they are
  published in the store. Clients reach the files through signed, expiring tokens, and searches continue through signed
  cursors. Errors leave the program only as bounded public errors.

  \<^bold>\<open>How the code is modelled.\<close> An operation is a function from the state of its object to the value or exception and the
  state it leaves (type \<open>op\<close> of \<open>Nplg_Prelude\<close>); a pure one returns \<open>res\<close>, a sum with the exception on the left. Python strings are lists of
  code points, bytes lists of naturals, integers are unbounded, floats are IEEE binary64 (\<open>Nplg_Float\<close>: exact rationals rounded to nearest,
  ties to even). Objects with shared references are identities in a heap or a store. What the operating system, another
  process, a clock or a third-party library answers is an argument: a record of outcomes (\<open>store_io\<close>, \<open>attempt_io\<close>, \<open>connect_io\<close>) or a
  function, and the theorems hold for every answer, so that every error path of the code is covered. Concurrency appears as runs
  of steps where the code shares state between tasks (gates, guard, lease, store, middleware).

  \<^bold>\<open>The theories.\<close>
  \<^item> \<open>Nplg_Prelude\<close>, \<open>Nplg_Float\<close>, \<open>Nplg_Interfaces\<close>: results, strings, lists, floats with the lemmas on rounding; the locales for invariants over
    runs and for specifications that every step follows. Shared by all others.
  \<^item> \<open>Nplg_Errors\<close> (\<^verbatim>\<open>errors.py\<close>): public errors. The snapshot of error details accepts exactly the bounded JSON trees and copies them (C1), and
    no other text of an exception reaches the client (C2).
  \<^item> \<open>Nplg_Admission\<close> (\<^verbatim>\<open>admission.py\<close>, \<^verbatim>\<open>bounded_work.py\<close>), \<open>Nplg_Resource_Admission\<close> (\<^verbatim>\<open>resource_admission.py\<close>), \<open>Nplg_Deadline\<close> (\<^verbatim>\<open>contracts/base.py\<close>, \<^verbatim>\<open>rate_limit.py\<close>):
    gates, the byte budget of responses, deadlines and pacing, with their accounting invariants.
  \<^item> \<open>Nplg_Resilience\<close> (\<^verbatim>\<open>resilience.py\<close>): the upstream guard, a bulkhead with a circuit breaker (C10).
  \<^item> \<open>Nplg_Json_Preflight\<close> (\<^verbatim>\<open>json_preflight.py\<close>), \<open>Nplg_Json\<close> and \<open>Nplg_Json_Text\<close> (\<^verbatim>\<open>json_types.py\<close> with the encoder and decoder of the standard library):
    the preflight accepts only bounded JSON without duplicate keys (C14), the boundary is typed (C34), and printing and reading are inverse (C35).
  \<^item> \<open>Nplg_Http_Security\<close> and \<open>Nplg_Http_Lifecycle\<close> (\<^verbatim>\<open>http_security.py\<close>, host rules of \<^verbatim>\<open>config.py\<close>): only checked requests are forwarded (C7), the requests
    in flight are bounded and every permit returns (C6).
  \<^item> \<open>Nplg_Clock\<close> and \<open>Nplg_Lifecycle\<close> (\<^verbatim>\<open>storage_lifecycle.py\<close>): the retention clock that survives restarts (C16), the persisted eviction order (C18), the
    capacity and policy records.
  \<^item> \<open>Nplg_Filesystem\<close>, \<open>Nplg_Store\<close>, \<open>Nplg_Prune\<close>, \<open>Nplg_Publication\<close>, \<open>Nplg_Staging\<close>, \<open>Nplg_Quota\<close>, \<open>Nplg_Commit\<close>, \<open>Nplg_Publish\<close>, \<open>Nplg_Startup\<close> (\<^verbatim>\<open>storage.py\<close>): the tree as
    \<^verbatim>\<open>lstat\<close> shows it, asset paths (C26), pruning (C19), publication reservations (C23, C24), staged writers and the quota (C27), commits and
    reader leases (C28, C29), and recovery at start-up (C32, C33).
  \<^item> \<open>Nplg_Digest\<close> (SHA-256, HMAC) and \<open>Nplg_Tokens\<close> (\<^verbatim>\<open>tokens.py\<close>): asset tokens and cursors (C36 to C38).
  \<^item> \<open>Nplg_Worker_Slot\<close> (\<^verbatim>\<open>pdf_worker_slot.py\<close>): the lease of the quota slot refines an exclusive lease (C39) and stays available (C40).
  \<^item> \<open>Nplg_Pdf_Geometry\<close>, \<open>Nplg_Pdf_Manifest\<close> (\<^verbatim>\<open>pdf.py\<close>, \<^verbatim>\<open>pdf_identity.py\<close>), \<open>Nplg_Pdf_Ipc\<close> (\<^verbatim>\<open>pdf_ipc.py\<close>), \<open>Nplg_Pdf_Executor\<close> (\<^verbatim>\<open>pdf_executor.py\<close>), \<open>Nplg_Pdf_Client\<close> (\<^verbatim>\<open>pdf_worker_client.py\<close>,
    parts of \<^verbatim>\<open>pdf_worker_main.py\<close>): tiles cover the page (C9), manifests are read back and verified (C5), the check of a frame terminates within its
    bounds (C11), the reservation around a worker call returns (C8), the circuit follows the failures (C15), and results are accepted only for
    the command that was sent (C3, C25).
  \<^item> \<open>Nplg_Security\<close> (\<^verbatim>\<open>security.py\<close>) and \<open>Nplg_Network\<close> (\<^verbatim>\<open>network.py\<close>): the URL and handle policy (C12), the CNAME chain (C22), and connections bound to
    the complete public DNS answer (C17).
  \<^item> \<open>Nplg_Upstream\<close> (the request loop that \<^verbatim>\<open>downloader.py\<close> and \<^verbatim>\<open>repository.py\<close> share), \<open>Nplg_Download\<close> (\<^verbatim>\<open>downloader.py\<close>), \<open>Nplg_Malware\<close> (\<^verbatim>\<open>malware.py\<close>), \<open>Nplg_Parser\<close>
    (\<^verbatim>\<open>parser_ipc.py\<close>, \<^verbatim>\<open>parser_executor.py\<close>, \<^verbatim>\<open>parser_worker_main.py\<close>), \<open>Nplg_Repository\<close> (\<^verbatim>\<open>repository.py\<close>): downloads are bound, clean PDFs (C21) and leave nothing
    reserved (C31), a clean verdict is for the bytes that were sent (C13), the parser process refines the parser (C4), texts are bounded (C20) and
    the repository's state stays consistent over any calls (C30).

  \<^bold>\<open>Loops and fuel.\<close> Loops are recursive functions with termination proofs. Four use a bound that is proved to be enough: the
  JSON decoder takes \<open>2 * length + 1\<close> steps on its input, the structural check of a worker frame \<open>MAX_JSON_VALUES + 1\<close> values (C11), reading
  a scanned stream as many chunks as it has bytes, and the redirect loop \<open>max_redirects + 1\<close> attempts, as \<^verbatim>\<open>range\<close> does.

  \<^bold>\<open>Assumptions.\<close> Hypotheses name what is documented of code outside the sources: the laws of the Unicode functions on ASCII
  text (\<open>library_laws\<close>), codecs that read back what they print, clocks that return floats in range, fresh random names. Each property with
  hypotheses is followed by an instance at concrete data.

  \<^bold>\<open>Not modelled.\<close> The MCP tools and the SDK boundary (\<^verbatim>\<open>tools.py\<close>, \<^verbatim>\<open>sdk_boundary.py\<close>, \<^verbatim>\<open>sdk_parity.py\<close>, \<^verbatim>\<open>mcp_server.py\<close>, \<^verbatim>\<open>services.py\<close>, \<^verbatim>\<open>full_runtime.py\<close>, \<^verbatim>\<open>app.py\<close>, \<^verbatim>\<open>contracts/\<close>)
  wire the components above to the SDK and to pydantic schemas, which are not part of the sources. The HTML and XML parsers (\<^verbatim>\<open>parsers.py\<close>) walk
  trees of third-party libraries; rendering and image decoding (\<^verbatim>\<open>pdf.py\<close>) call PDFium and Pillow. \<^verbatim>\<open>capabilities.py\<close> and \<^verbatim>\<open>private_tls.py\<close> compare
  records and certificates with fixed evidence. Process control, sockets and resource limits of the workers are system
  calls, and so is the rest of \<^verbatim>\<open>config.py\<close>, which reads the environment. The scripts under \<^verbatim>\<open>scripts/\<close> are tooling for releases.
\<close>

end
